(* ===== verification/Go_Prelude.thy ===== *)
theory Go_Prelude
  imports Main "HOL-Library.Word" "HOL-Library.AList" "HOL-Library.Multiset"
begin

text \<open>
  The prelude of the development: the fragments of the Go language and of its runtime that the
  client uses (fixed-width integers, buffered channels, panics, one-shot futures, compare and swap),
  the error values of \<^verbatim>\<open>pkg/solace/errors.go\<close>, and the interfaces that several components
  share: a first-in first-out queue, bounded and unbounded, and a registry of numbered handlers.
  Each interface is a locale whose laws the components discharge by interpretation.
\<close>

named_theorems chan_defs \<open>the channel operations\<close>
named_theorems errval_defs \<open>the constructors of error values\<close>

section \<open>Integers\<close>

text \<open>
  Go's \<^verbatim>\<open>uintN\<close> and \<^verbatim>\<open>intN\<close> are both \<open>N word\<close>: \<open>uint\<close> or \<open>unat\<close> reads a word as
  unsigned, \<open>sint\<close> as two's complement. \<^verbatim>\<open>int\<close>, \<^verbatim>\<open>uint\<close> and \<^verbatim>\<open>uintptr\<close> are 64 bits wide on
  every platform the module is built for.
\<close>

type_synonym u8 = "8 word"
type_synonym u16 = "16 word"
type_synonym u32 = "32 word"
type_synonym u64 = "64 word"

lemma of_nat_u64_eq: "m < 2 ^ 64 \<Longrightarrow> n < 2 ^ 64 \<Longrightarrow> (of_nat m :: u64) = of_nat n \<longleftrightarrow> m = n"
  by (simp add: word_of_nat_eq_iff take_bit_nat_eq_self)

section \<open>Association lists\<close>

text \<open>
  A Go map that the code iterates over is an association list: the list order stands for the
  iteration order, which Go leaves open.
\<close>

lemma map_of_filter_neq: "map_of (filter (\<lambda>p. fst p \<noteq> k) xs) = (map_of xs)(k := None)"
  by (induction xs) (auto simp: fun_eq_iff)

lemma update_fresh: "k \<notin> fst ` set xs \<Longrightarrow> AList.update k v xs = xs @ [(k, v)]"
  by (induction xs) auto

lemma delete_filter: "AList.delete k xs = filter (\<lambda>p. fst p \<noteq> k) xs"
  by (induction xs) auto

lemma filter_key_fresh: "k \<notin> fst ` set xs \<Longrightarrow> filter (\<lambda>p. fst p \<noteq> k) xs = xs"
  by (induction xs) auto

lemma filter_key_single: "distinct (map fst xs) \<Longrightarrow> (k, v) \<in> set xs \<Longrightarrow> filter (\<lambda>p. fst p = k) xs = [(k, v)]"
  by (induction xs) (force simp: filter_empty_conv)+

section \<open>Errors\<close>

text \<open>
  The error types of \<^verbatim>\<open>pkg/solace/errors.go\<close>. An error is a kind, a message and an optional wrapped
  error; a native error carries the sub code of the C library. A message is kept as a format string
  with its arguments instead of the formatted text.
\<close>

datatype error_kind =
    AuthenticationError
  | IllegalStateError
  | IllegalArgumentError
  | InvalidConfigurationError
  | PublisherOverflowError
  | IncompleteMessageDeliveryError
  | ServiceUnreachableError
  | TimeoutError
  | MessageReplayError

datatype fmt_arg = ArgStr string | ArgInt int

datatype go_error =
    SolaceError error_kind (err_format: string) "fmt_arg list" (Unwrap: "go_error option")
  | NativeError string (SubCode: int)

definition NewError :: "error_kind \<Rightarrow> string \<Rightarrow> fmt_arg list \<Rightarrow> go_error option \<Rightarrow> go_error" where
  [errval_defs]: "NewError k msg args wrapped = SolaceError k msg args wrapped"

fun error_kind_of :: "go_error \<Rightarrow> error_kind option" where
  "error_kind_of (SolaceError k m a w) = Some k"
| "error_kind_of (NativeError m c) = None"

lemma error_kind_of_NewError [simp]: "error_kind_of (NewError k m a w) = Some k"
  by (simp add: NewError_def)

section \<open>Channels\<close>

text \<open>
  A Go channel: its queued elements, its capacity and whether it has been closed. A send on a closed
  channel panics, on a full one blocks; a receive takes the oldest element, reports closure once the
  channel is closed and drained, and otherwise blocks; closing twice panics. A signal channel
  (\<^verbatim>\<open>chan struct{}\<close> that is only ever closed) is a \<open>bool\<close>, closed or not.
\<close>

datatype go_panic = CloseOfClosedChannel | SendOnClosedChannel | NilDereference

datatype 'a outcome = Return 'a | Blocks | Panics go_panic

fun outcome_bind :: "'a outcome \<Rightarrow> ('a \<Rightarrow> 'b outcome) \<Rightarrow> 'b outcome" where
  "outcome_bind (Return x) f = f x"
| "outcome_bind Blocks f = Blocks"
| "outcome_bind (Panics p) f = Panics p"

lemma outcome_bind_Return: "outcome_bind m f = Return y \<longleftrightarrow> (\<exists>x. m = Return x \<and> f x = Return y)"
  by (cases m) auto

fun outcome_map :: "('a \<Rightarrow> 'b) \<Rightarrow> 'a outcome \<Rightarrow> 'b outcome" where
  "outcome_map f (Return x) = Return (f x)"
| "outcome_map f Blocks = Blocks"
| "outcome_map f (Panics p) = Panics p"

lemma outcome_map_Return: "outcome_map f m = Return y \<longleftrightarrow> (\<exists>x. m = Return x \<and> y = f x)"
  by (cases m) auto

lemma outcome_map_bind:
  "outcome_map f (outcome_bind m g) = outcome_bind m (\<lambda>x. outcome_map f (g x))"
  by (cases m) auto

lemma outcome_bind_Return_id: "outcome_bind m Return = m"
  by (cases m) auto

record 'a chan =
  chan_items :: "'a list"
  chan_cap :: nat
  chan_closed :: bool

definition make_chan :: "nat \<Rightarrow> 'a chan" where
  [chan_defs]: "make_chan n = \<lparr>chan_items = [], chan_cap = n, chan_closed = False\<rparr>"

definition chan_len :: "'a chan \<Rightarrow> nat" where
  [chan_defs]: "chan_len c = length (chan_items c)"

definition chan_send :: "'a \<Rightarrow> 'a chan \<Rightarrow> 'a chan outcome" where
  [chan_defs]: "chan_send x c =
     (if chan_closed c then Panics SendOnClosedChannel
      else if length (chan_items c) < chan_cap c
        then Return (c\<lparr>chan_items := chan_items c @ [x]\<rparr>)
      else Blocks)"

definition chan_recv :: "'a chan \<Rightarrow> ('a option \<times> 'a chan) outcome" where
  [chan_defs]: "chan_recv c =
     (case chan_items c of
        x # xs \<Rightarrow> Return (Some x, c\<lparr>chan_items := xs\<rparr>)
      | [] \<Rightarrow> if chan_closed c then Return (None, c) else Blocks)"

definition chan_close :: "'a chan \<Rightarrow> 'a chan outcome" where
  [chan_defs]: "chan_close c =
     (if chan_closed c then Panics CloseOfClosedChannel else Return (c\<lparr>chan_closed := True\<rparr>))"

definition signal_close :: "bool \<Rightarrow> bool outcome" where
  [chan_defs]: "signal_close closed = (if closed then Panics CloseOfClosedChannel else Return True)"

definition chan_wf :: "'a chan \<Rightarrow> bool" where
  "chan_wf c \<longleftrightarrow> length (chan_items c) \<le> chan_cap c"

lemma chan_wf_make [simp]: "chan_wf (make_chan n)"
  by (simp add: chan_wf_def make_chan_def)

lemma chan_send_wf: "chan_send x c = Return c' \<Longrightarrow> chan_wf c'"
  by (auto simp: chan_wf_def chan_send_def split: if_splits)

lemma chan_recv_wf: "chan_recv c = Return (r, c') \<Longrightarrow> chan_wf c \<Longrightarrow> chan_wf c'"
  by (auto simp: chan_wf_def chan_recv_def split: list.splits if_splits)

lemma chan_close_wf: "chan_close c = Return c' \<Longrightarrow> chan_wf c \<Longrightarrow> chan_wf c'"
  by (auto simp: chan_wf_def chan_close_def split: if_splits)

lemma chan_send_items: "chan_send x c = Return c' \<Longrightarrow>
    chan_items c' = chan_items c @ [x] \<and> chan_cap c' = chan_cap c \<and> \<not> chan_closed c'"
  by (auto simp: chan_send_def split: if_splits)

lemma chan_recv_Some: "chan_recv c = Return (Some x, c') \<Longrightarrow>
    chan_items c = x # chan_items c' \<and> chan_cap c' = chan_cap c \<and> chan_closed c' = chan_closed c"
  by (auto simp: chan_recv_def split: list.splits if_splits)

lemma chan_recv_None: "chan_recv c = Return (None, c') \<longleftrightarrow>
    c' = c \<and> chan_closed c \<and> chan_items c = []"
  by (auto simp: chan_recv_def split: list.splits if_splits)

lemma chan_recv_Blocks: "chan_recv c = Blocks \<longleftrightarrow> chan_items c = [] \<and> \<not> chan_closed c"
  by (auto simp: chan_recv_def split: list.splits if_splits)

lemma chan_recv_no_panic [simp]: "chan_recv c \<noteq> Panics p"
  by (auto simp: chan_recv_def split: list.splits)

text \<open>
  \<^verbatim>\<open>for x := range c\<close> on a closed channel: the elements in order, after which the channel is empty.
\<close>

definition chan_range :: "'a chan \<Rightarrow> 'a list \<times> 'a chan" where
  [chan_defs]: "chan_range c = (chan_items c, c\<lparr>chan_items := []\<rparr>)"

text \<open>
  \<open>chan_range\<close> is what a loop of receives computes on a closed channel.
\<close>

fun recv_loop :: "nat \<Rightarrow> 'a chan \<Rightarrow> ('a list \<times> 'a chan) option" where
  "recv_loop 0 c = None"
| "recv_loop (Suc k) c =
     (case chan_recv c of
        Return (Some x, c') \<Rightarrow> map_option (\<lambda>(xs, d). (x # xs, d)) (recv_loop k c')
      | Return (None, c') \<Rightarrow> Some ([], c')
      | _ \<Rightarrow> None)"

lemma recv_loop_range:
  "chan_closed c \<Longrightarrow> length (chan_items c) < k \<Longrightarrow> recv_loop k c = Some (chan_range c)"
proof (induction k arbitrary: c)
  case 0
  then show ?case by simp
next
  case (Suc k)
  show ?case
  proof (cases "chan_items c")
    case Nil
    with Suc.prems show ?thesis by (auto simp: chan_recv_def chan_range_def)
  next
    case (Cons x xs)
    with Suc.prems Suc.IH [of "c\<lparr>chan_items := xs\<rparr>"] show ?thesis
      by (simp add: chan_recv_def chan_range_def)
  qed
qed

section \<open>First-in first-out queues\<close>

text \<open>
  The contract of a queue: \<open>put\<close> may refuse, \<open>get\<close> fails exactly on the empty queue, and both
  respect the order of the contents. The clients' lemmas are about putting a list and taking a
  number of elements.
\<close>

primrec put_all :: "('a \<Rightarrow> 'q \<Rightarrow> 'q option) \<Rightarrow> 'a list \<Rightarrow> 'q \<Rightarrow> 'q option" where
  "put_all put [] q = Some q"
| "put_all put (x # xs) q = (case put x q of None \<Rightarrow> None | Some q' \<Rightarrow> put_all put xs q')"

primrec get_many :: "('q \<Rightarrow> ('a \<times> 'q) option) \<Rightarrow> nat \<Rightarrow> 'q \<Rightarrow> 'a list \<times> 'q" where
  "get_many get 0 q = ([], q)"
| "get_many get (Suc n) q =
     (case get q of None \<Rightarrow> ([], q) | Some (x, q') \<Rightarrow> let (xs, q'') = get_many get n q' in (x # xs, q''))"

locale fifo =
  fixes contents :: "'q \<Rightarrow> 'a list"
    and put :: "'a \<Rightarrow> 'q \<Rightarrow> 'q option"
    and get :: "'q \<Rightarrow> ('a \<times> 'q) option"
    and invar :: "'q \<Rightarrow> bool"
  assumes put_contents: "invar q \<Longrightarrow> put x q = Some q' \<Longrightarrow> contents q' = contents q @ [x]"
    and put_invar: "invar q \<Longrightarrow> put x q = Some q' \<Longrightarrow> invar q'"
    and get_empty: "invar q \<Longrightarrow> get q = None \<longleftrightarrow> contents q = []"
    and get_contents: "invar q \<Longrightarrow> get q = Some (x, q') \<Longrightarrow> contents q = x # contents q'"
    and get_invar: "invar q \<Longrightarrow> get q = Some (x, q') \<Longrightarrow> invar q'"
begin

lemma put_all_contents:
  "invar q \<Longrightarrow> put_all put xs q = Some q' \<Longrightarrow> contents q' = contents q @ xs \<and> invar q'"
proof (induction xs arbitrary: q)
  case Nil
  then show ?case by simp
next
  case (Cons x xs)
  then obtain p where p: "put x q = Some p" and rest: "put_all put xs p = Some q'"
    by (auto split: option.splits)
  from Cons.prems(1) p have "contents p = contents q @ [x]" and "invar p"
    by (auto intro: put_contents put_invar)
  with Cons.IH [OF \<open>invar p\<close> rest] show ?case by simp
qed

lemma get_many_contents:
  "invar q \<Longrightarrow> get_many get n q = (xs, q') \<Longrightarrow>
     xs = take n (contents q) \<and> contents q' = drop n (contents q) \<and> invar q'"
proof (induction n arbitrary: q xs)
  case 0
  then show ?case by simp
next
  case (Suc n)
  show ?case
  proof (cases "get q")
    case None
    with Suc.prems show ?thesis by (auto simp: get_empty)
  next
    case (Some p)
    obtain x r where p: "p = (x, r)" by (cases p)
    obtain ys where ys: "get_many get n r = (ys, q')" and xs: "xs = x # ys"
      using Suc.prems(2) Some p by (auto split: prod.splits)
    have "invar r" and "contents q = x # contents r"
      using Suc.prems(1) Some p by (auto intro: get_invar get_contents)
    with Suc.IH [OF \<open>invar r\<close> ys] xs show ?thesis by simp
  qed
qed

text \<open>What goes into an empty queue comes out in the same order.\<close>

lemma fifo_order:
  assumes "invar q" and "contents q = []" and "put_all put xs q = Some q'"
  shows "fst (get_many get (length xs) q') = xs"
proof -
  obtain ys r where ys: "get_many get (length xs) q' = (ys, r)" by (cases "get_many get (length xs) q'")
  from put_all_contents [OF assms(1,3)] assms(2) have "contents q' = xs" and "invar q'" by auto
  with get_many_contents [OF \<open>invar q'\<close> ys] ys show ?thesis by simp
qed

end

locale bounded_fifo = fifo +
  fixes capacity :: "'b \<Rightarrow> nat"
  assumes put_refused: "invar q \<Longrightarrow> put x q = None \<longleftrightarrow> length (contents q) = capacity q"
    and within_capacity: "invar q \<Longrightarrow> length (contents q) \<le> capacity q"
    and put_capacity: "invar q \<Longrightarrow> put x q = Some q' \<Longrightarrow> capacity q' = capacity q"
begin

lemma put_all_accepted:
  "invar q \<Longrightarrow> length (contents q) + length xs \<le> capacity q \<Longrightarrow> \<exists>q'. put_all put xs q = Some q'"
proof (induction xs arbitrary: q)
  case Nil
  then show ?case by simp
next
  case (Cons x xs)
  then have "put x q \<noteq> None" by (auto simp: put_refused)
  then obtain p where p: "put x q = Some p" by blast
  with Cons.prems have "invar p" and "length (contents p) + length xs \<le> capacity p"
    using put_invar [of q x p] put_contents [of q x p] put_capacity [of q x p] by auto
  with Cons.IH p show ?case by auto
qed

end

locale unbounded_fifo = fifo +
  assumes put_accepts: "invar q \<Longrightarrow> put x q \<noteq> None"
begin

lemma put_all_never_refused: "invar q \<Longrightarrow> \<exists>q'. put_all put xs q = Some q'"
proof (induction xs arbitrary: q)
  case Nil
  then show ?case by simp
next
  case (Cons x xs)
  then obtain p where p: "put x q = Some p" using put_accepts by blast
  with Cons.prems have "invar p" by (auto intro: put_invar)
  with Cons.IH p show ?case by auto
qed

end

text \<open>An open channel, written and read without blocking, is a bounded queue.\<close>

definition chan_put :: "'a \<Rightarrow> 'a chan \<Rightarrow> 'a chan option" where
  "chan_put x c = (case chan_send x c of Return c' \<Rightarrow> Some c' | _ \<Rightarrow> None)"

definition chan_get :: "'a chan \<Rightarrow> ('a \<times> 'a chan) option" where
  "chan_get c = (case chan_recv c of Return (Some x, c') \<Rightarrow> Some (x, c') | _ \<Rightarrow> None)"

definition chan_open :: "'a chan \<Rightarrow> bool" where
  "chan_open c \<longleftrightarrow> chan_wf c \<and> \<not> chan_closed c"

lemma chan_open_make [simp]: "chan_open (make_chan n)"
  by (simp add: chan_open_def chan_wf_def make_chan_def)

interpretation openchan: bounded_fifo chan_items chan_put chan_get chan_open chan_cap
proof unfold_locales
qed (auto simp: chan_put_def chan_get_def chan_open_def chan_wf_def chan_send_def chan_recv_def
       split: if_splits list.splits outcome.splits option.splits)

section \<open>Registries of numbered handlers\<close>

text \<open>
  Events, acknowledgement handlers, receive callbacks and service listeners are all kept in maps
  from a number to a handler, the number being the next value of a 64-bit counter. The contract
  gives the effect of a registration and of a removal on the lookup function. A registration
  overwrites nothing as long as the counter has not wrapped around.
\<close>

primrec add_many :: "('h \<Rightarrow> 's \<Rightarrow> u64 \<times> 's) \<Rightarrow> 'h list \<Rightarrow> 's \<Rightarrow> u64 list \<times> 's" where
  "add_many add [] s = ([], s)"
| "add_many add (h # hs) s =
     (let (i, s') = add h s; (is, s'') = add_many add hs s' in (i # is, s''))"

locale handler_registry =
  fixes add :: "'h \<Rightarrow> 's \<Rightarrow> u64 \<times> 's"
    and remove :: "u64 \<Rightarrow> 's \<Rightarrow> 's"
    and look :: "'s \<Rightarrow> u64 \<Rightarrow> 'h option"
    and last_id :: "'s \<Rightarrow> u64"
    and invar :: "'s \<Rightarrow> bool"
  assumes add_id: "invar s \<Longrightarrow> fst (add h s) = last_id s + 1"
    and add_last: "invar s \<Longrightarrow> last_id (snd (add h s)) = last_id s + 1"
    and add_look: "invar s \<Longrightarrow> last_id s \<noteq> - 1 \<Longrightarrow>
          look (snd (add h s)) = (look s)(last_id s + 1 \<mapsto> h)"
    and add_invar: "invar s \<Longrightarrow> last_id s \<noteq> - 1 \<Longrightarrow> invar (snd (add h s))"
    and remove_look: "invar s \<Longrightarrow> look (remove i s) = (look s)(i := None)"
    and remove_last: "invar s \<Longrightarrow> last_id (remove i s) = last_id s"
    and remove_invar: "invar s \<Longrightarrow> invar (remove i s)"
    and ids_bounded: "invar s \<Longrightarrow> look s i \<noteq> None \<Longrightarrow> i \<le> last_id s"
begin

lemma fresh_id: "invar s \<Longrightarrow> last_id s \<noteq> - 1 \<Longrightarrow> look s (last_id s + 1) = None"
  by (metis ids_bounded inc_less_eq_self_iff_eq)

text \<open>A registration is visible under the returned number and disturbs no other.\<close>

lemma lookup_added:
  assumes "invar s" and "last_id s \<noteq> - 1" and "add h s = (i, s')"
  shows "look s' = (look s)(i \<mapsto> h)"
  using add_look [OF assms(1,2), of h] add_id [OF assms(1), of h] assms(3) by simp

text \<open>Adding and then removing the returned number restores every lookup.\<close>

lemma remove_added:
  assumes "invar s" and "last_id s \<noteq> - 1" and "add h s = (i, s')"
  shows "look (remove i s') = look s"
proof -
  have "invar s'" using add_invar [OF assms(1,2), of h] assms(3) by simp
  then have "look (remove i s') = (look s)(i := None)"
    using remove_look lookup_added [OF assms] by simp
  moreover have "look s i = None"
    using fresh_id [OF assms(1,2)] add_id [OF assms(1), of h] assms(3) by simp
  ultimately show ?thesis by auto
qed

text \<open>
  While the counter does not wrap, successive registrations return distinct numbers, each of
  which finds its own handler.
\<close>

lemma add_many_lookup:
  "invar s \<Longrightarrow> unat (last_id s) + length hs < 2 ^ 64 \<Longrightarrow> add_many add hs s = (is, s') \<Longrightarrow>
     length is = length hs \<and> distinct is \<and> (\<forall>i \<in> set is. last_id s < i) \<and>
     (\<forall>k < length hs. look s' (is ! k) = Some (hs ! k)) \<and>
     (\<forall>i. i \<le> last_id s \<longrightarrow> look s' i = look s i)"
proof (induction hs arbitrary: s "is")
  case Nil
  then show ?case by simp
next
  case (Cons h hs)
  obtain i t where it: "add h s = (i, t)" by (cases "add h s")
  obtain js where js: "add_many add hs t = (js, s')" and is_eq: "is = i # js"
    using Cons.prems(3) it by (auto split: prod.splits)
  have nomax: "last_id s \<noteq> - 1"
    using Cons.prems(2) by (auto simp: unsigned_minus_1_eq_mask mask_eq_exp_minus_1)
  have inv_t: "invar t" using add_invar [OF Cons.prems(1) nomax, of h] it by simp
  have i: "i = last_id s + 1" using add_id [OF Cons.prems(1), of h] it by simp
  have lt: "last_id t = i" using add_last [OF Cons.prems(1), of h] it i by simp
  have less: "last_id s < i" using nomax i by (metis inc_less_eq_self_iff_eq not_le)
  have "unat (last_id t) = unat (last_id s) + 1"
    unfolding lt i using Cons.prems(2) by (simp add: unat_word_ariths)
  then have "unat (last_id t) + length hs < 2 ^ 64" using Cons.prems(2) by simp
  note IH = Cons.IH [OF inv_t this js]
  have lk: "look t = (look s)(i \<mapsto> h)" by (rule lookup_added [OF Cons.prems(1) nomax it])
  have "\<forall>k < length (h # hs). look s' (is ! k) = Some ((h # hs) ! k)"
    using IH lt lk is_eq by (auto simp: nth_Cons split: nat.splits)
  moreover have "\<forall>j. j \<le> last_id s \<longrightarrow> look s' j = look s j"
    using IH lt lk less by (auto dest: leD intro: order.trans less_imp_le)
  ultimately show ?case
    using IH is_eq lt less by (auto intro: less_trans)
qed

end

section \<open>Futures and compare-and-swap\<close>

text \<open>
  \<^verbatim>\<open>internal/impl/future/future_error.go\<close>: a one-shot error cell. \<^verbatim>\<open>Complete\<close> stores the result and
  marks the future resolved; \<^verbatim>\<open>Get\<close> blocks until it is resolved.
\<close>

record futureError =
  resolved :: bool
  result :: "go_error option"

definition NewFutureError :: futureError where
  "NewFutureError = \<lparr>resolved = False, result = None\<rparr>"

definition future_Complete :: "go_error option \<Rightarrow> futureError \<Rightarrow> futureError" where
  "future_Complete err f = f\<lparr>result := err, resolved := True\<rparr>"

definition future_Get :: "futureError \<Rightarrow> go_error option outcome" where
  "future_Get f = (if resolved f then Return (result f) else Blocks)"

lemma future_Get_Complete [simp]: "future_Get (future_Complete e f) = Return e"
  by (simp add: future_Get_def future_Complete_def)

lemma future_Get_New [simp]: "future_Get NewFutureError = Blocks"
  by (simp add: future_Get_def NewFutureError_def)

lemma resolved_simps [simp]: "resolved (future_Complete e f)" "\<not> resolved NewFutureError"
  by (simp_all add: future_Complete_def NewFutureError_def)

text \<open>\<^verbatim>\<open>atomic.CompareAndSwapInt32\<close> on a state variable: whether it swapped, and the value after.\<close>

definition CompareAndSwap :: "'a \<Rightarrow> 'a \<Rightarrow> 'a \<Rightarrow> bool \<times> 'a" where
  "CompareAndSwap old new cur = (if cur = old then (True, new) else (False, cur))"

lemma CompareAndSwap_simps [simp]:
  "CompareAndSwap old new old = (True, new)"
  "cur \<noteq> old \<Longrightarrow> CompareAndSwap old new cur = (False, cur)"
  by (simp_all add: CompareAndSwap_def)

end
