(* ===== verification/Core_Errors.thy ===== *)
theory Core_Errors
  imports Go_Prelude
begin

text \<open>
  The error texts of \<^verbatim>\<open>internal/impl/constants/error_strings.go\<close>, the error information a call into
  the C library returns (\<^verbatim>\<open>internal/ccsmp/ccsmp_core.go\<close>) and its translation into the error types
  of the API, \<^verbatim>\<open>ToNativeError\<close> of \<^verbatim>\<open>internal/impl/core/error.go\<close>.
\<close>

section \<open>Error texts\<close>

definition UnableToModifyPropertyOfDisconnectedService :: string where
  "UnableToModifyPropertyOfDisconnectedService = ''unable to modify a property of a service that is disconnected''"

definition UnableToModifyNonModifiableGivenServiceProperty :: string where
  "UnableToModifyNonModifiableGivenServiceProperty = ''unable to modify the non-modifiable given service property: %s''"

definition UnableToConnectAlreadyDisconnectedService :: string where
  "UnableToConnectAlreadyDisconnectedService = ''unable to connect messaging service in state %s''"

definition UnableToDisconnectUnstartedService :: string where
  "UnableToDisconnectUnstartedService = ''unable to disconnect messaging service in state %s''"

definition UnableToPublishAlreadyTerminated :: string where
  "UnableToPublishAlreadyTerminated = ''unable to publish message: message publisher has been terminated''"

definition UnableToPublishNotStarted :: string where
  "UnableToPublishNotStarted = ''unable to publish message: message publisher is not started. current state: ''"

definition UnableToTerminatePublisher :: string where
  "UnableToTerminatePublisher = ''cannot terminate the publisher as it has not been started''"

definition UnableToStartPublisher :: string where
  "UnableToStartPublisher = ''cannot start the publisher as it has already been terminated''"

definition UnableToStartPublisherParentServiceNotStarted :: string where
  "UnableToStartPublisherParentServiceNotStarted = ''cannot start publisher unless parent MessagingService is connected''"

definition UnableToTerminateReceiver :: string where
  "UnableToTerminateReceiver = ''cannot terminate the receiver as it has not been started''"

definition UnableToStartReceiver :: string where
  "UnableToStartReceiver = ''cannot start the receiver as it has already been terminated''"

definition UnableToStartReceiverParentServiceNotStarted :: string where
  "UnableToStartReceiverParentServiceNotStarted = ''cannot start receiver unless parent MessagingService is connected''"

definition UnableToModifySubscriptionBadState :: string where
  "UnableToModifySubscriptionBadState = ''unable to modify subscriptions in state %s''"

definition DirectReceiverUnsupportedSubscriptionType :: string where
  "DirectReceiverUnsupportedSubscriptionType = ''DirectMessageReceiver does not support subscriptions of type %T''"

definition ReceiverTimedOutWaitingForMessage :: string where
  "ReceiverTimedOutWaitingForMessage = ''timed out waiting for message on call to Receive''"

definition ReceiverCannotReceiveNotStarted :: string where
  "ReceiverCannotReceiveNotStarted = ''receiver has not yet been started, no messages to receive''"

definition ReceiverCannotReceiveAlreadyTerminated :: string where
  "ReceiverCannotReceiveAlreadyTerminated = ''receiver has been terminated, no messages to receive''"

definition WouldBlock :: string where
  "WouldBlock = ''buffer is full, cannot queue additional messages''"

definition IncompleteMessageDeliveryMessage :: string where
  "IncompleteMessageDeliveryMessage = ''failed to publish messages, publisher terminated with %d undelivered messages''"

definition IncompleteMessageDeliveryMessageWithUnacked :: string where
  "IncompleteMessageDeliveryMessageWithUnacked = ''failed to publish messages, publisher terminated with %d undelivered messages and %d unacknowledged messages''"

definition IncompleteMessageReceptionMessage :: string where
  "IncompleteMessageReceptionMessage = ''failed to dispatch messages, receiver terminated with %d undelivered messages''"

definition LoginFailure :: string where
  "LoginFailure = ''failed to authenticate with the broker: ''"

definition UnresolvedSession :: string where
  "UnresolvedSession = ''requested service is unreachable: ''"

definition UnableToRegisterCallbackReceiverTerminating :: string where
  "UnableToRegisterCallbackReceiverTerminating = ''cannot register message handler, receiver is not running''"

definition InvalidOutboundMessageType :: string where
  "InvalidOutboundMessageType = ''got an invalid OutboundMessage, was it built by OutboundMessageBuilder? backing type %T''"

definition TerminatedOnMessagingServiceShutdown :: string where
  "TerminatedOnMessagingServiceShutdown = ''terminated due to MessagingService disconnect''"

definition CouldNotConfirmSubscriptionServiceUnavailable :: string where
  "CouldNotConfirmSubscriptionServiceUnavailable = ''could not confirm subscription, the messaging service was terminated''"

definition CouldNotConfirmProvisionDeprovisionServiceUnavailable :: string where
  "CouldNotConfirmProvisionDeprovisionServiceUnavailable =
     ''could not confirm provision/deprovision, the messaging service was terminated''"

definition InvalidConfiguration :: string where
  "InvalidConfiguration = ''invalid configuration provided: ''"

section \<open>Error information of the C library\<close>

text \<open>
  \<^verbatim>\<open>SolClientErrorInfoWrapper\<close>: a return code and, when the library recorded one, a sub code with
  its text.
\<close>

datatype SolClientReturnCode =
    SolClientReturnCodeOk
  | SolClientReturnCodeWouldBlock
  | SolClientReturnCodeInProgress
  | SolClientReturnCodeNotReady
  | SolClientReturnCodeEos
  | SolClientReturnCodeNotFound
  | SolClientReturnCodeNoevent
  | SolClientReturnCodeIncomplete
  | SolClientReturnCodeRollback
  | SolClientReturnCodeFail

record ErrorInfo =
  ReturnCode :: SolClientReturnCode
  DetailedErrorInfo :: "(int \<times> string) option"

definition GetMessageAsString :: "ErrorInfo \<Rightarrow> string" where
  "GetMessageAsString info = (case DetailedErrorInfo info of None \<Rightarrow> [] | Some (c, s) \<Rightarrow> s)"

definition ErrorInfo_SubCode :: "ErrorInfo \<Rightarrow> int" where
  "ErrorInfo_SubCode info = (case DetailedErrorInfo info of None \<Rightarrow> 0 | Some (c, s) \<Rightarrow> c)"

section \<open>Translation to API errors\<close>

text \<open>The sub codes the translation distinguishes (\<^verbatim>\<open>pkg/solace/subcode/subcode_generated.go\<close>).\<close>

definition subcode_ParamOutOfRange :: int where "subcode_ParamOutOfRange = 1"
definition subcode_ParamNullPtr :: int where "subcode_ParamNullPtr = 2"
definition subcode_ParamConflict :: int where "subcode_ParamConflict = 3"
definition subcode_LoginFailure :: int where "subcode_LoginFailure = 19"
definition subcode_UnresolvedHost :: int where "subcode_UnresolvedHost = 89"

text \<open>
  The sub codes of message replay, in the order the switch of \<^verbatim>\<open>ToNativeError\<close> lists them:
  \<^verbatim>\<open>ReplayNotSupported\<close>,
  \<^verbatim>\<open>ReplayDisabled\<close>,
  \<^verbatim>\<open>ClientInitiatedReplayNonExclusiveNotAllowed\<close>,
  \<^verbatim>\<open>ClientInitiatedReplayInactiveFlowNotAllowed\<close>,
  \<^verbatim>\<open>ClientInitiatedReplayBrowserFlowNotAllowed\<close>,
  \<^verbatim>\<open>ReplayTemporaryNotSupported\<close>,
  \<^verbatim>\<open>UnknownStartLocationType\<close>,
  \<^verbatim>\<open>ReplayMessageUnavailable\<close>,
  \<^verbatim>\<open>ReplayStarted\<close>,
  \<^verbatim>\<open>ReplayCancelled\<close>,
  \<^verbatim>\<open>ReplayStartTimeNotAvailable\<close>,
  \<^verbatim>\<open>ReplayMessageRejected\<close>,
  \<^verbatim>\<open>ReplayLogModified\<close>,
  \<^verbatim>\<open>MismatchedEndpointErrorID\<close>,
  \<^verbatim>\<open>OutOfReplayResources\<close>,
  \<^verbatim>\<open>ReplayStartMessageUnavailable\<close>,
  \<^verbatim>\<open>ReplayAnonymousNotSupported\<close>.
\<close>

definition replay_subcodes :: "int list" where
  "replay_subcodes = [133, 134, 135, 136, 137, 138, 139, 140, 141, 142, 143, 144, 145, 146, 147, 156, 158]"

lemmas subcode_defs = subcode_ParamOutOfRange_def subcode_ParamNullPtr_def subcode_ParamConflict_def
  subcode_LoginFailure_def subcode_UnresolvedHost_def

definition ToNativeError :: "ErrorInfo \<Rightarrow> string \<Rightarrow> go_error" where
  "ToNativeError err prefix =
     (let nativeError = NativeError (prefix @ GetMessageAsString err) (ErrorInfo_SubCode err);
          code = ErrorInfo_SubCode err;
          text = prefix @ GetMessageAsString err
      in if code = subcode_LoginFailure
           then NewError AuthenticationError (LoginFailure @ text) [] (Some nativeError)
         else if code = subcode_UnresolvedHost
           then NewError ServiceUnreachableError (UnresolvedSession @ text) [] (Some nativeError)
         else if code \<in> {subcode_ParamConflict, subcode_ParamOutOfRange, subcode_ParamNullPtr}
           then NewError InvalidConfigurationError (InvalidConfiguration @ text) [] (Some nativeError)
         else if code \<in> set replay_subcodes
           then NewError MessageReplayError (GetMessageAsString err) [] (Some nativeError)
         else nativeError)"

text \<open>Every translated error keeps the native error with its sub code, directly or wrapped.\<close>

fun native_subcode :: "go_error \<Rightarrow> int option" where
  "native_subcode (NativeError m c) = Some c"
| "native_subcode (SolaceError k m a None) = None"
| "native_subcode (SolaceError k m a (Some e)) = native_subcode e"

lemma ToNativeError_subcode: "native_subcode (ToNativeError err prefix) = Some (ErrorInfo_SubCode err)"
  by (simp add: ToNativeError_def Let_def NewError_def)

lemma replay_subcodes_range: "c \<in> set replay_subcodes \<longleftrightarrow> c \<in> {133..147} \<union> {156, 158}"
  by (auto simp: replay_subcodes_def) presburger

lemma ToNativeError_kind:
  "error_kind_of (ToNativeError err prefix) =
     (if ErrorInfo_SubCode err = 19 then Some AuthenticationError
      else if ErrorInfo_SubCode err = 89 then Some ServiceUnreachableError
      else if ErrorInfo_SubCode err \<in> {1, 2, 3} then Some InvalidConfigurationError
      else if ErrorInfo_SubCode err \<in> {133..147} \<union> {156, 158} then Some MessageReplayError
      else None)"
  by (auto simp: ToNativeError_def Let_def subcode_defs replay_subcodes_range)

end
