(* ===== verification/Lifecycle.thy ===== *)
theory Lifecycle
  imports Core_Errors
begin

text \<open>
  The life cycle that publishers and receivers share (\<^verbatim>\<open>internal/impl/publisher/message_publisher_impl.go\<close>
  and \<^verbatim>\<open>internal/impl/receiver/message_receiver_impl.go\<close>): not started, starting, started, terminating,
  terminated, with two futures on which the callers that are not first wait. The two files differ in
  the error texts only, so the operations take these as arguments and are then instantiated for
  either side.

  A call is first a function on the state, as it runs without interference. A step relation over the
  single atomic accesses then shows what holds when any number of callers run them at the same time.
\<close>

section \<open>States\<close>

datatype lifecycle_state = NotStarted | Starting | Started | Terminating | Terminated

fun state_rank :: "lifecycle_state \<Rightarrow> nat" where
  "state_rank NotStarted = 0"
| "state_rank Starting = 1"
| "state_rank Started = 2"
| "state_rank Terminating = 3"
| "state_rank Terminated = 4"

lemma state_rank_inject [simp]: "state_rank x = state_rank y \<longleftrightarrow> x = y"
  by (cases x; cases y) auto

instantiation lifecycle_state :: linorder
begin

definition less_eq_lifecycle_state :: "lifecycle_state \<Rightarrow> lifecycle_state \<Rightarrow> bool" where
  "less_eq_lifecycle_state x y \<longleftrightarrow> state_rank x \<le> state_rank y"

definition less_lifecycle_state :: "lifecycle_state \<Rightarrow> lifecycle_state \<Rightarrow> bool" where
  "less_lifecycle_state x y \<longleftrightarrow> state_rank x < state_rank y"

instance
  by standard (auto simp: less_eq_lifecycle_state_def less_lifecycle_state_def)

end

lemmas state_order_defs = less_eq_lifecycle_state_def less_lifecycle_state_def

lemma NotStarted_least [simp]: "NotStarted \<le> x" and Terminated_greatest [simp]: "x \<le> Terminated"
  by (simp_all add: less_eq_lifecycle_state_def) (cases x; simp)

fun state_name :: "lifecycle_state \<Rightarrow> string" where
  "state_name NotStarted = ''NotStarted''"
| "state_name Starting = ''Starting''"
| "state_name Started = ''Started''"
| "state_name Terminating = ''Terminating''"
| "state_name Terminated = ''Terminated''"

section \<open>The operations\<close>

record lifecycle =
  lc_state :: lifecycle_state
  startFuture :: futureError
  terminateFuture :: futureError

definition lifecycle_construct :: lifecycle where
  "lifecycle_construct =
     \<lparr>lc_state = NotStarted, startFuture = NewFutureError, terminateFuture = NewFutureError\<rparr>"

definition IllegalState :: "string \<Rightarrow> go_error" where
  [errval_defs]: "IllegalState msg = NewError IllegalStateError msg [] None"

text \<open>A call that does not proceed returns an optional error, or blocks on a future.\<close>

definition checkStartupStateAndWait :: "string \<Rightarrow> lifecycle_state \<Rightarrow> lifecycle \<Rightarrow> go_error option outcome" where
  "checkStartupStateAndWait unableToStart currentState p =
     (if currentState \<noteq> Terminating \<and> currentState \<noteq> Terminated then future_Get (startFuture p)
      else Return (Some (IllegalState unableToStart)))"

definition checkTerminateStateAndWait :: "string \<Rightarrow> lifecycle_state \<Rightarrow> lifecycle \<Rightarrow> go_error option outcome" where
  "checkTerminateStateAndWait unableToTerminate currentState p =
     (if currentState = Terminating \<or> currentState = Terminated then future_Get (terminateFuture p)
      else Return (Some (IllegalState unableToTerminate)))"

datatype 'e proceed = Proceed | Stop 'e

definition starting ::
    "string \<Rightarrow> string \<Rightarrow> bool \<Rightarrow> lifecycle \<Rightarrow> go_error option outcome proceed \<times> lifecycle" where
  "starting parentNotStarted unableToStart parentRunning p =
     (let currentState = lc_state p
      in if currentState \<noteq> NotStarted
         then (Stop (checkStartupStateAndWait unableToStart currentState p), p)
         else if \<not> parentRunning then (Stop (Return (Some (IllegalState parentNotStarted))), p)
         else
           let (success, st) = CompareAndSwap NotStarted Starting (lc_state p); p' = p\<lparr>lc_state := st\<rparr>
           in if \<not> success then (Stop (checkStartupStateAndWait unableToStart (lc_state p') p'), p')
              else (Proceed, p'))"

definition started :: "go_error option \<Rightarrow> lifecycle \<Rightarrow> lifecycle" where
  "started err p = p\<lparr>lc_state := Started, startFuture := future_Complete err (startFuture p)\<rparr>"

definition terminate :: "string \<Rightarrow> lifecycle \<Rightarrow> go_error option outcome proceed \<times> lifecycle" where
  "terminate unableToTerminate p =
     (let (success, st) = CompareAndSwap Started Terminating (lc_state p); p = p\<lparr>lc_state := st\<rparr>
      in if \<not> success
         then
           let currentState = lc_state p; (swapped, st') = CompareAndSwap NotStarted Terminated (lc_state p)
           in if currentState = NotStarted \<and> swapped
              then (Stop (Return None),
                    p\<lparr>lc_state := st', terminateFuture := future_Complete None (terminateFuture p)\<rparr>)
              else (Stop (checkTerminateStateAndWait unableToTerminate currentState p), p)
         else (Proceed, p))"

definition terminated :: "go_error option \<Rightarrow> lifecycle \<Rightarrow> lifecycle" where
  "terminated err p = p\<lparr>lc_state := Terminated, terminateFuture := future_Complete err (terminateFuture p)\<rparr>"

definition IsRunning :: "lifecycle \<Rightarrow> bool" where
  "IsRunning p \<longleftrightarrow> lc_state p = Started"

definition IsTerminated :: "lifecycle \<Rightarrow> bool" where
  "IsTerminated p \<longleftrightarrow> lc_state p = Terminated"

definition IsTerminating :: "lifecycle \<Rightarrow> bool" where
  "IsTerminating p \<longleftrightarrow> lc_state p = Terminating"

text \<open>The instances for publishers and receivers.\<close>

definition publisher_starting :: "bool \<Rightarrow> lifecycle \<Rightarrow> go_error option outcome proceed \<times> lifecycle" where
  "publisher_starting = starting UnableToStartPublisherParentServiceNotStarted UnableToStartPublisher"

definition publisher_terminate :: "lifecycle \<Rightarrow> go_error option outcome proceed \<times> lifecycle" where
  "publisher_terminate = terminate UnableToTerminatePublisher"

definition receiver_starting :: "bool \<Rightarrow> lifecycle \<Rightarrow> go_error option outcome proceed \<times> lifecycle" where
  "receiver_starting = starting UnableToStartReceiverParentServiceNotStarted UnableToStartReceiver"

definition receiver_terminate :: "lifecycle \<Rightarrow> go_error option outcome proceed \<times> lifecycle" where
  "receiver_terminate = terminate UnableToTerminateReceiver"

definition checkStartedStateForPublish :: "lifecycle \<Rightarrow> go_error option" where
  "checkStartedStateForPublish p =
     (let currentState = lc_state p
      in if currentState \<noteq> Started
         then (if currentState = Terminating \<or> currentState = Terminated
               then Some (IllegalState UnableToPublishAlreadyTerminated)
               else Some (IllegalState (UnableToPublishNotStarted @ state_name currentState)))
         else None)"

lemma checkStartedStateForPublish_None [simp]: "checkStartedStateForPublish p = None \<longleftrightarrow> lc_state p = Started"
  by (simp add: checkStartedStateForPublish_def Let_def)

lemma checkStartedStateForPublish_Started [simp]: "lc_state p = Started \<Longrightarrow> checkStartedStateForPublish p = None"
  by (simp add: checkStartedStateForPublish_def)

section \<open>The contract\<close>

text \<open>
  What a client may rely on: a start proceeds exactly from the initial state under a running parent,
  a termination proceeds exactly from the started state, and otherwise they change nothing except
  that terminating an unstarted component terminates it on the spot.
\<close>

locale component_lifecycle =
  fixes start_call :: "bool \<Rightarrow> lifecycle \<Rightarrow> go_error option outcome proceed \<times> lifecycle"
    and terminate_call :: "lifecycle \<Rightarrow> go_error option outcome proceed \<times> lifecycle"
  assumes start_proceeds: "fst (start_call r p) = Proceed \<longleftrightarrow> lc_state p = NotStarted \<and> r"
    and start_state: "lc_state (snd (start_call r p)) =
          (if lc_state p = NotStarted \<and> r then Starting else lc_state p)"
    and terminate_proceeds: "fst (terminate_call p) = Proceed \<longleftrightarrow> lc_state p = Started"
    and terminate_state: "lc_state (snd (terminate_call p)) =
          (if lc_state p = Started then Terminating
           else if lc_state p = NotStarted then Terminated else lc_state p)"
begin

text \<open>
  The calls of one client after another: a start or a termination that proceeds is completed,
  successfully or not, before the next call.
\<close>

fun client_call :: "bool \<times> bool \<times> go_error option \<Rightarrow> lifecycle \<Rightarrow> bool \<times> lifecycle" where
  "client_call (isStart, parent, err) p =
     (if isStart
      then (case start_call parent p of
              (Proceed, p') \<Rightarrow> (True, if err = None then started err p'
                                       else (terminated None p')\<lparr>startFuture := future_Complete err (startFuture p')\<rparr>)
            | (Stop r, p') \<Rightarrow> (False, p'))
      else (case terminate_call p of
              (Proceed, p') \<Rightarrow> (True, terminated err p')
            | (Stop r, p') \<Rightarrow> (False, p')))"

primrec client_calls :: "(bool \<times> bool \<times> go_error option) list \<Rightarrow> lifecycle \<Rightarrow> bool list \<times> lifecycle" where
  "client_calls [] p = ([], p)"
| "client_calls (c # cs) p =
     (let (b, p') = client_call c p; (bs, p'') = client_calls cs p' in (b # bs, p''))"

lemma client_call_state:
  "lc_state (snd (client_call (isStart, parent, err) p)) =
     (if isStart then (if lc_state p = NotStarted \<and> parent then (if err = None then Started else Terminated)
                       else lc_state p)
      else (if lc_state p = Started \<or> lc_state p = NotStarted then Terminated else lc_state p))"
  using start_proceeds [of parent p] start_state [of parent p] terminate_proceeds [of p] terminate_state [of p]
  by (auto simp: started_def terminated_def split: prod.splits proceed.splits)

lemma client_call_proceeds:
  "fst (client_call (isStart, parent, err) p) \<longleftrightarrow>
     (if isStart then lc_state p = NotStarted \<and> parent else lc_state p = Started)"
  using start_proceeds [of parent p] terminate_proceeds [of p]
  by (auto split: prod.splits proceed.splits)

text \<open>Once terminated, no call proceeds and the state stays.\<close>

lemma terminated_absorbing:
  "lc_state p = Terminated \<Longrightarrow>
     lc_state (snd (client_calls cs p)) = Terminated \<and> True \<notin> set (fst (client_calls cs p))"
proof (induction cs arbitrary: p)
  case Nil
  then show ?case by simp
next
  case (Cons c cs)
  obtain isStart parent err where c: "c = (isStart, parent, err)" by (cases c)
  have "lc_state (snd (client_call c p)) = Terminated" and "\<not> fst (client_call c p)"
    using Cons.prems client_call_state client_call_proceeds unfolding c by auto
  with Cons.IH [of "snd (client_call c p)"] show ?case by (auto split: prod.splits)
qed

end

interpretation publife: component_lifecycle publisher_starting publisher_terminate
  by unfold_locales
    (auto simp: publisher_starting_def publisher_terminate_def starting_def terminate_def Let_def CompareAndSwap_def)

interpretation reclife: component_lifecycle receiver_starting receiver_terminate
  by unfold_locales
    (auto simp: receiver_starting_def receiver_terminate_def starting_def terminate_def Let_def CompareAndSwap_def)

section \<open>Concurrent callers\<close>

text \<open>
  The program points of a caller between its atomic accesses. \<open>StLoad\<close>, \<open>StCAS\<close>, \<open>StReload\<close> are the
  accesses of \<^verbatim>\<open>starting\<close>; \<open>StWait cur\<close> is the check with the loaded state; \<open>StBody\<close> has proceeded and
  runs the start-up; \<open>StStored err\<close> has stored the final state and still has to complete the start
  future, \<open>StFailed err\<close> also the terminate future. \<open>TmCAS\<close>, \<open>TmLoad\<close>, \<open>TmCAS2\<close>, \<open>TmWait\<close>, \<open>TmBody\<close> and
  \<open>TmStored err\<close> are the same for \<^verbatim>\<open>terminate\<close>.
\<close>

datatype lc_pc =
    LcIdle
  | StLoad | StCAS | StReload | StWait lifecycle_state | StBody | StFailed go_error | StStored "go_error option"
  | TmCAS | TmLoad | TmCAS2 | TmWait lifecycle_state | TmBody | TmStored "go_error option"

record lc_sys =
  lc :: lifecycle
  lc_pcs :: "nat \<Rightarrow> lc_pc"
  starts :: nat
  terminations :: nat

definition lc_goto :: "nat \<Rightarrow> lc_pc \<Rightarrow> lc_sys \<Rightarrow> lc_sys" where
  "lc_goto i pc s = s\<lparr>lc_pcs := (lc_pcs s)(i := pc)\<rparr>"

definition set_state :: "lifecycle_state \<Rightarrow> lc_sys \<Rightarrow> lc_sys" where
  "set_state st s = s\<lparr>lc := (lc s)\<lparr>lc_state := st\<rparr>\<rparr>"

definition complete_start :: "go_error option \<Rightarrow> lc_sys \<Rightarrow> lc_sys" where
  "complete_start err s = s\<lparr>lc := (lc s)\<lparr>startFuture := future_Complete err (startFuture (lc s))\<rparr>\<rparr>"

definition complete_terminate :: "go_error option \<Rightarrow> lc_sys \<Rightarrow> lc_sys" where
  "complete_terminate err s = s\<lparr>lc := (lc s)\<lparr>terminateFuture := future_Complete err (terminateFuture (lc s))\<rparr>\<rparr>"

inductive lc_step :: "lc_sys \<Rightarrow> lc_sys \<Rightarrow> bool" where
  call_start: "lc_pcs s i = LcIdle \<Longrightarrow> lc_step s (lc_goto i StLoad s)"
| st_load_other: "lc_pcs s i = StLoad \<Longrightarrow> lc_state (lc s) \<noteq> NotStarted \<Longrightarrow>
     lc_step s (lc_goto i (StWait (lc_state (lc s))) s)"
| st_parent_down: "lc_pcs s i = StLoad \<Longrightarrow> lc_state (lc s) = NotStarted \<Longrightarrow> lc_step s (lc_goto i LcIdle s)"
| st_parent_up: "lc_pcs s i = StLoad \<Longrightarrow> lc_state (lc s) = NotStarted \<Longrightarrow> lc_step s (lc_goto i StCAS s)"
| st_cas_ok: "lc_pcs s i = StCAS \<Longrightarrow> CompareAndSwap NotStarted Starting (lc_state (lc s)) = (True, st) \<Longrightarrow>
     lc_step s (lc_goto i StBody ((set_state st s)\<lparr>starts := starts s + 1\<rparr>))"
| st_cas_fail: "lc_pcs s i = StCAS \<Longrightarrow> CompareAndSwap NotStarted Starting (lc_state (lc s)) = (False, st) \<Longrightarrow>
     lc_step s (lc_goto i StReload s)"
| st_reload: "lc_pcs s i = StReload \<Longrightarrow> lc_step s (lc_goto i (StWait (lc_state (lc s))) s)"
| st_return: "lc_pcs s i = StWait cur \<Longrightarrow> checkStartupStateAndWait msg cur (lc s) = Return r \<Longrightarrow>
     lc_step s (lc_goto i LcIdle s)"
| st_success: "lc_pcs s i = StBody \<Longrightarrow> lc_step s (lc_goto i (StStored None) (set_state Started s))"
| st_failure: "lc_pcs s i = StBody \<Longrightarrow> lc_step s (lc_goto i (StFailed err) (set_state Terminated s))"
| st_fail_terminate: "lc_pcs s i = StFailed err \<Longrightarrow>
     lc_step s (lc_goto i (StStored (Some err)) (complete_terminate None s))"
| st_complete: "lc_pcs s i = StStored e \<Longrightarrow> lc_step s (lc_goto i LcIdle (complete_start e s))"
| call_terminate: "lc_pcs s i = LcIdle \<Longrightarrow> lc_step s (lc_goto i TmCAS s)"
| tm_cas_ok: "lc_pcs s i = TmCAS \<Longrightarrow> CompareAndSwap Started Terminating (lc_state (lc s)) = (True, st) \<Longrightarrow>
     lc_step s (lc_goto i TmBody ((set_state st s)\<lparr>terminations := terminations s + 1\<rparr>))"
| tm_cas_fail: "lc_pcs s i = TmCAS \<Longrightarrow> CompareAndSwap Started Terminating (lc_state (lc s)) = (False, st) \<Longrightarrow>
     lc_step s (lc_goto i TmLoad s)"
| tm_load_new: "lc_pcs s i = TmLoad \<Longrightarrow> lc_state (lc s) = NotStarted \<Longrightarrow> lc_step s (lc_goto i TmCAS2 s)"
| tm_load_other: "lc_pcs s i = TmLoad \<Longrightarrow> lc_state (lc s) \<noteq> NotStarted \<Longrightarrow>
     lc_step s (lc_goto i (TmWait (lc_state (lc s))) s)"
| tm_cas2_ok: "lc_pcs s i = TmCAS2 \<Longrightarrow> CompareAndSwap NotStarted Terminated (lc_state (lc s)) = (True, st) \<Longrightarrow>
     lc_step s (lc_goto i (TmStored None) (set_state st s))"
| tm_cas2_fail: "lc_pcs s i = TmCAS2 \<Longrightarrow> CompareAndSwap NotStarted Terminated (lc_state (lc s)) = (False, st) \<Longrightarrow>
     lc_step s (lc_goto i (TmWait NotStarted) s)"
| tm_return: "lc_pcs s i = TmWait cur \<Longrightarrow> checkTerminateStateAndWait msg cur (lc s) = Return r \<Longrightarrow>
     lc_step s (lc_goto i LcIdle s)"
| tm_finish: "lc_pcs s i = TmBody \<Longrightarrow> lc_step s (lc_goto i (TmStored e) (set_state Terminated s))"
| tm_complete: "lc_pcs s i = TmStored e \<Longrightarrow> lc_step s (lc_goto i LcIdle (complete_terminate e s))"

definition lc_init :: lc_sys where
  "lc_init = \<lparr>lc = lifecycle_construct, lc_pcs = (\<lambda>i. LcIdle), starts = 0, terminations = 0\<rparr>"

lemma lc_sys_simps [simp]:
  "lc (lc_goto i pc s) = lc s" "lc_pcs (lc_goto i pc s) = (lc_pcs s)(i := pc)"
  "starts (lc_goto i pc s) = starts s" "terminations (lc_goto i pc s) = terminations s"
  "lc_state (lc (set_state st s)) = st" "startFuture (lc (set_state st s)) = startFuture (lc s)"
  "terminateFuture (lc (set_state st s)) = terminateFuture (lc s)"
  "lc_pcs (set_state st s) = lc_pcs s" "starts (set_state st s) = starts s"
  "terminations (set_state st s) = terminations s"
  "lc_state (lc (complete_start e s)) = lc_state (lc s)"
  "startFuture (lc (complete_start e s)) = future_Complete e (startFuture (lc s))"
  "terminateFuture (lc (complete_start e s)) = terminateFuture (lc s)"
  "lc_pcs (complete_start e s) = lc_pcs s" "starts (complete_start e s) = starts s"
  "terminations (complete_start e s) = terminations s"
  "lc_state (lc (complete_terminate e s)) = lc_state (lc s)"
  "startFuture (lc (complete_terminate e s)) = startFuture (lc s)"
  "terminateFuture (lc (complete_terminate e s)) = future_Complete e (terminateFuture (lc s))"
  "lc_pcs (complete_terminate e s) = lc_pcs s" "starts (complete_terminate e s) = starts s"
  "terminations (complete_terminate e s) = terminations s"
  by (simp_all add: lc_goto_def set_state_def complete_start_def complete_terminate_def)

lemma CompareAndSwap_result:
  "CompareAndSwap old new cur = (True, st) \<longleftrightarrow> cur = old \<and> st = new"
  "CompareAndSwap old new cur = (False, st) \<longleftrightarrow> cur \<noteq> old \<and> st = cur"
  by (auto simp: CompareAndSwap_def)

text \<open>The callers that still owe the completion of the start or of the terminate future.\<close>

fun owes_start :: "lc_pc \<Rightarrow> bool" where
  "owes_start StBody = True"
| "owes_start (StFailed e) = True"
| "owes_start (StStored e) = True"
| "owes_start _ = False"

fun owes_terminate :: "lc_pc \<Rightarrow> bool" where
  "owes_terminate TmBody = True"
| "owes_terminate (TmStored e) = True"
| "owes_terminate (StFailed e) = True"
| "owes_terminate _ = False"

definition starter_active :: "(nat \<Rightarrow> lc_pc) \<Rightarrow> bool" where
  "starter_active f \<longleftrightarrow> (\<exists>i. owes_start (f i))"

definition terminator_active :: "(nat \<Rightarrow> lc_pc) \<Rightarrow> bool" where
  "terminator_active f \<longleftrightarrow> (\<exists>i. owes_terminate (f i))"

text \<open>The invariant, in the parts that the proof treats one by one.\<close>

definition bodies_ok :: "lc_sys \<Rightarrow> bool" where
  "bodies_ok s \<longleftrightarrow>
     (\<forall>i. lc_pcs s i = StBody \<longrightarrow> lc_state (lc s) = Starting \<and> (\<forall>j. lc_pcs s j = StBody \<longrightarrow> j = i)) \<and>
     (\<forall>i. lc_pcs s i = TmBody \<longrightarrow> lc_state (lc s) = Terminating \<and> (\<forall>j. lc_pcs s j = TmBody \<longrightarrow> j = i))"

definition counts_ok :: "lc_sys \<Rightarrow> bool" where
  "counts_ok s \<longleftrightarrow>
     (if lc_state (lc s) = NotStarted then starts s = 0 else starts s \<le> 1) \<and>
     (if lc_state (lc s) < Terminating then terminations s = 0 else terminations s \<le> 1)"

definition futures_ok :: "lc_sys \<Rightarrow> bool" where
  "futures_ok s \<longleftrightarrow>
     (lc_state (lc s) \<in> {Starting, Started, Terminating} \<longrightarrow> starts s = 1) \<and>
     (starts s = 1 \<longrightarrow> resolved (startFuture (lc s)) \<or> starter_active (lc_pcs s)) \<and>
     (Terminating \<le> lc_state (lc s) \<longrightarrow> resolved (terminateFuture (lc s)) \<or> terminator_active (lc_pcs s))"

fun wait_ok :: "lifecycle_state \<Rightarrow> nat \<Rightarrow> lc_pc \<Rightarrow> bool" where
  "wait_ok st n StReload \<longleftrightarrow> st \<noteq> NotStarted"
| "wait_ok st n (StWait cur) \<longleftrightarrow> cur \<noteq> NotStarted \<and> cur \<le> st \<and> (cur < Terminating \<longrightarrow> n = 1)"
| "wait_ok st n (TmWait cur) \<longleftrightarrow> cur \<le> st"
| "wait_ok st n _ \<longleftrightarrow> True"

definition waits_ok :: "lc_sys \<Rightarrow> bool" where
  "waits_ok s \<longleftrightarrow> (\<forall>i. wait_ok (lc_state (lc s)) (starts s) (lc_pcs s i))"

lemma lc_step_monotone: "lc_step s s' \<Longrightarrow> bodies_ok s \<Longrightarrow> lc_state (lc s) \<le> lc_state (lc s')"
  by (induction rule: lc_step.induct)
    (auto simp: bodies_ok_def CompareAndSwap_result less_eq_lifecycle_state_def)

lemma lc_step_bodies: "lc_step s s' \<Longrightarrow> bodies_ok s \<Longrightarrow> bodies_ok s'"
  by (induction rule: lc_step.induct) (auto simp: bodies_ok_def CompareAndSwap_result)

lemma lc_step_counts: "lc_step s s' \<Longrightarrow> bodies_ok s \<Longrightarrow> counts_ok s \<Longrightarrow> counts_ok s'"
  by (induction rule: lc_step.induct)
    (auto simp: bodies_ok_def counts_ok_def CompareAndSwap_result state_order_defs split: if_splits)

text \<open>
  A step keeps the promise of a future when it completes the future, leaves the owing caller alone, or
  hands the obligation on.
\<close>

lemma starter_active_other:
  "starter_active f \<Longrightarrow> \<not> owes_start (f j) \<or> owes_start pc \<Longrightarrow> starter_active (f(j := pc))"
  unfolding starter_active_def by (metis fun_upd_apply)

lemma terminator_active_other:
  "terminator_active f \<Longrightarrow> \<not> owes_terminate (f j) \<or> owes_terminate pc \<Longrightarrow> terminator_active (f(j := pc))"
  unfolding terminator_active_def by (metis fun_upd_apply)

lemma active_here:
  "owes_start pc \<Longrightarrow> starter_active (f(j := pc))"
  "owes_terminate pc \<Longrightarrow> terminator_active (f(j := pc))"
  unfolding starter_active_def terminator_active_def by (metis fun_upd_same)+

lemma futures_goto:
  assumes "futures_ok s" and "\<not> owes_start (lc_pcs s i) \<or> owes_start pc"
    and "\<not> owes_terminate (lc_pcs s i) \<or> owes_terminate pc"
  shows "futures_ok (lc_goto i pc s)"
  using assms starter_active_other [of "lc_pcs s" i pc] terminator_active_other [of "lc_pcs s" i pc]
  by (auto simp: futures_ok_def)

lemma lc_step_futures: "lc_step s s' \<Longrightarrow> bodies_ok s \<Longrightarrow> counts_ok s \<Longrightarrow> futures_ok s \<Longrightarrow> futures_ok s'"
proof (induction rule: lc_step.induct)
  case (st_cas_ok s i st)
  then show ?case
    by (auto simp: futures_ok_def counts_ok_def CompareAndSwap_result state_order_defs active_here)
next
  case (st_success s i)
  then show ?case by (auto simp: futures_ok_def bodies_ok_def state_order_defs active_here)
next
  case (st_failure s i err)
  then show ?case by (auto simp: futures_ok_def bodies_ok_def state_order_defs active_here)
next
  case (st_fail_terminate s i err)
  then show ?case by (auto simp: futures_ok_def active_here)
next
  case (st_complete s i e)
  then show ?case
    using terminator_active_other [of "lc_pcs s" i LcIdle] by (auto simp: futures_ok_def)
next
  case (tm_cas_ok s i st)
  then show ?case
    using starter_active_other [of "lc_pcs s" i TmBody]
    by (auto simp: futures_ok_def CompareAndSwap_result active_here)
next
  case (tm_cas2_ok s i st)
  then have "starts s = 0" by (auto simp: counts_ok_def CompareAndSwap_result)
  with tm_cas2_ok show ?case by (auto simp: futures_ok_def CompareAndSwap_result active_here)
next
  case (tm_finish s i e)
  then show ?case
    using starter_active_other [of "lc_pcs s" i "TmStored e"] by (auto simp: futures_ok_def active_here)
next
  case (tm_complete s i e)
  then show ?case
    using starter_active_other [of "lc_pcs s" i LcIdle] by (auto simp: futures_ok_def)
qed (auto intro!: futures_goto)

lemma lc_step_starts: "lc_step s s' \<Longrightarrow> starts s \<le> starts s'"
  by (induction rule: lc_step.induct) auto

lemma waits_goto: "waits_ok s \<Longrightarrow> wait_ok (lc_state (lc s)) (starts s) pc \<Longrightarrow> waits_ok (lc_goto i pc s)"
  by (simp add: waits_ok_def)

lemma wait_ok_mono:
  "wait_ok st n pc \<Longrightarrow> st \<le> st' \<Longrightarrow> n \<le> n' \<Longrightarrow> n' \<le> 1 \<Longrightarrow> wait_ok st' n' pc"
  by (cases pc; cases st; cases st') (auto simp: state_order_defs)

lemma waits_mono:
  assumes "waits_ok s" and "lc_pcs s' = lc_pcs s" and "lc_state (lc s) \<le> lc_state (lc s')"
    and "starts s \<le> starts s'" and "starts s' \<le> 1"
  shows "waits_ok s'"
  unfolding waits_ok_def assms(2)
proof
  fix i
  have "wait_ok (lc_state (lc s)) (starts s) (lc_pcs s i)" using assms(1) by (simp add: waits_ok_def)
  then show "wait_ok (lc_state (lc s')) (starts s') (lc_pcs s i)" using assms(3-5) by (rule wait_ok_mono)
qed

lemma starts_le: "counts_ok s \<Longrightarrow> starts s \<le> 1"
  by (auto simp: counts_ok_def split: if_splits)

lemma state_wait:
  "futures_ok s \<Longrightarrow> lc_state (lc s) \<noteq> NotStarted \<Longrightarrow> lc_state (lc s) < Terminating \<Longrightarrow> starts s = 1"
  by (cases "lc_state (lc s)") (auto simp: futures_ok_def state_order_defs)

lemma wait_ok_at: "lc_pcs s i = pc \<Longrightarrow> waits_ok s \<Longrightarrow> wait_ok (lc_state (lc s)) (starts s) pc"
  by (auto simp: waits_ok_def)

lemma lc_step_waits:
  "lc_step s s' \<Longrightarrow> bodies_ok s \<Longrightarrow> counts_ok s \<Longrightarrow> futures_ok s \<Longrightarrow> waits_ok s \<Longrightarrow> waits_ok s'"
proof (induction rule: lc_step.induct)
  case (st_cas_ok s i st)
  have "waits_ok ((set_state st s)\<lparr>starts := starts s + 1\<rparr>)"
    by (rule waits_mono [of s]) (use st_cas_ok in \<open>auto simp: CompareAndSwap_result counts_ok_def\<close>)
  then show ?case by (rule waits_goto) auto
next
  case (st_success s i)
  have "waits_ok (set_state Started s)"
    by (rule waits_mono [of s]) (use st_success starts_le [of s] in \<open>auto simp: bodies_ok_def state_order_defs\<close>)
  then show ?case by (rule waits_goto) auto
next
  case (st_failure s i err)
  have "waits_ok (set_state Terminated s)"
    by (rule waits_mono [of s]) (use st_failure starts_le [of s] in auto)
  then show ?case by (rule waits_goto) auto
next
  case (st_fail_terminate s i err)
  have "waits_ok (complete_terminate None s)"
    by (rule waits_mono [of s]) (use st_fail_terminate starts_le [of s] in auto)
  then show ?case by (rule waits_goto) auto
next
  case (st_complete s i e)
  have "waits_ok (complete_start e s)"
    by (rule waits_mono [of s]) (use st_complete starts_le [of s] in auto)
  then show ?case by (rule waits_goto) auto
next
  case (tm_cas_ok s i st)
  have "waits_ok ((set_state st s)\<lparr>terminations := terminations s + 1\<rparr>)"
    by (rule waits_mono [of s]) (use tm_cas_ok starts_le [of s] in \<open>auto simp: CompareAndSwap_result state_order_defs\<close>)
  then show ?case by (rule waits_goto) auto
next
  case (tm_cas2_ok s i st)
  have "waits_ok (set_state st s)"
    by (rule waits_mono [of s]) (use tm_cas2_ok starts_le [of s] in \<open>auto simp: CompareAndSwap_result\<close>)
  then show ?case by (rule waits_goto) auto
next
  case (tm_finish s i e)
  have "waits_ok (set_state Terminated s)"
    by (rule waits_mono [of s]) (use tm_finish starts_le [of s] in auto)
  then show ?case by (rule waits_goto) auto
next
  case (tm_complete s i e)
  have "waits_ok (complete_terminate e s)"
    by (rule waits_mono [of s]) (use tm_complete starts_le [of s] in auto)
  then show ?case by (rule waits_goto) auto
qed (auto intro!: waits_goto simp: CompareAndSwap_result state_wait dest: wait_ok_at)

definition lc_inv :: "lc_sys \<Rightarrow> bool" where
  "lc_inv s \<longleftrightarrow> bodies_ok s \<and> counts_ok s \<and> futures_ok s \<and> waits_ok s"

lemma lc_inv_init: "lc_inv lc_init"
  by (simp add: lc_inv_def lc_init_def bodies_ok_def counts_ok_def futures_ok_def waits_ok_def
      lifecycle_construct_def state_order_defs)

lemma lc_step_inv: "lc_step s s' \<Longrightarrow> lc_inv s \<Longrightarrow> lc_inv s'"
  by (auto simp: lc_inv_def intro: lc_step_bodies lc_step_counts lc_step_futures lc_step_waits)

lemma lc_steps_inv: "lc_step\<^sup>*\<^sup>* s s' \<Longrightarrow> lc_inv s \<Longrightarrow> lc_inv s' \<and> lc_state (lc s) \<le> lc_state (lc s')"
proof (induction rule: rtranclp_induct)
  case base
  then show ?case by simp
next
  case (step s1 s2)
  then have "lc_inv s1" by blast
  with step show ?case
    using lc_step_inv [OF step.hyps(2)] lc_step_monotone [OF step.hyps(2)]
    by (auto simp: lc_inv_def intro: order.trans)
qed

text \<open>
  C17. The life cycle under concurrency. With any number of callers starting and terminating one
  component at the same time, at most one start and at most one termination ever proceed, the state
  never moves backwards, and nobody waits in vain: while a caller is waiting for the start or
  for the termination by another, that future is completed or a caller is on its way to
  complete it.
\<close>

theorem lifecycle_concurrent:
  assumes "lc_step\<^sup>*\<^sup>* lc_init s" and "lc_step\<^sup>*\<^sup>* s s'"
  shows "starts s' \<le> 1 \<and> terminations s' \<le> 1 \<and> lc_state (lc s) \<le> lc_state (lc s') \<and>
    (\<forall>i cur msg. lc_pcs s' i = StWait cur \<longrightarrow>
       checkStartupStateAndWait msg cur (lc s') \<noteq> Blocks \<or> (\<exists>j. owes_start (lc_pcs s' j))) \<and>
    (\<forall>i cur msg. lc_pcs s' i = TmWait cur \<longrightarrow>
       checkTerminateStateAndWait msg cur (lc s') \<noteq> Blocks \<or> (\<exists>j. owes_terminate (lc_pcs s' j)))"
proof -
  have s: "lc_inv s" using lc_steps_inv [OF assms(1) lc_inv_init] by blast
  have s': "lc_inv s'" and mono: "lc_state (lc s) \<le> lc_state (lc s')" using lc_steps_inv [OF assms(2) s] by blast+
  then have inv: "counts_ok s'" "futures_ok s'" "waits_ok s'" by (simp_all add: lc_inv_def)
  have "checkStartupStateAndWait msg cur (lc s') \<noteq> Blocks \<or> (\<exists>j. owes_start (lc_pcs s' j))"
    if "lc_pcs s' i = StWait cur" for i cur msg
  proof -
    have "wait_ok (lc_state (lc s')) (starts s') (StWait cur)"
      using inv(3) that unfolding waits_ok_def by (metis that)
    then have "cur < Terminating \<longrightarrow> starts s' = 1" by simp
    with inv(2) show ?thesis
      by (cases cur) (auto simp: checkStartupStateAndWait_def future_Get_def futures_ok_def state_order_defs starter_active_def)
  qed
  moreover have "checkTerminateStateAndWait msg cur (lc s') \<noteq> Blocks \<or> (\<exists>j. owes_terminate (lc_pcs s' j))"
    if "lc_pcs s' i = TmWait cur" for i cur msg
  proof -
    have "wait_ok (lc_state (lc s')) (starts s') (TmWait cur)"
      using inv(3) that unfolding waits_ok_def by (metis that)
    then have "cur \<le> lc_state (lc s')" by simp
    then have "Terminating \<le> cur \<longrightarrow> Terminating \<le> lc_state (lc s')" by (meson order.trans)
    with inv(2) show ?thesis
      by (cases cur) (auto simp: checkTerminateStateAndWait_def future_Get_def futures_ok_def state_order_defs terminator_active_def)
  qed
  moreover have "terminations s' \<le> 1" using inv(1) by (auto simp: counts_ok_def split: if_splits)
  ultimately show ?thesis using mono starts_le [OF inv(1)] by blast
qed

theorem lifecycle_concurrent_witness:
  "starts (lc_goto 3 StLoad lc_init) \<le> 1"
proof -
  have "lc_step lc_init (lc_goto 3 StLoad lc_init)" by (rule call_start) (simp add: lc_init_def)
  then have "lc_step\<^sup>*\<^sup>* lc_init (lc_goto 3 StLoad lc_init)" by (rule r_into_rtranclp)
  from lifecycle_concurrent [OF rtranclp.rtrancl_refl this] show ?thesis by blast
qed

text \<open>
  Termination is final for publishers and receivers alike: after a terminated state no sequence
  of starts and terminations proceeds or leaves the state, and publishing reports that the publisher
  has been terminated.
\<close>

theorem termination_is_final:
  assumes "lc_state p = Terminated"
  shows "lc_state (snd (publife.client_calls cs p)) = Terminated \<and> True \<notin> set (fst (publife.client_calls cs p)) \<and>
    lc_state (snd (reclife.client_calls cs p)) = Terminated \<and> True \<notin> set (fst (reclife.client_calls cs p)) \<and>
    checkStartedStateForPublish (snd (publife.client_calls cs p)) =
      Some (IllegalState UnableToPublishAlreadyTerminated)"
  using publife.terminated_absorbing [OF assms, of cs] reclife.terminated_absorbing [OF assms, of cs]
  by (simp add: checkStartedStateForPublish_def)

theorem termination_is_final_witness:
  "lc_state (snd (publife.client_calls [(True, True, None)] (terminated None lifecycle_construct))) = Terminated"
  using termination_is_final [of "terminated None lifecycle_construct" "[(True, True, None)]"]
  by (simp add: terminated_def)

end
