(* ===== verification/Validation.thy ===== *)
theory Validation
  imports Core_Errors
begin

text \<open>
  Validation of configuration properties (\<^verbatim>\<open>internal/impl/validation/validator.go\<close>), the back-pressure
  configuration of publishers (\<^verbatim>\<open>validateBackpressureConfig\<close>) and the property maps a publisher is
  built from. A property value is a Go \<^verbatim>\<open>interface{}\<close>: its dynamic type and value. Integers are words
  of their width; a finite \<^verbatim>\<open>float64\<close> is a mantissa and a power of two. What the conversion of a
  \<^verbatim>\<open>float64\<close> that does not fit an \<^verbatim>\<open>int\<close> gives is left open by the language and is an argument.
\<close>

section \<open>Dynamic values\<close>

datatype go_value =
    VNil
  | VString string
  | VBool bool
  | VInt u64
  | VInt32 u32
  | VInt64 u64
  | VUint u64
  | VUint32 u32
  | VUint64 u64
  | VFloat64 int int
  | VOther string

fun type_name :: "go_value \<Rightarrow> string" where
  "type_name VNil = ''<nil>''"
| "type_name (VString s) = ''string''"
| "type_name (VBool b) = ''bool''"
| "type_name (VInt i) = ''int''"
| "type_name (VInt32 i) = ''int32''"
| "type_name (VInt64 i) = ''int64''"
| "type_name (VUint i) = ''uint''"
| "type_name (VUint32 i) = ''uint32''"
| "type_name (VUint64 i) = ''uint64''"
| "type_name (VFloat64 m e) = ''float64''"
| "type_name (VOther t) = t"

text \<open>Truncation towards zero of \<open>m * 2 ^ e\<close>.\<close>

definition float_truncate :: "int \<Rightarrow> int \<Rightarrow> int" where
  "float_truncate m e =
     (if 0 \<le> e then m * 2 ^ nat e else sgn m * (\<bar>m\<bar> div 2 ^ nat (- e)))"

definition int_of_float :: "(int \<Rightarrow> int \<Rightarrow> u64) \<Rightarrow> int \<Rightarrow> int \<Rightarrow> u64" where
  "int_of_float out_of_range m e =
     (let t = float_truncate m e
      in if - (2 ^ 63) \<le> t \<and> t < 2 ^ 63 then word_of_int t else out_of_range m e)"

section \<open>The validators\<close>

text \<open>Each returns the value, whether the property was present, and an optional error.\<close>

definition requiredPropertyError :: "string \<Rightarrow> go_error" where
  "requiredPropertyError key =
     NewError InvalidConfigurationError ''expected required property %s to be set'' [ArgStr key] None"

definition wrongTypeError :: "string \<Rightarrow> string \<Rightarrow> go_value \<Rightarrow> go_error" where
  "wrongTypeError key t v =
     NewError IllegalArgumentError ''expected configured value for %s to be %s, got %T''
       [ArgStr key, ArgStr t, ArgStr (type_name v)] None"

fun join_comma :: "string list \<Rightarrow> string" where
  "join_comma [] = []"
| "join_comma [s] = s"
| "join_comma (s # t # ss) = s @ '','' @ join_comma (t # ss)"

definition StringPropertyValidation ::
    "string \<Rightarrow> go_value \<Rightarrow> string list \<Rightarrow> string \<times> bool \<times> go_error option" where
  "StringPropertyValidation key property allowed =
     (case property of
        VNil \<Rightarrow> ([], False, Some (requiredPropertyError key))
      | VString s \<Rightarrow>
          if allowed \<noteq> []
          then (case find (\<lambda>str. str = s) allowed of
                  Some str \<Rightarrow> (str, True, None)
                | None \<Rightarrow>
                    ([], True, Some (NewError IllegalArgumentError
                       ''got invalid value '%s' for property %s, valid values are [%s]''
                       [ArgStr s, ArgStr key, ArgStr (join_comma allowed)] None)))
          else (s, True, None)
      | _ \<Rightarrow> ([], True, Some (wrongTypeError key ''string'' property)))"

definition IntegerPropertyValidation ::
    "(int \<Rightarrow> int \<Rightarrow> u64) \<Rightarrow> string \<Rightarrow> go_value \<Rightarrow> u64 \<times> bool \<times> go_error option" where
  "IntegerPropertyValidation oor key property =
     (case property of
        VNil \<Rightarrow> (0, False, Some (requiredPropertyError key))
      | VInt i \<Rightarrow> (i, True, None)
      | VUint i \<Rightarrow> (i, True, None)
      | VFloat64 m e \<Rightarrow> (int_of_float oor m e, True, None)
      | _ \<Rightarrow> (0, True, Some (wrongTypeError key ''integer'' property)))"

definition Int64PropertyValidation :: "string \<Rightarrow> go_value \<Rightarrow> u64 \<times> bool \<times> go_error option" where
  "Int64PropertyValidation key property =
     (case property of
        VNil \<Rightarrow> (0, False, Some (requiredPropertyError key))
      | VInt64 i \<Rightarrow> (i, True, None)
      | VInt32 i \<Rightarrow> (scast i, True, None)
      | VInt i \<Rightarrow> (i, True, None)
      | _ \<Rightarrow> (0, True, Some (wrongTypeError key ''int64'' property)))"

definition Uint64PropertyValidation :: "string \<Rightarrow> go_value \<Rightarrow> u64 \<times> bool \<times> go_error option" where
  "Uint64PropertyValidation key property =
     (case property of
        VNil \<Rightarrow> (0, False, Some (requiredPropertyError key))
      | VUint64 i \<Rightarrow> (i, True, None)
      | VUint32 i \<Rightarrow> (ucast i, True, None)
      | VUint i \<Rightarrow> (i, True, None)
      | VInt i \<Rightarrow> (i, True, None)
      | _ \<Rightarrow> (0, True, Some (wrongTypeError key ''uint64'' property)))"

definition IntegerPropertyValidationWithRange ::
    "(int \<Rightarrow> int \<Rightarrow> u64) \<Rightarrow> string \<Rightarrow> go_value \<Rightarrow> int \<Rightarrow> int \<Rightarrow> u64 \<times> bool \<times> go_error option" where
  "IntegerPropertyValidationWithRange oor key property lo hi =
     (case IntegerPropertyValidation oor key property of
        (i, present, err) \<Rightarrow>
          if \<not> present \<or> err \<noteq> None then (i, present, err)
          else if sint i \<ge> lo \<and> sint i \<le> hi then (i, True, None)
          else (0, True, Some (NewError IllegalArgumentError
                  ''expected configured value for %s to be within range [%d,%d], got %d''
                  [ArgStr key, ArgInt lo, ArgInt hi, ArgInt (sint i)] None)))"

definition BooleanPropertyValidation :: "string \<Rightarrow> go_value \<Rightarrow> bool \<times> bool \<times> go_error option" where
  "BooleanPropertyValidation key property =
     (case property of
        VNil \<Rightarrow> (False, False, Some (requiredPropertyError key))
      | VInt i \<Rightarrow> (i = 1, True, None)
      | VBool b \<Rightarrow> (b, True, None)
      | VString s \<Rightarrow> (s = ''true'' \<or> s = ''True'', True, None)
      | _ \<Rightarrow> (False, True, Some (wrongTypeError key ''bool'' property)))"

section \<open>Publisher properties\<close>

definition PublisherPropertyBackPressureStrategy :: string where
  "PublisherPropertyBackPressureStrategy = ''solace.messaging.publisher.back-pressure.strategy''"

definition PublisherPropertyBackPressureBufferCapacity :: string where
  "PublisherPropertyBackPressureBufferCapacity = ''solace.messaging.publisher.back-pressure.buffer-capacity''"

definition BufferWaitWhenFull :: string where
  "BufferWaitWhenFull = ''BUFFER_WAIT_WHEN_FULL''"

definition BufferRejectWhenFull :: string where
  "BufferRejectWhenFull = ''BUFFER_REJECT_WHEN_FULL''"

lemmas publisher_property_defs = PublisherPropertyBackPressureStrategy_def
  PublisherPropertyBackPressureBufferCapacity_def BufferWaitWhenFull_def BufferRejectWhenFull_def

text \<open>A property map; a missing key reads as \<^verbatim>\<open>nil\<close>.\<close>

type_synonym property_map = "string \<Rightarrow> go_value"

definition DefaultPublisherProperties :: property_map where
  "DefaultPublisherProperties =
     (\<lambda>k. VNil)(PublisherPropertyBackPressureBufferCapacity := VInt 50,
                PublisherPropertyBackPressureStrategy := VString BufferWaitWhenFull)"

definition OnBackPressureReject :: "u64 \<Rightarrow> property_map \<Rightarrow> property_map" where
  "OnBackPressureReject bufferSize properties =
     properties(PublisherPropertyBackPressureStrategy := VString BufferRejectWhenFull,
                PublisherPropertyBackPressureBufferCapacity := VUint bufferSize)"

definition OnBackPressureWait :: "u64 \<Rightarrow> property_map \<Rightarrow> property_map" where
  "OnBackPressureWait bufferSize properties =
     properties(PublisherPropertyBackPressureStrategy := VString BufferWaitWhenFull,
                PublisherPropertyBackPressureBufferCapacity := VUint bufferSize)"

text \<open>The entries of the provider's map overwrite those of the builder.\<close>

definition FromConfigurationProvider :: "(string \<times> go_value) list \<Rightarrow> property_map \<Rightarrow> property_map" where
  "FromConfigurationProvider provider properties = fold (\<lambda>(k, v) m. m(k := v)) provider properties"

datatype backpressureConfiguration =
    backpressureConfigurationDirect
  | backpressureConfigurationReject
  | backpressureConfigurationWait

definition validateBackpressureConfig ::
    "(int \<Rightarrow> int \<Rightarrow> u64) \<Rightarrow> property_map \<Rightarrow> go_error + backpressureConfiguration \<times> u64" where
  "validateBackpressureConfig oor properties =
     (case StringPropertyValidation PublisherPropertyBackPressureStrategy
             (properties PublisherPropertyBackPressureStrategy) [BufferRejectWhenFull, BufferWaitWhenFull] of
        (strategy, _, Some err) \<Rightarrow> Inl err
      | (strategy, _, None) \<Rightarrow>
          (case IntegerPropertyValidation oor PublisherPropertyBackPressureBufferCapacity
                  (properties PublisherPropertyBackPressureBufferCapacity) of
             (bufferSize, _, Some err) \<Rightarrow> Inl err
           | (bufferSize, _, None) \<Rightarrow>
               if strategy = BufferRejectWhenFull
               then (if sint bufferSize < 0
                     then Inl (NewError InvalidConfigurationError
                            ''buffer size must be >= 0 with backpressure strategy %s, got %d''
                            [ArgStr strategy, ArgInt (sint bufferSize)] None)
                     else if bufferSize = 0 then Inr (backpressureConfigurationDirect, bufferSize)
                     else Inr (backpressureConfigurationReject, bufferSize))
               else if strategy = BufferWaitWhenFull
               then (if sint bufferSize < 1
                     then Inl (NewError InvalidConfigurationError
                            ''buffer size must be > 0 with backpressure strategy %s, got %d''
                            [ArgStr strategy, ArgInt (sint bufferSize)] None)
                     else Inr (backpressureConfigurationWait, bufferSize))
               else Inr (backpressureConfigurationDirect, bufferSize)))"

section \<open>What a valid configuration is\<close>

text \<open>
  The specification: the strategy is one of the two names, the capacity an integer of one of the
  accepted types, non-negative for the reject strategy and positive for the wait strategy.
\<close>

fun as_integer :: "(int \<Rightarrow> int \<Rightarrow> u64) \<Rightarrow> go_value \<Rightarrow> int option" where
  "as_integer oor (VInt i) = Some (sint i)"
| "as_integer oor (VUint i) = Some (sint i)"
| "as_integer oor (VFloat64 m e) = Some (sint (int_of_float oor m e))"
| "as_integer oor _ = None"

definition backpressure_spec :: "(int \<Rightarrow> int \<Rightarrow> u64) \<Rightarrow> property_map \<Rightarrow> (backpressureConfiguration \<times> int) option" where
  "backpressure_spec oor properties =
     (case (properties PublisherPropertyBackPressureStrategy,
            as_integer oor (properties PublisherPropertyBackPressureBufferCapacity)) of
        (VString s, Some n) \<Rightarrow>
          if s = ''BUFFER_REJECT_WHEN_FULL'' \<and> n = 0 then Some (backpressureConfigurationDirect, n)
          else if s = ''BUFFER_REJECT_WHEN_FULL'' \<and> 0 < n then Some (backpressureConfigurationReject, n)
          else if s = ''BUFFER_WAIT_WHEN_FULL'' \<and> 0 < n then Some (backpressureConfigurationWait, n)
          else None
      | _ \<Rightarrow> None)"

lemma IntegerPropertyValidation_spec:
  "IntegerPropertyValidation oor key v =
     (case as_integer oor v of
        Some n \<Rightarrow> (word_of_int n, True, None)
      | None \<Rightarrow> (0, v \<noteq> VNil, Some (if v = VNil then requiredPropertyError key else wrongTypeError key ''integer'' v)))"
  by (cases v) (auto simp: IntegerPropertyValidation_def)

lemma as_integer_range: "as_integer oor v = Some n \<Longrightarrow> - (2 ^ 63) \<le> n \<and> n < 2 ^ 63"
  using sint_range_size [where ?'a = 64] by (cases v) (auto simp: word_size)

lemma sint_word_of_int: "- (2 ^ 63) \<le> n \<Longrightarrow> n < 2 ^ 63 \<Longrightarrow> sint (word_of_int n :: u64) = n"
  by (simp add: sint_sbintrunc' signed_take_bit_int_eq_self)

lemma word_of_int_0_range: "- (2 ^ 63) \<le> n \<Longrightarrow> n < 2 ^ 63 \<Longrightarrow> (word_of_int n :: u64) = 0 \<longleftrightarrow> n = 0"
  using sint_word_of_int [of n] by force

lemma uint_unat_less: "uint (n :: u64) < 2 ^ k \<longleftrightarrow> unat n < 2 ^ k"
  using nat_less_iff [OF uint_nonnegative, of n "2 ^ k"] unfolding unat_eq_nat_uint by simp

lemma sint_small_u64: "unat (n :: u64) < 2 ^ 63 \<Longrightarrow> sint n = int (unat n)"
proof -
  assume "unat n < 2 ^ 63"
  then have "uint n < 2 ^ 63" by (simp only: uint_unat_less)
  moreover have "- (2 ^ 63) \<le> uint n" by (rule order.trans [OF _ uint_nonnegative]) simp
  ultimately have "sint (word_of_int (uint n) :: u64) = uint n" by (intro sint_word_of_int)
  then show ?thesis by simp
qed

lemma sint_big_u64:
  assumes "\<not> unat (n :: u64) < 2 ^ 63"
  shows "sint n < 0"
proof -
  have "(word_of_int (2 ^ 64) :: u64) = 0" by simp
  then have w: "word_of_int (uint n - 2 ^ 64) = n"
    unfolding wi_hom_sub [symmetric] by simp
  have "\<not> uint n < 2 ^ 63" using assms by (simp only: uint_unat_less not_False_eq_True)
  then have r: "- (2 ^ 63) \<le> uint n - 2 ^ 64" "uint n - 2 ^ 64 < 0"
    using unsigned_less [of n, where ?'a = int] by simp_all
  then have "sint (word_of_int (uint n - 2 ^ 64) :: u64) = uint n - 2 ^ 64"
    by (intro sint_word_of_int) auto
  with r(2) show ?thesis unfolding w by linarith
qed

text \<open>
  C29. Back-pressure configuration. Validation succeeds exactly on the configurations of the
  specification, with the same strategy and capacity, so that a buffered publisher always gets a
  positive capacity; every other configuration is refused with an invalid-configuration or an
  illegal-argument error.
\<close>

theorem validateBackpressureConfig_spec:
  "case backpressure_spec oor properties of
     Some (cfg, n) \<Rightarrow> \<exists>sz. validateBackpressureConfig oor properties = Inr (cfg, sz) \<and> sint sz = n \<and>
       0 \<le> n \<and> (0 < n \<longleftrightarrow> cfg \<noteq> backpressureConfigurationDirect)
   | None \<Rightarrow> \<exists>err. validateBackpressureConfig oor properties = Inl err \<and>
       error_kind_of err \<in> {Some InvalidConfigurationError, Some IllegalArgumentError}"
proof (cases "as_integer oor (properties PublisherPropertyBackPressureBufferCapacity)")
  case None
  then show ?thesis
    by (cases "properties PublisherPropertyBackPressureStrategy")
      (auto simp: backpressure_spec_def validateBackpressureConfig_def StringPropertyValidation_def
        IntegerPropertyValidation_spec requiredPropertyError_def wrongTypeError_def split: option.splits)
next
  case (Some n)
  note range = as_integer_range [OF Some]
  show ?thesis
    using Some range
    by (cases "properties PublisherPropertyBackPressureStrategy")
      (auto simp: backpressure_spec_def validateBackpressureConfig_def StringPropertyValidation_def
        IntegerPropertyValidation_spec requiredPropertyError_def wrongTypeError_def
        BufferRejectWhenFull_def BufferWaitWhenFull_def sint_word_of_int word_of_int_0_range)
qed

text \<open>
  The builder's settings reach the configuration: the reject setting with capacity 0 gives an
  unbuffered publisher, with a positive capacity that fits an \<^verbatim>\<open>int\<close> a rejecting one, the wait
  setting a waiting one; a wait setting with capacity 0 and a capacity that does not fit an \<^verbatim>\<open>int\<close>
  are refused. The defaults give a waiting publisher with capacity 50.
\<close>

theorem builder_settings:
  "validateBackpressureConfig oor DefaultPublisherProperties = Inr (backpressureConfigurationWait, 50) \<and>
   (\<exists>err. validateBackpressureConfig oor (OnBackPressureWait 0 props) = Inl err) \<and>
   validateBackpressureConfig oor (OnBackPressureReject 0 props) = Inr (backpressureConfigurationDirect, 0) \<and>
   (if n \<noteq> 0 \<and> unat n < 2 ^ 63
    then validateBackpressureConfig oor (OnBackPressureReject n props) = Inr (backpressureConfigurationReject, n) \<and>
         validateBackpressureConfig oor (OnBackPressureWait n props) = Inr (backpressureConfigurationWait, n)
    else n = 0 \<or> (\<exists>e e'. validateBackpressureConfig oor (OnBackPressureReject n props) = Inl e \<and>
                          validateBackpressureConfig oor (OnBackPressureWait n props) = Inl e'))"
proof -
  note small = sint_small_u64 [of n] and big = sint_big_u64 [of n]
  show ?thesis
  proof (cases "unat n < 2 ^ 63")
    case True
    have "n \<noteq> 0 \<Longrightarrow> \<not> sint n < 1" using small [OF True] unat_eq_zero [of n] by linarith
    with True small show ?thesis
      by (simp add: validateBackpressureConfig_def DefaultPublisherProperties_def OnBackPressureReject_def
          OnBackPressureWait_def StringPropertyValidation_def IntegerPropertyValidation_def publisher_property_defs)
  next
    case False
    with big show ?thesis
      by (simp add: validateBackpressureConfig_def DefaultPublisherProperties_def OnBackPressureReject_def
          OnBackPressureWait_def StringPropertyValidation_def IntegerPropertyValidation_def publisher_property_defs)
  qed
qed

end
