(* ===== verification/Executor.thy ===== *)
theory Executor
  imports Go_Prelude
begin

text \<open>
  The executor (\<^verbatim>\<open>internal/impl/executor/executor.go\<close>): a task queue over a channel that is replaced
  by one of twice the capacity when it is full, and one goroutine that runs the tasks.

  The first part has the operations as one caller sees them and shows that they implement an
  unbounded queue. The second part is a step relation for any number of concurrent callers of
  \<^verbatim>\<open>Submit\<close> and \<^verbatim>\<open>Terminate\<close> and the goroutine in \<^verbatim>\<open>Run\<close>, with the two read-write mutexes: a reader
  has to wait while a writer holds the lock or waits for it. \<^verbatim>\<open>scale\<close> is a natural number: the code
  holds it in 64 bits and doubles it, which no memory is large enough to overflow.
\<close>

section \<open>The operations\<close>

record 'a executor =
  channel :: "'a chan"
  closed :: nat
  scale :: nat

definition defaultSize :: nat where
  "defaultSize = 1024"

definition scalingFactor :: nat where
  "scalingFactor = 2"

definition NewExecutor :: "'a executor" where
  "NewExecutor = \<lparr>channel = make_chan defaultSize, closed = 0, scale = defaultSize\<rparr>"

text \<open>\<^verbatim>\<open>resize\<close> closes the old channel and moves its tasks, one send each, to a new one.\<close>

definition resize :: "'a executor \<Rightarrow> 'a executor outcome" where
  "resize ex =
     (let newScale = scalingFactor * scale ex
      in case chan_close (channel ex) of
           Return oldChannel \<Rightarrow>
             (case put_all chan_put (fst (chan_range oldChannel)) (make_chan newScale) of
                Some newChannel \<Rightarrow> Return (ex\<lparr>scale := newScale, channel := newChannel\<rparr>)
              | None \<Rightarrow> Blocks)
         | Blocks \<Rightarrow> Blocks
         | Panics p \<Rightarrow> Panics p)"

text \<open>The second attempt of \<^verbatim>\<open>Submit\<close>, under the write lock.\<close>

definition submit_locked :: "'a \<Rightarrow> 'a executor \<Rightarrow> 'a executor outcome" where
  "submit_locked task ex =
     (case chan_send task (channel ex) of
        Return c \<Rightarrow> Return (ex\<lparr>channel := c\<rparr>)
      | Panics p \<Rightarrow> Panics p
      | Blocks \<Rightarrow>
          (case resize ex of
             Return ex \<Rightarrow>
               (case chan_send task (channel ex) of
                  Return c \<Rightarrow> Return (ex\<lparr>channel := c\<rparr>)
                | Blocks \<Rightarrow> Blocks
                | Panics p \<Rightarrow> Panics p)
           | Blocks \<Rightarrow> Blocks
           | Panics p \<Rightarrow> Panics p))"

definition Submit :: "'a \<Rightarrow> 'a executor \<Rightarrow> (bool \<times> 'a executor) outcome" where
  "Submit task ex =
     (if closed ex \<noteq> 0 then Return (False, ex)
      else case chan_send task (channel ex) of
             Return c \<Rightarrow> Return (True, ex\<lparr>channel := c\<rparr>)
           | Panics p \<Rightarrow> Panics p
           | Blocks \<Rightarrow>
               (case submit_locked task ex of
                  Return ex \<Rightarrow> Return (True, ex)
                | Blocks \<Rightarrow> Blocks
                | Panics p \<Rightarrow> Panics p))"

definition Terminate :: "'a executor \<Rightarrow> 'a executor outcome" where
  "Terminate ex =
     (let (swapped, c) = CompareAndSwap 0 1 (closed ex)
      in if swapped
         then (case chan_close (channel ex) of
                 Return ch \<Rightarrow> Return (ex\<lparr>closed := c, channel := ch\<rparr>)
               | Blocks \<Rightarrow> Blocks
               | Panics p \<Rightarrow> Panics p)
         else Return ex)"

text \<open>One iteration of \<^verbatim>\<open>Run\<close>: the next task, or \<open>None\<close> when the channel is closed and drained.\<close>

definition run_receive :: "'a executor \<Rightarrow> ('a option \<times> 'a executor) outcome" where
  "run_receive ex =
     (case chan_recv (channel ex) of
        Return (t, c) \<Rightarrow> Return (t, ex\<lparr>channel := c\<rparr>)
      | Blocks \<Rightarrow> Blocks
      | Panics p \<Rightarrow> Panics p)"

definition executor_wf :: "'a executor \<Rightarrow> bool" where
  "executor_wf ex \<longleftrightarrow> chan_wf (channel ex) \<and> chan_cap (channel ex) = scale ex \<and> 0 < scale ex \<and>
     (chan_closed (channel ex) \<longleftrightarrow> closed ex = 1) \<and> closed ex \<le> 1"

definition executor_open :: "'a executor \<Rightarrow> bool" where
  "executor_open ex \<longleftrightarrow> executor_wf ex \<and> closed ex = 0"

definition tasks :: "'a executor \<Rightarrow> 'a list" where
  "tasks ex = chan_items (channel ex)"

lemma executor_open_new [simp]: "executor_open NewExecutor" "tasks NewExecutor = []"
  by (simp_all add: executor_open_def executor_wf_def NewExecutor_def tasks_def make_chan_def defaultSize_def chan_wf_def)

section \<open>An unbounded queue\<close>

lemma resize_open:
  assumes "executor_open ex"
  obtains ex' where "resize ex = Return ex'" "executor_open ex'" "tasks ex' = tasks ex"
    "scale ex' = 2 * scale ex" "closed ex' = 0"
proof -
  have open_new: "chan_open (make_chan (2 * scale ex) :: 'a chan)" by simp
  have "length (tasks ex) \<le> 2 * scale ex"
    using assms by (auto simp: executor_open_def executor_wf_def chan_wf_def tasks_def)
  then obtain c where c: "put_all chan_put (tasks ex) (make_chan (2 * scale ex)) = Some c"
    using openchan.put_all_accepted [OF open_new, of "tasks ex"] by (auto simp: make_chan_def)
  have items: "chan_items c = tasks ex" and "chan_open c"
    using openchan.put_all_contents [OF open_new c] by (simp_all add: make_chan_def)
  moreover have "chan_cap c = 2 * scale ex"
  proof -
    have "put_all chan_put xs d = Some e \<Longrightarrow> chan_cap e = chan_cap d" for xs and d e :: "'a chan"
      by (induction xs arbitrary: d)
        (auto simp: chan_put_def chan_send_def split: option.splits outcome.splits if_splits)
    from this [OF c] show ?thesis by (simp add: make_chan_def)
  qed
  ultimately show ?thesis
    using assms c that [of "ex\<lparr>scale := 2 * scale ex, channel := c\<rparr>"]
    by (auto simp: resize_def executor_open_def executor_wf_def chan_open_def tasks_def scalingFactor_def
        chan_close_def chan_range_def)
qed

lemma chan_send_open:
  assumes "executor_open ex" and "length (tasks ex) < scale ex"
  shows "\<exists>c. chan_send t (channel ex) = Return c \<and> executor_open (ex\<lparr>channel := c\<rparr>) \<and>
    tasks (ex\<lparr>channel := c\<rparr>) = tasks ex @ [t]"
  using assms by (auto simp: executor_open_def executor_wf_def chan_send_def tasks_def chan_wf_def)

lemma chan_send_full:
  "executor_open ex \<Longrightarrow> \<not> length (tasks ex) < scale ex \<Longrightarrow> chan_send t (channel ex) = Blocks"
  by (auto simp: executor_open_def executor_wf_def chan_send_def tasks_def)

text \<open>Under the write lock a task is always accepted, at the end of the queue.\<close>

lemma submit_locked_open:
  assumes "executor_open ex"
  shows "\<exists>ex'. submit_locked t ex = Return ex' \<and> executor_open ex' \<and> tasks ex' = tasks ex @ [t] \<and>
    scale ex' = (if length (tasks ex) < scale ex then scale ex else 2 * scale ex)"
proof (cases "length (tasks ex) < scale ex")
  case True
  with chan_send_open [OF assms True, of t] show ?thesis by (auto simp: submit_locked_def)
next
  case False
  obtain ex' where r: "resize ex = Return ex'" "executor_open ex'" "tasks ex' = tasks ex"
    "scale ex' = 2 * scale ex"
    using resize_open [OF assms] by metis
  have "length (tasks ex') < scale ex'"
    using assms r by (auto simp: executor_open_def executor_wf_def chan_wf_def tasks_def)
  from chan_send_open [OF r(2) this, of t] show ?thesis
    using r False chan_send_full [OF assms False, of t] by (auto simp: submit_locked_def)
qed

lemma Submit_open:
  assumes "executor_open ex"
  shows "\<exists>ex'. Submit t ex = Return (True, ex') \<and> executor_open ex' \<and> tasks ex' = tasks ex @ [t] \<and>
    scale ex' = (if length (tasks ex) < scale ex then scale ex else 2 * scale ex)"
proof (cases "length (tasks ex) < scale ex")
  case True
  with chan_send_open [OF assms True, of t] assms show ?thesis
    by (auto simp: Submit_def executor_open_def)
next
  case False
  with submit_locked_open [OF assms, of t] chan_send_full [OF assms False, of t] assms show ?thesis
    by (auto simp: Submit_def executor_open_def)
qed

lemma Terminate_open: "executor_open ex \<Longrightarrow> \<exists>ex'. Terminate ex = Return ex' \<and> tasks ex' = tasks ex \<and> closed ex' = 1"
  by (auto simp: Terminate_def CompareAndSwap_def executor_open_def executor_wf_def chan_close_def tasks_def)

definition executor_put :: "'a \<Rightarrow> 'a executor \<Rightarrow> 'a executor option" where
  "executor_put t ex = (case Submit t ex of Return (True, ex') \<Rightarrow> Some ex' | _ \<Rightarrow> None)"

definition executor_get :: "'a executor \<Rightarrow> ('a \<times> 'a executor) option" where
  "executor_get ex = (case run_receive ex of Return (Some t, ex') \<Rightarrow> Some (t, ex') | _ \<Rightarrow> None)"

lemma executor_put_open: "executor_open ex \<Longrightarrow> \<exists>ex'. executor_put t ex = Some ex' \<and> executor_open ex' \<and> tasks ex' = tasks ex @ [t]"
  using Submit_open [of ex t] by (auto simp: executor_put_def)

interpretation exq: unbounded_fifo tasks executor_put executor_get executor_open
proof unfold_locales
  fix q q' :: "'a executor" and x
  assume q: "executor_open q"
  show "executor_put x q = Some q' \<Longrightarrow> tasks q' = tasks q @ [x]"
    and "executor_put x q = Some q' \<Longrightarrow> executor_open q'"
    and "executor_put x q \<noteq> None"
    using executor_put_open [OF q, of x] by auto
  show "executor_get q = None \<longleftrightarrow> tasks q = []"
    and "executor_get q = Some (x, q') \<Longrightarrow> tasks q = x # tasks q'"
    and "executor_get q = Some (x, q') \<Longrightarrow> executor_open q'"
    using q by (auto simp: executor_get_def run_receive_def chan_recv_def tasks_def executor_open_def
        executor_wf_def chan_wf_def split: list.splits if_splits)
qed

text \<open>
  C28. The executor is an unbounded queue. However many tasks are submitted to a new executor, every
  submission is accepted, the channel growing as needed, and the running goroutine takes the tasks
  out in the order of submission; after termination the submitted tasks remain to be run, further
  submissions are refused, and a second termination changes nothing.
\<close>

theorem executor_refines_unbounded_queue:
  "\<exists>ex ex' r. put_all executor_put ts NewExecutor = Some ex \<and>
     get_many executor_get (length ts) ex = (ts, r) \<and>
     Terminate ex = Return ex' \<and> tasks ex' = ts \<and>
     Submit t ex' = Return (False, ex') \<and> Terminate ex' = Return ex'"
proof -
  obtain ex where ex: "put_all executor_put ts NewExecutor = Some ex"
    using exq.put_all_never_refused [OF executor_open_new(1)] by blast
  have inv: "executor_open ex" and tasks: "tasks ex = ts"
    using exq.put_all_contents [OF executor_open_new(1) ex] by simp_all
  have "fst (get_many executor_get (length ts) ex) = ts"
    using exq.fifo_order [OF executor_open_new ex] .
  then have get: "get_many executor_get (length ts) ex = (ts, snd (get_many executor_get (length ts) ex))"
    by (metis prod.collapse)
  let ?ex' = "ex\<lparr>closed := 1, channel := (channel ex)\<lparr>chan_closed := True\<rparr>\<rparr>"
  have "Terminate ex = Return ?ex'" "Terminate ?ex' = Return ?ex'" "Submit t ?ex' = Return (False, ?ex')"
    using inv by (simp_all add: Terminate_def executor_open_def executor_wf_def chan_close_def
        CompareAndSwap_def Submit_def)
  moreover have "tasks ?ex' = ts" using tasks by (simp add: tasks_def)
  ultimately show ?thesis using ex get by blast
qed

section \<open>Concurrent callers\<close>

text \<open>
  The program points of a calling goroutine. \<open>SubStart t\<close> waits for the state lock; \<open>SubRead t\<close>
  holds it for reading, has found the executor open and waits for the channel lock; \<open>SubTry t\<close> holds
  both for reading; \<open>SubRelock t\<close> found the channel full, has given the channel lock back and waits
  for the other writers; \<open>SubPending t\<close> has announced itself as the writer and waits for the readers
  to leave; \<open>SubWrite t\<close> holds the channel lock. \<open>TermStart\<close> and \<open>TermPending\<close> are the same two
  stages of \<^verbatim>\<open>Terminate\<close> at the state lock.
\<close>

datatype 'a caller_pc =
    CallerIdle
  | SubStart 'a
  | SubRead 'a
  | SubTry 'a
  | SubRelock 'a
  | SubPending 'a
  | SubWrite 'a
  | TermStart
  | TermPending

text \<open>The goroutine in \<^verbatim>\<open>Run\<close>: before the read lock, receiving under it, running a task, returned.\<close>

datatype 'a run_pc = RunLock | RunRecv | RunTask 'a | RunDone

record 'a exec_sys =
  sys_ex :: "'a executor"
  runner :: "'a run_pc"
  callers :: "nat \<Rightarrow> 'a caller_pc"
  accepted :: "'a list"
  executed :: "'a list"

fun state_reader :: "'a caller_pc \<Rightarrow> bool" where
  "state_reader CallerIdle = False"
| "state_reader (SubStart t) = False"
| "state_reader TermStart = False"
| "state_reader TermPending = False"
| "state_reader _ = True"

fun chan_writer :: "'a caller_pc \<Rightarrow> bool" where
  "chan_writer (SubPending t) = True"
| "chan_writer (SubWrite t) = True"
| "chan_writer _ = False"

fun chan_reader :: "'a caller_pc \<Rightarrow> bool" where
  "chan_reader (SubTry t) = True"
| "chan_reader _ = False"

text \<open>
  Whether a new reader of the channel lock is admitted, whether a waiting writer gets the lock, and
  the same for the state lock.
\<close>

definition chan_rlock_free :: "'a exec_sys \<Rightarrow> bool" where
  "chan_rlock_free s \<longleftrightarrow> (\<forall>i. \<not> chan_writer (callers s i))"

definition chan_lock_free :: "'a exec_sys \<Rightarrow> bool" where
  "chan_lock_free s \<longleftrightarrow> (\<forall>i. \<not> chan_reader (callers s i)) \<and> runner s \<noteq> RunRecv"

definition state_rlock_free :: "'a exec_sys \<Rightarrow> bool" where
  "state_rlock_free s \<longleftrightarrow> (\<forall>i. callers s i \<noteq> TermPending)"

definition state_lock_free :: "'a exec_sys \<Rightarrow> bool" where
  "state_lock_free s \<longleftrightarrow> (\<forall>i. \<not> state_reader (callers s i))"

definition goto :: "nat \<Rightarrow> 'a caller_pc \<Rightarrow> 'a exec_sys \<Rightarrow> 'a exec_sys" where
  "goto i pc s = s\<lparr>callers := (callers s)(i := pc)\<rparr>"

definition accept :: "'a \<Rightarrow> 'a executor \<Rightarrow> 'a exec_sys \<Rightarrow> 'a exec_sys" where
  "accept t ex s = s\<lparr>sys_ex := ex, accepted := accepted s @ [t]\<rparr>"

inductive exec_step :: "'a exec_sys \<Rightarrow> 'a exec_sys \<Rightarrow> bool" where
  call_submit: "callers s i = CallerIdle \<Longrightarrow> exec_step s (goto i (SubStart t) s)"
| submit_closed: "callers s i = SubStart t \<Longrightarrow> state_rlock_free s \<Longrightarrow> closed (sys_ex s) \<noteq> 0 \<Longrightarrow>
     exec_step s (goto i CallerIdle s)"
| submit_enter: "callers s i = SubStart t \<Longrightarrow> state_rlock_free s \<Longrightarrow> closed (sys_ex s) = 0 \<Longrightarrow>
     exec_step s (goto i (SubRead t) s)"
| submit_rlock: "callers s i = SubRead t \<Longrightarrow> chan_rlock_free s \<Longrightarrow> exec_step s (goto i (SubTry t) s)"
| submit_send: "callers s i = SubTry t \<Longrightarrow> chan_send t (channel (sys_ex s)) = Return c \<Longrightarrow>
     exec_step s (goto i CallerIdle (accept t ((sys_ex s)\<lparr>channel := c\<rparr>) s))"
| submit_full: "callers s i = SubTry t \<Longrightarrow> chan_send t (channel (sys_ex s)) = Blocks \<Longrightarrow>
     exec_step s (goto i (SubRelock t) s)"
| submit_pending: "callers s i = SubRelock t \<Longrightarrow> chan_rlock_free s \<Longrightarrow> exec_step s (goto i (SubPending t) s)"
| submit_lock: "callers s i = SubPending t \<Longrightarrow> chan_lock_free s \<Longrightarrow> exec_step s (goto i (SubWrite t) s)"
| submit_write: "callers s i = SubWrite t \<Longrightarrow> submit_locked t (sys_ex s) = Return ex \<Longrightarrow>
     exec_step s (goto i CallerIdle (accept t ex s))"
| call_terminate: "callers s i = CallerIdle \<Longrightarrow> exec_step s (goto i TermStart s)"
| terminate_pending: "callers s i = TermStart \<Longrightarrow> state_rlock_free s \<Longrightarrow> exec_step s (goto i TermPending s)"
| terminate_close: "callers s i = TermPending \<Longrightarrow> state_lock_free s \<Longrightarrow> Terminate (sys_ex s) = Return ex \<Longrightarrow>
     exec_step s (goto i CallerIdle (s\<lparr>sys_ex := ex\<rparr>))"
| run_rlock: "runner s = RunLock \<Longrightarrow> chan_rlock_free s \<Longrightarrow> exec_step s (s\<lparr>runner := RunRecv\<rparr>)"
| run_task: "runner s = RunRecv \<Longrightarrow> run_receive (sys_ex s) = Return (Some t, ex) \<Longrightarrow>
     exec_step s (s\<lparr>runner := RunTask t, sys_ex := ex\<rparr>)"
| run_done: "runner s = RunRecv \<Longrightarrow> run_receive (sys_ex s) = Return (None, ex) \<Longrightarrow>
     exec_step s (s\<lparr>runner := RunDone, sys_ex := ex\<rparr>)"
| run_execute: "runner s = RunTask t \<Longrightarrow> exec_step s (s\<lparr>runner := RunLock, executed := executed s @ [t]\<rparr>)"

definition exec_init :: "'a executor \<Rightarrow> 'a exec_sys" where
  "exec_init ex = \<lparr>sys_ex = ex, runner = RunLock, callers = (\<lambda>i. CallerIdle), accepted = [], executed = []\<rparr>"

section \<open>No task is lost\<close>

fun in_hand :: "'a run_pc \<Rightarrow> 'a list" where
  "in_hand (RunTask t) = [t]"
| "in_hand _ = []"

definition exec_inv :: "'a exec_sys \<Rightarrow> bool" where
  "exec_inv s \<longleftrightarrow> executor_wf (sys_ex s) \<and>
     accepted s = executed s @ in_hand (runner s) @ tasks (sys_ex s) \<and>
     (\<forall>i. state_reader (callers s i) \<longrightarrow> closed (sys_ex s) = 0) \<and>
     (runner s = RunDone \<longrightarrow> closed (sys_ex s) = 1 \<and> tasks (sys_ex s) = [])"

lemma exec_inv_init: "executor_open ex \<Longrightarrow> tasks ex = [] \<Longrightarrow> exec_inv (exec_init ex)"
  by (simp add: exec_inv_def exec_init_def executor_open_def)

lemma goto_simps [simp]:
  "sys_ex (goto i pc s) = sys_ex s" "runner (goto i pc s) = runner s"
  "callers (goto i pc s) = (callers s)(i := pc)"
  "accepted (goto i pc s) = accepted s" "executed (goto i pc s) = executed s"
  by (simp_all add: goto_def)

lemma accept_simps [simp]:
  "sys_ex (accept t ex s) = ex" "runner (accept t ex s) = runner s" "callers (accept t ex s) = callers s"
  "accepted (accept t ex s) = accepted s @ [t]" "executed (accept t ex s) = executed s"
  by (simp_all add: accept_def)

lemma exec_inv_goto:
  "exec_inv s \<Longrightarrow> (state_reader pc \<Longrightarrow> closed (sys_ex s) = 0) \<Longrightarrow> exec_inv (goto i pc s)"
  by (auto simp: exec_inv_def)

lemma exec_inv_accept:
  assumes "exec_inv s" and "executor_open ex" and "tasks ex = tasks (sys_ex s) @ [t]" and "closed (sys_ex s) = 0"
  shows "exec_inv (accept t ex s)"
  using assms by (auto simp: exec_inv_def executor_open_def)

lemma exec_inv_reader: "exec_inv s \<Longrightarrow> state_reader (callers s i) \<Longrightarrow> executor_open (sys_ex s)"
  by (auto simp: exec_inv_def executor_open_def)

lemma exec_inv_closed: "callers s i = pc \<Longrightarrow> exec_inv s \<Longrightarrow> state_reader pc \<Longrightarrow> closed (sys_ex s) = 0"
  by (auto simp: exec_inv_def)

lemma send_open:
  assumes "executor_open ex" and "chan_send t (channel ex) = Return c"
  shows "executor_open (ex\<lparr>channel := c\<rparr>) \<and> tasks (ex\<lparr>channel := c\<rparr>) = tasks ex @ [t]"
proof -
  have "length (tasks ex) < scale ex" using assms chan_send_full by force
  from chan_send_open [OF assms(1) this, of t] assms(2) show ?thesis by auto
qed

lemma run_receive_wf:
  "run_receive ex = Return (r, ex') \<Longrightarrow> executor_wf ex \<Longrightarrow>
     executor_wf ex' \<and> closed ex' = closed ex \<and>
     (case r of Some t \<Rightarrow> tasks ex = t # tasks ex' | None \<Rightarrow> tasks ex = [] \<and> ex' = ex \<and> closed ex = 1)"
  by (auto simp: run_receive_def chan_recv_def executor_wf_def tasks_def chan_wf_def
      split: list.splits if_splits)

lemma Terminate_wf:
  "Terminate ex = Return ex' \<Longrightarrow> executor_wf ex \<Longrightarrow> executor_wf ex' \<and> tasks ex' = tasks ex \<and> closed ex' = 1"
  by (auto simp: Terminate_def CompareAndSwap_def executor_wf_def chan_close_def tasks_def chan_wf_def
      split: if_splits)

lemma exec_step_inv: "exec_step s s' \<Longrightarrow> exec_inv s \<Longrightarrow> exec_inv s'"
proof (induction rule: exec_step.induct)
  case (submit_send s i t c)
  then have "executor_open (sys_ex s)" by (auto intro: exec_inv_reader [of s i])
  with submit_send send_open [OF this, of t c] show ?case
    by (intro exec_inv_goto exec_inv_accept) (auto simp: executor_open_def)
next
  case (submit_write s i t ex)
  then have "executor_open (sys_ex s)" by (auto intro: exec_inv_reader [of s i])
  with submit_write submit_locked_open [OF this, of t] show ?case
    by (intro exec_inv_goto exec_inv_accept) (auto simp: executor_open_def)
next
  case (terminate_close s i ex)
  then show ?case
    using Terminate_wf [of "sys_ex s" ex] by (auto simp: exec_inv_def state_lock_free_def)
next
  case (run_task s t ex)
  then show ?case using run_receive_wf [of "sys_ex s" "Some t" ex] by (auto simp: exec_inv_def)
next
  case (run_done s ex)
  then show ?case using run_receive_wf [of "sys_ex s" None ex] by (auto simp: exec_inv_def)
next
  case (run_rlock s)
  then show ?case by (auto simp: exec_inv_def)
next
  case (run_execute s t)
  then show ?case by (auto simp: exec_inv_def)
qed (auto intro!: exec_inv_goto dest: exec_inv_closed)

lemma exec_steps_inv: "exec_step\<^sup>*\<^sup>* s s' \<Longrightarrow> exec_inv s \<Longrightarrow> exec_inv s'"
  by (induction rule: rtranclp_induct) (auto intro: exec_step_inv)

text \<open>
  C7. In every interleaving of any number of submitting and terminating callers with the running
  goroutine, resizes included, the tasks run so far, the one being run and the queued ones
  are exactly the accepted tasks in the order of acceptance; no caller that is past the state check
  ever meets a closed channel, so no send panics and no submission under the write lock fails; and
  when the goroutine returns, every accepted task has been run.
\<close>

theorem executor_no_task_lost:
  assumes "exec_step\<^sup>*\<^sup>* (exec_init NewExecutor) s"
  shows "accepted s = executed s @ in_hand (runner s) @ tasks (sys_ex s) \<and>
    (\<forall>i t p. callers s i = SubTry t \<or> callers s i = SubWrite t \<longrightarrow>
       chan_send t (channel (sys_ex s)) \<noteq> Panics p \<and>
       (\<exists>ex. submit_locked t (sys_ex s) = Return ex \<and> tasks ex = tasks (sys_ex s) @ [t])) \<and>
    (runner s = RunDone \<longrightarrow> executed s = accepted s)"
proof -
  have inv: "exec_inv s" using assms by (rule exec_steps_inv) (simp add: exec_inv_init)
  have "chan_send t (channel (sys_ex s)) \<noteq> Panics p \<and>
      (\<exists>ex. submit_locked t (sys_ex s) = Return ex \<and> tasks ex = tasks (sys_ex s) @ [t])"
    if "callers s i = SubTry t \<or> callers s i = SubWrite t" for i t p
  proof -
    have op: "executor_open (sys_ex s)" using inv that by (auto intro: exec_inv_reader [of s i])
    with submit_locked_open [OF op, of t] show ?thesis
      by (auto simp: chan_send_def executor_open_def executor_wf_def)
  qed
  with inv show ?thesis by (auto simp: exec_inv_def)
qed

theorem executor_no_task_lost_witness:
  "accepted (goto 0 (SubStart (5::nat)) (exec_init NewExecutor)) = []"
proof -
  have "exec_step (exec_init NewExecutor) (goto 0 (SubStart (5::nat)) (exec_init NewExecutor))"
    by (rule call_submit) (simp add: exec_init_def)
  then have "exec_step\<^sup>*\<^sup>* (exec_init NewExecutor) (goto 0 (SubStart (5::nat)) (exec_init NewExecutor))"
    by (rule r_into_rtranclp)
  from executor_no_task_lost [OF this] show ?thesis
    by (simp add: exec_init_def)
qed

section \<open>The deadlock of a full queue\<close>

definition all_idle :: "'a exec_sys \<Rightarrow> bool" where
  "all_idle s \<longleftrightarrow> (\<forall>j. callers s j = CallerIdle)"

text \<open>One caller fills the channel while the goroutine has not taken its first task.\<close>

lemma submit_with_room:
  assumes "all_idle s" and "executor_open (sys_ex s)" and "length (tasks (sys_ex s)) < scale (sys_ex s)"
  shows "\<exists>s'. exec_step\<^sup>*\<^sup>* s s' \<and> all_idle s' \<and> executor_open (sys_ex s') \<and>
    tasks (sys_ex s') = tasks (sys_ex s) @ [t] \<and> scale (sys_ex s') = scale (sys_ex s) \<and> runner s' = runner s"
proof -
  obtain c where c: "chan_send t (channel (sys_ex s)) = Return c"
    "executor_open ((sys_ex s)\<lparr>channel := c\<rparr>)" "tasks ((sys_ex s)\<lparr>channel := c\<rparr>) = tasks (sys_ex s) @ [t]"
    using chan_send_open [OF assms(2,3), of t] by blast
  let ?a = "goto 0 (SubStart t) s" and ?b = "goto 0 (SubRead t) (goto 0 (SubStart t) s)"
  let ?c = "goto 0 (SubTry t) ?b"
  let ?d = "goto 0 CallerIdle (accept t ((sys_ex ?c)\<lparr>channel := c\<rparr>) ?c)"
  have "exec_step s ?a" using assms(1) by (intro call_submit) (simp add: all_idle_def)
  moreover have "exec_step ?a ?b"
    using assms(1,2) by (intro submit_enter) (simp_all add: all_idle_def state_rlock_free_def executor_open_def)
  moreover have "exec_step ?b ?c"
    using assms(1) by (intro submit_rlock) (simp_all add: all_idle_def chan_rlock_free_def)
  moreover have "exec_step ?c ?d" using c(1) by (intro submit_send) simp_all
  ultimately have "exec_step\<^sup>*\<^sup>* s ?d" by (meson converse_rtranclp_into_rtranclp rtranclp.rtrancl_refl)
  moreover have "all_idle ?d" using assms(1) by (simp add: all_idle_def)
  ultimately show ?thesis using c by (intro exI [of _ ?d]) simp
qed

lemma fill:
  "all_idle s \<Longrightarrow> executor_open (sys_ex s) \<Longrightarrow> length (tasks (sys_ex s)) + length ts \<le> scale (sys_ex s) \<Longrightarrow>
     \<exists>s'. exec_step\<^sup>*\<^sup>* s s' \<and> all_idle s' \<and> executor_open (sys_ex s') \<and>
       tasks (sys_ex s') = tasks (sys_ex s) @ ts \<and> scale (sys_ex s') = scale (sys_ex s) \<and> runner s' = runner s"
proof (induction ts arbitrary: s)
  case Nil
  then show ?case by (intro exI [of _ s]) simp
next
  case (Cons t ts)
  obtain s1 where s1: "exec_step\<^sup>*\<^sup>* s s1" "all_idle s1" "executor_open (sys_ex s1)"
    "tasks (sys_ex s1) = tasks (sys_ex s) @ [t]" "scale (sys_ex s1) = scale (sys_ex s)" "runner s1 = runner s"
    using submit_with_room [OF Cons.prems(1,2), of t] Cons.prems(3) by auto
  obtain s2 where s2: "exec_step\<^sup>*\<^sup>* s1 s2" "all_idle s2" "executor_open (sys_ex s2)"
    "tasks (sys_ex s2) = tasks (sys_ex s1) @ ts" "scale (sys_ex s2) = scale (sys_ex s1)" "runner s2 = runner s1"
    using Cons.IH [OF s1(2,3)] s1(4,5) Cons.prems(3) by auto
  have "exec_step\<^sup>*\<^sup>* s s2" using s1(1) s2(1) by (rule rtranclp_trans)
  with s1 s2 show ?case by (intro exI [of _ s2]) simp
qed

lemma run_receive_open:
  assumes "executor_open ex" and "tasks ex = t # ts"
  shows "\<exists>ex'. run_receive ex = Return (Some t, ex') \<and> tasks ex' = ts \<and> executor_open ex'"
proof -
  have "run_receive ex = Return (Some t, ex\<lparr>channel := (channel ex)\<lparr>chan_items := ts\<rparr>\<rparr>)"
    using assms by (simp add: run_receive_def chan_recv_def tasks_def)
  with assms show ?thesis
    by (auto simp: tasks_def executor_open_def executor_wf_def chan_wf_def)
qed

text \<open>The goroutine runs everything and waits for the next task with the read lock held.\<close>

lemma drain:
  "runner s = RunLock \<Longrightarrow> chan_rlock_free s \<Longrightarrow> executor_open (sys_ex s) \<Longrightarrow>
     \<exists>s'. exec_step\<^sup>*\<^sup>* s s' \<and> runner s' = RunRecv \<and> tasks (sys_ex s') = [] \<and>
       executor_open (sys_ex s') \<and> callers s' = callers s"
proof (induction "tasks (sys_ex s)" arbitrary: s)
  case Nil
  have "exec_step s (s\<lparr>runner := RunRecv\<rparr>)" using Nil by (intro run_rlock)
  with Nil show ?case by (intro exI [of _ "s\<lparr>runner := RunRecv\<rparr>"]) auto
next
  case (Cons t ts)
  let ?a = "s\<lparr>runner := RunRecv\<rparr>"
  obtain ex where ex: "run_receive (sys_ex s) = Return (Some t, ex)" "tasks ex = ts" "executor_open ex"
    using run_receive_open [OF Cons.prems(3) Cons.hyps(2) [symmetric]] by blast
  let ?b = "?a\<lparr>runner := RunTask t, sys_ex := ex\<rparr>"
  let ?c = "?b\<lparr>runner := RunLock, executed := executed ?b @ [t]\<rparr>"
  have "exec_step s ?a" using Cons.prems by (intro run_rlock)
  moreover have "exec_step ?a ?b" using ex(1) by (intro run_task) simp_all
  moreover have "exec_step ?b ?c" by (rule run_execute) simp
  ultimately have "exec_step\<^sup>*\<^sup>* s ?c" by (meson converse_rtranclp_into_rtranclp rtranclp.rtrancl_refl)
  moreover obtain s' where "exec_step\<^sup>*\<^sup>* ?c s'" "runner s' = RunRecv" "tasks (sys_ex s') = []"
    "executor_open (sys_ex s')" "callers s' = callers s"
    using Cons.hyps(1) [of ?c] ex(2,3) Cons.prems(2) by (auto simp: chan_rlock_free_def)
  ultimately show ?case by (meson rtranclp_trans)
qed

definition deadlocked :: "nat \<Rightarrow> 'a \<Rightarrow> 'a exec_sys \<Rightarrow> bool" where
  "deadlocked i t s \<longleftrightarrow> runner s = RunRecv \<and> tasks (sys_ex s) = [] \<and> executor_open (sys_ex s) \<and>
     callers s i = SubPending t \<and> (\<forall>j. j \<noteq> i \<longrightarrow> \<not> chan_reader (callers s j) \<and> \<not> chan_writer (callers s j))"

lemma deadlocked_step:
  "exec_step s s' \<Longrightarrow> deadlocked i t s \<Longrightarrow>
     deadlocked i t s' \<and> accepted s' = accepted s \<and> executed s' = executed s"
proof (induction rule: exec_step.induct)
  case (submit_rlock s j u)
  then have "chan_writer (callers s i)" by (simp add: deadlocked_def)
  with submit_rlock show ?case by (simp add: chan_rlock_free_def)
next
  case (submit_pending s j u)
  then have "chan_writer (callers s i)" by (simp add: deadlocked_def)
  with submit_pending show ?case by (simp add: chan_rlock_free_def)
next
  case (submit_send s j u c)
  then have "j \<noteq> i" and "chan_reader (callers s j)" by (auto simp: deadlocked_def)
  with submit_send show ?case by (auto simp: deadlocked_def)
next
  case (submit_write s j u ex)
  then have "j \<noteq> i" and "chan_writer (callers s j)" by (auto simp: deadlocked_def)
  with submit_write show ?case by (auto simp: deadlocked_def)
next
  case (terminate_close s j ex)
  then have "state_reader (callers s i)" by (simp add: deadlocked_def)
  with terminate_close show ?case by (simp add: state_lock_free_def)
next
  case (run_task s u ex)
  then show ?case using run_receive_wf [of "sys_ex s" "Some u" ex] by (auto simp: deadlocked_def executor_open_def)
next
  case (run_done s ex)
  then show ?case using run_receive_wf [of "sys_ex s" None ex] by (auto simp: deadlocked_def executor_open_def)
qed (auto simp: deadlocked_def chan_lock_free_def)

lemma deadlocked_steps:
  "exec_step\<^sup>*\<^sup>* s s' \<Longrightarrow> deadlocked i t s \<Longrightarrow>
     deadlocked i t s' \<and> accepted s' = accepted s \<and> executed s' = executed s"
  by (induction rule: rtranclp_induct) (auto dest: deadlocked_step)

lemma deadlock_reachable:
  assumes "executor_open ex" and "tasks ex = []"
  shows "\<exists>s. exec_step\<^sup>*\<^sup>* (exec_init ex) s \<and> deadlocked 0 t s"
proof -
  have "all_idle (exec_init ex)" "executor_open (sys_ex (exec_init ex))"
    using assms by (simp_all add: all_idle_def exec_init_def)
  then obtain s1 where s1: "exec_step\<^sup>*\<^sup>* (exec_init ex) s1" "all_idle s1" "executor_open (sys_ex s1)"
    "length (tasks (sys_ex s1)) = scale (sys_ex s1)" "runner s1 = RunLock"
    using fill [of "exec_init ex" "replicate (scale ex) t"] assms by (auto simp: exec_init_def)
  let ?a = "goto 0 (SubStart t) s1"
  let ?b = "goto 0 (SubRead t) ?a"
  let ?c = "goto 0 (SubTry t) ?b"
  let ?d = "goto 0 (SubRelock t) ?c"
  have "exec_step s1 ?a" using s1(2) by (intro call_submit) (simp add: all_idle_def)
  moreover have "exec_step ?a ?b"
    using s1(2,3) by (intro submit_enter) (simp_all add: all_idle_def state_rlock_free_def executor_open_def)
  moreover have "exec_step ?b ?c"
    using s1(2) by (intro submit_rlock) (simp_all add: all_idle_def chan_rlock_free_def)
  moreover have "exec_step ?c ?d"
    using chan_send_full [OF s1(3), of t] s1(4) by (intro submit_full) simp_all
  ultimately have d: "exec_step\<^sup>*\<^sup>* s1 ?d" by (meson converse_rtranclp_into_rtranclp rtranclp.rtrancl_refl)
  have free: "chan_rlock_free ?d" using s1(2) by (simp add: chan_rlock_free_def all_idle_def)
  then obtain s2 where s2: "exec_step\<^sup>*\<^sup>* ?d s2" "runner s2 = RunRecv" "tasks (sys_ex s2) = []"
    "executor_open (sys_ex s2)" "callers s2 = callers ?d"
    using drain [of ?d] s1(3,5) by auto
  have "exec_step s2 (goto 0 (SubPending t) s2)"
    using free s2(5) by (intro submit_pending) (simp_all add: chan_rlock_free_def)
  moreover have "deadlocked 0 t (goto 0 (SubPending t) s2)"
    using s2 s1(2) by (simp add: deadlocked_def all_idle_def)
  ultimately show ?thesis
    using s1(1) d s2(1) by (meson rtranclp.rtrancl_into_rtrancl rtranclp_trans)
qed

text \<open>
  C25. The executor can deadlock. When the goroutine empties the queue between a caller's failed
  attempt on the full channel and its request for the write lock, the goroutine waits for a task with
  the read lock held and the caller waits for that lock: from then on, whatever other callers do,
  no task is ever accepted or run again, the caller's submission never returns, and no termination
  takes effect.
\<close>

theorem executor_deadlock:
  "\<exists>s. exec_step\<^sup>*\<^sup>* (exec_init NewExecutor) s \<and>
     (\<forall>s'. exec_step\<^sup>*\<^sup>* s s' \<longrightarrow>
        callers s' 0 = SubPending t \<and> runner s' = RunRecv \<and> tasks (sys_ex s') = [] \<and>
        closed (sys_ex s') = 0 \<and> accepted s' = accepted s \<and> executed s' = executed s)"
proof -
  obtain s where s: "exec_step\<^sup>*\<^sup>* (exec_init NewExecutor) s" "deadlocked 0 t s"
    using deadlock_reachable [OF executor_open_new, of t] by (elim exE conjE)
  have stuck: "callers s' 0 = SubPending t \<and> runner s' = RunRecv \<and> tasks (sys_ex s') = [] \<and>
      closed (sys_ex s') = 0 \<and> accepted s' = accepted s \<and> executed s' = executed s"
    if "exec_step\<^sup>*\<^sup>* s s'" for s'
    using deadlocked_steps [OF that s(2)] by (simp add: deadlocked_def executor_open_def)
  show ?thesis by (rule exI [of _ s], rule conjI, rule s(1), intro allI impI, rule stuck)
qed

theorem executor_deadlock_witness:
  "\<exists>s. exec_step\<^sup>*\<^sup>* (exec_init NewExecutor) s \<and> callers s 0 = SubPending (5::nat) \<and> runner s = RunRecv"
proof -
  obtain s :: "nat exec_sys" where s: "exec_step\<^sup>*\<^sup>* (exec_init NewExecutor) s"
    and stuck: "\<forall>s'. exec_step\<^sup>*\<^sup>* s s' \<longrightarrow> callers s' 0 = SubPending 5 \<and> runner s' = RunRecv \<and>
      tasks (sys_ex s') = [] \<and> closed (sys_ex s') = 0 \<and> accepted s' = accepted s \<and> executed s' = executed s"
    using executor_deadlock [of "5::nat"] by (elim exE conjE)
  have "callers s 0 = SubPending 5 \<and> runner s = RunRecv"
    using stuck [THEN spec, of s, THEN mp, OF rtranclp.rtrancl_refl] by (elim conjE) (rule conjI)
  with s show ?thesis by (intro exI [of _ s]) (rule conjI)
qed

end
