(* ===== verification/Task_Buffer.thy ===== *)
theory Task_Buffer
  imports Go_Prelude
begin

text \<open>
  The task buffer of a publisher (\<^verbatim>\<open>internal/impl/publisher/buffer/publisher_task_buffer.go\<close>): tasks
  are queued on a channel of fixed capacity, and one goroutine moves them, one at a time, to the
  task queue of the transport's publisher, waiting for each to finish. Termination is graceful (the
  queued tasks are still run) or, on a timeout or at once, ungraceful.

  The operations called by the publisher are functions on the record of the channels; the goroutine
  in \<^verbatim>\<open>Run\<close> is a step relation, one step per channel operation, whose steps interleave with
  submissions and terminations.
\<close>

section \<open>The operations\<close>

record 't task_buffer =
  tb_channel :: "'t chan"
  terminateUngraceful :: bool
  terminateGraceful :: bool
  terminateComplete :: bool
  terminateTask :: bool

definition NewChannelBasedPublisherTaskBuffer :: "nat \<Rightarrow> 't task_buffer" where
  "NewChannelBasedPublisherTaskBuffer capacity =
     \<lparr>tb_channel = make_chan capacity, terminateUngraceful = False, terminateGraceful = False,
      terminateComplete = False, terminateTask = False\<rparr>"

definition buffer_Submit :: "'t \<Rightarrow> 't task_buffer \<Rightarrow> bool \<times> 't task_buffer" where
  "buffer_Submit task b =
     (if terminateComplete b then (False, b)
      else case chan_send task (tb_channel b) of
             Return c \<Rightarrow> (True, b\<lparr>tb_channel := c\<rparr>)
           | _ \<Rightarrow> (False, b))"

text \<open>
  \<^verbatim>\<open>Terminate\<close> in its three parts: closing the graceful signal, what happens when the timer fires
  before completion, and the result once completion is signalled.
\<close>

definition Terminate_begin :: "'t task_buffer \<Rightarrow> 't task_buffer outcome" where
  "Terminate_begin b =
     (case signal_close (terminateGraceful b) of
        Return c \<Rightarrow> Return (b\<lparr>terminateGraceful := c\<rparr>)
      | Blocks \<Rightarrow> Blocks
      | Panics p \<Rightarrow> Panics p)"

definition close_terminateTask :: "'t task_buffer \<Rightarrow> 't task_buffer outcome" where
  "close_terminateTask b =
     (case signal_close (terminateTask b) of
        Return c \<Rightarrow> Return (b\<lparr>terminateTask := c\<rparr>)
      | Blocks \<Rightarrow> Blocks
      | Panics p \<Rightarrow> Panics p)"

definition close_terminateUngraceful :: "'t task_buffer \<Rightarrow> 't task_buffer outcome" where
  "close_terminateUngraceful b =
     (case signal_close (terminateUngraceful b) of
        Return c \<Rightarrow> Return (b\<lparr>terminateUngraceful := c\<rparr>)
      | Blocks \<Rightarrow> Blocks
      | Panics p \<Rightarrow> Panics p)"

definition Terminate_timeout :: "'t task_buffer \<Rightarrow> 't task_buffer outcome" where
  "Terminate_timeout b =
     (case close_terminateTask b of
        Return b \<Rightarrow> close_terminateUngraceful b
      | Blocks \<Rightarrow> Blocks
      | Panics p \<Rightarrow> Panics p)"

definition Terminate_result :: "bool \<Rightarrow> 't task_buffer \<Rightarrow> bool outcome" where
  "Terminate_result timedOut b = (if terminateComplete b then Return (\<not> timedOut) else Blocks)"

definition TerminateNow :: "'t task_buffer \<Rightarrow> 't task_buffer outcome" where
  "TerminateNow b =
     (case Terminate_begin b of
        Return b \<Rightarrow> Terminate_timeout b
      | Blocks \<Rightarrow> Blocks
      | Panics p \<Rightarrow> Panics p)"

section \<open>The goroutine\<close>

text \<open>
  The program points of \<^verbatim>\<open>Run\<close>: the check for ungraceful termination at the top of the loop, the
  non-blocking look at the graceful signal, the blocking wait, the offer of a task to the shared
  queue, the wait for its completion, and the exit, before and after closing the completion signal.
\<close>

datatype 't buf_pc = BufTop | BufFetch | BufWait | BufOffer 't | BufRunning 't | BufClosing | BufExit

record 't buf_sys =
  buf :: "'t task_buffer"
  buf_pc :: "'t buf_pc"
  submitted :: "'t list"
  finished :: "'t list"
  dropped :: "'t list"

inductive run_step :: "'t buf_sys \<Rightarrow> 't buf_sys \<Rightarrow> bool" where
  top_stop: "buf_pc s = BufTop \<Longrightarrow> terminateUngraceful (buf s) \<Longrightarrow> run_step s (s\<lparr>buf_pc := BufClosing\<rparr>)"
| top_continue: "buf_pc s = BufTop \<Longrightarrow> \<not> terminateUngraceful (buf s) \<Longrightarrow> run_step s (s\<lparr>buf_pc := BufFetch\<rparr>)"
| fetch_wait: "buf_pc s = BufFetch \<Longrightarrow> \<not> terminateGraceful (buf s) \<Longrightarrow> run_step s (s\<lparr>buf_pc := BufWait\<rparr>)"
| fetch_task: "buf_pc s = BufFetch \<Longrightarrow> terminateGraceful (buf s) \<Longrightarrow>
     chan_recv (tb_channel (buf s)) = Return (Some t, c) \<Longrightarrow>
     run_step s (s\<lparr>buf_pc := BufOffer t, buf := (buf s)\<lparr>tb_channel := c\<rparr>\<rparr>)"
| fetch_drained: "buf_pc s = BufFetch \<Longrightarrow> terminateGraceful (buf s) \<Longrightarrow>
     chan_recv (tb_channel (buf s)) = Blocks \<Longrightarrow> run_step s (s\<lparr>buf_pc := BufClosing\<rparr>)"
| wait_task: "buf_pc s = BufWait \<Longrightarrow> chan_recv (tb_channel (buf s)) = Return (Some t, c) \<Longrightarrow>
     run_step s (s\<lparr>buf_pc := BufOffer t, buf := (buf s)\<lparr>tb_channel := c\<rparr>\<rparr>)"
| wait_graceful: "buf_pc s = BufWait \<Longrightarrow> terminateGraceful (buf s) \<Longrightarrow> run_step s (s\<lparr>buf_pc := BufTop\<rparr>)"
| offer_taken: "buf_pc s = BufOffer t \<Longrightarrow> run_step s (s\<lparr>buf_pc := BufRunning t\<rparr>)"
| offer_stop: "buf_pc s = BufOffer t \<Longrightarrow> terminateUngraceful (buf s) \<Longrightarrow>
     run_step s (s\<lparr>buf_pc := BufClosing, dropped := dropped s @ [t]\<rparr>)"
| task_finished: "buf_pc s = BufRunning t \<Longrightarrow> run_step s (s\<lparr>buf_pc := BufTop, finished := finished s @ [t]\<rparr>)"
| close_complete: "buf_pc s = BufClosing \<Longrightarrow> signal_close (terminateComplete (buf s)) = Return c \<Longrightarrow>
     run_step s (s\<lparr>buf_pc := BufExit, buf := (buf s)\<lparr>terminateComplete := c\<rparr>\<rparr>)"

text \<open>
  The steps of the owner of the buffer. A submission that is refused changes nothing. The goroutine may
  run between any two of the signals that a timeout or \<^verbatim>\<open>TerminateNow\<close> close one after the other.
\<close>

inductive owner_step :: "'t buf_sys \<Rightarrow> 't buf_sys \<Rightarrow> bool" where
  owner_submit: "buffer_Submit t (buf s) = (True, b) \<Longrightarrow>
     owner_step s (s\<lparr>buf := b, submitted := submitted s @ [t]\<rparr>)"
| owner_terminate: "Terminate_begin (buf s) = Return b \<Longrightarrow> owner_step s (s\<lparr>buf := b\<rparr>)"
| owner_close_task: "terminateGraceful (buf s) \<Longrightarrow> close_terminateTask (buf s) = Return b \<Longrightarrow> owner_step s (s\<lparr>buf := b\<rparr>)"
| owner_close_ungraceful: "terminateTask (buf s) \<Longrightarrow> close_terminateUngraceful (buf s) = Return b \<Longrightarrow>
     owner_step s (s\<lparr>buf := b\<rparr>)"

definition buf_step :: "'t buf_sys \<Rightarrow> 't buf_sys \<Rightarrow> bool" where
  "buf_step s s' \<longleftrightarrow> run_step s s' \<or> owner_step s s'"

definition buf_init :: "nat \<Rightarrow> 't buf_sys" where
  "buf_init capacity = \<lparr>buf = NewChannelBasedPublisherTaskBuffer capacity, buf_pc = BufTop,
     submitted = [], finished = [], dropped = []\<rparr>"

section \<open>The invariant\<close>

fun held :: "'t buf_pc \<Rightarrow> 't list" where
  "held (BufOffer t) = [t]"
| "held (BufRunning t) = [t]"
| "held _ = []"

definition buf_inv :: "'t buf_sys \<Rightarrow> bool" where
  "buf_inv s \<longleftrightarrow>
     submitted s = finished s @ dropped s @ held (buf_pc s) @ chan_items (tb_channel (buf s)) \<and>
     chan_open (tb_channel (buf s)) \<and>
     (terminateComplete (buf s) \<longleftrightarrow> buf_pc s = BufExit) \<and>
     (dropped s \<noteq> [] \<longrightarrow> terminateUngraceful (buf s) \<and> buf_pc s \<in> {BufClosing, BufExit}) \<and>
     (terminateUngraceful (buf s) \<longrightarrow> terminateTask (buf s)) \<and>
     (terminateTask (buf s) \<longrightarrow> terminateGraceful (buf s)) \<and>
     (buf_pc s \<in> {BufClosing, BufExit} \<longrightarrow> terminateGraceful (buf s))"

lemma buf_inv_init: "buf_inv (buf_init capacity)"
  by (simp add: buf_inv_def buf_init_def NewChannelBasedPublisherTaskBuffer_def) (simp add: make_chan_def)

lemma recv_open:
  "chan_recv c = Return (Some t, c') \<Longrightarrow> chan_open c \<Longrightarrow> chan_open c' \<and> chan_items c = t # chan_items c'"
  using chan_recv_Some [of c t c'] by (auto simp: chan_open_def chan_wf_def)

lemma run_step_inv: "run_step s s' \<Longrightarrow> buf_inv s \<Longrightarrow> buf_inv s'"
proof (induction rule: run_step.induct)
  case (fetch_task s t c)
  then show ?case using recv_open [of _ t c] by (auto simp: buf_inv_def)
next
  case (wait_task s t c)
  then show ?case using recv_open [of _ t c] by (auto simp: buf_inv_def)
next
  case (close_complete s c)
  then show ?case by (auto simp: buf_inv_def signal_close_def split: if_splits)
qed (auto simp: buf_inv_def)

lemma owner_step_inv: "owner_step s s' \<Longrightarrow> buf_inv s \<Longrightarrow> buf_inv s'"
proof (induction rule: owner_step.induct)
  case (owner_submit t s b)
  then show ?case
    by (auto simp: buf_inv_def buffer_Submit_def chan_send_def chan_open_def chan_wf_def
        split: if_splits outcome.splits)
qed (auto simp: buf_inv_def Terminate_begin_def close_terminateTask_def close_terminateUngraceful_def signal_close_def
      split: if_splits outcome.splits)

lemma buf_steps_inv: "buf_step\<^sup>*\<^sup>* s s' \<Longrightarrow> buf_inv s \<Longrightarrow> buf_inv s'"
  by (induction rule: rtranclp_induct) (auto simp: buf_step_def intro: run_step_inv owner_step_inv)

text \<open>
  C9. Task accounting. In every interleaving of the goroutine with submissions and one termination, graceful or not,
  the accepted tasks are, in this order, the finished ones, at most one dropped or being handled,
  and the queued ones; a task is dropped only after an ungraceful termination; the task channel
  stays open and within capacity, so that a submission never panics; the completion signal is
  closed exactly when the goroutine has returned, and closing it never panics. The call that terminates must be the only one: it panics
  if and only if the graceful signal is closed already, that is, a second \<^verbatim>\<open>Terminate\<close> or \<^verbatim>\<open>TerminateNow\<close> always does. The publishers, which own
  the buffer, let one caller through by their life cycle.
\<close>

theorem task_buffer_accounting:
  assumes "buf_step\<^sup>*\<^sup>* (buf_init capacity) s"
  shows "submitted s = finished s @ dropped s @ held (buf_pc s) @ chan_items (tb_channel (buf s)) \<and>
    length (dropped s @ held (buf_pc s)) \<le> 1 \<and>
    (dropped s \<noteq> [] \<longrightarrow> terminateUngraceful (buf s)) \<and>
    chan_open (tb_channel (buf s)) \<and>
    (terminateComplete (buf s) \<longleftrightarrow> buf_pc s = BufExit) \<and>
    (buf_pc s = BufClosing \<longrightarrow> signal_close (terminateComplete (buf s)) = Return True) \<and>
    (Terminate_begin (buf s) = Panics CloseOfClosedChannel \<longleftrightarrow> terminateGraceful (buf s)) \<and>
    (TerminateNow (buf s) = Panics CloseOfClosedChannel \<longleftrightarrow> terminateGraceful (buf s))"
proof -
  have inv: "buf_inv s" using assms buf_inv_init by (rule buf_steps_inv)
  have one: "length (dropped s) \<le> 1 \<and> (dropped s \<noteq> [] \<longrightarrow> buf_pc s \<in> {BufClosing, BufExit})"
    using assms
  proof (induction rule: rtranclp_induct)
    case base
    show ?case by (simp add: buf_init_def)
  next
    case (step s1 s2)
    from step.hyps(2) step.IH show ?case
      by (auto simp: buf_step_def elim!: run_step.cases owner_step.cases)
  qed
  have "length (held (buf_pc s)) \<le> 1" by (cases "buf_pc s") auto
  with one have "length (dropped s @ held (buf_pc s)) \<le> 1" by (cases "dropped s = []") auto
  moreover have "Terminate_begin (buf s) = Panics CloseOfClosedChannel \<longleftrightarrow> terminateGraceful (buf s)"
    by (simp add: Terminate_begin_def signal_close_def)
  moreover have "TerminateNow (buf s) = Panics CloseOfClosedChannel \<longleftrightarrow> terminateGraceful (buf s)"
    using inv by (auto simp: buf_inv_def TerminateNow_def Terminate_begin_def Terminate_timeout_def close_terminateTask_def
        close_terminateUngraceful_def signal_close_def)
  ultimately show ?thesis using inv by (auto simp: buf_inv_def signal_close_def)
qed

theorem task_buffer_accounting_witness:
  "case buffer_Submit (5::nat) (buf (buf_init 1)) of (ok, b) \<Rightarrow>
     ok \<and> buf_step\<^sup>*\<^sup>* (buf_init 1) ((buf_init 1)\<lparr>buf := b, submitted := [5]\<rparr>) \<and>
     length (dropped ((buf_init 1)\<lparr>buf := b, submitted := [5]\<rparr>) @
       held (buf_pc ((buf_init 1)\<lparr>buf := b, submitted := [5]\<rparr>))) \<le> 1"
proof -
  obtain b where b: "buffer_Submit (5::nat) (buf (buf_init 1)) = (True, b)"
    by (simp add: buffer_Submit_def buf_init_def NewChannelBasedPublisherTaskBuffer_def chan_send_def make_chan_def)
  have "owner_step (buf_init 1) ((buf_init 1)\<lparr>buf := b, submitted := submitted (buf_init 1) @ [5]\<rparr>)"
    using b by (rule owner_submit)
  then have st: "buf_step\<^sup>*\<^sup>* (buf_init 1) ((buf_init 1)\<lparr>buf := b, submitted := [5]\<rparr>)"
    by (simp add: buf_step_def buf_init_def r_into_rtranclp)
  with task_buffer_accounting [OF st] b show ?thesis by simp
qed

section \<open>Graceful termination\<close>

text \<open>
  While the goroutine is not stopped by an ungraceful termination, reaching the exit means that the
  queue was empty at that moment. A submission may still slip in between that moment and the closing
  of the completion signal; such a task stays in the channel.
\<close>

text \<open>
  Graceful termination runs every task: the step that decides to exit during a graceful
  termination is taken only when every task accepted so far has finished, in the order of
  submission, and none was dropped.
\<close>

theorem graceful_exit_drained:
  assumes "buf_step\<^sup>*\<^sup>* (buf_init capacity) s" and "run_step s s'" and "buf_pc s' = BufClosing"
    and "\<not> terminateUngraceful (buf s)"
  shows "finished s' = submitted s' \<and> dropped s' = [] \<and> terminateGraceful (buf s')"
proof -
  have inv: "buf_inv s" using assms(1) buf_inv_init by (rule buf_steps_inv)
  from assms(2) show ?thesis
    using assms(3,4) inv by cases (auto simp: buf_inv_def chan_recv_Blocks)
qed

theorem graceful_exit_drained_witness:
  "finished ((buf_init 1)\<lparr>buf_pc := BufClosing, buf := (buf (buf_init 1))\<lparr>terminateGraceful := True\<rparr>\<rparr>) =
   submitted ((buf_init 1 :: nat buf_sys)\<lparr>buf_pc := BufClosing, buf := (buf (buf_init 1))\<lparr>terminateGraceful := True\<rparr>\<rparr>)"
proof -
  let ?a = "(buf_init 1 :: nat buf_sys)\<lparr>buf_pc := BufFetch\<rparr>"
  let ?b = "?a\<lparr>buf := (buf ?a)\<lparr>terminateGraceful := True\<rparr>\<rparr>"
  let ?c = "?b\<lparr>buf_pc := BufClosing\<rparr>"
  have "run_step (buf_init 1) ?a"
    by (rule top_continue) (simp_all add: buf_init_def NewChannelBasedPublisherTaskBuffer_def)
  moreover have "owner_step ?a ?b"
    by (rule owner_terminate)
      (simp add: Terminate_begin_def signal_close_def buf_init_def NewChannelBasedPublisherTaskBuffer_def)
  ultimately have reach: "buf_step\<^sup>*\<^sup>* (buf_init 1) ?b"
    by (meson buf_step_def rtranclp.rtrancl_refl rtranclp.rtrancl_into_rtrancl)
  have "run_step ?b ?c"
    by (rule fetch_drained)
      (simp_all add: buf_init_def NewChannelBasedPublisherTaskBuffer_def chan_recv_def make_chan_def)
  from graceful_exit_drained [OF reach this] show ?thesis
    by (simp add: buf_init_def NewChannelBasedPublisherTaskBuffer_def)
qed

section \<open>The goroutine returns\<close>

fun graceful_rank :: "'t buf_pc \<Rightarrow> nat" where
  "graceful_rank (BufOffer t) = 5"
| "graceful_rank (BufRunning t) = 4"
| "graceful_rank BufWait = 4"
| "graceful_rank BufTop = 3"
| "graceful_rank BufFetch = 2"
| "graceful_rank BufClosing = 1"
| "graceful_rank BufExit = 0"

definition run_measure :: "'t buf_sys \<Rightarrow> nat" where
  "run_measure s = 4 * length (chan_items (tb_channel (buf s))) + graceful_rank (buf_pc s)"

lemma run_step_measure:
  "run_step s s' \<Longrightarrow> terminateGraceful (buf s) \<Longrightarrow>
     run_measure s' < run_measure s \<and> terminateGraceful (buf s')"
  by (induction rule: run_step.induct) (auto simp: run_measure_def dest: chan_recv_Some)

lemma run_step_enabled:
  assumes "buf_inv s" and "terminateGraceful (buf s)" and "buf_pc s \<noteq> BufExit"
  shows "\<exists>s'. run_step s s'"
proof (cases "buf_pc s")
  case BufTop
  then show ?thesis by (meson top_stop top_continue)
next
  case BufFetch
  show ?thesis
  proof (cases "chan_items (tb_channel (buf s))")
    case Nil
    with assms have "chan_recv (tb_channel (buf s)) = Blocks"
      by (simp add: chan_recv_Blocks buf_inv_def chan_open_def)
    with BufFetch assms(2) show ?thesis by (meson fetch_drained)
  next
    case (Cons t ts)
    then obtain c where "chan_recv (tb_channel (buf s)) = Return (Some t, c)" by (simp add: chan_recv_def)
    with BufFetch assms(2) show ?thesis by (meson fetch_task)
  qed
next
  case BufClosing
  with assms(1) have "signal_close (terminateComplete (buf s)) = Return True"
    by (simp add: buf_inv_def signal_close_def)
  with BufClosing show ?thesis by (meson close_complete)
qed (use assms in \<open>meson wait_graceful offer_taken task_finished\<close>)+

inductive run_steps :: "nat \<Rightarrow> 't buf_sys \<Rightarrow> 't buf_sys \<Rightarrow> bool" where
  zero: "run_steps 0 s s"
| succ: "run_step s s' \<Longrightarrow> run_steps n s' s'' \<Longrightarrow> run_steps (Suc n) s s''"

lemma run_steps_measure:
  "run_steps n s s' \<Longrightarrow> terminateGraceful (buf s) \<Longrightarrow> n + run_measure s' \<le> run_measure s"
  by (induction rule: run_steps.induct) (auto dest!: run_step_measure)

lemma run_steps_to_exit:
  "buf_inv s \<Longrightarrow> terminateGraceful (buf s) \<Longrightarrow>
     \<exists>n s'. run_steps n s s' \<and> buf_pc s' = BufExit \<and> buf_inv s'"
proof (induction "run_measure s" arbitrary: s rule: less_induct)
  case less
  show ?case
  proof (cases "buf_pc s = BufExit")
    case True
    with less.prems show ?thesis by (blast intro: zero)
  next
    case False
    then obtain s1 where s1: "run_step s s1" using run_step_enabled less.prems by blast
    obtain n s' where "run_steps n s1 s'" "buf_pc s' = BufExit" "buf_inv s'"
      using less.hyps [of s1] run_step_measure [OF s1 less.prems(2)] run_step_inv [OF s1 less.prems(1)]
      by blast
    with s1 show ?thesis by (blast intro: succ)
  qed
qed

text \<open>
  The goroutine returns after a termination request: from every reachable state in which the
  graceful signal is closed, the goroutine (with each task it hands over finishing) runs at most
  four steps per queued task plus five, whatever choices it makes, and it can always go on
  until it has returned and closed the completion signal, on which the terminating caller waits.
\<close>

theorem task_buffer_run_returns:
  assumes "buf_step\<^sup>*\<^sup>* (buf_init capacity) s" and "terminateGraceful (buf s)"
  shows "(\<forall>n s'. run_steps n s s' \<longrightarrow> n \<le> 4 * length (chan_items (tb_channel (buf s))) + 5 \<and>
      (buf_pc s' \<noteq> BufExit \<longrightarrow> (\<exists>s''. run_step s' s''))) \<and>
    (\<exists>n s'. run_steps n s s' \<and> buf_pc s' = BufExit \<and> Terminate_result timedOut (buf s') = Return (\<not> timedOut))"
proof -
  have inv: "buf_inv s" using assms(1) buf_inv_init by (rule buf_steps_inv)
  have keep: "run_steps n s s' \<Longrightarrow> buf_inv s \<Longrightarrow> terminateGraceful (buf s) \<Longrightarrow>
      buf_inv s' \<and> terminateGraceful (buf s')" for n and s s' :: "'a buf_sys"
    by (induction rule: run_steps.induct) (auto dest: run_step_inv run_step_measure)
  have "graceful_rank (buf_pc s) \<le> 5" by (cases "buf_pc s") auto
  then have "\<forall>n s'. run_steps n s s' \<longrightarrow> n \<le> 4 * length (chan_items (tb_channel (buf s))) + 5 \<and>
      (buf_pc s' \<noteq> BufExit \<longrightarrow> (\<exists>s''. run_step s' s''))"
    using run_steps_measure [OF _ assms(2)] keep [OF _ inv assms(2)] run_step_enabled
    by (fastforce simp: run_measure_def)
  moreover obtain n s' where "run_steps n s s'" "buf_pc s' = BufExit" "buf_inv s'"
    using run_steps_to_exit [OF inv assms(2)] by blast
  ultimately show ?thesis by (auto simp: buf_inv_def Terminate_result_def)
qed

theorem task_buffer_run_returns_witness:
  "\<exists>n s'. run_steps n ((buf_init 1 :: nat buf_sys)\<lparr>buf := (buf (buf_init 1))\<lparr>terminateGraceful := True\<rparr>\<rparr>) s' \<and>
     buf_pc s' = BufExit"
proof -
  let ?s = "(buf_init 1 :: nat buf_sys)\<lparr>buf := (buf (buf_init 1))\<lparr>terminateGraceful := True\<rparr>\<rparr>"
  have "owner_step (buf_init 1) ?s"
    by (rule owner_terminate)
      (simp add: Terminate_begin_def signal_close_def buf_init_def NewChannelBasedPublisherTaskBuffer_def)
  then have "buf_step\<^sup>*\<^sup>* (buf_init 1) ?s" by (simp add: buf_step_def r_into_rtranclp)
  from task_buffer_run_returns [OF this, of True] show ?thesis by auto
qed

section \<open>Ungraceful termination\<close>

fun stop_rank :: "'t buf_pc \<Rightarrow> nat" where
  "stop_rank BufFetch = 5"
| "stop_rank BufWait = 5"
| "stop_rank (BufOffer t) = 4"
| "stop_rank (BufRunning t) = 3"
| "stop_rank BufTop = 2"
| "stop_rank BufClosing = 1"
| "stop_rank BufExit = 0"

lemma run_step_stop:
  "run_step s s' \<Longrightarrow> terminateUngraceful (buf s) \<Longrightarrow> terminateGraceful (buf s) \<Longrightarrow>
     stop_rank (buf_pc s') < stop_rank (buf_pc s) \<and> terminateUngraceful (buf s') \<and> terminateGraceful (buf s') \<and>
     length (finished s') + (if stop_rank (buf_pc s') \<ge> 3 then 1 else 0)
       \<le> length (finished s) + (if stop_rank (buf_pc s) \<ge> 3 then 1 else 0)"
  by (induction rule: run_step.induct) auto

lemma run_steps_stop:
  "run_steps n s s' \<Longrightarrow> terminateUngraceful (buf s) \<Longrightarrow> terminateGraceful (buf s) \<Longrightarrow>
     n + stop_rank (buf_pc s') \<le> stop_rank (buf_pc s) \<and>
     length (finished s') + (if stop_rank (buf_pc s') \<ge> 3 then 1 else 0)
       \<le> length (finished s) + (if stop_rank (buf_pc s) \<ge> 3 then 1 else 0)"
  by (induction rule: run_steps.induct) (auto dest!: run_step_stop split: if_splits)

text \<open>
  Ungraceful termination is prompt: once the ungraceful signal is closed, the goroutine makes at
  most five more steps, independently of how many tasks are queued, and at most one more task
  finishes. Terminating a buffer that is already terminating panics, in each combination of the two
  entry points.
\<close>

theorem ungraceful_termination_prompt:
  assumes "buf_step\<^sup>*\<^sup>* (buf_init capacity) s" and "terminateUngraceful (buf s)" and "run_steps n s s'"
  shows "n \<le> 5 \<and> length (finished s') \<le> length (finished s) + 1 \<and>
    Terminate_begin (buf s) = Panics CloseOfClosedChannel \<and> TerminateNow (buf s) = Panics CloseOfClosedChannel"
proof -
  have inv: "buf_inv s" using assms(1) buf_inv_init by (rule buf_steps_inv)
  then have g: "terminateGraceful (buf s)" using assms(2) by (simp add: buf_inv_def)
  have "stop_rank (buf_pc s) \<le> 5" by (cases "buf_pc s") auto
  with run_steps_stop [OF assms(3,2) g] g show ?thesis
    by (auto simp: Terminate_begin_def TerminateNow_def signal_close_def split: if_splits)
qed

theorem ungraceful_termination_prompt_witness:
  "Terminate_begin ((buf (buf_init 1 :: nat buf_sys))\<lparr>terminateGraceful := True, terminateTask := True,
     terminateUngraceful := True\<rparr>) = Panics CloseOfClosedChannel"
proof -
  let ?a = "(buf_init 1 :: nat buf_sys)\<lparr>buf := (buf (buf_init 1))\<lparr>terminateGraceful := True\<rparr>\<rparr>"
  let ?b = "?a\<lparr>buf := (buf ?a)\<lparr>terminateTask := True\<rparr>\<rparr>"
  let ?c = "?b\<lparr>buf := (buf ?b)\<lparr>terminateUngraceful := True\<rparr>\<rparr>"
  note defs = Terminate_begin_def close_terminateTask_def close_terminateUngraceful_def signal_close_def
    buf_init_def NewChannelBasedPublisherTaskBuffer_def
  have "owner_step (buf_init 1) ?a" by (rule owner_terminate) (simp add: defs)
  moreover have "owner_step ?a ?b" by (rule owner_close_task) (simp_all add: defs)
  moreover have "owner_step ?b ?c" by (rule owner_close_ungraceful) (simp_all add: defs)
  ultimately have "buf_step\<^sup>*\<^sup>* (buf_init 1) ?c"
    by (meson buf_step_def rtranclp.rtrancl_refl rtranclp.rtrancl_into_rtrancl)
  from ungraceful_termination_prompt [OF this _ zero] show ?thesis by simp
qed

end
