(* ===== verification/Core_Events.thy ===== *)
theory Core_Events
  imports Core_Errors
begin

text \<open>
  The event service of a session (\<^verbatim>\<open>internal/impl/core/events.go\<close>): handlers are registered per
  event under numbers of one counter, removed by number, and called with the event information when
  the C library reports a session event or the transport emits one. Every operation takes the
  handler lock for its whole body, so each is one atomic step. The state is the map of maps and the
  counter; whether the session has the event callback installed is kept with it.
\<close>

section \<open>Events\<close>

datatype Event =
    SolClientEventUp
  | SolClientEventDown
  | SolClientEventCanSend
  | SolClientEventAcknowledgement
  | SolClientEventRejected
  | SolClientEventReconnect
  | SolClientEventReconnectAttempt
  | SolClientSubscriptionOk
  | SolClientSubscriptionError
  | SolClientProvisionOk
  | SolClientProvisionError

datatype SolClientSessionEvent =
    SolClientSessionEventUpNotice
  | SolClientSessionEventDownError
  | SolClientSessionEventConnectFailedError
  | SolClientSessionEventRejectedMsgError
  | SolClientSessionEventSubscriptionError
  | SolClientSessionEventRxMsgTooBigError
  | SolClientSessionEventAcknowledgement
  | SolClientSessionEventAssuredPublishingUp
  | SolClientSessionEventAssuredConnectFailed
  | SolClientSessionEventAssuredDeliveryDown
  | SolClientSessionEventTeUnsubscribeError
  | SolClientSessionEventTeUnsubscribeOk
  | SolClientSessionEventCanSend
  | SolClientSessionEventReconnectingNotice
  | SolClientSessionEventReconnectedNotice
  | SolClientSessionEventProvisionError
  | SolClientSessionEventProvisionOk
  | SolClientSessionEventSubscriptionOk
  | SolClientSessionEventVirtualRouterNameChanged
  | SolClientSessionEventModifypropOk
  | SolClientSessionEventModifypropFail
  | SolClientSessionEventRepublishUnackedMessages

fun sessionEventMapping :: "SolClientSessionEvent \<Rightarrow> Event option" where
  "sessionEventMapping SolClientSessionEventUpNotice = Some SolClientEventUp"
| "sessionEventMapping SolClientSessionEventDownError = Some SolClientEventDown"
| "sessionEventMapping SolClientSessionEventCanSend = Some SolClientEventCanSend"
| "sessionEventMapping SolClientSessionEventAcknowledgement = Some SolClientEventAcknowledgement"
| "sessionEventMapping SolClientSessionEventRejectedMsgError = Some SolClientEventRejected"
| "sessionEventMapping SolClientSessionEventReconnectedNotice = Some SolClientEventReconnect"
| "sessionEventMapping SolClientSessionEventReconnectingNotice = Some SolClientEventReconnectAttempt"
| "sessionEventMapping SolClientSessionEventSubscriptionError = Some SolClientSubscriptionError"
| "sessionEventMapping SolClientSessionEventSubscriptionOk = Some SolClientSubscriptionOk"
| "sessionEventMapping SolClientSessionEventProvisionError = Some SolClientProvisionError"
| "sessionEventMapping SolClientSessionEventProvisionOk = Some SolClientProvisionOk"
| "sessionEventMapping _ = None"

record sessionEventInfo =
  sei_err :: "go_error option"
  infoString :: string
  correlationP :: "u8 list option"
  userP :: u64

text \<open>
  The handler maps: \<^verbatim>\<open>map[Event](map[uint]EventHandler)\<close> as nested association lists, \<open>None\<close> when
  the outer map is nil. The handler type is left open; it is the client's closure.
\<close>

type_synonym 'h handler_map = "(Event \<times> (u64 \<times> 'h) list) list"

record 'h ccsmpBackedEvents =
  eventHandlers :: "'h handler_map option"
  handlerID :: u64
  eventCallbackSet :: bool

definition newCcsmpEvents :: "'h ccsmpBackedEvents" where
  "newCcsmpEvents = \<lparr>eventHandlers = Some [], handlerID = 0, eventCallbackSet = False\<rparr>"

fun add_to_event :: "Event \<Rightarrow> u64 \<Rightarrow> 'h \<Rightarrow> 'h handler_map \<Rightarrow> 'h handler_map" where
  "add_to_event e i h [] = [(e, AList.update i h [])]"
| "add_to_event e i h ((e', hs) # m) =
     (if e' = e then (e', AList.update i h hs) # m else (e', hs) # add_to_event e i h m)"

definition AddEventHandler :: "Event \<Rightarrow> 'h \<Rightarrow> 'h ccsmpBackedEvents \<Rightarrow> u64 \<times> 'h ccsmpBackedEvents" where
  "AddEventHandler sessionEvent eventHandler events =
     (case eventHandlers events of
        None \<Rightarrow> (0, events)
      | Some m \<Rightarrow>
          let i = handlerID events + 1
          in (i, events\<lparr>handlerID := i,
                        eventHandlers := Some (add_to_event sessionEvent i eventHandler m)\<rparr>))"

fun remove_first :: "u64 \<Rightarrow> 'h handler_map \<Rightarrow> 'h handler_map" where
  "remove_first i [] = []"
| "remove_first i ((e, hs) # m) =
     (if map_of hs i \<noteq> None then (e, AList.delete i hs) # m else (e, hs) # remove_first i m)"

definition RemoveEventHandler :: "u64 \<Rightarrow> 'h ccsmpBackedEvents \<Rightarrow> 'h ccsmpBackedEvents" where
  "RemoveEventHandler i events =
     (case eventHandlers events of
        None \<Rightarrow> events
      | Some m \<Rightarrow> events\<lparr>eventHandlers := Some (remove_first i m)\<rparr>)"

definition handlers_for :: "Event \<Rightarrow> 'h ccsmpBackedEvents \<Rightarrow> (u64 \<times> 'h) list" where
  "handlers_for e events =
     (case eventHandlers events of
        None \<Rightarrow> []
      | Some m \<Rightarrow> (case map_of m e of None \<Rightarrow> [] | Some hs \<Rightarrow> hs))"

text \<open>
  Emitting an event calls every handler of the event once with the information; the model returns
  the calls. The event callback of the session does the same for a mapped session event, with the
  error taken from the last error information of the C library, and ignores an unmapped one.
\<close>

definition emitEvent :: "Event \<Rightarrow> sessionEventInfo \<Rightarrow> 'h ccsmpBackedEvents \<Rightarrow> ('h \<times> sessionEventInfo) list" where
  "emitEvent event eventInfo events = map (\<lambda>(i, h). (h, eventInfo)) (handlers_for event events)"

definition eventCallback ::
    "SolClientSessionEvent \<Rightarrow> ErrorInfo \<Rightarrow> string \<Rightarrow> u8 list option \<Rightarrow> u64 \<Rightarrow> 'h ccsmpBackedEvents
       \<Rightarrow> ('h \<times> sessionEventInfo) list" where
  "eventCallback sessionEvent lastErrorInfo info corrP uP events =
     (case sessionEventMapping sessionEvent of
        None \<Rightarrow> []
      | Some mappedEvent \<Rightarrow>
          let err = (if ErrorInfo_SubCode lastErrorInfo \<noteq> 0 then Some (ToNativeError lastErrorInfo [])
                     else None)
          in map (\<lambda>(i, h). (h, \<lparr>sei_err = err, infoString = info, correlationP = corrP, userP = uP\<rparr>))
               (handlers_for mappedEvent events))"

definition events_start :: "'h ccsmpBackedEvents \<Rightarrow> 'h ccsmpBackedEvents" where
  "events_start events = events\<lparr>eventCallbackSet := True\<rparr>"

definition events_terminate :: "'h ccsmpBackedEvents \<Rightarrow> 'h ccsmpBackedEvents" where
  "events_terminate events =
     events\<lparr>eventHandlers := map_option (\<lambda>m. []) (eventHandlers events), eventCallbackSet := False\<rparr>"

section \<open>The registry contract\<close>

text \<open>All registrations, in one list: number, event and handler.\<close>

definition flatten :: "'h handler_map \<Rightarrow> (u64 \<times> Event \<times> 'h) list" where
  "flatten m = concat (map (\<lambda>(e, hs). map (\<lambda>(i, h). (i, e, h)) hs) m)"

lemma flatten_simps [simp]:
  "flatten [] = []"
  "flatten ((e, hs) # m) = map (\<lambda>(i, h). (i, e, h)) hs @ flatten m"
  by (simp_all add: flatten_def)

definition events_look :: "'h ccsmpBackedEvents \<Rightarrow> u64 \<Rightarrow> (Event \<times> 'h) option" where
  "events_look events = (case eventHandlers events of None \<Rightarrow> Map.empty | Some m \<Rightarrow> map_of (flatten m))"

definition events_wf :: "'h ccsmpBackedEvents \<Rightarrow> bool" where
  "events_wf events \<longleftrightarrow>
     (\<exists>m. eventHandlers events = Some m \<and> distinct (map fst m) \<and> distinct (map fst (flatten m)) \<and>
          (\<forall>i \<in> fst ` set (flatten m). i \<le> handlerID events))"

lemma fst_flat [simp]: "fst ` (\<lambda>(i, h). (i, e, h)) ` A = fst ` A"
  by force

lemma map_fst_flat [simp]: "map (fst \<circ> (\<lambda>(i, h). (i, e, h))) hs = map fst hs"
  by (induction hs) auto

lemma mset_add_to_event:
  "i \<notin> fst ` set (flatten m) \<Longrightarrow>
     mset (flatten (add_to_event e i h m)) = add_mset (i, e, h) (mset (flatten m))"
  by (induction m rule: add_to_event.induct [of _ e i h])
    (auto simp: update_fresh image_Un)

lemma map_fst_add_to_event:
  "map fst (add_to_event e i h m) = (if e \<in> fst ` set m then map fst m else map fst m @ [e])"
  by (induction m rule: add_to_event.induct [of _ e i h]) auto

lemma flatten_remove_first:
  "distinct (map fst (flatten m)) \<Longrightarrow>
     flatten (remove_first i m) = filter (\<lambda>p. fst p \<noteq> i) (flatten m)"
proof (induction m rule: remove_first.induct [of _ i])
  case 1
  then show ?case by simp
next
  case (2 i e hs m)
  show ?case
  proof (cases "map_of hs i")
    case None
    then have "filter (\<lambda>p. fst p \<noteq> i) (map (\<lambda>(i, h). (i, e, h)) hs) = map (\<lambda>(i, h). (i, e, h)) hs"
      by (force simp: filter_id_conv map_of_eq_None_iff)
    with None 2 show ?thesis by simp
  next
    case (Some h)
    then have "i \<in> fst ` set hs" by (metis map_of_SomeD fst_conv image_eqI)
    with 2(2) have "i \<notin> fst ` set (flatten m)" by auto
    then have "filter (\<lambda>p. fst p \<noteq> i) (flatten m) = flatten m"
      by (auto simp: filter_id_conv)
    moreover have "map (\<lambda>(i, h). (i, e, h)) (AList.delete i hs) =
        filter (\<lambda>p. fst p \<noteq> i) (map (\<lambda>(i, h). (i, e, h)) hs)"
      by (induction hs) auto
    ultimately show ?thesis using Some by simp
  qed
qed

lemma map_fst_remove_first: "map fst (remove_first i m) = map fst m"
  by (induction m rule: remove_first.induct [of _ i]) auto

lemma map_of_mset_eq:
  "distinct (map fst xs) \<Longrightarrow> mset ys = mset xs \<Longrightarrow> map_of ys = map_of xs"
proof -
  assume d: "distinct (map fst xs)" and eq: "mset ys = mset xs"
  have "mset (map fst ys) = mset (map fst xs)" using eq by simp
  then have "distinct (map fst ys)" using d mset_eq_imp_distinct_iff by blast
  with d show "map_of ys = map_of xs"
    by (intro map_of_inject_set [THEN iffD2]) (auto simp: mset_eq_setD [OF eq])
qed

text \<open>The effect of adding and removing, through the well-formedness invariant.\<close>

lemma AddEventHandler_look:
  assumes wf: "events_wf s" and nomax: "handlerID s \<noteq> - 1"
    and add: "AddEventHandler e h s = (i, s')"
  shows "events_look s' = (events_look s)(i \<mapsto> (e, h))" and "events_wf s'"
proof -
  obtain m where m: "eventHandlers s = Some m" "distinct (map fst m)" "distinct (map fst (flatten m))"
    "\<forall>i \<in> fst ` set (flatten m). i \<le> handlerID s"
    using wf by (auto simp: events_wf_def)
  let ?m' = "add_to_event e i h m"
  have i: "i = handlerID s + 1" and s': "s' = s\<lparr>handlerID := i, eventHandlers := Some ?m'\<rparr>"
    using add m(1) by (auto simp: AddEventHandler_def Let_def)
  have less: "handlerID s < i" using nomax i by (metis inc_less_eq_self_iff_eq not_le)
  then have fresh: "i \<notin> fst ` set (flatten m)" using m(4) by (metis not_le)
  have ms: "mset (flatten ?m') = mset ((i, e, h) # flatten m)" using mset_add_to_event [OF fresh] by simp
  have d: "distinct (map fst ((i, e, h) # flatten m))" using fresh m(3) by simp
  have "map_of (flatten ?m') = (map_of (flatten m))(i \<mapsto> (e, h))"
    using map_of_mset_eq [OF d ms] by simp
  then show "events_look s' = (events_look s)(i \<mapsto> (e, h))"
    using s' m(1) by (simp add: events_look_def)
  have "mset (map fst (flatten ?m')) = mset (map fst ((i, e, h) # flatten m))"
    using ms by (metis mset_map)
  then have "distinct (map fst (flatten ?m'))" using d mset_eq_imp_distinct_iff by blast
  moreover have "set (flatten ?m') = insert (i, e, h) (set (flatten m))"
    using mset_eq_setD [OF ms] by simp
  ultimately show "events_wf s'"
    using s' m less by (auto simp: events_wf_def map_fst_add_to_event intro: order.trans less_imp_le)
qed

lemma RemoveEventHandler_look:
  assumes "events_wf s"
  shows "events_look (RemoveEventHandler i s) = (events_look s)(i := None)"
    and "events_wf (RemoveEventHandler i s)"
  using assms
  by (auto simp: events_wf_def events_look_def RemoveEventHandler_def flatten_remove_first
      map_of_filter_neq map_fst_remove_first distinct_map_filter)

definition add_event_handler :: "Event \<times> 'h \<Rightarrow> 'h ccsmpBackedEvents \<Rightarrow> u64 \<times> 'h ccsmpBackedEvents" where
  "add_event_handler p events = AddEventHandler (fst p) (snd p) events"

lemma AddEventHandler_id:
  "events_wf s \<Longrightarrow> fst (AddEventHandler e h s) = handlerID s + 1"
  "events_wf s \<Longrightarrow> handlerID (snd (AddEventHandler e h s)) = handlerID s + 1"
  by (auto simp: events_wf_def AddEventHandler_def Let_def)

interpretation evreg: handler_registry add_event_handler RemoveEventHandler events_look handlerID events_wf
proof unfold_locales
  fix s :: "'a ccsmpBackedEvents" and p :: "Event \<times> 'a" and i
  assume wf: "events_wf s"
  show "fst (add_event_handler p s) = handlerID s + 1"
    and "handlerID (snd (add_event_handler p s)) = handlerID s + 1"
    using wf by (simp_all add: add_event_handler_def AddEventHandler_id)
  show "events_look (RemoveEventHandler i s) = (events_look s)(i := None)"
    and "events_wf (RemoveEventHandler i s)"
    using wf by (rule RemoveEventHandler_look)+
  show "handlerID (RemoveEventHandler i s) = handlerID s"
    by (simp add: RemoveEventHandler_def split: option.splits)
  show "events_look s i \<noteq> None \<Longrightarrow> i \<le> handlerID s"
    using wf by (fastforce simp: events_wf_def events_look_def dest: map_of_SomeD)
  assume nomax: "handlerID s \<noteq> - 1"
  obtain j s' where eq: "AddEventHandler (fst p) (snd p) s = (j, s')"
    by (cases "AddEventHandler (fst p) (snd p) s")
  have "j = handlerID s + 1" using AddEventHandler_id(1) [OF wf, of "fst p" "snd p"] eq by simp
  with AddEventHandler_look [OF wf nomax eq] eq
  show "events_look (snd (add_event_handler p s)) = (events_look s)(handlerID s + 1 \<mapsto> p)"
    and "events_wf (snd (add_event_handler p s))"
    by (simp_all add: add_event_handler_def)
qed

lemma events_wf_new [simp]: "events_wf newCcsmpEvents"
  by (simp add: events_wf_def newCcsmpEvents_def)

section \<open>Dispatch\<close>

text \<open>
  The handlers called for an event are exactly the registered ones of that event: the connection
  between the registry view and the calls an emission makes.
\<close>

lemma handlers_for_look:
  assumes "events_wf s"
  shows "(i, h) \<in> set (handlers_for e s) \<longleftrightarrow> events_look s i = Some (e, h)"
proof -
  obtain m where m: "eventHandlers s = Some m" "distinct (map fst m)" "distinct (map fst (flatten m))"
    using assms by (auto simp: events_wf_def)
  have "(i, h) \<in> set (handlers_for e s) \<longleftrightarrow> (\<exists>hs. (e, hs) \<in> set m \<and> (i, h) \<in> set hs)"
    using m(1,2) by (auto simp: handlers_for_def split: option.splits dest: map_of_SomeD)
  also have "\<dots> \<longleftrightarrow> (i, e, h) \<in> set (flatten m)"
    by (force simp: flatten_def)
  also have "\<dots> \<longleftrightarrow> events_look s i = Some (e, h)"
    using m by (simp add: events_look_def)
  finally show ?thesis .
qed

lemma distinct_inner: "distinct (map fst (flatten m)) \<Longrightarrow> (e, hs) \<in> set m \<Longrightarrow> distinct (map fst hs)"
  by (induction m) auto

lemma distinct_handlers_for: "events_wf s \<Longrightarrow> distinct (map fst (handlers_for e s))"
  by (auto simp: events_wf_def handlers_for_def split: option.splits dest!: map_of_SomeD
      intro: distinct_inner)

lemma mset_handlers_for:
  assumes "events_wf s" and "events_wf t"
    and "\<And>i h. events_look t i = Some (e, h) \<longleftrightarrow> events_look s i = Some (e, h)"
  shows "mset (handlers_for e t) = mset (handlers_for e s)"
proof -
  have "set (handlers_for e t) = set (handlers_for e s)"
    using handlers_for_look [OF assms(1)] handlers_for_look [OF assms(2)] assms(3) by auto
  moreover have "distinct (handlers_for e t)" and "distinct (handlers_for e s)"
    using distinct_handlers_for [OF assms(1), of e] distinct_handlers_for [OF assms(2), of e]
    by (auto simp: distinct_map)
  ultimately show ?thesis by (simp add: set_eq_iff_mset_eq_distinct)
qed

lemma mset_emitEvent:
  "mset (handlers_for e t) = mset (handlers_for e s) \<Longrightarrow>
     mset (emitEvent e info t) = mset (emitEvent e info s)"
  by (metis emitEvent_def mset_map)

lemma handlers_for_added:
  assumes "events_wf s" and "handlerID s \<noteq> - 1" and "AddEventHandler e h s = (i, s')"
  shows "mset (handlers_for e s') = add_mset (i, h) (mset (handlers_for e s))"
proof -
  note added = AddEventHandler_look [OF assms]
  have i: "i = handlerID s + 1" using AddEventHandler_id(1) [OF assms(1), of e h] assms(3) by simp
  have new: "(i, h) \<notin> set (handlers_for e s)"
    using evreg.fresh_id [OF assms(1,2)] i handlers_for_look [OF assms(1)] by auto
  have "set (handlers_for e s') = set ((i, h) # handlers_for e s)"
    using handlers_for_look [OF assms(1)] handlers_for_look [OF added(2)] added(1)
      evreg.fresh_id [OF assms(1,2)] i
    by (auto split: if_splits)
  moreover have "distinct (handlers_for e s')" and "distinct ((i, h) # handlers_for e s)"
    using distinct_handlers_for [OF assms(1), of e] distinct_handlers_for [OF added(2), of e] new
    by (auto simp: distinct_map)
  ultimately have "mset (handlers_for e s') = mset ((i, h) # handlers_for e s)"
    by (simp only: set_eq_iff_mset_eq_distinct)
  then show ?thesis by simp
qed

text \<open>
  The handlers that an emitted event calls are exactly those registered for that event and not
  removed since: after a handler is registered for an event, an emission of this event calls it
  once more, an emission of any other event calls the same handlers as before, and removing it by
  the returned number restores the calls of every event. The order of the calls is left open, as
  Go leaves the iteration order of a map open.
\<close>

theorem emit_after_add_remove:
  assumes wf: "events_wf s" and nomax: "handlerID s \<noteq> - 1"
    and add: "AddEventHandler e h s = (i, s')"
  shows "mset (emitEvent e info s') = add_mset (h, info) (mset (emitEvent e info s)) \<and>
    (\<forall>e'. e' \<noteq> e \<longrightarrow> mset (emitEvent e' info s') = mset (emitEvent e' info s)) \<and>
    (\<forall>e'. mset (emitEvent e' info (RemoveEventHandler i s')) = mset (emitEvent e' info s))"
proof (intro conjI allI impI)
  note added = AddEventHandler_look [OF assms]
  show "mset (emitEvent e info s') = add_mset (h, info) (mset (emitEvent e info s))"
    using handlers_for_added [OF assms] by (simp add: emitEvent_def)
  have i: "i = handlerID s + 1" using AddEventHandler_id(1) [OF wf, of e h] add by simp
  fix e'
  show "mset (emitEvent e' info s') = mset (emitEvent e' info s)" if "e' \<noteq> e"
    by (rule mset_emitEvent, rule mset_handlers_for [OF wf added(2)])
      (use that added(1) evreg.fresh_id [OF wf nomax] i in auto)
  have "events_look (RemoveEventHandler i s') = events_look s"
    using evreg.remove_added [OF wf nomax, of "(e, h)" i s'] add by (simp add: add_event_handler_def)
  then show "mset (emitEvent e' info (RemoveEventHandler i s')) = mset (emitEvent e' info s)"
    by (intro mset_emitEvent mset_handlers_for [OF wf RemoveEventHandler_look(2) [OF added(2)]]) simp
qed

theorem emit_after_add_remove_witness:
  "mset (emitEvent SolClientEventDown \<lparr>sei_err = None, infoString = [], correlationP = None, userP = 0\<rparr>
      (snd (AddEventHandler SolClientEventDown ''h'' newCcsmpEvents))) =
   {#(''h'', \<lparr>sei_err = None, infoString = [], correlationP = None, userP = 0\<rparr>)#}"
  using emit_after_add_remove [of "newCcsmpEvents :: string ccsmpBackedEvents" SolClientEventDown "''h''" 1
      "snd (AddEventHandler SolClientEventDown ''h'' newCcsmpEvents)"
      "\<lparr>sei_err = None, infoString = [], correlationP = None, userP = 0\<rparr>"]
  by (simp add: newCcsmpEvents_def AddEventHandler_def emitEvent_def handlers_for_def)

text \<open>After termination no event calls a handler.\<close>

lemma emit_terminated [simp]: "emitEvent e info (events_terminate s) = []"
  by (simp add: emitEvent_def handlers_for_def events_terminate_def split: option.splits)

lemma events_wf_terminate: "events_wf s \<Longrightarrow> events_wf (events_terminate s)"
  by (auto simp: events_wf_def events_terminate_def)

end
