(* ===== verification/Correlation_Tag.thy ===== *)
theory Correlation_Tag
  imports Go_Prelude
begin

unbundle bit_operations_syntax

text \<open>
  The correlation tag a persistent publisher attaches to a message so that an acknowledgement finds
  its way back (\<^verbatim>\<open>toCorrelationTag\<close> and \<^verbatim>\<open>fromCorrelationTag\<close> of \<^verbatim>\<open>internal/impl/core/publisher.go\<close>):
  the 64-bit publisher number and the 64-bit message number, each little endian, in sixteen bytes.
  The loops keep the index, the shift and the mask of the source, the latter two as 64-bit words.
\<close>

section \<open>The encoder and the decoder\<close>

definition correlationIDLength :: nat where
  "correlationIDLength = 8"

definition correlationTagLength :: nat where
  "correlationTagLength = correlationIDLength * 2"

function toCorrelationTag_loop :: "nat \<Rightarrow> u64 \<Rightarrow> u64 \<Rightarrow> u64 \<Rightarrow> u64 \<Rightarrow> u8 list \<Rightarrow> u8 list" where
  "toCorrelationTag_loop i shift msk pubID messageID correlationTag =
     (if i < correlationIDLength
      then toCorrelationTag_loop (i + 1) (shift + 8) (push_bit 8 msk) pubID messageID
             (correlationTag
                [i := ucast (drop_bit (unat shift) (pubID AND msk)),
                 i + correlationIDLength := ucast (drop_bit (unat shift) (messageID AND msk))])
      else correlationTag)"
  by pat_completeness auto
termination
  by (relation "measure (\<lambda>(i, _). correlationIDLength - i)") auto

definition toCorrelationTag :: "u64 \<Rightarrow> u64 \<Rightarrow> u8 list" where
  "toCorrelationTag pubID messageID =
     toCorrelationTag_loop 0 0 255 pubID messageID (replicate correlationTagLength 0)"

function fromCorrelationTag_loop :: "nat \<Rightarrow> u64 \<Rightarrow> u8 list \<Rightarrow> u64 \<Rightarrow> u64 \<Rightarrow> u64 \<times> u64" where
  "fromCorrelationTag_loop i shift bytes pubID messageID =
     (if i < correlationIDLength
      then fromCorrelationTag_loop (i + 1) (shift + 8) bytes
             (pubID OR push_bit (unat shift) (ucast (bytes ! i)))
             (messageID OR push_bit (unat shift) (ucast (bytes ! (i + correlationIDLength))))
      else (pubID, messageID))"
  by pat_completeness auto
termination
  by (relation "measure (\<lambda>(i, _). correlationIDLength - i)") auto

text \<open>The Go function returns the pair with a success flag; \<open>None\<close> is the flag \<^verbatim>\<open>false\<close>.\<close>

definition fromCorrelationTag :: "u8 list \<Rightarrow> (u64 \<times> u64) option" where
  "fromCorrelationTag bytes =
     (if length bytes \<noteq> correlationTagLength then None
      else Some (fromCorrelationTag_loop 0 0 bytes 0 0))"

declare toCorrelationTag_loop.simps [simp del] fromCorrelationTag_loop.simps [simp del]

lemmas tag_length_defs = correlationIDLength_def correlationTagLength_def

section \<open>What the loops compute\<close>

definition byte_of :: "nat \<Rightarrow> u64 \<Rightarrow> u8" where
  "byte_of k x = ucast (drop_bit (8 * k) x)"

lemma bit_byte_of: "bit (byte_of k x) j \<longleftrightarrow> j < 8 \<and> bit x (8 * k + j)"
  by (auto simp: byte_of_def bit_simps dest: bit_imp_le_length)

lemma mask_255: "(255 :: u64) = mask 8"
  by (simp add: mask_eq_exp_minus_1)

lemma masked_byte:
  "(ucast (drop_bit (8 * k) (x AND push_bit (8 * k) 255)) :: u8) = byte_of k x"
  unfolding mask_255
  by (rule bit_word_eqI) (auto simp: bit_byte_of bit_simps dest: bit_imp_le_length)

lemma unat_shift: "i < 8 \<Longrightarrow> unat (of_nat (8 * i) :: u64) = 8 * i"
  by (subst unat_of_nat) simp

lemma toCorrelationTag_loop_done: "\<not> i < 8 \<Longrightarrow> toCorrelationTag_loop i sh mk p m tag = tag"
  by (subst toCorrelationTag_loop.simps) (simp add: correlationIDLength_def)

lemma fromCorrelationTag_loop_done: "\<not> i < 8 \<Longrightarrow> fromCorrelationTag_loop i sh bytes p m = (p, m)"
  by (subst fromCorrelationTag_loop.simps) (simp add: correlationIDLength_def)

lemma toCorrelationTag_loop_nth:
  assumes "i \<le> 8" and "length tag = 16"
  shows "length (toCorrelationTag_loop i (of_nat (8 * i)) (push_bit (8 * i) 255) p m tag) = 16 \<and>
    (\<forall>k < 16. toCorrelationTag_loop i (of_nat (8 * i)) (push_bit (8 * i) 255) p m tag ! k =
       (if i \<le> k \<and> k < 8 then byte_of k p else if i + 8 \<le> k then byte_of (k - 8) m else tag ! k))"
  using assms
proof (induction "8 - i" arbitrary: i tag)
  case 0
  then show ?case by (auto simp: toCorrelationTag_loop_done)
next
  case (Suc d)
  then have i: "i < 8" by simp
  let ?tag = "tag[i := byte_of i p, i + 8 := byte_of i m]"
  have step: "toCorrelationTag_loop i (of_nat (8 * i)) (push_bit (8 * i) 255) p m tag =
      toCorrelationTag_loop (Suc i) (of_nat (8 * Suc i)) (push_bit (8 * Suc i) 255) p m ?tag"
    using i masked_byte [of i p] masked_byte [of i m] unat_shift [OF i]
    by (subst toCorrelationTag_loop.simps) (simp add: correlationIDLength_def add.commute)
  have between: "\<not> Suc i \<le> k \<Longrightarrow> i \<le> k \<Longrightarrow> k = i" "\<not> 9 + i \<le> k \<Longrightarrow> i + 8 \<le> k \<Longrightarrow> k = i + 8" for k
    by simp_all
  have "d = 8 - Suc i" and "Suc i \<le> 8" and "length ?tag = 16" using Suc.hyps(2) i Suc.prems(2) by auto
  from Suc.hyps(1) [OF this] Suc.prems(2) i show ?case
    unfolding step by (auto simp: nth_list_update dest: between)
qed

lemma toCorrelationTag_nth:
  "length (toCorrelationTag p m) = 16"
  "k < 16 \<Longrightarrow> toCorrelationTag p m ! k = (if k < 8 then byte_of k p else byte_of (k - 8) m)"
  using toCorrelationTag_loop_nth [of 0 "replicate 16 0" p m]
  by (auto simp: toCorrelationTag_def tag_length_defs)

definition gathered :: "nat \<Rightarrow> nat \<Rightarrow> u8 list \<Rightarrow> nat \<Rightarrow> bool" where
  "gathered i off bytes n \<longleftrightarrow> 8 * i \<le> n \<and> n < 64 \<and> bit (bytes ! (off + n div 8)) (n mod 8)"

lemma bit_gather_step:
  assumes "i < 8"
  shows "bit (x OR push_bit (8 * i) (ucast (bytes ! (off + i)) :: u64)) n \<or> gathered (Suc i) off bytes n
     \<longleftrightarrow> bit x n \<or> gathered i off bytes n"
proof -
  have "bit (push_bit (8 * i) (ucast (bytes ! (off + i)) :: u64)) n \<longleftrightarrow>
      8 * i \<le> n \<and> n < 8 * Suc i \<and> bit (bytes ! (off + i)) (n - 8 * i)"
    using assms by (auto simp: bit_simps dest: bit_imp_le_length)
  moreover have "8 * i \<le> n \<and> n < 8 * Suc i \<Longrightarrow> n div 8 = i \<and> n mod 8 = n - 8 * i"
    by (auto simp: div_nat_eqI modulo_nat_def)
  ultimately show ?thesis
    using assms by (auto simp: gathered_def bit_or_iff)
qed

lemma fromCorrelationTag_loop_bit:
  assumes "i \<le> 8" and "fromCorrelationTag_loop i (of_nat (8 * i)) bytes p m = (p', m')"
  shows "(\<forall>n. bit p' n \<longleftrightarrow> bit p n \<or> gathered i 0 bytes n) \<and> (\<forall>n. bit m' n \<longleftrightarrow> bit m n \<or> gathered i 8 bytes n)"
  using assms
proof (induction "8 - i" arbitrary: i p m)
  case 0
  then show ?case
    by (auto simp: fromCorrelationTag_loop_done gathered_def)
next
  case (Suc d)
  then have i: "i < 8" by simp
  let ?p = "p OR push_bit (8 * i) (ucast (bytes ! (0 + i)))"
  let ?m = "m OR push_bit (8 * i) (ucast (bytes ! (8 + i)))"
  have "fromCorrelationTag_loop i (of_nat (8 * i)) bytes p m =
      fromCorrelationTag_loop (Suc i) (of_nat (8 * Suc i)) bytes ?p ?m"
    using i unat_shift [OF i]
    by (subst fromCorrelationTag_loop.simps) (simp add: correlationIDLength_def add.commute)
  with Suc.prems(2) have "fromCorrelationTag_loop (Suc i) (of_nat (8 * Suc i)) bytes ?p ?m = (p', m')"
    by simp
  moreover have "d = 8 - Suc i" and "Suc i \<le> 8" using Suc.hyps(2) i by auto
  ultimately have IH: "(\<forall>n. bit p' n \<longleftrightarrow> bit ?p n \<or> gathered (Suc i) 0 bytes n) \<and>
      (\<forall>n. bit m' n \<longleftrightarrow> bit ?m n \<or> gathered (Suc i) 8 bytes n)"
    using Suc.hyps(1) by blast
  then show ?case
    unfolding bit_gather_step [OF i] by blast
qed

lemma fromCorrelationTag_bit:
  assumes "fromCorrelationTag bytes = Some (p, m)"
  shows "bit p n \<longleftrightarrow> n < 64 \<and> bit (bytes ! (n div 8)) (n mod 8)"
    and "bit m n \<longleftrightarrow> n < 64 \<and> bit (bytes ! (8 + n div 8)) (n mod 8)"
  using fromCorrelationTag_loop_bit [of 0 bytes 0 0 p m] assms
  by (auto simp: fromCorrelationTag_def gathered_def split: if_splits)

section \<open>Round trips\<close>

text \<open>
  Decoding the tag of a publisher number and a message number returns exactly the two numbers,
  for all 64-bit values.
\<close>

lemma fromCorrelationTag_toCorrelationTag [simp]:
  "fromCorrelationTag (toCorrelationTag pubID messageID) = Some (pubID, messageID)"
proof -
  let ?bytes = "toCorrelationTag pubID messageID"
  obtain p m where pm: "fromCorrelationTag ?bytes = Some (p, m)"
    by (cases "fromCorrelationTag_loop 0 0 ?bytes 0 0")
      (auto simp: fromCorrelationTag_def toCorrelationTag_nth(1) tag_length_defs)
  have "p = pubID"
  proof (rule bit_word_eqI)
    fix n :: nat assume "n < LENGTH(64)"
    then show "bit p n = bit pubID n"
      using fromCorrelationTag_bit(1) [OF pm, of n] toCorrelationTag_nth(2) [of "n div 8" pubID messageID]
      by (auto simp: bit_byte_of)
  qed
  moreover have "m = messageID"
  proof (rule bit_word_eqI)
    fix n :: nat assume "n < LENGTH(64)"
    then show "bit m n = bit messageID n"
      using fromCorrelationTag_bit(2) [OF pm, of n] toCorrelationTag_nth(2) [of "8 + n div 8" pubID messageID]
      by (auto simp: bit_byte_of)
  qed
  ultimately show ?thesis using pm by simp
qed

text \<open>
  C27. A byte string decodes to a pair of numbers exactly when it has the length of a tag and is the
  encoding of that pair. The encoding is therefore a bijection between pairs of 64-bit numbers and
  sixteen-byte strings: every tag decodes to what was encoded, and no two byte strings are confused.
\<close>

theorem correlation_tag_bijection:
  "fromCorrelationTag bytes = Some (p, m) \<longleftrightarrow> length bytes = 16 \<and> toCorrelationTag p m = bytes"
proof
  assume pm: "fromCorrelationTag bytes = Some (p, m)"
  then have len: "length bytes = 16"
    by (auto simp: fromCorrelationTag_def tag_length_defs split: if_splits)
  have "toCorrelationTag p m ! k = bytes ! k" if "k < 16" for k
  proof (rule bit_word_eqI)
    fix j :: nat assume "j < LENGTH(8)"
    with that show "bit (toCorrelationTag p m ! k) j = bit (bytes ! k) j"
      using fromCorrelationTag_bit(1) [OF pm, of "8 * k + j"]
        fromCorrelationTag_bit(2) [OF pm, of "8 * (k - 8) + j"]
      by (auto simp: toCorrelationTag_nth(2) bit_byte_of)
  qed
  with len toCorrelationTag_nth(1) show "length bytes = 16 \<and> toCorrelationTag p m = bytes"
    by (auto intro: nth_equalityI)
next
  assume "length bytes = 16 \<and> toCorrelationTag p m = bytes"
  then show "fromCorrelationTag bytes = Some (p, m)"
    by auto
qed

end
