(* ===== verification/Go_Strconv.thy ===== *)
theory Go_Strconv
  imports Go_Prelude
begin

text \<open>
  The part of Go's \<^verbatim>\<open>strconv\<close> and \<^verbatim>\<open>fmt\<close> packages that the client uses: \<^verbatim>\<open>ParseUint\<close> and
  \<^verbatim>\<open>ParseInt\<close> in a fixed base, decimal printing of integers and the format \<^verbatim>\<open>%016X\<close>, and \<^verbatim>\<open>strings.Split\<close>. The parser
  reports an error at the first offending character or at the first digit whose value exceeds the
  range, whichever comes first, as the library does.
\<close>

section \<open>Digits\<close>

definition char_code :: "char \<Rightarrow> nat" where
  "char_code c = of_char c"

definition digit_val :: "char \<Rightarrow> nat option" where
  "digit_val c =
     (let k = char_code c
      in if 48 \<le> k \<and> k \<le> 57 then Some (k - 48)
         else if 97 \<le> k \<and> k \<le> 122 then Some (k - 97 + 10)
         else if 65 \<le> k \<and> k \<le> 90 then Some (k - 65 + 10)
         else None)"

definition digit_char :: "nat \<Rightarrow> char" where
  "digit_char d = (if d < 10 then char_of (48 + d) else char_of (55 + d))"

lemma char_code_char_of: "k < 256 \<Longrightarrow> char_code (char_of k) = k"
  by (simp add: char_code_def of_char_of)

lemma digit_val_char [simp]: "d < 36 \<Longrightarrow> digit_val (digit_char d) = Some d"
  by (auto simp: digit_val_def digit_char_def char_code_char_of Let_def)

lemma digit_char_not_sign [simp]: "d < 36 \<Longrightarrow> digit_char d \<noteq> CHR ''-''" "d < 36 \<Longrightarrow> digit_char d \<noteq> CHR ''+''"
  "d < 36 \<Longrightarrow> digit_char d \<noteq> CHR ''/''"
proof -
  have "digit_val CHR ''-'' = None" "digit_val CHR ''+'' = None" "digit_val CHR ''/'' = None"
    by (simp_all add: digit_val_def char_code_def)
  then show "d < 36 \<Longrightarrow> digit_char d \<noteq> CHR ''-''" "d < 36 \<Longrightarrow> digit_char d \<noteq> CHR ''+''"
    "d < 36 \<Longrightarrow> digit_char d \<noteq> CHR ''/''"
    by (metis digit_val_char option.distinct(1))+
qed

section \<open>Parsing\<close>

datatype num_error = ErrSyntax | ErrRange

fun parse_digits :: "nat \<Rightarrow> nat \<Rightarrow> string \<Rightarrow> nat \<Rightarrow> num_error + nat" where
  "parse_digits base maxVal [] n = Inr n"
| "parse_digits base maxVal (c # cs) n =
     (case digit_val c of
        None \<Rightarrow> Inl ErrSyntax
      | Some d \<Rightarrow>
          if d \<ge> base then Inl ErrSyntax
          else if n * base + d > maxVal then Inl ErrRange
          else parse_digits base maxVal cs (n * base + d))"

definition ParseUint :: "string \<Rightarrow> nat \<Rightarrow> nat \<Rightarrow> num_error + nat" where
  "ParseUint s base bits = (if s = [] then Inl ErrSyntax else parse_digits base (2 ^ bits - 1) s 0)"

definition ParseInt_signed :: "bool \<Rightarrow> string \<Rightarrow> nat \<Rightarrow> nat \<Rightarrow> num_error + int" where
  "ParseInt_signed neg s base bits =
     (case ParseUint s base bits of
        Inl ErrSyntax \<Rightarrow> Inl ErrSyntax
      | Inl ErrRange \<Rightarrow> Inl ErrRange
      | Inr un \<Rightarrow>
          let cutoff = 2 ^ (bits - 1)
          in if \<not> neg \<and> un \<ge> cutoff then Inl ErrRange
             else if neg \<and> un > cutoff then Inl ErrRange
             else Inr (if neg then - int un else int un))"

fun ParseInt :: "string \<Rightarrow> nat \<Rightarrow> nat \<Rightarrow> num_error + int" where
  "ParseInt [] base bits = Inl ErrSyntax"
| "ParseInt (c # cs) base bits =
     (if c = CHR ''+'' then ParseInt_signed False cs base bits
      else if c = CHR ''-'' then ParseInt_signed True cs base bits
      else ParseInt_signed False (c # cs) base bits)"

section \<open>Printing\<close>

fun print_nat :: "nat \<Rightarrow> nat \<Rightarrow> string" where
  "print_nat base n =
     (if base < 2 \<or> n < base then [digit_char n]
      else print_nat base (n div base) @ [digit_char (n mod base)])"

declare print_nat.simps [simp del]

definition print_int :: "int \<Rightarrow> string" where
  "print_int v = (if v < 0 then CHR ''-'' # print_nat 10 (nat (- v)) else print_nat 10 (nat v))"

definition pad_left :: "nat \<Rightarrow> string \<Rightarrow> string" where
  "pad_left w s = replicate (w - length s) (CHR ''0'') @ s"

definition print_016X :: "u64 \<Rightarrow> string" where
  "print_016X x = pad_left 16 (print_nat 16 (unat x))"

section \<open>Printing and parsing back\<close>

lemma parse_digits_append:
  "parse_digits b M (xs @ ys) n =
     (case parse_digits b M xs n of Inl e \<Rightarrow> Inl e | Inr k \<Rightarrow> parse_digits b M ys k)"
  by (induction xs arbitrary: n) (auto split: option.splits)

lemma print_nat_nonempty [simp]: "print_nat b n \<noteq> []"
  by (subst print_nat.simps) simp

lemma set_print_nat: "2 \<le> b \<Longrightarrow> b \<le> 36 \<Longrightarrow> c \<in> set (print_nat b n) \<Longrightarrow> \<exists>d < b. c = digit_char d"
proof (induction b n rule: print_nat.induct)
  case (1 b n)
  show ?case
  proof (cases "n < b")
    case True
    with "1.prems" show ?thesis by (subst (asm) print_nat.simps) auto
  next
    case False
    then have "c \<in> set (print_nat b (n div b)) \<or> c = digit_char (n mod b)"
      using "1.prems" by (subst (asm) print_nat.simps) auto
    moreover have "n mod b < b" using "1.prems" by simp
    ultimately show ?thesis using "1.IH" "1.prems"(1,2) False by fastforce
  qed
qed

lemma hd_print_nat:
  assumes "2 \<le> b" "b \<le> 36"
  shows "hd (print_nat b n) \<noteq> CHR ''-'' \<and> hd (print_nat b n) \<noteq> CHR ''+''"
proof -
  obtain d where "d < b" "hd (print_nat b n) = digit_char d"
    using set_print_nat [OF assms hd_in_set [OF print_nat_nonempty]] by blast
  with assms show ?thesis by simp
qed

lemma parse_print_nat:
  "2 \<le> b \<Longrightarrow> b \<le> 36 \<Longrightarrow> parse_digits b M (print_nat b n) 0 = (if n \<le> M then Inr n else Inl ErrRange)"
proof (induction b n rule: print_nat.induct)
  case (1 b n)
  show ?case
  proof (cases "n < b")
    case True
    with "1.prems" show ?thesis by (subst print_nat.simps) simp
  next
    case False
    have IH: "parse_digits b M (print_nat b (n div b)) 0 = (if n div b \<le> M then Inr (n div b) else Inl ErrRange)"
      using "1.IH" "1.prems" False by simp
    have "n div b * b + n mod b = n" and "n mod b < b" and "n div b \<le> n"
      using "1.prems" by simp_all
    moreover have "digit_val (digit_char (n mod b)) = Some (n mod b)"
      using \<open>n mod b < b\<close> "1.prems" by (intro digit_val_char) linarith
    moreover have "\<not> n div b \<le> M \<Longrightarrow> \<not> n \<le> M" using \<open>n div b \<le> n\<close> by linarith
    ultimately have "parse_digits b M (print_nat b (n div b) @ [digit_char (n mod b)]) 0 =
        (if n \<le> M then Inr n else Inl ErrRange)"
      using IH by (cases "n div b \<le> M") (simp_all add: parse_digits_append)
    with False "1.prems" show ?thesis by (subst print_nat.simps) simp
  qed
qed

lemma ParseUint_print_nat:
  "2 \<le> b \<Longrightarrow> b \<le> 36 \<Longrightarrow>
     ParseUint (print_nat b n) b bits = (if n < 2 ^ bits then Inr n else Inl ErrRange)"
proof -
  have "n \<le> 2 ^ bits - 1 \<longleftrightarrow> n < 2 ^ bits"
    using zero_less_power [of "2::nat" bits] by linarith
  then show "2 \<le> b \<Longrightarrow> b \<le> 36 \<Longrightarrow> ?thesis"
    by (simp add: ParseUint_def parse_print_nat)
qed

lemma ParseInt_signed_print_nat:
  "1 \<le> bits \<Longrightarrow> ParseInt_signed neg (print_nat 10 n) 10 bits =
     (if neg then (if n \<le> 2 ^ (bits - 1) then Inr (- int n) else Inl ErrRange)
      else if n < 2 ^ (bits - 1) then Inr (int n) else Inl ErrRange)"
proof -
  assume "1 \<le> bits"
  then have less: "(2::nat) ^ (bits - 1) < 2 ^ bits" by (intro power_strict_increasing) auto
  have u: "ParseUint (print_nat 10 n) 10 bits = (if n < 2 ^ bits then Inr n else Inl ErrRange)"
    by (simp add: ParseUint_print_nat)
  show ?thesis
  proof (cases "n < 2 ^ bits")
    case True
    with u show ?thesis by (simp add: ParseInt_signed_def)
  next
    case False
    with less have "\<not> n \<le> 2 ^ (bits - 1)" "\<not> n < 2 ^ (bits - 1)" by linarith+
    with u False show ?thesis by (simp add: ParseInt_signed_def)
  qed
qed

lemma ParseInt_unsigned_string:
  "s \<noteq> [] \<Longrightarrow> hd s \<noteq> CHR ''-'' \<Longrightarrow> hd s \<noteq> CHR ''+'' \<Longrightarrow> ParseInt s b bits = ParseInt_signed False s b bits"
  by (cases s) auto

text \<open>
  Parsing the decimal text of an integer succeeds exactly when the integer is in the signed range,
  and then returns it.
\<close>

lemma ParseInt_print_int:
  assumes "1 \<le> bits"
  shows "ParseInt (print_int v) 10 bits =
    (if - (2 ^ (bits - 1)) \<le> v \<and> v < 2 ^ (bits - 1) then Inr v else Inl ErrRange)"
proof (cases "v < 0")
  case True
  then have "nat (- v) \<le> 2 ^ (bits - 1) \<longleftrightarrow> - (2 ^ (bits - 1)) \<le> v"
    by (auto simp: nat_le_iff)
  moreover have "v < 2 ^ (bits - 1)"
    using True by (meson less_trans zero_less_numeral zero_less_power)
  ultimately show ?thesis
    using True assms by (simp add: print_int_def ParseInt_signed_print_nat)
next
  case False
  then have "nat v < 2 ^ (bits - 1) \<longleftrightarrow> v < 2 ^ (bits - 1)"
    by (auto simp: nat_less_iff)
  moreover have "- (2 ^ (bits - 1)) \<le> v"
    using False by (meson dual_order.trans neg_le_0_iff_le not_less zero_le_numeral zero_le_power)
  ultimately show ?thesis
    using False assms hd_print_nat [of 10 "nat v"]
    by (simp add: print_int_def ParseInt_unsigned_string ParseInt_signed_print_nat)
qed

lemma ParseUint_minus: "ParseUint (CHR ''-'' # s) b bits = Inl ErrSyntax"
  by (simp add: ParseUint_def digit_val_def char_code_def)

lemma ParseUint_print_int:
  "ParseUint (print_int v) 10 bits =
     (if v < 0 then Inl ErrSyntax else if v < 2 ^ bits then Inr (nat v) else Inl ErrRange)"
  by (auto simp: print_int_def ParseUint_minus ParseUint_print_nat nat_less_iff)

text \<open>The sixteen hexadecimal digits of a 64-bit number parse back to it.\<close>

lemma parse_zeros: "0 < b \<Longrightarrow> parse_digits b M (replicate k (CHR ''0'') @ s) 0 = parse_digits b M s 0"
  by (induction k) (auto simp: digit_val_def char_code_def)

lemma ParseUint_print_016X: "ParseUint (print_016X x) 16 64 = Inr (unat x)"
proof -
  have "unat x \<le> 2 ^ 64 - 1" using unsigned_less [of x, where ?'a = nat] by simp
  then show ?thesis
    by (simp add: ParseUint_def print_016X_def pad_left_def parse_zeros parse_print_nat)
qed

lemma print_016X_no_slash: "CHR ''/'' \<notin> set (print_016X x)"
proof
  assume "CHR ''/'' \<in> set (print_016X x)"
  then have "CHR ''/'' \<in> set (print_nat 16 (unat x))"
    by (auto simp: print_016X_def pad_left_def split: if_splits)
  from set_print_nat [OF _ _ this] show False by (auto dest!: sym [of "CHR ''/''"])
qed

section \<open>Splitting\<close>

text \<open>\<^verbatim>\<open>strings.Split\<close> with a one-character separator.\<close>

fun split_on :: "char \<Rightarrow> string \<Rightarrow> string list" where
  "split_on sep [] = [[]]"
| "split_on sep (c # cs) =
     (if c = sep then [] # split_on sep cs
      else case split_on sep cs of [] \<Rightarrow> [[c]] | p # ps \<Rightarrow> (c # p) # ps)"

lemma split_on_fresh: "sep \<notin> set s \<Longrightarrow> split_on sep s = [s]"
  by (induction s) auto

lemma split_on_nonempty [simp]: "split_on sep s \<noteq> []"
  by (cases s) (auto split: list.splits)

lemma split_on_append: "split_on sep (xs @ sep # ys) = split_on sep xs @ split_on sep ys"
  by (induction xs) (auto split: list.splits)

lemma last_split_on:
  assumes "xs = [] \<or> last xs = sep" and "sep \<notin> set ys"
  shows "last (split_on sep (xs @ ys)) = ys"
proof (cases "xs = []")
  case True
  with assms show ?thesis by (simp add: split_on_fresh)
next
  case False
  then obtain zs where "xs = zs @ [sep]"
    using assms(1) append_butlast_last_id [of xs] by metis
  with assms(2) show ?thesis by (simp add: split_on_append split_on_fresh)
qed

lemma split_on_cons: "k \<notin> set ks \<Longrightarrow> split_on k (ks @ k # s) = ks # split_on k s"
  by (simp add: split_on_append split_on_fresh)

lemma set_split_on: "p \<in> set (split_on sep s) \<Longrightarrow> sep \<notin> set p"
  by (induction s arbitrary: p) (auto split: list.splits if_splits)

text \<open>Splitting loses nothing: the parts determine the string.\<close>

fun join_with :: "char \<Rightarrow> string list \<Rightarrow> string" where
  "join_with sep [] = []"
| "join_with sep [p] = p"
| "join_with sep (p # ps) = p @ sep # join_with sep ps"

lemma join_split_on: "join_with sep (split_on sep s) = s"
proof (induction s)
  case Nil
  then show ?case by simp
next
  case (Cons c s)
  obtain p ps where ps: "split_on sep s = p # ps" using split_on_nonempty [of sep s] by (cases "split_on sep s") auto
  with Cons show ?case by (cases ps) auto
qed

lemma split_on_inj: "split_on sep s = split_on sep t \<longleftrightarrow> s = t"
  by (metis join_split_on)

end
