(* ===== verification/Core_Publisher.thy ===== *)
theory Core_Publisher
  imports Core_Events Correlation_Tag Go_Strconv
begin

text \<open>
  The publisher of the transport layer (\<^verbatim>\<open>internal/impl/core/publisher.go\<close>): the registry of
  acknowledgement handlers and the dispatch of acknowledgements by correlation tag, the requestor
  with its reply topics and reply handlers, the can-send signal, and the start and termination of
  the service, which register and remove its three event handlers.

  The handler types \<open>'a\<close> (acknowledgements) and \<open>'r\<close> (replies) are the clients' closures. The calls
  into the C library are arguments: the result of a subscription is an optional error information.
  The lock \<^verbatim>\<open>rxLock\<close> appears as the number of read locks that are held and will not be released; an
  operation that takes the write lock blocks while there is one.
\<close>

section \<open>State\<close>

text \<open>A message of the C library is an opaque pointer.\<close>

type_synonym Repliable = u64

record 'r ccsmpReplyCorrelation =
  rc_handler :: 'r
  rc_replyToTopic :: string

record ('a, 'r) ccsmpBackedPublisher =
  canSend :: "bool chan"
  terminationSignal :: bool
  canSendEventID :: u64
  acknowledgementEventID :: u64
  rejectedEventID :: u64
  isRunning :: nat
  acknowledgementHandlerID :: u64
  acknowledgementMap :: "u64 \<rightharpoonup> 'a"
  rxLock_readers :: nat
  replyToPrefix :: string
  replyDispatchID :: u64
  publisherRxReplyMap :: "(u64 \<times> 'r ccsmpReplyCorrelation) list"
  replyCallbackSet :: bool

definition newCcsmpPublisher :: "('a, 'r) ccsmpBackedPublisher" where
  "newCcsmpPublisher =
     \<lparr>canSend = make_chan 1, terminationSignal = False, canSendEventID = 0, acknowledgementEventID = 0,
      rejectedEventID = 0, isRunning = 0, acknowledgementHandlerID = 0, acknowledgementMap = Map.empty,
      rxLock_readers = 0, replyToPrefix = [], replyDispatchID = 0, publisherRxReplyMap = [],
      replyCallbackSet = False\<rparr>"

section \<open>Acknowledgements\<close>

text \<open>
  The registration returns the handler's number and a generator closure. The closure's captured
  variable \<^verbatim>\<open>messageID\<close> is the argument and part of the result of \<open>next_correlation_tag\<close>.
\<close>

definition AddAcknowledgementHandler ::
    "'a \<Rightarrow> ('a, 'r) ccsmpBackedPublisher \<Rightarrow> u64 \<times> ('a, 'r) ccsmpBackedPublisher" where
  "AddAcknowledgementHandler ackHandler publisher =
     (let pubID = acknowledgementHandlerID publisher + 1
      in (pubID, publisher\<lparr>acknowledgementHandlerID := pubID,
                           acknowledgementMap := (acknowledgementMap publisher)(pubID \<mapsto> ackHandler)\<rparr>))"

definition next_correlation_tag :: "u64 \<Rightarrow> u64 \<Rightarrow> (u64 \<times> u8 list) \<times> u64" where
  "next_correlation_tag pubID messageID =
     (let nextId = messageID + 1 in ((nextId, toCorrelationTag pubID nextId), nextId))"

definition RemoveAcknowledgementHandler ::
    "u64 \<Rightarrow> ('a, 'r) ccsmpBackedPublisher \<Rightarrow> ('a, 'r) ccsmpBackedPublisher" where
  "RemoveAcknowledgementHandler pubID publisher =
     publisher\<lparr>acknowledgementMap := (acknowledgementMap publisher)(pubID := None)\<rparr>"

text \<open>
  \<^verbatim>\<open>ToGoBytes\<close> copies the first \<open>correlationTagLength\<close> bytes the correlation pointer points to. The
  model returns the calls of acknowledgement handlers: at most one.
\<close>

definition onAcknowledgement ::
    "u8 list option \<Rightarrow> bool \<Rightarrow> go_error option \<Rightarrow> ('a, 'r) ccsmpBackedPublisher
       \<Rightarrow> ('a \<times> u64 \<times> bool \<times> go_error option) list" where
  "onAcknowledgement corrP persisted err publisher =
     (case corrP of
        None \<Rightarrow> []
      | Some mem \<Rightarrow>
          (case fromCorrelationTag (take correlationTagLength mem) of
             None \<Rightarrow> []
           | Some (pubID, msgID) \<Rightarrow>
               (case acknowledgementMap publisher pubID of
                  None \<Rightarrow> []
                | Some callback \<Rightarrow> [(callback, msgID, persisted, err)])))"

section \<open>The requestor\<close>

definition NewSessionReplyDispatch :: "u64 \<Rightarrow> u64" where
  "NewSessionReplyDispatch i = i"

definition RequestCorrelationPrefix :: string where
  "RequestCorrelationPrefix = ''#GOS''"

definition CreateReplyToTopic :: "string \<Rightarrow> ('a, 'r) ccsmpBackedPublisher \<Rightarrow> string" where
  "CreateReplyToTopic pubID publisher = replyToPrefix publisher @ pubID"

definition rx_locked ::
    "('x, 'y) ccsmpBackedPublisher \<Rightarrow> (('x, 'y) ccsmpBackedPublisher \<Rightarrow> 'z outcome) \<Rightarrow> 'z outcome" where
  "rx_locked publisher body = (if rxLock_readers publisher > 0 then Blocks else body publisher)"

text \<open>
  The subscription of the reply topic in the C library is the argument \<open>subscribe\<close> (topic and
  dispatch pointer). The result is the topic and an optional error; on success the caller also gets
  the generator \<open>next_correlation_id\<close>, started at 0.
\<close>

definition AddRequestorReplyHandler ::
    "(string \<Rightarrow> u64 \<Rightarrow> ErrorInfo option) \<Rightarrow> 'r \<Rightarrow> ('a, 'r) ccsmpBackedPublisher
       \<Rightarrow> ((ErrorInfo + string) \<times> ('a, 'r) ccsmpBackedPublisher) outcome" where
  "AddRequestorReplyHandler subscribe replyHandler publisher =
     (let pubID = replyDispatchID publisher + 1;
          topic = replyToPrefix publisher @ print_016X pubID;
          dispatchPointer = NewSessionReplyDispatch pubID;
          replyEntry = \<lparr>rc_handler = replyHandler, rc_replyToTopic = topic\<rparr>
      in rx_locked (publisher\<lparr>replyDispatchID := pubID\<rparr>) (\<lambda>publisher.
           let publisher = publisher\<lparr>publisherRxReplyMap :=
                 AList.update dispatchPointer replyEntry (publisherRxReplyMap publisher)\<rparr>
           in case subscribe topic dispatchPointer of
                Some errorInfo \<Rightarrow>
                  rx_locked publisher (\<lambda>publisher.
                    Return (Inl errorInfo, publisher\<lparr>publisherRxReplyMap :=
                      AList.delete dispatchPointer (publisherRxReplyMap publisher)\<rparr>))
              | None \<Rightarrow> Return (Inr topic, publisher)))"

definition next_correlation_id :: "u64 \<Rightarrow> (u64 \<times> string) \<times> u64" where
  "next_correlation_id messageID =
     (let nextID = messageID + 1 in ((nextID, RequestCorrelationPrefix @ print_016X nextID), nextID))"

definition RemoveRequestorReplyHandler ::
    "(string \<Rightarrow> u64 \<Rightarrow> ErrorInfo option) \<Rightarrow> string \<Rightarrow> ('a, 'r) ccsmpBackedPublisher
       \<Rightarrow> (ErrorInfo option \<times> ('a, 'r) ccsmpBackedPublisher) outcome" where
  "RemoveRequestorReplyHandler unsubscribe topic publisher =
     (case ParseUint (last (split_on (CHR ''/'') topic)) 16 64 of
        Inl e \<Rightarrow> Return (None, publisher)
      | Inr pubID \<Rightarrow>
          let pubIndex = NewSessionReplyDispatch (of_nat pubID)
          in (case unsubscribe topic pubIndex of
                Some errorInfo \<Rightarrow> Return (Some errorInfo, publisher)
              | None \<Rightarrow>
                  rx_locked publisher (\<lambda>publisher.
                    Return (None, publisher\<lparr>publisherRxReplyMap :=
                      AList.delete pubIndex (publisherRxReplyMap publisher)\<rparr>))))"

text \<open>
  A reply message. The result is the handler called, with its arguments, if there is one. The path
  without a registered handler returns before the read lock is released.
\<close>

definition onReplyMessage ::
    "Repliable \<Rightarrow> u64 \<Rightarrow> string \<Rightarrow> ('a, 'r) ccsmpBackedPublisher
       \<Rightarrow> ('r \<times> Repliable \<times> string) option \<times> ('a, 'r) ccsmpBackedPublisher" where
  "onReplyMessage msgP user_p correlationID publisher =
     (let locked = publisher\<lparr>rxLock_readers := rxLock_readers publisher + 1\<rparr>
      in case map_of (publisherRxReplyMap locked) user_p of
           None \<Rightarrow> (None, locked)
         | Some entry \<Rightarrow>
             (Some (rc_handler entry, msgP, correlationID),
              locked\<lparr>rxLock_readers := rxLock_readers locked - 1\<rparr>))"

text \<open>
  \<open>getPrefix\<close> is the result of reading the session's inbox prefix. On an error the prefix is the
  empty string and the reply callback is not installed.
\<close>

definition startRequestor ::
    "ErrorInfo + string \<Rightarrow> ('a, 'r) ccsmpBackedPublisher \<Rightarrow> bool \<times> ('a, 'r) ccsmpBackedPublisher" where
  "startRequestor getPrefix publisher =
     (case getPrefix of
        Inl errInfo \<Rightarrow> (False, publisher\<lparr>replyToPrefix := []\<rparr>)
      | Inr prefix \<Rightarrow> (True, publisher\<lparr>replyToPrefix := prefix, replyCallbackSet := True\<rparr>))"

text \<open>
  Termination of the requestor; the result lists the unsubscriptions it makes (topic and dispatch
  pointer), whose results the code ignores.
\<close>

definition terminateRequestor ::
    "('a, 'r) ccsmpBackedPublisher \<Rightarrow> ((string \<times> u64) list \<times> ('a, 'r) ccsmpBackedPublisher) outcome" where
  "terminateRequestor publisher =
     rx_locked (publisher\<lparr>replyCallbackSet := False\<rparr>) (\<lambda>publisher.
       Return (map (\<lambda>(i, entry). (rc_replyToTopic entry, NewSessionReplyDispatch i)) (publisherRxReplyMap publisher),
               publisher\<lparr>publisherRxReplyMap := []\<rparr>))"

section \<open>The can-send signal\<close>

text \<open>A non-blocking send on the channel of capacity one: dropped when a signal is already queued.\<close>

definition try_signal :: "bool \<Rightarrow> ('a, 'r) ccsmpBackedPublisher \<Rightarrow> ('a, 'r) ccsmpBackedPublisher" where
  "try_signal b publisher =
     (case chan_send b (canSend publisher) of
        Return c \<Rightarrow> publisher\<lparr>canSend := c\<rparr>
      | _ \<Rightarrow> publisher)"

definition onCanSend :: "('a, 'r) ccsmpBackedPublisher \<Rightarrow> ('a, 'r) ccsmpBackedPublisher" where
  "onCanSend publisher = try_signal True publisher"

datatype await_result = Writable | WaitInterrupted | TerminateSignalled

text \<open>
  The two cases of the \<^verbatim>\<open>select\<close> in \<^verbatim>\<open>AwaitWritable\<close>: the list of its possible results, since the
  choice is arbitrary when both are ready; the empty list is a blocked call.
\<close>

definition AwaitWritable ::
    "bool \<Rightarrow> ('a, 'r) ccsmpBackedPublisher \<Rightarrow> (await_result \<times> ('a, 'r) ccsmpBackedPublisher) list" where
  "AwaitWritable terminateSignal publisher =
     (case chan_recv (canSend publisher) of
        Return (Some r, c) \<Rightarrow> [(if r then Writable else WaitInterrupted, publisher\<lparr>canSend := c\<rparr>)]
      | _ \<Rightarrow> [])
     @ (if terminateSignal then [(TerminateSignalled, publisher)] else [])"

section \<open>Start and termination\<close>

text \<open>
  The closures the publisher registers with the event service; \<open>Other\<close> stands for the handlers of
  the other clients of the service.
\<close>

datatype 'o event_handler =
    CorePublisherCanSend
  | CorePublisherAcknowledgement
  | CorePublisherRejected
  | Other 'o

definition publisher_start ::
    "ErrorInfo + string \<Rightarrow> 'o event_handler ccsmpBackedEvents \<Rightarrow> ('a, 'r) ccsmpBackedPublisher
       \<Rightarrow> 'o event_handler ccsmpBackedEvents \<times> ('a, 'r) ccsmpBackedPublisher" where
  "publisher_start getPrefix events publisher =
     (let (swapped, running) = CompareAndSwap 0 1 (isRunning publisher)
      in if \<not> swapped then (events, publisher)
         else
           let (i, events) = AddEventHandler SolClientEventCanSend CorePublisherCanSend events;
               (j, events) = AddEventHandler SolClientEventAcknowledgement CorePublisherAcknowledgement events;
               (k, events) = AddEventHandler SolClientEventRejected CorePublisherRejected events;
               publisher = publisher\<lparr>isRunning := running, canSendEventID := i,
                                     acknowledgementEventID := j, rejectedEventID := k\<rparr>
           in (events, snd (startRequestor getPrefix publisher)))"

text \<open>
  Termination up to the wait for the publish loop (\<open>publisher_stop\<close>) and after it
  (\<open>publisher_cleanup\<close>). Nothing happens unless the publisher is running.
\<close>

definition publisher_stop :: "('a, 'r) ccsmpBackedPublisher \<Rightarrow> bool \<times> ('a, 'r) ccsmpBackedPublisher" where
  "publisher_stop publisher =
     (let (swapped, running) = CompareAndSwap 1 2 (isRunning publisher)
      in if \<not> swapped then (False, publisher)
         else (True, (try_signal False publisher)\<lparr>isRunning := running, terminationSignal := True\<rparr>))"

definition publisher_cleanup ::
    "'o event_handler ccsmpBackedEvents \<Rightarrow> ('a, 'r) ccsmpBackedPublisher
       \<Rightarrow> 'o event_handler ccsmpBackedEvents \<times> ((string \<times> u64) list \<times> ('a, 'r) ccsmpBackedPublisher) outcome" where
  "publisher_cleanup events publisher =
     (RemoveEventHandler (rejectedEventID publisher)
        (RemoveEventHandler (acknowledgementEventID publisher)
           (RemoveEventHandler (canSendEventID publisher) events)),
      terminateRequestor publisher)"

text \<open>What the three closures do with an event of the session.\<close>

fun publisher_on_event ::
    "'o event_handler \<times> sessionEventInfo \<Rightarrow> ('a, 'r) ccsmpBackedPublisher
       \<Rightarrow> ('a \<times> u64 \<times> bool \<times> go_error option) list \<times> ('a, 'r) ccsmpBackedPublisher" where
  "publisher_on_event (CorePublisherCanSend, ei) publisher = ([], onCanSend publisher)"
| "publisher_on_event (CorePublisherAcknowledgement, ei) publisher =
     (onAcknowledgement (correlationP ei) True (sei_err ei) publisher, publisher)"
| "publisher_on_event (CorePublisherRejected, ei) publisher =
     (onAcknowledgement (correlationP ei) False (sei_err ei) publisher, publisher)"
| "publisher_on_event (Other h, ei) publisher = ([], publisher)"

section \<open>The publish loop\<close>

text \<open>
  \<^verbatim>\<open>publishLoop\<close> as a step relation: it polls the termination signal, then waits for a task or the
  signal, runs the task and polls again. The task queue is unbuffered: a task is handed over by a
  sender that is waiting, so a step may take any task \<open>t\<close>. The signal is closed from outside.
\<close>

datatype loop_pc = AtPoll | AtSelect | InTask | LoopDone

record publish_loop =
  loop_pc :: loop_pc
  loop_termination :: bool
  terminationComplete :: bool

definition publishLoop_init :: publish_loop where
  "publishLoop_init = \<lparr>loop_pc = AtPoll, loop_termination = False, terminationComplete = False\<rparr>"

datatype 't loop_label = PollContinue | PollStop | StartTask 't | FinishTask | SelectStop | CloseTermination

inductive publishLoop_step :: "publish_loop \<Rightarrow> 't loop_label \<Rightarrow> publish_loop \<Rightarrow> bool" where
  poll_stop: "loop_pc s = AtPoll \<Longrightarrow> loop_termination s \<Longrightarrow>
     publishLoop_step s PollStop (s\<lparr>loop_pc := LoopDone, terminationComplete := True\<rparr>)"
| poll_continue: "loop_pc s = AtPoll \<Longrightarrow> \<not> loop_termination s \<Longrightarrow>
     publishLoop_step s PollContinue (s\<lparr>loop_pc := AtSelect\<rparr>)"
| select_task: "loop_pc s = AtSelect \<Longrightarrow> publishLoop_step s (StartTask t) (s\<lparr>loop_pc := InTask\<rparr>)"
| select_stop: "loop_pc s = AtSelect \<Longrightarrow> loop_termination s \<Longrightarrow>
     publishLoop_step s SelectStop (s\<lparr>loop_pc := LoopDone, terminationComplete := True\<rparr>)"
| finish_task: "loop_pc s = InTask \<Longrightarrow> publishLoop_step s FinishTask (s\<lparr>loop_pc := AtPoll\<rparr>)"
| close_termination: "\<not> loop_termination s \<Longrightarrow>
     publishLoop_step s CloseTermination (s\<lparr>loop_termination := True\<rparr>)"

inductive publishLoop_run :: "publish_loop \<Rightarrow> 't loop_label list \<Rightarrow> publish_loop \<Rightarrow> bool" where
  run_nil: "publishLoop_run s [] s"
| run_cons: "publishLoop_step s l s' \<Longrightarrow> publishLoop_run s' ls s'' \<Longrightarrow> publishLoop_run s (l # ls) s''"

inductive_cases publishLoop_run_NilE: "publishLoop_run s [] s'"
inductive_cases publishLoop_run_ConsE: "publishLoop_run s (l # ls) s'"

section \<open>Acknowledgements reach their publisher\<close>

definition ack_wf :: "('a, 'r) ccsmpBackedPublisher \<Rightarrow> bool" where
  "ack_wf p \<longleftrightarrow> (\<forall>i. acknowledgementMap p i \<noteq> None \<longrightarrow> i \<le> acknowledgementHandlerID p)"

lemma ack_wf_new [simp]: "ack_wf newCcsmpPublisher"
  by (simp add: ack_wf_def newCcsmpPublisher_def)

lemma ack_wf_add:
  assumes "ack_wf s" and "acknowledgementHandlerID s \<noteq> - 1"
  shows "ack_wf (snd (AddAcknowledgementHandler h s))"
proof -
  have "acknowledgementHandlerID s \<le> acknowledgementHandlerID s + 1"
    using assms(2) by (metis inc_less_eq_self_iff_eq nle_le)
  with assms(1) show ?thesis
    by (auto simp: ack_wf_def AddAcknowledgementHandler_def Let_def intro: order.trans)
qed

interpretation ackreg: handler_registry AddAcknowledgementHandler RemoveAcknowledgementHandler
    acknowledgementMap acknowledgementHandlerID ack_wf
  by unfold_locales
    (simp_all add: ack_wf_add, auto simp: AddAcknowledgementHandler_def RemoveAcknowledgementHandler_def
       ack_wf_def Let_def)

lemma length_toCorrelationTag [simp]: "length (toCorrelationTag p m) = correlationTagLength"
proof -
  have "fromCorrelationTag (toCorrelationTag p m) \<noteq> None" by simp
  then show ?thesis by (simp add: fromCorrelationTag_def split: if_splits)
qed

lemma onAcknowledgement_tag:
  "onAcknowledgement (Some (toCorrelationTag i m @ rest)) persisted err p =
     (case acknowledgementMap p i of None \<Rightarrow> [] | Some h \<Rightarrow> [(h, m, persisted, err)])"
  by (simp add: onAcknowledgement_def)

text \<open>
  C16. Acknowledgement routing. When any number of publishers register, an acknowledgement that
  carries a tag drawn from the generator of the k-th one is delivered to exactly the k-th handler,
  once, with the message number the generator returned with the tag; and once some publisher
  has been removed, its late acknowledgements call nobody while those of the others are unaffected.
\<close>

theorem acknowledgement_routing:
  assumes "ack_wf p" and "unat (acknowledgementHandlerID p) + length hs < 2 ^ 64"
    and "add_many AddAcknowledgementHandler hs p = (is, p')" and "k < length hs" and "j < length hs"
    and "next_correlation_tag (is ! k) last_id = ((msgID, tag), last_id')"
  shows "onAcknowledgement (Some (tag @ rest)) persisted err p' = [(hs ! k, msgID, persisted, err)] \<and>
    onAcknowledgement (Some (tag @ rest)) persisted err (RemoveAcknowledgementHandler (is ! j) p') =
      (if j = k then [] else [(hs ! k, msgID, persisted, err)])"
proof -
  note many = ackreg.add_many_lookup [OF assms(1-3)]
  have tag: "tag = toCorrelationTag (is ! k) msgID"
    using assms(6) by (auto simp: next_correlation_tag_def Let_def)
  have "is ! j = is ! k \<longleftrightarrow> j = k"
    using many assms(4,5) by (auto simp: nth_eq_iff_index_eq)
  then show ?thesis
    using many assms(4) unfolding tag
    by (auto simp: onAcknowledgement_tag RemoveAcknowledgementHandler_def)
qed

theorem acknowledgement_routing_witness:
  "onAcknowledgement (Some (toCorrelationTag 2 8)) True None
     (snd (add_many AddAcknowledgementHandler [''a'', ''b''] (newCcsmpPublisher :: (string, string) ccsmpBackedPublisher)))
     = [(''b'', 8, True, None)]"
  using acknowledgement_routing [of "newCcsmpPublisher :: (string, string) ccsmpBackedPublisher"
      "[''a'', ''b'']" "[1, 2]" "snd (add_many AddAcknowledgementHandler [''a'', ''b''] newCcsmpPublisher)" 1 0 7
      8 "toCorrelationTag 2 8" 8 "[]" True None]
  by (simp add: newCcsmpPublisher_def AddAcknowledgementHandler_def next_correlation_tag_def
      ack_wf_def Let_def)

section \<open>Reply topics\<close>

definition requestor_wf :: "('a, 'r) ccsmpBackedPublisher \<Rightarrow> bool" where
  "requestor_wf p \<longleftrightarrow>
     (\<forall>i \<in> fst ` set (publisherRxReplyMap p). i \<le> replyDispatchID p) \<and>
     (replyToPrefix p = [] \<or> last (replyToPrefix p) = CHR ''/'')"

lemma AddRequestorReplyHandler_ok:
  assumes "rxLock_readers p = 0" and "requestor_wf p" and "replyDispatchID p \<noteq> - 1"
    and "subscribe (replyToPrefix p @ print_016X (replyDispatchID p + 1)) (replyDispatchID p + 1) = None"
  shows "AddRequestorReplyHandler subscribe h p =
    Return (Inr (replyToPrefix p @ print_016X (replyDispatchID p + 1)),
      p\<lparr>replyDispatchID := replyDispatchID p + 1,
        publisherRxReplyMap := publisherRxReplyMap p @
          [(replyDispatchID p + 1, \<lparr>rc_handler = h,
             rc_replyToTopic = replyToPrefix p @ print_016X (replyDispatchID p + 1)\<rparr>)]\<rparr>)"
proof -
  have "replyDispatchID p + 1 \<notin> fst ` set (publisherRxReplyMap p)"
    using assms(2,3) inc_less_eq_self_iff_eq [of "replyDispatchID p"] by (auto simp: requestor_wf_def)
  with assms show ?thesis
    by (simp add: AddRequestorReplyHandler_def rx_locked_def NewSessionReplyDispatch_def Let_def update_fresh)
qed

lemma AddRequestorReplyHandler_error:
  assumes "rxLock_readers p = 0" and "requestor_wf p" and "replyDispatchID p \<noteq> - 1"
    and "subscribe (replyToPrefix p @ print_016X (replyDispatchID p + 1)) (replyDispatchID p + 1) = Some e"
  shows "AddRequestorReplyHandler subscribe h p =
    Return (Inl e, p\<lparr>replyDispatchID := replyDispatchID p + 1\<rparr>)"
proof -
  have "replyDispatchID p + 1 \<notin> fst ` set (publisherRxReplyMap p)"
    using assms(2,3) inc_less_eq_self_iff_eq [of "replyDispatchID p"] by (auto simp: requestor_wf_def)
  then have "AList.delete (replyDispatchID p + 1) (publisherRxReplyMap p @ [(replyDispatchID p + 1, r)]) =
      publisherRxReplyMap p" for r
    by (simp add: delete_filter filter_key_fresh)
  with assms \<open>_ \<notin> _\<close> show ?thesis
    by (simp add: AddRequestorReplyHandler_def rx_locked_def NewSessionReplyDispatch_def Let_def
        update_fresh)
qed

text \<open>The dispatch number is recovered from the reply topic.\<close>

lemma reply_topic_number:
  assumes "prefix = [] \<or> last prefix = CHR ''/''"
  shows "ParseUint (last (split_on (CHR ''/'') (prefix @ print_016X i))) 16 64 = Inr (unat i)"
  using last_split_on [OF assms print_016X_no_slash [of i]] by (simp add: ParseUint_print_016X)

text \<open>
  C26. Request-reply registration. A reply handler registered under the next free dispatch number
  is called, and only it, for replies dispatched to that number; removing it by the returned
  reply topic finds the same number again in the topic text and restores the reply map and the lock
  exactly. The only assumption on the session is that its inbox prefix ends with a slash.
\<close>

theorem requestor_roundtrip:
  assumes "rxLock_readers p = 0" and "requestor_wf p" and "replyDispatchID p \<noteq> - 1"
    and "AddRequestorReplyHandler subscribe h p = Return (Inr topic, p')"
    and "unsubscribe topic (replyDispatchID p') = None"
  shows "replyDispatchID p' = replyDispatchID p + 1 \<and>
    onReplyMessage m u c p' =
      (if u = replyDispatchID p' then (Some (h, m, c), p')
       else (fst (onReplyMessage m u c p), p'\<lparr>rxLock_readers := rxLock_readers (snd (onReplyMessage m u c p))\<rparr>)) \<and>
    RemoveRequestorReplyHandler unsubscribe topic p' =
      Return (None, p\<lparr>replyDispatchID := replyDispatchID p'\<rparr>)"
proof -
  let ?i = "replyDispatchID p + 1" and ?t = "replyToPrefix p @ print_016X (replyDispatchID p + 1)"
  have "subscribe ?t ?i = None"
    using assms(4) AddRequestorReplyHandler_error [OF assms(1-3), of subscribe]
    by (cases "subscribe ?t ?i") auto
  note ok = AddRequestorReplyHandler_ok [of p subscribe h, OF assms(1-3) this]
  have fresh: "?i \<notin> fst ` set (publisherRxReplyMap p)"
    using assms(2,3) inc_less_eq_self_iff_eq [of "replyDispatchID p"] by (auto simp: requestor_wf_def)
  then have "map_of (publisherRxReplyMap p) ?i = None" by (simp add: map_of_eq_None_iff)
  moreover have "filter (\<lambda>q. fst q \<noteq> ?i) (publisherRxReplyMap p) = publisherRxReplyMap p"
    using fresh by (rule filter_key_fresh)
  moreover have "ParseUint (last (split_on (CHR ''/'') ?t)) 16 64 = Inr (unat ?i)"
    using assms(2) by (intro reply_topic_number) (simp add: requestor_wf_def)
  ultimately show ?thesis
    using assms(1,5) assms(4) [unfolded ok]
    by (cases p) (auto simp: onReplyMessage_def RemoveRequestorReplyHandler_def rx_locked_def delete_filter
        NewSessionReplyDispatch_def Let_def map_add_def split: option.splits if_splits)
qed

theorem requestor_roundtrip_witness:
  "RemoveRequestorReplyHandler (\<lambda>t d. None) ''#P2P/0000000000000001''
     (newCcsmpPublisher\<lparr>replyToPrefix := ''#P2P/'', replyDispatchID := 1,
        publisherRxReplyMap := [(1, \<lparr>rc_handler = ''h'', rc_replyToTopic = ''#P2P/0000000000000001''\<rparr>)]\<rparr>
        :: (string, string) ccsmpBackedPublisher) =
   Return (None, newCcsmpPublisher\<lparr>replyToPrefix := ''#P2P/'', replyDispatchID := 1\<rparr>)"
proof -
  have x: "print_016X 1 = ''0000000000000001''"
    by code_simp
  show ?thesis
  using requestor_roundtrip [of "newCcsmpPublisher\<lparr>replyToPrefix := ''#P2P/''\<rparr> :: (string, string) ccsmpBackedPublisher"
      "\<lambda>t d. None" "''h''" "''#P2P/0000000000000001''"
      "newCcsmpPublisher\<lparr>replyToPrefix := ''#P2P/'', replyDispatchID := 1,
        publisherRxReplyMap := [(1, \<lparr>rc_handler = ''h'', rc_replyToTopic = ''#P2P/0000000000000001''\<rparr>)]\<rparr>"
      "\<lambda>t d. None" 9 1 "[]"]
  by (simp add: newCcsmpPublisher_def AddRequestorReplyHandler_def rx_locked_def requestor_wf_def
      NewSessionReplyDispatch_def x Let_def)
qed

section \<open>The reply lock\<close>

text \<open>
  The completed operations of the requestor, in any order: the steps between states in which no
  call is in progress.
\<close>

inductive requestor_step :: "('a, 'r) ccsmpBackedPublisher \<Rightarrow> ('a, 'r) ccsmpBackedPublisher \<Rightarrow> bool" where
  step_add: "AddRequestorReplyHandler subscribe h p = Return (r, p') \<Longrightarrow> requestor_step p p'"
| step_remove: "RemoveRequestorReplyHandler unsubscribe topic p = Return (e, p') \<Longrightarrow> requestor_step p p'"
| step_reply: "onReplyMessage m u c p = (call, p') \<Longrightarrow> requestor_step p p'"
| step_terminate: "terminateRequestor p = Return (us, p') \<Longrightarrow> requestor_step p p'"

lemma requestor_step_readers: "requestor_step p p' \<Longrightarrow> rxLock_readers p \<le> rxLock_readers p'"
  by (induction rule: requestor_step.induct)
    (auto simp: AddRequestorReplyHandler_def RemoveRequestorReplyHandler_def onReplyMessage_def
      terminateRequestor_def rx_locked_def Let_def split: if_splits option.splits sum.splits)

lemma requestor_steps_readers: "requestor_step\<^sup>*\<^sup>* p p' \<Longrightarrow> rxLock_readers p \<le> rxLock_readers p'"
  by (induction rule: rtranclp_induct) (auto dest: requestor_step_readers)

text \<open>
  A reply for a dispatch number without a handler, as arrives when a handler has just been
  removed, leaves the reply lock read-locked: whatever the requestor does afterwards, no handler
  can be registered any more, none whose unsubscription succeeds can be removed, and the
  termination of the requestor never returns.
\<close>

theorem unmatched_reply_blocks_requestor:
  assumes "map_of (publisherRxReplyMap p) u = None"
    and "requestor_step\<^sup>*\<^sup>* (snd (onReplyMessage m u c p)) p'"
  shows "AddRequestorReplyHandler subscribe h p' = Blocks \<and> terminateRequestor p' = Blocks \<and>
    (ParseUint (last (split_on (CHR ''/'') topic)) 16 64 = Inr i \<longrightarrow> unsubscribe topic (of_nat i) = None \<longrightarrow>
       RemoveRequestorReplyHandler unsubscribe topic p' = Blocks)"
proof -
  have "0 < rxLock_readers (snd (onReplyMessage m u c p))"
    using assms(1) by (simp add: onReplyMessage_def Let_def)
  also have "\<dots> \<le> rxLock_readers p'" using assms(2) by (rule requestor_steps_readers)
  finally have "0 < rxLock_readers p'" .
  then show ?thesis
    by (simp add: AddRequestorReplyHandler_def terminateRequestor_def RemoveRequestorReplyHandler_def
        rx_locked_def NewSessionReplyDispatch_def Let_def)
qed

theorem unmatched_reply_blocks_requestor_witness:
  "terminateRequestor (snd (onReplyMessage 9 5 [] (newCcsmpPublisher :: (string, string) ccsmpBackedPublisher))) = Blocks"
  using unmatched_reply_blocks_requestor [of "newCcsmpPublisher :: (string, string) ccsmpBackedPublisher" 5 9 "[]"
      "snd (onReplyMessage 9 5 [] newCcsmpPublisher)" "\<lambda>t d. None" "''h''" "[]" 0 "\<lambda>t d. None"]
  by (simp add: newCcsmpPublisher_def)

section \<open>Registration with the event service\<close>

lemma new_service_simps [simp]: "handlerID newCcsmpEvents = 0" "isRunning newCcsmpPublisher = 0"
  by (simp_all add: newCcsmpEvents_def newCcsmpPublisher_def)

lemma publisher_start_events:
  assumes "isRunning p = 0" and "publisher_start pre ev p = (ev', p')"
  obtains s1 s2 where
    "AddEventHandler SolClientEventCanSend CorePublisherCanSend ev = (canSendEventID p', s1)"
    "AddEventHandler SolClientEventAcknowledgement CorePublisherAcknowledgement s1 = (acknowledgementEventID p', s2)"
    "AddEventHandler SolClientEventRejected CorePublisherRejected s2 = (rejectedEventID p', ev')"
  using assms
  by (auto simp: publisher_start_def startRequestor_def Let_def split: prod.splits sum.splits)

lemma max_word_unat: "unat (x :: u64) + 1 < 2 ^ 64 \<Longrightarrow> x \<noteq> - 1"
  by (auto simp: unsigned_minus_1_eq_mask mask_eq_exp_minus_1)

lemma AddEventHandler_next:
  assumes "events_wf s" and "unat (handlerID s) + Suc n < 2 ^ 64" and "AddEventHandler e h s = (i, s')"
  shows "events_wf s'" and "unat (handlerID s') + n < 2 ^ 64" and "i = handlerID s'" and "handlerID s < i"
    and "events_look s' = (events_look s)(i \<mapsto> (e, h))" and "events_look s i = None"
proof -
  have nomax: "handlerID s \<noteq> - 1" using assms(2) by (intro max_word_unat) simp
  show "events_wf s'" "events_look s' = (events_look s)(i \<mapsto> (e, h))"
    using AddEventHandler_look [OF assms(1) nomax assms(3)] by blast+
  have i: "i = handlerID s + 1" and i': "handlerID s' = handlerID s + 1"
    using AddEventHandler_id [OF assms(1), of e h] assms(3) by simp_all
  then show "i = handlerID s'" by simp
  show "handlerID s < i" unfolding i using nomax by (metis inc_less_eq_self_iff_eq not_le)
  show "events_look s i = None" unfolding i using evreg.fresh_id [OF assms(1) nomax] .
  show "unat (handlerID s') + n < 2 ^ 64"
    unfolding i' using assms(2) by (simp add: unat_word_ariths)
qed

text \<open>
  Starting the publisher registers its three closures with the event service under numbers that
  were free, and leaves every other registration alone; the clean-up of the termination removes
  exactly these three again.
\<close>

theorem publisher_start_cleanup:
  assumes "events_wf ev" and "unat (handlerID ev) + 3 < 2 ^ 64" and "isRunning p = 0"
    and "publisher_start pre ev p = (ev', p')"
  shows "events_look ev' = (events_look ev)
      (canSendEventID p' \<mapsto> (SolClientEventCanSend, CorePublisherCanSend),
       acknowledgementEventID p' \<mapsto> (SolClientEventAcknowledgement, CorePublisherAcknowledgement),
       rejectedEventID p' \<mapsto> (SolClientEventRejected, CorePublisherRejected)) \<and>
    distinct [canSendEventID p', acknowledgementEventID p', rejectedEventID p'] \<and>
    events_look (fst (publisher_cleanup ev' p')) = events_look ev"
proof -
  obtain s1 s2 where
    1: "AddEventHandler SolClientEventCanSend CorePublisherCanSend ev = (canSendEventID p', s1)" and
    2: "AddEventHandler SolClientEventAcknowledgement CorePublisherAcknowledgement s1 = (acknowledgementEventID p', s2)" and
    3: "AddEventHandler SolClientEventRejected CorePublisherRejected s2 = (rejectedEventID p', ev')"
    using publisher_start_events [OF assms(3,4)] .
  have n0: "unat (handlerID ev) + Suc 2 < 2 ^ 64" using assms(2) by simp
  note a = AddEventHandler_next [OF assms(1) n0 1]
  have n1: "unat (handlerID s1) + Suc 1 < 2 ^ 64" using a(2) by simp
  note b = AddEventHandler_next [OF a(1) n1 2]
  have n2: "unat (handlerID s2) + Suc 0 < 2 ^ 64" using b(2) by simp
  note c = AddEventHandler_next [OF b(1) n2 3]
  have d: "canSendEventID p' < acknowledgementEventID p'" "acknowledgementEventID p' < rejectedEventID p'"
    using a(3) b(3,4) c(4) by simp_all
  then have "distinct [canSendEventID p', acknowledgementEventID p', rejectedEventID p']" by auto
  moreover have "events_look (fst (publisher_cleanup ev' p')) = events_look ev"
    using a(5,6) b(5,6) c(1,5,6) d
    by (auto simp: publisher_cleanup_def RemoveEventHandler_look fun_eq_iff split: if_splits)
  ultimately show ?thesis using a(5) b(5) c(5) by simp
qed

theorem publisher_start_cleanup_witness:
  "case publisher_start (Inr ''#P2P/'') (newCcsmpEvents :: string event_handler ccsmpBackedEvents)
      (newCcsmpPublisher :: (string, string) ccsmpBackedPublisher) of
     (ev, p) \<Rightarrow> events_look (fst (publisher_cleanup ev p)) =
       events_look (newCcsmpEvents :: string event_handler ccsmpBackedEvents)"
proof -
  obtain ev p where st: "publisher_start (Inr ''#P2P/'')
      (newCcsmpEvents :: string event_handler ccsmpBackedEvents)
      (newCcsmpPublisher :: (string, string) ccsmpBackedPublisher) = (ev, p)"
    by (cases "publisher_start (Inr ''#P2P/'')
      (newCcsmpEvents :: string event_handler ccsmpBackedEvents)
      (newCcsmpPublisher :: (string, string) ccsmpBackedPublisher)")
  with publisher_start_cleanup [OF events_wf_new _ _ st] show ?thesis by simp
qed

section \<open>Termination of the publish loop\<close>

fun loop_rank :: "loop_pc \<Rightarrow> nat" where
  "loop_rank AtSelect = 3"
| "loop_rank InTask = 2"
| "loop_rank AtPoll = 1"
| "loop_rank LoopDone = 0"

fun is_start :: "'t loop_label \<Rightarrow> bool" where
  "is_start (StartTask t) = True"
| "is_start _ = False"

lemma loop_rank_decreases:
  "publishLoop_step s l s' \<Longrightarrow> loop_termination s \<Longrightarrow>
     loop_rank (loop_pc s') < loop_rank (loop_pc s) \<and> loop_termination s' \<and>
     (is_start l \<longrightarrow> loop_rank (loop_pc s) = 3)"
  by (induction rule: publishLoop_step.induct) auto

lemma publishLoop_run_after_termination:
  "publishLoop_run s ls s' \<Longrightarrow> loop_termination s \<Longrightarrow>
     length ls + loop_rank (loop_pc s') \<le> loop_rank (loop_pc s) \<and> loop_termination s' \<and>
     length (filter is_start ls) \<le> (if loop_rank (loop_pc s) = 3 then 1 else 0)"
proof (induction rule: publishLoop_run.induct)
  case (run_nil s)
  then show ?case by simp
next
  case (run_cons s l s' ls s'')
  have "loop_rank (loop_pc s) \<le> 3" by (cases "loop_pc s") auto
  then show ?case
    using run_cons.IH loop_rank_decreases [OF run_cons.hyps(1) run_cons.prems] by (auto split: if_splits)
qed

lemma publishLoop_complete:
  "publishLoop_run s ls s' \<Longrightarrow> (loop_pc s = LoopDone \<longleftrightarrow> terminationComplete s) \<Longrightarrow>
     (loop_pc s' = LoopDone \<longleftrightarrow> terminationComplete s')"
proof (induction rule: publishLoop_run.induct)
  case (run_nil s)
  then show ?case by simp
next
  case (run_cons s l s' ls s'')
  have "loop_pc s' = LoopDone \<longleftrightarrow> terminationComplete s'"
    using run_cons.hyps(1) run_cons.prems by cases auto
  with run_cons.IH show ?case by simp
qed

lemma publishLoop_stuck:
  assumes "loop_termination s" and "\<And>(l :: 't loop_label) s'. \<not> publishLoop_step s l s'"
  shows "loop_pc s = LoopDone"
proof (cases "loop_pc s")
  case AtPoll
  with assms(2) poll_stop [OF AtPoll assms(1)] show ?thesis by blast
next
  case AtSelect
  with assms(2) select_stop [OF AtSelect assms(1)] show ?thesis by blast
next
  case InTask
  with assms(2) finish_task [OF InTask] show ?thesis by blast
qed

lemma publishLoop_run_append:
  "publishLoop_run s (ls @ ls') s'' \<longleftrightarrow> (\<exists>s'. publishLoop_run s ls s' \<and> publishLoop_run s' ls' s'')"
proof (induction ls arbitrary: s)
  case Nil
  show ?case by (auto intro: run_nil elim: publishLoop_run_NilE)
next
  case (Cons l ls)
  then show ?case by (fastforce intro: run_cons elim: publishLoop_run_ConsE)
qed

text \<open>
  The publish loop ends. Once the termination signal is closed, at any point of any run, the
  loop makes at most three more steps and takes at most one more task (the one it may have been
  offered at the same moment); when no step is left, the completion signal is closed, so the wait in
  the termination returns.
\<close>

theorem publishLoop_terminates:
  fixes ls ls' :: "'t loop_label list"
  assumes "publishLoop_run publishLoop_init (ls @ CloseTermination # ls') s"
  shows "length ls' \<le> 3 \<and> length (filter is_start ls') \<le> 1 \<and>
    ((\<forall>(l :: 't loop_label) s'. \<not> publishLoop_step s l s') \<longrightarrow> terminationComplete s)"
proof -
  obtain s1 s2 where s1: "publishLoop_run publishLoop_init ls s1"
    and s2: "publishLoop_step s1 (CloseTermination :: 't loop_label) s2" and run: "publishLoop_run s2 ls' s"
    using assms by (auto simp: publishLoop_run_append elim: publishLoop_run_ConsE)
  have "loop_termination s2" using s2 by cases auto
  note after = publishLoop_run_after_termination [OF run this]
  have "loop_rank (loop_pc s2) \<le> 3" by (cases "loop_pc s2") auto
  moreover have "loop_pc s = LoopDone \<longleftrightarrow> terminationComplete s"
    using publishLoop_complete [OF assms] by (simp add: publishLoop_init_def)
  ultimately show ?thesis
    using after publishLoop_stuck [of s] by (auto split: if_splits)
qed

theorem publishLoop_terminates_witness:
  "length (filter is_start [StartTask (7::nat), FinishTask, PollStop]) \<le> 1 \<and>
   publishLoop_run publishLoop_init
     ([PollContinue] @ CloseTermination # [StartTask (7::nat), FinishTask, PollStop])
     \<lparr>loop_pc = LoopDone, loop_termination = True, terminationComplete = True\<rparr>"
proof -
  have run: "publishLoop_run publishLoop_init
     ([PollContinue] @ CloseTermination # [StartTask (7::nat), FinishTask, PollStop])
     \<lparr>loop_pc = LoopDone, loop_termination = True, terminationComplete = True\<rparr>"
    unfolding publishLoop_init_def append.simps
    by (rule run_cons [OF poll_continue] run_cons [OF close_termination] run_cons [OF select_task]
        run_cons [OF finish_task] run_cons [OF poll_stop] | simp add: run_nil)+
  show ?thesis using publishLoop_terminates [OF run] run by blast
qed

end
