(* ===== verification/Direct_Publisher.thy ===== *)
theory Direct_Publisher
  imports Lifecycle Validation Executor Task_Buffer Core_Publisher
begin

text \<open>
  The direct message publisher (\<^verbatim>\<open>internal/impl/publisher/direct_message_publisher_impl.go\<close>). A message
  is sent at once when the publisher is unbuffered; otherwise it is put into a bounded buffer, and a
  task that sends it is submitted to the task buffer under the same lock. The task removes the head of
  the buffer when it has sent its own message.

  The record holds the publisher's fields; the task buffer is the system of \<^verbatim>\<open>Task_Buffer\<close>, its tasks
  the messages they send. The results of the C library are arguments. The event executor is the
  executor of \<^verbatim>\<open>Executor\<close>, with the listener calls as its tasks (\<open>EmptyCall\<close> is the empty closure that the request-reply publisher submits). The event service of the session is
  passed through the operations that use it, and the amount added to the metric of discarded messages
  is a field.
\<close>

section \<open>State\<close>

record publishable =
  pub_message :: nat
  pub_destination :: string

datatype listener_call =
    ReadinessCall
  | FailureCall publishable "go_error option"
  | EmptyCall

record direct_publisher =
  dp_lifecycle :: lifecycle
  dp_config :: backpressureConfiguration
  dp_buffer :: "publishable chan"
  dp_tasks :: "publishable buf_sys"
  dp_interrupt :: bool
  dp_executor :: "listener_call executor"
  readinessListener :: bool
  publishFailureListener :: bool
  terminationListener :: bool
  downEventHandlerID :: u64
  canSendEventHandlerID :: u64
  terminationDiscarded :: nat

definition direct_construct :: "backpressureConfiguration \<Rightarrow> nat \<Rightarrow> direct_publisher" where
  "direct_construct cfg bufferSize =
     \<lparr>dp_lifecycle = lifecycle_construct, dp_config = cfg, dp_buffer = make_chan bufferSize,
      dp_tasks = buf_init bufferSize, dp_interrupt = False, dp_executor = NewExecutor,
      readinessListener = False, publishFailureListener = False, terminationListener = False,
      downEventHandlerID = 0, canSendEventHandlerID = 0, terminationDiscarded = 0\<rparr>"

section \<open>Operations\<close>

text \<open>
  Submission of a listener call to the event executor; a refusal is only logged. The submission never
  blocks or panics for a lone caller, as \<^verbatim>\<open>Executor\<close> shows.
\<close>

definition submit_call :: "listener_call \<Rightarrow> direct_publisher \<Rightarrow> direct_publisher" where
  "submit_call c p = (case Submit c (dp_executor p) of Return (b, ex) \<Rightarrow> p\<lparr>dp_executor := ex\<rparr> | _ \<Rightarrow> p)"

definition notifyReady :: "direct_publisher \<Rightarrow> direct_publisher" where
  "notifyReady p = (if readinessListener p then submit_call ReadinessCall p else p)"

definition IsReady :: "direct_publisher \<Rightarrow> bool" where
  "IsReady p \<longleftrightarrow> IsRunning (dp_lifecycle p) \<and>
     (dp_config p \<noteq> backpressureConfigurationReject \<or> chan_len (dp_buffer p) \<noteq> chan_cap (dp_buffer p))"

definition NotifyWhenReady :: "direct_publisher \<Rightarrow> direct_publisher" where
  "NotifyWhenReady p = (if IsReady p then notifyReady p else p)"

definition AlreadyTerminated :: go_error where
  "AlreadyTerminated = IllegalState UnableToPublishAlreadyTerminated"

definition Overflow :: go_error where
  "Overflow = NewError PublisherOverflowError WouldBlock [] None"

text \<open>
  The write to the message buffer under the publish lock: in the waiting strategy the \<^verbatim>\<open>select\<close> also
  listens to the termination interrupt. A panic of the send on the closed buffer is recovered and
  becomes an error. The result lists the possible outcomes: an error to return, or the new buffer;
  no element means that the call blocks.
\<close>

definition buffer_write :: "publishable \<Rightarrow> direct_publisher \<Rightarrow> (go_error + publishable chan) list" where
  "buffer_write pub p =
     (case chan_send pub (dp_buffer p) of
        Panics e \<Rightarrow> [Inl AlreadyTerminated]
      | Return c \<Rightarrow> [Inr c]
      | Blocks \<Rightarrow> if dp_config p = backpressureConfigurationReject then [Inl Overflow] else [])
     @ (if dp_config p \<noteq> backpressureConfigurationReject \<and> dp_interrupt p then [Inl AlreadyTerminated] else [])"

text \<open>
  The buffered part of \<^verbatim>\<open>publish\<close>, under the publish lock: write the message to the buffer and submit its
  task. A refused task is only logged.
\<close>

definition publish_buffered ::
    "publishable \<Rightarrow> direct_publisher \<Rightarrow> (go_error option \<times> direct_publisher) list" where
  "publish_buffered pub p =
     map (\<lambda>r. case r of
            Inl err \<Rightarrow> (Some err, p)
          | Inr c \<Rightarrow>
              (None,
               let p = p\<lparr>dp_buffer := c\<rparr>
               in case buffer_Submit pub (buf (dp_tasks p)) of
                    (True, b) \<Rightarrow> p\<lparr>dp_tasks := (dp_tasks p)\<lparr>buf := b, submitted := submitted (dp_tasks p) @ [pub]\<rparr>\<rparr>
                  | (False, b) \<Rightarrow> p))
       (buffer_write pub p)"

text \<open>
  \<^verbatim>\<open>publish\<close>. The arguments are the error of setting the destination and the result of the C library
  for an unbuffered send. The result is the list of possible (error, new state) pairs.
\<close>

definition publish ::
    "go_error option \<Rightarrow> ErrorInfo option \<Rightarrow> publishable \<Rightarrow> direct_publisher
       \<Rightarrow> (go_error option \<times> direct_publisher) list" where
  "publish setDestination sent pub p =
     (case setDestination of
        Some err \<Rightarrow> [(Some err, p)]
      | None \<Rightarrow>
          (case checkStartedStateForPublish (dp_lifecycle p) of
             Some err \<Rightarrow> [(Some err, p)]
           | None \<Rightarrow>
               if dp_config p = backpressureConfigurationDirect
               then (case sent of
                       None \<Rightarrow> [(None, p)]
                     | Some info \<Rightarrow>
                         if ReturnCode info = SolClientReturnCodeWouldBlock then [(Some Overflow, p)]
                         else [(Some (ToNativeError info []), p)])
               else publish_buffered pub p))"

text \<open>
  The loop of \<^verbatim>\<open>sendTask\<close>: attempts are repeated while the library would block and the wait for
  writability succeeds. The list holds what the library answers to each attempt and how the wait
  after it ends. \<open>None\<close> means the loop is still waiting at the end of the list, \<open>Some None\<close> that the wait
  was interrupted and the task returns, \<open>Some (Some e)\<close> that the loop was left with the result \<open>e\<close>.
\<close>

fun send_attempts :: "(ErrorInfo option \<times> await_result) list \<Rightarrow> ErrorInfo option option option" where
  "send_attempts [] = None"
| "send_attempts ((None, w) # rest) = Some (Some None)"
| "send_attempts ((Some info, w) # rest) =
     (if ReturnCode info = SolClientReturnCodeWouldBlock
      then (if w = Writable then send_attempts rest else Some None)
      else Some (Some (Some info)))"

text \<open>
  The rest of \<^verbatim>\<open>sendTask\<close> for its message after the loop was left with the result \<open>errorInfo\<close>: remove the
  head of the buffer, report a failure, and signal readiness when the buffer was full.
\<close>

definition send_finish :: "publishable \<Rightarrow> ErrorInfo option \<Rightarrow> direct_publisher \<Rightarrow> direct_publisher" where
  "send_finish msg errorInfo p =
     (let isFull = (chan_len (dp_buffer p) = chan_cap (dp_buffer p))
      in case chan_recv (dp_buffer p) of
           Return (Some pub, c) \<Rightarrow>
             (let p = p\<lparr>dp_buffer := c\<rparr>;
                  p = (case errorInfo of
                         Some info \<Rightarrow>
                           if publishFailureListener p
                           then submit_call (FailureCall msg (Some (ToNativeError info
                                  ''encountered error while publishing message: ''))) p
                           else p
                       | None \<Rightarrow> p)
              in if isFull \<and> dp_config p = backpressureConfigurationReject then notifyReady p else p)
         | _ \<Rightarrow> p)"

text \<open>\<^verbatim>\<open>drainQueue\<close>: closes the buffer, counts what is left and reports it when asked to.\<close>

definition drainQueue :: "go_error option \<Rightarrow> bool \<Rightarrow> direct_publisher \<Rightarrow> (nat \<times> direct_publisher) outcome" where
  "drainQueue err listener p =
     outcome_bind (chan_close (dp_buffer p)) (\<lambda>c.
       let (undelivered, c') = chan_range c; p = p\<lparr>dp_buffer := c'\<rparr>
       in Return (length undelivered,
            if listener then fold (\<lambda>pub. submit_call (FailureCall pub err)) undelivered p else p))"

definition IncompleteDelivery :: "nat \<Rightarrow> go_error" where
  "IncompleteDelivery n =
     NewError IncompleteMessageDeliveryError IncompleteMessageDeliveryMessage [ArgInt (int n)] None"

type_synonym dp_events = "string event_handler ccsmpBackedEvents"

text \<open>
  \<^verbatim>\<open>Terminate\<close> up to the wait for the task buffer, and after it. In between, the task buffer runs
  (\<^verbatim>\<open>Task_Buffer\<close>) until it has completed. The final part returns the error, if any, after the deferred
  termination of the event executor (whose wait is the executor's) and the final state change.
\<close>

definition direct_Terminate_begin ::
    "dp_events \<Rightarrow> direct_publisher
       \<Rightarrow> (go_error option outcome proceed \<times> dp_events \<times> direct_publisher) outcome" where
  "direct_Terminate_begin events p =
     (case publisher_terminate (dp_lifecycle p) of
        (Stop r, l) \<Rightarrow> Return (Stop r, events, p\<lparr>dp_lifecycle := l\<rparr>)
      | (Proceed, l) \<Rightarrow>
          (let p = p\<lparr>dp_lifecycle := l\<rparr>; events = RemoveEventHandler (downEventHandlerID p) events
           in if dp_config p = backpressureConfigurationDirect then Return (Proceed, events, p)
              else
                outcome_bind (signal_close (dp_interrupt p)) (\<lambda>c.
                outcome_bind (Terminate_begin (buf (dp_tasks p))) (\<lambda>b.
                  Return (Proceed, events,
                    p\<lparr>dp_interrupt := c, dp_tasks := (dp_tasks p)\<lparr>buf := b\<rparr>\<rparr>)))))"

definition direct_finish ::
    "go_error option \<Rightarrow> direct_publisher \<Rightarrow> direct_publisher outcome" where
  "direct_finish err p =
     outcome_bind (Terminate (dp_executor p)) (\<lambda>ex.
       Return (p\<lparr>dp_executor := ex, dp_lifecycle := terminated err (dp_lifecycle p)\<rparr>))"

definition undelivered_error :: "nat \<Rightarrow> direct_publisher \<Rightarrow> go_error option \<times> direct_publisher" where
  "undelivered_error undeliveredCount p =
     (if undeliveredCount > 0
      then (Some (IncompleteDelivery undeliveredCount),
            p\<lparr>terminationDiscarded := terminationDiscarded p + undeliveredCount\<rparr>)
      else (None, p))"

definition direct_Terminate_end ::
    "dp_events \<Rightarrow> direct_publisher \<Rightarrow> (go_error option \<times> dp_events \<times> direct_publisher) outcome" where
  "direct_Terminate_end events p =
     (if dp_config p = backpressureConfigurationDirect
      then outcome_bind (direct_finish None p) (\<lambda>p.
             Return (None, RemoveEventHandler (canSendEventHandlerID p) events, p))
      else
        outcome_bind (drainQueue None False p) (\<lambda>(undeliveredCount, p).
          let (err, p) = undelivered_error undeliveredCount p
          in outcome_bind (direct_finish err p) (\<lambda>p. Return (err, events, p))))"

text \<open>
  The termination on a down event: it does not wait for the task buffer and reports every message
  left in the buffer to the failure listener. The result says whether it proceeded; if so, the
  termination listener, when there is one, is called with the error of the event.
\<close>

definition unsolicitedTermination ::
    "go_error option \<Rightarrow> dp_events \<Rightarrow> direct_publisher
       \<Rightarrow> (go_error option list \<times> dp_events \<times> direct_publisher) outcome" where
  "unsolicitedTermination downErr events p =
     (case publisher_terminate (dp_lifecycle p) of
        (Stop r, l) \<Rightarrow> Return ([], events, p\<lparr>dp_lifecycle := l\<rparr>)
      | (Proceed, l) \<Rightarrow>
          (let p = p\<lparr>dp_lifecycle := l\<rparr>; events = RemoveEventHandler (downEventHandlerID p) events;
               notification = (if terminationListener p then [downErr] else [])
           in if dp_config p = backpressureConfigurationDirect
              then outcome_bind (direct_finish None p) (\<lambda>p.
                     Return (notification, RemoveEventHandler (canSendEventHandlerID p) events, p))
              else
                outcome_bind (signal_close (dp_interrupt p)) (\<lambda>c.
                outcome_bind (TerminateNow (buf (dp_tasks p))) (\<lambda>b.
                  let p = p\<lparr>dp_interrupt := c, dp_tasks := (dp_tasks p)\<lparr>buf := b\<rparr>\<rparr>
                  in outcome_bind (drainQueue downErr (publishFailureListener p) p) (\<lambda>(undeliveredCount, p).
                       let (err, p) = undelivered_error undeliveredCount p
                       in outcome_bind (direct_finish err p) (\<lambda>p. Return (notification, events, p)))))))"

text \<open>
  \<^verbatim>\<open>Start\<close>: registers the down handler, and the can-send handler when unbuffered. The error path of the
  deferred function is unreachable, since the body always returns nil.
\<close>

definition direct_Start ::
    "bool \<Rightarrow> dp_events \<Rightarrow> direct_publisher
       \<Rightarrow> go_error option outcome proceed \<times> dp_events \<times> direct_publisher" where
  "direct_Start parentRunning events p =
     (case publisher_starting parentRunning (dp_lifecycle p) of
        (Stop r, l) \<Rightarrow> (Stop r, events, p\<lparr>dp_lifecycle := l\<rparr>)
      | (Proceed, l) \<Rightarrow>
          (let (i, events) = AddEventHandler SolClientEventDown (Other ''direct publisher onDownEvent'') events;
               p = p\<lparr>dp_lifecycle := l, downEventHandlerID := i\<rparr>
           in if dp_config p \<noteq> backpressureConfigurationDirect
              then (Proceed, events, p\<lparr>dp_lifecycle := started None (dp_lifecycle p)\<rparr>)
              else
                let (j, events) = AddEventHandler SolClientEventCanSend (Other ''direct publisher onCanSend'') events
                in (Proceed, events, p\<lparr>canSendEventHandlerID := j,
                      dp_lifecycle := started None (dp_lifecycle p)\<rparr>)))"

section \<open>The buffered publisher as a system\<close>

text \<open>
  The steps of a buffered publisher with its goroutine: publishing callers (any number; the lock
  makes the buffered part of each call a step, and a caller may have passed the state check long
  before, so the step does not look at the state), the goroutine of the task buffer up to the point where a task is running,
  the end of the running task (the library's result \<open>errorInfo\<close>), the interruption of its wait, which is
  possible once the task signal is closed, and the steps of a termination. \<open>accepted_msgs\<close>
  are the messages for which a publish returned success, \<open>processed\<close> those removed from the buffer by a
  finished task, with the task's own message and result.
\<close>

record dp_sys =
  dp :: direct_publisher
  accepted_msgs :: "publishable list"
  processed :: "(publishable \<times> publishable \<times> ErrorInfo option) list"

definition set_tasks :: "publishable buf_sys \<Rightarrow> dp_sys \<Rightarrow> dp_sys" where
  "set_tasks b s = s\<lparr>dp := (dp s)\<lparr>dp_tasks := b\<rparr>\<rparr>"

text \<open>
  A publish with its submission to the task buffer is one step. The end of the transport and the drain of the buffer are not steps
  of this system but operations on their own, above.
\<close>

inductive dp_step :: "dp_sys \<Rightarrow> dp_sys \<Rightarrow> bool" where
  dp_publish: "dp_config (dp s) \<noteq> backpressureConfigurationDirect \<Longrightarrow>
     (None, p) \<in> set (publish_buffered pub (dp s)) \<Longrightarrow>
     dp_step s (s\<lparr>dp := p, accepted_msgs := accepted_msgs s @ [pub]\<rparr>)"
| dp_run: "run_step (dp_tasks (dp s)) b \<Longrightarrow> (\<forall>t. buf_pc (dp_tasks (dp s)) \<noteq> BufRunning t) \<Longrightarrow>
     dp_step s (set_tasks b s)"
| dp_task_end: "buf_pc (dp_tasks (dp s)) = BufRunning msg \<Longrightarrow> run_step (dp_tasks (dp s)) b \<Longrightarrow>
     chan_recv (dp_buffer (dp s)) = Return (Some pub, c) \<Longrightarrow>
     dp_step s (set_tasks b (s\<lparr>dp := send_finish msg errorInfo (dp s),
       processed := processed s @ [(pub, msg, errorInfo)]\<rparr>))"
| dp_task_interrupted: "buf_pc (dp_tasks (dp s)) = BufRunning msg \<Longrightarrow> run_step (dp_tasks (dp s)) b \<Longrightarrow>
     terminateTask (buf (dp_tasks (dp s))) \<Longrightarrow> dp_step s (set_tasks b s)"
| dp_terminate: "direct_Terminate_begin ev (dp s) = Return (Proceed, ev', p) \<Longrightarrow> dp_step s (s\<lparr>dp := p\<rparr>)"
| dp_timeout: "lc_state (dp_lifecycle (dp s)) = Terminating \<Longrightarrow>
     owner_step (dp_tasks (dp s)) b \<Longrightarrow> submitted b = submitted (dp_tasks (dp s)) \<Longrightarrow>
     dp_step s (set_tasks b s)"

definition dp_init :: "backpressureConfiguration \<Rightarrow> nat \<Rightarrow> dp_sys" where
  "dp_init cfg bufferSize =
     \<lparr>dp = (direct_construct cfg bufferSize)\<lparr>dp_lifecycle := started None lifecycle_construct\<rparr>,
      accepted_msgs = [], processed = []\<rparr>"

section \<open>The invariant\<close>

lemma submit_call_eq:
  assumes "executor_open (dp_executor p)"
  shows "\<exists>ex. submit_call c p = p\<lparr>dp_executor := ex\<rparr> \<and> executor_open ex \<and> tasks ex = tasks (dp_executor p) @ [c]"
  using Submit_open [OF assms, of c] by (auto simp: submit_call_def)

lemma notifyReady_eq:
  assumes "executor_open (dp_executor p)"
  shows "\<exists>ex. notifyReady p = p\<lparr>dp_executor := ex\<rparr> \<and> executor_open ex"
proof (cases "readinessListener p")
  case True
  with submit_call_eq [OF assms] show ?thesis by (auto simp: notifyReady_def)
next
  case False
  then show ?thesis using assms by (intro exI [of _ "dp_executor p"]) (simp add: notifyReady_def)
qed

lemma send_finish_eq:
  assumes "executor_open (dp_executor p)" and "chan_recv (dp_buffer p) = Return (Some pub, c)"
  shows "\<exists>ex. send_finish msg errorInfo p = p\<lparr>dp_buffer := c, dp_executor := ex\<rparr> \<and> executor_open ex"
proof -
  let ?q = "p\<lparr>dp_buffer := c\<rparr>"
  let ?r = "case errorInfo of
      Some info \<Rightarrow> if publishFailureListener ?q
        then submit_call (FailureCall msg (Some (ToNativeError info ''encountered error while publishing message: ''))) ?q
        else ?q
    | None \<Rightarrow> ?q"
  have "\<exists>ex. ?r = ?q\<lparr>dp_executor := ex\<rparr> \<and> executor_open ex"
  proof (cases "errorInfo \<noteq> None \<and> publishFailureListener p")
    case True
    then obtain info where "errorInfo = Some info" by blast
    with True show ?thesis
      using submit_call_eq [of ?q "FailureCall msg (Some (ToNativeError info ''encountered error while publishing message: ''))"]
        assms(1) by auto
  next
    case False
    then show ?thesis
      using assms(1) by (intro exI [of _ "dp_executor p"]) (auto split: option.splits)
  qed
  then obtain ex where r: "?r = ?q\<lparr>dp_executor := ex\<rparr>" and ex: "executor_open ex" by blast
  obtain ex' where n: "notifyReady (?q\<lparr>dp_executor := ex\<rparr>) = ?q\<lparr>dp_executor := ex\<rparr>\<lparr>dp_executor := ex'\<rparr>"
    and ex': "executor_open ex'"
    using notifyReady_eq [of "?q\<lparr>dp_executor := ex\<rparr>"] ex by auto
  show ?thesis
    using assms(2) ex ex' n unfolding send_finish_def Let_def by (auto simp: r)
qed

abbreviation buffered :: "dp_sys \<Rightarrow> publishable list" where
  "buffered s \<equiv> chan_items (dp_buffer (dp s))"

abbreviation pending :: "dp_sys \<Rightarrow> publishable list" where
  "pending s \<equiv> held (buf_pc (dp_tasks (dp s))) @ chan_items (tb_channel (buf (dp_tasks (dp s))))"

definition dp_inv :: "nat \<Rightarrow> dp_sys \<Rightarrow> bool" where
  "dp_inv cap s \<longleftrightarrow>
     buf_inv (dp_tasks (dp s)) \<and> executor_open (dp_executor (dp s)) \<and>
     chan_open (dp_buffer (dp s)) \<and> chan_cap (dp_buffer (dp s)) = cap \<and>
     chan_cap (tb_channel (buf (dp_tasks (dp s)))) = cap \<and>
     accepted_msgs s = map fst (processed s) @ buffered s \<and>
     length (pending s) \<le> length (buffered s)"

definition tasks_agree :: "dp_sys \<Rightarrow> bool" where
  "tasks_agree s \<longleftrightarrow> terminateTask (buf (dp_tasks (dp s))) \<or>
     (\<exists>late. buffered s = pending s @ late \<and> (late \<noteq> [] \<longrightarrow> terminateComplete (buf (dp_tasks (dp s))))) \<and>
     (\<forall>(pub, msg, e) \<in> set (processed s). pub = msg)"

lemma dp_inv_init: "dp_inv cap (dp_init cfg cap)" "tasks_agree (dp_init cfg cap)"
proof -
  have "buf_inv (buf_init cap :: publishable buf_sys)" by (rule buf_inv_init)
  then show "dp_inv cap (dp_init cfg cap)"
    by (simp add: dp_inv_def dp_init_def direct_construct_def)
      (simp add: buf_init_def NewChannelBasedPublisherTaskBuffer_def make_chan_def)
  show "tasks_agree (dp_init cfg cap)"
    by (simp add: tasks_agree_def dp_init_def direct_construct_def buf_init_def
        NewChannelBasedPublisherTaskBuffer_def make_chan_def)
qed

text \<open>A message written to the buffer always finds room for its task while the goroutine runs.\<close>

lemma publish_buffered_cases:
  assumes "dp_inv cap s" and "(None, p) \<in> set (publish_buffered pub (dp s))"
  obtains c where "chan_send pub (dp_buffer (dp s)) = Return c"
    and "terminateComplete (buf (dp_tasks (dp s)))" and "p = (dp s)\<lparr>dp_buffer := c\<rparr>"
  | c d where "chan_send pub (dp_buffer (dp s)) = Return c"
    and "\<not> terminateComplete (buf (dp_tasks (dp s)))"
    and "chan_send pub (tb_channel (buf (dp_tasks (dp s)))) = Return d"
    and "p = (dp s)\<lparr>dp_buffer := c, dp_tasks := (dp_tasks (dp s))
        \<lparr>buf := (buf (dp_tasks (dp s)))\<lparr>tb_channel := d\<rparr>, submitted := submitted (dp_tasks (dp s)) @ [pub]\<rparr>\<rparr>"
proof -
  obtain c where c: "Inr c \<in> set (buffer_write pub (dp s))"
    and p: "p = (let p = (dp s)\<lparr>dp_buffer := c\<rparr>
               in case buffer_Submit pub (buf (dp_tasks p)) of
                    (True, b) \<Rightarrow> p\<lparr>dp_tasks := (dp_tasks p)\<lparr>buf := b, submitted := submitted (dp_tasks p) @ [pub]\<rparr>\<rparr>
                  | (False, b) \<Rightarrow> p)"
    using assms(2) by (auto simp: publish_buffered_def split: sum.splits)
  have send: "chan_send pub (dp_buffer (dp s)) = Return c"
    using c by (auto simp: buffer_write_def split: outcome.splits if_splits)
  show ?thesis
  proof (cases "terminateComplete (buf (dp_tasks (dp s)))")
    case True
    with p send that(1) [of c] show ?thesis by (simp add: buffer_Submit_def)
  next
    case False
    have "length (buffered s) < cap"
      using send assms(1) by (auto simp: chan_send_def dp_inv_def split: if_splits)
    then have "length (chan_items (tb_channel (buf (dp_tasks (dp s))))) < cap"
      using assms(1) by (simp add: dp_inv_def)
    then obtain d where "chan_send pub (tb_channel (buf (dp_tasks (dp s)))) = Return d"
      using assms(1) by (auto simp: chan_send_def dp_inv_def buf_inv_def chan_open_def)
    with False p send that(2) [of c d] show ?thesis by (simp add: buffer_Submit_def)
  qed
qed

lemma send_open_items:
  "chan_send x c = Return c' \<Longrightarrow> chan_open c \<Longrightarrow>
     chan_open c' \<and> chan_items c' = chan_items c @ [x] \<and> chan_cap c' = chan_cap c"
  by (auto simp: chan_send_def chan_open_def chan_wf_def split: if_splits)

lemma recv_open_items:
  "chan_recv c = Return (Some x, c') \<Longrightarrow> chan_open c \<Longrightarrow>
     chan_open c' \<and> chan_items c = x # chan_items c' \<and> chan_cap c' = chan_cap c"
  using chan_recv_Some [of c x c'] by (auto simp: chan_open_def chan_wf_def)

text \<open>What a step of the goroutine does to the pending tasks and to the capacity of the channel.\<close>

abbreviation pending_of :: "'t buf_sys \<Rightarrow> 't list" where
  "pending_of b \<equiv> held (buf_pc b) @ chan_items (tb_channel (buf b))"

lemma run_step_keeps:
  assumes "run_step b b'"
  shows "chan_cap (tb_channel (buf b')) = chan_cap (tb_channel (buf b)) \<and>
    terminateTask (buf b') = terminateTask (buf b) \<and>
    (terminateComplete (buf b) \<longrightarrow> terminateComplete (buf b'))"
  using assms by cases (auto simp: signal_close_def split: if_splits dest!: chan_recv_Some)

lemma run_step_running:
  assumes "run_step b b'" and "buf_pc b = BufRunning t"
  shows "held (buf_pc b') = [] \<and> buf b' = buf b"
  using assms by cases auto

lemma run_step_pending:
  assumes "run_step b b'" and "\<forall>t. buf_pc b \<noteq> BufRunning t" and "\<not> terminateUngraceful (buf b)"
  shows "pending_of b' = pending_of b"
  using assms by cases (auto dest!: chan_recv_Some)

lemma run_step_pending_length:
  assumes "run_step b b'" and "\<forall>t. buf_pc b \<noteq> BufRunning t"
  shows "length (pending_of b') \<le> length (pending_of b)"
  using assms by cases (auto dest!: chan_recv_Some)

lemma owner_step_signals:
  "owner_step b b' \<Longrightarrow> submitted b' = submitted b \<Longrightarrow>
     tb_channel (buf b') = tb_channel (buf b) \<and> buf_pc b' = buf_pc b \<and>
     terminateComplete (buf b') = terminateComplete (buf b) \<and>
     (terminateTask (buf b) \<longrightarrow> terminateTask (buf b'))"
  by (induction rule: owner_step.induct)
    (auto simp: Terminate_begin_def close_terminateTask_def close_terminateUngraceful_def signal_close_def
      split: if_splits)

lemma direct_Terminate_begin_eq:
  assumes "direct_Terminate_begin ev p = Return (Proceed, ev', p')"
  shows "\<exists>l c b. p' = p\<lparr>dp_lifecycle := l, dp_interrupt := c, dp_tasks := b\<rparr> \<and>
    (b = dp_tasks p \<or> owner_step (dp_tasks p) b \<and> submitted b = submitted (dp_tasks p)) \<and>
    lc_state l = Terminating"
proof -
  obtain l where l: "publisher_terminate (dp_lifecycle p) = (Proceed, l)"
    using assms by (auto simp: direct_Terminate_begin_def split: prod.splits proceed.splits)
  have st: "lc_state l = Terminating"
    using publife.terminate_proceeds [of "dp_lifecycle p"] publife.terminate_state [of "dp_lifecycle p"] l by simp
  show ?thesis
  proof (cases "dp_config p = backpressureConfigurationDirect")
    case True
    with assms l st show ?thesis
      by (intro exI [of _ l] exI [of _ "dp_interrupt p"] exI [of _ "dp_tasks p"])
        (auto simp: direct_Terminate_begin_def Let_def)
  next
    case False
    then obtain c b where b: "Terminate_begin (buf (dp_tasks p)) = Return b"
      and p': "p' = p\<lparr>dp_lifecycle := l, dp_interrupt := c, dp_tasks := (dp_tasks p)\<lparr>buf := b\<rparr>\<rparr>"
      using assms l by (auto simp: direct_Terminate_begin_def Let_def outcome_bind_Return)
    have "owner_step (dp_tasks p) ((dp_tasks p)\<lparr>buf := b\<rparr>)" using b by (rule owner_terminate)
    with p' st show ?thesis by (intro exI [of _ l] exI [of _ c] exI [of _ "(dp_tasks p)\<lparr>buf := b\<rparr>"]) simp
  qed
qed

lemma dp_inv_tasks:
  assumes "dp_inv cap s" and "buf_inv b" and "chan_cap (tb_channel (buf b)) = cap"
    and "length (held (buf_pc b) @ chan_items (tb_channel (buf b))) \<le> length (buffered s)"
  shows "dp_inv cap (set_tasks b s)"
  using assms by (simp add: dp_inv_def set_tasks_def)

lemma dp_step_inv: "dp_step s s' \<Longrightarrow> dp_inv cap s \<Longrightarrow> dp_inv cap s'"
proof (induction rule: dp_step.induct)
  case (dp_publish s p pub)
  from dp_publish.prems dp_publish.hyps(2) show ?case
  proof (cases rule: publish_buffered_cases)
    case (1 c)
    with dp_publish.prems send_open_items [of pub "dp_buffer (dp s)" c] show ?thesis
      by (simp add: dp_inv_def)
  next
    case (2 c d)
    have "owner_step (dp_tasks (dp s)) ((dp_tasks (dp s))\<lparr>buf := (buf (dp_tasks (dp s)))\<lparr>tb_channel := d\<rparr>,
        submitted := submitted (dp_tasks (dp s)) @ [pub]\<rparr>)"
      using 2 by (intro owner_submit) (simp add: buffer_Submit_def)
    then have "buf_inv ((dp_tasks (dp s))\<lparr>buf := (buf (dp_tasks (dp s)))\<lparr>tb_channel := d\<rparr>,
        submitted := submitted (dp_tasks (dp s)) @ [pub]\<rparr>)"
      using dp_publish.prems by (auto simp: dp_inv_def intro: owner_step_inv)
    with 2 dp_publish.prems send_open_items [of pub "dp_buffer (dp s)" c]
      send_open_items [of pub "tb_channel (buf (dp_tasks (dp s)))" d] show ?thesis
      by (simp add: dp_inv_def buf_inv_def)
  qed
next
  case (dp_run s b)
  then have inv: "buf_inv (dp_tasks (dp s))" by (simp add: dp_inv_def)
  have "length (pending_of b) \<le> length (pending s)"
    using run_step_pending_length [OF dp_run.hyps] .
  with dp_run.prems show ?case
    using run_step_keeps [OF dp_run.hyps(1)] run_step_inv [OF dp_run.hyps(1) inv]
    by (intro dp_inv_tasks) (auto simp: dp_inv_def)
next
  case (dp_task_end s msg b pub c errorInfo)
  then have inv: "buf_inv (dp_tasks (dp s))" "executor_open (dp_executor (dp s))" "chan_open (dp_buffer (dp s))"
    by (simp_all add: dp_inv_def)
  obtain ex where ex: "send_finish msg errorInfo (dp s) = (dp s)\<lparr>dp_buffer := c, dp_executor := ex\<rparr>" "executor_open ex"
    using send_finish_eq [OF inv(2) dp_task_end.hyps(3)] by blast
  have "held (buf_pc b) = []" and "buf b = buf (dp_tasks (dp s))"
    using run_step_running [OF dp_task_end.hyps(2,1)] by simp_all
  with dp_task_end ex recv_open_items [OF dp_task_end.hyps(3) inv(3)] run_step_inv [OF dp_task_end.hyps(2) inv(1)]
  show ?case by (simp add: dp_inv_def set_tasks_def)
next
  case (dp_task_interrupted s msg b)
  then have inv: "buf_inv (dp_tasks (dp s))" by (simp add: dp_inv_def)
  have "held (buf_pc b) = []" and "buf b = buf (dp_tasks (dp s))"
    using run_step_running [OF dp_task_interrupted.hyps(2,1)] by simp_all
  with dp_task_interrupted run_step_inv [OF dp_task_interrupted.hyps(2) inv] show ?case
    by (intro dp_inv_tasks) (simp_all add: dp_inv_def)
next
  case (dp_terminate ev s ev' p)
  obtain l c b where p: "p = (dp s)\<lparr>dp_lifecycle := l, dp_interrupt := c, dp_tasks := b\<rparr>"
    and b: "b = dp_tasks (dp s) \<or> owner_step (dp_tasks (dp s)) b \<and> submitted b = submitted (dp_tasks (dp s))"
    using direct_Terminate_begin_eq [OF dp_terminate.hyps] by blast
  then have "buf_inv b" "tb_channel (buf b) = tb_channel (buf (dp_tasks (dp s)))" "buf_pc b = buf_pc (dp_tasks (dp s))"
    using dp_terminate.prems owner_step_inv [of "dp_tasks (dp s)" b] owner_step_signals [of "dp_tasks (dp s)" b]
    by (auto simp: dp_inv_def)
  with dp_terminate.prems p show ?case by (simp add: dp_inv_def)
next
  case (dp_timeout s b)
  with owner_step_signals [OF dp_timeout.hyps(2,3)] owner_step_inv [OF dp_timeout.hyps(2)] show ?case
    by (intro dp_inv_tasks) (simp_all add: dp_inv_def)
qed

lemma tasks_agree_signals:
  assumes "tasks_agree s" and "tb_channel (buf b) = tb_channel (buf (dp_tasks (dp s)))"
    and "buf_pc b = buf_pc (dp_tasks (dp s))"
    and "terminateComplete (buf b) = terminateComplete (buf (dp_tasks (dp s)))"
    and "terminateTask (buf (dp_tasks (dp s))) \<longrightarrow> terminateTask (buf b)"
    and "dp_tasks (dp s') = b" and "dp_buffer (dp s') = dp_buffer (dp s)" and "processed s' = processed s"
  shows "tasks_agree s'"
  using assms by (auto simp: tasks_agree_def)

lemma dp_step_agree: "dp_step s s' \<Longrightarrow> dp_inv cap s \<Longrightarrow> tasks_agree s \<Longrightarrow> tasks_agree s'"
proof (induction rule: dp_step.induct)
  case (dp_publish s p pub)
  from dp_publish.prems(1) dp_publish.hyps(2) show ?case
  proof (cases rule: publish_buffered_cases)
    case (1 c)
    with dp_publish.prems send_open_items [of pub "dp_buffer (dp s)" c] show ?thesis
      by (auto simp: tasks_agree_def dp_inv_def)
  next
    case (2 c d)
    with dp_publish.prems send_open_items [of pub "dp_buffer (dp s)" c]
      send_open_items [of pub "tb_channel (buf (dp_tasks (dp s)))" d] show ?thesis
      by (auto simp: tasks_agree_def dp_inv_def buf_inv_def)
  qed
next
  case (dp_run s b)
  then have inv: "buf_inv (dp_tasks (dp s))" by (simp add: dp_inv_def)
  show ?case
  proof (cases "terminateTask (buf (dp_tasks (dp s)))")
    case True
    then show ?thesis
      using run_step_keeps [OF dp_run.hyps(1)] by (simp add: tasks_agree_def set_tasks_def)
  next
    case False
    then have "\<not> terminateUngraceful (buf (dp_tasks (dp s)))" using inv by (auto simp: buf_inv_def)
    then have eq: "pending_of b = pending s" by (rule run_step_pending [OF dp_run.hyps])
    from dp_run.prems(2) False obtain late where "buffered s = pending s @ late"
      "late \<noteq> [] \<longrightarrow> terminateComplete (buf (dp_tasks (dp s)))" "\<forall>(pub, msg, e) \<in> set (processed s). pub = msg"
      unfolding tasks_agree_def by blast
    then have "buffered s = pending_of b @ late" "late \<noteq> [] \<longrightarrow> terminateComplete (buf b)"
      using eq run_step_keeps [OF dp_run.hyps(1)] by simp_all
    with \<open>\<forall>(pub, msg, e) \<in> set (processed s). pub = msg\<close> show ?thesis
      unfolding tasks_agree_def set_tasks_def by auto
  qed
next
  case (dp_task_end s msg b pub c errorInfo)
  then have inv: "buf_inv (dp_tasks (dp s))" "executor_open (dp_executor (dp s))" "chan_open (dp_buffer (dp s))"
    by (simp_all add: dp_inv_def)
  obtain ex where ex: "send_finish msg errorInfo (dp s) = (dp s)\<lparr>dp_buffer := c, dp_executor := ex\<rparr>" "executor_open ex"
    using send_finish_eq [OF inv(2) dp_task_end.hyps(3)] by blast
  have "held (buf_pc b) = []" and "buf b = buf (dp_tasks (dp s))"
    using run_step_running [OF dp_task_end.hyps(2,1)] by simp_all
  with dp_task_end ex recv_open_items [OF dp_task_end.hyps(3) inv(3)] show ?case
    by (auto simp: tasks_agree_def set_tasks_def)
next
  case (dp_task_interrupted s msg b)
  then have inv: "buf_inv (dp_tasks (dp s))" by (simp add: dp_inv_def)
  then show ?case
    using run_step_keeps [OF dp_task_interrupted.hyps(2)] dp_task_interrupted.hyps(3)
    by (simp add: tasks_agree_def set_tasks_def)
next
  case (dp_terminate ev s ev' p)
  obtain l c b where p: "p = (dp s)\<lparr>dp_lifecycle := l, dp_interrupt := c, dp_tasks := b\<rparr>"
    and b: "b = dp_tasks (dp s) \<or> owner_step (dp_tasks (dp s)) b \<and> submitted b = submitted (dp_tasks (dp s))"
    using direct_Terminate_begin_eq [OF dp_terminate.hyps] by blast
  with owner_step_signals [of "dp_tasks (dp s)" b] show ?case
    by (intro tasks_agree_signals [OF dp_terminate.prems(2), of b]) auto
next
  case (dp_timeout s b)
  with owner_step_signals [OF dp_timeout.hyps(2,3)] show ?case
    by (intro tasks_agree_signals [OF dp_timeout.prems(2), of b]) (auto simp: set_tasks_def)
qed

lemma dp_steps_inv:
  "dp_step\<^sup>*\<^sup>* (dp_init cfg cap) s \<Longrightarrow> dp_inv cap s \<and> tasks_agree s"
  by (induction rule: rtranclp_induct) (auto intro: dp_inv_init dp_step_inv dp_step_agree)

section \<open>Properties\<close>

text \<open>
  C1. Message accounting of a buffered direct publisher, in every interleaving of publishing callers,
  the sending goroutine and a termination: the accepted messages are, in order, those removed by
  finished tasks and those still buffered; a message that is written to the buffer always gets its
  task as long as the goroutine has not returned; and until the tasks are told to stop, every
  finished task removes exactly its own message, and the buffer holds exactly the messages of the
  pending tasks, followed by messages that came after the goroutine had returned.
\<close>

theorem direct_publisher_accounting:
  assumes "dp_step\<^sup>*\<^sup>* (dp_init cfg cap) s"
  shows "accepted_msgs s = map fst (processed s) @ buffered s \<and>
    (\<forall>pub p. (None, p) \<in> set (publish_buffered pub (dp s)) \<longrightarrow> \<not> terminateComplete (buf (dp_tasks (dp s))) \<longrightarrow>
       submitted (dp_tasks p) = submitted (dp_tasks (dp s)) @ [pub]) \<and>
    (\<not> terminateTask (buf (dp_tasks (dp s))) \<longrightarrow>
       (\<forall>(pub, msg, e) \<in> set (processed s). pub = msg) \<and>
       (\<exists>late. buffered s = pending s @ late \<and> (late \<noteq> [] \<longrightarrow> terminateComplete (buf (dp_tasks (dp s))))))"
proof -
  have inv: "dp_inv cap s" and agree: "tasks_agree s" using dp_steps_inv [OF assms] by simp_all
  have "submitted (dp_tasks p) = submitted (dp_tasks (dp s)) @ [pub]"
    if "(None, p) \<in> set (publish_buffered pub (dp s))" "\<not> terminateComplete (buf (dp_tasks (dp s)))" for pub p
    using inv that(1) by (cases rule: publish_buffered_cases) (use that(2) in simp_all)
  moreover have "accepted_msgs s = map fst (processed s) @ buffered s" using inv by (simp add: dp_inv_def)
  ultimately show ?thesis using agree unfolding tasks_agree_def by blast
qed

lemma publish_first:
  "cfg \<noteq> backpressureConfigurationDirect \<Longrightarrow> 0 < cap \<Longrightarrow>
     \<exists>p. (None, p) \<in> set (publish_buffered pub (dp (dp_init cfg cap))) \<and> chan_items (dp_buffer p) = [pub]"
  by (auto simp: publish_buffered_def buffer_write_def dp_init_def direct_construct_def make_chan_def chan_send_def
      buffer_Submit_def buf_init_def NewChannelBasedPublisherTaskBuffer_def)

theorem direct_publisher_accounting_witness:
  "\<exists>s. dp_step\<^sup>*\<^sup>* (dp_init backpressureConfigurationWait 2) s \<and>
     buffered s = [\<lparr>pub_message = 7, pub_destination = ''t''\<rparr>] \<and>
     accepted_msgs s = map fst (processed s) @ buffered s"
proof -
  let ?pub = "\<lparr>pub_message = 7, pub_destination = ''t''\<rparr>" and ?i = "dp_init backpressureConfigurationWait 2"
  obtain p where p: "(None, p) \<in> set (publish_buffered ?pub (dp ?i))" "chan_items (dp_buffer p) = [?pub]"
    using publish_first [of backpressureConfigurationWait 2 ?pub] by auto
  have "dp_step ?i (?i\<lparr>dp := p, accepted_msgs := accepted_msgs ?i @ [?pub]\<rparr>)"
    using p(1) by (intro dp_publish) (simp_all add: dp_init_def direct_construct_def)
  then have "dp_step\<^sup>*\<^sup>* ?i (?i\<lparr>dp := p, accepted_msgs := accepted_msgs ?i @ [?pub]\<rparr>)" by (rule r_into_rtranclp)
  with direct_publisher_accounting [OF this] p(2) show ?thesis
    by (intro exI [of _ "?i\<lparr>dp := p, accepted_msgs := accepted_msgs ?i @ [?pub]\<rparr>"]) simp
qed

lemma drainQueue_silent:
  "chan_open (dp_buffer p) \<Longrightarrow> drainQueue err False p =
     Return (length (chan_items (dp_buffer p)),
       p\<lparr>dp_buffer := (dp_buffer p)\<lparr>chan_closed := True, chan_items := []\<rparr>\<rparr>)"
  by (simp add: drainQueue_def chan_close_def chan_range_def chan_open_def)

text \<open>
  C22. Termination reports what was not sent. Once the task buffer has completed, the final part of
  the termination returns with the publisher terminated; the accepted messages are exactly the
  processed ones plus the number it adds to the discarded metric; it returns the
  incomplete-delivery error with that number, and no error exactly when nothing was left;
  and every later publish is refused as terminated.
\<close>

theorem direct_termination_accounts:
  assumes "dp_step\<^sup>*\<^sup>* (dp_init cfg cap) s" and "dp_config (dp s) \<noteq> backpressureConfigurationDirect"
    and "terminateComplete (buf (dp_tasks (dp s)))"
  shows "\<exists>err p. direct_Terminate_end ev (dp s) = Return (err, ev, p) \<and> IsTerminated (dp_lifecycle p) \<and>
    future_Get (terminateFuture (dp_lifecycle p)) = Return err \<and>
    length (accepted_msgs s) = length (processed s) + length (buffered s) \<and>
    terminationDiscarded p = terminationDiscarded (dp s) + length (buffered s) \<and>
    err = (if buffered s = [] then None else Some (IncompleteDelivery (length (buffered s)))) \<and>
    publish None sent pub p = [(Some AlreadyTerminated, p)]"
proof -
  have inv: "dp_inv cap s" using dp_steps_inv [OF assms(1)] by simp
  let ?n = "length (buffered s)"
  let ?q = "(dp s)\<lparr>dp_buffer := (dp_buffer (dp s))\<lparr>chan_closed := True, chan_items := []\<rparr>\<rparr>"
  obtain err q where q: "undelivered_error ?n ?q = (err, q)" by (cases "undelivered_error ?n ?q")
  have "executor_open (dp_executor q)"
    using inv q by (auto simp: undelivered_error_def dp_inv_def split: if_splits)
  then obtain ex where ex: "Terminate (dp_executor q) = Return ex" using Terminate_open by blast
  let ?p = "q\<lparr>dp_executor := ex, dp_lifecycle := terminated err (dp_lifecycle q)\<rparr>"
  have "drainQueue None False (dp s) = Return (?n, ?q)"
    using inv by (intro drainQueue_silent) (simp add: dp_inv_def)
  then have "direct_Terminate_end ev (dp s) = Return (err, ev, ?p)"
    using assms(2) q ex by (simp add: direct_Terminate_end_def direct_finish_def)
  moreover have "length (accepted_msgs s) = length (processed s) + ?n"
    using inv by (simp add: dp_inv_def)
  moreover have "terminationDiscarded ?p = terminationDiscarded (dp s) + ?n \<and>
      err = (if buffered s = [] then None else Some (IncompleteDelivery ?n))"
    using q by (auto simp: undelivered_error_def split: if_splits)
  moreover have "publish None sent pub ?p = [(Some AlreadyTerminated, ?p)]"
    by (simp add: publish_def checkStartedStateForPublish_def terminated_def AlreadyTerminated_def)
  ultimately show ?thesis by (intro exI [of _ err] exI [of _ ?p]) (simp add: IsTerminated_def terminated_def)
qed

text \<open>The first steps of a termination of an idle publisher.\<close>

lemma idle_termination:
  "\<exists>s. dp_step\<^sup>*\<^sup>* (dp_init backpressureConfigurationWait cap) s \<and> buffered s = [] \<and>
     dp_config (dp s) = backpressureConfigurationWait \<and> terminateComplete (buf (dp_tasks (dp s)))"
proof -
  let ?i = "dp_init backpressureConfigurationWait cap"
  let ?l = "(started None lifecycle_construct)\<lparr>lc_state := Terminating\<rparr>"
  let ?b0 = "(buf_init cap :: publishable buf_sys)\<lparr>buf := (NewChannelBasedPublisherTaskBuffer cap)\<lparr>terminateGraceful := True\<rparr>\<rparr>"
  let ?s0 = "?i\<lparr>dp := (dp ?i)\<lparr>dp_lifecycle := ?l, dp_interrupt := True, dp_tasks := ?b0\<rparr>\<rparr>"
  have "direct_Terminate_begin newCcsmpEvents (dp ?i) =
      Return (Proceed, RemoveEventHandler 0 newCcsmpEvents, dp ?s0)"
    by (simp add: direct_Terminate_begin_def publisher_terminate_def terminate_def dp_init_def direct_construct_def
        started_def lifecycle_construct_def CompareAndSwap_def signal_close_def Terminate_begin_def buf_init_def
        NewChannelBasedPublisherTaskBuffer_def)
  then have 0: "dp_step ?i ?s0" using dp_terminate [of newCcsmpEvents ?i] by fastforce
  let ?b1 = "?b0\<lparr>buf_pc := BufFetch\<rparr>" and ?b2 = "?b0\<lparr>buf_pc := BufClosing\<rparr>"
  let ?b3 = "?b2\<lparr>buf_pc := BufExit, buf := (buf ?b2)\<lparr>terminateComplete := True\<rparr>\<rparr>"
  have r1: "run_step ?b0 ?b1" by (rule top_continue) (simp_all add: buf_init_def NewChannelBasedPublisherTaskBuffer_def)
  have "run_step ?b1 (?b1\<lparr>buf_pc := BufClosing\<rparr>)"
    by (rule fetch_drained) (simp_all add: NewChannelBasedPublisherTaskBuffer_def chan_recv_def make_chan_def)
  then have r2: "run_step ?b1 ?b2" by simp
  have r3: "run_step ?b2 ?b3"
    by (rule close_complete) (simp_all add: NewChannelBasedPublisherTaskBuffer_def signal_close_def)
  have 1: "dp_step ?s0 (set_tasks ?b1 ?s0)" using r1 by (intro dp_run) (simp_all add: buf_init_def)
  have 2: "dp_step (set_tasks ?b1 ?s0) (set_tasks ?b2 (set_tasks ?b1 ?s0))"
    using r2 by (intro dp_run) (simp_all add: set_tasks_def)
  have 3: "dp_step (set_tasks ?b2 (set_tasks ?b1 ?s0)) (set_tasks ?b3 (set_tasks ?b2 (set_tasks ?b1 ?s0)))"
    using r3 by (intro dp_run) (simp_all add: set_tasks_def)
  from 0 1 2 3 have "dp_step\<^sup>*\<^sup>* ?i (set_tasks ?b3 (set_tasks ?b2 (set_tasks ?b1 ?s0)))"
    by (meson converse_rtranclp_into_rtranclp rtranclp.rtrancl_refl)
  then show ?thesis
    by (intro exI [of _ "set_tasks ?b3 (set_tasks ?b2 (set_tasks ?b1 ?s0))"])
      (simp add: set_tasks_def dp_init_def direct_construct_def make_chan_def)
qed

theorem direct_termination_accounts_witness:
  "\<exists>s p. dp_step\<^sup>*\<^sup>* (dp_init backpressureConfigurationWait 5) s \<and>
     direct_Terminate_end newCcsmpEvents (dp s) = Return (None, newCcsmpEvents, p) \<and> IsTerminated (dp_lifecycle p)"
proof -
  obtain s where s: "dp_step\<^sup>*\<^sup>* (dp_init backpressureConfigurationWait 5) s" "buffered s = []"
    "dp_config (dp s) = backpressureConfigurationWait" "terminateComplete (buf (dp_tasks (dp s)))"
    using idle_termination by blast
  have "dp_config (dp s) \<noteq> backpressureConfigurationDirect" using s(3) by simp
  from direct_termination_accounts [OF s(1) this s(4), of newCcsmpEvents None "undefined"] s(1,2) show ?thesis
    by (intro exI [of _ s]) auto
qed

text \<open>
  The reject strategy: on a started rejecting publisher whose buffer is open, a publish returns at
  once; it is accepted, with the message at the end of the buffer, exactly when the publisher reports
  itself ready, and otherwise refused with the overflow error and no change.
\<close>

theorem publish_reject_ready:
  assumes "dp_config p = backpressureConfigurationReject" and "IsRunning (dp_lifecycle p)"
    and "chan_open (dp_buffer p)"
  shows "if IsReady p
    then \<exists>p'. publish None sent pub p = [(None, p')] \<and>
           chan_items (dp_buffer p') = chan_items (dp_buffer p) @ [pub]
    else publish None sent pub p = [(Some Overflow, p)]"
proof (cases "IsReady p")
  case True
  then have "length (chan_items (dp_buffer p)) < chan_cap (dp_buffer p)"
    using assms by (auto simp: IsReady_def chan_len_def chan_open_def chan_wf_def)
  then have "buffer_write pub p = [Inr ((dp_buffer p)\<lparr>chan_items := chan_items (dp_buffer p) @ [pub]\<rparr>)]"
    using assms by (simp add: buffer_write_def chan_send_def chan_open_def)
  moreover have "checkStartedStateForPublish (dp_lifecycle p) = None" using assms(2) by (simp add: IsRunning_def)
  ultimately show ?thesis
    using True assms(1) by (auto simp: publish_def publish_buffered_def Let_def split: prod.splits bool.splits)
next
  case False
  then have "\<not> length (chan_items (dp_buffer p)) < chan_cap (dp_buffer p)"
    using assms by (auto simp: IsReady_def chan_len_def)
  then have "buffer_write pub p = [Inl Overflow]"
    using assms by (simp add: buffer_write_def chan_send_def chan_open_def)
  moreover have "checkStartedStateForPublish (dp_lifecycle p) = None" using assms(2) by (simp add: IsRunning_def)
  ultimately show ?thesis using False assms(1) by (simp add: publish_def publish_buffered_def)
qed

theorem publish_reject_ready_witness:
  "publish None None \<lparr>pub_message = 1, pub_destination = ''t''\<rparr>
     ((direct_construct backpressureConfigurationReject 1)\<lparr>dp_lifecycle := started None lifecycle_construct,
       dp_buffer := \<lparr>chan_items = [\<lparr>pub_message = 0, pub_destination = ''t''\<rparr>], chan_cap = 1, chan_closed = False\<rparr>\<rparr>) =
   [(Some Overflow, (direct_construct backpressureConfigurationReject 1)\<lparr>dp_lifecycle := started None lifecycle_construct,
       dp_buffer := \<lparr>chan_items = [\<lparr>pub_message = 0, pub_destination = ''t''\<rparr>], chan_cap = 1, chan_closed = False\<rparr>\<rparr>)]"
  using publish_reject_ready [of "(direct_construct backpressureConfigurationReject 1)
     \<lparr>dp_lifecycle := started None lifecycle_construct,
       dp_buffer := \<lparr>chan_items = [\<lparr>pub_message = 0, pub_destination = ''t''\<rparr>], chan_cap = 1, chan_closed = False\<rparr>\<rparr>"
      None "\<lparr>pub_message = 1, pub_destination = ''t''\<rparr>"]
  by (simp add: direct_construct_def IsRunning_def started_def IsReady_def chan_len_def chan_open_def chan_wf_def)

lemma fold_submit_calls:
  "executor_open (dp_executor p) \<Longrightarrow>
     \<exists>ex. fold (\<lambda>pub. submit_call (FailureCall pub err)) pubs p = p\<lparr>dp_executor := ex\<rparr> \<and> executor_open ex \<and>
       tasks ex = tasks (dp_executor p) @ map (\<lambda>pub. FailureCall pub err) pubs"
proof (induction pubs arbitrary: p)
  case Nil
  then show ?case by (intro exI [of _ "dp_executor p"]) simp
next
  case (Cons pub pubs)
  obtain ex where ex: "submit_call (FailureCall pub err) p = p\<lparr>dp_executor := ex\<rparr>" "executor_open ex"
    "tasks ex = tasks (dp_executor p) @ [FailureCall pub err]"
    using submit_call_eq [OF Cons.prems] by blast
  then obtain ex' where "fold (\<lambda>pub. submit_call (FailureCall pub err)) pubs (p\<lparr>dp_executor := ex\<rparr>) =
      p\<lparr>dp_executor := ex\<rparr>\<lparr>dp_executor := ex'\<rparr>" "executor_open ex'"
      "tasks ex' = tasks ex @ map (\<lambda>pub. FailureCall pub err) pubs"
    using Cons.IH [of "p\<lparr>dp_executor := ex\<rparr>"] by auto
  with ex show ?case by (intro exI [of _ ex']) simp
qed

lemma drainQueue_listener:
  assumes "executor_open (dp_executor p)" and "chan_open (dp_buffer p)"
  shows "\<exists>ex. drainQueue err True p =
      Return (length (chan_items (dp_buffer p)),
        p\<lparr>dp_buffer := (dp_buffer p)\<lparr>chan_closed := True, chan_items := []\<rparr>, dp_executor := ex\<rparr>) \<and>
    executor_open ex \<and>
    tasks ex = tasks (dp_executor p) @ map (\<lambda>pub. FailureCall pub err) (chan_items (dp_buffer p))"
proof -
  let ?q = "p\<lparr>dp_buffer := (dp_buffer p)\<lparr>chan_closed := True, chan_items := []\<rparr>\<rparr>"
  obtain ex where "fold (\<lambda>pub. submit_call (FailureCall pub err)) (chan_items (dp_buffer p)) ?q = ?q\<lparr>dp_executor := ex\<rparr>"
    "executor_open ex" "tasks ex = tasks (dp_executor p) @ map (\<lambda>pub. FailureCall pub err) (chan_items (dp_buffer p))"
    using fold_submit_calls [of ?q err "chan_items (dp_buffer p)"] assms(1) by auto
  with assms(2) show ?thesis
    by (intro exI [of _ ex]) (simp add: drainQueue_def chan_close_def chan_range_def chan_open_def)
qed

text \<open>
  A down event loses nothing silently. The unsolicited termination of a started buffered publisher
  with a failure listener queues one failure call for every message left in the buffer, in order and
  with the error of the event, adds their number to the discarded metric, and leaves the publisher
  terminated; a second down event or a later termination finds nothing to do.
\<close>

theorem unsolicited_termination_reports:
  assumes "dp_config p \<noteq> backpressureConfigurationDirect" and "IsRunning (dp_lifecycle p)"
    and "chan_open (dp_buffer p)" and "executor_open (dp_executor p)" and "publishFailureListener p"
    and "\<not> dp_interrupt p" and "buf (dp_tasks p) = (NewChannelBasedPublisherTaskBuffer cap)\<lparr>tb_channel := c\<rparr>"
  shows "\<exists>ev' p'. unsolicitedTermination downErr ev p = Return (if terminationListener p then [downErr] else [], ev', p') \<and>
    tasks (dp_executor p') = tasks (dp_executor p) @ map (\<lambda>pub. FailureCall pub downErr) (chan_items (dp_buffer p)) \<and>
    terminationDiscarded p' = terminationDiscarded p + length (chan_items (dp_buffer p)) \<and>
    IsTerminated (dp_lifecycle p') \<and> terminateTask (buf (dp_tasks p')) \<and>
    unsolicitedTermination downErr' ev' p' = Return ([], ev', p')"
proof -
  let ?n = "length (chan_items (dp_buffer p))"
  let ?b = "(buf (dp_tasks p))\<lparr>terminateGraceful := True, terminateTask := True, terminateUngraceful := True\<rparr>"
  let ?l = "(dp_lifecycle p)\<lparr>lc_state := Terminating\<rparr>"
  let ?p1 = "p\<lparr>dp_lifecycle := ?l, dp_interrupt := True, dp_tasks := (dp_tasks p)\<lparr>buf := ?b\<rparr>\<rparr>"
  have t: "publisher_terminate (dp_lifecycle p) = (Proceed, ?l)"
    using assms(2) by (simp add: publisher_terminate_def terminate_def IsRunning_def)
  have now: "TerminateNow (buf (dp_tasks p)) = Return ?b"
    using assms(7) by (simp add: TerminateNow_def Terminate_begin_def Terminate_timeout_def close_terminateTask_def
        close_terminateUngraceful_def signal_close_def NewChannelBasedPublisherTaskBuffer_def)
  obtain ex where d: "drainQueue downErr True ?p1 =
      Return (?n, ?p1\<lparr>dp_buffer := (dp_buffer p)\<lparr>chan_closed := True, chan_items := []\<rparr>, dp_executor := ex\<rparr>)"
    and ex: "executor_open ex"
      "tasks ex = tasks (dp_executor p) @ map (\<lambda>pub. FailureCall pub downErr) (chan_items (dp_buffer p))"
    using drainQueue_listener [of ?p1 downErr] assms(3,4) by auto
  let ?p2 = "?p1\<lparr>dp_buffer := (dp_buffer p)\<lparr>chan_closed := True, chan_items := []\<rparr>, dp_executor := ex\<rparr>"
  obtain err p3 where u: "undelivered_error ?n ?p2 = (err, p3)" by (cases "undelivered_error ?n ?p2")
  have p3: "p3 = ?p2\<lparr>terminationDiscarded := terminationDiscarded p + ?n\<rparr>"
    using u by (auto simp: undelivered_error_def split: if_splits)
  obtain ex' where ex': "Terminate ex = Return ex'" "tasks ex' = tasks ex" using Terminate_open [OF ex(1)] by blast
  let ?p4 = "p3\<lparr>dp_executor := ex', dp_lifecycle := terminated err (dp_lifecycle p3)\<rparr>"
  let ?ev = "RemoveEventHandler (downEventHandlerID p) ev"
  have "unsolicitedTermination downErr ev p = Return (if terminationListener p then [downErr] else [], ?ev, ?p4)"
    using assms(1,5,6) t now d u ex' p3
    by (simp add: unsolicitedTermination_def signal_close_def direct_finish_def Let_def)
  moreover have "unsolicitedTermination downErr' ?ev ?p4 = Return ([], ?ev, ?p4)"
    by (simp add: unsolicitedTermination_def publisher_terminate_def terminate_def terminated_def Let_def)
  ultimately show ?thesis
    using ex(2) ex'(2) p3 by (intro exI [of _ ?ev] exI [of _ ?p4]) (simp add: IsTerminated_def terminated_def)
qed

theorem unsolicited_termination_reports_witness:
  "\<exists>ev' p'. unsolicitedTermination None newCcsmpEvents
     ((dp (dp_init backpressureConfigurationWait 3))\<lparr>publishFailureListener := True\<rparr>) = Return ([], ev', p') \<and>
     IsTerminated (dp_lifecycle p')"
  using unsolicited_termination_reports [of "(dp (dp_init backpressureConfigurationWait 3))\<lparr>publishFailureListener := True\<rparr>"
      "make_chan 3" 3 None newCcsmpEvents None]
  by (auto simp: dp_init_def direct_construct_def IsRunning_def started_def buf_init_def
      NewChannelBasedPublisherTaskBuffer_def)

end
