(* ===== verification/SDT.thy ===== *)
theory SDT
  imports Go_Strconv
begin

text \<open>
  Structured data (\<^verbatim>\<open>pkg/solace/message/sdt/structured_data_types.go\<close>): the dynamically typed values of
  maps and streams, their conversions and the getters. Values are tagged with their Go type; integers
  are words of their width, floating-point values their bit patterns, and the library's \<^verbatim>\<open>ParseFloat\<close>
  is an argument of the conversions that use it. The integer conversions go through the decimal text
  and \<^verbatim>\<open>strconv\<close>, as in the source.
\<close>

section \<open>Data\<close>

datatype queue = Queue (queue_name: string) (queue_exclusive: bool) (queue_durable: bool)

datatype sdt_data =
    SNil
  | SBool bool
  | SInt u64 | SInt8 u8 | SInt16 u16 | SInt32 u32 | SInt64 u64
  | SUint u64 | SUint8 u8 | SUint16 u16 | SUint32 u32 | SUint64 u64
  | SFloat32 u32 | SFloat64 u64
  | SString string
  | SWChar u16
  | SBytes "u8 list"
  | SMap "(string \<times> sdt_data) list"
  | SStream "sdt_data list"
  | SQueue queue
  | STopic string
  | SOther string

type_synonym sdt_map = "(string \<times> sdt_data) list"

datatype destination = QueueDestination queue | TopicDestination string

text \<open>
  The message of a conversion error: which of the texts of the source, with the desired type; the
  data is part of the error, and a nested error comes from \<^verbatim>\<open>strconv\<close>.
\<close>

datatype conversion_text =
    CannotConvert string
  | CannotConvertNested string num_error
  | CannotConvertBoolString
  | CannotConvertStringOfLength nat

datatype sdt_error =
    KeyNotFoundError string
  | OutOfBoundsError int
  | FormatConversionError conversion_text sdt_data

definition defaultFormatConversionError :: "sdt_data \<Rightarrow> string \<Rightarrow> sdt_error" where
  "defaultFormatConversionError data desiredType = FormatConversionError (CannotConvert desiredType) data"

definition nestedFormatConversionError :: "sdt_data \<Rightarrow> string \<Rightarrow> num_error \<Rightarrow> sdt_error" where
  "nestedFormatConversionError data desiredType nested =
     FormatConversionError (CannotConvertNested desiredType nested) data"

section \<open>Conversions\<close>

text \<open>The value of an integer of any width, and \<^verbatim>\<open>fmt.Sprint\<close> of an integer or a string.\<close>

fun integer_value :: "sdt_data \<Rightarrow> int option" where
  "integer_value (SInt w) = Some (sint w)"
| "integer_value (SInt8 w) = Some (sint w)"
| "integer_value (SInt16 w) = Some (sint w)"
| "integer_value (SInt32 w) = Some (sint w)"
| "integer_value (SInt64 w) = Some (sint w)"
| "integer_value (SUint w) = Some (uint w)"
| "integer_value (SUint8 w) = Some (uint w)"
| "integer_value (SUint16 w) = Some (uint w)"
| "integer_value (SUint32 w) = Some (uint w)"
| "integer_value (SUint64 w) = Some (uint w)"
| "integer_value _ = None"

fun is_string :: "sdt_data \<Rightarrow> bool" where
  "is_string (SString s) = True"
| "is_string _ = False"

definition Sprint :: "sdt_data \<Rightarrow> string" where
  "Sprint elem = (case elem of SString s \<Rightarrow> s | _ \<Rightarrow> (case integer_value elem of Some v \<Rightarrow> print_int v | None \<Rightarrow> []))"

fun getBool :: "sdt_data \<Rightarrow> sdt_error + bool" where
  "getBool (SBool b) = Inr b"
| "getBool (SInt w) = Inr (w \<noteq> 0)"
| "getBool (SUint w) = Inr (w \<noteq> 0)"
| "getBool (SUint8 w) = Inr (w \<noteq> 0)"
| "getBool (SInt8 w) = Inr (w \<noteq> 0)"
| "getBool (SUint16 w) = Inr (w \<noteq> 0)"
| "getBool (SInt16 w) = Inr (w \<noteq> 0)"
| "getBool (SUint32 w) = Inr (w \<noteq> 0)"
| "getBool (SInt32 w) = Inr (w \<noteq> 0)"
| "getBool (SUint64 w) = Inr (w \<noteq> 0)"
| "getBool (SInt64 w) = Inr (w \<noteq> 0)"
| "getBool (SString s) =
     (if s = ''true'' \<or> s = ''1'' then Inr True
      else if s = ''false'' \<or> s = ''0'' then Inr False
      else Inl (FormatConversionError CannotConvertBoolString (SString s)))"
| "getBool elem = Inl (defaultFormatConversionError elem ''bool'')"

text \<open>
  The two parsers: booleans directly, integers and strings through their text, everything else is
  refused. The desired type in an error text is the type name with the number of bits.
\<close>

definition parseInt :: "sdt_data \<Rightarrow> nat \<Rightarrow> sdt_error + int" where
  "parseInt elem bits =
     (let typeString = ''int'' @ print_nat 10 bits
      in case elem of
           SBool b \<Rightarrow> Inr (if b then 1 else 0)
         | _ \<Rightarrow>
             if integer_value elem \<noteq> None \<or> is_string elem
             then (case ParseInt (Sprint elem) 10 bits of
                     Inl err \<Rightarrow> Inl (nestedFormatConversionError elem typeString err)
                   | Inr i \<Rightarrow> Inr i)
             else Inl (defaultFormatConversionError elem typeString))"

definition parseUint :: "sdt_data \<Rightarrow> nat \<Rightarrow> sdt_error + nat" where
  "parseUint elem bits =
     (let typeString = ''uint'' @ print_nat 10 bits
      in case elem of
           SBool b \<Rightarrow> Inr (if b then 1 else 0)
         | _ \<Rightarrow>
             if integer_value elem \<noteq> None \<or> is_string elem
             then (case ParseUint (Sprint elem) 10 bits of
                     Inl err \<Rightarrow> Inl (nestedFormatConversionError elem typeString err)
                   | Inr i \<Rightarrow> Inr i)
             else Inl (defaultFormatConversionError elem typeString))"

text \<open>The getters of the integer types truncate the parsed value to their width.\<close>

definition getUint8 :: "sdt_data \<Rightarrow> sdt_error + u8" where
  "getUint8 elem = map_sum id of_nat (parseUint elem 8)"

definition getInt8 :: "sdt_data \<Rightarrow> sdt_error + u8" where
  "getInt8 elem = map_sum id of_int (parseInt elem 8)"

definition getUint16 :: "sdt_data \<Rightarrow> sdt_error + u16" where
  "getUint16 elem = map_sum id of_nat (parseUint elem 16)"

definition getInt16 :: "sdt_data \<Rightarrow> sdt_error + u16" where
  "getInt16 elem = map_sum id of_int (parseInt elem 16)"

definition getUint32 :: "sdt_data \<Rightarrow> sdt_error + u32" where
  "getUint32 elem = map_sum id of_nat (parseUint elem 32)"

definition getInt32 :: "sdt_data \<Rightarrow> sdt_error + u32" where
  "getInt32 elem = map_sum id of_int (parseInt elem 32)"

definition getUint64 :: "sdt_data \<Rightarrow> sdt_error + u64" where
  "getUint64 elem = map_sum id of_nat (parseUint elem 64)"

definition getInt64 :: "sdt_data \<Rightarrow> sdt_error + u64" where
  "getInt64 elem = map_sum id of_int (parseInt elem 64)"

text \<open>The code takes the size of an \<^verbatim>\<open>int\<close> of the platform; here it is 64 bits.\<close>

definition uintSize :: nat where "uintSize = 64"

definition getUint :: "sdt_data \<Rightarrow> sdt_error + u64" where
  "getUint elem = map_sum id of_nat (parseUint elem uintSize)"

definition intSize :: nat where "intSize = 64"

definition getInt :: "sdt_data \<Rightarrow> sdt_error + u64" where
  "getInt elem = map_sum id of_int (parseInt elem intSize)"

definition getByteArray :: "sdt_data \<Rightarrow> sdt_error + u8 list" where
  "getByteArray elem =
     (case elem of
        SBytes bs \<Rightarrow> Inr bs
      | SString s \<Rightarrow> Inr (map (\<lambda>c. of_nat (char_code c)) s)
      | _ \<Rightarrow> Inl (defaultFormatConversionError elem ''[]uint8''))"

definition getFloat32 :: "(string \<Rightarrow> num_error + u32) \<Rightarrow> sdt_data \<Rightarrow> sdt_error + u32" where
  "getFloat32 parseFloat elem =
     (case elem of
        SFloat32 f \<Rightarrow> Inr f
      | SString s \<Rightarrow>
          (case parseFloat s of
             Inl err \<Rightarrow> Inl (nestedFormatConversionError elem ''float32'' err)
           | Inr f \<Rightarrow> Inr f)
      | _ \<Rightarrow> Inl (defaultFormatConversionError elem ''float32''))"

definition getFloat64 :: "(string \<Rightarrow> num_error + u64) \<Rightarrow> sdt_data \<Rightarrow> sdt_error + u64" where
  "getFloat64 parseFloat elem =
     (case elem of
        SFloat64 f \<Rightarrow> Inr f
      | SString s \<Rightarrow>
          (case parseFloat s of
             Inl err \<Rightarrow> Inl (nestedFormatConversionError elem ''float64'' err)
           | Inr f \<Rightarrow> Inr f)
      | _ \<Rightarrow> Inl (defaultFormatConversionError elem ''float64''))"

definition getString :: "sdt_data \<Rightarrow> sdt_error + string" where
  "getString elem = (case elem of SString s \<Rightarrow> Inr s | _ \<Rightarrow> Inl (defaultFormatConversionError elem ''string''))"

definition getWChar :: "sdt_data \<Rightarrow> sdt_error + u16" where
  "getWChar elem =
     (case elem of
        SUint8 w \<Rightarrow> Inr (ucast w)
      | SInt8 w \<Rightarrow> Inr (scast w)
      | SWChar w \<Rightarrow> Inr w
      | SString s \<Rightarrow>
          (if length s = 1 then Inr (of_nat (char_code (s ! 0)))
           else Inl (FormatConversionError (CannotConvertStringOfLength (length s)) elem))
      | _ \<Rightarrow> Inl (defaultFormatConversionError elem ''sdt.WChar''))"

definition getMap :: "sdt_data \<Rightarrow> sdt_error + sdt_map" where
  "getMap elem = (case elem of SMap m \<Rightarrow> Inr m | _ \<Rightarrow> Inl (defaultFormatConversionError elem ''sdt.Map''))"

definition getStream :: "sdt_data \<Rightarrow> sdt_error + sdt_data list" where
  "getStream elem = (case elem of SStream s \<Rightarrow> Inr s | _ \<Rightarrow> Inl (defaultFormatConversionError elem ''sdt.Stream''))"

definition getQueue :: "sdt_data \<Rightarrow> sdt_error + queue" where
  "getQueue elem = (case elem of SQueue q \<Rightarrow> Inr q | _ \<Rightarrow> Inl (defaultFormatConversionError elem ''*resource.Queue''))"

definition getTopic :: "sdt_data \<Rightarrow> sdt_error + string" where
  "getTopic elem = (case elem of STopic t \<Rightarrow> Inr t | _ \<Rightarrow> Inl (defaultFormatConversionError elem ''*resource.Topic''))"

definition getDestination :: "sdt_data \<Rightarrow> sdt_error + destination" where
  "getDestination elem =
     (case elem of
        SQueue q \<Rightarrow> Inr (QueueDestination q)
      | STopic t \<Rightarrow> Inr (TopicDestination t)
      | _ \<Rightarrow> Inl (defaultFormatConversionError elem ''resource.Destination''))"

section \<open>Getters of maps and streams\<close>

definition map_getter :: "(sdt_data \<Rightarrow> sdt_error + 'a) \<Rightarrow> string \<Rightarrow> sdt_map \<Rightarrow> sdt_error + 'a" where
  "map_getter conv key m = (case map_of m key of None \<Rightarrow> Inl (KeyNotFoundError key) | Some elem \<Rightarrow> conv elem)"

definition stream_getter :: "(sdt_data \<Rightarrow> sdt_error + 'a) \<Rightarrow> int \<Rightarrow> sdt_data list \<Rightarrow> sdt_error + 'a" where
  "stream_getter conv index s =
     (if index \<ge> int (length s) \<or> index < 0 then Inl (OutOfBoundsError index) else conv (s ! nat index))"

definition Map_GetBool :: "string \<Rightarrow> sdt_map \<Rightarrow> sdt_error + bool" where
  "Map_GetBool key m = map_getter getBool key m"

definition Map_GetByte :: "string \<Rightarrow> sdt_map \<Rightarrow> sdt_error + u8" where
  "Map_GetByte key m = map_getter getUint8 key m"

definition Map_GetInt :: "string \<Rightarrow> sdt_map \<Rightarrow> sdt_error + u64" where
  "Map_GetInt key m = map_getter getInt key m"

definition Map_GetUInt :: "string \<Rightarrow> sdt_map \<Rightarrow> sdt_error + u64" where
  "Map_GetUInt key m = map_getter getUint key m"

definition Map_GetInt8 :: "string \<Rightarrow> sdt_map \<Rightarrow> sdt_error + u8" where
  "Map_GetInt8 key m = map_getter getInt8 key m"

definition Map_GetInt16 :: "string \<Rightarrow> sdt_map \<Rightarrow> sdt_error + u16" where
  "Map_GetInt16 key m = map_getter getInt16 key m"

definition Map_GetInt32 :: "string \<Rightarrow> sdt_map \<Rightarrow> sdt_error + u32" where
  "Map_GetInt32 key m = map_getter getInt32 key m"

definition Map_GetInt64 :: "string \<Rightarrow> sdt_map \<Rightarrow> sdt_error + u64" where
  "Map_GetInt64 key m = map_getter getInt64 key m"

definition Map_GetUInt8 :: "string \<Rightarrow> sdt_map \<Rightarrow> sdt_error + u8" where
  "Map_GetUInt8 key m = map_getter getUint8 key m"

definition Map_GetUInt16 :: "string \<Rightarrow> sdt_map \<Rightarrow> sdt_error + u16" where
  "Map_GetUInt16 key m = map_getter getUint16 key m"

definition Map_GetUInt32 :: "string \<Rightarrow> sdt_map \<Rightarrow> sdt_error + u32" where
  "Map_GetUInt32 key m = map_getter getUint32 key m"

definition Map_GetUInt64 :: "string \<Rightarrow> sdt_map \<Rightarrow> sdt_error + u64" where
  "Map_GetUInt64 key m = map_getter getUint64 key m"

definition Map_GetFloat32 :: "(string \<Rightarrow> num_error + u32) \<Rightarrow> string \<Rightarrow> sdt_map \<Rightarrow> sdt_error + u32" where
  "Map_GetFloat32 pf key m = map_getter (getFloat32 pf) key m"

definition Map_GetFloat64 :: "(string \<Rightarrow> num_error + u64) \<Rightarrow> string \<Rightarrow> sdt_map \<Rightarrow> sdt_error + u64" where
  "Map_GetFloat64 pf key m = map_getter (getFloat64 pf) key m"

definition Map_GetString :: "string \<Rightarrow> sdt_map \<Rightarrow> sdt_error + string" where
  "Map_GetString key m = map_getter getString key m"

definition Map_GetWChar :: "string \<Rightarrow> sdt_map \<Rightarrow> sdt_error + u16" where
  "Map_GetWChar key m = map_getter getWChar key m"

definition Map_GetByteArray :: "string \<Rightarrow> sdt_map \<Rightarrow> sdt_error + u8 list" where
  "Map_GetByteArray key m = map_getter getByteArray key m"

definition Map_GetMap :: "string \<Rightarrow> sdt_map \<Rightarrow> sdt_error + (string \<times> sdt_data) list" where
  "Map_GetMap key m = map_getter getMap key m"

definition Map_GetStream :: "string \<Rightarrow> sdt_map \<Rightarrow> sdt_error + sdt_data list" where
  "Map_GetStream key m = map_getter getStream key m"

definition Map_GetDestination :: "string \<Rightarrow> sdt_map \<Rightarrow> sdt_error + destination" where
  "Map_GetDestination key m = map_getter getDestination key m"

definition Map_GetQueue :: "string \<Rightarrow> sdt_map \<Rightarrow> sdt_error + queue" where
  "Map_GetQueue key m = map_getter getQueue key m"

definition Map_GetTopic :: "string \<Rightarrow> sdt_map \<Rightarrow> sdt_error + string" where
  "Map_GetTopic key m = map_getter getTopic key m"

definition Stream_GetBool :: "int \<Rightarrow> sdt_data list \<Rightarrow> sdt_error + bool" where
  "Stream_GetBool index s = stream_getter getBool index s"

definition Stream_GetByte :: "int \<Rightarrow> sdt_data list \<Rightarrow> sdt_error + u8" where
  "Stream_GetByte index s = stream_getter getUint8 index s"

definition Stream_GetInt :: "int \<Rightarrow> sdt_data list \<Rightarrow> sdt_error + u64" where
  "Stream_GetInt index s = stream_getter getInt index s"

definition Stream_GetUInt :: "int \<Rightarrow> sdt_data list \<Rightarrow> sdt_error + u64" where
  "Stream_GetUInt index s = stream_getter getUint index s"

definition Stream_GetInt8 :: "int \<Rightarrow> sdt_data list \<Rightarrow> sdt_error + u8" where
  "Stream_GetInt8 index s = stream_getter getInt8 index s"

definition Stream_GetInt16 :: "int \<Rightarrow> sdt_data list \<Rightarrow> sdt_error + u16" where
  "Stream_GetInt16 index s = stream_getter getInt16 index s"

definition Stream_GetInt32 :: "int \<Rightarrow> sdt_data list \<Rightarrow> sdt_error + u32" where
  "Stream_GetInt32 index s = stream_getter getInt32 index s"

definition Stream_GetInt64 :: "int \<Rightarrow> sdt_data list \<Rightarrow> sdt_error + u64" where
  "Stream_GetInt64 index s = stream_getter getInt64 index s"

definition Stream_GetUInt8 :: "int \<Rightarrow> sdt_data list \<Rightarrow> sdt_error + u8" where
  "Stream_GetUInt8 index s = stream_getter getUint8 index s"

definition Stream_GetUInt16 :: "int \<Rightarrow> sdt_data list \<Rightarrow> sdt_error + u16" where
  "Stream_GetUInt16 index s = stream_getter getUint16 index s"

definition Stream_GetUInt32 :: "int \<Rightarrow> sdt_data list \<Rightarrow> sdt_error + u32" where
  "Stream_GetUInt32 index s = stream_getter getUint32 index s"

definition Stream_GetUInt64 :: "int \<Rightarrow> sdt_data list \<Rightarrow> sdt_error + u64" where
  "Stream_GetUInt64 index s = stream_getter getUint64 index s"

definition Stream_GetFloat32 :: "(string \<Rightarrow> num_error + u32) \<Rightarrow> int \<Rightarrow> sdt_data list \<Rightarrow> sdt_error + u32" where
  "Stream_GetFloat32 pf index s = stream_getter (getFloat32 pf) index s"

definition Stream_GetFloat64 :: "(string \<Rightarrow> num_error + u64) \<Rightarrow> int \<Rightarrow> sdt_data list \<Rightarrow> sdt_error + u64" where
  "Stream_GetFloat64 pf index s = stream_getter (getFloat64 pf) index s"

definition Stream_GetString :: "int \<Rightarrow> sdt_data list \<Rightarrow> sdt_error + string" where
  "Stream_GetString index s = stream_getter getString index s"

definition Stream_GetWChar :: "int \<Rightarrow> sdt_data list \<Rightarrow> sdt_error + u16" where
  "Stream_GetWChar index s = stream_getter getWChar index s"

definition Stream_GetByteArray :: "int \<Rightarrow> sdt_data list \<Rightarrow> sdt_error + u8 list" where
  "Stream_GetByteArray index s = stream_getter getByteArray index s"

definition Stream_GetMap :: "int \<Rightarrow> sdt_data list \<Rightarrow> sdt_error + (string \<times> sdt_data) list" where
  "Stream_GetMap index s = stream_getter getMap index s"

definition Stream_GetStream :: "int \<Rightarrow> sdt_data list \<Rightarrow> sdt_error + sdt_data list" where
  "Stream_GetStream index s = stream_getter getStream index s"

definition Stream_GetDestination :: "int \<Rightarrow> sdt_data list \<Rightarrow> sdt_error + destination" where
  "Stream_GetDestination index s = stream_getter getDestination index s"

definition Stream_GetQueue :: "int \<Rightarrow> sdt_data list \<Rightarrow> sdt_error + queue" where
  "Stream_GetQueue index s = stream_getter getQueue index s"

definition Stream_GetTopic :: "int \<Rightarrow> sdt_data list \<Rightarrow> sdt_error + string" where
  "Stream_GetTopic index s = stream_getter getTopic index s"

section \<open>Integer conversion\<close>

text \<open>A boolean counts as 0 or 1.\<close>

fun numeric_value :: "sdt_data \<Rightarrow> int option" where
  "numeric_value (SBool b) = Some (if b then 1 else 0)"
| "numeric_value elem = integer_value elem"

lemma parseInt_numeric:
  assumes "numeric_value elem = Some v" and "2 \<le> bits"
  shows "parseInt elem bits =
    (if - (2 ^ (bits - 1)) \<le> v \<and> v < 2 ^ (bits - 1) then Inr v
     else Inl (nestedFormatConversionError elem (''int'' @ print_nat 10 bits) ErrRange))"
proof (cases "\<exists>b. elem = SBool b")
  case True
  have "(2::int) \<le> 2 ^ (bits - 1)" using assms(2) by (intro self_le_power [of "2::int" "bits - 1"]) auto
  with True assms show ?thesis by (auto simp: parseInt_def split: if_splits)
next
  case False
  with assms(1) have iv: "integer_value elem = Some v" by (cases elem) auto
  then have "Sprint elem = print_int v" by (cases elem) (auto simp: Sprint_def)
  with iv False assms(2) show ?thesis
    by (cases elem) (auto simp: parseInt_def ParseInt_print_int)
qed

lemma parseUint_numeric:
  assumes "numeric_value elem = Some v" and "1 \<le> bits"
  shows "parseUint elem bits =
    (if 0 \<le> v \<and> v < 2 ^ bits then Inr (nat v)
     else Inl (nestedFormatConversionError elem (''uint'' @ print_nat 10 bits) (if v < 0 then ErrSyntax else ErrRange)))"
proof (cases "\<exists>b. elem = SBool b")
  case True
  have "(2::int) \<le> 2 ^ bits" using assms(2) by (intro self_le_power [of "2::int" bits]) auto
  with True assms show ?thesis by (auto simp: parseUint_def split: if_splits)
next
  case False
  with assms(1) have iv: "integer_value elem = Some v" by (cases elem) auto
  then have "Sprint elem = print_int v" by (cases elem) (auto simp: Sprint_def)
  with iv False show ?thesis
    by (cases elem) (auto simp: parseUint_def ParseUint_print_int)
qed

lemma parseInt_text:
  "2 \<le> bits \<Longrightarrow> parseInt (SString (print_int v)) bits =
     (if - (2 ^ (bits - 1)) \<le> v \<and> v < 2 ^ (bits - 1) then Inr v
      else Inl (nestedFormatConversionError (SString (print_int v)) (''int'' @ print_nat 10 bits) ErrRange))"
  by (simp add: parseInt_def Sprint_def ParseInt_print_int)

lemma parseUint_text:
  "1 \<le> bits \<Longrightarrow> parseUint (SString (print_int v)) bits =
     (if 0 \<le> v \<and> v < 2 ^ bits then Inr (nat v)
      else Inl (nestedFormatConversionError (SString (print_int v)) (''uint'' @ print_nat 10 bits)
                  (if v < 0 then ErrSyntax else ErrRange)))"
  by (simp add: parseUint_def Sprint_def ParseUint_print_int)

text \<open>
  What an exact conversion is: the result reads back as the value, which lies within the bounds, or
  the value is out of bounds and the error is a conversion error for the data.
\<close>

definition exact :: "int \<Rightarrow> int \<Rightarrow> int \<Rightarrow> sdt_data \<Rightarrow> ('w \<Rightarrow> int) \<Rightarrow> sdt_error + 'w \<Rightarrow> bool" where
  "exact lo hi v elem rd r \<longleftrightarrow>
     (case r of
        Inr w \<Rightarrow> lo \<le> v \<and> v < hi \<and> rd w = v
      | Inl e \<Rightarrow> \<not> (lo \<le> v \<and> v < hi) \<and> (\<exists>t. e = FormatConversionError t elem))"

definition integer_data :: "sdt_data \<Rightarrow> int \<Rightarrow> bool" where
  "integer_data elem v \<longleftrightarrow> numeric_value elem = Some v \<or> elem = SString (print_int v)"

lemma parseInt_exact:
  assumes "integer_data elem v" and "LENGTH('n::len) = bits" and "2 \<le> bits"
  shows "exact (- (2 ^ (bits - 1))) (2 ^ (bits - 1)) v elem sint (map_sum id (of_int :: int \<Rightarrow> 'n word) (parseInt elem bits))"
proof -
  have "parseInt elem bits = (if - (2 ^ (bits - 1)) \<le> v \<and> v < 2 ^ (bits - 1) then Inr v
     else Inl (nestedFormatConversionError elem (''int'' @ print_nat 10 bits) ErrRange))"
    using assms(1,3) parseInt_numeric parseInt_text by (auto simp: integer_data_def)
  moreover have "- (2 ^ (bits - 1)) \<le> v \<Longrightarrow> v < 2 ^ (bits - 1) \<Longrightarrow> sint (of_int v :: 'n word) = v"
    using assms(2) by (simp add: signed_of_int signed_take_bit_int_eq_self)
  ultimately show ?thesis by (simp add: exact_def nestedFormatConversionError_def)
qed

lemma parseUint_exact:
  assumes "integer_data elem v" and "LENGTH('n::len) = bits" and "1 \<le> bits"
  shows "exact 0 (2 ^ bits) v elem uint (map_sum id (of_nat :: nat \<Rightarrow> 'n word) (parseUint elem bits))"
proof -
  have "parseUint elem bits = (if 0 \<le> v \<and> v < 2 ^ bits then Inr (nat v)
     else Inl (nestedFormatConversionError elem (''uint'' @ print_nat 10 bits) (if v < 0 then ErrSyntax else ErrRange)))"
    using assms(1,3) parseUint_numeric parseUint_text by (auto simp: integer_data_def)
  moreover have "0 \<le> v \<Longrightarrow> v < 2 ^ bits \<Longrightarrow> uint (of_nat (nat v) :: 'n word) = v"
    using assms(2) by (simp add: uint_word_of_int_eq take_bit_int_eq_self)
  ultimately show ?thesis by (simp add: exact_def nestedFormatConversionError_def)
qed

text \<open>
  C23. Integer conversion is exact. For data that is a boolean, an integer of any Go type, or the decimal
  text of an integer, each of the ten integer getters returns the same number in its own type
  when it is within the range of that type, and otherwise a conversion error that names the data;
  nothing is ever truncated or wrapped.
\<close>

theorem integer_getters_exact:
  assumes "integer_data elem v"
  shows "exact (- (2 ^ 7)) (2 ^ 7) v elem sint (getInt8 elem) \<and>
    exact (- (2 ^ 15)) (2 ^ 15) v elem sint (getInt16 elem) \<and>
    exact (- (2 ^ 31)) (2 ^ 31) v elem sint (getInt32 elem) \<and>
    exact (- (2 ^ 63)) (2 ^ 63) v elem sint (getInt64 elem) \<and>
    exact (- (2 ^ 63)) (2 ^ 63) v elem sint (getInt elem) \<and>
    exact 0 (2 ^ 8) v elem uint (getUint8 elem) \<and>
    exact 0 (2 ^ 16) v elem uint (getUint16 elem) \<and>
    exact 0 (2 ^ 32) v elem uint (getUint32 elem) \<and>
    exact 0 (2 ^ 64) v elem uint (getUint64 elem) \<and>
    exact 0 (2 ^ 64) v elem uint (getUint elem)"
  using parseInt_exact [OF assms, of 8, where ?'n = 8] parseInt_exact [OF assms, of 16, where ?'n = 16]
    parseInt_exact [OF assms, of 32, where ?'n = 32] parseInt_exact [OF assms, of 64, where ?'n = 64]
    parseUint_exact [OF assms, of 8, where ?'n = 8] parseUint_exact [OF assms, of 16, where ?'n = 16]
    parseUint_exact [OF assms, of 32, where ?'n = 32] parseUint_exact [OF assms, of 64, where ?'n = 64]
  unfolding getInt8_def getInt16_def getInt32_def getInt64_def getInt_def intSize_def
    getUint8_def getUint16_def getUint32_def getUint64_def getUint_def uintSize_def
  by simp

theorem integer_getters_exact_witness:
  "exact (- (2 ^ 7)) (2 ^ 7) 200 (SUint8 200) sint (getInt8 (SUint8 200))"
  using integer_getters_exact [of "SUint8 200" 200] by (simp add: integer_data_def)

section \<open>Storing and reading back\<close>

lemma map_getter_update:
  "map_getter conv k (AList.update key d m) = (if k = key then conv d else map_getter conv k m)"
  by (simp add: map_getter_def update_conv)

lemma stream_getter_append:
  "stream_getter conv i (s @ [d]) =
     (if i = int (length s) then conv d
      else if i \<le> int (length s) then stream_getter conv i s else Inl (OutOfBoundsError i))"
  by (auto simp: stream_getter_def nth_append nat_less_iff)

text \<open>
  What is stored comes back. A value of any supported type put into a map under a key, or appended to a
  stream, is returned unchanged by the getter of its own type; other keys and positions are not
  affected; an absent key gives the key-not-found error and a position outside the stream, negative
  ones included, the out-of-bounds error.
\<close>

theorem stored_value_comes_back:
  "Map_GetInt64 key (AList.update key (SInt64 w) m) = Inr w \<and>
   Map_GetUInt8 key (AList.update key (SUint8 b) m) = Inr b \<and>
   Map_GetBool key (AList.update key (SBool t) m) = Inr t \<and>
   Map_GetString key (AList.update key (SString str) m) = Inr str \<and>
   Map_GetByteArray key (AList.update key (SBytes bs) m) = Inr bs \<and>
   Map_GetWChar key (AList.update key (SWChar c) m) = Inr c \<and>
   Map_GetFloat64 pf key (AList.update key (SFloat64 f) m) = Inr f \<and>
   Map_GetMap key (AList.update key (SMap m') m) = Inr m' \<and>
   Map_GetStream key (AList.update key (SStream s) m) = Inr s \<and>
   Map_GetQueue key (AList.update key (SQueue q) m) = Inr q \<and>
   Map_GetTopic key (AList.update key (STopic str) m) = Inr str \<and>
   Map_GetDestination key (AList.update key (STopic str) m) = Inr (TopicDestination str) \<and>
   (if k = key then True else Map_GetInt64 k (AList.update key d m) = Map_GetInt64 k m) \<and>
   Map_GetInt64 key (AList.delete key m) = Inl (KeyNotFoundError key) \<and>
   Stream_GetInt64 (int (length s)) (s @ [SInt64 w]) = Inr w \<and>
   Stream_GetString (int (length s)) (s @ [SString str]) = Inr str \<and>
   Stream_GetStream (int (length s)) (s @ [SStream s]) = Inr s \<and>
   (if 0 \<le> i \<and> i < int (length s) then Stream_GetInt64 i (s @ [d]) = Stream_GetInt64 i s
    else Stream_GetInt64 i s = Inl (OutOfBoundsError i) \<and> Stream_GetBool i s = Inl (OutOfBoundsError i) \<and>
         Stream_GetString i s = Inl (OutOfBoundsError i))"
proof -
  have i64: "getInt64 (SInt64 w) = Inr w"
    using sint_range_size [of w] parseInt_numeric [of "SInt64 w" "sint w" 64] by (simp add: getInt64_def word_size)
  have u8: "getUint8 (SUint8 b) = Inr b"
    using unsigned_less [of b, where ?'a = int] uint_nonnegative [of b] parseUint_numeric [of "SUint8 b" "uint b" 8] by (simp add: getUint8_def)
  have absent: "map_of (AList.delete key m) key = None" by (simp add: delete_conv')
  note getters = Map_GetInt64_def Map_GetUInt8_def Map_GetBool_def Map_GetString_def Map_GetByteArray_def
    Map_GetWChar_def Map_GetFloat64_def Map_GetMap_def Map_GetStream_def Map_GetQueue_def Map_GetTopic_def
    Map_GetDestination_def Stream_GetInt64_def Stream_GetString_def Stream_GetStream_def Stream_GetBool_def
  show ?thesis
    unfolding getters map_getter_update stream_getter_append
    using i64 u8 absent
    by (simp add: getString_def getByteArray_def getWChar_def getFloat64_def getMap_def getStream_def
        getQueue_def getTopic_def getDestination_def map_getter_def) (auto simp: stream_getter_def)
qed

end
