(* ===== verification/Config_Format.thy ===== *)
theory Config_Format
  imports Go_Strconv "HOL-Library.Sublist"
begin

text \<open>
  \<^verbatim>\<open>pkg/solace/config/format_utils.go\<close>: the property maps of the API are flat, with dotted keys, and
  their JSON form is nested. \<^verbatim>\<open>nestMap\<close> splits the keys at the dots and builds the nested maps,
  \<^verbatim>\<open>flattenMap\<close> joins them again. A Go map is an association list, its order the iteration order; a value is
  either a nested map or anything else. The package \<^verbatim>\<open>encoding/json\<close> is a parameter.
\<close>

section \<open>Operations\<close>

datatype 'v config_value = Leaf 'v | Node "(string \<times> 'v config_value) list"

type_synonym 'v config_map = "(string \<times> 'v config_value) list"

datatype format_error = errIllegalKey | errJSON

text \<open>The inner loop of \<^verbatim>\<open>flattenMap\<close>.\<close>

fun copy_prefixed :: "string \<Rightarrow> 'v config_map \<Rightarrow> 'v config_map \<Rightarrow> 'v config_map" where
  "copy_prefixed key [] res = res"
| "copy_prefixed key ((nestedKey, nestedVal) # nestedResult) res =
     copy_prefixed key nestedResult (AList.update (key @ ''.'' @ nestedKey) nestedVal res)"

fun flatten_loop :: "'v config_map \<Rightarrow> 'v config_map \<Rightarrow> 'v config_map" where
  "flatten_loop res [] = res"
| "flatten_loop res ((key, Leaf val) # m) = flatten_loop (AList.update key (Leaf val) res) m"
| "flatten_loop res ((key, Node castedMap) # m) =
     flatten_loop (copy_prefixed key (flatten_loop [] castedMap) res) m"

definition flattenMap :: "'v config_map \<Rightarrow> 'v config_map" where
  "flattenMap m = flatten_loop [] m"

text \<open>
  The inner loop of \<^verbatim>\<open>nestMap\<close> walks down from the result map and writes at the last key; the nested maps
  are shared by reference in the code, here the path is rebuilt on the way back.
\<close>

fun insert_path :: "string list \<Rightarrow> 'v config_value \<Rightarrow> 'v config_map \<Rightarrow> format_error + 'v config_map" where
  "insert_path [] v nested = Inr nested"
| "insert_path [key] v nested =
     (if map_of nested key \<noteq> None then Inl errIllegalKey else Inr (AList.update key v nested))"
| "insert_path (key # keys) v nested =
     (case (case map_of nested key of None \<Rightarrow> Node [] | Some val \<Rightarrow> val) of
        Leaf _ \<Rightarrow> Inl errIllegalKey
      | Node castedVal \<Rightarrow>
          (case insert_path keys v castedVal of
             Inl e \<Rightarrow> Inl e
           | Inr castedVal' \<Rightarrow> Inr (AList.update key (Node castedVal') nested)))"

fun nest_loop :: "'v config_map \<Rightarrow> 'v config_map \<Rightarrow> format_error + 'v config_map" where
  "nest_loop res [] = Inr res"
| "nest_loop res ((k, v) # m) =
     (case insert_path (split_on (CHR ''.'') k) v res of
        Inl e \<Rightarrow> Inl e
      | Inr res' \<Rightarrow> nest_loop res' m)"

definition nestMap :: "'v config_map \<Rightarrow> format_error + 'v config_map" where
  "nestMap m = nest_loop [] m"

definition flattenJSON :: "('b \<Rightarrow> format_error + 'v config_map) \<Rightarrow> 'b \<Rightarrow> format_error + 'v config_map" where
  "flattenJSON Unmarshal b = map_sum id flattenMap (Unmarshal b)"

definition nestJSON :: "('v config_map \<Rightarrow> format_error + 'b) \<Rightarrow> 'v config_map \<Rightarrow> format_error + 'b" where
  "nestJSON Marshal m = (case nestMap m of Inl err \<Rightarrow> Inl err | Inr nestedMap \<Rightarrow> Marshal nestedMap)"

text \<open>
  \<^verbatim>\<open>MarshalJSON\<close> and \<^verbatim>\<open>UnmarshalJSON\<close> of the four property maps: a property is its name, and the
  decoded entries are written into the receiver.
\<close>

definition MarshalJSON :: "('v config_map \<Rightarrow> format_error + 'b) \<Rightarrow> 'v config_map \<Rightarrow> format_error + 'b" where
  "MarshalJSON Marshal propertyMap = nestJSON Marshal (foldl (\<lambda>m (k, v). AList.update k v m) [] propertyMap)"

definition UnmarshalJSON ::
    "('b \<Rightarrow> format_error + 'v config_map) \<Rightarrow> 'b \<Rightarrow> 'v config_map \<Rightarrow> format_error + 'v config_map" where
  "UnmarshalJSON Unmarshal b propertyMap =
     (case flattenJSON Unmarshal b of
        Inl err \<Rightarrow> Inl err
      | Inr m \<Rightarrow> Inr (foldl (\<lambda>p (key, val). AList.update key val p) propertyMap m))"

section \<open>Nested maps as sets of paths\<close>

fun path_lookup :: "string list \<Rightarrow> 'v config_map \<Rightarrow> 'v option" where
  "path_lookup [] m = None"
| "path_lookup (key # keys) m =
     (case map_of m key of
        None \<Rightarrow> None
      | Some (Leaf v) \<Rightarrow> if keys = [] then Some v else None
      | Some (Node n) \<Rightarrow> path_lookup keys n)"

text \<open>
  Well-formed nested maps: keys are distinct and contain no dot, and no nested map is empty.
\<close>

inductive config_wf :: "'v config_map \<Rightarrow> bool" where
  "distinct (map fst m) \<Longrightarrow> \<forall>k \<in> fst ` set m. CHR ''.'' \<notin> set k \<Longrightarrow>
   \<forall>n. Node n \<in> snd ` set m \<longrightarrow> n \<noteq> [] \<and> config_wf n \<Longrightarrow> config_wf m"

lemma config_wf_keys: "config_wf m \<Longrightarrow> distinct (map fst m)"
  by (erule config_wf.cases) simp

lemma config_wf_dot: "config_wf m \<Longrightarrow> k \<in> fst ` set m \<Longrightarrow> CHR ''.'' \<notin> set k"
  by (erule config_wf.cases) blast

lemma config_wf_nested: "config_wf m \<Longrightarrow> Node n \<in> snd ` set m \<Longrightarrow> n \<noteq> [] \<and> config_wf n"
  by (erule config_wf.cases) blast

lemma config_wf_Nil [simp]: "config_wf []"
  by (rule config_wf.intros) simp_all

lemma config_wf_node:
  assumes "config_wf m" and "map_of m key = Some (Node n)"
  shows "config_wf n" and "n \<noteq> []"
proof -
  have "Node n \<in> snd ` set m" using map_of_SomeD [OF assms(2)] by force
  with config_wf_nested [OF assms(1)] show "config_wf n" and "n \<noteq> []" by blast+
qed

text \<open>A non-empty map has a leaf somewhere.\<close>

lemma config_wf_inhabited: "config_wf m \<Longrightarrow> m \<noteq> [] \<Longrightarrow> \<exists>keys. path_lookup keys m \<noteq> None"
proof (induction rule: config_wf.induct)
  case (1 m)
  then obtain key val m' where m: "m = (key, val) # m'" by (metis list.exhaust surj_pair)
  show ?case
  proof (cases val)
    case (Leaf v)
    with m have "path_lookup [key] m \<noteq> None" by simp
    then show ?thesis by blast
  next
    case (Node n)
    with m have "Node n \<in> snd ` set m" by simp
    with 1(3) obtain keys where "path_lookup keys n \<noteq> None" by blast
    with m Node have "path_lookup (key # keys) m \<noteq> None" by simp
    then show ?thesis by blast
  qed
qed

lemma config_wf_update:
  assumes "config_wf m" and "CHR ''.'' \<notin> set key" and "\<forall>n. v = Node n \<longrightarrow> n \<noteq> [] \<and> config_wf n"
  shows "config_wf (AList.update key v m)"
proof (rule config_wf.intros)
  show "distinct (map fst (AList.update key v m))"
    using config_wf_keys [OF assms(1)] by (rule distinct_update)
  show "\<forall>k \<in> fst ` set (AList.update key v m). CHR ''.'' \<notin> set k"
  proof
    fix k
    assume "k \<in> fst ` set (AList.update key v m)"
    then have "k = key \<or> k \<in> fst ` set m" unfolding dom_update by simp
    then show "CHR ''.'' \<notin> set k" using config_wf_dot [OF assms(1)] assms(2) by auto
  qed
  have "Node n \<in> snd ` set m \<or> v = Node n" if "Node n \<in> snd ` set (AList.update key v m)" for n
    using that by (induction m) (auto split: if_splits)
  then show "\<forall>n. Node n \<in> snd ` set (AList.update key v m) \<longrightarrow> n \<noteq> [] \<and> config_wf n"
    using config_wf_nested [OF assms(1)] assms(3) by blast
qed

section \<open>Inserting a path\<close>

text \<open>Two paths conflict when one continues the other: the shorter one would be both a node and a leaf.\<close>

definition path_conflict :: "string list \<Rightarrow> string list \<Rightarrow> bool" where
  "path_conflict ps qs \<longleftrightarrow> prefix ps qs \<or> prefix qs ps"

lemma insert_path_fails:
  "config_wf m \<Longrightarrow> keys \<noteq> [] \<Longrightarrow>
     (\<exists>e. insert_path keys v m = Inl e) \<longleftrightarrow> (\<exists>qs. path_lookup qs m \<noteq> None \<and> path_conflict keys qs)"
proof (induction keys v m rule: insert_path.induct)
  case (2 key v nested)
  show ?case
  proof (cases "map_of nested key")
    case None
    then have "path_lookup qs nested = None" if "path_conflict [key] qs" for qs
      using that by (cases qs) (auto simp: path_conflict_def)
    with None show ?thesis by auto
  next
    case (Some val)
    have "\<exists>qs. path_lookup qs nested \<noteq> None \<and> path_conflict [key] qs"
    proof (cases val)
      case (Leaf x)
      with Some have "path_lookup [key] nested \<noteq> None \<and> path_conflict [key] [key]"
        by (simp add: path_conflict_def)
      then show ?thesis by blast
    next
      case (Node n)
      with 2 Some obtain qs where "path_lookup qs n \<noteq> None"
        using config_wf_inhabited [OF config_wf_node] by blast
      with Some Node have "path_lookup (key # qs) nested \<noteq> None \<and> path_conflict [key] (key # qs)"
        by (simp add: path_conflict_def)
      then show ?thesis by blast
    qed
    with Some show ?thesis by auto
  qed
next
  case (3 key k2 ks v nested)
  show ?case
  proof (cases "map_of nested key")
    case None
    have empty: "path_lookup qs ([] :: 'a config_map) = None" for qs by (cases qs) auto
    from None have no: "path_lookup qs nested = None" if "path_conflict (key # k2 # ks) qs" for qs
      using that by (cases qs) (auto simp: path_conflict_def)
    have "\<not> (\<exists>e. insert_path (k2 # ks) v [] = Inl e)"
      using 3(1) [of "[]"] None empty by simp
    with None no show ?thesis by (auto split: sum.splits)
  next
    case (Some val)
    show ?thesis
    proof (cases val)
      case (Leaf x)
      with Some have "path_lookup [key] nested \<noteq> None \<and> path_conflict (key # k2 # ks) [key]"
        by (simp add: path_conflict_def)
      with Some Leaf show ?thesis by (simp del: path_lookup.simps) blast
    next
      case (Node n)
      have iff: "path_lookup qs nested \<noteq> None \<and> path_conflict (key # k2 # ks) qs \<longleftrightarrow>
          (\<exists>qs'. qs = key # qs' \<and> path_lookup qs' n \<noteq> None \<and> path_conflict (k2 # ks) qs')" for qs
        using Some Node by (cases qs) (auto simp: path_conflict_def)
      have "(\<exists>e. insert_path (k2 # ks) v n = Inl e) \<longleftrightarrow>
          (\<exists>qs. path_lookup qs n \<noteq> None \<and> path_conflict (k2 # ks) qs)"
        using 3(1) [of n] Some Node config_wf_node [OF 3(2)] by simp
      then show ?thesis unfolding iff using Some Node by (auto split: sum.splits)
    qed
  qed
qed simp

lemma insert_path_lookup:
  "config_wf m \<Longrightarrow> keys \<noteq> [] \<Longrightarrow> \<forall>k \<in> set keys. CHR ''.'' \<notin> set k \<Longrightarrow>
     insert_path keys (Leaf v) m = Inr m' \<Longrightarrow>
     config_wf m' \<and> m' \<noteq> [] \<and> (\<forall>qs. path_lookup qs m' = (if qs = keys then Some v else path_lookup qs m))"
proof (induction keys "Leaf v" m arbitrary: m' rule: insert_path.induct)
  case (2 key nested)
  then have m': "m' = AList.update key (Leaf v) nested" and fresh: "map_of nested key = None"
    by (auto split: if_splits)
  have "path_lookup qs m' = (if qs = [key] then Some v else path_lookup qs nested)" for qs
    using fresh by (cases qs) (auto simp: m' update_conv' split: option.splits)
  moreover have "config_wf m'" using 2 unfolding m' by (intro config_wf_update) auto
  moreover have "m' \<noteq> []" unfolding m' by (cases nested) auto
  ultimately show ?case by blast
next
  case (3 key k2 ks nested)
  define n where "n = (case map_of nested key of Some (Node c) \<Rightarrow> c | _ \<Rightarrow> [])"
  from 3(5) obtain n' where sel: "(case map_of nested key of None \<Rightarrow> Node [] | Some val \<Rightarrow> val) = Node n"
    and ins: "insert_path (k2 # ks) (Leaf v) n = Inr n'" and m': "m' = AList.update key (Node n') nested"
    by (auto simp: n_def split: option.splits config_value.splits sum.splits)
  have wf_n: "config_wf n"
    using 3(2) config_wf_node(1) [OF 3(2), of key] by (auto simp: n_def split: option.splits config_value.splits)
  note IH = 3(1) [OF sel wf_n _ _ ins]
  have look: "path_lookup (key # qs) nested = path_lookup qs n" if "qs \<noteq> []" for qs
    using sel that by (cases qs) (auto split: option.splits)
  have root: "path_lookup [key] nested = None"
    using sel by (auto split: option.splits)
  have wf': "config_wf n'" "n' \<noteq> []"
    and IH': "path_lookup qs n' = (if qs = k2 # ks then Some v else path_lookup qs n)" for qs
    using IH 3(4) by auto
  have "path_lookup qs m' = (if qs = key # k2 # ks then Some v else path_lookup qs nested)" for qs
  proof (cases qs)
    case (Cons q rest)
    show ?thesis
    proof (cases "q = key")
      case True
      have "path_lookup (key # rest) m' = path_lookup rest n'" by (simp add: m' update_conv')
      then show ?thesis using Cons True look root IH' by (cases "rest = []") auto
    next
      case False
      with Cons show ?thesis by (simp add: m' update_conv')
    qed
  qed simp
  moreover have "config_wf m'"
    using 3(2,4) wf' unfolding m' by (intro config_wf_update) auto
  moreover have "m' \<noteq> []" unfolding m' by (cases nested) auto
  ultimately show ?case by blast
qed simp

section \<open>Nesting a flat map\<close>

text \<open>A flat map: distinct keys and no nested values.\<close>

definition flat_map :: "'v config_map \<Rightarrow> bool" where
  "flat_map m \<longleftrightarrow> distinct (map fst m) \<and> (\<forall>v \<in> snd ` set m. \<exists>x. v = Leaf x)"

definition key_path :: "string \<Rightarrow> string list" where
  "key_path k = split_on (CHR ''.'') k"

definition keys_conflict :: "string \<Rightarrow> string \<Rightarrow> bool" where
  "keys_conflict k l \<longleftrightarrow> k \<noteq> l \<and> path_conflict (key_path k) (key_path l)"

lemma key_path_dot: "p \<in> set (key_path k) \<Longrightarrow> CHR ''.'' \<notin> set p"
  by (simp add: key_path_def set_split_on)

lemma key_path_eq [simp]: "key_path k = key_path l \<longleftrightarrow> k = l"
  by (simp add: key_path_def split_on_inj)

lemma key_path_nonempty [simp]: "key_path k \<noteq> []"
  by (simp add: key_path_def)

text \<open>The map under construction holds exactly the keys read so far.\<close>

definition nests :: "'v config_map \<Rightarrow> (string \<Rightarrow> 'v config_value option) \<Rightarrow> bool" where
  "nests m f \<longleftrightarrow> config_wf m \<and>
     (\<forall>qs. map_option Leaf (path_lookup qs m) = (if \<exists>k. qs = key_path k then f (join_with (CHR ''.'') qs) else None))"

lemma join_key_path [simp]: "join_with (CHR ''.'') (key_path k) = k"
  by (simp add: key_path_def join_split_on)

lemma nests_lookup: "nests m f \<Longrightarrow> map_option Leaf (path_lookup (key_path k) m) = f k"
  by (auto simp: nests_def)

lemma nests_paths: "nests m f \<Longrightarrow> path_lookup qs m \<noteq> None \<longleftrightarrow> (\<exists>k. qs = key_path k \<and> f k \<noteq> None)"
  unfolding nests_def
  by (metis (no_types, lifting) join_key_path map_option_is_None)

lemma insert_path_nests:
  assumes "nests m f" and "insert_path (key_path k) (Leaf v) m = Inr m'"
  shows "nests m' (f(k \<mapsto> Leaf v))"
proof -
  have wf: "config_wf m" using assms(1) by (simp add: nests_def)
  note ins = insert_path_lookup [OF wf key_path_nonempty _ assms(2)]
  have "config_wf m'" and look: "path_lookup qs m' = (if qs = key_path k then Some v else path_lookup qs m)" for qs
    using ins key_path_dot by blast+
  moreover have "map_option Leaf (path_lookup qs m') =
      (if \<exists>l. qs = key_path l then (f(k \<mapsto> Leaf v)) (join_with (CHR ''.'') qs) else None)" for qs
    using assms(1) by (auto simp: look nests_def)
  ultimately show ?thesis by (simp add: nests_def)
qed

lemma insert_path_conflict:
  assumes "nests m f" and "f k = None"
  shows "(\<exists>e. insert_path (key_path k) v m = Inl e) \<longleftrightarrow> (\<exists>l. f l \<noteq> None \<and> keys_conflict k l)"
proof -
  have wf: "config_wf m" using assms(1) by (simp add: nests_def)
  have "(\<exists>qs. path_lookup qs m \<noteq> None \<and> path_conflict (key_path k) qs) \<longleftrightarrow>
      (\<exists>l. f l \<noteq> None \<and> path_conflict (key_path k) (key_path l))"
    unfolding nests_paths [OF assms(1)] by blast
  also have "\<dots> \<longleftrightarrow> (\<exists>l. f l \<noteq> None \<and> keys_conflict k l)"
    using assms(2) by (auto simp: keys_conflict_def)
  finally show ?thesis using insert_path_fails [OF wf key_path_nonempty] by simp
qed

lemma keys_conflict_sym: "keys_conflict k l \<longleftrightarrow> keys_conflict l k"
  by (auto simp: keys_conflict_def path_conflict_def)

lemma nest_loop_ok:
  "nests res f \<Longrightarrow> flat_map m \<Longrightarrow> nest_loop res m = Inr n \<Longrightarrow> nests n (f ++ map_of m)"
proof (induction res m arbitrary: f rule: nest_loop.induct)
  case (2 res k v m)
  then obtain x where v: "v = Leaf x" by (auto simp: flat_map_def)
  from 2(4) obtain res' where ins: "insert_path (key_path k) v res = Inr res'" and rest: "nest_loop res' m = Inr n"
    by (auto simp: key_path_def split: sum.splits)
  have "nests res' (f(k \<mapsto> v))" using insert_path_nests [OF 2(2)] ins by (simp add: v)
  moreover have "flat_map m" using 2(3) by (simp add: flat_map_def)
  ultimately have "nests n (f(k \<mapsto> v) ++ map_of m)"
    by (rule 2(1) [OF ins [unfolded key_path_def] _ _ rest])
  moreover have "f(k \<mapsto> v) ++ map_of m = f ++ map_of ((k, v) # m)"
  proof -
    have "map_of m k = None" using 2(3) by (simp add: flat_map_def map_of_eq_None_iff)
    then show ?thesis by (auto simp: fun_eq_iff map_add_def split: option.splits)
  qed
  ultimately show ?case by metis
qed (simp add: map_add_def)

lemma nest_loop_fails:
  "nests res f \<Longrightarrow> flat_map m \<Longrightarrow> \<forall>k \<in> fst ` set m. f k = None \<Longrightarrow>
     (\<exists>e. nest_loop res m = Inl e) \<longleftrightarrow>
     (\<exists>k \<in> fst ` set m. \<exists>l. (f l \<noteq> None \<or> l \<in> fst ` set m) \<and> keys_conflict k l)"
proof (induction res m arbitrary: f rule: nest_loop.induct)
  case (2 res k v m)
  obtain x where v: "v = Leaf x" using 2(3) by (auto simp: flat_map_def)
  have fk: "f k = None" using 2(4) by simp
  note conflict = insert_path_conflict [OF 2(2) fk, of v]
  show ?case
  proof (cases "insert_path (key_path k) v res")
    case (Inl e)
    with conflict obtain l where "f l \<noteq> None" and "keys_conflict k l" by auto
    then have "\<exists>k' \<in> fst ` set ((k, v) # m). \<exists>l. (f l \<noteq> None \<or> l \<in> fst ` set ((k, v) # m)) \<and> keys_conflict k' l"
      by (intro bexI [of _ k]) auto
    moreover have "\<exists>e. nest_loop res ((k, v) # m) = Inl e" using Inl by (simp add: key_path_def)
    ultimately show ?thesis by blast
  next
    case (Inr res')
    have "nests res' (f(k \<mapsto> v))" using insert_path_nests [OF 2(2)] Inr by (simp add: v)
    moreover have "flat_map m" and new: "k \<notin> fst ` set m" using 2(3) by (auto simp: flat_map_def)
    moreover have "\<forall>k' \<in> fst ` set m. (f(k \<mapsto> v)) k' = None" using 2(4) new by auto
    ultimately have "(\<exists>e. nest_loop res' m = Inl e) \<longleftrightarrow>
        (\<exists>k' \<in> fst ` set m. \<exists>l. ((f(k \<mapsto> v)) l \<noteq> None \<or> l \<in> fst ` set m) \<and> keys_conflict k' l)"
      by (intro 2(1) [OF Inr [unfolded key_path_def]])
    also have "\<dots> \<longleftrightarrow> (\<exists>k' \<in> fst ` set m. \<exists>l. (f l \<noteq> None \<or> l \<in> insert k (fst ` set m)) \<and> keys_conflict k' l)"
      by (intro bex_cong ex_cong1) simp_all
    also have "\<dots> \<longleftrightarrow> (\<exists>k' \<in> insert k (fst ` set m). \<exists>l. (f l \<noteq> None \<or> l \<in> insert k (fst ` set m)) \<and> keys_conflict k' l)"
    proof -
      have "\<nexists>l. f l \<noteq> None \<and> keys_conflict k l" using conflict Inr by simp
      moreover have "\<not> keys_conflict k k" by (simp add: keys_conflict_def)
      ultimately show ?thesis using keys_conflict_sym by (metis insert_iff)
    qed
    finally show ?thesis using Inr by (simp add: key_path_def)
  qed
qed simp

lemma nests_empty: "nests ([] :: 'v config_map) (\<lambda>_. None)"
proof -
  have "path_lookup qs ([] :: 'v config_map) = None" for qs by (cases qs) auto
  then show ?thesis by (simp add: nests_def)
qed

section \<open>Flattening a nested map\<close>

lemma copy_prefixed_hit:
  "distinct (map fst nr) \<Longrightarrow> map_of (copy_prefixed key nr res) (key @ ''.'' @ nk) =
     (case map_of nr nk of Some v \<Rightarrow> Some v | None \<Rightarrow> map_of res (key @ ''.'' @ nk))"
proof (induction key nr res rule: copy_prefixed.induct)
  case (2 key nestedKey nestedVal nr res)
  then have "map_of nr nestedKey = None" by (simp add: map_of_eq_None_iff)
  with 2 show ?case by (cases "nk = nestedKey") (auto simp: update_conv' split: option.splits)
qed simp

lemma copy_prefixed_miss:
  "(\<And>nk. k \<noteq> key @ ''.'' @ nk) \<Longrightarrow> map_of (copy_prefixed key nr res) k = map_of res k"
  by (induction key nr res rule: copy_prefixed.induct) (auto simp: update_conv')

lemma copy_prefixed_distinct: "distinct (map fst res) \<Longrightarrow> distinct (map fst (copy_prefixed key nr res))"
  by (induction key nr res rule: copy_prefixed.induct) (simp_all add: distinct_update)

lemma flatten_loop_distinct: "distinct (map fst res) \<Longrightarrow> distinct (map fst (flatten_loop res m))"
  by (induction res m rule: flatten_loop.induct) (simp_all add: distinct_update copy_prefixed_distinct)

lemma key_path_dotted: "CHR ''.'' \<notin> set key \<Longrightarrow> key_path (key @ ''.'' @ nk) = key # key_path nk"
  by (simp add: key_path_def split_on_cons)

lemma key_path_single: "CHR ''.'' \<notin> set key \<Longrightarrow> key_path key = [key]"
  by (simp add: key_path_def split_on_fresh)

lemma key_path_cases:
  assumes "CHR ''.'' \<notin> set key"
  obtains (this_key) "k = key"
  | (under) nk where "k = key @ ''.'' @ nk"
  | (other) q qs where "key_path k = q # qs" "q \<noteq> key" "k \<noteq> key" "\<And>nk. k \<noteq> key @ ''.'' @ nk"
proof -
  obtain q qs where q: "key_path k = q # qs" using key_path_nonempty [of k] by (cases "key_path k") auto
  then have k: "k = join_with (CHR ''.'') (q # qs)" by (metis join_key_path)
  show thesis
  proof (cases "q = key")
    case True
    with k show thesis by (cases qs) (auto intro: this_key under [of "join_with (CHR ''.'') qs"])
  next
    case False
    with q have "k \<noteq> key" and "\<And>nk. k \<noteq> key @ ''.'' @ nk"
      using key_path_single [OF assms] key_path_dotted [OF assms] by auto
    with q False show thesis by (rule other)
  qed
qed

lemma config_wf_tail:
  assumes "config_wf ((key, v) # m)"
  shows "config_wf m" and "key \<notin> fst ` set m" and "CHR ''.'' \<notin> set key" and "v = Node n \<Longrightarrow> config_wf n"
proof -
  show "config_wf m"
    using config_wf_keys [OF assms] config_wf_dot [OF assms] config_wf_nested [OF assms]
    by (intro config_wf.intros) simp_all
  show "key \<notin> fst ` set m" using config_wf_keys [OF assms] by simp
  show "CHR ''.'' \<notin> set key" using config_wf_dot [OF assms, of key] by simp
  show "config_wf n" if "v = Node n" using config_wf_nested [OF assms, of n] that by simp
qed

lemma path_lookup_other: "key \<notin> fst ` set m \<Longrightarrow> path_lookup (key # qs) m = None"
  by (simp add: map_of_eq_None_iff [THEN iffD2])

lemma path_lookup_head: "path_lookup (key # qs) ((key, v) # m) =
    (case v of Leaf x \<Rightarrow> if qs = [] then Some x else None | Node n \<Rightarrow> path_lookup qs n)"
  "q \<noteq> key \<Longrightarrow> path_lookup (q # qs) ((key, v) # m) = path_lookup (q # qs) m"
  by simp_all

lemma flatten_loop_lookup:
  "config_wf m \<Longrightarrow> map_of (flatten_loop res m) k =
     (case path_lookup (key_path k) m of Some v \<Rightarrow> Some (Leaf v) | None \<Rightarrow> map_of res k)"
proof (induction res m arbitrary: k rule: flatten_loop.induct)
  case (1 res)
  obtain q qs where "key_path k = q # qs" using key_path_nonempty [of k] by (cases "key_path k") auto
  then show ?case by simp
next
  case (2 res key val m)
  note wf = config_wf_tail [OF 2(2)]
  note IH = 2(1) [OF wf(1)]
  show ?case
  proof (cases rule: key_path_cases [OF wf(3), of k, case_names this_key under other])
    case this_key
    with wf show ?thesis
      by (simp add: IH key_path_single path_lookup_other path_lookup_head update_conv' del: path_lookup.simps)
  next
    case (under nk)
    with wf show ?thesis
      by (simp add: IH key_path_dotted [OF wf(3), simplified] path_lookup_other path_lookup_head update_conv'
          del: path_lookup.simps)
  next
    case (other q qs)
    then show ?thesis by (simp add: IH path_lookup_head update_conv' del: path_lookup.simps split: option.splits)
  qed
next
  case (3 res key n m)
  note wf = config_wf_tail [OF 3(3)]
  have IH1: "map_of (flatten_loop [] n) nk = map_option Leaf (path_lookup (key_path nk) n)" for nk
    using 3(1) [OF wf(4) [OF refl]] by (simp split: option.splits)
  note IH2 = 3(2) [OF wf(1)]
  show ?case
  proof (cases rule: key_path_cases [OF wf(3), of k, case_names this_key under other])
    case this_key
    with wf show ?thesis
      by (simp add: IH2 key_path_single path_lookup_other path_lookup_head copy_prefixed_miss del: path_lookup.simps(2))
  next
    case (under nk)
    with wf show ?thesis
      using copy_prefixed_hit [OF flatten_loop_distinct [of "[]" n], of key res nk]
      by (simp add: IH1 IH2 key_path_dotted [OF wf(3), simplified] path_lookup_other path_lookup_head
          del: path_lookup.simps split: option.splits)
  next
    case (other q qs)
    then show ?thesis using copy_prefixed_miss [of k key "flatten_loop [] n" res] by (simp add: IH2 path_lookup_head del: path_lookup.simps split: option.splits)
  qed
qed

section \<open>The round trip\<close>

lemma flatten_nests: "nests n f \<Longrightarrow> map_of (flattenMap n) = f"
proof
  fix k
  assume n: "nests n f"
  then have "config_wf n" by (simp add: nests_def)
  then have "map_of (flattenMap n) k = map_option Leaf (path_lookup (key_path k) n)"
    by (simp add: flattenMap_def flatten_loop_lookup split: option.splits)
  then show "map_of (flattenMap n) k = f k" using nests_lookup [OF n] by simp
qed

lemma insert_path_error: "insert_path keys v m = Inl e \<Longrightarrow> e = errIllegalKey"
  by (induction keys v m rule: insert_path.induct)
    (auto split: if_splits option.splits config_value.splits sum.splits)

lemma nest_loop_error: "nest_loop res m = Inl e \<Longrightarrow> e = errIllegalKey"
  by (induction res m rule: nest_loop.induct) (auto dest: insert_path_error split: sum.splits)

lemma nestMap_error: "nestMap m = Inl e \<Longrightarrow> e = errIllegalKey"
  unfolding nestMap_def by (rule nest_loop_error)

lemma nestMap_fails:
  assumes "flat_map m"
  shows "nestMap m = Inl errIllegalKey \<longleftrightarrow> (\<exists>k \<in> fst ` set m. \<exists>l \<in> fst ` set m. keys_conflict k l)"
proof -
  have "nestMap m = Inl errIllegalKey \<longleftrightarrow> (\<exists>e. nest_loop [] m = Inl e)"
    using nestMap_error unfolding nestMap_def by metis
  also have "\<dots> \<longleftrightarrow> (\<exists>k \<in> fst ` set m. \<exists>l \<in> fst ` set m. keys_conflict k l)"
    using nest_loop_fails [OF nests_empty assms] by auto
  finally show ?thesis .
qed

lemma nestMap_ok: "flat_map m \<Longrightarrow> nestMap m = Inr n \<Longrightarrow> map_of (flattenMap n) = map_of m"
  using flatten_nests [OF nest_loop_ok [OF nests_empty, of m n]] by (simp add: nestMap_def)

text \<open>
  C30. Flattening undoes nesting: whenever a flat property map can be nested at all, flattening the result gives
  every key its value back and adds none. Nesting fails exactly when, among the keys, the dotted
  path of one continues that of another, so whether it fails does not depend on the iteration order
  of the map; and a property map that can be nested is so in every order.
\<close>

proposition nest_flatten_roundtrip:
  assumes "flat_map m"
  shows "(\<forall>n. nestMap m = Inr n \<longrightarrow> map_of (flattenMap n) = map_of m) \<and>
         (nestMap m = Inl errIllegalKey \<longleftrightarrow>
            (\<exists>k \<in> fst ` set m. \<exists>l \<in> fst ` set m. keys_conflict k l)) \<and>
         (\<forall>m'. mset m' = mset m \<longrightarrow> (nestMap m' = Inl errIllegalKey \<longleftrightarrow> nestMap m = Inl errIllegalKey))"
proof (intro conjI allI impI)
  show "nestMap m = Inl errIllegalKey \<longleftrightarrow> (\<exists>k \<in> fst ` set m. \<exists>l \<in> fst ` set m. keys_conflict k l)"
    by (rule nestMap_fails [OF assms])
  fix m' :: "'a config_map"
  assume "mset m' = mset m"
  then have "set m' = set m" and "flat_map m'"
    using assms by (auto simp: flat_map_def dest: mset_eq_setD) (metis mset_eq_imp_distinct_iff mset_map)
  then show "nestMap m' = Inl errIllegalKey \<longleftrightarrow> nestMap m = Inl errIllegalKey"
    using nestMap_fails [OF assms] nestMap_fails [of m'] by simp
next
  fix n
  assume "nestMap m = Inr n"
  with assms show "map_of (flattenMap n) = map_of m" by (rule nestMap_ok)
qed

theorem nest_flatten_roundtrip_witness:
  "(let m = [(''a.b'', Leaf 1), (''c'', Leaf 2), (''a.d.e'', Leaf (3 :: nat))]
    in map_of (flattenMap (projr (nestMap m))) = map_of m) \<and>
   nestMap [(''a.b'', Leaf 1), (''a'', Leaf (2 :: nat))] = Inl errIllegalKey"
proof -
  have "flat_map [(''a.b'', Leaf 1), (''c'', Leaf 2), (''a.d.e'', Leaf (3 :: nat))]"
    and "flat_map [(''a.b'', Leaf 1), (''a'', Leaf (2 :: nat))]"
    by (simp_all add: flat_map_def)
  note this [THEN nest_flatten_roundtrip]
  moreover have "keys_conflict ''a.b'' ''a''"
    by (simp add: keys_conflict_def path_conflict_def key_path_def)
  ultimately show ?thesis by (simp add: nestMap_def)
qed

lemma copy_flat:
  assumes "distinct (map fst (r @ xs))"
  shows "foldl (\<lambda>m (k, v). AList.update k v m) r xs = r @ xs"
  using assms by (induction xs arbitrary: r) (auto simp: update_fresh)

lemma copy_lookup:
  assumes "distinct (map fst xs)"
  shows "map_of (foldl (\<lambda>m (k, v). AList.update k v m) r xs) = map_of r ++ map_of xs"
proof -
  have "map_of (foldl (\<lambda>m (k, v). AList.update k v m) r xs) = map_of r ++ map_of (rev xs)"
    by (induction xs arbitrary: r) (auto simp: update_conv' fun_eq_iff map_add_def split: option.splits)
  moreover have "map_of (rev xs) = map_of xs"
    using assms by (intro map_of_inject_set [THEN iffD2]) (simp_all add: rev_map [symmetric])
  ultimately show ?thesis by simp
qed

text \<open>
  A property map written as JSON and read into an empty property map is the same map, for any JSON package that
  reads back the nested maps it has written; a property map whose keys conflict is not written at
  all, whatever the package does.
\<close>

proposition property_map_json_roundtrip:
  assumes "flat_map m" and "\<And>n. \<exists>b. Marshal n = Inr b \<and> Unmarshal b = Inr n"
  shows "(case MarshalJSON Marshal m of
            Inr b \<Rightarrow> (\<exists>m'. UnmarshalJSON Unmarshal b [] = Inr m' \<and> map_of m' = map_of m)
          | Inl e \<Rightarrow> e = errIllegalKey \<and> nestMap m = Inl errIllegalKey)"
proof -
  have copy: "foldl (\<lambda>m (k, v). AList.update k v m) [] m = m"
    using copy_flat [of "[]" m] assms(1) by (simp add: flat_map_def)
  show ?thesis
  proof (cases "nestMap m")
    case (Inl e)
    then show ?thesis using nestMap_error [OF Inl] by (simp add: MarshalJSON_def nestJSON_def copy)
  next
    case (Inr n)
    obtain b where b: "Marshal n = Inr b" "Unmarshal b = Inr n" using assms(2) by blast
    have "distinct (map fst (flattenMap n))" unfolding flattenMap_def by (rule flatten_loop_distinct) simp
    then have "map_of (foldl (\<lambda>p (key, val). AList.update key val p) [] (flattenMap n)) = map_of m"
      using copy_lookup [of "flattenMap n" "[]"] nestMap_ok [OF assms(1) Inr] by simp
    with Inr b show ?thesis
      by (simp add: MarshalJSON_def nestJSON_def copy UnmarshalJSON_def flattenJSON_def)
  qed
qed

theorem property_map_json_roundtrip_witness:
  "\<exists>m'. UnmarshalJSON Inr (projr (MarshalJSON Inr [(''a.b'', Leaf 1), (''a.c'', Leaf (2 :: nat))])) [] = Inr m' \<and>
     map_of m' = map_of [(''a.b'', Leaf 1), (''a.c'', Leaf 2)]"
proof -
  have "flat_map [(''a.b'', Leaf 1), (''a.c'', Leaf (2 :: nat))]" by (simp add: flat_map_def)
  from property_map_json_roundtrip [OF this, of Inr Inr] show ?thesis
    by (simp add: MarshalJSON_def nestJSON_def nestMap_def)
qed

end
