(* ===== verification/Correlations.thy ===== *)
theory Correlations
  imports Core_Errors
begin

text \<open>
  Tables of pending confirmations. The core receiver keeps one for subscriptions, the core endpoint
  provisioner one for provisioning: a request takes the next number of a counter and a fresh channel
  with room for one event, and enters the channel in a map under its number; a confirmation that carries
  the number takes the channel out of the map and sends the event; giving up removes the entry; and
  termination sends an error to every channel that is left. The caller of the request keeps a reference
  to the channel, so channels live in a store and the map holds addresses.

  The contract of such a table is a locale; its lemmas say that every request hears at most once, from the
  confirmation that carries its own number, and after termination exactly once unless it gave up.
\<close>

section \<open>Tables\<close>

record corr_event =
  ce_id :: u64
  ce_err :: "go_error option"

record corr_table =
  corr_map :: "(u64 \<times> nat) list"
  corr_last :: u64
  corr_store :: "corr_event chan list"

definition corr_empty :: corr_table where
  "corr_empty = \<lparr>corr_map = [], corr_last = 0, corr_store = []\<rparr>"

definition corr_new :: "corr_table \<Rightarrow> (u64 \<times> nat) \<times> corr_table" where
  "corr_new t =
     (let newID = corr_last t + 1; resultChan = length (corr_store t)
      in ((newID, resultChan),
          t\<lparr>corr_last := newID, corr_store := corr_store t @ [make_chan 1],
            corr_map := AList.update newID resultChan (corr_map t)\<rparr>))"

definition corr_clear :: "u64 \<Rightarrow> corr_table \<Rightarrow> corr_table" where
  "corr_clear i t = t\<lparr>corr_map := AList.delete i (corr_map t)\<rparr>"

text \<open>Sending on a channel of the store.\<close>

definition store_send :: "nat \<Rightarrow> corr_event \<Rightarrow> corr_table \<Rightarrow> corr_table outcome" where
  "store_send a ev t =
     outcome_bind (chan_send ev (corr_store t ! a)) (\<lambda>c. Return (t\<lparr>corr_store := (corr_store t)[a := c]\<rparr>))"

text \<open>A confirmation; the result lists what was sent and where.\<close>

definition corr_complete ::
    "u64 \<Rightarrow> go_error option \<Rightarrow> corr_table \<Rightarrow> ((nat \<times> corr_event) list \<times> corr_table) outcome" where
  "corr_complete corrP err t =
     (case map_of (corr_map t) corrP of
        None \<Rightarrow> Return ([], t)
      | Some a \<Rightarrow>
          let ev = \<lparr>ce_id = corrP, ce_err = err\<rparr>
          in outcome_bind (store_send a ev (corr_clear corrP t)) (\<lambda>t. Return ([(a, ev)], t)))"

text \<open>The loop of the termination.\<close>

fun flush_loop ::
    "go_error \<Rightarrow> (u64 \<times> nat) list \<Rightarrow> corr_table \<Rightarrow> ((nat \<times> corr_event) list \<times> corr_table) outcome" where
  "flush_loop err [] t = Return ([], t)"
| "flush_loop err ((i, a) # es) t =
     (let ev = \<lparr>ce_id = i, ce_err = Some err\<rparr>
      in outcome_bind (store_send a ev (corr_clear i t)) (\<lambda>t.
         outcome_bind (flush_loop err es t) (\<lambda>(log, t). Return ((a, ev) # log, t))))"

definition corr_flush :: "go_error \<Rightarrow> corr_table \<Rightarrow> ((nat \<times> corr_event) list \<times> corr_table) outcome" where
  "corr_flush err t = flush_loop err (corr_map t) t"

text \<open>The caller of a request receives from its channel.\<close>

definition corr_take :: "nat \<Rightarrow> corr_table \<Rightarrow> (corr_event option \<times> corr_table) outcome" where
  "corr_take a t =
     outcome_bind (chan_recv (corr_store t ! a)) (\<lambda>(ev, c). Return (ev, t\<lparr>corr_store := (corr_store t)[a := c]\<rparr>))"

section \<open>Invariant\<close>

text \<open>
  Entries have different numbers and different channels; a channel still in the map is empty, so a
  send on it does not block; and the channel at an address was made for the number one above it, as long
  as the counter has not wrapped around.
\<close>

definition corr_inv :: "corr_table \<Rightarrow> bool" where
  "corr_inv t \<longleftrightarrow>
     distinct (map fst (corr_map t)) \<and> distinct (map snd (corr_map t)) \<and>
     corr_last t = of_nat (length (corr_store t)) \<and>
     (\<forall>(i, a) \<in> set (corr_map t). a < length (corr_store t) \<and> i = of_nat (a + 1) \<and>
        corr_store t ! a = make_chan 1)"

lemma corr_inv_empty: "corr_inv corr_empty"
  by (simp add: corr_inv_def corr_empty_def)

lemma corr_inv_entry:
  "corr_inv t \<Longrightarrow> (i, a) \<in> set (corr_map t) \<Longrightarrow>
     a < length (corr_store t) \<and> i = of_nat (a + 1) \<and> corr_store t ! a = make_chan 1"
  unfolding corr_inv_def by blast

lemma corr_inv_new:
  assumes "corr_inv t" and "length (corr_store t) + 1 < 2 ^ 64"
  shows "corr_inv (snd (corr_new t)) \<and>
         fst (corr_new t) = (of_nat (length (corr_store t) + 1), length (corr_store t)) \<and>
         corr_map (snd (corr_new t)) = corr_map t @ [(of_nat (length (corr_store t) + 1), length (corr_store t))] \<and>
         corr_store (snd (corr_new t)) = corr_store t @ [make_chan 1]"
proof -
  have bound: "a < length (corr_store t)" and num: "i = of_nat (a + 1)" if "(i, a) \<in> set (corr_map t)" for i a
    using corr_inv_entry [OF assms(1) that] by auto
  have "corr_last t + 1 \<notin> fst ` set (corr_map t)"
  proof
    assume "corr_last t + 1 \<in> fst ` set (corr_map t)"
    then obtain a where a: "(corr_last t + 1, a) \<in> set (corr_map t)" by auto
    have "(of_nat (length (corr_store t) + 1) :: u64) = of_nat (a + 1)"
      using num [OF a] assms(1) by (simp add: corr_inv_def)
    then have "length (corr_store t) + 1 = a + 1"
      using assms(2) bound [OF a] by (subst (asm) of_nat_u64_eq) simp_all
    with bound [OF a] show False by simp
  qed
  then have map: "corr_map (snd (corr_new t)) = corr_map t @ [(corr_last t + 1, length (corr_store t))]"
    and "corr_last t + 1 \<notin> fst ` set (corr_map t)"
    by (simp_all add: corr_new_def Let_def update_fresh)
  moreover have "length (corr_store t) \<notin> snd ` set (corr_map t)" using bound by force
  ultimately show ?thesis
    using assms(1) by (auto simp: corr_inv_def corr_new_def Let_def nth_append map)
qed

lemma corr_inv_clear: "corr_inv t \<Longrightarrow> corr_inv (corr_clear i t)"
  unfolding corr_inv_def corr_clear_def
  by (auto simp: delete_filter distinct_map_filter)

definition full_chan :: "corr_event \<Rightarrow> corr_event chan" where
  "full_chan ev = (make_chan 1)\<lparr>chan_items := [ev]\<rparr>"

text \<open>What a step has done to the channels: each event sent is in its channel, the others are as before.\<close>

definition stored :: "(nat \<times> corr_event) list \<Rightarrow> corr_table \<Rightarrow> corr_table \<Rightarrow> bool" where
  "stored log t t' \<longleftrightarrow> length (corr_store t') = length (corr_store t) \<and>
     (\<forall>(a, ev) \<in> set log. corr_store t' ! a = full_chan ev) \<and>
     (\<forall>b. b \<notin> fst ` set log \<longrightarrow> corr_store t' ! b = corr_store t ! b)"

lemma stored_refl [simp]: "stored [] t t"
  by (simp add: stored_def)

lemma corr_send_ok:
  assumes "corr_inv t" and "(i, a) \<in> set (corr_map t)"
  shows "store_send a ev (corr_clear i t) =
    Return ((corr_clear i t)\<lparr>corr_store := (corr_store t)[a := full_chan ev]\<rparr>)"
  using corr_inv_entry [OF assms]
  by (simp add: store_send_def corr_clear_def chan_send_def make_chan_def full_chan_def)

lemma corr_inv_sent:
  assumes "corr_inv t" and "(i, a) \<in> set (corr_map t)"
  shows "corr_inv ((corr_clear i t)\<lparr>corr_store := (corr_store t)[a := c]\<rparr>)"
proof -
  have "b \<noteq> a" if "(j, b) \<in> set (corr_map (corr_clear i t))" for j b
  proof
    assume "b = a"
    have "(j, b) \<in> set (corr_map t)" and "j \<noteq> i" using that by (auto simp: corr_clear_def delete_filter)
    with assms \<open>b = a\<close> show False by (metis corr_inv_entry)
  qed
  then have "(corr_store t)[a := c] ! b = corr_store t ! b" if "(j, b) \<in> set (corr_map (corr_clear i t))" for j b
    using that by (metis nth_list_update_neq)
  with corr_inv_clear [OF assms(1), of i] show ?thesis
    unfolding corr_inv_def by (fastforce simp: corr_clear_def)
qed

text \<open>A confirmation never blocks; it reaches the channel of its number if that is still in the map.\<close>

lemma corr_complete_ok:
  assumes "corr_inv t"
  shows "\<exists>log t'. corr_complete i err t = Return (log, t') \<and> corr_inv t' \<and>
           stored log t t' \<and>
           corr_map t' = filter (\<lambda>p. fst p \<noteq> i) (corr_map t) \<and>
           log = map (\<lambda>(j, a). (a, \<lparr>ce_id = j, ce_err = err\<rparr>)) (filter (\<lambda>p. fst p = i) (corr_map t))"
proof (cases "map_of (corr_map t) i")
  case None
  then have "i \<notin> fst ` set (corr_map t)" by (simp add: map_of_eq_None_iff)
  then have "filter (\<lambda>p. fst p = i) (corr_map t) = []" and "filter (\<lambda>p. fst p \<noteq> i) (corr_map t) = corr_map t"
    by (auto simp: filter_empty_conv filter_key_fresh)
  with None assms show ?thesis by (simp add: corr_complete_def)
next
  case (Some a)
  then have mem: "(i, a) \<in> set (corr_map t)" by (rule map_of_SomeD)
  have "distinct (map fst (corr_map t))" using assms by (simp add: corr_inv_def)
  then have "filter (\<lambda>p. fst p = i) (corr_map t) = [(i, a)]" using mem by (rule filter_key_single)
  with Some corr_send_ok [OF assms mem] corr_inv_sent [OF assms mem] corr_inv_entry [OF assms mem] show ?thesis
    by (simp add: corr_complete_def Let_def corr_clear_def delete_filter stored_def)
qed

lemma flush_loop_ok:
  "corr_inv t \<Longrightarrow> corr_map t = es \<Longrightarrow>
     \<exists>t'. flush_loop err es t = Return (map (\<lambda>(j, a). (a, \<lparr>ce_id = j, ce_err = Some err\<rparr>)) es, t') \<and>
          corr_inv t' \<and> corr_map t' = [] \<and>
          stored (map (\<lambda>(j, a). (a, \<lparr>ce_id = j, ce_err = Some err\<rparr>)) es) t t'"
proof (induction err es t rule: flush_loop.induct)
  case (1 err t)
  then show ?case by simp
next
  case (2 err i a es t)
  have mem: "(i, a) \<in> set (corr_map t)" using 2 by simp
  define ev where "ev = \<lparr>ce_id = i, ce_err = Some err\<rparr>"
  define t1 where "t1 = (corr_clear i t)\<lparr>corr_store := (corr_store t)[a := full_chan ev]\<rparr>"
  have "i \<notin> fst ` set es" using 2 by (auto simp: corr_inv_def)
  then have map_t1: "corr_map t1 = es" using 2(3) by (simp add: t1_def corr_clear_def delete_filter filter_key_fresh)
  have inv_t1: "corr_inv t1" unfolding t1_def by (rule corr_inv_sent [OF 2(2) mem])
  obtain t' where t': "flush_loop err es t1 = Return (map (\<lambda>(j, a). (a, \<lparr>ce_id = j, ce_err = Some err\<rparr>)) es, t')"
      "corr_inv t'" "corr_map t' = []"
    and st: "stored (map (\<lambda>(j, a). (a, \<lparr>ce_id = j, ce_err = Some err\<rparr>)) es) t1 t'"
    using 2(1) [OF refl inv_t1 map_t1] by blast
  have "a < length (corr_store t)" using corr_inv_entry [OF 2(2) mem] by simp
  moreover have "a \<notin> snd ` set es" using 2 by (auto simp: corr_inv_def)
  then have "a \<notin> fst ` set (map (\<lambda>(j, a). (a, \<lparr>ce_id = j, ce_err = Some err\<rparr>)) es)" by force
  ultimately have "stored ((a, ev) # map (\<lambda>(j, a). (a, \<lparr>ce_id = j, ce_err = Some err\<rparr>)) es) t t'"
    using st by (auto simp: stored_def t1_def)
  with t' corr_send_ok [OF 2(2) mem, of ev, folded t1_def] show ?case
    by (simp add: ev_def)
qed

lemma corr_inv_take: "corr_inv t \<Longrightarrow> corr_take a t = Return (ev, t') \<Longrightarrow>
    corr_inv t' \<and> corr_map t' = corr_map t \<and> length (corr_store t') = length (corr_store t) \<and>
    (\<forall>b. b \<noteq> a \<longrightarrow> corr_store t' ! b = corr_store t ! b)"
proof -
  assume inv: "corr_inv t" and take: "corr_take a t = Return (ev, t')"
  then obtain c where c: "chan_recv (corr_store t ! a) = Return (ev, c)"
    and t': "t' = t\<lparr>corr_store := (corr_store t)[a := c]\<rparr>"
    by (auto simp: corr_take_def outcome_bind_Return)
  have "(corr_store t)[a := c] ! b = corr_store t ! b" if "(i, b) \<in> set (corr_map t)" for i b
  proof -
    have "corr_store t ! b = make_chan 1" using corr_inv_entry [OF inv that] by simp
    with c have "b \<noteq> a" by (auto simp: chan_recv_def make_chan_def)
    then show ?thesis by simp
  qed
  with inv t' show ?thesis unfolding corr_inv_def by fastforce
qed

section \<open>The contract\<close>

datatype corr_op = OpRequest | OpCancel u64 | OpConfirm u64 "go_error option" | OpShutdown | OpTake nat

record 's corr_ops =
  op_request :: "'s \<Rightarrow> (u64 \<times> nat) \<times> 's"
  op_cancel :: "u64 \<Rightarrow> 's \<Rightarrow> 's"
  op_confirm :: "u64 \<Rightarrow> go_error option \<Rightarrow> 's \<Rightarrow> ((nat \<times> corr_event) list \<times> 's) outcome"
  op_shutdown :: "'s \<Rightarrow> ((nat \<times> corr_event) list \<times> 's) outcome"
  op_take :: "nat \<Rightarrow> 's \<Rightarrow> (corr_event option \<times> 's) outcome"

text \<open>
  One operation, and any sequence of them, as concurrent callers and the event thread interleave: each is
  atomic under the lock of the table. The result lists the events sent. A receive that would block
  leaves its caller waiting and changes nothing.
\<close>

fun op_exec :: "('s, 'z) corr_ops_scheme \<Rightarrow> corr_op \<Rightarrow> 's \<Rightarrow> ((nat \<times> corr_event) list \<times> 's) outcome" where
  "op_exec ops OpRequest s = Return ([], snd (op_request ops s))"
| "op_exec ops (OpCancel i) s = Return ([], op_cancel ops i s)"
| "op_exec ops (OpConfirm i err) s = op_confirm ops i err s"
| "op_exec ops OpShutdown s = op_shutdown ops s"
| "op_exec ops (OpTake a) s =
     (case op_take ops a s of
        Return (ev, s') \<Rightarrow> Return ([], s')
      | Blocks \<Rightarrow> Return ([], s)
      | Panics p \<Rightarrow> Panics p)"

fun run_ops :: "('s, 'z) corr_ops_scheme \<Rightarrow> corr_op list \<Rightarrow> 's \<Rightarrow> ((nat \<times> corr_event) list \<times> 's) outcome" where
  "run_ops ops [] s = Return ([], s)"
| "run_ops ops (x # xs) s =
     outcome_bind (op_exec ops x s) (\<lambda>(log, s).
     outcome_bind (run_ops ops xs s) (\<lambda>(log', s). Return (log @ log', s)))"

lemma run_ops_append:
  "run_ops ops xs s = Return (log, s') \<Longrightarrow>
     run_ops ops (xs @ ys) s = outcome_bind (run_ops ops ys s') (\<lambda>(log', s). Return (log @ log', s))"
proof (induction xs arbitrary: s log)
  case Nil
  then show ?case by (cases "run_ops ops ys s") auto
next
  case (Cons x xs)
  then obtain l1 s1 l2 where "op_exec ops x s = Return (l1, s1)" "run_ops ops xs s1 = Return (l2, s')" "log = l1 @ l2"
    by (auto simp: outcome_bind_Return)
  with Cons.IH [of s1 l2] show ?case by (cases "run_ops ops ys s'") auto
qed

text \<open>An event comes from a confirmation with its number, or from the shutdown.\<close>

definition from_ops :: "go_error \<Rightarrow> corr_op list \<Rightarrow> corr_event \<Rightarrow> bool" where
  "from_ops down xs ev \<longleftrightarrow> OpConfirm (ce_id ev) (ce_err ev) \<in> set xs \<or> OpShutdown \<in> set xs \<and> ce_err ev = Some down"

locale completion_table =
  fixes view :: "'s \<Rightarrow> corr_table"
    and ops :: "'s corr_ops"
    and down :: go_error
  assumes view_request: "fst (op_request ops s) = fst (corr_new (view s))"
      "view (snd (op_request ops s)) = snd (corr_new (view s))"
    and view_cancel: "view (op_cancel ops i s) = corr_clear i (view s)"
    and view_confirm: "outcome_map (\<lambda>(log, s). (log, view s)) (op_confirm ops i err s) = corr_complete i err (view s)"
    and view_shutdown: "outcome_map (\<lambda>(log, s). (log, view s)) (op_shutdown ops s) = corr_flush down (view s)"
    and view_take: "outcome_map (\<lambda>(ev, s). (ev, view s)) (op_take ops a s) = corr_take a (view s)"
begin

definition heard :: "corr_op list \<Rightarrow> (nat \<times> corr_event) list \<Rightarrow> 's \<Rightarrow> bool" where
  "heard xs log s \<longleftrightarrow> corr_inv (view s) \<and> distinct (map fst log) \<and>
     (\<forall>(a, ev) \<in> set log. a < length (corr_store (view s)) \<and> ce_id ev = of_nat (a + 1) \<and>
        a \<notin> snd ` set (corr_map (view s))) \<and>
     (\<forall>(a, ev) \<in> set log. from_ops down xs ev \<and> (OpTake a \<notin> set xs \<longrightarrow> corr_store (view s) ! a = full_chan ev)) \<and>
     (\<forall>a < length (corr_store (view s)). a \<in> fst ` set log \<or> a \<in> snd ` set (corr_map (view s)) \<or>
        OpCancel (of_nat (a + 1)) \<in> set xs) \<and>
     length (corr_store (view s)) = length (filter (\<lambda>x. x = OpRequest) xs)"

lemma heard_log: "heard xs log s \<Longrightarrow> (a, ev) \<in> set log \<Longrightarrow>
    a < length (corr_store (view s)) \<and> ce_id ev = of_nat (a + 1) \<and> a \<notin> snd ` set (corr_map (view s))"
  unfolding heard_def by blast

lemma heard_all: "heard xs log s \<Longrightarrow> a < length (corr_store (view s)) \<Longrightarrow>
    a \<in> fst ` set log \<or> a \<in> snd ` set (corr_map (view s)) \<or> OpCancel (of_nat (a + 1)) \<in> set xs"
  unfolding heard_def by blast

lemma heard_basic: "heard xs log s \<Longrightarrow> corr_inv (view s) \<and> distinct (map fst log) \<and>
    length (corr_store (view s)) = length (filter (\<lambda>x. x = OpRequest) xs)"
  unfolding heard_def by blast

lemma heard_event: "heard xs log s \<Longrightarrow> (a, ev) \<in> set log \<Longrightarrow>
    from_ops down xs ev \<and> (OpTake a \<notin> set xs \<longrightarrow> corr_store (view s) ! a = full_chan ev)"
  unfolding heard_def by blast

lemma heardI:
  assumes "corr_inv (view s)" and "distinct (map fst log)"
    and "\<And>a ev. (a, ev) \<in> set log \<Longrightarrow>
           a < length (corr_store (view s)) \<and> ce_id ev = of_nat (a + 1) \<and> a \<notin> snd ` set (corr_map (view s))"
    and "\<And>a ev. (a, ev) \<in> set log \<Longrightarrow>
           from_ops down xs ev \<and> (OpTake a \<notin> set xs \<longrightarrow> corr_store (view s) ! a = full_chan ev)"
    and "\<And>a. a < length (corr_store (view s)) \<Longrightarrow>
           a \<in> fst ` set log \<or> a \<in> snd ` set (corr_map (view s)) \<or> OpCancel (of_nat (a + 1)) \<in> set xs"
    and "length (corr_store (view s)) = length (filter (\<lambda>x. x = OpRequest) xs)"
  shows "heard xs log s"
  using assms unfolding heard_def by blast

lemma heard_initial: "view s = corr_empty \<Longrightarrow> heard [] [] s"
  by (simp add: heard_def corr_inv_empty) (simp add: corr_empty_def)

text \<open>Sending to some of the pending channels and dropping their entries keeps the record true.\<close>

lemma heard_sent:
  assumes "heard xs log s" and "corr_inv (view s')" and "stored l (view s) (view s')"
    and "corr_map (view s') = filter (\<lambda>p. \<not> P p) (corr_map (view s))"
    and "l = map (\<lambda>(j, a). (a, \<lparr>ce_id = j, ce_err = err\<rparr>)) (filter P (corr_map (view s)))"
    and "\<And>j a. (j, a) \<in> set (filter P (corr_map (view s))) \<Longrightarrow> x = OpConfirm j err \<or> x = OpShutdown \<and> err = Some down"
    and "x \<noteq> OpRequest"
  shows "heard (xs @ [x]) (log @ l) s'"
proof -
  have len: "length (corr_store (view s')) = length (corr_store (view s))"
    using assms(3) by (simp add: stored_def)
  have inv: "corr_inv (view s)" using assms(1) by (simp add: heard_def)
  have fst_l: "map fst l = map snd (filter P (corr_map (view s)))"
    by (simp add: assms(5) case_prod_beta comp_def)
  have pending: "a \<in> snd ` set (corr_map (view s))" if "a \<in> fst ` set l" for a
    using that by (force simp: assms(5))
  show ?thesis
  proof (rule heardI)
    show "corr_inv (view s')" by (rule assms(2))
    have "distinct (map fst l)"
      unfolding fst_l using inv by (auto simp: corr_inv_def distinct_map_filter)
    moreover have "fst ` set log \<inter> fst ` set l = {}"
    proof (rule equals0I)
      fix a
      assume "a \<in> fst ` set log \<inter> fst ` set l"
      then obtain ev where "(a, ev) \<in> set log" and "a \<in> snd ` set (corr_map (view s))"
        using pending by auto
      with heard_log [OF assms(1)] show False by blast
    qed
    ultimately show "distinct (map fst (log @ l))" using heard_basic [OF assms(1)] by simp
    show "length (corr_store (view s')) = length (filter (\<lambda>x. x = OpRequest) (xs @ [x]))"
      using heard_basic [OF assms(1)] assms(7) len by simp
  next
    fix a ev
    assume "(a, ev) \<in> set (log @ l)"
    then consider "(a, ev) \<in> set log" | "(a, ev) \<in> set l" by auto
    then show "a < length (corr_store (view s')) \<and> ce_id ev = of_nat (a + 1) \<and> a \<notin> snd ` set (corr_map (view s'))"
    proof cases
      case 1
      with heard_log [OF assms(1) 1] show ?thesis by (auto simp: len assms(4))
    next
      case 2
      then obtain j where j: "(j, a) \<in> set (corr_map (view s))" "P (j, a)" and ev: "ev = \<lparr>ce_id = j, ce_err = err\<rparr>"
        by (auto simp: assms(5))
      have "j' = j" if "(j', a) \<in> set (corr_map (view s))" for j'
        using corr_inv_entry [OF inv that] corr_inv_entry [OF inv j(1)] by simp
      then have "a \<notin> snd ` set (corr_map (view s'))" using j(2) by (auto simp: assms(4))
      with corr_inv_entry [OF inv j(1)] ev show ?thesis by (simp add: len)
    qed
  next
    fix a ev
    assume "(a, ev) \<in> set (log @ l)"
    then consider "(a, ev) \<in> set log" "(a, ev) \<notin> set l" | "(a, ev) \<in> set l" by auto
    then show "from_ops down (xs @ [x]) ev \<and> (OpTake a \<notin> set (xs @ [x]) \<longrightarrow> corr_store (view s') ! a = full_chan ev)"
    proof cases
      case 1
      have "a \<notin> fst ` set l" using pending heard_log [OF assms(1) 1(1)] by blast
      with assms(3) have "corr_store (view s') ! a = corr_store (view s) ! a" by (simp add: stored_def)
      with heard_event [OF assms(1) 1(1)] show ?thesis by (auto simp: from_ops_def)
    next
      case 2
      then obtain j where "(j, a) \<in> set (filter P (corr_map (view s)))" and "ev = \<lparr>ce_id = j, ce_err = err\<rparr>"
        by (auto simp: assms(5))
      with assms(6) have "from_ops down (xs @ [x]) ev" by (auto simp: from_ops_def)
      with assms(3) 2 show ?thesis by (auto simp: stored_def)
    qed
  next
    fix a
    assume "a < length (corr_store (view s'))"
    then have "a < length (corr_store (view s))" by (simp add: len)
    from heard_all [OF assms(1) this]
    show "a \<in> fst ` set (log @ l) \<or> a \<in> snd ` set (corr_map (view s')) \<or> OpCancel (of_nat (a + 1)) \<in> set (xs @ [x])"
      by (force simp: assms(4,5))
  qed
qed

lemma heard_request:
  assumes "heard xs log s" and "length (filter (\<lambda>x. x = OpRequest) xs) + 1 < 2 ^ 64"
  shows "heard (xs @ [OpRequest]) log (snd (op_request ops s))"
proof -
  note basic = heard_basic [OF assms(1)]
  then have new: "corr_inv (snd (corr_new (view s)))"
      "snd ` set (corr_map (snd (corr_new (view s)))) = insert (length (corr_store (view s))) (snd ` set (corr_map (view s)))"
      "length (corr_store (snd (corr_new (view s)))) = length (corr_store (view s)) + 1"
    using corr_inv_new [of "view s"] assms(2) by auto
  show ?thesis
  proof (rule heardI, unfold view_request new)
    show "a < length (corr_store (view s)) + 1 \<and> ce_id ev = of_nat (a + 1) \<and>
        a \<notin> insert (length (corr_store (view s))) (snd ` set (corr_map (view s)))" if "(a, ev) \<in> set log" for a ev
      using heard_log [OF assms(1) that] by auto
    show "from_ops down (xs @ [OpRequest]) ev \<and> (OpTake a \<notin> set (xs @ [OpRequest]) \<longrightarrow>
        corr_store (snd (corr_new (view s))) ! a = full_chan ev)" if "(a, ev) \<in> set log" for a ev
      using heard_event [OF assms(1) that] heard_log [OF assms(1) that]
      by (auto simp: from_ops_def corr_new_def Let_def nth_append)
    show "a \<in> fst ` set log \<or> a \<in> insert (length (corr_store (view s))) (snd ` set (corr_map (view s))) \<or>
        OpCancel (of_nat (a + 1)) \<in> set (xs @ [OpRequest])" if "a < length (corr_store (view s)) + 1" for a
    proof (cases "a = length (corr_store (view s))")
      case False
      with that have "a < length (corr_store (view s))" by simp
      from heard_all [OF assms(1) this] show ?thesis by auto
    qed simp
  qed (use basic new in auto)
qed

lemma heard_cancel:
  assumes "heard xs log s"
  shows "heard (xs @ [OpCancel i]) log (op_cancel ops i s)"
proof (rule heardI, unfold view_cancel)
  note basic = heard_basic [OF assms]
  show "corr_inv (corr_clear i (view s))" using basic by (simp add: corr_inv_clear)
  show "distinct (map fst log)" using basic by simp
  show "length (corr_store (corr_clear i (view s))) = length (filter (\<lambda>x. x = OpRequest) (xs @ [OpCancel i]))"
    using basic by (simp add: corr_clear_def)
  show "a < length (corr_store (corr_clear i (view s))) \<and> ce_id ev = of_nat (a + 1) \<and>
      a \<notin> snd ` set (corr_map (corr_clear i (view s)))" if "(a, ev) \<in> set log" for a ev
    using heard_log [OF assms that] by (auto simp: corr_clear_def delete_filter)
  show "from_ops down (xs @ [OpCancel i]) ev \<and> (OpTake a \<notin> set (xs @ [OpCancel i]) \<longrightarrow>
      corr_store (corr_clear i (view s)) ! a = full_chan ev)" if "(a, ev) \<in> set log" for a ev
    using heard_event [OF assms that] by (auto simp: from_ops_def corr_clear_def)
  fix a
  assume "a < length (corr_store (corr_clear i (view s)))"
  then have "a < length (corr_store (view s))" by (simp add: corr_clear_def)
  note all = heard_all [OF assms this]
  have "j = of_nat (a + 1)" if "(j, a) \<in> set (corr_map (view s))" for j
    using corr_inv_entry basic that by blast
  with all show "a \<in> fst ` set log \<or> a \<in> snd ` set (corr_map (corr_clear i (view s))) \<or>
      OpCancel (of_nat (a + 1)) \<in> set (xs @ [OpCancel i])"
    by (force simp: corr_clear_def delete_filter)
qed

lemma heard_skip:
  assumes "heard xs log s"
  shows "heard (xs @ [OpTake a]) log s"
proof (rule heardI)
  show "from_ops down (xs @ [OpTake a]) ev \<and>
      (OpTake b \<notin> set (xs @ [OpTake a]) \<longrightarrow> corr_store (view s) ! b = full_chan ev)" if "(b, ev) \<in> set log" for b ev
    using heard_event [OF assms that] by (auto simp: from_ops_def)
  show "b \<in> fst ` set log \<or> b \<in> snd ` set (corr_map (view s)) \<or> OpCancel (of_nat (b + 1)) \<in> set (xs @ [OpTake a])"
    if "b < length (corr_store (view s))" for b
    using heard_all [OF assms that] by auto
  show "b < length (corr_store (view s)) \<and> ce_id ev = of_nat (b + 1) \<and> b \<notin> snd ` set (corr_map (view s))"
    if "(b, ev) \<in> set log" for b ev
    using heard_log [OF assms that] .
qed (use heard_basic [OF assms] in auto)

lemma heard_take:
  assumes "heard xs log s" and "corr_take a (view s) = Return (ev, view s')"
  shows "heard (xs @ [OpTake a]) log s'"
proof -
  note skip = heard_skip [OF assms(1), of a]
  have t: "corr_inv (view s')" "corr_map (view s') = corr_map (view s)"
      "length (corr_store (view s')) = length (corr_store (view s))"
      "\<And>b. b \<noteq> a \<Longrightarrow> corr_store (view s') ! b = corr_store (view s) ! b"
    using corr_inv_take [OF _ assms(2)] heard_basic [OF assms(1)] by auto
  show ?thesis
  proof (rule heardI, unfold t(2,3))
    show "from_ops down (xs @ [OpTake a]) ev \<and>
        (OpTake b \<notin> set (xs @ [OpTake a]) \<longrightarrow> corr_store (view s') ! b = full_chan ev)" if "(b, ev) \<in> set log" for b ev
      using heard_event [OF skip that] t(4) [of b] by auto
    show "b < length (corr_store (view s)) \<and> ce_id ev = of_nat (b + 1) \<and> b \<notin> snd ` set (corr_map (view s))"
      if "(b, ev) \<in> set log" for b ev
      using heard_log [OF skip that] .
    show "b \<in> fst ` set log \<or> b \<in> snd ` set (corr_map (view s)) \<or> OpCancel (of_nat (b + 1)) \<in> set (xs @ [OpTake a])"
      if "b < length (corr_store (view s))" for b
      using heard_all [OF skip that] .
  qed (use heard_basic [OF skip] t in auto)
qed

lemma heard_step:
  assumes "heard xs log s" and "length (filter (\<lambda>x. x = OpRequest) (xs @ [x])) < 2 ^ 64"
  shows "\<exists>l s'. op_exec ops x s = Return (l, s') \<and> heard (xs @ [x]) (log @ l) s'"
proof (cases x)
  case OpRequest
  with heard_request [OF assms(1)] assms(2) show ?thesis by simp
next
  case (OpCancel i)
  with heard_cancel [OF assms(1)] show ?thesis by simp
next
  case (OpConfirm i err)
  obtain l t' where "corr_complete i err (view s) = Return (l, t')" and t': "corr_inv t'"
      "stored l (view s) t'" "corr_map t' = filter (\<lambda>p. fst p \<noteq> i) (corr_map (view s))"
    and l: "l = map (\<lambda>(j, a). (a, \<lparr>ce_id = j, ce_err = err\<rparr>)) (filter (\<lambda>p. fst p = i) (corr_map (view s)))"
    using corr_complete_ok [of "view s" i err] heard_basic [OF assms(1)] by blast
  then obtain s' where "op_confirm ops i err s = Return (l, s')" and s': "t' = view s'"
    using view_confirm [of i err s] by (auto simp: outcome_map_Return)
  moreover have "heard (xs @ [x]) (log @ l) s'"
    using t' unfolding s' by (rule heard_sent [OF assms(1) _ _ _ l]) (auto simp: OpConfirm)
  ultimately show ?thesis using OpConfirm by auto
next
  case OpShutdown
  obtain t' where "corr_flush down (view s) =
        Return (map (\<lambda>(j, a). (a, \<lparr>ce_id = j, ce_err = Some down\<rparr>)) (corr_map (view s)), t')" and t': "corr_inv t'"
      "corr_map t' = []" "stored (map (\<lambda>(j, a). (a, \<lparr>ce_id = j, ce_err = Some down\<rparr>)) (corr_map (view s))) (view s) t'"
    using flush_loop_ok [of "view s" _ down] heard_basic [OF assms(1)] unfolding corr_flush_def by blast
  then obtain s' where "op_shutdown ops s =
      Return (map (\<lambda>(j, a). (a, \<lparr>ce_id = j, ce_err = Some down\<rparr>)) (corr_map (view s)), s')" and s': "t' = view s'"
    using view_shutdown [of s] by (auto simp: outcome_map_Return)
  moreover have "heard (xs @ [x]) (log @ map (\<lambda>(j, a). (a, \<lparr>ce_id = j, ce_err = Some down\<rparr>)) (corr_map (view s))) s'"
    using t' unfolding s' by (intro heard_sent [OF assms(1), where P = "\<lambda>p. True" and err = "Some down"]) (simp_all add: OpShutdown)
  ultimately show ?thesis using OpShutdown by auto
next
  case (OpTake a)
  show ?thesis
  proof (cases "op_take ops a s")
    case (Return r)
    obtain ev s' where r: "r = (ev, s')" by (cases r)
    have "corr_take a (view s) = Return (ev, view s')" using view_take [of a s] Return r by simp
    then have "heard (xs @ [x]) log s'" unfolding OpTake by (rule heard_take [OF assms(1)])
    with Return r OpTake show ?thesis by simp
  next
    case Blocks
    have "heard (xs @ [x]) log s" unfolding OpTake using heard_skip [OF assms(1)] .
    with Blocks OpTake show ?thesis by simp
  next
    case (Panics p)
    with view_take [of a s, symmetric] have "corr_take a (view s) = Panics p" by simp
    then show ?thesis by (auto simp: corr_take_def chan_recv_def split: list.splits if_splits)
  qed
qed

lemma heard_run:
  "view s = corr_empty \<Longrightarrow> length (filter (\<lambda>x. x = OpRequest) xs) < 2 ^ 64 \<Longrightarrow>
     \<exists>log s'. run_ops ops xs s = Return (log, s') \<and> heard xs log s'"
proof (induction xs rule: rev_induct)
  case Nil
  then show ?case by (simp add: heard_initial)
next
  case (snoc x xs)
  then obtain log s1 where run: "run_ops ops xs s = Return (log, s1)" and h: "heard xs log s1"
    by (auto split: if_splits)
  from heard_step [OF h snoc.prems(2)] obtain l s' where "op_exec ops x s1 = Return (l, s')"
    and "heard (xs @ [x]) (log @ l) s'" by blast
  then show ?case by (simp add: run_ops_append [OF run])
qed

text \<open>After a shutdown with no request later, nothing is pending.\<close>

lemma heard_shutdown:
  assumes "view s = corr_empty" and "length (filter (\<lambda>x. x = OpRequest) xs) < 2 ^ 64"
    and "run_ops ops (xs @ [OpShutdown]) s = Return (log, s')"
  shows "corr_map (view s') = []"
proof -
  obtain l s1 where run: "run_ops ops xs s = Return (l, s1)" and h: "heard xs l s1"
    using heard_run [OF assms(1,2)] by blast
  obtain t' where "corr_flush down (view s1) =
        Return (map (\<lambda>(j, a). (a, \<lparr>ce_id = j, ce_err = Some down\<rparr>)) (corr_map (view s1)), t')" and "corr_map t' = []"
    using flush_loop_ok [of "view s1" _ down] heard_basic [OF h] unfolding corr_flush_def by blast
  then show ?thesis
    using view_shutdown [of s1] assms(3) by (auto simp: run_ops_append [OF run] outcome_bind_Return outcome_map_Return)
qed

lemma confirmations:
  assumes "view s = corr_empty" and "length (filter (\<lambda>x. x = OpRequest) xs) < 2 ^ 64"
  shows "\<exists>log s'. run_ops ops xs s = Return (log, s') \<and> distinct (map fst log) \<and>
           (\<forall>(a, ev) \<in> set log. ce_id ev = of_nat (a + 1) \<and> from_ops down xs ev \<and>
              (OpTake a \<notin> set xs \<longrightarrow> (\<exists>s''. op_take ops a s' = Return (Some ev, s'')))) \<and>
           (\<forall>ys. xs = ys @ [OpShutdown] \<longrightarrow> (\<forall>a < length (filter (\<lambda>x. x = OpRequest) xs).
              a \<in> fst ` set log \<or> OpCancel (of_nat (a + 1)) \<in> set xs))"
proof -
  obtain log s' where run: "run_ops ops xs s = Return (log, s')" and h: "heard xs log s'"
    using heard_run [OF assms] by blast
  have "\<exists>s''. op_take ops a s' = Return (Some ev, s'')" if "(a, ev) \<in> set log" "OpTake a \<notin> set xs" for a ev
  proof -
    have "corr_store (view s') ! a = full_chan ev" using heard_event [OF h that(1)] that(2) by blast
    then have "\<exists>t. corr_take a (view s') = Return (Some ev, t)"
      by (simp add: corr_take_def full_chan_def chan_recv_def)
    then show ?thesis using view_take [of a s'] by (auto simp: outcome_map_Return)
  qed
  moreover have "a \<in> fst ` set log \<or> OpCancel (of_nat (a + 1)) \<in> set xs"
    if xs: "xs = ys @ [OpShutdown]" and "a < length (filter (\<lambda>x. x = OpRequest) xs)" for ys a
  proof -
    have "corr_map (view s') = []"
      using heard_shutdown [OF assms(1), of ys log s'] run assms(2) unfolding xs by simp
    moreover have "a < length (corr_store (view s'))" using that heard_basic [OF h] by simp
    ultimately show ?thesis using heard_all [OF h] by fastforce
  qed
  ultimately show ?thesis
    using run heard_basic [OF h] heard_log [OF h] heard_event [OF h] by blast
qed

end

end
