(* ===== verification/Metrics.thy ===== *)
theory Metrics
  imports Go_Prelude
begin

text \<open>
  \<^verbatim>\<open>internal/impl/core/metrics.go\<close>: the metrics of a messaging service. A metric is read from a receive
  statistic or a transmit statistic of the C session, from a counter the client keeps itself, or as
  the sum of several statistics. When the transport closes, the statistics are captured, since the
  session is destroyed. The counters of the session are an argument (\<open>session_stats\<close>): what the C
  library answers at the time of the call.
\<close>

section \<open>Metrics and statistics\<close>

text \<open>\<^verbatim>\<open>pkg/solace/metrics/metrics.go\<close> and the generated statistics of \<^verbatim>\<open>internal/ccsmp\<close>.\<close>

datatype Metric =
    BrokerDiscardNotificationsReceived
  | CompressedBytesReceived
  | ConnectionAttempts
  | ControlBytesReceived
  | ControlBytesSent
  | ControlMessagesReceived
  | ControlMessagesSent
  | DirectBytesReceived
  | DirectBytesSent
  | DirectMessagesReceived
  | DirectMessagesSent
  | InternalDiscardNotifications
  | PersistentAcknowledgeSent
  | PersistentBytesReceived
  | PersistentBytesRedelivered
  | PersistentBytesSent
  | PersistentDuplicateMessagesDiscarded
  | PersistentMessagesReceived
  | PersistentMessagesRedelivered
  | PersistentMessagesSent
  | PersistentNoMatchingFlowMessagesDiscarded
  | PersistentOutOfOrderMessagesDiscarded
  | PersistentMessagesAccepted
  | PersistentMessagesFailed
  | PersistentMessagesRejected
  | PublishMessagesDiscarded
  | PublishedMessagesAcknowledged
  | PublisherAcknowledgementReceived
  | PublisherAcknowledgementTimeouts
  | PublisherWindowClosed
  | PublisherWouldBlock
  | TotalBytesReceived
  | TotalBytesSent
  | TotalMessagesReceived
  | TotalMessagesSent
  | TooBigMessagesDiscarded
  | UnknownParameterMessagesDiscarded
  | ReceivedMessagesTerminationDiscarded
  | ReceivedMessagesBackpressureDiscarded
  | PublishMessagesTerminationDiscarded
  | PublishMessagesBackpressureDiscarded
  | CacheRequestsSent
  | CacheRequestsFailed
  | CacheRequestsSucceeded

datatype SolClientStatsRX =
    SolClientStatsRXDirectBytes
  | SolClientStatsRXDirectMsgs
  | SolClientStatsRXReads
  | SolClientStatsRXDiscardInd
  | SolClientStatsRXDiscardSmfUnknownElement
  | SolClientStatsRXDiscardMsgTooBig
  | SolClientStatsRXAcked
  | SolClientStatsRXDiscardDuplicate
  | SolClientStatsRXDiscardNoMatchingFlow
  | SolClientStatsRXDiscardOutoforder
  | SolClientStatsRXPersistentBytes
  | SolClientStatsRXPersistentMsgs
  | SolClientStatsRXNonpersistentBytes
  | SolClientStatsRXNonpersistentMsgs
  | SolClientStatsRXCtlMsgs
  | SolClientStatsRXCtlBytes
  | SolClientStatsRXTotalDataBytes
  | SolClientStatsRXTotalDataMsgs
  | SolClientStatsRXCompressedBytes
  | SolClientStatsRXReplyMsg
  | SolClientStatsRXReplyMsgDiscard
  | SolClientStatsRXCacherequestOkResponse
  | SolClientStatsRXCacherequestFulfillData
  | SolClientStatsRXCacherequestErrorResponse
  | SolClientStatsRXCacherequestDiscardResponse
  | SolClientStatsRXCachemsg
  | SolClientStatsRXFoundCtsync
  | SolClientStatsRXLostCtsync
  | SolClientStatsRXLostCtsyncGm
  | SolClientStatsRXOverflowCtsyncBuffer
  | SolClientStatsRXAlreadyCutThrough
  | SolClientStatsRXDiscardFromCtsync
  | SolClientStatsRXDiscardMsgFlowUnboundPending
  | SolClientStatsRXDiscardMsgTransactionRollback
  | SolClientStatsRXDiscardTransactionResponse
  | SolClientStatsRXSettleAccepted
  | SolClientStatsRXSettleFailed
  | SolClientStatsRXSettleRejected
  | SolClientStatsRXNumStats

datatype SolClientStatsTX =
    SolClientStatsTXTotalDataBytes
  | SolClientStatsTXTotalDataMsgs
  | SolClientStatsTXWouldBlock
  | SolClientStatsTXSocketFull
  | SolClientStatsTXDirectBytes
  | SolClientStatsTXDirectMsgs
  | SolClientStatsTXPersistentBytes
  | SolClientStatsTXNonpersistentBytes
  | SolClientStatsTXPersistentMsgs
  | SolClientStatsTXNonpersistentMsgs
  | SolClientStatsTXPersistentRedelivered
  | SolClientStatsTXNonpersistentRedelivered
  | SolClientStatsTXPersistentBytesRedelivered
  | SolClientStatsTXNonpersistentBytesRedelivered
  | SolClientStatsTXAcksRxed
  | SolClientStatsTXWindowClose
  | SolClientStatsTXAckTimeout
  | SolClientStatsTXCtlMsgs
  | SolClientStatsTXCtlBytes
  | SolClientStatsTXCompressedBytes
  | SolClientStatsTXTotalConnectionAttempts
  | SolClientStatsTXRequestSent
  | SolClientStatsTXRequestTimeout
  | SolClientStatsTXCacherequestSent
  | SolClientStatsTXGuaranteedMsgsSentConfirmed
  | SolClientStatsTXDiscardNoMatch
  | SolClientStatsTXDiscardChannelError
  | SolClientStatsTXBlockedOnSend
  | SolClientStatsTXNumStats

datatype NextGenMetric =
    MetricReceivedMessagesTerminationDiscarded
  | MetricReceivedMessagesBackpressureDiscarded
  | MetricPublishMessagesTerminationDiscarded
  | MetricPublishMessagesBackpressureDiscarded
  | MetricInternalDiscardNotifications

text \<open>The position of a counter in the slice: the constants are numbered by \<^verbatim>\<open>iota\<close>.\<close>

primrec metric_index :: "NextGenMetric \<Rightarrow> nat" where
  "metric_index MetricReceivedMessagesTerminationDiscarded = 0"
| "metric_index MetricReceivedMessagesBackpressureDiscarded = 1"
| "metric_index MetricPublishMessagesTerminationDiscarded = 2"
| "metric_index MetricPublishMessagesBackpressureDiscarded = 3"
| "metric_index MetricInternalDiscardNotifications = 4"

definition metricCount :: nat where
  "metricCount = 5"

section \<open>Where each metric comes from\<close>

definition rxMetrics :: "(Metric \<times> SolClientStatsRX) list" where
  "rxMetrics =
    [(DirectBytesReceived, SolClientStatsRXDirectBytes),
     (DirectMessagesReceived, SolClientStatsRXDirectMsgs),
     (BrokerDiscardNotificationsReceived, SolClientStatsRXDiscardInd),
     (UnknownParameterMessagesDiscarded, SolClientStatsRXDiscardSmfUnknownElement),
     (TooBigMessagesDiscarded, SolClientStatsRXDiscardMsgTooBig),
     (PersistentAcknowledgeSent, SolClientStatsRXAcked),
     (PersistentDuplicateMessagesDiscarded, SolClientStatsRXDiscardDuplicate),
     (PersistentNoMatchingFlowMessagesDiscarded, SolClientStatsRXDiscardNoMatchingFlow),
     (PersistentOutOfOrderMessagesDiscarded, SolClientStatsRXDiscardOutoforder),
     (PersistentBytesReceived, SolClientStatsRXPersistentBytes),
     (PersistentMessagesReceived, SolClientStatsRXPersistentMsgs),
     (ControlMessagesReceived, SolClientStatsRXCtlMsgs),
     (ControlBytesReceived, SolClientStatsRXCtlBytes),
     (TotalBytesReceived, SolClientStatsRXTotalDataBytes),
     (TotalMessagesReceived, SolClientStatsRXTotalDataMsgs),
     (CompressedBytesReceived, SolClientStatsRXCompressedBytes),
     (CacheRequestsFailed, SolClientStatsRXCacherequestErrorResponse),
     (PersistentMessagesAccepted, SolClientStatsRXSettleAccepted),
     (PersistentMessagesFailed, SolClientStatsRXSettleFailed),
     (PersistentMessagesRejected, SolClientStatsRXSettleRejected)]"

definition txMetrics :: "(Metric \<times> SolClientStatsTX) list" where
  "txMetrics =
    [(TotalBytesSent, SolClientStatsTXTotalDataBytes),
     (TotalMessagesSent, SolClientStatsTXTotalDataMsgs),
     (DirectBytesSent, SolClientStatsTXDirectBytes),
     (DirectMessagesSent, SolClientStatsTXDirectMsgs),
     (PersistentBytesSent, SolClientStatsTXPersistentBytes),
     (PersistentMessagesSent, SolClientStatsTXPersistentMsgs),
     (PersistentBytesRedelivered, SolClientStatsTXPersistentBytesRedelivered),
     (PersistentMessagesRedelivered, SolClientStatsTXPersistentRedelivered),
     (PublisherAcknowledgementReceived, SolClientStatsTXAcksRxed),
     (PublisherWindowClosed, SolClientStatsTXWindowClose),
     (PublisherAcknowledgementTimeouts, SolClientStatsTXAckTimeout),
     (ControlMessagesSent, SolClientStatsTXCtlMsgs),
     (ControlBytesSent, SolClientStatsTXCtlBytes),
     (ConnectionAttempts, SolClientStatsTXTotalConnectionAttempts),
     (PublishedMessagesAcknowledged, SolClientStatsTXGuaranteedMsgsSentConfirmed),
     (PublishMessagesDiscarded, SolClientStatsTXDiscardChannelError),
     (PublisherWouldBlock, SolClientStatsTXWouldBlock),
     (CacheRequestsSent, SolClientStatsTXCacherequestSent)]"

definition clientMetrics :: "(Metric \<times> NextGenMetric) list" where
  "clientMetrics =
    [(ReceivedMessagesTerminationDiscarded, MetricReceivedMessagesTerminationDiscarded),
     (ReceivedMessagesBackpressureDiscarded, MetricReceivedMessagesBackpressureDiscarded),
     (PublishMessagesTerminationDiscarded, MetricPublishMessagesTerminationDiscarded),
     (PublishMessagesBackpressureDiscarded, MetricPublishMessagesBackpressureDiscarded),
     (InternalDiscardNotifications, MetricInternalDiscardNotifications)]"

datatype aggregated_stat = AggRX SolClientStatsRX | AggTX SolClientStatsTX

definition aggregatedMetrics :: "(Metric \<times> aggregated_stat list) list" where
  "aggregatedMetrics =
    [(CacheRequestsSucceeded,
      [AggRX SolClientStatsRXCacherequestOkResponse, AggRX SolClientStatsRXCacherequestFulfillData])]"

section \<open>State and operations\<close>

record session_stats =
  SolClientSessionGetRXStat :: "SolClientStatsRX \<Rightarrow> u64"
  SolClientSessionGetTXStat :: "SolClientStatsTX \<Rightarrow> u64"

record ccsmpBackedMetrics =
  metrics :: "u64 list"
  duplicateAcks :: u64
  capturedTxMetrics :: "(SolClientStatsTX \<times> u64) list option"
  capturedRxMetrics :: "(SolClientStatsRX \<times> u64) list option"

definition newCcsmpMetrics :: ccsmpBackedMetrics where
  "newCcsmpMetrics =
     \<lparr>metrics = replicate metricCount 0, duplicateAcks = 0, capturedTxMetrics = None, capturedRxMetrics = None\<rparr>"

definition captureTXStats :: "session_stats \<Rightarrow> ccsmpBackedMetrics \<Rightarrow> ccsmpBackedMetrics" where
  "captureTXStats session m =
     (case capturedTxMetrics m of
        Some _ \<Rightarrow> m
      | None \<Rightarrow> m\<lparr>capturedTxMetrics :=
          Some (foldl (\<lambda>c (_, txStat). AList.update txStat (SolClientSessionGetTXStat session txStat) c) []
                  txMetrics)\<rparr>)"

definition captureRXStats :: "session_stats \<Rightarrow> ccsmpBackedMetrics \<Rightarrow> ccsmpBackedMetrics" where
  "captureRXStats session m =
     (case capturedRxMetrics m of
        Some _ \<Rightarrow> m
      | None \<Rightarrow> m\<lparr>capturedRxMetrics :=
          Some (foldl (\<lambda>c (_, rxStat). AList.update rxStat (SolClientSessionGetRXStat session rxStat) c) []
                  rxMetrics)\<rparr>)"

definition metrics_terminate :: "session_stats \<Rightarrow> ccsmpBackedMetrics \<Rightarrow> ccsmpBackedMetrics" where
  "metrics_terminate session m = captureRXStats session (captureTXStats session m)"

text \<open>Reading a Go map at a missing key gives the zero value.\<close>

definition map_read :: "('k \<times> u64) list \<Rightarrow> 'k \<Rightarrow> u64" where
  "map_read c k = (case map_of c k of Some v \<Rightarrow> v | None \<Rightarrow> 0)"

definition getTXStat :: "session_stats \<Rightarrow> ccsmpBackedMetrics \<Rightarrow> SolClientStatsTX \<Rightarrow> u64" where
  "getTXStat session m stat =
     (case capturedTxMetrics m of
        Some c \<Rightarrow> map_read c stat
      | None \<Rightarrow> SolClientSessionGetTXStat session stat)"

definition getRXStat :: "session_stats \<Rightarrow> ccsmpBackedMetrics \<Rightarrow> SolClientStatsRX \<Rightarrow> u64" where
  "getRXStat session m stat =
     (case capturedRxMetrics m of
        Some c \<Rightarrow> map_read c stat
      | None \<Rightarrow> SolClientSessionGetRXStat session stat)"

definition getNextGenStat :: "ccsmpBackedMetrics \<Rightarrow> NextGenMetric \<Rightarrow> u64" where
  "getNextGenStat m metric = metrics m ! metric_index metric"

fun aggregated_value :: "session_stats \<Rightarrow> ccsmpBackedMetrics \<Rightarrow> aggregated_stat \<Rightarrow> u64" where
  "aggregated_value session m (AggRX stat) = getRXStat session m stat"
| "aggregated_value session m (AggTX stat) = getTXStat session m stat"

definition getAggregateStat :: "session_stats \<Rightarrow> ccsmpBackedMetrics \<Rightarrow> aggregated_stat list \<Rightarrow> u64" where
  "getAggregateStat session m stats = foldl (\<lambda>count stat. count + aggregated_value session m stat) 0 stats"

definition GetStat :: "session_stats \<Rightarrow> ccsmpBackedMetrics \<Rightarrow> Metric \<Rightarrow> u64" where
  "GetStat session m metric =
     (case map_of rxMetrics metric of
        Some rxMetric \<Rightarrow>
          (let rxStat = getRXStat session m rxMetric; duplicateAck = duplicateAcks m
           in if duplicateAck > 0 \<and> metric = PersistentMessagesAccepted then rxStat - duplicateAck else rxStat)
      | None \<Rightarrow> (case map_of txMetrics metric of
        Some txMetric \<Rightarrow> getTXStat session m txMetric
      | None \<Rightarrow> (case map_of clientMetrics metric of
        Some clientMetric \<Rightarrow> getNextGenStat m clientMetric
      | None \<Rightarrow> (case map_of aggregatedMetrics metric of
        Some stats \<Rightarrow> getAggregateStat session m stats
      | None \<Rightarrow> 0))))"

definition zero_all :: "('k \<times> u64) list \<Rightarrow> ('k \<times> u64) list" where
  "zero_all c = map (\<lambda>(k, _). (k, 0)) c"

text \<open>
  \<open>clear\<close> is what \<^verbatim>\<open>SolClientSessionClearStats\<close> does to the counters of the session; its error is only
  logged. Once the statistics are captured, the session is not called.
\<close>

definition resetNativeStats ::
    "(session_stats \<Rightarrow> session_stats) \<Rightarrow> session_stats \<Rightarrow> ccsmpBackedMetrics \<Rightarrow> session_stats \<times> ccsmpBackedMetrics" where
  "resetNativeStats clear session m =
     (if capturedRxMetrics m \<noteq> None
      then (session, m\<lparr>capturedRxMetrics := map_option zero_all (capturedRxMetrics m),
                       capturedTxMetrics := map_option zero_all (capturedTxMetrics m)\<rparr>)
      else (clear session, m))"

definition ResetStats ::
    "(session_stats \<Rightarrow> session_stats) \<Rightarrow> session_stats \<Rightarrow> ccsmpBackedMetrics \<Rightarrow> session_stats \<times> ccsmpBackedMetrics" where
  "ResetStats clear session m =
     resetNativeStats clear session (m\<lparr>metrics := replicate metricCount 0, duplicateAcks := 0\<rparr>)"

definition IncrementMetric :: "NextGenMetric \<Rightarrow> u64 \<Rightarrow> ccsmpBackedMetrics \<Rightarrow> ccsmpBackedMetrics" where
  "IncrementMetric metric amount m =
     m\<lparr>metrics := (metrics m)[metric_index metric := metrics m ! metric_index metric + amount]\<rparr>"

definition incrementDuplicateAckCount :: "ccsmpBackedMetrics \<Rightarrow> ccsmpBackedMetrics" where
  "incrementDuplicateAckCount m = m\<lparr>duplicateAcks := duplicateAcks m + 1\<rparr>"

section \<open>Invariant\<close>

text \<open>
  The slice has one counter per client metric, and the two captured maps are present together: every
  metric that reads a statistic finds it there.
\<close>

definition metrics_wf :: "ccsmpBackedMetrics \<Rightarrow> bool" where
  "metrics_wf m \<longleftrightarrow> length (metrics m) = metricCount \<and>
     (capturedTxMetrics m = None \<longleftrightarrow> capturedRxMetrics m = None) \<and>
     (\<forall>c. capturedTxMetrics m = Some c \<longrightarrow> fst ` set c = snd ` set txMetrics) \<and>
     (\<forall>c. capturedRxMetrics m = Some c \<longrightarrow> fst ` set c = snd ` set rxMetrics)"

lemma metric_index_bound [simp]: "metric_index k < metricCount"
  by (cases k) (simp_all add: metricCount_def)

lemma metric_index_eq [simp]: "metric_index k = metric_index l \<longleftrightarrow> k = l"
  by (cases k; cases l) simp_all

text \<open>The capture loop stores, for every statistic of its table, the value read from the session.\<close>

lemma capture_lookup:
  "map_of (foldl (\<lambda>c (_, s). AList.update s (f s) c) c0 table) =
     (\<lambda>s. if s \<in> snd ` set table then Some (f s) else map_of c0 s)"
proof (induction table arbitrary: c0)
  case Nil
  then show ?case by simp
next
  case (Cons kv table)
  then show ?case by (cases kv) (auto simp: update_conv' fun_eq_iff)
qed

lemma capture_keys:
  "fst ` set (foldl (\<lambda>c (_, s). AList.update s (f s) c) [] table) = snd ` set table"
  using capture_lookup [of f "[]" table] by (auto simp: dom_map_of_conv_image_fst [symmetric] dom_def)

lemma zero_all_keys [simp]: "fst ` set (zero_all c) = fst ` set c"
  by (force simp: zero_all_def)

lemma map_read_zero_all [simp]: "map_read (zero_all c) k = 0"
  unfolding map_read_def zero_all_def by (induction c) (auto split: option.splits)

lemma metrics_wf_new: "metrics_wf newCcsmpMetrics"
  by (simp add: metrics_wf_def newCcsmpMetrics_def)

lemma metrics_wf_terminate: "metrics_wf m \<Longrightarrow> metrics_wf (metrics_terminate session m)"
  by (auto simp: metrics_wf_def metrics_terminate_def captureTXStats_def captureRXStats_def capture_keys
      split: option.splits)

lemma metrics_wf_reset: "metrics_wf m \<Longrightarrow> metrics_wf (snd (ResetStats clear session m))"
  by (simp add: metrics_wf_def ResetStats_def resetNativeStats_def) (metis (no_types, lifting) image_cong zero_all_keys)

lemma metrics_wf_increment: "metrics_wf m \<Longrightarrow> metrics_wf (IncrementMetric k n m)"
  by (simp add: metrics_wf_def IncrementMetric_def)

lemma metrics_wf_duplicate: "metrics_wf m \<Longrightarrow> metrics_wf (incrementDuplicateAckCount m)"
  by (simp add: metrics_wf_def incrementDuplicateAckCount_def)

section \<open>Every metric has one source\<close>

lemma metric_source_cases:
  obtains (rx) r where "map_of rxMetrics metric = Some r" "map_of aggregatedMetrics metric = None"
  | (tx) t where "map_of rxMetrics metric = None" "map_of txMetrics metric = Some t"
      "map_of aggregatedMetrics metric = None"
  | (client) k where "map_of rxMetrics metric = None" "map_of txMetrics metric = None"
      "map_of clientMetrics metric = Some k" "map_of aggregatedMetrics metric = None"
  | (aggregated) "metric = CacheRequestsSucceeded"
  by (cases metric) (simp_all add: rxMetrics_def txMetrics_def clientMetrics_def aggregatedMetrics_def)

text \<open>
  Every metric of the API has exactly one source: it is a key of exactly one of the tables of receive
  statistics, transmit statistics, client counters and aggregates, and no two metrics share a
  statistic or a counter, so no two metrics always read the same value by a mistake in a table.
\<close>

lemma metric_sources_partition:
  "length (filter id [metric \<in> fst ` set rxMetrics, metric \<in> fst ` set txMetrics,
                      metric \<in> fst ` set clientMetrics, metric \<in> fst ` set aggregatedMetrics]) = 1 \<and>
   distinct (map snd rxMetrics) \<and> distinct (map snd txMetrics) \<and> distinct (map snd clientMetrics)"
proof (intro conjI)
  show "length (filter id [metric \<in> fst ` set rxMetrics, metric \<in> fst ` set txMetrics,
      metric \<in> fst ` set clientMetrics, metric \<in> fst ` set aggregatedMetrics]) = 1"
    by (cases metric) (simp_all add: rxMetrics_def txMetrics_def clientMetrics_def aggregatedMetrics_def)
qed (simp_all add: rxMetrics_def txMetrics_def clientMetrics_def)

section \<open>Reading after termination\<close>

lemma getRXStat_terminated:
  assumes "capturedRxMetrics m = None"
  shows "getRXStat session' (metrics_terminate session m) r =
           (if r \<in> snd ` set rxMetrics then SolClientSessionGetRXStat session r else 0)"
  using assms
  by (auto simp: getRXStat_def metrics_terminate_def captureRXStats_def captureTXStats_def map_read_def
      capture_lookup split: option.splits)

lemma getTXStat_terminated:
  assumes "capturedTxMetrics m = None"
  shows "getTXStat session' (metrics_terminate session m) t =
           (if t \<in> snd ` set txMetrics then SolClientSessionGetTXStat session t else 0)"
  using assms
  by (auto simp: getTXStat_def metrics_terminate_def captureRXStats_def captureTXStats_def map_read_def
      capture_lookup split: option.splits)

lemma terminate_other [simp]:
  "metrics (metrics_terminate session m) = metrics m"
  "duplicateAcks (metrics_terminate session m) = duplicateAcks m"
  by (simp_all add: metrics_terminate_def captureRXStats_def captureTXStats_def split: option.splits)

lemma terminate_again: "metrics_terminate session' (metrics_terminate session m) = metrics_terminate session m"
  by (auto simp: metrics_terminate_def captureRXStats_def captureTXStats_def split: option.splits)

text \<open>
  Closing the transport captures the statistics: every metric other than the aggregated one reads
  after \<^verbatim>\<open>terminate\<close> what it read just before, whatever the destroyed session would answer, and a
  second \<^verbatim>\<open>terminate\<close> changes nothing. The aggregated metric is lost: its statistics are not among those
  captured, so it reads zero from then on, whatever its value was.
\<close>

proposition metrics_after_terminate:
  assumes "metrics_wf m" and "capturedRxMetrics m = None"
  shows "(metric \<noteq> CacheRequestsSucceeded \<longrightarrow>
            GetStat session' (metrics_terminate session m) metric = GetStat session m metric) \<and>
         GetStat session' (metrics_terminate session m) CacheRequestsSucceeded = 0 \<and>
         metrics_terminate session' (metrics_terminate session m) = metrics_terminate session m"
proof (intro conjI impI)
  have captured: "capturedRxMetrics m = None" "capturedTxMetrics m = None"
    using assms by (auto simp: metrics_wf_def)
  show "GetStat session' (metrics_terminate session m) metric = GetStat session m metric"
    if "metric \<noteq> CacheRequestsSucceeded"
  proof (cases metric rule: metric_source_cases)
    case (rx r)
    then have "r \<in> snd ` set rxMetrics" by (metis image_eqI map_of_SomeD snd_conv)
    then have "getRXStat session' (metrics_terminate session m) r = getRXStat session m r"
      using getRXStat_terminated [OF captured(1)] by (simp add: getRXStat_def captured)
    with rx show ?thesis by (simp add: GetStat_def Let_def)
  next
    case (tx t)
    then have "t \<in> snd ` set txMetrics" by (metis image_eqI map_of_SomeD snd_conv)
    then have "getTXStat session' (metrics_terminate session m) t = getTXStat session m t"
      using getTXStat_terminated [OF captured(2)] by (simp add: getTXStat_def captured)
    with tx show ?thesis by (simp add: GetStat_def)
  next
    case (client k)
    then show ?thesis by (simp add: GetStat_def getNextGenStat_def)
  next
    case aggregated
    with that show ?thesis by simp
  qed
  show "GetStat session' (metrics_terminate session m) CacheRequestsSucceeded = 0"
    using getRXStat_terminated [OF captured(1)]
    by (simp add: GetStat_def getAggregateStat_def rxMetrics_def txMetrics_def clientMetrics_def
        aggregatedMetrics_def)
  show "metrics_terminate session' (metrics_terminate session m) = metrics_terminate session m"
    by (rule terminate_again)
qed

definition sample_session :: session_stats where
  "sample_session = \<lparr>SolClientSessionGetRXStat = (\<lambda>_. 7), SolClientSessionGetTXStat = (\<lambda>_. 9)\<rparr>"

definition dead_session :: session_stats where
  "dead_session = \<lparr>SolClientSessionGetRXStat = (\<lambda>_. 0), SolClientSessionGetTXStat = (\<lambda>_. 0)\<rparr>"

theorem metrics_after_terminate_witness:
  "GetStat dead_session (metrics_terminate sample_session newCcsmpMetrics) DirectMessagesReceived = 7 \<and>
   GetStat sample_session newCcsmpMetrics CacheRequestsSucceeded = 14 \<and>
   GetStat sample_session (metrics_terminate sample_session newCcsmpMetrics) CacheRequestsSucceeded = 0"
proof -
  have "capturedRxMetrics newCcsmpMetrics = None" by (simp add: newCcsmpMetrics_def)
  note at_end = metrics_after_terminate [OF metrics_wf_new this]
  have "GetStat sample_session newCcsmpMetrics DirectMessagesReceived = 7"
    by (simp add: GetStat_def rxMetrics_def getRXStat_def newCcsmpMetrics_def sample_session_def)
  moreover have "GetStat sample_session newCcsmpMetrics CacheRequestsSucceeded = 14"
    by (simp add: GetStat_def rxMetrics_def txMetrics_def clientMetrics_def aggregatedMetrics_def
        getAggregateStat_def getRXStat_def newCcsmpMetrics_def sample_session_def)
  ultimately show ?thesis
    using at_end [of DirectMessagesReceived dead_session sample_session]
      at_end [of DirectMessagesReceived sample_session sample_session] by simp
qed

section \<open>Counting and resetting\<close>

lemma getNextGenStat_increment:
  "metrics_wf m \<Longrightarrow> getNextGenStat (IncrementMetric k n m) l = getNextGenStat m l + (if k = l then n else 0)"
  by (simp add: getNextGenStat_def IncrementMetric_def metrics_wf_def nth_list_update)

fun count_all :: "(NextGenMetric \<times> u64) list \<Rightarrow> ccsmpBackedMetrics \<Rightarrow> ccsmpBackedMetrics" where
  "count_all [] m = m"
| "count_all ((k, n) # es) m = count_all es (IncrementMetric k n m)"

lemma count_all_nextgen:
  "metrics_wf m \<Longrightarrow>
     getNextGenStat (count_all es m) l = getNextGenStat m l + sum_list (map snd (filter (\<lambda>e. fst e = l) es)) \<and>
     metrics_wf (count_all es m)"
  by (induction es m rule: count_all.induct)
    (auto simp: getNextGenStat_increment metrics_wf_increment algebra_simps)

lemma GetStat_reset:
  assumes "metrics_wf m"
    and "\<And>r. SolClientSessionGetRXStat (clear session) r = 0"
    and "\<And>t. SolClientSessionGetTXStat (clear session) t = 0"
    and "ResetStats clear session m = (session', m')"
  shows "GetStat session' m' metric = 0"
proof -
  have "getRXStat session' m' r = 0" for r
    using assms by (auto simp: ResetStats_def resetNativeStats_def getRXStat_def metrics_wf_def
        split: if_splits option.splits)
  moreover have "getTXStat session' m' t = 0" for t
    using assms by (auto simp: ResetStats_def resetNativeStats_def getTXStat_def metrics_wf_def
        split: if_splits option.splits)
  moreover have "getNextGenStat m' k = 0" and "duplicateAcks m' = 0" for k
    using assms(4) by (auto simp: ResetStats_def resetNativeStats_def getNextGenStat_def split: if_splits)
  ultimately show ?thesis
    by (cases metric rule: metric_source_cases)
      (simp_all add: GetStat_def getAggregateStat_def aggregatedMetrics_def rxMetrics_def txMetrics_def
        clientMetrics_def)
qed

lemma GetStat_client: "map_of clientMetrics metric = Some k \<Longrightarrow> GetStat session m metric = getNextGenStat m k"
  by (cases metric) (simp_all add: GetStat_def rxMetrics_def txMetrics_def clientMetrics_def)

text \<open>
  Resetting and counting: after \<^verbatim>\<open>ResetStats\<close>, with a session whose counters read zero once cleared, every
  metric reads zero, connected or closed; and after that a client metric reads the sum, modulo
  \<open>2 ^ 64\<close>, of the amounts added to it since, whatever was added to the others.
\<close>

proposition metrics_reset_and_count:
  assumes "metrics_wf m"
    and "\<And>r. SolClientSessionGetRXStat (clear session) r = 0"
    and "\<And>t. SolClientSessionGetTXStat (clear session) t = 0"
    and "ResetStats clear session m = (session', m')"
  shows "GetStat session' m' metric = 0 \<and>
         (map_of clientMetrics metric = Some k \<longrightarrow>
            GetStat later (count_all es m') metric = sum_list (map snd (filter (\<lambda>e. fst e = k) es)))"
proof (intro conjI impI)
  show "GetStat session' m' metric = 0" by (rule GetStat_reset [OF assms])
  assume k: "map_of clientMetrics metric = Some k"
  have "metrics_wf m'" using metrics_wf_reset [OF assms(1), of clear session] assms(4) by simp
  moreover have "getNextGenStat m' k = 0"
    using GetStat_reset [OF assms, of metric] GetStat_client [OF k] by simp
  ultimately show "GetStat later (count_all es m') metric = sum_list (map snd (filter (\<lambda>e. fst e = k) es))"
    by (simp add: GetStat_client [OF k] count_all_nextgen)
qed

theorem metrics_reset_and_count_witness:
  "GetStat dead_session (count_all [(MetricInternalDiscardNotifications, 3), (MetricPublishMessagesTerminationDiscarded, 5),
       (MetricInternalDiscardNotifications, 4)] (snd (ResetStats (\<lambda>_. dead_session) sample_session newCcsmpMetrics)))
     InternalDiscardNotifications = 7"
  using metrics_reset_and_count [OF metrics_wf_new, of "\<lambda>_. dead_session" sample_session
      "fst (ResetStats (\<lambda>_. dead_session) sample_session newCcsmpMetrics)" _ InternalDiscardNotifications
      MetricInternalDiscardNotifications dead_session "[(MetricInternalDiscardNotifications, 3),
       (MetricPublishMessagesTerminationDiscarded, 5), (MetricInternalDiscardNotifications, 4)]"]
  by (simp add: dead_session_def clientMetrics_def)

text \<open>
  Messages a receiver acknowledges automatically and the application once more are counted twice by the
  session; the client takes the duplicates out of the accepted metric, and out of no other. As long as
  the session has counted every duplicate, the result is the exact difference, without wrap-around.
\<close>

proposition duplicate_acknowledgements_discounted:
  assumes "metrics_wf m" and "duplicateAcks m < 2 ^ 64 - 1"
    and "duplicateAcks m + 1 \<le> getRXStat session m SolClientStatsRXSettleAccepted"
  shows "unat (GetStat session (incrementDuplicateAckCount m) PersistentMessagesAccepted) =
           unat (getRXStat session m SolClientStatsRXSettleAccepted) - (unat (duplicateAcks m) + 1) \<and>
         (metric \<noteq> PersistentMessagesAccepted \<longrightarrow>
            GetStat session (incrementDuplicateAckCount m) metric = GetStat session m metric)"
proof (intro conjI impI)
  have "duplicateAcks m \<noteq> - 1" using assms(2) by auto
  then have one: "unat (duplicateAcks m + 1) = unat (duplicateAcks m) + 1"
    using unatSuc [of "duplicateAcks m"] by (metis Suc_eq_plus1 add.commute eq_neg_iff_add_eq_0)
  then have pos: "duplicateAcks m + 1 > 0" by (metis add_is_0 one_neq_zero unat_0 word_gt_0)
  have rx: "getRXStat session (incrementDuplicateAckCount m) r = getRXStat session m r" for r
    by (simp add: getRXStat_def incrementDuplicateAckCount_def)
  have tx: "getTXStat session (incrementDuplicateAckCount m) t = getTXStat session m t" for t
    by (simp add: getTXStat_def incrementDuplicateAckCount_def)
  have agg: "aggregated_value session (incrementDuplicateAckCount m) a = aggregated_value session m a" for a
    by (cases a) (simp_all add: rx tx)
  have nextgen: "getNextGenStat (incrementDuplicateAckCount m) k = getNextGenStat m k" for k
    by (simp add: getNextGenStat_def incrementDuplicateAckCount_def)
  have "GetStat session (incrementDuplicateAckCount m) PersistentMessagesAccepted =
      getRXStat session m SolClientStatsRXSettleAccepted - (duplicateAcks m + 1)"
    using pos by (simp add: GetStat_def rxMetrics_def rx) (simp add: incrementDuplicateAckCount_def)
  then show "unat (GetStat session (incrementDuplicateAckCount m) PersistentMessagesAccepted) =
      unat (getRXStat session m SolClientStatsRXSettleAccepted) - (unat (duplicateAcks m) + 1)"
    using unat_sub [OF assms(3)] one by simp
  show "GetStat session (incrementDuplicateAckCount m) metric = GetStat session m metric"
    if "metric \<noteq> PersistentMessagesAccepted"
    using that unfolding GetStat_def getAggregateStat_def
    by (simp add: rx tx agg Let_def nextgen cong: option.case_cong)
qed

theorem duplicate_acknowledgements_discounted_witness:
  "unat (GetStat sample_session (incrementDuplicateAckCount newCcsmpMetrics) PersistentMessagesAccepted) = 6"
  using duplicate_acknowledgements_discounted [OF metrics_wf_new, of sample_session]
  by (simp add: newCcsmpMetrics_def getRXStat_def sample_session_def)

end
