(* ===== verification/Core_Receiver.thy ===== *)
theory Core_Receiver
  imports Correlations Core_Events Metrics
begin

text \<open>
  \<^verbatim>\<open>internal/impl/core/receiver.go\<close>: the core receiver of a transport. It dispatches messages of the session to
  the callback registered under the message's dispatch number, and it keeps the table of subscription
  requests that wait for their confirmation. Each operation on the callback map or on the table holds the
  respective lock and is one atomic step. What the C library answers to a call is an argument; a closure
  registered with the event service is an argument too. Correlation pointers carry the number of the
  request, so they are numbers here.
\<close>

section \<open>State\<close>

record 'cb ccsmpBackedReceiver =
  rx_running :: nat
  rxMap :: "u64 \<rightharpoonup> 'cb"
  dispatchID :: u64
  subscriptionCorrelations :: corr_table
  subscriptionOkEvent :: u64
  subscriptionErrorEvent :: u64
  messageCallbackSet :: bool

definition newCcsmpReceiver :: "'cb ccsmpBackedReceiver" where
  "newCcsmpReceiver =
     \<lparr>rx_running = 0, rxMap = Map.empty, dispatchID = 0, subscriptionCorrelations = corr_empty,
      subscriptionOkEvent = 0, subscriptionErrorEvent = 0, messageCallbackSet = False\<rparr>"

section \<open>Subscription correlations\<close>

definition newSubscriptionCorrelation :: "'cb ccsmpBackedReceiver \<Rightarrow> (u64 \<times> nat) \<times> 'cb ccsmpBackedReceiver" where
  "newSubscriptionCorrelation receiver =
     (let (r, t) = corr_new (subscriptionCorrelations receiver)
      in (r, receiver\<lparr>subscriptionCorrelations := t\<rparr>))"

definition ClearSubscriptionCorrelation :: "u64 \<Rightarrow> 'cb ccsmpBackedReceiver \<Rightarrow> 'cb ccsmpBackedReceiver" where
  "ClearSubscriptionCorrelation i receiver =
     receiver\<lparr>subscriptionCorrelations := corr_clear i (subscriptionCorrelations receiver)\<rparr>"

definition handleSubscriptionEvent ::
    "u64 \<Rightarrow> go_error option \<Rightarrow> 'cb ccsmpBackedReceiver \<Rightarrow> ((nat \<times> corr_event) list \<times> 'cb ccsmpBackedReceiver) outcome" where
  "handleSubscriptionEvent corrP err receiver =
     outcome_bind (corr_complete corrP err (subscriptionCorrelations receiver)) (\<lambda>(log, t).
       Return (log, receiver\<lparr>subscriptionCorrelations := t\<rparr>))"

definition handleSubscriptionOK ::
    "u64 \<Rightarrow> sessionEventInfo \<Rightarrow> 'cb ccsmpBackedReceiver \<Rightarrow> ((nat \<times> corr_event) list \<times> 'cb ccsmpBackedReceiver) outcome" where
  "handleSubscriptionOK corrP event receiver = handleSubscriptionEvent corrP None receiver"

definition handleSubscriptionErr ::
    "u64 \<Rightarrow> sessionEventInfo \<Rightarrow> 'cb ccsmpBackedReceiver \<Rightarrow> ((nat \<times> corr_event) list \<times> 'cb ccsmpBackedReceiver) outcome" where
  "handleSubscriptionErr corrP event receiver = handleSubscriptionEvent corrP (sei_err event) receiver"

text \<open>A caller of \<^verbatim>\<open>Subscribe\<close> receives from the channel it was given.\<close>

definition subscription_await ::
    "nat \<Rightarrow> 'cb ccsmpBackedReceiver \<Rightarrow> (corr_event option \<times> 'cb ccsmpBackedReceiver) outcome" where
  "subscription_await c receiver =
     outcome_bind (corr_take c (subscriptionCorrelations receiver)) (\<lambda>(ev, t).
       Return (ev, receiver\<lparr>subscriptionCorrelations := t\<rparr>))"

section \<open>Start and termination\<close>

definition receiver_start ::
    "'h \<Rightarrow> 'h \<Rightarrow> 'h ccsmpBackedEvents \<Rightarrow> 'cb ccsmpBackedReceiver \<Rightarrow> 'h ccsmpBackedEvents \<times> 'cb ccsmpBackedReceiver" where
  "receiver_start okHandler errHandler events receiver =
     (let (swapped, run) = CompareAndSwap 0 1 (rx_running receiver)
      in if \<not> swapped then (events, receiver)
         else
           let (i, events) = AddEventHandler SolClientSubscriptionOk okHandler events;
               (j, events) = AddEventHandler SolClientSubscriptionError errHandler events
           in (events, receiver\<lparr>rx_running := run, messageCallbackSet := True,
                                subscriptionOkEvent := i, subscriptionErrorEvent := j\<rparr>))"

definition subscriptionTerminationError :: go_error where
  "subscriptionTerminationError =
     NewError ServiceUnreachableError CouldNotConfirmSubscriptionServiceUnavailable [] None"

text \<open>The last part of \<^verbatim>\<open>terminate\<close>: every caller that still waits is interrupted with an error.\<close>

definition interrupt_subscriptions ::
    "'cb ccsmpBackedReceiver \<Rightarrow> ((nat \<times> corr_event) list \<times> 'cb ccsmpBackedReceiver) outcome" where
  "interrupt_subscriptions receiver =
     outcome_bind (corr_flush subscriptionTerminationError (subscriptionCorrelations receiver)) (\<lambda>(log, t).
       Return (log, receiver\<lparr>subscriptionCorrelations := t\<rparr>))"

definition core_receiver_terminate ::
    "'h ccsmpBackedEvents \<Rightarrow> 'cb ccsmpBackedReceiver
       \<Rightarrow> ((nat \<times> corr_event) list \<times> 'h ccsmpBackedEvents \<times> 'cb ccsmpBackedReceiver) outcome" where
  "core_receiver_terminate events receiver =
     (let (swapped, run) = CompareAndSwap 1 0 (rx_running receiver)
      in if \<not> swapped then Return ([], events, receiver)
         else
           let receiver = receiver\<lparr>rx_running := run, messageCallbackSet := False\<rparr>;
               events = RemoveEventHandler (subscriptionOkEvent receiver) events;
               events = RemoveEventHandler (subscriptionErrorEvent receiver) events
           in outcome_bind (interrupt_subscriptions receiver) (\<lambda>(log, receiver). Return (log, events, receiver)))"

definition core_receiver_IsRunning :: "'cb ccsmpBackedReceiver \<Rightarrow> bool" where
  "core_receiver_IsRunning receiver \<longleftrightarrow> rx_running receiver = 1"

section \<open>Message dispatch\<close>

text \<open>\<open>None\<close> when no callback is registered; otherwise what the callback returns.\<close>

definition rxCallback :: "'m \<Rightarrow> u64 \<Rightarrow> ('m \<Rightarrow> bool) ccsmpBackedReceiver \<Rightarrow> bool" where
  "rxCallback msg ptr receiver =
     (case rxMap receiver ptr of None \<Rightarrow> False | Some callback \<Rightarrow> callback msg)"

definition RegisterRXCallback :: "'cb \<Rightarrow> 'cb ccsmpBackedReceiver \<Rightarrow> u64 \<times> 'cb ccsmpBackedReceiver" where
  "RegisterRXCallback msgCallback receiver =
     (let dispatchPointer = dispatchID receiver + 1
      in (dispatchPointer, receiver\<lparr>dispatchID := dispatchPointer,
                                    rxMap := (rxMap receiver)(dispatchPointer \<mapsto> msgCallback)\<rparr>))"

definition UnregisterRXCallback :: "u64 \<Rightarrow> 'cb ccsmpBackedReceiver \<Rightarrow> 'cb ccsmpBackedReceiver" where
  "UnregisterRXCallback ptr receiver = receiver\<lparr>rxMap := (rxMap receiver)(ptr := None)\<rparr>"

section \<open>Subscribing\<close>

text \<open>
  The four requests that wait for a confirmation have one shape: enter the table, call the C library
  with the number, and leave the table again if the call fails at once. The result is the number
  and the channel, or the error.
\<close>

definition Subscribe ::
    "(string \<Rightarrow> u64 \<Rightarrow> u64 \<Rightarrow> ErrorInfo option) \<Rightarrow> string \<Rightarrow> u64 \<Rightarrow> 'cb ccsmpBackedReceiver
       \<Rightarrow> (ErrorInfo + (u64 \<times> nat)) \<times> 'cb ccsmpBackedReceiver" where
  "Subscribe SolClientSessionSubscribe topic ptr receiver =
     (let ((i, c), receiver) = newSubscriptionCorrelation receiver
      in case SolClientSessionSubscribe topic ptr i of
           Some errInfo \<Rightarrow> (Inl errInfo, ClearSubscriptionCorrelation i receiver)
         | None \<Rightarrow> (Inr (i, c), receiver))"

definition Unsubscribe ::
    "(string \<Rightarrow> u64 \<Rightarrow> u64 \<Rightarrow> ErrorInfo option) \<Rightarrow> string \<Rightarrow> u64 \<Rightarrow> 'cb ccsmpBackedReceiver
       \<Rightarrow> (ErrorInfo + (u64 \<times> nat)) \<times> 'cb ccsmpBackedReceiver" where
  "Unsubscribe SolClientSessionUnsubscribe topic ptr receiver =
     (let ((i, c), receiver) = newSubscriptionCorrelation receiver
      in case SolClientSessionUnsubscribe topic ptr i of
           Some errInfo \<Rightarrow> (Inl errInfo, ClearSubscriptionCorrelation i receiver)
         | None \<Rightarrow> (Inr (i, c), receiver))"

datatype endpoint_property =
    SolClientEndpointPropID | SolClientEndpointPropQueue | SolClientEndpointPropDurable | SolClientPropEnableVal
  | SolClientEndpointPropName | SolClientEndpointPropAccesstype | SolClientEndpointPropAccesstypeExclusive
  | SolClientEndpointPropAccesstypeNonexclusive | EndpointText string

definition getEndpointProperties :: "string \<Rightarrow> endpoint_property list" where
  "getEndpointProperties queueName =
     [SolClientEndpointPropID, SolClientEndpointPropQueue,
      SolClientEndpointPropDurable, SolClientPropEnableVal,
      SolClientEndpointPropName, EndpointText queueName]"

definition ProvisionEndpoint ::
    "(endpoint_property list \<Rightarrow> ErrorInfo option) \<Rightarrow> string \<Rightarrow> bool \<Rightarrow> ErrorInfo option" where
  "ProvisionEndpoint SolClientEndpointProvision queueName isExclusive =
     SolClientEndpointProvision
       (getEndpointProperties queueName @ [SolClientEndpointPropAccesstype] @
        (if isExclusive then [SolClientEndpointPropAccesstypeExclusive]
         else [SolClientEndpointPropAccesstypeNonexclusive]))"

definition EndpointUnsubscribe ::
    "(endpoint_property list \<Rightarrow> string \<Rightarrow> u64 \<Rightarrow> ErrorInfo option) \<Rightarrow> string \<Rightarrow> string \<Rightarrow> 'cb ccsmpBackedReceiver
       \<Rightarrow> (ErrorInfo + (u64 \<times> nat)) \<times> 'cb ccsmpBackedReceiver" where
  "EndpointUnsubscribe SolClientEndpointUnsusbcribe queueName topic receiver =
     (let ((i, c), receiver) = newSubscriptionCorrelation receiver
      in case SolClientEndpointUnsusbcribe (getEndpointProperties queueName) topic i of
           Some errInfo \<Rightarrow> (Inl errInfo, ClearSubscriptionCorrelation i receiver)
         | None \<Rightarrow> (Inr (i, c), receiver))"

text \<open>The two requests of a flow, on the table of its parent.\<close>

definition flow_Subscribe ::
    "(string \<Rightarrow> u64 \<Rightarrow> ErrorInfo option) \<Rightarrow> string \<Rightarrow> 'cb ccsmpBackedReceiver
       \<Rightarrow> (ErrorInfo + (u64 \<times> nat)) \<times> 'cb ccsmpBackedReceiver" where
  "flow_Subscribe SolClientFlowSubscribe topic parent =
     (let ((i, c), parent) = newSubscriptionCorrelation parent
      in case SolClientFlowSubscribe topic i of
           Some errInfo \<Rightarrow> (Inl errInfo, ClearSubscriptionCorrelation i parent)
         | None \<Rightarrow> (Inr (i, c), parent))"

definition flow_Unsubscribe ::
    "(string \<Rightarrow> u64 \<Rightarrow> ErrorInfo option) \<Rightarrow> string \<Rightarrow> 'cb ccsmpBackedReceiver
       \<Rightarrow> (ErrorInfo + (u64 \<times> nat)) \<times> 'cb ccsmpBackedReceiver" where
  "flow_Unsubscribe SolClientFlowUnsubscribe topic parent =
     (let ((i, c), parent) = newSubscriptionCorrelation parent
      in case SolClientFlowUnsubscribe topic i of
           Some errInfo \<Rightarrow> (Inl errInfo, ClearSubscriptionCorrelation i parent)
         | None \<Rightarrow> (Inr (i, c), parent))"

section \<open>The registry of callbacks\<close>

definition rx_wf :: "'cb ccsmpBackedReceiver \<Rightarrow> bool" where
  "rx_wf receiver \<longleftrightarrow> (\<forall>i. rxMap receiver i \<noteq> None \<longrightarrow> i \<le> dispatchID receiver)"

lemma rx_wf_new: "rx_wf newCcsmpReceiver"
  by (simp add: rx_wf_def newCcsmpReceiver_def)

interpretation rxreg: handler_registry RegisterRXCallback UnregisterRXCallback rxMap dispatchID rx_wf
proof unfold_locales
  fix s :: "'a ccsmpBackedReceiver" and h
  assume wf: "rx_wf s" and nomax: "dispatchID s \<noteq> - 1"
  have "dispatchID s \<le> dispatchID s + 1" using nomax by (metis inc_less_eq_self_iff_eq linear)
  with wf show "rx_wf (snd (RegisterRXCallback h s))"
    by (auto simp: rx_wf_def RegisterRXCallback_def Let_def intro: order_trans)
qed (auto simp: rx_wf_def RegisterRXCallback_def UnregisterRXCallback_def Let_def split: if_splits)

text \<open>
  Message dispatch. With fewer than \<open>2 ^ 64\<close> registrations, callbacks registered one after the other get
  different dispatch numbers; a message for the number of one of them is handed to that callback and its
  answer is returned, and after it is unregistered the message is refused while every other number keeps
  its callback.
\<close>

proposition rx_dispatch:
  assumes "rx_wf r" and "unat (dispatchID r) + length cbs < 2 ^ 64"
    and "add_many RegisterRXCallback cbs r = (ptrs, r')"
  shows "distinct ptrs \<and> (\<forall>k < length cbs.
           rxCallback msg (ptrs ! k) r' = (cbs ! k) msg \<and>
           \<not> rxCallback msg (ptrs ! k) (UnregisterRXCallback (ptrs ! k) r') \<and>
           (\<forall>j < length cbs. j \<noteq> k \<longrightarrow>
              rxCallback msg (ptrs ! j) (UnregisterRXCallback (ptrs ! k) r') = (cbs ! j) msg))"
proof -
  note reg = rxreg.add_many_lookup [OF assms]
  then have "length ptrs = length cbs" and "distinct ptrs"
    and "\<forall>k < length cbs. rxMap r' (ptrs ! k) = Some (cbs ! k)" by blast+
  then show ?thesis
    by (auto simp: rxCallback_def UnregisterRXCallback_def nth_eq_iff_index_eq)
qed

theorem rx_dispatch_witness:
  "let r = snd (RegisterRXCallback (\<lambda>m. m = ''b'') (snd (RegisterRXCallback (\<lambda>m. m = ''a'') newCcsmpReceiver)))
   in rxCallback ''a'' 1 r \<and> \<not> rxCallback ''b'' 1 r \<and> rxCallback ''b'' 2 (UnregisterRXCallback 1 r)"
  using rx_dispatch [OF rx_wf_new, of "[\<lambda>m. m = ''a'', \<lambda>m. m = ''b'']" "[1, 2]" _ "''a''"]
    rx_dispatch [OF rx_wf_new, of "[\<lambda>m. m = ''a'', \<lambda>m. m = ''b'']" "[1, 2]" _ "''b''"]
  by (simp add: newCcsmpReceiver_def RegisterRXCallback_def Let_def nth_Cons All_less_Suc)

section \<open>The table of subscriptions\<close>

definition subscription_ops :: "'cb ccsmpBackedReceiver corr_ops" where
  "subscription_ops =
     \<lparr>op_request = newSubscriptionCorrelation, op_cancel = ClearSubscriptionCorrelation,
      op_confirm = handleSubscriptionEvent, op_shutdown = interrupt_subscriptions,
      op_take = subscription_await\<rparr>"

interpretation subtab: completion_table subscriptionCorrelations subscription_ops subscriptionTerminationError
  by unfold_locales
    (simp_all add: subscription_ops_def newSubscriptionCorrelation_def ClearSubscriptionCorrelation_def
      handleSubscriptionEvent_def interrupt_subscriptions_def subscription_await_def outcome_map_bind
      case_prod_beta outcome_bind_Return_id)

text \<open>
  C8. Subscription requests, confirmations, cancellations, waits and the interruption at termination, in any order
  in which concurrent callers and the event thread run them, with fewer than \<open>2 ^ 64\<close> requests: none of
  them blocks the event thread; every request hears at most once; what it hears carries its own number and
  comes from a confirmation with that number or from the interruption; the event stays in its channel
  until its caller receives it; and when the interruption comes last, every request that was not
  cancelled has heard.
\<close>

proposition subscription_confirmations:
  assumes "subscriptionCorrelations r = corr_empty" and "length (filter (\<lambda>x. x = OpRequest) xs) < 2 ^ 64"
  shows "\<exists>log r'. run_ops subscription_ops xs r = Return (log, r') \<and> distinct (map fst log) \<and>
           (\<forall>(a, ev) \<in> set log. ce_id ev = of_nat (a + 1) \<and> from_ops subscriptionTerminationError xs ev \<and>
              (OpTake a \<notin> set xs \<longrightarrow> (\<exists>r''. subscription_await a r' = Return (Some ev, r'')))) \<and>
           (\<forall>ys. xs = ys @ [OpShutdown] \<longrightarrow> (\<forall>a < length (filter (\<lambda>x. x = OpRequest) xs).
              a \<in> fst ` set log \<or> OpCancel (of_nat (a + 1)) \<in> set xs))"
  using subtab.confirmations [OF assms] by (simp add: subscription_ops_def)

theorem subscription_confirmations_witness:
  "\<exists>log r'. run_ops subscription_ops [OpRequest, OpRequest, OpConfirm 2 None, OpConfirm 2 None, OpTake 1, OpShutdown]
       (newCcsmpReceiver :: nat ccsmpBackedReceiver) = Return (log, r') \<and> fst ` set log = {0, 1}"
proof -
  have "subscriptionCorrelations (newCcsmpReceiver :: nat ccsmpBackedReceiver) = corr_empty"
    by (simp add: newCcsmpReceiver_def)
  from subscription_confirmations [OF this,
      of "[OpRequest, OpRequest, OpConfirm 2 None, OpConfirm 2 None, OpTake 1, OpShutdown]"]
  show ?thesis
    by (simp add: subscription_ops_def newSubscriptionCorrelation_def handleSubscriptionEvent_def
        interrupt_subscriptions_def subscription_await_def corr_new_def corr_complete_def corr_flush_def
        store_send_def corr_clear_def chan_send_def make_chan_def corr_take_def chan_recv_def
        newCcsmpReceiver_def corr_empty_def Let_def) auto
qed

text \<open>
  The five requests that wait for a confirmation enter the table and return the number and the channel of their entry
  when the C library accepts the call. When it refuses, they return its error and leave the pending
  entries exactly as they were; the used-up number is not given out again. They touch nothing
  but the table.
\<close>

proposition subscribe_effect:
  assumes "corr_inv (subscriptionCorrelations r)" and "length (corr_store (subscriptionCorrelations r)) + 1 < 2 ^ 64"
    and "f \<in> {Subscribe sub topic ptr, Unsubscribe sub topic ptr, EndpointUnsubscribe esub queue topic,
              flow_Subscribe fsub topic, flow_Unsubscribe fsub topic}"
    and "f r = (res, r')"
  shows "r' = r\<lparr>subscriptionCorrelations := subscriptionCorrelations r'\<rparr> \<and>
         corr_inv (subscriptionCorrelations r') \<and>
         corr_last (subscriptionCorrelations r') = corr_last (subscriptionCorrelations r) + 1 \<and>
         (case res of
            Inl e \<Rightarrow> corr_map (subscriptionCorrelations r') = corr_map (subscriptionCorrelations r)
          | Inr (i, c) \<Rightarrow> corr_map (subscriptionCorrelations r') = corr_map (subscriptionCorrelations r) @ [(i, c)] \<and>
              i = corr_last (subscriptionCorrelations r'))"
proof -
  let ?t = "subscriptionCorrelations r"
  let ?n = "(of_nat (length (corr_store ?t) + 1) :: u64)"
  obtain t where new: "corr_new ?t = ((?n, length (corr_store ?t)), t)" and inv: "corr_inv t"
    and map: "corr_map t = corr_map ?t @ [(?n, length (corr_store ?t))]" and "corr_last t = corr_last ?t + 1"
    using corr_inv_new [OF assms(1,2)] by (cases "corr_new ?t") (auto simp: corr_new_def Let_def)
  moreover have "?n \<notin> fst ` set (corr_map ?t)"
    using inv map by (auto simp: corr_inv_def)
  then have "corr_map (corr_clear ?n t) = corr_map ?t"
    using map by (simp add: corr_clear_def delete_filter filter_key_fresh)
  moreover have "corr_last t = ?n" using new by (auto simp: corr_new_def Let_def)
  moreover have "corr_last (corr_clear ?n t) = corr_last t" by (simp add: corr_clear_def)
  ultimately show ?thesis
    using assms(3,4) corr_inv_clear [OF inv, of ?n]
    by (auto simp: Subscribe_def Unsubscribe_def EndpointUnsubscribe_def flow_Subscribe_def flow_Unsubscribe_def
        newSubscriptionCorrelation_def ClearSubscriptionCorrelation_def split: option.splits)
qed

theorem subscribe_effect_witness:
  "fst (Subscribe (\<lambda>_ _ _. None) ''t'' 1 (newCcsmpReceiver :: nat ccsmpBackedReceiver)) = Inr (1, 0) \<and>
   corr_map (subscriptionCorrelations (snd (Subscribe (\<lambda>_ _ _. None) ''t'' 1
       (newCcsmpReceiver :: nat ccsmpBackedReceiver)))) = [(1, 0)]"
  using subscribe_effect [of "newCcsmpReceiver :: nat ccsmpBackedReceiver" "Subscribe (\<lambda>_ _ _. None) ''t'' 1"
      "\<lambda>_ _ _. None" "''t''" 1 undefined undefined undefined "Inr (1, 0)"
      "snd (Subscribe (\<lambda>_ _ _. None) ''t'' 1 (newCcsmpReceiver :: nat ccsmpBackedReceiver))"] corr_inv_empty
  by (simp add: Subscribe_def newSubscriptionCorrelation_def corr_new_def corr_empty_def newCcsmpReceiver_def Let_def)

end
