(* ===== verification/Core_Provisioner.thy ===== *)
theory Core_Provisioner
  imports Correlations Core_Events
begin

text \<open>
  \<^verbatim>\<open>internal/impl/core/endpoint_provisioner.go\<close>: the core endpoint provisioner. It sends asynchronous
  requests to provision and deprovision endpoints and keeps the table of those that wait for their
  confirmation, which it gets from the event service. Properties are passed on to the C library as they
  are, so their type is open.
\<close>

section \<open>State and operations\<close>

record ccsmpBackedEndpointProvisioner =
  prov_isRunning :: nat
  provisionCorrelations :: corr_table
  provisionOkEvent :: u64
  provisionErrorEvent :: u64

definition newCcsmpEndpointProvisioner :: ccsmpBackedEndpointProvisioner where
  "newCcsmpEndpointProvisioner =
     \<lparr>prov_isRunning = 0, provisionCorrelations = corr_empty, provisionOkEvent = 0, provisionErrorEvent = 0\<rparr>"

definition core_provisioner_IsRunning :: "ccsmpBackedEndpointProvisioner \<Rightarrow> bool" where
  "core_provisioner_IsRunning provisioner \<longleftrightarrow> prov_isRunning provisioner = 1"

definition provisioner_start ::
    "'h \<Rightarrow> 'h \<Rightarrow> 'h ccsmpBackedEvents \<Rightarrow> ccsmpBackedEndpointProvisioner
       \<Rightarrow> 'h ccsmpBackedEvents \<times> ccsmpBackedEndpointProvisioner" where
  "provisioner_start okHandler errHandler events provisioner =
     (let (swapped, run) = CompareAndSwap 0 1 (prov_isRunning provisioner)
      in if \<not> swapped then (events, provisioner)
         else
           let (i, events) = AddEventHandler SolClientProvisionOk okHandler events;
               (j, events) = AddEventHandler SolClientProvisionError errHandler events
           in (events, provisioner\<lparr>prov_isRunning := run, provisionOkEvent := i, provisionErrorEvent := j\<rparr>))"

definition getNewProvisionCorrelation ::
    "ccsmpBackedEndpointProvisioner \<Rightarrow> (u64 \<times> nat) \<times> ccsmpBackedEndpointProvisioner" where
  "getNewProvisionCorrelation provisioner =
     (let (r, t) = corr_new (provisionCorrelations provisioner)
      in (r, provisioner\<lparr>provisionCorrelations := t\<rparr>))"

definition ClearProvisionCorrelation ::
    "u64 \<Rightarrow> ccsmpBackedEndpointProvisioner \<Rightarrow> ccsmpBackedEndpointProvisioner" where
  "ClearProvisionCorrelation i provisioner =
     provisioner\<lparr>provisionCorrelations := corr_clear i (provisionCorrelations provisioner)\<rparr>"

definition Provision ::
    "('p \<Rightarrow> u64 \<Rightarrow> bool \<Rightarrow> ErrorInfo option) \<Rightarrow> 'p \<Rightarrow> bool \<Rightarrow> ccsmpBackedEndpointProvisioner
       \<Rightarrow> (ErrorInfo + (u64 \<times> nat)) \<times> ccsmpBackedEndpointProvisioner" where
  "Provision SolClientEndpointProvisionAsync properties ignoreExistErrors provisioner =
     (let ((correlationID, c), provisioner) = getNewProvisionCorrelation provisioner
      in case SolClientEndpointProvisionAsync properties correlationID ignoreExistErrors of
           Some errInfo \<Rightarrow> (Inl errInfo, ClearProvisionCorrelation correlationID provisioner)
         | None \<Rightarrow> (Inr (correlationID, c), provisioner))"

definition Deprovision ::
    "('p \<Rightarrow> u64 \<Rightarrow> bool \<Rightarrow> ErrorInfo option) \<Rightarrow> 'p \<Rightarrow> bool \<Rightarrow> ccsmpBackedEndpointProvisioner
       \<Rightarrow> (ErrorInfo + (u64 \<times> nat)) \<times> ccsmpBackedEndpointProvisioner" where
  "Deprovision SolClientEndpointDeprovisionAsync properties ignoreMissingErrors provisioner =
     (let ((correlationID, c), provisioner) = getNewProvisionCorrelation provisioner
      in case SolClientEndpointDeprovisionAsync properties correlationID ignoreMissingErrors of
           Some errInfo \<Rightarrow> (Inl errInfo, ClearProvisionCorrelation correlationID provisioner)
         | None \<Rightarrow> (Inr (correlationID, c), provisioner))"

definition handleProvisionAndDeprovisionEvent ::
    "u64 \<Rightarrow> go_error option \<Rightarrow> ccsmpBackedEndpointProvisioner
       \<Rightarrow> ((nat \<times> corr_event) list \<times> ccsmpBackedEndpointProvisioner) outcome" where
  "handleProvisionAndDeprovisionEvent corrP err provisioner =
     outcome_bind (corr_complete corrP err (provisionCorrelations provisioner)) (\<lambda>(log, t).
       Return (log, provisioner\<lparr>provisionCorrelations := t\<rparr>))"

definition handleProvisionAndDeprovisionOK ::
    "u64 \<Rightarrow> sessionEventInfo \<Rightarrow> ccsmpBackedEndpointProvisioner
       \<Rightarrow> ((nat \<times> corr_event) list \<times> ccsmpBackedEndpointProvisioner) outcome" where
  "handleProvisionAndDeprovisionOK corrP event provisioner = handleProvisionAndDeprovisionEvent corrP None provisioner"

definition handleProvisionAndDeprovisionErr ::
    "u64 \<Rightarrow> sessionEventInfo \<Rightarrow> ccsmpBackedEndpointProvisioner
       \<Rightarrow> ((nat \<times> corr_event) list \<times> ccsmpBackedEndpointProvisioner) outcome" where
  "handleProvisionAndDeprovisionErr corrP event provisioner =
     handleProvisionAndDeprovisionEvent corrP (sei_err event) provisioner"

definition provision_await ::
    "nat \<Rightarrow> ccsmpBackedEndpointProvisioner \<Rightarrow> (corr_event option \<times> ccsmpBackedEndpointProvisioner) outcome" where
  "provision_await c provisioner =
     outcome_bind (corr_take c (provisionCorrelations provisioner)) (\<lambda>(ev, t).
       Return (ev, provisioner\<lparr>provisionCorrelations := t\<rparr>))"

definition provisionTerminationError :: go_error where
  "provisionTerminationError =
     NewError ServiceUnreachableError CouldNotConfirmProvisionDeprovisionServiceUnavailable [] None"

definition interrupt_provisions ::
    "ccsmpBackedEndpointProvisioner \<Rightarrow> ((nat \<times> corr_event) list \<times> ccsmpBackedEndpointProvisioner) outcome" where
  "interrupt_provisions provisioner =
     outcome_bind (corr_flush provisionTerminationError (provisionCorrelations provisioner)) (\<lambda>(log, t).
       Return (log, provisioner\<lparr>provisionCorrelations := t\<rparr>))"

definition core_provisioner_terminate ::
    "'h ccsmpBackedEvents \<Rightarrow> ccsmpBackedEndpointProvisioner
       \<Rightarrow> ((nat \<times> corr_event) list \<times> 'h ccsmpBackedEvents \<times> ccsmpBackedEndpointProvisioner) outcome" where
  "core_provisioner_terminate events provisioner =
     (let (swapped, run) = CompareAndSwap 1 0 (prov_isRunning provisioner)
      in if \<not> swapped then Return ([], events, provisioner)
         else
           let provisioner = provisioner\<lparr>prov_isRunning := run\<rparr>;
               events = RemoveEventHandler (provisionOkEvent provisioner) events;
               events = RemoveEventHandler (provisionErrorEvent provisioner) events
           in outcome_bind (interrupt_provisions provisioner) (\<lambda>(log, provisioner).
                Return (log, events, provisioner)))"

section \<open>The table of provisions\<close>

definition provision_ops :: "ccsmpBackedEndpointProvisioner corr_ops" where
  "provision_ops =
     \<lparr>op_request = getNewProvisionCorrelation, op_cancel = ClearProvisionCorrelation,
      op_confirm = handleProvisionAndDeprovisionEvent, op_shutdown = interrupt_provisions,
      op_take = provision_await\<rparr>"

interpretation provtab: completion_table provisionCorrelations provision_ops provisionTerminationError
  by unfold_locales
    (simp_all add: provision_ops_def getNewProvisionCorrelation_def ClearProvisionCorrelation_def
      handleProvisionAndDeprovisionEvent_def interrupt_provisions_def provision_await_def outcome_map_bind
      case_prod_beta outcome_bind_Return_id)

text \<open>
  Provision and deprovision requests, confirmations, cancellations, waits and the interruption at
  termination, in any order in which they run, with fewer than \<open>2 ^ 64\<close> requests: none blocks the event
  thread, every request hears at most once, from a confirmation with its own number or from the
  interruption, and after a final interruption every request that was not cancelled has heard.
\<close>

proposition provision_confirmations:
  assumes "provisionCorrelations p = corr_empty" and "length (filter (\<lambda>x. x = OpRequest) xs) < 2 ^ 64"
  shows "\<exists>log p'. run_ops provision_ops xs p = Return (log, p') \<and> distinct (map fst log) \<and>
           (\<forall>(a, ev) \<in> set log. ce_id ev = of_nat (a + 1) \<and> from_ops provisionTerminationError xs ev \<and>
              (OpTake a \<notin> set xs \<longrightarrow> (\<exists>p''. provision_await a p' = Return (Some ev, p'')))) \<and>
           (\<forall>ys. xs = ys @ [OpShutdown] \<longrightarrow> (\<forall>a < length (filter (\<lambda>x. x = OpRequest) xs).
              a \<in> fst ` set log \<or> OpCancel (of_nat (a + 1)) \<in> set xs))"
  using provtab.confirmations [OF assms] by (simp add: provision_ops_def)

theorem provision_confirmations_witness:
  "\<exists>log p'. run_ops provision_ops [OpRequest, OpRequest, OpCancel 1, OpConfirm 1 None, OpConfirm 2 None, OpShutdown]
       newCcsmpEndpointProvisioner = Return (log, p') \<and> fst ` set log = {1}"
proof -
  have "provisionCorrelations newCcsmpEndpointProvisioner = corr_empty"
    by (simp add: newCcsmpEndpointProvisioner_def)
  from provision_confirmations [OF this,
      of "[OpRequest, OpRequest, OpCancel 1, OpConfirm 1 None, OpConfirm 2 None, OpShutdown]"]
  show ?thesis
    by (simp add: provision_ops_def getNewProvisionCorrelation_def handleProvisionAndDeprovisionEvent_def
        ClearProvisionCorrelation_def interrupt_provisions_def corr_new_def corr_complete_def corr_flush_def
        store_send_def corr_clear_def chan_send_def make_chan_def
        newCcsmpEndpointProvisioner_def corr_empty_def Let_def)
qed

end
