(* ===== verification/Transport.thy ===== *)
theory Transport
  imports Core_Publisher Core_Receiver Core_Provisioner
begin

text \<open>
  \<^verbatim>\<open>internal/impl/core/transport.go\<close>: the transport of a messaging service owns the C session and the
  components on it: events, metrics, publisher, receiver and endpoint provisioner. It starts them after
  the session has connected and terminates them before the session is destroyed. The answers of the C
  library are arguments.
\<close>

section \<open>State\<close>

text \<open>The closures registered with the event service: those of the core publisher, then these.\<close>

datatype 'o core_handler =
    ReceiverSubscriptionOk | ReceiverSubscriptionErr | ProvisionerOk | ProvisionerErr | ClientHandler 'o

record ('a, 'r, 'cb, 'o) ccsmpTransport =
  tr_events :: "'o core_handler event_handler ccsmpBackedEvents"
  tr_metrics :: ccsmpBackedMetrics
  tr_publisher :: "('a, 'r) ccsmpBackedPublisher"
  tr_receiver :: "'cb ccsmpBackedReceiver"
  tr_provisioner :: ccsmpBackedEndpointProvisioner
  tr_id :: string
  tr_host :: string
  tr_destroyed :: bool

text \<open>\<open>context\<close>, \<open>session\<close> and \<open>clientName\<close> are the results of creating the context and the session and of reading the name.\<close>

definition newCcsmpTransport ::
    "ErrorInfo option \<Rightarrow> ErrorInfo option \<Rightarrow> ErrorInfo + string \<Rightarrow> string \<Rightarrow> go_error + ('a, 'r, 'cb, 'o) ccsmpTransport" where
  "newCcsmpTransport context session clientName host =
     (case context of Some err \<Rightarrow> Inl (ToNativeError err [])
      | None \<Rightarrow> (case session of Some err \<Rightarrow> Inl (ToNativeError err [])
      | None \<Rightarrow> (case clientName of Inl err \<Rightarrow> Inl (ToNativeError err [])
      | Inr i \<Rightarrow> Inr \<lparr>tr_events = newCcsmpEvents, tr_metrics = newCcsmpMetrics, tr_publisher = newCcsmpPublisher,
                       tr_receiver = newCcsmpReceiver, tr_provisioner = newCcsmpEndpointProvisioner,
                       tr_id = i, tr_host = host, tr_destroyed = False\<rparr>)))"

section \<open>Operations\<close>

definition ModifySessionProperties :: "('p \<Rightarrow> ErrorInfo option) \<Rightarrow> 'p \<Rightarrow> go_error option" where
  "ModifySessionProperties SolClientModifySessionProperties properties =
     map_option (\<lambda>err. ToNativeError err ''an error occurred while modifying session properties.'')
       (SolClientModifySessionProperties properties)"

text \<open>\<open>connect\<close> is the answer to the connect call, \<open>getPrefix\<close> what the publisher reads when it starts.\<close>

definition transport_Connect ::
    "ErrorInfo option \<Rightarrow> ErrorInfo + string \<Rightarrow> ('a, 'r, 'cb, 'o) ccsmpTransport
       \<Rightarrow> go_error option \<times> ('a, 'r, 'cb, 'o) ccsmpTransport" where
  "transport_Connect connect getPrefix transport =
     (case connect of
        Some err \<Rightarrow> (Some (ToNativeError err ''an error occurred while connecting: ''), transport)
      | None \<Rightarrow>
          let events = events_start (tr_events transport);
              (events, pub) = publisher_start getPrefix events (tr_publisher transport);
              (events, rcv) = receiver_start (Other ReceiverSubscriptionOk) (Other ReceiverSubscriptionErr) events
                                (tr_receiver transport);
              (events, prov) = provisioner_start (Other ProvisionerOk) (Other ProvisionerErr) events
                                 (tr_provisioner transport)
          in (None, transport\<lparr>tr_events := events, tr_publisher := pub, tr_receiver := rcv, tr_provisioner := prov\<rparr>))"

definition shutdownError :: go_error where
  "shutdownError = NewError ServiceUnreachableError TerminatedOnMessagingServiceShutdown [] None"

text \<open>The result is an error, or the calls of the handlers for the down event.\<close>

definition transport_Disconnect ::
    "ErrorInfo option \<Rightarrow> ('a, 'r, 'cb, 'o) ccsmpTransport
       \<Rightarrow> go_error + ('o core_handler event_handler \<times> sessionEventInfo) list" where
  "transport_Disconnect disconnect transport =
     (case disconnect of
        Some err \<Rightarrow> Inl (ToNativeError err ''an error occurred while disconnecting: '')
      | None \<Rightarrow>
          Inr (emitEvent SolClientEventDown
                 \<lparr>sei_err = Some shutdownError, infoString = TerminatedOnMessagingServiceShutdown,
                  correlationP = None, userP = 0\<rparr> (tr_events transport)))"

text \<open>
  The publisher's termination waits for its publish loop between \<open>publisher_stop\<close> and
  \<open>publisher_cleanup\<close>; the loop ends within a bounded number of its own steps once it is told to stop.
\<close>

definition core_publisher_terminate ::
    "'o event_handler ccsmpBackedEvents \<Rightarrow> ('a, 'r) ccsmpBackedPublisher
       \<Rightarrow> ('o event_handler ccsmpBackedEvents \<times> ('a, 'r) ccsmpBackedPublisher) outcome" where
  "core_publisher_terminate events publisher =
     (let (stopped, publisher) = publisher_stop publisher
      in if \<not> stopped then Return (events, publisher)
         else let (events, requestor) = publisher_cleanup events publisher
              in outcome_bind requestor (\<lambda>(unsubscribed, publisher). Return (events, publisher)))"

text \<open>
  \<open>session\<close> holds the statistics of the session when they are captured. The result lists the events sent to
  waiting subscribers and to waiting provision requests.
\<close>

definition transport_Close ::
    "session_stats \<Rightarrow> ('a, 'r, 'cb, 'o) ccsmpTransport
       \<Rightarrow> ((nat \<times> corr_event) list \<times> (nat \<times> corr_event) list \<times> ('a, 'r, 'cb, 'o) ccsmpTransport) outcome" where
  "transport_Close session transport =
     (let met = metrics_terminate session (tr_metrics transport);
          events = events_terminate (tr_events transport)
      in outcome_bind (core_publisher_terminate events (tr_publisher transport)) (\<lambda>(events, pub).
         outcome_bind (core_receiver_terminate events (tr_receiver transport)) (\<lambda>(subs, events, rcv).
         outcome_bind (core_provisioner_terminate events (tr_provisioner transport)) (\<lambda>(provs, events, prov).
           Return (subs, provs,
             transport\<lparr>tr_metrics := met, tr_events := events, tr_publisher := pub, tr_receiver := rcv,
                       tr_provisioner := prov, tr_destroyed := True\<rparr>)))))"

section \<open>Closing\<close>

definition transport_wf :: "('a, 'r, 'cb, 'o) ccsmpTransport \<Rightarrow> bool" where
  "transport_wf t \<longleftrightarrow> events_wf (tr_events t) \<and> metrics_wf (tr_metrics t) \<and>
     corr_inv (subscriptionCorrelations (tr_receiver t)) \<and> corr_inv (provisionCorrelations (tr_provisioner t))"

lemma RemoveEventHandler_callback [simp]: "eventCallbackSet (RemoveEventHandler i s) = eventCallbackSet s"
  by (simp add: RemoveEventHandler_def split: option.splits)

lemma remove_first_Nil [simp]: "eventHandlers s = Some [] \<Longrightarrow> RemoveEventHandler i s = s"
  by (simp add: RemoveEventHandler_def)

lemma terminated_events:
  "events_wf s \<Longrightarrow> eventHandlers (events_terminate s) = Some [] \<and> \<not> eventCallbackSet (events_terminate s)"
  by (auto simp: events_wf_def events_terminate_def)

lemma core_publisher_terminate_ok:
  assumes "eventHandlers events = Some []" and "rxLock_readers pub = 0 \<or> isRunning pub \<noteq> 1"
  shows "\<exists>pub'. core_publisher_terminate events pub = Return (events, pub') \<and> isRunning pub' \<noteq> 1"
  using assms
  by (auto simp: core_publisher_terminate_def publisher_stop_def publisher_cleanup_def terminateRequestor_def
      rx_locked_def try_signal_def CompareAndSwap_def Let_def split: outcome.splits)

lemma core_publisher_terminate_blocks:
  assumes "0 < rxLock_readers pub" and "isRunning pub = 1"
  shows "core_publisher_terminate events pub = Blocks"
  using assms
  by (auto simp: core_publisher_terminate_def publisher_stop_def publisher_cleanup_def terminateRequestor_def
      rx_locked_def try_signal_def Let_def split: outcome.splits)

lemma core_receiver_terminate_ok:
  assumes "eventHandlers events = Some []" and "corr_inv (subscriptionCorrelations rcv)"
  shows "\<exists>log rcv'. core_receiver_terminate events rcv = Return (log, events, rcv') \<and>
           \<not> core_receiver_IsRunning rcv' \<and>
           (core_receiver_IsRunning rcv \<longrightarrow> corr_map (subscriptionCorrelations rcv') = [] \<and>
              log = map (\<lambda>(i, a). (a, \<lparr>ce_id = i, ce_err = Some subscriptionTerminationError\<rparr>))
                      (corr_map (subscriptionCorrelations rcv)))"
proof (cases "rx_running rcv = 1")
  case True
  obtain t' where "corr_flush subscriptionTerminationError (subscriptionCorrelations rcv) =
      Return (map (\<lambda>(i, a). (a, \<lparr>ce_id = i, ce_err = Some subscriptionTerminationError\<rparr>))
                (corr_map (subscriptionCorrelations rcv)), t')" and "corr_map t' = []"
    using flush_loop_ok [OF assms(2) refl] unfolding corr_flush_def by blast
  with True assms(1) show ?thesis
    by (simp add: core_receiver_terminate_def interrupt_subscriptions_def core_receiver_IsRunning_def Let_def)
next
  case False
  with assms show ?thesis by (simp add: core_receiver_terminate_def core_receiver_IsRunning_def Let_def)
qed

lemma core_provisioner_terminate_ok:
  assumes "eventHandlers events = Some []" and "corr_inv (provisionCorrelations prov)"
  shows "\<exists>log prov'. core_provisioner_terminate events prov = Return (log, events, prov') \<and>
           \<not> core_provisioner_IsRunning prov' \<and>
           (core_provisioner_IsRunning prov \<longrightarrow> corr_map (provisionCorrelations prov') = [] \<and>
              log = map (\<lambda>(i, a). (a, \<lparr>ce_id = i, ce_err = Some provisionTerminationError\<rparr>))
                      (corr_map (provisionCorrelations prov)))"
proof (cases "prov_isRunning prov = 1")
  case True
  obtain t' where "corr_flush provisionTerminationError (provisionCorrelations prov) =
      Return (map (\<lambda>(i, a). (a, \<lparr>ce_id = i, ce_err = Some provisionTerminationError\<rparr>))
                (corr_map (provisionCorrelations prov)), t')" and "corr_map t' = []"
    using flush_loop_ok [OF assms(2) refl] unfolding corr_flush_def by blast
  with True assms(1) show ?thesis
    by (simp add: core_provisioner_terminate_def interrupt_provisions_def core_provisioner_IsRunning_def Let_def)
next
  case False
  with assms show ?thesis by (simp add: core_provisioner_terminate_def core_provisioner_IsRunning_def Let_def)
qed

section \<open>Connecting\<close>

lemma two_handlers_wf:
  assumes "events_wf ev" and "unat (handlerID ev) + Suc (Suc n) < 2 ^ 64"
    and "AddEventHandler e h ev = (i, ev1)" and "AddEventHandler e' h' ev1 = (j, ev2)"
  shows "events_wf ev2" and "unat (handlerID ev2) + n < 2 ^ 64"
proof -
  note a = AddEventHandler_next [OF assms(1,2,3)]
  note b = AddEventHandler_next [OF a(1,2) assms(4)]
  show "events_wf ev2" and "unat (handlerID ev2) + n < 2 ^ 64" by (rule b(1), rule b(2))
qed

lemma publisher_start_wf:
  assumes "events_wf ev" and "unat (handlerID ev) + Suc (Suc (Suc n)) < 2 ^ 64" and "isRunning p = 0"
    and "publisher_start pre ev p = (ev', p')"
  shows "events_wf ev'" and "unat (handlerID ev') + n < 2 ^ 64" and "isRunning p' = 1"
    and "rxLock_readers p' = rxLock_readers p"
proof -
  obtain s1 s2 where
    1: "AddEventHandler SolClientEventCanSend CorePublisherCanSend ev = (canSendEventID p', s1)" and
    2: "AddEventHandler SolClientEventAcknowledgement CorePublisherAcknowledgement s1 = (acknowledgementEventID p', s2)" and
    3: "AddEventHandler SolClientEventRejected CorePublisherRejected s2 = (rejectedEventID p', ev')"
    using publisher_start_events [OF assms(3,4)] .
  note a = two_handlers_wf [OF assms(1,2) 1 2]
  note b = AddEventHandler_next [OF a 3]
  show "events_wf ev'" and "unat (handlerID ev') + n < 2 ^ 64" by (rule b(1), rule b(2))
  show "isRunning p' = 1" and "rxLock_readers p' = rxLock_readers p"
    using assms(3,4) by (auto simp: publisher_start_def startRequestor_def Let_def split: prod.splits sum.splits)
qed

lemma receiver_start_wf:
  assumes "events_wf ev" and "unat (handlerID ev) + Suc (Suc n) < 2 ^ 64" and "rx_running r = 0"
    and "receiver_start h h' ev r = (ev', r')"
  shows "events_wf ev'" and "unat (handlerID ev') + n < 2 ^ 64" and "core_receiver_IsRunning r'"
    and "subscriptionCorrelations r' = subscriptionCorrelations r"
proof -
  obtain i ev1 j where 1: "AddEventHandler SolClientSubscriptionOk h ev = (i, ev1)"
      "AddEventHandler SolClientSubscriptionError h' ev1 = (j, ev')"
    and "core_receiver_IsRunning r'" "subscriptionCorrelations r' = subscriptionCorrelations r"
    using assms(3,4)
    by (auto simp: receiver_start_def core_receiver_IsRunning_def Let_def split: prod.splits)
  with two_handlers_wf [OF assms(1,2) 1] show "events_wf ev'" and "unat (handlerID ev') + n < 2 ^ 64"
    and "core_receiver_IsRunning r'" and "subscriptionCorrelations r' = subscriptionCorrelations r" by simp_all
qed

lemma provisioner_start_wf:
  assumes "events_wf ev" and "unat (handlerID ev) + Suc (Suc n) < 2 ^ 64" and "prov_isRunning r = 0"
    and "provisioner_start h h' ev r = (ev', r')"
  shows "events_wf ev'" and "unat (handlerID ev') + n < 2 ^ 64" and "core_provisioner_IsRunning r'"
    and "provisionCorrelations r' = provisionCorrelations r"
proof -
  obtain i ev1 j where 1: "AddEventHandler SolClientProvisionOk h ev = (i, ev1)"
      "AddEventHandler SolClientProvisionError h' ev1 = (j, ev')"
    and "core_provisioner_IsRunning r'" "provisionCorrelations r' = provisionCorrelations r"
    using assms(3,4)
    by (auto simp: provisioner_start_def core_provisioner_IsRunning_def Let_def split: prod.splits)
  with two_handlers_wf [OF assms(1,2) 1] show "events_wf ev'" and "unat (handlerID ev') + n < 2 ^ 64"
    and "core_provisioner_IsRunning r'" and "provisionCorrelations r' = provisionCorrelations r" by simp_all
qed

lemma events_start_simps [simp]:
  "events_wf (events_start ev) = events_wf ev" "handlerID (events_start ev) = handlerID ev"
  by (simp_all add: events_start_def events_wf_def)

lemma transport_wf_new: "newCcsmpTransport None None (Inr i) host = Inr t \<Longrightarrow>
    transport_wf t \<and> isRunning (tr_publisher t) = 0 \<and> rx_running (tr_receiver t) = 0 \<and>
    prov_isRunning (tr_provisioner t) = 0 \<and> handlerID (tr_events t) = 0 \<and> rxLock_readers (tr_publisher t) = 0"
  by (auto simp: newCcsmpTransport_def transport_wf_def metrics_wf_new corr_inv_empty newCcsmpPublisher_def
      newCcsmpReceiver_def newCcsmpEndpointProvisioner_def)

lemma transport_Connect_ok:
  assumes "transport_wf t" and "isRunning (tr_publisher t) = 0" and "rx_running (tr_receiver t) = 0"
    and "prov_isRunning (tr_provisioner t) = 0" and "unat (handlerID (tr_events t)) + (7 + n) < 2 ^ 64"
    and "transport_Connect None pre t = (err, t')"
  shows "unat (handlerID (tr_events t')) + n < 2 ^ 64 \<and> err = None \<and> transport_wf t' \<and> isRunning (tr_publisher t') = 1 \<and> core_receiver_IsRunning (tr_receiver t') \<and>
         core_provisioner_IsRunning (tr_provisioner t') \<and> rxLock_readers (tr_publisher t') = rxLock_readers (tr_publisher t)"
proof -
  obtain ev1 pub where 1: "publisher_start pre (events_start (tr_events t)) (tr_publisher t) = (ev1, pub)" by fastforce
  obtain ev2 rcv where 2: "receiver_start (Other ReceiverSubscriptionOk) (Other ReceiverSubscriptionErr) ev1
      (tr_receiver t) = (ev2, rcv)" by fastforce
  obtain ev3 prov where 3: "provisioner_start (Other ProvisionerOk) (Other ProvisionerErr) ev2
      (tr_provisioner t) = (ev3, prov)" by fastforce
  have wf: "events_wf (events_start (tr_events t))" using assms(1) by (simp add: transport_wf_def)
  have n: "unat (handlerID (events_start (tr_events t))) + Suc (Suc (Suc (Suc (Suc (Suc (Suc n)))))) < 2 ^ 64" using assms(5) by simp
  note p = publisher_start_wf [OF wf n assms(2) 1]
  have n2: "unat (handlerID ev1) + Suc (Suc (Suc (Suc n))) < 2 ^ 64" using p(2) by simp
  note r = receiver_start_wf [OF p(1) n2 assms(3) 2]
  have n3: "unat (handlerID ev2) + Suc (Suc n) < 2 ^ 64" using r(2) by simp
  note v = provisioner_start_wf [OF r(1) n3 assms(4) 3]
  show ?thesis
    using assms(1,6) p r v by (auto simp: transport_Connect_def transport_wf_def 1 2 3)
qed

text \<open>
  Connecting the transport. When the session refuses, the error is returned and nothing has been started or registered. When
  it accepts, all the components run, with their closures registered, and the transport's invariant
  holds; so a transport that has been created, connected and used can be closed.
\<close>

proposition transport_connect:
  assumes "transport_wf t" and "isRunning (tr_publisher t) = 0" and "rx_running (tr_receiver t) = 0"
    and "prov_isRunning (tr_provisioner t) = 0" and "unat (handlerID (tr_events t)) + 7 < 2 ^ 64"
  shows "(case connect of
            Some e \<Rightarrow> (\<exists>err. transport_Connect connect pre t = (Some err, t))
          | None \<Rightarrow> (\<exists>t'. transport_Connect connect pre t = (None, t') \<and> transport_wf t' \<and>
              isRunning (tr_publisher t') = 1 \<and> core_receiver_IsRunning (tr_receiver t') \<and>
              core_provisioner_IsRunning (tr_provisioner t')))"
proof (cases connect)
  case None
  obtain err t' where "transport_Connect None pre t = (err, t')" by fastforce
  with transport_Connect_ok [OF assms(1-4), of 0] assms(5) None show ?thesis by auto
qed (simp add: transport_Connect_def)

definition new_transport :: "(string, string, string, string) ccsmpTransport" where
  "new_transport = projr (newCcsmpTransport None None (Inr ''client'') ''tcp://host'')"

lemma new_transport_ok:
  "transport_wf new_transport" "isRunning (tr_publisher new_transport) = 0" "rx_running (tr_receiver new_transport) = 0"
  "prov_isRunning (tr_provisioner new_transport) = 0" "unat (handlerID (tr_events new_transport)) + 7 < 2 ^ 64"
  "rxLock_readers (tr_publisher new_transport) = 0"
proof -
  have "newCcsmpTransport None None (Inr ''client'') ''tcp://host'' = Inr new_transport"
    by (simp add: new_transport_def newCcsmpTransport_def)
  from transport_wf_new [OF this] show "transport_wf new_transport" "isRunning (tr_publisher new_transport) = 0"
    "rx_running (tr_receiver new_transport) = 0" "prov_isRunning (tr_provisioner new_transport) = 0"
    "unat (handlerID (tr_events new_transport)) + 7 < 2 ^ 64" "rxLock_readers (tr_publisher new_transport) = 0" by simp_all
qed

theorem transport_connect_witness:
  "\<exists>t'. transport_Connect None (Inr ''#P2P/'') new_transport = (None, t') \<and> core_receiver_IsRunning (tr_receiver t')"
  using transport_connect [OF new_transport_ok(1-5), of None "Inr ''#P2P/''"] by auto

lemma transport_Close_returns:
  assumes "transport_wf t" and "rxLock_readers (tr_publisher t) = 0"
  shows "\<exists>subs provs t'. transport_Close session t = Return (subs, provs, t') \<and> tr_destroyed t' \<and>
      (\<forall>e info. emitEvent e info (tr_events t') = []) \<and> \<not> eventCallbackSet (tr_events t') \<and>
      capturedRxMetrics (tr_metrics t') \<noteq> None \<and> isRunning (tr_publisher t') \<noteq> 1 \<and>
      \<not> core_receiver_IsRunning (tr_receiver t') \<and> \<not> core_provisioner_IsRunning (tr_provisioner t') \<and>
      (core_receiver_IsRunning (tr_receiver t) \<longrightarrow>
         subs = map (\<lambda>(i, a). (a, \<lparr>ce_id = i, ce_err = Some subscriptionTerminationError\<rparr>))
                  (corr_map (subscriptionCorrelations (tr_receiver t)))) \<and>
      (core_provisioner_IsRunning (tr_provisioner t) \<longrightarrow>
         provs = map (\<lambda>(i, a). (a, \<lparr>ce_id = i, ce_err = Some provisionTerminationError\<rparr>))
                   (corr_map (provisionCorrelations (tr_provisioner t))))"
proof -
  let ?ev = "events_terminate (tr_events t)"
  have wf: "events_wf (tr_events t)" "corr_inv (subscriptionCorrelations (tr_receiver t))"
      "corr_inv (provisionCorrelations (tr_provisioner t))"
    using assms(1) by (auto simp: transport_wf_def)
  note ev = terminated_events [OF wf(1), THEN conjunct1]
  have captured: "capturedRxMetrics (metrics_terminate session (tr_metrics t)) \<noteq> None"
    by (simp add: metrics_terminate_def captureRXStats_def split: option.splits)
  obtain pub' where pub: "core_publisher_terminate ?ev (tr_publisher t) = Return (?ev, pub')" "isRunning pub' \<noteq> 1"
    using core_publisher_terminate_ok [OF ev disjI1 [OF assms(2)]] by blast
  obtain subs rcv' where rcv: "core_receiver_terminate ?ev (tr_receiver t) = Return (subs, ?ev, rcv')"
      "\<not> core_receiver_IsRunning rcv'" "core_receiver_IsRunning (tr_receiver t) \<longrightarrow>
        subs = map (\<lambda>(i, a). (a, \<lparr>ce_id = i, ce_err = Some subscriptionTerminationError\<rparr>))
                 (corr_map (subscriptionCorrelations (tr_receiver t)))"
    using core_receiver_terminate_ok [OF ev wf(2)] by blast
  obtain provs prov' where prov: "core_provisioner_terminate ?ev (tr_provisioner t) = Return (provs, ?ev, prov')"
      "\<not> core_provisioner_IsRunning prov'" "core_provisioner_IsRunning (tr_provisioner t) \<longrightarrow>
        provs = map (\<lambda>(i, a). (a, \<lparr>ce_id = i, ce_err = Some provisionTerminationError\<rparr>))
                  (corr_map (provisionCorrelations (tr_provisioner t)))"
    using core_provisioner_terminate_ok [OF ev wf(3)] by blast
  define t' where "t' = t\<lparr>tr_metrics := metrics_terminate session (tr_metrics t), tr_events := ?ev,
      tr_publisher := pub', tr_receiver := rcv', tr_provisioner := prov', tr_destroyed := True\<rparr>"
  have "transport_Close session t = Return (subs, provs, t')"
    by (simp add: transport_Close_def pub rcv prov t'_def Let_def)
  then show ?thesis
    using pub rcv prov captured terminated_events [OF wf(1)]
    by (intro exI [of _ subs] exI [of _ provs] exI [of _ t']) (simp add: t'_def)
qed

lemma transport_Close_blocks:
  "0 < rxLock_readers (tr_publisher t) \<Longrightarrow> isRunning (tr_publisher t) = 1 \<Longrightarrow> transport_Close session t = Blocks"
  using core_publisher_terminate_blocks [of "tr_publisher t" "events_terminate (tr_events t)"]
  by (simp add: transport_Close_def Let_def)

text \<open>
  Closing the transport. Unless the requestor's lock is held, \<^verbatim>\<open>Close\<close> returns: no event calls a handler any
  more, the statistics are captured, publisher, receiver and provisioner have stopped, and, if they were
  running, every pending subscription and every pending provision has been sent its error. If a reply that
  found no handler has left the read lock of the requestor held, closing a connected transport
  blocks for ever.
\<close>

proposition transport_close_completes:
  assumes "transport_wf t"
  shows "(rxLock_readers (tr_publisher t) = 0 \<longrightarrow>
            (\<exists>subs provs t'. transport_Close session t = Return (subs, provs, t') \<and> tr_destroyed t' \<and>
               (\<forall>e info. emitEvent e info (tr_events t') = []) \<and> \<not> eventCallbackSet (tr_events t') \<and>
               capturedRxMetrics (tr_metrics t') \<noteq> None \<and> isRunning (tr_publisher t') \<noteq> 1 \<and>
               \<not> core_receiver_IsRunning (tr_receiver t') \<and> \<not> core_provisioner_IsRunning (tr_provisioner t') \<and>
               (core_receiver_IsRunning (tr_receiver t) \<longrightarrow>
                  subs = map (\<lambda>(i, a). (a, \<lparr>ce_id = i, ce_err = Some subscriptionTerminationError\<rparr>))
                           (corr_map (subscriptionCorrelations (tr_receiver t)))) \<and>
               (core_provisioner_IsRunning (tr_provisioner t) \<longrightarrow>
                  provs = map (\<lambda>(i, a). (a, \<lparr>ce_id = i, ce_err = Some provisionTerminationError\<rparr>))
                            (corr_map (provisionCorrelations (tr_provisioner t)))))) \<and>
         (0 < rxLock_readers (tr_publisher t) \<and> isRunning (tr_publisher t) = 1 \<longrightarrow>
            transport_Close session t = Blocks)"
  using transport_Close_returns [OF assms] transport_Close_blocks [of t] by blast

theorem transport_close_completes_witness:
  "(let t = snd (transport_Connect None (Inr ''#P2P/'') new_transport)
    in (\<exists>subs provs t'. transport_Close dead_session t = Return (subs, provs, t') \<and> tr_destroyed t') \<and>
       transport_Close dead_session (t\<lparr>tr_publisher := (tr_publisher t)\<lparr>rxLock_readers := 1\<rparr>\<rparr>) = Blocks)"
proof -
  define t where "t = snd (transport_Connect None (Inr ''#P2P/'') new_transport)"
  have "transport_Connect None (Inr ''#P2P/'') new_transport = (fst (transport_Connect None (Inr ''#P2P/'') new_transport), t)"
    by (simp add: t_def)
  from transport_Connect_ok [OF new_transport_ok(1-4) _ this, of 0]
  have wf: "transport_wf t" and run: "isRunning (tr_publisher t) = 1" and free: "rxLock_readers (tr_publisher t) = 0"
    using new_transport_ok(5,6) by simp_all
  have wf': "transport_wf (t\<lparr>tr_publisher := (tr_publisher t)\<lparr>rxLock_readers := 1\<rparr>\<rparr>)"
    using wf by (simp add: transport_wf_def)
  show ?thesis
    using transport_close_completes [OF wf, of dead_session] transport_close_completes [OF wf', of dead_session]
      run free unfolding t_def [symmetric] Let_def by auto
qed

end
