(* ===== verification/Messaging_Service.thy ===== *)
theory Messaging_Service
  imports Transport Executor
begin

text \<open>
  \<^verbatim>\<open>internal/impl/messaging_service_impl.go\<close>: the messaging service. It connects and disconnects the
  transport once, keeps the listeners for reconnection and interruption, and reacts to the events of the
  session. Operations are functions on the service and its transport; what the C library answers is an
  argument. What holds when \<^verbatim>\<open>Connect\<close>, \<^verbatim>\<open>Disconnect\<close> and the handler of the down event run at the same
  time is the subject of the theory \<open>Service_Concurrency\<close>.
\<close>

section \<open>State\<close>

datatype messagingServiceState =
    messagingServiceStateNotConnected
  | messagingServiceStateConnecting
  | messagingServiceStateConnected
  | messagingServiceStateDisconnecting
  | messagingServiceStateDisconnected

fun messagingServiceStateNames :: "messagingServiceState \<Rightarrow> string" where
  "messagingServiceStateNames messagingServiceStateNotConnected = ''Not Connected''"
| "messagingServiceStateNames messagingServiceStateConnecting = ''Connecting''"
| "messagingServiceStateNames messagingServiceStateConnected = ''Connected''"
| "messagingServiceStateNames messagingServiceStateDisconnecting = ''Disconnecting''"
| "messagingServiceStateNames messagingServiceStateDisconnected = ''Disconnected''"

datatype messagingServiceSubState =
    messagingServiceSubStateUp
  | messagingServiceSubStateReconnecting
  | messagingServiceSubStateReconnected
  | messagingServiceSubStateDown

record serviceEventInfo =
  se_brokerURI :: string
  se_message :: string
  se_cause :: "go_error option"

text \<open>A task of the event executor calls a listener with the event.\<close>

type_synonym 'l listener_task = "'l \<times> serviceEventInfo"

datatype service_handler = ServiceDownHandler | ServiceReconnectHandler | ServiceReconnectAttemptHandler

type_synonym ('a, 'r, 'cb) service_transport = "('a, 'r, 'cb, service_handler) ccsmpTransport"

record ('l, 'a, 'r, 'cb) messagingServiceImpl =
  ms_transport :: "('a, 'r, 'cb) service_transport"
  ms_state :: messagingServiceState
  activeSubState :: messagingServiceSubState
  connectFuture :: futureError
  disconnectFuture :: futureError
  downEventHandlerRegisteredEventID :: u64
  reconnectEventHandlerRegisteredEventID :: u64
  reconnectAttemptEventHandlerRegisteredEventID :: u64
  eventExecutor :: "'l listener_task executor"
  downEventHandlerID :: u64
  downEventHandlers :: "(u64 \<times> 'l) list"
  reconnectEventHandlerID :: u64
  reconnectEventHandlers :: "(u64 \<times> 'l) list"
  reconnectAttemptEventHandlerID :: u64
  reconnectAttemptEventHandlers :: "(u64 \<times> 'l) list"

definition newMessagingServiceImpl ::
    "('a, 'r, 'cb) service_transport \<Rightarrow> ('l, 'a, 'r, 'cb) messagingServiceImpl" where
  "newMessagingServiceImpl transport =
     \<lparr>ms_transport = transport, ms_state = messagingServiceStateNotConnected,
      activeSubState = messagingServiceSubStateUp, connectFuture = NewFutureError, disconnectFuture = NewFutureError,
      downEventHandlerRegisteredEventID = 0, reconnectEventHandlerRegisteredEventID = 0,
      reconnectAttemptEventHandlerRegisteredEventID = 0, eventExecutor = NewExecutor,
      downEventHandlerID = 0, downEventHandlers = [], reconnectEventHandlerID = 0, reconnectEventHandlers = [],
      reconnectAttemptEventHandlerID = 0, reconnectAttemptEventHandlers = []\<rparr>"

lemma newMessagingServiceImpl_simps [simp]:
  "ms_transport (newMessagingServiceImpl transport) = transport"
  "ms_state (newMessagingServiceImpl transport) = messagingServiceStateNotConnected"
  "disconnectFuture (newMessagingServiceImpl transport) = NewFutureError"
  "eventExecutor (newMessagingServiceImpl transport) = NewExecutor"
  "downEventHandlers (newMessagingServiceImpl transport) = []"
  "reconnectEventHandlerID (newMessagingServiceImpl transport) = 0"
  "reconnectEventHandlers (newMessagingServiceImpl transport) = []"
  by (simp_all add: newMessagingServiceImpl_def)

section \<open>Listeners\<close>

definition AddReconnectionListener ::
    "'l \<Rightarrow> ('l, 'a, 'r, 'cb) messagingServiceImpl \<Rightarrow> u64 \<times> ('l, 'a, 'r, 'cb) messagingServiceImpl" where
  "AddReconnectionListener listener service =
     (let i = reconnectEventHandlerID service + 1
      in (i, service\<lparr>reconnectEventHandlerID := i,
                     reconnectEventHandlers := AList.update i listener (reconnectEventHandlers service)\<rparr>))"

definition RemoveReconnectionListener ::
    "u64 \<Rightarrow> ('l, 'a, 'r, 'cb) messagingServiceImpl \<Rightarrow> ('l, 'a, 'r, 'cb) messagingServiceImpl" where
  "RemoveReconnectionListener i service =
     service\<lparr>reconnectEventHandlers := AList.delete i (reconnectEventHandlers service)\<rparr>"

definition AddReconnectionAttemptListener ::
    "'l \<Rightarrow> ('l, 'a, 'r, 'cb) messagingServiceImpl \<Rightarrow> u64 \<times> ('l, 'a, 'r, 'cb) messagingServiceImpl" where
  "AddReconnectionAttemptListener listener service =
     (let i = reconnectAttemptEventHandlerID service + 1
      in (i, service\<lparr>reconnectAttemptEventHandlerID := i,
                     reconnectAttemptEventHandlers := AList.update i listener (reconnectAttemptEventHandlers service)\<rparr>))"

definition RemoveReconnectionAttemptListener ::
    "u64 \<Rightarrow> ('l, 'a, 'r, 'cb) messagingServiceImpl \<Rightarrow> ('l, 'a, 'r, 'cb) messagingServiceImpl" where
  "RemoveReconnectionAttemptListener i service =
     service\<lparr>reconnectAttemptEventHandlers := AList.delete i (reconnectAttemptEventHandlers service)\<rparr>"

definition AddServiceInterruptionListener ::
    "'l \<Rightarrow> ('l, 'a, 'r, 'cb) messagingServiceImpl \<Rightarrow> u64 \<times> ('l, 'a, 'r, 'cb) messagingServiceImpl" where
  "AddServiceInterruptionListener listener service =
     (let i = downEventHandlerID service + 1
      in (i, service\<lparr>downEventHandlerID := i,
                     downEventHandlers := AList.update i listener (downEventHandlers service)\<rparr>))"

definition RemoveServiceInterruptionListener ::
    "u64 \<Rightarrow> ('l, 'a, 'r, 'cb) messagingServiceImpl \<Rightarrow> ('l, 'a, 'r, 'cb) messagingServiceImpl" where
  "RemoveServiceInterruptionListener i service =
     service\<lparr>downEventHandlers := AList.delete i (downEventHandlers service)\<rparr>"

definition cleanupListeners :: "('l, 'a, 'r, 'cb) messagingServiceImpl \<Rightarrow> ('l, 'a, 'r, 'cb) messagingServiceImpl" where
  "cleanupListeners service =
     service\<lparr>downEventHandlers := [], reconnectEventHandlers := [], reconnectAttemptEventHandlers := []\<rparr>"

definition service_event :: "sessionEventInfo \<Rightarrow> ('l, 'a, 'r, 'cb) messagingServiceImpl \<Rightarrow> serviceEventInfo" where
  "service_event info service =
     \<lparr>se_brokerURI = tr_host (ms_transport service), se_message = infoString info, se_cause = sei_err info\<rparr>"

text \<open>The calls of the interruption listeners; afterwards all listeners are dropped.\<close>

definition notifyInterruptionListeners ::
    "sessionEventInfo \<Rightarrow> ('l, 'a, 'r, 'cb) messagingServiceImpl
       \<Rightarrow> 'l listener_task list \<times> ('l, 'a, 'r, 'cb) messagingServiceImpl" where
  "notifyInterruptionListeners sessionEventInfo service =
     (map (\<lambda>(i, l). (l, service_event sessionEventInfo service)) (downEventHandlers service), cleanupListeners service)"

text \<open>The loop of both reconnect handlers: one task per listener; a refused task is only logged.\<close>

fun submit_all :: "'t list \<Rightarrow> 't executor \<Rightarrow> 't executor outcome" where
  "submit_all [] ex = Return ex"
| "submit_all (t # ts) ex = outcome_bind (Submit t ex) (\<lambda>(ok, ex). submit_all ts ex)"

definition reconnectEventHandler ::
    "sessionEventInfo \<Rightarrow> ('l, 'a, 'r, 'cb) messagingServiceImpl \<Rightarrow> ('l, 'a, 'r, 'cb) messagingServiceImpl outcome" where
  "reconnectEventHandler sessionEventInfo service =
     outcome_bind
       (submit_all (map (\<lambda>(i, l). (l, service_event sessionEventInfo service)) (reconnectEventHandlers service))
          (eventExecutor service))
       (\<lambda>ex. Return (service\<lparr>eventExecutor := ex\<rparr>))"

definition reconnectAttempEventHandler ::
    "sessionEventInfo \<Rightarrow> ('l, 'a, 'r, 'cb) messagingServiceImpl \<Rightarrow> ('l, 'a, 'r, 'cb) messagingServiceImpl outcome" where
  "reconnectAttempEventHandler sessionEventInfo service =
     outcome_bind
       (submit_all (map (\<lambda>(i, l). (l, service_event sessionEventInfo service)) (reconnectAttemptEventHandlers service))
          (eventExecutor service))
       (\<lambda>ex. Return (service\<lparr>eventExecutor := ex\<rparr>))"

section \<open>Connecting and disconnecting\<close>

definition ms_IsConnected :: "('l, 'a, 'r, 'cb) messagingServiceImpl \<Rightarrow> bool" where
  "ms_IsConnected service \<longleftrightarrow>
     ms_state service = messagingServiceStateConnected \<and> activeSubState service = messagingServiceSubStateUp"

definition register_handlers :: "('l, 'a, 'r, 'cb) messagingServiceImpl \<Rightarrow> ('l, 'a, 'r, 'cb) messagingServiceImpl" where
  "register_handlers service =
     (let events = tr_events (ms_transport service);
          (i, events) = AddEventHandler SolClientEventDown (Other (ClientHandler ServiceDownHandler)) events;
          (j, events) = AddEventHandler SolClientEventReconnect (Other (ClientHandler ServiceReconnectHandler)) events;
          (k, events) = AddEventHandler SolClientEventReconnectAttempt
                          (Other (ClientHandler ServiceReconnectAttemptHandler)) events
      in service\<lparr>ms_transport := (ms_transport service)\<lparr>tr_events := events\<rparr>,
                 downEventHandlerRegisteredEventID := i, reconnectEventHandlerRegisteredEventID := j,
                 reconnectAttemptEventHandlerRegisteredEventID := k\<rparr>)"

definition unregisterEventHandlers ::
    "('l, 'a, 'r, 'cb) messagingServiceImpl \<Rightarrow> ('l, 'a, 'r, 'cb) messagingServiceImpl" where
  "unregisterEventHandlers service =
     (let events = tr_events (ms_transport service);
          events = RemoveEventHandler (downEventHandlerRegisteredEventID service) events;
          events = RemoveEventHandler (reconnectEventHandlerRegisteredEventID service) events;
          events = RemoveEventHandler (reconnectAttemptEventHandlerRegisteredEventID service) events
      in service\<lparr>ms_transport := (ms_transport service)\<lparr>tr_events := events\<rparr>\<rparr>)"

definition alreadyDisconnected :: "messagingServiceState \<Rightarrow> go_error" where
  "alreadyDisconnected st =
     NewError IllegalStateError UnableToConnectAlreadyDisconnectedService [ArgStr (messagingServiceStateNames st)] None"

definition notConnected :: "messagingServiceState \<Rightarrow> go_error" where
  "notConnected st =
     NewError IllegalStateError UnableToDisconnectUnstartedService [ArgStr (messagingServiceStateNames st)] None"

text \<open>\<open>connect\<close> and \<open>getPrefix\<close> are what the transport is told while connecting.\<close>

definition service_Connect ::
    "ErrorInfo option \<Rightarrow> ErrorInfo + string \<Rightarrow> ('l, 'a, 'r, 'cb) messagingServiceImpl
       \<Rightarrow> (go_error option \<times> ('l, 'a, 'r, 'cb) messagingServiceImpl) outcome" where
  "service_Connect connect getPrefix service =
     (let (proceed, st) = CompareAndSwap messagingServiceStateNotConnected messagingServiceStateConnecting (ms_state service)
      in if \<not> proceed
         then (let currentState = ms_state service
               in if currentState \<noteq> messagingServiceStateDisconnecting \<and> currentState \<noteq> messagingServiceStateDisconnected
                  then outcome_bind (future_Get (connectFuture service)) (\<lambda>e. Return (e, service))
                  else Return (Some (alreadyDisconnected (ms_state service)), service))
         else
           let service = service\<lparr>ms_state := st\<rparr>;
               (err, transport) = transport_Connect connect getPrefix (ms_transport service);
               service = service\<lparr>ms_transport := transport\<rparr>
           in if err \<noteq> None
              then Return (err, service\<lparr>activeSubState := messagingServiceSubStateDown,
                                        ms_state := messagingServiceStateConnected,
                                        connectFuture := future_Complete err (connectFuture service)\<rparr>)
              else
                let service = register_handlers service
                in Return (None, service\<lparr>ms_state := messagingServiceStateConnected,
                                         connectFuture := future_Complete None (connectFuture service)\<rparr>))"

text \<open>
  \<open>disconnect\<close> is the answer of the session and \<open>session\<close> its statistics. The calls of down-event handlers that
  the transport makes are those of publishers and receivers; the service's own handlers have been
  removed before.
\<close>

definition service_Disconnect ::
    "ErrorInfo option \<Rightarrow> session_stats \<Rightarrow> ('l, 'a, 'r, 'cb) messagingServiceImpl
       \<Rightarrow> (go_error option \<times> ('l, 'a, 'r, 'cb) messagingServiceImpl) outcome" where
  "service_Disconnect disconnect session service =
     (let (proceed, st) = CompareAndSwap messagingServiceStateConnected messagingServiceStateDisconnecting (ms_state service)
      in if \<not> proceed
         then (let currentState = ms_state service
               in if currentState \<noteq> messagingServiceStateNotConnected \<and> currentState \<noteq> messagingServiceStateConnecting
                  then outcome_bind (future_Get (disconnectFuture service)) (\<lambda>e. Return (e, service))
                  else Return (Some (notConnected (ms_state service)), service))
         else
           let service = cleanupListeners (unregisterEventHandlers (service\<lparr>ms_state := st\<rparr>));
               err = (case transport_Disconnect disconnect (ms_transport service) of Inl e \<Rightarrow> Some e | Inr calls \<Rightarrow> None)
           in outcome_bind (transport_Close session (ms_transport service)) (\<lambda>(subs, provs, transport).
              outcome_bind (Terminate (eventExecutor service)) (\<lambda>ex.
                Return (err, service\<lparr>ms_transport := transport, eventExecutor := ex,
                                     ms_state := messagingServiceStateDisconnected,
                                     disconnectFuture := future_Complete err (disconnectFuture service)\<rparr>))))"

text \<open>
  The handler of the down event, and the two goroutines it starts: the closing of the transport, here, and
  \<open>notifyInterruptionListeners\<close>.
\<close>

definition downEventHandler ::
    "('l, 'a, 'r, 'cb) messagingServiceImpl \<Rightarrow> (bool \<times> ('l, 'a, 'r, 'cb) messagingServiceImpl) outcome" where
  "downEventHandler service =
     (let (proceed, st) = CompareAndSwap messagingServiceStateConnected messagingServiceStateDisconnected (ms_state service)
      in if \<not> proceed then Return (False, service)
         else outcome_bind (Terminate (eventExecutor service)) (\<lambda>ex.
                Return (True, service\<lparr>ms_state := st, activeSubState := messagingServiceSubStateDown,
                                      eventExecutor := ex\<rparr>)))"

definition down_close ::
    "session_stats \<Rightarrow> ('l, 'a, 'r, 'cb) messagingServiceImpl \<Rightarrow> ('l, 'a, 'r, 'cb) messagingServiceImpl outcome" where
  "down_close session service =
     (let service = unregisterEventHandlers service
      in outcome_bind (transport_Close session (ms_transport service)) (\<lambda>(subs, provs, transport).
           Return (service\<lparr>ms_transport := transport,
                           disconnectFuture := future_Complete None (disconnectFuture service)\<rparr>)))"

section \<open>Updating properties\<close>

text \<open>
  A service property is its name; \<open>AuthenticationPropertySchemeOAuth2AccessToken\<close> and
  \<open>AuthenticationPropertySchemeOAuth2OIDCIDToken\<close> are the two that may change. Both are converted by the
  default converter, \<open>Sprint\<close>.
\<close>

definition AuthenticationPropertySchemeOAuth2AccessToken :: string where
  "AuthenticationPropertySchemeOAuth2AccessToken = ''solace.messaging.authentication.oauth2.access-token''"

definition AuthenticationPropertySchemeOAuth2OIDCIDToken :: string where
  "AuthenticationPropertySchemeOAuth2OIDCIDToken = ''solace.messaging.authentication.oauth2.oidc-id-token''"

definition modifiableProperties :: "string list" where
  "modifiableProperties = [AuthenticationPropertySchemeOAuth2AccessToken, AuthenticationPropertySchemeOAuth2OIDCIDToken]"

datatype session_property = SolClientSessionPropOauth2AccessToken | SolClientSessionPropOidcIDToken

definition modifiable_ccsmp_name :: "string \<Rightarrow> session_property" where
  "modifiable_ccsmp_name property =
     (if property = AuthenticationPropertySchemeOAuth2AccessToken then SolClientSessionPropOauth2AccessToken
      else SolClientSessionPropOidcIDToken)"

definition UpdateProperty ::
    "(session_property \<times> string \<Rightarrow> ErrorInfo option) \<Rightarrow> ('v \<Rightarrow> string) \<Rightarrow> string \<Rightarrow> 'v
       \<Rightarrow> ('l, 'a, 'r, 'cb) messagingServiceImpl \<Rightarrow> go_error option" where
  "UpdateProperty SolClientModifySessionProperties Sprint property val service =
     (let st = ms_state service
      in if \<not> (st = messagingServiceStateConnected \<or> st = messagingServiceStateNotConnected \<or>
                st = messagingServiceStateConnecting)
         then Some (NewError IllegalStateError UnableToModifyPropertyOfDisconnectedService [] None)
         else if property \<notin> set modifiableProperties
         then Some (NewError IllegalArgumentError UnableToModifyNonModifiableGivenServiceProperty [ArgStr property] None)
         else ModifySessionProperties SolClientModifySessionProperties (modifiable_ccsmp_name property, Sprint val))"

section \<open>Listeners are registries\<close>

text \<open>The numbers handed out so far bound those in a table.\<close>

definition listeners_wf :: "u64 \<Rightarrow> (u64 \<times> 'l) list \<Rightarrow> bool" where
  "listeners_wf n m \<longleftrightarrow> distinct (map fst m) \<and> (\<forall>i \<in> fst ` set m. i \<le> n)"

lemma listeners_wf_update:
  assumes "listeners_wf n m" and "n \<noteq> - 1"
  shows "listeners_wf (n + 1) (AList.update (n + 1) l m)"
proof -
  have "n \<le> n + 1" using assms(2) by (metis inc_less_eq_self_iff_eq nle_le)
  with assms(1) show ?thesis
    by (auto simp: listeners_wf_def dom_update distinct_update intro: order.trans)
qed

lemma listeners_wf_delete: "listeners_wf n m \<Longrightarrow> listeners_wf n (AList.delete i m)"
  using dom_delete_subset [of i m] unfolding listeners_wf_def by (meson distinct_delete subsetD)

lemma listeners_wf_bound: "listeners_wf n m \<Longrightarrow> map_of m i = Some l \<Longrightarrow> i \<le> n"
  by (fastforce simp: listeners_wf_def dest: map_of_SomeD)

lemma listeners_wf_fresh: "listeners_wf n m \<Longrightarrow> n \<noteq> - 1 \<Longrightarrow> n + 1 \<notin> fst ` set m"
  by (metis inc_less_eq_self_iff_eq listeners_wf_def)

lemma listeners_wf_none [simp]: "listeners_wf n []"
  by (simp add: listeners_wf_def)

lemmas listener_ops =
  AddReconnectionListener_def RemoveReconnectionListener_def AddReconnectionAttemptListener_def
  RemoveReconnectionAttemptListener_def AddServiceInterruptionListener_def RemoveServiceInterruptionListener_def

lemmas listener_tables = listeners_wf_update listeners_wf_delete update_conv' delete_conv'

interpretation rcreg: handler_registry AddReconnectionListener RemoveReconnectionListener
    "\<lambda>s. map_of (reconnectEventHandlers s)" reconnectEventHandlerID
    "\<lambda>s. listeners_wf (reconnectEventHandlerID s) (reconnectEventHandlers s)"
  by unfold_locales (auto simp: listener_ops listener_tables Let_def dest: listeners_wf_bound)

interpretation rareg: handler_registry AddReconnectionAttemptListener RemoveReconnectionAttemptListener
    "\<lambda>s. map_of (reconnectAttemptEventHandlers s)" reconnectAttemptEventHandlerID
    "\<lambda>s. listeners_wf (reconnectAttemptEventHandlerID s) (reconnectAttemptEventHandlers s)"
  by unfold_locales (auto simp: listener_ops listener_tables Let_def dest: listeners_wf_bound)

interpretation downreg: handler_registry AddServiceInterruptionListener RemoveServiceInterruptionListener
    "\<lambda>s. map_of (downEventHandlers s)" downEventHandlerID
    "\<lambda>s. listeners_wf (downEventHandlerID s) (downEventHandlers s)"
  by unfold_locales (auto simp: listener_ops listener_tables Let_def dest: listeners_wf_bound)

text \<open>With distinct keys the table determines the multiset of its entries.\<close>

lemma mset_update_fresh: "i \<notin> fst ` set m \<Longrightarrow> mset (AList.update i l m) = add_mset (i, l) (mset m)"
  by (induction m) auto

lemma submit_all_open: "executor_open ex \<Longrightarrow> \<exists>ex'. submit_all ts ex = Return ex' \<and> executor_open ex' \<and> tasks ex' = tasks ex @ ts"
proof (induction ts arbitrary: ex)
  case (Cons t ts)
  obtain ex1 where "Submit t ex = Return (True, ex1)" "executor_open ex1" "tasks ex1 = tasks ex @ [t]"
    using Submit_open [OF Cons.prems, of t] by blast
  with Cons.IH [of ex1] show ?case by auto
qed simp

lemma submit_all_closed: "closed ex \<noteq> 0 \<Longrightarrow> submit_all ts ex = Return ex"
  by (induction ts) (simp_all add: Submit_def)

text \<open>
  Reconnection listeners. When the session reports that it has reconnected, one call per registered listener, with the
  text and the cause of the event, is queued behind the calls already queued, and nothing else changes; a listener added with
  \<^verbatim>\<open>AddReconnectionListener\<close> gets one more call, and none after it is removed by the number it was given.
  After the executor is terminated no call is queued.
\<close>

proposition reconnection_listeners_called:
  assumes "listeners_wf (reconnectEventHandlerID service) (reconnectEventHandlers service)"
    and "reconnectEventHandlerID service \<noteq> - 1"
    and "AddReconnectionListener l service = (i, added)"
  shows "(executor_open (eventExecutor service) \<longrightarrow>
            (\<exists>ex ex1 ex2. reconnectEventHandler info service = Return (service\<lparr>eventExecutor := ex\<rparr>) \<and>
               reconnectEventHandler info added = Return (added\<lparr>eventExecutor := ex1\<rparr>) \<and>
               reconnectEventHandler info (RemoveReconnectionListener i added) =
                 Return ((RemoveReconnectionListener i added)\<lparr>eventExecutor := ex2\<rparr>) \<and>
               take (length (tasks (eventExecutor service))) (tasks ex) = tasks (eventExecutor service) \<and>
               mset (tasks ex) = mset (tasks (eventExecutor service)) +
                 image_mset (\<lambda>(j, h). (h, service_event info service)) (mset (reconnectEventHandlers service)) \<and>
               mset (tasks ex1) = add_mset (l, service_event info service) (mset (tasks ex)) \<and>
               mset (tasks ex2) = mset (tasks ex))) \<and>
         (closed (eventExecutor service) = 1 \<longrightarrow> reconnectEventHandler info service = Return service)"
    (is "(_ \<longrightarrow> ?called) \<and> _")
proof (intro conjI impI)
  let ?calls = "\<lambda>m. map (\<lambda>(j, h). (h, service_event info service)) m"
  let ?ex = "eventExecutor service" and ?m = "reconnectEventHandlers service"
  have i: "i = reconnectEventHandlerID service + 1" and table: "reconnectEventHandlers added = AList.update i l ?m"
    and event: "service_event info added = service_event info service" and same: "eventExecutor added = ?ex"
    using assms(3) by (auto simp: AddReconnectionListener_def Let_def service_event_def)
  have fresh: "i \<notin> fst ` set ?m" using listeners_wf_fresh [OF assms(1,2)] i by simp
  assume "executor_open ?ex"
  note q = submit_all_open [OF this]
  obtain ex where ex: "submit_all (?calls ?m) ?ex = Return ex" "tasks ex = tasks ?ex @ ?calls ?m" using q by blast
  obtain ex1 where ex1: "submit_all (?calls (AList.update i l ?m)) ?ex = Return ex1"
    "tasks ex1 = tasks ?ex @ ?calls (AList.update i l ?m)" using q by blast
  have "AList.delete i (AList.update i l ?m) = ?m" using fresh by (simp add: delete_update_same)
  then have removed: "RemoveReconnectionListener i added = added\<lparr>reconnectEventHandlers := ?m\<rparr>"
    and event': "service_event info (added\<lparr>reconnectEventHandlers := ?m\<rparr>) = service_event info service"
    using event by (simp_all add: RemoveReconnectionListener_def table service_event_def)
  show ?called
    by (rule exI [of _ ex], rule exI [of _ ex1], rule exI [of _ ex])
      (use ex ex1 in \<open>simp add: reconnectEventHandler_def event event' table same removed mset_update_fresh [OF fresh]\<close>)
next
  assume "closed (eventExecutor service) = 1"
  then show "reconnectEventHandler info service = Return service"
    by (simp add: reconnectEventHandler_def submit_all_closed)
qed

text \<open>A transport as \<^verbatim>\<open>newCcsmpTransport\<close> returns it, for the runs that are given below.\<close>

definition service_transport0 :: "(string, string, string) service_transport" where
  "service_transport0 = projr (newCcsmpTransport None None (Inr ''client'') ''tcp://host'')"

lemma service_transport0_ok:
  "transport_wf service_transport0" "isRunning (tr_publisher service_transport0) = 0"
  "rx_running (tr_receiver service_transport0) = 0" "prov_isRunning (tr_provisioner service_transport0) = 0"
  "unat (handlerID (tr_events service_transport0)) + 10 < 2 ^ 64" "rxLock_readers (tr_publisher service_transport0) = 0"
proof -
  have "newCcsmpTransport None None (Inr ''client'') ''tcp://host'' = Inr service_transport0"
    by (simp add: service_transport0_def newCcsmpTransport_def)
  from transport_wf_new [OF this] show "transport_wf service_transport0" "isRunning (tr_publisher service_transport0) = 0"
    "rx_running (tr_receiver service_transport0) = 0" "prov_isRunning (tr_provisioner service_transport0) = 0"
    "unat (handlerID (tr_events service_transport0)) + 10 < 2 ^ 64"
    "rxLock_readers (tr_publisher service_transport0) = 0" by simp_all
qed

theorem reconnection_listeners_called_witness:
  "(let service = newMessagingServiceImpl service_transport0 :: (string, string, string, string) messagingServiceImpl;
        info = \<lparr>sei_err = None, infoString = ''up'', correlationP = None, userP = 0\<rparr>
    in \<exists>ex1. reconnectEventHandler info (snd (AddReconnectionListener ''l'' service)) =
               Return ((snd (AddReconnectionListener ''l'' service))\<lparr>eventExecutor := ex1\<rparr>) \<and>
             mset (tasks ex1) = {#(''l'', service_event info service)#})"
  using reconnection_listeners_called [of "newMessagingServiceImpl service_transport0" "''l''"
      "fst (AddReconnectionListener ''l'' (newMessagingServiceImpl service_transport0))"
      "snd (AddReconnectionListener ''l'' (newMessagingServiceImpl service_transport0))"
      "\<lparr>sei_err = None, infoString = ''up'', correlationP = None, userP = 0\<rparr>"]
  by (auto simp: Let_def)

section \<open>Ending the service\<close>

definition service_wf :: "('l, 'a, 'r, 'cb) messagingServiceImpl \<Rightarrow> bool" where
  "service_wf service \<longleftrightarrow> transport_wf (ms_transport service) \<and> executor_open (eventExecutor service)"

lemma unregisterEventHandlers_simps [simp]:
  "transport_wf (ms_transport service) \<Longrightarrow> transport_wf (ms_transport (unregisterEventHandlers service))"
  "tr_publisher (ms_transport (unregisterEventHandlers service)) = tr_publisher (ms_transport service)"
  "eventExecutor (unregisterEventHandlers service) = eventExecutor service"
  "ms_state (unregisterEventHandlers service) = ms_state service"
  "disconnectFuture (unregisterEventHandlers service) = disconnectFuture service"
  by (simp_all add: unregisterEventHandlers_def Let_def transport_wf_def RemoveEventHandler_look)

lemma cleanupListeners_simps [simp]:
  "ms_transport (cleanupListeners service) = ms_transport service"
  "eventExecutor (cleanupListeners service) = eventExecutor service"
  "disconnectFuture (cleanupListeners service) = disconnectFuture service"
  "downEventHandlers (cleanupListeners service) = []" "reconnectEventHandlers (cleanupListeners service) = []"
  "reconnectAttemptEventHandlers (cleanupListeners service) = []"
  by (simp_all add: cleanupListeners_def)

text \<open>After either way to the end, the service answers like this.\<close>

lemma disconnected_answers:
  assumes "ms_state service = messagingServiceStateDisconnected" and "disconnectFuture service = future_Complete err f"
  shows "service_Disconnect d session service = Return (err, service)"
    and "service_Connect c pre service = Return (Some (alreadyDisconnected messagingServiceStateDisconnected), service)"
    and "downEventHandler service = Return (False, service)"
  using assms by (simp_all add: service_Disconnect_def service_Connect_def downEventHandler_def CompareAndSwap_def)

text \<open>
  C21. What disconnecting a connected service does, with the calls on its executor one after the other: \<^verbatim>\<open>eventExecutor.Terminate\<close> finds no
  \<^verbatim>\<open>Submit\<close> under way. Then \<^verbatim>\<open>Disconnect\<close> returns, unless the read lock of the requestor has leaked, in which case it blocks for
  ever. (With a \<^verbatim>\<open>Submit\<close> that hangs, as in \<open>executor_deadlock\<close> of theory \<open>Executor\<close>, \<^verbatim>\<open>Terminate\<close> waits for its lock and \<^verbatim>\<open>Disconnect\<close> does not return
  either; this is outside the statement.) When it returns, whatever the session answered, the transport is closed, no event calls a handler,
  no listener is left, the executor takes no more calls but keeps those it has accepted, and the service is
  disconnected for good: a connect fails with an illegal state error, a down event is ignored, and another disconnect
  returns the same answer as the first one, although the comment of \<^verbatim>\<open>Disconnect\<close> promises an illegal state error for a
  service that is already disconnected.
\<close>

proposition service_disconnect_completes:
  assumes "service_wf service" and "ms_state service = messagingServiceStateConnected"
  shows "(rxLock_readers (tr_publisher (ms_transport service)) = 0 \<longrightarrow>
            (\<exists>err service'. service_Disconnect disconnect session service = Return (err, service') \<and>
               (err = None \<longleftrightarrow> disconnect = None) \<and> ms_state service' = messagingServiceStateDisconnected \<and>
               tr_destroyed (ms_transport service') \<and> (\<forall>e info. emitEvent e info (tr_events (ms_transport service')) = []) \<and>
               downEventHandlers service' = [] \<and> reconnectEventHandlers service' = [] \<and>
               reconnectAttemptEventHandlers service' = [] \<and> closed (eventExecutor service') = 1 \<and>
               tasks (eventExecutor service') = tasks (eventExecutor service) \<and>
               service_Disconnect disconnect' session' service' = Return (err, service') \<and>
               service_Connect connect pre service' =
                 Return (Some (alreadyDisconnected messagingServiceStateDisconnected), service') \<and>
               downEventHandler service' = Return (False, service'))) \<and>
         (0 < rxLock_readers (tr_publisher (ms_transport service)) \<and> isRunning (tr_publisher (ms_transport service)) = 1 \<longrightarrow>
            service_Disconnect disconnect session service = Blocks)"
    (is "(_ \<longrightarrow> ?ended) \<and> _")
proof (intro conjI impI)
  let ?service = "cleanupListeners (unregisterEventHandlers (service\<lparr>ms_state := messagingServiceStateDisconnecting\<rparr>))"
  define err where "err = (case transport_Disconnect disconnect (ms_transport ?service) of Inl e \<Rightarrow> Some e | Inr calls \<Rightarrow> None)"
  have wf: "transport_wf (ms_transport ?service)" using assms(1) by (simp add: service_wf_def)
  assume "rxLock_readers (tr_publisher (ms_transport service)) = 0"
  then have free: "rxLock_readers (tr_publisher (ms_transport ?service)) = 0" by simp
  obtain subs provs t' where t': "transport_Close session (ms_transport ?service) = Return (subs, provs, t')"
      "tr_destroyed t'" "\<forall>e info. emitEvent e info (tr_events t') = []"
    using transport_Close_returns [OF wf free] by blast
  obtain ex' where ex': "Terminate (eventExecutor service) = Return ex'" "tasks ex' = tasks (eventExecutor service)"
      "closed ex' = 1"
    using Terminate_open assms(1) service_wf_def by blast
  define service' where "service' = ?service\<lparr>ms_transport := t', eventExecutor := ex',
      ms_state := messagingServiceStateDisconnected, disconnectFuture := future_Complete err (disconnectFuture service)\<rparr>"
  have ended: "service_Disconnect disconnect session service = Return (err, service')"
    using assms(2) t'(1) ex'(1) by (simp add: service_Disconnect_def CompareAndSwap_def service'_def err_def Let_def)
  have "err = None \<longleftrightarrow> disconnect = None"
    by (simp add: err_def transport_Disconnect_def split: option.splits)
  moreover have "ms_state service' = messagingServiceStateDisconnected"
    and "disconnectFuture service' = future_Complete err (disconnectFuture service)" by (simp_all add: service'_def)
  note this disconnected_answers [OF this]
  ultimately show ?ended
    using ended t' ex' by (intro exI [of _ err] exI [of _ service']) (simp add: service'_def)
next
  assume "0 < rxLock_readers (tr_publisher (ms_transport service)) \<and> isRunning (tr_publisher (ms_transport service)) = 1"
  then show "service_Disconnect disconnect session service = Blocks"
    using assms(2) transport_Close_blocks
      [of "ms_transport (unregisterEventHandlers (service\<lparr>ms_state := messagingServiceStateDisconnecting\<rparr>))"]
    by (simp add: service_Disconnect_def CompareAndSwap_def Let_def)
qed

lemma service_wf_connected0:
  "service_wf ((newMessagingServiceImpl service_transport0)\<lparr>ms_state := messagingServiceStateConnected\<rparr>)"
  by (simp add: service_wf_def service_transport0_ok)

theorem service_disconnect_completes_witness:
  "(let service = (newMessagingServiceImpl service_transport0)\<lparr>ms_state := messagingServiceStateConnected\<rparr>
        :: (string, string, string, string) messagingServiceImpl
    in (\<exists>service'. service_Disconnect None dead_session service = Return (None, service') \<and>
          tr_destroyed (ms_transport service') \<and> service_Disconnect None dead_session service' = Return (None, service')) \<and>
       service_Disconnect None dead_session (service\<lparr>ms_transport := service_transport0\<lparr>tr_publisher :=
         (tr_publisher service_transport0)\<lparr>rxLock_readers := 1, isRunning := 1\<rparr>\<rparr>\<rparr>) = Blocks)"
proof -
  let ?service = "(newMessagingServiceImpl service_transport0)\<lparr>ms_state := messagingServiceStateConnected\<rparr>
      :: (string, string, string, string) messagingServiceImpl"
  let ?leak = "?service\<lparr>ms_transport := service_transport0\<lparr>tr_publisher :=
         (tr_publisher service_transport0)\<lparr>rxLock_readers := 1, isRunning := 1\<rparr>\<rparr>\<rparr>"
  have wf: "service_wf ?leak"
    using service_transport0_ok(1) by (simp add: service_wf_def transport_wf_def)
  show ?thesis
    using service_disconnect_completes [OF service_wf_connected0, of None dead_session None dead_session None "Inr []"]
      service_disconnect_completes [OF wf, of None dead_session] service_transport0_ok(6)
    unfolding Let_def by auto
qed

text \<open>
  A down event that finds the service connected ends it: the service is disconnected before the handler returns and the
  executor takes no more calls; the goroutine for the listeners calls each interruption listener once, with the host and
  the cause, and drops all listeners; the goroutine that closes the transport completes, unless the
  requestor's lock has leaked, and only then does \<^verbatim>\<open>Disconnect\<close> return, without an error. A second down event is
  ignored.
\<close>

proposition service_down_event:
  assumes "service_wf service" and "ms_state service = messagingServiceStateConnected"
    and "disconnectFuture service = NewFutureError"
    and "rxLock_readers (tr_publisher (ms_transport service)) = 0"
  shows "\<exists>service1. downEventHandler service = Return (True, service1) \<and> \<not> ms_IsConnected service1 \<and>
           closed (eventExecutor service1) = 1 \<and> tasks (eventExecutor service1) = tasks (eventExecutor service) \<and>
           downEventHandler service1 = Return (False, service1) \<and>
           service_Disconnect disconnect session' service1 = Blocks \<and>
           fst (notifyInterruptionListeners info service1) =
             map (\<lambda>(i, l). (l, service_event info service)) (downEventHandlers service) \<and>
           fst (notifyInterruptionListeners info (snd (notifyInterruptionListeners info service1))) = [] \<and>
           (\<exists>service2. down_close session service1 = Return service2 \<and> tr_destroyed (ms_transport service2) \<and>
              (\<forall>e info. emitEvent e info (tr_events (ms_transport service2)) = []) \<and>
              service_Disconnect disconnect session' service2 = Return (None, service2))"
proof -
  obtain ex' where ex': "Terminate (eventExecutor service) = Return ex'" "tasks ex' = tasks (eventExecutor service)"
      "closed ex' = 1"
    using Terminate_open assms(1) service_wf_def by blast
  define service1 where "service1 = service\<lparr>ms_state := messagingServiceStateDisconnected,
      activeSubState := messagingServiceSubStateDown, eventExecutor := ex'\<rparr>"
  have free: "rxLock_readers (tr_publisher (ms_transport (unregisterEventHandlers service1))) = 0"
    using assms(4) by (simp add: service1_def)
  have wf: "transport_wf (ms_transport (unregisterEventHandlers service1))"
    using assms(1) by (simp add: service1_def service_wf_def)
  obtain subs provs t' where t': "transport_Close session (ms_transport (unregisterEventHandlers service1)) = Return (subs, provs, t')"
      "tr_destroyed t'" "\<forall>e info. emitEvent e info (tr_events t') = []"
    using transport_Close_returns [OF wf free] by blast
  define service2 where "service2 = (unregisterEventHandlers service1)\<lparr>ms_transport := t',
      disconnectFuture := future_Complete None (disconnectFuture service1)\<rparr>"
  have "downEventHandler service = Return (True, service1)"
    by (simp add: downEventHandler_def assms(2) CompareAndSwap_def ex'(1) service1_def)
  moreover have "down_close session service1 = Return service2"
    by (simp add: down_close_def t'(1) service2_def Let_def)
  moreover have "service_Disconnect disconnect session' service2 = Return (None, service2)"
    by (rule disconnected_answers) (simp_all add: service2_def service1_def)
  moreover have "\<not> ms_IsConnected service1" "downEventHandler service1 = Return (False, service1)"
      "service_Disconnect disconnect session' service1 = Blocks"
    by (simp_all add: service1_def ms_IsConnected_def downEventHandler_def service_Disconnect_def CompareAndSwap_def assms(3))
  moreover have "fst (notifyInterruptionListeners info service1) =
        map (\<lambda>(i, l). (l, service_event info service)) (downEventHandlers service)"
      "fst (notifyInterruptionListeners info (snd (notifyInterruptionListeners info service1))) = []"
    by (simp_all add: notifyInterruptionListeners_def service1_def service_event_def)
  ultimately show ?thesis
    using ex' t'(2,3) by (intro exI [of _ service1] conjI exI [of _ service2]) (simp_all add: service1_def service2_def)
qed

theorem service_down_event_witness:
  "(let service = (newMessagingServiceImpl service_transport0)\<lparr>ms_state := messagingServiceStateConnected,
          downEventHandlers := [(1, ''l'')]\<rparr> :: (string, string, string, string) messagingServiceImpl;
        info = \<lparr>sei_err = None, infoString = ''down'', correlationP = None, userP = 0\<rparr>
    in \<exists>service1. downEventHandler service = Return (True, service1) \<and> \<not> ms_IsConnected service1 \<and>
         fst (notifyInterruptionListeners info service1) = [(''l'', service_event info service)])"
proof -
  let ?service = "(newMessagingServiceImpl service_transport0)\<lparr>ms_state := messagingServiceStateConnected,
          downEventHandlers := [(1, ''l'')]\<rparr> :: (string, string, string, string) messagingServiceImpl"
  have "service_wf ?service" by (simp add: service_wf_def service_transport0_ok)
  from service_down_event [OF this, of None dead_session
      "\<lparr>sei_err = None, infoString = ''down'', correlationP = None, userP = 0\<rparr>" dead_session] service_transport0_ok(6)
  show ?thesis unfolding Let_def by auto
qed

end
