(* ===== verification/Service_Concurrency.thy ===== *)
theory Service_Concurrency
  imports Messaging_Service
begin

text \<open>
  \<^verbatim>\<open>Connect\<close>, \<^verbatim>\<open>Disconnect\<close> and the handler of the down event of the messaging service
  (\<^verbatim>\<open>internal/impl/messaging_service_impl.go\<close>) as a step relation with one step per atomic access, for any
  number of goroutines. The theorems are about all its runs: what concurrent callers may rely on, and
  two orderings in which a caller is left waiting or an event is lost.
\<close>

section \<open>Concurrent callers\<close>

text \<open>
  The program points of a goroutine between its atomic accesses. \<open>CnCAS\<close>, \<open>CnLoad\<close> and \<open>CnWait\<close> are the
  accesses of \<^verbatim>\<open>Connect\<close> up to its decision; \<open>CnBody\<close> connects the transport; \<open>CnDown\<close> and \<open>CnFail\<close> store the
  sub state and the state after a failure; \<open>CnRegister\<close> registers the event handlers and \<open>CnStore\<close> stores
  the state after a success; \<open>CnStored\<close> completes the future. \<open>DsCAS\<close>, \<open>DsLoad\<close>, \<open>DsWait\<close>, \<open>DsBody\<close>,
  \<open>DsStore\<close> and \<open>DsStored\<close> are the same for \<^verbatim>\<open>Disconnect\<close>. \<open>DnCAS\<close>, \<open>DnSub\<close>, \<open>DnExec\<close> and \<open>DnSpawn\<close> are
  the handler of the down event, \<open>DnClose\<close> and \<open>DnClosed\<close> the goroutine it starts to close the transport,
  and \<open>DnNotify\<close> the one that calls the interruption listeners.
\<close>

datatype svc_pc =
    SvIdle
  | CnCAS | CnLoad | CnWait messagingServiceState | CnBody | CnDown go_error | CnFail go_error
  | CnRegister | CnStore | CnStored "go_error option"
  | DsCAS | DsLoad | DsWait messagingServiceState | DsBody | DsStore "go_error option" | DsStored "go_error option"
  | DnCAS | DnSub | DnExec | DnSpawn | DnClose | DnClosed | DnNotify

record ('l, 'a, 'r, 'cb) svc_sys =
  svc :: "('l, 'a, 'r, 'cb) messagingServiceImpl"
  svc_pcs :: "nat \<Rightarrow> svc_pc"
  connects :: nat
  closes :: nat

definition svc_goto :: "nat \<Rightarrow> svc_pc \<Rightarrow> ('l, 'a, 'r, 'cb) svc_sys \<Rightarrow> ('l, 'a, 'r, 'cb) svc_sys" where
  "svc_goto i pc s = s\<lparr>svc_pcs := (svc_pcs s)(i := pc)\<rparr>"

definition svc_map ::
    "(('l, 'a, 'r, 'cb) messagingServiceImpl \<Rightarrow> ('l, 'a, 'r, 'cb) messagingServiceImpl)
       \<Rightarrow> ('l, 'a, 'r, 'cb) svc_sys \<Rightarrow> ('l, 'a, 'r, 'cb) svc_sys" where
  "svc_map f s = s\<lparr>svc := f (svc s)\<rparr>"

definition down_registered :: "('l, 'a, 'r, 'cb) messagingServiceImpl \<Rightarrow> bool" where
  "down_registered service \<longleftrightarrow>
     Other (ClientHandler ServiceDownHandler) \<in> snd ` set (handlers_for SolClientEventDown (tr_events (ms_transport service)))"

inductive svc_step :: "('l, 'a, 'r, 'cb) svc_sys \<Rightarrow> ('l, 'a, 'r, 'cb) svc_sys \<Rightarrow> bool" where
  call_connect: "svc_pcs s i = SvIdle \<Longrightarrow> svc_step s (svc_goto i CnCAS s)"
| cn_cas_ok: "svc_pcs s i = CnCAS \<Longrightarrow>
     CompareAndSwap messagingServiceStateNotConnected messagingServiceStateConnecting (ms_state (svc s)) = (True, st) \<Longrightarrow>
     svc_step s (svc_goto i CnBody (svc_map (ms_state_update (\<lambda>_. st)) s))"
| cn_cas_fail: "svc_pcs s i = CnCAS \<Longrightarrow>
     CompareAndSwap messagingServiceStateNotConnected messagingServiceStateConnecting (ms_state (svc s)) = (False, st) \<Longrightarrow>
     svc_step s (svc_goto i CnLoad s)"
| cn_load: "svc_pcs s i = CnLoad \<Longrightarrow> svc_step s (svc_goto i (CnWait (ms_state (svc s))) s)"
| cn_wait: "svc_pcs s i = CnWait cur \<Longrightarrow>
     cur \<noteq> messagingServiceStateDisconnecting \<Longrightarrow> cur \<noteq> messagingServiceStateDisconnected \<Longrightarrow>
     future_Get (connectFuture (svc s)) = Return e \<Longrightarrow> svc_step s (svc_goto i SvIdle s)"
| cn_illegal: "svc_pcs s i = CnWait cur \<Longrightarrow>
     cur = messagingServiceStateDisconnecting \<or> cur = messagingServiceStateDisconnected \<Longrightarrow>
     svc_step s (svc_goto i SvIdle s)"
| cn_connect_fails: "svc_pcs s i = CnBody \<Longrightarrow>
     transport_Connect connect getPrefix (ms_transport (svc s)) = (Some err, transport) \<Longrightarrow>
     svc_step s (svc_goto i (CnDown err)
       ((svc_map (ms_transport_update (\<lambda>_. transport)) s)\<lparr>connects := connects s + 1\<rparr>))"
| cn_down: "svc_pcs s i = CnDown err \<Longrightarrow>
     svc_step s (svc_goto i (CnFail err) (svc_map (activeSubState_update (\<lambda>_. messagingServiceSubStateDown)) s))"
| cn_fail: "svc_pcs s i = CnFail err \<Longrightarrow>
     svc_step s (svc_goto i (CnStored (Some err)) (svc_map (ms_state_update (\<lambda>_. messagingServiceStateConnected)) s))"
| cn_connect_ok: "svc_pcs s i = CnBody \<Longrightarrow>
     transport_Connect connect getPrefix (ms_transport (svc s)) = (None, transport) \<Longrightarrow>
     svc_step s (svc_goto i CnRegister
       ((svc_map (ms_transport_update (\<lambda>_. transport)) s)\<lparr>connects := connects s + 1\<rparr>))"
| cn_register: "svc_pcs s i = CnRegister \<Longrightarrow> svc_step s (svc_goto i CnStore (svc_map register_handlers s))"
| cn_store: "svc_pcs s i = CnStore \<Longrightarrow>
     svc_step s (svc_goto i (CnStored None) (svc_map (ms_state_update (\<lambda>_. messagingServiceStateConnected)) s))"
| cn_complete: "svc_pcs s i = CnStored err \<Longrightarrow>
     svc_step s (svc_goto i SvIdle (svc_map (connectFuture_update (future_Complete err)) s))"
| call_disconnect: "svc_pcs s i = SvIdle \<Longrightarrow> svc_step s (svc_goto i DsCAS s)"
| ds_cas_ok: "svc_pcs s i = DsCAS \<Longrightarrow>
     CompareAndSwap messagingServiceStateConnected messagingServiceStateDisconnecting (ms_state (svc s)) = (True, st) \<Longrightarrow>
     svc_step s (svc_goto i DsBody (svc_map (ms_state_update (\<lambda>_. st)) s))"
| ds_cas_fail: "svc_pcs s i = DsCAS \<Longrightarrow>
     CompareAndSwap messagingServiceStateConnected messagingServiceStateDisconnecting (ms_state (svc s)) = (False, st) \<Longrightarrow>
     svc_step s (svc_goto i DsLoad s)"
| ds_load: "svc_pcs s i = DsLoad \<Longrightarrow> svc_step s (svc_goto i (DsWait (ms_state (svc s))) s)"
| ds_wait: "svc_pcs s i = DsWait cur \<Longrightarrow>
     cur \<noteq> messagingServiceStateNotConnected \<Longrightarrow> cur \<noteq> messagingServiceStateConnecting \<Longrightarrow>
     future_Get (disconnectFuture (svc s)) = Return e \<Longrightarrow> svc_step s (svc_goto i SvIdle s)"
| ds_illegal: "svc_pcs s i = DsWait cur \<Longrightarrow>
     cur = messagingServiceStateNotConnected \<or> cur = messagingServiceStateConnecting \<Longrightarrow>
     svc_step s (svc_goto i SvIdle s)"
| ds_body: "svc_pcs s i = DsBody \<Longrightarrow>
     service = cleanupListeners (unregisterEventHandlers (svc s)) \<Longrightarrow>
     err = (case transport_Disconnect disconnect (ms_transport service) of Inl e \<Rightarrow> Some e | Inr calls \<Rightarrow> None) \<Longrightarrow>
     transport_Close session (ms_transport service) = Return (subs, provs, transport) \<Longrightarrow>
     Terminate (eventExecutor service) = Return ex \<Longrightarrow>
     svc_step s (svc_goto i (DsStore err)
       (s\<lparr>svc := service\<lparr>ms_transport := transport, eventExecutor := ex\<rparr>, closes := closes s + 1\<rparr>))"
| ds_store: "svc_pcs s i = DsStore err \<Longrightarrow>
     svc_step s (svc_goto i (DsStored err) (svc_map (ms_state_update (\<lambda>_. messagingServiceStateDisconnected)) s))"
| ds_complete: "svc_pcs s i = DsStored err \<Longrightarrow>
     svc_step s (svc_goto i SvIdle (svc_map (disconnectFuture_update (future_Complete err)) s))"
| down_event: "svc_pcs s i = SvIdle \<Longrightarrow> down_registered (svc s) \<Longrightarrow> svc_step s (svc_goto i DnCAS s)"
| dn_cas_ok: "svc_pcs s i = DnCAS \<Longrightarrow>
     CompareAndSwap messagingServiceStateConnected messagingServiceStateDisconnected (ms_state (svc s)) = (True, st) \<Longrightarrow>
     svc_step s (svc_goto i DnSub (svc_map (ms_state_update (\<lambda>_. st)) s))"
| dn_cas_fail: "svc_pcs s i = DnCAS \<Longrightarrow>
     CompareAndSwap messagingServiceStateConnected messagingServiceStateDisconnected (ms_state (svc s)) = (False, st) \<Longrightarrow>
     svc_step s (svc_goto i SvIdle s)"
| dn_sub: "svc_pcs s i = DnSub \<Longrightarrow>
     svc_step s (svc_goto i DnExec (svc_map (activeSubState_update (\<lambda>_. messagingServiceSubStateDown)) s))"
| dn_exec: "svc_pcs s i = DnExec \<Longrightarrow> Terminate (eventExecutor (svc s)) = Return ex \<Longrightarrow>
     svc_step s (svc_goto i DnSpawn (svc_map (eventExecutor_update (\<lambda>_. ex)) s))"
| dn_spawn: "svc_pcs s i = DnSpawn \<Longrightarrow> svc_pcs s j = SvIdle \<Longrightarrow> svc_pcs s k = SvIdle \<Longrightarrow> j \<noteq> k \<Longrightarrow>
     svc_step s (svc_goto k DnNotify (svc_goto j DnClose (svc_goto i SvIdle s)))"
| dn_close: "svc_pcs s i = DnClose \<Longrightarrow>
     service = unregisterEventHandlers (svc s) \<Longrightarrow>
     transport_Close session (ms_transport service) = Return (subs, provs, transport) \<Longrightarrow>
     svc_step s (svc_goto i DnClosed (s\<lparr>svc := service\<lparr>ms_transport := transport\<rparr>, closes := closes s + 1\<rparr>))"
| dn_complete: "svc_pcs s i = DnClosed \<Longrightarrow>
     svc_step s (svc_goto i SvIdle (svc_map (disconnectFuture_update (future_Complete None)) s))"
| dn_notify: "svc_pcs s i = DnNotify \<Longrightarrow> notifyInterruptionListeners info (svc s) = (calls, service) \<Longrightarrow>
     svc_step s (svc_goto i SvIdle (s\<lparr>svc := service\<rparr>))"

definition svc_init :: "('a, 'r, 'cb) service_transport \<Rightarrow> ('l, 'a, 'r, 'cb) svc_sys" where
  "svc_init transport =
     \<lparr>svc = newMessagingServiceImpl transport, svc_pcs = (\<lambda>i. SvIdle), connects = 0, closes = 0\<rparr>"

lemma svc_sys_simps [simp]:
  "svc (svc_goto i pc s) = svc s" "svc_pcs (svc_goto i pc s) = (svc_pcs s)(i := pc)"
  "connects (svc_goto i pc s) = connects s" "closes (svc_goto i pc s) = closes s"
  "svc (svc_map f s) = f (svc s)" "svc_pcs (svc_map f s) = svc_pcs s"
  "connects (svc_map f s) = connects s" "closes (svc_map f s) = closes s"
  by (simp_all add: svc_goto_def svc_map_def)

lemma service_op_state [simp]:
  "ms_state (register_handlers v) = ms_state v" "ms_state (unregisterEventHandlers v) = ms_state v"
  "ms_state (cleanupListeners v) = ms_state v"
  "connectFuture (register_handlers v) = connectFuture v" "connectFuture (unregisterEventHandlers v) = connectFuture v"
  "connectFuture (cleanupListeners v) = connectFuture v"
  "disconnectFuture (register_handlers v) = disconnectFuture v"
  "disconnectFuture (unregisterEventHandlers v) = disconnectFuture v"
  "disconnectFuture (cleanupListeners v) = disconnectFuture v"
  by (simp_all add: register_handlers_def unregisterEventHandlers_def cleanupListeners_def Let_def split: prod.splits)

lemma notify_state [simp]:
  "notifyInterruptionListeners info v = (calls, v') \<Longrightarrow>
     ms_state v' = ms_state v \<and> connectFuture v' = connectFuture v \<and> disconnectFuture v' = disconnectFuture v"
  by (auto simp: notifyInterruptionListeners_def)

lemma CAS_result:
  "CompareAndSwap old new cur = (True, st) \<longleftrightarrow> cur = old \<and> st = new"
  "CompareAndSwap old new cur = (False, st) \<longleftrightarrow> cur \<noteq> old \<and> st = cur"
  by (auto simp: CompareAndSwap_def)

section \<open>Invariant\<close>

fun svc_rank :: "messagingServiceState \<Rightarrow> nat" where
  "svc_rank messagingServiceStateNotConnected = 0"
| "svc_rank messagingServiceStateConnecting = 1"
| "svc_rank messagingServiceStateConnected = 2"
| "svc_rank messagingServiceStateDisconnecting = 3"
| "svc_rank messagingServiceStateDisconnected = 4"

lemma svc_rank_eq:
  "svc_rank st = 0 \<longleftrightarrow> st = messagingServiceStateNotConnected"
  "svc_rank st = Suc 0 \<longleftrightarrow> st = messagingServiceStateConnecting"
  "svc_rank st = 2 \<longleftrightarrow> st = messagingServiceStateConnected"
  "svc_rank st = 3 \<longleftrightarrow> st = messagingServiceStateDisconnecting"
  "svc_rank st = 4 \<longleftrightarrow> st = messagingServiceStateDisconnected"
  by (cases st; simp)+

text \<open>
  The state in which a goroutine at a program point finds the service, where that is determined: it has
  won a compare and swap and nobody else moves the state.
\<close>

fun svc_owner :: "svc_pc \<Rightarrow> messagingServiceState option" where
  "svc_owner CnBody = Some messagingServiceStateConnecting"
| "svc_owner (CnDown e) = Some messagingServiceStateConnecting"
| "svc_owner (CnFail e) = Some messagingServiceStateConnecting"
| "svc_owner CnRegister = Some messagingServiceStateConnecting"
| "svc_owner CnStore = Some messagingServiceStateConnecting"
| "svc_owner DsBody = Some messagingServiceStateDisconnecting"
| "svc_owner (DsStore e) = Some messagingServiceStateDisconnecting"
| "svc_owner DnSub = Some messagingServiceStateDisconnected"
| "svc_owner DnExec = Some messagingServiceStateDisconnected"
| "svc_owner DnSpawn = Some messagingServiceStateDisconnected"
| "svc_owner DnClose = Some messagingServiceStateDisconnected"
| "svc_owner _ = None"

definition svc_owners :: "('l, 'a, 'r, 'cb) svc_sys \<Rightarrow> bool" where
  "svc_owners s \<longleftrightarrow> (\<forall>i st. svc_owner (svc_pcs s i) = Some st \<longrightarrow> ms_state (svc s) = st \<and>
     (\<forall>j. svc_owner (svc_pcs s j) \<noteq> None \<longrightarrow> j = i))"

fun before_connect :: "svc_pc \<Rightarrow> bool" where
  "before_connect CnBody = True"
| "before_connect _ = False"

fun before_close :: "svc_pc \<Rightarrow> bool" where
  "before_close DsBody = True"
| "before_close DnSub = True"
| "before_close DnExec = True"
| "before_close DnSpawn = True"
| "before_close DnClose = True"
| "before_close _ = False"

definition svc_counts :: "('l, 'a, 'r, 'cb) svc_sys \<Rightarrow> bool" where
  "svc_counts s \<longleftrightarrow> connects s \<le> 1 \<and> closes s \<le> 1 \<and>
     (ms_state (svc s) = messagingServiceStateNotConnected \<longrightarrow> connects s = 0) \<and>
     (svc_rank (ms_state (svc s)) < 3 \<longrightarrow> closes s = 0) \<and>
     (\<forall>i. before_connect (svc_pcs s i) \<longrightarrow> connects s = 0) \<and>
     (\<forall>i. before_close (svc_pcs s i) \<longrightarrow> closes s = 0)"

lemma svc_ownersD: "svc_owners s \<Longrightarrow> svc_owner (svc_pcs s i) = Some st \<Longrightarrow> ms_state (svc s) = st"
  unfolding svc_owners_def by blast

lemma svc_owners_unique:
  "svc_owners s \<Longrightarrow> svc_owner (svc_pcs s i) \<noteq> None \<Longrightarrow> svc_owner (svc_pcs s j) \<noteq> None \<Longrightarrow> j = i"
  unfolding svc_owners_def by blast

lemma svc_ownersI:
  assumes "\<And>i st. svc_owner (svc_pcs s i) = Some st \<Longrightarrow> ms_state (svc s) = st"
    and "\<And>i j. svc_owner (svc_pcs s i) \<noteq> None \<Longrightarrow> svc_owner (svc_pcs s j) \<noteq> None \<Longrightarrow> j = i"
  shows "svc_owners s"
  using assms unfolding svc_owners_def by (metis option.distinct(1))

text \<open>
  The three ways in which a step keeps the owners right: it leaves the state alone and makes no new owner;
  it becomes the owner when there is none; it stops being the owner.
\<close>

lemma svc_owners_goto:
  assumes "svc_owners s" and "svc_pcs s1 = svc_pcs s" and "ms_state (svc s1) = ms_state (svc s)"
    and "svc_owner pc = None \<or> svc_owner pc = svc_owner (svc_pcs s i)"
  shows "svc_owners (svc_goto i pc s1)"
proof (rule svc_ownersI)
  let ?s = "svc_goto i pc s1"
  have eq: "svc_owner (svc_pcs ?s j) = svc_owner (svc_pcs s j) \<or> svc_owner (svc_pcs ?s j) = None" for j
    using assms(2,4) by auto
  then show "ms_state (svc ?s) = st" if "svc_owner (svc_pcs ?s j) = Some st" for j st
    using svc_ownersD [OF assms(1)] assms(3) that by (metis option.distinct(1) svc_sys_simps(1))
  show "k = j" if "svc_owner (svc_pcs ?s j) \<noteq> None" "svc_owner (svc_pcs ?s k) \<noteq> None" for j k
    using svc_owners_unique [OF assms(1)] eq that by metis
qed

lemma svc_owners_take:
  assumes "\<And>j. svc_owner (svc_pcs s j) = None" and "svc_pcs s' = (svc_pcs s)(i := pc)"
    and "svc_owner pc = Some (ms_state (svc s'))"
  shows "svc_owners s'"
  using assms by (intro svc_ownersI) (auto split: if_splits)

lemma svc_owners_release:
  assumes "svc_owners s" and "svc_owner (svc_pcs s i) \<noteq> None" and "svc_pcs s' = (svc_pcs s)(i := pc)"
    and "svc_owner pc = None"
  shows "svc_owners s'"
proof (rule svc_ownersI)
  have "svc_owner (svc_pcs s' j) = None" for j
    using svc_owners_unique [OF assms(1,2)] assms(3,4) by (metis fun_upd_apply)
  then show "\<And>j st. svc_owner (svc_pcs s' j) = Some st \<Longrightarrow> ms_state (svc s') = st"
    and "\<And>j k. svc_owner (svc_pcs s' j) \<noteq> None \<Longrightarrow> svc_owner (svc_pcs s' k) \<noteq> None \<Longrightarrow> k = j"
    by simp_all
qed

lemma no_owner:
  "svc_owners s \<Longrightarrow> ms_state (svc s) = messagingServiceStateNotConnected \<or> ms_state (svc s) = messagingServiceStateConnected
     \<Longrightarrow> svc_owner (svc_pcs s j) = None"
  using svc_ownersD [of s j] by (cases "svc_pcs s j") auto

lemma svc_step_owners: "svc_step s s' \<Longrightarrow> svc_owners s \<Longrightarrow> svc_owners s'"
proof (induction rule: svc_step.induct)
  case (cn_cas_ok s i st)
  show ?case by (rule svc_owners_take [of s _ i CnBody]) (use cn_cas_ok in \<open>simp_all add: CAS_result no_owner\<close>)
next
  case (ds_cas_ok s i st)
  show ?case by (rule svc_owners_take [of s _ i DsBody]) (use ds_cas_ok in \<open>simp_all add: CAS_result no_owner\<close>)
next
  case (dn_cas_ok s i st)
  show ?case by (rule svc_owners_take [of s _ i DnSub]) (use dn_cas_ok in \<open>simp_all add: CAS_result no_owner\<close>)
next
  case (cn_fail s i err)
  show ?case by (rule svc_owners_release [of s i _ "CnStored (Some err)"]) (use cn_fail in simp_all)
next
  case (cn_store s i)
  show ?case by (rule svc_owners_release [of s i _ "CnStored None"]) (use cn_store in simp_all)
next
  case (ds_store s i err)
  show ?case by (rule svc_owners_release [of s i _ "DsStored err"]) (use ds_store in simp_all)
next
  case (dn_spawn s i j k)
  have "j \<noteq> i" "k \<noteq> i" using dn_spawn by auto
  have st: "ms_state (svc s) = messagingServiceStateDisconnected"
    using svc_ownersD [OF dn_spawn(5), of i] dn_spawn(1) by simp
  have "svc_owner (svc_pcs s m) = None" if "m \<noteq> i" for m
    using svc_owners_unique [OF dn_spawn(5), of i m] dn_spawn(1) that by (metis option.distinct(1) svc_owner.simps(10))
  with st show ?case using \<open>j \<noteq> i\<close> \<open>k \<noteq> i\<close> dn_spawn(4) by (intro svc_ownersI) (auto split: if_splits)
qed (rule svc_owners_goto, assumption, simp, simp, simp)+

lemma svc_step_monotone: "svc_step s s' \<Longrightarrow> svc_owners s \<Longrightarrow> svc_rank (ms_state (svc s)) \<le> svc_rank (ms_state (svc s'))"
proof (induction rule: svc_step.induct)
  case (cn_fail s i err)
  then show ?case using svc_ownersD [of s i] by simp
next
  case (cn_store s i)
  then show ?case using svc_ownersD [of s i] by simp
next
  case (ds_store s i err)
  then show ?case using svc_ownersD [of s i] by simp
qed (simp_all add: CAS_result)

lemma before_owner: "before_connect pc \<Longrightarrow> svc_owner pc \<noteq> None" "before_close pc \<Longrightarrow> svc_owner pc \<noteq> None"
  by (cases pc; simp)+

lemma svc_counts_goto:
  assumes "svc_counts s" and "svc_pcs s1 = svc_pcs s" and "connects s1 = connects s" and "closes s1 = closes s"
    and "ms_state (svc s1) = ms_state (svc s) \<or> (svc_rank (ms_state (svc s)) < svc_rank (ms_state (svc s1)))"
    and "before_connect pc \<longrightarrow> connects s = 0" and "before_close pc \<longrightarrow> closes s = 0"
  shows "svc_counts (svc_goto i pc s1)"
  using assms by (auto simp: svc_counts_def)

lemma svc_counts_connect:
  assumes "svc_counts s" and "svc_owners s" and "svc_pcs s i = CnBody" and "svc_pcs s' = (svc_pcs s)(i := pc)"
    and "\<not> before_connect pc" and "\<not> before_close pc"
    and "connects s' = connects s + 1" "closes s' = closes s" "ms_state (svc s') = ms_state (svc s)"
  shows "svc_counts s'"
proof -
  have "connects s = 0" using assms(1,3) by (simp add: svc_counts_def) (metis before_connect.simps(1))
  moreover have "ms_state (svc s) = messagingServiceStateConnecting" using svc_ownersD [OF assms(2), of i] assms(3) by simp
  moreover have "\<not> before_connect (svc_pcs s j)" if "j \<noteq> i" for j
    using svc_owners_unique [OF assms(2), of i j] before_owner(1) assms(3) that
    by (metis option.distinct(1) svc_owner.simps(1))
  ultimately show ?thesis using assms by (auto simp: svc_counts_def)
qed

lemma svc_counts_close:
  assumes "svc_counts s" and "svc_owners s" and "before_close (svc_pcs s i)" and "svc_pcs s' = (svc_pcs s)(i := pc)"
    and "\<not> before_connect pc" and "\<not> before_close pc"
    and "connects s' = connects s" "closes s' = closes s + 1" "ms_state (svc s') = ms_state (svc s)"
  shows "svc_counts s'"
proof -
  have "closes s = 0" using assms(1,3) unfolding svc_counts_def by blast
  moreover have "\<not> svc_rank (ms_state (svc s)) < 3"
    using svc_ownersD [OF assms(2), of i] assms(3) by (cases "svc_pcs s i") auto
  moreover have "\<not> before_close (svc_pcs s j)" if "j \<noteq> i" for j
    using svc_owners_unique [OF assms(2), of i j] before_owner(2) assms(3) that by blast
  ultimately show ?thesis using assms by (auto simp: svc_counts_def)
qed

lemma svc_counts_before: "svc_counts s \<Longrightarrow> before_close (svc_pcs s i) \<Longrightarrow> closes s = 0"
  unfolding svc_counts_def by blast

lemma svc_counts_state:
  "svc_counts s \<Longrightarrow> svc_rank (ms_state (svc s)) < 3 \<Longrightarrow> closes s = 0"
  "svc_counts s \<Longrightarrow> ms_state (svc s) = messagingServiceStateNotConnected \<Longrightarrow> connects s = 0"
  unfolding svc_counts_def by blast+

lemma svc_step_counts: "svc_step s s' \<Longrightarrow> svc_owners s \<Longrightarrow> svc_counts s \<Longrightarrow> svc_counts s'"
proof (induction rule: svc_step.induct)
  case (cn_connect_fails s i connect getPrefix err transport)
  show ?case by (rule svc_counts_connect [of s i _ "CnDown err"]) (use cn_connect_fails in simp_all)
next
  case (cn_connect_ok s i connect getPrefix transport)
  show ?case by (rule svc_counts_connect [of s i _ CnRegister]) (use cn_connect_ok in simp_all)
next
  case (ds_body s i service err disconnect session subs provs transport ex)
  show ?case by (rule svc_counts_close [of s i _ "DsStore err"]) (use ds_body in simp_all)
next
  case (dn_close s i service session subs provs transport)
  show ?case by (rule svc_counts_close [of s i _ DnClosed]) (use dn_close in simp_all)
next
  case (dn_spawn s i j k)
  have "closes s = 0" using svc_counts_before [OF dn_spawn(6), of i] dn_spawn(1) by simp
  then show ?case using dn_spawn by (auto simp: svc_counts_def)
next
  case (cn_fail s i err)
  show ?case by (rule svc_counts_goto [of s]) (use cn_fail svc_ownersD [of s i] in simp_all)
next
  case (cn_store s i)
  show ?case by (rule svc_counts_goto [of s]) (use cn_store svc_ownersD [of s i] in simp_all)
next
  case (ds_store s i err)
  show ?case by (rule svc_counts_goto [of s]) (use ds_store svc_ownersD [of s i] in simp_all)
next
  case (dn_sub s i)
  show ?case by (rule svc_counts_goto [of s]) (use dn_sub svc_counts_before [of s i] in simp_all)
next
  case (dn_exec s i ex)
  show ?case by (rule svc_counts_goto [of s]) (use dn_exec svc_counts_before [of s i] in simp_all)
qed (rule svc_counts_goto, assumption, simp, simp, simp, simp add: CAS_result,
    simp add: CAS_result svc_counts_state, simp add: CAS_result svc_counts_state)+

section \<open>Nobody waits in vain\<close>

fun owes_connect :: "svc_pc \<Rightarrow> bool" where
  "owes_connect CnBody = True"
| "owes_connect (CnDown e) = True"
| "owes_connect (CnFail e) = True"
| "owes_connect CnRegister = True"
| "owes_connect CnStore = True"
| "owes_connect (CnStored e) = True"
| "owes_connect _ = False"

fun owes_disconnect :: "svc_pc \<Rightarrow> bool" where
  "owes_disconnect DsBody = True"
| "owes_disconnect (DsStore e) = True"
| "owes_disconnect (DsStored e) = True"
| "owes_disconnect DnSub = True"
| "owes_disconnect DnExec = True"
| "owes_disconnect DnSpawn = True"
| "owes_disconnect DnClose = True"
| "owes_disconnect DnClosed = True"
| "owes_disconnect _ = False"

definition owed :: "(svc_pc \<Rightarrow> bool) \<Rightarrow> (nat \<Rightarrow> svc_pc) \<Rightarrow> bool" where
  "owed P f \<longleftrightarrow> (\<exists>i. P (f i))"

definition connect_promise :: "('l, 'a, 'r, 'cb) svc_sys \<Rightarrow> bool" where
  "connect_promise s \<longleftrightarrow> (ms_state (svc s) \<noteq> messagingServiceStateNotConnected \<longrightarrow>
     resolved (connectFuture (svc s)) \<or> owed owes_connect (svc_pcs s))"

definition disconnect_promise :: "('l, 'a, 'r, 'cb) svc_sys \<Rightarrow> bool" where
  "disconnect_promise s \<longleftrightarrow> (3 \<le> svc_rank (ms_state (svc s)) \<longrightarrow>
     resolved (disconnectFuture (svc s)) \<or> owed owes_disconnect (svc_pcs s))"

lemma owed_other: "owed P f \<Longrightarrow> \<not> P (f j) \<or> P pc \<Longrightarrow> owed P (f(j := pc))"
  unfolding owed_def by (metis fun_upd_apply)

lemma owed_here: "P pc \<Longrightarrow> owed P (f(j := pc))"
  unfolding owed_def by (metis fun_upd_same)

lemma connect_promise_goto:
  assumes "connect_promise s" and "svc_pcs s1 = svc_pcs s"
    and "ms_state (svc s) = messagingServiceStateNotConnected \<longrightarrow>
           ms_state (svc s1) = messagingServiceStateNotConnected \<or> owes_connect pc"
    and "resolved (connectFuture (svc s)) \<longrightarrow> resolved (connectFuture (svc s1))"
    and "\<not> owes_connect (svc_pcs s i) \<or> owes_connect pc \<or> resolved (connectFuture (svc s1))"
  shows "connect_promise (svc_goto i pc s1)"
  using assms owed_other [of owes_connect "svc_pcs s" i pc] owed_here [of owes_connect pc "svc_pcs s" i]
  unfolding connect_promise_def by auto

lemma disconnect_promise_goto:
  assumes "disconnect_promise s" and "svc_pcs s1 = svc_pcs s"
    and "svc_rank (ms_state (svc s)) < 3 \<longrightarrow> svc_rank (ms_state (svc s1)) < 3 \<or> owes_disconnect pc"
    and "resolved (disconnectFuture (svc s)) \<longrightarrow> resolved (disconnectFuture (svc s1))"
    and "\<not> owes_disconnect (svc_pcs s i) \<or> owes_disconnect pc \<or> resolved (disconnectFuture (svc s1))"
  shows "disconnect_promise (svc_goto i pc s1)"
  unfolding disconnect_promise_def
proof (intro impI)
  assume "3 \<le> svc_rank (ms_state (svc (svc_goto i pc s1)))"
  then have "\<not> svc_rank (ms_state (svc s1)) < 3" by simp
  with assms(3) have "\<not> svc_rank (ms_state (svc s)) < 3 \<or> owes_disconnect pc" by blast
  then consider "3 \<le> svc_rank (ms_state (svc s))" | "owes_disconnect pc" by (metis not_le)
  then show "resolved (disconnectFuture (svc (svc_goto i pc s1))) \<or> owed owes_disconnect (svc_pcs (svc_goto i pc s1))"
  proof cases
    case 1
    with assms(1) have "resolved (disconnectFuture (svc s)) \<or> owed owes_disconnect (svc_pcs s)"
      by (simp add: disconnect_promise_def)
    then show ?thesis
      using assms(2,4,5) owed_other [of owes_disconnect "svc_pcs s" i pc] owed_here [of owes_disconnect pc "svc_pcs s" i]
      by (auto simp del: fun_upd_apply)
  next
    case 2
    then show ?thesis using owed_here [of owes_disconnect pc "svc_pcs s" i] assms(2) by simp
  qed
qed

lemma svc_step_connect_promise: "svc_step s s' \<Longrightarrow> svc_owners s \<Longrightarrow> connect_promise s \<Longrightarrow> connect_promise s'"
proof (induction rule: svc_step.induct)
  case (dn_spawn s i j k)
  have "owed owes_connect ((svc_pcs s)(i := SvIdle, j := DnClose, k := DnNotify))" if "owed owes_connect (svc_pcs s)"
  proof -
    have 1: "owed owes_connect ((svc_pcs s)(i := SvIdle))" by (rule owed_other [OF that]) (simp add: dn_spawn)
    have 2: "owed owes_connect ((svc_pcs s)(i := SvIdle, j := DnClose))" by (rule owed_other [OF 1]) (simp add: dn_spawn)
    show ?thesis by (rule owed_other [OF 2]) (simp add: dn_spawn)
  qed
  with dn_spawn show ?case by (auto simp: connect_promise_def)
next
  case (ds_store s i err)
  show ?case by (rule connect_promise_goto [of s]) (use ds_store svc_ownersD [of s i] in simp_all)
qed (rule connect_promise_goto, assumption, simp, simp add: CAS_result, simp, simp)+

lemma svc_step_disconnect_promise: "svc_step s s' \<Longrightarrow> svc_owners s \<Longrightarrow> disconnect_promise s \<Longrightarrow> disconnect_promise s'"
proof (induction rule: svc_step.induct)
  case (dn_spawn s i j k)
  have "owed owes_disconnect ((svc_pcs s)(i := SvIdle, j := DnClose))" by (rule owed_here) simp
  then have "owed owes_disconnect ((svc_pcs s)(i := SvIdle, j := DnClose, k := DnNotify))"
    by (rule owed_other) (use dn_spawn in auto)
  with dn_spawn show ?case by (auto simp: disconnect_promise_def)
next
  case (ds_store s i err)
  show ?case by (rule disconnect_promise_goto [of s]) (use ds_store svc_ownersD [of s i] in simp_all)
qed (rule disconnect_promise_goto, assumption, simp, simp add: CAS_result, simp, simp)+

section \<open>All runs\<close>

definition svc_inv :: "('l, 'a, 'r, 'cb) svc_sys \<Rightarrow> bool" where
  "svc_inv s \<longleftrightarrow> svc_owners s \<and> svc_counts s \<and> connect_promise s \<and> disconnect_promise s"

lemma svc_inv_init: "svc_inv (svc_init transport)"
  by (simp add: svc_inv_def svc_init_def svc_owners_def svc_counts_def connect_promise_def disconnect_promise_def
      newMessagingServiceImpl_def)

lemma svc_inv_step: "svc_step s s' \<Longrightarrow> svc_inv s \<Longrightarrow> svc_inv s'"
  unfolding svc_inv_def
  by (auto intro: svc_step_owners svc_step_counts svc_step_connect_promise svc_step_disconnect_promise)

lemma svc_inv_reachable: "svc_step\<^sup>*\<^sup>* (svc_init transport) s \<Longrightarrow> svc_inv s"
  by (induction rule: rtranclp_induct) (auto simp: svc_inv_init intro: svc_inv_step)

lemma svc_monotone: "svc_step\<^sup>*\<^sup>* s s' \<Longrightarrow> svc_inv s \<Longrightarrow> svc_rank (ms_state (svc s)) \<le> svc_rank (ms_state (svc s'))"
proof (induction rule: rtranclp_induct)
  case (step y z)
  have "svc_inv y" using step(1) step.prems by (induction rule: rtranclp_induct) (auto intro: svc_inv_step)
  then have "svc_rank (ms_state (svc y)) \<le> svc_rank (ms_state (svc z))"
    using svc_step_monotone [OF step(2)] by (simp add: svc_inv_def)
  with step show ?case by simp
qed simp

text \<open>
  C10. Any number of goroutines may call \<^verbatim>\<open>Connect\<close> and \<^verbatim>\<open>Disconnect\<close> while down events arrive. In every run the transport is
  connected at most once and closed at most once; the state of the service never goes back; a caller
  of \<^verbatim>\<open>Connect\<close> that waits for the result finds it there, or some goroutine is on its way to deliver it; the
  same holds for a caller of \<^verbatim>\<open>Disconnect\<close> once the service is disconnecting.
\<close>

proposition service_lifecycle_concurrent:
  assumes "svc_step\<^sup>*\<^sup>* (svc_init transport) s" and "svc_step\<^sup>*\<^sup>* s s'"
  shows "connects s \<le> 1 \<and> closes s \<le> 1 \<and>
         svc_rank (ms_state (svc s)) \<le> svc_rank (ms_state (svc s')) \<and>
         (ms_state (svc s) \<noteq> messagingServiceStateNotConnected \<longrightarrow>
            (\<exists>e. future_Get (connectFuture (svc s)) = Return e) \<or> (\<exists>i. owes_connect (svc_pcs s i))) \<and>
         (ms_state (svc s) \<in> {messagingServiceStateDisconnecting, messagingServiceStateDisconnected} \<longrightarrow>
            (\<exists>e. future_Get (disconnectFuture (svc s)) = Return e) \<or> (\<exists>i. owes_disconnect (svc_pcs s i)))"
proof -
  have inv: "svc_inv s" by (rule svc_inv_reachable [OF assms(1)])
  then have "connects s \<le> 1" "closes s \<le> 1" "connect_promise s" "disconnect_promise s"
    by (auto simp: svc_inv_def svc_counts_def)
  with svc_monotone [OF assms(2) inv] show ?thesis
    by (auto simp: connect_promise_def disconnect_promise_def owed_def future_Get_def)
qed

text \<open>One run, used below: goroutine 0 connects up to the registration of the handlers.\<close>

lemma transport_Connect_accepts: "\<exists>t'. transport_Connect None pre t = (None, t')"
  by (simp add: transport_Connect_def split: prod.splits)

lemma step_after: "svc_step\<^sup>*\<^sup>* a s \<Longrightarrow> svc_step s s' \<Longrightarrow> svc_step\<^sup>*\<^sup>* a s'"
  by (rule rtranclp.rtrancl_into_rtrancl)

lemma run_to_register:
  fixes transport :: "('a, 'r, 'cb) service_transport"
  obtains s :: "('l, 'a, 'r, 'cb) svc_sys" where "svc_step\<^sup>*\<^sup>* (svc_init transport) s"
    "svc_pcs s = (\<lambda>i. SvIdle)(0 := CnStore)" "ms_state (svc s) = messagingServiceStateConnecting"
    "activeSubState (svc s) = messagingServiceSubStateUp" "disconnectFuture (svc s) = NewFutureError"
    "svc s = register_handlers ((newMessagingServiceImpl transport)\<lparr>ms_state := messagingServiceStateConnecting,
       ms_transport := snd (transport_Connect None (Inr []) transport)\<rparr>)"
proof -
  obtain t' where t': "transport_Connect None (Inr []) transport = (None, t')"
    using transport_Connect_accepts by blast
  define s1 :: "('l, 'a, 'r, 'cb) svc_sys" where "s1 = svc_goto 0 CnCAS (svc_init transport)"
  define s2 where "s2 = svc_goto 0 CnBody (svc_map (ms_state_update (\<lambda>_. messagingServiceStateConnecting)) s1)"
  define s3 where "s3 = svc_goto 0 CnRegister ((svc_map (ms_transport_update (\<lambda>_. t')) s2)\<lparr>connects := connects s2 + 1\<rparr>)"
  define s4 where "s4 = svc_goto 0 CnStore (svc_map register_handlers s3)"
  have "svc_step (svc_init transport) s1" unfolding s1_def by (rule call_connect) (simp add: svc_init_def)
  moreover have "svc_step s1 s2" unfolding s2_def
    by (rule cn_cas_ok) (simp_all add: s1_def svc_init_def newMessagingServiceImpl_def)
  moreover have "svc_step s2 s3" unfolding s3_def
    by (rule cn_connect_ok [where connect = None and getPrefix = "Inr []"])
      (simp_all add: s2_def s1_def svc_init_def newMessagingServiceImpl_def t')
  moreover have "svc_step s3 s4" unfolding s4_def by (rule cn_register) (simp add: s3_def)
  ultimately have run: "svc_step\<^sup>*\<^sup>* (svc_init transport) s4"
    by (meson converse_rtranclp_into_rtranclp r_into_rtranclp)
  have svc4: "svc s4 = register_handlers ((newMessagingServiceImpl transport)\<lparr>ms_state := messagingServiceStateConnecting,
      ms_transport := snd (transport_Connect None (Inr []) transport)\<rparr>)"
    by (simp add: s4_def s3_def s2_def s1_def svc_init_def t')
  have "svc_pcs s4 = (\<lambda>i. SvIdle)(0 := CnStore)"
    by (simp add: s4_def s3_def s2_def s1_def svc_init_def)
  moreover have "activeSubState (register_handlers v) = activeSubState v" for v :: "('l, 'a, 'r, 'cb) messagingServiceImpl"
    by (simp add: register_handlers_def Let_def split: prod.splits)
  ultimately show thesis
    using that [OF run _ _ _ _ svc4] by (simp add: svc4 newMessagingServiceImpl_def)
qed

theorem service_lifecycle_concurrent_witness:
  "\<exists>s :: (string, string, string, string) svc_sys. svc_step\<^sup>*\<^sup>* (svc_init service_transport0) s \<and>
     ms_state (svc s) = messagingServiceStateConnecting \<and> connects s \<le> 1 \<and> closes s \<le> 1 \<and>
     ((\<exists>e. future_Get (connectFuture (svc s)) = Return e) \<or> (\<exists>i. owes_connect (svc_pcs s i)))"
proof -
  obtain s :: "(string, string, string, string) svc_sys" where "svc_step\<^sup>*\<^sup>* (svc_init service_transport0) s"
    "ms_state (svc s) = messagingServiceStateConnecting"
    using run_to_register [of service_transport0] by blast
  with service_lifecycle_concurrent [OF this(1) rtranclp.rtrancl_refl] show ?thesis by auto
qed

section \<open>A disconnect that waits for nobody\<close>

text \<open>Before the service is disconnecting nobody has completed the future or is about to.\<close>

definition disconnect_late :: "('l, 'a, 'r, 'cb) svc_sys \<Rightarrow> bool" where
  "disconnect_late s \<longleftrightarrow> (svc_rank (ms_state (svc s)) < 3 \<longrightarrow>
     \<not> resolved (disconnectFuture (svc s)) \<and> (\<forall>i. \<not> owes_disconnect (svc_pcs s i)))"

lemma disconnect_late_goto:
  assumes "disconnect_late s" and "svc_pcs s1 = svc_pcs s"
    and "svc_rank (ms_state (svc s1)) < 3 \<longrightarrow> svc_rank (ms_state (svc s)) < 3 \<and>
           disconnectFuture (svc s1) = disconnectFuture (svc s) \<and> \<not> owes_disconnect pc"
  shows "disconnect_late (svc_goto i pc s1)"
  using assms by (auto simp: disconnect_late_def)

lemma disconnect_late_owes: "disconnect_late s \<Longrightarrow> owes_disconnect (svc_pcs s i) \<Longrightarrow> \<not> svc_rank (ms_state (svc s)) < 3"
  by (auto simp: disconnect_late_def)

lemma svc_step_late: "svc_step s s' \<Longrightarrow> svc_owners s \<Longrightarrow> disconnect_late s \<Longrightarrow> disconnect_late s'"
proof (induction rule: svc_step.induct)
  case (cn_fail s i err)
  show ?case by (rule disconnect_late_goto [of s]) (use cn_fail svc_ownersD [of s i] in simp_all)
next
  case (cn_store s i)
  show ?case by (rule disconnect_late_goto [of s]) (use cn_store svc_ownersD [of s i] in simp_all)
next
  case (ds_body s i service err disconnect session subs provs transport ex)
  show ?case by (rule disconnect_late_goto [of s]) (use ds_body disconnect_late_owes [of s i] in simp_all)
next
  case (ds_complete s i err)
  show ?case by (rule disconnect_late_goto [of s]) (use ds_complete disconnect_late_owes [of s i] in simp_all)
next
  case (dn_sub s i)
  show ?case by (rule disconnect_late_goto [of s]) (use dn_sub disconnect_late_owes [of s i] in simp_all)
next
  case (dn_exec s i ex)
  show ?case by (rule disconnect_late_goto [of s]) (use dn_exec disconnect_late_owes [of s i] in simp_all)
next
  case (dn_spawn s i j k)
  then show ?case using disconnect_late_owes [of s i] by (simp add: disconnect_late_def)
next
  case (dn_close s i service session subs provs transport)
  show ?case by (rule disconnect_late_goto [of s]) (use dn_close disconnect_late_owes [of s i] in simp_all)
next
  case (dn_complete s i)
  show ?case by (rule disconnect_late_goto [of s]) (use dn_complete disconnect_late_owes [of s i] in simp_all)
qed (rule disconnect_late_goto, assumption, simp, simp add: CAS_result)+

text \<open>While the state stays connected, a caller that waits for the disconnection does not move.\<close>

lemma waiter_stuck:
  assumes "svc_step s s'" and "svc_owners s" and "disconnect_late s"
    and "svc_pcs s i = DsWait messagingServiceStateConnected" and "svc_rank (ms_state (svc s)) < 3"
  shows "svc_pcs s' i = DsWait messagingServiceStateConnected"
  using assms by (induction rule: svc_step.induct) (auto simp: disconnect_late_def future_Get_def)

lemma waiter_stuck_run:
  assumes "svc_step\<^sup>*\<^sup>* s s'" and "svc_owners s" and "disconnect_late s"
    and "svc_pcs s i = DsWait messagingServiceStateConnected" and "svc_rank (ms_state (svc s')) < 3"
  shows "svc_pcs s' i = DsWait messagingServiceStateConnected \<and> svc_owners s' \<and> disconnect_late s'"
  using assms
proof (induction rule: rtranclp_induct)
  case (step y z)
  have ok: "svc_owners y \<and> disconnect_late y"
    using step(1) step.prems(1,2) by (induction rule: rtranclp_induct) (auto intro: svc_step_owners svc_step_late)
  have less: "svc_rank (ms_state (svc y)) < 3"
    using svc_step_monotone [OF step(2)] ok step.prems(4) by simp
  then have "svc_pcs y i = DsWait messagingServiceStateConnected" using step.IH step.prems by blast
  with waiter_stuck [OF step(2)] ok less svc_step_owners [OF step(2)] svc_step_late [OF step(2)] show ?case by blast
qed simp

text \<open>
  A call of \<^verbatim>\<open>Disconnect\<close> can be left waiting by a call of \<^verbatim>\<open>Connect\<close> that succeeds: its compare and swap fails while
  the service is still connecting, it then reads the state as connected, and waits for the result of a
  disconnection that nobody has started. In the state reached, every other goroutine is idle
  and the service is connected; and as long as the service stays connected, whatever else runs, the caller
  stays where it is and its future is empty.
\<close>

proposition disconnect_waits_for_nobody:
  "\<exists>s :: ('l, 'a, 'r, 'cb) svc_sys. svc_step\<^sup>*\<^sup>* (svc_init transport) s \<and> ms_IsConnected (svc s) \<and>
     svc_pcs s = (\<lambda>i. SvIdle)(1 := DsWait messagingServiceStateConnected) \<and>
     (\<forall>s'. svc_step\<^sup>*\<^sup>* s s' \<and> ms_state (svc s') = messagingServiceStateConnected \<longrightarrow>
        svc_pcs s' 1 = DsWait messagingServiceStateConnected \<and> future_Get (disconnectFuture (svc s')) = Blocks)"
proof -
  obtain s0 :: "('l, 'a, 'r, 'cb) svc_sys" where run0: "svc_step\<^sup>*\<^sup>* (svc_init transport) s0"
    and s0: "svc_pcs s0 = (\<lambda>i. SvIdle)(0 := CnStore)" "ms_state (svc s0) = messagingServiceStateConnecting"
      "activeSubState (svc s0) = messagingServiceSubStateUp" "disconnectFuture (svc s0) = NewFutureError"
    using run_to_register [of transport] by blast
  define s1 where "s1 = svc_goto 1 DsCAS s0"
  define s2 where "s2 = svc_goto 1 DsLoad s1"
  define s3 where "s3 = svc_goto 0 (CnStored None) (svc_map (ms_state_update (\<lambda>_. messagingServiceStateConnected)) s2)"
  define s4 where "s4 = svc_goto 0 SvIdle (svc_map (connectFuture_update (future_Complete None)) s3)"
  define s5 where "s5 = svc_goto 1 (DsWait (ms_state (svc s4))) s4"
  have 1: "svc_step s0 s1" unfolding s1_def by (rule call_disconnect) (simp add: s0)
  have 2: "svc_step s1 s2" unfolding s2_def by (rule ds_cas_fail) (simp_all add: s1_def s0 CompareAndSwap_def)
  have 3: "svc_step s2 s3" unfolding s3_def by (rule cn_store) (simp add: s2_def s1_def s0)
  have 4: "svc_step s3 s4" unfolding s4_def by (rule cn_complete) (simp add: s3_def)
  have 5: "svc_step s4 s5" unfolding s5_def by (rule ds_load) (simp add: s4_def s3_def s2_def)
  have run: "svc_step\<^sup>*\<^sup>* (svc_init transport) s5"
    by (rule step_after [OF step_after [OF step_after [OF step_after [OF step_after [OF run0 1] 2] 3] 4] 5])
  have pcs: "svc_pcs s5 = (\<lambda>i. SvIdle)(1 := DsWait messagingServiceStateConnected)"
    by (auto simp: s5_def s4_def s3_def s2_def s1_def s0)
  have state: "ms_state (svc s5) = messagingServiceStateConnected" "disconnectFuture (svc s5) = NewFutureError"
    and up: "ms_IsConnected (svc s5)"
    by (simp_all add: s5_def s4_def s3_def s2_def s1_def s0 ms_IsConnected_def)
  have late: "disconnect_late s5" by (simp add: disconnect_late_def pcs state)
  have own: "svc_owners s5" using svc_inv_reachable [OF run] by (simp add: svc_inv_def)
  have "svc_pcs s' 1 = DsWait messagingServiceStateConnected \<and> future_Get (disconnectFuture (svc s')) = Blocks"
    if "svc_step\<^sup>*\<^sup>* s5 s'" and "ms_state (svc s') = messagingServiceStateConnected" for s'
    using waiter_stuck_run [OF that(1) own late, of 1] that(2) pcs
    by (auto simp: disconnect_late_def future_Get_def)
  with run up pcs show ?thesis by blast
qed

theorem disconnect_waits_for_nobody_witness:
  "\<exists>s :: (string, string, string, string) svc_sys. svc_step\<^sup>*\<^sup>* (svc_init service_transport0) s \<and> ms_IsConnected (svc s) \<and>
     svc_pcs s 1 = DsWait messagingServiceStateConnected \<and> future_Get (disconnectFuture (svc s)) = Blocks"
proof -
  obtain s :: "(string, string, string, string) svc_sys" where s: "svc_step\<^sup>*\<^sup>* (svc_init service_transport0) s"
      "ms_IsConnected (svc s)" "svc_pcs s = (\<lambda>i. SvIdle)(1 := DsWait messagingServiceStateConnected)"
    and stuck: "\<And>s'. svc_step\<^sup>*\<^sup>* s s' \<Longrightarrow> ms_state (svc s') = messagingServiceStateConnected \<Longrightarrow>
        future_Get (disconnectFuture (svc s')) = Blocks"
    using disconnect_waits_for_nobody [of service_transport0] by blast
  from s stuck [of s] show ?thesis by (auto simp: ms_IsConnected_def)
qed

section \<open>A down event that nobody notices\<close>

lemma down_registered_register:
  assumes "events_wf (tr_events (ms_transport v))" and "unat (handlerID (tr_events (ms_transport v))) + 3 < 2 ^ 64"
  shows "down_registered (register_handlers v)"
proof -
  let ?ev = "tr_events (ms_transport v)"
  obtain i ev1 where 1: "AddEventHandler SolClientEventDown (Other (ClientHandler ServiceDownHandler)) ?ev = (i, ev1)" by fastforce
  obtain j ev2 where 2: "AddEventHandler SolClientEventReconnect (Other (ClientHandler ServiceReconnectHandler)) ev1 = (j, ev2)" by fastforce
  obtain k ev3 where 3: "AddEventHandler SolClientEventReconnectAttempt
      (Other (ClientHandler ServiceReconnectAttemptHandler)) ev2 = (k, ev3)" by fastforce
  have n: "unat (handlerID ?ev) + Suc (Suc (Suc 0)) < 2 ^ 64" using assms(2) by simp
  note a = AddEventHandler_next [OF assms(1) n 1]
  note b = AddEventHandler_next [OF a(1,2) 2]
  note c = AddEventHandler_next [OF b(1,2) 3]
  have "i < j" "j < k" using a(3) b(3,4) c(4) by simp_all
  then have "events_look ev3 i = Some (SolClientEventDown, Other (ClientHandler ServiceDownHandler))"
    using a(5) b(5) c(5) by auto
  then have "(i, Other (ClientHandler ServiceDownHandler)) \<in> set (handlers_for SolClientEventDown ev3)"
    using handlers_for_look [OF c(1)] by blast
  moreover have "tr_events (ms_transport (register_handlers v)) = ev3"
    by (simp add: register_handlers_def 1 2 3)
  ultimately show ?thesis unfolding down_registered_def by (metis image_eqI snd_conv)
qed

text \<open>
  A down event can go unnoticed: the handlers are registered before the state is stored as connected, and the handler
  of the down event does nothing unless it finds the service connected. In the run given, the handler is
  entered by goroutine 1 and returns; afterwards nothing runs any more, the service says that it is
  connected, and no listener is ever told.
\<close>

proposition down_event_lost:
  assumes "transport_wf t" and "isRunning (tr_publisher t) = 0" and "rx_running (tr_receiver t) = 0"
    and "prov_isRunning (tr_provisioner t) = 0" and "unat (handlerID (tr_events t)) + 10 < 2 ^ 64"
  shows "\<exists>s s' :: ('l, 'a, 'r, 'cb) svc_sys. svc_step\<^sup>*\<^sup>* (svc_init t) s \<and> svc_pcs s 1 = DnCAS \<and> svc_step\<^sup>*\<^sup>* s s' \<and>
           svc_pcs s' = (\<lambda>i. SvIdle) \<and> ms_IsConnected (svc s') \<and> closes s' = 0 \<and> down_registered (svc s')"
proof -
  obtain s0 :: "('l, 'a, 'r, 'cb) svc_sys" where run0: "svc_step\<^sup>*\<^sup>* (svc_init t) s0"
    and s0: "svc_pcs s0 = (\<lambda>i. SvIdle)(0 := CnStore)" "ms_state (svc s0) = messagingServiceStateConnecting"
      "activeSubState (svc s0) = messagingServiceSubStateUp"
    and svc0: "svc s0 = register_handlers ((newMessagingServiceImpl t)\<lparr>ms_state := messagingServiceStateConnecting,
       ms_transport := snd (transport_Connect None (Inr []) t)\<rparr>)"
    using run_to_register [of t] by blast
  obtain t' where "transport_Connect None (Inr []) t = (None, t')" using transport_Connect_accepts by blast
  from transport_Connect_ok [OF assms(1-4) _ this, of 3] this assms(5)
  have reg: "down_registered (svc s0)"
    unfolding svc0 by (intro down_registered_register) (simp_all add: transport_wf_def)
  have same: "down_registered (ms_state_update a v) = down_registered v"
      "down_registered (connectFuture_update b v) = down_registered v" for v :: "('l, 'a, 'r, 'cb) messagingServiceImpl" and a b
    by (simp_all add: down_registered_def)
  define s1 where "s1 = svc_goto 1 DnCAS s0"
  define s2 where "s2 = svc_goto 1 SvIdle s1"
  define s3 where "s3 = svc_goto 0 (CnStored None) (svc_map (ms_state_update (\<lambda>_. messagingServiceStateConnected)) s2)"
  define s4 where "s4 = svc_goto 0 SvIdle (svc_map (connectFuture_update (future_Complete None)) s3)"
  have 1: "svc_step s0 s1" unfolding s1_def by (rule down_event) (simp_all add: s0 reg)
  have 2: "svc_step s1 s2" unfolding s2_def by (rule dn_cas_fail) (simp_all add: s1_def s0 CompareAndSwap_def)
  have 3: "svc_step s2 s3" unfolding s3_def by (rule cn_store) (simp add: s2_def s1_def s0)
  have 4: "svc_step s3 s4" unfolding s4_def by (rule cn_complete) (simp add: s3_def)
  have run: "svc_step\<^sup>*\<^sup>* (svc_init t) s1" "svc_step\<^sup>*\<^sup>* s1 s4"
    using step_after [OF run0 1] 2 3 4 by (blast, meson converse_rtranclp_into_rtranclp r_into_rtranclp)
  have "closes s4 = 0"
    using svc_inv_reachable [OF rtranclp_trans [OF run]]
    by (intro svc_counts_state(1)) (simp_all add: svc_inv_def s4_def s3_def)
  moreover have "svc_pcs s4 = (\<lambda>i. SvIdle)" by (auto simp: s4_def s3_def s2_def s1_def s0)
  moreover have "ms_IsConnected (svc s4)" by (simp add: s4_def s3_def s2_def s1_def s0 ms_IsConnected_def)
  moreover have "down_registered (svc s4)"
    using reg by (simp add: s4_def s3_def s2_def s1_def same)
  moreover have "svc_pcs s1 1 = DnCAS" by (simp add: s1_def)
  ultimately show ?thesis using run by blast
qed

theorem down_event_lost_witness:
  "\<exists>s s' :: (string, string, string, string) svc_sys. svc_step\<^sup>*\<^sup>* (svc_init service_transport0) s \<and> svc_pcs s 1 = DnCAS \<and>
     svc_step\<^sup>*\<^sup>* s s' \<and> svc_pcs s' = (\<lambda>i. SvIdle) \<and> ms_IsConnected (svc s') \<and> closes s' = 0 \<and> down_registered (svc s')"
  by (rule down_event_lost [OF service_transport0_ok(1-5)])

end
