(* ===== verification/Direct_Receiver.thy ===== *)
theory Direct_Receiver
  imports Lifecycle Validation Core_Receiver
begin

text \<open>
  The direct message receiver (\<^verbatim>\<open>internal/impl/receiver/direct_message_receiver_impl.go\<close>). Messages of the
  session are put into a bounded buffer by the callback that runs on the thread of the C library, and are
  taken out of it by a goroutine that calls the application, or by the application itself.

  This theory has the data, the subscriptions, start, the uninterrupted message callback and the builder.
  Operations are functions on the receiver and on the core receiver and event service it uses; what the C
  library answers is an argument. A message is its pointer, a number. The three metrics that the receiver
  adds to are fields. The operations that run at the same time, and termination, are the subject of the
  theory \<open>Receiver_Concurrency\<close>; cache requests have a theory of their own.
\<close>

section \<open>State\<close>

datatype receiverBackpressureStrategy = strategyDropOldest | strategyDropLatest

definition discardFalse :: nat where [simp]: "discardFalse = 0"

definition discardTrue :: nat where [simp]: "discardTrue = 1"

record directInboundMessage =
  dim_pointer :: nat
  dim_discard :: bool

datatype Subscription = TopicSubscription string | OtherSubscription string string

fun GetName :: "Subscription \<Rightarrow> string" where
  "GetName (TopicSubscription topic) = topic"
| "GetName (OtherSubscription type name) = name"

fun subscription_type :: "Subscription \<Rightarrow> string" where
  "subscription_type (TopicSubscription topic) = ''*resource.TopicSubscription''"
| "subscription_type (OtherSubscription type name) = type"

record 'cb directMessageReceiverImpl =
  dr_lifecycle :: lifecycle
  dr_terminationListener :: bool
  subscriptions :: "string list"
  shareName :: "string option"
  dr_buffer :: "directInboundMessage chan"
  bufferClosed :: nat
  backpressureStrategy :: receiverBackpressureStrategy
  bufferEmptyOnTerminateFlag :: nat
  bufferEmptyOnTerminate :: bool
  terminationNotification :: bool
  terminationComplete :: bool
  rxCallbackSet :: "bool chan"
  dr_rxCallback :: "'cb option"
  isDiscard :: nat
  dr_dispatch :: u64
  terminationHandlerID :: u64
  received_termination_discarded :: nat
  received_backpressure_discarded :: nat
  internal_discard_notifications :: nat

definition buildSubscription :: "string option \<Rightarrow> Subscription \<Rightarrow> string" where
  "buildSubscription share subscription =
     (case share of
        Some share \<Rightarrow> ''#share/'' @ share @ ''/'' @ GetName subscription
      | None \<Rightarrow> GetName subscription)"

definition direct_rx_construct ::
    "Subscription list \<Rightarrow> receiverBackpressureStrategy \<Rightarrow> nat \<Rightarrow> string option \<Rightarrow> 'cb directMessageReceiverImpl" where
  "direct_rx_construct startupSubscriptions strategy backpressureBufferSize share =
     \<lparr>dr_lifecycle = lifecycle_construct, dr_terminationListener = False,
      subscriptions = map (buildSubscription share) startupSubscriptions, shareName = share,
      dr_buffer = make_chan backpressureBufferSize, bufferClosed = 0, backpressureStrategy = strategy,
      bufferEmptyOnTerminateFlag = 0, bufferEmptyOnTerminate = False, terminationNotification = False,
      terminationComplete = False, rxCallbackSet = make_chan 1, dr_rxCallback = None, isDiscard = discardFalse,
      dr_dispatch = 0, terminationHandlerID = 0, received_termination_discarded = 0,
      received_backpressure_discarded = 0, internal_discard_notifications = 0\<rparr>"

section \<open>Subscriptions\<close>

definition checkDirectMessageReceiverSubscriptionType :: "Subscription \<Rightarrow> go_error option" where
  "checkDirectMessageReceiverSubscriptionType subscription =
     (case subscription of
        TopicSubscription topic \<Rightarrow> None
      | _ \<Rightarrow> Some (NewError IllegalArgumentError DirectReceiverUnsupportedSubscriptionType
                     [ArgStr (subscription_type subscription)] None))"

definition cannotModify :: "lifecycle_state \<Rightarrow> go_error" where
  "cannotModify st = NewError IllegalStateError UnableToModifySubscriptionBadState [ArgStr (state_name st)] None"

text \<open>
  \<open>lib\<close> is what the C library answers to a request. The result is the error, or the channel for the
  confirmation.
\<close>

definition addSubscription ::
    "(string \<Rightarrow> u64 \<Rightarrow> u64 \<Rightarrow> ErrorInfo option) \<Rightarrow> Subscription \<Rightarrow> 'c ccsmpBackedReceiver \<Rightarrow> 'cb directMessageReceiverImpl
       \<Rightarrow> (go_error + nat) \<times> 'c ccsmpBackedReceiver \<times> 'cb directMessageReceiverImpl" where
  "addSubscription lib subscription core receiver =
     (let currentState = lc_state (dr_lifecycle receiver)
      in if currentState \<noteq> Started then (Inl (cannotModify currentState), core, receiver)
         else
           let topic = buildSubscription (shareName receiver) subscription
           in case Subscribe lib topic (dr_dispatch receiver) core of
                (Inl internalErr, core) \<Rightarrow> (Inl (ToNativeError internalErr []), core, receiver)
              | (Inr (i, resultChan), core) \<Rightarrow>
                  (Inr resultChan, core,
                   if topic \<in> set (subscriptions receiver) then receiver
                   else receiver\<lparr>subscriptions := subscriptions receiver @ [topic]\<rparr>))"

text \<open>The loop that looks for the index to splice out, from \<open>i\<close> on, with the index found so far.\<close>

fun splice_index :: "string \<Rightarrow> nat \<Rightarrow> int \<Rightarrow> string list \<Rightarrow> int" where
  "splice_index topic i spliceIndex [] = spliceIndex"
| "splice_index topic i spliceIndex (subscribedTopic # rest) =
     splice_index topic (Suc i) (if subscribedTopic = topic then int i else spliceIndex) rest"

definition splice :: "int \<Rightarrow> string list \<Rightarrow> string list" where
  "splice spliceIndex ts =
     (if spliceIndex \<ge> 0 then take (nat spliceIndex) ts @ drop (Suc (nat spliceIndex)) ts else ts)"

definition removeSubscription ::
    "(string \<Rightarrow> u64 \<Rightarrow> u64 \<Rightarrow> ErrorInfo option) \<Rightarrow> Subscription \<Rightarrow> 'c ccsmpBackedReceiver \<Rightarrow> 'cb directMessageReceiverImpl
       \<Rightarrow> (go_error + nat) \<times> 'c ccsmpBackedReceiver \<times> 'cb directMessageReceiverImpl" where
  "removeSubscription lib subscription core receiver =
     (let currentState = lc_state (dr_lifecycle receiver)
      in if currentState \<noteq> Started then (Inl (cannotModify currentState), core, receiver)
         else
           let topic = buildSubscription (shareName receiver) subscription
           in case Unsubscribe lib topic (dr_dispatch receiver) core of
                (Inl internalErr, core) \<Rightarrow> (Inl (ToNativeError internalErr []), core, receiver)
              | (Inr (i, resultChan), core) \<Rightarrow>
                  (Inr resultChan, core,
                   receiver\<lparr>subscriptions := splice (splice_index topic 0 (- 1) (subscriptions receiver))
                                               (subscriptions receiver)\<rparr>))"

text \<open>
  The public calls check the state and the type first. The synchronous ones then wait for the confirmation,
  \<open>await_confirmation\<close>; the asynchronous ones do the rest in a goroutine that calls the listener.
\<close>

definition checkModify :: "Subscription \<Rightarrow> 'cb directMessageReceiverImpl \<Rightarrow> go_error option" where
  "checkModify subscription receiver =
     (let currentState = lc_state (dr_lifecycle receiver)
      in if currentState \<noteq> Started then Some (cannotModify currentState)
         else checkDirectMessageReceiverSubscriptionType subscription)"

definition AddSubscription ::
    "(string \<Rightarrow> u64 \<Rightarrow> u64 \<Rightarrow> ErrorInfo option) \<Rightarrow> Subscription \<Rightarrow> 'c ccsmpBackedReceiver \<Rightarrow> 'cb directMessageReceiverImpl
       \<Rightarrow> (go_error + nat) \<times> 'c ccsmpBackedReceiver \<times> 'cb directMessageReceiverImpl" where
  "AddSubscription lib subscription core receiver =
     (case checkModify subscription receiver of
        Some err \<Rightarrow> (Inl err, core, receiver)
      | None \<Rightarrow> addSubscription lib subscription core receiver)"

definition RemoveSubscription ::
    "(string \<Rightarrow> u64 \<Rightarrow> u64 \<Rightarrow> ErrorInfo option) \<Rightarrow> Subscription \<Rightarrow> 'c ccsmpBackedReceiver \<Rightarrow> 'cb directMessageReceiverImpl
       \<Rightarrow> (go_error + nat) \<times> 'c ccsmpBackedReceiver \<times> 'cb directMessageReceiverImpl" where
  "RemoveSubscription lib subscription core receiver =
     (case checkModify subscription receiver of
        Some err \<Rightarrow> (Inl err, core, receiver)
      | None \<Rightarrow> removeSubscription lib subscription core receiver)"

text \<open>
  A confirmation channel is never closed, so a receive that succeeds yields an event.
\<close>

definition await_confirmation ::
    "nat \<Rightarrow> 'c ccsmpBackedReceiver \<Rightarrow> (go_error option \<times> 'c ccsmpBackedReceiver) outcome" where
  "await_confirmation resultChan core =
     outcome_bind (subscription_await resultChan core) (\<lambda>(event, core). Return (Option.bind event ce_err, core))"

datatype SubscriptionOperation = SubscriptionAdded | SubscriptionRemoved

text \<open>The end of the goroutine of an asynchronous call: what the listener, if there is one, is called with.\<close>

definition subscription_change ::
    "bool \<Rightarrow> Subscription \<Rightarrow> SubscriptionOperation \<Rightarrow> go_error + nat \<Rightarrow> 'c ccsmpBackedReceiver
       \<Rightarrow> ((Subscription \<times> SubscriptionOperation \<times> go_error option) list \<times> 'c ccsmpBackedReceiver) outcome" where
  "subscription_change listener subscription op resultChan core =
     (if \<not> listener then Return ([], core)
      else case resultChan of
             Inl err \<Rightarrow> Return ([(subscription, op, Some err)], core)
           | Inr c \<Rightarrow> outcome_bind (await_confirmation c core) (\<lambda>(err, core). Return ([(subscription, op, err)], core)))"

section \<open>Start\<close>

definition FailedToAddSubscription :: string where
  "FailedToAddSubscription = ''failed to add subscription to receiver: ''"

text \<open>The loop of the requests: the error that ended it, and the topics requested with their channels.\<close>

fun subscribe_loop ::
    "(string \<Rightarrow> u64 \<Rightarrow> u64 \<Rightarrow> ErrorInfo option) \<Rightarrow> u64 \<Rightarrow> string list \<Rightarrow> 'c ccsmpBackedReceiver
       \<Rightarrow> go_error option \<times> (string \<times> nat) list \<times> 'c ccsmpBackedReceiver" where
  "subscribe_loop lib dispatch [] core = (None, [], core)"
| "subscribe_loop lib dispatch (subscription # rest) core =
     (case Subscribe lib subscription dispatch core of
        (Inl errInfo, core) \<Rightarrow> (Some (ToNativeError errInfo FailedToAddSubscription), [], core)
      | (Inr (i, resultChan), core) \<Rightarrow>
          (case subscribe_loop lib dispatch rest core of
             (err, added, core) \<Rightarrow> (err, (subscription, resultChan) # added, core)))"

text \<open>Waiting for each confirmation, up to the first with an error.\<close>

fun await_all :: "nat list \<Rightarrow> 'c ccsmpBackedReceiver \<Rightarrow> (go_error option \<times> 'c ccsmpBackedReceiver) outcome" where
  "await_all [] core = Return (None, core)"
| "await_all (resultChan # rest) core =
     outcome_bind (await_confirmation resultChan core) (\<lambda>(err, core).
       if err \<noteq> None then Return (err, core) else await_all rest core)"

text \<open>The two loops of a clean-up: unsubscribe from every topic, then wait for what was accepted; errors are logged.\<close>

fun unsubscribe_loop ::
    "(string \<Rightarrow> u64 \<Rightarrow> u64 \<Rightarrow> ErrorInfo option) \<Rightarrow> u64 \<Rightarrow> string list \<Rightarrow> 'c ccsmpBackedReceiver
       \<Rightarrow> nat list \<times> 'c ccsmpBackedReceiver" where
  "unsubscribe_loop lib dispatch [] core = ([], core)"
| "unsubscribe_loop lib dispatch (subscription # rest) core =
     (case Unsubscribe lib subscription dispatch core of
        (Inl err, core) \<Rightarrow> unsubscribe_loop lib dispatch rest core
      | (Inr (i, resultChan), core) \<Rightarrow>
          (case unsubscribe_loop lib dispatch rest core of (results, core) \<Rightarrow> (resultChan # results, core)))"

fun await_each :: "nat list \<Rightarrow> 'c ccsmpBackedReceiver \<Rightarrow> 'c ccsmpBackedReceiver outcome" where
  "await_each [] core = Return core"
| "await_each (resultChan # rest) core = outcome_bind (await_confirmation resultChan core) (\<lambda>(err, core). await_each rest core)"

text \<open>
  \<^verbatim>\<open>Start\<close> in three parts, between which the library confirms requests: up to the last request; the wait for the
  confirmations; and, when there was an error, the wait of the clean-up. \<open>handler\<close> and \<open>callback\<close> are the
  closures that are registered.
\<close>

definition direct_rx_Start_begin ::
    "'h \<Rightarrow> 'c \<Rightarrow> (string \<Rightarrow> u64 \<Rightarrow> u64 \<Rightarrow> ErrorInfo option) \<Rightarrow> 'h ccsmpBackedEvents \<Rightarrow> 'c ccsmpBackedReceiver
       \<Rightarrow> 'cb directMessageReceiverImpl
       \<Rightarrow> go_error option outcome proceed \<times> go_error option \<times> (string \<times> nat) list \<times>
          'h ccsmpBackedEvents \<times> 'c ccsmpBackedReceiver \<times> 'cb directMessageReceiverImpl" where
  "direct_rx_Start_begin handler callback lib events core receiver =
     (case receiver_starting (core_receiver_IsRunning core) (dr_lifecycle receiver) of
        (Stop r, l) \<Rightarrow> (Stop r, None, [], events, core, receiver\<lparr>dr_lifecycle := l\<rparr>)
      | (Proceed, l) \<Rightarrow>
          let (i, events) = AddEventHandler SolClientEventDown handler events;
              (dispatch, core) = RegisterRXCallback callback core;
              receiver = receiver\<lparr>dr_lifecycle := l, terminationHandlerID := i, dr_dispatch := dispatch\<rparr>;
              (err, added, core) = subscribe_loop lib dispatch (subscriptions receiver) core
          in (Proceed, err, added, events, core, receiver))"

text \<open>On success the receiver has started, and the goroutine of \<^verbatim>\<open>run\<close> with it. On an error the unsubscribe requests are made.\<close>

definition direct_rx_Start_confirm ::
    "(string \<Rightarrow> u64 \<Rightarrow> u64 \<Rightarrow> ErrorInfo option) \<Rightarrow> go_error option \<Rightarrow> (string \<times> nat) list \<Rightarrow> 'c ccsmpBackedReceiver
       \<Rightarrow> 'cb directMessageReceiverImpl
       \<Rightarrow> (go_error option \<times> nat list \<times> 'c ccsmpBackedReceiver \<times> 'cb directMessageReceiverImpl) outcome" where
  "direct_rx_Start_confirm lib err added core receiver =
     outcome_bind (if err = None then await_all (map snd added) core else Return (err, core)) (\<lambda>(err, core).
       if err = None
       then Return (None, [], core, receiver\<lparr>dr_lifecycle := started None (dr_lifecycle receiver)\<rparr>)
       else
         let (results, core) = unsubscribe_loop lib (dr_dispatch receiver) (map fst added) core
         in Return (err, results, core, receiver))"

definition direct_rx_Start_fail ::
    "go_error option \<Rightarrow> nat list \<Rightarrow> 'h ccsmpBackedEvents \<Rightarrow> 'c ccsmpBackedReceiver \<Rightarrow> 'cb directMessageReceiverImpl
       \<Rightarrow> ('h ccsmpBackedEvents \<times> 'c ccsmpBackedReceiver \<times> 'cb directMessageReceiverImpl) outcome" where
  "direct_rx_Start_fail err results events core receiver =
     outcome_bind (await_each results core) (\<lambda>core.
       let events = RemoveEventHandler (terminationHandlerID receiver) events;
           core = UnregisterRXCallback (dr_dispatch receiver) core;
           l = terminated None (dr_lifecycle receiver)
       in Return (events, core, receiver\<lparr>dr_lifecycle := l\<lparr>startFuture := future_Complete err (startFuture l)\<rparr>\<rparr>))"

section \<open>Receiving\<close>

text \<open>The flag and the signal that the closed buffer is empty: the one who sets the flag closes the channel.\<close>

definition notify_empty :: "'cb directMessageReceiverImpl \<Rightarrow> 'cb directMessageReceiverImpl outcome" where
  "notify_empty receiver =
     (let (swapped, flag) = CompareAndSwap 0 1 (bufferEmptyOnTerminateFlag receiver)
      in if \<not> swapped then Return receiver
         else outcome_bind (signal_close (bufferEmptyOnTerminate receiver)) (\<lambda>closed.
                Return (receiver\<lparr>bufferEmptyOnTerminateFlag := flag, bufferEmptyOnTerminate := closed\<rparr>)))"

text \<open>What both consumers do with a message they have taken out of the buffer.\<close>

definition consume ::
    "directInboundMessage \<Rightarrow> 'cb directMessageReceiverImpl \<Rightarrow> directInboundMessage \<times> 'cb directMessageReceiverImpl" where
  "consume msg receiver =
     (let (msg, receiver) =
            (if backpressureStrategy receiver = strategyDropOldest
             then let (swapped, v) = CompareAndSwap discardTrue discardFalse (isDiscard receiver)
                  in (msg\<lparr>dim_discard := swapped\<rparr>, receiver\<lparr>isDiscard := v\<rparr>)
             else (msg, receiver))
      in (msg, if dim_discard msg
               then receiver\<lparr>internal_discard_notifications := internal_discard_notifications receiver + 1\<rparr>
               else receiver))"

definition ReceiveAsync ::
    "'cb option \<Rightarrow> 'cb directMessageReceiverImpl \<Rightarrow> go_error option \<times> 'cb directMessageReceiverImpl" where
  "ReceiveAsync callback receiver =
     (if IsTerminating (dr_lifecycle receiver) \<or> IsTerminated (dr_lifecycle receiver)
      then (Some (IllegalState UnableToRegisterCallbackReceiverTerminating), receiver)
      else if callback = None
      then (Some (NewError IllegalArgumentError ''callback may not be nil'' [] None), receiver)
      else
        let (swapped, p) = CompareAndSwap None callback (dr_rxCallback receiver)
        in if swapped
           then (None, case chan_send True (rxCallbackSet receiver) of
                         Return c \<Rightarrow> receiver\<lparr>dr_rxCallback := p, rxCallbackSet := c\<rparr>
                       | _ \<Rightarrow> receiver\<lparr>dr_rxCallback := p\<rparr>)
           else (None, receiver\<lparr>dr_rxCallback := callback\<rparr>))"

text \<open>
  The message callback, called for one message after the other by the thread of the C library. The result is
  whether the message is kept. A panic is recovered and means that the buffer has been closed.
\<close>

definition setDiscard :: "'cb directMessageReceiverImpl \<Rightarrow> bool \<times> 'cb directMessageReceiverImpl" where
  "setDiscard receiver =
     (if backpressureStrategy receiver = strategyDropLatest
      then let (swapped, v) = CompareAndSwap discardTrue discardFalse (isDiscard receiver)
           in (swapped, receiver\<lparr>isDiscard := v\<rparr>)
      else (False, receiver))"

definition count_terminated :: "'cb directMessageReceiverImpl \<Rightarrow> 'cb directMessageReceiverImpl" where
  "count_terminated receiver =
     receiver\<lparr>received_termination_discarded := received_termination_discarded receiver + 1\<rparr>"

definition count_backpressure :: "'cb directMessageReceiverImpl \<Rightarrow> 'cb directMessageReceiverImpl" where
  "count_backpressure receiver =
     receiver\<lparr>received_backpressure_discarded := received_backpressure_discarded receiver + 1\<rparr>"

definition messageCallback ::
    "nat \<Rightarrow> 'cb directMessageReceiverImpl \<Rightarrow> (bool \<times> 'cb directMessageReceiverImpl) outcome" where
  "messageCallback msg receiver =
     (let currentState = lc_state (dr_lifecycle receiver)
      in if currentState = Terminating \<or> currentState = Terminated
         then Return (False, count_terminated receiver)
         else
           let (d, receiver) = setDiscard receiver;
               toPush = \<lparr>dim_pointer = msg, dim_discard = d\<rparr>
           in case chan_send toPush (dr_buffer receiver) of
                Return c \<Rightarrow> Return (True, receiver\<lparr>dr_buffer := c\<rparr>)
              | Panics p \<Rightarrow> Return (False, count_terminated receiver)
              | Blocks \<Rightarrow>
                  (case backpressureStrategy receiver of
                     strategyDropLatest \<Rightarrow>
                       Return (False, count_backpressure (receiver\<lparr>isDiscard := discardTrue\<rparr>))
                   | strategyDropOldest \<Rightarrow>
                       (let (discard, receiver) =
                              (case chan_recv (dr_buffer receiver) of
                                 Return (oldest, c) \<Rightarrow> (True, receiver\<lparr>dr_buffer := c, isDiscard := discardTrue\<rparr>)
                               | _ \<Rightarrow> (False, receiver))
                        in case chan_send toPush (dr_buffer receiver) of
                             Return c \<Rightarrow>
                               let receiver = receiver\<lparr>dr_buffer := c\<rparr>
                               in Return (True, if discard then count_backpressure receiver else receiver)
                           | Panics p \<Rightarrow> Return (False, count_terminated receiver)
                           | Blocks \<Rightarrow> Blocks)))"

section \<open>The builder\<close>

definition ShareNameMustNotBeEmpty :: string where
  "ShareNameMustNotBeEmpty = ''share name must not be empty''"

definition ShareNameMustNotContainInvalidCharacters :: string where
  "ShareNameMustNotContainInvalidCharacters = ''share name must not contain literals '*' or '>'' @ [CHR 0x27]"

definition DirectReceiverBackpressureMustBeGreaterThan0 :: string where
  "DirectReceiverBackpressureMustBeGreaterThan0 = ''direct receiver backpressure buffer size must be > 0''"

definition validateShareName :: "string \<Rightarrow> go_error option" where
  "validateShareName name =
     (if name = [] then Some (NewError IllegalArgumentError ShareNameMustNotBeEmpty [] None)
      else if CHR ''>'' \<in> set name \<or> CHR ''*'' \<in> set name
      then Some (NewError IllegalArgumentError ShareNameMustNotContainInvalidCharacters [] None)
      else None)"

definition ReceiverPropertyDirectBackPressureStrategy :: string where
  "ReceiverPropertyDirectBackPressureStrategy = ''solace.messaging.receiver.direct.back-pressure.strategy''"

definition ReceiverPropertyDirectBackPressureBufferCapacity :: string where
  "ReceiverPropertyDirectBackPressureBufferCapacity = ''solace.messaging.receiver.direct.back-pressure.buffer-capacity''"

definition ReceiverBackPressureStrategyDropLatest :: string where
  "ReceiverBackPressureStrategyDropLatest = ''BUFFER_DROP_LATEST_WHEN_FULL''"

definition ReceiverBackPressureStrategyDropOldest :: string where
  "ReceiverBackPressureStrategyDropOldest = ''BUFFER_DROP_OLDEST_WHEN_FULL''"

lemmas receiver_property_defs = ReceiverPropertyDirectBackPressureStrategy_def
  ReceiverPropertyDirectBackPressureBufferCapacity_def ReceiverBackPressureStrategyDropLatest_def
  ReceiverBackPressureStrategyDropOldest_def

definition DefaultDirectReceiverProperties :: property_map where
  "DefaultDirectReceiverProperties =
     (\<lambda>k. VNil)(ReceiverPropertyDirectBackPressureStrategy := VString ReceiverBackPressureStrategyDropLatest,
                ReceiverPropertyDirectBackPressureBufferCapacity := VInt 50)"

definition OnBackPressureDropLatest :: "u64 \<Rightarrow> property_map \<Rightarrow> property_map" where
  "OnBackPressureDropLatest bufferCapacity =
     FromConfigurationProvider
       [(ReceiverPropertyDirectBackPressureBufferCapacity, VUint bufferCapacity),
        (ReceiverPropertyDirectBackPressureStrategy, VString ReceiverBackPressureStrategyDropLatest)]"

definition OnBackPressureDropOldest :: "u64 \<Rightarrow> property_map \<Rightarrow> property_map" where
  "OnBackPressureDropOldest bufferCapacity =
     FromConfigurationProvider
       [(ReceiverPropertyDirectBackPressureBufferCapacity, VUint bufferCapacity),
        (ReceiverPropertyDirectBackPressureStrategy, VString ReceiverBackPressureStrategyDropOldest)]"

text \<open>The first error of a check over a list.\<close>

fun first_error :: "('a \<Rightarrow> go_error option) \<Rightarrow> 'a list \<Rightarrow> go_error option" where
  "first_error check [] = None"
| "first_error check (x # xs) = (case check x of Some err \<Rightarrow> Some err | None \<Rightarrow> first_error check xs)"

definition BuildWithShareName ::
    "(int \<Rightarrow> int \<Rightarrow> u64) \<Rightarrow> property_map \<Rightarrow> Subscription list \<Rightarrow> string option
       \<Rightarrow> go_error + 'cb directMessageReceiverImpl" where
  "BuildWithShareName oor properties topics share =
     (case Option.bind share validateShareName of
        Some err \<Rightarrow> Inl err
      | None \<Rightarrow>
     (case StringPropertyValidation ReceiverPropertyDirectBackPressureStrategy
             (properties ReceiverPropertyDirectBackPressureStrategy)
             [ReceiverBackPressureStrategyDropLatest, ReceiverBackPressureStrategyDropOldest] of
        (strategy, _, Some err) \<Rightarrow> Inl err
      | (strategy, _, None) \<Rightarrow>
     (case IntegerPropertyValidation oor ReceiverPropertyDirectBackPressureBufferCapacity
             (properties ReceiverPropertyDirectBackPressureBufferCapacity) of
        (bufferSize, _, Some err) \<Rightarrow> Inl err
      | (bufferSize, _, None) \<Rightarrow>
          if sint bufferSize < 1
          then Inl (NewError InvalidConfigurationError DirectReceiverBackpressureMustBeGreaterThan0 [] None)
          else (case first_error checkDirectMessageReceiverSubscriptionType topics of
                 Some err \<Rightarrow> Inl err
               | None \<Rightarrow>
                   let strategyEnum = (if strategy = ReceiverBackPressureStrategyDropLatest then strategyDropLatest
                                       else strategyDropOldest)
                   in Inr (direct_rx_construct topics strategyEnum (nat (sint bufferSize)) share)))))"

section \<open>Back pressure\<close>

text \<open>A receiver as the message callback finds it: not terminating, its buffer open and with room for a message or more.\<close>

definition accepts :: "'cb directMessageReceiverImpl \<Rightarrow> bool" where
  "accepts receiver \<longleftrightarrow> lc_state (dr_lifecycle receiver) \<notin> {Terminating, Terminated} \<and>
     \<not> chan_closed (dr_buffer receiver) \<and> chan_wf (dr_buffer receiver) \<and> 0 < chan_cap (dr_buffer receiver)"

abbreviation pointers :: "'cb directMessageReceiverImpl \<Rightarrow> nat list" where
  "pointers receiver \<equiv> map dim_pointer (chan_items (dr_buffer receiver))"

text \<open>The reference: a bounded list.\<close>

definition push_bounded :: "receiverBackpressureStrategy \<Rightarrow> nat \<Rightarrow> nat \<Rightarrow> nat list \<Rightarrow> nat list" where
  "push_bounded strategy n m ms =
     (if length ms < n then ms @ [m]
      else case strategy of strategyDropOldest \<Rightarrow> tl ms @ [m] | strategyDropLatest \<Rightarrow> ms)"

lemma setDiscard_simps [simp]:
  "dr_buffer (snd (setDiscard r)) = dr_buffer r" "backpressureStrategy (snd (setDiscard r)) = backpressureStrategy r"
  "dr_lifecycle (snd (setDiscard r)) = dr_lifecycle r"
  "received_backpressure_discarded (snd (setDiscard r)) = received_backpressure_discarded r"
  "received_termination_discarded (snd (setDiscard r)) = received_termination_discarded r"
  by (simp_all add: setDiscard_def CompareAndSwap_def)

lemma count_simps [simp]:
  "dr_buffer (count_backpressure r) = dr_buffer r" "backpressureStrategy (count_backpressure r) = backpressureStrategy r"
  "dr_lifecycle (count_backpressure r) = dr_lifecycle r"
  "received_backpressure_discarded (count_backpressure r) = received_backpressure_discarded r + 1"
  "isDiscard (count_backpressure r) = isDiscard r"
  by (simp_all add: count_backpressure_def)

lemma messageCallback_accepts:
  assumes "accepts r"
  obtains kept r' where "messageCallback m r = Return (kept, r')" "accepts r'"
    "pointers r' = push_bounded (backpressureStrategy r) (chan_cap (dr_buffer r)) m (pointers r)"
    "kept \<longleftrightarrow> length (pointers r) < chan_cap (dr_buffer r) \<or> backpressureStrategy r = strategyDropOldest"
    "received_backpressure_discarded r' =
       received_backpressure_discarded r + (if length (pointers r) < chan_cap (dr_buffer r) then 0 else 1)"
    "backpressureStrategy r' = backpressureStrategy r" "chan_cap (dr_buffer r') = chan_cap (dr_buffer r)"
    "length (pointers r) < chan_cap (dr_buffer r) \<or> isDiscard r' = discardTrue"
proof -
  obtain d r1 where r1: "setDiscard r = (d, r1)" by fastforce
  note same = setDiscard_simps [of r, unfolded r1 snd_conv]
  let ?new = "\<lparr>dim_pointer = m, dim_discard = d\<rparr>"
  consider (room) "length (pointers r) < chan_cap (dr_buffer r)"
    | (oldest) "\<not> length (pointers r) < chan_cap (dr_buffer r)" "backpressureStrategy r = strategyDropOldest"
    | (latest) "\<not> length (pointers r) < chan_cap (dr_buffer r)" "backpressureStrategy r = strategyDropLatest"
    using receiverBackpressureStrategy.exhaust by blast
  then show thesis
  proof cases
    case room
    with assms show thesis
      by (intro that [of True "r1\<lparr>dr_buffer := (dr_buffer r)\<lparr>chan_items := chan_items (dr_buffer r) @ [?new]\<rparr>\<rparr>"])
        (auto simp: accepts_def messageCallback_def push_bounded_def r1 same chan_send_def chan_wf_def)
  next
    case oldest
    then obtain x xs where items: "chan_items (dr_buffer r) = x # xs"
      using assms by (cases "chan_items (dr_buffer r)") (auto simp: accepts_def)
    with assms oldest show thesis
      by (intro that [of True "count_backpressure (r1\<lparr>isDiscard := discardTrue,
            dr_buffer := (dr_buffer r)\<lparr>chan_items := xs @ [?new]\<rparr>\<rparr>)"])
        (auto simp: accepts_def messageCallback_def push_bounded_def r1 same chan_send_def chan_recv_def chan_wf_def)
  next
    case latest
    with assms show thesis
      by (intro that [of False "count_backpressure (r1\<lparr>isDiscard := discardTrue\<rparr>)"])
        (auto simp: accepts_def messageCallback_def push_bounded_def r1 same chan_send_def chan_wf_def)
  qed
qed

text \<open>Messages that arrive one after the other while nothing is consumed.\<close>

fun messageCallbacks :: "nat list \<Rightarrow> 'cb directMessageReceiverImpl \<Rightarrow> (bool list \<times> 'cb directMessageReceiverImpl) outcome" where
  "messageCallbacks [] r = Return ([], r)"
| "messageCallbacks (m # ms) r =
     outcome_bind (messageCallback m r) (\<lambda>(kept, r).
     outcome_bind (messageCallbacks ms r) (\<lambda>(ks, r). Return (kept # ks, r)))"

lemma push_bounded_fold:
  "length ms \<le> n \<Longrightarrow> 0 < n \<Longrightarrow> fold (push_bounded s n) xs ms =
     (case s of strategyDropOldest \<Rightarrow> drop (length ms + length xs - n) (ms @ xs) | strategyDropLatest \<Rightarrow> take n (ms @ xs))"
proof (induction xs arbitrary: ms)
  case (Cons x xs)
  show ?case
  proof (cases s)
    case strategyDropOldest
    with Cons show ?thesis
      by (cases ms; cases "length ms < n") (simp_all add: push_bounded_def del: drop_append)
  qed (use Cons in \<open>auto simp: push_bounded_def take_Cons'\<close>)
qed (auto split: receiverBackpressureStrategy.split)

text \<open>\<open>a\<close> messages have arrived before.\<close>

lemma messageCallbacks_accepts:
  assumes "accepts r" and "length (pointers r) = min a (chan_cap (dr_buffer r))"
  shows "\<exists>ks r'. messageCallbacks ms r = Return (ks, r') \<and>
     pointers r' = fold (push_bounded (backpressureStrategy r) (chan_cap (dr_buffer r))) ms (pointers r) \<and>
     received_backpressure_discarded r' + (a - chan_cap (dr_buffer r)) =
       received_backpressure_discarded r + (a + length ms - chan_cap (dr_buffer r)) \<and>
     ks = map (\<lambda>i. i < chan_cap (dr_buffer r) \<or> backpressureStrategy r = strategyDropOldest) [a..<a + length ms]"
  using assms
proof (induction ms arbitrary: a r)
  case (Cons m ms)
  obtain kept r1 where r1: "messageCallback m r = Return (kept, r1)" "accepts r1"
    "pointers r1 = push_bounded (backpressureStrategy r) (chan_cap (dr_buffer r)) m (pointers r)"
    "kept \<longleftrightarrow> length (pointers r) < chan_cap (dr_buffer r) \<or> backpressureStrategy r = strategyDropOldest"
    "received_backpressure_discarded r1 =
       received_backpressure_discarded r + (if length (pointers r) < chan_cap (dr_buffer r) then 0 else 1)"
    "backpressureStrategy r1 = backpressureStrategy r" "chan_cap (dr_buffer r1) = chan_cap (dr_buffer r)"
    using messageCallback_accepts [OF Cons.prems(1)] by metis
  have "0 < chan_cap (dr_buffer r)" using Cons.prems(1) by (simp add: accepts_def)
  then have "length (pointers r1) = min (Suc a) (chan_cap (dr_buffer r1))"
    using Cons.prems(2) r1(3,7) by (auto simp: push_bounded_def split: receiverBackpressureStrategy.split)
  then obtain ks r' where "messageCallbacks ms r1 = Return (ks, r')"
    "pointers r' = fold (push_bounded (backpressureStrategy r) (chan_cap (dr_buffer r))) ms (pointers r1)"
    "received_backpressure_discarded r' + (Suc a - chan_cap (dr_buffer r)) =
       received_backpressure_discarded r1 + (Suc a + length ms - chan_cap (dr_buffer r))"
    "ks = map (\<lambda>i. i < chan_cap (dr_buffer r) \<or> backpressureStrategy r = strategyDropOldest) [Suc a..<Suc a + length ms]"
    using Cons.IH [OF r1(2), of "Suc a"] r1(6,7) by auto
  moreover have "[a..<a + length (m # ms)] = a # [Suc a..<Suc a + length ms]" by (subst upt_conv_Cons) simp_all
  ultimately show ?case
    using r1 Cons.prems(2) by (auto simp: Suc_diff_le min_def split: if_splits)
qed simp

text \<open>
  C31. While the application takes nothing out, a receiver with a buffer for \<open>n\<close> messages that drops the oldest holds the
  last \<open>n\<close> messages that arrived, and one that drops the latest the first \<open>n\<close>, in the order of arrival. The callback
  never blocks; the metric counts exactly the messages that are gone; and the C library is told to
  free a message exactly when it was not put into the buffer.
\<close>

proposition back_pressure_keeps:
  assumes "accepts r" and "chan_items (dr_buffer r) = []"
  shows "\<exists>ks r'. messageCallbacks ms r = Return (ks, r') \<and>
           pointers r' = (case backpressureStrategy r of
               strategyDropOldest \<Rightarrow> drop (length ms - chan_cap (dr_buffer r)) ms
             | strategyDropLatest \<Rightarrow> take (chan_cap (dr_buffer r)) ms) \<and>
           received_backpressure_discarded r' =
             received_backpressure_discarded r + (length ms - chan_cap (dr_buffer r)) \<and>
           ks = map (\<lambda>i. i < chan_cap (dr_buffer r) \<or> backpressureStrategy r = strategyDropOldest) [0..<length ms]"
proof -
  have "0 < chan_cap (dr_buffer r)" using assms(1) by (simp add: accepts_def)
  with push_bounded_fold [of "[]" "chan_cap (dr_buffer r)" "backpressureStrategy r" ms]
    messageCallbacks_accepts [OF assms(1), of 0 ms] assms(2)
  show ?thesis by (cases "backpressureStrategy r") auto
qed

definition sample_error :: ErrorInfo where
  "sample_error = \<lparr>ReturnCode = SolClientReturnCodeFail, DetailedErrorInfo = Some (7, ''refused'')\<rparr>"

definition sample_receiver :: "receiverBackpressureStrategy \<Rightarrow> string directMessageReceiverImpl" where
  "sample_receiver s = (direct_rx_construct [] s 2 None)\<lparr>dr_lifecycle := started None lifecycle_construct\<rparr>"

lemma sample_receiver_accepts: "accepts (sample_receiver s)" "chan_items (dr_buffer (sample_receiver s)) = []"
    "chan_cap (dr_buffer (sample_receiver s)) = 2" "backpressureStrategy (sample_receiver s) = s"
  by (simp_all add: accepts_def sample_receiver_def direct_rx_construct_def started_def make_chan_def chan_wf_def)

theorem back_pressure_keeps_witness:
  "(\<exists>ks r'. messageCallbacks [1, 2, 3] (sample_receiver strategyDropOldest) = Return (ks, r') \<and> pointers r' = [2, 3]) \<and>
   (\<exists>ks r'. messageCallbacks [1, 2, 3] (sample_receiver strategyDropLatest) = Return (ks, r') \<and> pointers r' = [1, 2])"
  using back_pressure_keeps [OF sample_receiver_accepts(1,2), of "[1, 2, 3]" strategyDropOldest]
    back_pressure_keeps [OF sample_receiver_accepts(1,2), of "[1, 2, 3]" strategyDropLatest]
  by (auto simp: sample_receiver_accepts)

section \<open>The list of subscriptions\<close>

text \<open>The loop finds the last occurrence, so the splice removes it.\<close>

lemma splice_index_append:
  "splice_index topic i k (ys @ zs) = splice_index topic (i + length ys) (splice_index topic i k ys) zs"
  by (induction ys arbitrary: i k) auto

lemma splice_index_absent: "topic \<notin> set zs \<Longrightarrow> splice_index topic i k zs = k"
  by (induction zs arbitrary: i) auto

lemma splice_last:
  "splice (splice_index topic 0 (- 1) ts) ts = rev (remove1 topic (rev ts))"
proof (cases "topic \<in> set ts")
  case True
  then obtain ys zs where ts: "ts = ys @ topic # zs" "topic \<notin> set zs" using split_list_last by metis
  then have "splice_index topic 0 (- 1) ts = int (length ys)"
    by (simp add: splice_index_append splice_index_absent)
  moreover have "remove1 topic (rev ts) = rev zs @ rev ys" using ts by (simp add: remove1_append)
  ultimately show ?thesis using ts by (simp add: splice_def)
qed (simp add: splice_index_absent splice_def remove1_idem)

lemma splice_distinct: "distinct ts \<Longrightarrow> splice (splice_index topic 0 (- 1) ts) ts = filter (\<lambda>t. t \<noteq> topic) ts"
  by (simp add: splice_last distinct_remove1_removeAll removeAll_filter_not_eq rev_filter comp_def eq_commute)

lemma field_same [simp]:
  "r\<lparr>subscriptions := subscriptions r\<rparr> = r" "r\<lparr>isDiscard := isDiscard r\<rparr> = r"
  "r\<lparr>internal_discard_notifications := internal_discard_notifications r\<rparr> = r"
  "r\<lparr>received_termination_discarded := received_termination_discarded r\<rparr> = r"
  "r\<lparr>bufferEmptyOnTerminateFlag := bufferEmptyOnTerminateFlag r\<rparr> = r"
  "r\<lparr>bufferEmptyOnTerminate := bufferEmptyOnTerminate r\<rparr> = r" "r\<lparr>dr_rxCallback := dr_rxCallback r\<rparr> = r"
  by (cases r, simp)+

lemma filter_absent: "topic \<notin> set ts \<Longrightarrow> filter (\<lambda>x. x \<noteq> topic) ts = ts"
  by (induction ts) auto

text \<open>
  The list of subscriptions follows the requests that the session accepts. On a started receiver, adding a
  topic appends it unless it is there; removing it takes it out, so that adding and removing a new
  topic gives the old list; a refused request returns an error and changes neither the list nor the table
  of pending confirmations but for its counter; and a receiver that is not started refuses without asking the session.
\<close>

proposition subscription_list:
  assumes "distinct (subscriptions r)" and "sub = TopicSubscription t"
  shows "(lc_state (dr_lifecycle r) \<noteq> Started \<longrightarrow>
            AddSubscription lib sub core r = (Inl (cannotModify (lc_state (dr_lifecycle r))), core, r) \<and>
            RemoveSubscription lib sub core r = (Inl (cannotModify (lc_state (dr_lifecycle r))), core, r)) \<and>
         (AddSubscription lib sub core r = (Inl e, core', r') \<or> RemoveSubscription lib sub core r = (Inl e, core', r') \<longrightarrow>
            r' = r) \<and>
         (AddSubscription lib sub core r = (Inr c, core', r') \<longrightarrow>
            r' = r\<lparr>subscriptions := subscriptions r'\<rparr> \<and> distinct (subscriptions r') \<and>
            set (subscriptions r') = insert (buildSubscription (shareName r) sub) (set (subscriptions r)) \<and>
            (buildSubscription (shareName r) sub \<notin> set (subscriptions r) \<and>
               RemoveSubscription lib' sub core' r' = (Inr c', core'', r'') \<longrightarrow> r'' = r)) \<and>
         (RemoveSubscription lib sub core r = (Inr c, core', r') \<longrightarrow>
            r' = r\<lparr>subscriptions := filter (\<lambda>x. x \<noteq> buildSubscription (shareName r) sub) (subscriptions r)\<rparr>)"
  using assms
  by (auto simp: AddSubscription_def RemoveSubscription_def addSubscription_def removeSubscription_def checkModify_def
      checkDirectMessageReceiverSubscriptionType_def Let_def splice_distinct filter_absent
      split: sum.splits prod.splits if_splits)

lemma AddSubscription_accepted:
  assumes "lc_state (dr_lifecycle r) = Started"
  shows "\<exists>c core' r'. AddSubscription (\<lambda>_ _ _. None) (TopicSubscription t) core r = (Inr c, core', r') \<and>
           lc_state (dr_lifecycle r') = Started"
proof -
  obtain i c core' where "newSubscriptionCorrelation core = ((i, c), core')" by (metis surj_pair)
  with assms show ?thesis
    by (simp add: AddSubscription_def addSubscription_def checkModify_def
        checkDirectMessageReceiverSubscriptionType_def Subscribe_def Let_def)
qed

lemma RemoveSubscription_accepted:
  assumes "lc_state (dr_lifecycle r) = Started"
  shows "\<exists>c core' r'. RemoveSubscription (\<lambda>_ _ _. None) (TopicSubscription t) core r = (Inr c, core', r')"
proof -
  obtain i c core' where "newSubscriptionCorrelation core = ((i, c), core')" by (metis surj_pair)
  with assms show ?thesis
    by (simp add: RemoveSubscription_def removeSubscription_def checkModify_def
        checkDirectMessageReceiverSubscriptionType_def Unsubscribe_def Let_def)
qed

theorem subscription_list_witness:
  "(let r = (sample_receiver strategyDropLatest)\<lparr>subscriptions := [''a'']\<rparr>; core = newCcsmpReceiver :: string ccsmpBackedReceiver;
        accept = (\<lambda>_ _ _. None)
    in case AddSubscription accept (TopicSubscription ''b'') core r of
         (Inr c, core', r') \<Rightarrow> set (subscriptions r') = {''a'', ''b''} \<and>
           (case RemoveSubscription accept (TopicSubscription ''b'') core' r' of
              (Inr c', core'', r'') \<Rightarrow> r'' = r | _ \<Rightarrow> False)
       | _ \<Rightarrow> False)"
proof -
  let ?r = "(sample_receiver strategyDropLatest)\<lparr>subscriptions := [''a'']\<rparr>"
  let ?accept = "\<lambda>_ _ _. None :: ErrorInfo option"
  let ?core = "newCcsmpReceiver :: string ccsmpBackedReceiver"
  have st: "lc_state (dr_lifecycle ?r) = Started" "shareName ?r = None"
    by (simp_all add: sample_receiver_def started_def direct_rx_construct_def)
  obtain c core' r' where a: "AddSubscription ?accept (TopicSubscription ''b'') ?core ?r = (Inr c, core', r')"
      "lc_state (dr_lifecycle r') = Started"
    using AddSubscription_accepted [OF st(1)] by blast
  obtain c' core'' r'' where b: "RemoveSubscription ?accept (TopicSubscription ''b'') core' r' = (Inr c', core'', r'')"
    using RemoveSubscription_accepted [OF a(2)] by blast
  have "distinct (subscriptions ?r)" by simp
  from subscription_list [where t = "''b''" and lib = ?accept and core = ?core and c = c and core' = core' and r' = r' and
        lib' = ?accept and c' = c' and core'' = core'' and r'' = r'', OF this refl] a b st
  show ?thesis unfolding Let_def by (auto simp: buildSubscription_def)
qed

section \<open>A start that fails\<close>

text \<open>Requests and waits change nothing of the core receiver but its table.\<close>

definition only_table :: "'c ccsmpBackedReceiver \<Rightarrow> 'c ccsmpBackedReceiver \<Rightarrow> bool" where
  "only_table core core' \<longleftrightarrow> core' = core\<lparr>subscriptionCorrelations := subscriptionCorrelations core'\<rparr>"

lemma only_table_refl [simp]: "only_table core core"
  by (simp add: only_table_def)

lemma only_table_trans: "only_table a b \<Longrightarrow> only_table b c \<Longrightarrow> only_table a c"
  unfolding only_table_def by (metis ccsmpBackedReceiver.fold_congs(4) ccsmpBackedReceiver.surjective ccsmpBackedReceiver.update_convs(4))

lemma only_table_simps: "only_table a b \<Longrightarrow> rxMap b = rxMap a \<and> dispatchID b = dispatchID a \<and> rx_running b = rx_running a"
  unfolding only_table_def by (metis ccsmpBackedReceiver.select_convs(1-3) ccsmpBackedReceiver.surjective ccsmpBackedReceiver.update_convs(4))

lemma Subscribe_only_table: "Subscribe lib t d core = (res, core') \<Longrightarrow> only_table core core'"
  and Unsubscribe_only_table: "Unsubscribe lib t d core = (res, core') \<Longrightarrow> only_table core core'"
  by (auto simp: Subscribe_def Unsubscribe_def only_table_def newSubscriptionCorrelation_def
      ClearSubscriptionCorrelation_def Let_def split: prod.splits option.splits)

lemma await_only_table: "await_confirmation c core = Return (err, core') \<Longrightarrow> only_table core core'"
  by (auto simp: await_confirmation_def subscription_await_def only_table_def outcome_bind_Return split: prod.splits)

lemma subscribe_loop_only_table:
  "subscribe_loop lib d ts core = (err, added, core') \<Longrightarrow>
     only_table core core' \<and> (\<exists>us. ts = map fst added @ us) \<and> (err = None \<longrightarrow> map fst added = ts)"
proof (induction ts arbitrary: core added err core')
  case (Cons t ts)
  obtain res core1 where 1: "Subscribe lib t d core = (res, core1)" by fastforce
  note tab = Subscribe_only_table [OF 1]
  show ?case
  proof (cases res)
    case (Inr ic)
    obtain i c where ic: "ic = (i, c)" by fastforce
    obtain e a core2 where 2: "subscribe_loop lib d ts core1 = (e, a, core2)" by (metis surj_pair)
    from Cons.IH [OF 2] Cons.prems tab only_table_trans show ?thesis by (auto simp: 1 Inr ic 2)
  qed (use Cons.prems tab in \<open>auto simp: 1\<close>)
qed simp

lemma unsubscribe_loop_only_table: "unsubscribe_loop lib d ts core = (cs, core') \<Longrightarrow> only_table core core'"
proof (induction ts arbitrary: core cs)
  case (Cons t ts)
  then show ?case
    by (auto split: prod.splits sum.splits dest: Unsubscribe_only_table Cons.IH intro: only_table_trans)
qed simp

lemma await_all_only_table: "await_all cs core = Return (err, core') \<Longrightarrow> only_table core core'"
proof (induction cs arbitrary: core)
  case (Cons c cs)
  then show ?case
    by (auto simp: outcome_bind_Return split: prod.splits if_splits dest: await_only_table intro: only_table_trans)
qed simp

lemma await_each_only_table: "await_each cs core = Return core' \<Longrightarrow> only_table core core'"
proof (induction cs arbitrary: core)
  case (Cons c cs)
  then show ?case
    by (auto simp: outcome_bind_Return split: prod.splits dest: await_only_table intro: only_table_trans)
qed simp

text \<open>
  Starting. When every subscription is accepted and confirmed, the receiver is started, with one handler for
  down events and one message callback more than before, and a request for each of its topics. When a
  subscription is refused, by the session at once or by the broker in its confirmation, the start returns
  that error; after the clean-up the handlers of every event and the message callbacks are those from before,
  the receiver is terminated, every other caller of \<^verbatim>\<open>Start\<close> that waits gets the same error, and
  it cannot be started again.
\<close>

proposition receiver_start_all_or_nothing:
  assumes "events_wf ev" and "handlerID ev \<noteq> - 1" and "rx_wf core" and "dispatchID core \<noteq> - 1"
    and first: "direct_rx_Start_begin handler callback lib ev core r = (Proceed, err, added, ev1, core1, r1)"
    and "only_table core1 core2"
    and confirm: "direct_rx_Start_confirm lib' err added core2 r1 = Return (err', results, core3, r2)"
  shows "(err' = None \<longrightarrow>
            lc_state (dr_lifecycle r2) = Started \<and> map fst added = subscriptions r \<and>
            events_look ev1 = (events_look ev)(terminationHandlerID r2 \<mapsto> (SolClientEventDown, handler)) \<and>
            rxMap core3 = (rxMap core)(dr_dispatch r2 \<mapsto> callback)) \<and>
         (err' \<noteq> None \<and> only_table core3 core4 \<and>
          direct_rx_Start_fail err' results ev1 core4 r2 = Return (ev', core', r') \<longrightarrow>
            events_look ev' = events_look ev \<and> rxMap core' = rxMap core \<and> lc_state (dr_lifecycle r') = Terminated \<and>
            future_Get (startFuture (dr_lifecycle r')) = Return err' \<and>
            (\<forall>parent. fst (receiver_starting parent (dr_lifecycle r')) = Stop (Return (Some (IllegalState UnableToStartReceiver)))))"
proof -
  obtain i ev0 where add: "AddEventHandler SolClientEventDown handler ev = (i, ev0)" by fastforce
  obtain d core0 where reg: "RegisterRXCallback callback core = (d, core0)" by fastforce
  obtain l where l: "receiver_starting (core_receiver_IsRunning core) (dr_lifecycle r) = (Proceed, l)"
    using first by (auto simp: direct_rx_Start_begin_def split: prod.splits proceed.splits)
  note look = AddEventHandler_look [OF assms(1,2) add]
  have loop: "subscribe_loop lib d (subscriptions r) core0 = (err, added, core1)" and "ev1 = ev0"
    and r1: "r1 = r\<lparr>dr_lifecycle := l, terminationHandlerID := i, dr_dispatch := d\<rparr>"
    using first by (auto simp: direct_rx_Start_begin_def l add reg Let_def split: prod.splits)
  have "only_table core0 core1" and topics: "err = None \<longrightarrow> map fst added = subscriptions r"
    using subscribe_loop_only_table [OF loop] by auto
  then have table2: "only_table core0 core2" using assms(6) only_table_trans by blast
  have r2: "only_table core2 core3 \<and> terminationHandlerID r2 = i \<and> dr_dispatch r2 = d \<and>
      (err' = None \<longrightarrow> err = None \<and> lc_state (dr_lifecycle r2) = Started)"
    using confirm unfolding direct_rx_Start_confirm_def
    by (auto simp: outcome_bind_Return r1 started_def split: prod.splits if_splits
        dest: await_all_only_table unsubscribe_loop_only_table intro: only_table_trans)
  have rx: "rxMap core3 = (rxMap core)(d \<mapsto> callback)"
    using only_table_simps [OF only_table_trans [OF table2 conjunct1 [OF r2]]] rxreg.lookup_added [OF assms(3,4) reg] by simp
  have restored: "rxMap (UnregisterRXCallback d c) = rxMap core" if "only_table core3 c" for c
    using only_table_simps [OF that] rx rxreg.fresh_id [OF assms(3,4)] rxreg.add_id [OF assms(3), of callback] reg
    by (auto simp: UnregisterRXCallback_def fun_eq_iff)
  have "events_look (RemoveEventHandler i ev0) = events_look ev"
    using evreg.remove_added [OF assms(1,2), of "(SolClientEventDown, handler)" i ev0] add by (simp add: add_event_handler_def)
  with r2 rx topics look(1) restored show ?thesis
    unfolding \<open>ev1 = ev0\<close> direct_rx_Start_fail_def
    by (auto simp: outcome_bind_Return terminated_def receiver_starting_def starting_def checkStartupStateAndWait_def Let_def
        dest: await_each_only_table intro: only_table_trans)
qed

theorem receiver_start_all_or_nothing_witness:
  "(let r = (sample_receiver strategyDropLatest)\<lparr>subscriptions := [''a''], dr_lifecycle := lifecycle_construct\<rparr>;
        core = (newCcsmpReceiver :: string ccsmpBackedReceiver)\<lparr>rx_running := 1\<rparr>;
        refuse = (\<lambda>_ _ _. Some sample_error)
    in case direct_rx_Start_begin ''down'' ''rx'' refuse newCcsmpEvents core r of
         (Proceed, err, added, ev1, core1, r1) \<Rightarrow>
           (case direct_rx_Start_confirm refuse err added core1 r1 of
              Return (err', results, core3, r2) \<Rightarrow>
                (case direct_rx_Start_fail err' results ev1 core3 r2 of
                   Return (ev', core', r') \<Rightarrow> err' \<noteq> None \<and> events_look ev' = Map.empty \<and> rxMap core' = Map.empty \<and>
                     lc_state (dr_lifecycle r') = Terminated
                 | _ \<Rightarrow> False)
            | _ \<Rightarrow> False)
       | _ \<Rightarrow> False)"
proof -
  let ?r = "(sample_receiver strategyDropLatest)\<lparr>subscriptions := [''a''], dr_lifecycle := lifecycle_construct\<rparr>"
  let ?core = "(newCcsmpReceiver :: string ccsmpBackedReceiver)\<lparr>rx_running := 1\<rparr>"
  let ?refuse = "\<lambda>_ _ _. Some sample_error"
  obtain p err added ev1 core1 r1 where 1: "direct_rx_Start_begin ''down'' ''rx'' ?refuse newCcsmpEvents ?core ?r =
      (p, err, added, ev1, core1, r1)" by (metis surj_pair)
  have p: "p = Proceed" "err = Some (ToNativeError sample_error FailedToAddSubscription)" "added = []"
    using 1 by (auto simp: direct_rx_Start_begin_def receiver_starting_def starting_def lifecycle_construct_def
        core_receiver_IsRunning_def CompareAndSwap_def Subscribe_def Let_def split: prod.splits)
  have 2: "direct_rx_Start_confirm ?refuse err added core1 r1 = Return (err, [], core1, r1)"
    by (simp add: direct_rx_Start_confirm_def p)
  obtain ev' core' r' where 3: "direct_rx_Start_fail err [] ev1 core1 r1 = Return (ev', core', r')"
    by (simp add: direct_rx_Start_fail_def Let_def)
  have look: "events_look (newCcsmpEvents :: string ccsmpBackedEvents) = Map.empty" "handlerID (newCcsmpEvents :: string ccsmpBackedEvents) = 0"
    by (simp_all add: newCcsmpEvents_def events_look_def)
  have wf: "rx_wf ?core" "dispatchID ?core \<noteq> - 1" "rxMap ?core = Map.empty"
    by (simp_all add: newCcsmpReceiver_def rx_wf_def)
  from receiver_start_all_or_nothing [OF events_wf_new _ wf(1,2) 1 [unfolded p(1)] only_table_refl 2, of core1 ev' core' r']
  show ?thesis unfolding Let_def using p(2) 1 2 3 look wf(3) by (simp add: p(1))
qed

end
