(* ===== verification/Receiver_Concurrency.thy ===== *)
theory Receiver_Concurrency
  imports Direct_Receiver "HOL-Library.Sublist"
begin

text \<open>
  The goroutines of a started direct receiver at work on its buffer: the thread of the C library in the
  message callback, the goroutine in \<^verbatim>\<open>run\<close>, any number of application goroutines in \<^verbatim>\<open>ReceiveMessage\<close>, and the
  one termination that proceeds, asked for or forced by a down event. A step is one access to shared state: a channel
  operation, an atomic operation or a test. Setting the flag that the buffer is empty and closing the channel
  behind it are one step, since only the goroutine that sets the flag closes the channel and nobody reads the flag
  otherwise; so are the last actions of a termination, on which no other goroutine depends. A call of
  \<^verbatim>\<open>ReceiveAsync\<close> sets the callback and signals it to \<^verbatim>\<open>run\<close>, at any time: its check of the state may be long past.

  The lists of the system record what happened: messages that arrived, that were put into the
  buffer, that were taken out and by whom, that were refused and dropped, and that the application got.
\<close>

section \<open>The system\<close>

datatype cb_pc =
    CbIdle
  | CbState nat
  | CbDiscard nat
  | CbPush directInboundMessage
  | CbFull directInboundMessage
  | CbMark directInboundMessage nat
  | CbForce directInboundMessage bool nat
  | CbCount

datatype run_pc =
    RunWait
  | RunCheck
  | RunSelect
  | RunGot directInboundMessage
  | RunCall directInboundMessage
  | RunDone

text \<open>The argument of the pcs of a termination tells whether the application asked for it.\<close>

datatype tm_pc =
    TmIdle
  | TmSignal bool
  | TmClose bool
  | TmFlag bool
  | TmLen bool
  | TmWait
  | TmNotify
  | TmJoin
  | TmJoinTimeout
  | TmDrain nat
  | TmDone "go_error option"

datatype rc_pc =
    RcIdle
  | RcSelect
  | RcGot directInboundMessage
  | RcLoad
  | RcLen
  | RcCAS

datatype taker = TakenByRun | TakenByReceive | TakenAsOldest | TakenByDrain

record 'cb rx_sys =
  rx :: "'cb directMessageReceiverImpl"
  cb_pc :: cb_pc
  run_pc :: run_pc
  tm_pc :: tm_pc
  rc_pcs :: "rc_pc list"
  arrived :: "nat list"
  pushed :: "nat list"
  taken :: "(nat \<times> taker) list"
  refused :: "nat list"
  dropped_latest :: "nat list"
  uncounted :: nat
  delivered :: "(nat \<times> bool) list"

abbreviation set_buffer :: "directInboundMessage chan \<Rightarrow> 'cb rx_sys \<Rightarrow> 'cb rx_sys" where
  "set_buffer c s \<equiv> s\<lparr>rx := (rx s)\<lparr>dr_buffer := c\<rparr>\<rparr>"

abbreviation take_out :: "directInboundMessage \<Rightarrow> taker \<Rightarrow> directInboundMessage chan \<Rightarrow> 'cb rx_sys \<Rightarrow> 'cb rx_sys" where
  "take_out x by_whom c s \<equiv> (set_buffer c s)\<lparr>taken := taken s @ [(dim_pointer x, by_whom)]\<rparr>"

abbreviation put_in :: "directInboundMessage \<Rightarrow> directInboundMessage chan \<Rightarrow> 'cb rx_sys \<Rightarrow> 'cb rx_sys" where
  "put_in x c s \<equiv> (set_buffer c s)\<lparr>pushed := pushed s @ [dim_pointer x]\<rparr>"

abbreviation refuse :: "nat \<Rightarrow> 'cb rx_sys \<Rightarrow> 'cb rx_sys" where
  "refuse m s \<equiv> s\<lparr>rx := count_terminated (rx s), refused := refused s @ [m]\<rparr>"

abbreviation deliver :: "directInboundMessage \<Rightarrow> 'cb directMessageReceiverImpl \<Rightarrow> 'cb rx_sys \<Rightarrow> 'cb rx_sys" where
  "deliver x r s \<equiv> s\<lparr>rx := r, delivered := delivered s @ [(dim_pointer x, dim_discard x)]\<rparr>"

abbreviation set_rc :: "nat \<Rightarrow> rc_pc \<Rightarrow> 'cb rx_sys \<Rightarrow> 'cb rx_sys" where
  "set_rc i pc s \<equiv> s\<lparr>rc_pcs := (rc_pcs s)[i := pc]\<rparr>"

definition IncompleteReception :: "nat \<Rightarrow> go_error" where
  "IncompleteReception n = NewError IncompleteMessageDeliveryError IncompleteMessageReceptionMessage [ArgInt (int n)] None"

text \<open>
  The end of a termination: the metric, the error, the state. \<^verbatim>\<open>teardownCache\<close>, and \<^verbatim>\<open>cleanupSubscriptions\<close> at the begin, are not steps.
\<close>

definition end_termination :: "nat \<Rightarrow> 'cb directMessageReceiverImpl \<Rightarrow> go_error option \<times> 'cb directMessageReceiverImpl" where
  "end_termination undeliveredCount receiver =
     (let err = (if undeliveredCount > 0 then Some (IncompleteReception undeliveredCount) else None);
          receiver = (if undeliveredCount > 0
                      then receiver\<lparr>received_termination_discarded := received_termination_discarded receiver + undeliveredCount\<rparr>
                      else receiver)
      in (err, receiver\<lparr>dr_lifecycle := terminated err (dr_lifecycle receiver)\<rparr>))"

inductive rx_step :: "'cb rx_sys \<Rightarrow> 'cb rx_sys \<Rightarrow> bool" where
  cb_enter: "cb_pc s = CbIdle \<Longrightarrow> rx_step s (s\<lparr>cb_pc := CbState m, arrived := arrived s @ [m]\<rparr>)"
| cb_refuse: "cb_pc s = CbState m \<Longrightarrow> lc_state (dr_lifecycle (rx s)) \<in> {Terminating, Terminated} \<Longrightarrow>
     rx_step s ((refuse m s)\<lparr>cb_pc := CbIdle\<rparr>)"
| cb_pass: "cb_pc s = CbState m \<Longrightarrow> lc_state (dr_lifecycle (rx s)) \<notin> {Terminating, Terminated} \<Longrightarrow>
     rx_step s (s\<lparr>cb_pc := CbDiscard m\<rparr>)"
| cb_discard: "cb_pc s = CbDiscard m \<Longrightarrow> setDiscard (rx s) = (d, r) \<Longrightarrow>
     rx_step s (s\<lparr>rx := r, cb_pc := CbPush \<lparr>dim_pointer = m, dim_discard = d\<rparr>\<rparr>)"
| cb_push: "cb_pc s = CbPush x \<Longrightarrow> chan_send x (dr_buffer (rx s)) = Return c \<Longrightarrow>
     rx_step s ((put_in x c s)\<lparr>cb_pc := CbIdle\<rparr>)"
| cb_push_closed: "cb_pc s = CbPush x \<Longrightarrow> chan_send x (dr_buffer (rx s)) = Panics p \<Longrightarrow>
     rx_step s ((refuse (dim_pointer x) s)\<lparr>cb_pc := CbIdle\<rparr>)"
| cb_push_full: "cb_pc s = CbPush x \<Longrightarrow> chan_send x (dr_buffer (rx s)) = Blocks \<Longrightarrow>
     rx_step s (s\<lparr>cb_pc := CbFull x\<rparr>)"
| cb_drop_latest: "cb_pc s = CbFull x \<Longrightarrow> backpressureStrategy (rx s) = strategyDropLatest \<Longrightarrow>
     rx_step s (s\<lparr>rx := (rx s)\<lparr>isDiscard := discardTrue\<rparr>, cb_pc := CbCount,
                  dropped_latest := dropped_latest s @ [dim_pointer x]\<rparr>)"
| cb_drop_oldest: "cb_pc s = CbFull x \<Longrightarrow> backpressureStrategy (rx s) = strategyDropOldest \<Longrightarrow>
     chan_recv (dr_buffer (rx s)) = Return (Some y, c) \<Longrightarrow>
     rx_step s ((take_out y TakenAsOldest c s)\<lparr>cb_pc := CbMark x 1\<rparr>)"
| cb_drop_closed: "cb_pc s = CbFull x \<Longrightarrow> backpressureStrategy (rx s) = strategyDropOldest \<Longrightarrow>
     chan_recv (dr_buffer (rx s)) = Return (None, c) \<Longrightarrow>
     rx_step s (s\<lparr>cb_pc := CbMark x 0\<rparr>)"
| cb_drop_none: "cb_pc s = CbFull x \<Longrightarrow> backpressureStrategy (rx s) = strategyDropOldest \<Longrightarrow>
     chan_recv (dr_buffer (rx s)) = Blocks \<Longrightarrow>
     rx_step s (s\<lparr>cb_pc := CbForce x False 0\<rparr>)"
| cb_mark: "cb_pc s = CbMark x n \<Longrightarrow>
     rx_step s (s\<lparr>rx := (rx s)\<lparr>isDiscard := discardTrue\<rparr>, cb_pc := CbForce x True n\<rparr>)"
| cb_force: "cb_pc s = CbForce x discard n \<Longrightarrow> chan_send x (dr_buffer (rx s)) = Return c \<Longrightarrow>
     rx_step s ((put_in x c s)\<lparr>cb_pc := (if discard then CbCount else CbIdle)\<rparr>)"
| cb_force_closed: "cb_pc s = CbForce x discard n \<Longrightarrow> chan_send x (dr_buffer (rx s)) = Panics p \<Longrightarrow>
     rx_step s ((refuse (dim_pointer x) s)\<lparr>cb_pc := CbIdle, uncounted := uncounted s + n\<rparr>)"
| cb_count: "cb_pc s = CbCount \<Longrightarrow> rx_step s (s\<lparr>rx := count_backpressure (rx s), cb_pc := CbIdle\<rparr>)"
| ra_set: "callback \<noteq> None \<Longrightarrow> rx_step s (s\<lparr>rx := (rx s)\<lparr>dr_rxCallback := callback\<rparr>\<rparr>)"
| ra_signal: "dr_rxCallback (rx s) \<noteq> None \<Longrightarrow> chan_send True (rxCallbackSet (rx s)) = Return c \<Longrightarrow>
     rx_step s (s\<lparr>rx := (rx s)\<lparr>rxCallbackSet := c\<rparr>\<rparr>)"
| run_told: "run_pc s = RunWait \<Longrightarrow> chan_recv (rxCallbackSet (rx s)) = Return (Some cont, c) \<Longrightarrow>
     rx_step s (s\<lparr>rx := (rx s)\<lparr>rxCallbackSet := c, terminationComplete := \<not> cont\<rparr>,
                  run_pc := (if cont then RunCheck else RunDone)\<rparr>)"
| run_check: "run_pc s = RunCheck \<Longrightarrow> \<not> terminationNotification (rx s) \<Longrightarrow> rx_step s (s\<lparr>run_pc := RunSelect\<rparr>)"
| run_stop: "run_pc s \<in> {RunCheck, RunSelect} \<Longrightarrow> terminationNotification (rx s) \<Longrightarrow>
     rx_step s (s\<lparr>rx := (rx s)\<lparr>terminationComplete := True\<rparr>, run_pc := RunDone\<rparr>)"
| run_take: "run_pc s = RunSelect \<Longrightarrow> chan_recv (dr_buffer (rx s)) = Return (Some x, c) \<Longrightarrow>
     rx_step s ((take_out x TakenByRun c s)\<lparr>run_pc := RunGot x\<rparr>)"
| run_empty: "run_pc s = RunSelect \<Longrightarrow> chan_recv (dr_buffer (rx s)) = Return (None, c) \<Longrightarrow>
     notify_empty (rx s) = Return r \<Longrightarrow>
     rx_step s (s\<lparr>rx := r\<lparr>terminationComplete := True\<rparr>, run_pc := RunDone\<rparr>)"
| run_consume: "run_pc s = RunGot x \<Longrightarrow> consume x (rx s) = (y, r) \<Longrightarrow>
     rx_step s ((if dr_rxCallback (rx s) \<noteq> None then deliver y r s else s\<lparr>rx := r\<rparr>)\<lparr>run_pc := RunCall y\<rparr>)"
| run_called: "run_pc s = RunCall x \<Longrightarrow> rx_step s (s\<lparr>run_pc := RunCheck\<rparr>)"
| rc_call: "i < length (rc_pcs s) \<Longrightarrow> rc_pcs s ! i = RcIdle \<Longrightarrow> rx_step s (set_rc i RcSelect s)"
| rc_take: "i < length (rc_pcs s) \<Longrightarrow> rc_pcs s ! i = RcSelect \<Longrightarrow>
     chan_recv (dr_buffer (rx s)) = Return (Some x, c) \<Longrightarrow>
     rx_step s (set_rc i (RcGot x) (take_out x TakenByReceive c s))"
| rc_none: "i < length (rc_pcs s) \<Longrightarrow> rc_pcs s ! i = RcSelect \<Longrightarrow> rx_step s (set_rc i RcLoad s)"
| rc_consume: "i < length (rc_pcs s) \<Longrightarrow> rc_pcs s ! i = RcGot x \<Longrightarrow> consume x (rx s) = (y, r) \<Longrightarrow>
     rx_step s (set_rc i RcLoad (deliver y r s))"
| rc_load: "i < length (rc_pcs s) \<Longrightarrow> rc_pcs s ! i = RcLoad \<Longrightarrow>
     rx_step s (set_rc i (if bufferClosed (rx s) = 1 then RcLen else RcIdle) s)"
| rc_len: "i < length (rc_pcs s) \<Longrightarrow> rc_pcs s ! i = RcLen \<Longrightarrow>
     rx_step s (set_rc i (if chan_len (dr_buffer (rx s)) = 0 then RcCAS else RcIdle) s)"
| rc_notify: "i < length (rc_pcs s) \<Longrightarrow> rc_pcs s ! i = RcCAS \<Longrightarrow> notify_empty (rx s) = Return r \<Longrightarrow>
     rx_step s (set_rc i RcIdle (s\<lparr>rx := r\<rparr>))"
| tm_start: "tm_pc s = TmIdle \<Longrightarrow> receiver_terminate (dr_lifecycle (rx s)) = (Proceed, l) \<Longrightarrow>
     rx_step s (s\<lparr>rx := (rx s)\<lparr>dr_lifecycle := l\<rparr>, tm_pc := TmSignal asked\<rparr>)"
| tm_signal: "tm_pc s = TmSignal asked \<Longrightarrow>
     rx_step s (s\<lparr>rx := (case chan_send False (rxCallbackSet (rx s)) of
                             Return c \<Rightarrow> (rx s)\<lparr>rxCallbackSet := c\<rparr> | _ \<Rightarrow> rx s), tm_pc := TmClose asked\<rparr>)"
| tm_close: "tm_pc s = TmClose asked \<Longrightarrow> chan_close (dr_buffer (rx s)) = Return c \<Longrightarrow>
     rx_step s ((set_buffer c s)\<lparr>tm_pc := TmFlag asked\<rparr>)"
| tm_flag: "tm_pc s = TmFlag asked \<Longrightarrow>
     rx_step s (s\<lparr>rx := (rx s)\<lparr>bufferClosed := 1\<rparr>, tm_pc := (if asked then TmLen asked else TmNotify)\<rparr>)"
| tm_len: "tm_pc s = TmLen asked \<Longrightarrow>
     (if chan_len (dr_buffer (rx s)) = 0 then notify_empty (rx s) else Return (rx s)) = Return r \<Longrightarrow>
     rx_step s (s\<lparr>rx := r, tm_pc := TmWait\<rparr>)"
| tm_timeout: "tm_pc s = TmWait \<Longrightarrow> signal_close (terminationNotification (rx s)) = Return b \<Longrightarrow>
     rx_step s (s\<lparr>rx := (rx s)\<lparr>terminationNotification := b\<rparr>, tm_pc := TmJoinTimeout\<rparr>)"
| tm_emptied: "tm_pc s = TmWait \<Longrightarrow> bufferEmptyOnTerminate (rx s) \<Longrightarrow> rx_step s (s\<lparr>tm_pc := TmJoin\<rparr>)"
| tm_notify: "tm_pc s = TmNotify \<Longrightarrow> signal_close (terminationNotification (rx s)) = Return b \<Longrightarrow>
     rx_step s (s\<lparr>rx := (rx s)\<lparr>terminationNotification := b\<rparr>, tm_pc := TmDrain 0\<rparr>)"
| tm_join: "tm_pc s = TmJoin \<Longrightarrow> terminationComplete (rx s) \<Longrightarrow> end_termination 0 (rx s) = (err, r) \<Longrightarrow>
     rx_step s (s\<lparr>rx := r, tm_pc := TmDone err\<rparr>)"
| tm_join_timeout: "tm_pc s = TmJoinTimeout \<Longrightarrow> terminationComplete (rx s) \<Longrightarrow> rx_step s (s\<lparr>tm_pc := TmDrain 0\<rparr>)"
| tm_drain: "tm_pc s = TmDrain n \<Longrightarrow> chan_recv (dr_buffer (rx s)) = Return (Some x, c) \<Longrightarrow>
     rx_step s ((take_out x TakenByDrain c s)\<lparr>tm_pc := TmDrain (Suc n)\<rparr>)"
| tm_drained: "tm_pc s = TmDrain n \<Longrightarrow> chan_recv (dr_buffer (rx s)) = Return (None, c) \<Longrightarrow>
     notify_empty (rx s) = Return r \<Longrightarrow> end_termination n r = (err, r') \<Longrightarrow>
     rx_step s (s\<lparr>rx := r', tm_pc := TmDone err\<rparr>)"

definition rx_init :: "nat \<Rightarrow> 'cb directMessageReceiverImpl \<Rightarrow> 'cb rx_sys" where
  "rx_init n r =
     \<lparr>rx = r, cb_pc = CbIdle, run_pc = RunWait, tm_pc = TmIdle, rc_pcs = replicate n RcIdle, arrived = [], pushed = [],
      taken = [], refused = [], dropped_latest = [], uncounted = 0, delivered = []\<rparr>"

text \<open>A receiver as \<^verbatim>\<open>Start\<close> leaves it.\<close>

definition rx_started :: "'cb directMessageReceiverImpl \<Rightarrow> bool" where
  "rx_started r \<longleftrightarrow> (\<exists>topics strategy n share callback i d l cb set.
     0 < n \<and> lc_state l = Started \<and> set \<in> {make_chan 1, (make_chan 1)\<lparr>chan_items := [True]\<rparr>} \<and>
     (set = make_chan 1 \<or> callback \<noteq> None) \<and>
     r = (direct_rx_construct topics strategy n share)\<lparr>dr_lifecycle := l, terminationHandlerID := i, dr_dispatch := d,
            dr_rxCallback := callback, rxCallbackSet := set, dr_terminationListener := cb\<rparr>)"

section \<open>What the operations do\<close>

lemma setDiscard_eq: "setDiscard r = (d, r') \<Longrightarrow> \<exists>v. r' = r\<lparr>isDiscard := v\<rparr>"
  by (auto simp: setDiscard_def CompareAndSwap_def Let_def split: if_splits intro: exI [of _ "isDiscard r"])

lemma consume_eq:
  assumes "consume x r = (y, r')"
  shows "dim_pointer y = dim_pointer x \<and> (\<exists>v. r' = r\<lparr>isDiscard := v,
    internal_discard_notifications := internal_discard_notifications r + (if dim_discard y then 1 else 0)\<rparr>)"
proof -
  have same: "r\<lparr>isDiscard := v, internal_discard_notifications := internal_discard_notifications r\<rparr> = r\<lparr>isDiscard := v\<rparr>" for v
    using field_same(3) [of "r\<lparr>isDiscard := v\<rparr>"] by simp
  show ?thesis
  proof (cases "backpressureStrategy r")
    case strategyDropOldest
    show ?thesis
    proof (cases "isDiscard r = 1")
      case True
      with assms strategyDropOldest have "y = x\<lparr>dim_discard := True\<rparr>"
        "r' = r\<lparr>isDiscard := 0, internal_discard_notifications := internal_discard_notifications r + 1\<rparr>"
        by (simp_all add: consume_def CompareAndSwap_def)
      then show ?thesis by (auto intro: exI [of _ 0])
    next
      case False
      with assms strategyDropOldest have y: "y = x\<lparr>dim_discard := False\<rparr>" and "r' = r"
        by (simp_all add: consume_def CompareAndSwap_def)
      then have "r' = r\<lparr>isDiscard := isDiscard r,
          internal_discard_notifications := internal_discard_notifications r + (if dim_discard y then 1 else 0)\<rparr>"
        using same [of "isDiscard r"] by simp
      moreover have "dim_pointer y = dim_pointer x" using y by simp
      ultimately show ?thesis by blast
    qed
  next
    case strategyDropLatest
    then have "y = x" "r' = r\<lparr>isDiscard := isDiscard r,
        internal_discard_notifications := internal_discard_notifications r + (if dim_discard x then 1 else 0)\<rparr>"
      using assms same [of "isDiscard r"] by (auto simp: consume_def Let_def)
    then show ?thesis by blast
  qed
qed

text \<open>The flag and the channel behind it agree, and are set only when the buffer is closed and empty.\<close>

definition empty_inv :: "'cb directMessageReceiverImpl \<Rightarrow> bool" where
  "empty_inv r \<longleftrightarrow> bufferEmptyOnTerminateFlag r = (if bufferEmptyOnTerminate r then 1 else 0) \<and>
     (bufferEmptyOnTerminate r \<longrightarrow> chan_closed (dr_buffer r) \<and> chan_items (dr_buffer r) = [])"

lemma notify_empty_eq:
  "empty_inv r \<Longrightarrow> notify_empty r = Return (r\<lparr>bufferEmptyOnTerminateFlag := 1, bufferEmptyOnTerminate := True\<rparr>)"
  using field_same(5,6) [of r]
  by (auto simp: empty_inv_def notify_empty_def CompareAndSwap_def signal_close_def)

lemma end_termination_eq:
  "end_termination n r = (err, r') \<Longrightarrow> err = (if n > 0 then Some (IncompleteReception n) else None) \<and>
     r' = r\<lparr>received_termination_discarded := received_termination_discarded r + n,
            dr_lifecycle := terminated err (dr_lifecycle r)\<rparr>"
  by (auto simp: end_termination_def Let_def split: if_splits)

lemma chan_sent: "chan_send x c = Return c' \<Longrightarrow>
    chan_items c' = chan_items c @ [x] \<and> chan_cap c' = chan_cap c \<and> \<not> chan_closed c' \<and> \<not> chan_closed c \<and>
    length (chan_items c) < chan_cap c"
  by (auto simp: chan_send_def split: if_splits)

lemma chan_full: "chan_send x c = Blocks \<Longrightarrow> \<not> chan_closed c"
  by (auto simp: chan_send_def split: if_splits)

lemma chan_panics: "chan_send x c = Panics p \<Longrightarrow> chan_closed c"
  by (auto simp: chan_send_def split: if_splits)

lemmas rx_chan = chan_sent chan_full chan_panics chan_recv_Some chan_recv_None [THEN iffD1] chan_recv_Blocks [THEN iffD1]

section \<open>The termination and the buffer\<close>

fun tm_closed :: "tm_pc \<Rightarrow> bool" where
  "tm_closed TmIdle = False"
| "tm_closed (TmSignal a) = False"
| "tm_closed (TmClose a) = False"
| "tm_closed pc = True"

fun tm_state :: "tm_pc \<Rightarrow> lifecycle_state" where
  "tm_state TmIdle = Started"
| "tm_state (TmDone err) = Terminated"
| "tm_state pc = Terminating"

fun tm_notified :: "tm_pc \<Rightarrow> bool option" where
  "tm_notified TmJoinTimeout = Some True"
| "tm_notified (TmDrain n) = Some True"
| "tm_notified (TmDone err) = None"
| "tm_notified pc = Some False"

fun tm_ended :: "tm_pc \<Rightarrow> bool" where
  "tm_ended TmJoin = True"
| "tm_ended (TmDone err) = True"
| "tm_ended pc = False"

definition phase_inv :: "'cb rx_sys \<Rightarrow> bool" where
  "phase_inv s \<longleftrightarrow> lc_state (dr_lifecycle (rx s)) = tm_state (tm_pc s) \<and>
     (chan_closed (dr_buffer (rx s)) \<longleftrightarrow> tm_closed (tm_pc s)) \<and>
     (bufferClosed (rx s) = 1 \<longrightarrow> tm_closed (tm_pc s)) \<and>
     tm_notified (tm_pc s) \<in> {None, Some (terminationNotification (rx s))} \<and>
     (terminationComplete (rx s) \<longleftrightarrow> run_pc s = RunDone)"

definition drained_inv :: "'cb rx_sys \<Rightarrow> bool" where
  "drained_inv s \<longleftrightarrow> empty_inv (rx s) \<and>
     (tm_ended (tm_pc s) \<longrightarrow> bufferEmptyOnTerminate (rx s)) \<and>
     (RcLen \<in> set (rc_pcs s) \<longrightarrow> chan_closed (dr_buffer (rx s))) \<and>
     (RcCAS \<in> set (rc_pcs s) \<longrightarrow> chan_closed (dr_buffer (rx s)) \<and> chan_items (dr_buffer (rx s)) = [])"

lemma phase_inv_init: "rx_started r \<Longrightarrow> phase_inv (rx_init n r)"
  by (auto simp: rx_started_def phase_inv_def rx_init_def direct_rx_construct_def make_chan_def)

lemma drained_inv_init: "rx_started r \<Longrightarrow> drained_inv (rx_init n r)"
  by (auto simp: rx_started_def drained_inv_def rx_init_def empty_inv_def direct_rx_construct_def make_chan_def)

lemma set_update_mem: "x \<in> set (xs[i := y]) \<Longrightarrow> x = y \<or> x \<in> set xs"
  by (meson insert_iff set_update_subset_insert subsetD)

lemma terminate_proceeds: "receiver_terminate l = (Proceed, l') \<Longrightarrow> lc_state l = Started \<and> lc_state l' = Terminating"
  by (auto simp: receiver_terminate_def terminate_def CompareAndSwap_def Let_def split: if_splits prod.splits)

text \<open>What the invariants see of the receiver when an operation is done.\<close>

lemma count_terminated_simps [simp]:
  "dr_buffer (count_terminated r) = dr_buffer r" "dr_lifecycle (count_terminated r) = dr_lifecycle r"
  "bufferClosed (count_terminated r) = bufferClosed r" "terminationNotification (count_terminated r) = terminationNotification r"
  "terminationComplete (count_terminated r) = terminationComplete r"
  "bufferEmptyOnTerminate (count_terminated r) = bufferEmptyOnTerminate r"
  "bufferEmptyOnTerminateFlag (count_terminated r) = bufferEmptyOnTerminateFlag r"
  "rxCallbackSet (count_terminated r) = rxCallbackSet r" "dr_rxCallback (count_terminated r) = dr_rxCallback r"
  "received_backpressure_discarded (count_terminated r) = received_backpressure_discarded r"
  "internal_discard_notifications (count_terminated r) = internal_discard_notifications r"
  "received_termination_discarded (count_terminated r) = Suc (received_termination_discarded r)"
  by (simp_all add: count_terminated_def)

lemma count_backpressure_simps [simp]:
  "bufferClosed (count_backpressure r) = bufferClosed r" "terminationNotification (count_backpressure r) = terminationNotification r"
  "terminationComplete (count_backpressure r) = terminationComplete r"
  "bufferEmptyOnTerminate (count_backpressure r) = bufferEmptyOnTerminate r"
  "bufferEmptyOnTerminateFlag (count_backpressure r) = bufferEmptyOnTerminateFlag r"
  "rxCallbackSet (count_backpressure r) = rxCallbackSet r" "dr_rxCallback (count_backpressure r) = dr_rxCallback r"
  "internal_discard_notifications (count_backpressure r) = internal_discard_notifications r"
  "received_termination_discarded (count_backpressure r) = received_termination_discarded r"
  by (simp_all add: count_backpressure_def)

lemma notify_empty_same:
  assumes "notify_empty r = Return r'"
  shows "\<exists>a b. r' = r\<lparr>bufferEmptyOnTerminateFlag := a, bufferEmptyOnTerminate := b\<rparr>"
proof (cases "bufferEmptyOnTerminateFlag r = 0")
  case False
  then have "r' = r" using assms by (simp add: notify_empty_def CompareAndSwap_def)
  then have "r' = r\<lparr>bufferEmptyOnTerminateFlag := bufferEmptyOnTerminateFlag r,
      bufferEmptyOnTerminate := bufferEmptyOnTerminate r\<rparr>" by simp
  then show ?thesis by blast
qed (use assms in \<open>auto simp: notify_empty_def CompareAndSwap_def outcome_bind_Return\<close>)

lemmas rx_op = setDiscard_eq consume_eq notify_empty_same end_termination_eq

lemma phase_frame:
  assumes "phase_inv s" and "lc_state (dr_lifecycle (rx s')) = lc_state (dr_lifecycle (rx s))"
    and "chan_closed (dr_buffer (rx s')) = chan_closed (dr_buffer (rx s))" and "bufferClosed (rx s') = bufferClosed (rx s)"
    and "terminationNotification (rx s') = terminationNotification (rx s)" and "tm_pc s' = tm_pc s"
    and "terminationComplete (rx s') \<longleftrightarrow> run_pc s' = RunDone"
  shows "phase_inv s'"
  using assms by (simp add: phase_inv_def)

lemma phase_complete: "phase_inv s \<Longrightarrow> terminationComplete (rx s) \<longleftrightarrow> run_pc s = RunDone"
  and phase_closed: "phase_inv s \<Longrightarrow> chan_closed (dr_buffer (rx s)) = tm_closed (tm_pc s)"
  and phase_flag: "phase_inv s \<Longrightarrow> bufferClosed (rx s) = Suc 0 \<Longrightarrow> tm_closed (tm_pc s)"
  and phase_state: "phase_inv s \<Longrightarrow> lc_state (dr_lifecycle (rx s)) = tm_state (tm_pc s)"
  by (simp_all add: phase_inv_def)

lemma op_frame:
  "setDiscard r = (d, r') \<Longrightarrow> dr_buffer r' = dr_buffer r \<and> bufferEmptyOnTerminateFlag r' = bufferEmptyOnTerminateFlag r \<and>
     bufferEmptyOnTerminate r' = bufferEmptyOnTerminate r \<and> dr_lifecycle r' = dr_lifecycle r \<and> bufferClosed r' = bufferClosed r \<and>
     terminationNotification r' = terminationNotification r \<and> terminationComplete r' = terminationComplete r"
  "consume x r = (y, r') \<Longrightarrow> dr_buffer r' = dr_buffer r \<and> bufferEmptyOnTerminateFlag r' = bufferEmptyOnTerminateFlag r \<and>
     bufferEmptyOnTerminate r' = bufferEmptyOnTerminate r \<and> dr_lifecycle r' = dr_lifecycle r \<and> bufferClosed r' = bufferClosed r \<and>
     terminationNotification r' = terminationNotification r \<and> terminationComplete r' = terminationComplete r"
  "notify_empty r = Return r' \<Longrightarrow> dr_buffer r' = dr_buffer r \<and> dr_lifecycle r' = dr_lifecycle r \<and>
     bufferClosed r' = bufferClosed r \<and> terminationNotification r' = terminationNotification r \<and>
     terminationComplete r' = terminationComplete r"
  by (auto dest!: setDiscard_eq consume_eq notify_empty_same)

lemma phase_inv_step: "rx_step s s' \<Longrightarrow> phase_inv s \<Longrightarrow> phase_inv s'"
proof (induction rule: rx_step.induct)
  case tm_start
  then show ?case by (auto simp: phase_inv_def dest!: terminate_proceeds)
next
  case (tm_signal s asked)
  then show ?case by (auto simp: phase_inv_def split: outcome.split)
next
  case tm_close
  then show ?case by (auto simp: phase_inv_def chan_close_def split: if_splits)
next
  case tm_flag
  then show ?case by (auto simp: phase_inv_def)
next
  case tm_len
  then show ?case by (auto simp: phase_inv_def dest!: op_frame(3) split: if_splits)
next
  case tm_timeout
  then show ?case by (auto simp: phase_inv_def signal_close_def split: if_splits)
next
  case tm_emptied
  then show ?case by (auto simp: phase_inv_def)
next
  case tm_notify
  then show ?case by (auto simp: phase_inv_def signal_close_def split: if_splits)
next
  case tm_join
  then show ?case by (auto simp: phase_inv_def terminated_def dest!: end_termination_eq)
next
  case tm_join_timeout
  then show ?case by (auto simp: phase_inv_def)
next
  case tm_drain
  then show ?case by (auto simp: phase_inv_def dest!: chan_recv_Some)
next
  case tm_drained
  then show ?case by (auto simp: phase_inv_def terminated_def dest!: end_termination_eq op_frame(3))
qed (rule phase_frame, assumption; auto simp: phase_complete dest!: rx_chan op_frame split: if_splits)+

lemma drained_frame:
  assumes "drained_inv s" and "bufferEmptyOnTerminateFlag (rx s') = bufferEmptyOnTerminateFlag (rx s)"
    and "bufferEmptyOnTerminate (rx s') = bufferEmptyOnTerminate (rx s)" and "dr_buffer (rx s') = dr_buffer (rx s)"
    and "rc_pcs s' = rc_pcs s" and "tm_pc s' = tm_pc s \<or> \<not> tm_ended (tm_pc s')"
  shows "drained_inv s'"
  using assms by (auto simp: drained_inv_def empty_inv_def)

lemma drained_inv_step: "rx_step s s' \<Longrightarrow> phase_inv s \<Longrightarrow> drained_inv s \<Longrightarrow> drained_inv s'"
proof (induction rule: rx_step.induct)
  case cb_push
  then show ?case
    by (auto simp: drained_inv_def empty_inv_def notify_empty_eq phase_closed chan_close_def chan_len_def
        dest!: rx_chan op_frame(2) end_termination_eq set_update_mem dest: phase_flag split: if_splits)
next
  case cb_drop_oldest
  then show ?case
    by (auto simp: drained_inv_def empty_inv_def notify_empty_eq phase_closed chan_close_def chan_len_def
        dest!: rx_chan op_frame(2) end_termination_eq set_update_mem dest: phase_flag split: if_splits)
next
  case cb_force
  then show ?case
    by (auto simp: drained_inv_def empty_inv_def notify_empty_eq phase_closed chan_close_def chan_len_def
        dest!: rx_chan op_frame(2) end_termination_eq set_update_mem dest: phase_flag split: if_splits)
next
  case run_take
  then show ?case
    by (auto simp: drained_inv_def empty_inv_def notify_empty_eq phase_closed chan_close_def chan_len_def
        dest!: rx_chan op_frame(2) end_termination_eq set_update_mem dest: phase_flag split: if_splits)
next
  case run_empty
  then show ?case
    by (auto simp: drained_inv_def empty_inv_def notify_empty_eq phase_closed chan_close_def chan_len_def
        dest!: rx_chan op_frame(2) end_termination_eq set_update_mem dest: phase_flag split: if_splits)
next
  case rc_call
  then show ?case
    by (auto simp: drained_inv_def empty_inv_def notify_empty_eq phase_closed chan_close_def chan_len_def
        dest!: rx_chan op_frame(2) end_termination_eq set_update_mem dest: phase_flag split: if_splits)
next
  case rc_take
  then show ?case
    by (auto simp: drained_inv_def empty_inv_def notify_empty_eq phase_closed chan_close_def chan_len_def
        dest!: rx_chan op_frame(2) end_termination_eq set_update_mem dest: phase_flag split: if_splits)
next
  case rc_none
  then show ?case
    by (auto simp: drained_inv_def empty_inv_def notify_empty_eq phase_closed chan_close_def chan_len_def
        dest!: rx_chan op_frame(2) end_termination_eq set_update_mem dest: phase_flag split: if_splits)
next
  case rc_consume
  then show ?case
    by (auto simp: drained_inv_def empty_inv_def notify_empty_eq phase_closed chan_close_def chan_len_def
        dest!: rx_chan op_frame(2) end_termination_eq set_update_mem dest: phase_flag split: if_splits)
next
  case rc_load
  then show ?case
    by (auto simp: drained_inv_def empty_inv_def notify_empty_eq phase_closed chan_close_def chan_len_def
        dest!: rx_chan op_frame(2) end_termination_eq set_update_mem dest: phase_flag split: if_splits)
next
  case rc_len
  then show ?case
    using nth_mem [OF rc_len(1)] by (auto simp: drained_inv_def empty_inv_def notify_empty_eq phase_closed chan_close_def chan_len_def
        dest!: rx_chan op_frame(2) end_termination_eq set_update_mem dest: phase_flag split: if_splits)
next
  case rc_notify
  then show ?case
    using nth_mem [OF rc_notify(1)] by (auto simp: drained_inv_def empty_inv_def notify_empty_eq phase_closed chan_close_def chan_len_def
        dest!: rx_chan op_frame(2) end_termination_eq set_update_mem dest: phase_flag split: if_splits)
next
  case tm_close
  then show ?case
    by (auto simp: drained_inv_def empty_inv_def notify_empty_eq phase_closed chan_close_def chan_len_def
        dest!: rx_chan op_frame(2) end_termination_eq set_update_mem dest: phase_flag split: if_splits)
next
  case tm_len
  then show ?case
    by (auto simp: drained_inv_def empty_inv_def notify_empty_eq phase_closed chan_close_def chan_len_def
        dest!: rx_chan op_frame(2) end_termination_eq set_update_mem dest: phase_flag split: if_splits)
next
  case tm_emptied
  then show ?case
    by (auto simp: drained_inv_def empty_inv_def notify_empty_eq phase_closed chan_close_def chan_len_def
        dest!: rx_chan op_frame(2) end_termination_eq set_update_mem dest: phase_flag split: if_splits)
next
  case tm_join
  then show ?case
    by (auto simp: drained_inv_def empty_inv_def notify_empty_eq phase_closed chan_close_def chan_len_def
        dest!: rx_chan op_frame(2) end_termination_eq set_update_mem dest: phase_flag split: if_splits)
next
  case tm_drain
  then show ?case
    by (auto simp: drained_inv_def empty_inv_def notify_empty_eq phase_closed chan_close_def chan_len_def
        dest!: rx_chan op_frame(2) end_termination_eq set_update_mem dest: phase_flag split: if_splits)
next
  case tm_drained
  then show ?case
    by (auto simp: drained_inv_def empty_inv_def notify_empty_eq phase_closed chan_close_def chan_len_def
        dest!: rx_chan op_frame(2) end_termination_eq set_update_mem dest: phase_flag split: if_splits)
qed (erule drained_frame; auto dest!: op_frame split: outcome.split)+

section \<open>The message callback\<close>

fun cb_msg :: "cb_pc \<Rightarrow> nat list" where
  "cb_msg CbIdle = []"
| "cb_msg (CbState m) = [m]"
| "cb_msg (CbDiscard m) = [m]"
| "cb_msg (CbPush x) = [dim_pointer x]"
| "cb_msg (CbFull x) = [dim_pointer x]"
| "cb_msg (CbMark x n) = [dim_pointer x]"
| "cb_msg (CbForce x discard n) = [dim_pointer x]"
| "cb_msg CbCount = []"

text \<open>Messages dropped in this call and not counted yet.\<close>

fun cb_pending :: "cb_pc \<Rightarrow> nat" where
  "cb_pending (CbMark x n) = n"
| "cb_pending (CbForce x discard n) = n"
| "cb_pending CbCount = 1"
| "cb_pending pc = 0"

fun cb_outside :: "cb_pc \<Rightarrow> bool" where
  "cb_outside CbIdle = True"
| "cb_outside (CbState m) = True"
| "cb_outside pc = False"

text \<open>
  Once the oldest message is dropped there is room for the new one, unless the buffer has been closed, and no other
  message comes in between. At most one message is dropped without being counted, by the call that the termination overtakes.
\<close>

fun cb_ok :: "directInboundMessage chan \<Rightarrow> cb_pc \<Rightarrow> bool" where
  "cb_ok c (CbMark x n) \<longleftrightarrow> (chan_closed c \<or> length (chan_items c) < chan_cap c \<and> n = 1) \<and> n \<le> 1"
| "cb_ok c (CbForce x discard n) \<longleftrightarrow> (chan_closed c \<or> length (chan_items c) < chan_cap c \<and> (discard \<longrightarrow> n = 1)) \<and>
     n \<le> 1 \<and> (\<not> discard \<longrightarrow> n = 0)"
| "cb_ok c pc \<longleftrightarrow> True"

definition cb_inv :: "'cb rx_sys \<Rightarrow> bool" where
  "cb_inv s \<longleftrightarrow> 0 < chan_cap (dr_buffer (rx s)) \<and>
     length (chan_items (dr_buffer (rx s))) \<le> chan_cap (dr_buffer (rx s)) \<and> cb_ok (dr_buffer (rx s)) (cb_pc s) \<and> uncounted s \<le> 1 \<and>
     (0 < uncounted s \<longrightarrow> chan_closed (dr_buffer (rx s)) \<and> cb_outside (cb_pc s))"

lemma cb_inv_init: "rx_started r \<Longrightarrow> cb_inv (rx_init n r)"
  by (auto simp: rx_started_def cb_inv_def rx_init_def direct_rx_construct_def make_chan_def)

lemma cb_ok_mono:
  "cb_ok c pc \<Longrightarrow> chan_cap c' = chan_cap c \<Longrightarrow> length (chan_items c') \<le> length (chan_items c) \<Longrightarrow>
     (chan_closed c \<longrightarrow> chan_closed c') \<Longrightarrow> cb_ok c' pc"
  by (cases pc) auto

lemma cb_frame:
  assumes "cb_inv s" and "chan_cap (dr_buffer (rx s')) = chan_cap (dr_buffer (rx s))"
    and "length (chan_items (dr_buffer (rx s'))) \<le> length (chan_items (dr_buffer (rx s)))"
    and "chan_closed (dr_buffer (rx s)) \<longrightarrow> chan_closed (dr_buffer (rx s'))" and "cb_pc s' = cb_pc s" and "uncounted s' = uncounted s"
  shows "cb_inv s'"
  using assms cb_ok_mono [of "dr_buffer (rx s)" "cb_pc s" "dr_buffer (rx s')"] by (auto simp: cb_inv_def)

lemma tm_closed_state: "tm_closed pc \<Longrightarrow> tm_state pc \<in> {Terminating, Terminated}"
  by (cases pc) auto

lemma cb_inv_step: "rx_step s s' \<Longrightarrow> phase_inv s \<Longrightarrow> cb_inv s \<Longrightarrow> cb_inv s'"
proof (induction rule: rx_step.induct)
  case cb_enter
  then show ?case by (auto simp: cb_inv_def)
next
  case cb_refuse
  then show ?case by (auto simp: cb_inv_def)
next
  case (cb_pass s m)
  then show ?case
    using tm_closed_state [of "tm_pc s"] by (auto simp: cb_inv_def phase_closed phase_state)
next
  case cb_discard
  then show ?case by (auto simp: cb_inv_def dest!: op_frame(1))
next
  case cb_push
  then show ?case by (auto simp: cb_inv_def dest!: chan_sent)
next
  case cb_push_closed
  then show ?case by (auto simp: cb_inv_def)
next
  case cb_push_full
  then show ?case by (auto simp: cb_inv_def)
next
  case cb_drop_latest
  then show ?case by (auto simp: cb_inv_def)
next
  case (cb_drop_oldest s x y c)
  then show ?case by (auto simp: cb_inv_def dest!: chan_recv_Some)
next
  case cb_drop_closed
  then show ?case by (auto simp: cb_inv_def chan_recv_None)
next
  case cb_drop_none
  then show ?case by (auto simp: cb_inv_def chan_recv_Blocks)
next
  case cb_mark
  then show ?case by (auto simp: cb_inv_def)
next
  case cb_force
  then show ?case by (auto simp: cb_inv_def dest!: chan_sent)
next
  case cb_force_closed
  then show ?case by (auto simp: cb_inv_def dest!: chan_panics)
next
  case cb_count
  then show ?case by (auto simp: cb_inv_def)
next
  case (tm_signal s asked)
  show ?case by (rule cb_frame [OF tm_signal(3)]) (auto split: outcome.split)
qed (rule cb_frame, assumption; auto simp: chan_close_def dest!: rx_chan op_frame end_termination_eq split: if_splits)+

section \<open>Signals\<close>

fun tm_signalled :: "tm_pc \<Rightarrow> bool" where
  "tm_signalled TmIdle = False"
| "tm_signalled (TmSignal asked) = False"
| "tm_signalled pc = True"

fun run_idle :: "run_pc \<Rightarrow> bool" where
  "run_idle RunWait = True"
| "run_idle RunDone = True"
| "run_idle pc = False"

text \<open>The goroutine that waits for a callback is told to go on or, after a termination has begun, at least to stop.\<close>

definition signal_inv :: "'cb rx_sys \<Rightarrow> bool" where
  "signal_inv s \<longleftrightarrow> chan_cap (rxCallbackSet (rx s)) = 1 \<and> \<not> chan_closed (rxCallbackSet (rx s)) \<and>
     (True \<in> set (chan_items (rxCallbackSet (rx s))) \<longrightarrow> dr_rxCallback (rx s) \<noteq> None) \<and>
     (\<not> run_idle (run_pc s) \<longrightarrow> dr_rxCallback (rx s) \<noteq> None) \<and>
     (tm_signalled (tm_pc s) \<and> run_pc s = RunWait \<longrightarrow> chan_items (rxCallbackSet (rx s)) \<noteq> [])"

lemma signal_inv_init: "rx_started r \<Longrightarrow> signal_inv (rx_init n r)"
  by (auto simp: rx_started_def signal_inv_def rx_init_def direct_rx_construct_def make_chan_def)

lemma signal_frame:
  assumes "signal_inv s" and "rxCallbackSet (rx s') = rxCallbackSet (rx s)" and "dr_rxCallback (rx s') = dr_rxCallback (rx s)"
    and "run_pc s' = run_pc s \<or> run_pc s' = RunDone \<or> \<not> run_idle (run_pc s) \<and> \<not> run_idle (run_pc s')"
    and "tm_signalled (tm_pc s') = tm_signalled (tm_pc s)"
  shows "signal_inv s'"
  using assms by (auto simp: signal_inv_def)

lemma op_signal:
  "setDiscard r = (d, r') \<Longrightarrow> rxCallbackSet r' = rxCallbackSet r \<and> dr_rxCallback r' = dr_rxCallback r"
  "consume x r = (y, r') \<Longrightarrow> rxCallbackSet r' = rxCallbackSet r \<and> dr_rxCallback r' = dr_rxCallback r"
  "notify_empty r = Return r' \<Longrightarrow> rxCallbackSet r' = rxCallbackSet r \<and> dr_rxCallback r' = dr_rxCallback r"
  "end_termination n r = (err, r') \<Longrightarrow> rxCallbackSet r' = rxCallbackSet r \<and> dr_rxCallback r' = dr_rxCallback r"
  by (auto dest!: rx_op)

lemma signal_inv_step: "rx_step s s' \<Longrightarrow> signal_inv s \<Longrightarrow> signal_inv s'"
proof (induction rule: rx_step.induct)
  case ra_set
  then show ?case by (auto simp: signal_inv_def)
next
  case ra_signal
  then show ?case by (auto simp: signal_inv_def dest!: chan_sent)
next
  case (run_told s cont c)
  then show ?case by (cases "chan_items c") (auto simp: signal_inv_def dest!: chan_recv_Some)
next
  case (tm_signal s asked)
  then show ?case by (auto simp: signal_inv_def chan_send_def split: if_splits)
qed (rule signal_frame, assumption; auto dest!: op_signal split: if_splits)+

section \<open>Accounting\<close>

abbreviation taken_by :: "taker set \<Rightarrow> 'cb rx_sys \<Rightarrow> nat list" where
  "taken_by ts s \<equiv> map fst (filter (\<lambda>(m, t). t \<in> ts) (taken s))"

text \<open>The buffer is first in, first out, and every message that arrived is accounted for.\<close>

definition fifo_inv :: "'cb rx_sys \<Rightarrow> bool" where
  "fifo_inv s \<longleftrightarrow> pushed s = map fst (taken s) @ pointers (rx s) \<and>
     mset (arrived s) = mset (pushed s) + mset (refused s) + mset (dropped_latest s) + mset (cb_msg (cb_pc s))"

text \<open>Messages enter the buffer in the order of arrival.\<close>

definition order_inv :: "'cb rx_sys \<Rightarrow> bool" where
  "order_inv s \<longleftrightarrow> subseq (pushed s @ cb_msg (cb_pc s)) (arrived s)"

lemma order_inv_init: "order_inv (rx_init n r)"
  by (simp add: order_inv_def rx_init_def)

lemma subseq_drop_last: "subseq (xs @ ys) zs \<Longrightarrow> subseq xs zs"
  by (meson prefixI prefix_imp_subseq subseq_order.trans)

lemma order_frame:
  "order_inv s \<Longrightarrow> pushed s' = pushed s \<Longrightarrow> arrived s' = arrived s \<Longrightarrow> cb_msg (cb_pc s') = cb_msg (cb_pc s) \<Longrightarrow>
     order_inv s'"
  by (simp add: order_inv_def)

lemma order_inv_step: "rx_step s s' \<Longrightarrow> order_inv s \<Longrightarrow> order_inv s'"
proof (induction rule: rx_step.induct)
  case cb_enter
  then show ?case by (auto simp: order_inv_def)
next
  case cb_refuse
  then show ?case by (auto simp: order_inv_def dest: subseq_drop_last)
next
  case cb_push
  then show ?case by (auto simp: order_inv_def)
next
  case cb_push_closed
  then show ?case by (auto simp: order_inv_def dest: subseq_drop_last)
next
  case cb_drop_latest
  then show ?case by (auto simp: order_inv_def dest: subseq_drop_last)
next
  case cb_force
  then show ?case by (auto simp: order_inv_def)
next
  case cb_force_closed
  then show ?case by (auto simp: order_inv_def dest: subseq_drop_last)
qed (rule order_frame, assumption; simp)+

lemma fifo_inv_init: "rx_started r \<Longrightarrow> fifo_inv (rx_init n r)"
  by (auto simp: rx_started_def fifo_inv_def rx_init_def direct_rx_construct_def make_chan_def)

lemma fifo_frame:
  assumes "fifo_inv s" and "map fst (taken s') @ pointers (rx s') = map fst (taken s) @ pointers (rx s)"
    and "pushed s' = pushed s" and "arrived s' = arrived s" and "refused s' = refused s"
    and "dropped_latest s' = dropped_latest s" and "cb_msg (cb_pc s') = cb_msg (cb_pc s)"
  shows "fifo_inv s'"
  using assms by (simp add: fifo_inv_def)

lemma fifo_inv_step: "rx_step s s' \<Longrightarrow> fifo_inv s \<Longrightarrow> fifo_inv s'"
proof (induction rule: rx_step.induct)
  case cb_enter
  then show ?case by (auto simp: fifo_inv_def)
next
  case cb_refuse
  then show ?case by (auto simp: fifo_inv_def)
next
  case cb_push
  then show ?case by (auto simp: fifo_inv_def dest!: chan_sent)
next
  case cb_push_closed
  then show ?case by (auto simp: fifo_inv_def)
next
  case cb_drop_latest
  then show ?case by (auto simp: fifo_inv_def)
next
  case cb_force
  then show ?case by (auto simp: fifo_inv_def dest!: chan_sent)
next
  case cb_force_closed
  then show ?case by (auto simp: fifo_inv_def)
next
  case (tm_signal s asked)
  show ?case by (rule fifo_frame [OF tm_signal(2)]) (auto split: outcome.split)
qed (rule fifo_frame, assumption; auto simp: chan_close_def dest!: rx_chan op_frame end_termination_eq split: if_splits)+

text \<open>What the metrics count, and the error that the termination returns.\<close>

fun tm_count :: "nat \<Rightarrow> nat \<Rightarrow> tm_pc \<Rightarrow> bool" where
  "tm_count counted drained (TmDrain n) \<longleftrightarrow> counted = 0 \<and> drained = n"
| "tm_count counted drained (TmDone err) \<longleftrightarrow>
     counted = drained \<and> err = (if drained > 0 then Some (IncompleteReception drained) else None)"
| "tm_count counted drained pc \<longleftrightarrow> counted = 0 \<and> drained = 0"

definition count_inv :: "'cb rx_sys \<Rightarrow> bool" where
  "count_inv s \<longleftrightarrow>
     received_backpressure_discarded (rx s) + cb_pending (cb_pc s) + uncounted s =
       length (dropped_latest s) + length (taken_by {TakenAsOldest} s) \<and>
     length (refused s) \<le> received_termination_discarded (rx s) \<and>
     tm_count (received_termination_discarded (rx s) - length (refused s)) (length (taken_by {TakenByDrain} s)) (tm_pc s)"

lemma count_inv_init: "rx_started r \<Longrightarrow> count_inv (rx_init n r)"
  by (auto simp: rx_started_def count_inv_def rx_init_def direct_rx_construct_def make_chan_def)

lemma count_frame:
  assumes "count_inv s" and "received_backpressure_discarded (rx s') = received_backpressure_discarded (rx s)"
    and "received_termination_discarded (rx s') = received_termination_discarded (rx s)"
    and "cb_pending (cb_pc s') = cb_pending (cb_pc s)" and "uncounted s' = uncounted s"
    and "dropped_latest s' = dropped_latest s" and "refused s' = refused s" and "tm_pc s' = tm_pc s"
    and "length (taken_by {TakenAsOldest} s') = length (taken_by {TakenAsOldest} s)"
    and "length (taken_by {TakenByDrain} s') = length (taken_by {TakenByDrain} s)"
  shows "count_inv s'"
  using assms by (simp add: count_inv_def)

lemma op_count:
  "setDiscard r = (d, r') \<Longrightarrow> received_backpressure_discarded r' = received_backpressure_discarded r \<and>
     received_termination_discarded r' = received_termination_discarded r"
  "consume x r = (y, r') \<Longrightarrow> received_backpressure_discarded r' = received_backpressure_discarded r \<and>
     received_termination_discarded r' = received_termination_discarded r"
  "notify_empty r = Return r' \<Longrightarrow> received_backpressure_discarded r' = received_backpressure_discarded r \<and>
     received_termination_discarded r' = received_termination_discarded r"
  by (auto dest!: rx_op)

lemma count_inv_step: "rx_step s s' \<Longrightarrow> cb_inv s \<Longrightarrow> count_inv s \<Longrightarrow> count_inv s'"
proof (induction rule: rx_step.induct)
  case cb_refuse
  then show ?case by (auto simp: count_inv_def Suc_diff_Suc)
next
  case cb_push_closed
  then show ?case by (auto simp: count_inv_def)
next
  case cb_drop_latest
  then show ?case by (auto simp: count_inv_def)
next
  case cb_drop_oldest
  then show ?case by (auto simp: count_inv_def)
next
  case cb_force
  then show ?case by (auto simp: count_inv_def cb_inv_def dest!: chan_sent)
next
  case cb_force_closed
  then show ?case by (auto simp: count_inv_def)
next
  case cb_count
  then show ?case by (auto simp: count_inv_def)
next
  case tm_start
  then show ?case by (auto simp: count_inv_def)
next
  case (tm_signal s asked)
  then show ?case by (auto simp: count_inv_def split: outcome.split)
next
  case tm_close
  then show ?case by (auto simp: count_inv_def)
next
  case tm_flag
  then show ?case by (auto simp: count_inv_def)
next
  case tm_len
  then show ?case by (auto simp: count_inv_def dest!: op_count(3) split: if_splits)
next
  case tm_timeout
  then show ?case by (auto simp: count_inv_def)
next
  case tm_emptied
  then show ?case by (auto simp: count_inv_def)
next
  case tm_notify
  then show ?case by (auto simp: count_inv_def)
next
  case tm_join
  then show ?case by (auto simp: count_inv_def dest!: end_termination_eq)
next
  case tm_join_timeout
  then show ?case by (auto simp: count_inv_def)
next
  case tm_drain
  then show ?case by (auto simp: count_inv_def)
next
  case tm_drained
  then show ?case by (auto simp: count_inv_def dest!: end_termination_eq op_count(3))
qed (rule count_frame, assumption; auto dest!: op_count split: if_splits)+

text \<open>What the application gets.\<close>

fun run_msg :: "run_pc \<Rightarrow> nat list" where
  "run_msg (RunGot x) = [dim_pointer x]"
| "run_msg pc = []"

fun rc_msg :: "rc_pc \<Rightarrow> nat list" where
  "rc_msg (RcGot x) = [dim_pointer x]"
| "rc_msg pc = []"

abbreviation in_hand :: "'cb rx_sys \<Rightarrow> nat list" where
  "in_hand s \<equiv> run_msg (run_pc s) @ concat (map rc_msg (rc_pcs s))"

definition app_inv :: "'cb rx_sys \<Rightarrow> bool" where
  "app_inv s \<longleftrightarrow> mset (taken_by {TakenByRun, TakenByReceive} s) = mset (map fst (delivered s)) + mset (in_hand s) \<and>
     internal_discard_notifications (rx s) = length (filter snd (delivered s))"

lemma app_inv_init: "rx_started r \<Longrightarrow> app_inv (rx_init n r)"
  by (induction n) (auto simp: rx_started_def app_inv_def rx_init_def direct_rx_construct_def make_chan_def)

lemma app_frame:
  assumes "app_inv s" and "internal_discard_notifications (rx s') = internal_discard_notifications (rx s)"
    and "taken_by {TakenByRun, TakenByReceive} s' = taken_by {TakenByRun, TakenByReceive} s" and "delivered s' = delivered s"
    and "mset (in_hand s') = mset (in_hand s)"
  shows "app_inv s'"
  using assms by (simp add: app_inv_def)

lemma concat_update:
  "i < length xs \<Longrightarrow>
     mset (concat (map f (xs[i := y]))) + mset (f (xs ! i)) = mset (concat (map f xs)) + mset (f y)"
proof (induction xs arbitrary: i)
  case (Cons x xs)
  then show ?case by (cases i) (simp_all add: ac_simps)
qed simp

lemma rc_update:
  "i < length xs \<Longrightarrow> rc_msg (xs ! i) = [] \<Longrightarrow>
     mset (concat (map rc_msg (xs[i := pc]))) = mset (concat (map rc_msg xs)) + mset (rc_msg pc)"
  using concat_update [of i xs rc_msg pc] by simp

lemma op_app:
  "setDiscard r = (d, r') \<Longrightarrow> internal_discard_notifications r' = internal_discard_notifications r"
  "notify_empty r = Return r' \<Longrightarrow> internal_discard_notifications r' = internal_discard_notifications r"
  "end_termination n r = (err, r') \<Longrightarrow> internal_discard_notifications r' = internal_discard_notifications r"
  by (auto dest!: rx_op)

lemma app_inv_step: "rx_step s s' \<Longrightarrow> signal_inv s \<Longrightarrow> app_inv s \<Longrightarrow> app_inv s'"
proof (induction rule: rx_step.induct)
  case run_take
  then show ?case by (auto simp: app_inv_def)
next
  case (run_consume s x y r)
  then have "dr_rxCallback (rx s) \<noteq> None" by (simp add: signal_inv_def)
  then show ?case using run_consume consume_eq [OF run_consume(2)] by (auto simp: app_inv_def)
next
  case (rc_take i s x c)
  then show ?case by (simp add: app_inv_def rc_update)
next
  case (rc_consume i s x y r)
  have "mset (concat (map rc_msg (rc_pcs s))) = add_mset (dim_pointer x) (mset (concat (map rc_msg ((rc_pcs s)[i := RcLoad]))))"
    using concat_update [OF rc_consume(1), of rc_msg RcLoad] rc_consume(2) by simp
  then show ?case using rc_consume consume_eq [OF rc_consume(3)] by (auto simp: app_inv_def)
next
  case (tm_signal s asked)
  then show ?case by (auto simp: app_inv_def split: outcome.split)
qed (rule app_frame, assumption; auto simp: rc_update dest!: op_app split: if_splits)+

section \<open>What holds in every run\<close>

definition rx_inv :: "'cb rx_sys \<Rightarrow> bool" where
  "rx_inv s \<longleftrightarrow> phase_inv s \<and> drained_inv s \<and> cb_inv s \<and> signal_inv s \<and> fifo_inv s \<and> order_inv s \<and> count_inv s \<and> app_inv s"

lemma rx_inv_init: "rx_started r \<Longrightarrow> rx_inv (rx_init n r)"
  by (simp add: rx_inv_def phase_inv_init drained_inv_init cb_inv_init signal_inv_init fifo_inv_init order_inv_init
      count_inv_init app_inv_init)

lemma rx_inv_step: "rx_step s s' \<Longrightarrow> rx_inv s \<Longrightarrow> rx_inv s'"
  unfolding rx_inv_def
  by (auto intro: phase_inv_step drained_inv_step cb_inv_step signal_inv_step fifo_inv_step order_inv_step
      count_inv_step app_inv_step)

lemma rx_inv_reachable: "rx_step\<^sup>*\<^sup>* (rx_init n r) s \<Longrightarrow> rx_started r \<Longrightarrow> rx_inv s"
  by (induction rule: rtranclp_induct) (auto simp: rx_inv_init intro: rx_inv_step)

lemma split_taken:
  "mset (map fst (taken s)) = mset (taken_by {TakenByRun, TakenByReceive} s) + mset (taken_by {TakenAsOldest} s) +
     mset (taken_by {TakenByDrain} s)"
proof -
  have "mset (map fst ts) = mset (map fst (filter (\<lambda>(m, t). t \<in> {TakenByRun, TakenByReceive}) ts)) +
      mset (map fst (filter (\<lambda>(m, t). t \<in> {TakenAsOldest}) ts)) +
      mset (map fst (filter (\<lambda>(m, t). t \<in> {TakenByDrain}) ts))" for ts :: "(nat \<times> taker) list"
  proof (induction ts)
    case (Cons p ts)
    then show ?case by (cases p, cases "snd p") auto
  qed simp
  then show ?thesis .
qed

text \<open>
  C4. Every message is accounted for, in every interleaving of the library's thread, the dispatching goroutine, any number of
  receiving goroutines and a termination. Messages enter the buffer in the order of their arrival and leave
  it in the order in which they entered. Each message that arrived is with the application, on its way there, in
  the buffer, in the hands of the callback, refused because of the termination, dropped because of back
  pressure, or discarded by the termination. The callback never blocks when it makes room for a new
  message. The metrics count what is dropped, but for one message at most, which the callback may drop
  while the termination closes the buffer.
\<close>

proposition direct_receiver_accounting:
  assumes "rx_started r" and "rx_step\<^sup>*\<^sup>* (rx_init n r) s"
  shows "pushed s = map fst (taken s) @ pointers (rx s) \<and> subseq (pushed s) (arrived s) \<and>
         mset (arrived s) = mset (map fst (delivered s)) + mset (in_hand s) + mset (pointers (rx s)) +
           mset (cb_msg (cb_pc s)) + mset (refused s) + mset (dropped_latest s) + mset (taken_by {TakenAsOldest} s) +
           mset (taken_by {TakenByDrain} s) \<and>
         (\<forall>x discard k. cb_pc s = CbForce x discard k \<longrightarrow> chan_send x (dr_buffer (rx s)) \<noteq> Blocks) \<and>
         received_backpressure_discarded (rx s) + cb_pending (cb_pc s) + uncounted s =
           length (dropped_latest s) + length (taken_by {TakenAsOldest} s) \<and>
         uncounted s \<le> 1 \<and> (0 < uncounted s \<longrightarrow> chan_closed (dr_buffer (rx s))) \<and>
         internal_discard_notifications (rx s) = length (filter snd (delivered s))"
proof -
  note inv = rx_inv_reachable [OF assms(2,1), unfolded rx_inv_def]
  have "mset (arrived s) = mset (map fst (delivered s)) + mset (in_hand s) + mset (pointers (rx s)) +
      mset (cb_msg (cb_pc s)) + mset (refused s) + mset (dropped_latest s) + mset (taken_by {TakenAsOldest} s) +
      mset (taken_by {TakenByDrain} s)"
    using inv split_taken [of s] by (simp add: fifo_inv_def app_inv_def)
  moreover have "chan_send x (dr_buffer (rx s)) \<noteq> Blocks" if "cb_pc s = CbForce x discard k" for x discard k
    using inv that by (auto simp: cb_inv_def chan_send_def)
  moreover have "subseq (pushed s) (arrived s)"
    using inv subseq_drop_last unfolding order_inv_def by blast
  ultimately show ?thesis
    using inv unfolding fifo_inv_def count_inv_def cb_inv_def app_inv_def by blast
qed

definition sample_started :: "string directMessageReceiverImpl" where
  "sample_started = (direct_rx_construct [] strategyDropOldest 1 None)\<lparr>dr_lifecycle := started None lifecycle_construct\<rparr>"

lemma rx_started_sample: "rx_started sample_started"
  unfolding rx_started_def sample_started_def
  by (rule exI [of _ "[]"], rule exI [of _ strategyDropOldest], rule exI [of _ 1], rule exI [of _ None], rule exI [of _ None],
      rule exI [of _ 0], rule exI [of _ 0], rule exI [of _ "started None lifecycle_construct"], rule exI [of _ False],
      rule exI [of _ "make_chan 1"])
    (simp add: started_def direct_rx_construct_def)

text \<open>
  C20. When a termination has ended, the buffer is closed and empty and the receiver is terminated. The error that it returns
  says how many messages were discarded, and is nil exactly when none was. Once the callback,
  the dispatching goroutine and the receiving goroutines have come to rest, the number of messages that arrived is the
  number delivered plus the two metrics of discarded messages, plus at most one.
\<close>

proposition direct_receiver_terminated:
  assumes "rx_started r" and "rx_step\<^sup>*\<^sup>* (rx_init n r) s" and "tm_pc s = TmDone err"
  shows "lc_state (dr_lifecycle (rx s)) = Terminated \<and> chan_closed (dr_buffer (rx s)) \<and> chan_items (dr_buffer (rx s)) = [] \<and>
         err = (if taken_by {TakenByDrain} s = [] then None
                else Some (IncompleteReception (length (taken_by {TakenByDrain} s)))) \<and>
         received_termination_discarded (rx s) = length (refused s) + length (taken_by {TakenByDrain} s) \<and>
         (cb_pc s = CbIdle \<and> run_idle (run_pc s) \<and> set (rc_pcs s) \<subseteq> {RcIdle} \<longrightarrow>
            length (arrived s) = length (delivered s) + received_termination_discarded (rx s) +
              received_backpressure_discarded (rx s) + uncounted s \<and> uncounted s \<le> 1)"
proof -
  note inv = rx_inv_reachable [OF assms(2,1), unfolded rx_inv_def]
  have ended: "lc_state (dr_lifecycle (rx s)) = Terminated" "chan_closed (dr_buffer (rx s))" "chan_items (dr_buffer (rx s)) = []"
    using inv assms(3) by (auto simp: phase_inv_def drained_inv_def empty_inv_def)
  have count: "received_termination_discarded (rx s) = length (refused s) + length (taken_by {TakenByDrain} s)"
      "err = (if taken_by {TakenByDrain} s = [] then None else Some (IncompleteReception (length (taken_by {TakenByDrain} s))))"
      "received_backpressure_discarded (rx s) + cb_pending (cb_pc s) + uncounted s =
         length (dropped_latest s) + length (taken_by {TakenAsOldest} s)" "uncounted s \<le> 1"
    using inv assms(3) by (auto simp: count_inv_def cb_inv_def)
  have "length (arrived s) = length (delivered s) + received_termination_discarded (rx s) +
      received_backpressure_discarded (rx s) + uncounted s"
    if rest: "cb_pc s = CbIdle" "run_idle (run_pc s)" "set (rc_pcs s) \<subseteq> {RcIdle}"
  proof -
    have none: "in_hand s = []" using rest(2,3) by (cases "run_pc s") auto
    have "size (mset (arrived s)) = size (mset (map fst (delivered s)) + mset (refused s) + mset (dropped_latest s) +
        mset (taken_by {TakenAsOldest} s) + mset (taken_by {TakenByDrain} s))"
      using inv rest(1) ended(3) split_taken [of s] none by (simp add: fifo_inv_def app_inv_def)
    then have "length (arrived s) = length (delivered s) + length (refused s) + length (dropped_latest s) +
        length (taken_by {TakenAsOldest} s) + length (taken_by {TakenByDrain} s)"
      by (simp only: size_union size_mset length_map)
    with count rest(1) show ?thesis by simp
  qed
  with ended count show ?thesis by blast
qed

section \<open>A message that nobody counts\<close>

text \<open>
  The run: a message fills the buffer, a second one finds it full, a down event closes the buffer, and only then does the
  callback drop the first message and fail to put in the second. The states of the run differ in these fields.
\<close>

record demo =
  d_cb :: "cb_pc"
  d_tm :: "tm_pc"
  d_run :: "run_pc"
  d_st :: "lifecycle_state"
  d_tf :: "futureError"
  d_items :: "directInboundMessage list"
  d_closed :: "bool"
  d_sig :: "bool list"
  d_disc :: "nat"
  d_bc :: "nat"
  d_ef :: "nat"
  d_emp :: "bool"
  d_notif :: "bool"
  d_comp :: "bool"
  d_td :: "nat"
  d_arr :: "nat list"
  d_pu :: "nat list"
  d_ta :: "(nat \<times> taker) list"
  d_ref :: "nat list"
  d_unc :: "nat"

definition demo_sys :: "demo \<Rightarrow> string rx_sys" where
  "demo_sys d =
     \<lparr>rx = \<lparr>dr_lifecycle = \<lparr>lc_state = d_st d, startFuture = future_Complete None NewFutureError, terminateFuture = d_tf d\<rparr>,
        dr_terminationListener = False, subscriptions = [], shareName = None,
        dr_buffer = \<lparr>chan_items = d_items d, chan_cap = 1, chan_closed = d_closed d\<rparr>, bufferClosed = d_bc d,
        backpressureStrategy = strategyDropOldest, bufferEmptyOnTerminateFlag = d_ef d, bufferEmptyOnTerminate = d_emp d,
        terminationNotification = d_notif d, terminationComplete = d_comp d,
        rxCallbackSet = \<lparr>chan_items = d_sig d, chan_cap = 1, chan_closed = False\<rparr>, dr_rxCallback = None, isDiscard = d_disc d,
        dr_dispatch = 0, terminationHandlerID = 0, received_termination_discarded = d_td d,
        received_backpressure_discarded = 0, internal_discard_notifications = 0\<rparr>,
      cb_pc = d_cb d, run_pc = d_run d, tm_pc = d_tm d, rc_pcs = [], arrived = d_arr d, pushed = d_pu d, taken = d_ta d, refused = d_ref d,
      dropped_latest = [], uncounted = d_unc d, delivered = []\<rparr>"

lemmas demo_ops = demo_sys_def chan_send_def chan_recv_def chan_close_def signal_close_def notify_empty_def CompareAndSwap_def
    end_termination_def receiver_terminate_def terminate_def setDiscard_def count_terminated_def terminated_def Let_def

lemma uncounted_run:
  "\<exists>s. rx_step\<^sup>*\<^sup>* (rx_init 0 sample_started) s \<and> tm_pc s = TmDone None \<and> cb_pc s = CbIdle \<and> run_pc s = RunDone \<and>
     rc_pcs s = [] \<and> arrived s = [1, 2] \<and> delivered s = [] \<and> uncounted s = 1 \<and>
     dr_buffer (rx s) = \<lparr>chan_items = [], chan_cap = 1, chan_closed = True\<rparr> \<and>
     received_termination_discarded (rx s) = 1 \<and> received_backpressure_discarded (rx s) = 0"
proof -
  let ?x = "\<lparr>dim_pointer = 1, dim_discard = False\<rparr>" and ?y = "\<lparr>dim_pointer = 2, dim_discard = False\<rparr>"
  let ?d0 = "\<lparr>d_cb = CbIdle, d_tm = TmIdle, d_run = RunWait, d_st = Started, d_tf = NewFutureError, d_items = [], d_closed =
      False, d_sig = [], d_disc = 0, d_bc = 0, d_ef = 0, d_emp = False, d_notif = False, d_comp = False, d_td = 0, d_arr =
      [], d_pu = [], d_ta = [], d_ref = [], d_unc = 0\<rparr>"
  let ?d1 = "?d0\<lparr>d_cb := CbState 1, d_arr := [1]\<rparr>"
  let ?d2 = "?d1\<lparr>d_cb := CbDiscard 1\<rparr>"
  let ?d3 = "?d2\<lparr>d_cb := CbPush ?x\<rparr>"
  let ?d4 = "?d3\<lparr>d_cb := CbIdle, d_items := [?x], d_pu := [1]\<rparr>"
  let ?d5 = "?d4\<lparr>d_cb := CbState 2, d_arr := [1, 2]\<rparr>"
  let ?d6 = "?d5\<lparr>d_cb := CbDiscard 2\<rparr>"
  let ?d7 = "?d6\<lparr>d_cb := CbPush ?y\<rparr>"
  let ?d8 = "?d7\<lparr>d_cb := CbFull ?y\<rparr>"
  let ?d9 = "?d8\<lparr>d_tm := TmSignal False, d_st := Terminating\<rparr>"
  let ?d10 = "?d9\<lparr>d_tm := TmClose False, d_sig := [False]\<rparr>"
  let ?d11 = "?d10\<lparr>d_tm := TmFlag False, d_closed := True\<rparr>"
  let ?d12 = "?d11\<lparr>d_cb := CbMark ?y 1, d_items := [], d_ta := [(1, TakenAsOldest)]\<rparr>"
  let ?d13 = "?d12\<lparr>d_cb := CbForce ?y True 1, d_disc := 1\<rparr>"
  let ?d14 = "?d13\<lparr>d_cb := CbIdle, d_ref := [2], d_td := 1, d_unc := 1\<rparr>"
  let ?d15 = "?d14\<lparr>d_tm := TmNotify, d_bc := 1\<rparr>"
  let ?d16 = "?d15\<lparr>d_tm := TmDrain 0, d_notif := True\<rparr>"
  let ?d17 = "?d16\<lparr>d_tm := TmDone None, d_st := Terminated, d_ef := 1, d_emp := True, d_tf := future_Complete None NewFutureError\<rparr>"
  let ?d18 = "?d17\<lparr>d_run := RunDone, d_sig := [], d_comp := True\<rparr>"
  have 1: "rx_step (demo_sys ?d0) (demo_sys ?d1)"
    using cb_enter [where s = "demo_sys ?d0" and m = "1"] by (simp add: demo_ops)
  have 2: "rx_step (demo_sys ?d1) (demo_sys ?d2)"
    using cb_pass [where s = "demo_sys ?d1" and m = "1"] by (simp add: demo_ops)
  have 3: "rx_step (demo_sys ?d2) (demo_sys ?d3)"
    using cb_discard [where s = "demo_sys ?d2" and m = "1" and d = "False"] by (simp add: demo_ops)
  have 4: "rx_step (demo_sys ?d3) (demo_sys ?d4)"
    using cb_push [where s = "demo_sys ?d3" and x = "?x"] by (simp add: demo_ops)
  have 5: "rx_step (demo_sys ?d4) (demo_sys ?d5)"
    using cb_enter [where s = "demo_sys ?d4" and m = "2"] by (simp add: demo_ops)
  have 6: "rx_step (demo_sys ?d5) (demo_sys ?d6)"
    using cb_pass [where s = "demo_sys ?d5" and m = "2"] by (simp add: demo_ops)
  have 7: "rx_step (demo_sys ?d6) (demo_sys ?d7)"
    using cb_discard [where s = "demo_sys ?d6" and m = "2" and d = "False"] by (simp add: demo_ops)
  have 8: "rx_step (demo_sys ?d7) (demo_sys ?d8)"
    using cb_push_full [where s = "demo_sys ?d7" and x = "?y"] by (simp add: demo_ops)
  have 9: "rx_step (demo_sys ?d8) (demo_sys ?d9)"
    using tm_start [where s = "demo_sys ?d8" and asked = "False"] by (simp add: demo_ops)
  have 10: "rx_step (demo_sys ?d9) (demo_sys ?d10)"
    using tm_signal [where s = "demo_sys ?d9" and asked = "False"] by (simp add: demo_ops)
  have 11: "rx_step (demo_sys ?d10) (demo_sys ?d11)"
    using tm_close [where s = "demo_sys ?d10" and asked = "False"] by (simp add: demo_ops)
  have 12: "rx_step (demo_sys ?d11) (demo_sys ?d12)"
    using cb_drop_oldest [where s = "demo_sys ?d11" and x = "?y" and y = "?x"] by (simp add: demo_ops)
  have 13: "rx_step (demo_sys ?d12) (demo_sys ?d13)"
    using cb_mark [where s = "demo_sys ?d12" and x = "?y" and n = "1"] by (simp add: demo_ops)
  have 14: "rx_step (demo_sys ?d13) (demo_sys ?d14)"
    using cb_force_closed [where s = "demo_sys ?d13" and x = "?y" and n = "1" and discard = "True"] by (simp add: demo_ops)
  have 15: "rx_step (demo_sys ?d14) (demo_sys ?d15)"
    using tm_flag [where s = "demo_sys ?d14" and asked = "False"] by (simp add: demo_ops)
  have 16: "rx_step (demo_sys ?d15) (demo_sys ?d16)"
    using tm_notify [where s = "demo_sys ?d15" and b = "True"] by (simp add: demo_ops)
  have 17: "rx_step (demo_sys ?d16) (demo_sys ?d17)"
    using tm_drained [where s = "demo_sys ?d16" and n = "0" and err = "None"] by (simp add: demo_ops)
  have 18: "rx_step (demo_sys ?d17) (demo_sys ?d18)"
    using run_told [where s = "demo_sys ?d17" and cont = "False"] by (simp add: demo_ops)
  have "rx_init 0 sample_started = demo_sys ?d0"
    by (simp add: demo_sys_def rx_init_def sample_started_def direct_rx_construct_def started_def lifecycle_construct_def make_chan_def)
  moreover have "rx_step\<^sup>*\<^sup>* (demo_sys ?d0) (demo_sys ?d18)"
    by (rule converse_rtranclp_into_rtranclp, rule 1, rule converse_rtranclp_into_rtranclp, rule 2, rule converse_rtranclp_into_rtranclp, rule 3, rule converse_rtranclp_into_rtranclp, rule 4, rule converse_rtranclp_into_rtranclp, rule 5, rule converse_rtranclp_into_rtranclp, rule 6, rule converse_rtranclp_into_rtranclp, rule 7, rule converse_rtranclp_into_rtranclp, rule 8, rule converse_rtranclp_into_rtranclp, rule 9, rule converse_rtranclp_into_rtranclp, rule 10, rule converse_rtranclp_into_rtranclp, rule 11, rule converse_rtranclp_into_rtranclp, rule 12, rule converse_rtranclp_into_rtranclp, rule 13, rule converse_rtranclp_into_rtranclp, rule 14, rule converse_rtranclp_into_rtranclp, rule 15, rule converse_rtranclp_into_rtranclp, rule 16, rule converse_rtranclp_into_rtranclp, rule 17, rule converse_rtranclp_into_rtranclp, rule 18) simp
  ultimately show ?thesis by (intro exI [of _ "demo_sys ?d18"]) (simp add: demo_sys_def)
qed

text \<open>
  The one message that the accounting leaves open exists. In the run given, two messages arrive, a down event terminates the receiver,
  the application gets nothing, and in the end everything is at rest: the termination reports no discarded
  message, the metrics count one, and the other was dropped without a trace.
\<close>

proposition dropped_message_not_counted:
  "\<exists>s. rx_step\<^sup>*\<^sup>* (rx_init 0 sample_started) s \<and> tm_pc s = TmDone None \<and> cb_pc s = CbIdle \<and> run_pc s = RunDone \<and>
     arrived s = [1, 2] \<and> delivered s = [] \<and> dr_buffer (rx s) = \<lparr>chan_items = [], chan_cap = 1, chan_closed = True\<rparr> \<and>
     received_termination_discarded (rx s) + received_backpressure_discarded (rx s) = 1"
proof -
  obtain s where "rx_step\<^sup>*\<^sup>* (rx_init 0 sample_started) s" "tm_pc s = TmDone None" "cb_pc s = CbIdle" "run_pc s = RunDone"
      "arrived s = [1, 2]" "delivered s = []" "dr_buffer (rx s) = \<lparr>chan_items = [], chan_cap = 1, chan_closed = True\<rparr>"
      "received_termination_discarded (rx s) = 1" "received_backpressure_discarded (rx s) = 0"
    using uncounted_run by blast
  then show ?thesis by (intro exI [of _ s]) simp
qed

theorem direct_receiver_accounting_witness:
  "\<exists>s. rx_step\<^sup>*\<^sup>* (rx_init 0 sample_started) s \<and> arrived s = [1, 2] \<and> uncounted s = 1 \<and> subseq (pushed s) [1, 2] \<and>
     received_backpressure_discarded (rx s) + cb_pending (cb_pc s) + 1 =
       length (dropped_latest s) + length (taken_by {TakenAsOldest} s)"
proof -
  obtain s where s: "rx_step\<^sup>*\<^sup>* (rx_init 0 sample_started) s" "arrived s = [1, 2]" "uncounted s = 1"
    using uncounted_run by blast
  from direct_receiver_accounting [OF rx_started_sample s(1), unfolded s(2,3)] s show ?thesis by blast
qed

theorem direct_receiver_terminated_witness:
  "\<exists>s. rx_step\<^sup>*\<^sup>* (rx_init 0 sample_started) s \<and> tm_pc s = TmDone None \<and> lc_state (dr_lifecycle (rx s)) = Terminated \<and>
     2 = length (delivered s) + received_termination_discarded (rx s) + received_backpressure_discarded (rx s) + 1"
proof -
  obtain s where s: "rx_step\<^sup>*\<^sup>* (rx_init 0 sample_started) s" "tm_pc s = TmDone None" "cb_pc s = CbIdle" "run_pc s = RunDone"
      "rc_pcs s = []" "arrived s = [1, 2]" "uncounted s = 1"
    using uncounted_run by blast
  from direct_receiver_terminated [OF rx_started_sample s(1,2)] s show ?thesis by (intro exI [of _ s]) simp
qed

section \<open>A termination ends\<close>

fun run_rank :: "run_pc \<Rightarrow> nat" where
  "run_rank RunWait = 6"
| "run_rank (RunGot x) = 5"
| "run_rank (RunCall x) = 4"
| "run_rank RunCheck = 3"
| "run_rank RunSelect = 2"
| "run_rank RunDone = 0"

fun tm_rank :: "tm_pc \<Rightarrow> nat" where
  "tm_rank TmIdle = 9"
| "tm_rank (TmSignal asked) = 8"
| "tm_rank (TmClose asked) = 7"
| "tm_rank (TmFlag asked) = 6"
| "tm_rank (TmLen asked) = 5"
| "tm_rank TmNotify = 5"
| "tm_rank TmWait = 4"
| "tm_rank TmJoin = 3"
| "tm_rank TmJoinTimeout = 3"
| "tm_rank (TmDrain n) = 2"
| "tm_rank (TmDone err) = 0"

definition rx_measure :: "'cb rx_sys \<Rightarrow> nat" where
  "rx_measure s = 4 * length (chan_items (dr_buffer (rx s))) + run_rank (run_pc s) + tm_rank (tm_pc s)"

lemma measure_closed_step: "rx_step s s' \<Longrightarrow> chan_closed (dr_buffer (rx s)) \<Longrightarrow> rx_measure s' \<le> rx_measure s"
  by (induction rule: rx_step.induct;
      auto simp: rx_measure_def chan_close_def dest!: rx_chan op_frame end_termination_eq split: if_splits outcome.splits)

text \<open>The dispatching goroutine is never stuck while a termination waits for it.\<close>

lemma run_progress:
  assumes "rx_inv s" and "tm_signalled (tm_pc s)" and "chan_closed (dr_buffer (rx s))" and "run_pc s \<noteq> RunDone"
  shows "\<exists>s'. rx_step s s' \<and> rx_measure s' < rx_measure s"
proof (cases "run_pc s")
  case RunWait
  then have "chan_items (rxCallbackSet (rx s)) \<noteq> []" using assms by (simp add: rx_inv_def signal_inv_def)
  then obtain cont c where "chan_recv (rxCallbackSet (rx s)) = Return (Some cont, c)"
    by (cases "chan_items (rxCallbackSet (rx s))") (auto simp: chan_recv_def)
  from run_told [OF RunWait this] show ?thesis by (intro exI conjI) (assumption, simp add: rx_measure_def RunWait)
next
  case RunCheck
  then show ?thesis
    using run_check [OF RunCheck] run_stop [of s] by (cases "terminationNotification (rx s)") (force simp: rx_measure_def)+
next
  case RunSelect
  have ok: "empty_inv (rx s)" using assms(1) by (simp add: rx_inv_def drained_inv_def)
  obtain x c where recv: "chan_recv (dr_buffer (rx s)) = Return (x, c)"
    using assms(3) by (cases "chan_items (dr_buffer (rx s))") (auto simp: chan_recv_def)
  show ?thesis
  proof (cases x)
    case None
    with run_empty [OF RunSelect, of c] recv notify_empty_eq [OF ok] show ?thesis
      by (force simp: rx_measure_def RunSelect)
  next
    case (Some y)
    with run_take [OF RunSelect, of y c] recv show ?thesis
      by (force simp: rx_measure_def RunSelect dest: chan_recv_Some)
  qed
next
  case (RunGot x)
  obtain y r where "consume x (rx s) = (y, r)" by fastforce
  from run_consume [OF RunGot this] op_frame(2) [OF this] show ?thesis
    by (intro exI conjI) (assumption, simp add: rx_measure_def RunGot)
next
  case (RunCall x)
  from run_called [OF RunCall] show ?thesis by (force simp: rx_measure_def RunCall)
qed (use assms(4) in simp)

lemma termination_progress:
  assumes "rx_inv s" and "tm_pc s \<noteq> TmIdle" and "\<nexists>err. tm_pc s = TmDone err"
  shows "\<exists>s'. rx_step s s' \<and> rx_measure s' < rx_measure s"
proof -
  have inv: "phase_inv s" "empty_inv (rx s)" using assms(1) by (simp_all add: rx_inv_def drained_inv_def)
  note empty = notify_empty_eq [OF inv(2)]
  have closed: "chan_closed (dr_buffer (rx s))" if "tm_closed (tm_pc s)" using phase_closed [OF inv(1)] that by simp
  show ?thesis
  proof (cases "tm_pc s")
    case (TmSignal asked)
    from tm_signal [OF this] show ?thesis
      by (intro exI conjI) (assumption, simp add: rx_measure_def TmSignal split: outcome.split)
  next
    case (TmClose asked)
    then have "chan_close (dr_buffer (rx s)) = Return ((dr_buffer (rx s))\<lparr>chan_closed := True\<rparr>)"
      using phase_closed [OF inv(1)] by (simp add: chan_close_def)
    from tm_close [OF TmClose this] show ?thesis by (intro exI conjI) (assumption, simp add: rx_measure_def TmClose)
  next
    case (TmFlag asked)
    from tm_flag [OF this] show ?thesis by (intro exI conjI) (assumption, simp add: rx_measure_def TmFlag)
  next
    case (TmLen asked)
    obtain r where r: "(if chan_len (dr_buffer (rx s)) = 0 then notify_empty (rx s) else Return (rx s)) = Return r"
        "dr_buffer r = dr_buffer (rx s)"
      using empty by (cases "chan_len (dr_buffer (rx s)) = 0") auto
    from tm_len [OF TmLen r(1)] r(2) show ?thesis by (intro exI conjI) (assumption, simp add: rx_measure_def TmLen)
  next
    case TmWait
    then have "signal_close (terminationNotification (rx s)) = Return True"
      using inv(1) by (simp add: phase_inv_def signal_close_def)
    from tm_timeout [OF TmWait this] show ?thesis by (intro exI conjI) (assumption, simp add: rx_measure_def TmWait)
  next
    case TmNotify
    then have "signal_close (terminationNotification (rx s)) = Return True"
      using inv(1) by (simp add: phase_inv_def signal_close_def)
    from tm_notify [OF TmNotify this] show ?thesis by (intro exI conjI) (assumption, simp add: rx_measure_def TmNotify)
  next
    case TmJoin
    obtain err r where "end_termination 0 (rx s) = (err, r)" by fastforce
    with tm_join [OF TmJoin _ this] end_termination_eq [OF this] phase_complete [OF inv(1)] show ?thesis
      using run_progress [OF assms(1)] closed by (cases "run_pc s = RunDone") (force simp: rx_measure_def TmJoin)+
  next
    case TmJoinTimeout
    with tm_join_timeout [OF TmJoinTimeout] phase_complete [OF inv(1)] show ?thesis
      using run_progress [OF assms(1)] closed by (cases "run_pc s = RunDone") (force simp: rx_measure_def)+
  next
    case (TmDrain n)
    obtain x c where recv: "chan_recv (dr_buffer (rx s)) = Return (x, c)"
      using closed TmDrain by (cases "chan_items (dr_buffer (rx s))") (auto simp: chan_recv_def)
    obtain err r where e: "end_termination n ((rx s)\<lparr>bufferEmptyOnTerminateFlag := 1, bufferEmptyOnTerminate := True\<rparr>) = (err, r)"
      by fastforce
    show ?thesis
    proof (cases x)
      case None
      from tm_drained [OF TmDrain recv [unfolded None] empty e] end_termination_eq [OF e] show ?thesis
        by (intro exI conjI) (assumption, simp add: rx_measure_def TmDrain)
    next
      case (Some y)
      from tm_drain [OF TmDrain recv [unfolded Some]] chan_recv_Some [OF recv [unfolded Some]] show ?thesis
        by (intro exI conjI) (assumption, simp add: rx_measure_def TmDrain)
    qed
  qed (use assms(2,3) in auto)
qed

text \<open>
  C24. The part of a termination that empties the buffer ends, if the callbacks of the application return. It begins when
  \<^verbatim>\<open>cleanupSubscriptions\<close> has returned and ends before \<^verbatim>\<open>teardownCache\<close>; those two wait for confirmations of the broker and for the
  polling goroutine of the cache and can block, which is outside the statement. From every state between the two, some goroutine can take a step that
  brings the termination closer to the end, and after the buffer is closed no step of anybody takes it further away; so after at most as many such
  steps as the measure says it is over. In particular no channel is closed twice, and the goroutine that the termination waits for
  is never stuck. The timer may fire at any time after the wait has begun: in the code it is armed for every grace period, and
  for a negative one it fires at once, although the documentation says that \<^verbatim>\<open>Terminate\<close> then waits without limit.
\<close>

proposition direct_receiver_termination_ends:
  assumes "rx_started r" and "rx_step\<^sup>*\<^sup>* (rx_init n r) s"
  shows "(tm_pc s \<noteq> TmIdle \<longrightarrow> (\<exists>err. tm_pc s = TmDone err) \<or> (\<exists>s'. rx_step s s' \<and> rx_measure s' < rx_measure s)) \<and>
         (\<forall>s'. chan_closed (dr_buffer (rx s)) \<and> rx_step s s' \<longrightarrow> rx_measure s' \<le> rx_measure s) \<and>
         (chan_closed (dr_buffer (rx s)) \<longrightarrow>
            (\<exists>s' err. rx_step\<^sup>*\<^sup>* s s' \<and> tm_pc s' = TmDone err))"
proof -
  have inv: "rx_inv s" by (rule rx_inv_reachable [OF assms(2,1)])
  have "\<exists>s' err. rx_step\<^sup>*\<^sup>* s s' \<and> tm_pc s' = TmDone err" if "rx_inv s" "tm_pc s \<noteq> TmIdle" for s :: "'a rx_sys"
    using that
  proof (induction "rx_measure s" arbitrary: s rule: less_induct)
    case less
    show ?case
    proof (cases "\<exists>err. tm_pc s = TmDone err")
      case False
      from termination_progress [OF less.prems False] obtain s1 where s1: "rx_step s s1" "rx_measure s1 < rx_measure s" by blast
      moreover have "tm_pc s1 \<noteq> TmIdle" using s1(1) less.prems(2) by (induction rule: rx_step.induct) auto
      ultimately obtain s' err where "rx_step\<^sup>*\<^sup>* s1 s'" "tm_pc s' = TmDone err"
        using less.hyps [OF s1(2)] rx_inv_step [OF s1(1) less.prems(1)] by blast
      with s1(1) show ?thesis by (meson converse_rtranclp_into_rtranclp)
    qed blast
  qed
  moreover have "tm_pc s \<noteq> TmIdle" if "chan_closed (dr_buffer (rx s))"
    using phase_closed [of s] inv that by (auto simp: rx_inv_def)
  ultimately show ?thesis using inv termination_progress [OF inv] measure_closed_step by blast
qed

theorem direct_receiver_termination_ends_witness:
  "\<exists>s err. rx_step\<^sup>*\<^sup>* (rx_init 0 sample_started) s \<and> tm_pc s = TmDone err"
proof -
  obtain s where s: "rx_step\<^sup>*\<^sup>* (rx_init 0 sample_started) s" "chan_closed (dr_buffer (rx s))"
    using uncounted_run by force
  from direct_receiver_termination_ends [OF rx_started_sample s(1)] s show ?thesis by (meson rtranclp_trans)
qed

end
