(* ===== verification/Cache_Requests.thy ===== *)
theory Cache_Requests
  imports Direct_Receiver Go_Strconv
begin

text \<open>
  Cache requests of a direct receiver: the request object (\<^verbatim>\<open>pkg/solace/resource/destination.go\<close>,
  \<^verbatim>\<open>internal/impl/core/cache_request.go\<close>, \<^verbatim>\<open>message_filter.go\<close>), the operations of the core receiver on it
  (\<^verbatim>\<open>cache_requestor.go\<close>), the treatment of the event that ends a request (\<^verbatim>\<open>cache_response.go\<close>) and the part
  of the binding that keeps state in Go (\<^verbatim>\<open>internal/ccsmp/ccsmp_cache.go\<close>).

  A cache session is its pointer, a number; a message filter likewise. What the C library answers is an
  argument; the calls made into it are recorded in a list. The event callback of a session is always the
  closure that sends to the response channel of its receiver, so the global map of callbacks keeps only its
  keys. A processor is the number of the request call it belongs to, with the way its response travels.
  What the goroutines do with these operations is the subject of the theory \<open>Cache_Concurrency\<close>.
\<close>

section \<open>Requests\<close>

definition CacheRequestStrategyAsAvailable :: int where "CacheRequestStrategyAsAvailable = 0"
definition CacheRequestStrategyLiveCancelsCached :: int where "CacheRequestStrategyLiveCancelsCached = 1"
definition CacheRequestStrategyCachedFirst :: int where "CacheRequestStrategyCachedFirst = 2"
definition CacheRequestStrategyCachedOnly :: int where "CacheRequestStrategyCachedOnly = 3"

lemmas strategy_defs = CacheRequestStrategyAsAvailable_def CacheRequestStrategyLiveCancelsCached_def
  CacheRequestStrategyCachedFirst_def CacheRequestStrategyCachedOnly_def

record cachedMessageSubscriptionRequest =
  cacheName :: string
  cr_subscription :: "string option"
  cacheAccessTimeout :: u32
  maxCachedMessages :: u32
  cachedMessageAge :: u32
  cachedMessageSubscriptionStrategy :: "int option"

definition cached_GetName :: "cachedMessageSubscriptionRequest \<Rightarrow> string" where
  "cached_GetName request = (case cr_subscription request of None \<Rightarrow> [] | Some topic \<Rightarrow> topic)"

definition NewCachedMessageSubscriptionRequest ::
  "int \<Rightarrow> string \<Rightarrow> string option \<Rightarrow> u32 \<Rightarrow> u32 \<Rightarrow> u32 \<Rightarrow> cachedMessageSubscriptionRequest" where
  "NewCachedMessageSubscriptionRequest strategy name subscription timeout maxMessages age =
     \<lparr>cacheName = name, cr_subscription = subscription, cacheAccessTimeout = timeout,
      maxCachedMessages = maxMessages, cachedMessageAge = age,
      cachedMessageSubscriptionStrategy =
        (if strategy \<in> {CacheRequestStrategyAsAvailable, CacheRequestStrategyCachedFirst,
                        CacheRequestStrategyCachedOnly, CacheRequestStrategyLiveCancelsCached}
         then Some strategy else None)\<rparr>"

text \<open>The properties a cache session is created with.\<close>

definition SolClientCacheSessionPropCacheName :: string where
  "SolClientCacheSessionPropCacheName = ''CACHESESSION_CACHE_NAME''"

definition SolClientCacheSessionPropMaxMsgs :: string where
  "SolClientCacheSessionPropMaxMsgs = ''CACHESESSION_MAX_MSGS''"

definition SolClientCacheSessionPropMaxAge :: string where
  "SolClientCacheSessionPropMaxAge = ''CACHESESSION_MAX_AGE''"

definition SolClientCacheSessionPropRequestreplyTimeoutMs :: string where
  "SolClientCacheSessionPropRequestreplyTimeoutMs = ''CACHESESSION_RR_TIMEOUT_MS''"

definition ConvertCachedMessageSubscriptionRequestToCcsmpPropsList ::
  "cachedMessageSubscriptionRequest \<Rightarrow> string list" where
  "ConvertCachedMessageSubscriptionRequestToCcsmpPropsList request =
     [SolClientCacheSessionPropCacheName, cacheName request,
      SolClientCacheSessionPropMaxAge, print_int (sint (cachedMessageAge request)),
      SolClientCacheSessionPropMaxMsgs, print_int (sint (maxCachedMessages request)),
      SolClientCacheSessionPropRequestreplyTimeoutMs, print_int (sint (cacheAccessTimeout request))]"

text \<open>
  The flags of each strategy. A Go map gives the zero value for a missing key. The values of the flags are
  those of \<^verbatim>\<open>solCache.h\<close> and \<^verbatim>\<open>solClient.h\<close>.
\<close>

definition CACHEREQUEST_FLAGS_LIVEDATA_FULFILL :: u32 where "CACHEREQUEST_FLAGS_LIVEDATA_FULFILL = 0x02"
definition CACHEREQUEST_FLAGS_LIVEDATA_QUEUE :: u32 where "CACHEREQUEST_FLAGS_LIVEDATA_QUEUE = 0x04"
definition CACHEREQUEST_FLAGS_LIVEDATA_FLOWTHRU :: u32 where "CACHEREQUEST_FLAGS_LIVEDATA_FLOWTHRU = 0x08"
definition CACHEREQUEST_FLAGS_NOWAIT_REPLY :: u32 where "CACHEREQUEST_FLAGS_NOWAIT_REPLY = 0x10"
definition SUBSCRIBE_FLAGS_REQUEST_CONFIRM :: u32 where "SUBSCRIBE_FLAGS_REQUEST_CONFIRM = 0x10"
definition SUBSCRIBE_FLAGS_LOCAL_DISPATCH_ONLY :: u32 where "SUBSCRIBE_FLAGS_LOCAL_DISPATCH_ONLY = 0x08"

lemmas flag_defs = CACHEREQUEST_FLAGS_LIVEDATA_FULFILL_def CACHEREQUEST_FLAGS_LIVEDATA_QUEUE_def
  CACHEREQUEST_FLAGS_LIVEDATA_FLOWTHRU_def CACHEREQUEST_FLAGS_NOWAIT_REPLY_def
  SUBSCRIBE_FLAGS_REQUEST_CONFIRM_def SUBSCRIBE_FLAGS_LOCAL_DISPATCH_ONLY_def

unbundle bit_operations_syntax

definition StrategyMappingToCCSMPCacheRequestFlags :: "(int \<times> u32) list" where
  "StrategyMappingToCCSMPCacheRequestFlags =
     [(CacheRequestStrategyAsAvailable, CACHEREQUEST_FLAGS_LIVEDATA_FLOWTHRU OR CACHEREQUEST_FLAGS_NOWAIT_REPLY),
      (CacheRequestStrategyLiveCancelsCached, CACHEREQUEST_FLAGS_LIVEDATA_FULFILL OR CACHEREQUEST_FLAGS_NOWAIT_REPLY),
      (CacheRequestStrategyCachedFirst, CACHEREQUEST_FLAGS_LIVEDATA_QUEUE OR CACHEREQUEST_FLAGS_NOWAIT_REPLY),
      (CacheRequestStrategyCachedOnly, CACHEREQUEST_FLAGS_LIVEDATA_FLOWTHRU OR CACHEREQUEST_FLAGS_NOWAIT_REPLY)]"

definition StrategyMappingToCCSMPSubscribeFlags :: "(int \<times> u32) list" where
  "StrategyMappingToCCSMPSubscribeFlags =
     [(CacheRequestStrategyAsAvailable, SUBSCRIBE_FLAGS_REQUEST_CONFIRM),
      (CacheRequestStrategyLiveCancelsCached, SUBSCRIBE_FLAGS_REQUEST_CONFIRM),
      (CacheRequestStrategyCachedFirst, SUBSCRIBE_FLAGS_REQUEST_CONFIRM),
      (CacheRequestStrategyCachedOnly, SUBSCRIBE_FLAGS_LOCAL_DISPATCH_ONLY)]"

definition map_index :: "('k \<times> u32) list \<Rightarrow> 'k \<Rightarrow> u32" where
  "map_index m k = (case map_of m k of None \<Rightarrow> 0 | Some v \<Rightarrow> v)"

definition LocalDispatchFlags :: u32 where
  "LocalDispatchFlags = SUBSCRIBE_FLAGS_LOCAL_DISPATCH_ONLY"

section \<open>Events and the state of the binding\<close>

datatype c_call =
    C_CreateCacheSession "string list"
  | C_SendCacheRequest u64 u64 string u64 u32 u32 u64
  | C_CancelRequests u64
  | C_CacheSessionDestroy u64
  | C_CacheTopicUnsubscribe string u32 u64 u64
  | C_CreateFiltering u64 u64
  | C_FreeFiltering u64

record cache_binding =
  cacheToEventCallbackMap :: "u64 list"
  c_calls :: "c_call list"

abbreviation c_call :: "c_call \<Rightarrow> 'a cache_binding_scheme \<Rightarrow> 'a cache_binding_scheme" where
  "c_call c b \<equiv> b\<lparr>c_calls := c_calls b @ [c]\<rparr>"

definition SolClientSubCodeCacheNoData :: int where "SolClientSubCodeCacheNoData = 51"
definition SolClientSubCodeCacheSuspectData :: int where "SolClientSubCodeCacheSuspectData = 52"
definition SolClientSubCodeCacheTimeout :: int where "SolClientSubCodeCacheTimeout = 55"
definition SolClientSubCodeCacheRequestCancelled :: int where "SolClientSubCodeCacheRequestCancelled = 107"

lemmas cache_subcode_defs = SolClientSubCodeCacheNoData_def SolClientSubCodeCacheSuspectData_def
  SolClientSubCodeCacheTimeout_def SolClientSubCodeCacheRequestCancelled_def

record CacheEventInfo =
  cacheSessionP :: u64
  ce_event :: int
  ce_topic :: string
  ce_returnCode :: SolClientReturnCode
  ce_subCode :: int
  ce_cacheRequestID :: u64
  ce_err :: "go_error option"

text \<open>The zero value of the structure; the return code \<^verbatim>\<open>SOLCLIENT_OK\<close> is 0.\<close>

definition zero_event :: CacheEventInfo where
  "zero_event = \<lparr>cacheSessionP = 0, ce_event = 0, ce_topic = [], ce_returnCode = SolClientReturnCodeOk,
                 ce_subCode = 0, ce_cacheRequestID = 0, ce_err = None\<rparr>"

definition SolClientCacheEventRequestCompletedNotice :: int where
  "SolClientCacheEventRequestCompletedNotice = 1"

definition NewCacheEventInfoForCancellation :: "u64 \<Rightarrow> u64 \<Rightarrow> string \<Rightarrow> go_error option \<Rightarrow> CacheEventInfo" where
  "NewCacheEventInfoForCancellation cacheSession cacheRequestID topic err =
     \<lparr>cacheSessionP = cacheSession, ce_event = SolClientCacheEventRequestCompletedNotice, ce_topic = topic,
      ce_returnCode = SolClientReturnCodeFail, ce_subCode = SolClientSubCodeCacheRequestCancelled,
      ce_cacheRequestID = cacheRequestID, ce_err = err\<rparr>"

definition CacheEventInfoFromCoreCacheEventInfo ::
  "int \<Rightarrow> string \<Rightarrow> SolClientReturnCode \<Rightarrow> int \<Rightarrow> u64 \<Rightarrow> u64 \<Rightarrow> CacheEventInfo" where
  "CacheEventInfoFromCoreCacheEventInfo cacheEvent topic rc subCode cacheRequestId user =
     \<lparr>cacheSessionP = user, ce_event = cacheEvent, ce_topic = topic, ce_returnCode = rc, ce_subCode = subCode,
      ce_cacheRequestID = cacheRequestId, ce_err = None\<rparr>"

definition CreateCacheSession ::
  "string list \<Rightarrow> ErrorInfo + u64 \<Rightarrow> cache_binding \<Rightarrow> (ErrorInfo + u64) \<times> cache_binding" where
  "CreateCacheSession props answer b = (answer, c_call (C_CreateCacheSession props) b)"

definition session_SendCacheRequest ::
  "u64 \<Rightarrow> u64 \<Rightarrow> string \<Rightarrow> u64 \<Rightarrow> u32 \<Rightarrow> u32 \<Rightarrow> u64 \<Rightarrow> cache_binding \<Rightarrow> cache_binding" where
  "session_SendCacheRequest cacheSession dispatch topic cacheRequestID requestFlags subscribeFlags filterConfig b =
     c_call (C_SendCacheRequest dispatch cacheSession topic cacheRequestID requestFlags subscribeFlags filterConfig)
       (b\<lparr>cacheToEventCallbackMap := List.insert cacheSession (cacheToEventCallbackMap b)\<rparr>)"

definition DestroyCacheSession :: "u64 \<Rightarrow> cache_binding \<Rightarrow> cache_binding" where
  "DestroyCacheSession cacheSession b =
     c_call (C_CacheSessionDestroy cacheSession)
       (b\<lparr>cacheToEventCallbackMap := removeAll cacheSession (cacheToEventCallbackMap b)\<rparr>)"

text \<open>
  The callback of the C library: it looks the session up, passes the event on and then forgets the session.
\<close>

definition callback_found :: "u64 \<Rightarrow> cache_binding \<Rightarrow> bool" where
  "callback_found user b \<longleftrightarrow> user \<in> set (cacheToEventCallbackMap b)"

definition forget_callback :: "u64 \<Rightarrow> cache_binding \<Rightarrow> cache_binding" where
  "forget_callback user b = b\<lparr>cacheToEventCallbackMap := removeAll user (cacheToEventCallbackMap b)\<rparr>"

definition goCacheEventCallback ::
  "CacheEventInfo \<Rightarrow> u64 \<Rightarrow> CacheEventInfo chan \<Rightarrow> cache_binding \<Rightarrow> (CacheEventInfo chan \<times> cache_binding) outcome" where
  "goCacheEventCallback eventInfo user cacheResponseChan b =
     (if callback_found user b
      then outcome_map (\<lambda>c. (c, forget_callback (cacheSessionP eventInfo) b)) (chan_send eventInfo cacheResponseChan)
      else Return (cacheResponseChan, b))"

section \<open>Request objects\<close>

datatype CacheResponseProcessor = ToChannel nat | ToCallback nat

text \<open>The call a processor belongs to.\<close>

fun processor_call :: "CacheResponseProcessor \<Rightarrow> nat" where
  "processor_call (ToChannel n) = n"
| "processor_call (ToCallback n) = n"

record cacheRequestMessageFilter =
  filter_pointer :: u64
  filter_cacheRequestID :: u64
  filter_dispatchID :: u64

definition defaultMessageFilterConfigValue :: u64 where "defaultMessageFilterConfigValue = 0"

definition newCacheRequestMessageFilter :: "u64 \<Rightarrow> u64 \<Rightarrow> cacheRequestMessageFilter" where
  "newCacheRequestMessageFilter cacheRequestID dispatch =
     \<lparr>filter_pointer = defaultMessageFilterConfigValue, filter_cacheRequestID = cacheRequestID,
      filter_dispatchID = dispatch\<rparr>"

definition SetupFiltering ::
  "u64 \<Rightarrow> cacheRequestMessageFilter \<Rightarrow> cache_binding \<Rightarrow> cacheRequestMessageFilter \<times> cache_binding" where
  "SetupFiltering allocated f b =
     (f\<lparr>filter_pointer := allocated\<rparr>, c_call (C_CreateFiltering (filter_dispatchID f) (filter_cacheRequestID f)) b)"

definition CleanupFiltering :: "cacheRequestMessageFilter \<Rightarrow> cache_binding \<Rightarrow> cache_binding" where
  "CleanupFiltering f b = c_call (C_FreeFiltering (filter_pointer f)) b"

record CacheRequestImpl =
  RequestConfig :: cachedMessageSubscriptionRequest
  request_ID :: u64
  Processor :: CacheResponseProcessor
  CacheSession :: u64
  request_Index :: u64
  request_dispatchID :: u64
  messageFilter :: "cacheRequestMessageFilter option"

text \<open>\<^verbatim>\<open>UsesLocalDispatch\<close> dereferences the pointer to the strategy.\<close>

definition UsesLocalDispatch :: "CacheRequestImpl \<Rightarrow> bool outcome" where
  "UsesLocalDispatch cacheRequest =
     (case cachedMessageSubscriptionStrategy (RequestConfig cacheRequest) of
        None \<Rightarrow> Panics NilDereference
      | Some strategy \<Rightarrow> Return (map_index StrategyMappingToCCSMPSubscribeFlags strategy = LocalDispatchFlags))"

definition NewCacheRequest ::
  "cachedMessageSubscriptionRequest \<Rightarrow> u64 \<Rightarrow> CacheResponseProcessor \<Rightarrow> u64 \<Rightarrow> u64 \<Rightarrow> u64 \<Rightarrow> cache_binding \<Rightarrow>
   (CacheRequestImpl \<times> cache_binding) outcome" where
  "NewCacheRequest request cacheRequestID handler cacheSession dispatch allocated b =
     (let r = \<lparr>RequestConfig = request, request_ID = cacheRequestID, Processor = handler, CacheSession = cacheSession,
               request_Index = cacheSession, request_dispatchID = dispatch, messageFilter = None\<rparr>
      in outcome_map
           (\<lambda>local. if local
              then (let (f, b') = SetupFiltering allocated (newCacheRequestMessageFilter cacheRequestID dispatch) b
                    in (r\<lparr>messageFilter := Some f\<rparr>, b'))
              else (r, b))
           (UsesLocalDispatch r))"

definition FailedToCreateCacheSession :: string where
  "FailedToCreateCacheSession = ''Failed to create cache session with cache request ID: %d''"

text \<open>The prefix of a translated error is a formatted text in the code; here it is its format.\<close>

definition CreateCacheRequest ::
  "cachedMessageSubscriptionRequest \<Rightarrow> u64 \<Rightarrow> CacheResponseProcessor \<Rightarrow> u64 \<Rightarrow> ErrorInfo + u64 \<Rightarrow> u64 \<Rightarrow> cache_binding \<Rightarrow>
   ((go_error + CacheRequestImpl) \<times> cache_binding) outcome" where
  "CreateCacheRequest request cacheRequestID handler dispatch answer allocated b =
     (case CreateCacheSession (ConvertCachedMessageSubscriptionRequestToCcsmpPropsList request) answer b of
        (Inl errInfo, b') \<Rightarrow> Return (Inl (ToNativeError errInfo FailedToCreateCacheSession), b')
      | (Inr cacheSession, b') \<Rightarrow>
          outcome_map (map_prod Inr id) (NewCacheRequest request cacheRequestID handler cacheSession dispatch allocated b'))"

definition cleanup_filter :: "CacheRequestImpl \<Rightarrow> cache_binding \<Rightarrow> cache_binding" where
  "cleanup_filter cacheRequest b = (case messageFilter cacheRequest of None \<Rightarrow> b | Some f \<Rightarrow> CleanupFiltering f b)"

definition FailedToDestroyCacheSessionText :: string where
  "FailedToDestroyCacheSessionText =
     ''Failed to destroy cache session with cache session pointer: and with cache request ID:. ErrorInfo is: [%s]''"

definition DestroyCacheRequest ::
  "CacheRequestImpl \<Rightarrow> ErrorInfo option \<Rightarrow> cache_binding \<Rightarrow> go_error option \<times> cache_binding" where
  "DestroyCacheRequest cacheRequest answer b =
     (map_option (\<lambda>info. ToNativeError info FailedToDestroyCacheSessionText) answer,
      DestroyCacheSession (CacheSession cacheRequest) (cleanup_filter cacheRequest b))"

definition NoConfiguredMessageFilter :: string where
  "NoConfiguredMessageFilter = ''API tried to clean up subscription for cache request that was configured for local dispatch '' @
     ''but that did not have a configured message filter. Unable to cleanup subscription so exiting.''"

definition CleanupCacheRequestSubscriptions ::
  "CacheRequestImpl \<Rightarrow> ErrorInfo option \<Rightarrow> cache_binding \<Rightarrow> (go_error option \<times> cache_binding) outcome" where
  "CleanupCacheRequestSubscriptions cacheRequest answer b =
     (case UsesLocalDispatch cacheRequest of
        Return False \<Rightarrow> Return (None, b)
      | Return True \<Rightarrow>
          (case messageFilter cacheRequest of
             None \<Rightarrow> Return (Some (NewError InvalidConfigurationError NoConfiguredMessageFilter [] None), b)
           | Some f \<Rightarrow>
               (case cachedMessageSubscriptionStrategy (RequestConfig cacheRequest) of
                  None \<Rightarrow> Panics NilDereference
                | Some strategy \<Rightarrow>
                    Return (map_option (\<lambda>info. ToNativeError info []) answer,
                      c_call (C_CacheTopicUnsubscribe (cacheName (RequestConfig cacheRequest))
                                (map_index StrategyMappingToCCSMPSubscribeFlags strategy) (filter_pointer f) 0) b)))
      | Blocks \<Rightarrow> Blocks
      | Panics p \<Rightarrow> Panics p)"

definition InvalidCachedMessageSubscriptionStrategy :: string where
  "InvalidCachedMessageSubscriptionStrategy = ''Failed to send cache request with cache request ID: %d and '' @
     ''with cache session pointer: %s because an invalid CachedMessageSubscriptionStrategy was passed''"

definition FailedToSendCacheRequestText :: string where
  "FailedToSendCacheRequestText = ''Failed to send cache request with cache request ID: %d and '' @
     ''with cache session pointer: %s. Related errInfo was %s''"

definition SendCacheRequest ::
  "CacheRequestImpl \<Rightarrow> u64 \<Rightarrow> ErrorInfo option \<Rightarrow> cache_binding \<Rightarrow> go_error option \<times> cache_binding" where
  "SendCacheRequest cacheRequest dispatch answer b =
     (case cachedMessageSubscriptionStrategy (RequestConfig cacheRequest) of
        None \<Rightarrow>
          (Some (NewError IllegalArgumentError InvalidCachedMessageSubscriptionStrategy
                   [ArgInt (uint (request_ID cacheRequest)), ArgInt (uint (CacheSession cacheRequest))] None), b)
      | Some strategy \<Rightarrow>
          (let filterConfig = (case messageFilter cacheRequest of None \<Rightarrow> defaultMessageFilterConfigValue
                                | Some f \<Rightarrow> filter_pointer f)
           in (map_option (\<lambda>info. ToNativeError info FailedToSendCacheRequestText) answer,
               session_SendCacheRequest (CacheSession cacheRequest) dispatch
                 (cached_GetName (RequestConfig cacheRequest)) (request_ID cacheRequest)
                 (map_index StrategyMappingToCCSMPCacheRequestFlags strategy)
                 (map_index StrategyMappingToCCSMPSubscribeFlags strategy) filterConfig b)))"

definition CancelPendingCacheRequests ::
  "u64 \<Rightarrow> CacheRequestImpl \<Rightarrow> ErrorInfo option \<Rightarrow> cache_binding \<Rightarrow> CacheEventInfo option \<times> cache_binding" where
  "CancelPendingCacheRequests cacheRequestIndex cacheRequest answer b =
     (let generatedEvent =
        (case answer of
           None \<Rightarrow> zero_event
         | Some errorInfo \<Rightarrow>
             (if ReturnCode errorInfo \<noteq> SolClientReturnCodeOk
              then NewCacheEventInfoForCancellation cacheRequestIndex (request_ID cacheRequest)
                     (cached_GetName (RequestConfig cacheRequest))
                     (Some (ToNativeError errorInfo ''Failed to cancel cache request.''))
              else zero_event))
      in (Some generatedEvent, c_call (C_CancelRequests cacheRequestIndex) b))"

section \<open>The event that ends a request\<close>

datatype CacheRequestOutcome =
    CacheRequestOutcomeOk
  | CacheRequestOutcomeNoData
  | CacheRequestOutcomeSuspectData
  | CacheRequestOutcomeFailed

record cacheResponse =
  cacheRequestOutcome :: CacheRequestOutcome
  response_ID :: u64
  response_err :: "go_error option"

definition cache_outcome :: "CacheEventInfo \<Rightarrow> CacheRequestOutcome \<times> go_error option" where
  "cache_outcome cacheEventInfo =
     (if ce_returnCode cacheEventInfo = SolClientReturnCodeOk then (CacheRequestOutcomeOk, None)
      else if ce_returnCode cacheEventInfo = SolClientReturnCodeIncomplete then
        (if ce_subCode cacheEventInfo = SolClientSubCodeCacheSuspectData then (CacheRequestOutcomeSuspectData, None)
         else if ce_subCode cacheEventInfo = SolClientSubCodeCacheNoData then (CacheRequestOutcomeNoData, None)
         else if ce_subCode cacheEventInfo = SolClientSubCodeCacheTimeout then
           (CacheRequestOutcomeFailed, Some (NewError TimeoutError ''the cache request timed out'' [] None))
         else (CacheRequestOutcomeFailed, None))
      else
        (CacheRequestOutcomeFailed,
         if ce_subCode cacheEventInfo \<noteq> SolClientSubCodeCacheSuspectData \<and>
            ce_subCode cacheEventInfo \<noteq> SolClientSubCodeCacheNoData
         then Some (NativeError ''the cache request failed'' (ce_subCode cacheEventInfo)) else None))"

definition cache_response :: "CacheEventInfo \<Rightarrow> CacheRequestImpl \<Rightarrow> cacheResponse" where
  "cache_response cacheEventInfo cacheRequest =
     \<lparr>cacheRequestOutcome = fst (cache_outcome cacheEventInfo), response_ID = request_ID cacheRequest,
      response_err = snd (cache_outcome cacheEventInfo)\<rparr>"

text \<open>
  \<^verbatim>\<open>ProcessCacheEvent\<close> as one uninterrupted call: the call of the processor that is made, if any, the map of
  requests and the state of the binding afterwards.
\<close>

definition request_cleanup :: "CacheRequestImpl \<Rightarrow> ErrorInfo option \<Rightarrow> cache_binding \<Rightarrow> cache_binding outcome" where
  "request_cleanup cacheRequest answer b =
     outcome_map (\<lambda>(err, b'). cleanup_filter cacheRequest b') (CleanupCacheRequestSubscriptions cacheRequest answer b)"

definition ProcessCacheEvent ::
  "(u64 \<times> CacheRequestImpl) list \<Rightarrow> CacheEventInfo \<Rightarrow> ErrorInfo option \<Rightarrow> cache_binding \<Rightarrow>
   ((CacheResponseProcessor \<times> cacheResponse) option \<times> (u64 \<times> CacheRequestImpl) list \<times> cache_binding) outcome" where
  "ProcessCacheEvent cacheRequestMap cacheEventInfo answer b =
     (let cacheSession = cacheSessionP cacheEventInfo;
          rest = AList.delete cacheSession cacheRequestMap
      in case map_of cacheRequestMap cacheSession of
           None \<Rightarrow> Return (None, rest, DestroyCacheSession cacheSession b)
         | Some cacheRequest \<Rightarrow>
             outcome_map (\<lambda>b'. (Some (Processor cacheRequest, cache_response cacheEventInfo cacheRequest), rest,
                                DestroyCacheSession cacheSession b'))
               (request_cleanup cacheRequest answer b))"

section \<open>Well-formed requests\<close>

text \<open>
  A request is well formed when its strategy is one of the four, it is indexed by its session, and it has a
  message filter exactly when its strategy dispatches locally.
\<close>

definition request_wf :: "CacheRequestImpl \<Rightarrow> bool" where
  "request_wf r \<longleftrightarrow> request_Index r = CacheSession r \<and>
     (\<exists>strategy \<in> {0, 1, 2, 3}. cachedMessageSubscriptionStrategy (RequestConfig r) = Some strategy \<and>
        (messageFilter r \<noteq> None \<longleftrightarrow> strategy = CacheRequestStrategyCachedOnly))"

lemma subscribe_flags:
  "strategy \<in> {0, 1, 2, 3} \<Longrightarrow>
   map_index StrategyMappingToCCSMPSubscribeFlags strategy = (if strategy = 3 then 8 else 16)"
  by (auto simp: map_index_def StrategyMappingToCCSMPSubscribeFlags_def strategy_defs flag_defs)

lemma request_wf_local:
  assumes "request_wf r"
  shows "UsesLocalDispatch r = Return (messageFilter r \<noteq> None)"
  using assms
  by (auto simp: request_wf_def UsesLocalDispatch_def LocalDispatchFlags_def flag_defs subscribe_flags strategy_defs)

lemma request_wf_strategy:
  "request_wf r \<Longrightarrow> \<exists>strategy. cachedMessageSubscriptionStrategy (RequestConfig r) = Some strategy"
  by (auto simp: request_wf_def)

lemma NewCacheRequest_wf:
  assumes "strategy \<in> {0, 1, 2, 3}" and "cachedMessageSubscriptionStrategy request = Some strategy"
  shows "\<exists>r b'. NewCacheRequest request rid handler p dispatch allocated b = Return (r, b') \<and> request_wf r \<and>
    RequestConfig r = request \<and> request_ID r = rid \<and> Processor r = handler \<and> CacheSession r = p \<and>
    cacheToEventCallbackMap b' = cacheToEventCallbackMap b \<and>
    c_calls b' = c_calls b @ (if strategy = CacheRequestStrategyCachedOnly then [C_CreateFiltering dispatch rid] else []) \<and>
    (\<forall>f. messageFilter r = Some f \<longrightarrow> filter_pointer f = allocated)"
  using assms
  by (auto simp: NewCacheRequest_def Let_def UsesLocalDispatch_def subscribe_flags LocalDispatchFlags_def flag_defs
      request_wf_def SetupFiltering_def newCacheRequestMessageFilter_def strategy_defs)

lemma NewCached_strategy:
  "cachedMessageSubscriptionStrategy (NewCachedMessageSubscriptionRequest strategy name topic timeout n age) =
     (if strategy \<in> {0, 1, 2, 3} then Some strategy else None)"
  by (auto simp: NewCachedMessageSubscriptionRequest_def strategy_defs)

text \<open>
  C32. For the four strategies a cache request that the C library creates a session for is well formed: it
  is indexed by the session, carries the number and the processor it was given, and a message filter
  is allocated, and kept, exactly for the strategy that dispatches locally; without a session the error says so. For
  any other strategy the call panics: the strategy is dereferenced before the check that would have
  returned an error for it.
\<close>

proposition cache_request_created:
  shows "(strategy \<in> {0, 1, 2, 3} \<longrightarrow>
      (\<exists>r b'. CreateCacheRequest (NewCachedMessageSubscriptionRequest strategy name topic timeout n age) rid handler
                dispatch (Inr p) allocated b = Return (Inr r, b') \<and>
         request_wf r \<and> request_ID r = rid \<and> Processor r = handler \<and> CacheSession r = p \<and>
         (\<forall>f. messageFilter r = Some f \<longrightarrow> filter_pointer f = allocated) \<and>
         c_calls b' = c_calls b @
           C_CreateCacheSession [''CACHESESSION_CACHE_NAME'', name, ''CACHESESSION_MAX_AGE'', print_int (sint age),
             ''CACHESESSION_MAX_MSGS'', print_int (sint n), ''CACHESESSION_RR_TIMEOUT_MS'', print_int (sint timeout)] #
           (if strategy = 3 then [C_CreateFiltering dispatch rid] else []))) \<and>
    (strategy \<notin> {0, 1, 2, 3} \<longrightarrow>
       CreateCacheRequest (NewCachedMessageSubscriptionRequest strategy name topic timeout n age) rid handler
         dispatch (Inr p) allocated b = Panics NilDereference) \<and>
    (\<exists>b'. CreateCacheRequest (NewCachedMessageSubscriptionRequest strategy name topic timeout n age) rid handler
         dispatch (Inl info) allocated b = Return (Inl (ToNativeError info FailedToCreateCacheSession), b'))"
proof (intro conjI impI)
  let ?q = "NewCachedMessageSubscriptionRequest strategy name topic timeout n age"
  let ?props = "ConvertCachedMessageSubscriptionRequestToCcsmpPropsList ?q"
  have props: "?props = [''CACHESESSION_CACHE_NAME'', name, ''CACHESESSION_MAX_AGE'', print_int (sint age),
             ''CACHESESSION_MAX_MSGS'', print_int (sint n), ''CACHESESSION_RR_TIMEOUT_MS'', print_int (sint timeout)]"
    by (simp add: ConvertCachedMessageSubscriptionRequestToCcsmpPropsList_def NewCachedMessageSubscriptionRequest_def
        SolClientCacheSessionPropCacheName_def SolClientCacheSessionPropMaxMsgs_def SolClientCacheSessionPropMaxAge_def
        SolClientCacheSessionPropRequestreplyTimeoutMs_def)
  assume "strategy \<in> {0, 1, 2, 3}"
  from NewCacheRequest_wf [OF this, of ?q rid handler p dispatch allocated "c_call (C_CreateCacheSession ?props) b"]
  show "\<exists>r b'. CreateCacheRequest ?q rid handler dispatch (Inr p) allocated b = Return (Inr r, b') \<and>
         request_wf r \<and> request_ID r = rid \<and> Processor r = handler \<and> CacheSession r = p \<and>
         (\<forall>f. messageFilter r = Some f \<longrightarrow> filter_pointer f = allocated) \<and>
         c_calls b' = c_calls b @
           C_CreateCacheSession [''CACHESESSION_CACHE_NAME'', name, ''CACHESESSION_MAX_AGE'', print_int (sint age),
             ''CACHESESSION_MAX_MSGS'', print_int (sint n), ''CACHESESSION_RR_TIMEOUT_MS'', print_int (sint timeout)] #
           (if strategy = 3 then [C_CreateFiltering dispatch rid] else [])"
    using \<open>strategy \<in> _\<close> unfolding NewCached_strategy
    by (auto simp: CreateCacheRequest_def CreateCacheSession_def props strategy_defs)
next
  assume "strategy \<notin> {0, 1, 2, 3}"
  then show "CreateCacheRequest (NewCachedMessageSubscriptionRequest strategy name topic timeout n age) rid handler
         dispatch (Inr p) allocated b = Panics NilDereference"
    by (simp add: CreateCacheRequest_def CreateCacheSession_def NewCacheRequest_def Let_def UsesLocalDispatch_def
        NewCached_strategy)
qed (simp add: CreateCacheRequest_def CreateCacheSession_def)

definition sample_binding :: cache_binding where
  "sample_binding = \<lparr>cacheToEventCallbackMap = [], c_calls = []\<rparr>"

theorem cache_request_created_witness:
  "(\<exists>r b'. CreateCacheRequest (NewCachedMessageSubscriptionRequest 3 ''cache'' (Some ''t'') 3000 0 0) 7 (ToChannel 0)
             1 (Inr 64) 96 sample_binding = Return (Inr r, b') \<and> request_wf r \<and> CacheSession r = 64) \<and>
   CreateCacheRequest (NewCachedMessageSubscriptionRequest 4 ''cache'' (Some ''t'') 3000 0 0) 7 (ToChannel 0)
             1 (Inr 64) 96 sample_binding = Panics NilDereference"
  using cache_request_created [of 3 "''cache''" "Some ''t''" 3000 0 0 7 "ToChannel 0" 1 64 96 sample_binding sample_error]
    cache_request_created [of 4 "''cache''" "Some ''t''" 3000 0 0 7 "ToChannel 0" 1 64 96 sample_binding sample_error]
  by auto

section \<open>Processing an event\<close>

lemma request_cleanup_wf:
  assumes "request_wf r"
  shows "request_cleanup r answer b = Return (b\<lparr>c_calls := c_calls b @
    (case messageFilter r of None \<Rightarrow> [] | Some f \<Rightarrow>
       [C_CacheTopicUnsubscribe (cacheName (RequestConfig r)) 8 (filter_pointer f) 0, C_FreeFiltering (filter_pointer f)])\<rparr>)"
  using assms request_wf_local [OF assms] subscribe_flags [of 3]
  by (auto simp: request_cleanup_def CleanupCacheRequestSubscriptions_def cleanup_filter_def CleanupFiltering_def
      request_wf_def strategy_defs split: option.splits)

lemma ProcessCacheEvent_found:
  assumes "map_of m (cacheSessionP e) = Some r" and "request_wf r"
  shows "\<exists>b'. ProcessCacheEvent m e answer b =
      Return (Some (Processor r, cache_response e r), AList.delete (cacheSessionP e) m, b') \<and>
    cacheToEventCallbackMap b' = removeAll (cacheSessionP e) (cacheToEventCallbackMap b) \<and>
    c_calls b' = c_calls b @
      (case messageFilter r of None \<Rightarrow> [] | Some f \<Rightarrow>
         [C_CacheTopicUnsubscribe (cacheName (RequestConfig r)) 8 (filter_pointer f) 0, C_FreeFiltering (filter_pointer f)]) @
      [C_CacheSessionDestroy (cacheSessionP e)]"
  using assms
  by (simp add: ProcessCacheEvent_def Let_def request_cleanup_wf DestroyCacheSession_def)

lemma ProcessCacheEvent_duplicate:
  assumes "map_of m (cacheSessionP e) = None"
  shows "ProcessCacheEvent m e answer b = Return (None, AList.delete (cacheSessionP e) m, DestroyCacheSession (cacheSessionP e) b)"
  using assms by (simp add: ProcessCacheEvent_def Let_def)

text \<open>What the application is told, as a table over return code and sub code.\<close>

lemma cache_outcome_table:
  "fst (cache_outcome e) = CacheRequestOutcomeOk \<longleftrightarrow> ce_returnCode e = SolClientReturnCodeOk"
  "fst (cache_outcome e) = CacheRequestOutcomeNoData \<longleftrightarrow> ce_returnCode e = SolClientReturnCodeIncomplete \<and> ce_subCode e = 51"
  "fst (cache_outcome e) = CacheRequestOutcomeSuspectData \<longleftrightarrow>
     ce_returnCode e = SolClientReturnCodeIncomplete \<and> ce_subCode e = 52"
  "error_kind_of (the (snd (cache_outcome e))) = Some TimeoutError \<and> snd (cache_outcome e) \<noteq> None \<longleftrightarrow>
     ce_returnCode e = SolClientReturnCodeIncomplete \<and> ce_subCode e = 55"
  "(\<exists>text. snd (cache_outcome e) = Some (NativeError text c)) \<longleftrightarrow>
     ce_returnCode e \<notin> {SolClientReturnCodeOk, SolClientReturnCodeIncomplete} \<and> ce_subCode e = c \<and> c \<notin> {51, 52}"
  by (auto simp: cache_outcome_def cache_subcode_defs NewError_def)

text \<open>
  An event whose session is in the map calls the processor of that request once, with the number of the
  request and the outcome that return code and sub code stand for; then the request leaves the map, its filter is
  freed if it has one, and its session is destroyed. A second event for the same session, and any event whose
  session is unknown, calls nobody and leaves the other requests alone.
\<close>

proposition cache_event_processed:
  assumes "map_of m (cacheSessionP e) = Some r" and "request_wf r" and "cacheSessionP e' = cacheSessionP e"
  shows "\<exists>response m' b' b''.
     ProcessCacheEvent m e answer b = Return (Some (Processor r, response), m', b') \<and>
     response_ID response = request_ID r \<and>
     (cacheRequestOutcome response = CacheRequestOutcomeOk \<longleftrightarrow> ce_returnCode e = SolClientReturnCodeOk) \<and>
     (cacheRequestOutcome response = CacheRequestOutcomeNoData \<longleftrightarrow>
        ce_returnCode e = SolClientReturnCodeIncomplete \<and> ce_subCode e = 51) \<and>
     (cacheRequestOutcome response = CacheRequestOutcomeSuspectData \<longleftrightarrow>
        ce_returnCode e = SolClientReturnCodeIncomplete \<and> ce_subCode e = 52) \<and>
     (response_err response \<noteq> None \<longrightarrow> cacheRequestOutcome response = CacheRequestOutcomeFailed) \<and>
     map_of m' = (map_of m)(cacheSessionP e := None) \<and>
     last (c_calls b') = C_CacheSessionDestroy (cacheSessionP e) \<and>
     (\<forall>f. messageFilter r = Some f \<longrightarrow> C_FreeFiltering (filter_pointer f) \<in> set (c_calls b')) \<and>
     ProcessCacheEvent m' e' answer' b' = Return (None, m', b'') \<and>
     cacheToEventCallbackMap b'' = cacheToEventCallbackMap b'"
proof -
  let ?p = "cacheSessionP e" and ?m = "AList.delete (cacheSessionP e) m"
  obtain b' where b': "ProcessCacheEvent m e answer b = Return (Some (Processor r, cache_response e r), ?m, b')"
      "cacheToEventCallbackMap b' = removeAll ?p (cacheToEventCallbackMap b)"
    and calls: "c_calls b' = c_calls b @
      (case messageFilter r of None \<Rightarrow> [] | Some f \<Rightarrow>
         [C_CacheTopicUnsubscribe (cacheName (RequestConfig r)) 8 (filter_pointer f) 0, C_FreeFiltering (filter_pointer f)]) @
      [C_CacheSessionDestroy ?p]"
    using ProcessCacheEvent_found [OF assms(1,2)] by blast
  have gone: "map_of ?m = (map_of m)(?p := None)" by (rule delete_conv')
  then have "ProcessCacheEvent ?m e' answer' b' = Return (None, ?m, DestroyCacheSession ?p b')"
    using assms(3) by (subst ProcessCacheEvent_duplicate) (simp_all add: delete_idem)
  moreover have "cacheToEventCallbackMap (DestroyCacheSession ?p b') = cacheToEventCallbackMap b'"
    using b'(2) by (simp add: DestroyCacheSession_def)
  moreover have "response_err (cache_response e r) \<noteq> None \<longrightarrow> cacheRequestOutcome (cache_response e r) = CacheRequestOutcomeFailed"
    by (auto simp: cache_response_def cache_outcome_def)
  ultimately show ?thesis
    using b'(1) gone calls
    by (intro exI [of _ "cache_response e r"] exI [of _ ?m] exI [of _ b'] exI [of _ "DestroyCacheSession ?p b'"])
      (auto simp: cache_response_def cache_outcome_table)
qed

definition sample_request :: CacheRequestImpl where
  "sample_request = \<lparr>RequestConfig = NewCachedMessageSubscriptionRequest 3 ''cache'' (Some ''t'') 3000 0 0, request_ID = 7,
     Processor = ToChannel 0, CacheSession = 64, request_Index = 64, request_dispatchID = 1,
     messageFilter = Some \<lparr>filter_pointer = 96, filter_cacheRequestID = 7, filter_dispatchID = 1\<rparr>\<rparr>"

definition sample_event :: CacheEventInfo where
  "sample_event = CacheEventInfoFromCoreCacheEventInfo 1 ''t'' SolClientReturnCodeIncomplete 51 7 64"

theorem cache_event_processed_witness:
  "\<exists>response m' b'. ProcessCacheEvent [(64, sample_request)] sample_event None sample_binding =
     Return (Some (ToChannel 0, response), m', b') \<and> cacheRequestOutcome response = CacheRequestOutcomeNoData"
proof -
  have "map_of [(64, sample_request)] (cacheSessionP sample_event) = Some sample_request"
    by (simp add: sample_event_def CacheEventInfoFromCoreCacheEventInfo_def)
  moreover have "request_wf sample_request"
    by (simp add: request_wf_def sample_request_def NewCached_strategy strategy_defs)
  ultimately show ?thesis
    using cache_event_processed [of "[(64, sample_request)]" sample_event sample_request sample_event None sample_binding None]
    by (auto simp: sample_request_def sample_event_def CacheEventInfoFromCoreCacheEventInfo_def)
qed

end
