(* ===== verification/Cache_Concurrency.thy ===== *)
theory Cache_Concurrency
  imports Cache_Requests
begin

text \<open>
  The goroutines that work on the cache requests of a direct receiver
  (\<^verbatim>\<open>internal/impl/receiver/direct_message_receiver_impl.go\<close>): any number of calls of
  \<^verbatim>\<open>RequestCachedAsync\<close> and \<^verbatim>\<open>RequestCachedAsyncWithCallback\<close>, the C library that answers each request it has
  accepted with one event, the goroutine in \<^verbatim>\<open>PollAndProcessCacheResponseChannel\<close>, the application that
  reads the channels it was given, and \<^verbatim>\<open>teardownCache\<close> at the end of a termination. A step is one access to
  shared state; a call into the C library is one step with the Go code around it.

  The parameter of the step relation tells whether the C library may use the pointer of a destroyed cache
  session for a new one; a pointer is never shared by two sessions that exist at the same time.
  \<^verbatim>\<open>sync.Map.Range\<close> visits each key at most once, in any order, and at least the keys that stay in the map. The
  counter of outstanding requests, an \<^verbatim>\<open>int64\<close> in the code, is an integer; the theorems bound it.
\<close>

section \<open>The system\<close>

definition MaxOutstandingCacheRequests :: int where "MaxOutstandingCacheRequests = 1024"

text \<open>The arguments of a call: the request, its number and whether the response goes to a callback.\<close>

record cq_call =
  arg_request :: cachedMessageSubscriptionRequest
  arg_id :: u64
  arg_callback :: bool

datatype rq_pc =
    RqIdle
  | RqState
  | RqCounter
  | RqCount
  | RqInit
  | RqHandshake
  | RqSetRunning
  | RqCreate
  | RqUncount go_error
  | RqStore CacheRequestImpl
  | RqSend CacheRequestImpl
  | RqFailCount CacheRequestImpl go_error
  | RqFailClose CacheRequestImpl go_error
  | RqFailDelete CacheRequestImpl go_error
  | RqFailDestroy CacheRequestImpl go_error
  | RqDone "go_error option"
  | RqPanicked

datatype ev_pc =
    EvNone
  | EvPending u64
  | EvSend CacheEventInfo
  | EvForget u64
  | EvDone
  | EvLost
  | EvPanicked

datatype poll_pc =
    PlNone
  | PlStart
  | PlRecv
  | PlCount "CacheEventInfo option"
  | PlLoad CacheEventInfo
  | PlRespond CacheEventInfo CacheRequestImpl
  | PlCleanup CacheEventInfo CacheRequestImpl
  | PlDelete CacheEventInfo
  | PlDestroy CacheEventInfo
  | PlClose
  | PlClear
  | PlDone
  | PlPanicked

datatype td_pc =
    TdIdle
  | TdCheck
  | TdRange "u64 list" "u64 list"
  | TdCancel "u64 list" "u64 list" u64 CacheRequestImpl
  | TdPush "u64 list" "u64 list" CacheEventInfo
  | TdClose
  | TdDone

record cq_sys =
  q_calls :: "cq_call list"
  q_dispatch :: u64
  q_state :: lifecycle_state
  q_running :: bool
  cacheResourceLock :: "nat option"
  numOutstandingCacheRequests :: int
  cacheResponseChan :: "CacheEventInfo chan option"
  cachePollingRunningChan :: "bool option"
  cachePollingRunning :: bool
  cacheRequestMap :: "(u64 \<times> CacheRequestImpl) list"
  q_binding :: cache_binding
  app_chans :: "cacheResponse chan list"
  rq_pcs :: "rq_pc list"
  ev_pcs :: "ev_pc list"
  poll_pc :: poll_pc
  td_pc :: td_pc
  q_live :: "u64 list"
  q_sessions :: "u64 option list"
  answers :: "(nat \<times> cacheResponse) list"

abbreviation set_rq :: "nat \<Rightarrow> rq_pc \<Rightarrow> cq_sys \<Rightarrow> cq_sys" where
  "set_rq i pc s \<equiv> s\<lparr>rq_pcs := (rq_pcs s)[i := pc]\<rparr>"

abbreviation set_ev :: "nat \<Rightarrow> ev_pc \<Rightarrow> cq_sys \<Rightarrow> cq_sys" where
  "set_ev i pc s \<equiv> s\<lparr>ev_pcs := (ev_pcs s)[i := pc]\<rparr>"

abbreviation add_outstanding :: "int \<Rightarrow> cq_sys \<Rightarrow> cq_sys" where
  "add_outstanding d s \<equiv> s\<lparr>numOutstandingCacheRequests := numOutstandingCacheRequests s + d\<rparr>"

abbreviation unlock :: "cq_sys \<Rightarrow> cq_sys" where
  "unlock s \<equiv> s\<lparr>cacheResourceLock := None\<rparr>"

definition CacheReceiverNotStarted :: string where
  "CacheReceiverNotStarted = ''Could not perform cache operations because more the receiver was not in the '' @
     [CHR 0x27] @ ''Started'' @ [CHR 0x27] @ '' state.''"

definition CacheReceiverNotRunning :: string where
  "CacheReceiverNotRunning = ''Could not perform cache operations because the receiver was not running.''"

definition TooManyCacheRequests :: string where
  "TooManyCacheRequests = ''Could not perform cache operations because more than %d cache responses are still waiting '' @
     ''to be processed by the application.''"

text \<open>\<^verbatim>\<open>checkStateForCacheRequest\<close>, in the two reads it makes: the state, then the counter.\<close>

definition check_state :: "cq_sys \<Rightarrow> go_error option" where
  "check_state s =
     (if q_state s \<noteq> Started then Some (NewError IllegalStateError CacheReceiverNotStarted [] None)
      else if \<not> q_running s then Some (NewError IllegalStateError CacheReceiverNotRunning [] None)
      else None)"

definition check_counter :: "cq_sys \<Rightarrow> go_error option" where
  "check_counter s =
     (if numOutstandingCacheRequests s \<ge> MaxOutstandingCacheRequests
      then Some (NewError IllegalStateError TooManyCacheRequests [ArgInt MaxOutstandingCacheRequests] None) else None)"

text \<open>\<^verbatim>\<open>StartAndInitCacheRequestorIfNotDoneAlready\<close> up to the start of the goroutine.\<close>

definition init_requestor :: "cq_sys \<Rightarrow> cq_sys" where
  "init_requestor s =
     s\<lparr>cacheResponseChan := (case cacheResponseChan s of
          None \<Rightarrow> Some (make_chan (nat MaxOutstandingCacheRequests)) | Some c \<Rightarrow> Some c),
       cachePollingRunningChan := (case cachePollingRunningChan s of None \<Rightarrow> Some False | Some b \<Rightarrow> Some b)\<rparr>"

definition CacheSessionExists :: string where
  "CacheSessionExists = ''The application API to create a new cache request using cache session pointer [0x%x] but '' @
     ''another cache request'' @ [CHR 0x27] @ ''s cache session under that pointer already exists.''"

definition addCacheSessionToMapIfNotPresent ::
  "CacheRequestImpl \<Rightarrow> (u64 \<times> CacheRequestImpl) list \<Rightarrow> go_error option \<times> (u64 \<times> CacheRequestImpl) list" where
  "addCacheSessionToMapIfNotPresent cacheRequest m =
     (case map_of m (request_Index cacheRequest) of
        Some _ \<Rightarrow> (Some (NewError IllegalStateError CacheSessionExists [ArgInt (uint (request_Index cacheRequest))] None), m)
      | None \<Rightarrow> (None, AList.update (request_Index cacheRequest) cacheRequest m))"

definition call_processor :: "nat \<Rightarrow> cq_call \<Rightarrow> CacheResponseProcessor" where
  "call_processor i c = (if arg_callback c then ToCallback i else ToChannel i)"

text \<open>A failing call of \<^verbatim>\<open>RequestCachedAsync\<close> closes the channel it made.\<close>

definition close_app_chan :: "nat \<Rightarrow> cq_sys \<Rightarrow> cq_sys" where
  "close_app_chan i s =
     (if arg_callback (q_calls s ! i) then s
      else s\<lparr>app_chans := (app_chans s)[i := (app_chans s ! i)\<lparr>chan_closed := True\<rparr>]\<rparr>)"

definition fresh_session :: "bool \<Rightarrow> u64 \<Rightarrow> cq_sys \<Rightarrow> bool" where
  "fresh_session reuse p s \<longleftrightarrow> p \<noteq> 0 \<and> p \<notin> set (q_live s) \<and> (\<not> reuse \<longrightarrow> Some p \<notin> set (q_sessions s))"

inductive cq_step :: "bool \<Rightarrow> cq_sys \<Rightarrow> cq_sys \<Rightarrow> bool" for reuse where
  rq_lock: "i < length (rq_pcs s) \<Longrightarrow> rq_pcs s ! i = RqIdle \<Longrightarrow> cacheResourceLock s = None \<Longrightarrow>
     cq_step reuse s (set_rq i RqState (s\<lparr>cacheResourceLock := Some i\<rparr>))"
| rq_refused: "i < length (rq_pcs s) \<Longrightarrow> rq_pcs s ! i = RqState \<Longrightarrow> check_state s = Some err \<Longrightarrow>
     cq_step reuse s (set_rq i (RqDone (Some err)) (unlock s))"
| rq_state: "i < length (rq_pcs s) \<Longrightarrow> rq_pcs s ! i = RqState \<Longrightarrow> check_state s = None \<Longrightarrow>
     cq_step reuse s (set_rq i RqCounter s)"
| rq_too_many: "i < length (rq_pcs s) \<Longrightarrow> rq_pcs s ! i = RqCounter \<Longrightarrow> check_counter s = Some err \<Longrightarrow>
     cq_step reuse s (set_rq i (RqDone (Some err)) (unlock s))"
| rq_counter: "i < length (rq_pcs s) \<Longrightarrow> rq_pcs s ! i = RqCounter \<Longrightarrow> check_counter s = None \<Longrightarrow>
     cq_step reuse s (set_rq i RqCount s)"
| rq_count: "i < length (rq_pcs s) \<Longrightarrow> rq_pcs s ! i = RqCount \<Longrightarrow>
     cq_step reuse s (set_rq i RqInit (add_outstanding 1 s))"
| rq_running: "i < length (rq_pcs s) \<Longrightarrow> rq_pcs s ! i = RqInit \<Longrightarrow> cachePollingRunning s \<Longrightarrow>
     cq_step reuse s (set_rq i RqCreate (unlock (init_requestor s)))"
| rq_start: "i < length (rq_pcs s) \<Longrightarrow> rq_pcs s ! i = RqInit \<Longrightarrow> \<not> cachePollingRunning s \<Longrightarrow>
     cq_step reuse s (set_rq i RqHandshake ((init_requestor s)\<lparr>poll_pc := PlStart\<rparr>))"
| handshake: "i < length (rq_pcs s) \<Longrightarrow> rq_pcs s ! i = RqHandshake \<Longrightarrow> poll_pc s = PlStart \<Longrightarrow>
     cachePollingRunningChan s = Some False \<Longrightarrow> cq_step reuse s (set_rq i RqSetRunning (s\<lparr>poll_pc := PlRecv\<rparr>))"
| rq_handshake_closed: "i < length (rq_pcs s) \<Longrightarrow> rq_pcs s ! i = RqHandshake \<Longrightarrow> cachePollingRunningChan s = Some True \<Longrightarrow>
     cq_step reuse s (set_rq i RqSetRunning s)"
| pl_start_closed: "poll_pc s = PlStart \<Longrightarrow> cachePollingRunningChan s = Some True \<Longrightarrow>
     cq_step reuse s (s\<lparr>poll_pc := PlPanicked\<rparr>)"
| rq_set_running: "i < length (rq_pcs s) \<Longrightarrow> rq_pcs s ! i = RqSetRunning \<Longrightarrow>
     cq_step reuse s (set_rq i RqCreate (unlock (s\<lparr>cachePollingRunning := True\<rparr>)))"
| rq_create: "i < length (rq_pcs s) \<Longrightarrow> rq_pcs s ! i = RqCreate \<Longrightarrow> fresh_session reuse p s \<Longrightarrow>
     CreateCacheRequest (arg_request (q_calls s ! i)) (arg_id (q_calls s ! i)) (call_processor i (q_calls s ! i))
       (q_dispatch s) (Inr p) allocated (q_binding s) = Return (Inr r, b) \<Longrightarrow>
     cq_step reuse s (set_rq i (RqStore r)
       (s\<lparr>q_binding := b, q_live := p # q_live s, q_sessions := (q_sessions s)[i := Some p]\<rparr>))"
| rq_create_error: "i < length (rq_pcs s) \<Longrightarrow> rq_pcs s ! i = RqCreate \<Longrightarrow>
     CreateCacheRequest (arg_request (q_calls s ! i)) (arg_id (q_calls s ! i)) (call_processor i (q_calls s ! i))
       (q_dispatch s) (Inl info) allocated (q_binding s) = Return (Inl err, b) \<Longrightarrow>
     cq_step reuse s (set_rq i (RqUncount err) (close_app_chan i (s\<lparr>q_binding := b\<rparr>)))"
| rq_create_panic: "i < length (rq_pcs s) \<Longrightarrow> rq_pcs s ! i = RqCreate \<Longrightarrow>
     CreateCacheRequest (arg_request (q_calls s ! i)) (arg_id (q_calls s ! i)) (call_processor i (q_calls s ! i))
       (q_dispatch s) (Inr p) allocated (q_binding s) = Panics x \<Longrightarrow>
     cq_step reuse s (set_rq i RqPanicked s)"
| rq_uncount: "i < length (rq_pcs s) \<Longrightarrow> rq_pcs s ! i = RqUncount err \<Longrightarrow>
     cq_step reuse s (set_rq i (RqDone (Some err)) (add_outstanding (-1) s))"
| rq_store: "i < length (rq_pcs s) \<Longrightarrow> rq_pcs s ! i = RqStore r \<Longrightarrow>
     addCacheSessionToMapIfNotPresent r (cacheRequestMap s) = (None, m) \<Longrightarrow>
     cq_step reuse s (set_rq i (RqSend r) (s\<lparr>cacheRequestMap := m\<rparr>))"
| rq_store_error: "i < length (rq_pcs s) \<Longrightarrow> rq_pcs s ! i = RqStore r \<Longrightarrow>
     addCacheSessionToMapIfNotPresent r (cacheRequestMap s) = (Some err, m) \<Longrightarrow>
     cq_step reuse s (set_rq i (RqUncount err) s)"
| rq_send: "i < length (rq_pcs s) \<Longrightarrow> rq_pcs s ! i = RqSend r \<Longrightarrow>
     SendCacheRequest r (q_dispatch s) None (q_binding s) = (None, b) \<Longrightarrow>
     cq_step reuse s (set_rq i (RqDone None) (set_ev i (EvPending (CacheSession r)) (s\<lparr>q_binding := b\<rparr>)))"
| rq_send_error: "i < length (rq_pcs s) \<Longrightarrow> rq_pcs s ! i = RqSend r \<Longrightarrow>
     SendCacheRequest r (q_dispatch s) answer (q_binding s) = (Some err, b) \<Longrightarrow>
     cq_step reuse s (set_rq i (RqFailCount r err) (s\<lparr>q_binding := b\<rparr>))"
| rq_fail_count: "i < length (rq_pcs s) \<Longrightarrow> rq_pcs s ! i = RqFailCount r err \<Longrightarrow>
     cq_step reuse s (set_rq i (RqFailClose r err) (add_outstanding (-1) s))"
| rq_fail_close: "i < length (rq_pcs s) \<Longrightarrow> rq_pcs s ! i = RqFailClose r err \<Longrightarrow>
     cq_step reuse s (set_rq i (RqFailDelete r err) (close_app_chan i s))"
| rq_fail_delete: "i < length (rq_pcs s) \<Longrightarrow> rq_pcs s ! i = RqFailDelete r err \<Longrightarrow>
     cq_step reuse s (set_rq i (RqFailDestroy r err)
       (s\<lparr>cacheRequestMap := AList.delete (request_Index r) (cacheRequestMap s)\<rparr>))"
| rq_fail_destroy: "i < length (rq_pcs s) \<Longrightarrow> rq_pcs s ! i = RqFailDestroy r err \<Longrightarrow>
     DestroyCacheRequest r answer (q_binding s) = (e, b) \<Longrightarrow>
     cq_step reuse s (set_rq i (RqDone (Some err)) (s\<lparr>q_binding := b, q_live := removeAll (CacheSession r) (q_live s)\<rparr>))"
| ev_found: "i < length (ev_pcs s) \<Longrightarrow> ev_pcs s ! i = EvPending p \<Longrightarrow> callback_found p (q_binding s) \<Longrightarrow>
     e = CacheEventInfoFromCoreCacheEventInfo event topic rc subCode rid p \<Longrightarrow> cq_step reuse s (set_ev i (EvSend e) s)"
| ev_lost: "i < length (ev_pcs s) \<Longrightarrow> ev_pcs s ! i = EvPending p \<Longrightarrow> \<not> callback_found p (q_binding s) \<Longrightarrow>
     cq_step reuse s (set_ev i EvLost s)"
| ev_send: "i < length (ev_pcs s) \<Longrightarrow> ev_pcs s ! i = EvSend e \<Longrightarrow> cacheResponseChan s = Some c \<Longrightarrow>
     chan_send e c = Return c' \<Longrightarrow>
     cq_step reuse s (set_ev i (EvForget (cacheSessionP e)) (s\<lparr>cacheResponseChan := Some c'\<rparr>))"
| ev_panic: "i < length (ev_pcs s) \<Longrightarrow> ev_pcs s ! i = EvSend e \<Longrightarrow> cacheResponseChan s = Some c \<Longrightarrow>
     chan_send e c = Panics x \<Longrightarrow> cq_step reuse s (set_ev i EvPanicked s)"
| ev_forget: "i < length (ev_pcs s) \<Longrightarrow> ev_pcs s ! i = EvForget p \<Longrightarrow>
     cq_step reuse s (set_ev i EvDone (s\<lparr>q_binding := forget_callback p (q_binding s)\<rparr>))"
| pl_recv: "poll_pc s = PlRecv \<Longrightarrow> cacheResponseChan s = Some c \<Longrightarrow> chan_recv c = Return (x, c') \<Longrightarrow>
     cq_step reuse s (s\<lparr>cacheResponseChan := Some c', poll_pc := PlCount x\<rparr>)"
| pl_count: "poll_pc s = PlCount x \<Longrightarrow>
     cq_step reuse s ((add_outstanding (-1) s)\<lparr>poll_pc := (case x of None \<Rightarrow> PlClose | Some e \<Rightarrow> PlLoad e)\<rparr>)"
| pl_load: "poll_pc s = PlLoad e \<Longrightarrow>
     cq_step reuse s (s\<lparr>poll_pc := (case map_of (cacheRequestMap s) (cacheSessionP e) of
                                      None \<Rightarrow> PlDelete e | Some r \<Rightarrow> PlRespond e r)\<rparr>)"
| pl_callback: "poll_pc s = PlRespond e r \<Longrightarrow> Processor r = ToCallback n \<Longrightarrow>
     cq_step reuse s (s\<lparr>poll_pc := PlCleanup e r, answers := answers s @ [(n, cache_response e r)]\<rparr>)"
| pl_channel: "poll_pc s = PlRespond e r \<Longrightarrow> Processor r = ToChannel n \<Longrightarrow>
     chan_send (cache_response e r) (app_chans s ! n) = Return c \<Longrightarrow>
     cq_step reuse s (s\<lparr>poll_pc := PlCleanup e r, app_chans := (app_chans s)[n := c],
                        answers := answers s @ [(n, cache_response e r)]\<rparr>)"
| pl_channel_closed: "poll_pc s = PlRespond e r \<Longrightarrow> Processor r = ToChannel n \<Longrightarrow>
     chan_send (cache_response e r) (app_chans s ! n) = Panics x \<Longrightarrow> cq_step reuse s (s\<lparr>poll_pc := PlPanicked\<rparr>)"
| pl_cleanup: "poll_pc s = PlCleanup e r \<Longrightarrow> request_cleanup r answer (q_binding s) = Return b \<Longrightarrow>
     cq_step reuse s (s\<lparr>poll_pc := PlDelete e, q_binding := b\<rparr>)"
| pl_delete: "poll_pc s = PlDelete e \<Longrightarrow>
     cq_step reuse s (s\<lparr>poll_pc := PlDestroy e, cacheRequestMap := AList.delete (cacheSessionP e) (cacheRequestMap s)\<rparr>)"
| pl_destroy: "poll_pc s = PlDestroy e \<Longrightarrow>
     cq_step reuse s (s\<lparr>poll_pc := PlRecv, q_binding := DestroyCacheSession (cacheSessionP e) (q_binding s),
                        q_live := removeAll (cacheSessionP e) (q_live s)\<rparr>)"
| pl_close: "poll_pc s = PlClose \<Longrightarrow> cachePollingRunningChan s = Some False \<Longrightarrow>
     cq_step reuse s (s\<lparr>poll_pc := PlClear, cachePollingRunningChan := Some True\<rparr>)"
| pl_clear: "poll_pc s = PlClear \<Longrightarrow> cq_step reuse s (s\<lparr>poll_pc := PlDone, cachePollingRunning := False\<rparr>)"
| app_recv: "i < length (app_chans s) \<Longrightarrow> chan_recv (app_chans s ! i) = Return (x, c) \<Longrightarrow>
     cq_step reuse s (s\<lparr>app_chans := (app_chans s)[i := c]\<rparr>)"
| service_down: "cq_step reuse s (s\<lparr>q_running := False\<rparr>)"
| terminate: "q_state s = Started \<Longrightarrow> cq_step reuse s (s\<lparr>q_state := Terminating\<rparr>)"
| td_start: "q_state s = Terminating \<Longrightarrow> td_pc s = TdIdle \<Longrightarrow> cq_step reuse s (s\<lparr>td_pc := TdCheck\<rparr>)"
| td_check: "td_pc s = TdCheck \<Longrightarrow>
     cq_step reuse s (s\<lparr>td_pc := (if cachePollingRunning s then TdRange (map fst (cacheRequestMap s)) [] else TdDone)\<rparr>)"
| td_visit: "td_pc s = TdRange keys visited \<Longrightarrow> map_of (cacheRequestMap s) k = Some r \<Longrightarrow> k \<notin> set visited \<Longrightarrow>
     cq_step reuse s (s\<lparr>td_pc := TdCancel keys (k # visited) k r\<rparr>)"
| td_cancel: "td_pc s = TdCancel keys visited k r \<Longrightarrow> CancelPendingCacheRequests k r answer (q_binding s) = (Some e, b) \<Longrightarrow>
     cq_step reuse s (s\<lparr>td_pc := TdPush keys visited e, q_binding := b\<rparr>)"
| td_cancelled: "td_pc s = TdCancel keys visited k r \<Longrightarrow> CancelPendingCacheRequests k r answer (q_binding s) = (None, b) \<Longrightarrow>
     cq_step reuse s (s\<lparr>td_pc := TdRange keys visited, q_binding := b\<rparr>)"
| td_push: "td_pc s = TdPush keys visited e \<Longrightarrow> cacheResponseChan s = Some c \<Longrightarrow> chan_send e c = Return c' \<Longrightarrow>
     cq_step reuse s (s\<lparr>td_pc := TdRange keys visited, cacheResponseChan := Some c'\<rparr>)"
| td_visited: "td_pc s = TdRange keys visited \<Longrightarrow> set keys \<inter> fst ` set (cacheRequestMap s) \<subseteq> set visited \<Longrightarrow>
     cq_step reuse s (s\<lparr>td_pc := TdClose\<rparr>)"
| td_close: "td_pc s = TdClose \<Longrightarrow> cacheResponseChan s = Some c \<Longrightarrow> chan_close c = Return c' \<Longrightarrow>
     cq_step reuse s (s\<lparr>td_pc := TdDone, cacheResponseChan := Some c'\<rparr>)"

text \<open>A started receiver that has made no cache request yet.\<close>

definition cq_init :: "u64 \<Rightarrow> cq_call list \<Rightarrow> cq_sys" where
  "cq_init dispatch calls =
     \<lparr>q_calls = calls, q_dispatch = dispatch, q_state = Started, q_running = True, cacheResourceLock = None,
      numOutstandingCacheRequests = 0, cacheResponseChan = None, cachePollingRunningChan = None,
      cachePollingRunning = False, cacheRequestMap = [], q_binding = \<lparr>cacheToEventCallbackMap = [], c_calls = []\<rparr>,
      app_chans = replicate (length calls) (make_chan 1), rq_pcs = replicate (length calls) RqIdle,
      ev_pcs = replicate (length calls) EvNone, poll_pc = PlNone, td_pc = TdIdle, q_live = [],
      q_sessions = replicate (length calls) None, answers = []\<rparr>"

section \<open>What the operations leave alone\<close>

lemma init_requestor_sel [simp]:
  "q_calls (init_requestor s) = q_calls s"
  "q_dispatch (init_requestor s) = q_dispatch s"
  "q_state (init_requestor s) = q_state s"
  "q_running (init_requestor s) = q_running s"
  "cacheResourceLock (init_requestor s) = cacheResourceLock s"
  "numOutstandingCacheRequests (init_requestor s) = numOutstandingCacheRequests s"
  "cachePollingRunning (init_requestor s) = cachePollingRunning s"
  "cacheRequestMap (init_requestor s) = cacheRequestMap s"
  "q_binding (init_requestor s) = q_binding s"
  "rq_pcs (init_requestor s) = rq_pcs s"
  "ev_pcs (init_requestor s) = ev_pcs s"
  "poll_pc (init_requestor s) = poll_pc s"
  "td_pc (init_requestor s) = td_pc s"
  "q_live (init_requestor s) = q_live s"
  "q_sessions (init_requestor s) = q_sessions s"
  "answers (init_requestor s) = answers s"
  "app_chans (init_requestor s) = app_chans s"
  by (simp_all add: init_requestor_def)

lemma close_app_chan_sel [simp]:
  "q_calls (close_app_chan i s) = q_calls s"
  "q_dispatch (close_app_chan i s) = q_dispatch s"
  "q_state (close_app_chan i s) = q_state s"
  "q_running (close_app_chan i s) = q_running s"
  "cacheResourceLock (close_app_chan i s) = cacheResourceLock s"
  "numOutstandingCacheRequests (close_app_chan i s) = numOutstandingCacheRequests s"
  "cachePollingRunning (close_app_chan i s) = cachePollingRunning s"
  "cacheRequestMap (close_app_chan i s) = cacheRequestMap s"
  "q_binding (close_app_chan i s) = q_binding s"
  "rq_pcs (close_app_chan i s) = rq_pcs s"
  "ev_pcs (close_app_chan i s) = ev_pcs s"
  "poll_pc (close_app_chan i s) = poll_pc s"
  "td_pc (close_app_chan i s) = td_pc s"
  "q_live (close_app_chan i s) = q_live s"
  "q_sessions (close_app_chan i s) = q_sessions s"
  "answers (close_app_chan i s) = answers s"
  "cacheResponseChan (close_app_chan i s) = cacheResponseChan s"
  "cachePollingRunningChan (close_app_chan i s) = cachePollingRunningChan s"
  by (simp_all add: close_app_chan_def)

lemma length_close_app_chan [simp]: "length (app_chans (close_app_chan i s)) = length (app_chans s)"
  by (simp add: close_app_chan_def)

section \<open>What holds until the tear-down\<close>

inductive_cases cq_stepE: "cq_step reuse s s'"

lemma td_idle_back: "cq_step reuse s s' \<Longrightarrow> td_pc s' = TdIdle \<Longrightarrow> td_pc s = TdIdle"
  by (induction rule: cq_step.induct) (auto split: if_splits)

lemma q_calls_const: "cq_step reuse s s' \<Longrightarrow> q_calls s' = q_calls s"
  by (induction rule: cq_step.induct) auto

definition lengths_inv :: "cq_sys \<Rightarrow> bool" where
  "lengths_inv s \<longleftrightarrow> length (rq_pcs s) = length (q_calls s) \<and> length (ev_pcs s) = length (q_calls s) \<and>
     length (app_chans s) = length (q_calls s) \<and> length (q_sessions s) = length (q_calls s)"

lemma lengths_step: "cq_step reuse s s' \<Longrightarrow> lengths_inv s \<Longrightarrow> lengths_inv s'"
  by (induction rule: cq_step.induct) (auto simp: lengths_inv_def)

text \<open>The pcs under the lock, and the call that holds it.\<close>

fun rq_locked :: "rq_pc \<Rightarrow> bool" where
  "rq_locked RqState = True"
| "rq_locked RqCounter = True"
| "rq_locked RqCount = True"
| "rq_locked RqInit = True"
| "rq_locked RqHandshake = True"
| "rq_locked RqSetRunning = True"
| "rq_locked pc = False"

definition lock_inv :: "cq_sys \<Rightarrow> bool" where
  "lock_inv s \<longleftrightarrow> (\<forall>i < length (rq_pcs s). rq_locked (rq_pcs s ! i) \<longrightarrow> cacheResourceLock s = Some i)"

lemma lock_inv_only: "lock_inv s \<Longrightarrow> i < length (rq_pcs s) \<Longrightarrow> j < length (rq_pcs s) \<Longrightarrow>
    rq_locked (rq_pcs s ! i) \<Longrightarrow> rq_locked (rq_pcs s ! j) \<Longrightarrow> i = j"
  unfolding lock_inv_def by (metis option.inject)

lemma lock_frame:
  assumes "lock_inv s"
    and "(rq_pcs s' = rq_pcs s \<and> cacheResourceLock s' = cacheResourceLock s) \<or>
      (\<exists>i < length (rq_pcs s). \<exists>pc. rq_pcs s' = (rq_pcs s)[i := pc] \<and>
        (cacheResourceLock s' = cacheResourceLock s \<and> (rq_locked pc \<longrightarrow> rq_locked (rq_pcs s ! i)) \<or>
         cacheResourceLock s = None \<and> cacheResourceLock s' = Some i \<or>
         rq_locked (rq_pcs s ! i) \<and> \<not> rq_locked pc \<and> cacheResourceLock s' = None))"
  shows "lock_inv s'"
  using assms lock_inv_only [OF assms(1)] by (auto simp: lock_inv_def nth_list_update split: if_splits)

lemma lock_step: "cq_step reuse s s' \<Longrightarrow> lock_inv s \<Longrightarrow> lock_inv s'"
  by (induction rule: cq_step.induct)
    (erule lock_frame; force)+

text \<open>Nothing is closed before the tear-down, and the poller does not end.\<close>

definition open_inv :: "cq_sys \<Rightarrow> bool" where
  "open_inv s \<longleftrightarrow>
     (\<forall>c. cacheResponseChan s = Some c \<longrightarrow> chan_cap c = 1024 \<and> \<not> chan_closed c) \<and>
     cachePollingRunningChan s \<noteq> Some True \<and> poll_pc s \<notin> {PlCount None, PlClose, PlClear, PlDone}"

lemma open_step: "cq_step reuse s s' \<Longrightarrow> td_pc s' = TdIdle \<Longrightarrow> open_inv s \<Longrightarrow> open_inv s'"
  by (induction rule: cq_step.induct)
    (auto simp: open_inv_def init_requestor_def MaxOutstandingCacheRequests_def make_chan_def chan_send_def chan_recv_def
      split: option.splits if_splits list.splits)

text \<open>The poller runs once: it is started by the first call that finds it not running, under the lock.\<close>

definition start_inv :: "cq_sys \<Rightarrow> bool" where
  "start_inv s \<longleftrightarrow>
     (cacheResponseChan s = None \<longrightarrow> poll_pc s = PlNone) \<and>
     (cachePollingRunning s \<longrightarrow> poll_pc s \<notin> {PlNone, PlStart}) \<and>
     (\<not> cachePollingRunning s \<and> poll_pc s \<noteq> PlNone \<longrightarrow>
        (\<exists>i < length (rq_pcs s). rq_pcs s ! i = RqHandshake \<or> rq_pcs s ! i = RqSetRunning)) \<and>
     (\<forall>i < length (rq_pcs s). rq_pcs s ! i = RqHandshake \<longrightarrow> poll_pc s = PlStart) \<and>
     (\<forall>i < length (rq_pcs s). rq_pcs s ! i = RqSetRunning \<longrightarrow> poll_pc s \<notin> {PlNone, PlStart})"

lemma start_frame:
  assumes "start_inv s"
    and "cacheResponseChan s' = None \<longleftrightarrow> cacheResponseChan s = None" and "cachePollingRunning s' = cachePollingRunning s"
    and "poll_pc s' = PlNone \<longleftrightarrow> poll_pc s = PlNone" and "poll_pc s' = PlStart \<longleftrightarrow> poll_pc s = PlStart"
    and "length (rq_pcs s') = length (rq_pcs s)"
    and "\<And>j. j < length (rq_pcs s) \<Longrightarrow> rq_pcs s' ! j = RqHandshake \<longleftrightarrow> rq_pcs s ! j = RqHandshake"
    and "\<And>j. j < length (rq_pcs s) \<Longrightarrow> rq_pcs s' ! j = RqSetRunning \<longleftrightarrow> rq_pcs s ! j = RqSetRunning"
  shows "start_inv s'"
  using assms(1) unfolding start_inv_def by (simp add: assms(2-8)) (metis assms(7,8))

lemma start_poller_idle:
  assumes "start_inv s" "lock_inv s" "i < length (rq_pcs s)" "rq_pcs s ! i = RqInit" "\<not> cachePollingRunning s"
  shows "poll_pc s = PlNone"
proof (rule ccontr)
  assume "poll_pc s \<noteq> PlNone"
  then obtain j where "j < length (rq_pcs s)" "rq_pcs s ! j = RqHandshake \<or> rq_pcs s ! j = RqSetRunning"
    using assms(1,5) by (auto simp: start_inv_def)
  moreover from this have "i = j" using assms(4) by (intro lock_inv_only [OF assms(2,3)]) auto
  ultimately show False using assms(4) by auto
qed

lemma start_step:
  assumes "cq_step reuse s s'" "td_pc s' = TdIdle" "open_inv s" "lock_inv s" "start_inv s"
  shows "start_inv s'"
  using assms
proof (induction rule: cq_step.induct)
  case (rq_running i s)
  then have "cacheResponseChan s \<noteq> None" by (auto simp: start_inv_def)
  then show ?case
    using rq_running by (intro start_frame [OF rq_running.prems(4)]) (auto simp: nth_list_update init_requestor_def split: option.splits)
next
  case (rq_start i s)
  then have idle: "poll_pc s = PlNone" by (intro start_poller_idle) auto
  with rq_start show ?case
    by (auto simp: start_inv_def nth_list_update init_requestor_def split: option.splits)
next
  case (handshake i s)
  have "rq_pcs s ! j \<noteq> RqHandshake" if "j < length (rq_pcs s)" "j \<noteq> i" for j
    using lock_inv_only [OF handshake.prems(3) handshake.hyps(1) that(1)] handshake.hyps(2) that by auto
  with handshake show ?case by (auto simp: start_inv_def nth_list_update)
next
  case (rq_handshake_closed i s)
  then show ?case by (simp add: open_inv_def)
next
  case (rq_set_running i s)
  have "rq_pcs s ! j \<noteq> RqHandshake" if "j < length (rq_pcs s)" "j \<noteq> i" for j
    using lock_inv_only [OF rq_set_running.prems(3) rq_set_running.hyps(1) that(1)] rq_set_running.hyps(2) that by auto
  with rq_set_running show ?case by (auto simp: start_inv_def nth_list_update)
next
  case (pl_start_closed s)
  then show ?case by (simp add: open_inv_def)
next
  case (pl_close s)
  then show ?case by (simp add: open_inv_def)
next
  case (pl_clear s)
  then show ?case by (simp add: open_inv_def)
qed (rule start_frame, assumption; auto simp: nth_list_update start_inv_def split: option.splits if_splits)+

text \<open>Calls that have not reached the start of the poller, or have returned an error.\<close>

fun rq_early :: "rq_pc \<Rightarrow> bool" where
  "rq_early RqIdle = True"
| "rq_early RqState = True"
| "rq_early RqCounter = True"
| "rq_early RqCount = True"
| "rq_early RqInit = True"
| "rq_early (RqDone (Some e)) = True"
| "rq_early pc = False"

definition late_inv :: "cq_sys \<Rightarrow> bool" where
  "late_inv s \<longleftrightarrow> (\<forall>i < length (rq_pcs s). \<not> rq_early (rq_pcs s ! i) \<longrightarrow> cacheResponseChan s \<noteq> None)"

lemma late_step: "cq_step reuse s s' \<Longrightarrow> late_inv s \<Longrightarrow> late_inv s'"
  by (induction rule: cq_step.induct)
    (auto simp: late_inv_def nth_list_update init_requestor_def split: option.splits)

definition sent_inv :: "cq_sys \<Rightarrow> bool" where
  "sent_inv s \<longleftrightarrow> (\<forall>i < length (q_calls s). ev_pcs s ! i \<noteq> EvNone \<longleftrightarrow> rq_pcs s ! i = RqDone None)"

lemma sent_step: "cq_step reuse s s' \<Longrightarrow> lengths_inv s \<Longrightarrow> sent_inv s \<Longrightarrow> sent_inv s'"
  by (induction rule: cq_step.induct) (auto simp: sent_inv_def nth_list_update lengths_inv_def)

text \<open>
  The counter: it counts the calls that have been admitted and whose event has not been taken from the
  channel, and it stays within the bound that the admission checks.
\<close>

fun weight :: "rq_pc \<Rightarrow> ev_pc \<Rightarrow> int" where
  "weight (RqDone None) (EvForget p) = 0"
| "weight (RqDone None) EvDone = 0"
| "weight (RqDone None) EvNone = 0"
| "weight (RqDone None) ev = 1"
| "weight RqInit ev = 1"
| "weight RqHandshake ev = 1"
| "weight RqSetRunning ev = 1"
| "weight RqCreate ev = 1"
| "weight (RqUncount err) ev = 1"
| "weight (RqStore r) ev = 1"
| "weight (RqSend r) ev = 1"
| "weight (RqFailCount r err) ev = 1"
| "weight RqPanicked ev = 1"
| "weight pc ev = 0"

definition total :: "rq_pc list \<Rightarrow> ev_pc list \<Rightarrow> int" where
  "total rqs evs = (\<Sum>i < length rqs. weight (rqs ! i) (evs ! i))"

lemma weight_nonneg: "0 \<le> weight pc ev"
  by (induction pc ev rule: weight.induct) auto

lemma sum_fun_upd_int:
  fixes f :: "nat \<Rightarrow> int"
  assumes "i < n"
  shows "(\<Sum>j < n. if j = i then x else f j) = (\<Sum>j < n. f j) - f i + x"
proof -
  have "(\<Sum>j < n. if j = i then x else f j) = x + (\<Sum>j \<in> {..<n} - {i}. f j)"
    using assms by (subst sum.remove [of _ i]) (auto intro: sum.cong)
  moreover have "(\<Sum>j < n. f j) = f i + (\<Sum>j \<in> {..<n} - {i}. f j)"
    using assms by (intro sum.remove) auto
  ultimately show ?thesis by simp
qed

lemma total_rq [simp]:
  assumes "i < length rqs"
  shows "total (rqs[i := pc]) evs = total rqs evs - weight (rqs ! i) (evs ! i) + weight pc (evs ! i)"
proof -
  have "total (rqs[i := pc]) evs = (\<Sum>j < length rqs. if j = i then weight pc (evs ! i) else weight (rqs ! j) (evs ! j))"
    using assms by (auto simp: total_def nth_list_update intro: sum.cong)
  with assms show ?thesis by (simp add: sum_fun_upd_int total_def)
qed

lemma total_ev [simp]:
  assumes "i < length rqs" "i < length evs"
  shows "total rqs (evs[i := ev]) = total rqs evs - weight (rqs ! i) (evs ! i) + weight (rqs ! i) ev"
proof -
  have "total rqs (evs[i := ev]) = (\<Sum>j < length rqs. if j = i then weight (rqs ! i) ev else weight (rqs ! j) (evs ! j))"
    using assms by (auto simp: total_def nth_list_update intro: sum.cong)
  with assms show ?thesis by (simp add: sum_fun_upd_int total_def)
qed

lemma total_ge: "0 \<le> total rqs evs"
  by (simp add: total_def sum_nonneg weight_nonneg)

lemma total_ge_weight: "i < length rqs \<Longrightarrow> weight (rqs ! i) (evs ! i) \<le> total rqs evs"
  unfolding total_def by (rule member_le_sum) (auto simp: weight_nonneg)

fun queued :: "'a chan option \<Rightarrow> int" where
  "queued None = 0"
| "queued (Some c) = int (length (chan_items c))"

fun held :: "poll_pc \<Rightarrow> int" where
  "held (PlCount x) = 1"
| "held pc = 0"

definition count_inv :: "cq_sys \<Rightarrow> bool" where
  "count_inv s \<longleftrightarrow>
     numOutstandingCacheRequests s = total (rq_pcs s) (ev_pcs s) + queued (cacheResponseChan s) + held (poll_pc s) \<and>
     numOutstandingCacheRequests s \<le> MaxOutstandingCacheRequests \<and>
     (\<forall>i < length (rq_pcs s). rq_pcs s ! i = RqCount \<longrightarrow> numOutstandingCacheRequests s < MaxOutstandingCacheRequests)"

lemma cq_count_frame:
  assumes "count_inv s"
    and "total (rq_pcs s') (ev_pcs s') + queued (cacheResponseChan s') + held (poll_pc s') - numOutstandingCacheRequests s' =
      total (rq_pcs s) (ev_pcs s) + queued (cacheResponseChan s) + held (poll_pc s) - numOutstandingCacheRequests s"
    and "numOutstandingCacheRequests s' \<le> numOutstandingCacheRequests s"
    and "length (rq_pcs s') = length (rq_pcs s)"
    and "\<And>j. j < length (rq_pcs s) \<Longrightarrow> rq_pcs s' ! j = RqCount \<Longrightarrow> rq_pcs s ! j = RqCount"
  shows "count_inv s'"
  using assms unfolding count_inv_def by force

lemma held_load [simp]: "held (case x of None \<Rightarrow> PlClose | Some e \<Rightarrow> PlLoad e) = 0"
    "held (case y of None \<Rightarrow> PlDelete e | Some r \<Rightarrow> PlRespond e r) = 0"
  by (simp_all split: option.splits)

lemma queued_init [simp]: "queued (cacheResponseChan (init_requestor s)) = queued (cacheResponseChan s)"
  by (simp add: init_requestor_def make_chan_def split: option.splits)

lemma queued_recv: "chan_recv c = Return (x, c') \<Longrightarrow> \<not> chan_closed c \<Longrightarrow>
    int (length (chan_items c)) = int (length (chan_items c')) + 1"
  by (auto simp: chan_recv_def split: list.splits)

lemma count_step:
  assumes "cq_step reuse s s'" "td_pc s' = TdIdle" "open_inv s" "lock_inv s" "start_inv s" "lengths_inv s" "sent_inv s"
    "count_inv s"
  shows "count_inv s'"
  using assms
proof (induction rule: cq_step.induct)
  case (rq_counter i s)
  then show ?case by (auto simp: count_inv_def check_counter_def nth_list_update split: if_splits)
next
  case (rq_count i s)
  have "rq_pcs s ! j \<noteq> RqCount" if "j < length (rq_pcs s)" "j \<noteq> i" for j
    using lock_inv_only [OF rq_count.prems(3) rq_count.hyps(1) that(1)] rq_count.hyps(2) that by auto
  with rq_count show ?case by (auto simp: count_inv_def nth_list_update)
next
  case (rq_start i s)
  then have idle: "poll_pc s = PlNone" by (intro start_poller_idle) auto
  with rq_start show ?case
    by (intro cq_count_frame [OF rq_start.prems(7)]) (auto simp: nth_list_update split: if_splits)
next
  case (rq_send i s r b)
  then have "ev_pcs s ! i = EvNone" by (auto simp: sent_inv_def lengths_inv_def)
  with rq_send show ?case
    by (intro cq_count_frame [OF rq_send.prems(7)]) (auto simp: nth_list_update lengths_inv_def split: if_splits)
next
  case (ev_found i s p e event topic rc subCode rid)
  then have "rq_pcs s ! i = RqDone None" by (auto simp: sent_inv_def lengths_inv_def)
  with ev_found show ?case
    by (intro cq_count_frame [OF ev_found.prems(7)]) (auto simp: lengths_inv_def)
next
  case (ev_lost i s p)
  then have "rq_pcs s ! i = RqDone None" by (auto simp: sent_inv_def lengths_inv_def)
  with ev_lost show ?case
    by (intro cq_count_frame [OF ev_lost.prems(7)]) (auto simp: lengths_inv_def)
next
  case (ev_send i s e c c')
  then have "rq_pcs s ! i = RqDone None" by (auto simp: sent_inv_def lengths_inv_def)
  with ev_send show ?case
    by (intro cq_count_frame [OF ev_send.prems(7)]) (auto simp: lengths_inv_def dest!: chan_send_items)
next
  case (ev_panic i s e c x)
  then show ?case by (auto simp: open_inv_def chan_send_def split: if_splits)
next
  case (ev_forget i s p)
  then have "rq_pcs s ! i = RqDone None" by (auto simp: sent_inv_def lengths_inv_def)
  with ev_forget show ?case
    by (intro cq_count_frame [OF ev_forget.prems(7)]) (auto simp: lengths_inv_def)
next
  case (pl_recv s c x c')
  then show ?case
    by (intro cq_count_frame [OF pl_recv.prems(7)]) (auto simp: open_inv_def dest!: queued_recv)
qed (rule cq_count_frame, assumption; auto simp: nth_list_update split: if_splits)+

section \<open>Sessions and requests\<close>

text \<open>The requests of the calls come from the constructor.\<close>

definition made_inv :: "cq_sys \<Rightarrow> bool" where
  "made_inv s \<longleftrightarrow> (\<forall>c \<in> set (q_calls s). \<exists>strategy name topic timeout n age.
     arg_request c = NewCachedMessageSubscriptionRequest strategy name topic timeout n age)"

lemma made_step: "cq_step reuse s s' \<Longrightarrow> made_inv s \<Longrightarrow> made_inv s'"
  by (simp add: made_inv_def q_calls_const)

definition serves :: "cq_sys \<Rightarrow> nat \<Rightarrow> CacheRequestImpl \<Rightarrow> bool" where
  "serves s i r \<longleftrightarrow> request_wf r \<and> Processor r = call_processor i (q_calls s ! i) \<and>
     request_ID r = arg_id (q_calls s ! i) \<and> q_sessions s ! i = Some (CacheSession r)"

fun request_at :: "rq_pc \<Rightarrow> CacheRequestImpl option" where
  "request_at (RqStore r) = Some r"
| "request_at (RqSend r) = Some r"
| "request_at (RqFailCount r err) = Some r"
| "request_at (RqFailClose r err) = Some r"
| "request_at (RqFailDelete r err) = Some r"
| "request_at (RqFailDestroy r err) = Some r"
| "request_at pc = None"

fun no_session :: "rq_pc \<Rightarrow> bool" where
  "no_session RqIdle = True"
| "no_session RqState = True"
| "no_session RqCounter = True"
| "no_session RqCount = True"
| "no_session RqInit = True"
| "no_session RqHandshake = True"
| "no_session RqSetRunning = True"
| "no_session RqCreate = True"
| "no_session pc = False"

fun ev_session :: "ev_pc \<Rightarrow> u64 option" where
  "ev_session (EvPending p) = Some p"
| "ev_session (EvSend e) = Some (cacheSessionP e)"
| "ev_session (EvForget p) = Some p"
| "ev_session pc = None"

definition session_inv :: "cq_sys \<Rightarrow> bool" where
  "session_inv s \<longleftrightarrow> (\<forall>i < length (q_calls s).
     (no_session (rq_pcs s ! i) \<longrightarrow> q_sessions s ! i = None) \<and>
     (rq_pcs s ! i = RqDone None \<longrightarrow> q_sessions s ! i \<noteq> None) \<and>
     (\<forall>r. request_at (rq_pcs s ! i) = Some r \<longrightarrow> serves s i r) \<and>
     (\<forall>p. ev_session (ev_pcs s ! i) = Some p \<longrightarrow> q_sessions s ! i = Some p))"

definition distinct_inv :: "cq_sys \<Rightarrow> bool" where
  "distinct_inv s \<longleftrightarrow> (\<forall>i < length (q_sessions s). \<forall>j < length (q_sessions s). \<forall>p.
     q_sessions s ! i = Some p \<longrightarrow> q_sessions s ! j = Some p \<longrightarrow> i = j)"

lemma distinct_step: "cq_step False s s' \<Longrightarrow> lengths_inv s \<Longrightarrow> distinct_inv s \<Longrightarrow> distinct_inv s'"
proof (induction rule: cq_step.induct)
  case (rq_create i s p allocated r b)
  then have "q_sessions s ! j \<noteq> Some p" if "j < length (q_sessions s)" for j
    using that by (auto simp: fresh_session_def in_set_conv_nth)
  with rq_create show ?case by (auto simp: distinct_inv_def nth_list_update lengths_inv_def split: if_splits)
qed (auto simp: distinct_inv_def)

lemma CreateCacheRequest_serves:
  assumes "CreateCacheRequest (NewCachedMessageSubscriptionRequest strategy name topic timeout n age) rid handler
      dispatch (Inr p) allocated b = Return (Inr r, b')"
  shows "request_wf r \<and> Processor r = handler \<and> request_ID r = rid \<and> CacheSession r = p \<and>
    cacheToEventCallbackMap b' = cacheToEventCallbackMap b"
proof -
  let ?q = "NewCachedMessageSubscriptionRequest strategy name topic timeout n age"
  have strategy: "strategy \<in> {0, 1, 2, 3}"
    using assms
    by (rule contrapos_pp)
      (simp add: CreateCacheRequest_def CreateCacheSession_def NewCacheRequest_def Let_def UsesLocalDispatch_def NewCached_strategy)
  have "cachedMessageSubscriptionStrategy ?q = Some strategy" using strategy by (simp add: NewCached_strategy)
  from NewCacheRequest_wf [OF strategy this, of rid handler p dispatch allocated
      "c_call (C_CreateCacheSession (ConvertCachedMessageSubscriptionRequestToCcsmpPropsList ?q)) b"]
  show ?thesis using assms by (auto simp: CreateCacheRequest_def CreateCacheSession_def)
qed

lemma serves_frame: "serves s i r \<Longrightarrow> q_calls s' = q_calls s \<Longrightarrow> q_sessions s' ! i = q_sessions s ! i \<Longrightarrow> serves s' i r"
  by (simp add: serves_def)

lemma session_frame:
  assumes "session_inv s" and "q_calls s' = q_calls s" and "q_sessions s' = q_sessions s"
    and "\<And>i. i < length (q_calls s) \<Longrightarrow> no_session (rq_pcs s' ! i) \<Longrightarrow> no_session (rq_pcs s ! i)"
    and "\<And>i. i < length (q_calls s) \<Longrightarrow> rq_pcs s' ! i = RqDone None \<Longrightarrow> rq_pcs s ! i = RqDone None \<or> request_at (rq_pcs s ! i) \<noteq> None"
    and "\<And>i r. i < length (q_calls s) \<Longrightarrow> request_at (rq_pcs s' ! i) = Some r \<Longrightarrow> request_at (rq_pcs s ! i) = Some r"
    and "\<And>i p. i < length (q_calls s) \<Longrightarrow> ev_session (ev_pcs s' ! i) = Some p \<Longrightarrow>
      ev_session (ev_pcs s ! i) = Some p \<or> (\<exists>r. request_at (rq_pcs s ! i) = Some r \<and> CacheSession r = p)"
  shows "session_inv s'"
  using assms(1) unfolding session_inv_def assms(2,3)
  apply (intro allI impI conjI)
  subgoal using assms(4) by blast
  subgoal using assms(5) by (fastforce simp: serves_def)
  subgoal by (metis assms(2,3,6) serves_frame)
  subgoal using assms(7) by (fastforce simp: serves_def)
  done

lemma session_step:
  assumes "cq_step reuse s s'" "lengths_inv s" "made_inv s" "session_inv s" "sent_inv s"
  shows "session_inv s'"
  using assms
proof (induction rule: cq_step.induct)
  case (rq_create i s p allocated r b)
  have i: "i < length (q_calls s)" using rq_create by (simp add: lengths_inv_def)
  then obtain strategy name topic timeout n age where
    "arg_request (q_calls s ! i) = NewCachedMessageSubscriptionRequest strategy name topic timeout n age"
    using rq_create.prems(2) nth_mem [OF i] unfolding made_inv_def by meson
  with rq_create have r: "request_wf r \<and> Processor r = call_processor i (q_calls s ! i) \<and>
      request_ID r = arg_id (q_calls s ! i) \<and> CacheSession r = p"
    using CreateCacheRequest_serves by metis
  have "ev_pcs s ! i = EvNone" using rq_create i by (auto simp: sent_inv_def)
  with rq_create r show ?case
    by (auto simp: session_inv_def serves_def nth_list_update lengths_inv_def)
qed (rule session_frame, assumption; auto simp: nth_list_update lengths_inv_def CacheEventInfoFromCoreCacheEventInfo_def
      session_inv_def serves_def split: if_splits)+

section \<open>Every accepted request has one event or one answer\<close>

fun chan_events :: "CacheEventInfo chan option \<Rightarrow> u64 list" where
  "chan_events None = []"
| "chan_events (Some c) = map cacheSessionP (chan_items c)"

fun poll_event :: "poll_pc \<Rightarrow> u64 list" where
  "poll_event (PlCount (Some e)) = [cacheSessionP e]"
| "poll_event (PlLoad e) = [cacheSessionP e]"
| "poll_event (PlRespond e r) = [cacheSessionP e]"
| "poll_event pc = []"

fun poll_after :: "poll_pc \<Rightarrow> u64 list" where
  "poll_after (PlCleanup e r) = [cacheSessionP e]"
| "poll_after (PlDelete e) = [cacheSessionP e]"
| "poll_after (PlDestroy e) = [cacheSessionP e]"
| "poll_after pc = []"

fun ev_waiting :: "ev_pc \<Rightarrow> nat" where
  "ev_waiting (EvPending p) = 1"
| "ev_waiting (EvSend e) = 1"
| "ev_waiting pc = 0"

definition answer_count :: "cq_sys \<Rightarrow> nat \<Rightarrow> nat" where
  "answer_count s i = count_list (map fst (answers s)) i"

definition event_count :: "cq_sys \<Rightarrow> nat \<Rightarrow> nat" where
  "event_count s i = (case q_sessions s ! i of None \<Rightarrow> 0
     | Some p \<Rightarrow> count_list (chan_events (cacheResponseChan s)) p + count_list (poll_event (poll_pc s)) p)"

text \<open>
  Of every call that returned without an error there is exactly one of: the event the C library has yet to
  deliver, the event in the channel or in the hands of the poller, the answer.
\<close>

definition token_inv :: "cq_sys \<Rightarrow> bool" where
  "token_inv s \<longleftrightarrow> (\<forall>i < length (q_calls s).
     ev_waiting (ev_pcs s ! i) + event_count s i + answer_count s i = (if rq_pcs s ! i = RqDone None then 1 else 0))"

definition owner_inv :: "cq_sys \<Rightarrow> bool" where
  "owner_inv s \<longleftrightarrow>
     (\<forall>p \<in> set (chan_events (cacheResponseChan s)) \<union> set (poll_event (poll_pc s)) \<union> set (poll_after (poll_pc s)).
        Some p \<in> set (q_sessions s)) \<and>
     (\<forall>i < length (q_calls s). \<forall>p \<in> set (poll_after (poll_pc s)). q_sessions s ! i = Some p \<longrightarrow> 0 < answer_count s i)"

definition map_inv :: "cq_sys \<Rightarrow> bool" where
  "map_inv s \<longleftrightarrow>
     (\<forall>k r. map_of (cacheRequestMap s) k = Some r \<longrightarrow> (\<exists>i < length (q_calls s). serves s i r \<and> CacheSession r = k)) \<and>
     (\<forall>i < length (q_calls s). \<forall>r. rq_pcs s ! i = RqSend r \<longrightarrow> map_of (cacheRequestMap s) (CacheSession r) \<noteq> None) \<and>
     (\<forall>i < length (q_calls s). \<forall>p. rq_pcs s ! i = RqDone None \<and> answer_count s i = 0 \<and> q_sessions s ! i = Some p \<longrightarrow>
        map_of (cacheRequestMap s) p \<noteq> None) \<and>
     (\<forall>e r. poll_pc s = PlRespond e r \<longrightarrow> map_of (cacheRequestMap s) (cacheSessionP e) = Some r)"

fun rq_failing :: "rq_pc \<Rightarrow> bool" where
  "rq_failing (RqUncount err) = True"
| "rq_failing (RqFailDelete r err) = True"
| "rq_failing (RqFailDestroy r err) = True"
| "rq_failing (RqDone (Some err)) = True"
| "rq_failing pc = False"

definition app_inv :: "cq_sys \<Rightarrow> bool" where
  "app_inv s \<longleftrightarrow> (\<forall>i < length (q_calls s). chan_cap (app_chans s ! i) = 1 \<and>
     (answer_count s i = 0 \<longrightarrow> chan_items (app_chans s ! i) = []) \<and>
     (chan_closed (app_chans s ! i) \<longrightarrow> rq_failing (rq_pcs s ! i)))"

definition found_inv :: "cq_sys \<Rightarrow> bool" where
  "found_inv s \<longleftrightarrow> (\<forall>i < length (q_calls s). \<forall>p. ev_pcs s ! i = EvPending p \<longrightarrow>
     p \<in> set (cacheToEventCallbackMap (q_binding s)))"

lemma processor_call_processor [simp]: "processor_call (call_processor i c) = i"
  by (simp add: call_processor_def)

lemma token_event:
  assumes "token_inv s" and "i < length (q_calls s)" and "q_sessions s ! i = Some p"
    and "p \<in> set (chan_events (cacheResponseChan s)) \<union> set (poll_event (poll_pc s))"
  shows "rq_pcs s ! i = RqDone None \<and> answer_count s i = 0 \<and> ev_waiting (ev_pcs s ! i) = 0"
proof -
  have "0 < event_count s i"
    using assms(3,4) by (auto simp: event_count_def count_list_0_iff neq0_conv [symmetric] simp del: neq0_conv)
  then show ?thesis using assms(1,2) by (fastforce simp: token_inv_def split: if_splits)
qed

lemma owner_obtain:
  assumes "owner_inv s" "lengths_inv s"
    and "p \<in> set (chan_events (cacheResponseChan s)) \<union> set (poll_event (poll_pc s)) \<union> set (poll_after (poll_pc s))"
  obtains i where "i < length (q_calls s)" "q_sessions s ! i = Some p"
  using assms unfolding owner_inv_def lengths_inv_def by (metis in_set_conv_nth)

text \<open>The request the poller is about to answer is that of an accepted and unanswered call.\<close>

lemma respond_call:
  assumes "poll_pc s = PlRespond e r" "map_inv s" "token_inv s"
  obtains i where "i < length (q_calls s)" "serves s i r" "q_sessions s ! i = Some (cacheSessionP e)"
    "rq_pcs s ! i = RqDone None" "answer_count s i = 0"
proof -
  have "map_of (cacheRequestMap s) (cacheSessionP e) = Some r"
    using assms(1,2) by (simp add: map_inv_def)
  then obtain i where "i < length (q_calls s)" "serves s i r" "CacheSession r = cacheSessionP e"
    using assms(2) unfolding map_inv_def by blast
  moreover from this have "q_sessions s ! i = Some (cacheSessionP e)" by (simp add: serves_def)
  moreover from this have "rq_pcs s ! i = RqDone None \<and> answer_count s i = 0"
    using token_event [OF assms(3) \<open>i < _\<close>] assms(1) by auto
  ultimately show thesis using that by blast
qed

lemma respond_send:
  assumes "poll_pc s = PlRespond e r" "map_inv s" "token_inv s" "app_inv s" "Processor r = ToChannel n"
  shows "\<exists>c. chan_send x (app_chans s ! n) = Return c"
proof -
  obtain i where i: "i < length (q_calls s)" "serves s i r" "rq_pcs s ! i = RqDone None" "answer_count s i = 0"
    using assms(1-3) by (rule respond_call)
  then have "n = i" using assms(5) by (auto simp: serves_def call_processor_def split: if_splits)
  moreover have "chan_cap (app_chans s ! i) = 1" "chan_items (app_chans s ! i) = []" "\<not> chan_closed (app_chans s ! i)"
    using assms(4) i by (auto simp: app_inv_def)
  ultimately show ?thesis by (simp add: chan_send_def)
qed

text \<open>Nothing can go wrong with the event of a call before the tear-down.\<close>

lemma load_found:
  assumes "poll_pc s = PlLoad e" "map_inv s" "token_inv s" "owner_inv s" "lengths_inv s"
  shows "map_of (cacheRequestMap s) (cacheSessionP e) \<noteq> None"
proof -
  obtain i where i: "i < length (q_calls s)" "q_sessions s ! i = Some (cacheSessionP e)"
    using owner_obtain [OF assms(4,5), of "cacheSessionP e"] assms(1) by auto
  then show ?thesis using token_event [OF assms(3) i] assms(1,2) by (auto simp: map_inv_def)
qed

lemma answer_count_append [simp]:
  "answer_count (s\<lparr>answers := answers s @ [(n, x)]\<rparr>) i = answer_count s i + (if n = i then 1 else 0)"
  by (simp add: answer_count_def)

lemma token_frame:
  assumes "token_inv s" "q_calls s' = q_calls s"
    and "\<And>i. i < length (q_calls s) \<Longrightarrow>
      ev_waiting (ev_pcs s' ! i) + event_count s' i + answer_count s' i =
      ev_waiting (ev_pcs s ! i) + event_count s i + answer_count s i"
    and "\<And>i. i < length (q_calls s) \<Longrightarrow> rq_pcs s' ! i = RqDone None \<longleftrightarrow> rq_pcs s ! i = RqDone None"
  shows "token_inv s'"
  using assms by (simp add: token_inv_def)

lemma chan_events_init [simp]: "chan_events (cacheResponseChan (init_requestor s)) = chan_events (cacheResponseChan s)"
  by (simp add: init_requestor_def make_chan_def split: option.splits)

definition tokens_inv :: "cq_sys \<Rightarrow> bool" where
  "tokens_inv s \<longleftrightarrow> lengths_inv s \<and> open_inv s \<and> lock_inv s \<and> start_inv s \<and> sent_inv s \<and> session_inv s \<and> distinct_inv s \<and>
     token_inv s \<and> owner_inv s \<and> map_inv s \<and> app_inv s \<and> found_inv s"

lemma tokens_invD:
  assumes "tokens_inv s"
  shows "lengths_inv s" "open_inv s" "lock_inv s" "start_inv s" "sent_inv s" "session_inv s" "distinct_inv s" "token_inv s"
    "owner_inv s" "map_inv s" "app_inv s" "found_inv s"
  using assms by (simp_all add: tokens_inv_def)

lemma token_step:
  assumes "cq_step False s s'" "td_pc s' = TdIdle" "tokens_inv s"
  shows "token_inv s'"
  using assms
proof (induction rule: cq_step.induct)
  case (rq_start i s)
  then have idle: "poll_pc s = PlNone" by (intro start_poller_idle) (auto simp: tokens_inv_def)
  with rq_start show ?case
    by - (rule token_frame [of s]; auto simp: tokens_inv_def event_count_def answer_count_def nth_list_update split: if_splits option.splits)
next
  case (rq_create i s p allocated r b)
  have none: "q_sessions s ! i = None" using rq_create by (auto simp: tokens_inv_def session_inv_def lengths_inv_def)
  have "p \<notin> set (chan_events (cacheResponseChan s)) \<union> set (poll_event (poll_pc s))"
    using rq_create by (auto simp: tokens_inv_def owner_inv_def fresh_session_def)
  then have "count_list (chan_events (cacheResponseChan s)) p = 0" "count_list (poll_event (poll_pc s)) p = 0"
    by (auto simp: count_list_0_iff)
  with rq_create none show ?case
    by - (rule token_frame [of s]; auto simp: tokens_inv_def event_count_def answer_count_def nth_list_update lengths_inv_def split: if_splits option.splits)
next
  case (rq_send i s r b)
  then have "ev_pcs s ! i = EvNone" by (auto simp: tokens_inv_def sent_inv_def lengths_inv_def)
  moreover have "event_count (set_rq i (RqDone None) (set_ev i (EvPending (CacheSession r)) (s\<lparr>q_binding := b\<rparr>))) j = event_count s j"
    "answer_count (set_rq i (RqDone None) (set_ev i (EvPending (CacheSession r)) (s\<lparr>q_binding := b\<rparr>))) j = answer_count s j" for j
    by (simp_all add: event_count_def answer_count_def cong: option.case_cong)
  ultimately show ?case
    using rq_send by (auto simp: tokens_inv_def token_inv_def nth_list_update lengths_inv_def)
next
  case (ev_lost i s p)
  then show ?case by (auto simp: tokens_inv_def found_inv_def callback_found_def lengths_inv_def)
next
  case (ev_send i s e c c')
  have mine: "q_sessions s ! i = Some (cacheSessionP e)"
    using ev_send by (auto simp: tokens_inv_def session_inv_def lengths_inv_def)
  have other: "q_sessions s ! j \<noteq> Some (cacheSessionP e)" if "j < length (q_calls s)" "j \<noteq> i" for j
    using ev_send that mine by (auto simp: tokens_inv_def distinct_inv_def lengths_inv_def)
  have items: "chan_items c' = chan_items c @ [e]" using ev_send by (auto dest: chan_send_items)
  show ?case
    using ev_send mine other items
    by - (rule token_frame [of s]; auto simp: tokens_inv_def event_count_def answer_count_def nth_list_update lengths_inv_def split: option.splits)
next
  case (ev_panic i s e c x)
  then show ?case by (auto simp: tokens_inv_def open_inv_def chan_send_def split: if_splits option.splits)
next
  case (pl_recv s c x c')
  then obtain e where "x = Some e" "chan_items c = e # chan_items c'"
    by (cases x) (auto simp: tokens_inv_def open_inv_def chan_recv_None dest: chan_recv_Some)
  with pl_recv show ?case
    by - (rule token_frame [of s]; auto simp: tokens_inv_def event_count_def answer_count_def split: option.splits)
next
  case (pl_count s x)
  then have "x \<noteq> None" by (auto simp: tokens_inv_def open_inv_def)
  with pl_count show ?case
    by - (rule token_frame [of s]; auto simp: tokens_inv_def event_count_def answer_count_def split: option.splits)
next
  case (pl_load s e)
  then have "map_of (cacheRequestMap s) (cacheSessionP e) \<noteq> None"
    by (intro load_found) (auto simp: tokens_inv_def)
  with pl_load show ?case
    by - (rule token_frame [of s]; auto simp: tokens_inv_def event_count_def answer_count_def split: option.splits)
next
  case (pl_callback s e r n)
  then have inv: "map_inv s" "token_inv s" by (auto simp: tokens_inv_def)
  obtain i where i: "i < length (q_calls s)" "serves s i r" "q_sessions s ! i = Some (cacheSessionP e)"
    using pl_callback.hyps(1) inv by (rule respond_call)
  then have n: "n = i" using pl_callback.hyps by (auto simp: serves_def call_processor_def split: if_splits option.splits)
  have other: "q_sessions s ! j \<noteq> Some (cacheSessionP e)" if "j < length (q_calls s)" "j \<noteq> i" for j
    using pl_callback that i by (auto simp: tokens_inv_def distinct_inv_def lengths_inv_def)
  from pl_callback i n other show ?case
    by - (rule token_frame [of s]; auto simp: tokens_inv_def event_count_def answer_count_def split: option.splits)
next
  case (pl_channel s e r n c)
  then have inv: "map_inv s" "token_inv s" by (auto simp: tokens_inv_def)
  obtain i where i: "i < length (q_calls s)" "serves s i r" "q_sessions s ! i = Some (cacheSessionP e)"
    using pl_channel.hyps(1) inv by (rule respond_call)
  then have n: "n = i" using pl_channel.hyps by (auto simp: serves_def call_processor_def split: if_splits option.splits)
  have other: "q_sessions s ! j \<noteq> Some (cacheSessionP e)" if "j < length (q_calls s)" "j \<noteq> i" for j
    using pl_channel that i by (auto simp: tokens_inv_def distinct_inv_def lengths_inv_def)
  from pl_channel i n other show ?case
    by - (rule token_frame [of s]; auto simp: tokens_inv_def event_count_def answer_count_def split: option.splits)
next
  case (pl_channel_closed s e r n x)
  then show ?case using respond_send [of s e r n "cache_response e r"] by (auto simp: tokens_inv_def)
next
  case (pl_start_closed s)
  then show ?case by (simp add: tokens_inv_def open_inv_def)
qed (rule token_frame [rotated], simp, (auto simp: tokens_inv_def event_count_def answer_count_def nth_list_update lengths_inv_def
      CacheEventInfoFromCoreCacheEventInfo_def split: if_splits option.splits)[3])+

lemma respond_number:
  assumes "serves s i r" "Processor r = ToCallback n \<or> Processor r = ToChannel n"
  shows "n = i"
  using assms by (auto simp: serves_def call_processor_def split: if_splits)

lemma owner_frame:
  assumes "owner_inv s" "q_calls s' = q_calls s" "q_sessions s' = q_sessions s"
    and "set (chan_events (cacheResponseChan s')) \<union> set (poll_event (poll_pc s')) \<subseteq>
      set (chan_events (cacheResponseChan s)) \<union> set (poll_event (poll_pc s))"
    and "set (poll_after (poll_pc s')) \<subseteq> set (poll_after (poll_pc s))"
    and "answers s' = answers s"
  shows "owner_inv s'"
  using assms unfolding owner_inv_def answer_count_def by (simp add: subset_iff) blast

lemma owner_answer:
  assumes "owner_inv s" "serves s i r" "i < length (q_calls s)" "distinct_inv s" "lengths_inv s"
    and "poll_pc s = PlRespond e r" "q_sessions s ! i = Some (cacheSessionP e)"
    and "q_calls s' = q_calls s" "q_sessions s' = q_sessions s" "cacheResponseChan s' = cacheResponseChan s"
    and "poll_pc s' = PlCleanup e r" "answers s' = answers s @ [(i, x)]"
  shows "owner_inv s'"
proof -
  have "j = i" if "j < length (q_calls s)" "q_sessions s ! j = Some (cacheSessionP e)" for j
    using that assms(3,4,5,7) by (auto simp: distinct_inv_def lengths_inv_def)
  moreover have "Some p \<in> set (q_sessions s)" if "p = cacheSessionP e \<or> p \<in> set (chan_events (cacheResponseChan s))" for p
    using that assms(1,6) by (auto simp: owner_inv_def)
  ultimately show ?thesis
    by (auto simp: owner_inv_def answer_count_def assms(8-12))
qed

lemma owner_step:
  assumes "cq_step False s s'" "td_pc s' = TdIdle" "tokens_inv s"
  shows "owner_inv s'"
  using assms
proof (induction rule: cq_step.induct)
  case (rq_start i s)
  then have idle: "poll_pc s = PlNone" by (intro start_poller_idle) (auto simp: tokens_inv_def)
  with rq_start show ?case by - (rule owner_frame [of s]; auto simp: tokens_inv_def)
next
  case (rq_create i s p allocated r b)
  have none: "q_sessions s ! i = None" "i < length (q_sessions s)" "length (q_sessions s) = length (q_calls s)"
    using rq_create by (auto simp: tokens_inv_def session_inv_def lengths_inv_def)
  have "Some q \<in> set ((q_sessions s)[i := Some p])" if "Some q \<in> set (q_sessions s)" for q
    using that none by (metis in_set_conv_nth length_list_update nth_list_update_neq option.distinct(1))
  moreover have "Some p \<notin> set (q_sessions s)" using rq_create by (auto simp: fresh_session_def)
  ultimately show ?case
    using rq_create none unfolding tokens_inv_def owner_inv_def answer_count_def by (auto simp: nth_list_update)
next
  case (ev_send i s e c c')
  have "q_sessions s ! i = Some (cacheSessionP e)" "i < length (q_sessions s)"
    using ev_send by (auto simp: tokens_inv_def session_inv_def lengths_inv_def)
  then have "Some (cacheSessionP e) \<in> set (q_sessions s)" by (metis nth_mem)
  with ev_send show ?case
    by (auto simp: tokens_inv_def owner_inv_def answer_count_def dest!: chan_send_items)
next
  case (pl_recv s c x c')
  then obtain e where "x = Some e" "chan_items c = e # chan_items c'"
    by (cases x) (auto simp: tokens_inv_def open_inv_def chan_recv_None dest: chan_recv_Some)
  with pl_recv show ?case by - (rule owner_frame [of s]; auto simp: tokens_inv_def)
next
  case (pl_count s x)
  then have "x \<noteq> None" by (auto simp: tokens_inv_def open_inv_def)
  with pl_count show ?case by - (rule owner_frame [of s]; auto simp: tokens_inv_def)
next
  case (pl_load s e)
  then have "map_of (cacheRequestMap s) (cacheSessionP e) \<noteq> None"
    by (intro load_found) (auto simp: tokens_inv_def)
  with pl_load show ?case by - (rule owner_frame [of s]; auto simp: tokens_inv_def)
next
  case (pl_callback s e r n)
  then have inv: "map_inv s" "token_inv s" by (auto simp: tokens_inv_def)
  obtain i where i: "i < length (q_calls s)" "serves s i r" "q_sessions s ! i = Some (cacheSessionP e)"
    using pl_callback.hyps(1) inv by (rule respond_call)
  with pl_callback respond_number [OF i(2)] show ?case
    by - (rule owner_answer [OF _ i(2) i(1), of e _ "cache_response e r"]; auto simp: tokens_inv_def)
next
  case (pl_channel s e r n c)
  then have inv: "map_inv s" "token_inv s" by (auto simp: tokens_inv_def)
  obtain i where i: "i < length (q_calls s)" "serves s i r" "q_sessions s ! i = Some (cacheSessionP e)"
    using pl_channel.hyps(1) inv by (rule respond_call)
  with pl_channel respond_number [OF i(2)] show ?case
    by - (rule owner_answer [OF _ i(2) i(1), of e _ "cache_response e r"]; auto simp: tokens_inv_def)
qed (rule owner_frame [OF tokens_invD(9)], assumption; auto simp: tokens_inv_def open_inv_def)+

lemma map_frame:
  assumes "map_inv s" "q_calls s' = q_calls s" "q_sessions s' = q_sessions s"
    and "cacheRequestMap s' = cacheRequestMap s"
    and "\<And>i r. i < length (q_calls s) \<Longrightarrow> rq_pcs s' ! i = RqSend r \<Longrightarrow> rq_pcs s ! i = RqSend r"
    and "\<And>i. i < length (q_calls s) \<Longrightarrow> rq_pcs s' ! i = RqDone None \<Longrightarrow> rq_pcs s ! i = RqDone None"
    and "\<And>i. answer_count s i \<le> answer_count s' i"
    and "\<And>e r. poll_pc s' = PlRespond e r \<Longrightarrow> map_of (cacheRequestMap s) (cacheSessionP e) = Some r"
  shows "map_inv s'"
proof -
  have "serves s' i r = serves s i r" for i r by (simp add: serves_def assms(2,3))
  moreover have "answer_count s i = 0" if "answer_count s' i = 0" for i using assms(7) [of i] that by simp
  ultimately show ?thesis
    using assms(1,8) assms(5,6) unfolding map_inv_def by (auto simp: assms(2-4))
qed

lemma other_session:
  assumes "tokens_inv s" "i < length (q_calls s)" "q_sessions s ! i = Some p" "j < length (q_calls s)" "q_sessions s ! j = Some p"
  shows "i = j"
  using assms by (auto simp: tokens_inv_def distinct_inv_def lengths_inv_def)

lemma serves_D: "serves s i r \<Longrightarrow> q_sessions s ! i = Some (CacheSession r) \<and> request_Index r = CacheSession r"
  by (simp add: serves_def request_wf_def)

lemma request_serves: "tokens_inv s \<Longrightarrow> i < length (rq_pcs s) \<Longrightarrow> request_at (rq_pcs s ! i) = Some r \<Longrightarrow>
    i < length (q_calls s) \<and> serves s i r"
  by (auto simp: tokens_inv_def session_inv_def lengths_inv_def)

lemma serves_cong: "q_calls s' = q_calls s \<Longrightarrow> q_sessions s' = q_sessions s \<Longrightarrow> serves s' i r = serves s i r"
  by (simp add: serves_def)

text \<open>Removing the entry of a session that no live request depends on.\<close>

lemma map_delete:
  assumes "map_inv s" "q_calls s' = q_calls s" "q_sessions s' = q_sessions s" "answers s' = answers s"
    and "cacheRequestMap s' = AList.delete k (cacheRequestMap s)"
    and "\<And>i r. i < length (q_calls s) \<Longrightarrow> rq_pcs s' ! i = RqSend r \<Longrightarrow> rq_pcs s ! i = RqSend r \<and> CacheSession r \<noteq> k"
    and "\<And>i. i < length (q_calls s) \<Longrightarrow> rq_pcs s' ! i = RqDone None \<Longrightarrow>
      rq_pcs s ! i = RqDone None \<and> (answer_count s i = 0 \<longrightarrow> q_sessions s ! i \<noteq> Some k)"
    and "\<And>e r. poll_pc s' = PlRespond e r \<Longrightarrow> poll_pc s = PlRespond e r \<and> cacheSessionP e \<noteq> k"
  shows "map_inv s'"
proof -
  have "answer_count s' i = answer_count s i" for i using assms(4) by (simp add: answer_count_def)
  then show ?thesis
    using assms(1,6-8) unfolding map_inv_def assms(2,3,5) serves_cong [OF assms(2,3)]
    by (auto simp: delete_conv' split: if_splits)
qed

lemma map_step:
  assumes "cq_step False s s'" "td_pc s' = TdIdle" "tokens_inv s"
  shows "map_inv s'"
  using assms
proof (induction rule: cq_step.induct)
  case (rq_create i s p allocated r b)
  have none: "q_sessions s ! i = None" "length (rq_pcs s) = length (q_calls s)" "length (q_sessions s) = length (q_calls s)"
    using rq_create by (auto simp: tokens_inv_def session_inv_def lengths_inv_def)
  let ?s = "set_rq i (RqStore r) (s\<lparr>q_binding := b, q_live := p # q_live s, q_sessions := (q_sessions s)[i := Some p]\<rparr>)"
  have "serves ?s j r'" if "serves s j r'" for j r'
    using that none by (cases "j = i") (auto simp: serves_def nth_list_update)
  then have "\<exists>j < length (q_calls s). serves ?s j r' \<and> CacheSession r' = k"
    if "map_of (cacheRequestMap s) k = Some r'" for k r'
    using tokens_invD(10) [OF rq_create.prems(2)] that unfolding map_inv_def by blast
  with rq_create none show ?case
    by (auto simp: map_inv_def tokens_inv_def answer_count_def nth_list_update)
next
  case (rq_store i s r m)
  have i: "i < length (q_calls s)" and r: "serves s i r" "CacheSession r = request_Index r"
    using request_serves [OF rq_store.prems(2) rq_store.hyps(1), of r] rq_store.hyps(2) by (auto dest: serves_D)
  have m: "map_of m = (map_of (cacheRequestMap s))(CacheSession r \<mapsto> r)"
    using rq_store.hyps r(2) by (auto simp: addCacheSessionToMapIfNotPresent_def update_conv' split: option.splits)
  have new: "map_of (cacheRequestMap s) (CacheSession r) = None"
    using rq_store.hyps r(2) by (auto simp: addCacheSessionToMapIfNotPresent_def split: option.splits)
  have old: "map_inv s" "length (rq_pcs s) = length (q_calls s)"
    using rq_store.prems by (auto simp: tokens_inv_def lengths_inv_def)
  show ?case
    unfolding map_inv_def
  proof (intro conjI allI impI; (elim conjE)?)
    fix k r' assume "map_of (cacheRequestMap (set_rq i (RqSend r) (s\<lparr>cacheRequestMap := m\<rparr>))) k = Some r'"
    then show "\<exists>j < length (q_calls (set_rq i (RqSend r) (s\<lparr>cacheRequestMap := m\<rparr>))).
        serves (set_rq i (RqSend r) (s\<lparr>cacheRequestMap := m\<rparr>)) j r' \<and> CacheSession r' = k"
      using i r old by (cases "k = CacheSession r") (auto simp: m map_inv_def serves_def)
  next
    fix j r' assume "j < length (q_calls (set_rq i (RqSend r) (s\<lparr>cacheRequestMap := m\<rparr>)))"
      "rq_pcs (set_rq i (RqSend r) (s\<lparr>cacheRequestMap := m\<rparr>)) ! j = RqSend r'"
    then show "map_of (cacheRequestMap (set_rq i (RqSend r) (s\<lparr>cacheRequestMap := m\<rparr>))) (CacheSession r') \<noteq> None"
      using old by (cases "j = i") (auto simp: m map_inv_def)
  next
    fix j p assume "j < length (q_calls (set_rq i (RqSend r) (s\<lparr>cacheRequestMap := m\<rparr>)))"
      "rq_pcs (set_rq i (RqSend r) (s\<lparr>cacheRequestMap := m\<rparr>)) ! j = RqDone None"
      "answer_count (set_rq i (RqSend r) (s\<lparr>cacheRequestMap := m\<rparr>)) j = 0"
      "q_sessions (set_rq i (RqSend r) (s\<lparr>cacheRequestMap := m\<rparr>)) ! j = Some p"
    then show "map_of (cacheRequestMap (set_rq i (RqSend r) (s\<lparr>cacheRequestMap := m\<rparr>))) p \<noteq> None"
      using old i by (cases "j = i") (auto simp: m map_inv_def answer_count_def)
  next
    fix e r' assume "poll_pc (set_rq i (RqSend r) (s\<lparr>cacheRequestMap := m\<rparr>)) = PlRespond e r'"
    then show "map_of (cacheRequestMap (set_rq i (RqSend r) (s\<lparr>cacheRequestMap := m\<rparr>))) (cacheSessionP e) = Some r'"
      using old new by (auto simp: m map_inv_def)
  qed
next
  case (rq_send i s r b)
  have i: "i < length (q_calls s)" and r: "q_sessions s ! i = Some (CacheSession r)"
    using request_serves [OF rq_send.prems(2) rq_send.hyps(1), of r] rq_send.hyps(2) by (auto dest: serves_D)
  have "map_of (cacheRequestMap s) (CacheSession r) \<noteq> None"
    using rq_send i by (auto simp: tokens_inv_def map_inv_def)
  with rq_send i r show ?case
    by (auto simp: tokens_inv_def map_inv_def answer_count_def nth_list_update lengths_inv_def serves_def)
next
  case (rq_fail_delete i s r err)
  have i: "i < length (q_calls s)" and r: "q_sessions s ! i = Some (CacheSession r)" "request_Index r = CacheSession r"
    using request_serves [OF rq_fail_delete.prems(2) rq_fail_delete.hyps(1), of r] rq_fail_delete.hyps(2) by (auto dest: serves_D)
  have len: "length (rq_pcs s) = length (q_calls s)" using rq_fail_delete by (simp add: tokens_inv_def lengths_inv_def)
  note only = other_session [OF rq_fail_delete.prems(2) i r(1)]
  show ?case
  proof (rule map_delete [OF tokens_invD(10) [OF rq_fail_delete.prems(2)], where k = "CacheSession r"]; (simp add: r; fail)?)
    fix j r' assume j: "j < length (q_calls s)" "rq_pcs (set_rq i (RqFailDestroy r err)
        (s\<lparr>cacheRequestMap := AList.delete (request_Index r) (cacheRequestMap s)\<rparr>)) ! j = RqSend r'"
    then have "j \<noteq> i" "rq_pcs s ! j = RqSend r'" using len i by (auto simp: nth_list_update split: if_splits)
    moreover have "q_sessions s ! j = Some (CacheSession r')"
      using request_serves [OF rq_fail_delete.prems(2), of j r'] calculation j(1) len by (auto dest: serves_D)
    ultimately show "rq_pcs s ! j = RqSend r' \<and> CacheSession r' \<noteq> CacheSession r" using only [OF j(1)] by auto
  next
    fix j assume j: "j < length (q_calls s)" "rq_pcs (set_rq i (RqFailDestroy r err)
        (s\<lparr>cacheRequestMap := AList.delete (request_Index r) (cacheRequestMap s)\<rparr>)) ! j = RqDone None"
    then show "rq_pcs s ! j = RqDone None \<and> (answer_count s j = 0 \<longrightarrow> q_sessions s ! j \<noteq> Some (CacheSession r))"
      using only [OF j(1)] len i by (auto simp: nth_list_update split: if_splits)
  next
    fix e r' assume "poll_pc (set_rq i (RqFailDestroy r err)
        (s\<lparr>cacheRequestMap := AList.delete (request_Index r) (cacheRequestMap s)\<rparr>)) = PlRespond e r'"
    then have e: "poll_pc s = PlRespond e r'" by simp
    then obtain j where j: "j < length (q_calls s)" "q_sessions s ! j = Some (cacheSessionP e)" "rq_pcs s ! j = RqDone None"
      using rq_fail_delete.prems(2) by (auto simp: tokens_inv_def elim: respond_call)
    then show "poll_pc s = PlRespond e r' \<and> cacheSessionP e \<noteq> CacheSession r"
      using e only [OF j(1)] rq_fail_delete.hyps(2) by auto
  qed
next
  case (pl_load s e)
  then show ?case
    by - (rule map_frame [OF tokens_invD(10)], assumption; auto simp: answer_count_def split: option.splits)
next
  case (pl_delete s e)
  have len: "length (rq_pcs s) = length (q_calls s)" using pl_delete by (simp add: tokens_inv_def lengths_inv_def)
  have answered: "0 < answer_count s j" if "j < length (q_calls s)" "q_sessions s ! j = Some (cacheSessionP e)" for j
    using pl_delete that by (auto simp: tokens_inv_def owner_inv_def)
  have notsend: "CacheSession r \<noteq> cacheSessionP e" if j: "j < length (q_calls s)" "rq_pcs s ! j = RqSend r" for j r
  proof
    assume "CacheSession r = cacheSessionP e"
    then have "q_sessions s ! j = Some (cacheSessionP e)"
      using request_serves [OF pl_delete.prems(2), of j r] j len by (auto dest: serves_D)
    with answered [OF j(1)] have "0 < answer_count s j" by simp
    then show False using j pl_delete.prems(2) by (auto simp: tokens_inv_def token_inv_def)
  qed
  show ?case
    by (rule map_delete [OF tokens_invD(10) [OF pl_delete.prems(2)], where k = "cacheSessionP e"])
      (use notsend answered in \<open>auto dest: neq0_conv [THEN iffD2]\<close>)
qed (rule map_frame [OF tokens_invD(10)], assumption;
     auto simp: tokens_inv_def answer_count_def nth_list_update lengths_inv_def map_inv_def split: if_splits option.splits)+

lemma cq_app_frame:
  assumes "app_inv s" "q_calls s' = q_calls s" "app_chans s' = app_chans s"
    and "\<And>i. answer_count s i \<le> answer_count s' i"
    and "\<And>i. i < length (q_calls s) \<Longrightarrow> rq_failing (rq_pcs s ! i) \<Longrightarrow> rq_failing (rq_pcs s' ! i)"
  shows "app_inv s'"
proof -
  have "answer_count s i = 0" if "answer_count s' i = 0" for i using assms(4) [of i] that by simp
  then show ?thesis using assms(1,5) by (simp add: app_inv_def assms(2,3))
qed

lemma app_update:
  assumes "app_inv s" "q_calls s' = q_calls s" "app_chans s' = (app_chans s)[i := c]"
    and "length (app_chans s) = length (q_calls s)"
    and "\<And>j. answer_count s j \<le> answer_count s' j"
    and "\<And>j. j < length (q_calls s) \<Longrightarrow> rq_failing (rq_pcs s ! j) \<Longrightarrow> rq_failing (rq_pcs s' ! j)"
    and "i < length (q_calls s) \<Longrightarrow> chan_cap (app_chans s ! i) = 1 \<Longrightarrow> chan_cap c = 1"
    and "i < length (q_calls s) \<Longrightarrow> answer_count s' i = 0 \<Longrightarrow> chan_items (app_chans s ! i) = [] \<Longrightarrow> chan_items c = []"
    and "i < length (q_calls s) \<Longrightarrow> chan_closed c \<Longrightarrow> chan_closed (app_chans s ! i) \<or> rq_failing (rq_pcs s' ! i)"
  shows "app_inv s'"
proof -
  have zero: "answer_count s j = 0" if "answer_count s' j = 0" for j using assms(5) [of j] that by simp
  show ?thesis
    unfolding app_inv_def assms(2,3)
  proof (intro allI impI)
    fix j assume "j < length (q_calls s)"
    then show "chan_cap ((app_chans s)[i := c] ! j) = 1 \<and>
        (answer_count s' j = 0 \<longrightarrow> chan_items ((app_chans s)[i := c] ! j) = []) \<and>
        (chan_closed ((app_chans s)[i := c] ! j) \<longrightarrow> rq_failing (rq_pcs s' ! j))"
      using assms(1,4,6-9) zero [of j] by (cases "j = i") (auto simp: app_inv_def)
  qed
qed

lemma close_app_chan_chans: "app_chans (close_app_chan i s) = (app_chans s)[i := (if arg_callback (q_calls s ! i) then app_chans s ! i
    else (app_chans s ! i)\<lparr>chan_closed := True\<rparr>)]"
  by (simp add: close_app_chan_def)

lemma app_step:
  assumes "cq_step False s s'" "td_pc s' = TdIdle" "tokens_inv s"
  shows "app_inv s'"
  using assms
proof (induction rule: cq_step.induct)
  case (rq_create_error i s info allocated err b)
  then show ?case
    by - (rule app_update [OF tokens_invD(11) _ _, where i = i and c = "if arg_callback (q_calls s ! i) then app_chans s ! i
          else (app_chans s ! i)\<lparr>chan_closed := True\<rparr>"], assumption;
        auto simp: close_app_chan_chans tokens_inv_def lengths_inv_def answer_count_def nth_list_update split: if_splits)
next
  case (rq_fail_close i s r err)
  then show ?case
    by - (rule app_update [OF tokens_invD(11) _ _, where i = i and c = "if arg_callback (q_calls s ! i) then app_chans s ! i
          else (app_chans s ! i)\<lparr>chan_closed := True\<rparr>"], assumption;
        auto simp: close_app_chan_chans tokens_inv_def lengths_inv_def answer_count_def nth_list_update split: if_splits)
next
  case (pl_channel s e r n c)
  then show ?case
    by - (rule app_update [OF tokens_invD(11) _ _, where i = n and c = c], assumption;
        auto simp: tokens_inv_def lengths_inv_def answer_count_def dest!: chan_send_items)
next
  case (app_recv i s x c)
  then show ?case
    by - (rule app_update [OF tokens_invD(11) _ _, where i = i and c = c], assumption;
        auto simp: tokens_inv_def lengths_inv_def answer_count_def chan_recv_def split: list.splits if_splits)
qed (rule cq_app_frame [OF tokens_invD(11)], assumption;
     auto simp: tokens_inv_def answer_count_def nth_list_update lengths_inv_def)+

lemma found_frame:
  assumes "found_inv s" "q_calls s' = q_calls s"
    and "\<And>i p. i < length (q_calls s) \<Longrightarrow> ev_pcs s' ! i = EvPending p \<Longrightarrow> ev_pcs s ! i = EvPending p"
    and "\<And>i p. i < length (q_calls s) \<Longrightarrow> ev_pcs s ! i = EvPending p \<Longrightarrow> ev_pcs s' ! i = EvPending p \<Longrightarrow>
      p \<in> set (cacheToEventCallbackMap (q_binding s)) \<Longrightarrow> p \<in> set (cacheToEventCallbackMap (q_binding s'))"
  shows "found_inv s'"
  using assms unfolding found_inv_def by metis

lemma CreateCacheRequest_callbacks:
  assumes "CreateCacheRequest q rid h d answer allocated b = Return (x, b')"
  shows "cacheToEventCallbackMap b' = cacheToEventCallbackMap b"
  using assms
  by (auto simp: CreateCacheRequest_def CreateCacheSession_def NewCacheRequest_def Let_def SetupFiltering_def
      outcome_map_Return split: sum.splits if_splits)

lemma cleanup_filter_callbacks [simp]: "cacheToEventCallbackMap (cleanup_filter r b) = cacheToEventCallbackMap b"
  by (simp add: cleanup_filter_def CleanupFiltering_def split: option.splits)

lemma request_cleanup_callbacks:
  assumes "request_cleanup r answer b = Return b'"
  shows "cacheToEventCallbackMap b' = cacheToEventCallbackMap b"
  using assms
  by (auto simp: request_cleanup_def CleanupCacheRequestSubscriptions_def outcome_map_Return
      split: outcome.splits bool.splits option.splits)

lemma SendCacheRequest_callbacks:
  assumes "SendCacheRequest r d answer b = (err, b')"
  shows "set (cacheToEventCallbackMap b) \<subseteq> set (cacheToEventCallbackMap b')"
    and "err = None \<Longrightarrow> CacheSession r \<in> set (cacheToEventCallbackMap b')"
  using assms
  by (auto simp: SendCacheRequest_def session_SendCacheRequest_def Let_def split: option.splits)

lemma found_step:
  assumes "cq_step False s s'" "td_pc s' = TdIdle" "tokens_inv s"
  shows "found_inv s'"
  using assms
proof (induction rule: cq_step.induct)
  case (rq_create i s p allocated r b)
  then show ?case
    by - (rule found_frame [OF tokens_invD(12)], assumption; simp add: CreateCacheRequest_callbacks)
next
  case (rq_create_error i s info allocated err b)
  then show ?case
    by - (rule found_frame [OF tokens_invD(12)], assumption; simp add: CreateCacheRequest_callbacks)
next
  case (rq_send i s r b)
  then have i: "i < length (ev_pcs s)" by (simp add: tokens_inv_def lengths_inv_def)
  show ?case
    using rq_send i SendCacheRequest_callbacks [OF rq_send.hyps(3)]
    by (auto simp: tokens_inv_def found_inv_def nth_list_update)
next
  case (rq_send_error i s r answer err b)
  then show ?case
    by - (rule found_frame [OF tokens_invD(12)], assumption; auto dest: SendCacheRequest_callbacks(1))
next
  case (rq_fail_destroy i s r err answer e b)
  have i: "i < length (q_calls s)" and r: "q_sessions s ! i = Some (CacheSession r)"
    using request_serves [OF rq_fail_destroy.prems(2) rq_fail_destroy.hyps(1), of r] rq_fail_destroy.hyps(2) by (auto dest: serves_D)
  have "p \<noteq> CacheSession r" if j: "j < length (q_calls s)" "ev_pcs s ! j = EvPending p" for j p
  proof
    assume "p = CacheSession r"
    with j have "q_sessions s ! j = Some (CacheSession r)"
      using rq_fail_destroy.prems(2) by (auto simp: tokens_inv_def session_inv_def)
    then have "i = j" using other_session [OF rq_fail_destroy.prems(2) i r j(1)] by simp
    then show False using j rq_fail_destroy by (auto simp: tokens_inv_def sent_inv_def)
  qed
  then show ?case
    using rq_fail_destroy
    by - (rule found_frame [OF tokens_invD(12)], assumption; auto simp: DestroyCacheRequest_def DestroyCacheSession_def)
next
  case (ev_found i s p e event topic rc subCode rid)
  then show ?case
    by - (rule found_frame [OF tokens_invD(12)], assumption;
        auto simp: tokens_inv_def lengths_inv_def nth_list_update split: if_splits)
next
  case (ev_forget i s p)
  have i: "i < length (q_calls s)" and p: "q_sessions s ! i = Some p"
    using ev_forget by (auto simp: tokens_inv_def session_inv_def lengths_inv_def)
  have "p' \<noteq> p" if j: "j < length (q_calls s)" "ev_pcs s ! j = EvPending p'" for j p'
  proof
    assume "p' = p"
    with j have "q_sessions s ! j = Some p"
      using ev_forget.prems(2) by (auto simp: tokens_inv_def session_inv_def)
    then have "i = j" using other_session [OF ev_forget.prems(2) i p j(1)] by simp
    then show False using j ev_forget.hyps(2) by simp
  qed
  then show ?case
    using ev_forget
    by - (rule found_frame [OF tokens_invD(12)], assumption;
        auto simp: tokens_inv_def lengths_inv_def nth_list_update forget_callback_def split: if_splits)
next
  case (pl_cleanup s e r answer b)
  then show ?case
    by - (rule found_frame [OF tokens_invD(12)], assumption; simp add: request_cleanup_callbacks)
next
  case (pl_destroy s e)
  have "p \<noteq> cacheSessionP e" if j: "j < length (q_calls s)" "ev_pcs s ! j = EvPending p" for j p
  proof
    assume "p = cacheSessionP e"
    with j have "q_sessions s ! j = Some (cacheSessionP e)"
      using pl_destroy.prems(2) by (auto simp: tokens_inv_def session_inv_def)
    then have "0 < answer_count s j" using j pl_destroy by (auto simp: tokens_inv_def owner_inv_def)
    moreover have "ev_waiting (ev_pcs s ! j) + event_count s j + answer_count s j \<le> 1"
      using j(1) tokens_invD(8) [OF pl_destroy.prems(2)] by (simp add: token_inv_def)
    ultimately show False using j by simp
  qed
  then show ?case
    using pl_destroy
    by - (rule found_frame [OF tokens_invD(12)], assumption; auto simp: DestroyCacheSession_def)
qed (rule found_frame [OF tokens_invD(12)], assumption;
     auto simp: tokens_inv_def lengths_inv_def nth_list_update split: if_splits)+

text \<open>No goroutine panics, no event is lost, and answers carry the number of their request.\<close>

definition fine_inv :: "cq_sys \<Rightarrow> bool" where
  "fine_inv s \<longleftrightarrow> poll_pc s \<noteq> PlPanicked \<and>
     (\<forall>i < length (q_calls s). ev_pcs s ! i \<noteq> EvLost \<and> ev_pcs s ! i \<noteq> EvPanicked) \<and>
     (\<forall>(i, x) \<in> set (answers s). i < length (q_calls s) \<and> response_ID x = arg_id (q_calls s ! i))"

lemma fine_step:
  assumes "cq_step False s s'" "td_pc s' = TdIdle" "tokens_inv s" "fine_inv s"
  shows "fine_inv s'"
  using assms
proof (induction rule: cq_step.induct)
  case (ev_lost i s p)
  then show ?case by (auto simp: tokens_inv_def found_inv_def callback_found_def lengths_inv_def)
next
  case (ev_panic i s e c x)
  then show ?case by (auto simp: tokens_inv_def open_inv_def chan_send_def split: if_splits)
next
  case (pl_start_closed s)
  then show ?case by (simp add: tokens_inv_def open_inv_def)
next
  case (pl_callback s e r n)
  then obtain i where "i < length (q_calls s)" "serves s i r" by (auto simp: tokens_inv_def elim: respond_call)
  with pl_callback respond_number [of s i r n] show ?case
    by (auto simp: fine_inv_def serves_def cache_response_def)
next
  case (pl_channel s e r n c)
  then obtain i where "i < length (q_calls s)" "serves s i r" by (auto simp: tokens_inv_def elim: respond_call)
  with pl_channel respond_number [of s i r n] show ?case
    by (auto simp: fine_inv_def serves_def cache_response_def)
next
  case (pl_channel_closed s e r n x)
  then show ?case using respond_send [of s e r n "cache_response e r"] by (auto simp: tokens_inv_def)
qed (auto simp: fine_inv_def nth_list_update tokens_inv_def lengths_inv_def split: option.splits if_splits)

definition cq_inv :: "cq_sys \<Rightarrow> bool" where
  "cq_inv s \<longleftrightarrow> tokens_inv s \<and> late_inv s \<and> count_inv s \<and> made_inv s \<and> fine_inv s"

lemma cq_inv_step:
  assumes "cq_step False s s'" "td_pc s' = TdIdle" "cq_inv s"
  shows "cq_inv s'"
proof -
  have t: "tokens_inv s" and rest: "late_inv s" "count_inv s" "made_inv s" "fine_inv s" using assms(3) by (auto simp: cq_inv_def)
  note inv = tokens_invD [OF t]
  have "tokens_inv s'"
    unfolding tokens_inv_def
    using lengths_step [OF assms(1) inv(1)] open_step [OF assms(1,2) inv(2)] lock_step [OF assms(1) inv(3)]
      start_step [OF assms(1,2) inv(2-4)] sent_step [OF assms(1) inv(1,5)]
      session_step [OF assms(1) inv(1) rest(3) inv(6,5)] distinct_step [OF assms(1) inv(1,7)]
      token_step [OF assms(1,2) t] owner_step [OF assms(1,2) t] map_step [OF assms(1,2) t] app_step [OF assms(1,2) t]
      found_step [OF assms(1,2) t]
    by blast
  moreover have "late_inv s'" by (rule late_step [OF assms(1) rest(1)])
  moreover have "count_inv s'" by (rule count_step [OF assms(1,2) inv(2-4) inv(1) inv(5) rest(2)])
  moreover have "made_inv s'" by (rule made_step [OF assms(1) rest(3)])
  moreover have "fine_inv s'" by (rule fine_step [OF assms(1,2) t rest(4)])
  ultimately show ?thesis by (simp add: cq_inv_def)
qed

definition made_calls :: "cq_call list \<Rightarrow> bool" where
  "made_calls calls \<longleftrightarrow> (\<forall>c \<in> set calls. \<exists>strategy name topic timeout n age.
     arg_request c = NewCachedMessageSubscriptionRequest strategy name topic timeout n age)"

lemma total_init: "total (replicate n RqIdle) (replicate n EvNone) = 0"
  by (simp add: total_def)

lemma cq_inv_init: "made_calls calls \<Longrightarrow> cq_inv (cq_init d calls)"
  by (auto simp: cq_inv_def tokens_inv_def cq_init_def lengths_inv_def open_inv_def lock_inv_def start_inv_def late_inv_def
      sent_inv_def session_inv_def distinct_inv_def token_inv_def owner_inv_def map_inv_def app_inv_def found_inv_def
      count_inv_def made_inv_def made_calls_def fine_inv_def total_init event_count_def answer_count_def
      MaxOutstandingCacheRequests_def make_chan_def)

lemma q_calls_init [simp]: "q_calls (cq_init d calls) = calls"
  by (simp add: cq_init_def)

lemma cq_inv_reach:
  assumes "(cq_step False)\<^sup>*\<^sup>* (cq_init d calls) s" "made_calls calls" "td_pc s = TdIdle"
  shows "cq_inv s \<and> q_calls s = calls"
  using assms
proof (induction rule: rtranclp_induct)
  case base
  then show ?case using cq_inv_init [of calls d] by simp
next
  case (step s s')
  then have "cq_inv s \<and> q_calls s = calls" using td_idle_back by blast
  with step show ?case using cq_inv_step q_calls_const by metis
qed

lemma event_send_returns:
  assumes "cq_inv s" "i < length (q_calls s)" "ev_pcs s ! i = EvSend e"
  shows "\<exists>c c'. cacheResponseChan s = Some c \<and> chan_send e c = Return c'"
proof -
  have inv: "lengths_inv s" "open_inv s" "sent_inv s" "late_inv s" "count_inv s"
    using assms(1) by (auto simp: cq_inv_def tokens_inv_def)
  have i: "i < length (rq_pcs s)" and rq: "rq_pcs s ! i = RqDone None"
    using inv(1,3) assms(2,3) by (auto simp: lengths_inv_def sent_inv_def)
  then have "cacheResponseChan s \<noteq> None"
    using inv(4) by (auto simp: late_inv_def)
  then obtain c where c: "cacheResponseChan s = Some c" by blast
  have "1 \<le> total (rq_pcs s) (ev_pcs s)"
    using total_ge_weight [OF i, of "ev_pcs s"] rq assms(3) by simp
  moreover have "0 \<le> held (poll_pc s)" by (cases "poll_pc s") auto
  ultimately have "int (length (chan_items c)) < 1024"
    using inv(5) c by (simp add: count_inv_def MaxOutstandingCacheRequests_def)
  then show ?thesis using inv(2) c by (auto simp: open_inv_def chan_send_def)
qed

text \<open>
  C6. Until the tear-down begins, for every interleaving of requesting calls, events of the C library, the polling
  goroutine and the application in which the C library never hands out the pointer of a cache session again (the parameter
  \<open>False\<close> of the step relation): the counter of outstanding requests stays between 0 and
  1024; the event callback, which runs on a thread of the C library, never blocks and never panics when it sends to the response channel; of
  every call that returned without an error there is exactly one of an event under way, an event queued or with the
  poller, or an answer, and none is lost; a call that returned an error is never answered; answers carry the number
  of their request; and the poller never blocks or panics on a channel it gave to the application. Nothing in the code or its documentation
  excludes that a pointer is used again after the session is destroyed; then \<open>reused_session_loses_event\<close> below shows a run in
  which the event of an accepted request is lost, because the callback deletes the entry of the session too late.
\<close>

proposition cache_requests_accounted:
  assumes "(cq_step False)\<^sup>*\<^sup>* (cq_init dispatch calls) s" and "made_calls calls" and "td_pc s = TdIdle"
  shows "0 \<le> numOutstandingCacheRequests s \<and> numOutstandingCacheRequests s \<le> 1024 \<and>
    (\<forall>i < length calls. \<forall>e. ev_pcs s ! i = EvSend e \<longrightarrow>
       (\<exists>c c'. cacheResponseChan s = Some c \<and> chan_send e c = Return c')) \<and>
    (\<forall>i < length calls. ev_waiting (ev_pcs s ! i) + event_count s i + answer_count s i =
       (if rq_pcs s ! i = RqDone None then 1 else 0)) \<and>
    (\<forall>i < length calls. ev_pcs s ! i \<notin> {EvLost, EvPanicked}) \<and>
    (\<forall>(i, x) \<in> set (answers s). i < length calls \<and> response_ID x = arg_id (calls ! i)) \<and>
    poll_pc s \<noteq> PlPanicked \<and>
    (\<forall>e r n. poll_pc s = PlRespond e r \<and> Processor r = ToChannel n \<longrightarrow>
       (\<exists>c. chan_send (cache_response e r) (app_chans s ! n) = Return c))"
proof -
  have inv: "cq_inv s" and calls: "q_calls s = calls" using cq_inv_reach [OF assms] by auto
  have "0 \<le> queued (cacheResponseChan s)" by (cases "cacheResponseChan s") auto
  moreover have "0 \<le> held (poll_pc s)" by (cases "poll_pc s") auto
  ultimately have "0 \<le> numOutstandingCacheRequests s \<and> numOutstandingCacheRequests s \<le> 1024"
    using inv total_ge [of "rq_pcs s" "ev_pcs s"]
    by (simp add: cq_inv_def count_inv_def MaxOutstandingCacheRequests_def)
  moreover have "fine_inv s" "token_inv s" using inv by (auto simp: cq_inv_def tokens_inv_def)
  moreover have "\<exists>c. chan_send (cache_response e r) (app_chans s ! n) = Return c"
    if "poll_pc s = PlRespond e r" "Processor r = ToChannel n" for e r n
    using that inv by (intro respond_send) (auto simp: cq_inv_def tokens_inv_def)
  ultimately show ?thesis
    using event_send_returns [OF inv] calls by (auto simp: fine_inv_def token_inv_def)
qed

section \<open>Running the system\<close>

text \<open>
  A scheduler for concrete runs: which part makes its next step, on the normal path. Each of its steps is a step of
  the system.
\<close>

datatype act = Call nat | Create nat u64 | Event nat | Poll | Terminate | Teardown | Visit u64

fun adv_call :: "nat \<Rightarrow> cq_sys \<Rightarrow> cq_sys option" where
  "adv_call i s = (if \<not> i < length (rq_pcs s) then None else
     (case rq_pcs s ! i of
        RqIdle \<Rightarrow> if cacheResourceLock s = None then Some (set_rq i RqState (s\<lparr>cacheResourceLock := Some i\<rparr>)) else None
      | RqState \<Rightarrow> if check_state s = None then Some (set_rq i RqCounter s) else None
      | RqCounter \<Rightarrow> if check_counter s = None then Some (set_rq i RqCount s) else None
      | RqCount \<Rightarrow> Some (set_rq i RqInit (add_outstanding 1 s))
      | RqInit \<Rightarrow> Some (if cachePollingRunning s then set_rq i RqCreate (unlock (init_requestor s))
                       else set_rq i RqHandshake ((init_requestor s)\<lparr>poll_pc := PlStart\<rparr>))
      | RqHandshake \<Rightarrow> if poll_pc s = PlStart \<and> cachePollingRunningChan s = Some False
          then Some (set_rq i RqSetRunning (s\<lparr>poll_pc := PlRecv\<rparr>)) else None
      | RqSetRunning \<Rightarrow> Some (set_rq i RqCreate (unlock (s\<lparr>cachePollingRunning := True\<rparr>)))
      | RqStore r \<Rightarrow> (case addCacheSessionToMapIfNotPresent r (cacheRequestMap s) of
          (None, m) \<Rightarrow> Some (set_rq i (RqSend r) (s\<lparr>cacheRequestMap := m\<rparr>)) | _ \<Rightarrow> None)
      | RqSend r \<Rightarrow> (case SendCacheRequest r (q_dispatch s) None (q_binding s) of
          (None, b) \<Rightarrow> Some (set_rq i (RqDone None) (set_ev i (EvPending (CacheSession r)) (s\<lparr>q_binding := b\<rparr>))) | _ \<Rightarrow> None)
      | _ \<Rightarrow> None))"

definition adv_create :: "bool \<Rightarrow> nat \<Rightarrow> u64 \<Rightarrow> cq_sys \<Rightarrow> cq_sys option" where
  "adv_create reuse i p s = (if i < length (rq_pcs s) \<and> rq_pcs s ! i = RqCreate \<and> fresh_session reuse p s then
     (case CreateCacheRequest (arg_request (q_calls s ! i)) (arg_id (q_calls s ! i)) (call_processor i (q_calls s ! i))
             (q_dispatch s) (Inr p) 0 (q_binding s) of
        Return (Inr r, b) \<Rightarrow> Some (set_rq i (RqStore r)
          (s\<lparr>q_binding := b, q_live := p # q_live s, q_sessions := (q_sessions s)[i := Some p]\<rparr>))
      | _ \<Rightarrow> None) else None)"

fun adv_event :: "nat \<Rightarrow> cq_sys \<Rightarrow> cq_sys option" where
  "adv_event i s = (if \<not> i < length (ev_pcs s) then None else
     (case ev_pcs s ! i of
        EvPending p \<Rightarrow> Some (if callback_found p (q_binding s)
          then set_ev i (EvSend (CacheEventInfoFromCoreCacheEventInfo 1 [] SolClientReturnCodeOk 0 0 p)) s else set_ev i EvLost s)
      | EvSend e \<Rightarrow> (case cacheResponseChan s of None \<Rightarrow> None
          | Some c \<Rightarrow> (case chan_send e c of
              Return c' \<Rightarrow> Some (set_ev i (EvForget (cacheSessionP e)) (s\<lparr>cacheResponseChan := Some c'\<rparr>))
            | Panics x \<Rightarrow> Some (set_ev i EvPanicked s) | Blocks \<Rightarrow> None))
      | EvForget p \<Rightarrow> Some (set_ev i EvDone (s\<lparr>q_binding := forget_callback p (q_binding s)\<rparr>))
      | _ \<Rightarrow> None))"

fun adv_poll :: "cq_sys \<Rightarrow> cq_sys option" where
  "adv_poll s =
     (case poll_pc s of
        PlRecv \<Rightarrow> (case cacheResponseChan s of None \<Rightarrow> None
          | Some c \<Rightarrow> (case chan_recv c of
              Return (x, c') \<Rightarrow> Some (s\<lparr>cacheResponseChan := Some c', poll_pc := PlCount x\<rparr>) | _ \<Rightarrow> None))
      | PlCount x \<Rightarrow> Some ((add_outstanding (-1) s)\<lparr>poll_pc := (case x of None \<Rightarrow> PlClose | Some e \<Rightarrow> PlLoad e)\<rparr>)
      | PlLoad e \<Rightarrow> Some (s\<lparr>poll_pc := (case map_of (cacheRequestMap s) (cacheSessionP e) of
                                      None \<Rightarrow> PlDelete e | Some r \<Rightarrow> PlRespond e r)\<rparr>)
      | PlRespond e r \<Rightarrow> (case Processor r of
          ToCallback n \<Rightarrow> Some (s\<lparr>poll_pc := PlCleanup e r, answers := answers s @ [(n, cache_response e r)]\<rparr>)
        | ToChannel n \<Rightarrow> (case chan_send (cache_response e r) (app_chans s ! n) of
            Return c \<Rightarrow> Some (s\<lparr>poll_pc := PlCleanup e r, app_chans := (app_chans s)[n := c],
                        answers := answers s @ [(n, cache_response e r)]\<rparr>) | _ \<Rightarrow> None))
      | PlCleanup e r \<Rightarrow> (case request_cleanup r None (q_binding s) of
          Return b \<Rightarrow> Some (s\<lparr>poll_pc := PlDelete e, q_binding := b\<rparr>) | _ \<Rightarrow> None)
      | PlDelete e \<Rightarrow> Some (s\<lparr>poll_pc := PlDestroy e, cacheRequestMap := AList.delete (cacheSessionP e) (cacheRequestMap s)\<rparr>)
      | PlDestroy e \<Rightarrow> Some (s\<lparr>poll_pc := PlRecv, q_binding := DestroyCacheSession (cacheSessionP e) (q_binding s),
                        q_live := removeAll (cacheSessionP e) (q_live s)\<rparr>)
      | _ \<Rightarrow> None)"

fun adv_teardown :: "cq_sys \<Rightarrow> cq_sys option" where
  "adv_teardown s =
     (case td_pc s of
        TdIdle \<Rightarrow> if q_state s = Terminating then Some (s\<lparr>td_pc := TdCheck\<rparr>) else None
      | TdCheck \<Rightarrow> Some (s\<lparr>td_pc := (if cachePollingRunning s then TdRange (map fst (cacheRequestMap s)) [] else TdDone)\<rparr>)
      | TdCancel keys visited k r \<Rightarrow> (case CancelPendingCacheRequests k r None (q_binding s) of
          (Some e, b) \<Rightarrow> Some (s\<lparr>td_pc := TdPush keys visited e, q_binding := b\<rparr>) | _ \<Rightarrow> None)
      | TdPush keys visited e \<Rightarrow> (case cacheResponseChan s of None \<Rightarrow> None
          | Some c \<Rightarrow> (case chan_send e c of
              Return c' \<Rightarrow> Some (s\<lparr>td_pc := TdRange keys visited, cacheResponseChan := Some c'\<rparr>) | _ \<Rightarrow> None))
      | TdRange keys visited \<Rightarrow> if set keys \<inter> fst ` set (cacheRequestMap s) \<subseteq> set visited
          then Some (s\<lparr>td_pc := TdClose\<rparr>) else None
      | TdClose \<Rightarrow> (case cacheResponseChan s of None \<Rightarrow> None
          | Some c \<Rightarrow> (case chan_close c of
              Return c' \<Rightarrow> Some (s\<lparr>td_pc := TdDone, cacheResponseChan := Some c'\<rparr>) | _ \<Rightarrow> None))
      | TdDone \<Rightarrow> None)"

fun adv :: "bool \<Rightarrow> act \<Rightarrow> cq_sys \<Rightarrow> cq_sys option" where
  "adv reuse (Call i) s = adv_call i s"
| "adv reuse (Create i p) s = adv_create reuse i p s"
| "adv reuse (Event i) s = adv_event i s"
| "adv reuse Poll s = adv_poll s"
| "adv reuse Terminate s = (if q_state s = Started then Some (s\<lparr>q_state := Terminating\<rparr>) else None)"
| "adv reuse Teardown s = adv_teardown s"
| "adv reuse (Visit k) s = (case td_pc s of
     TdRange keys visited \<Rightarrow> (case map_of (cacheRequestMap s) k of
       Some r \<Rightarrow> if k \<notin> set visited then Some (s\<lparr>td_pc := TdCancel keys (k # visited) k r\<rparr>) else None | None \<Rightarrow> None)
   | _ \<Rightarrow> None)"

primrec adv_all :: "bool \<Rightarrow> act list \<Rightarrow> cq_sys \<Rightarrow> cq_sys option" where
  "adv_all reuse [] s = Some s"
| "adv_all reuse (a # as) s = (case adv reuse a s of None \<Rightarrow> None | Some s' \<Rightarrow> adv_all reuse as s')"

lemmas cq_steps = cq_step.intros [simplified]

lemma cq_step_variants:
  "poll_pc s = PlCount None \<Longrightarrow>
    cq_step reuse s (s\<lparr>numOutstandingCacheRequests := numOutstandingCacheRequests s - 1, poll_pc := PlClose\<rparr>)"
  "poll_pc s = PlCount (Some e) \<Longrightarrow>
    cq_step reuse s (s\<lparr>numOutstandingCacheRequests := numOutstandingCacheRequests s - 1, poll_pc := PlLoad e\<rparr>)"
  "poll_pc s = PlLoad e \<Longrightarrow> map_of (cacheRequestMap s) (cacheSessionP e) = None \<Longrightarrow> cq_step reuse s (s\<lparr>poll_pc := PlDelete e\<rparr>)"
  "poll_pc s = PlLoad e \<Longrightarrow> map_of (cacheRequestMap s) (cacheSessionP e) = Some r \<Longrightarrow> cq_step reuse s (s\<lparr>poll_pc := PlRespond e r\<rparr>)"
  "td_pc s = TdCheck \<Longrightarrow> cachePollingRunning s \<Longrightarrow> cq_step reuse s (s\<lparr>td_pc := TdRange (map fst (cacheRequestMap s)) []\<rparr>)"
  "td_pc s = TdCheck \<Longrightarrow> \<not> cachePollingRunning s \<Longrightarrow> cq_step reuse s (s\<lparr>td_pc := TdDone\<rparr>)"
  using pl_count [of s None reuse] pl_count [of s "Some e" reuse] pl_load [of s e reuse] td_check [of s reuse] by simp_all

lemma adv_call_step: "adv_call i s = Some s' \<Longrightarrow> cq_step reuse s s'"
  by (cases "rq_pcs s ! i") (auto split: if_splits option.splits prod.splits intro: cq_steps)

lemma adv_event_step: "adv_event i s = Some s' \<Longrightarrow> cq_step reuse s s'"
  by (cases "ev_pcs s ! i") (auto split: if_splits option.splits outcome.splits intro: cq_steps)

lemma adv_poll_step: "adv_poll s = Some s' \<Longrightarrow> cq_step reuse s s'"
  by (cases "poll_pc s")
    (auto split: option.splits outcome.splits CacheResponseProcessor.splits intro: cq_steps cq_step_variants)

lemma adv_teardown_step: "adv_teardown s = Some s' \<Longrightarrow> cq_step reuse s s'"
  by (cases "td_pc s") (auto split: if_splits option.splits outcome.splits prod.splits intro: cq_steps cq_step_variants)

lemma adv_step: "adv reuse a s = Some s' \<Longrightarrow> cq_step reuse s s'"
proof (induction reuse a s rule: adv.induct)
  case (2 reuse i p s)
  then show ?case
    by (auto simp: adv_create_def split: if_splits outcome.splits sum.splits intro: cq_steps)
next
  case (7 reuse k s)
  then show ?case by (auto split: if_splits td_pc.splits option.splits intro: cq_steps)
qed (simp_all only: adv.simps adv_call_step adv_event_step adv_poll_step adv_teardown_step, auto split: if_splits intro: cq_steps)

lemma adv_all_run: "adv_all reuse as s = Some s' \<Longrightarrow> (cq_step reuse)\<^sup>*\<^sup>* s s'"
  by (induction "as" arbitrary: s) (auto split: option.splits intro: converse_rtranclp_into_rtranclp adv_step)

lemma run_exists: "\<exists>s. adv_all reuse as s0 = Some s \<and> P s \<Longrightarrow> \<exists>s. (cq_step reuse)\<^sup>*\<^sup>* s0 s \<and> P s"
  using adv_all_run by blast

definition sample_call :: "u64 \<Rightarrow> cq_call" where
  "sample_call rid = \<lparr>arg_request = NewCachedMessageSubscriptionRequest 0 ''cache'' (Some ''t'') 3000 0 0, arg_id = rid,
     arg_callback = False\<rparr>"

lemma made_samples: "made_calls [sample_call a, sample_call b]"
  by (simp add: made_calls_def sample_call_def) blast

text \<open>A first call that is sent, and the steps of the poller on its event.\<close>

definition first_call :: "act list" where
  "first_call = [Call 0, Call 0, Call 0, Call 0, Call 0, Call 0, Call 0, Create 0 64, Call 0, Call 0]"

lemmas run_simps = first_call_def sample_call_def cq_init_def check_state_def check_counter_def MaxOutstandingCacheRequests_def
  init_requestor_def make_chan_def chan_send_def chan_recv_def chan_close_def adv_create_def fresh_session_def
  CreateCacheRequest_def CreateCacheSession_def NewCacheRequest_def UsesLocalDispatch_def NewCached_strategy Let_def
  SendCacheRequest_def session_SendCacheRequest_def addCacheSessionToMapIfNotPresent_def call_processor_def
  callback_found_def forget_callback_def CacheEventInfoFromCoreCacheEventInfo_def request_cleanup_def
  CleanupCacheRequestSubscriptions_def cleanup_filter_def DestroyCacheSession_def map_index_def
  StrategyMappingToCCSMPSubscribeFlags_def StrategyMappingToCCSMPCacheRequestFlags_def strategy_defs flag_defs LocalDispatchFlags_def

lemma answered_run:
  "\<exists>s. adv_all False (first_call @ [Event 0, Event 0, Event 0, Poll, Poll, Poll, Poll]) (cq_init 1 [sample_call 7, sample_call 8]) = Some s \<and>
     td_pc s = TdIdle \<and> map fst (answers s) = [0]"
  by (simp add: run_simps)

theorem cache_requests_accounted_witness:
  "\<exists>s. (cq_step False)\<^sup>*\<^sup>* (cq_init 1 [sample_call 7, sample_call 8]) s \<and> map fst (answers s) = [0] \<and>
     0 \<le> numOutstandingCacheRequests s \<and> (\<forall>(i, x) \<in> set (answers s). i < length [sample_call 7, sample_call 8] \<and>
       response_ID x = arg_id ([sample_call 7, sample_call 8] ! i))"
proof -
  obtain s where run: "(cq_step False)\<^sup>*\<^sup>* (cq_init 1 [sample_call 7, sample_call 8]) s"
    and s: "td_pc s = TdIdle" "map fst (answers s) = [0]"
    using run_exists [OF answered_run] by (elim exE conjE) (rule that)
  note acc = cache_requests_accounted [OF run made_samples s(1)]
  show ?thesis
    by (intro exI [of _ s] conjI run s(2) acc [THEN conjunct1]
        acc [THEN conjunct2, THEN conjunct2, THEN conjunct2, THEN conjunct2, THEN conjunct2, THEN conjunct1])
qed

section \<open>Two races\<close>

text \<open>
  A request that passed the checks before a termination can reach the C library after the response channel is closed: the
  event that answers it panics on a thread of the C library, with a send on a closed channel.
\<close>

proposition late_request_panics:
  "\<exists>s. (cq_step False)\<^sup>*\<^sup>* (cq_init 1 [sample_call 7, sample_call 8]) s \<and>
     td_pc s = TdDone \<and> rq_pcs s ! 1 = RqDone None \<and> ev_pcs s ! 1 = EvPanicked"
proof -
  have "\<exists>s. adv_all False (first_call @ [Event 0, Event 0, Event 0, Poll, Poll, Poll, Poll, Poll, Poll, Poll,
      Call 1, Call 1, Call 1, Call 1, Call 1, Terminate, Teardown, Teardown, Teardown, Teardown, Create 1 128, Call 1, Call 1,
      Event 1, Event 1]) (cq_init 1 [sample_call 7, sample_call 8]) = Some s \<and>
     td_pc s = TdDone \<and> rq_pcs s ! 1 = RqDone None \<and> ev_pcs s ! 1 = EvPanicked"
    by (simp add: run_simps)
  then show ?thesis by (rule run_exists)
qed

text \<open>
  If the C library gives the pointer of a destroyed session to a new one, a request can be lost: the callback of the
  first session removes its entry from the global map after it has queued its event, when the poller may have
  destroyed the session and the second request may have entered the map under the same pointer. The event of the second request finds no
  callback; the request stays unanswered and counted, with nothing queued and the poller waiting.
\<close>

proposition reused_session_loses_event:
  "\<exists>s. (cq_step True)\<^sup>*\<^sup>* (cq_init 1 [sample_call 7, sample_call 8]) s \<and>
     td_pc s = TdIdle \<and> poll_pc s = PlRecv \<and> rq_pcs s = [RqDone None, RqDone None] \<and> ev_pcs s = [EvDone, EvLost] \<and>
     map fst (answers s) = [0] \<and> chan_events (cacheResponseChan s) = [] \<and> numOutstandingCacheRequests s = 1"
proof -
  have "\<exists>s. adv_all True (first_call @ [Event 0, Event 0, Poll, Poll, Poll, Poll, Poll, Poll, Poll,
      Call 1, Call 1, Call 1, Call 1, Call 1, Create 1 64, Call 1, Call 1, Event 0, Event 1])
      (cq_init 1 [sample_call 7, sample_call 8]) = Some s \<and>
     td_pc s = TdIdle \<and> poll_pc s = PlRecv \<and> rq_pcs s = [RqDone None, RqDone None] \<and> ev_pcs s = [EvDone, EvLost] \<and>
     map fst (answers s) = [0] \<and> chan_events (cacheResponseChan s) = [] \<and> numOutstandingCacheRequests s = 1"
    by (simp add: run_simps)
  then show ?thesis by (rule run_exists)
qed

end
