(* ===== verification/Persistent_Publisher.thy ===== *)
theory Persistent_Publisher
  imports Direct_Publisher
begin

text \<open>
  The persistent message publisher (\<^verbatim>\<open>internal/impl/publisher/persistent_message_publisher_impl.go\<close>). Every
  message it publishes carries a correlation tag, and a correlation context is kept in a table under the
  message's number until the broker has acknowledged or rejected the message; the context is then resolved,
  either by submitting a publish receipt to the event executor or by sending the result to the channel on
  which \<^verbatim>\<open>PublishAwaitAcknowledgement\<close> waits. As in the direct publisher, a message is sent at once or put into
  a bounded buffer with a task that sends it.

  The operations are functions on the record of the publisher's fields, as they run without interference;
  \<^verbatim>\<open>Persistent_Concurrency\<close> interleaves them. Messages, user contexts and acknowledgement channels are numbers
  that stand for the Go objects. The calls into the message package and into the C library are arguments.
  The time stamp of a receipt is left out. \<open>disposed\<close> lists the messages that were disposed, and \<open>resolutions\<close>
  is the history of the contexts that were resolved.
\<close>

section \<open>State\<close>

datatype correlationContext =
    callbackCorrelationContext (ctx_message: nat) (ctx_userContext: "nat option")
  | blockingCorrelationContext (ctx_message: nat) (ctx_blocker: nat)

record persistentPublishable =
  ppub_message :: nat
  ppub_destination :: string
  corr :: "correlationContext option"

record persistentTask =
  task_message :: nat
  task_destination :: string
  task_messageID :: u64
  task_ctx :: "correlationContext option"

record publishReceipt =
  rcpt_userContext :: "nat option"
  rcpt_message :: nat
  rcpt_err :: "go_error option"
  rcpt_persisted :: bool

datatype pp_call = PersistentReadinessCall | ReceiptCall publishReceipt

record persistent_publisher =
  pp_lifecycle :: lifecycle
  pp_config :: backpressureConfiguration
  pp_buffer :: "persistentPublishable chan"
  pp_tasks :: "persistentTask buf_sys"
  pp_interrupt :: bool
  pp_executor :: "pp_call executor"
  pp_readinessListener :: bool
  publishReceiptListener :: bool
  pp_terminationListener :: bool
  pp_downEventHandlerID :: u64
  pp_canSendEventHandlerID :: u64
  pp_acknowledgementHandlerID :: u64
  pp_messageID :: u64
  correlationMap :: "(u64 \<times> correlationContext) list"
  correlationComplete :: bool
  requestCorrelateComplete :: bool
  blockers :: "nat \<Rightarrow> go_error option chan"
  disposed :: "nat list"
  resolutions :: "(correlationContext \<times> bool \<times> go_error option) list"
  pp_terminationDiscarded :: nat

definition persistent_construct :: "backpressureConfiguration \<Rightarrow> nat \<Rightarrow> persistent_publisher" where
  "persistent_construct cfg bufferSize =
     \<lparr>pp_lifecycle = lifecycle_construct, pp_config = cfg, pp_buffer = make_chan bufferSize,
      pp_tasks = buf_init bufferSize, pp_interrupt = False, pp_executor = NewExecutor,
      pp_readinessListener = False, publishReceiptListener = False, pp_terminationListener = False,
      pp_downEventHandlerID = 0, pp_canSendEventHandlerID = 0, pp_acknowledgementHandlerID = 0, pp_messageID = 0,
      correlationMap = [], correlationComplete = False, requestCorrelateComplete = False,
      blockers = (\<lambda>i. make_chan 1), disposed = [], resolutions = [], pp_terminationDiscarded = 0\<rparr>"

section \<open>Correlation contexts\<close>

definition createReceipt :: "bool \<Rightarrow> go_error option \<Rightarrow> nat \<Rightarrow> nat option \<Rightarrow> publishReceipt" where
  "createReceipt persisted err msg user =
     \<lparr>rcpt_userContext = user, rcpt_message = msg, rcpt_err = err, rcpt_persisted = persisted\<rparr>"

text \<open>
  The two \<^verbatim>\<open>resolve\<close> methods. A refused submission is only logged; the send to the channel of a blocking
  context blocks when the channel is full.
\<close>

fun resolve_effect ::
    "bool \<Rightarrow> go_error option \<Rightarrow> correlationContext \<Rightarrow> persistent_publisher \<Rightarrow> persistent_publisher outcome" where
  "resolve_effect persisted err (callbackCorrelationContext msg user) p =
     (if publishReceiptListener p
      then outcome_bind (Submit (ReceiptCall (createReceipt persisted err msg user)) (pp_executor p))
             (\<lambda>(b, ex). Return (p\<lparr>pp_executor := ex\<rparr>))
      else Return (p\<lparr>disposed := disposed p @ [msg]\<rparr>))"
| "resolve_effect persisted err (blockingCorrelationContext msg blocker) p =
     outcome_bind (chan_send err (blockers p blocker)) (\<lambda>c.
       Return (p\<lparr>blockers := (blockers p)(blocker := c), disposed := disposed p @ [msg]\<rparr>))"

definition resolve ::
    "bool \<Rightarrow> go_error option \<Rightarrow> correlationContext \<Rightarrow> persistent_publisher \<Rightarrow> persistent_publisher outcome" where
  "resolve persisted err ctx p =
     outcome_bind (resolve_effect persisted err ctx p)
       (\<lambda>p. Return (p\<lparr>resolutions := resolutions p @ [(ctx, persisted, err)]\<rparr>))"

definition addCorrelationContext ::
    "u64 \<Rightarrow> correlationContext option \<Rightarrow> persistent_publisher \<Rightarrow> bool \<times> persistent_publisher" where
  "addCorrelationContext messageID ctx p =
     (case ctx of
        Some c \<Rightarrow> (True, p\<lparr>correlationMap := AList.update messageID c (correlationMap p)\<rparr>)
      | None \<Rightarrow> (False, p))"

definition removeCorrelationContext :: "u64 \<Rightarrow> persistent_publisher \<Rightarrow> persistent_publisher" where
  "removeCorrelationContext messageID p = p\<lparr>correlationMap := AList.delete messageID (correlationMap p)\<rparr>"

text \<open>
  \<^verbatim>\<open>ackHandler\<close>: its last part, under the lock, deletes the context and tells a termination that waits for
  the table to drain.
\<close>

definition ack_finish :: "u64 \<Rightarrow> persistent_publisher \<Rightarrow> persistent_publisher outcome" where
  "ack_finish messageID p =
     (let p = p\<lparr>correlationMap := AList.delete messageID (correlationMap p)\<rparr>
      in if lc_state (pp_lifecycle p) = Terminating \<and> requestCorrelateComplete p \<and> correlationMap p = []
         then outcome_bind (signal_close (correlationComplete p)) (\<lambda>c. Return (p\<lparr>correlationComplete := c\<rparr>))
         else Return p)"

definition ackHandler ::
    "u64 \<Rightarrow> bool \<Rightarrow> go_error option \<Rightarrow> persistent_publisher \<Rightarrow> persistent_publisher outcome" where
  "ackHandler messageID persisted err p =
     (case map_of (correlationMap p) messageID of
        Some ctx \<Rightarrow> outcome_bind (resolve persisted err ctx p) (ack_finish messageID)
      | None \<Rightarrow> Return p)"

section \<open>Readiness\<close>

definition pp_notifyReady :: "persistent_publisher \<Rightarrow> persistent_publisher" where
  "pp_notifyReady p =
     (if pp_readinessListener p
      then (case Submit PersistentReadinessCall (pp_executor p) of Return (b, ex) \<Rightarrow> p\<lparr>pp_executor := ex\<rparr> | _ \<Rightarrow> p)
      else p)"

definition pp_IsReady :: "persistent_publisher \<Rightarrow> bool" where
  "pp_IsReady p \<longleftrightarrow> IsRunning (pp_lifecycle p) \<and>
     (pp_config p \<noteq> backpressureConfigurationReject \<or> chan_len (pp_buffer p) \<noteq> chan_cap (pp_buffer p))"

definition pp_NotifyWhenReady :: "persistent_publisher \<Rightarrow> persistent_publisher" where
  "pp_NotifyWhenReady p = (if pp_IsReady p then pp_notifyReady p else p)"

definition SetMessagePublishReceiptListener :: "bool \<Rightarrow> persistent_publisher \<Rightarrow> persistent_publisher" where
  "SetMessagePublishReceiptListener listener p = p\<lparr>publishReceiptListener := listener\<rparr>"

section \<open>Publishing\<close>

text \<open>
  The buffered part of \<^verbatim>\<open>publish\<close>, under the publish lock; the list holds the possible results, as in the
  direct publisher.
\<close>

definition pp_buffer_write ::
    "persistentPublishable \<Rightarrow> persistent_publisher \<Rightarrow> (go_error + persistentPublishable chan) list" where
  "pp_buffer_write pub p =
     (case chan_send pub (pp_buffer p) of
        Panics e \<Rightarrow> [Inl AlreadyTerminated]
      | Return c \<Rightarrow> [Inr c]
      | Blocks \<Rightarrow> if pp_config p = backpressureConfigurationReject then [Inl Overflow] else [])
     @ (if pp_config p \<noteq> backpressureConfigurationReject \<and> pp_interrupt p then [Inl AlreadyTerminated] else [])"

definition sendTask :: "nat \<Rightarrow> string \<Rightarrow> u64 \<Rightarrow> correlationContext option \<Rightarrow> persistentTask" where
  "sendTask msg dest messageID ctx =
     \<lparr>task_message = msg, task_destination = dest, task_messageID = messageID, task_ctx = ctx\<rparr>"

definition pp_publish_buffered ::
    "persistentTask \<Rightarrow> persistent_publisher \<Rightarrow> (go_error option \<times> persistent_publisher) list" where
  "pp_publish_buffered t p =
     map (\<lambda>r. case r of
            Inl err \<Rightarrow> (Some err, p)
          | Inr c \<Rightarrow>
              (None,
               let p = p\<lparr>pp_buffer := c\<rparr>
               in case buffer_Submit t (buf (pp_tasks p)) of
                    (True, b) \<Rightarrow> p\<lparr>pp_tasks := (pp_tasks p)\<lparr>buf := b, submitted := submitted (pp_tasks p) @ [t]\<rparr>\<rparr>
                  | (False, b) \<Rightarrow> p))
       (pp_buffer_write \<lparr>ppub_message = task_message t, ppub_destination = task_destination t, corr = task_ctx t\<rparr> p)"

text \<open>
  The unbuffered part: the context is added before the message is handed to the C library, whose result is
  \<open>sent\<close>, and removed again when that fails. Without a context the message is disposed on return.
\<close>

definition publish_unbuffered ::
    "ErrorInfo option \<Rightarrow> persistentTask \<Rightarrow> persistent_publisher \<Rightarrow> go_error option \<times> persistent_publisher" where
  "publish_unbuffered sent t p =
     (let (added, p) = addCorrelationContext (task_messageID t) (task_ctx t) p;
          (err, p) =
            (case sent of
               None \<Rightarrow> (None, p)
             | Some info \<Rightarrow>
                 (Some (if ReturnCode info = SolClientReturnCodeWouldBlock then Overflow else ToNativeError info []),
                  removeCorrelationContext (task_messageID t) p))
      in (err, if added then p else p\<lparr>disposed := disposed p @ [task_message t]\<rparr>))"

text \<open>
  \<^verbatim>\<open>publish\<close>: the errors of setting the destination and the delivery mode and of attaching the correlation
  tag dispose the message. The second check of the state returns without disposing it.
\<close>

definition pp_publish ::
    "go_error option \<Rightarrow> go_error option \<Rightarrow> (u8 list \<Rightarrow> go_error option) \<Rightarrow> ErrorInfo option \<Rightarrow> nat \<Rightarrow> string \<Rightarrow>
       correlationContext option \<Rightarrow> persistent_publisher \<Rightarrow> (go_error option \<times> persistent_publisher) list" where
  "pp_publish setDestination setDeliveryMode attachTag sent msg dest ctx p =
     (let disposing = p\<lparr>disposed := disposed p @ [msg]\<rparr>
      in case setDestination of
           Some err \<Rightarrow> [(Some err, disposing)]
         | None \<Rightarrow>
         (case setDeliveryMode of
            Some err \<Rightarrow> [(Some err, disposing)]
          | None \<Rightarrow>
              let ((messageID, tag), counter) =
                    (if ctx \<noteq> None then next_correlation_tag (pp_acknowledgementHandlerID p) (pp_messageID p)
                     else ((0, []), pp_messageID p));
                  tagErr = (if ctx \<noteq> None then attachTag tag else None);
                  p = p\<lparr>pp_messageID := counter\<rparr>
              in case tagErr of
                   Some err \<Rightarrow> [(Some err, p\<lparr>disposed := disposed p @ [msg]\<rparr>)]
                 | None \<Rightarrow>
                 (case checkStartedStateForPublish (pp_lifecycle p) of
                    Some err \<Rightarrow> [(Some err, p)]
                  | None \<Rightarrow>
                      if pp_config p = backpressureConfigurationDirect
                      then [publish_unbuffered sent (sendTask msg dest messageID ctx) p]
                      else pp_publish_buffered (sendTask msg dest messageID ctx) p)))"

definition publishWithCallbackContext ::
    "go_error option \<Rightarrow> go_error option \<Rightarrow> (u8 list \<Rightarrow> go_error option) \<Rightarrow> ErrorInfo option \<Rightarrow> nat \<Rightarrow> string \<Rightarrow>
       nat option \<Rightarrow> persistent_publisher \<Rightarrow> (go_error option \<times> persistent_publisher) list" where
  "publishWithCallbackContext setDestination setDeliveryMode attachTag sent msg dest user p =
     pp_publish setDestination setDeliveryMode attachTag sent msg dest (Some (callbackCorrelationContext msg user)) p"

definition publishWithBlockingContext ::
    "go_error option \<Rightarrow> go_error option \<Rightarrow> (u8 list \<Rightarrow> go_error option) \<Rightarrow> ErrorInfo option \<Rightarrow> nat \<Rightarrow> string \<Rightarrow>
       nat \<Rightarrow> persistent_publisher \<Rightarrow> (go_error option \<times> persistent_publisher) list" where
  "publishWithBlockingContext setDestination setDeliveryMode attachTag sent msg dest blocker p =
     pp_publish setDestination setDeliveryMode attachTag sent msg dest (Some (blockingCorrelationContext msg blocker)) p"

text \<open>
  \<^verbatim>\<open>PublishBytes\<close> and \<^verbatim>\<open>PublishString\<close> check the state, build the message (the result \<open>built\<close> of the message
  builder is an error or the message) and publish it without a user context.
\<close>

definition PublishBuilt ::
    "go_error + nat \<Rightarrow> go_error option \<Rightarrow> go_error option \<Rightarrow> (u8 list \<Rightarrow> go_error option) \<Rightarrow> ErrorInfo option \<Rightarrow> string \<Rightarrow>
       persistent_publisher \<Rightarrow> (go_error option \<times> persistent_publisher) list" where
  "PublishBuilt built setDestination setDeliveryMode attachTag sent dest p =
     (case checkStartedStateForPublish (pp_lifecycle p) of
        Some err \<Rightarrow> [(Some err, p)]
      | None \<Rightarrow>
          (case built of
             Inl err \<Rightarrow> [(Some err, p)]
           | Inr msg \<Rightarrow> publishWithCallbackContext setDestination setDeliveryMode attachTag sent msg dest None p))"

text \<open>
  \<^verbatim>\<open>duplicateMessageAndSetProperties\<close>: the type of a message of another implementation, if it is one, the
  result of the duplication and the result of setting the properties, if any were given.
\<close>

definition duplicateMessageAndSetProperties ::
    "string option \<Rightarrow> go_error + nat \<Rightarrow> go_error option option \<Rightarrow> persistent_publisher
       \<Rightarrow> (go_error + nat) \<times> persistent_publisher" where
  "duplicateMessageAndSetProperties foreign duplicated setProperties p =
     (case foreign of
        Some backing \<Rightarrow> (Inl (NewError IllegalArgumentError InvalidOutboundMessageType [ArgStr backing] None), p)
      | None \<Rightarrow>
          (case duplicated of
             Inl err \<Rightarrow> (Inl err, p)
           | Inr msgDup \<Rightarrow>
               (case setProperties of
                  Some (Some err) \<Rightarrow> (Inl err, p\<lparr>disposed := disposed p @ [msgDup]\<rparr>)
                | _ \<Rightarrow> (Inr msgDup, p))))"

definition pp_Publish ::
    "string option \<Rightarrow> go_error + nat \<Rightarrow> go_error option option \<Rightarrow> go_error option \<Rightarrow> go_error option \<Rightarrow>
       (u8 list \<Rightarrow> go_error option) \<Rightarrow> ErrorInfo option \<Rightarrow> string \<Rightarrow> nat option \<Rightarrow> persistent_publisher \<Rightarrow>
       (go_error option \<times> persistent_publisher) list" where
  "pp_Publish foreign duplicated setProperties setDestination setDeliveryMode attachTag sent dest user p =
     (case checkStartedStateForPublish (pp_lifecycle p) of
        Some err \<Rightarrow> [(Some err, p)]
      | None \<Rightarrow>
          (case duplicateMessageAndSetProperties foreign duplicated setProperties p of
             (Inl err, p) \<Rightarrow> [(Some err, p)]
           | (Inr msg, p) \<Rightarrow> publishWithCallbackContext setDestination setDeliveryMode attachTag sent msg dest user p))"

text \<open>
  \<^verbatim>\<open>PublishAwaitAcknowledgement\<close> up to its wait, with the fresh channel \<open>blocker\<close>; and the wait: the possible
  results are the value of the channel, if there is one, and the time-out when the timer can fire.
\<close>

definition PublishAwaitAcknowledgement_begin ::
    "string option \<Rightarrow> go_error + nat \<Rightarrow> go_error option option \<Rightarrow> go_error option \<Rightarrow> go_error option \<Rightarrow> go_error option \<Rightarrow>
       (u8 list \<Rightarrow> go_error option) \<Rightarrow> ErrorInfo option \<Rightarrow> string \<Rightarrow> nat \<Rightarrow> persistent_publisher \<Rightarrow>
       (go_error option \<times> persistent_publisher) list" where
  "PublishAwaitAcknowledgement_begin foreign duplicated setProperties setAckImmediately setDestination setDeliveryMode
     attachTag sent dest blocker p =
     (case checkStartedStateForPublish (pp_lifecycle p) of
        Some err \<Rightarrow> [(Some err, p)]
      | None \<Rightarrow>
          (case duplicateMessageAndSetProperties foreign duplicated setProperties p of
             (Inl err, p) \<Rightarrow> [(Some err, p)]
           | (Inr msg, p) \<Rightarrow>
               (case setAckImmediately of
                  Some err \<Rightarrow> [(Some err, p)]
                | None \<Rightarrow>
                    publishWithBlockingContext setDestination setDeliveryMode attachTag sent msg dest blocker
                      (p\<lparr>blockers := (blockers p)(blocker := make_chan 1)\<rparr>))))"

definition AckTimeout :: go_error where
  "AckTimeout = NewError TimeoutError ''timed out waiting for message to be acknowledged'' [] None"

definition PublishAwaitAcknowledgement_wait ::
    "bool \<Rightarrow> nat \<Rightarrow> persistent_publisher \<Rightarrow> (go_error option \<times> persistent_publisher) list" where
  "PublishAwaitAcknowledgement_wait timerFires blocker p =
     (case chan_recv (blockers p blocker) of
        Return (Some err, c) \<Rightarrow> [(err, p\<lparr>blockers := (blockers p)(blocker := c)\<rparr>)]
      | _ \<Rightarrow> [])
     @ (if timerFires then [(Some AckTimeout, p)] else [])"

section \<open>The send task\<close>

text \<open>
  The end of a send task whose loop was left with the result \<open>errorInfo\<close>: the head of the buffer is removed;
  on an error the task's own context is removed from the table and resolved.
\<close>

definition pp_send_finish ::
    "persistentTask \<Rightarrow> ErrorInfo option \<Rightarrow> persistent_publisher \<Rightarrow> persistent_publisher outcome" where
  "pp_send_finish t errorInfo p =
     (let isFull = (chan_len (pp_buffer p) = chan_cap (pp_buffer p))
      in case chan_recv (pp_buffer p) of
           Return (Some pub, c) \<Rightarrow>
             (let p = p\<lparr>pp_buffer := c\<rparr>
              in outcome_bind
                   (case (errorInfo, task_ctx t) of
                      (Some info, Some ctx) \<Rightarrow>
                        resolve False (Some (ToNativeError info ''encountered error while publishing message: '')) ctx
                          (removeCorrelationContext (task_messageID t) p)
                    | (_, None) \<Rightarrow> Return (p\<lparr>disposed := disposed p @ [ppub_message pub]\<rparr>)
                    | _ \<Rightarrow> Return p)
                   (\<lambda>p. Return (if isFull \<and> pp_config p = backpressureConfigurationReject then pp_notifyReady p else p)))
         | _ \<Rightarrow> Return p)"

text \<open>
  The whole task. The list holds what the C library answers to each attempt and how the wait after it ends
  (\<open>send_attempts\<close>); an interrupted wait removes the context and leaves the buffer alone.
\<close>

definition run_sendTask ::
    "(ErrorInfo option \<times> await_result) list \<Rightarrow> persistentTask \<Rightarrow> persistent_publisher \<Rightarrow> persistent_publisher outcome" where
  "run_sendTask attempts t p =
     (let p = snd (addCorrelationContext (task_messageID t) (task_ctx t) p)
      in case send_attempts attempts of
           None \<Rightarrow> Blocks
         | Some None \<Rightarrow> Return (removeCorrelationContext (task_messageID t) p)
         | Some (Some errorInfo) \<Rightarrow> pp_send_finish t errorInfo p)"

section \<open>Start and termination\<close>

primrec resolve_undelivered ::
    "go_error option \<Rightarrow> persistentPublishable list \<Rightarrow> persistent_publisher \<Rightarrow> persistent_publisher outcome" where
  "resolve_undelivered err [] p = Return p"
| "resolve_undelivered err (pub # pubs) p =
     outcome_bind (case corr pub of Some ctx \<Rightarrow> resolve False err ctx p | None \<Rightarrow> Return p)
       (resolve_undelivered err pubs)"

definition pp_drainQueue ::
    "go_error option \<Rightarrow> persistent_publisher \<Rightarrow> (nat \<times> persistent_publisher) outcome" where
  "pp_drainQueue err p =
     outcome_bind (chan_close (pp_buffer p)) (\<lambda>c.
       let (undelivered, c') = chan_range c
       in outcome_bind (resolve_undelivered err undelivered (p\<lparr>pp_buffer := c'\<rparr>)) (\<lambda>p.
            Return (length undelivered, p)))"

primrec drain_entries ::
    "go_error option \<Rightarrow> (u64 \<times> correlationContext) list \<Rightarrow> persistent_publisher \<Rightarrow> persistent_publisher outcome" where
  "drain_entries err [] p = Return p"
| "drain_entries err (e # es) p =
     outcome_bind (resolve False err (snd e) p) (\<lambda>p.
       drain_entries err es (p\<lparr>correlationMap := AList.delete (fst e) (correlationMap p)\<rparr>))"

definition drainAckTable ::
    "go_error option \<Rightarrow> persistent_publisher \<Rightarrow> (nat \<times> persistent_publisher) outcome" where
  "drainAckTable err p =
     outcome_bind (drain_entries err (correlationMap p) p) (\<lambda>q. Return (length (correlationMap p), q))"

definition IncompleteDeliveryWithUnacked :: "nat \<Rightarrow> nat \<Rightarrow> go_error" where
  "IncompleteDeliveryWithUnacked undelivered unacked =
     NewError IncompleteMessageDeliveryError IncompleteMessageDeliveryMessageWithUnacked
       [ArgInt (int undelivered), ArgInt (int unacked)] None"

definition pp_undelivered_error ::
    "nat \<Rightarrow> nat \<Rightarrow> persistent_publisher \<Rightarrow> go_error option \<times> persistent_publisher" where
  "pp_undelivered_error undelivered unacked p =
     (if undelivered > 0 \<or> unacked > 0
      then (Some (IncompleteDeliveryWithUnacked undelivered unacked),
            p\<lparr>pp_terminationDiscarded := pp_terminationDiscarded p + undelivered\<rparr>)
      else (None, p))"

definition pp_finish :: "go_error option \<Rightarrow> persistent_publisher \<Rightarrow> persistent_publisher outcome" where
  "pp_finish err p =
     outcome_bind (Terminate (pp_executor p)) (\<lambda>ex.
       Return (p\<lparr>pp_executor := ex, pp_lifecycle := terminated err (pp_lifecycle p)\<rparr>))"

type_synonym core_publisher = "(string, string) ccsmpBackedPublisher"

text \<open>
  \<^verbatim>\<open>Terminate\<close> in its parts: up to the wait for the task buffer; the request of the drain signal, with the
  number of contexts left, after a graceful end of the task buffer; the wait for the signal, which only takes
  place when there are contexts left; and the rest.
\<close>

definition persistent_Terminate_begin ::
    "dp_events \<Rightarrow> persistent_publisher
       \<Rightarrow> (go_error option outcome proceed \<times> dp_events \<times> persistent_publisher) outcome" where
  "persistent_Terminate_begin events p =
     (case publisher_terminate (pp_lifecycle p) of
        (Stop r, l) \<Rightarrow> Return (Stop r, events, p\<lparr>pp_lifecycle := l\<rparr>)
      | (Proceed, l) \<Rightarrow>
          (let p = p\<lparr>pp_lifecycle := l\<rparr>; events = RemoveEventHandler (pp_downEventHandlerID p) events
           in if pp_config p \<noteq> backpressureConfigurationDirect
              then
                outcome_bind (signal_close (pp_interrupt p)) (\<lambda>c.
                outcome_bind (Terminate_begin (buf (pp_tasks p))) (\<lambda>b.
                  Return (Proceed, events, p\<lparr>pp_interrupt := c, pp_tasks := (pp_tasks p)\<lparr>buf := b\<rparr>\<rparr>)))
              else Return (Proceed, RemoveEventHandler (pp_canSendEventHandlerID p) events, p)))"

definition request_correlate_complete :: "persistent_publisher \<Rightarrow> (nat \<times> persistent_publisher) outcome" where
  "request_correlate_complete p =
     outcome_bind (signal_close (requestCorrelateComplete p)) (\<lambda>c.
       Return (length (correlationMap p), p\<lparr>requestCorrelateComplete := c\<rparr>))"

definition await_correlate_complete :: "bool \<Rightarrow> nat \<Rightarrow> persistent_publisher \<Rightarrow> bool list" where
  "await_correlate_complete timerFires remainingAcks p =
     (if remainingAcks > 0
      then (if correlationComplete p then [True] else []) @ (if timerFires then [False] else [])
      else [True])"

definition persistent_Terminate_end ::
    "core_publisher \<Rightarrow> persistent_publisher
       \<Rightarrow> (go_error option \<times> core_publisher \<times> persistent_publisher) outcome" where
  "persistent_Terminate_end core p =
     (let core = RemoveAcknowledgementHandler (pp_acknowledgementHandlerID p) core;
          terminatedErr = Some (NewError IncompleteMessageDeliveryError UnableToPublishAlreadyTerminated [] None)
      in outcome_bind (if pp_config p \<noteq> backpressureConfigurationDirect then pp_drainQueue terminatedErr p else Return (0, p))
           (\<lambda>(undelivered, p).
         outcome_bind (drainAckTable terminatedErr p) (\<lambda>(unacked, p).
           let (err, p) = pp_undelivered_error undelivered unacked p
           in outcome_bind (pp_finish err p) (\<lambda>p. Return (err, core, p)))))"

definition pp_unsolicitedTermination ::
    "go_error option \<Rightarrow> dp_events \<Rightarrow> core_publisher \<Rightarrow> persistent_publisher
       \<Rightarrow> (go_error option list \<times> dp_events \<times> core_publisher \<times> persistent_publisher) outcome" where
  "pp_unsolicitedTermination downErr events core p =
     (case publisher_terminate (pp_lifecycle p) of
        (Stop r, l) \<Rightarrow> Return ([], events, core, p\<lparr>pp_lifecycle := l\<rparr>)
      | (Proceed, l) \<Rightarrow>
          (let p = p\<lparr>pp_lifecycle := l\<rparr>; events = RemoveEventHandler (pp_downEventHandlerID p) events;
               core = RemoveAcknowledgementHandler (pp_acknowledgementHandlerID p) core
           in outcome_bind
                (if pp_config p \<noteq> backpressureConfigurationDirect
                 then
                   outcome_bind (signal_close (pp_interrupt p)) (\<lambda>c.
                   outcome_bind (TerminateNow (buf (pp_tasks p))) (\<lambda>b.
                   outcome_bind (pp_drainQueue downErr (p\<lparr>pp_interrupt := c, pp_tasks := (pp_tasks p)\<lparr>buf := b\<rparr>\<rparr>))
                     (\<lambda>(undelivered, p). Return (undelivered, events, p))))
                 else Return (0, RemoveEventHandler (pp_canSendEventHandlerID p) events, p))
                (\<lambda>(undelivered, events, p).
              outcome_bind (drainAckTable downErr p) (\<lambda>(unacked, p).
                let (err, p) = pp_undelivered_error undelivered unacked p
                in outcome_bind (pp_finish err p) (\<lambda>p.
                     Return (if pp_terminationListener p then [downErr] else [], events, core, p))))))"

text \<open>\<^verbatim>\<open>Start\<close>; the error path of its deferred function is unreachable, since the body always returns nil.\<close>

definition persistent_Start ::
    "bool \<Rightarrow> dp_events \<Rightarrow> core_publisher \<Rightarrow> persistent_publisher
       \<Rightarrow> go_error option outcome proceed \<times> dp_events \<times> core_publisher \<times> persistent_publisher" where
  "persistent_Start parentRunning events core p =
     (case publisher_starting parentRunning (pp_lifecycle p) of
        (Stop r, l) \<Rightarrow> (Stop r, events, core, p\<lparr>pp_lifecycle := l\<rparr>)
      | (Proceed, l) \<Rightarrow>
          (let (i, events) = AddEventHandler SolClientEventDown (Other ''persistent publisher onDownEvent'') events;
               (a, core) = AddAcknowledgementHandler ''persistent publisher ackHandler'' core;
               p = p\<lparr>pp_lifecycle := l, pp_downEventHandlerID := i, pp_acknowledgementHandlerID := a, pp_messageID := 0\<rparr>
           in if pp_config p \<noteq> backpressureConfigurationDirect
              then (Proceed, events, core, p\<lparr>pp_lifecycle := started None (pp_lifecycle p)\<rparr>)
              else
                let (j, events) = AddEventHandler SolClientEventCanSend (Other ''persistent publisher onCanSend'') events
                in (Proceed, events, core, p\<lparr>pp_canSendEventHandlerID := j,
                      pp_lifecycle := started None (pp_lifecycle p)\<rparr>)))"

section \<open>The builder\<close>

definition persistent_Build ::
    "(int \<Rightarrow> int \<Rightarrow> u64) \<Rightarrow> property_map \<Rightarrow> go_error + persistent_publisher" where
  "persistent_Build oor properties =
     (case validateBackpressureConfig oor properties of
        Inl err \<Rightarrow> Inl err
      | Inr (backpressureConfig, bufferSize) \<Rightarrow> Inr (persistent_construct backpressureConfig (unat bufferSize)))"

section \<open>Resolving contexts\<close>

text \<open>
  A context can be resolved while the event executor is open and, if a caller waits for it, its channel has
  not been used. The contexts in a list can be resolved one after the other when they wait on different
  channels.
\<close>

fun ctx_blockers :: "correlationContext \<Rightarrow> nat list" where
  "ctx_blockers (callbackCorrelationContext msg user) = []"
| "ctx_blockers (blockingCorrelationContext msg blocker) = [blocker]"

definition resolvable :: "correlationContext list \<Rightarrow> persistent_publisher \<Rightarrow> bool" where
  "resolvable ctxs p \<longleftrightarrow> executor_open (pp_executor p) \<and> distinct (concat (map ctx_blockers ctxs)) \<and>
     (\<forall>b \<in> set (concat (map ctx_blockers ctxs)). blockers p b = make_chan 1)"

text \<open>What resolving may change.\<close>

definition resolve_frame :: "persistent_publisher \<Rightarrow> persistent_publisher \<Rightarrow> bool" where
  "resolve_frame p p' \<longleftrightarrow>
     p' = p\<lparr>pp_executor := pp_executor p', blockers := blockers p', disposed := disposed p',
             resolutions := resolutions p'\<rparr>"

lemma resolve_frame_eqs:
  assumes "resolve_frame p p'"
  shows "correlationMap p' = correlationMap p" "pp_buffer p' = pp_buffer p" "pp_tasks p' = pp_tasks p"
    "pp_lifecycle p' = pp_lifecycle p" "pp_config p' = pp_config p" "correlationComplete p' = correlationComplete p"
    "requestCorrelateComplete p' = requestCorrelateComplete p" "pp_interrupt p' = pp_interrupt p"
    "pp_terminationDiscarded p' = pp_terminationDiscarded p" "publishReceiptListener p' = publishReceiptListener p"
    "pp_acknowledgementHandlerID p' = pp_acknowledgementHandlerID p"
    "pp_terminationListener p' = pp_terminationListener p"
    "pp_readinessListener p' = pp_readinessListener p"
  using assms unfolding resolve_frame_def by (cases p; cases p'; simp)+

lemma resolve_frame_refl [simp]: "resolve_frame p p"
  by (simp add: resolve_frame_def)

lemma resolve_frame_trans: "resolve_frame p q \<Longrightarrow> resolve_frame q r \<Longrightarrow> resolve_frame p r"
  unfolding resolve_frame_def by (cases p; cases q; cases r; simp)

lemma resolvable_head: "resolvable (ctx # ctxs) p \<Longrightarrow> resolvable [ctx] p"
  by (auto simp: resolvable_def)

lemma resolve_ok:
  assumes "resolvable [ctx] p"
  obtains p' where "resolve persisted err ctx p = Return p'" "resolve_frame p p'"
    "resolutions p' = resolutions p @ [(ctx, persisted, err)]" "executor_open (pp_executor p')"
    "\<forall>b. b \<notin> set (ctx_blockers ctx) \<longrightarrow> blockers p' b = blockers p b"
    "tasks (pp_executor p') = tasks (pp_executor p) @
       (case ctx of callbackCorrelationContext m u \<Rightarrow>
          if publishReceiptListener p then [ReceiptCall (createReceipt persisted err m u)] else []
        | _ \<Rightarrow> [])"
    "\<forall>b \<in> set (ctx_blockers ctx). chan_items (blockers p' b) = [err]"
proof (cases ctx)
  case (callbackCorrelationContext m u)
  obtain ex where "Submit (ReceiptCall (createReceipt persisted err m u)) (pp_executor p) = Return (True, ex)"
    "executor_open ex" "tasks ex = tasks (pp_executor p) @ [ReceiptCall (createReceipt persisted err m u)]"
    using assms Submit_open by (metis resolvable_def)
  then show ?thesis
    using callbackCorrelationContext assms that
      [of "if publishReceiptListener p
           then p\<lparr>pp_executor := ex, resolutions := resolutions p @ [(ctx, persisted, err)]\<rparr>
           else p\<lparr>disposed := disposed p @ [m], resolutions := resolutions p @ [(ctx, persisted, err)]\<rparr>"]
    by (cases "publishReceiptListener p") (simp_all add: resolve_def resolvable_def resolve_frame_def)
next
  case (blockingCorrelationContext m b)
  let ?c = "\<lparr>chan_items = [err], chan_cap = 1, chan_closed = False\<rparr>"
  have "chan_send err (blockers p b) = Return ?c"
    using assms blockingCorrelationContext by (simp add: resolvable_def chan_send_def make_chan_def)
  then show ?thesis
    using blockingCorrelationContext assms that
      [of "p\<lparr>blockers := (blockers p)(b := ?c), disposed := disposed p @ [m],
             resolutions := resolutions p @ [(ctx, persisted, err)]\<rparr>"]
    by (simp add: resolve_def resolvable_def resolve_frame_def)
qed

lemma resolvable_step:
  assumes "resolvable (ctx # ctxs) p" and "executor_open (pp_executor p')"
    and "\<forall>b. b \<notin> set (ctx_blockers ctx) \<longrightarrow> blockers p' b = blockers p b"
  shows "resolvable ctxs p'"
proof -
  have "blockers p' b = make_chan 1" if "b \<in> set (concat (map ctx_blockers ctxs))" for b
  proof -
    have "b \<notin> set (ctx_blockers ctx)" "blockers p b = make_chan 1" using assms(1) that by (auto simp: resolvable_def)
    with assms(3) show ?thesis by simp
  qed
  then show ?thesis using assms(1,2) by (simp add: resolvable_def)
qed

text \<open>The history entries of a list of contexts that are resolved with a failure.\<close>

abbreviation failed_with :: "go_error option \<Rightarrow> correlationContext list \<Rightarrow> (correlationContext \<times> bool \<times> go_error option) list" where
  "failed_with err ctxs \<equiv> map (\<lambda>ctx. (ctx, False, err)) ctxs"

lemma resolve_undelivered_ok:
  assumes "resolvable (List.map_filter corr pubs) p"
  shows "\<exists>p'. resolve_undelivered err pubs p = Return p' \<and> resolve_frame p p' \<and> executor_open (pp_executor p') \<and>
    resolutions p' = resolutions p @ failed_with err (List.map_filter corr pubs) \<and>
    (\<forall>b. b \<notin> set (concat (map ctx_blockers (List.map_filter corr pubs))) \<longrightarrow> blockers p' b = blockers p b)"
  using assms
proof (induction pubs arbitrary: p)
  case Nil
  then show ?case by (simp add: resolvable_def map_filter_simps)
next
  case (Cons pub pubs)
  show ?case
  proof (cases "corr pub")
    case None
    with Cons show ?thesis by (simp add: map_filter_simps)
  next
    case (Some ctx)
    then have r: "resolvable (ctx # List.map_filter corr pubs) p" using Cons.prems by (simp add: map_filter_simps)
    obtain q where q: "resolve False err ctx p = Return q" "resolve_frame p q"
      "resolutions q = resolutions p @ [(ctx, False, err)]" "executor_open (pp_executor q)"
      "\<forall>b. b \<notin> set (ctx_blockers ctx) \<longrightarrow> blockers q b = blockers p b"
      using resolve_ok [OF resolvable_head [OF r]] by metis
    from Cons.IH [OF resolvable_step [OF r q(4,5)]] obtain p' where
      "resolve_undelivered err pubs q = Return p'" "resolve_frame q p'" "executor_open (pp_executor p')"
      "resolutions p' = resolutions q @ failed_with err (List.map_filter corr pubs)"
      "\<forall>b. b \<notin> set (concat (map ctx_blockers (List.map_filter corr pubs))) \<longrightarrow> blockers p' b = blockers q b"
      by blast
    with q Some show ?thesis
      by (intro exI [of _ p']) (auto simp: map_filter_simps intro: resolve_frame_trans)
  qed
qed

lemma drain_entries_ok:
  assumes "resolvable (map snd es) p" and "distinct (map fst es)" and "correlationMap p = es"
  shows "\<exists>p'. drain_entries err es p = Return p' \<and> resolve_frame (p\<lparr>correlationMap := []\<rparr>) p' \<and>
    executor_open (pp_executor p') \<and> resolutions p' = resolutions p @ failed_with err (map snd es)"
  using assms
proof (induction es arbitrary: p)
  case Nil
  then have "p\<lparr>correlationMap := []\<rparr> = p" by (cases p) simp
  then have "resolve_frame (p\<lparr>correlationMap := []\<rparr>) p" by (metis resolve_frame_refl)
  with Nil show ?case by (simp add: resolvable_def)
next
  case (Cons e es)
  have r: "resolvable (snd e # map snd es) p" using Cons.prems by simp
  obtain q where q: "resolve False err (snd e) p = Return q" "resolve_frame p q"
    "resolutions q = resolutions p @ [(snd e, False, err)]" "executor_open (pp_executor q)"
    "\<forall>b. b \<notin> set (ctx_blockers (snd e)) \<longrightarrow> blockers q b = blockers p b"
    using resolve_ok [OF resolvable_head [OF r]] by metis
  let ?q = "q\<lparr>correlationMap := es\<rparr>"
  have "fst e \<notin> fst ` set es" using Cons.prems(2) by auto
  then have del: "AList.delete (fst e) (correlationMap q) = es"
    using Cons.prems(3) resolve_frame_eqs(1) [OF q(2)] by (cases e) (simp add: delete_filter filter_key_fresh)
  have "resolvable (map snd es) ?q" using resolvable_step [OF r q(4,5)] by (simp add: resolvable_def)
  from Cons.IH [OF this] Cons.prems(2) obtain p' where
    p': "drain_entries err es ?q = Return p'" "resolve_frame (?q\<lparr>correlationMap := []\<rparr>) p'" "executor_open (pp_executor p')"
    "resolutions p' = resolutions ?q @ failed_with err (map snd es)"
    by auto
  moreover have "resolve_frame (p\<lparr>correlationMap := []\<rparr>) (?q\<lparr>correlationMap := []\<rparr>)"
    using q(2) unfolding resolve_frame_def by (cases p; cases q; simp)
  ultimately show ?case
    using q del by (intro exI [of _ p']) (auto intro: resolve_frame_trans)
qed

lemma resolvable_append:
  assumes "resolvable (xs @ ys) p" and "executor_open (pp_executor p')"
    and "\<forall>b. b \<notin> set (concat (map ctx_blockers xs)) \<longrightarrow> blockers p' b = blockers p b"
  shows "resolvable xs p" "resolvable ys p'"
proof -
  show "resolvable xs p" using assms(1) by (auto simp: resolvable_def)
  have "blockers p' b = make_chan 1" if "b \<in> set (concat (map ctx_blockers ys))" for b
  proof -
    have "b \<notin> set (concat (map ctx_blockers xs))" "blockers p b = make_chan 1"
      using assms(1) that unfolding resolvable_def map_append concat_append distinct_append set_append by blast+
    with assms(3) show ?thesis by simp
  qed
  then show "resolvable ys p'" using assms(1,2) by (simp add: resolvable_def)
qed

section \<open>Properties\<close>

text \<open>The state in which the task of the first message of a buffered publisher has added its context.\<close>

definition sending_first ::
    "backpressureConfiguration \<Rightarrow> nat \<Rightarrow> bool \<Rightarrow> nat \<Rightarrow> string \<Rightarrow> correlationContext \<Rightarrow> persistent_publisher" where
  "sending_first cfg cap listener msg dest ctx =
     (persistent_construct cfg (Suc cap))
           \<lparr>pp_lifecycle := started None lifecycle_construct, publishReceiptListener := listener, pp_messageID := 1,
            pp_buffer := \<lparr>chan_items = [\<lparr>ppub_message = msg, ppub_destination = dest, corr = Some ctx\<rparr>],
                          chan_cap = Suc cap, chan_closed = False\<rparr>,
            pp_tasks := (buf_init (Suc cap))\<lparr>buf := (NewChannelBasedPublisherTaskBuffer (Suc cap))
                 \<lparr>tb_channel := \<lparr>chan_items = [sendTask msg dest 1 (Some ctx)], chan_cap = Suc cap, chan_closed = False\<rparr>\<rparr>,
              submitted := [sendTask msg dest 1 (Some ctx)]\<rparr>,
            correlationMap := [(1, ctx)]\<rparr>"

lemma sending_first_reached:
  assumes "cfg \<noteq> backpressureConfigurationDirect"
    and "p = (persistent_construct cfg (Suc cap))\<lparr>pp_lifecycle := started None lifecycle_construct,
               publishReceiptListener := listener\<rparr>"
    and "(None, p1) \<in> set (pp_publish None None attachTag None msg dest (Some ctx) p)"
    and "chan_items (tb_channel (buf (pp_tasks p1))) = [t]"
  shows "snd (addCorrelationContext (task_messageID t) (task_ctx t) p1) = sending_first cfg cap listener msg dest ctx"
proof -
  have tag: "attachTag (toCorrelationTag 0 1) = None"
    using assms(2,3) by (auto simp: pp_publish_def next_correlation_tag_def persistent_construct_def Let_def split: option.splits)
  have "p1 = (sending_first cfg cap listener msg dest ctx)\<lparr>correlationMap := []\<rparr>"
    using assms(1,2,3) tag
    by (auto simp: pp_publish_def next_correlation_tag_def persistent_construct_def checkStartedStateForPublish_def
        started_def pp_publish_buffered_def pp_buffer_write_def chan_send_def make_chan_def buffer_Submit_def
        buf_init_def NewChannelBasedPublisherTaskBuffer_def sendTask_def sending_first_def Let_def)
  moreover from this assms(4) have "t = sendTask msg dest 1 (Some ctx)" by (simp add: sending_first_def)
  ultimately show ?thesis by (simp add: addCorrelationContext_def sendTask_def sending_first_def)
qed

text \<open>What a down event does up to its two calls of \<open>resolve\<close> in that state.\<close>

lemma unsolicited_sending_first:
  fixes cfg cap listener msg dest ctx events and core :: core_publisher
  assumes "cfg \<noteq> backpressureConfigurationDirect"
  obtains p0 events' core' where "resolutions p0 = []" "executor_open (pp_executor p0)" "blockers p0 = (\<lambda>i. make_chan 1)"
    "correlationMap p0 = [(1, ctx)]" "pp_terminationListener p0 = False"
    "pp_unsolicitedTermination downErr events core (sending_first cfg cap listener msg dest ctx) =
       outcome_bind (resolve False downErr ctx p0) (\<lambda>p.
       outcome_bind (drainAckTable downErr p) (\<lambda>(unacked, p).
         let (err, p) = pp_undelivered_error 1 unacked p
         in outcome_bind (pp_finish err p) (\<lambda>p.
              Return (if pp_terminationListener p then [downErr] else [], events', core', p))))"
proof -
  let ?s = "sending_first cfg cap listener msg dest ctx"
  let ?b = "(buf (pp_tasks ?s))\<lparr>terminateGraceful := True, terminateTask := True, terminateUngraceful := True\<rparr>"
  let ?p0 = "?s\<lparr>pp_lifecycle := (pp_lifecycle ?s)\<lparr>lc_state := Terminating\<rparr>, pp_interrupt := True,
      pp_tasks := (pp_tasks ?s)\<lparr>buf := ?b\<rparr>, pp_buffer := (pp_buffer ?s)\<lparr>chan_items := [], chan_closed := True\<rparr>\<rparr>"
  have t: "publisher_terminate (pp_lifecycle ?s) = (Proceed, (pp_lifecycle ?s)\<lparr>lc_state := Terminating\<rparr>)"
    by (simp add: sending_first_def publisher_terminate_def terminate_def started_def CompareAndSwap_def)
  have now: "TerminateNow (buf (pp_tasks ?s)) = Return ?b"
    by (simp add: sending_first_def TerminateNow_def Terminate_begin_def Terminate_timeout_def close_terminateTask_def
        close_terminateUngraceful_def signal_close_def NewChannelBasedPublisherTaskBuffer_def buf_init_def)
  have cfg: "pp_config ?s \<noteq> backpressureConfigurationDirect" "\<not> pp_interrupt ?s"
    using assms by (simp_all add: sending_first_def persistent_construct_def)
  let ?q = "?s\<lparr>pp_lifecycle := (pp_lifecycle ?s)\<lparr>lc_state := Terminating\<rparr>, pp_interrupt := True,
      pp_tasks := (pp_tasks ?s)\<lparr>buf := ?b\<rparr>\<rparr>"
  have "pp_drainQueue downErr ?q = outcome_bind (resolve False downErr ctx ?p0) (\<lambda>p. Return (1, p))"
    by (cases "resolve False downErr ctx ?p0")
      (simp_all add: pp_drainQueue_def sending_first_def chan_close_def chan_range_def)
  then have "pp_unsolicitedTermination downErr events core ?s =
       outcome_bind (resolve False downErr ctx ?p0) (\<lambda>p.
       outcome_bind (drainAckTable downErr p) (\<lambda>(unacked, p).
         let (err, p) = pp_undelivered_error 1 unacked p
         in outcome_bind (pp_finish err p) (\<lambda>p.
              Return (if pp_terminationListener p then [downErr] else [],
                RemoveEventHandler (pp_downEventHandlerID ?s) events,
                RemoveAcknowledgementHandler (pp_acknowledgementHandlerID ?s) core, p))))"
    using t now cfg by (cases "resolve False downErr ctx ?p0")
      (simp_all add: pp_unsolicitedTermination_def signal_close_def Let_def)
  then show ?thesis
    by (rule that [rotated -1]) (simp_all add: sending_first_def persistent_construct_def)
qed

text \<open>
  C11. A published message is acknowledged to its own context, once. On a started unbuffered publisher whose
  acknowledgement handler is registered, a publish that the C library accepts sends the message with a
  correlation tag that an acknowledgement event is routed by: to this publisher's handler, with the message's
  number. The handler then resolves exactly the context of that message with the result of the broker, removes
  it from the table and leaves the contexts of the other messages there; a second acknowledgement of the
  same message changes nothing.
\<close>

theorem persistent_publish_acknowledged:
  assumes "IsRunning (pp_lifecycle p)" and "pp_config p = backpressureConfigurationDirect"
    and "acknowledgementMap core (pp_acknowledgementHandlerID p) = Some h"
    and "mid = pp_messageID p + 1" and "mid \<notin> fst ` set (correlationMap p)"
    and "tag = toCorrelationTag (pp_acknowledgementHandlerID p) mid" and "attachTag tag = None"
    and "resolvable [ctx] p"
  shows "\<exists>p' p''. pp_publish None None attachTag None msg dest (Some ctx) p = [(None, p')] \<and>
    correlationMap p' = correlationMap p @ [(mid, ctx)] \<and>
    onAcknowledgement (Some (tag @ rest)) persisted err core = [(h, mid, persisted, err)] \<and>
    ackHandler mid persisted err p' = Return p'' \<and> correlationMap p'' = correlationMap p \<and>
    resolutions p'' = resolutions p @ [(ctx, persisted, err)] \<and>
    ackHandler mid persisted' err' p'' = Return p''"
proof -
  let ?p' = "p\<lparr>pp_messageID := mid, correlationMap := correlationMap p @ [(mid, ctx)]\<rparr>"
  have pub: "pp_publish None None attachTag None msg dest (Some ctx) p = [(None, ?p')]"
    using assms(1,2,4,5,6,7)
    by (simp add: pp_publish_def next_correlation_tag_def checkStartedStateForPublish_def IsRunning_def Let_def
        publish_unbuffered_def addCorrelationContext_def sendTask_def update_fresh)
  have route: "onAcknowledgement (Some (tag @ rest)) persisted err core = [(h, mid, persisted, err)]"
    using assms(3,6) by (simp add: onAcknowledgement_def)
  have look: "map_of (correlationMap ?p') mid = Some ctx"
    using assms(5) by (simp add: map_add_def map_of_eq_None_iff [THEN iffD2] dom_map_of_conv_image_fst)
  have "resolvable [ctx] ?p'" using assms(8) by (simp add: resolvable_def)
  then obtain q where q: "resolve persisted err ctx ?p' = Return q" "resolve_frame ?p' q"
    "resolutions q = resolutions ?p' @ [(ctx, persisted, err)]"
    by (rule resolve_ok [where persisted = persisted and err = err]) blast
  let ?q = "q\<lparr>correlationMap := correlationMap p\<rparr>"
  have "AList.delete mid (correlationMap q) = correlationMap p"
    using assms(5) resolve_frame_eqs(1) [OF q(2)] by (simp add: delete_filter filter_key_fresh)
  then have "ack_finish mid q = Return ?q"
    using assms(1) resolve_frame_eqs(4) [OF q(2)] by (simp add: ack_finish_def IsRunning_def)
  then have ack: "ackHandler mid persisted err ?p' = Return ?q" using look q(1) by (simp add: ackHandler_def)
  have "map_of (correlationMap p) mid = None" using assms(5) by (simp add: map_of_eq_None_iff)
  then have "ackHandler mid persisted' err' ?q = Return ?q" by (simp add: ackHandler_def)
  with pub route ack q(3) show ?thesis by (intro exI [of _ ?p'] exI [of _ ?q]) simp
qed

theorem persistent_publish_acknowledged_witness:
  "\<exists>p' p''. pp_publish None None (\<lambda>_. None) None 7 ''t'' (Some (blockingCorrelationContext 7 0))
       ((persistent_construct backpressureConfigurationDirect 0)\<lparr>pp_lifecycle := started None lifecycle_construct,
         pp_acknowledgementHandlerID := 1\<rparr>) = [(None, p')] \<and>
     ackHandler 1 True None p' = Return p'' \<and> resolutions p'' = [(blockingCorrelationContext 7 0, True, None)]"
  using persistent_publish_acknowledged
    [of "(persistent_construct backpressureConfigurationDirect 0)\<lparr>pp_lifecycle := started None lifecycle_construct,
         pp_acknowledgementHandlerID := 1\<rparr>"
      "snd (AddAcknowledgementHandler ''h'' (newCcsmpPublisher :: core_publisher))" "''h''" 1
      "toCorrelationTag 1 1" "\<lambda>_. None" "blockingCorrelationContext 7 0" 7 "''t''" "[]" True None True None]
  by (auto simp: persistent_construct_def started_def IsRunning_def AddAcknowledgementHandler_def newCcsmpPublisher_def
      resolvable_def)

text \<open>
  Termination accounts for every message. When the rest of a buffered publisher's \<^verbatim>\<open>Terminate\<close> runs, every
  message left in the buffer and then every message that was never acknowledged has its context resolved
  once, as a failure; the table and the buffer are empty afterwards, the handler no longer receives
  acknowledgements, and the publisher is terminated. The error names both numbers and is missing exactly when both
  are zero; only the undelivered messages are added to the metric of discarded messages.
\<close>

theorem persistent_termination_accounts:
  assumes "pp_config p \<noteq> backpressureConfigurationDirect" and "chan_open (pp_buffer p)"
    and "distinct (map fst (correlationMap p))"
    and "resolvable (List.map_filter corr (chan_items (pp_buffer p)) @ map snd (correlationMap p)) p"
    and "undelivered = length (chan_items (pp_buffer p))" and "unacked = length (correlationMap p)"
  shows "\<exists>err core' p'. persistent_Terminate_end core p = Return (err, core', p') \<and>
    resolutions p' = resolutions p @
      failed_with (Some (NewError IncompleteMessageDeliveryError UnableToPublishAlreadyTerminated [] None))
        (List.map_filter corr (chan_items (pp_buffer p)) @ map snd (correlationMap p)) \<and>
    correlationMap p' = [] \<and> chan_items (pp_buffer p') = [] \<and> chan_closed (pp_buffer p') \<and>
    acknowledgementMap core' (pp_acknowledgementHandlerID p) = None \<and> IsTerminated (pp_lifecycle p') \<and>
    err = (if undelivered = 0 \<and> unacked = 0 then None else Some (IncompleteDeliveryWithUnacked undelivered unacked)) \<and>
    pp_terminationDiscarded p' = pp_terminationDiscarded p + undelivered"
proof -
  let ?e = "Some (NewError IncompleteMessageDeliveryError UnableToPublishAlreadyTerminated [] None)"
  let ?items = "chan_items (pp_buffer p)"
  let ?p1 = "p\<lparr>pp_buffer := (pp_buffer p)\<lparr>chan_closed := True, chan_items := []\<rparr>\<rparr>"
  have r1: "resolvable (List.map_filter corr ?items @ map snd (correlationMap p)) ?p1"
    using assms(4) by (simp add: resolvable_def)
  have "executor_open (pp_executor ?p1)" using r1 by (simp add: resolvable_def)
  from resolvable_append(1) [OF r1 this] have "resolvable (List.map_filter corr ?items) ?p1" by simp
  from resolve_undelivered_ok [OF this, of ?e] obtain p2 where
    p2: "resolve_undelivered ?e ?items ?p1 = Return p2" "resolve_frame ?p1 p2" "executor_open (pp_executor p2)"
    "resolutions p2 = resolutions ?p1 @ failed_with ?e (List.map_filter corr ?items)"
    "\<forall>b. b \<notin> set (concat (map ctx_blockers (List.map_filter corr ?items))) \<longrightarrow> blockers p2 b = blockers ?p1 b"
    by blast
  note f2 = resolve_frame_eqs [OF p2(2)]
  have "drain_entries ?e (correlationMap p2) p2 = drain_entries ?e (correlationMap p) p2" using f2(1) by simp
  from drain_entries_ok [OF resolvable_append(2) [OF r1 p2(3,5)] assms(3), of ?e] f2(1) obtain p3 where
    p3: "drain_entries ?e (correlationMap p) p2 = Return p3" "resolve_frame (p2\<lparr>correlationMap := []\<rparr>) p3"
      "executor_open (pp_executor p3)"
      "resolutions p3 = resolutions p2 @ failed_with ?e (map snd (correlationMap p))"
    by auto
  note f3 = resolve_frame_eqs [OF p3(2)]
  obtain err p4 where u: "pp_undelivered_error undelivered unacked p3 = (err, p4)"
    by (cases "pp_undelivered_error undelivered unacked p3")
  have p4: "p4 = p3\<lparr>pp_terminationDiscarded := pp_terminationDiscarded p3 + undelivered\<rparr>"
    and err: "err = (if undelivered = 0 \<and> unacked = 0 then None else Some (IncompleteDeliveryWithUnacked undelivered unacked))"
    using u by (auto simp: pp_undelivered_error_def split: if_splits)
  obtain ex where ex: "Terminate (pp_executor p3) = Return ex" using Terminate_open [OF p3(3)] by blast
  let ?p5 = "p4\<lparr>pp_executor := ex, pp_lifecycle := terminated err (pp_lifecycle p4)\<rparr>"
  let ?core = "RemoveAcknowledgementHandler (pp_acknowledgementHandlerID p) core"
  have dq: "pp_drainQueue ?e p = Return (undelivered, p2)"
    using assms(2,5) p2(1) by (simp add: pp_drainQueue_def chan_close_def chan_open_def chan_range_def)
  have dt: "drainAckTable ?e p2 = Return (unacked, p3)"
    using p3(1) f2(1) assms(6) by (simp add: drainAckTable_def)
  have "persistent_Terminate_end core p = Return (err, ?core, ?p5)"
    using assms(1) dq dt u ex p4 by (simp add: persistent_Terminate_end_def Let_def pp_finish_def)
  then show ?thesis
    using p2(4) p3(4) f2 f3 p4 err
    by (intro exI [of _ err] exI [of _ ?core] exI [of _ ?p5])
      (simp add: IsTerminated_def terminated_def RemoveAcknowledgementHandler_def)
qed

theorem persistent_termination_accounts_witness:
  "\<exists>err core' p'. persistent_Terminate_end newCcsmpPublisher
       ((persistent_construct backpressureConfigurationWait 2)\<lparr>pp_lifecycle := started None lifecycle_construct,
         correlationMap := [(1, blockingCorrelationContext 7 0), (2, callbackCorrelationContext 8 None)]\<rparr>) = Return (err, core', p') \<and>
     err = Some (IncompleteDeliveryWithUnacked 0 2) \<and> correlationMap p' = []"
  using persistent_termination_accounts
    [of "(persistent_construct backpressureConfigurationWait 2)\<lparr>pp_lifecycle := started None lifecycle_construct,
         correlationMap := [(1, blockingCorrelationContext 7 0), (2, callbackCorrelationContext 8 None)]\<rparr>" 0 2 newCcsmpPublisher]
  by (auto simp: persistent_construct_def resolvable_def make_chan_def chan_open_def chan_wf_def map_filter_simps)

text \<open>
  A down event resolves the message that is being sent twice. When a buffered publisher is terminated by
  a down event while the task of its only message has added the message's context to the table and not yet removed
  the message from the buffer, the context is resolved from the buffer and again from the table: two
  receipts report the same message, and the publisher counts it both as undelivered and as unacknowledged. If a caller of
  \<^verbatim>\<open>PublishAwaitAcknowledgement\<close> was to be told and does not take the first result, the second send on its
  channel blocks the termination, which holds the lock of the table.
\<close>

theorem unsolicited_termination_resolves_twice:
  assumes "cfg \<noteq> backpressureConfigurationDirect"
    and "p = (persistent_construct cfg (Suc cap))\<lparr>pp_lifecycle := started None lifecycle_construct,
               publishReceiptListener := listener\<rparr>"
    and "(None, p1) \<in> set (pp_publish None None attachTag None msg dest (Some ctx) p)"
    and "chan_items (tb_channel (buf (pp_tasks p1))) = [t]"
    and "p2 = snd (addCorrelationContext (task_messageID t) (task_ctx t) p1)"
  shows "case ctx of
      callbackCorrelationContext m u \<Rightarrow>
        (\<exists>events' core' p'. pp_unsolicitedTermination downErr events core p2 = Return ([], events', core', p') \<and>
           resolutions p' = [(ctx, False, downErr), (ctx, False, downErr)] \<and>
           future_Get (terminateFuture (pp_lifecycle p')) = Return (Some (IncompleteDeliveryWithUnacked 1 1)))
    | blockingCorrelationContext m b \<Rightarrow> pp_unsolicitedTermination downErr events core p2 = Blocks"
proof -
  have p2: "p2 = sending_first cfg cap listener msg dest ctx"
    using sending_first_reached [OF assms(1-4)] assms(5) by simp
  obtain p0 events' core' where p0: "resolutions p0 = []" "executor_open (pp_executor p0)"
    "blockers p0 = (\<lambda>i. make_chan 1)" "correlationMap p0 = [(1, ctx)]" "pp_terminationListener p0 = False"
    and run: "pp_unsolicitedTermination downErr events core p2 =
       outcome_bind (resolve False downErr ctx p0) (\<lambda>p.
       outcome_bind (drainAckTable downErr p) (\<lambda>(unacked, p).
         let (err, p) = pp_undelivered_error 1 unacked p
         in outcome_bind (pp_finish err p) (\<lambda>p.
              Return (if pp_terminationListener p then [downErr] else [], events', core', p))))"
    unfolding p2 by (rule unsolicited_sending_first [OF assms(1)])
  have "resolvable [ctx] p0" using p0 by (cases ctx) (simp_all add: resolvable_def)
  then obtain q where q: "resolve False downErr ctx p0 = Return q" "resolve_frame p0 q"
    "resolutions q = [(ctx, False, downErr)]" "executor_open (pp_executor q)"
    "\<forall>b \<in> set (ctx_blockers ctx). chan_items (blockers q b) = [downErr]"
    using p0(1) by (elim resolve_ok [where persisted = False and err = downErr]) simp
  note f = resolve_frame_eqs [OF q(2)]
  show ?thesis
  proof (cases ctx)
    case (blockingCorrelationContext m b)
    have "chan_send downErr (blockers q b) = Blocks"
      using q(1) p0(3) blockingCorrelationContext by (auto simp: resolve_def chan_send_def make_chan_def)
    then have "resolve False downErr ctx q = Blocks" using blockingCorrelationContext by (simp add: resolve_def)
    then have "drainAckTable downErr q = Blocks" using p0(4) f(1) by (simp add: drainAckTable_def)
    then show ?thesis using blockingCorrelationContext run q(1) by simp
  next
    case (callbackCorrelationContext m u)
    then have "resolvable [ctx] q" using q(4) by (simp add: resolvable_def)
    then obtain r where r: "resolve False downErr ctx q = Return r" "resolve_frame q r"
      "resolutions r = [(ctx, False, downErr), (ctx, False, downErr)]" "executor_open (pp_executor r)"
      using q(3) by (elim resolve_ok [where persisted = False and err = downErr]) simp
    note g = resolve_frame_eqs [OF r(2)]
    obtain ex where "Terminate (pp_executor r) = Return ex" using Terminate_open [OF r(4)] by blast
    then show ?thesis
      using callbackCorrelationContext run q(1) r(1,3) p0(4,5) f g
      by (simp add: drainAckTable_def pp_undelivered_error_def pp_finish_def terminated_def)
  qed
qed

theorem unsolicited_termination_resolves_twice_witness:
  "pp_unsolicitedTermination None newCcsmpEvents newCcsmpPublisher
     (sending_first backpressureConfigurationWait 0 False 7 ''t'' (blockingCorrelationContext 7 0)) = Blocks"
  using unsolicited_termination_resolves_twice [where cfg = backpressureConfigurationWait and cap = 0 and listener = False
      and msg = 7 and dest = "''t''" and ctx = "blockingCorrelationContext 7 0" and attachTag = "\<lambda>_. None"
      and ?p1.0 = "(sending_first backpressureConfigurationWait 0 False 7 ''t'' (blockingCorrelationContext 7 0))\<lparr>correlationMap := []\<rparr>"
      and t = "sendTask 7 ''t'' 1 (Some (blockingCorrelationContext 7 0))" and downErr = None and events = newCcsmpEvents
      and core = newCcsmpPublisher, OF _ refl _ _ refl]
  by (simp add: pp_publish_def next_correlation_tag_def persistent_construct_def checkStartedStateForPublish_def
        started_def pp_publish_buffered_def pp_buffer_write_def chan_send_def make_chan_def buffer_Submit_def
        buf_init_def NewChannelBasedPublisherTaskBuffer_def sendTask_def sending_first_def addCorrelationContext_def)

end
