(* ===== verification/Persistent_Concurrency.thy ===== *)
theory Persistent_Concurrency
  imports Persistent_Publisher
begin

text \<open>
  The goroutines that work on a persistent publisher
  (\<^verbatim>\<open>internal/impl/publisher/persistent_message_publisher_impl.go\<close>): any number of publishing callers, the
  goroutine of the task buffer with the send task it runs, the thread of the C library that delivers
  acknowledgements one after the other, and one call of \<^verbatim>\<open>Terminate\<close>. A step is one critical section or one channel
  operation with the code around it. The parameter of the step relation tells whether the timer of \<^verbatim>\<open>Terminate\<close>
  may fire; it never does when the grace period is negative.

  The C library acknowledges a message at most once, and only a message it has accepted. Message numbers come from an
  atomic 64-bit counter; a step that takes a new one assumes that the counter has not wrapped around. Every publish gives
  its message its own context, and a blocking context has a channel of its own.
\<close>

section \<open>The system\<close>

datatype send_pc =
    SendAdd
  | SendLoop
  | SendPop "ErrorInfo option"
  | SendDelete bool go_error
  | SendResolve bool go_error
  | SendDone

datatype ack_pc =
    AckIdle
  | AckResolve u64 bool "go_error option" correlationContext
  | AckDelete u64
  | AckPanicked

datatype term_pc =
    TermIdle
  | TermBuffer
  | TermRequest
  | TermWait nat
  | TermRemove
  | TermClose
  | TermQueue nat
  | TermTable nat
  | TermFinish nat nat
  | TermDone nat nat

text \<open>
  \<open>entered\<close> are the unbuffered publishes that have passed the check of the state, \<open>sending\<close> those that have added
  their context. \<open>accepted_tasks\<close> are the messages whose publish was successful, \<open>sent_ids\<close> the numbers of those the C
  library has accepted and \<open>acked_ids\<close> of those it has acknowledged.
\<close>

record ps_sys =
  ps :: persistent_publisher
  send_pc :: send_pc
  ack_pc :: ack_pc
  term_pc :: term_pc
  entered :: "persistentTask list"
  sending :: "persistentTask list"
  accepted_tasks :: "persistentTask list"
  sent_ids :: "u64 set"
  acked_ids :: "u64 set"

definition ps_init :: "backpressureConfiguration \<Rightarrow> nat \<Rightarrow> bool \<Rightarrow> bool \<Rightarrow> ps_sys" where
  "ps_init cfg bufferSize receipts readiness =
     \<lparr>ps = (persistent_construct cfg bufferSize)\<lparr>pp_lifecycle := started None lifecycle_construct,
             publishReceiptListener := receipts, pp_readinessListener := readiness\<rparr>,
      send_pc = SendAdd, ack_pc = AckIdle, term_pc = TermIdle, entered = [], sending = [], accepted_tasks = [],
      sent_ids = {}, acked_ids = {}\<rparr>"

fun handler_registered :: "term_pc \<Rightarrow> bool" where
  "handler_registered TermIdle = True"
| "handler_registered TermBuffer = True"
| "handler_registered TermRequest = True"
| "handler_registered (TermWait n) = True"
| "handler_registered TermRemove = True"
| "handler_registered _ = False"

definition task_context :: "persistentTask \<Rightarrow> correlationContext" where
  "task_context t = the (task_ctx t)"

definition all_tasks :: "ps_sys \<Rightarrow> persistentTask list" where
  "all_tasks s = accepted_tasks s @ entered s @ sending s"

definition fresh :: "persistentTask \<Rightarrow> ps_sys \<Rightarrow> bool" where
  "fresh t s \<longleftrightarrow> task_ctx t \<noteq> None \<and> task_messageID t \<notin> task_messageID ` set (all_tasks s) \<and>
     task_messageID t \<notin> sent_ids s \<and>
     task_context t \<notin> task_context ` set (all_tasks s) \<and>
     set (ctx_blockers (task_context t)) \<inter> \<Union> ((\<lambda>u. set (ctx_blockers (task_context u))) ` set (all_tasks s)) = {}"

definition terminated_err :: "go_error option" where
  "terminated_err = Some (NewError IncompleteMessageDeliveryError UnableToPublishAlreadyTerminated [] None)"

abbreviation send_err :: "ErrorInfo \<Rightarrow> go_error" where
  "send_err info \<equiv> ToNativeError info ''encountered error while publishing message: ''"

abbreviation upd_tasks :: "persistentTask buf_sys \<Rightarrow> ps_sys \<Rightarrow> ps_sys" where
  "upd_tasks b s \<equiv> s\<lparr>ps := (ps s)\<lparr>pp_tasks := b\<rparr>\<rparr>"

definition ready_after :: "bool \<Rightarrow> persistent_publisher \<Rightarrow> persistent_publisher" where
  "ready_after isFull p = (if isFull \<and> pp_config p = backpressureConfigurationReject then pp_notifyReady p else p)"

abbreviation buffer_full :: "ps_sys \<Rightarrow> bool" where
  "buffer_full s \<equiv> chan_len (pp_buffer (ps s)) = chan_cap (pp_buffer (ps s))"

inductive ps_step :: "bool \<Rightarrow> ps_sys \<Rightarrow> ps_sys \<Rightarrow> bool" for timed where
  buffered_publish: "pp_config (ps s) \<noteq> backpressureConfigurationDirect \<Longrightarrow> fresh t s \<Longrightarrow>
     (None, p) \<in> set (pp_publish_buffered t (ps s)) \<Longrightarrow>
     ps_step timed s (s\<lparr>ps := p, accepted_tasks := accepted_tasks s @ [t]\<rparr>)"
| buffer_run: "pp_config (ps s) \<noteq> backpressureConfigurationDirect \<Longrightarrow>
     run_step (pp_tasks (ps s)) b \<Longrightarrow> (\<forall>t. buf_pc (pp_tasks (ps s)) \<noteq> BufRunning t) \<Longrightarrow>
     ps_step timed s (upd_tasks b s)"
| send_add: "buf_pc (pp_tasks (ps s)) = BufRunning t \<Longrightarrow> send_pc s = SendAdd \<Longrightarrow>
     addCorrelationContext (task_messageID t) (task_ctx t) (ps s) = (a, p) \<Longrightarrow>
     ps_step timed s (s\<lparr>ps := p, send_pc := SendLoop\<rparr>)"
| send_sent: "buf_pc (pp_tasks (ps s)) = BufRunning t \<Longrightarrow> send_pc s = SendLoop \<Longrightarrow>
     ps_step timed s (s\<lparr>send_pc := SendPop None, sent_ids := insert (task_messageID t) (sent_ids s)\<rparr>)"
| send_failed: "send_pc s = SendLoop \<Longrightarrow> ReturnCode info \<noteq> SolClientReturnCodeWouldBlock \<Longrightarrow>
     ps_step timed s (s\<lparr>send_pc := SendPop (Some info)\<rparr>)"
| send_interrupted: "buf_pc (pp_tasks (ps s)) = BufRunning t \<Longrightarrow> send_pc s = SendLoop \<Longrightarrow>
     terminateTask (buf (pp_tasks (ps s))) \<Longrightarrow>
     ps_step timed s (s\<lparr>ps := removeCorrelationContext (task_messageID t) (ps s), send_pc := SendDone\<rparr>)"
| send_popped: "send_pc s = SendPop None \<Longrightarrow> chan_recv (pp_buffer (ps s)) = Return (Some pub, c) \<Longrightarrow>
     ps_step timed s (s\<lparr>ps := ready_after (buffer_full s) ((ps s)\<lparr>pp_buffer := c\<rparr>), send_pc := SendDone\<rparr>)"
| send_popped_failed: "send_pc s = SendPop (Some info) \<Longrightarrow> chan_recv (pp_buffer (ps s)) = Return (Some pub, c) \<Longrightarrow>
     ps_step timed s (s\<lparr>ps := (ps s)\<lparr>pp_buffer := c\<rparr>, send_pc := SendDelete (buffer_full s) (send_err info)\<rparr>)"
| send_no_message: "send_pc s = SendPop e \<Longrightarrow> \<nexists>pub c. chan_recv (pp_buffer (ps s)) = Return (Some pub, c) \<Longrightarrow>
     ps_step timed s (s\<lparr>send_pc := SendDone\<rparr>)"
| send_delete: "buf_pc (pp_tasks (ps s)) = BufRunning t \<Longrightarrow> send_pc s = SendDelete isFull err \<Longrightarrow>
     ps_step timed s (s\<lparr>ps := removeCorrelationContext (task_messageID t) (ps s), send_pc := SendResolve isFull err\<rparr>)"
| send_resolve: "buf_pc (pp_tasks (ps s)) = BufRunning t \<Longrightarrow> send_pc s = SendResolve isFull err \<Longrightarrow>
     resolve False (Some err) (task_context t) (ps s) = Return p \<Longrightarrow>
     ps_step timed s (s\<lparr>ps := ready_after isFull p, send_pc := SendDone\<rparr>)"
| send_end: "send_pc s = SendDone \<Longrightarrow> run_step (pp_tasks (ps s)) b \<Longrightarrow>
     ps_step timed s ((upd_tasks b s)\<lparr>send_pc := SendAdd\<rparr>)"
| direct_check: "pp_config (ps s) = backpressureConfigurationDirect \<Longrightarrow> fresh t s \<Longrightarrow>
     checkStartedStateForPublish (pp_lifecycle (ps s)) = None \<Longrightarrow>
     ps_step timed s (s\<lparr>entered := entered s @ [t]\<rparr>)"
| direct_add: "t \<in> set (entered s) \<Longrightarrow>
     addCorrelationContext (task_messageID t) (task_ctx t) (ps s) = (a, p) \<Longrightarrow>
     ps_step timed s (s\<lparr>ps := p, entered := remove1 t (entered s), sending := sending s @ [t]\<rparr>)"
| direct_sent: "t \<in> set (sending s) \<Longrightarrow>
     ps_step timed s (s\<lparr>sending := remove1 t (sending s), accepted_tasks := accepted_tasks s @ [t],
       sent_ids := insert (task_messageID t) (sent_ids s)\<rparr>)"
| direct_failed: "t \<in> set (sending s) \<Longrightarrow>
     ps_step timed s (s\<lparr>ps := removeCorrelationContext (task_messageID t) (ps s), sending := remove1 t (sending s)\<rparr>)"
| ack_start: "ack_pc s = AckIdle \<Longrightarrow> handler_registered (term_pc s) \<Longrightarrow> mid \<in> sent_ids s - acked_ids s \<Longrightarrow>
     ps_step timed s (s\<lparr>acked_ids := insert mid (acked_ids s),
       ack_pc := (case map_of (correlationMap (ps s)) mid of Some ctx \<Rightarrow> AckResolve mid persisted err ctx | None \<Rightarrow> AckIdle)\<rparr>)"
| ack_resolve: "ack_pc s = AckResolve mid persisted err ctx \<Longrightarrow> resolve persisted err ctx (ps s) = Return p \<Longrightarrow>
     ps_step timed s (s\<lparr>ps := p, ack_pc := AckDelete mid\<rparr>)"
| ack_delete: "ack_pc s = AckDelete mid \<Longrightarrow> ack_finish mid (ps s) = Return p \<Longrightarrow>
     ps_step timed s (s\<lparr>ps := p, ack_pc := AckIdle\<rparr>)"
| ack_panic: "ack_pc s = AckDelete mid \<Longrightarrow> ack_finish mid (ps s) = Panics e \<Longrightarrow>
     ps_step timed s (s\<lparr>ack_pc := AckPanicked\<rparr>)"
| term_begin: "term_pc s = TermIdle \<Longrightarrow> persistent_Terminate_begin ev (ps s) = Return (Proceed, ev', p) \<Longrightarrow>
     ps_step timed s (s\<lparr>ps := p, term_pc :=
       (if pp_config p = backpressureConfigurationDirect then TermRequest else TermBuffer)\<rparr>)"
| term_timeout: "timed \<Longrightarrow> term_pc s = TermBuffer \<Longrightarrow> owner_step (pp_tasks (ps s)) b \<Longrightarrow>
     submitted b = submitted (pp_tasks (ps s)) \<Longrightarrow> ps_step timed s (upd_tasks b s)"
| term_buffer: "term_pc s = TermBuffer \<Longrightarrow>
     Terminate_result (terminateTask (buf (pp_tasks (ps s)))) (buf (pp_tasks (ps s))) = Return graceful \<Longrightarrow>
     ps_step timed s (s\<lparr>term_pc := (if graceful then TermRequest else TermRemove)\<rparr>)"
| term_request: "term_pc s = TermRequest \<Longrightarrow> request_correlate_complete (ps s) = Return (n, p) \<Longrightarrow>
     ps_step timed s (s\<lparr>ps := p, term_pc := TermWait n\<rparr>)"
| term_wait: "term_pc s = TermWait n \<Longrightarrow> graceful \<in> set (await_correlate_complete timed n (ps s)) \<Longrightarrow>
     ps_step timed s (s\<lparr>term_pc := TermRemove\<rparr>)"
| term_remove: "term_pc s = TermRemove \<Longrightarrow>
     ps_step timed s (s\<lparr>term_pc := (if pp_config (ps s) = backpressureConfigurationDirect then TermTable 0 else TermClose)\<rparr>)"
| term_close: "term_pc s = TermClose \<Longrightarrow> chan_close (pp_buffer (ps s)) = Return c \<Longrightarrow>
     ps_step timed s (s\<lparr>ps := (ps s)\<lparr>pp_buffer := c\<rparr>, term_pc := TermQueue 0\<rparr>)"
| term_drain: "term_pc s = TermQueue n \<Longrightarrow> chan_recv (pp_buffer (ps s)) = Return (Some pub, c) \<Longrightarrow>
     corr pub = Some ctx \<Longrightarrow> resolve False terminated_err ctx ((ps s)\<lparr>pp_buffer := c\<rparr>) = Return p \<Longrightarrow>
     ps_step timed s (s\<lparr>ps := p, term_pc := TermQueue (Suc n)\<rparr>)"
| term_drained: "term_pc s = TermQueue n \<Longrightarrow> chan_recv (pp_buffer (ps s)) = Return (None, c) \<Longrightarrow>
     ps_step timed s (s\<lparr>term_pc := TermTable n\<rparr>)"
| term_table: "term_pc s = TermTable n \<Longrightarrow> drainAckTable terminated_err (ps s) = Return (m, p) \<Longrightarrow>
     ps_step timed s (s\<lparr>ps := p, term_pc := TermFinish n m\<rparr>)"
| term_finish: "term_pc s = TermFinish n m \<Longrightarrow> pp_undelivered_error n m (ps s) = (err, p) \<Longrightarrow>
     pp_finish err p = Return p' \<Longrightarrow> ps_step timed s (s\<lparr>ps := p', term_pc := TermDone n m\<rparr>)"

section \<open>What the operations change\<close>

lemma pp_notifyReady_eqs [simp]:
  "correlationMap (pp_notifyReady p) = correlationMap p" "pp_buffer (pp_notifyReady p) = pp_buffer p"
  "pp_tasks (pp_notifyReady p) = pp_tasks p" "pp_lifecycle (pp_notifyReady p) = pp_lifecycle p"
  "pp_config (pp_notifyReady p) = pp_config p" "correlationComplete (pp_notifyReady p) = correlationComplete p"
  "requestCorrelateComplete (pp_notifyReady p) = requestCorrelateComplete p" "blockers (pp_notifyReady p) = blockers p"
  "resolutions (pp_notifyReady p) = resolutions p"
  by (auto simp: pp_notifyReady_def split: outcome.splits)

lemma ready_after_eqs [simp]:
  "correlationMap (ready_after f p) = correlationMap p" "pp_buffer (ready_after f p) = pp_buffer p"
  "pp_tasks (ready_after f p) = pp_tasks p" "pp_lifecycle (ready_after f p) = pp_lifecycle p"
  "pp_config (ready_after f p) = pp_config p" "correlationComplete (ready_after f p) = correlationComplete p"
  "requestCorrelateComplete (ready_after f p) = requestCorrelateComplete p" "blockers (ready_after f p) = blockers p"
  "resolutions (ready_after f p) = resolutions p"
  by (simp_all add: ready_after_def)

lemma ready_after_open: "executor_open (pp_executor p) \<Longrightarrow> executor_open (pp_executor (ready_after f p))"
  using Submit_open [of "pp_executor p" PersistentReadinessCall] by (auto simp: ready_after_def pp_notifyReady_def)

lemma resolve_Return:
  assumes "resolve persisted err ctx p = Return p'"
  shows "resolve_frame p p'" "resolutions p' = resolutions p @ [(ctx, persisted, err)]"
    "\<forall>b. b \<notin> set (ctx_blockers ctx) \<longrightarrow> blockers p' b = blockers p b"
    "executor_open (pp_executor p) \<Longrightarrow> executor_open (pp_executor p')"
proof -
  have "resolve_frame p p' \<and> resolutions p' = resolutions p @ [(ctx, persisted, err)] \<and>
    (\<forall>b. b \<notin> set (ctx_blockers ctx) \<longrightarrow> blockers p' b = blockers p b)"
    using assms by (cases ctx) (auto simp: resolve_def resolve_frame_def outcome_bind_Return split: if_splits)
  then show "resolve_frame p p'" "resolutions p' = resolutions p @ [(ctx, persisted, err)]"
    "\<forall>b. b \<notin> set (ctx_blockers ctx) \<longrightarrow> blockers p' b = blockers p b" by simp_all
  assume o: "executor_open (pp_executor p)"
  show "executor_open (pp_executor p')"
  proof (cases ctx)
    case (callbackCorrelationContext m u)
    with assms o Submit_open [OF o, of "ReceiptCall (createReceipt persisted err m u)"] show ?thesis
      by (auto simp: resolve_def split: if_splits)
  next
    case (blockingCorrelationContext m b)
    with assms o show ?thesis by (auto simp: resolve_def outcome_bind_Return)
  qed
qed

lemmas resolve_eqs = resolve_frame_eqs [OF resolve_Return(1)]

lemma Terminate_begin_eq:
  assumes "persistent_Terminate_begin ev p = Return (Proceed, ev', p')" and "pp_config p \<noteq> backpressureConfigurationDirect"
  obtains l c where "lc_state l = Terminating"
    "p' = p\<lparr>pp_lifecycle := l, pp_interrupt := c,
            pp_tasks := (pp_tasks p)\<lparr>buf := (buf (pp_tasks p))\<lparr>terminateGraceful := True\<rparr>\<rparr>\<rparr>"
    "\<not> terminateGraceful (buf (pp_tasks p))"
proof -
  obtain l where l: "publisher_terminate (pp_lifecycle p) = (Proceed, l)"
    using assms by (auto simp: persistent_Terminate_begin_def split: prod.splits proceed.splits)
  have "lc_state l = Terminating"
    using publife.terminate_proceeds [of "pp_lifecycle p"] publife.terminate_state [of "pp_lifecycle p"] l by simp
  with assms l that show ?thesis
    by (auto simp: persistent_Terminate_begin_def Let_def outcome_bind_Return Terminate_begin_def signal_close_def
        split: if_splits)
qed

lemma ack_finish_eq:
  assumes "ack_finish mid p = Return p'"
  shows "p' = p\<lparr>correlationMap := AList.delete mid (correlationMap p),
      correlationComplete := correlationComplete p \<or> lc_state (pp_lifecycle p) = Terminating \<and>
        requestCorrelateComplete p \<and> AList.delete mid (correlationMap p) = []\<rparr>"
  using assms by (auto simp: ack_finish_def Let_def outcome_bind_Return signal_close_def split: if_splits)

lemma request_eq:
  "request_correlate_complete p = Return (n, p') \<Longrightarrow>
     n = length (correlationMap p) \<and> p' = p\<lparr>requestCorrelateComplete := True\<rparr> \<and> \<not> requestCorrelateComplete p"
  by (auto simp: request_correlate_complete_def outcome_bind_Return signal_close_def split: if_splits)

lemma add_context_eq:
  "addCorrelationContext mid (task_ctx t) p = (a, p') \<Longrightarrow> task_ctx t \<noteq> None \<Longrightarrow>
     p' = p\<lparr>correlationMap := AList.update mid (task_context t) (correlationMap p)\<rparr>"
  by (auto simp: addCorrelationContext_def task_context_def)

lemma finish_eqs:
  assumes "pp_undelivered_error n m p = (err, q)" and "pp_finish err q = Return p'"
  shows "correlationMap p' = correlationMap p" "pp_buffer p' = pp_buffer p" "pp_tasks p' = pp_tasks p"
    "pp_config p' = pp_config p" "correlationComplete p' = correlationComplete p"
    "requestCorrelateComplete p' = requestCorrelateComplete p" "blockers p' = blockers p" "resolutions p' = resolutions p"
  using assms by (auto simp: pp_undelivered_error_def pp_finish_def outcome_bind_Return split: if_splits)

lemma drain_entries_frame:
  "drain_entries err es p = Return p' \<Longrightarrow> resolve_frame (p\<lparr>correlationMap := correlationMap p'\<rparr>) p'"
proof (induction es arbitrary: p)
  case Nil
  then show ?case by (simp add: resolve_frame_def)
next
  case (Cons e es)
  then obtain q where q: "resolve False err (snd e) p = Return q"
    and es: "drain_entries err es (q\<lparr>correlationMap := AList.delete (fst e) (correlationMap q)\<rparr>) = Return p'"
    by (auto simp: outcome_bind_Return)
  from Cons.IH [OF es] have "resolve_frame (q\<lparr>correlationMap := correlationMap p'\<rparr>) p'" by simp
  moreover have "resolve_frame (p\<lparr>correlationMap := correlationMap p'\<rparr>) (q\<lparr>correlationMap := correlationMap p'\<rparr>)"
    using resolve_Return(1) [OF q] unfolding resolve_frame_def by (cases p; cases q; simp)
  ultimately show ?case by (rule resolve_frame_trans [rotated])
qed

lemma drainAckTable_eqs:
  assumes "drainAckTable err p = Return (m, p')"
  shows "pp_buffer p' = pp_buffer p" "pp_tasks p' = pp_tasks p" "pp_lifecycle p' = pp_lifecycle p"
    "pp_config p' = pp_config p" "correlationComplete p' = correlationComplete p"
    "requestCorrelateComplete p' = requestCorrelateComplete p"
    "correlationMap p = [] \<Longrightarrow> m = 0 \<and> p' = p"
proof -
  have d: "drain_entries err (correlationMap p) p = Return p'" and m: "m = length (correlationMap p)"
    using assms by (auto simp: drainAckTable_def outcome_bind_Return)
  note f = resolve_frame_eqs [OF drain_entries_frame [OF d]]
  show "pp_buffer p' = pp_buffer p" "pp_tasks p' = pp_tasks p" "pp_lifecycle p' = pp_lifecycle p"
    "pp_config p' = pp_config p" "correlationComplete p' = correlationComplete p"
    "requestCorrelateComplete p' = requestCorrelateComplete p" using f by simp_all
  show "correlationMap p = [] \<Longrightarrow> m = 0 \<and> p' = p" using d m by simp
qed

section \<open>The buffer and its tasks\<close>

definition task_publishable :: "persistentTask \<Rightarrow> persistentPublishable" where
  "task_publishable t = \<lparr>ppub_message = task_message t, ppub_destination = task_destination t, corr = task_ctx t\<rparr>"

fun message_popped :: "send_pc \<Rightarrow> bool" where
  "message_popped (SendDelete f e) = True"
| "message_popped (SendResolve f e) = True"
| "message_popped SendDone = True"
| "message_popped _ = False"

fun before_close :: "term_pc \<Rightarrow> bool" where
  "before_close TermClose = True"
| "before_close pc = handler_registered pc"

fun buffer_done :: "term_pc \<Rightarrow> bool" where
  "buffer_done TermIdle = False"
| "buffer_done TermBuffer = False"
| "buffer_done pc = True"

definition live_tasks :: "ps_sys \<Rightarrow> persistentTask list" where
  "live_tasks s = (if message_popped (send_pc s) then [] else held (buf_pc (pp_tasks (ps s)))) @
     chan_items (tb_channel (buf (pp_tasks (ps s))))"

definition ps_buf :: "nat \<Rightarrow> ps_sys \<Rightarrow> bool" where
  "ps_buf cap s \<longleftrightarrow>
     pp_config (ps s) \<noteq> backpressureConfigurationDirect \<and> entered s = [] \<and> sending s = [] \<and>
     buf_inv (pp_tasks (ps s)) \<and> \<not> terminateTask (buf (pp_tasks (ps s))) \<and>
     chan_cap (pp_buffer (ps s)) = cap \<and> chan_cap (tb_channel (buf (pp_tasks (ps s)))) = cap \<and>
     (before_close (term_pc s) \<longleftrightarrow> \<not> chan_closed (pp_buffer (ps s))) \<and>
     chan_wf (pp_buffer (ps s)) \<and>
     (send_pc s \<noteq> SendAdd \<longrightarrow> (\<exists>t. buf_pc (pp_tasks (ps s)) = BufRunning t)) \<and>
     (buffer_done (term_pc s) \<longrightarrow> terminateComplete (buf (pp_tasks (ps s))))"

definition ps_agree :: "ps_sys \<Rightarrow> bool" where
  "ps_agree s \<longleftrightarrow> before_close (term_pc s) \<longrightarrow>
     (\<exists>late. chan_items (pp_buffer (ps s)) = map task_publishable (live_tasks s) @ late \<and>
        (late \<noteq> [] \<longrightarrow> terminateComplete (buf (pp_tasks (ps s)))))"

definition ps_tasks :: "ps_sys \<Rightarrow> bool" where
  "ps_tasks s \<longleftrightarrow> distinct (map task_messageID (accepted_tasks s)) \<and> distinct (map task_context (accepted_tasks s)) \<and>
     (\<forall>t \<in> set (accepted_tasks s). task_ctx t \<noteq> None) \<and>
     set (submitted (pp_tasks (ps s))) \<subseteq> set (accepted_tasks s) \<and>
     distinct (map task_messageID (submitted (pp_tasks (ps s))))"

lemma not_running_exit: "buf_inv b \<Longrightarrow> terminateComplete (buf b) \<Longrightarrow> buf_pc b = BufExit"
  by (simp add: buf_inv_def)

lemma ps_buf_running: "ps_buf cap s \<Longrightarrow> send_pc s \<noteq> SendAdd \<Longrightarrow> \<exists>t. buf_pc (pp_tasks (ps s)) = BufRunning t \<and>
    \<not> buffer_done (term_pc s) \<and> before_close (term_pc s) \<and> \<not> terminateComplete (buf (pp_tasks (ps s)))"
  by (cases "term_pc s") (auto simp: ps_buf_def dest: not_running_exit)

lemma buffered_publish_cases:
  assumes "ps_buf cap s" and "ps_agree s" and "(None, p) \<in> set (pp_publish_buffered t (ps s))"
  obtains c where "chan_send (task_publishable t) (pp_buffer (ps s)) = Return c"
    and "terminateComplete (buf (pp_tasks (ps s)))" and "p = (ps s)\<lparr>pp_buffer := c\<rparr>"
  | c d where "chan_send (task_publishable t) (pp_buffer (ps s)) = Return c"
    and "\<not> terminateComplete (buf (pp_tasks (ps s)))"
    and "chan_send t (tb_channel (buf (pp_tasks (ps s)))) = Return d"
    and "owner_step (pp_tasks (ps s)) (pp_tasks p)"
    and "p = (ps s)\<lparr>pp_buffer := c, pp_tasks := (pp_tasks (ps s))
        \<lparr>buf := (buf (pp_tasks (ps s)))\<lparr>tb_channel := d\<rparr>, submitted := submitted (pp_tasks (ps s)) @ [t]\<rparr>\<rparr>"
proof -
  obtain c where c: "Inr c \<in> set (pp_buffer_write (task_publishable t) (ps s))"
    and p: "p = (let p = (ps s)\<lparr>pp_buffer := c\<rparr>
               in case buffer_Submit t (buf (pp_tasks p)) of
                    (True, b) \<Rightarrow> p\<lparr>pp_tasks := (pp_tasks p)\<lparr>buf := b, submitted := submitted (pp_tasks p) @ [t]\<rparr>\<rparr>
                  | (False, b) \<Rightarrow> p)"
    using assms(3) by (auto simp: pp_publish_buffered_def task_publishable_def split: sum.splits)
  have send: "chan_send (task_publishable t) (pp_buffer (ps s)) = Return c"
    using c by (auto simp: pp_buffer_write_def split: outcome.splits if_splits)
  show ?thesis
  proof (cases "terminateComplete (buf (pp_tasks (ps s)))")
    case True
    with p send that(1) [of c] show ?thesis by (simp add: buffer_Submit_def)
  next
    case False
    have "before_close (term_pc s)" using False assms(1) by (cases "term_pc s") (auto simp: ps_buf_def)
    then have "length (live_tasks s) \<le> length (chan_items (pp_buffer (ps s)))" using assms(2) by (auto simp: ps_agree_def)
    moreover have "length (chan_items (pp_buffer (ps s))) < cap"
      using send assms(1) by (auto simp: chan_send_def ps_buf_def split: if_splits)
    ultimately have "length (chan_items (tb_channel (buf (pp_tasks (ps s))))) < cap" by (simp add: live_tasks_def)
    then obtain d where d: "chan_send t (tb_channel (buf (pp_tasks (ps s)))) = Return d"
      using assms(1) by (auto simp: chan_send_def ps_buf_def buf_inv_def chan_open_def)
    then have "owner_step (pp_tasks (ps s)) ((pp_tasks (ps s))
        \<lparr>buf := (buf (pp_tasks (ps s)))\<lparr>tb_channel := d\<rparr>, submitted := submitted (pp_tasks (ps s)) @ [t]\<rparr>)"
      using False by (intro owner_submit) (simp add: buffer_Submit_def)
    with False p send d that(2) [of c d] show ?thesis by (simp add: buffer_Submit_def)
  qed
qed

lemma pp_send_items:
  "chan_send x c = Return c' \<Longrightarrow> chan_wf c \<Longrightarrow>
     chan_wf c' \<and> chan_items c' = chan_items c @ [x] \<and> chan_cap c' = chan_cap c \<and> chan_closed c' = chan_closed c"
  by (auto simp: chan_send_def chan_wf_def split: if_splits)

lemma pp_recv_items:
  "chan_recv c = Return (Some x, c') \<Longrightarrow> chan_wf c \<Longrightarrow>
     chan_wf c' \<and> chan_items c = x # chan_items c' \<and> chan_cap c' = chan_cap c \<and> chan_closed c' = chan_closed c"
  using chan_recv_Some [of c x c'] by (auto simp: chan_wf_def)

lemma ps_buf_tasks:
  assumes "ps_buf cap s" and "buf_inv b" and "chan_cap (tb_channel (buf b)) = cap" and "\<not> terminateTask (buf b)"
    and "terminateComplete (buf (pp_tasks (ps s))) \<longrightarrow> terminateComplete (buf b)"
    and "pc \<noteq> SendAdd \<longrightarrow> (\<exists>t. buf_pc b = BufRunning t)"
  shows "ps_buf cap ((upd_tasks b s)\<lparr>send_pc := pc\<rparr>)"
  using assms by (auto simp: ps_buf_def)

text \<open>Steps that leave the buffer, the tasks and the configuration alone.\<close>

lemma ps_buf_frame:
  assumes "ps_buf cap s" and "pp_tasks (ps s') = pp_tasks (ps s)" and "pp_buffer (ps s') = pp_buffer (ps s)"
    and "pp_config (ps s') = pp_config (ps s)" and "entered s' = entered s" and "sending s' = sending s"
    and "before_close (term_pc s') = before_close (term_pc s)"
    and "buffer_done (term_pc s') \<longrightarrow> buffer_done (term_pc s) \<or> terminateComplete (buf (pp_tasks (ps s)))"
    and "send_pc s' \<noteq> SendAdd \<longrightarrow> send_pc s \<noteq> SendAdd \<or> (\<exists>t. buf_pc (pp_tasks (ps s)) = BufRunning t)"
  shows "ps_buf cap s'"
  using assms by (auto simp: ps_buf_def)

lemma ps_buf_pop:
  assumes "ps_buf cap s" and "chan_recv (pp_buffer (ps s)) = Return (Some pub, c)"
    and "pp_tasks (ps s') = pp_tasks (ps s)" and "pp_buffer (ps s') = c"
    and "pp_config (ps s') = pp_config (ps s)" and "entered s' = entered s" and "sending s' = sending s"
    and "before_close (term_pc s') = before_close (term_pc s)" and "buffer_done (term_pc s') = buffer_done (term_pc s)"
    and "send_pc s' \<noteq> SendAdd \<longrightarrow> send_pc s \<noteq> SendAdd"
  shows "ps_buf cap s'"
  using assms pp_recv_items [OF assms(2)] by (auto simp: ps_buf_def)

lemma Terminate_result_complete: "Terminate_result t b = Return g \<Longrightarrow> terminateComplete b"
  by (simp add: Terminate_result_def split: if_splits)

lemma ps_buf_step:
  assumes "ps_step False s s'" and "ps_buf cap s" and "ps_agree s"
  shows "ps_buf cap s'"
  using assms
proof (induction rule: ps_step.induct)
  case (buffered_publish s t p)
  from buffered_publish.prems buffered_publish.hyps(3) show ?case
  proof (cases rule: buffered_publish_cases)
    case (1 c)
    with buffered_publish.prems(1) show ?thesis by (auto simp: ps_buf_def dest!: pp_send_items)
  next
    case (2 c d)
    have inv: "buf_inv (pp_tasks (ps s))" "chan_wf (pp_buffer (ps s))"
      "chan_wf (tb_channel (buf (pp_tasks (ps s))))"
      using buffered_publish.prems(1) by (auto simp: ps_buf_def buf_inv_def chan_open_def)
    have "buf_inv (pp_tasks p)" using owner_step_inv [OF 2(4) inv(1)] .
    with 2(5) buffered_publish.prems(1) pp_send_items [OF 2(1) inv(2)] pp_send_items [OF 2(3) inv(3)]
    show ?thesis by (simp add: ps_buf_def)
  qed
next
  case (buffer_run s b)
  then have "ps_buf cap ((upd_tasks b s)\<lparr>send_pc := send_pc s\<rparr>)"
    using run_step_keeps [OF buffer_run.hyps(2)] by (intro ps_buf_tasks) (auto simp: ps_buf_def intro: run_step_inv)
  then show ?case by simp
next
  case (send_end s b)
  then show ?case
    using run_step_keeps [OF send_end.hyps(2)] by (intro ps_buf_tasks) (auto simp: ps_buf_def intro: run_step_inv)
next
  case (term_begin s ev ev' p)
  then have "pp_config (ps s) \<noteq> backpressureConfigurationDirect" by (simp add: ps_buf_def)
  from Terminate_begin_eq [OF term_begin.hyps(2) this] obtain l c where
    p: "p = (ps s)\<lparr>pp_lifecycle := l, pp_interrupt := c,
            pp_tasks := (pp_tasks (ps s))\<lparr>buf := (buf (pp_tasks (ps s)))\<lparr>terminateGraceful := True\<rparr>\<rparr>\<rparr>" by metis
  with term_begin show ?case by (auto simp: ps_buf_def buf_inv_def)
next
  case (term_close s c)
  then show ?case by (auto simp: ps_buf_def chan_close_def chan_wf_def split: if_splits)
next
  case (term_table s n m p)
  then show ?case using drainAckTable_eqs [OF term_table.hyps(2)] by - (rule ps_buf_frame [of cap s]; auto)
next
  case (send_popped s pub c)
  then show ?case by - (rule ps_buf_pop [OF _ send_popped.hyps(2)]; auto)
next
  case (send_popped_failed s info pub c)
  then show ?case by - (rule ps_buf_pop [OF _ send_popped_failed.hyps(2)]; auto)
next
  case (term_drain s n pub c ctx p)
  then show ?case
    using resolve_eqs [OF term_drain.hyps(4)] by - (rule ps_buf_pop [OF _ term_drain.hyps(2)]; auto)
next
  case (term_finish s n m err p p')
  then show ?case using finish_eqs [OF term_finish.hyps(2,3)] by - (rule ps_buf_frame [of cap s]; auto)
next
  case (term_buffer s graceful)
  then show ?case using Terminate_result_complete by - (rule ps_buf_frame [of cap s]; auto)
next
  case (send_resolve s t isFull err p)
  then show ?case using resolve_eqs [OF send_resolve.hyps(3)] by - (rule ps_buf_frame [of cap s]; auto)
next
  case (ack_resolve s mid persisted err ctx p)
  then show ?case using resolve_eqs [OF ack_resolve.hyps(2)] by - (rule ps_buf_frame [of cap s]; auto)
next
  case (ack_delete s mid p)
  then show ?case using ack_finish_eq [OF ack_delete.hyps(2)] by - (rule ps_buf_frame [of cap s]; auto)
next
  case (term_request s n p)
  then show ?case using request_eq [OF term_request.hyps(2)] by - (rule ps_buf_frame [of cap s]; auto)
next
  case (send_add s t a p)
  then show ?case by - (rule ps_buf_frame [of cap s]; auto simp: addCorrelationContext_def split: option.splits)
next
  case (term_remove s)
  then show ?case by (auto simp: ps_buf_def)
qed (rule ps_buf_frame, assumption; auto simp: ps_buf_def removeCorrelationContext_def)+

text \<open>The messages in the buffer are those of the tasks that have not yet removed theirs, in order.\<close>

lemma ps_agree_frame:
  assumes "ps_agree s" and "before_close (term_pc s') \<longrightarrow> before_close (term_pc s)"
    and "chan_items (pp_buffer (ps s')) = chan_items (pp_buffer (ps s))" and "live_tasks s' = live_tasks s"
    and "terminateComplete (buf (pp_tasks (ps s))) \<longrightarrow> terminateComplete (buf (pp_tasks (ps s')))"
  shows "ps_agree s'"
  using assms by (auto simp: ps_agree_def)

lemma ps_agree_pop:
  assumes "ps_buf cap s" and "ps_agree s" and "send_pc s = SendPop e"
    and "chan_recv (pp_buffer (ps s)) = Return (Some pub, c)" and "message_popped pc"
    and "pp_buffer (ps s') = c" and "pp_tasks (ps s') = pp_tasks (ps s)" and "send_pc s' = pc" and "term_pc s' = term_pc s"
  shows "ps_agree s'"
proof -
  obtain t where t: "buf_pc (pp_tasks (ps s)) = BufRunning t" "before_close (term_pc s)"
    using ps_buf_running [OF assms(1)] assms(3) by auto
  have "chan_items (pp_buffer (ps s)) = pub # chan_items c"
    using pp_recv_items [OF assms(4)] assms(1) by (simp add: ps_buf_def)
  then show ?thesis using assms t by (auto simp: ps_agree_def live_tasks_def)
qed

lemma ps_agree_step:
  assumes "ps_step False s s'" and "ps_buf cap s" and "ps_agree s"
  shows "ps_agree s'"
  using assms
proof (induction rule: ps_step.induct)
  case (buffered_publish s t p)
  from buffered_publish.prems buffered_publish.hyps(3) show ?case
  proof (cases rule: buffered_publish_cases)
    case (1 c)
    have "chan_items c = chan_items (pp_buffer (ps s)) @ [task_publishable t]"
      using pp_send_items [OF 1(1)] buffered_publish.prems(1) by (simp add: ps_buf_def)
    with 1 buffered_publish.prems(2) show ?thesis by (auto simp: ps_agree_def live_tasks_def)
  next
    case (2 c d)
    have "chan_items c = chan_items (pp_buffer (ps s)) @ [task_publishable t]"
      "chan_items d = chan_items (tb_channel (buf (pp_tasks (ps s)))) @ [t]"
      using pp_send_items [OF 2(1)] pp_send_items [OF 2(3)] buffered_publish.prems(1)
      by (simp_all add: ps_buf_def buf_inv_def chan_open_def)
    with 2(2,5) buffered_publish.prems(2) show ?thesis by (auto simp: ps_agree_def live_tasks_def)
  qed
next
  case (buffer_run s b)
  have add: "send_pc s = SendAdd" using buffer_run ps_buf_running [of cap s] by blast
  have "\<not> terminateUngraceful (buf (pp_tasks (ps s)))" using buffer_run.prems(1) by (auto simp: ps_buf_def buf_inv_def)
  from run_step_pending [OF buffer_run.hyps(2,3) this] run_step_keeps [OF buffer_run.hyps(2)]
  show ?case by - (rule ps_agree_frame [OF buffer_run.prems(2)]; simp add: live_tasks_def add)
next
  case (send_end s b)
  then obtain t where t: "buf_pc (pp_tasks (ps s)) = BufRunning t" using ps_buf_running [of cap s] by auto
  from run_step_running [OF send_end.hyps(2) t] send_end show ?case
    by - (rule ps_agree_frame [OF send_end.prems(2)]; simp add: live_tasks_def)
next
  case (send_popped s pub c)
  from send_popped.prems send_popped.hyps show ?case by (rule ps_agree_pop) simp_all
next
  case (send_popped_failed s info pub c)
  from send_popped_failed.prems send_popped_failed.hyps show ?case
    by (rule ps_agree_pop [where pc = "SendDelete (buffer_full s) (send_err info)"]) simp_all
next
  case (send_no_message s e)
  then obtain t where t: "buf_pc (pp_tasks (ps s)) = BufRunning t" "before_close (term_pc s)"
    using ps_buf_running [of cap s] by auto
  then obtain pub pubs where "chan_items (pp_buffer (ps s)) = pub # pubs"
    using send_no_message.prems(2) send_no_message.hyps(1) by (auto simp: ps_agree_def live_tasks_def)
  then have False using send_no_message.hyps(2) by (simp add: chan_recv_def)
  then show ?case ..
next
  case (term_begin s ev ev' p)
  then have "pp_config (ps s) \<noteq> backpressureConfigurationDirect" by (simp add: ps_buf_def)
  from Terminate_begin_eq [OF term_begin.hyps(2) this] obtain l c where
    p: "p = (ps s)\<lparr>pp_lifecycle := l, pp_interrupt := c,
            pp_tasks := (pp_tasks (ps s))\<lparr>buf := (buf (pp_tasks (ps s)))\<lparr>terminateGraceful := True\<rparr>\<rparr>\<rparr>" by metis
  with term_begin show ?case by - (rule ps_agree_frame [OF term_begin.prems(2)]; auto simp: live_tasks_def)
next
  case (term_drain s n pub c ctx p)
  then show ?case by (simp add: ps_agree_def)
next
  case (term_finish s n m err p p')
  then show ?case by (simp add: ps_agree_def)
next
  case (term_table s n m p)
  then show ?case by (simp add: ps_agree_def)
next
  case (term_close s c)
  then show ?case by (simp add: ps_agree_def)
next
  case (term_remove s)
  then show ?case by (auto simp: ps_agree_def live_tasks_def)
next
  case (send_resolve s t isFull err p)
  then show ?case using resolve_eqs [OF send_resolve.hyps(3)]
    by - (rule ps_agree_frame [OF send_resolve.prems(2)]; auto simp: live_tasks_def)
next
  case (ack_resolve s mid persisted err ctx p)
  then show ?case using resolve_eqs [OF ack_resolve.hyps(2)]
    by - (rule ps_agree_frame [OF ack_resolve.prems(2)]; auto simp: live_tasks_def)
next
  case (ack_delete s mid p)
  then show ?case using ack_finish_eq [OF ack_delete.hyps(2)]
    by - (rule ps_agree_frame [OF ack_delete.prems(2)]; auto simp: live_tasks_def)
next
  case (term_request s n p)
  then show ?case using request_eq [OF term_request.hyps(2)]
    by - (rule ps_agree_frame [OF term_request.prems(2)]; auto simp: live_tasks_def)
next
  case (send_add s t a p)
  then show ?case
    by - (rule ps_agree_frame [OF send_add.prems(2)]; auto simp: live_tasks_def addCorrelationContext_def split: option.splits)
next
  case (direct_add t s a p)
  then show ?case by (simp add: ps_buf_def)
next
  case (send_interrupted s t)
  then show ?case by (simp add: ps_buf_def)
qed (rule ps_agree_frame, assumption; auto simp: ps_buf_def live_tasks_def removeCorrelationContext_def)+

section \<open>The correlation table\<close>

lemma run_step_submitted: "run_step b b' \<Longrightarrow> submitted b' = submitted b"
  by (induction rule: run_step.induct) simp_all

lemma ps_tasks_frame:
  assumes "ps_tasks s" and "accepted_tasks s' = accepted_tasks s"
    and "submitted (pp_tasks (ps s')) = submitted (pp_tasks (ps s))"
  shows "ps_tasks s'"
  using assms by (auto simp: ps_tasks_def)

lemma ps_tasks_step:
  assumes "ps_step False s s'" and "ps_buf cap s" and "ps_agree s" and "ps_tasks s"
  shows "ps_tasks s'"
  using assms
proof (induction rule: ps_step.induct)
  case (buffered_publish s t p)
  have new: "task_ctx t \<noteq> None" "task_messageID t \<notin> task_messageID ` set (accepted_tasks s)"
    "task_context t \<notin> task_context ` set (accepted_tasks s)"
    using buffered_publish.hyps(2) by (auto simp: fresh_def all_tasks_def)
  have "submitted (pp_tasks p) = submitted (pp_tasks (ps s)) \<or> submitted (pp_tasks p) = submitted (pp_tasks (ps s)) @ [t]"
    using buffered_publish.prems(1,2) buffered_publish.hyps(3) by (cases rule: buffered_publish_cases) auto
  with buffered_publish.prems(3) new show ?case by (auto simp: ps_tasks_def image_subset_iff) blast+
next
  case (term_begin s ev ev' p)
  then have "pp_config (ps s) \<noteq> backpressureConfigurationDirect" by (simp add: ps_buf_def)
  from Terminate_begin_eq [OF term_begin.hyps(2) this] obtain l c where
    p: "p = (ps s)\<lparr>pp_lifecycle := l, pp_interrupt := c,
            pp_tasks := (pp_tasks (ps s))\<lparr>buf := (buf (pp_tasks (ps s)))\<lparr>terminateGraceful := True\<rparr>\<rparr>\<rparr>" by metis
  then show ?case by - (rule ps_tasks_frame [OF term_begin.prems(3)]; simp)
next
  case (send_add s t a p)
  then show ?case
    by - (rule ps_tasks_frame [OF send_add.prems(3)]; auto simp: addCorrelationContext_def split: option.splits)
next
  case (direct_add t s a p)
  then show ?case by (simp add: ps_buf_def)
next
  case (direct_sent t s)
  then show ?case by (simp add: ps_buf_def)
qed (rule ps_tasks_frame, assumption;
    auto simp: removeCorrelationContext_def resolve_eqs run_step_submitted finish_eqs drainAckTable_eqs
      dest!: ack_finish_eq request_eq)+

text \<open>
  The table holds the contexts of the messages that the C library has accepted and that are not acknowledged
  yet, and the context of the message that is being sent.
\<close>

fun unsent :: "send_pc \<Rightarrow> bool" where
  "unsent SendLoop = True"
| "unsent (SendPop (Some info)) = True"
| "unsent (SendDelete isFull err) = True"
| "unsent _ = False"

definition queued_tasks :: "ps_sys \<Rightarrow> persistentTask list" where
  "queued_tasks s = (if send_pc s = SendAdd then held (buf_pc (pp_tasks (ps s))) else []) @
     chan_items (tb_channel (buf (pp_tasks (ps s))))"

definition ps_table :: "ps_sys \<Rightarrow> bool" where
  "ps_table s \<longleftrightarrow> distinct (map fst (correlationMap (ps s))) \<and>
     (\<forall>e \<in> set (correlationMap (ps s)). \<exists>t \<in> set (accepted_tasks s). e = (task_messageID t, task_context t)) \<and>
     (\<forall>e \<in> set (correlationMap (ps s)). fst e \<in> sent_ids s \<or>
        (\<exists>t. buf_pc (pp_tasks (ps s)) = BufRunning t \<and> unsent (send_pc s) \<and> fst e = task_messageID t))"

definition ps_unsent :: "ps_sys \<Rightarrow> bool" where
  "ps_unsent s \<longleftrightarrow>
     (\<forall>t. buf_pc (pp_tasks (ps s)) = BufRunning t \<longrightarrow> unsent (send_pc s) \<longrightarrow>
        (task_messageID t, task_context t) \<in> set (correlationMap (ps s)) \<and> task_messageID t \<notin> sent_ids s) \<and>
     (\<forall>t \<in> set (queued_tasks s). task_messageID t \<notin> sent_ids s)"

fun ack_valid :: "(u64 \<times> correlationContext) list \<Rightarrow> u64 set \<Rightarrow> ack_pc \<Rightarrow> bool" where
  "ack_valid tab sent AckIdle = True"
| "ack_valid tab sent (AckResolve mid persisted err ctx) \<longleftrightarrow> (mid, ctx) \<in> set tab \<and> mid \<in> sent"
| "ack_valid tab sent (AckDelete mid) \<longleftrightarrow> mid \<in> fst ` set tab \<and> mid \<in> sent"
| "ack_valid tab sent AckPanicked = False"

definition ps_ack :: "ps_sys \<Rightarrow> bool" where
  "ps_ack s \<longleftrightarrow> ack_valid (correlationMap (ps s)) (sent_ids s) (ack_pc s)"

fun requested :: "term_pc \<Rightarrow> bool" where
  "requested TermIdle = False"
| "requested TermBuffer = False"
| "requested TermRequest = False"
| "requested pc = True"

fun waited :: "term_pc \<Rightarrow> bool" where
  "waited (TermWait n) \<longleftrightarrow> n = 0"
| "waited pc = requested pc"

definition ps_drained :: "ps_sys \<Rightarrow> bool" where
  "ps_drained s \<longleftrightarrow> (requestCorrelateComplete (ps s) \<longleftrightarrow> requested (term_pc s)) \<and>
     (correlationComplete (ps s) \<longrightarrow> requested (term_pc s) \<and> correlationMap (ps s) = []) \<and>
     (waited (term_pc s) \<longrightarrow> correlationMap (ps s) = [])"

lemma ps_drained_frame:
  assumes "ps_drained s" and "requestCorrelateComplete (ps s') = requestCorrelateComplete (ps s)"
    and "correlationComplete (ps s') = correlationComplete (ps s)"
    and "set (correlationMap (ps s')) \<subseteq> set (correlationMap (ps s))"
    and "requested (term_pc s') = requested (term_pc s)" and "waited (term_pc s') \<longrightarrow> waited (term_pc s)"
  shows "ps_drained s'"
  using assms by (auto simp: ps_drained_def)

lemma set_delete_subset: "set (AList.delete k xs) \<subseteq> set xs"
  by (auto simp: delete_filter)

lemma ps_drained_step:
  assumes "ps_step False s s'" and "ps_buf cap s" and "ps_agree s" and "ps_ack s" and "ps_drained s"
  shows "ps_drained s'"
  using assms
proof (induction rule: ps_step.induct)
  case (buffered_publish s t p)
  from buffered_publish.prems(1,2) buffered_publish.hyps(3) show ?case
    by (cases rule: buffered_publish_cases) (rule ps_drained_frame [OF buffered_publish.prems(4)]; simp)+
next
  case (send_add s t a p)
  then have "\<not> buffer_done (term_pc s)" by (cases "term_pc s") (auto simp: ps_buf_def dest: not_running_exit)
  then have "\<not> requested (term_pc s)" "\<not> waited (term_pc s)" by (cases "term_pc s"; simp)+
  with send_add show ?case by (auto simp: ps_drained_def addCorrelationContext_def split: option.splits)
next
  case (ack_delete s mid p)
  then show ?case
    using ack_finish_eq [OF ack_delete.hyps(2)] set_delete_subset [of mid "correlationMap (ps s)"]
    by (auto simp: ps_drained_def)
next
  case (term_begin s ev ev' p)
  then have "pp_config (ps s) \<noteq> backpressureConfigurationDirect" by (simp add: ps_buf_def)
  from Terminate_begin_eq [OF term_begin.hyps(2) this] obtain l c where
    p: "p = (ps s)\<lparr>pp_lifecycle := l, pp_interrupt := c,
            pp_tasks := (pp_tasks (ps s))\<lparr>buf := (buf (pp_tasks (ps s)))\<lparr>terminateGraceful := True\<rparr>\<rparr>\<rparr>" by metis
  then show ?case using term_begin.hyps(1) by - (rule ps_drained_frame [OF term_begin.prems(4)]; simp)
next
  case (term_buffer s graceful)
  then have graceful by (auto simp: Terminate_result_def ps_buf_def split: if_splits)
  with term_buffer show ?case by - (rule ps_drained_frame [OF term_buffer.prems(4)]; simp)
next
  case (term_request s n p)
  then show ?case using request_eq [OF term_request.hyps(2)] by (auto simp: ps_drained_def)
next
  case (term_wait s n graceful)
  then show ?case by (auto simp: ps_drained_def await_correlate_complete_def split: if_splits)
next
  case (term_remove s)
  then show ?case by (auto simp: ps_drained_def)
next
  case (term_table s n m p)
  then have "correlationMap (ps s) = []" by (simp add: ps_drained_def)
  with drainAckTable_eqs(7) [OF term_table.hyps(2)] term_table show ?case by (simp add: ps_drained_def)
qed (rule ps_drained_frame, assumption;
    auto simp: removeCorrelationContext_def resolve_eqs finish_eqs ps_buf_def set_delete_subset
      dest!: set_delete_subset [THEN subsetD])+

text \<open>The running task: its message is at the head of the buffer, and its number is not yet in the table.\<close>

lemma send_has_message:
  assumes "ps_buf cap s" and "ps_agree s" and "send_pc s = SendPop e"
  shows "\<exists>pub c. chan_recv (pp_buffer (ps s)) = Return (Some pub, c)"
proof -
  obtain t where t: "buf_pc (pp_tasks (ps s)) = BufRunning t" "before_close (term_pc s)"
    using assms(3) ps_buf_running [OF assms(1)] by auto
  then obtain pub pubs where "chan_items (pp_buffer (ps s)) = pub # pubs"
    using assms(2,3) by (auto simp: ps_agree_def live_tasks_def)
  then show ?thesis by (simp add: chan_recv_def)
qed

lemma running_accepted:
  assumes "ps_buf cap s" and "ps_tasks s" and "buf_pc (pp_tasks (ps s)) = BufRunning t"
  shows "t \<in> set (accepted_tasks s)" "task_ctx t \<noteq> None"
    "\<forall>u \<in> set (chan_items (tb_channel (buf (pp_tasks (ps s))))). task_messageID u \<noteq> task_messageID t"
proof -
  have sub: "submitted (pp_tasks (ps s)) = finished (pp_tasks (ps s)) @ dropped (pp_tasks (ps s)) @ [t] @
      chan_items (tb_channel (buf (pp_tasks (ps s))))"
    using assms by (simp add: ps_buf_def buf_inv_def)
  then show "t \<in> set (accepted_tasks s)" "task_ctx t \<noteq> None" using assms(2) by (auto simp: ps_tasks_def)
  have "distinct (map task_messageID ([t] @ chan_items (tb_channel (buf (pp_tasks (ps s))))))"
    using assms(2) sub by (simp add: ps_tasks_def)
  then show "\<forall>u \<in> set (chan_items (tb_channel (buf (pp_tasks (ps s))))). task_messageID u \<noteq> task_messageID t"
    by (force simp: image_iff)
qed

lemma running_not_in_table:
  assumes "ps_table s" and "ps_unsent s" and "buf_pc (pp_tasks (ps s)) = BufRunning t" and "send_pc s = SendAdd"
  shows "task_messageID t \<notin> fst ` set (correlationMap (ps s))"
  using assms by (auto simp: ps_table_def ps_unsent_def queued_tasks_def)

lemma ps_table_frame:
  assumes "ps_table s" and "correlationMap (ps s') = correlationMap (ps s)" and "set (accepted_tasks s) \<subseteq> set (accepted_tasks s')"
    and "sent_ids s \<subseteq> sent_ids s'"
    and "\<And>t. buf_pc (pp_tasks (ps s)) = BufRunning t \<Longrightarrow> unsent (send_pc s) \<Longrightarrow>
       task_messageID t \<in> sent_ids s' \<or> buf_pc (pp_tasks (ps s')) = BufRunning t \<and> unsent (send_pc s')"
  shows "ps_table s'"
  using assms unfolding ps_table_def by (metis subsetD)

lemma ps_table_delete:
  assumes "ps_table s" and "correlationMap (ps s') = AList.delete mid (correlationMap (ps s))"
    and "accepted_tasks s' = accepted_tasks s" and "sent_ids s' = sent_ids s"
    and "\<And>t. buf_pc (pp_tasks (ps s)) = BufRunning t \<Longrightarrow> unsent (send_pc s) \<Longrightarrow>
       task_messageID t = mid \<or> buf_pc (pp_tasks (ps s')) = BufRunning t \<and> unsent (send_pc s')"
  shows "ps_table s'"
proof -
  have 1: "\<forall>e \<in> set (correlationMap (ps s')). e \<in> set (correlationMap (ps s)) \<and> fst e \<noteq> mid"
    using assms(2) by (simp add: delete_filter)
  have "fst e \<in> sent_ids s' \<or>
      (\<exists>t. buf_pc (pp_tasks (ps s')) = BufRunning t \<and> unsent (send_pc s') \<and> fst e = task_messageID t)"
    if "e \<in> set (correlationMap (ps s'))" for e
  proof -
    have "fst e \<in> sent_ids s \<or>
        (\<exists>t. buf_pc (pp_tasks (ps s)) = BufRunning t \<and> unsent (send_pc s) \<and> fst e = task_messageID t)"
      using 1 that assms(1) by (simp add: ps_table_def)
    with 1 that assms(4,5) show ?thesis by auto
  qed
  moreover have "distinct (map fst (correlationMap (ps s')))"
    using assms(1,2) by (simp add: ps_table_def delete_filter distinct_map_filter)
  ultimately show ?thesis using 1 assms(1,3) by (auto simp: ps_table_def)
qed

lemma ps_table_step:
  assumes "ps_step False s s'" and "ps_buf cap s" and "ps_agree s" and "ps_tasks s" and "ps_unsent s" and "ps_drained s"
    and "ps_table s"
  shows "ps_table s'"
  using assms
proof (induction rule: ps_step.induct)
  case (buffered_publish s t p)
  from buffered_publish.prems(1,2) buffered_publish.hyps(3) show ?case
    by (cases rule: buffered_publish_cases) (rule ps_table_frame [OF buffered_publish.prems(6)]; auto)+
next
  case (buffer_run s b)
  then show ?case by - (rule ps_table_frame [OF buffer_run.prems(6)]; auto)
next
  case (send_end s b)
  then show ?case by - (rule ps_table_frame [OF send_end.prems(6)]; auto)
next
  case (send_add s t a p)
  note t = running_accepted [OF send_add.prems(1,3) send_add.hyps(1)]
  have p: "correlationMap p = correlationMap (ps s) @ [(task_messageID t, task_context t)]" "pp_tasks p = pp_tasks (ps s)"
    using add_context_eq [OF send_add.hyps(3) t(2)]
      running_not_in_table [OF send_add.prems(6,4) send_add.hyps(1,2)] by (simp_all add: update_fresh)
  with send_add running_not_in_table [OF send_add.prems(6,4) send_add.hyps(1,2)] t(1) show ?case
    by (auto simp: ps_table_def)
next
  case (send_delete s t isFull err)
  then show ?case by - (rule ps_table_delete [OF send_delete.prems(6)]; auto simp: removeCorrelationContext_def)
next
  case (ack_delete s mid p)
  then show ?case using ack_finish_eq [OF ack_delete.hyps(2)] by - (rule ps_table_delete [OF ack_delete.prems(6)]; auto)
next
  case (send_interrupted s t)
  then show ?case by (simp add: ps_buf_def)
next
  case (direct_add t s a p)
  then show ?case by (simp add: ps_buf_def)
next
  case (direct_failed t s)
  then show ?case by (simp add: ps_buf_def)
next
  case (send_no_message s e)
  then show ?case using send_has_message [OF send_no_message.prems(1,2) send_no_message.hyps(1)] by blast
next
  case (term_begin s ev ev' p)
  then have "pp_config (ps s) \<noteq> backpressureConfigurationDirect" by (simp add: ps_buf_def)
  from Terminate_begin_eq [OF term_begin.hyps(2) this] obtain l c where
    p: "p = (ps s)\<lparr>pp_lifecycle := l, pp_interrupt := c,
            pp_tasks := (pp_tasks (ps s))\<lparr>buf := (buf (pp_tasks (ps s)))\<lparr>terminateGraceful := True\<rparr>\<rparr>\<rparr>" by metis
  then show ?case by - (rule ps_table_frame [OF term_begin.prems(6)]; simp)
next
  case (term_table s n m p)
  then have "correlationMap (ps s) = []" by (simp add: ps_drained_def)
  with drainAckTable_eqs(7) [OF term_table.hyps(2)] term_table show ?case by (simp add: ps_table_def)
qed (rule ps_table_frame, assumption; auto simp: resolve_eqs finish_eqs ps_buf_def dest!: request_eq)+

lemma ps_unsent_frame:
  assumes "ps_unsent s" and "set (queued_tasks s') \<subseteq> set (queued_tasks s)" and "sent_ids s' = sent_ids s"
    and "set (correlationMap (ps s)) \<subseteq> set (correlationMap (ps s'))"
    and "\<And>t. buf_pc (pp_tasks (ps s')) = BufRunning t \<Longrightarrow> unsent (send_pc s') \<Longrightarrow>
      buf_pc (pp_tasks (ps s)) = BufRunning t \<and> unsent (send_pc s)"
  shows "ps_unsent s'"
  using assms unfolding ps_unsent_def by (metis subsetD)

lemma ps_unsent_step:
  assumes "ps_step False s s'" and "ps_buf cap s" and "ps_agree s" and "ps_tasks s" and "ps_table s" and "ps_ack s"
    and "ps_drained s" and "ps_unsent s"
  shows "ps_unsent s'"
  using assms
proof (induction rule: ps_step.induct)
  case (buffered_publish s t p)
  have new: "task_messageID t \<notin> sent_ids s" using buffered_publish.hyps(2) by (simp add: fresh_def)
  from buffered_publish.prems(1,2) buffered_publish.hyps(3) show ?case
  proof (cases rule: buffered_publish_cases)
    case (1 c)
    then show ?thesis by - (rule ps_unsent_frame [OF buffered_publish.prems(7)]; simp add: queued_tasks_def)
  next
    case (2 c d)
    have "chan_items d = chan_items (tb_channel (buf (pp_tasks (ps s)))) @ [t]"
      using pp_send_items [OF 2(3)] buffered_publish.prems(1) by (simp add: ps_buf_def buf_inv_def chan_open_def)
    with 2(5) new buffered_publish.prems(7) show ?thesis by (auto simp: ps_unsent_def queued_tasks_def split: if_splits)
  qed
next
  case (buffer_run s b)
  have add: "send_pc s = SendAdd" using buffer_run ps_buf_running [of cap s] by blast
  have "\<not> terminateUngraceful (buf (pp_tasks (ps s)))" using buffer_run.prems(1) by (auto simp: ps_buf_def buf_inv_def)
  from run_step_pending [OF buffer_run.hyps(2,3) this]
  show ?case by - (rule ps_unsent_frame [OF buffer_run.prems(7)]; simp add: queued_tasks_def add)
next
  case (send_end s b)
  then obtain t where t: "buf_pc (pp_tasks (ps s)) = BufRunning t" using ps_buf_running [of cap s] by auto
  from run_step_running [OF send_end.hyps(2) t] send_end show ?case
    by - (rule ps_unsent_frame [OF send_end.prems(7)]; simp add: queued_tasks_def)
next
  case (send_add s t a p)
  note t = running_accepted [OF send_add.prems(1,3) send_add.hyps(1)]
  have "correlationMap p = correlationMap (ps s) @ [(task_messageID t, task_context t)]" "pp_tasks p = pp_tasks (ps s)"
    using add_context_eq [OF send_add.hyps(3) t(2)]
      running_not_in_table [OF send_add.prems(4,7) send_add.hyps(1,2)] by (simp_all add: update_fresh)
  with send_add show ?case by (auto simp: ps_unsent_def queued_tasks_def)
next
  case (send_sent s t)
  with running_accepted(3) [OF send_sent.prems(1,3) send_sent.hyps(1)] show ?case
    by (auto simp: ps_unsent_def queued_tasks_def)
next
  case (send_delete s t isFull err)
  then show ?case by (auto simp: ps_unsent_def queued_tasks_def removeCorrelationContext_def)
next
  case (ack_delete s mid p)
  then have mid: "mid \<in> sent_ids s" by (simp add: ps_ack_def)
  then show ?case
    using ack_finish_eq [OF ack_delete.hyps(2)] ack_delete.prems(7) by (auto simp: ps_unsent_def queued_tasks_def delete_filter)
next
  case (send_interrupted s t)
  then show ?case by (simp add: ps_buf_def)
next
  case (direct_add t s a p)
  then show ?case by (simp add: ps_buf_def)
next
  case (direct_sent t s)
  then show ?case by (simp add: ps_buf_def)
next
  case (direct_failed t s)
  then show ?case by (simp add: ps_buf_def)
next
  case (term_begin s ev ev' p)
  then have "pp_config (ps s) \<noteq> backpressureConfigurationDirect" by (simp add: ps_buf_def)
  from Terminate_begin_eq [OF term_begin.hyps(2) this] obtain l c where
    p: "p = (ps s)\<lparr>pp_lifecycle := l, pp_interrupt := c,
            pp_tasks := (pp_tasks (ps s))\<lparr>buf := (buf (pp_tasks (ps s)))\<lparr>terminateGraceful := True\<rparr>\<rparr>\<rparr>" by metis
  then show ?case by - (rule ps_unsent_frame [OF term_begin.prems(7)]; simp add: queued_tasks_def)
next
  case (term_table s n m p)
  then have "correlationMap (ps s) = []" by (simp add: ps_drained_def)
  with drainAckTable_eqs(7) [OF term_table.hyps(2)] term_table show ?case by (simp add: ps_unsent_def queued_tasks_def)
qed (rule ps_unsent_frame, assumption; auto simp: queued_tasks_def resolve_eqs finish_eqs dest!: request_eq)+

lemma ps_ack_frame:
  assumes "ps_ack s" and "ack_pc s' = ack_pc s" and "sent_ids s \<subseteq> sent_ids s'"
    and "\<And>e. e \<in> set (correlationMap (ps s)) \<Longrightarrow> fst e \<in> sent_ids s \<Longrightarrow> e \<in> set (correlationMap (ps s'))"
  shows "ps_ack s'"
  using assms unfolding ps_ack_def by (cases "ack_pc s") force+

lemma ack_finish_panics: "ack_finish mid p = Panics e \<Longrightarrow> correlationComplete p"
  by (auto simp: ack_finish_def Let_def signal_close_def split: if_splits)

lemma ps_ack_step:
  assumes "ps_step False s s'" and "ps_buf cap s" and "ps_agree s" and "ps_tasks s" and "ps_table s" and "ps_unsent s"
    and "ps_drained s" and "ps_ack s"
  shows "ps_ack s'"
  using assms
proof (induction rule: ps_step.induct)
  case (buffered_publish s t p)
  from buffered_publish.prems(1,2) buffered_publish.hyps(3) show ?case
    by (cases rule: buffered_publish_cases) (rule ps_ack_frame [OF buffered_publish.prems(7)]; simp)+
next
  case (send_add s t a p)
  note t = running_accepted [OF send_add.prems(1,3) send_add.hyps(1)]
  have "correlationMap p = correlationMap (ps s) @ [(task_messageID t, task_context t)]"
    using add_context_eq [OF send_add.hyps(3) t(2)]
      running_not_in_table [OF send_add.prems(4,5) send_add.hyps(1,2)] by (simp add: update_fresh)
  then show ?case by - (rule ps_ack_frame [OF send_add.prems(7)]; simp)
next
  case (send_delete s t isFull err)
  then have "task_messageID t \<notin> sent_ids s" by (simp add: ps_unsent_def)
  then show ?case
    by - (rule ps_ack_frame [OF send_delete.prems(7)]; auto simp: removeCorrelationContext_def delete_filter)
next
  case (ack_start s mid persisted err)
  then show ?case by (auto simp: ps_ack_def split: option.splits dest: map_of_SomeD)
next
  case (ack_resolve s mid persisted err ctx p)
  then show ?case using resolve_eqs(1) [OF ack_resolve.hyps(2)] by (force simp: ps_ack_def)
next
  case (ack_delete s mid p)
  then show ?case by (simp add: ps_ack_def)
next
  case (ack_panic s mid e)
  then show ?case using ack_finish_panics [OF ack_panic.hyps(2)] by (simp add: ps_ack_def ps_drained_def)
next
  case (send_interrupted s t)
  then show ?case by (simp add: ps_buf_def)
next
  case (direct_add t s a p)
  then show ?case by (simp add: ps_buf_def)
next
  case (direct_failed t s)
  then show ?case by (simp add: ps_buf_def)
next
  case (term_begin s ev ev' p)
  then have "pp_config (ps s) \<noteq> backpressureConfigurationDirect" by (simp add: ps_buf_def)
  from Terminate_begin_eq [OF term_begin.hyps(2) this] obtain l c where
    p: "p = (ps s)\<lparr>pp_lifecycle := l, pp_interrupt := c,
            pp_tasks := (pp_tasks (ps s))\<lparr>buf := (buf (pp_tasks (ps s)))\<lparr>terminateGraceful := True\<rparr>\<rparr>\<rparr>" by metis
  then show ?case by - (rule ps_ack_frame [OF term_begin.prems(7)]; simp)
next
  case (term_table s n m p)
  then have "correlationMap (ps s) = []" by (simp add: ps_drained_def)
  with drainAckTable_eqs(7) [OF term_table.hyps(2)] term_table show ?case by (simp add: ps_ack_def)
qed (rule ps_ack_frame, assumption; auto simp: resolve_eqs finish_eqs dest!: request_eq)+

section \<open>Every context is in one place\<close>

text \<open>
  The context of an accepted message has been resolved, or is in the table and not in the hands of an
  acknowledgement that has resolved it, or waits in the buffer and its task has not added it to the table, or is about to
  be resolved by its task.
\<close>

fun head_taken :: "send_pc \<Rightarrow> bool" where
  "head_taken SendLoop = True"
| "head_taken (SendPop e) = True"
| "head_taken _ = False"

fun resolving :: "send_pc \<Rightarrow> bool" where
  "resolving (SendResolve isFull err) = True"
| "resolving _ = False"

definition waiting_ctxs :: "ps_sys \<Rightarrow> correlationContext list" where
  "waiting_ctxs s = map (\<lambda>pub. the (corr pub))
     (if head_taken (send_pc s) then tl (chan_items (pp_buffer (ps s))) else chan_items (pp_buffer (ps s)))"

definition tabled_ctxs :: "ps_sys \<Rightarrow> correlationContext list" where
  "tabled_ctxs s = map snd (filter (\<lambda>e. ack_pc s \<noteq> AckDelete (fst e)) (correlationMap (ps s)))"

definition failing_ctxs :: "ps_sys \<Rightarrow> correlationContext list" where
  "failing_ctxs s =
     (if resolving (send_pc s) then map task_context (held (buf_pc (pp_tasks (ps s)))) else [])"

abbreviation resolved_ctxs :: "ps_sys \<Rightarrow> correlationContext list" where
  "resolved_ctxs s \<equiv> map fst (resolutions (ps s))"

definition ps_tokens :: "ps_sys \<Rightarrow> bool" where
  "ps_tokens s \<longleftrightarrow> mset (map task_context (accepted_tasks s)) =
     mset (resolved_ctxs s) + mset (tabled_ctxs s) + mset (waiting_ctxs s) + mset (failing_ctxs s)"

lemma ps_tokens_frame:
  assumes "ps_tokens s" and "accepted_tasks s' = accepted_tasks s" and "resolutions (ps s') = resolutions (ps s)"
    and "tabled_ctxs s' = tabled_ctxs s" and "waiting_ctxs s' = waiting_ctxs s" and "failing_ctxs s' = failing_ctxs s"
  shows "ps_tokens s'"
  using assms by (simp add: ps_tokens_def)

lemma mset_delete_entry:
  "distinct (map fst xs) \<Longrightarrow> (k, v) \<in> set xs \<Longrightarrow> P (k, v) \<Longrightarrow>
     mset (map snd (filter P xs)) = add_mset v (mset (map snd (filter P (AList.delete k xs))))"
proof (induction xs)
  case (Cons x xs)
  show ?case
  proof (cases "fst x = k")
    case True
    then have "x = (k, v)" "k \<notin> fst ` set xs" using Cons.prems by (auto simp: image_iff)
    then show ?thesis using Cons.prems(3) by (simp add: delete_filter filter_key_fresh)
  next
    case False
    then show ?thesis using Cons by (cases x) auto
  qed
qed simp

lemma not_sending:
  "ps_buf cap s \<Longrightarrow> buffer_done (term_pc s) \<or> \<not> before_close (term_pc s) \<Longrightarrow> send_pc s = SendAdd"
  using ps_buf_running [of cap s] by blast

lemma head_of_buffer:
  assumes "ps_buf cap s" and "ps_agree s" and "buf_pc (pp_tasks (ps s)) = BufRunning t" and "\<not> message_popped (send_pc s)"
  obtains rest where "chan_items (pp_buffer (ps s)) = task_publishable t # rest"
proof -
  have "before_close (term_pc s)"
    using assms(1,3) by (cases "term_pc s") (auto simp: ps_buf_def dest: not_running_exit)
  then show ?thesis using assms that by (auto simp: ps_agree_def live_tasks_def)
qed

lemma taken_nonempty:
  "ps_buf cap s \<Longrightarrow> ps_agree s \<Longrightarrow> head_taken (send_pc s) \<Longrightarrow> chan_items (pp_buffer (ps s)) \<noteq> []"
proof -
  assume a: "ps_buf cap s" "ps_agree s" "head_taken (send_pc s)"
  then have "send_pc s \<noteq> SendAdd" "\<not> message_popped (send_pc s)" by (cases "send_pc s"; simp)+
  moreover obtain t where "buf_pc (pp_tasks (ps s)) = BufRunning t"
    using ps_buf_running [OF a(1)] \<open>send_pc s \<noteq> SendAdd\<close> by auto
  ultimately show ?thesis using head_of_buffer [OF a(1,2)] by (metis list.distinct(1))
qed

lemma ps_tokens_publish:
  assumes "ps_buf cap s" and "ps_agree s" and "ps_tokens s" and "chan_send (task_publishable t) (pp_buffer (ps s)) = Return c"
    and "pp_buffer (ps s') = c" and "accepted_tasks s' = accepted_tasks s @ [t]"
    and "resolutions (ps s') = resolutions (ps s)" and "correlationMap (ps s') = correlationMap (ps s)"
    and "send_pc s' = send_pc s" and "ack_pc s' = ack_pc s" and "buf_pc (pp_tasks (ps s')) = buf_pc (pp_tasks (ps s))"
  shows "ps_tokens s'"
proof -
  have "chan_items c = chan_items (pp_buffer (ps s)) @ [task_publishable t]"
    using pp_send_items [OF assms(4)] assms(1) by (simp add: ps_buf_def)
  then have "waiting_ctxs s' = waiting_ctxs s @ [task_context t]"
    using assms taken_nonempty [OF assms(1,2)] by (simp add: waiting_ctxs_def task_publishable_def task_context_def)
  with assms show ?thesis by (simp add: ps_tokens_def tabled_ctxs_def failing_ctxs_def)
qed

lemma popped_same:
  assumes "ps_buf cap s" and "chan_recv (pp_buffer (ps s)) = Return (Some pub, c)"
  shows "chan_items (pp_buffer (ps s)) = pub # chan_items c"
  using pp_recv_items [OF assms(2)] assms(1) by (simp add: ps_buf_def)

lemmas place_defs = tabled_ctxs_def waiting_ctxs_def failing_ctxs_def

lemma ps_tokens_step:
  assumes "ps_step False s s'" and "ps_buf cap s" and "ps_agree s" and "ps_tasks s" and "ps_table s" and "ps_unsent s"
    and "ps_ack s" and "ps_drained s" and "ps_tokens s"
  shows "ps_tokens s'"
  using assms
proof (induction rule: ps_step.induct)
  case (buffered_publish s t p)
  from buffered_publish.prems(1,2) buffered_publish.hyps(3) show ?case
    by (cases rule: buffered_publish_cases)
      (rule ps_tokens_publish [OF buffered_publish.prems(1,2,8)], assumption, simp_all)+
next
  case (buffer_run s b)
  have add: "send_pc s = SendAdd" using buffer_run ps_buf_running [of cap s] by blast
  then show ?case by - (rule ps_tokens_frame [OF buffer_run.prems(8)]; simp add: place_defs)
next
  case (send_add s t a p)
  note t = running_accepted [OF send_add.prems(1,3) send_add.hyps(1)]
  note new = running_not_in_table [OF send_add.prems(4,5) send_add.hyps(1,2)]
  obtain rest where rest: "chan_items (pp_buffer (ps s)) = task_publishable t # rest"
    using head_of_buffer [OF send_add.prems(1,2) send_add.hyps(1)] send_add.hyps(2) by auto
  have "ack_pc s \<noteq> AckDelete (task_messageID t)" using send_add.prems(6) new by (auto simp: ps_ack_def)
  with add_context_eq [OF send_add.hyps(3) t(2)] new rest send_add.hyps(2) send_add.prems(8) show ?case
    by (simp add: ps_tokens_def place_defs update_fresh task_publishable_def task_context_def)
next
  case (send_popped s pub c)
  then show ?case using popped_same [OF send_popped.prems(1) send_popped.hyps(2)]
    by - (rule ps_tokens_frame [OF send_popped.prems(8)]; simp add: place_defs)
next
  case (send_popped_failed s info pub c)
  then show ?case using popped_same [OF send_popped_failed.prems(1) send_popped_failed.hyps(2)]
    by - (rule ps_tokens_frame [OF send_popped_failed.prems(8)]; simp add: place_defs)
next
  case (send_no_message s e)
  then show ?case using send_has_message [OF send_no_message.prems(1,2) send_no_message.hyps(1)] by blast
next
  case (send_delete s t isFull err)
  have u: "(task_messageID t, task_context t) \<in> set (correlationMap (ps s))" "task_messageID t \<notin> sent_ids s"
    using send_delete.prems(5) send_delete.hyps by (auto simp: ps_unsent_def)
  have "ack_pc s \<noteq> AckDelete (task_messageID t)" using send_delete.prems(6) u(2) by (auto simp: ps_ack_def)
  with mset_delete_entry [of "correlationMap (ps s)", OF _ u(1), where P = "\<lambda>e. ack_pc s \<noteq> AckDelete (fst e)"]
    send_delete show ?case
    by (simp add: ps_tokens_def place_defs removeCorrelationContext_def ps_table_def)
next
  case (send_resolve s t isFull err p)
  then show ?case using resolve_eqs [OF send_resolve.hyps(3)] resolve_Return(2) [OF send_resolve.hyps(3)]
    by (simp add: ps_tokens_def place_defs)
next
  case (send_end s b)
  then show ?case by - (rule ps_tokens_frame [OF send_end.prems(8)]; simp add: place_defs)
next
  case (ack_start s mid persisted err)
  then show ?case by - (rule ps_tokens_frame [OF ack_start.prems(8)]; simp add: place_defs split: option.splits)
next
  case (ack_resolve s mid persisted err ctx p)
  have in_tab: "(mid, ctx) \<in> set (correlationMap (ps s))" using ack_resolve by (simp add: ps_ack_def)
  have "mset (map snd (correlationMap (ps s))) = add_mset ctx (mset (map snd (AList.delete mid (correlationMap (ps s)))))"
    using mset_delete_entry [of "correlationMap (ps s)", OF _ in_tab, where P = "\<lambda>_. True"] ack_resolve.prems(4)
    by (simp add: ps_table_def)
  moreover have "filter (\<lambda>e. AckDelete mid \<noteq> AckDelete (fst e)) xs = AList.delete mid xs" for xs :: "(u64 \<times> correlationContext) list"
    by (auto simp: delete_filter intro: filter_cong)
  ultimately show ?case
    using ack_resolve resolve_eqs [OF ack_resolve.hyps(2)] resolve_Return(2) [OF ack_resolve.hyps(2)]
    by (simp add: ps_tokens_def place_defs)
next
  case (ack_delete s mid p)
  have "filter (\<lambda>e. AckDelete mid \<noteq> AckDelete (fst e)) xs = AList.delete mid xs" for xs :: "(u64 \<times> correlationContext) list"
    by (auto simp: delete_filter intro: filter_cong)
  then show ?case
    using ack_delete ack_finish_eq [OF ack_delete.hyps(2)]
    by - (rule ps_tokens_frame [OF ack_delete.prems(8)]; simp add: place_defs)
next
  case (ack_panic s mid e)
  then show ?case using ack_finish_panics [OF ack_panic.hyps(2)] by (simp add: ps_ack_def ps_drained_def)
next
  case (term_begin s ev ev' p)
  then have "pp_config (ps s) \<noteq> backpressureConfigurationDirect" by (simp add: ps_buf_def)
  from Terminate_begin_eq [OF term_begin.hyps(2) this] obtain l c where
    p: "p = (ps s)\<lparr>pp_lifecycle := l, pp_interrupt := c,
            pp_tasks := (pp_tasks (ps s))\<lparr>buf := (buf (pp_tasks (ps s)))\<lparr>terminateGraceful := True\<rparr>\<rparr>\<rparr>" by metis
  then show ?case by - (rule ps_tokens_frame [OF term_begin.prems(8)]; simp add: place_defs)
next
  case (term_close s c)
  then show ?case
    by - (rule ps_tokens_frame [OF term_close.prems(8)]; auto simp: place_defs chan_close_def split: if_splits)
next
  case (term_drain s n pub c ctx p)
  have "send_pc s = SendAdd" using not_sending [OF term_drain.prems(1)] term_drain.hyps(1) by simp
  then show ?case
    using popped_same [OF term_drain.prems(1) term_drain.hyps(2)] term_drain
      resolve_eqs [OF term_drain.hyps(4)] resolve_Return(2) [OF term_drain.hyps(4)]
    by (simp add: ps_tokens_def place_defs)
next
  case (term_table s n m p)
  then have "correlationMap (ps s) = []" by (simp add: ps_drained_def)
  with drainAckTable_eqs(7) [OF term_table.hyps(2)] term_table show ?case by (simp add: ps_tokens_def place_defs)
qed (rule ps_tokens_frame, assumption; auto simp: place_defs ps_buf_def finish_eqs dest!: request_eq)+

text \<open>A channel on which a caller waits is empty until its context has been resolved.\<close>

fun is_done :: "term_pc \<Rightarrow> bool" where
  "is_done (TermDone n m) = True"
| "is_done _ = False"

definition ps_chans :: "ps_sys \<Rightarrow> bool" where
  "ps_chans s \<longleftrightarrow> (\<not> is_done (term_pc s) \<longrightarrow> executor_open (pp_executor (ps s))) \<and>
     distinct (concat (map ctx_blockers (map task_context (accepted_tasks s)))) \<and>
     (\<forall>b. (\<forall>ctx \<in> set (resolved_ctxs s). b \<notin> set (ctx_blockers ctx)) \<longrightarrow> blockers (ps s) b = make_chan 1)"

lemma ps_chans_frame:
  assumes "ps_chans s" and "accepted_tasks s' = accepted_tasks s" and "resolutions (ps s') = resolutions (ps s)"
    and "blockers (ps s') = blockers (ps s)" and "is_done (term_pc s) \<longrightarrow> is_done (term_pc s')"
    and "executor_open (pp_executor (ps s)) \<longrightarrow> is_done (term_pc s') \<or> executor_open (pp_executor (ps s'))"
  shows "ps_chans s'"
  using assms by (auto simp: ps_chans_def)

lemma ps_chans_resolve:
  assumes "ps_chans s" and "resolve persisted err ctx p = Return p'" and "resolutions p = resolutions (ps s)"
    and "blockers p = blockers (ps s)" and "pp_executor p = pp_executor (ps s)"
    and "accepted_tasks s' = accepted_tasks s" and "ps s' = ready_after f p' \<or> ps s' = p'"
    and "is_done (term_pc s) \<longrightarrow> is_done (term_pc s')"
  shows "ps_chans s'"
proof -
  have bl: "blockers (ps s') = blockers p'" and rs: "resolutions (ps s') = resolutions (ps s) @ [(ctx, persisted, err)]"
    using assms(3,7) resolve_Return(2) [OF assms(2)] by auto
  have ex: "executor_open (pp_executor (ps s))" if "\<not> is_done (term_pc s')" using assms(1,8) that by (auto simp: ps_chans_def)
  have "executor_open (pp_executor (ps s'))" if "\<not> is_done (term_pc s')"
    using ex [OF that] resolve_Return(4) [OF assms(2)] assms(5,7) ready_after_open by auto
  moreover have "blockers (ps s') b = make_chan 1" if b: "\<forall>ctx \<in> set (resolved_ctxs s'). b \<notin> set (ctx_blockers ctx)" for b
  proof -
    have "b \<notin> set (ctx_blockers ctx)" "\<forall>ctx \<in> set (resolved_ctxs s). b \<notin> set (ctx_blockers ctx)" using b rs by auto
    moreover from this(2) have "blockers (ps s) b = make_chan 1" using assms(1) unfolding ps_chans_def by blast
    ultimately show ?thesis using resolve_Return(3) [OF assms(2)] bl assms(4) by simp
  qed
  ultimately show ?thesis using assms(1,6) by (auto simp: ps_chans_def)
qed

lemma ps_chans_publish:
  assumes "ps_chans s" and "fresh t s" and "accepted_tasks s' = accepted_tasks s @ [t]"
    and "resolutions (ps s') = resolutions (ps s)" and "blockers (ps s') = blockers (ps s)" and "term_pc s' = term_pc s"
    and "pp_executor (ps s') = pp_executor (ps s)"
  shows "ps_chans s'"
proof -
  have "distinct (ctx_blockers (task_context t))" by (cases "task_context t") simp_all
  moreover have "set (ctx_blockers (task_context t)) \<inter> (\<Union>u \<in> set (accepted_tasks s). set (ctx_blockers (task_context u))) = {}"
    using assms(2) unfolding fresh_def all_tasks_def by auto
  ultimately show ?thesis using assms by (auto simp: ps_chans_def)
qed

lemma ps_chans_step:
  assumes "ps_step False s s'" and "ps_buf cap s" and "ps_agree s" and "ps_tasks s" and "ps_drained s" and "ps_chans s"
  shows "ps_chans s'"
  using assms
proof (induction rule: ps_step.induct)
  case (buffered_publish s t p)
  from buffered_publish.prems(1,2) buffered_publish.hyps(3) show ?case
    by (cases rule: buffered_publish_cases)
      (rule ps_chans_publish [OF buffered_publish.prems(5) buffered_publish.hyps(2)]; simp)+
next
  case (send_add s t a p)
  then show ?case
    by - (rule ps_chans_frame [OF send_add.prems(5)]; auto simp: addCorrelationContext_def split: option.splits)
next
  case (send_resolve s t isFull err p)
  from send_resolve.prems(5) send_resolve.hyps(3) show ?case
    by (rule ps_chans_resolve [where f = isFull]) simp_all
next
  case (ack_resolve s mid persisted err ctx p)
  from ack_resolve.prems(5) ack_resolve.hyps(2) show ?case by (rule ps_chans_resolve) simp_all
next
  case (term_drain s n pub c ctx p)
  from term_drain.prems(5) term_drain.hyps(4) show ?case by (rule ps_chans_resolve) (simp_all add: term_drain.hyps(1))
next
  case (term_begin s ev ev' p)
  then have "pp_config (ps s) \<noteq> backpressureConfigurationDirect" by (simp add: ps_buf_def)
  from Terminate_begin_eq [OF term_begin.hyps(2) this] obtain l c where
    p: "p = (ps s)\<lparr>pp_lifecycle := l, pp_interrupt := c,
            pp_tasks := (pp_tasks (ps s))\<lparr>buf := (buf (pp_tasks (ps s)))\<lparr>terminateGraceful := True\<rparr>\<rparr>\<rparr>" by metis
  then show ?case using term_begin.hyps(1) by - (rule ps_chans_frame [OF term_begin.prems(5)]; simp)
next
  case (term_table s n m p)
  then have "correlationMap (ps s) = []" by (simp add: ps_drained_def)
  with drainAckTable_eqs(7) [OF term_table.hyps(2)] term_table show ?case
    by - (rule ps_chans_frame [OF term_table.prems(5)]; simp)
next
  case (direct_add t s a p)
  then show ?case by (simp add: ps_buf_def)
next
  case (direct_sent t s)
  then show ?case by (simp add: ps_buf_def)
qed (rule ps_chans_frame, assumption;
    auto simp: removeCorrelationContext_def finish_eqs intro: ready_after_open dest!: request_eq ack_finish_eq)+

text \<open>The end of the termination.\<close>

fun queue_drained :: "term_pc \<Rightarrow> bool" where
  "queue_drained (TermTable n) = True"
| "queue_drained (TermFinish n m) = True"
| "queue_drained (TermDone n m) = True"
| "queue_drained _ = False"

fun unacked_of :: "term_pc \<Rightarrow> nat" where
  "unacked_of (TermFinish n m) = m"
| "unacked_of (TermDone n m) = m"
| "unacked_of _ = 0"

definition ps_end :: "ps_sys \<Rightarrow> bool" where
  "ps_end s \<longleftrightarrow> unacked_of (term_pc s) = 0 \<and> (queue_drained (term_pc s) \<longrightarrow> chan_items (pp_buffer (ps s)) = [])"

lemma ps_end_frame:
  assumes "ps_end s" and "unacked_of (term_pc s') = unacked_of (term_pc s)"
    and "queue_drained (term_pc s') \<longrightarrow> queue_drained (term_pc s) \<and> chan_items (pp_buffer (ps s')) = chan_items (pp_buffer (ps s))"
  shows "ps_end s'"
  using assms by (simp add: ps_end_def)

lemma ps_end_step:
  assumes "ps_step False s s'" and "ps_buf cap s" and "ps_agree s" and "ps_drained s" and "ps_end s"
  shows "ps_end s'"
  using assms
proof (induction rule: ps_step.induct)
  case (buffered_publish s t p)
  have "\<not> chan_closed (pp_buffer (ps s))"
    using buffered_publish.hyps(3)
    by (auto simp: pp_publish_buffered_def pp_buffer_write_def chan_send_def split: if_splits)
  then have "\<not> queue_drained (term_pc s)" using buffered_publish.prems(1) by (cases "term_pc s") (auto simp: ps_buf_def)
  then show ?case by - (rule ps_end_frame [OF buffered_publish.prems(4)]; simp)
next
  case (send_add s t a p)
  then show ?case
    by - (rule ps_end_frame [OF send_add.prems(4)]; auto simp: addCorrelationContext_def split: option.splits)
next
  case (send_popped s pub c)
  then show ?case using ps_buf_running [OF send_popped.prems(1)] by (cases "term_pc s") (auto simp: ps_end_def)
next
  case (send_popped_failed s info pub c)
  then show ?case using ps_buf_running [OF send_popped_failed.prems(1)] by (cases "term_pc s") (auto simp: ps_end_def)
next
  case (term_drained s n c)
  then show ?case by (auto simp: ps_end_def chan_recv_def split: list.splits if_splits)
next
  case (term_table s n m p)
  then have "correlationMap (ps s) = []" by (simp add: ps_drained_def)
  with drainAckTable_eqs(7) [OF term_table.hyps(2)] term_table show ?case by (simp add: ps_end_def)
next
  case (direct_add t s a p)
  then show ?case by (simp add: ps_buf_def)
next
  case (term_remove s)
  then show ?case by (simp add: ps_buf_def ps_end_def)
qed (rule ps_end_frame, assumption;
    auto simp: removeCorrelationContext_def finish_eqs resolve_eqs dest!: request_eq ack_finish_eq)+

text \<open>All of them together.\<close>

definition ps_inv :: "nat \<Rightarrow> ps_sys \<Rightarrow> bool" where
  "ps_inv cap s \<longleftrightarrow> ps_buf cap s \<and> ps_agree s \<and> ps_tasks s \<and> ps_table s \<and> ps_unsent s \<and> ps_ack s \<and> ps_drained s \<and>
     ps_tokens s \<and> ps_chans s \<and> ps_end s"

lemma ps_inv_init: "cfg \<noteq> backpressureConfigurationDirect \<Longrightarrow> ps_inv cap (ps_init cfg cap receipts readiness)"
  using buf_inv_init [of cap, where 'a = persistentTask]
  by (simp add: ps_inv_def ps_init_def persistent_construct_def ps_buf_def ps_agree_def ps_tasks_def ps_table_def
      ps_unsent_def ps_ack_def ps_drained_def ps_tokens_def ps_chans_def ps_end_def place_defs live_tasks_def queued_tasks_def)
    (simp add: make_chan_def chan_wf_def buf_init_def NewChannelBasedPublisherTaskBuffer_def)

lemma ps_inv_step: "ps_step False s s' \<Longrightarrow> ps_inv cap s \<Longrightarrow> ps_inv cap s'"
  unfolding ps_inv_def
  using ps_buf_step [of s s' cap] ps_agree_step [of s s' cap] ps_tasks_step [of s s' cap] ps_table_step [of s s' cap]
    ps_unsent_step [of s s' cap] ps_ack_step [of s s' cap] ps_drained_step [of s s' cap] ps_tokens_step [of s s' cap]
    ps_chans_step [of s s' cap] ps_end_step [of s s' cap]
  by blast

lemma ps_steps_inv:
  assumes "(ps_step False)\<^sup>*\<^sup>* (ps_init cfg cap receipts readiness) s" and "cfg \<noteq> backpressureConfigurationDirect"
  shows "ps_inv cap s"
  using assms(1) by (induction rule: rtranclp_induct) (use ps_inv_init [OF assms(2)] ps_inv_step in blast)+

lemma distinct_concat_disjoint:
  "distinct (concat (map f xs)) \<Longrightarrow> x \<in> set xs \<Longrightarrow> y \<in> set xs \<Longrightarrow> x \<noteq> y \<Longrightarrow> set (f x) \<inter> set (f y) = {}"
  by (induction xs) auto

lemma unresolved_resolvable:
  assumes "ps_inv cap s" and "\<not> is_done (term_pc s)" and "ctx \<in> set (tabled_ctxs s @ waiting_ctxs s @ failing_ctxs s)"
  shows "\<exists>p. resolve persisted err ctx (ps s) = Return p"
proof -
  have tok: "mset (map task_context (accepted_tasks s)) =
      mset (resolved_ctxs s) + mset (tabled_ctxs s @ waiting_ctxs s @ failing_ctxs s)"
    using assms(1) by (simp add: ps_inv_def ps_tokens_def)
  have d: "distinct (map task_context (accepted_tasks s))" using assms(1) by (simp add: ps_inv_def ps_tasks_def)
  obtain t where t: "t \<in> set (accepted_tasks s)" "ctx = task_context t"
    using tok assms(3) by (metis imageE list.set_map set_mset_mset union_iff)
  have ctx: "ctx \<notin> set (resolved_ctxs s)"
    using d tok assms(3) by (metis distinct_append disjoint_iff mset_append mset_eq_imp_distinct_iff)
  have sub: "set (resolved_ctxs s) \<subseteq> task_context ` set (accepted_tasks s)"
    using tok by (metis list.set_map mset_subset_eq_add_left set_mset_mono set_mset_mset)
  have bd: "distinct (concat (map ctx_blockers (map task_context (accepted_tasks s))))"
    using assms(1) by (simp add: ps_inv_def ps_chans_def)
  have "blockers (ps s) b = make_chan 1" if b: "b \<in> set (ctx_blockers ctx)" for b
  proof -
    have "b \<notin> set (ctx_blockers c)" if c: "c \<in> set (resolved_ctxs s)" for c
      using distinct_concat_disjoint [OF bd, of ctx c] b c ctx t sub by auto
    then show ?thesis using assms(1) by (simp add: ps_inv_def ps_chans_def)
  qed
  moreover have "distinct (ctx_blockers ctx)" by (cases ctx) simp_all
  ultimately have "resolvable [ctx] (ps s)" using assms(1,2) by (simp add: resolvable_def ps_inv_def ps_chans_def)
  then show ?thesis by (rule resolve_ok) blast
qed

text \<open>The signal for which \<^verbatim>\<open>Terminate\<close> waits is not lost.\<close>

definition ps_signal :: "ps_sys \<Rightarrow> bool" where
  "ps_signal s \<longleftrightarrow>
     (\<not> is_done (term_pc s) \<and> term_pc s \<noteq> TermIdle \<longrightarrow> lc_state (pp_lifecycle (ps s)) = Terminating) \<and>
     (\<forall>n. term_pc s = TermWait (Suc n) \<longrightarrow> correlationMap (ps s) = [] \<longrightarrow> correlationComplete (ps s))"

lemma ps_signal_frame:
  assumes "ps_signal s" and "is_done (term_pc s') \<or> lc_state (pp_lifecycle (ps s')) = lc_state (pp_lifecycle (ps s))"
    and "term_pc s' \<noteq> TermIdle \<longrightarrow> is_done (term_pc s') \<or> \<not> is_done (term_pc s) \<and> term_pc s \<noteq> TermIdle"
    and "\<And>n. term_pc s' = TermWait (Suc n) \<Longrightarrow> term_pc s = TermWait (Suc n)"
    and "correlationMap (ps s') = correlationMap (ps s)" and "correlationComplete (ps s') = correlationComplete (ps s)"
  shows "ps_signal s'"
  using assms unfolding ps_signal_def by metis

lemma ps_signal_step:
  assumes "ps_step False s s'" and "ps_buf cap s" and "ps_agree s" and "ps_drained s" and "ps_signal s"
  shows "ps_signal s'"
  using assms
proof (induction rule: ps_step.induct)
  case (buffered_publish s t p)
  from buffered_publish.prems(1,2) buffered_publish.hyps(3) show ?case
    by (cases rule: buffered_publish_cases) (rule ps_signal_frame [OF buffered_publish.prems(4)]; auto)+
next
  case (send_add s t a p)
  then have "\<not> buffer_done (term_pc s)" by (cases "term_pc s") (auto simp: ps_buf_def dest: not_running_exit)
  then have "term_pc s \<noteq> TermWait n" for n by auto
  with send_add show ?case by (auto simp: ps_signal_def addCorrelationContext_def split: option.splits)
next
  case (send_delete s t isFull err)
  then have "\<not> buffer_done (term_pc s)" by (cases "term_pc s") (auto simp: ps_buf_def dest: not_running_exit)
  then have "term_pc s \<noteq> TermWait n" for n by auto
  with send_delete show ?case by (auto simp: ps_signal_def removeCorrelationContext_def)
next
  case (ack_delete s mid p)
  then show ?case using ack_finish_eq [OF ack_delete.hyps(2)] by (auto simp: ps_signal_def ps_drained_def)
next
  case (term_begin s ev ev' p)
  then have "pp_config (ps s) \<noteq> backpressureConfigurationDirect" by (simp add: ps_buf_def)
  from Terminate_begin_eq [OF term_begin.hyps(2) this] obtain l c where
    p: "p = (ps s)\<lparr>pp_lifecycle := l, pp_interrupt := c,
            pp_tasks := (pp_tasks (ps s))\<lparr>buf := (buf (pp_tasks (ps s)))\<lparr>terminateGraceful := True\<rparr>\<rparr>\<rparr>"
    "lc_state l = Terminating" by metis
  then show ?case by (simp add: ps_signal_def)
next
  case (term_request s n p)
  then show ?case using request_eq [OF term_request.hyps(2)] by (auto simp: ps_signal_def)
next
  case (term_table s n m p)
  then have "correlationMap (ps s) = []" by (simp add: ps_drained_def)
  with drainAckTable_eqs(7) [OF term_table.hyps(2)] term_table show ?case by (simp add: ps_signal_def)
next
  case (send_interrupted s t)
  then show ?case by (simp add: ps_buf_def)
next
  case (direct_add t s a p)
  then show ?case by (simp add: ps_buf_def)
next
  case (direct_failed t s)
  then show ?case by (simp add: ps_buf_def)
next
  case (term_finish s n m err p p')
  then show ?case by (simp add: ps_signal_def)
next
  case (term_close s c)
  then show ?case by (simp add: ps_signal_def)
next
  case (term_drained s n c)
  then show ?case by (simp add: ps_signal_def)
qed (rule ps_signal_frame, assumption; auto simp: resolve_eqs split: if_splits)+

lemma ps_steps_signal:
  assumes "(ps_step False)\<^sup>*\<^sup>* (ps_init cfg cap receipts readiness) s" and "cfg \<noteq> backpressureConfigurationDirect"
  shows "ps_signal s"
  using assms(1)
proof (induction rule: rtranclp_induct)
  case base
  then show ?case by (simp add: ps_signal_def ps_init_def)
next
  case (step s s')
  then have "ps_inv cap s" using ps_steps_inv [OF _ assms(2)] by blast
  with step show ?case using ps_signal_step [of s s' cap] by (simp add: ps_inv_def)
qed

section \<open>Properties of the buffered publisher\<close>

text \<open>
  C2. Every message of a buffered publisher is resolved exactly once. Whatever the order in which publishing callers,
  the send tasks, acknowledgements and a \<^verbatim>\<open>Terminate\<close> with an unlimited grace period run, no context is resolved
  twice, and only contexts of accepted messages are; no acknowledgement panics, and one that has found the context of a
  caller that waits (\<^verbatim>\<open>PublishAwaitAcknowledgement\<close>) hands the outcome over without blocking. While \<^verbatim>\<open>Terminate\<close> waits for the
  table to drain, it is told when the table is empty. When it returns, no acknowledgement is missing and the contexts of all accepted messages
  have been resolved. The executor of the callbacks is not a goroutine of this system: \<^verbatim>\<open>Submit\<close> is the step of an unbounded
  queue. In the code it can block, even for ever (\<open>executor_deadlock\<close> in theory \<open>Executor\<close>), and an acknowledgement of a message with a receipt listener then hangs in
  it. So nothing is said about the progress of such acknowledgements, nor that \<^verbatim>\<open>Terminate\<close> returns; a step that is only delayed leaves
  the statements on the states that are reached as they are.
\<close>

theorem persistent_exactly_once:
  assumes "(ps_step False)\<^sup>*\<^sup>* (ps_init cfg cap receipts readiness) s" and "cfg \<noteq> backpressureConfigurationDirect"
  shows "distinct (map fst (resolutions (ps s))) \<and>
    set (map fst (resolutions (ps s))) \<subseteq> task_context ` set (accepted_tasks s) \<and>
    ack_pc s \<noteq> AckPanicked \<and>
    (\<forall>mid persisted err m b. ack_pc s = AckResolve mid persisted err (blockingCorrelationContext m b) \<longrightarrow>
       (\<exists>p. resolve persisted err (blockingCorrelationContext m b) (ps s) = Return p)) \<and>
    (\<forall>n. term_pc s = TermWait (Suc n) \<and> correlationMap (ps s) = [] \<longrightarrow> correlationComplete (ps s)) \<and>
    (\<forall>n m. term_pc s = TermDone n m \<longrightarrow>
       m = 0 \<and> mset (map fst (resolutions (ps s))) = mset (map task_context (accepted_tasks s)))"
proof -
  have inv: "ps_inv cap s" by (rule ps_steps_inv [OF assms])
  then have tok: "mset (map task_context (accepted_tasks s)) =
      mset (resolved_ctxs s) + mset (tabled_ctxs s @ waiting_ctxs s @ failing_ctxs s)"
    by (simp add: ps_inv_def ps_tokens_def)
  have d: "distinct (map task_context (accepted_tasks s))" using inv by (simp add: ps_inv_def ps_tasks_def)
  have 1: "distinct (resolved_ctxs s)" using d tok by (metis distinct_append mset_append mset_eq_imp_distinct_iff)
  have 2: "set (resolved_ctxs s) \<subseteq> task_context ` set (accepted_tasks s)"
    using tok by (metis list.set_map mset_subset_eq_add_left set_mset_mono set_mset_mset)
  have 3: "ack_pc s \<noteq> AckPanicked" using inv by (auto simp: ps_inv_def ps_ack_def)
  have 4: "\<exists>p. resolve persisted err ctx (ps s) = Return p" if a: "ack_pc s = AckResolve mid persisted err ctx"
    for mid persisted err ctx
  proof (rule unresolved_resolvable [OF inv])
    have tab: "(mid, ctx) \<in> set (correlationMap (ps s))" using inv a by (simp add: ps_inv_def ps_ack_def)
    then show "\<not> is_done (term_pc s)" using inv by (cases "term_pc s") (auto simp: ps_inv_def ps_drained_def)
    from tab have "ctx \<in> set (tabled_ctxs s)" using a by (force simp: tabled_ctxs_def)
    then show "ctx \<in> set (tabled_ctxs s @ waiting_ctxs s @ failing_ctxs s)" by simp
  qed
  have 5: "correlationComplete (ps s)" if "term_pc s = TermWait (Suc n)" "correlationMap (ps s) = []" for n
    using ps_steps_signal [OF assms] that by (simp add: ps_signal_def)
  have 6: "m = 0 \<and> mset (resolved_ctxs s) = mset (map task_context (accepted_tasks s))" if "term_pc s = TermDone n m" for n m
  proof -
    have "send_pc s = SendAdd" using not_sending [of cap s] inv that by (simp add: ps_inv_def)
    then have "tabled_ctxs s @ waiting_ctxs s @ failing_ctxs s = []"
      using inv that by (simp add: ps_inv_def ps_drained_def ps_end_def place_defs)
    with tok inv that show ?thesis by (simp add: ps_inv_def ps_end_def)
  qed
  from 1 2 3 4 5 6 show ?thesis by blast
qed

lemma first_publish:
  "ps_step False (ps_init backpressureConfigurationWait 1 True False)
     ((ps_init backpressureConfigurationWait 1 True False)
       \<lparr>ps := snd (hd (pp_publish_buffered (sendTask 7 ''t'' 1 (Some (blockingCorrelationContext 7 0)))
           (ps (ps_init backpressureConfigurationWait 1 True False)))),
        accepted_tasks := [sendTask 7 ''t'' 1 (Some (blockingCorrelationContext 7 0))]\<rparr>)"
  using buffered_publish [of "ps_init backpressureConfigurationWait 1 True False"
      "sendTask 7 ''t'' 1 (Some (blockingCorrelationContext 7 0))" _ False]
  by (simp add: ps_init_def persistent_construct_def fresh_def all_tasks_def sendTask_def pp_publish_buffered_def
      pp_buffer_write_def chan_send_def make_chan_def)

theorem persistent_exactly_once_witness:
  "\<exists>s. (ps_step False)\<^sup>*\<^sup>* (ps_init backpressureConfigurationWait 1 True False) s \<and>
     map task_messageID (accepted_tasks s) = [1] \<and> distinct (map fst (resolutions (ps s))) \<and> ack_pc s \<noteq> AckPanicked"
proof -
  let ?s = "(ps_init backpressureConfigurationWait 1 True False)
       \<lparr>ps := snd (hd (pp_publish_buffered (sendTask 7 ''t'' 1 (Some (blockingCorrelationContext 7 0)))
           (ps (ps_init backpressureConfigurationWait 1 True False)))),
        accepted_tasks := [sendTask 7 ''t'' 1 (Some (blockingCorrelationContext 7 0))]\<rparr>"
  have run: "(ps_step False)\<^sup>*\<^sup>* (ps_init backpressureConfigurationWait 1 True False) ?s"
    using first_publish by (rule r_into_rtranclp)
  from persistent_exactly_once [OF run] have "distinct (map fst (resolutions (ps ?s)))" "ack_pc ?s \<noteq> AckPanicked" by simp_all
  with run show ?thesis by (intro exI [of _ ?s]) (simp add: sendTask_def)
qed

section \<open>Runs of the unbuffered publisher\<close>

text \<open>A scheduler for the steps of an unbuffered publisher, to compute runs.\<close>

datatype ps_move =
    Check persistentTask
  | Add persistentTask
  | Sent persistentTask
  | Fail persistentTask
  | Ack u64 bool "go_error option"
  | AckNext
  | TermNext

fun move_ack :: "ps_sys \<Rightarrow> ps_sys option" where
  "move_ack s =
     (case ack_pc s of
        AckResolve mid persisted err ctx \<Rightarrow>
          (case resolve persisted err ctx (ps s) of Return p \<Rightarrow> Some (s\<lparr>ps := p, ack_pc := AckDelete mid\<rparr>) | _ \<Rightarrow> None)
      | AckDelete mid \<Rightarrow>
          (case ack_finish mid (ps s) of
             Return p \<Rightarrow> Some (s\<lparr>ps := p, ack_pc := AckIdle\<rparr>)
           | Panics e \<Rightarrow> Some (s\<lparr>ack_pc := AckPanicked\<rparr>)
           | Blocks \<Rightarrow> None)
      | _ \<Rightarrow> None)"

fun move_term :: "bool \<Rightarrow> ps_sys \<Rightarrow> ps_sys option" where
  "move_term timed s =
     (case term_pc s of
        TermIdle \<Rightarrow>
          (case persistent_Terminate_begin newCcsmpEvents (ps s) of
             Return (Proceed, ev, p) \<Rightarrow> Some (s\<lparr>ps := p, term_pc :=
               (if pp_config p = backpressureConfigurationDirect then TermRequest else TermBuffer)\<rparr>)
           | _ \<Rightarrow> None)
      | TermRequest \<Rightarrow>
          (case request_correlate_complete (ps s) of Return (n, p) \<Rightarrow> Some (s\<lparr>ps := p, term_pc := TermWait n\<rparr>) | _ \<Rightarrow> None)
      | TermWait n \<Rightarrow>
          (case await_correlate_complete timed n (ps s) of [] \<Rightarrow> None | g # gs \<Rightarrow> Some (s\<lparr>term_pc := TermRemove\<rparr>))
      | TermRemove \<Rightarrow>
          Some (s\<lparr>term_pc := (if pp_config (ps s) = backpressureConfigurationDirect then TermTable 0 else TermClose)\<rparr>)
      | TermTable n \<Rightarrow>
          (case drainAckTable terminated_err (ps s) of Return (m, p) \<Rightarrow> Some (s\<lparr>ps := p, term_pc := TermFinish n m\<rparr>) | _ \<Rightarrow> None)
      | TermFinish n m \<Rightarrow>
          (case pp_undelivered_error n m (ps s) of
             (err, p) \<Rightarrow> (case pp_finish err p of Return p' \<Rightarrow> Some (s\<lparr>ps := p', term_pc := TermDone n m\<rparr>) | _ \<Rightarrow> None))
      | _ \<Rightarrow> None)"

fun move :: "bool \<Rightarrow> ps_move \<Rightarrow> ps_sys \<Rightarrow> ps_sys option" where
  "move timed (Check t) s =
     (if pp_config (ps s) = backpressureConfigurationDirect \<and> fresh t s \<and>
         checkStartedStateForPublish (pp_lifecycle (ps s)) = None
      then Some (s\<lparr>entered := entered s @ [t]\<rparr>) else None)"
| "move timed (Add t) s =
     (if t \<in> set (entered s)
      then Some (s\<lparr>ps := snd (addCorrelationContext (task_messageID t) (task_ctx t) (ps s)),
                   entered := remove1 t (entered s), sending := sending s @ [t]\<rparr>)
      else None)"
| "move timed (Sent t) s =
     (if t \<in> set (sending s)
      then Some (s\<lparr>sending := remove1 t (sending s), accepted_tasks := accepted_tasks s @ [t],
                   sent_ids := insert (task_messageID t) (sent_ids s)\<rparr>)
      else None)"
| "move timed (Fail t) s =
     (if t \<in> set (sending s)
      then Some (s\<lparr>ps := removeCorrelationContext (task_messageID t) (ps s), sending := remove1 t (sending s)\<rparr>)
      else None)"
| "move timed (Ack mid persisted err) s =
     (if ack_pc s = AckIdle \<and> handler_registered (term_pc s) \<and> mid \<in> sent_ids s - acked_ids s
      then Some (s\<lparr>acked_ids := insert mid (acked_ids s),
                   ack_pc := (case map_of (correlationMap (ps s)) mid of
                                Some ctx \<Rightarrow> AckResolve mid persisted err ctx | None \<Rightarrow> AckIdle)\<rparr>)
      else None)"
| "move timed AckNext s = move_ack s"
| "move timed TermNext s = move_term timed s"

primrec moves :: "bool \<Rightarrow> ps_move list \<Rightarrow> ps_sys \<Rightarrow> ps_sys option" where
  "moves timed [] s = Some s"
| "moves timed (m # ms) s = (case move timed m s of None \<Rightarrow> None | Some s' \<Rightarrow> moves timed ms s')"

lemma move_ack_step: "move_ack s = Some s' \<Longrightarrow> ps_step timed s s'"
  by (auto split: ack_pc.splits outcome.splits intro: ps_step.intros)

lemma move_term_step: "move_term timed s = Some s' \<Longrightarrow> ps_step timed s s'"
  by (auto split: term_pc.splits outcome.splits proceed.splits list.splits prod.splits simp del: if_split
      intro: term_begin [simplified] term_request term_wait term_remove term_table term_finish)

lemma move_step: "move timed m s = Some s' \<Longrightarrow> ps_step timed s s'"
proof (cases m)
  case (Add t)
  moreover assume "move timed m s = Some s'"
  ultimately show ?thesis
    using direct_add [of t s _ "snd (addCorrelationContext (task_messageID t) (task_ctx t) (ps s))" timed]
    by (cases "addCorrelationContext (task_messageID t) (task_ctx t) (ps s)") (auto split: if_splits)
next
  case (Ack mid persisted err)
  moreover assume "move timed m s = Some s'"
  ultimately show ?thesis using ack_start [of s mid timed persisted err] by (auto split: if_splits)
qed (auto simp del: move_ack.simps move_term.simps split: if_splits
      intro: direct_check direct_sent direct_failed move_ack_step move_term_step)

lemma moves_run: "moves timed ms s = Some s' \<Longrightarrow> (ps_step timed)\<^sup>*\<^sup>* s s'"
  by (induction ms arbitrary: s) (auto split: option.splits intro: converse_rtranclp_into_rtranclp move_step)

lemma moves_exist: "\<exists>s. moves timed ms s0 = Some s \<and> P s \<Longrightarrow> \<exists>s. (ps_step timed)\<^sup>*\<^sup>* s0 s \<and> P s"
  using moves_run by blast

definition task1 :: persistentTask where
  "task1 = \<lparr>task_message = 7, task_destination = ''t'', task_messageID = 1, task_ctx = Some (callbackCorrelationContext 7 None)\<rparr>"

definition task2 :: persistentTask where
  "task2 = \<lparr>task_message = 8, task_destination = ''t'', task_messageID = 2, task_ctx = Some (blockingCorrelationContext 8 0)\<rparr>"

abbreviation unbuffered_init :: ps_sys where
  "unbuffered_init \<equiv> ps_init backpressureConfigurationDirect 0 False False"

lemmas moves_simps = ps_init_def persistent_construct_def task1_def task2_def fresh_def all_tasks_def task_context_def
  checkStartedStateForPublish_def started_def addCorrelationContext_def removeCorrelationContext_def resolve_def
  ack_finish_def signal_close_def persistent_Terminate_begin_def publisher_terminate_def terminate_def CompareAndSwap_def
  request_correlate_complete_def await_correlate_complete_def drainAckTable_def chan_send_def make_chan_def Let_def
  pp_undelivered_error_def pp_finish_def Terminate_def NewExecutor_def defaultSize_def chan_close_def

text \<open>
  A late publish makes an acknowledgement panic. On an unbuffered publisher a caller passes the check of the state
  just before \<^verbatim>\<open>Terminate\<close> begins. \<^verbatim>\<open>Terminate\<close> asks to be told when the table is empty, the
  acknowledgement of an earlier message empties it and closes the signal; then the caller adds its context and sends
  its message, and the acknowledgement of that message empties the table again and closes the closed signal.
\<close>

theorem late_publish_panics:
  "\<exists>s. (ps_step timed)\<^sup>*\<^sup>* unbuffered_init s \<and> ack_pc s = AckPanicked \<and>
     accepted_tasks s = [task1, task2]"
proof -
  have "\<exists>s. moves timed [Check task1, Check task2, Add task1, Sent task1, TermNext, TermNext, Ack 1 True None, AckNext, AckNext,
      Add task2, Sent task2, Ack 2 True None, AckNext, AckNext] unbuffered_init = Some s \<and>
      ack_pc s = AckPanicked \<and> accepted_tasks s = [task1, task2]"
    by (simp add: moves_simps)
  then show ?thesis by (rule moves_exist)
qed

text \<open>
  A state in which \<^verbatim>\<open>Terminate\<close> waits for the table to drain, nothing is in flight that could tell it, and
  no new publish is let in.
\<close>

definition forgotten :: "ps_sys \<Rightarrow> bool" where
  "forgotten s \<longleftrightarrow> pp_config (ps s) = backpressureConfigurationDirect \<and> entered s = [] \<and> sending s = [] \<and>
     send_pc s = SendAdd \<and> buf_pc (pp_tasks (ps s)) = BufTop \<and> ack_pc s = AckIdle \<and> sent_ids s \<subseteq> acked_ids s \<and>
     lc_state (pp_lifecycle (ps s)) = Terminating \<and> \<not> correlationComplete (ps s) \<and> term_pc s = TermWait 1"

definition waits_forever :: "ps_sys \<Rightarrow> bool" where
  "waits_forever s \<longleftrightarrow> (\<forall>s'. (ps_step False)\<^sup>*\<^sup>* s s' \<longrightarrow> term_pc s' = TermWait 1)"

lemma forgotten_step: "ps_step False s s' \<Longrightarrow> forgotten s \<Longrightarrow> forgotten s'"
  by (induction rule: ps_step.induct)
    (auto simp: forgotten_def checkStartedStateForPublish_def await_correlate_complete_def)

lemma forgotten_forever:
  assumes "forgotten s"
  shows "waits_forever s"
proof -
  have "(ps_step False)\<^sup>*\<^sup>* s s' \<Longrightarrow> forgotten s'" for s'
    by (induction rule: rtranclp_induct) (use assms forgotten_step in blast)+
  then show ?thesis by (auto simp: waits_forever_def forgotten_def)
qed

text \<open>
  A failed publish can make \<^verbatim>\<open>Terminate\<close> wait for ever. On an unbuffered publisher, \<^verbatim>\<open>Terminate\<close> with an
  unlimited grace period finds the context of a message that is being sent and waits for the table to drain; the C
  library refuses the message, and the publish removes its context without a signal. The table is empty, nothing is
  outstanding, and the termination never goes on.
\<close>

theorem failed_publish_blocks_termination:
  "\<exists>s. (ps_step False)\<^sup>*\<^sup>* unbuffered_init s \<and> correlationMap (ps s) = [] \<and> accepted_tasks s = [] \<and> waits_forever s"
proof -
  have "\<exists>s. moves False [Check task1, Add task1, TermNext, TermNext, Fail task1] unbuffered_init = Some s \<and>
      correlationMap (ps s) = [] \<and> accepted_tasks s = [] \<and> forgotten s"
    by (simp add: moves_simps forgotten_def buf_init_def)
  then have "\<exists>s. moves False [Check task1, Add task1, TermNext, TermNext, Fail task1] unbuffered_init = Some s \<and>
      correlationMap (ps s) = [] \<and> accepted_tasks s = [] \<and> waits_forever s"
    using forgotten_forever by blast
  then show ?thesis by (rule moves_exist)
qed

text \<open>
  A termination that times out may resolve an acknowledged message again. \<^verbatim>\<open>ackHandler\<close> resolves the context it
  found before it deletes it from the table, without the lock; when the timer of \<^verbatim>\<open>Terminate\<close> fires in between, the
  table is drained with the context still in it. The message is reported as persisted and then as failed,
  and counted as unacknowledged.
\<close>

theorem acknowledged_message_reported_failed:
  "\<exists>s. (ps_step True)\<^sup>*\<^sup>* unbuffered_init s \<and> term_pc s = TermDone 0 1 \<and> accepted_tasks s = [task1] \<and>
     resolutions (ps s) = [(task_context task1, True, None), (task_context task1, False, terminated_err)]"
proof -
  have "\<exists>s. moves True [Check task1, Add task1, Sent task1, Ack 1 True None, AckNext, TermNext, TermNext, TermNext, TermNext,
      TermNext, TermNext] unbuffered_init = Some s \<and> term_pc s = TermDone 0 1 \<and> accepted_tasks s = [task1] \<and>
      resolutions (ps s) = [(task_context task1, True, None), (task_context task1, False, terminated_err)]"
    by (simp add: moves_simps)
  then show ?thesis by (rule moves_exist)
qed

text \<open>
  With a caller that has stopped waiting, this blocks the publisher. When the context that is resolved twice
  belongs to a \<^verbatim>\<open>PublishAwaitAcknowledgement\<close> whose caller does not take the result (it has timed out), the second
  send blocks \<^verbatim>\<open>drainAckTable\<close>, which holds the lock of the table: the acknowledgement thread cannot delete the
  context, and neither call ever returns.
\<close>

theorem timed_out_caller_blocks_termination:
  "\<exists>s. (ps_step True)\<^sup>*\<^sup>* unbuffered_init s \<and> term_pc s = TermTable 0 \<and> ack_pc s = AckDelete 2 \<and>
     drainAckTable terminated_err (ps s) = Blocks"
proof -
  have "\<exists>s. moves True [Check task2, Add task2, Sent task2, Ack 2 True None, AckNext, TermNext, TermNext, TermNext, TermNext]
      unbuffered_init = Some s \<and> term_pc s = TermTable 0 \<and> ack_pc s = AckDelete 2 \<and>
     drainAckTable terminated_err (ps s) = Blocks"
    by (simp add: moves_simps)
  then show ?thesis by (rule moves_exist)
qed

end
