(* ===== verification/Request_Publisher.thy ===== *)
theory Request_Publisher
  imports Persistent_Publisher
begin

text \<open>
  The request-reply message publisher (\<^verbatim>\<open>internal/impl/publisher/request_reply_message_publisher_impl.go\<close>). A
  request is sent like a direct message, with the publisher's own reply topic and a correlation identifier. An entry
  in a table holds two channels for it: one tells the waiting side that the request has been sent, the other carries
  the reply. The closure that \<^verbatim>\<open>publish\<close> returns waits for both, with a time limit, calls the reply handler and removes
  the entry; \<^verbatim>\<open>PublishAwaitResponse\<close> runs it itself, the other calls run it on a goroutine.

  What the publisher shares with the direct publisher (life cycle, message buffer, task buffer, event executor) is
  the record of \<^verbatim>\<open>Direct_Publisher\<close>. Messages are numbers; \<open>message_correlation\<close> is the correlation identifier that
  a message carries. \<open>entries\<close> maps an identifier to its entry, which the closure keeps using after it has left the
  table; the table is the list of identifiers. \<open>handler_calls\<close> is the history of the calls of reply handlers.
\<close>

section \<open>State\<close>

definition RequestReplyPublisherCannotReceiveReplyAlreadyTerminated :: string where
  "RequestReplyPublisherCannotReceiveReplyAlreadyTerminated =
     ''publisher has been terminated, no reply messages to receive''"

definition RequestReplyPublisherTimedOutWaitingForReply :: string where
  "RequestReplyPublisherTimedOutWaitingForReply = ''timed out waiting for reply message for request publish''"

definition MissingReplyMessageHandler :: string where
  "MissingReplyMessageHandler = ''got nil ReplyMessageHandler, ReplyMessageHandler is required for Publish''"

record correlationEntryImpl =
  entry_userContext :: "nat option"
  entry_handler :: bool
  entry_timeout :: int
  entry_received :: bool
  entry_result :: "Repliable chan"
  entry_sentChan :: "go_error option chan"

record request_publisher =
  rq_base :: direct_publisher
  rq_messageID :: u64
  replyToTopic :: string
  entries :: "string \<Rightarrow> correlationEntryImpl"
  requestCorrelationMap :: "string list"
  rq_correlationComplete :: bool
  rq_requestCorrelateComplete :: bool
  message_correlation :: "nat \<rightharpoonup> string"
  rq_disposed :: "nat list"
  disposed_replies :: "Repliable list"
  handler_calls :: "(string \<times> nat option \<times> Repliable option \<times> go_error option) list"

definition entry_construct :: "nat option \<Rightarrow> int \<Rightarrow> bool \<Rightarrow> correlationEntryImpl" where
  "entry_construct user timeout handler =
     \<lparr>entry_userContext = user, entry_handler = handler, entry_timeout = timeout, entry_received = False,
      entry_result = make_chan 1, entry_sentChan = make_chan 1\<rparr>"

definition request_construct :: "backpressureConfiguration \<Rightarrow> nat \<Rightarrow> request_publisher" where
  "request_construct cfg bufferSize =
     \<lparr>rq_base = direct_construct cfg bufferSize, rq_messageID = 0, replyToTopic = [],
      entries = (\<lambda>i. entry_construct None 0 False), requestCorrelationMap = [], rq_correlationComplete = False,
      rq_requestCorrelateComplete = False, message_correlation = Map.empty, rq_disposed = [], disposed_replies = [],
      handler_calls = []\<rparr>"

definition ReplyTerminated :: go_error where
  "ReplyTerminated = IllegalState RequestReplyPublisherCannotReceiveReplyAlreadyTerminated"

definition ReplyTimeout :: go_error where
  "ReplyTimeout = NewError TimeoutError RequestReplyPublisherTimedOutWaitingForReply [] None"

section \<open>Correlation entries\<close>

definition createReplyCorrelation ::
    "nat option \<Rightarrow> int \<Rightarrow> bool \<Rightarrow> request_publisher \<Rightarrow> string \<times> request_publisher" where
  "createReplyCorrelation user timeout handler p =
     (let ((n, correlationID), counter) = next_correlation_id (rq_messageID p)
      in (correlationID,
          p\<lparr>rq_messageID := counter, entries := (entries p)(correlationID := entry_construct user timeout handler),
            requestCorrelationMap := List.insert correlationID (requestCorrelationMap p)\<rparr>))"

text \<open>
  The idiom \<^verbatim>\<open>select { case <-c: default: close(c) }\<close>: the code takes a receive for a sign that the channel is closed,
  but a queued value is received as well, and then the channel stays open.
\<close>

definition close_unless_ready :: "'a chan \<Rightarrow> 'a chan outcome" where
  "close_unless_ready c =
     (case chan_recv c of
        Return (x, c') \<Rightarrow> Return c'
      | Blocks \<Rightarrow> chan_close c
      | Panics e \<Rightarrow> Panics e)"

definition signalRequestCorrelationSent ::
    "string \<Rightarrow> go_error option \<Rightarrow> request_publisher \<Rightarrow> request_publisher outcome" where
  "signalRequestCorrelationSent correlationID sentErr p =
     (if correlationID \<notin> set (requestCorrelationMap p) then Return p
      else outcome_bind (chan_send sentErr (entry_sentChan (entries p correlationID))) (\<lambda>c.
        Return (p\<lparr>entries := (entries p)(correlationID := (entries p correlationID)\<lparr>entry_sentChan := c\<rparr>)\<rparr>)))"

definition closeReplyCorrelation :: "string \<Rightarrow> request_publisher \<Rightarrow> request_publisher outcome" where
  "closeReplyCorrelation correlationID p =
     (if correlationID \<notin> set (requestCorrelationMap p) then Return p
      else
        let entry = entries p correlationID;
            p = p\<lparr>requestCorrelationMap := removeAll correlationID (requestCorrelationMap p)\<rparr>
        in outcome_bind (close_unless_ready (entry_result entry)) (\<lambda>r.
           outcome_bind (close_unless_ready (entry_sentChan entry)) (\<lambda>c.
             let p = p\<lparr>entries := (entries p)(correlationID := entry\<lparr>entry_result := r, entry_sentChan := c\<rparr>)\<rparr>
             in Return (if rq_requestCorrelateComplete p \<and> requestCorrelationMap p = []
                        then p\<lparr>rq_correlationComplete := True\<rparr> else p))))"

text \<open>
  \<^verbatim>\<open>handleReplyMessage\<close>: the result tells whether the publisher keeps the message. A send on a closed channel panics
  and is recovered.
\<close>

definition handleReplyMessage ::
    "Repliable \<Rightarrow> string \<Rightarrow> request_publisher \<Rightarrow> (bool \<times> request_publisher) outcome" where
  "handleReplyMessage msgP correlationID p =
     (if correlationID \<notin> set (requestCorrelationMap p) then Return (False, p)
      else if entry_received (entries p correlationID) then Return (False, p)
      else
        let entry = (entries p correlationID)\<lparr>entry_received := True\<rparr>
        in case chan_send msgP (entry_result entry) of
             Return c \<Rightarrow> Return (True, p\<lparr>entries := (entries p)(correlationID := entry\<lparr>entry_result := c\<rparr>)\<rparr>)
           | Panics e \<Rightarrow> Return (False, p\<lparr>entries := (entries p)(correlationID := entry)\<rparr>)
           | Blocks \<Rightarrow> Blocks)"

section \<open>The outcome of a request\<close>

text \<open>
  The closure of \<^verbatim>\<open>createReplyCorrelation\<close> in its parts: the wait for the request to be sent, the wait for the reply, the
  check of the table, and the end. The lists hold the possible results of a \<^verbatim>\<open>select\<close>.
\<close>

definition await_sent :: "string \<Rightarrow> request_publisher \<Rightarrow> (go_error option \<times> request_publisher) list" where
  "await_sent correlationID p =
     (case chan_recv (entry_sentChan (entries p correlationID)) of
        Return (Some sentErr, c) \<Rightarrow>
          [(sentErr, p\<lparr>entries := (entries p)(correlationID := (entries p correlationID)\<lparr>entry_sentChan := c\<rparr>)\<rparr>)]
      | Return (None, c) \<Rightarrow> [(Some ReplyTerminated, p)]
      | _ \<Rightarrow> [])
     @ (if rq_correlationComplete p then [(Some ReplyTerminated, p)] else [])"

definition await_reply ::
    "bool \<Rightarrow> string \<Rightarrow> request_publisher \<Rightarrow> (Repliable option \<times> go_error option \<times> request_publisher) list" where
  "await_reply timerFires correlationID p =
     (case chan_recv (entry_result (entries p correlationID)) of
        Return (Some msgP, c) \<Rightarrow>
          [(Some msgP, None, p\<lparr>entries := (entries p)(correlationID := (entries p correlationID)\<lparr>entry_result := c\<rparr>)\<rparr>)]
      | Return (None, c) \<Rightarrow> [(None, Some ReplyTerminated, p)]
      | _ \<Rightarrow> [])
     @ (if entry_timeout (entries p correlationID) \<ge> 0 \<and> timerFires then [(None, Some ReplyTimeout, p)] else [])
     @ (if rq_correlationComplete p then [(None, Some ReplyTerminated, p)] else [])"

definition check_tracked ::
    "string \<Rightarrow> Repliable option \<Rightarrow> go_error option \<Rightarrow> request_publisher
       \<Rightarrow> Repliable option \<times> go_error option \<times> request_publisher" where
  "check_tracked correlationID retMsg retErr p =
     (if retErr = None \<and> correlationID \<notin> set (requestCorrelationMap p)
      then (None, Some ReplyTerminated,
            case retMsg of Some m \<Rightarrow> p\<lparr>disposed_replies := disposed_replies p @ [m]\<rparr> | None \<Rightarrow> p)
      else (retMsg, retErr, p))"

definition call_handler ::
    "string \<Rightarrow> Repliable option \<Rightarrow> go_error option \<Rightarrow> request_publisher \<Rightarrow> request_publisher" where
  "call_handler correlationID retMsg retErr p =
     (let entry = entries p correlationID
      in if entry_handler entry
         then p\<lparr>handler_calls := handler_calls p @ [(correlationID, entry_userContext entry, retMsg, retErr)]\<rparr>
         else p)"

text \<open>The whole closure, run without interruption.\<close>

definition replyOutcome ::
    "bool \<Rightarrow> string \<Rightarrow> request_publisher \<Rightarrow> (Repliable option \<times> go_error option \<times> request_publisher) outcome list" where
  "replyOutcome timerFires correlationID p =
     (let dispatch = (\<lambda>(retMsg, retErr, p).
            outcome_bind (closeReplyCorrelation correlationID (call_handler correlationID retMsg retErr p)) (\<lambda>p.
              Return (retMsg, retErr, p)))
      in concat (map (\<lambda>(sentErr, p).
           case sentErr of
             Some e \<Rightarrow> [dispatch (None, Some e, p)]
           | None \<Rightarrow> map (\<lambda>(retMsg, retErr, p). dispatch (check_tracked correlationID retMsg retErr p))
                        (await_reply timerFires correlationID p))
         (await_sent correlationID p)))"

section \<open>Publishing\<close>

text \<open>
  \<^verbatim>\<open>publish\<close>, with the results of setting the destination, the reply topic and the correlation identifier and of the C
  library as arguments. It returns the error or the identifier whose closure the caller gets. The deferred function
  removes the entry on an error.
\<close>

definition fail_request ::
    "string \<Rightarrow> go_error \<Rightarrow> request_publisher \<Rightarrow> ((go_error + string) \<times> request_publisher) outcome" where
  "fail_request correlationID err p =
     outcome_bind (closeReplyCorrelation correlationID p) (\<lambda>p. Return (Inl err, p))"

definition request_send_direct ::
    "ErrorInfo option \<Rightarrow> nat \<Rightarrow> string \<Rightarrow> request_publisher \<Rightarrow> ((go_error + string) \<times> request_publisher) outcome" where
  "request_send_direct sent msg correlationID p =
     outcome_map (\<lambda>(r, p). (r, p\<lparr>rq_disposed := rq_disposed p @ [msg]\<rparr>))
       (case sent of
          None \<Rightarrow> outcome_bind (signalRequestCorrelationSent correlationID None p) (\<lambda>p. Return (Inr correlationID, p))
        | Some info \<Rightarrow>
            outcome_bind (signalRequestCorrelationSent correlationID
                (Some (ToNativeError info ''encountered error while publishing message: '')) p)
              (fail_request correlationID
                (if ReturnCode info = SolClientReturnCodeWouldBlock then Overflow else ToNativeError info [])))"

definition request_publish ::
    "go_error option \<Rightarrow> go_error option \<Rightarrow> (string \<Rightarrow> go_error option) \<Rightarrow> ErrorInfo option \<Rightarrow> nat \<Rightarrow> string \<Rightarrow>
       nat option \<Rightarrow> int \<Rightarrow> bool \<Rightarrow> request_publisher \<Rightarrow> ((go_error + string) \<times> request_publisher) outcome list" where
  "request_publish setDestination setReplyTo setCorrelationID sent msg dest user timeout handler p =
     (let disposing = p\<lparr>rq_disposed := rq_disposed p @ [msg]\<rparr>
      in case setDestination of
           Some err \<Rightarrow> [Return (Inl err, disposing)]
         | None \<Rightarrow>
         (case checkStartedStateForPublish (dp_lifecycle (rq_base p)) of
            Some err \<Rightarrow> [Return (Inl err, p)]
          | None \<Rightarrow>
          (case setReplyTo of
             Some err \<Rightarrow> [Return (Inl err, disposing)]
           | None \<Rightarrow>
               let (correlationID, p) = createReplyCorrelation user timeout handler p
               in case setCorrelationID correlationID of
                    Some err \<Rightarrow> [fail_request correlationID err (p\<lparr>rq_disposed := rq_disposed p @ [msg]\<rparr>)]
                  | None \<Rightarrow>
                      let p = p\<lparr>message_correlation := (message_correlation p)(msg \<mapsto> correlationID)\<rparr>
                      in if dp_config (rq_base p) = backpressureConfigurationDirect
                         then [request_send_direct sent msg correlationID p]
                         else map (\<lambda>(err, base).
                                case err of
                                  Some e \<Rightarrow> fail_request correlationID e (p\<lparr>rq_base := base\<rparr>)
                                | None \<Rightarrow> Return (Inr correlationID, p\<lparr>rq_base := base\<rparr>))
                              (publish_buffered \<lparr>pub_message = msg, pub_destination = dest\<rparr> (rq_base p)))))"

definition publishAsync ::
    "go_error option \<Rightarrow> go_error option \<Rightarrow> (string \<Rightarrow> go_error option) \<Rightarrow> ErrorInfo option \<Rightarrow> nat \<Rightarrow> string \<Rightarrow>
       nat option \<Rightarrow> int \<Rightarrow> bool \<Rightarrow> request_publisher \<Rightarrow> ((go_error + string) \<times> request_publisher) outcome list" where
  "publishAsync setDestination setReplyTo setCorrelationID sent msg dest user timeout handler p =
     (if \<not> handler then [Return (Inl (NewError IllegalArgumentError MissingReplyMessageHandler [] None), p)]
      else request_publish setDestination setReplyTo setCorrelationID sent msg dest user timeout handler p)"

text \<open>\<^verbatim>\<open>PublishBytes\<close> and \<^verbatim>\<open>PublishString\<close>: unlike \<^verbatim>\<open>Publish\<close>, they build the message before any check of the state.\<close>

definition request_PublishBuilt ::
    "go_error + nat \<Rightarrow> go_error option \<Rightarrow> go_error option \<Rightarrow> (string \<Rightarrow> go_error option) \<Rightarrow> ErrorInfo option \<Rightarrow> string \<Rightarrow>
       nat option \<Rightarrow> int \<Rightarrow> bool \<Rightarrow> request_publisher \<Rightarrow> ((go_error + string) \<times> request_publisher) outcome list" where
  "request_PublishBuilt built setDestination setReplyTo setCorrelationID sent dest user timeout handler p =
     (case built of
        Inl err \<Rightarrow> [Return (Inl err, p)]
      | Inr msg \<Rightarrow> publishAsync setDestination setReplyTo setCorrelationID sent msg dest user timeout handler p)"

definition duplicate_request ::
    "string option \<Rightarrow> go_error + nat \<Rightarrow> go_error option option \<Rightarrow> request_publisher
       \<Rightarrow> (go_error + nat) \<times> request_publisher" where
  "duplicate_request foreign duplicated setProperties p =
     (case checkStartedStateForPublish (dp_lifecycle (rq_base p)) of
        Some err \<Rightarrow> (Inl err, p)
      | None \<Rightarrow>
      (case foreign of
         Some backing \<Rightarrow> (Inl (NewError IllegalArgumentError InvalidOutboundMessageType [ArgStr backing] None), p)
       | None \<Rightarrow>
           (case duplicated of
              Inl err \<Rightarrow> (Inl err, p)
            | Inr msgDup \<Rightarrow>
                (case setProperties of
                   Some (Some err) \<Rightarrow> (Inl err, p\<lparr>rq_disposed := rq_disposed p @ [msgDup]\<rparr>)
                 | _ \<Rightarrow> (Inr msgDup, p)))))"

text \<open>\<^verbatim>\<open>Publish\<close>; and \<^verbatim>\<open>PublishAwaitResponse\<close> up to the closure, which has no handler.\<close>

definition request_Publish ::
    "string option \<Rightarrow> go_error + nat \<Rightarrow> go_error option option \<Rightarrow> go_error option \<Rightarrow> go_error option \<Rightarrow>
       (string \<Rightarrow> go_error option) \<Rightarrow> ErrorInfo option \<Rightarrow> string \<Rightarrow> nat option \<Rightarrow> int \<Rightarrow> bool \<Rightarrow> request_publisher \<Rightarrow>
       ((go_error + string) \<times> request_publisher) outcome list" where
  "request_Publish foreign duplicated setProperties setDestination setReplyTo setCorrelationID sent dest user timeout handler p =
     (case duplicate_request foreign duplicated setProperties p of
        (Inl err, p) \<Rightarrow> [Return (Inl err, p)]
      | (Inr msg, p) \<Rightarrow> publishAsync setDestination setReplyTo setCorrelationID sent msg dest user timeout handler p)"

definition PublishAwaitResponse_begin ::
    "string option \<Rightarrow> go_error + nat \<Rightarrow> go_error option option \<Rightarrow> go_error option \<Rightarrow> go_error option \<Rightarrow>
       (string \<Rightarrow> go_error option) \<Rightarrow> ErrorInfo option \<Rightarrow> string \<Rightarrow> int \<Rightarrow> request_publisher \<Rightarrow>
       ((go_error + string) \<times> request_publisher) outcome list" where
  "PublishAwaitResponse_begin foreign duplicated setProperties setDestination setReplyTo setCorrelationID sent dest timeout p =
     (case duplicate_request foreign duplicated setProperties p of
        (Inl err, p) \<Rightarrow> [Return (Inl err, p)]
      | (Inr msg, p) \<Rightarrow> request_publish setDestination setReplyTo setCorrelationID sent msg dest None timeout False p)"

section \<open>The send task\<close>

definition request_send_finish :: "ErrorInfo option \<Rightarrow> request_publisher \<Rightarrow> request_publisher" where
  "request_send_finish errorInfo p =
     (let base = rq_base p; isFull = (chan_len (dp_buffer base) = chan_cap (dp_buffer base))
      in case chan_recv (dp_buffer base) of
           Return (Some pub, c) \<Rightarrow>
             (let base = base\<lparr>dp_buffer := c\<rparr>;
                  p = (case errorInfo of
                         Some info \<Rightarrow> p\<lparr>rq_base := submit_call EmptyCall base\<rparr>
                       | None \<Rightarrow> p\<lparr>rq_base := base, rq_disposed := rq_disposed p @ [pub_message pub]\<rparr>)
              in if isFull \<and> dp_config base = backpressureConfigurationReject
                 then p\<lparr>rq_base := notifyReady (rq_base p)\<rparr> else p)
         | _ \<Rightarrow> p)"

text \<open>
  The whole task. The error of an interrupted wait is the error that \<^verbatim>\<open>AwaitWritable\<close> returned.
\<close>

definition run_request_task ::
    "go_error \<Rightarrow> (ErrorInfo option \<times> await_result) list \<Rightarrow> string \<Rightarrow> request_publisher \<Rightarrow> request_publisher outcome" where
  "run_request_task waitErr attempts correlationID p =
     (case send_attempts attempts of
        None \<Rightarrow> Blocks
      | Some None \<Rightarrow> signalRequestCorrelationSent correlationID (Some waitErr) p
      | Some (Some errorInfo) \<Rightarrow>
          outcome_bind (signalRequestCorrelationSent correlationID
              (map_option (\<lambda>info. ToNativeError info ''encountered error while publishing message: '') errorInfo) p)
            (\<lambda>p. Return (request_send_finish errorInfo p)))"

section \<open>Start and termination\<close>

primrec signal_undelivered ::
    "go_error option \<Rightarrow> publishable list \<Rightarrow> request_publisher \<Rightarrow> request_publisher outcome" where
  "signal_undelivered err [] p = Return p"
| "signal_undelivered err (pub # pubs) p =
     outcome_bind (case message_correlation p (pub_message pub) of
                     Some correlationID \<Rightarrow> signalRequestCorrelationSent correlationID err p
                   | None \<Rightarrow> Return p)
       (signal_undelivered err pubs)"

definition request_drainQueue ::
    "go_error option \<Rightarrow> request_publisher \<Rightarrow> (nat \<times> request_publisher) outcome" where
  "request_drainQueue err p =
     outcome_bind (chan_close (dp_buffer (rq_base p))) (\<lambda>c.
       let (undelivered, c') = chan_range c
       in outcome_bind (signal_undelivered err undelivered (p\<lparr>rq_base := (rq_base p)\<lparr>dp_buffer := c'\<rparr>\<rparr>)) (\<lambda>p.
            Return (length undelivered, p)))"

primrec unblock_entries :: "string list \<Rightarrow> request_publisher \<Rightarrow> request_publisher outcome" where
  "unblock_entries [] p = Return p"
| "unblock_entries (correlationID # ids) p =
     (let entry = entries p correlationID
      in outcome_bind (close_unless_ready (entry_sentChan entry)) (\<lambda>c.
         outcome_bind (chan_close (entry_result entry)) (\<lambda>r.
           unblock_entries ids
             (p\<lparr>entries := (entries p)(correlationID := entry\<lparr>entry_sentChan := c, entry_result := r\<rparr>)\<rparr>))))"

definition request_Terminate_begin ::
    "dp_events \<Rightarrow> request_publisher
       \<Rightarrow> (go_error option outcome proceed \<times> dp_events \<times> request_publisher) outcome" where
  "request_Terminate_begin events p =
     (let base = rq_base p
      in case publisher_terminate (dp_lifecycle base) of
           (Stop r, l) \<Rightarrow> Return (Stop r, events, p\<lparr>rq_base := base\<lparr>dp_lifecycle := l\<rparr>\<rparr>)
         | (Proceed, l) \<Rightarrow>
             (let base = base\<lparr>dp_lifecycle := l\<rparr>; events = RemoveEventHandler (downEventHandlerID base) events
              in if dp_config base \<noteq> backpressureConfigurationDirect
                 then
                   outcome_bind (signal_close (dp_interrupt base)) (\<lambda>c.
                   outcome_bind (Terminate_begin (buf (dp_tasks base))) (\<lambda>b.
                     Return (Proceed, events,
                       p\<lparr>rq_base := base\<lparr>dp_interrupt := c, dp_tasks := (dp_tasks base)\<lparr>buf := b\<rparr>\<rparr>\<rparr>)))
                 else Return (Proceed, RemoveEventHandler (canSendEventHandlerID base) events, p\<lparr>rq_base := base\<rparr>)))"

definition request_outstanding :: "request_publisher \<Rightarrow> (nat \<times> request_publisher) outcome" where
  "request_outstanding p =
     outcome_bind (signal_close (rq_requestCorrelateComplete p)) (\<lambda>c.
       Return (length (requestCorrelationMap p), p\<lparr>rq_requestCorrelateComplete := c\<rparr>))"

definition await_outstanding :: "bool \<Rightarrow> nat \<Rightarrow> request_publisher \<Rightarrow> bool list" where
  "await_outstanding timerFires outstanding p =
     (if outstanding > 0
      then (if rq_correlationComplete p then [True] else []) @ (if timerFires then [False] else [])
      else [True])"

text \<open>
  The rest of \<^verbatim>\<open>Terminate\<close> after the reply handler has been removed: drain the buffer, and under the lock close the signal and the
  channels of the entries; then the error and the end.
\<close>

definition close_correlations :: "request_publisher \<Rightarrow> request_publisher outcome" where
  "close_correlations p =
     unblock_entries (requestCorrelationMap p) (p\<lparr>rq_correlationComplete := True\<rparr>)"

definition request_finish ::
    "nat \<Rightarrow> request_publisher \<Rightarrow> (go_error option \<times> request_publisher) outcome" where
  "request_finish undelivered p =
     (let (err, base) = undelivered_error undelivered (rq_base p)
      in outcome_bind (direct_finish err base) (\<lambda>base. Return (err, p\<lparr>rq_base := base\<rparr>)))"

definition request_Terminate_end ::
    "(string \<Rightarrow> u64 \<Rightarrow> ErrorInfo option) \<Rightarrow> core_publisher \<Rightarrow> request_publisher
       \<Rightarrow> (go_error option \<times> core_publisher \<times> request_publisher) outcome" where
  "request_Terminate_end unsubscribe core p =
     outcome_bind (RemoveRequestorReplyHandler unsubscribe (replyToTopic p) core) (\<lambda>(errorInfo, core).
     outcome_bind (if dp_config (rq_base p) \<noteq> backpressureConfigurationDirect
                   then request_drainQueue
                          (Some (NewError IncompleteMessageDeliveryError UnableToPublishAlreadyTerminated [] None)) p
                   else Return (0, p)) (\<lambda>(undelivered, p).
     outcome_bind (close_correlations p) (\<lambda>p.
     outcome_bind (request_finish undelivered p) (\<lambda>(err, p). Return (err, core, p)))))"

text \<open>
  The termination on a down event. It neither removes the reply handler nor tells the waiting requests; only the requests that
  are still in the buffer are told that they were not sent.
\<close>

definition request_unsolicitedTermination ::
    "go_error option \<Rightarrow> dp_events \<Rightarrow> request_publisher
       \<Rightarrow> (go_error option list \<times> dp_events \<times> request_publisher) outcome" where
  "request_unsolicitedTermination downErr events p =
     (let base = rq_base p
      in case publisher_terminate (dp_lifecycle base) of
           (Stop r, l) \<Rightarrow> Return ([], events, p\<lparr>rq_base := base\<lparr>dp_lifecycle := l\<rparr>\<rparr>)
         | (Proceed, l) \<Rightarrow>
             (let base = base\<lparr>dp_lifecycle := l\<rparr>; events = RemoveEventHandler (downEventHandlerID base) events;
                  notification = (if terminationListener base then [downErr] else [])
              in if dp_config base \<noteq> backpressureConfigurationDirect
                 then
                   outcome_bind (signal_close (dp_interrupt base)) (\<lambda>c.
                   outcome_bind (TerminateNow (buf (dp_tasks base))) (\<lambda>b.
                   outcome_bind (request_drainQueue downErr
                       (p\<lparr>rq_base := base\<lparr>dp_interrupt := c, dp_tasks := (dp_tasks base)\<lparr>buf := b\<rparr>\<rparr>\<rparr>)) (\<lambda>(undelivered, p).
                   outcome_bind (request_finish undelivered p) (\<lambda>(err, p). Return (notification, events, p)))))
                 else
                   outcome_bind (request_finish 0 (p\<lparr>rq_base := base\<rparr>)) (\<lambda>(err, p).
                     Return (notification, RemoveEventHandler (canSendEventHandlerID base) events, p))))"

text \<open>
  \<^verbatim>\<open>Start\<close>. When the reply handler cannot be added, the deferred function removes the event handlers and completes both
  futures; the goroutine of the task buffer keeps running.
\<close>

definition request_Start ::
    "bool \<Rightarrow> (string \<Rightarrow> u64 \<Rightarrow> ErrorInfo option) \<Rightarrow> dp_events \<Rightarrow> core_publisher \<Rightarrow> request_publisher
       \<Rightarrow> (go_error option outcome proceed \<times> go_error option \<times> dp_events \<times> core_publisher \<times> request_publisher) outcome" where
  "request_Start parentRunning subscribe events core p =
     (let base = rq_base p
      in case publisher_starting parentRunning (dp_lifecycle base) of
           (Stop r, l) \<Rightarrow> Return (Stop r, None, events, core, p\<lparr>rq_base := base\<lparr>dp_lifecycle := l\<rparr>\<rparr>)
         | (Proceed, l) \<Rightarrow>
             (let (i, events) = AddEventHandler SolClientEventDown (Other ''request publisher onDownEvent'') events;
                  base = base\<lparr>dp_lifecycle := l, downEventHandlerID := i\<rparr>;
                  (events, base) =
                    (if dp_config base \<noteq> backpressureConfigurationDirect then (events, base)
                     else let (j, events) = AddEventHandler SolClientEventCanSend (Other ''request publisher onCanSend'') events
                          in (events, base\<lparr>canSendEventHandlerID := j\<rparr>))
              in outcome_bind (AddRequestorReplyHandler subscribe ''request publisher handleReplyMessage'' core) (\<lambda>(r, core).
                   case r of
                     Inr topic \<Rightarrow>
                       Return (Proceed, None, events, core,
                         p\<lparr>rq_base := base\<lparr>dp_lifecycle := started None (dp_lifecycle base)\<rparr>, replyToTopic := topic, rq_messageID := 0\<rparr>)
                   | Inl errorInfo \<Rightarrow>
                       let err = ToNativeError errorInfo ''encountered error while adding publisher reply message callback: '';
                           l = terminated None (dp_lifecycle base)
                       in Return (Proceed, Some err,
                            RemoveEventHandler (canSendEventHandlerID base) (RemoveEventHandler (downEventHandlerID base) events),
                            core, p\<lparr>rq_base := base\<lparr>dp_lifecycle := l\<lparr>startFuture := future_Complete (Some err) (startFuture l)\<rparr>\<rparr>\<rparr>))))"

definition request_IsReady :: "request_publisher \<Rightarrow> bool" where
  "request_IsReady p = IsReady (rq_base p)"

definition request_Build :: "(int \<Rightarrow> int \<Rightarrow> u64) \<Rightarrow> property_map \<Rightarrow> go_error + request_publisher" where
  "request_Build oor properties =
     (case validateBackpressureConfig oor properties of
        Inl err \<Rightarrow> Inl err
      | Inr (backpressureConfig, bufferSize) \<Rightarrow> Inr (request_construct backpressureConfig (unat bufferSize)))"

section \<open>A request and its reply\<close>

lemma recv_single: "chan_recv \<lparr>chan_items = [x], chan_cap = n, chan_closed = b\<rparr> =
    Return (Some x, \<lparr>chan_items = [], chan_cap = n, chan_closed = b\<rparr>)"
  by (simp add: chan_recv_def)

lemma recv_blocks: "chan_recv \<lparr>chan_items = [], chan_cap = n, chan_closed = False\<rparr> = Blocks"
  by (simp add: chan_recv_def)

lemma replyOutcome_single:
  assumes "await_sent cid p = [(None, q)]" and "await_reply f cid q = [(m, e, r)]"
    and "check_tracked cid m e r = (m', e', r')" and "closeReplyCorrelation cid (call_handler cid m' e' r') = Return p'"
  shows "replyOutcome f cid p = [Return (m', e', p')]"
  by (simp add: replyOutcome_def assms)



end
