(* ===== verification/Request_Concurrency.thy ===== *)
theory Request_Concurrency
  imports Request_Publisher
begin

text \<open>
  The goroutines that work on the requests of an unbuffered request-reply publisher
  (\<^verbatim>\<open>internal/impl/publisher/request_reply_message_publisher_impl.go\<close>): any number of requests, each with the call
  that sends it and the closure that waits for its outcome, the thread of the C library that delivers replies, one
  call of \<^verbatim>\<open>Terminate\<close> and a down event. A step is one critical section or one \<^verbatim>\<open>select\<close>. The first parameter tells whether the
  timer of \<^verbatim>\<open>Terminate\<close> may fire, the second whether replies still arrive. Correlation identifiers come from an atomic
  64-bit counter that is assumed not to wrap around.
\<close>

section \<open>The system\<close>

datatype req_pc =
    ReqNone
  | ReqSend
  | ReqRefused
  | ReqFailed
  | ReqAwaitSent
  | ReqAwaitReply
  | ReqCheck "Repliable option" "go_error option"
  | ReqHandler "Repliable option" "go_error option"
  | ReqClose "Repliable option" "go_error option"
  | ReqDone "Repliable option" "go_error option"
  | ReqPanicked

datatype rt_pc =
    RtIdle
  | RtRequest
  | RtWait nat
  | RtRemove
  | RtClose
  | RtDone
  | RtDown

text \<open>
  \<open>admitted\<close> are the arguments of the calls that have passed the check of the state; \<open>kept\<close> are the replies that the
  publisher has taken over from the C library.
\<close>

record rq_sys =
  rqp :: request_publisher
  req_pcs :: "string \<Rightarrow> req_pc"
  rt_pc :: rt_pc
  admitted :: "(nat option \<times> int \<times> bool) list"
  kept :: "(string \<times> Repliable) list"

definition rq_init :: rq_sys where
  "rq_init =
     \<lparr>rqp = (request_construct backpressureConfigurationDirect 0)
        \<lparr>rq_base := (direct_construct backpressureConfigurationDirect 0)\<lparr>dp_lifecycle := started None lifecycle_construct\<rparr>\<rparr>,
      req_pcs = (\<lambda>i. ReqNone), rt_pc = RtIdle, admitted = [], kept = []\<rparr>"

fun replies_registered :: "rt_pc \<Rightarrow> bool" where
  "replies_registered RtClose = False"
| "replies_registered RtDone = False"
| "replies_registered _ = True"

abbreviation set_req :: "string \<Rightarrow> req_pc \<Rightarrow> rq_sys \<Rightarrow> rq_sys" where
  "set_req i pc s \<equiv> s\<lparr>req_pcs := (req_pcs s)(i := pc)\<rparr>"

inductive rq_step :: "bool \<Rightarrow> bool \<Rightarrow> rq_sys \<Rightarrow> rq_sys \<Rightarrow> bool" for timed replies where
  rq_admit: "checkStartedStateForPublish (dp_lifecycle (rq_base (rqp s))) = None \<Longrightarrow>
     rq_step timed replies s (s\<lparr>admitted := admitted s @ [a]\<rparr>)"
| rq_create: "(user, timeout, handler) \<in> set (admitted s) \<Longrightarrow>
     createReplyCorrelation user timeout handler (rqp s) = (cid, p) \<Longrightarrow> req_pcs s cid = ReqNone \<Longrightarrow>
     rq_step timed replies s (set_req cid ReqSend (s\<lparr>rqp := p, admitted := remove1 (user, timeout, handler) (admitted s)\<rparr>))"
| rq_sent: "req_pcs s cid = ReqSend \<Longrightarrow> signalRequestCorrelationSent cid None (rqp s) = Return p \<Longrightarrow>
     rq_step timed replies s (set_req cid ReqAwaitSent (s\<lparr>rqp := p\<rparr>))"
| rq_refused: "req_pcs s cid = ReqSend \<Longrightarrow> signalRequestCorrelationSent cid (Some err) (rqp s) = Return p \<Longrightarrow>
     rq_step timed replies s (set_req cid ReqRefused (s\<lparr>rqp := p\<rparr>))"
| rq_send_panics: "req_pcs s cid = ReqSend \<Longrightarrow> signalRequestCorrelationSent cid err (rqp s) = Panics e \<Longrightarrow>
     rq_step timed replies s (set_req cid ReqPanicked s)"
| rq_failed: "req_pcs s cid = ReqRefused \<Longrightarrow> closeReplyCorrelation cid (rqp s) = Return p \<Longrightarrow>
     rq_step timed replies s (set_req cid ReqFailed (s\<lparr>rqp := p\<rparr>))"
| rq_await_sent: "req_pcs s cid = ReqAwaitSent \<Longrightarrow> (sentErr, p) \<in> set (await_sent cid (rqp s)) \<Longrightarrow>
     rq_step timed replies s (set_req cid (if sentErr = None then ReqAwaitReply else ReqHandler None sentErr) (s\<lparr>rqp := p\<rparr>))"
| rq_await_reply: "req_pcs s cid = ReqAwaitReply \<Longrightarrow> (m, e, p) \<in> set (await_reply True cid (rqp s)) \<Longrightarrow>
     rq_step timed replies s (set_req cid (ReqCheck m e) (s\<lparr>rqp := p\<rparr>))"
| rq_check: "req_pcs s cid = ReqCheck m e \<Longrightarrow> check_tracked cid m e (rqp s) = (m', e', p) \<Longrightarrow>
     rq_step timed replies s (set_req cid (ReqHandler m' e') (s\<lparr>rqp := p\<rparr>))"
| rq_handler: "req_pcs s cid = ReqHandler m e \<Longrightarrow>
     rq_step timed replies s (set_req cid (ReqClose m e) (s\<lparr>rqp := call_handler cid m e (rqp s)\<rparr>))"
| rq_close: "req_pcs s cid = ReqClose m e \<Longrightarrow> closeReplyCorrelation cid (rqp s) = Return p \<Longrightarrow>
     rq_step timed replies s (set_req cid (ReqDone m e) (s\<lparr>rqp := p\<rparr>))"
| rq_reply: "replies \<Longrightarrow> replies_registered (rt_pc s) \<Longrightarrow> handleReplyMessage m cid (rqp s) = Return (taken, p) \<Longrightarrow>
     rq_step timed replies s (s\<lparr>rqp := p, kept := (if taken then kept s @ [(cid, m)] else kept s)\<rparr>)"
| rt_begin: "rt_pc s = RtIdle \<Longrightarrow> request_Terminate_begin ev (rqp s) = Return (Proceed, ev', p) \<Longrightarrow>
     rq_step timed replies s (s\<lparr>rqp := p, rt_pc := RtRequest\<rparr>)"
| rt_request: "rt_pc s = RtRequest \<Longrightarrow> request_outstanding (rqp s) = Return (n, p) \<Longrightarrow>
     rq_step timed replies s (s\<lparr>rqp := p, rt_pc := RtWait n\<rparr>)"
| rt_wait: "rt_pc s = RtWait n \<Longrightarrow> graceful \<in> set (await_outstanding timed n (rqp s)) \<Longrightarrow>
     rq_step timed replies s (s\<lparr>rt_pc := RtRemove\<rparr>)"
| rt_remove: "rt_pc s = RtRemove \<Longrightarrow> rq_step timed replies s (s\<lparr>rt_pc := RtClose\<rparr>)"
| rt_close: "rt_pc s = RtClose \<Longrightarrow> close_correlations (rqp s) = Return p \<Longrightarrow> request_finish 0 p = Return (err, p') \<Longrightarrow>
     rq_step timed replies s (s\<lparr>rqp := p', rt_pc := RtDone\<rparr>)"
| rt_down: "rt_pc s = RtIdle \<Longrightarrow> request_unsolicitedTermination downErr ev (rqp s) = Return (ns, ev', p) \<Longrightarrow>
     rq_step timed replies s (s\<lparr>rqp := p, rt_pc := RtDown\<rparr>)"

section \<open>Runs\<close>

text \<open>A scheduler, to compute runs.\<close>

datatype rq_act =
    MAdmit "nat option" int bool
  | MCreate "nat option" int bool
  | MSent string
  | MAwaitSent string
  | MAwaitReply nat string
  | MCheck string
  | MHandler string
  | MClose string
  | MReply Repliable string
  | MTerm
  | MDown

fun rq_move_term :: "bool \<Rightarrow> rq_sys \<Rightarrow> rq_sys option" where
  "rq_move_term timed s =
     (case rt_pc s of
        RtIdle \<Rightarrow>
          (case request_Terminate_begin newCcsmpEvents (rqp s) of
             Return (Proceed, ev, p) \<Rightarrow> Some (s\<lparr>rqp := p, rt_pc := RtRequest\<rparr>) | _ \<Rightarrow> None)
      | RtRequest \<Rightarrow> (case request_outstanding (rqp s) of Return (n, p) \<Rightarrow> Some (s\<lparr>rqp := p, rt_pc := RtWait n\<rparr>) | _ \<Rightarrow> None)
      | RtWait n \<Rightarrow> (case await_outstanding timed n (rqp s) of [] \<Rightarrow> None | g # gs \<Rightarrow> Some (s\<lparr>rt_pc := RtRemove\<rparr>))
      | RtRemove \<Rightarrow> Some (s\<lparr>rt_pc := RtClose\<rparr>)
      | RtClose \<Rightarrow>
          (case close_correlations (rqp s) of
             Return p \<Rightarrow> (case request_finish 0 p of Return (err, p') \<Rightarrow> Some (s\<lparr>rqp := p', rt_pc := RtDone\<rparr>) | _ \<Rightarrow> None)
           | _ \<Rightarrow> None)
      | _ \<Rightarrow> None)"

fun rq_move :: "bool \<Rightarrow> bool \<Rightarrow> rq_act \<Rightarrow> rq_sys \<Rightarrow> rq_sys option" where
  "rq_move timed replies (MAdmit user timeout handler) s =
     (if checkStartedStateForPublish (dp_lifecycle (rq_base (rqp s))) = None
      then Some (s\<lparr>admitted := admitted s @ [(user, timeout, handler)]\<rparr>) else None)"
| "rq_move timed replies (MCreate user timeout handler) s =
     (case createReplyCorrelation user timeout handler (rqp s) of
        (cid, p) \<Rightarrow>
          if (user, timeout, handler) \<in> set (admitted s) \<and> req_pcs s cid = ReqNone
          then Some (set_req cid ReqSend (s\<lparr>rqp := p, admitted := remove1 (user, timeout, handler) (admitted s)\<rparr>))
          else None)"
| "rq_move timed replies (MSent cid) s =
     (if req_pcs s cid = ReqSend
      then (case signalRequestCorrelationSent cid None (rqp s) of
              Return p \<Rightarrow> Some (set_req cid ReqAwaitSent (s\<lparr>rqp := p\<rparr>))
            | Panics e \<Rightarrow> Some (set_req cid ReqPanicked s)
            | Blocks \<Rightarrow> None)
      else None)"
| "rq_move timed replies (MAwaitSent cid) s =
     (if req_pcs s cid = ReqAwaitSent
      then (case await_sent cid (rqp s) of
              [] \<Rightarrow> None
            | r # rs \<Rightarrow> Some (set_req cid (if fst r = None then ReqAwaitReply else ReqHandler None (fst r)) (s\<lparr>rqp := snd r\<rparr>)))
      else None)"
| "rq_move timed replies (MAwaitReply k cid) s =
     (if req_pcs s cid = ReqAwaitReply \<and> k < length (await_reply True cid (rqp s))
      then (case await_reply True cid (rqp s) ! k of (m, e, p) \<Rightarrow> Some (set_req cid (ReqCheck m e) (s\<lparr>rqp := p\<rparr>)))
      else None)"
| "rq_move timed replies (MCheck cid) s =
     (case req_pcs s cid of
        ReqCheck m e \<Rightarrow> (case check_tracked cid m e (rqp s) of (m', e', p) \<Rightarrow> Some (set_req cid (ReqHandler m' e') (s\<lparr>rqp := p\<rparr>)))
      | _ \<Rightarrow> None)"
| "rq_move timed replies (MHandler cid) s =
     (case req_pcs s cid of
        ReqHandler m e \<Rightarrow> Some (set_req cid (ReqClose m e) (s\<lparr>rqp := call_handler cid m e (rqp s)\<rparr>))
      | _ \<Rightarrow> None)"
| "rq_move timed replies (MClose cid) s =
     (case req_pcs s cid of
        ReqClose m e \<Rightarrow>
          (case closeReplyCorrelation cid (rqp s) of Return p \<Rightarrow> Some (set_req cid (ReqDone m e) (s\<lparr>rqp := p\<rparr>)) | _ \<Rightarrow> None)
      | _ \<Rightarrow> None)"
| "rq_move timed replies (MReply m cid) s =
     (if replies \<and> replies_registered (rt_pc s)
      then (case handleReplyMessage m cid (rqp s) of
              Return (taken, p) \<Rightarrow> Some (s\<lparr>rqp := p, kept := (if taken then kept s @ [(cid, m)] else kept s)\<rparr>)
            | _ \<Rightarrow> None)
      else None)"
| "rq_move timed replies MTerm s = rq_move_term timed s"
| "rq_move timed replies MDown s =
     (if rt_pc s = RtIdle
      then (case request_unsolicitedTermination None newCcsmpEvents (rqp s) of
              Return (ns, ev, p) \<Rightarrow> Some (s\<lparr>rqp := p, rt_pc := RtDown\<rparr>) | _ \<Rightarrow> None)
      else None)"

primrec rq_moves :: "bool \<Rightarrow> bool \<Rightarrow> rq_act list \<Rightarrow> rq_sys \<Rightarrow> rq_sys option" where
  "rq_moves timed replies [] s = Some s"
| "rq_moves timed replies (m # ms) s = (case rq_move timed replies m s of None \<Rightarrow> None | Some s' \<Rightarrow> rq_moves timed replies ms s')"

lemma rq_move_term_step: "rq_move_term timed s = Some s' \<Longrightarrow> rq_step timed replies s s'"
  by (auto split: rt_pc.splits outcome.splits proceed.splits list.splits prod.splits
      intro: rt_begin rt_request rt_wait rt_remove rt_close)

lemma rq_move_step: "rq_move timed replies m s = Some s' \<Longrightarrow> rq_step timed replies s s'"
proof (cases m)
  case (MAwaitSent cid)
  moreover assume "rq_move timed replies m s = Some s'"
  ultimately obtain r rs where r: "req_pcs s cid = ReqAwaitSent" "await_sent cid (rqp s) = r # rs"
    "s' = set_req cid (if fst r = None then ReqAwaitReply else ReqHandler None (fst r)) (s\<lparr>rqp := snd r\<rparr>)"
    by (auto split: if_splits list.splits)
  then show ?thesis using rq_await_sent [of s cid "fst r" "snd r"] by simp
next
  case (MAwaitReply k cid)
  moreover assume "rq_move timed replies m s = Some s'"
  ultimately obtain a b c where r: "req_pcs s cid = ReqAwaitReply" "k < length (await_reply True cid (rqp s))"
    "await_reply True cid (rqp s) ! k = (a, b, c)" "s' = set_req cid (ReqCheck a b) (s\<lparr>rqp := c\<rparr>)"
    by (auto split: if_splits prod.splits)
  then have "(a, b, c) \<in> set (await_reply True cid (rqp s))" by (metis nth_mem)
  with r show ?thesis using rq_await_reply [of s cid a b c] by simp
next
  case (MReply r cid)
  moreover assume "rq_move timed replies m s = Some s'"
  ultimately show ?thesis using rq_reply [of replies s r cid] by (auto split: if_splits outcome.splits)
qed (auto simp del: rq_move_term.simps split: if_splits outcome.splits prod.splits req_pc.splits
      intro: rq_admit rq_create [simplified] rq_sent [simplified] rq_send_panics rq_check [simplified] rq_handler [simplified]
        rq_close [simplified] rt_down rq_move_term_step)

lemma rq_moves_run: "rq_moves timed replies ms s = Some s' \<Longrightarrow> (rq_step timed replies)\<^sup>*\<^sup>* s s'"
  by (induction ms arbitrary: s) (auto split: option.splits intro: converse_rtranclp_into_rtranclp rq_move_step)

lemma rq_moves_exist:
  "\<exists>s. rq_moves timed replies ms s0 = Some s \<and> P s \<Longrightarrow> \<exists>s. (rq_step timed replies)\<^sup>*\<^sup>* s0 s \<and> P s"
  using rq_moves_run by blast

text \<open>The identifier of the first request.\<close>

definition cid1 :: string where "cid1 = snd (fst (next_correlation_id 0))"

lemma first_id: "next_correlation_id 0 = ((1, cid1), 1)"
  by (simp add: cid1_def next_correlation_id_def)

lemmas rq_simps = rq_init_def request_construct_def direct_construct_def checkStartedStateForPublish_def started_def
  createReplyCorrelation_def first_id entry_construct_def make_chan_def signalRequestCorrelationSent_def chan_send_def
  chan_recv_def await_sent_def await_reply_def check_tracked_def call_handler_def closeReplyCorrelation_def
  close_unless_ready_def chan_close_def Let_def handleReplyMessage_def request_Terminate_begin_def publisher_terminate_def
  terminate_def CompareAndSwap_def request_outstanding_def signal_close_def await_outstanding_def close_correlations_def
  request_finish_def undelivered_error_def direct_finish_def Terminate_def NewExecutor_def defaultSize_def
  request_unsolicitedTermination_def

text \<open>
  A termination can make a running \<^verbatim>\<open>Publish\<close> panic. A request has entered the table and is being sent when the
  grace period of \<^verbatim>\<open>Terminate\<close> ends; \<^verbatim>\<open>Terminate\<close> closes the channels of the entry and returns, and the call that sends the
  request then sends its signal on the closed channel. The panic is not recovered in an unbuffered publisher.
\<close>

theorem termination_panics_publish:
  "\<exists>s. (rq_step True replies)\<^sup>*\<^sup>* rq_init s \<and> rt_pc s = RtDone \<and> req_pcs s cid1 = ReqPanicked"
proof -
  have "\<exists>s. rq_moves True replies [MAdmit None 100 True, MCreate None 100 True, MTerm, MTerm, MTerm, MTerm, MTerm, MSent cid1] rq_init =
      Some s \<and> rt_pc s = RtDone \<and> req_pcs s cid1 = ReqPanicked"
    by (simp add: rq_simps)
  then show ?thesis by (rule rq_moves_exist)
qed

text \<open>
  A down event leaves a waiting request alone for ever. A request without a time limit has been sent when the session goes down: the publisher
  terminates and calls its listener, but tells the request nothing. If no reply arrives any more, nothing can
  happen in the publisher, and the request still waits.
\<close>

theorem down_event_abandons_request:
  "\<exists>s. (rq_step timed replies)\<^sup>*\<^sup>* rq_init s \<and> IsTerminated (dp_lifecycle (rq_base (rqp s))) \<and>
     req_pcs s cid1 = ReqAwaitReply \<and> (\<nexists>s'. rq_step timed False s s')"
proof -
  have "\<exists>s. rq_moves timed replies [MAdmit None (- 1) True, MCreate None (- 1) True, MSent cid1, MAwaitSent cid1, MDown] rq_init = Some s \<and>
      lc_state (dp_lifecycle (rq_base (rqp s))) = Terminated \<and> req_pcs s = (\<lambda>i. ReqNone)(cid1 := ReqAwaitReply) \<and>
      rt_pc s = RtDown \<and> admitted s = [] \<and> await_reply True cid1 (rqp s) = []"
    by (simp add: rq_simps terminated_def)
  then obtain s where s: "rq_moves timed replies [MAdmit None (- 1) True, MCreate None (- 1) True, MSent cid1, MAwaitSent cid1, MDown] rq_init = Some s"
    "lc_state (dp_lifecycle (rq_base (rqp s))) = Terminated" "req_pcs s = (\<lambda>i. ReqNone)(cid1 := ReqAwaitReply)"
    "rt_pc s = RtDown" "admitted s = []" "await_reply True cid1 (rqp s) = []" by blast
  have "\<not> rq_step timed False s s'" for s'
    using s(2-6) by (auto elim!: rq_step.cases simp: checkStartedStateForPublish_def split: if_splits)
  with s rq_moves_run [OF s(1)] show ?thesis by (intro exI [of _ s]) (simp add: IsTerminated_def)
qed

text \<open>
  A reply that arrives as its request times out is lost. The closure has timed out and called the handler with the
  error; before it removes the entry, a reply is accepted, so that the C library leaves the message to the
  publisher. Closing the entry takes the message out of the channel and drops it: nobody gets it and nobody disposes it.
\<close>

theorem late_reply_leaks:
  "\<exists>s. (rq_step timed True)\<^sup>*\<^sup>* rq_init s \<and> kept s = [(cid1, 5)] \<and> req_pcs s cid1 = ReqDone None (Some ReplyTimeout) \<and>
     chan_items (entry_result (entries (rqp s) cid1)) = [] \<and> disposed_replies (rqp s) = [] \<and>
     handler_calls (rqp s) = [(cid1, None, None, Some ReplyTimeout)]"
proof -
  have "\<exists>s. rq_moves timed True [MAdmit None 100 True, MCreate None 100 True, MSent cid1, MAwaitSent cid1, MAwaitReply 0 cid1, MCheck cid1,
      MHandler cid1, MReply 5 cid1, MClose cid1] rq_init = Some s \<and> kept s = [(cid1, 5)] \<and>
     req_pcs s cid1 = ReqDone None (Some ReplyTimeout) \<and>
     chan_items (entry_result (entries (rqp s) cid1)) = [] \<and> disposed_replies (rqp s) = [] \<and>
     handler_calls (rqp s) = [(cid1, None, None, Some ReplyTimeout)]"
    by (simp add: rq_simps)
  then show ?thesis by (rule rq_moves_exist)
qed

section \<open>What the operations change\<close>

text \<open>Everything but the creation of an entry, a reply and the call of a handler only takes values out of the channels.\<close>

definition rq_weak :: "request_publisher \<Rightarrow> request_publisher \<Rightarrow> bool" where
  "rq_weak p p' \<longleftrightarrow> handler_calls p' = handler_calls p \<and> dp_config (rq_base p') = dp_config (rq_base p) \<and>
     (\<forall>i. entry_handler (entries p' i) = entry_handler (entries p i) \<and>
          entry_userContext (entries p' i) = entry_userContext (entries p i) \<and>
          entry_received (entries p' i) = entry_received (entries p i) \<and>
          set (chan_items (entry_result (entries p' i))) \<subseteq> set (chan_items (entry_result (entries p i))))"

lemma rq_weak_refl [simp]: "rq_weak p p"
  by (simp add: rq_weak_def)

lemma rq_weakD:
  assumes "rq_weak p p'"
  shows "handler_calls p' = handler_calls p" "dp_config (rq_base p') = dp_config (rq_base p)"
    "entry_handler (entries p' i) = entry_handler (entries p i)"
    "entry_userContext (entries p' i) = entry_userContext (entries p i)"
    "entry_received (entries p' i) = entry_received (entries p i)"
    "set (chan_items (entry_result (entries p' i))) \<subseteq> set (chan_items (entry_result (entries p i)))"
  using assms by (simp_all add: rq_weak_def)

lemma rq_weak_trans: "rq_weak p q \<Longrightarrow> rq_weak q r \<Longrightarrow> rq_weak p r"
  unfolding rq_weak_def [of p r]
  by (intro conjI allI) (simp_all add: rq_weakD [of q r] rq_weakD [of p q] subset_trans [OF rq_weakD(6) rq_weakD(6)])

lemma weak_entry:
  assumes "entry_handler e = entry_handler (entries p cid)" and "entry_userContext e = entry_userContext (entries p cid)"
    and "entry_received e = entry_received (entries p cid)"
    and "set (chan_items (entry_result e)) \<subseteq> set (chan_items (entry_result (entries p cid)))"
  shows "rq_weak p (p\<lparr>entries := (entries p)(cid := e)\<rparr>)"
  using assms by (simp add: rq_weak_def)

lemma signal_weak:
  assumes "signalRequestCorrelationSent cid e p = Return p'"
  shows "rq_weak p p' \<and> requestCorrelationMap p' = requestCorrelationMap p"
proof (cases "cid \<in> set (requestCorrelationMap p)")
  case True
  then obtain c where "p' = p\<lparr>entries := (entries p)(cid := (entries p cid)\<lparr>entry_sentChan := c\<rparr>)\<rparr>"
    using assms by (auto simp: signalRequestCorrelationSent_def outcome_bind_Return)
  then show ?thesis using weak_entry [of "(entries p cid)\<lparr>entry_sentChan := c\<rparr>" p cid] by simp
next
  case False
  then show ?thesis using assms by (simp add: signalRequestCorrelationSent_def)
qed

lemma recv_subset: "chan_recv c = Return (x, c') \<Longrightarrow> set (chan_items c') \<subseteq> set (chan_items c)"
  by (auto simp: chan_recv_def split: list.splits if_splits)

lemma recv_Some_in: "chan_recv c = Return (Some x, c') \<Longrightarrow> x \<in> set (chan_items c)"
  by (auto simp: chan_recv_def split: list.splits if_splits)

lemma await_sent_weak:
  assumes "(e, p') \<in> set (await_sent cid p)"
  shows "rq_weak p p' \<and> requestCorrelationMap p' = requestCorrelationMap p"
proof -
  have "p' = p \<or> (\<exists>c. p' = p\<lparr>entries := (entries p)(cid := (entries p cid)\<lparr>entry_sentChan := c\<rparr>)\<rparr>)"
    using assms unfolding await_sent_def
    by (cases "chan_recv (entry_sentChan (entries p cid))") (auto split: option.splits if_splits)
  then show ?thesis using weak_entry [of "(entries p cid)\<lparr>entry_sentChan := c\<rparr>" p cid for c] by auto
qed

lemma await_reply_weak:
  assumes "(m, e, p') \<in> set (await_reply f cid p)"
  shows "rq_weak p p' \<and> requestCorrelationMap p' = requestCorrelationMap p \<and> (m = None \<longleftrightarrow> e \<noteq> None) \<and>
    (\<forall>r. m = Some r \<longrightarrow> r \<in> set (chan_items (entry_result (entries p cid))))"
proof -
  consider "p' = p" "m = None" "e \<noteq> None"
    | r c where "chan_recv (entry_result (entries p cid)) = Return (Some r, c)" "m = Some r" "e = None"
      "p' = p\<lparr>entries := (entries p)(cid := (entries p cid)\<lparr>entry_result := c\<rparr>)\<rparr>"
    using assms unfolding await_reply_def
    by (cases "chan_recv (entry_result (entries p cid))") (auto split: option.splits if_splits)
  then show ?thesis
  proof cases
    case 1
    then show ?thesis by simp
  next
    case (2 r c)
    then show ?thesis
      using weak_entry [of "(entries p cid)\<lparr>entry_result := c\<rparr>" p cid] recv_subset [OF 2(1)] recv_Some_in [OF 2(1)] by simp
  qed
qed

lemma close_unless_ready_subset:
  assumes "close_unless_ready c = Return c'"
  shows "set (chan_items c') \<subseteq> set (chan_items c)"
proof (cases "chan_recv c")
  case (Return r)
  then obtain x d where "chan_recv c = Return (x, d)" by (cases r) simp
  with assms recv_subset show ?thesis by (simp add: close_unless_ready_def)
next
  case Blocks
  with assms show ?thesis by (auto simp: close_unless_ready_def chan_close_def split: if_splits)
next
  case (Panics e)
  with assms show ?thesis by (simp add: close_unless_ready_def)
qed

lemma close_weak:
  assumes "closeReplyCorrelation cid p = Return p'"
  shows "rq_weak p p' \<and> requestCorrelationMap p' = removeAll cid (requestCorrelationMap p)"
proof (cases "cid \<in> set (requestCorrelationMap p)")
  case True
  then obtain r c where r: "close_unless_ready (entry_result (entries p cid)) = Return r"
    and p': "handler_calls p' = handler_calls p" "rq_base p' = rq_base p"
      "entries p' = (entries p)(cid := (entries p cid)\<lparr>entry_result := r, entry_sentChan := c\<rparr>)"
      "requestCorrelationMap p' = removeAll cid (requestCorrelationMap p)"
    using assms by (auto simp: closeReplyCorrelation_def outcome_bind_Return Let_def split: if_splits)
  then show ?thesis using close_unless_ready_subset [OF r] by (simp add: rq_weak_def)
next
  case False
  then show ?thesis using assms by (simp add: closeReplyCorrelation_def)
qed

lemma check_tracked_weak:
  "check_tracked cid m e p = (m', e', p') \<Longrightarrow>
     rq_weak p p' \<and> requestCorrelationMap p' = requestCorrelationMap p \<and>
     ((m = None \<longleftrightarrow> e \<noteq> None) \<longrightarrow> (m' = None \<longleftrightarrow> e' \<noteq> None)) \<and> (\<forall>r. m' = Some r \<longrightarrow> m = Some r)"
  by (cases m) (auto simp: check_tracked_def rq_weak_def split: if_splits)

lemma unblock_weak:
  "unblock_entries ids p = Return p' \<Longrightarrow> rq_weak p p' \<and> requestCorrelationMap p' = requestCorrelationMap p"
proof (induction ids arbitrary: p)
  case Nil
  then show ?case by simp
next
  case (Cons i ids)
  then obtain c r where c: "close_unless_ready (entry_sentChan (entries p i)) = Return c"
    "chan_close (entry_result (entries p i)) = Return r"
    and rest: "unblock_entries ids (p\<lparr>entries := (entries p)(i := (entries p i)\<lparr>entry_sentChan := c, entry_result := r\<rparr>)\<rparr>) = Return p'"
    by (auto simp: outcome_bind_Return Let_def)
  have "rq_weak p (p\<lparr>entries := (entries p)(i := (entries p i)\<lparr>entry_sentChan := c, entry_result := r\<rparr>)\<rparr>)"
    using c(2) by (auto simp: rq_weak_def chan_close_def split: if_splits)
  with Cons.IH [OF rest] show ?case by (auto intro: rq_weak_trans)
qed

lemma base_weak: "dp_config b = dp_config (rq_base p) \<Longrightarrow> rq_weak p (p\<lparr>rq_base := b\<rparr>)"
  by (simp add: rq_weak_def)

lemma finish_weak:
  "request_finish n p = Return (err, p') \<Longrightarrow> rq_weak p p' \<and> requestCorrelationMap p' = requestCorrelationMap p"
  by (auto simp: request_finish_def outcome_bind_Return undelivered_error_def direct_finish_def rq_weak_def split: if_splits prod.splits)

lemma close_correlations_weak:
  "close_correlations p = Return p' \<Longrightarrow> rq_weak p p' \<and> requestCorrelationMap p' = requestCorrelationMap p"
  using unblock_weak [of "requestCorrelationMap p" "p\<lparr>rq_correlationComplete := True\<rparr>" p']
  by (auto simp: close_correlations_def rq_weak_def)

lemma terminate_begin_weak:
  "request_Terminate_begin ev p = Return (r, ev', p') \<Longrightarrow> rq_weak p p' \<and> requestCorrelationMap p' = requestCorrelationMap p"
  by (auto simp: request_Terminate_begin_def Let_def outcome_bind_Return rq_weak_def split: prod.splits proceed.splits if_splits)

lemma outstanding_weak:
  "request_outstanding p = Return (n, p') \<Longrightarrow> rq_weak p p' \<and> requestCorrelationMap p' = requestCorrelationMap p"
  by (auto simp: request_outstanding_def outcome_bind_Return rq_weak_def)

lemma unsolicited_weak:
  assumes "request_unsolicitedTermination downErr ev p = Return (ns, ev', p')"
    and "dp_config (rq_base p) = backpressureConfigurationDirect"
  shows "rq_weak p p' \<and> requestCorrelationMap p' = requestCorrelationMap p"
proof (cases "publisher_terminate (dp_lifecycle (rq_base p))")
  case (Pair r l)
  let ?q = "p\<lparr>rq_base := (rq_base p)\<lparr>dp_lifecycle := l\<rparr>\<rparr>"
  have q: "rq_weak p ?q" by (rule base_weak) simp
  show ?thesis
  proof (cases r)
    case Proceed
    then obtain err where "request_finish 0 ?q = Return (err, p')"
      using assms Pair by (auto simp: request_unsolicitedTermination_def Let_def outcome_bind_Return)
    from finish_weak [OF this] show ?thesis using q by (auto intro: rq_weak_trans)
  next
    case (Stop x)
    then show ?thesis using assms(1) Pair q by (auto simp: request_unsolicitedTermination_def Let_def)
  qed
qed

section \<open>Invariants\<close>

fun active :: "req_pc \<Rightarrow> bool" where
  "active ReqNone = False"
| "active ReqFailed = False"
| "active (ReqDone m e) = False"
| "active _ = True"

definition rq_table :: "rq_sys \<Rightarrow> bool" where
  "rq_table s \<longleftrightarrow> dp_config (rq_base (rqp s)) = backpressureConfigurationDirect \<and>
     (\<forall>i. i \<in> set (requestCorrelationMap (rqp s)) \<longleftrightarrow> active (req_pcs s i))"

definition outcome_ok :: "(string \<times> Repliable) list \<Rightarrow> string \<Rightarrow> Repliable option \<Rightarrow> go_error option \<Rightarrow> bool" where
  "outcome_ok ks i m e \<longleftrightarrow> (m = None \<longleftrightarrow> e \<noteq> None) \<and> (\<forall>r. m = Some r \<longrightarrow> (i, r) \<in> set ks)"

fun pc_ok :: "(string \<times> Repliable) list \<Rightarrow> string \<Rightarrow> req_pc \<Rightarrow> bool" where
  "pc_ok ks i (ReqCheck m e) = outcome_ok ks i m e"
| "pc_ok ks i (ReqHandler m e) = outcome_ok ks i m e"
| "pc_ok ks i (ReqClose m e) = outcome_ok ks i m e"
| "pc_ok ks i (ReqDone m e) = outcome_ok ks i m e"
| "pc_ok ks i _ = True"

definition rq_replies :: "rq_sys \<Rightarrow> bool" where
  "rq_replies s \<longleftrightarrow> distinct (map fst (kept s)) \<and>
     (\<forall>i m. (i, m) \<in> set (kept s) \<longrightarrow> req_pcs s i \<noteq> ReqNone \<and> entry_received (entries (rqp s) i)) \<and>
     (\<forall>i. \<forall>m \<in> set (chan_items (entry_result (entries (rqp s) i))). req_pcs s i \<noteq> ReqNone \<longrightarrow> (i, m) \<in> set (kept s)) \<and>
     (\<forall>i. pc_ok (kept s) i (req_pcs s i))"

fun reported :: "req_pc \<Rightarrow> (Repliable option \<times> go_error option) option" where
  "reported (ReqClose m e) = Some (m, e)"
| "reported (ReqDone m e) = Some (m, e)"
| "reported _ = None"

definition rq_calls :: "rq_sys \<Rightarrow> bool" where
  "rq_calls s \<longleftrightarrow> distinct (map fst (handler_calls (rqp s))) \<and>
     (\<forall>i u m e. (i, u, m, e) \<in> set (handler_calls (rqp s)) \<longleftrightarrow>
        reported (req_pcs s i) = Some (m, e) \<and> entry_handler (entries (rqp s) i) \<and> u = entry_userContext (entries (rqp s) i))"

text \<open>Steps that only take values out of the channels.\<close>

lemma rq_replies_weak:
  assumes "rq_replies s" and "rq_weak (rqp s) (rqp s')" and "kept s' = kept s" and "req_pcs s' = (req_pcs s)(i := pc)"
    and "pc \<noteq> ReqNone" and "req_pcs s i \<noteq> ReqNone" and "pc_ok (kept s) i pc"
  shows "rq_replies s'"
proof -
  have "(j, m) \<in> set (kept s)" if "m \<in> set (chan_items (entry_result (entries (rqp s') j)))" "req_pcs s' j \<noteq> ReqNone" for j m
  proof -
    have "m \<in> set (chan_items (entry_result (entries (rqp s) j)))" using rq_weakD(6) [OF assms(2)] that(1) by blast
    moreover have "req_pcs s j \<noteq> ReqNone" using that(2) assms(4,6) by (cases "j = i") auto
    ultimately show ?thesis using assms(1) by (simp add: rq_replies_def)
  qed
  then show ?thesis using assms rq_weakD(5) [OF assms(2)] by (simp add: rq_replies_def)
qed

lemma rq_replies_same:
  assumes "rq_replies s" and "rq_weak (rqp s) (rqp s')" and "kept s' = kept s" and "req_pcs s' = req_pcs s"
  shows "rq_replies s'"
proof -
  have "(j, m) \<in> set (kept s)" if "m \<in> set (chan_items (entry_result (entries (rqp s') j)))" "req_pcs s j \<noteq> ReqNone" for j m
    using rq_weakD(6) [OF assms(2), of j] that assms(1) by (auto simp: rq_replies_def)
  then show ?thesis using assms rq_weakD(5) [OF assms(2)] by (simp add: rq_replies_def)
qed

lemma rq_calls_weak:
  assumes "rq_calls s" and "rq_weak (rqp s) (rqp s')" and "req_pcs s' = (req_pcs s)(i := pc)"
    and "reported pc = reported (req_pcs s i)"
  shows "rq_calls s'"
  using assms rq_weakD(1,3,4) [OF assms(2)] by (simp add: rq_calls_def)

lemma rq_calls_same:
  assumes "rq_calls s" and "rq_weak (rqp s) (rqp s')" and "req_pcs s' = req_pcs s"
  shows "rq_calls s'"
  using assms rq_weakD(1,3,4) [OF assms(2)] by (simp add: rq_calls_def)

lemma rq_table_frame:
  assumes "rq_table s" and "dp_config (rq_base (rqp s')) = dp_config (rq_base (rqp s))"
    and "requestCorrelationMap (rqp s') = requestCorrelationMap (rqp s)"
    and "req_pcs s' = (req_pcs s)(i := pc)" and "active pc = active (req_pcs s i)"
  shows "rq_table s'"
  using assms by (auto simp: rq_table_def)

lemma rq_table_same:
  assumes "rq_table s" and "dp_config (rq_base (rqp s')) = dp_config (rq_base (rqp s))"
    and "requestCorrelationMap (rqp s') = requestCorrelationMap (rqp s)" and "req_pcs s' = req_pcs s"
  shows "rq_table s'"
  using assms by (simp add: rq_table_def)

lemma create_eq:
  "createReplyCorrelation user timeout handler p = (cid, p') \<Longrightarrow>
     handler_calls p' = handler_calls p \<and> rq_base p' = rq_base p \<and>
     set (requestCorrelationMap p') = insert cid (set (requestCorrelationMap p)) \<and>
     entries p' = (entries p)(cid := entry_construct user timeout handler)"
  by (auto simp: createReplyCorrelation_def Let_def split: prod.splits)

lemma reply_cases:
  assumes "handleReplyMessage m cid p = Return (taken, p')"
  obtains "\<not> taken" "p' = p"
  | "\<not> taken" "p' = p\<lparr>entries := (entries p)(cid := (entries p cid)\<lparr>entry_received := True\<rparr>)\<rparr>"
  | c where "taken" "cid \<in> set (requestCorrelationMap p)" "\<not> entry_received (entries p cid)"
    "chan_items c = chan_items (entry_result (entries p cid)) @ [m]"
    "p' = p\<lparr>entries := (entries p)(cid := (entries p cid)\<lparr>entry_received := True, entry_result := c\<rparr>)\<rparr>"
proof (cases "cid \<in> set (requestCorrelationMap p) \<and> \<not> entry_received (entries p cid)")
  case True
  show ?thesis
  proof (cases "chan_send m (entry_result (entries p cid))")
    case (Return c)
    then have "chan_items c = chan_items (entry_result (entries p cid)) @ [m]" by (auto simp: chan_send_def split: if_splits)
    then show ?thesis using assms True Return that(3) [of c] by (simp add: handleReplyMessage_def Let_def)
  next
    case Blocks
    then show ?thesis using assms True by (simp add: handleReplyMessage_def Let_def)
  next
    case (Panics e)
    then show ?thesis using assms True that(2) by (simp add: handleReplyMessage_def Let_def)
  qed
next
  case False
  then show ?thesis using assms that(1) by (auto simp: handleReplyMessage_def split: if_splits)
qed

lemma rq_table_step:
  assumes "rq_step timed replies s s'" and "rq_table s"
  shows "rq_table s'"
  using assms
proof (induction rule: rq_step.induct)
  case (rq_create user timeout handler s cid p)
  then show ?case using create_eq [OF rq_create.hyps(2)] by (auto simp: rq_table_def)
next
  case (rq_failed s cid p)
  then show ?case using close_weak [OF rq_failed.hyps(2)] rq_weakD(2) [of "rqp s" p] by (auto simp: rq_table_def)
next
  case (rq_close s cid m e p)
  then show ?case using close_weak [OF rq_close.hyps(2)] rq_weakD(2) [of "rqp s" p] by (auto simp: rq_table_def)
next
  case (rq_reply s m cid taken p)
  from rq_reply.hyps(3) show ?case
    by (cases rule: reply_cases) (rule rq_table_same [OF rq_reply.prems]; simp)+
next
  case (rt_down s downErr ev ns ev' p)
  have cfg: "dp_config (rq_base (rqp s)) = backpressureConfigurationDirect" using rt_down.prems by (simp add: rq_table_def)
  have w: "rq_weak (rqp s) p" "requestCorrelationMap p = requestCorrelationMap (rqp s)"
    using unsolicited_weak [OF rt_down.hyps(2) cfg] by auto
  with rq_weakD(2) [OF w(1)] show ?case by - (rule rq_table_same [OF rt_down.prems]; simp)
next
  case (rt_close s p err p')
  then show ?case using close_correlations_weak [OF rt_close.hyps(2)] finish_weak [OF rt_close.hyps(3)]
      rq_weakD(2) [of "rqp s" p] rq_weakD(2) [of p p']
    by - (rule rq_table_same [OF rt_close.prems]; simp)
next
  case (rt_begin s ev ev' p)
  then show ?case using terminate_begin_weak [OF rt_begin.hyps(2)] rq_weakD(2) [of "rqp s" p] by - (rule rq_table_same [OF rt_begin.prems]; simp)
next
  case (rt_request s n p)
  then show ?case using outstanding_weak [OF rt_request.hyps(2)] rq_weakD(2) [of "rqp s" p] by - (rule rq_table_same [OF rt_request.prems]; simp)
next
  case (rq_sent s cid p)
  then show ?case using signal_weak [OF rq_sent.hyps(2)] rq_weakD(2) [of "rqp s" p] by - (rule rq_table_frame [OF rq_sent.prems, where i = cid and pc = ReqAwaitSent]; simp)
next
  case (rq_refused s cid err p)
  then show ?case using signal_weak [OF rq_refused.hyps(2)] rq_weakD(2) [of "rqp s" p] by - (rule rq_table_frame [OF rq_refused.prems, where i = cid and pc = ReqRefused]; simp)
next
  case (rq_send_panics s cid err e)
  then show ?case by - (rule rq_table_frame [OF rq_send_panics.prems, where i = cid and pc = ReqPanicked]; simp)
next
  case (rq_await_sent s cid sentErr p)
  then show ?case using await_sent_weak [OF rq_await_sent.hyps(2)] rq_weakD(2) [of "rqp s" p]
    by - (rule rq_table_frame [OF rq_await_sent.prems, where i = cid and pc = "if sentErr = None then ReqAwaitReply else ReqHandler None sentErr"]; simp)
next
  case (rq_await_reply s cid m e p)
  then show ?case using await_reply_weak [OF rq_await_reply.hyps(2)] rq_weakD(2) [of "rqp s" p]
    by - (rule rq_table_frame [OF rq_await_reply.prems, where i = cid and pc = "ReqCheck m e"]; simp)
next
  case (rq_check s cid m e m' e' p)
  then show ?case using check_tracked_weak [OF rq_check.hyps(2)] rq_weakD(2) [of "rqp s" p] by - (rule rq_table_frame [OF rq_check.prems, where i = cid and pc = "ReqHandler m' e'"]; simp)
next
  case (rq_handler s cid m e)
  then show ?case by - (rule rq_table_frame [OF rq_handler.prems, where i = cid and pc = "ReqClose m e"]; simp add: call_handler_def Let_def)
qed (rule rq_table_same, assumption; simp)+

lemma outcome_ok_append: "outcome_ok ks i m e \<Longrightarrow> outcome_ok (ks @ ks') i m e"
  by (auto simp: outcome_ok_def)

lemma pc_ok_append: "pc_ok ks i pc \<Longrightarrow> pc_ok (ks @ ks') i pc"
  by (cases pc) (auto simp: outcome_ok_append)

lemma rq_replies_taken:
  assumes "rq_table s" and "rq_replies s" and "cid \<in> set (requestCorrelationMap (rqp s))"
    and "\<not> entry_received (entries (rqp s) cid)"
    and "chan_items c = chan_items (entry_result (entries (rqp s) cid)) @ [m]"
    and "entries (rqp s') = (entries (rqp s))(cid := (entries (rqp s) cid)\<lparr>entry_received := True, entry_result := c\<rparr>)"
    and "req_pcs s' = req_pcs s" and "kept s' = kept s @ [(cid, m)]"
  shows "rq_replies s'"
proof -
  have pc: "req_pcs s cid \<noteq> ReqNone" using assms(1,3) by (auto simp: rq_table_def)
  have new: "cid \<notin> fst ` set (kept s)" using assms(2,4) by (force simp: rq_replies_def)
  have "(j, r) \<in> set (kept s')"
    if "r \<in> set (chan_items (entry_result (entries (rqp s') j)))" "req_pcs s j \<noteq> ReqNone" for j r
    using that assms(2,5,6,8) by (cases "j = cid") (auto simp: rq_replies_def)
  then show ?thesis using assms(2,6,7,8) pc new by (auto simp: rq_replies_def pc_ok_append)
qed

lemma rq_replies_step:
  assumes "rq_step timed replies s s'" and "rq_table s" and "rq_replies s"
  shows "rq_replies s'"
  using assms
proof (induction rule: rq_step.induct)
  case (rq_admit s a)
  then show ?case by - (rule rq_replies_same [OF rq_admit.prems(2)]; simp)
next
  case (rq_create user timeout handler s cid p)
  have none: "(cid, m) \<notin> set (kept s)" for m using rq_create.prems(2) rq_create.hyps(3) by (auto simp: rq_replies_def)
  have p: "entries p = (entries (rqp s))(cid := entry_construct user timeout handler)"
    using create_eq [OF rq_create.hyps(2)] by simp
  have items: "(j, m) \<in> set (kept s)" if "m \<in> set (chan_items (entry_result (entries p j)))" "((req_pcs s)(cid := ReqSend)) j \<noteq> ReqNone" for j m
    using that p rq_create.prems(2) by (cases "j = cid") (auto simp: rq_replies_def entry_construct_def make_chan_def)
  from rq_create.prems(2) show ?case using none p items by (auto simp: rq_replies_def)
next
  case (rq_sent s cid p)
  then show ?case using signal_weak [OF rq_sent.hyps(2)] by - (rule rq_replies_weak [OF rq_sent.prems(2), where i = cid and pc = ReqAwaitSent]; simp)
next
  case (rq_refused s cid err p)
  then show ?case using signal_weak [OF rq_refused.hyps(2)] by - (rule rq_replies_weak [OF rq_refused.prems(2), where i = cid and pc = ReqRefused]; simp)
next
  case (rq_send_panics s cid err e)
  then show ?case by - (rule rq_replies_weak [OF rq_send_panics.prems(2), where i = cid and pc = ReqPanicked]; simp)
next
  case (rq_failed s cid p)
  then show ?case using close_weak [OF rq_failed.hyps(2)] by - (rule rq_replies_weak [OF rq_failed.prems(2), where i = cid and pc = ReqFailed]; simp)
next
  case (rq_await_sent s cid sentErr p)
  then show ?case using await_sent_weak [OF rq_await_sent.hyps(2)]
    by - (rule rq_replies_weak [OF rq_await_sent.prems(2), where i = cid and
        pc = "if sentErr = None then ReqAwaitReply else ReqHandler None sentErr"]; simp add: outcome_ok_def)
next
  case (rq_await_reply s cid m e p)
  have "outcome_ok (kept s) cid m e"
    using await_reply_weak [OF rq_await_reply.hyps(2)] rq_await_reply.prems(2) rq_await_reply.hyps(1)
    by (auto simp: outcome_ok_def rq_replies_def)
  with await_reply_weak [OF rq_await_reply.hyps(2)] rq_await_reply show ?case
    by - (rule rq_replies_weak [OF rq_await_reply.prems(2), where i = cid and pc = "ReqCheck m e"]; simp)
next
  case (rq_check s cid m e m' e' p)
  have "pc_ok (kept s) cid (req_pcs s cid)" using rq_check.prems(2) by (simp add: rq_replies_def)
  then have "outcome_ok (kept s) cid m' e'"
    using check_tracked_weak [OF rq_check.hyps(2)] rq_check.hyps(1) by (auto simp: outcome_ok_def)
  with check_tracked_weak [OF rq_check.hyps(2)] rq_check show ?case
    by - (rule rq_replies_weak [OF rq_check.prems(2), where i = cid and pc = "ReqHandler m' e'"]; simp)
next
  case (rq_handler s cid m e)
  have ok: "pc_ok (kept s) cid (req_pcs s cid)" using rq_handler.prems(2) by (simp add: rq_replies_def)
  have "entries (call_handler cid m e (rqp s)) = entries (rqp s)" by (simp add: call_handler_def Let_def)
  with ok rq_handler show ?case by (auto simp: rq_replies_def)
next
  case (rq_close s cid m e p)
  have "pc_ok (kept s) cid (req_pcs s cid)" using rq_close.prems(2) by (simp add: rq_replies_def)
  then show ?case using close_weak [OF rq_close.hyps(2)] rq_close by - (rule rq_replies_weak [OF rq_close.prems(2), where i = cid and pc = "ReqDone m e"]; simp)
next
  case (rq_reply s m cid taken p)
  from rq_reply.hyps(3) show ?case
  proof (cases rule: reply_cases)
    case 1
    then show ?thesis using rq_reply.prems(2) by (simp add: rq_replies_def)
  next
    case 2
    then show ?thesis using rq_reply.prems(2) by (auto simp: rq_replies_def)
  next
    case (3 c)
    then show ?thesis by - (rule rq_replies_taken [OF rq_reply.prems 3(2-4)]; simp)
  qed
next
  case (rt_begin s ev ev' p)
  then show ?case using terminate_begin_weak [OF rt_begin.hyps(2)] by - (rule rq_replies_same [OF rt_begin.prems(2)]; simp)
next
  case (rt_request s n p)
  then show ?case using outstanding_weak [OF rt_request.hyps(2)] by - (rule rq_replies_same [OF rt_request.prems(2)]; simp)
next
  case (rt_close s p err p')
  then show ?case using rq_weak_trans [of "rqp s" p p'] close_correlations_weak [OF rt_close.hyps(2)] finish_weak [OF rt_close.hyps(3)]
    by - (rule rq_replies_same [OF rt_close.prems(2)]; simp)
next
  case (rt_down s downErr ev ns ev' p)
  have cfg: "dp_config (rq_base (rqp s)) = backpressureConfigurationDirect" using rt_down.prems(1) by (simp add: rq_table_def)
  with unsolicited_weak [OF rt_down.hyps(2) cfg] show ?case by - (rule rq_replies_same [OF rt_down.prems(2)]; simp)
qed (rule rq_replies_same; simp)+

lemma rq_calls_step:
  assumes "rq_step timed replies s s'" and "rq_table s" and "rq_calls s"
  shows "rq_calls s'"
  using assms
proof (induction rule: rq_step.induct)
  case (rq_admit s a)
  then show ?case by - (rule rq_calls_same [OF rq_admit.prems(2)]; simp)
next
  case (rq_create user timeout handler s cid p)
  then show ?case using create_eq [OF rq_create.hyps(2)] by (auto simp: rq_calls_def)
next
  case (rq_sent s cid p)
  then show ?case using signal_weak [OF rq_sent.hyps(2)] by - (rule rq_calls_weak [OF rq_sent.prems(2), where i = cid and pc = ReqAwaitSent]; simp)
next
  case (rq_refused s cid err p)
  then show ?case using signal_weak [OF rq_refused.hyps(2)] by - (rule rq_calls_weak [OF rq_refused.prems(2), where i = cid and pc = ReqRefused]; simp)
next
  case (rq_send_panics s cid err e)
  then show ?case by - (rule rq_calls_weak [OF rq_send_panics.prems(2), where i = cid and pc = ReqPanicked]; simp)
next
  case (rq_failed s cid p)
  then show ?case using close_weak [OF rq_failed.hyps(2)] by - (rule rq_calls_weak [OF rq_failed.prems(2), where i = cid and pc = ReqFailed]; simp)
next
  case (rq_await_sent s cid sentErr p)
  then show ?case using await_sent_weak [OF rq_await_sent.hyps(2)]
    by - (rule rq_calls_weak [OF rq_await_sent.prems(2), where i = cid and
        pc = "if sentErr = None then ReqAwaitReply else ReqHandler None sentErr"]; simp)
next
  case (rq_await_reply s cid m e p)
  then show ?case using await_reply_weak [OF rq_await_reply.hyps(2)] by - (rule rq_calls_weak [OF rq_await_reply.prems(2), where i = cid and pc = "ReqCheck m e"]; simp)
next
  case (rq_check s cid m e m' e' p)
  then show ?case using check_tracked_weak [OF rq_check.hyps(2)] by - (rule rq_calls_weak [OF rq_check.prems(2), where i = cid and pc = "ReqHandler m' e'"]; simp)
next
  case (rq_handler s cid m e)
  have "cid \<notin> fst ` set (handler_calls (rqp s))" using rq_handler by (force simp: rq_calls_def)
  with rq_handler show ?case by (auto simp: rq_calls_def call_handler_def Let_def)
next
  case (rq_close s cid m e p)
  then show ?case using close_weak [OF rq_close.hyps(2)] by - (rule rq_calls_weak [OF rq_close.prems(2), where i = cid and pc = "ReqDone m e"]; simp)
next
  case (rq_reply s m cid taken p)
  from rq_reply.hyps(3) show ?case
    by (cases rule: reply_cases) (use rq_reply.prems(2) in \<open>auto simp: rq_calls_def\<close>)
next
  case (rt_begin s ev ev' p)
  then show ?case using terminate_begin_weak [OF rt_begin.hyps(2)] by - (rule rq_calls_same [OF rt_begin.prems(2)]; simp)
next
  case (rt_request s n p)
  then show ?case using outstanding_weak [OF rt_request.hyps(2)] by - (rule rq_calls_same [OF rt_request.prems(2)]; simp)
next
  case (rt_close s p err p')
  then show ?case using rq_weak_trans [of "rqp s" p p'] close_correlations_weak [OF rt_close.hyps(2)] finish_weak [OF rt_close.hyps(3)]
    by - (rule rq_calls_same [OF rt_close.prems(2)]; simp)
next
  case (rt_down s downErr ev ns ev' p)
  have cfg: "dp_config (rq_base (rqp s)) = backpressureConfigurationDirect" using rt_down.prems(1) by (simp add: rq_table_def)
  with unsolicited_weak [OF rt_down.hyps(2) cfg] show ?case by - (rule rq_calls_same [OF rt_down.prems(2)]; simp)
qed (rule rq_calls_same; simp)+

lemma rq_steps_inv:
  assumes "(rq_step timed replies)\<^sup>*\<^sup>* rq_init s"
  shows "rq_table s \<and> rq_replies s \<and> rq_calls s"
  using assms
proof (induction rule: rtranclp_induct)
  case base
  then show ?case
    by (simp add: rq_table_def rq_replies_def rq_calls_def rq_init_def request_construct_def direct_construct_def entry_construct_def make_chan_def)
next
  case (step s s')
  then show ?case using rq_table_step rq_replies_step rq_calls_step by blast
qed

text \<open>
  C3. Every request of an unbuffered publisher has one outcome. The runs start from a started publisher without a buffer
  (\<^verbatim>\<open>backpressureConfigurationDirect\<close>); the default configuration has one, and its send task and the drain of its buffer are not
  steps of this system, so nothing is said about it here. Whatever the order of requests, replies, time limits, a termination and a down event of
  such a publisher: it keeps at most one reply for a request; a request that is over has either a reply, which is the one
  that was kept for it, or an error; its handler has been called exactly once, with that outcome and the user context
  given to the request, and handlers are called for no other request; and the table holds exactly the requests that are not over.
\<close>

theorem request_outcomes:
  assumes "(rq_step timed replies)\<^sup>*\<^sup>* rq_init s"
  shows "distinct (map fst (kept s)) \<and> distinct (map fst (handler_calls (rqp s))) \<and>
    (\<forall>cid m e. req_pcs s cid = ReqDone m e \<longrightarrow>
       (m = None \<longleftrightarrow> e \<noteq> None) \<and> (\<forall>r. m = Some r \<longrightarrow> (cid, r) \<in> set (kept s)) \<and>
       (entry_handler (entries (rqp s) cid) \<longrightarrow>
          (cid, entry_userContext (entries (rqp s) cid), m, e) \<in> set (handler_calls (rqp s)))) \<and>
    (\<forall>cid u m e. (cid, u, m, e) \<in> set (handler_calls (rqp s)) \<longrightarrow> req_pcs s cid \<in> {ReqClose m e, ReqDone m e}) \<and>
    (\<forall>cid. cid \<in> set (requestCorrelationMap (rqp s)) \<longleftrightarrow> active (req_pcs s cid))"
proof -
  have inv: "rq_table s" "rq_replies s" "rq_calls s" using rq_steps_inv [OF assms] by auto
  have 1: "outcome_ok (kept s) cid m e" if "req_pcs s cid = ReqDone m e" for cid m e
    using inv(2) that pc_ok.simps(4) by (metis rq_replies_def)
  have 2: "req_pcs s cid \<in> {ReqClose m e, ReqDone m e}" if "reported (req_pcs s cid) = Some (m, e)" for cid m e
    using that by (cases "req_pcs s cid") auto
  show ?thesis
  proof (intro conjI allI impI)
    fix cid m e assume d: "req_pcs s cid = ReqDone m e"
    show "(m = None) = (e \<noteq> None)" "\<And>r. m = Some r \<Longrightarrow> (cid, r) \<in> set (kept s)" using 1 [OF d] by (auto simp: outcome_ok_def)
    show "entry_handler (entries (rqp s) cid) \<Longrightarrow> (cid, entry_userContext (entries (rqp s) cid), m, e) \<in> set (handler_calls (rqp s))"
      using inv(3) d by (simp add: rq_calls_def)
  next
    fix cid u m e assume "(cid, u, m, e) \<in> set (handler_calls (rqp s))"
    then have "reported (req_pcs s cid) = Some (m, e)" using inv(3) unfolding rq_calls_def by blast
    then show "req_pcs s cid \<in> {ReqClose m e, ReqDone m e}" by (rule 2)
  qed (use inv in \<open>auto simp: rq_replies_def rq_calls_def rq_table_def\<close>)
qed

theorem request_outcomes_witness:
  "\<exists>s. (rq_step False True)\<^sup>*\<^sup>* rq_init s \<and> req_pcs s cid1 = ReqDone (Some 5) None \<and> kept s = [(cid1, 5)] \<and>
     (cid1, entry_userContext (entries (rqp s) cid1), Some 5, None) \<in> set (handler_calls (rqp s))"
proof -
  have "\<exists>s. rq_moves False True [MAdmit None 100 True, MCreate None 100 True, MSent cid1, MReply 5 cid1, MReply 6 cid1, MAwaitSent cid1,
      MAwaitReply 0 cid1, MCheck cid1, MHandler cid1, MClose cid1] rq_init = Some s \<and> req_pcs s cid1 = ReqDone (Some 5) None \<and>
      kept s = [(cid1, 5)] \<and> entry_handler (entries (rqp s) cid1)"
    by (simp add: rq_simps)
  then obtain s where s: "(rq_step False True)\<^sup>*\<^sup>* rq_init s" "req_pcs s cid1 = ReqDone (Some 5) None" "kept s = [(cid1, 5)]"
    "entry_handler (entries (rqp s) cid1)"
    using rq_moves_run by blast
  with request_outcomes [OF s(1)] show ?thesis by (intro exI [of _ s]) blast
qed

end
