(* ===== verification/Endpoint_Provisioner.thy ===== *)
theory Endpoint_Provisioner
  imports Core_Provisioner Validation Go_Strconv
begin

text \<open>
  \<^verbatim>\<open>internal/impl/provisioner/endpoint_provisioner_impl.go\<close>: the endpoint provisioner of the API. It keeps
  a map of properties, turns it into the property list of the C library, sends the request through the
  core provisioner and waits for the confirmation. The calls of the C library, what other goroutines do to
  the core provisioner during the wait, the order in which \<^verbatim>\<open>range\<close> visits the property map and the text
  that \<^verbatim>\<open>%v\<close> gives for values of other types are arguments. The lemmas compare the property list with a
  specification as a finite map, for every visiting order, and show that a call returns once it is
  confirmed or the provisioner terminates.
\<close>

section \<open>Constants\<close>

text \<open>The keys of the API, \<^verbatim>\<open>pkg/solace/config/endpoint_properties.go\<close>.\<close>

definition EndpointPropertyDurable :: string where
  "EndpointPropertyDurable = ''solace.messaging.endpoint-property.durable''"
definition EndpointPropertyExclusive :: string where
  "EndpointPropertyExclusive = ''solace.messaging.endpoint-property.exclusive''"
definition EndpointPropertyNotifySender :: string where
  "EndpointPropertyNotifySender = ''solace.messaging.endpoint-property.notify-sender''"
definition EndpointPropertyMaxMessageRedelivery :: string where
  "EndpointPropertyMaxMessageRedelivery = ''solace.messaging.endpoint-property.max-message-redelivery''"
definition EndpointPropertyMaxMessageSize :: string where
  "EndpointPropertyMaxMessageSize = ''solace.messaging.endpoint-property.max-message-size''"
definition EndpointPropertyPermission :: string where
  "EndpointPropertyPermission = ''solace.messaging.endpoint-property.permission''"
definition EndpointPropertyQuotaMB :: string where
  "EndpointPropertyQuotaMB = ''solace.messaging.endpoint-property.quota-mb''"
definition EndpointPropertyRespectsTTL :: string where
  "EndpointPropertyRespectsTTL = ''solace.messaging.endpoint-property.respects-ttl''"

lemmas endpoint_key_defs = EndpointPropertyDurable_def EndpointPropertyExclusive_def
  EndpointPropertyNotifySender_def EndpointPropertyMaxMessageRedelivery_def EndpointPropertyMaxMessageSize_def
  EndpointPropertyPermission_def EndpointPropertyQuotaMB_def EndpointPropertyRespectsTTL_def

definition EndpointPermissionNone :: string where
  "EndpointPermissionNone = ''solace.messaging.endpoint-permission.none''"
definition EndpointPermissionReadOnly :: string where
  "EndpointPermissionReadOnly = ''solace.messaging.endpoint-permission.read-only''"
definition EndpointPermissionConsume :: string where
  "EndpointPermissionConsume = ''solace.messaging.endpoint-permission.consume''"
definition EndpointPermissionModifyTopic :: string where
  "EndpointPermissionModifyTopic = ''solace.messaging.endpoint-permission.modify-topic''"
definition EndpointPermissionDelete :: string where
  "EndpointPermissionDelete = ''solace.messaging.endpoint-permission.delete''"

lemmas endpoint_permission_defs = EndpointPermissionNone_def EndpointPermissionReadOnly_def
  EndpointPermissionConsume_def EndpointPermissionModifyTopic_def EndpointPermissionDelete_def

text \<open>
  The names and values of the C library: \<^verbatim>\<open>internal/ccsmp/ccsmp_endpoint_prop_generated.go\<close>,
  \<^verbatim>\<open>ccsmp_endpoint_permissions.go\<close> and \<^verbatim>\<open>ccsmp_core.go\<close>, with the texts of \<^verbatim>\<open>solClient.h\<close>.
\<close>

definition SolClientEndpointPropID :: string where
  "SolClientEndpointPropID = ''ENDPOINT_ID''"
definition SolClientEndpointPropName :: string where
  "SolClientEndpointPropName = ''ENDPOINT_NAME''"
definition SolClientEndpointPropDurable :: string where
  "SolClientEndpointPropDurable = ''ENDPOINT_DURABLE''"
definition SolClientEndpointPropPermission :: string where
  "SolClientEndpointPropPermission = ''ENDPOINT_PERMISSION''"
definition SolClientEndpointPropAccesstype :: string where
  "SolClientEndpointPropAccesstype = ''ENDPOINT_ACCESSTYPE''"
definition SolClientEndpointPropQuotaMb :: string where
  "SolClientEndpointPropQuotaMb = ''ENDPOINT_QUOTA_MB''"
definition SolClientEndpointPropMaxmsgSize :: string where
  "SolClientEndpointPropMaxmsgSize = ''ENDPOINT_MAXMSG_SIZE''"
definition SolClientEndpointPropRespectsMsgTTL :: string where
  "SolClientEndpointPropRespectsMsgTTL = ''ENDPOINT_RESPECTS_MSG_TTL''"
definition SolClientEndpointPropDiscardBehavior :: string where
  "SolClientEndpointPropDiscardBehavior = ''ENDPOINT_DISCARD_BEHAVIOR''"
definition SolClientEndpointPropMaxmsgRedelivery :: string where
  "SolClientEndpointPropMaxmsgRedelivery = ''ENDPOINT_MAXMSG_REDELIVERY''"

lemmas ccsmp_name_defs = SolClientEndpointPropID_def SolClientEndpointPropName_def SolClientEndpointPropDurable_def
  SolClientEndpointPropPermission_def SolClientEndpointPropAccesstype_def SolClientEndpointPropQuotaMb_def
  SolClientEndpointPropMaxmsgSize_def SolClientEndpointPropRespectsMsgTTL_def
  SolClientEndpointPropDiscardBehavior_def SolClientEndpointPropMaxmsgRedelivery_def

definition SolClientEndpointPropQueue :: string where
  "SolClientEndpointPropQueue = ''2''"
definition SolClientEndpointPropAccesstypeNonexclusive :: string where
  "SolClientEndpointPropAccesstypeNonexclusive = ''0''"
definition SolClientEndpointPropAccesstypeExclusive :: string where
  "SolClientEndpointPropAccesstypeExclusive = ''1''"
definition SolClientEndpointPropDiscardNotifySenderOn :: string where
  "SolClientEndpointPropDiscardNotifySenderOn = ''1''"
definition SolClientEndpointPropDiscardNotifySenderOff :: string where
  "SolClientEndpointPropDiscardNotifySenderOff = ''2''"
definition SolClientPropEnableVal :: string where
  "SolClientPropEnableVal = ''1''"
definition SolClientPropDisableVal :: string where
  "SolClientPropDisableVal = ''0''"
definition SolClientEndpointPermissionNone :: string where
  "SolClientEndpointPermissionNone = ''n''"
definition SolClientEndpointPermissionReadOnly :: string where
  "SolClientEndpointPermissionReadOnly = ''r''"
definition SolClientEndpointPermissionConsume :: string where
  "SolClientEndpointPermissionConsume = ''c''"
definition SolClientEndpointPermissionModifyTopic :: string where
  "SolClientEndpointPermissionModifyTopic = ''m''"
definition SolClientEndpointPermissionDelete :: string where
  "SolClientEndpointPermissionDelete = ''d''"

lemmas ccsmp_value_defs = SolClientEndpointPropQueue_def SolClientEndpointPropAccesstypeNonexclusive_def
  SolClientEndpointPropAccesstypeExclusive_def SolClientEndpointPropDiscardNotifySenderOn_def
  SolClientEndpointPropDiscardNotifySenderOff_def SolClientPropEnableVal_def SolClientPropDisableVal_def
  SolClientEndpointPermissionNone_def SolClientEndpointPermissionReadOnly_def
  SolClientEndpointPermissionConsume_def SolClientEndpointPermissionModifyTopic_def
  SolClientEndpointPermissionDelete_def

definition FailedToProvisionEndpoint :: string where
  "FailedToProvisionEndpoint = ''failed to provision endpoint: ''"
definition FailedToDeprovisionEndpoint :: string where
  "FailedToDeprovisionEndpoint = ''failed to deprovision endpoint: ''"
definition UnableToProvisionParentServiceNotStarted :: string where
  "UnableToProvisionParentServiceNotStarted = ''cannot provision endpoint unless parent MessagingService is connected''"
definition UnableToDeprovisionParentServiceNotStarted :: string where
  "UnableToDeprovisionParentServiceNotStarted = ''cannot deprovision endpoint unless parent MessagingService is connected''"

section \<open>Property values\<close>

text \<open>
  A property value is an \<^verbatim>\<open>interface{}\<close>; a permission has the string type \<^verbatim>\<open>config.EndpointPermission\<close>, which
  the validators do not take for a \<^verbatim>\<open>string\<close>.
\<close>

datatype endpoint_value = EValue go_value | EPermission string

fun as_interface :: "endpoint_value \<Rightarrow> go_value" where
  "as_interface (EValue v) = v"
| "as_interface (EPermission s) = VOther ''config.EndpointPermission''"

text \<open>\<^verbatim>\<open>fmt.Sprintf("%v", value)\<close>; for floating point numbers and other types its text is an argument.\<close>

fun sprintf_v :: "(go_value \<Rightarrow> string) \<Rightarrow> endpoint_value \<Rightarrow> string" where
  "sprintf_v other (EPermission s) = s"
| "sprintf_v other (EValue VNil) = ''<nil>''"
| "sprintf_v other (EValue (VString s)) = s"
| "sprintf_v other (EValue (VBool b)) = (if b then ''true'' else ''false'')"
| "sprintf_v other (EValue (VInt i)) = print_int (sint i)"
| "sprintf_v other (EValue (VInt32 i)) = print_int (sint i)"
| "sprintf_v other (EValue (VInt64 i)) = print_int (sint i)"
| "sprintf_v other (EValue (VUint i)) = print_int (uint i)"
| "sprintf_v other (EValue (VUint32 i)) = print_int (uint i)"
| "sprintf_v other (EValue (VUint64 i)) = print_int (uint i)"
| "sprintf_v other (EValue v) = other v"

type_synonym endpoint_map = "string \<rightharpoonup> endpoint_value"

section \<open>The property list\<close>

text \<open>A Go map without the key gives the empty string.\<close>

definition mapEndpointPermissionToCcsmpProp :: "string \<Rightarrow> string" where
  "mapEndpointPermissionToCcsmpProp propValue =
     (case map_of
        [(EndpointPermissionNone, SolClientEndpointPermissionNone),
         (EndpointPermissionReadOnly, SolClientEndpointPermissionReadOnly),
         (EndpointPermissionConsume, SolClientEndpointPermissionConsume),
         (EndpointPermissionModifyTopic, SolClientEndpointPermissionModifyTopic),
         (EndpointPermissionDelete, SolClientEndpointPermissionDelete)] propValue of
        Some p \<Rightarrow> p
      | None \<Rightarrow> [])"

text \<open>\<^verbatim>\<open>if present { if err != nil { return nil, err } ... }\<close> around what one case of the switch appends.\<close>

fun if_present :: "'a \<times> bool \<times> go_error option \<Rightarrow> ('a \<Rightarrow> string list) \<Rightarrow> go_error + string list" where
  "if_present (x, present, err) f =
     (if present then (case err of Some e \<Rightarrow> Inl e | None \<Rightarrow> Inr (f x)) else Inr [])"

definition validate_entry ::
    "(int \<Rightarrow> int \<Rightarrow> u64) \<Rightarrow> (go_value \<Rightarrow> string) \<Rightarrow> string \<Rightarrow> endpoint_value \<Rightarrow> go_error + string list" where
  "validate_entry oor other property value =
     (if property = EndpointPropertyDurable then
        if_present (BooleanPropertyValidation EndpointPropertyDurable (as_interface value)) (\<lambda>isDurable.
          if isDurable then [SolClientEndpointPropDurable, SolClientPropEnableVal]
          else [SolClientEndpointPropDurable, SolClientPropDisableVal])
      else if property = EndpointPropertyExclusive then
        if_present (BooleanPropertyValidation EndpointPropertyExclusive (as_interface value)) (\<lambda>isExclusive.
          [SolClientEndpointPropAccesstype] @
          (if isExclusive then [SolClientEndpointPropAccesstypeExclusive]
           else [SolClientEndpointPropAccesstypeNonexclusive]))
      else if property = EndpointPropertyNotifySender then
        if_present (BooleanPropertyValidation EndpointPropertyNotifySender (as_interface value)) (\<lambda>propValue.
          [SolClientEndpointPropDiscardBehavior] @
          (if propValue then [SolClientEndpointPropDiscardNotifySenderOn]
           else [SolClientEndpointPropDiscardNotifySenderOff]))
      else if property = EndpointPropertyMaxMessageRedelivery then
        if_present (IntegerPropertyValidationWithRange oor EndpointPropertyMaxMessageRedelivery (as_interface value) 0 255)
          (\<lambda>propValue. [SolClientEndpointPropMaxmsgRedelivery, print_int (sint propValue)])
      else if property = EndpointPropertyMaxMessageSize then
        if_present (Uint64PropertyValidation EndpointPropertyMaxMessageSize (as_interface value))
          (\<lambda>propValue. [SolClientEndpointPropMaxmsgSize, print_int (uint propValue)])
      else if property = EndpointPropertyPermission then
        if_present (StringPropertyValidation EndpointPropertyPermission (VString (sprintf_v other value))
            [EndpointPermissionNone, EndpointPermissionReadOnly, EndpointPermissionConsume,
             EndpointPermissionModifyTopic, EndpointPermissionDelete])
          (\<lambda>propValue. [SolClientEndpointPropPermission, mapEndpointPermissionToCcsmpProp propValue])
      else if property = EndpointPropertyQuotaMB then
        if_present (Uint64PropertyValidation EndpointPropertyQuotaMB (as_interface value))
          (\<lambda>propValue. [SolClientEndpointPropQuotaMb, print_int (uint propValue)])
      else if property = EndpointPropertyRespectsTTL then
        if_present (BooleanPropertyValidation EndpointPropertyRespectsTTL (as_interface value)) (\<lambda>shouldRespectTTL.
          if shouldRespectTTL then [SolClientEndpointPropRespectsMsgTTL, SolClientPropEnableVal] else [])
      else Inr [])"

fun validate_loop ::
    "(int \<Rightarrow> int \<Rightarrow> u64) \<Rightarrow> (go_value \<Rightarrow> string) \<Rightarrow> (string \<times> endpoint_value) list \<Rightarrow> string list
       \<Rightarrow> go_error + string list" where
  "validate_loop oor other [] propertiesList = Inr propertiesList"
| "validate_loop oor other ((property, value) # rest) propertiesList =
     (case validate_entry oor other property value of
        Inl err \<Rightarrow> Inl err
      | Inr added \<Rightarrow> validate_loop oor other rest (propertiesList @ added))"

text \<open>The argument lists the entries of the map in the order \<^verbatim>\<open>range\<close> visits them.\<close>

definition validateEndpointProperties ::
    "(int \<Rightarrow> int \<Rightarrow> u64) \<Rightarrow> (go_value \<Rightarrow> string) \<Rightarrow> (string \<times> endpoint_value) list \<Rightarrow> go_error + string list" where
  "validateEndpointProperties oor other properties =
     validate_loop oor other properties [SolClientEndpointPropID, SolClientEndpointPropQueue]"

text \<open>The lists that \<^verbatim>\<open>range\<close> over a map may visit.\<close>

definition ranges_over :: "(string \<times> 'v) list \<Rightarrow> (string \<rightharpoonup> 'v) \<Rightarrow> bool" where
  "ranges_over entries m \<longleftrightarrow> distinct (map fst entries) \<and> map_of entries = m"

section \<open>Provision and Deprovision\<close>

record provisionOutcome =
  po_ok :: bool
  po_err :: "go_error option"

text \<open>
  The half of \<^verbatim>\<open>Provision\<close> before the receive: it ends the call, or leaves it with the number and the
  channel of the request.
\<close>

definition endpoint_request ::
    "(string list \<Rightarrow> ccsmpBackedEndpointProvisioner \<Rightarrow> (ErrorInfo + (u64 \<times> nat)) \<times> ccsmpBackedEndpointProvisioner)
       \<Rightarrow> string \<Rightarrow> string \<Rightarrow> go_error + string list \<Rightarrow> string \<Rightarrow> ccsmpBackedEndpointProvisioner
       \<Rightarrow> (go_error + (u64 \<times> nat option)) \<times> ccsmpBackedEndpointProvisioner" where
  "endpoint_request send notRunning failed validated queueName core =
     (if \<not> core_provisioner_IsRunning core then (Inl (NewError IllegalStateError notRunning [] None), core)
      else case validated of
        Inl err \<Rightarrow> (Inl err, core)
      | Inr endpointProperties \<Rightarrow>
          (case send (endpointProperties @ [SolClientEndpointPropName, queueName]) core of
             (Inl errInfo, core) \<Rightarrow> (Inl (ToNativeError errInfo failed), core)
           | (Inr (correlationID, c), core) \<Rightarrow> (Inr (correlationID, Some c), core)))"

text \<open>The half from the check of the channel on.\<close>

definition endpoint_await ::
    "string \<Rightarrow> string \<Rightarrow> u64 \<Rightarrow> nat option \<Rightarrow> ccsmpBackedEndpointProvisioner
       \<Rightarrow> (go_error option \<times> ccsmpBackedEndpointProvisioner) outcome" where
  "endpoint_await invalid queueName correlationID resultChan core =
     (case resultChan of
        None \<Rightarrow> Return (Some (NewError IllegalStateError invalid [ArgStr queueName, ArgInt (uint correlationID)] None), core)
      | Some c \<Rightarrow>
          outcome_bind (provision_await c core) (\<lambda>(event, core).
            case event of None \<Rightarrow> Panics NilDereference | Some event \<Rightarrow> Return (ce_err event, core)))"

text \<open>What the other goroutines do to the core provisioner while the call waits.\<close>

type_synonym meanwhile = "ccsmpBackedEndpointProvisioner \<Rightarrow> ccsmpBackedEndpointProvisioner outcome"

definition endpoint_Provision ::
    "(string list \<Rightarrow> u64 \<Rightarrow> bool \<Rightarrow> ErrorInfo option) \<Rightarrow> (int \<Rightarrow> int \<Rightarrow> u64) \<Rightarrow> (go_value \<Rightarrow> string)
       \<Rightarrow> (string \<times> endpoint_value) list \<Rightarrow> string \<Rightarrow> bool \<Rightarrow> meanwhile \<Rightarrow> ccsmpBackedEndpointProvisioner
       \<Rightarrow> (provisionOutcome \<times> ccsmpBackedEndpointProvisioner) outcome" where
  "endpoint_Provision SolClientEndpointProvisionAsync oor other properties queueName ignoreExists meanwhile core =
     (case endpoint_request (\<lambda>ps. Provision SolClientEndpointProvisionAsync ps ignoreExists)
             UnableToProvisionParentServiceNotStarted FailedToProvisionEndpoint
             (validateEndpointProperties oor other properties) queueName core of
        (Inl err, core) \<Rightarrow> Return (\<lparr>po_ok = False, po_err = Some err\<rparr>, core)
      | (Inr (correlationID, resultChan), core) \<Rightarrow>
          outcome_bind (meanwhile core) (\<lambda>core.
          outcome_bind (endpoint_await
              (FailedToProvisionEndpoint @ ''invalid provision outcome channel for queue '%s' with CorrelationID: %v'')
              queueName correlationID resultChan core) (\<lambda>(err, core).
            if err \<noteq> None then Return (\<lparr>po_ok = False, po_err = err\<rparr>, core)
            else Return (\<lparr>po_ok = True, po_err = None\<rparr>, core))))"

definition endpoint_Deprovision ::
    "(string list \<Rightarrow> u64 \<Rightarrow> bool \<Rightarrow> ErrorInfo option) \<Rightarrow> (int \<Rightarrow> int \<Rightarrow> u64) \<Rightarrow> (go_value \<Rightarrow> string)
       \<Rightarrow> (string \<times> endpoint_value) list \<Rightarrow> string \<Rightarrow> bool \<Rightarrow> meanwhile \<Rightarrow> ccsmpBackedEndpointProvisioner
       \<Rightarrow> (go_error option \<times> ccsmpBackedEndpointProvisioner) outcome" where
  "endpoint_Deprovision SolClientEndpointDeprovisionAsync oor other properties queueName ignoreMissing meanwhile core =
     (case endpoint_request (\<lambda>ps. Deprovision SolClientEndpointDeprovisionAsync ps ignoreMissing)
             UnableToDeprovisionParentServiceNotStarted FailedToDeprovisionEndpoint
             (validateEndpointProperties oor other properties) queueName core of
        (Inl err, core) \<Rightarrow> Return (Some err, core)
      | (Inr (correlationID, resultChan), core) \<Rightarrow>
          outcome_bind (meanwhile core) (\<lambda>core.
          endpoint_await
            (FailedToDeprovisionEndpoint @ ''invalid deprovision result channel for queue '%s' with CorrelationID: %v'')
            queueName correlationID resultChan core))"

text \<open>
  The goroutines of \<^verbatim>\<open>ProvisionAsync\<close> and \<^verbatim>\<open>DeprovisionAsync\<close>: the result goes into a channel with room for
  one, which is then closed; and those of the variants with a callback, which call it once.
\<close>

definition async_result ::
    "('r \<times> ccsmpBackedEndpointProvisioner) outcome \<Rightarrow> ('r chan \<times> ccsmpBackedEndpointProvisioner) outcome" where
  "async_result call =
     outcome_bind call (\<lambda>(r, core).
     outcome_bind (chan_send r (make_chan 1)) (\<lambda>resultChan.
     outcome_bind (chan_close resultChan) (\<lambda>resultChan. Return (resultChan, core))))"

definition ProvisionAsync ::
    "(string list \<Rightarrow> u64 \<Rightarrow> bool \<Rightarrow> ErrorInfo option) \<Rightarrow> (int \<Rightarrow> int \<Rightarrow> u64) \<Rightarrow> (go_value \<Rightarrow> string)
       \<Rightarrow> (string \<times> endpoint_value) list \<Rightarrow> string \<Rightarrow> bool \<Rightarrow> meanwhile \<Rightarrow> ccsmpBackedEndpointProvisioner
       \<Rightarrow> (provisionOutcome chan \<times> ccsmpBackedEndpointProvisioner) outcome" where
  "ProvisionAsync async oor other properties queueName ignoreExists meanwhile core =
     async_result (endpoint_Provision async oor other properties queueName ignoreExists meanwhile core)"

definition DeprovisionAsync ::
    "(string list \<Rightarrow> u64 \<Rightarrow> bool \<Rightarrow> ErrorInfo option) \<Rightarrow> (int \<Rightarrow> int \<Rightarrow> u64) \<Rightarrow> (go_value \<Rightarrow> string)
       \<Rightarrow> (string \<times> endpoint_value) list \<Rightarrow> string \<Rightarrow> bool \<Rightarrow> meanwhile \<Rightarrow> ccsmpBackedEndpointProvisioner
       \<Rightarrow> (go_error option chan \<times> ccsmpBackedEndpointProvisioner) outcome" where
  "DeprovisionAsync async oor other properties queueName ignoreMissing meanwhile core =
     async_result (endpoint_Deprovision async oor other properties queueName ignoreMissing meanwhile core)"

definition ProvisionAsyncWithCallback ::
    "(string list \<Rightarrow> u64 \<Rightarrow> bool \<Rightarrow> ErrorInfo option) \<Rightarrow> (int \<Rightarrow> int \<Rightarrow> u64) \<Rightarrow> (go_value \<Rightarrow> string)
       \<Rightarrow> (string \<times> endpoint_value) list \<Rightarrow> string \<Rightarrow> bool \<Rightarrow> meanwhile \<Rightarrow> ccsmpBackedEndpointProvisioner
       \<Rightarrow> (provisionOutcome list \<times> ccsmpBackedEndpointProvisioner) outcome" where
  "ProvisionAsyncWithCallback async oor other properties queueName ignoreExists meanwhile core =
     outcome_bind (endpoint_Provision async oor other properties queueName ignoreExists meanwhile core)
       (\<lambda>(outcome, core). Return ([outcome], core))"

definition DeprovisionAsyncWithCallback ::
    "(string list \<Rightarrow> u64 \<Rightarrow> bool \<Rightarrow> ErrorInfo option) \<Rightarrow> (int \<Rightarrow> int \<Rightarrow> u64) \<Rightarrow> (go_value \<Rightarrow> string)
       \<Rightarrow> (string \<times> endpoint_value) list \<Rightarrow> string \<Rightarrow> bool \<Rightarrow> meanwhile \<Rightarrow> ccsmpBackedEndpointProvisioner
       \<Rightarrow> (go_error option list \<times> ccsmpBackedEndpointProvisioner) outcome" where
  "DeprovisionAsyncWithCallback async oor other properties queueName ignoreMissing meanwhile core =
     outcome_bind (endpoint_Deprovision async oor other properties queueName ignoreMissing meanwhile core)
       (\<lambda>(err, core). Return ([err], core))"

section \<open>Configuration\<close>

definition DefaultEndpointProperties :: endpoint_map where
  "DefaultEndpointProperties = [EndpointPropertyDurable \<mapsto> EValue (VBool True)]"

definition mergeEndpointPropertyMap ::
    "endpoint_map \<Rightarrow> (string \<times> endpoint_value) list option \<Rightarrow> endpoint_map" where
  "mergeEndpointPropertyMap original provider =
     (case provider of
        None \<Rightarrow> original
      | Some props \<Rightarrow> fold (\<lambda>(key, value) m. m(key \<mapsto> value)) props original)"

definition WithProperty :: "string \<Rightarrow> endpoint_value \<Rightarrow> endpoint_map \<Rightarrow> endpoint_map" where
  "WithProperty propertyName propertyValue properties = properties(propertyName \<mapsto> propertyValue)"

definition WithDurability :: "bool \<Rightarrow> endpoint_map \<Rightarrow> endpoint_map" where
  "WithDurability durable properties = properties(EndpointPropertyDurable \<mapsto> EValue (VBool durable))"

definition WithExclusiveAccess :: "bool \<Rightarrow> endpoint_map \<Rightarrow> endpoint_map" where
  "WithExclusiveAccess exclusive properties = properties(EndpointPropertyExclusive \<mapsto> EValue (VBool exclusive))"

definition WithDiscardNotification :: "bool \<Rightarrow> endpoint_map \<Rightarrow> endpoint_map" where
  "WithDiscardNotification notifySender properties =
     properties(EndpointPropertyNotifySender \<mapsto> EValue (VBool notifySender))"

definition WithMaxMessageRedelivery :: "u64 \<Rightarrow> endpoint_map \<Rightarrow> endpoint_map" where
  "WithMaxMessageRedelivery n properties =
     properties(EndpointPropertyMaxMessageRedelivery \<mapsto> EValue (VUint n))"

definition WithMaxMessageSize :: "u64 \<Rightarrow> endpoint_map \<Rightarrow> endpoint_map" where
  "WithMaxMessageSize n properties = properties(EndpointPropertyMaxMessageSize \<mapsto> EValue (VUint n))"

definition WithPermission :: "string \<Rightarrow> endpoint_map \<Rightarrow> endpoint_map" where
  "WithPermission permission properties = properties(EndpointPropertyPermission \<mapsto> EPermission permission)"

definition WithQuotaMB :: "u64 \<Rightarrow> endpoint_map \<Rightarrow> endpoint_map" where
  "WithQuotaMB quota properties = properties(EndpointPropertyQuotaMB \<mapsto> EValue (VUint quota))"

definition WithTTLPolicy :: "bool \<Rightarrow> endpoint_map \<Rightarrow> endpoint_map" where
  "WithTTLPolicy respect properties = properties(EndpointPropertyRespectsTTL \<mapsto> EValue (VBool respect))"

section \<open>What the property list says\<close>

text \<open>
  The specification: the C name of a key, the values it may have, and the text of a value. A key that is
  present with no value is left out, as is a key the provisioner does not know.
\<close>

fun go_bool :: "go_value \<Rightarrow> bool option" where
  "go_bool (VBool b) = Some b"
| "go_bool (VInt i) = Some (i = 1)"
| "go_bool (VString s) = Some (s \<in> {''true'', ''True''})"
| "go_bool _ = None"

fun go_uint64 :: "go_value \<Rightarrow> int option" where
  "go_uint64 (VUint64 i) = Some (uint i)"
| "go_uint64 (VUint32 i) = Some (uint i)"
| "go_uint64 (VUint i) = Some (uint i)"
| "go_uint64 (VInt i) = Some (sint i mod 2 ^ 64)"
| "go_uint64 _ = None"

definition permission_letter :: "string \<Rightarrow> string option" where
  "permission_letter s =
     (if s = EndpointPermissionNone then Some ''n''
      else if s = EndpointPermissionReadOnly then Some ''r''
      else if s = EndpointPermissionConsume then Some ''c''
      else if s = EndpointPermissionModifyTopic then Some ''m''
      else if s = EndpointPermissionDelete then Some ''d''
      else None)"

definition boolean_keys :: "string list" where
  "boolean_keys = [EndpointPropertyDurable, EndpointPropertyExclusive, EndpointPropertyNotifySender,
     EndpointPropertyRespectsTTL]"

definition size_keys :: "string list" where
  "size_keys = [EndpointPropertyMaxMessageSize, EndpointPropertyQuotaMB]"

definition endpoint_accepts :: "(int \<Rightarrow> int \<Rightarrow> u64) \<Rightarrow> (go_value \<Rightarrow> string) \<Rightarrow> string \<Rightarrow> endpoint_value \<Rightarrow> bool" where
  "endpoint_accepts oor other key value \<longleftrightarrow>
     (let v = as_interface value
      in (if key \<in> set boolean_keys then v = VNil \<or> go_bool v \<noteq> None
          else if key \<in> set size_keys then v = VNil \<or> go_uint64 v \<noteq> None
          else if key = EndpointPropertyMaxMessageRedelivery
            then v = VNil \<or> (case as_integer oor v of None \<Rightarrow> False | Some n \<Rightarrow> 0 \<le> n \<and> n \<le> 255)
          else if key = EndpointPropertyPermission then permission_letter (sprintf_v other value) \<noteq> None
          else True))"

definition endpoint_setting ::
    "(int \<Rightarrow> int \<Rightarrow> u64) \<Rightarrow> (go_value \<Rightarrow> string) \<Rightarrow> string \<Rightarrow> endpoint_value \<Rightarrow> string option" where
  "endpoint_setting oor other key value =
     (let v = as_interface value
      in (if key = EndpointPropertyDurable then map_option (\<lambda>b. if b then ''1'' else ''0'') (go_bool v)
          else if key = EndpointPropertyExclusive then map_option (\<lambda>b. if b then ''1'' else ''0'') (go_bool v)
          else if key = EndpointPropertyNotifySender then map_option (\<lambda>b. if b then ''1'' else ''2'') (go_bool v)
          else if key = EndpointPropertyRespectsTTL then (if go_bool v = Some True then Some ''1'' else None)
          else if key \<in> set size_keys then map_option print_int (go_uint64 v)
          else if key = EndpointPropertyMaxMessageRedelivery then map_option print_int (as_integer oor v)
          else if key = EndpointPropertyPermission then permission_letter (sprintf_v other value)
          else None))"

definition endpoint_names :: "(string \<times> string) list" where
  "endpoint_names =
     [(EndpointPropertyDurable, SolClientEndpointPropDurable),
      (EndpointPropertyExclusive, SolClientEndpointPropAccesstype),
      (EndpointPropertyNotifySender, SolClientEndpointPropDiscardBehavior),
      (EndpointPropertyMaxMessageRedelivery, SolClientEndpointPropMaxmsgRedelivery),
      (EndpointPropertyMaxMessageSize, SolClientEndpointPropMaxmsgSize),
      (EndpointPropertyPermission, SolClientEndpointPropPermission),
      (EndpointPropertyQuotaMB, SolClientEndpointPropQuotaMb),
      (EndpointPropertyRespectsTTL, SolClientEndpointPropRespectsMsgTTL)]"

definition ccsmp_name :: "string \<Rightarrow> string" where
  "ccsmp_name key = the (map_of endpoint_names key)"

text \<open>The settings of a property map, by C name.\<close>

definition endpoint_spec ::
    "(int \<Rightarrow> int \<Rightarrow> u64) \<Rightarrow> (go_value \<Rightarrow> string) \<Rightarrow> endpoint_map \<Rightarrow> string \<Rightarrow> string \<rightharpoonup> string" where
  "endpoint_spec oor other m queueName c =
     (if c = ''ENDPOINT_ID'' then Some ''2''
      else if c = ''ENDPOINT_NAME'' then Some queueName
      else case map_of (map prod.swap endpoint_names) c of
        None \<Rightarrow> None
      | Some key \<Rightarrow> (case m key of None \<Rightarrow> None | Some v \<Rightarrow> endpoint_setting oor other key v))"

text \<open>The names and values of a flat list.\<close>

fun pairs :: "string list \<Rightarrow> (string \<times> string) list" where
  "pairs (name # val # rest) = (name, val) # pairs rest"
| "pairs _ = []"

lemma pairs_append: "even (length xs) \<Longrightarrow> pairs (xs @ ys) = pairs xs @ pairs ys"
  by (induction xs rule: pairs.induct) auto

text \<open>Validation of one entry.\<close>

lemma distinct_endpoint_keys: "distinct (map fst endpoint_names)"
  by (simp add: endpoint_names_def endpoint_key_defs)

lemma distinct_ccsmp_names:
  "distinct (SolClientEndpointPropID # SolClientEndpointPropName # map snd endpoint_names)"
  by (simp add: endpoint_names_def ccsmp_name_defs)

lemma endpoint_key_cases:
  obtains "key = EndpointPropertyDurable" | "key = EndpointPropertyExclusive" | "key = EndpointPropertyNotifySender"
    | "key = EndpointPropertyMaxMessageRedelivery" | "key = EndpointPropertyMaxMessageSize"
    | "key = EndpointPropertyPermission" | "key = EndpointPropertyQuotaMB" | "key = EndpointPropertyRespectsTTL"
    | "key \<notin> fst ` set endpoint_names"
  by (auto simp: endpoint_names_def)

lemma endpoint_key_neqs [simp]:
  "EndpointPropertyDurable \<noteq> EndpointPropertyExclusive" "EndpointPropertyDurable \<noteq> EndpointPropertyNotifySender"
  "EndpointPropertyDurable \<noteq> EndpointPropertyMaxMessageRedelivery" "EndpointPropertyDurable \<noteq> EndpointPropertyMaxMessageSize"
  "EndpointPropertyDurable \<noteq> EndpointPropertyPermission" "EndpointPropertyDurable \<noteq> EndpointPropertyQuotaMB"
  "EndpointPropertyDurable \<noteq> EndpointPropertyRespectsTTL" "EndpointPropertyExclusive \<noteq> EndpointPropertyNotifySender"
  "EndpointPropertyExclusive \<noteq> EndpointPropertyMaxMessageRedelivery" "EndpointPropertyExclusive \<noteq> EndpointPropertyMaxMessageSize"
  "EndpointPropertyExclusive \<noteq> EndpointPropertyPermission" "EndpointPropertyExclusive \<noteq> EndpointPropertyQuotaMB"
  "EndpointPropertyExclusive \<noteq> EndpointPropertyRespectsTTL" "EndpointPropertyNotifySender \<noteq> EndpointPropertyMaxMessageRedelivery"
  "EndpointPropertyNotifySender \<noteq> EndpointPropertyMaxMessageSize" "EndpointPropertyNotifySender \<noteq> EndpointPropertyPermission"
  "EndpointPropertyNotifySender \<noteq> EndpointPropertyQuotaMB" "EndpointPropertyNotifySender \<noteq> EndpointPropertyRespectsTTL"
  "EndpointPropertyMaxMessageRedelivery \<noteq> EndpointPropertyMaxMessageSize" "EndpointPropertyMaxMessageRedelivery \<noteq> EndpointPropertyPermission"
  "EndpointPropertyMaxMessageRedelivery \<noteq> EndpointPropertyQuotaMB" "EndpointPropertyMaxMessageRedelivery \<noteq> EndpointPropertyRespectsTTL"
  "EndpointPropertyMaxMessageSize \<noteq> EndpointPropertyPermission" "EndpointPropertyMaxMessageSize \<noteq> EndpointPropertyQuotaMB"
  "EndpointPropertyMaxMessageSize \<noteq> EndpointPropertyRespectsTTL" "EndpointPropertyPermission \<noteq> EndpointPropertyQuotaMB"
  "EndpointPropertyPermission \<noteq> EndpointPropertyRespectsTTL" "EndpointPropertyQuotaMB \<noteq> EndpointPropertyRespectsTTL"
  using distinct_endpoint_keys by (simp_all add: endpoint_names_def)

lemmas endpoint_key_simps [simp] = endpoint_key_neqs [symmetric]

lemma ccsmp_name_simps [simp]:
  "ccsmp_name EndpointPropertyDurable = SolClientEndpointPropDurable"
  "ccsmp_name EndpointPropertyExclusive = SolClientEndpointPropAccesstype"
  "ccsmp_name EndpointPropertyNotifySender = SolClientEndpointPropDiscardBehavior"
  "ccsmp_name EndpointPropertyMaxMessageRedelivery = SolClientEndpointPropMaxmsgRedelivery"
  "ccsmp_name EndpointPropertyMaxMessageSize = SolClientEndpointPropMaxmsgSize"
  "ccsmp_name EndpointPropertyPermission = SolClientEndpointPropPermission"
  "ccsmp_name EndpointPropertyQuotaMB = SolClientEndpointPropQuotaMb"
  "ccsmp_name EndpointPropertyRespectsTTL = SolClientEndpointPropRespectsMsgTTL"
  by (simp_all add: ccsmp_name_def endpoint_names_def)

text \<open>The validators in terms of the specification of their values.\<close>

lemma if_present_Boolean:
  "if_present (BooleanPropertyValidation key v) f = Inr l \<longleftrightarrow>
     (v = VNil \<and> l = []) \<or> (\<exists>b. go_bool v = Some b \<and> l = f b)"
  by (cases v) (auto simp: BooleanPropertyValidation_def)

lemma if_present_Uint64:
  "if_present (Uint64PropertyValidation key v) (\<lambda>i. [c, print_int (uint i)]) = Inr l \<longleftrightarrow>
     (v = VNil \<and> l = []) \<or> (\<exists>n. go_uint64 v = Some n \<and> l = [c, print_int n])"
proof -
  have "uint (i :: u64) = sint i mod 2 ^ 64" for i by (simp add: uint_sint take_bit_eq_mod)
  moreover have "uint (ucast (i :: u32) :: u64) = uint i" for i
    by (simp add: uint_up_ucast is_up)
  ultimately show ?thesis by (cases v) (auto simp: Uint64PropertyValidation_def)
qed

lemma if_present_range:
  "if_present (IntegerPropertyValidationWithRange oor key v 0 255) (\<lambda>i. [c, print_int (sint i)]) = Inr l \<longleftrightarrow>
     (v = VNil \<and> l = []) \<or> (\<exists>n. as_integer oor v = Some n \<and> 0 \<le> n \<and> n \<le> 255 \<and> l = [c, print_int n])"
  by (cases v) (auto simp: IntegerPropertyValidationWithRange_def IntegerPropertyValidation_def)

lemma if_present_permission:
  "if_present (StringPropertyValidation key (VString s)
       [EndpointPermissionNone, EndpointPermissionReadOnly, EndpointPermissionConsume,
        EndpointPermissionModifyTopic, EndpointPermissionDelete])
     (\<lambda>p. [c, mapEndpointPermissionToCcsmpProp p]) = Inr l \<longleftrightarrow>
     (\<exists>p. permission_letter s = Some p \<and> l = [c, p])"
proof -
  have neqs: "distinct [EndpointPermissionNone, EndpointPermissionReadOnly, EndpointPermissionConsume,
      EndpointPermissionModifyTopic, EndpointPermissionDelete]"
    by (simp add: endpoint_permission_defs)
  consider "s = EndpointPermissionNone" | "s = EndpointPermissionReadOnly" | "s = EndpointPermissionConsume"
    | "s = EndpointPermissionModifyTopic" | "s = EndpointPermissionDelete"
    | "s \<notin> {EndpointPermissionNone, EndpointPermissionReadOnly, EndpointPermissionConsume,
             EndpointPermissionModifyTopic, EndpointPermissionDelete}" by blast
  then show ?thesis
    using neqs by cases (auto simp: StringPropertyValidation_def permission_letter_def
        mapEndpointPermissionToCcsmpProp_def ccsmp_value_defs)
qed

lemmas if_present_specs = if_present_Boolean if_present_Uint64 if_present_range if_present_permission

lemma validate_entry_Inr:
  "validate_entry oor other EndpointPropertyDurable v = Inr l \<longleftrightarrow>
     (as_interface v = VNil \<and> l = []) \<or> (\<exists>b. go_bool (as_interface v) = Some b \<and>
        l = [SolClientEndpointPropDurable, if b then ''1'' else ''0''])"
  "validate_entry oor other EndpointPropertyExclusive v = Inr l \<longleftrightarrow>
     (as_interface v = VNil \<and> l = []) \<or> (\<exists>b. go_bool (as_interface v) = Some b \<and>
        l = [SolClientEndpointPropAccesstype, if b then ''1'' else ''0''])"
  "validate_entry oor other EndpointPropertyNotifySender v = Inr l \<longleftrightarrow>
     (as_interface v = VNil \<and> l = []) \<or> (\<exists>b. go_bool (as_interface v) = Some b \<and>
        l = [SolClientEndpointPropDiscardBehavior, if b then ''1'' else ''2''])"
  "validate_entry oor other EndpointPropertyRespectsTTL v = Inr l \<longleftrightarrow>
     (as_interface v = VNil \<and> l = []) \<or> (\<exists>b. go_bool (as_interface v) = Some b \<and>
        l = (if b then [SolClientEndpointPropRespectsMsgTTL, ''1''] else []))"
  unfolding validate_entry_def
  by (simp_all add: if_present_Boolean ccsmp_value_defs if_distrib [where f = "\<lambda>y. [_, y]"] cong: if_cong)

lemma validate_entry_Inr':
  "validate_entry oor other EndpointPropertyMaxMessageRedelivery v = Inr l \<longleftrightarrow>
     (as_interface v = VNil \<and> l = []) \<or> (\<exists>n. as_integer oor (as_interface v) = Some n \<and> 0 \<le> n \<and> n \<le> 255 \<and>
        l = [SolClientEndpointPropMaxmsgRedelivery, print_int n])"
  "validate_entry oor other EndpointPropertyMaxMessageSize v = Inr l \<longleftrightarrow>
     (as_interface v = VNil \<and> l = []) \<or> (\<exists>n. go_uint64 (as_interface v) = Some n \<and>
        l = [SolClientEndpointPropMaxmsgSize, print_int n])"
  "validate_entry oor other EndpointPropertyQuotaMB v = Inr l \<longleftrightarrow>
     (as_interface v = VNil \<and> l = []) \<or> (\<exists>n. go_uint64 (as_interface v) = Some n \<and>
        l = [SolClientEndpointPropQuotaMb, print_int n])"
  "validate_entry oor other EndpointPropertyPermission v = Inr l \<longleftrightarrow>
     (\<exists>p. permission_letter (sprintf_v other v) = Some p \<and> l = [SolClientEndpointPropPermission, p])"
  unfolding validate_entry_def
  by (simp_all add: if_present_Uint64 if_present_range if_present_permission)

lemma validate_entry_other:
  "key \<notin> fst ` set endpoint_names \<Longrightarrow> validate_entry oor other key v = Inr []"
  by (simp add: validate_entry_def endpoint_names_def)

lemma endpoint_accepts_simps:
  "endpoint_accepts oor other EndpointPropertyDurable v \<longleftrightarrow> as_interface v = VNil \<or> go_bool (as_interface v) \<noteq> None"
  "endpoint_accepts oor other EndpointPropertyExclusive v \<longleftrightarrow> as_interface v = VNil \<or> go_bool (as_interface v) \<noteq> None"
  "endpoint_accepts oor other EndpointPropertyNotifySender v \<longleftrightarrow> as_interface v = VNil \<or> go_bool (as_interface v) \<noteq> None"
  "endpoint_accepts oor other EndpointPropertyRespectsTTL v \<longleftrightarrow> as_interface v = VNil \<or> go_bool (as_interface v) \<noteq> None"
  "endpoint_accepts oor other EndpointPropertyMaxMessageSize v \<longleftrightarrow> as_interface v = VNil \<or> go_uint64 (as_interface v) \<noteq> None"
  "endpoint_accepts oor other EndpointPropertyQuotaMB v \<longleftrightarrow> as_interface v = VNil \<or> go_uint64 (as_interface v) \<noteq> None"
  "endpoint_accepts oor other EndpointPropertyMaxMessageRedelivery v \<longleftrightarrow> as_interface v = VNil \<or>
     (\<exists>n. as_integer oor (as_interface v) = Some n \<and> 0 \<le> n \<and> n \<le> 255)"
  "endpoint_accepts oor other EndpointPropertyPermission v \<longleftrightarrow> permission_letter (sprintf_v other v) \<noteq> None"
  by (auto simp: endpoint_accepts_def boolean_keys_def size_keys_def Let_def split: option.split)

lemma endpoint_setting_simps:
  "endpoint_setting oor other EndpointPropertyDurable v =
     map_option (\<lambda>b. if b then ''1'' else ''0'') (go_bool (as_interface v))"
  "endpoint_setting oor other EndpointPropertyExclusive v =
     map_option (\<lambda>b. if b then ''1'' else ''0'') (go_bool (as_interface v))"
  "endpoint_setting oor other EndpointPropertyNotifySender v =
     map_option (\<lambda>b. if b then ''1'' else ''2'') (go_bool (as_interface v))"
  "endpoint_setting oor other EndpointPropertyRespectsTTL v =
     (if go_bool (as_interface v) = Some True then Some ''1'' else None)"
  "endpoint_setting oor other EndpointPropertyMaxMessageSize v = map_option print_int (go_uint64 (as_interface v))"
  "endpoint_setting oor other EndpointPropertyQuotaMB v = map_option print_int (go_uint64 (as_interface v))"
  "endpoint_setting oor other EndpointPropertyMaxMessageRedelivery v = map_option print_int (as_integer oor (as_interface v))"
  "endpoint_setting oor other EndpointPropertyPermission v = permission_letter (sprintf_v other v)"
  by (simp_all add: endpoint_setting_def size_keys_def)

lemma validate_entry_spec:
  "validate_entry oor other key value = Inr l \<longleftrightarrow>
     endpoint_accepts oor other key value \<and>
     l = (case endpoint_setting oor other key value of None \<Rightarrow> [] | Some s \<Rightarrow> [ccsmp_name key, s])"
proof (cases key rule: endpoint_key_cases)
  case 6
  then show ?thesis
    by (auto simp: validate_entry_Inr' endpoint_accepts_simps endpoint_setting_simps)
next
  case 9
  then show ?thesis
    by (simp add: validate_entry_other) (auto simp: endpoint_accepts_def endpoint_setting_def endpoint_names_def
        boolean_keys_def size_keys_def)
qed (cases "as_interface value"; auto simp: validate_entry_Inr validate_entry_Inr' endpoint_accepts_simps
    endpoint_setting_simps)+

lemma endpoint_setting_names:
  "endpoint_setting oor other key value = Some s \<Longrightarrow> key \<in> fst ` set endpoint_names"
  by (auto simp: endpoint_setting_def endpoint_names_def size_keys_def Let_def split: if_splits)

text \<open>The loop succeeds exactly if every entry is accepted, and appends the setting of each.\<close>

definition entry_pairs ::
    "(int \<Rightarrow> int \<Rightarrow> u64) \<Rightarrow> (go_value \<Rightarrow> string) \<Rightarrow> string \<times> endpoint_value \<Rightarrow> (string \<times> string) list" where
  "entry_pairs oor other e =
     (case endpoint_setting oor other (fst e) (snd e) of None \<Rightarrow> [] | Some s \<Rightarrow> [(ccsmp_name (fst e), s)])"

lemma validate_loop_spec:
  "even (length acc) \<Longrightarrow>
     (case validate_loop oor other es acc of
        Inr l \<Rightarrow> (\<forall>e \<in> set es. endpoint_accepts oor other (fst e) (snd e)) \<and> even (length l) \<and>
               pairs l = pairs acc @ concat (map (entry_pairs oor other) es)
      | Inl err \<Rightarrow> \<exists>e \<in> set es. \<not> endpoint_accepts oor other (fst e) (snd e) \<and>
               validate_entry oor other (fst e) (snd e) = Inl err)"
proof (induction oor other es acc rule: validate_loop.induct)
  case (1 oor other acc)
  then show ?case by simp
next
  case (2 oor other k v es acc)
  show ?case
  proof (cases "validate_entry oor other k v")
    case (Inl err)
    then have "\<not> endpoint_accepts oor other k v"
      using validate_entry_spec [of oor other k v] by (metis Inl_Inr_False)
    with Inl show ?thesis by simp
  next
    case (Inr l)
    then have l: "endpoint_accepts oor other k v" "even (length (acc @ l))"
        "pairs (acc @ l) = pairs acc @ entry_pairs oor other (k, v)"
      using 2(2) unfolding validate_entry_spec
      by (auto simp: entry_pairs_def pairs_append split: option.splits)
    from 2(1) [OF Inr l(2)] Inr l(1) show ?thesis
      unfolding l(3) by (auto split: sum.splits)
  qed
qed

text \<open>Distinct keys have distinct C names, so a list of entries has one setting for each.\<close>

lemma ccsmp_name_iff: "map_of (map prod.swap endpoint_names) c = Some k \<longleftrightarrow>
    k \<in> fst ` set endpoint_names \<and> ccsmp_name k = c"
proof -
  have "distinct (map fst (map prod.swap endpoint_names))"
    using distinct_ccsmp_names by (simp add: comp_def)
  then have "map_of (map prod.swap endpoint_names) c = Some k \<longleftrightarrow> (k, c) \<in> set endpoint_names"
    by (subst map_of_eq_Some_iff) auto
  also have "\<dots> \<longleftrightarrow> map_of endpoint_names k = Some c"
    using distinct_endpoint_keys by simp
  also have "\<dots> \<longleftrightarrow> k \<in> fst ` set endpoint_names \<and> ccsmp_name k = c"
    using map_of_eq_None_iff [of endpoint_names k] by (auto simp: ccsmp_name_def)
  finally show ?thesis .
qed

lemma ccsmp_name_inject:
  "k \<in> fst ` set endpoint_names \<Longrightarrow> k' \<in> fst ` set endpoint_names \<Longrightarrow> ccsmp_name k = ccsmp_name k' \<Longrightarrow> k = k'"
  by (metis ccsmp_name_iff option.inject)

lemma ccsmp_name_fixed:
  "k \<in> fst ` set endpoint_names \<Longrightarrow> ccsmp_name k \<noteq> SolClientEndpointPropID \<and> ccsmp_name k \<noteq> SolClientEndpointPropName"
  by (auto simp: endpoint_names_def ccsmp_name_defs)

lemma entry_pairs_mem:
  "(c, s) \<in> set (entry_pairs oor other e) \<longleftrightarrow>
     endpoint_setting oor other (fst e) (snd e) = Some s \<and> c = ccsmp_name (fst e)"
  by (auto simp: entry_pairs_def split: option.splits)

lemma entry_pairs_distinct:
  "distinct (map fst es) \<Longrightarrow> distinct (map fst (concat (map (entry_pairs oor other) es)))"
proof (induction es)
  case Nil
  then show ?case by simp
next
  case (Cons e es)
  have "c \<notin> fst ` set (entry_pairs oor other e')"
    if "c \<in> fst ` set (entry_pairs oor other e)" "e' \<in> set es" for c e'
  proof
    assume "c \<in> fst ` set (entry_pairs oor other e')"
    with that(1) have "ccsmp_name (fst e) = ccsmp_name (fst e')" "fst e \<in> fst ` set endpoint_names"
        "fst e' \<in> fst ` set endpoint_names"
      by (auto simp: entry_pairs_mem dest: endpoint_setting_names)
    then have "fst e = fst e'" by (metis ccsmp_name_inject)
    with Cons.prems that(2) show False by auto
  qed
  moreover have "distinct (map fst (entry_pairs oor other e))"
    by (simp add: entry_pairs_def split: option.splits)
  ultimately show ?case using Cons by auto
qed

lemma entry_pairs_spec:
  assumes "ranges_over es m"
  shows "(c, s) \<in> set (concat (map (entry_pairs oor other) es)) \<longleftrightarrow>
    (\<exists>k v. m k = Some v \<and> endpoint_setting oor other k v = Some s \<and> c = ccsmp_name k)"
  using assms by (force simp: ranges_over_def entry_pairs_mem)

lemma endpoint_spec_Some:
  "endpoint_spec oor other m queueName c = Some s \<longleftrightarrow>
     (c = SolClientEndpointPropID \<and> s = SolClientEndpointPropQueue) \<or>
     (c = SolClientEndpointPropName \<and> s = queueName) \<or>
     (\<exists>k v. m k = Some v \<and> endpoint_setting oor other k v = Some s \<and> c = ccsmp_name k)"
  (is "?L \<longleftrightarrow> ?A \<or> ?B \<or> ?C")
proof -
  have ids: "''ENDPOINT_ID'' = SolClientEndpointPropID" "''ENDPOINT_NAME'' = SolClientEndpointPropName"
      "SolClientEndpointPropName \<noteq> SolClientEndpointPropID" "SolClientEndpointPropQueue = ''2''"
    by (simp_all add: ccsmp_name_defs ccsmp_value_defs)
  show ?thesis
  proof (cases "c = SolClientEndpointPropID \<or> c = SolClientEndpointPropName")
    case True
    have "\<not> ?C"
    proof
      assume ?C
      then obtain k v where "endpoint_setting oor other k v = Some s" and c: "c = ccsmp_name k" by blast
      from ccsmp_name_fixed [OF endpoint_setting_names [OF this(1)]] True show False by (simp add: c)
    qed
    moreover have "?L \<longleftrightarrow> ?A \<or> ?B"
      using True ids(3) by (elim disjE) (auto simp: endpoint_spec_def ids(1,2,4))
    ultimately show ?thesis by blast
  next
    case False
    then have "?L \<longleftrightarrow> (\<exists>k. map_of (map prod.swap endpoint_names) c = Some k \<and>
        (\<exists>v. m k = Some v \<and> endpoint_setting oor other k v = Some s))"
      by (simp add: endpoint_spec_def ids split: option.split)
    also have "\<dots> \<longleftrightarrow> ?C"
    proof -
      define N where "N = fst ` set endpoint_names"
      have "k \<in> N" if "endpoint_setting oor other k v = Some s" for k v
        unfolding N_def by (rule endpoint_setting_names [OF that])
      then show ?thesis unfolding ccsmp_name_iff N_def [symmetric] by blast
    qed
    finally show ?thesis using False by simp
  qed
qed

text \<open>
  For every order in which the property map is visited, the property list of a request is the same
  finite map: the fixed kind of endpoint, the queue name, and the C name and text of every setting of the
  property map that has one; and no name appears twice.
\<close>

definition request_properties :: "string list \<Rightarrow> string \<Rightarrow> (string \<times> string) list" where
  "request_properties l queueName = pairs (l @ [SolClientEndpointPropName, queueName])"

lemma validate_success:
  assumes "ranges_over es m" and "validateEndpointProperties oor other es = Inr l"
  shows "distinct (map fst (request_properties l queueName)) \<and>
    map_of (request_properties l queueName) = endpoint_spec oor other m queueName"
proof -
  let ?ps = "concat (map (entry_pairs oor other) es)"
  have "even (length l)" and pairs: "pairs l = (SolClientEndpointPropID, SolClientEndpointPropQueue) # ?ps"
    using validate_loop_spec [of "[SolClientEndpointPropID, SolClientEndpointPropQueue]" es oor other] assms(2)
    by (auto simp: validateEndpointProperties_def)
  then have list: "request_properties l queueName =
      (SolClientEndpointPropID, SolClientEndpointPropQueue) # ?ps @ [(SolClientEndpointPropName, queueName)]"
    by (simp add: request_properties_def pairs_append)
  have named: "c \<noteq> SolClientEndpointPropID \<and> c \<noteq> SolClientEndpointPropName" if "c \<in> fst ` set ?ps" for c
    using that by (auto simp: entry_pairs_mem dest!: endpoint_setting_names ccsmp_name_fixed)
  have "distinct (map fst ?ps)"
    using assms(1) by (intro entry_pairs_distinct) (simp add: ranges_over_def)
  moreover have "SolClientEndpointPropID \<noteq> SolClientEndpointPropName" by (simp add: ccsmp_name_defs)
  ultimately have dist: "distinct (map fst (request_properties l queueName))"
    using named unfolding list by auto
  have "map_of (request_properties l queueName) c = endpoint_spec oor other m queueName c" for c
  proof -
    have "map_of (request_properties l queueName) c = Some s \<longleftrightarrow> endpoint_spec oor other m queueName c = Some s" for s
    proof -
      have "map_of (request_properties l queueName) c = Some s \<longleftrightarrow>
          (c, s) \<in> {(SolClientEndpointPropID, SolClientEndpointPropQueue), (SolClientEndpointPropName, queueName)} \<or>
          (c, s) \<in> set ?ps"
        using dist by (simp only: map_of_eq_Some_iff) (auto simp: list)
      also have "\<dots> \<longleftrightarrow> endpoint_spec oor other m queueName c = Some s"
        using endpoint_spec_Some [of oor other m queueName c s] unfolding entry_pairs_spec [OF assms(1)] by auto
      finally show ?thesis .
    qed
    then show ?thesis by (metis not_None_eq)
  qed
  with dist show ?thesis by blast
qed

lemma validate_total:
  assumes "ranges_over es m"
  shows "(\<exists>l. validateEndpointProperties oor other es = Inr l) \<longleftrightarrow>
    (\<forall>k v. m k = Some v \<longrightarrow> endpoint_accepts oor other k v)"
proof -
  have entries: "m k = Some v \<longleftrightarrow> (k, v) \<in> set es" for k v
    using assms by (auto simp: ranges_over_def)
  show ?thesis
    using validate_loop_spec [of "[SolClientEndpointPropID, SolClientEndpointPropQueue]" es oor other]
    unfolding validateEndpointProperties_def entries by (auto split: sum.splits) blast
qed

text \<open>
  C33. The property list of a request, for every order in which \<^verbatim>\<open>range\<close> visits the property map:
  validation succeeds exactly if every entry has an acceptable value, so whether it does is independent of
  the order; and the list it gives, with the queue name appended, sets no name twice and is the finite map of
  the specification, whatever the order.
\<close>

proposition endpoint_settings:
  assumes "ranges_over es m"
  shows "((\<exists>l. validateEndpointProperties oor other es = Inr l) \<longleftrightarrow>
            (\<forall>k v. m k = Some v \<longrightarrow> endpoint_accepts oor other k v)) \<and>
         (\<forall>l. validateEndpointProperties oor other es = Inr l \<longrightarrow>
            distinct (map fst (request_properties l queueName)) \<and>
            map_of (request_properties l queueName) = endpoint_spec oor other m queueName)"
  using validate_total [OF assms] validate_success [OF assms] by blast

theorem endpoint_settings_witness:
  "\<exists>l. validateEndpointProperties (\<lambda>m e. 0) (\<lambda>v. []) [(EndpointPropertyDurable, EValue (VBool True))] = Inr l \<and>
     map_of (request_properties l ''q'') ''ENDPOINT_DURABLE'' = Some ''1''"
proof -
  have r: "ranges_over [(EndpointPropertyDurable, EValue (VBool True))] DefaultEndpointProperties"
    by (simp add: ranges_over_def DefaultEndpointProperties_def)
  have "\<forall>k v. DefaultEndpointProperties k = Some v \<longrightarrow> endpoint_accepts (\<lambda>m e. 0) (\<lambda>v. []) k v"
    by (auto simp: DefaultEndpointProperties_def endpoint_accepts_simps)
  then obtain l where l: "validateEndpointProperties (\<lambda>m e. 0) (\<lambda>v. []) [(EndpointPropertyDurable, EValue (VBool True))] = Inr l"
      "map_of (request_properties l ''q'') = endpoint_spec (\<lambda>m e. 0) (\<lambda>v. []) DefaultEndpointProperties ''q''"
    using endpoint_settings [OF r, where queueName = "''q''" and oor = "\<lambda>m e. 0" and other = "\<lambda>v. []"] by blast
  have "map_of (map prod.swap endpoint_names) ''ENDPOINT_DURABLE'' = Some EndpointPropertyDurable"
    by (simp add: endpoint_names_def ccsmp_name_defs)
  then have "endpoint_spec (\<lambda>m e. 0) (\<lambda>v. []) DefaultEndpointProperties ''q'' ''ENDPOINT_DURABLE'' = Some ''1''"
    by (simp add: endpoint_spec_def DefaultEndpointProperties_def endpoint_setting_simps)
  with l show ?thesis by auto
qed

text \<open>
  The defaults are accepted, and so is what the typed setters store, except for a redelivery count above
  255 and a permission that is none of the five. A size or quota that came from a JSON document, where every
  number is a \<^verbatim>\<open>float64\<close>, is not accepted, while such a redelivery count is.
\<close>

lemma setters_accepted:
  "endpoint_accepts oor other EndpointPropertyMaxMessageSize (EValue (VUint n))"
  "endpoint_accepts oor other EndpointPropertyQuotaMB (EValue (VUint n))"
  "endpoint_accepts oor other EndpointPropertyMaxMessageRedelivery (EValue (VUint n)) \<longleftrightarrow> 0 \<le> sint n \<and> sint n \<le> 255"
  "endpoint_accepts oor other EndpointPropertyPermission (EPermission s) \<longleftrightarrow> permission_letter s \<noteq> None"
  "\<not> endpoint_accepts oor other EndpointPropertyMaxMessageSize (EValue (VFloat64 m e))"
  "\<not> endpoint_accepts oor other EndpointPropertyQuotaMB (EValue (VFloat64 m e))"
  "endpoint_accepts oor other EndpointPropertyMaxMessageRedelivery (EValue (VFloat64 5 0))"
  "\<not> endpoint_accepts oor other EndpointPropertyPermission (EValue VNil)"
  by (simp_all add: endpoint_accepts_simps int_of_float_def float_truncate_def permission_letter_def endpoint_permission_defs)

section \<open>A pending request\<close>

text \<open>No operation of a sequence confirms the request at an address or shuts the table down.\<close>

definition unanswered :: "nat \<Rightarrow> corr_op list \<Rightarrow> bool" where
  "unanswered a ys \<longleftrightarrow> (\<forall>x \<in> set ys. (\<forall>e. x \<noteq> OpConfirm (of_nat (a + 1)) e) \<and> x \<noteq> OpShutdown)"

context completion_table
begin

text \<open>
  A request that is still in the table has heard nothing, one that has left it finds its event in its
  channel; the event comes from the operations since.
\<close>

definition awaits :: "nat \<Rightarrow> corr_op list \<Rightarrow> 's \<Rightarrow> bool" where
  "awaits a ys s \<longleftrightarrow> corr_inv (view s) \<and> a < length (corr_store (view s)) \<and>
     (if unanswered a ys then (of_nat (a + 1), a) \<in> set (corr_map (view s))
      else \<exists>ev. corr_store (view s) ! a = full_chan ev \<and> ce_id ev = of_nat (a + 1) \<and> from_ops down ys ev)"

lemma full_not_pending:
  "corr_inv t \<Longrightarrow> corr_store t ! a = full_chan ev \<Longrightarrow> a \<notin> snd ` set (corr_map t)"
  using corr_inv_entry by (force simp: full_chan_def make_chan_def)

lemma from_ops_mono: "from_ops down ys ev \<Longrightarrow> from_ops down (ys @ [x]) ev"
  by (auto simp: from_ops_def)

lemma awaits_quiet:
  assumes "awaits a ys s" and "corr_inv (view s')" and "length (corr_store (view s)) \<le> length (corr_store (view s'))"
    and "unanswered a ys \<Longrightarrow> (of_nat (a + 1), a) \<in> set (corr_map (view s')) \<and> unanswered a [x]"
    and "\<not> unanswered a ys \<Longrightarrow> corr_store (view s') ! a = corr_store (view s) ! a"
  shows "awaits a (ys @ [x]) s'"
proof -
  have "unanswered a (ys @ [x]) \<longleftrightarrow> unanswered a ys" using assms(4) by (auto simp: unanswered_def)
  with assms show ?thesis unfolding awaits_def by (cases "unanswered a ys") (simp_all, metis from_ops_mono)
qed

lemma awaits_sent:
  assumes "awaits a ys s" and "corr_inv (view s')" and "stored l (view s) (view s')"
    and "l = map (\<lambda>(j, b). (b, \<lparr>ce_id = j, ce_err = err\<rparr>)) (filter P (corr_map (view s)))"
    and "corr_map (view s') = filter (\<lambda>p. \<not> P p) (corr_map (view s))"
    and "P (of_nat (a + 1), a) \<longleftrightarrow> \<not> unanswered a [x]"
    and "x = OpConfirm (of_nat (a + 1)) err \<or> x = OpShutdown \<and> err = Some down \<or> unanswered a [x]"
  shows "awaits a (ys @ [x]) s'"
proof (cases "unanswered a ys \<and> \<not> unanswered a [x]")
  case True
  then have "(a, \<lparr>ce_id = of_nat (a + 1), ce_err = err\<rparr>) \<in> set l"
    using assms(1,4,6) by (force simp: awaits_def)
  then have "corr_store (view s') ! a = full_chan \<lparr>ce_id = of_nat (a + 1), ce_err = err\<rparr>"
    using assms(3) unfolding stored_def by blast
  moreover have "from_ops down (ys @ [x]) \<lparr>ce_id = of_nat (a + 1), ce_err = err\<rparr>"
    using assms(7) True by (auto simp: from_ops_def)
  moreover have "\<not> unanswered a (ys @ [x])" using True by (auto simp: unanswered_def)
  moreover have "a < length (corr_store (view s'))" using assms(1,3) by (simp add: awaits_def stored_def)
  ultimately show ?thesis using assms(2) unfolding awaits_def by auto
next
  case False
  have "a \<notin> fst ` set l" if "\<not> unanswered a ys"
  proof -
    have "a \<notin> snd ` set (corr_map (view s))" using assms(1) that full_not_pending by (auto simp: awaits_def)
    then show ?thesis by (force simp: assms(4))
  qed
  then have "corr_store (view s') ! a = corr_store (view s) ! a" if "\<not> unanswered a ys"
    using assms(3) that by (auto simp: stored_def)
  with False assms show ?thesis
    by (intro awaits_quiet [OF assms(1,2)]) (auto simp: stored_def awaits_def)
qed

lemma awaits_step:
  assumes "awaits a ys s" and "x \<noteq> OpCancel (of_nat (a + 1))" and "x \<noteq> OpTake a"
    and "length (corr_store (view s)) + 1 < 2 ^ 64"
  shows "\<exists>l s'. op_exec ops x s = Return (l, s') \<and> awaits a (ys @ [x]) s' \<and>
    length (corr_store (view s')) = length (corr_store (view s)) + (if x = OpRequest then 1 else 0)"
proof -
  have inv: "corr_inv (view s)" and len: "a < length (corr_store (view s))" using assms(1) by (simp_all add: awaits_def)
  show ?thesis
  proof (cases x)
    case OpRequest
    have "awaits a (ys @ [x]) (snd (op_request ops s))"
      using corr_inv_new [OF inv assms(4)] len assms(1)
      by (intro awaits_quiet [OF assms(1)]) (auto simp: view_request OpRequest unanswered_def awaits_def nth_append)
    with OpRequest corr_inv_new [OF inv assms(4)] show ?thesis by (simp add: view_request)
  next
    case (OpCancel i)
    have "awaits a (ys @ [x]) (op_cancel ops i s)"
      using corr_inv_clear [OF inv, of i] assms(1,2)
      by (intro awaits_quiet [OF assms(1)])
        (auto simp: view_cancel OpCancel unanswered_def awaits_def corr_clear_def delete_filter)
    with OpCancel show ?thesis by (simp add: view_cancel corr_clear_def)
  next
    case (OpConfirm i err)
    obtain l t' where t': "corr_complete i err (view s) = Return (l, t')" "corr_inv t'" "stored l (view s) t'"
        "corr_map t' = filter (\<lambda>p. fst p \<noteq> i) (corr_map (view s))"
        "l = map (\<lambda>(j, a). (a, \<lparr>ce_id = j, ce_err = err\<rparr>)) (filter (\<lambda>p. fst p = i) (corr_map (view s)))"
      using corr_complete_ok [OF inv, of i err] by blast
    then obtain s' where "op_confirm ops i err s = Return (l, s')" and s': "t' = view s'"
      using view_confirm [of i err s] by (auto simp: outcome_map_Return)
    moreover have "awaits a (ys @ [x]) s'"
      using t'(2,3,5,4) unfolding s' by (rule awaits_sent [OF assms(1)]) (auto simp: OpConfirm unanswered_def)
    moreover have "length (corr_store (view s')) = length (corr_store (view s))"
      using t'(3) s' by (simp add: stored_def)
    ultimately show ?thesis using OpConfirm by simp
  next
    case OpShutdown
    obtain t' where t': "corr_flush down (view s) =
          Return (map (\<lambda>(j, a). (a, \<lparr>ce_id = j, ce_err = Some down\<rparr>)) (corr_map (view s)), t')" "corr_inv t'"
        "corr_map t' = []" "stored (map (\<lambda>(j, a). (a, \<lparr>ce_id = j, ce_err = Some down\<rparr>)) (corr_map (view s))) (view s) t'"
      using flush_loop_ok [OF inv, of _ down] unfolding corr_flush_def by blast
    then obtain s' where "op_shutdown ops s =
        Return (map (\<lambda>(j, a). (a, \<lparr>ce_id = j, ce_err = Some down\<rparr>)) (corr_map (view s)), s')" and s': "t' = view s'"
      using view_shutdown [of s] by (auto simp: outcome_map_Return)
    moreover have "awaits a (ys @ [x]) s'"
      using t'(2-4) unfolding s'
      by (intro awaits_sent [OF assms(1), where P = "\<lambda>p. True" and err = "Some down"]) (auto simp: OpShutdown unanswered_def)
    moreover have "length (corr_store (view s')) = length (corr_store (view s))"
      using t'(4) s' by (simp add: stored_def)
    ultimately show ?thesis using OpShutdown by simp
  next
    case (OpTake b)
    show ?thesis
    proof (cases "op_take ops b s")
      case (Return r)
      obtain ev s' where r: "r = (ev, s')" by (cases r)
      have "corr_take b (view s) = Return (ev, view s')" using view_take [of b s] Return r by simp
      note take = corr_inv_take [OF inv this]
      have "awaits a (ys @ [x]) s'"
        using take assms(1,3) by (intro awaits_quiet [OF assms(1)]) (auto simp: OpTake unanswered_def awaits_def)
      with Return r OpTake take show ?thesis by simp
    next
      case Blocks
      have "awaits a (ys @ [x]) s"
        using inv assms(1) by (intro awaits_quiet [OF assms(1)]) (auto simp: OpTake unanswered_def awaits_def)
      with Blocks OpTake show ?thesis by simp
    next
      case (Panics p)
      with view_take [of b s, symmetric] have "corr_take b (view s) = Panics p" by simp
      then show ?thesis by (auto simp: corr_take_def chan_recv_def split: list.splits if_splits)
    qed
  qed
qed

lemma awaits_run:
  "awaits a xs s \<Longrightarrow> OpCancel (of_nat (a + 1)) \<notin> set ys \<Longrightarrow> OpTake a \<notin> set ys \<Longrightarrow>
     length (corr_store (view s)) + length ys < 2 ^ 64 \<Longrightarrow>
     \<exists>l s'. run_ops ops ys s = Return (l, s') \<and> awaits a (xs @ ys) s'"
proof (induction ys arbitrary: xs s)
  case Nil
  then show ?case by simp
next
  case (Cons y ys)
  from awaits_step [OF Cons.prems(1), of y] Cons.prems(2-4) obtain l s1 where
    s1: "op_exec ops y s = Return (l, s1)" "awaits a (xs @ [y]) s1"
      "length (corr_store (view s1)) \<le> length (corr_store (view s)) + 1" by auto
  then obtain l' s' where "run_ops ops ys s1 = Return (l', s')" "awaits a ((xs @ [y]) @ ys) s'"
    using Cons.IH [OF s1(2)] Cons.prems(2-4) by auto
  with s1(1) show ?case by simp
qed

text \<open>What a wait for the channel of a request gives.\<close>

lemma awaits_take:
  assumes "awaits a ys s"
  shows "if unanswered a ys then op_take ops a s = Blocks
    else \<exists>ev s'. op_take ops a s = Return (Some ev, s') \<and> ce_id ev = of_nat (a + 1) \<and> from_ops down ys ev"
proof (cases "unanswered a ys")
  case True
  then have "corr_store (view s) ! a = make_chan 1"
    using assms corr_inv_entry [of "view s" "of_nat (a + 1)" a] by (simp add: awaits_def)
  then have "corr_take a (view s) = Blocks" by (simp add: corr_take_def chan_recv_def make_chan_def)
  then have "op_take ops a s = Blocks" using view_take [of a s] by (cases "op_take ops a s") auto
  with True show ?thesis by simp
next
  case False
  then obtain ev where ev: "corr_store (view s) ! a = full_chan ev" "ce_id ev = of_nat (a + 1)" "from_ops down ys ev"
    using assms by (auto simp: awaits_def)
  then have "\<exists>t. corr_take a (view s) = Return (Some ev, t)" by (simp add: corr_take_def full_chan_def chan_recv_def)
  then have "\<exists>s'. op_take ops a s = Return (Some ev, s')" using view_take [of a s] by (auto simp: outcome_map_Return)
  with False ev show ?thesis by auto
qed

lemma awaits_request:
  assumes "corr_inv (view s)" and "length (corr_store (view s)) + 1 < 2 ^ 64"
  shows "awaits (length (corr_store (view s))) [] (snd (op_request ops s))"
  using corr_inv_new [OF assms] by (simp add: awaits_def view_request unanswered_def)

end

lemma provision_history:
  assumes "provisionCorrelations p = corr_empty" and "run_ops provision_ops xs p = Return (log, core)"
    and "length xs < 2 ^ 64"
  shows "corr_inv (provisionCorrelations core) \<and> length (corr_store (provisionCorrelations core)) \<le> length xs"
proof -
  have "length (filter (\<lambda>x. x = OpRequest) xs) < 2 ^ 64"
    using assms(3) length_filter_le [of "\<lambda>x. x = OpRequest" xs] by linarith
  from provtab.heard_run [OF assms(1) this] assms(2) provtab.heard_basic show ?thesis by fastforce
qed

text \<open>A request that the core provisioner and the C library accept, followed by what others do.\<close>

lemma provision_wait:
  assumes "provisionCorrelations p = corr_empty" and "run_ops provision_ops xs p = Return (log, core)"
    and "a = length (corr_store (provisionCorrelations core))"
    and "OpCancel (of_nat (a + 1)) \<notin> set ys" and "OpTake a \<notin> set ys" and "length xs + length ys + 1 < 2 ^ 64"
  shows "\<exists>core1 l core2. getNewProvisionCorrelation core = ((of_nat (a + 1), a), core1) \<and>
    run_ops provision_ops ys core1 = Return (l, core2) \<and>
    (if unanswered a ys then provision_await a core2 = Blocks
     else \<exists>ev core3. provision_await a core2 = Return (Some ev, core3) \<and>
       (OpConfirm (of_nat (a + 1)) (ce_err ev) \<in> set ys \<or> OpShutdown \<in> set ys \<and> ce_err ev = Some provisionTerminationError))"
proof -
  have inv: "corr_inv (provisionCorrelations core)" and len: "a \<le> length xs"
    using provision_history [OF assms(1,2)] assms(3,6) by simp_all
  have bound: "length (corr_store (provisionCorrelations core)) + 1 < 2 ^ 64" using len assms(3,6) by simp
  let ?core1 = "snd (getNewProvisionCorrelation core)"
  have new: "getNewProvisionCorrelation core = ((of_nat (a + 1), a), ?core1)"
    using corr_inv_new [OF inv bound]
    by (auto simp: getNewProvisionCorrelation_def assms(3) split: prod.split)
  have aw: "provtab.awaits a [] ?core1"
    using provtab.awaits_request [OF inv bound] by (simp add: assms(3) provision_ops_def)
  have "length (corr_store (provisionCorrelations ?core1)) = a + 1"
    using corr_inv_new [OF inv bound] by (simp add: getNewProvisionCorrelation_def assms(3) case_prod_beta)
  with provtab.awaits_run [OF aw assms(4,5)] len assms(6) obtain l core2 where
    run: "run_ops provision_ops ys ?core1 = Return (l, core2)" and "provtab.awaits a ys core2" by auto
  note take = provtab.awaits_take [OF this(2)]
  have "op_take provision_ops = provision_await" by (simp add: provision_ops_def)
  with new run take show ?thesis by (auto simp: from_ops_def split: if_splits)
qed

text \<open>
  A provisioning call whose properties are valid and which the C library takes, after any history of
  requests and while other callers and the event thread operate on the same provisioner in any order: the call
  waits exactly as long as neither its own confirmation has come nor the provisioner has been shut down, and then
  returns; its status is true exactly if it reports no error, and the error is the one of a confirmation with its
  own number, or that of the shutdown.
\<close>

proposition endpoint_provision_returns:
  assumes "provisionCorrelations p = corr_empty" and "run_ops provision_ops xs p = Return (log, core)"
    and "core_provisioner_IsRunning core" and "validateEndpointProperties oor other properties = Inr l"
    and "\<And>i. async (l @ [SolClientEndpointPropName, queueName]) i ignoreExists = None"
    and "a = length (corr_store (provisionCorrelations core))"
    and "OpCancel (of_nat (a + 1)) \<notin> set ys" and "OpTake a \<notin> set ys" and "length xs + length ys + 1 < 2 ^ 64"
  shows "if unanswered a ys
    then endpoint_Provision async oor other properties queueName ignoreExists
           (\<lambda>core. outcome_map snd (run_ops provision_ops ys core)) core = Blocks
    else \<exists>out core'. endpoint_Provision async oor other properties queueName ignoreExists
           (\<lambda>core. outcome_map snd (run_ops provision_ops ys core)) core = Return (out, core') \<and>
         (po_ok out \<longleftrightarrow> po_err out = None) \<and>
         (OpConfirm (of_nat (a + 1)) (po_err out) \<in> set ys \<or>
          OpShutdown \<in> set ys \<and> po_err out = Some provisionTerminationError)"
proof -
  from provision_wait [OF assms(1,2,6-9)] obtain core1 l' core2 where
    c: "getNewProvisionCorrelation core = ((of_nat (a + 1), a), core1)" "run_ops provision_ops ys core1 = Return (l', core2)"
    and w: "if unanswered a ys then provision_await a core2 = Blocks
     else \<exists>ev core3. provision_await a core2 = Return (Some ev, core3) \<and>
       (OpConfirm (of_nat (a + 1)) (ce_err ev) \<in> set ys \<or> OpShutdown \<in> set ys \<and> ce_err ev = Some provisionTerminationError)"
    by blast
  have req: "endpoint_request (\<lambda>ps. Provision async ps ignoreExists)
             UnableToProvisionParentServiceNotStarted FailedToProvisionEndpoint
             (validateEndpointProperties oor other properties) queueName core = (Inr (of_nat (a + 1), Some a), core1)"
    by (simp add: endpoint_request_def assms(3,4,5) Provision_def c(1))
  show ?thesis
  proof (cases "unanswered a ys")
    case True
    with w show ?thesis by (simp add: endpoint_Provision_def req c(2) endpoint_await_def del: of_nat_Suc)
  next
    case False
    with w obtain ev core3 where "provision_await a core2 = Return (Some ev, core3)"
      "OpConfirm (of_nat (a + 1)) (ce_err ev) \<in> set ys \<or> OpShutdown \<in> set ys \<and> ce_err ev = Some provisionTerminationError"
      by auto
    with False show ?thesis
      by (cases "ce_err ev") (auto simp: endpoint_Provision_def req c(2) endpoint_await_def)
  qed
qed

theorem endpoint_provision_returns_witness:
  "\<exists>out core'. endpoint_Provision (\<lambda>ps i b. None) (\<lambda>m e. 0) (\<lambda>v. []) [] ''q'' False
       (\<lambda>core. outcome_map snd (run_ops provision_ops [OpConfirm 1 None] core))
       (newCcsmpEndpointProvisioner\<lparr>prov_isRunning := 1\<rparr>) = Return (out, core') \<and> po_ok out"
proof -
  let ?core = "newCcsmpEndpointProvisioner\<lparr>prov_isRunning := 1\<rparr>"
  have "provisionCorrelations ?core = corr_empty" "run_ops provision_ops [] ?core = Return ([], ?core)"
      "core_provisioner_IsRunning ?core"
      "validateEndpointProperties (\<lambda>m e. 0) (\<lambda>v. []) [] = Inr [SolClientEndpointPropID, SolClientEndpointPropQueue]"
      "0 = length (corr_store (provisionCorrelations ?core))"
    by (simp_all add: newCcsmpEndpointProvisioner_def core_provisioner_IsRunning_def validateEndpointProperties_def corr_empty_def)
  from endpoint_provision_returns [OF this(1-4) _ this(5), where async = "\<lambda>ps i b. None"
      and ys = "[OpConfirm 1 None]" and queueName = "''q''" and ignoreExists = False]
  show ?thesis by (auto simp: unanswered_def)
qed

text \<open>The same for the other request: it reports exactly the error of its confirmation or of the shutdown.\<close>

lemma endpoint_deprovision_returns:
  assumes "provisionCorrelations p = corr_empty" and "run_ops provision_ops xs p = Return (log, core)"
    and "core_provisioner_IsRunning core" and "validateEndpointProperties oor other properties = Inr l"
    and "\<And>i. async (l @ [SolClientEndpointPropName, queueName]) i ignoreMissing = None"
    and "a = length (corr_store (provisionCorrelations core))"
    and "OpCancel (of_nat (a + 1)) \<notin> set ys" and "OpTake a \<notin> set ys" and "length xs + length ys + 1 < 2 ^ 64"
    and "\<not> unanswered a ys"
  shows "\<exists>err core'. endpoint_Deprovision async oor other properties queueName ignoreMissing
           (\<lambda>core. outcome_map snd (run_ops provision_ops ys core)) core = Return (err, core') \<and>
         (OpConfirm (of_nat (a + 1)) err \<in> set ys \<or> OpShutdown \<in> set ys \<and> err = Some provisionTerminationError)"
proof -
  from provision_wait [OF assms(1,2,6-9)] assms(10) obtain core1 l' core2 ev core3 where
    c: "getNewProvisionCorrelation core = ((of_nat (a + 1), a), core1)" "run_ops provision_ops ys core1 = Return (l', core2)"
      "provision_await a core2 = Return (Some ev, core3)"
    and w: "OpConfirm (of_nat (a + 1)) (ce_err ev) \<in> set ys \<or> OpShutdown \<in> set ys \<and> ce_err ev = Some provisionTerminationError"
    by auto
  have "endpoint_request (\<lambda>ps. Deprovision async ps ignoreMissing)
             UnableToDeprovisionParentServiceNotStarted FailedToDeprovisionEndpoint
             (validateEndpointProperties oor other properties) queueName core = (Inr (of_nat (a + 1), Some a), core1)"
    by (simp add: endpoint_request_def assms(3,4,5) Deprovision_def c(1))
  with c w show ?thesis by (simp add: endpoint_Deprovision_def endpoint_await_def)
qed

section \<open>Calls that fail before the request\<close>

text \<open>
  What a call reports before it waits: the state of the service first, then an invalid property, then what
  the C library reports, and then nothing of the request stays in the table.
\<close>

definition no_trace :: "ccsmpBackedEndpointProvisioner \<Rightarrow> ccsmpBackedEndpointProvisioner \<Rightarrow> bool" where
  "no_trace core core' \<longleftrightarrow>
     corr_map (provisionCorrelations core') = corr_map (provisionCorrelations core) \<and>
     prov_isRunning core' = prov_isRunning core \<and> corr_inv (provisionCorrelations core')"

lemma corr_new_clear:
  assumes "corr_inv t" and "length (corr_store t) + 1 < 2 ^ 64"
  shows "corr_inv (corr_clear (fst (fst (corr_new t))) (snd (corr_new t))) \<and>
    corr_map (corr_clear (fst (fst (corr_new t))) (snd (corr_new t))) = corr_map t"
proof -
  note new = corr_inv_new [OF assms]
  from new have "corr_inv (snd (corr_new t))" by blast
  then have "distinct (map fst (corr_map (snd (corr_new t))))" unfolding corr_inv_def by blast
  then have "of_nat (length (corr_store t) + 1) \<notin> fst ` set (corr_map t)" using new by auto
  with new have "corr_map (corr_clear (fst (fst (corr_new t))) (snd (corr_new t))) = corr_map t"
    by (simp add: corr_clear_def delete_filter filter_key_fresh)
  with corr_inv_clear new show ?thesis by blast
qed

text \<open>
  Every way in which a provisioning call fails before it waits: an unstarted service gives an
  illegal state and the C library is not called; an entry of the property map that is not acceptable gives the
  error of such an entry, and again nothing is requested; an error of the C library is translated. The call then
  returns at once, with the status false, and the table of pending requests is as before.
\<close>

proposition endpoint_provision_fails:
  assumes "corr_inv (provisionCorrelations core)" and "length (corr_store (provisionCorrelations core)) + 1 < 2 ^ 64"
    and "\<not> core_provisioner_IsRunning core \<or> validateEndpointProperties oor other properties = Inl invalid \<or>
      validateEndpointProperties oor other properties = Inr l \<and>
      (\<forall>i. async (l @ [SolClientEndpointPropName, queueName]) i ignoreExists = Some errInfo)"
  shows "\<exists>e core'. endpoint_Provision async oor other properties queueName ignoreExists meanwhile core =
             Return (\<lparr>po_ok = False, po_err = Some e\<rparr>, core') \<and> no_trace core core' \<and>
         e = (if \<not> core_provisioner_IsRunning core
              then NewError IllegalStateError UnableToProvisionParentServiceNotStarted [] None
              else if validateEndpointProperties oor other properties = Inl invalid then invalid
              else ToNativeError errInfo FailedToProvisionEndpoint) \<and>
         (core_provisioner_IsRunning core \<and> validateEndpointProperties oor other properties = Inl invalid \<longrightarrow>
            (\<exists>(k, v) \<in> set properties. \<not> endpoint_accepts oor other k v \<and> validate_entry oor other k v = Inl invalid))"
proof -
  have same: "no_trace core core" using assms(1) by (simp add: no_trace_def)
  note cleared = corr_new_clear [OF assms(1,2)]
  consider "\<not> core_provisioner_IsRunning core"
    | "core_provisioner_IsRunning core" "validateEndpointProperties oor other properties = Inl invalid"
    | "core_provisioner_IsRunning core" "validateEndpointProperties oor other properties = Inr l"
      "\<forall>i. async (l @ [SolClientEndpointPropName, queueName]) i ignoreExists = Some errInfo"
    using assms(3) by blast
  then show ?thesis
  proof cases
    case 1
    with same show ?thesis by (simp add: endpoint_Provision_def endpoint_request_def)
  next
    case 2
    then have "\<exists>(k, v) \<in> set properties. \<not> endpoint_accepts oor other k v \<and> validate_entry oor other k v = Inl invalid"
      using validate_loop_spec [of "[SolClientEndpointPropID, SolClientEndpointPropQueue]" properties oor other]
      by (simp add: validateEndpointProperties_def case_prod_beta)
    with 2 same show ?thesis by (simp add: endpoint_Provision_def endpoint_request_def)
  next
    case 3
    then show ?thesis using cleared
      by (simp add: endpoint_Provision_def endpoint_request_def Provision_def getNewProvisionCorrelation_def
          ClearProvisionCorrelation_def no_trace_def case_prod_beta)
  qed
qed

theorem endpoint_provision_fails_witness:
  "\<exists>e core'. endpoint_Provision (\<lambda>ps i b. None) (\<lambda>m e. 0) (\<lambda>v. []) [] ''q'' False Return newCcsmpEndpointProvisioner =
       Return (\<lparr>po_ok = False, po_err = Some e\<rparr>, core') \<and> error_kind_of e = Some IllegalStateError"
proof -
  have "corr_inv (provisionCorrelations newCcsmpEndpointProvisioner)"
      "length (corr_store (provisionCorrelations newCcsmpEndpointProvisioner)) + 1 < 2 ^ 64"
      "\<not> core_provisioner_IsRunning newCcsmpEndpointProvisioner"
    by (simp_all add: newCcsmpEndpointProvisioner_def corr_inv_empty core_provisioner_IsRunning_def)
      (simp add: corr_empty_def)
  with endpoint_provision_fails [of newCcsmpEndpointProvisioner "\<lambda>m e. 0" "\<lambda>v. []" "[]" undefined
      undefined "\<lambda>ps i b. None" "''q''" False undefined Return]
  show ?thesis by auto
qed

text \<open>
  A deprovisioning call validates and sends the accumulated properties, although they do not matter for it: an
  invalid one makes it fail with that property's error.
\<close>

lemma deprovision_validates:
  "core_provisioner_IsRunning core \<Longrightarrow> validateEndpointProperties oor other properties = Inl invalid \<Longrightarrow>
     endpoint_Deprovision async oor other properties queueName ignoreMissing meanwhile core = Return (Some invalid, core)"
  by (simp add: endpoint_Deprovision_def endpoint_request_def)

text \<open>The channel of an asynchronous call holds its result and is closed.\<close>

lemma async_result_chan:
  "async_result call = outcome_map (\<lambda>(r, core). (\<lparr>chan_items = [r], chan_cap = 1, chan_closed = True\<rparr>, core)) call"
  by (cases call) (auto simp: async_result_def chan_defs)

end
