(* ===== verification/Persistent_Receiver.thy ===== *)
theory Persistent_Receiver
  imports Executor Direct_Receiver Endpoint_Provisioner
begin

text \<open>
  The persistent message receiver (\<^verbatim>\<open>internal/impl/receiver/persistent_message_receiver_impl.go\<close>). It binds a
  flow of the C library to a queue. Messages of the flow go into a buffer; the flow is stopped when the buffer
  is long and started again when it is short; messages are acknowledged by the receiver or by the application; and
  the delivery to a callback can be paused and resumed.

  This theory has the data, the builder, and every operation as an uninterrupted call on the receiver, the core
  receiver and the event service; what the C library answers is an argument. The theory \<open>Flow_Concurrency\<close> has
  the operations that run at the same time. A message is its pointer, a number, and the message identifier that
  the C library reads from it is a function of the pointer.
\<close>

section \<open>State\<close>

record Queue =
  q_name :: string
  q_durable :: bool
  q_exclusive :: bool

datatype flow_event =
    SolClientFlowEventUpNotice | SolClientFlowEventDownError | SolClientFlowEventBindFailedError
  | SolClientFlowEventRejectedMsgError | SolClientFlowEventSessionDown | SolClientFlowEventActive
  | SolClientFlowEventInactive | SolClientFlowEventReconnecting | SolClientFlowEventReconnected

text \<open>A call of the state change listener, by its two states.\<close>

datatype ReceiverState = ReceiverActive | ReceiverPassive

text \<open>The flow of the C library: not created, created (and whether it delivers messages), destroyed, or abandoned with its session.\<close>

datatype flow_state = NoFlow | Flow bool | FlowDestroyed | FlowAbandoned

record 'cb persistentMessageReceiverImpl =
  pr_lifecycle :: lifecycle
  pr_terminationListener :: bool
  internalFlowStopped :: nat
  internalFlow :: flow_state
  internalFlowProperties :: "string list"
  pr_queue :: Queue
  doCreateMissingResources :: bool
  doAutoAck :: bool
  stateChangeListener :: bool
  pr_subscriptions :: "string list"
  outstandingSubscriptionEvents :: "u64 set"
  highwater :: nat
  lowwater :: nat
  pr_buffer :: "nat chan"
  pr_bufferClosed :: nat
  doPause :: nat
  doUnpause :: "unit chan"
  pauseInterrupt :: "unit chan"
  pr_bufferEmptyOnTerminateFlag :: nat
  pr_bufferEmptyOnTerminate :: bool
  pr_terminationNotification :: bool
  pr_terminationComplete :: bool
  pr_rxCallbackSet :: "bool chan"
  pr_rxCallback :: "'cb option"
  pr_terminationHandlerID :: u64
  pr_eventExecutor :: "(ReceiverState \<times> ReceiverState) executor"
  pr_termination_discarded :: nat
  duplicate_acks :: nat

record persistentMessageReceiverProps =
  flowProperties :: "string list"
  startupSubscriptions :: "Subscription list"
  endpoint :: Queue
  bufferHighwater :: nat
  bufferLowwater :: nat
  props_doCreateMissingResource :: bool
  props_doAutoAck :: bool
  props_stateChangeListener :: bool

text \<open>
  The size of the buffer is computed from the field \<^verbatim>\<open>highwater\<close>, which is still zero: the assignment comes after.
\<close>

definition maxWindowSize :: nat where
  "maxWindowSize = 255"

definition persistent_rx_construct :: "persistentMessageReceiverProps \<Rightarrow> 'cb persistentMessageReceiverImpl" where
  "persistent_rx_construct props =
     (let zero_highwater = 0; bufferSize = 2 * maxWindowSize + 2 * zero_highwater
      in \<lparr>pr_lifecycle = lifecycle_construct, pr_terminationListener = False, internalFlowStopped = 0,
          internalFlow = NoFlow, internalFlowProperties = flowProperties props, pr_queue = endpoint props,
          doCreateMissingResources = props_doCreateMissingResource props, doAutoAck = props_doAutoAck props,
          stateChangeListener = props_stateChangeListener props,
          pr_subscriptions = map GetName (startupSubscriptions props), outstandingSubscriptionEvents = {},
          highwater = bufferHighwater props, lowwater = bufferLowwater props, pr_buffer = make_chan bufferSize,
          pr_bufferClosed = 0, doPause = 0, doUnpause = make_chan 1, pauseInterrupt = make_chan 1,
          pr_bufferEmptyOnTerminateFlag = 0, pr_bufferEmptyOnTerminate = False,
          pr_terminationNotification = False, pr_terminationComplete = False, pr_rxCallbackSet = make_chan 1,
          pr_rxCallback = None, pr_terminationHandlerID = 0, pr_eventExecutor = NewExecutor,
          pr_termination_discarded = 0, duplicate_acks = 0\<rparr>)"

section \<open>Flow events\<close>

text \<open>The result says whether a goroutine with \<^verbatim>\<open>unsolicitedTermination(eventInfo, true)\<close> is started.\<close>

definition submit_state_change ::
    "ReceiverState \<times> ReceiverState \<Rightarrow> 'cb persistentMessageReceiverImpl \<Rightarrow> 'cb persistentMessageReceiverImpl" where
  "submit_state_change c receiver =
     (if stateChangeListener receiver
      then (case Submit c (pr_eventExecutor receiver) of
              Return (b, ex) \<Rightarrow> receiver\<lparr>pr_eventExecutor := ex\<rparr>
            | _ \<Rightarrow> receiver)
      else receiver)"

definition onFlowEvent ::
    "flow_event \<Rightarrow> 'cb persistentMessageReceiverImpl \<Rightarrow> bool \<times> 'cb persistentMessageReceiverImpl" where
  "onFlowEvent event receiver =
     (case event of
        SolClientFlowEventDownError \<Rightarrow> (True, receiver)
      | SolClientFlowEventActive \<Rightarrow> (False, submit_state_change (ReceiverPassive, ReceiverActive) receiver)
      | SolClientFlowEventInactive \<Rightarrow> (False, submit_state_change (ReceiverActive, ReceiverPassive) receiver)
      | _ \<Rightarrow> (False, receiver))"

section \<open>Start\<close>

definition subcode_EndpointAlreadyExists :: int where
  "subcode_EndpointAlreadyExists = 75"

definition provisionEndpoint ::
    "(endpoint_property list \<Rightarrow> ErrorInfo option) \<Rightarrow> 'cb persistentMessageReceiverImpl \<Rightarrow> go_error option" where
  "provisionEndpoint lib receiver =
     (if doCreateMissingResources receiver \<and> q_durable (pr_queue receiver)
      then (case ProvisionEndpoint lib (q_name (pr_queue receiver)) (q_exclusive (pr_queue receiver)) of
              Some errInfo \<Rightarrow>
                if ErrorInfo_SubCode errInfo = subcode_EndpointAlreadyExists then None
                else Some (ToNativeError errInfo [])
            | None \<Rightarrow> None)
      else None)"

text \<open>What the C library answers to the requests of a start.\<close>

record start_answers =
  ans_provision :: "endpoint_property list \<Rightarrow> ErrorInfo option"
  ans_createFlow :: "string list \<Rightarrow> ErrorInfo option"
  ans_flowStart :: "ErrorInfo option"
  ans_flowSubscribe :: "string \<Rightarrow> u64 \<Rightarrow> ErrorInfo option"

text \<open>The loop of the requests: the error that ended it, and the numbers and channels of those made.\<close>

fun flow_subscribe_loop ::
    "(string \<Rightarrow> u64 \<Rightarrow> ErrorInfo option) \<Rightarrow> string list \<Rightarrow> 'c ccsmpBackedReceiver
       \<Rightarrow> go_error option \<times> (u64 \<times> nat) list \<times> 'c ccsmpBackedReceiver" where
  "flow_subscribe_loop lib [] core = (None, [], core)"
| "flow_subscribe_loop lib (subscription # rest) core =
     (case flow_Subscribe lib subscription core of
        (Inl errInfo, core) \<Rightarrow> (Some (ToNativeError errInfo FailedToAddSubscription), [], core)
      | (Inr (i, c), core) \<Rightarrow>
          (case flow_subscribe_loop lib rest core of (err, added, core) \<Rightarrow> (err, (i, c) # added, core)))"

definition persistent_rx_Start_begin ::
    "'h \<Rightarrow> start_answers \<Rightarrow> 'h ccsmpBackedEvents \<Rightarrow> 'c ccsmpBackedReceiver \<Rightarrow> 'cb persistentMessageReceiverImpl
       \<Rightarrow> go_error option outcome proceed \<times> go_error option \<times> (u64 \<times> nat) list \<times>
          'h ccsmpBackedEvents \<times> 'c ccsmpBackedReceiver \<times> 'cb persistentMessageReceiverImpl" where
  "persistent_rx_Start_begin handler lib events core receiver =
     (case receiver_starting (core_receiver_IsRunning core) (pr_lifecycle receiver) of
        (Stop r, l) \<Rightarrow> (Stop r, None, [], events, core, receiver\<lparr>pr_lifecycle := l\<rparr>)
      | (Proceed, l) \<Rightarrow>
          let receiver = receiver\<lparr>pr_lifecycle := l\<rparr>
          in case provisionEndpoint (ans_provision lib) receiver of
               Some err \<Rightarrow> (Proceed, Some err, [], events, core, receiver)
             | None \<Rightarrow>
                 let (i, events) = AddEventHandler SolClientEventDown handler events;
                     receiver = receiver\<lparr>pr_terminationHandlerID := i\<rparr>
                 in case ans_createFlow lib (internalFlowProperties receiver) of
                      Some e \<Rightarrow>
                        (Proceed, Some (ToNativeError e ''error while creating receiver flow: ''), [], events, core, receiver)
                    | None \<Rightarrow>
                        (case ans_flowStart lib of
                           Some e \<Rightarrow>
                             (Proceed, Some (ToNativeError e ''error while starting receiver flow: ''), [], events, core,
                              receiver\<lparr>internalFlow := Flow False\<rparr>)
                         | None \<Rightarrow>
                             let receiver = receiver\<lparr>internalFlow := Flow True\<rparr>;
                                 (err, added, core) =
                                   flow_subscribe_loop (ans_flowSubscribe lib) (pr_subscriptions receiver) core
                             in (Proceed, err, added, events, core, receiver)))"

text \<open>The deferred functions after an error: the correlations first, then the handler, the flow, and the state.\<close>

definition persistent_rx_Start_fail ::
    "go_error option \<Rightarrow> (u64 \<times> nat) list \<Rightarrow> 'h ccsmpBackedEvents \<Rightarrow> 'c ccsmpBackedReceiver
       \<Rightarrow> 'cb persistentMessageReceiverImpl
       \<Rightarrow> 'h ccsmpBackedEvents \<times> 'c ccsmpBackedReceiver \<times> 'cb persistentMessageReceiverImpl" where
  "persistent_rx_Start_fail err added events core receiver =
     (let core = fold ClearSubscriptionCorrelation (map fst added) core;
          events = RemoveEventHandler (pr_terminationHandlerID receiver) events;
          receiver = (if internalFlow receiver \<noteq> NoFlow then receiver\<lparr>internalFlow := FlowDestroyed\<rparr> else receiver);
          l = terminated None (pr_lifecycle receiver)
      in (events, core, receiver\<lparr>pr_lifecycle := l\<lparr>startFuture := future_Complete err (startFuture l)\<rparr>\<rparr>))"

text \<open>The rest of \<^verbatim>\<open>Start\<close>: wait for the confirmations; then the receiver has started, and its two goroutines with it.\<close>

definition persistent_rx_Start_end ::
    "go_error option \<Rightarrow> (u64 \<times> nat) list \<Rightarrow> 'h ccsmpBackedEvents \<Rightarrow> 'c ccsmpBackedReceiver
       \<Rightarrow> 'cb persistentMessageReceiverImpl
       \<Rightarrow> (go_error option \<times> 'h ccsmpBackedEvents \<times> 'c ccsmpBackedReceiver \<times> 'cb persistentMessageReceiverImpl) outcome" where
  "persistent_rx_Start_end err added events core receiver =
     outcome_bind (if err = None then await_all (map snd added) core else Return (err, core)) (\<lambda>(err, core).
       if err = None
       then Return (None, events, core, receiver\<lparr>pr_lifecycle := started None (pr_lifecycle receiver)\<rparr>)
       else Return (err, persistent_rx_Start_fail err added events core receiver))"

section \<open>Termination\<close>

definition persistent_IncompleteReception :: "nat \<Rightarrow> go_error" where
  "persistent_IncompleteReception n =
     NewError IncompleteMessageDeliveryError IncompleteMessageReceptionMessage [ArgInt (int n)] None"

text \<open>Whoever sets the flag closes the channel.\<close>

definition persistent_notify_empty ::
    "'cb persistentMessageReceiverImpl \<Rightarrow> (bool \<times> 'cb persistentMessageReceiverImpl) outcome" where
  "persistent_notify_empty receiver =
     (let (swapped, flag) = CompareAndSwap 0 1 (pr_bufferEmptyOnTerminateFlag receiver)
      in if \<not> swapped then Return (False, receiver)
         else outcome_bind (signal_close (pr_bufferEmptyOnTerminate receiver)) (\<lambda>b.
                Return (True, receiver\<lparr>pr_bufferEmptyOnTerminateFlag := flag, pr_bufferEmptyOnTerminate := b\<rparr>)))"

definition checkEmptyBufferAndNotify ::
    "'cb persistentMessageReceiverImpl \<Rightarrow> (bool \<times> 'cb persistentMessageReceiverImpl) outcome" where
  "checkEmptyBufferAndNotify receiver =
     (if pr_bufferClosed receiver = 1 \<and> chan_len (pr_buffer receiver) = 0 then persistent_notify_empty receiver
      else Return (False, receiver))"

definition persistent_drainQueue ::
    "'cb persistentMessageReceiverImpl \<Rightarrow> (nat list \<times> 'cb persistentMessageReceiverImpl) outcome" where
  "persistent_drainQueue receiver =
     (let (ms, c) = chan_range (pr_buffer receiver)
      in outcome_bind (persistent_notify_empty (receiver\<lparr>pr_buffer := c\<rparr>)) (\<lambda>(b, receiver). Return (ms, receiver)))"

definition count_undelivered ::
    "nat \<Rightarrow> 'cb persistentMessageReceiverImpl \<Rightarrow> go_error option \<times> 'cb persistentMessageReceiverImpl" where
  "count_undelivered n receiver =
     (if 0 < n
      then (Some (persistent_IncompleteReception n),
            receiver\<lparr>pr_termination_discarded := pr_termination_discarded receiver + n\<rparr>)
      else (None, receiver))"

text \<open>
  \<^verbatim>\<open>Terminate\<close> up to its wait; \<open>stopErr\<close> is the answer to the request to stop the flow, which is not looked at. The
  non-blocking sends drop their value when the channel is full.
\<close>

definition try_send :: "'a \<Rightarrow> 'a chan \<Rightarrow> 'a chan" where
  "try_send x c = (case chan_send x c of Return c' \<Rightarrow> c' | _ \<Rightarrow> c)"

definition try_recv :: "'a chan \<Rightarrow> 'a chan" where
  "try_recv c = (case chan_recv c of Return (x, c') \<Rightarrow> c' | _ \<Rightarrow> c)"

definition stopped_flow :: "ErrorInfo option \<Rightarrow> flow_state \<Rightarrow> flow_state" where
  "stopped_flow stopErr f = (case f of Flow b \<Rightarrow> if stopErr = None then Flow False else f | _ \<Rightarrow> f)"

definition started_flow :: "ErrorInfo option \<Rightarrow> flow_state \<Rightarrow> flow_state" where
  "started_flow startErr f = (case f of Flow b \<Rightarrow> if startErr = None then Flow True else f | _ \<Rightarrow> f)"

definition persistent_rx_Terminate_begin ::
    "ErrorInfo option \<Rightarrow> 'h ccsmpBackedEvents \<Rightarrow> 'cb persistentMessageReceiverImpl
       \<Rightarrow> (go_error option outcome proceed \<times> 'h ccsmpBackedEvents \<times> 'cb persistentMessageReceiverImpl) outcome" where
  "persistent_rx_Terminate_begin stopErr events receiver =
     (case receiver_terminate (pr_lifecycle receiver) of
        (Stop r, l) \<Rightarrow> Return (Stop r, events, receiver\<lparr>pr_lifecycle := l\<rparr>)
      | (Proceed, l) \<Rightarrow>
          let receiver = receiver\<lparr>pr_lifecycle := l, internalFlowStopped := 2,
                                  internalFlow := stopped_flow stopErr (internalFlow receiver)\<rparr>;
              events = RemoveEventHandler (pr_terminationHandlerID receiver) events;
              receiver = receiver\<lparr>pr_rxCallbackSet := try_send False (pr_rxCallbackSet receiver)\<rparr>
          in outcome_bind (chan_close (pr_buffer receiver)) (\<lambda>c.
             let receiver = receiver\<lparr>pr_buffer := c, pr_bufferClosed := 1\<rparr>
             in outcome_bind (if chan_len (pr_buffer receiver) = 0 then persistent_notify_empty receiver
                              else Return (False, receiver)) (\<lambda>(b, receiver).
                  Return (Proceed, events, receiver))))"

text \<open>
  The two branches of the wait; both join the goroutine of \<^verbatim>\<open>run\<close>, so the call blocks until it has ended. The first
  runs when the grace period has passed. Then the deferred functions: the executor, the outstanding
  subscriptions, the flow, the state. \<^verbatim>\<open>Destroy\<close> with \<^verbatim>\<open>freeMemory\<close> destroys the flow.
\<close>

definition persistent_rx_Terminate_join ::
    "bool \<Rightarrow> 'cb persistentMessageReceiverImpl \<Rightarrow> (go_error option \<times> nat list \<times> 'cb persistentMessageReceiverImpl) outcome" where
  "persistent_rx_Terminate_join timedOut receiver =
     (if timedOut
      then outcome_bind (if pr_terminationComplete receiver then persistent_drainQueue receiver else Blocks)
             (\<lambda>(ms, receiver). let (err, receiver) = count_undelivered (length ms) receiver in Return (err, ms, receiver))
      else if pr_bufferEmptyOnTerminate receiver \<and> pr_terminationComplete receiver then Return (None, [], receiver)
      else Blocks)"

definition persistent_rx_Terminate_defers ::
    "go_error option \<Rightarrow> 'c ccsmpBackedReceiver \<Rightarrow> u64 list \<Rightarrow> 'cb persistentMessageReceiverImpl
       \<Rightarrow> ('c ccsmpBackedReceiver \<times> 'cb persistentMessageReceiverImpl) outcome" where
  "persistent_rx_Terminate_defers err core outstanding receiver =
     outcome_bind (Terminate (pr_eventExecutor receiver)) (\<lambda>ex.
       Return (fold ClearSubscriptionCorrelation outstanding core,
               receiver\<lparr>pr_eventExecutor := ex, outstandingSubscriptionEvents := {}, internalFlow := FlowDestroyed,
                        pr_lifecycle := terminated err (pr_lifecycle receiver)\<rparr>))"

text \<open>
  The call after the goroutine of \<^verbatim>\<open>run\<close> has ended; \<open>outstanding\<close> lists the outstanding numbers in the order in which
  \<^verbatim>\<open>range\<close> visits them.
\<close>

definition close_notification ::
    "'cb persistentMessageReceiverImpl \<Rightarrow> 'cb persistentMessageReceiverImpl outcome" where
  "close_notification receiver =
     outcome_bind (signal_close (pr_terminationNotification receiver)) (\<lambda>b.
       Return (receiver\<lparr>pr_terminationNotification := b\<rparr>))"

definition persistent_rx_Terminate_end ::
    "bool \<Rightarrow> u64 list \<Rightarrow> 'c ccsmpBackedReceiver \<Rightarrow> 'cb persistentMessageReceiverImpl
       \<Rightarrow> (go_error option \<times> nat list \<times> 'c ccsmpBackedReceiver \<times> 'cb persistentMessageReceiverImpl) outcome" where
  "persistent_rx_Terminate_end timedOut outstanding core receiver =
     outcome_bind (if timedOut then close_notification receiver else Return receiver) (\<lambda>receiver.
     outcome_bind (persistent_rx_Terminate_join timedOut receiver) (\<lambda>(err, ms, receiver).
     outcome_bind (persistent_rx_Terminate_defers err core outstanding receiver) (\<lambda>(core, receiver).
       Return (err, ms, core, receiver))))"

text \<open>
  Termination by an event. \<open>shouldCleanUpNative\<close> says whether the flow is destroyed. The result has the messages that were
  drained and whether the termination listener is called; it is \<open>None\<close> when the receiver is not running.
\<close>

definition persistent_unsolicitedTermination ::
    "bool \<Rightarrow> 'h ccsmpBackedEvents \<Rightarrow> 'cb persistentMessageReceiverImpl
       \<Rightarrow> ((nat list \<times> bool) option \<times> 'h ccsmpBackedEvents \<times> 'cb persistentMessageReceiverImpl) outcome" where
  "persistent_unsolicitedTermination shouldCleanUpNative events receiver =
     (case receiver_terminate (pr_lifecycle receiver) of
        (Stop r, l) \<Rightarrow> Return (None, events, receiver\<lparr>pr_lifecycle := l\<rparr>)
      | (Proceed, l) \<Rightarrow>
          let receiver = receiver\<lparr>pr_lifecycle := l,
                                  internalFlow := (if shouldCleanUpNative then FlowDestroyed else FlowAbandoned)\<rparr>;
              events = RemoveEventHandler (pr_terminationHandlerID receiver) events
          in outcome_bind (Terminate (pr_eventExecutor receiver)) (\<lambda>ex.
             outcome_bind (chan_close (pr_buffer receiver)) (\<lambda>c.
             let receiver = receiver\<lparr>pr_eventExecutor := ex, pr_buffer := c, pr_bufferClosed := 1,
                                     pr_rxCallbackSet := try_send False (pr_rxCallbackSet receiver)\<rparr>
             in outcome_bind (close_notification receiver) (\<lambda>receiver.
                outcome_bind (persistent_drainQueue receiver) (\<lambda>(ms, receiver).
                let (err, receiver) = count_undelivered (length ms) receiver;
                    receiver = receiver\<lparr>pr_lifecycle := terminated err (pr_lifecycle receiver)\<rparr>
                in Return (Some (ms, pr_terminationListener receiver), events, receiver))))))"

section \<open>Subscriptions\<close>

definition PersistentReceiverUnsupportedSubscriptionType :: string where
  "PersistentReceiverUnsupportedSubscriptionType = ''PersistentMessageReceiver does not support subscriptions of type %T''"

definition checkPersistentMessageReceiverSubscriptionType :: "Subscription \<Rightarrow> go_error option" where
  "checkPersistentMessageReceiverSubscriptionType subscription =
     (case subscription of
        TopicSubscription topic \<Rightarrow> None
      | _ \<Rightarrow> Some (NewError IllegalArgumentError PersistentReceiverUnsupportedSubscriptionType
                     [ArgStr (subscription_type subscription)] None))"

definition addCorrelation :: "u64 \<Rightarrow> 'cb persistentMessageReceiverImpl \<Rightarrow> 'cb persistentMessageReceiverImpl" where
  "addCorrelation i receiver =
     receiver\<lparr>outstandingSubscriptionEvents := insert i (outstandingSubscriptionEvents receiver)\<rparr>"

definition clearCorrelation :: "u64 \<Rightarrow> 'cb persistentMessageReceiverImpl \<Rightarrow> 'cb persistentMessageReceiverImpl" where
  "clearCorrelation i receiver =
     receiver\<lparr>outstandingSubscriptionEvents := outstandingSubscriptionEvents receiver - {i}\<rparr>"

definition persistent_addSubscription ::
    "(string \<Rightarrow> u64 \<Rightarrow> ErrorInfo option) \<Rightarrow> Subscription \<Rightarrow> 'c ccsmpBackedReceiver \<Rightarrow> 'cb persistentMessageReceiverImpl
       \<Rightarrow> (go_error + nat) \<times> 'c ccsmpBackedReceiver \<times> 'cb persistentMessageReceiverImpl" where
  "persistent_addSubscription lib subscription core receiver =
     (let currentState = lc_state (pr_lifecycle receiver)
      in if currentState \<noteq> Started then (Inl (cannotModify currentState), core, receiver)
         else
           let topic = GetName subscription
           in case flow_Subscribe lib topic core of
                (Inl internalErr, core) \<Rightarrow> (Inl (ToNativeError internalErr []), core, receiver)
              | (Inr (i, c), core) \<Rightarrow>
                  let receiver = addCorrelation i receiver
                  in (Inr c, core,
                      if topic \<in> set (pr_subscriptions receiver) then receiver
                      else receiver\<lparr>pr_subscriptions := pr_subscriptions receiver @ [topic]\<rparr>))"

text \<open>
  What the library answers to the three ways of removing a subscription: the destination of the flow, and the
  requests to the endpoint and to the flow.
\<close>

record unsubscribe_answers =
  ans_destination :: "ErrorInfo + string \<times> bool"
  ans_endpointUnsubscribe :: "endpoint_property list \<Rightarrow> string \<Rightarrow> u64 \<Rightarrow> ErrorInfo option"
  ans_flowUnsubscribe :: "string \<Rightarrow> u64 \<Rightarrow> ErrorInfo option"

definition isSubscribed :: "string \<Rightarrow> 'cb persistentMessageReceiverImpl \<Rightarrow> bool" where
  "isSubscribed topic receiver \<longleftrightarrow> topic \<in> set (pr_subscriptions receiver)"

definition persistent_unsubscribe ::
    "unsubscribe_answers \<Rightarrow> string \<Rightarrow> 'c ccsmpBackedReceiver \<Rightarrow> 'cb persistentMessageReceiverImpl
       \<Rightarrow> (ErrorInfo + (u64 \<times> nat)) \<times> 'c ccsmpBackedReceiver" where
  "persistent_unsubscribe lib topic core receiver =
     (if \<not> isSubscribed topic receiver
      then (case ans_destination lib of
              Inl errorInfo \<Rightarrow> (Inl errorInfo, core)
            | Inr (name, durable) \<Rightarrow>
                if durable then EndpointUnsubscribe (ans_endpointUnsubscribe lib) name topic core
                else flow_Unsubscribe (ans_flowUnsubscribe lib) topic core)
      else flow_Unsubscribe (ans_flowUnsubscribe lib) topic core)"

definition persistent_removeSubscription ::
    "unsubscribe_answers \<Rightarrow> Subscription \<Rightarrow> 'c ccsmpBackedReceiver \<Rightarrow> 'cb persistentMessageReceiverImpl
       \<Rightarrow> (go_error + nat) \<times> 'c ccsmpBackedReceiver \<times> 'cb persistentMessageReceiverImpl" where
  "persistent_removeSubscription lib subscription core receiver =
     (let currentState = lc_state (pr_lifecycle receiver)
      in if currentState \<noteq> Started then (Inl (cannotModify currentState), core, receiver)
         else
           let topic = GetName subscription
           in case persistent_unsubscribe lib topic core receiver of
                (Inl internalErr, core) \<Rightarrow> (Inl (ToNativeError internalErr []), core, receiver)
              | (Inr (i, c), core) \<Rightarrow>
                  let receiver = addCorrelation i receiver
                  in (Inr c, core,
                      receiver\<lparr>pr_subscriptions := splice (splice_index topic 0 (- 1) (pr_subscriptions receiver))
                                                     (pr_subscriptions receiver)\<rparr>))"

text \<open>The checks of the public calls before the request, and their wait with the clearing of the number after it.\<close>

definition persistent_checkModify :: "Subscription \<Rightarrow> 'cb persistentMessageReceiverImpl \<Rightarrow> go_error option" where
  "persistent_checkModify subscription receiver =
     (let currentState = lc_state (pr_lifecycle receiver)
      in if currentState \<noteq> Started then Some (cannotModify currentState)
         else checkPersistentMessageReceiverSubscriptionType subscription)"

definition persistent_AddSubscription ::
    "(string \<Rightarrow> u64 \<Rightarrow> ErrorInfo option) \<Rightarrow> Subscription \<Rightarrow> 'c ccsmpBackedReceiver \<Rightarrow> 'cb persistentMessageReceiverImpl
       \<Rightarrow> (go_error + nat) \<times> 'c ccsmpBackedReceiver \<times> 'cb persistentMessageReceiverImpl" where
  "persistent_AddSubscription lib subscription core receiver =
     (case persistent_checkModify subscription receiver of
        Some err \<Rightarrow> (Inl err, core, receiver)
      | None \<Rightarrow> persistent_addSubscription lib subscription core receiver)"

definition persistent_RemoveSubscription ::
    "unsubscribe_answers \<Rightarrow> Subscription \<Rightarrow> 'c ccsmpBackedReceiver \<Rightarrow> 'cb persistentMessageReceiverImpl
       \<Rightarrow> (go_error + nat) \<times> 'c ccsmpBackedReceiver \<times> 'cb persistentMessageReceiverImpl" where
  "persistent_RemoveSubscription lib subscription core receiver =
     (case persistent_checkModify subscription receiver of
        Some err \<Rightarrow> (Inl err, core, receiver)
      | None \<Rightarrow> persistent_removeSubscription lib subscription core receiver)"

text \<open>A receive of \<^verbatim>\<open>nil\<close> from a channel that is never closed does not happen; its \<^verbatim>\<open>GetID\<close> would panic.\<close>

definition persistent_await ::
    "nat \<Rightarrow> 'c ccsmpBackedReceiver \<Rightarrow> 'cb persistentMessageReceiverImpl
       \<Rightarrow> (go_error option \<times> 'c ccsmpBackedReceiver \<times> 'cb persistentMessageReceiverImpl) outcome" where
  "persistent_await c core receiver =
     outcome_bind (subscription_await c core) (\<lambda>(event, core).
       case event of
         None \<Rightarrow> Panics NilDereference
       | Some event \<Rightarrow> Return (ce_err event, core, clearCorrelation (ce_id event) receiver))"

text \<open>The end of the goroutine of an asynchronous call; without a listener the number stays outstanding.\<close>

definition persistent_subscription_change ::
    "bool \<Rightarrow> Subscription \<Rightarrow> SubscriptionOperation \<Rightarrow> go_error + nat \<Rightarrow> 'c ccsmpBackedReceiver
       \<Rightarrow> 'cb persistentMessageReceiverImpl
       \<Rightarrow> ((Subscription \<times> SubscriptionOperation \<times> go_error option) list \<times> 'c ccsmpBackedReceiver \<times>
            'cb persistentMessageReceiverImpl) outcome" where
  "persistent_subscription_change listener subscription op answer core receiver =
     (if \<not> listener then Return ([], core, receiver)
      else case answer of
             Inl err \<Rightarrow> Return ([(subscription, op, Some err)], core, receiver)
           | Inr c \<Rightarrow>
               outcome_bind (persistent_await c core receiver) (\<lambda>(err, core, receiver).
                 Return ([(subscription, op, err)], core, receiver)))"

definition ReceiverInfo ::
    "ErrorInfo + string \<times> bool \<Rightarrow> 'cb persistentMessageReceiverImpl \<Rightarrow> go_error + string \<times> bool" where
  "ReceiverInfo Destination receiver =
     (if lc_state (pr_lifecycle receiver) \<noteq> Started
      then Inl (NewError IllegalStateError ''cannot access receiver info when not in started state'' [] None)
      else case Destination of
             Inl errorInfo \<Rightarrow> Inl (ToNativeError errorInfo [])
           | Inr info \<Rightarrow> Inr info)"

section \<open>Acknowledgement\<close>

definition UnableToSettleAlreadyTerminated :: string where
  "UnableToSettleAlreadyTerminated = ''unable to settle message: message receiver has been terminated''"
definition UnableToSettleNotStarted :: string where
  "UnableToSettleNotStarted = ''unable to settle meessage: message receiver is not yet started''"
definition InvalidMessageSettlementOutcome :: string where
  "InvalidMessageSettlementOutcome = ''invalid message settlement outcome used to settle message''"
definition UnableToRetrieveMessageID :: string where
  "UnableToRetrieveMessageID =
     ''unable to retrieve message ID from message, was the message received by a persistent receiver?''"
definition InvalidInboundMessageType :: string where
  "InvalidInboundMessageType = ''got an invalid InboundMessage, was it received with a receiver? backing type %T''"

definition PersistentReceiverAcceptedOutcome :: string where
  "PersistentReceiverAcceptedOutcome = ''ACCEPTED''"
definition PersistentReceiverFailedOutcome :: string where
  "PersistentReceiverFailedOutcome = ''FAILED''"
definition PersistentReceiverRejectedOutcome :: string where
  "PersistentReceiverRejectedOutcome = ''REJECTED''"

lemmas outcome_name_defs = PersistentReceiverAcceptedOutcome_def PersistentReceiverFailedOutcome_def
  PersistentReceiverRejectedOutcome_def

datatype settlement_outcome =
    SolClientSettlementOutcomeAccepted | SolClientSettlementOutcomeFailed | SolClientSettlementOutcomeRejected

text \<open>A message of the API: one that came from a receiver, or another implementation of the interface with its type.\<close>

datatype inbound_message = InboundMessageImpl nat | OtherInboundMessage string

definition Settle ::
    "(nat \<Rightarrow> u64 option) \<Rightarrow> (u64 \<Rightarrow> settlement_outcome \<Rightarrow> ErrorInfo option) \<Rightarrow> inbound_message \<Rightarrow> string
       \<Rightarrow> 'cb persistentMessageReceiverImpl \<Rightarrow> go_error option" where
  "Settle GetMessageID flowSettle msg outcome receiver =
     (let state = lc_state (pr_lifecycle receiver)
      in if state \<noteq> Started \<and> state \<noteq> Terminating
         then Some (NewError IllegalStateError
                     (if state = Terminated then UnableToSettleAlreadyTerminated else UnableToSettleNotStarted) [] None)
         else case msg of
           OtherInboundMessage t \<Rightarrow> Some (NewError IllegalArgumentError InvalidInboundMessageType [ArgStr t] None)
         | InboundMessageImpl m \<Rightarrow>
             (case GetMessageID m of
                None \<Rightarrow> Some (NewError IllegalArgumentError UnableToRetrieveMessageID [] None)
              | Some msgID \<Rightarrow>
                  let settle = (\<lambda>x. map_option (\<lambda>errInfo. ToNativeError errInfo []) (flowSettle msgID x))
                  in if outcome = PersistentReceiverAcceptedOutcome then settle SolClientSettlementOutcomeAccepted
                     else if outcome = PersistentReceiverFailedOutcome then settle SolClientSettlementOutcomeFailed
                     else if outcome = PersistentReceiverRejectedOutcome then settle SolClientSettlementOutcomeRejected
                     else Some (NewError IllegalArgumentError InvalidMessageSettlementOutcome [] None)))"

definition Ack ::
    "(nat \<Rightarrow> u64 option) \<Rightarrow> (u64 \<Rightarrow> settlement_outcome \<Rightarrow> ErrorInfo option) \<Rightarrow> inbound_message
       \<Rightarrow> 'cb persistentMessageReceiverImpl \<Rightarrow> go_error option" where
  "Ack GetMessageID flowSettle msg receiver = Settle GetMessageID flowSettle msg PersistentReceiverAcceptedOutcome receiver"

section \<open>Pause and resume\<close>

definition PersistentReceiverCannotPauseBadState :: string where
  "PersistentReceiverCannotPauseBadState = ''cannot pause message receiption when not in started state''"
definition PersistentReceiverCannotUnpauseBadState :: string where
  "PersistentReceiverCannotUnpauseBadState = ''cannot resume message receiption when not in started state''"

definition Pause ::
    "'cb persistentMessageReceiverImpl \<Rightarrow> go_error option \<times> 'cb persistentMessageReceiverImpl" where
  "Pause receiver =
     (let state = lc_state (pr_lifecycle receiver)
      in if state \<noteq> Started \<and> state \<noteq> Terminating
         then (Some (NewError IllegalStateError PersistentReceiverCannotPauseBadState [] None), receiver)
         else (None, receiver\<lparr>doUnpause := try_recv (doUnpause receiver), doPause := 1,
                              pauseInterrupt := try_send () (pauseInterrupt receiver)\<rparr>))"

definition Resume ::
    "'cb persistentMessageReceiverImpl \<Rightarrow> go_error option \<times> 'cb persistentMessageReceiverImpl" where
  "Resume receiver =
     (let state = lc_state (pr_lifecycle receiver)
      in if state \<noteq> Started \<and> state \<noteq> Terminating
         then (Some (NewError IllegalStateError PersistentReceiverCannotUnpauseBadState [] None), receiver)
         else (None, receiver\<lparr>pauseInterrupt := try_recv (pauseInterrupt receiver), doPause := 0,
                              doUnpause := try_send () (doUnpause receiver)\<rparr>))"

section \<open>Receiving\<close>

definition persistent_ReceiveAsync ::
    "'cb option \<Rightarrow> 'cb persistentMessageReceiverImpl \<Rightarrow> go_error option \<times> 'cb persistentMessageReceiverImpl" where
  "persistent_ReceiveAsync callback receiver =
     (if IsTerminating (pr_lifecycle receiver) \<or> IsTerminated (pr_lifecycle receiver)
      then (Some (IllegalState UnableToRegisterCallbackReceiverTerminating), receiver)
      else if callback = None
      then (Some (NewError IllegalArgumentError ''callback may not be nil'' [] None), receiver)
      else
        let (swapped, p) = CompareAndSwap None callback (pr_rxCallback receiver)
        in if swapped
           then (None, receiver\<lparr>pr_rxCallback := p, pr_rxCallbackSet := try_send True (pr_rxCallbackSet receiver)\<rparr>)
           else (None, receiver\<lparr>pr_rxCallback := callback\<rparr>))"

text \<open>Starting and stopping the flow; the argument is the answer of the C library.\<close>

definition startFlow ::
    "ErrorInfo option \<Rightarrow> 'cb persistentMessageReceiverImpl \<Rightarrow> bool \<times> 'cb persistentMessageReceiverImpl" where
  "startFlow errInfo receiver =
     (let (swapped, v) = CompareAndSwap 1 0 (internalFlowStopped receiver)
      in if \<not> swapped then (False, receiver)
         else
           let receiver = receiver\<lparr>internalFlowStopped := v, internalFlow := started_flow errInfo (internalFlow receiver)\<rparr>
           in if errInfo \<noteq> None then (False, receiver\<lparr>internalFlowStopped := 1\<rparr>) else (True, receiver))"

definition stopFlow ::
    "ErrorInfo option \<Rightarrow> 'cb persistentMessageReceiverImpl \<Rightarrow> bool \<times> 'cb persistentMessageReceiverImpl" where
  "stopFlow errInfo receiver =
     (if internalFlowStopped receiver = 0
      then
        let receiver = receiver\<lparr>internalFlow := stopped_flow errInfo (internalFlow receiver)\<rparr>
        in if errInfo \<noteq> None then (False, receiver) else (True, receiver\<lparr>internalFlowStopped := 1\<rparr>)
      else (False, receiver))"

definition restart_if_low ::
    "ErrorInfo option \<Rightarrow> 'cb persistentMessageReceiverImpl \<Rightarrow> 'cb persistentMessageReceiverImpl" where
  "restart_if_low errInfo receiver =
     (if chan_len (pr_buffer receiver) \<le> lowwater receiver \<and> lc_state (pr_lifecycle receiver) = Started
      then snd (startFlow errInfo receiver) else receiver)"

text \<open>
  The message callback of the flow. The first result is what it returns to the C library: whether it has taken over the
  message. A message that finds the buffer full is taken over and kept nowhere.
\<close>

definition persistent_messageCallback ::
    "ErrorInfo option \<Rightarrow> ErrorInfo option \<Rightarrow> nat \<Rightarrow> 'cb persistentMessageReceiverImpl
       \<Rightarrow> bool \<times> 'cb persistentMessageReceiverImpl" where
  "persistent_messageCallback stopErr startErr msg receiver =
     (let currentState = lc_state (pr_lifecycle receiver);
          discarded = receiver\<lparr>pr_termination_discarded := pr_termination_discarded receiver + 1\<rparr>
      in if currentState = Terminating \<or> currentState = Terminated then (False, discarded)
         else case chan_send msg (pr_buffer receiver) of
           Panics p \<Rightarrow> (False, discarded)
         | Blocks \<Rightarrow> (True, receiver)
         | Return c \<Rightarrow>
             let receiver = receiver\<lparr>pr_buffer := c\<rparr>
             in if chan_len (pr_buffer receiver) \<ge> highwater receiver
                then
                  let (stopped, receiver) = stopFlow stopErr receiver
                  in if stopped \<and> chan_len (pr_buffer receiver) < lowwater receiver \<and>
                        lc_state (pr_lifecycle receiver) = Started
                     then (True, snd (startFlow startErr receiver))
                     else (True, receiver)
                else (True, receiver))"

text \<open>
  A synchronous receive. Of the ready cases of its \<^verbatim>\<open>select\<close> any may be taken, so the case is an argument; a case that is
  not ready blocks. The result is an error or a message; the list has the messages that were disposed of instead of
  being returned.
\<close>

datatype receive_case = FromBuffer | TimerFired | BufferEmptied

record receive_answers =
  ans_restart :: "ErrorInfo option"
  ans_messageID :: "nat \<Rightarrow> u64 option"
  ans_ack :: "u64 \<Rightarrow> ErrorInfo option"

definition receive_terminated :: go_error where
  "receive_terminated = NewError IllegalStateError ReceiverCannotReceiveAlreadyTerminated [] None"

definition deliver_sync ::
    "receive_answers \<Rightarrow> nat \<Rightarrow> 'cb persistentMessageReceiverImpl
       \<Rightarrow> (go_error + nat) \<times> nat list \<times> 'cb persistentMessageReceiverImpl" where
  "deliver_sync lib msg receiver =
     (let receiver = restart_if_low (ans_restart lib) receiver
      in if doAutoAck receiver
         then (case ans_messageID lib msg of
                 Some msgID \<Rightarrow>
                   (case ans_ack lib msgID of
                      Some errInfo \<Rightarrow> (Inl (ToNativeError errInfo []), [msg], receiver)
                    | None \<Rightarrow> (Inr msg, [], receiver\<lparr>duplicate_acks := duplicate_acks receiver + 1\<rparr>))
               | None \<Rightarrow> (Inr msg, [], receiver))
         else (Inr msg, [], receiver))"

definition persistent_receive ::
    "receive_case \<Rightarrow> int \<Rightarrow> receive_answers \<Rightarrow> 'cb persistentMessageReceiverImpl
       \<Rightarrow> ((go_error + nat) \<times> nat list \<times> 'cb persistentMessageReceiverImpl) outcome" where
  "persistent_receive choice timeout lib receiver =
     (case choice of
        FromBuffer \<Rightarrow>
          outcome_bind (chan_recv (pr_buffer receiver)) (\<lambda>(msg, c).
            let receiver = receiver\<lparr>pr_buffer := c\<rparr>
            in case msg of
                 None \<Rightarrow> Return (Inl receive_terminated, [], receiver)
               | Some m \<Rightarrow> Return (deliver_sync lib m receiver))
      | TimerFired \<Rightarrow>
          if timeout \<ge> 0
          then Return (Inl (NewError TimeoutError ReceiverTimedOutWaitingForMessage [] None), [], receiver)
          else Blocks
      | BufferEmptied \<Rightarrow>
          if pr_bufferEmptyOnTerminate receiver then Return (Inl receive_terminated, [], receiver) else Blocks)"

definition persistent_ReceiveMessage ::
    "receive_case \<Rightarrow> int \<Rightarrow> receive_answers \<Rightarrow> 'cb persistentMessageReceiverImpl
       \<Rightarrow> ((go_error + nat) \<times> nat list \<times> 'cb persistentMessageReceiverImpl) outcome" where
  "persistent_ReceiveMessage choice timeout lib receiver =
     (let state = lc_state (pr_lifecycle receiver)
      in if state = NotStarted \<or> state = Starting
         then Return (Inl (NewError IllegalStateError ReceiverCannotReceiveNotStarted [] None), [], receiver)
         else outcome_bind (persistent_receive choice timeout lib receiver) (\<lambda>(r, disposed, receiver).
              outcome_bind (checkEmptyBufferAndNotify receiver) (\<lambda>(b, receiver). Return (r, disposed, receiver))))"

text \<open>
  What the dispatching goroutine does with a message: call the callback, which may panic, and acknowledge. The
  results list the calls of the callback and the identifiers acknowledged; a message without an identifier is
  acknowledged with the number zero.
\<close>

definition dispatch_message ::
    "('cb \<Rightarrow> nat \<Rightarrow> bool) \<Rightarrow> receive_answers \<Rightarrow> nat \<Rightarrow> 'cb persistentMessageReceiverImpl
       \<Rightarrow> ('cb \<times> nat) list \<times> u64 list \<times> 'cb persistentMessageReceiverImpl" where
  "dispatch_message panics lib msg receiver =
     (let msgID = (case ans_messageID lib msg of Some i \<Rightarrow> i | None \<Rightarrow> 0);
          callbackPanic = (case pr_rxCallback receiver of None \<Rightarrow> False | Some callback \<Rightarrow> panics callback msg);
          calls = (case pr_rxCallback receiver of None \<Rightarrow> [] | Some callback \<Rightarrow> [(callback, msg)]);
          (acks, receiver) =
            (if doAutoAck receiver \<and> \<not> callbackPanic
             then (case ans_ack lib msgID of
                     Some errInfo \<Rightarrow> ([], receiver)
                   | None \<Rightarrow> ([msgID], receiver\<lparr>duplicate_acks := duplicate_acks receiver + 1\<rparr>))
             else ([], receiver))
      in (calls, acks, restart_if_low (ans_restart lib) receiver))"

section \<open>The builder\<close>

text \<open>
  The values of properties: plain values, the named string type of a creation strategy, a listener (which may be a nil
  function), a time in Unix seconds, and a replication group message identifier with its text.
\<close>

datatype receiver_value = RValue go_value | RStrategy string | RListener bool | RTime int | RGMID string

fun rv_interface :: "receiver_value \<Rightarrow> go_value" where
  "rv_interface (RValue v) = v"
| "rv_interface (RStrategy s) = VOther ''config.MissingResourcesCreationStrategy''"
| "rv_interface (RListener l) = VOther ''solace.ReceiverStateChangeListener''"
| "rv_interface (RTime t) = VOther ''time.Time''"
| "rv_interface (RGMID s) = VOther ''*message.replicationGroupMessageID''"

fun rv_sprintf :: "(go_value \<Rightarrow> string) \<Rightarrow> receiver_value \<Rightarrow> string" where
  "rv_sprintf other (RValue v) = sprintf_v other (EValue v)"
| "rv_sprintf other (RStrategy s) = s"
| "rv_sprintf other (RGMID s) = s"
| "rv_sprintf other v = other (rv_interface v)"

type_synonym receiver_map = "string \<rightharpoonup> receiver_value"

definition ReceiverPropertyPersistentMissingResourceCreationStrategy :: string where
  "ReceiverPropertyPersistentMissingResourceCreationStrategy =
     ''solace.messaging.receiver.persistent.missing-resource-creation-strategy''"
definition ReceiverPropertyPersistentMessageSelectorQuery :: string where
  "ReceiverPropertyPersistentMessageSelectorQuery = ''solace.messaging.receiver.persistent.selector-query''"
definition ReceiverPropertyPersistentStateChangeListener :: string where
  "ReceiverPropertyPersistentStateChangeListener = ''solace.messaging.receiver.persistent.state-change-listener''"
definition ReceiverPropertyPersistentMessageAckStrategy :: string where
  "ReceiverPropertyPersistentMessageAckStrategy = ''solace.messaging.receiver.persistent.ack.strategy''"
definition ReceiverPropertyPersistentMessageRequiredOutcomeSupport :: string where
  "ReceiverPropertyPersistentMessageRequiredOutcomeSupport =
     ''solace.messaging.receiver.persistent.ack.required-message-outcome-support''"
definition ReceiverPropertyPersistentMessageReplayStrategy :: string where
  "ReceiverPropertyPersistentMessageReplayStrategy = ''solace.messaging.receiver.persistent.replay.strategy''"
definition ReplayStrategyTimeBasedStartTime :: string where
  "ReplayStrategyTimeBasedStartTime = ''solace.messaging.receiver.persistent.replay.timebased-start-time''"
definition ReplayStrategyIDBasedReplicationGroupMessageID :: string where
  "ReplayStrategyIDBasedReplicationGroupMessageID = ''solace.messaging.receiver.persistent.replay.replication-group-message-id''"

definition PersistentReceiverDoNotCreateMissingResources :: string where
  "PersistentReceiverDoNotCreateMissingResources = ''DO_NOT_CREATE''"
definition PersistentReceiverCreateOnStartMissingResources :: string where
  "PersistentReceiverCreateOnStartMissingResources = ''CREATE_ON_START''"
definition PersistentReceiverAutoAck :: string where
  "PersistentReceiverAutoAck = ''AUTO_ACK''"
definition PersistentReceiverClientAck :: string where
  "PersistentReceiverClientAck = ''CLIENT_ACK''"
definition PersistentReplayAll :: string where
  "PersistentReplayAll = ''REPLAY_ALL''"
definition PersistentReplayTimeBased :: string where
  "PersistentReplayTimeBased = ''REPLAY_TIME_BASED''"
definition PersistentReplayIDBased :: string where
  "PersistentReplayIDBased = ''REPLAY_ID_BASED''"

lemmas receiver_choice_defs = PersistentReceiverDoNotCreateMissingResources_def
  PersistentReceiverCreateOnStartMissingResources_def PersistentReceiverAutoAck_def PersistentReceiverClientAck_def
  PersistentReplayAll_def PersistentReplayTimeBased_def PersistentReplayIDBased_def

definition PersistentReceiverMissingQueue :: string where
  "PersistentReceiverMissingQueue = ''queue must be provided when building a new PersistentMessageReceiver''"
definition PersistentReceiverMustSpecifyRGMID :: string where
  "PersistentReceiverMustSpecifyRGMID = ''must specify ReceiverPropertyPersistentMessageReplayStrategyIDBasedReplicationGroupMessageID when replay from message ID is selected''"
definition PersistentReceiverMustSpecifyTime :: string where
  "PersistentReceiverMustSpecifyTime = ''must specify ReceiverPropertyPersistentMessageReplayStrategyTimeBasedStartTime when replay from time is selected''"

text \<open>The names and values of the flow properties, with the texts of \<^verbatim>\<open>solClient.h\<close>.\<close>

definition SolClientFlowPropBindEntityID :: string where
  "SolClientFlowPropBindEntityID = ''FLOW_BIND_ENTITY_ID''"
definition SolClientFlowPropBindEntityDurable :: string where
  "SolClientFlowPropBindEntityDurable = ''FLOW_BIND_ENTITY_DURABLE''"
definition SolClientFlowPropBindName :: string where
  "SolClientFlowPropBindName = ''FLOW_BIND_NAME''"
definition SolClientFlowPropAckmode :: string where
  "SolClientFlowPropAckmode = ''FLOW_ACKMODE''"
definition SolClientFlowPropStartState :: string where
  "SolClientFlowPropStartState = ''FLOW_START_STATE''"
definition SolClientFlowPropSelector :: string where
  "SolClientFlowPropSelector = ''FLOW_SELECTOR''"
definition SolClientFlowPropActiveFlowInd :: string where
  "SolClientFlowPropActiveFlowInd = ''FLOW_ACTIVE_FLOW_IND''"
definition SolClientFlowPropReplayStartLocation :: string where
  "SolClientFlowPropReplayStartLocation = ''FLOW_REPLAY_START_LOCATION''"
definition SolClientFlowPropRequiredOutcomeFailed :: string where
  "SolClientFlowPropRequiredOutcomeFailed = ''FLOW_REQUIRED_OUTCOME_FAILED''"
definition SolClientFlowPropRequiredOutcomeRejected :: string where
  "SolClientFlowPropRequiredOutcomeRejected = ''FLOW_REQUIRED_OUTCOME_REJECTED''"
definition SolClientFlowPropBindEntityQueue :: string where
  "SolClientFlowPropBindEntityQueue = ''2''"
definition SolClientFlowPropAckmodeClient :: string where
  "SolClientFlowPropAckmodeClient = ''2''"
definition SolClientFlowPropReplayStartLocationBeginning :: string where
  "SolClientFlowPropReplayStartLocationBeginning = ''BEGINNING''"

lemmas flow_prop_defs = SolClientFlowPropBindEntityID_def SolClientFlowPropBindEntityDurable_def
  SolClientFlowPropBindName_def SolClientFlowPropAckmode_def SolClientFlowPropStartState_def
  SolClientFlowPropSelector_def SolClientFlowPropActiveFlowInd_def SolClientFlowPropReplayStartLocation_def
  SolClientFlowPropRequiredOutcomeFailed_def SolClientFlowPropRequiredOutcomeRejected_def
  SolClientFlowPropBindEntityQueue_def SolClientFlowPropAckmodeClient_def
  SolClientFlowPropReplayStartLocationBeginning_def

text \<open>\<^verbatim>\<open>Build\<close>, one part per property; each gives what it appends or sets.\<close>

fun result_bind :: "'e + 'a \<Rightarrow> ('a \<Rightarrow> 'e + 'b) \<Rightarrow> 'e + 'b" where
  "result_bind (Inl e) f = Inl e"
| "result_bind (Inr x) f = f x"

text \<open>\<^verbatim>\<open>if present { if err != nil { return nil, err } ... }\<close>, with the value when the property is absent.\<close>

fun if_given :: "'a \<times> bool \<times> go_error option \<Rightarrow> 'b \<Rightarrow> ('a \<Rightarrow> go_error + 'b) \<Rightarrow> go_error + 'b" where
  "if_given (x, present, err) unset f =
     (if present then (case err of Some e \<Rightarrow> Inl e | None \<Rightarrow> f x) else Inr unset)"

definition build_missing_resource :: "receiver_map \<Rightarrow> go_error + bool" where
  "build_missing_resource properties =
     (case properties ReceiverPropertyPersistentMissingResourceCreationStrategy of
        None \<Rightarrow> Inr False
      | Some strategy \<Rightarrow>
          if_given (StringPropertyValidation ReceiverPropertyPersistentMissingResourceCreationStrategy
              (case strategy of RStrategy s \<Rightarrow> VString s | _ \<Rightarrow> rv_interface strategy)
              [PersistentReceiverCreateOnStartMissingResources, PersistentReceiverDoNotCreateMissingResources])
            False (\<lambda>prop. Inr (prop = PersistentReceiverCreateOnStartMissingResources)))"

definition build_auto_ack :: "receiver_map \<Rightarrow> go_error + bool" where
  "build_auto_ack properties =
     (case properties ReceiverPropertyPersistentMessageAckStrategy of
        None \<Rightarrow> Inr False
      | Some strategy \<Rightarrow>
          if_given (StringPropertyValidation ReceiverPropertyPersistentMessageAckStrategy (rv_interface strategy)
              [PersistentReceiverAutoAck, PersistentReceiverClientAck])
            False (\<lambda>ackStrategy. Inr (ackStrategy = PersistentReceiverAutoAck)))"

definition build_listener :: "receiver_map \<Rightarrow> go_error + bool" where
  "build_listener properties =
     (case properties ReceiverPropertyPersistentStateChangeListener of
        None \<Rightarrow> Inr False
      | Some (RListener l) \<Rightarrow> Inr l
      | Some v \<Rightarrow> Inl (NewError IllegalArgumentError
            ''invalid type for receiver state change listener, expected solace.ReceiverStateChangeListener, got %T''
            [ArgStr (type_name (rv_interface v))] None))"

definition build_queue :: "Queue \<Rightarrow> string list" where
  "build_queue queue =
     [SolClientFlowPropBindEntityID, SolClientFlowPropBindEntityQueue,
      SolClientFlowPropAckmode, SolClientFlowPropAckmodeClient,
      SolClientFlowPropActiveFlowInd, Endpoint_Provisioner.SolClientPropEnableVal,
      SolClientFlowPropStartState, SolClientPropDisableVal] @
     (if q_name queue \<noteq> [] \<or> q_durable queue then [SolClientFlowPropBindName, q_name queue] else []) @
     [SolClientFlowPropBindEntityDurable,
      if q_durable queue then Endpoint_Provisioner.SolClientPropEnableVal else SolClientPropDisableVal]"

definition build_selector :: "receiver_map \<Rightarrow> go_error + string list" where
  "build_selector properties =
     (case properties ReceiverPropertyPersistentMessageSelectorQuery of
        None \<Rightarrow> Inr []
      | Some selector \<Rightarrow>
          if_given (StringPropertyValidation ReceiverPropertyPersistentMessageSelectorQuery (rv_interface selector) [])
            [] (\<lambda>prop. Inr [SolClientFlowPropSelector, prop]))"

definition replay_time_start :: "(go_value \<Rightarrow> string) \<Rightarrow> receiver_map \<Rightarrow> go_error + string" where
  "replay_time_start other properties =
     (case properties ReplayStrategyTimeBasedStartTime of
        Some v \<Rightarrow>
          if v = RValue VNil then Inl (NewError IllegalArgumentError PersistentReceiverMustSpecifyTime [] None)
          else (case v of
                  RTime t \<Rightarrow> Inr (''DATE:'' @ print_int t)
                | _ \<Rightarrow> Inr (''DATE:'' @ rv_sprintf other v))
      | None \<Rightarrow> Inl (NewError IllegalArgumentError PersistentReceiverMustSpecifyTime [] None))"

definition replay_id_start :: "receiver_map \<Rightarrow> go_error + string" where
  "replay_id_start properties =
     (case properties ReplayStrategyIDBasedReplicationGroupMessageID of
        Some v \<Rightarrow>
          if v = RValue VNil then Inl (NewError IllegalArgumentError PersistentReceiverMustSpecifyRGMID [] None)
          else (case StringPropertyValidation ReplayStrategyIDBasedReplicationGroupMessageID
                       (case v of RGMID s \<Rightarrow> VString s | _ \<Rightarrow> rv_interface v) [] of
                  (rmid, _, Some err) \<Rightarrow> Inl err
                | (rmid, _, None) \<Rightarrow>
                    if rmid = [] then Inl (NewError IllegalArgumentError ''message ID must not be empty'' [] None)
                    else Inr rmid)
      | None \<Rightarrow> Inl (NewError IllegalArgumentError PersistentReceiverMustSpecifyRGMID [] None))"

definition build_replay :: "(go_value \<Rightarrow> string) \<Rightarrow> receiver_map \<Rightarrow> go_error + string list" where
  "build_replay other properties =
     (case properties ReceiverPropertyPersistentMessageReplayStrategy of
        None \<Rightarrow> Inr []
      | Some strategy \<Rightarrow>
          if_given (StringPropertyValidation ReceiverPropertyPersistentMessageReplayStrategy (rv_interface strategy)
              [PersistentReplayAll, PersistentReplayTimeBased, PersistentReplayIDBased])
            [] (\<lambda>replayStrategy.
              result_bind
                (if replayStrategy = PersistentReplayAll then Inr SolClientFlowPropReplayStartLocationBeginning
                 else if replayStrategy = PersistentReplayTimeBased then replay_time_start other properties
                 else if replayStrategy = PersistentReplayIDBased then replay_id_start properties
                 else Inr [])
                (\<lambda>replayStart. Inr [SolClientFlowPropReplayStartLocation, replayStart])))"

text \<open>The loop over the required outcomes, with those added so far.\<close>

fun outcome_loop :: "string list \<Rightarrow> string list \<Rightarrow> go_error + string list" where
  "outcome_loop [] added = Inr []"
| "outcome_loop (o1 # rest) added =
     (case StringPropertyValidation ReceiverPropertyPersistentMessageRequiredOutcomeSupport (VString o1)
             [PersistentReceiverAcceptedOutcome, PersistentReceiverFailedOutcome, PersistentReceiverRejectedOutcome] of
        (_, present, err) \<Rightarrow>
          if \<not> present \<or> err \<noteq> None
          then Inl (NewError IllegalArgumentError
                 ''invalid value for receiver message settlement outcome, expected either 'ACCEPTED', 'FAILED' or 'REJECTED', got %T''
                 [ArgStr ''string''] None)
          else if o1 \<in> set added then outcome_loop rest added
          else result_bind (outcome_loop rest (o1 # added)) (\<lambda>ps.
                 Inr ((if o1 = PersistentReceiverFailedOutcome
                       then [SolClientFlowPropRequiredOutcomeFailed, Endpoint_Provisioner.SolClientPropEnableVal]
                       else if o1 = PersistentReceiverRejectedOutcome
                       then [SolClientFlowPropRequiredOutcomeRejected, Endpoint_Provisioner.SolClientPropEnableVal]
                       else []) @ ps)))"

text \<open>A value that is not a string is ignored.\<close>

definition build_outcomes :: "receiver_map \<Rightarrow> go_error + string list" where
  "build_outcomes properties =
     (case properties ReceiverPropertyPersistentMessageRequiredOutcomeSupport of
        Some (RValue (VString s)) \<Rightarrow> outcome_loop (split_on (CHR '','') s) []
      | _ \<Rightarrow> Inr [])"

definition persistent_rx_Build ::
    "(go_value \<Rightarrow> string) \<Rightarrow> receiver_map \<Rightarrow> Subscription list \<Rightarrow> Queue option
       \<Rightarrow> go_error + 'cb persistentMessageReceiverImpl" where
  "persistent_rx_Build other properties topics queue =
     (case first_error checkPersistentMessageReceiverSubscriptionType topics of
        Some err \<Rightarrow> Inl err
      | None \<Rightarrow>
          result_bind (build_missing_resource properties) (\<lambda>create.
          result_bind (build_auto_ack properties) (\<lambda>autoAck.
          result_bind (build_listener properties) (\<lambda>listener.
          (case queue of
             None \<Rightarrow> Inl (NewError IllegalArgumentError PersistentReceiverMissingQueue [] None)
           | Some q \<Rightarrow>
               result_bind (build_selector properties) (\<lambda>selector.
               result_bind (build_replay other properties) (\<lambda>replay.
               result_bind (build_outcomes properties) (\<lambda>outcomes.
                 Inr (persistent_rx_construct
                   \<lparr>flowProperties = build_queue q @ selector @ replay @ outcomes, startupSubscriptions = topics,
                    endpoint = q, bufferHighwater = 50, bufferLowwater = 40, props_doCreateMissingResource = create,
                    props_doAutoAck = autoAck, props_stateChangeListener = listener\<rparr>)))))))))"

section \<open>The setters of the builder\<close>

definition DefaultPersistentReceiverProperties :: receiver_map where
  "DefaultPersistentReceiverProperties = Map.empty"

definition persistent_FromConfigurationProvider ::
    "(string \<times> receiver_value) list option \<Rightarrow> receiver_map \<Rightarrow> receiver_map" where
  "persistent_FromConfigurationProvider provider properties =
     (case provider of None \<Rightarrow> properties | Some ps \<Rightarrow> fold (\<lambda>(k, v) m. m(k \<mapsto> v)) ps properties)"

definition WithActivationPassivationSupport :: "bool \<Rightarrow> receiver_map \<Rightarrow> receiver_map" where
  "WithActivationPassivationSupport listener properties =
     properties(ReceiverPropertyPersistentStateChangeListener \<mapsto> RListener listener)"

definition WithMessageAutoAcknowledgement :: "receiver_map \<Rightarrow> receiver_map" where
  "WithMessageAutoAcknowledgement properties =
     properties(ReceiverPropertyPersistentMessageAckStrategy \<mapsto> RValue (VString PersistentReceiverAutoAck))"

definition WithMessageClientAcknowledgement :: "receiver_map \<Rightarrow> receiver_map" where
  "WithMessageClientAcknowledgement properties =
     properties(ReceiverPropertyPersistentMessageAckStrategy \<mapsto> RValue (VString PersistentReceiverClientAck))"

definition WithMessageSelector :: "string \<Rightarrow> receiver_map \<Rightarrow> receiver_map" where
  "WithMessageSelector filterSelectorExpression properties =
     (if filterSelectorExpression = [] then properties(ReceiverPropertyPersistentMessageSelectorQuery := None)
      else properties(ReceiverPropertyPersistentMessageSelectorQuery \<mapsto> RValue (VString filterSelectorExpression)))"

definition WithMissingResourcesCreationStrategy :: "string \<Rightarrow> receiver_map \<Rightarrow> receiver_map" where
  "WithMissingResourcesCreationStrategy strategy properties =
     properties(ReceiverPropertyPersistentMissingResourceCreationStrategy \<mapsto> RStrategy strategy)"

text \<open>A replay strategy is its name and its data.\<close>

definition WithMessageReplay :: "string \<times> receiver_value \<Rightarrow> receiver_map \<Rightarrow> receiver_map" where
  "WithMessageReplay strategy properties =
     (if fst strategy = PersistentReplayAll
      then properties(ReceiverPropertyPersistentMessageReplayStrategy \<mapsto> RValue (VString PersistentReplayAll))
      else if fst strategy = PersistentReplayTimeBased
      then properties(ReceiverPropertyPersistentMessageReplayStrategy \<mapsto> RValue (VString PersistentReplayTimeBased),
                      ReplayStrategyTimeBasedStartTime \<mapsto> snd strategy)
      else if fst strategy = PersistentReplayIDBased
      then properties(ReceiverPropertyPersistentMessageReplayStrategy \<mapsto> RValue (VString PersistentReplayIDBased),
                      ReplayStrategyIDBasedReplicationGroupMessageID \<mapsto> snd strategy)
      else properties)"

definition isSupportedMessageSettlementOutcome :: "string \<Rightarrow> bool" where
  "isSupportedMessageSettlementOutcome x \<longleftrightarrow> x = PersistentReceiverAcceptedOutcome \<or>
     x = PersistentReceiverFailedOutcome \<or> x = PersistentReceiverRejectedOutcome"

fun first_occurrences :: "string list \<Rightarrow> string list \<Rightarrow> string list" where
  "first_occurrences [] added = []"
| "first_occurrences (x # xs) added =
     (if x \<in> set added then first_occurrences xs added else x # first_occurrences xs (x # added))"

definition WithRequiredMessageOutcomeSupport :: "string list \<Rightarrow> receiver_map \<Rightarrow> receiver_map" where
  "WithRequiredMessageOutcomeSupport outcomes properties =
     properties(ReceiverPropertyPersistentMessageRequiredOutcomeSupport \<mapsto>
       RValue (VString (join_with (CHR '','') (first_occurrences outcomes []))))"

section \<open>What the builder hands to the C library\<close>

definition outcome_pairs :: "string set \<Rightarrow> (string \<times> string) set" where
  "outcome_pairs os =
     (if PersistentReceiverFailedOutcome \<in> os
      then {(SolClientFlowPropRequiredOutcomeFailed, Endpoint_Provisioner.SolClientPropEnableVal)} else {}) \<union>
     (if PersistentReceiverRejectedOutcome \<in> os
      then {(SolClientFlowPropRequiredOutcomeRejected, Endpoint_Provisioner.SolClientPropEnableVal)} else {})"

lemma outcome_names [simp]:
  "PersistentReceiverFailedOutcome \<noteq> PersistentReceiverRejectedOutcome"
  "PersistentReceiverRejectedOutcome \<noteq> PersistentReceiverFailedOutcome"
  "PersistentReceiverAcceptedOutcome \<noteq> PersistentReceiverFailedOutcome"
  "PersistentReceiverAcceptedOutcome \<noteq> PersistentReceiverRejectedOutcome"
  by (simp_all add: outcome_name_defs)

lemma outcome_pairs_simps:
  "outcome_pairs {} = {}"
  "SolClientFlowPropRequiredOutcomeFailed \<in> fst ` outcome_pairs os \<longleftrightarrow> PersistentReceiverFailedOutcome \<in> os"
  "SolClientFlowPropRequiredOutcomeRejected \<in> fst ` outcome_pairs os \<longleftrightarrow> PersistentReceiverRejectedOutcome \<in> os"
  by (auto simp: outcome_pairs_def flow_prop_defs)

lemma outcome_pairs_insert:
  "outcome_pairs (insert x os) =
     (if x = PersistentReceiverFailedOutcome then insert (SolClientFlowPropRequiredOutcomeFailed, Endpoint_Provisioner.SolClientPropEnableVal) (outcome_pairs os)
      else if x = PersistentReceiverRejectedOutcome then insert (SolClientFlowPropRequiredOutcomeRejected, Endpoint_Provisioner.SolClientPropEnableVal) (outcome_pairs os)
      else outcome_pairs os)"
  by (auto simp: outcome_pairs_def)

lemma outcome_validation:
  "StringPropertyValidation key (VString x)
     [PersistentReceiverAcceptedOutcome, PersistentReceiverFailedOutcome, PersistentReceiverRejectedOutcome] = (str, present, err) \<Longrightarrow>
   present \<and> (err = None \<longleftrightarrow> isSupportedMessageSettlementOutcome x)"
  by (auto simp: StringPropertyValidation_def isSupportedMessageSettlementOutcome_def split: if_splits)

lemma outcome_loop_ok:
  "outcome_loop xs added = Inr ps \<Longrightarrow>
     even (length ps) \<and> distinct (map fst (pairs ps)) \<and> (\<forall>x \<in> set xs. isSupportedMessageSettlementOutcome x) \<and>
     set (pairs ps) = outcome_pairs (set xs - set added)"
proof (induction xs arbitrary: added ps)
  case Nil
  then show ?case by (simp add: outcome_pairs_def)
next
  case (Cons x xs)
  obtain str present err where v: "StringPropertyValidation ReceiverPropertyPersistentMessageRequiredOutcomeSupport (VString x)
     [PersistentReceiverAcceptedOutcome, PersistentReceiverFailedOutcome, PersistentReceiverRejectedOutcome] = (str, present, err)"
    by (metis prod_cases3)
  note supported = outcome_validation [OF v]
  have ok: "isSupportedMessageSettlementOutcome x" using Cons.prems supported by (auto simp: v split: if_splits)
  show ?case
  proof (cases "x \<in> set added")
    case True
    then have "set (x # xs) - set added = set xs - set added" by auto
    with True Cons supported ok show ?thesis by (simp add: v)
  next
    case False
    then obtain qs where rest: "outcome_loop xs (x # added) = Inr qs"
      using Cons.prems supported ok by (cases "outcome_loop xs (x # added)") (auto simp: v)
    note ih = Cons.IH [OF rest]
    have ps: "ps = (if x = PersistentReceiverFailedOutcome
                    then [SolClientFlowPropRequiredOutcomeFailed, Endpoint_Provisioner.SolClientPropEnableVal]
                    else if x = PersistentReceiverRejectedOutcome
                    then [SolClientFlowPropRequiredOutcomeRejected, Endpoint_Provisioner.SolClientPropEnableVal] else []) @ qs"
      using Cons.prems False supported ok rest by (simp add: v)
    define os where "os = set xs - set (x # added)"
    have os: "set (x # xs) - set added = insert x os" "x \<notin> os" using False by (auto simp: os_def)
    have qs: "even (length qs)" "distinct (map fst (pairs qs))" "\<forall>y \<in> set xs. isSupportedMessageSettlementOutcome y"
      "set (pairs qs) = outcome_pairs os" using ih by (simp_all add: os_def)
    have fresh: "x = PersistentReceiverFailedOutcome \<Longrightarrow> SolClientFlowPropRequiredOutcomeFailed \<notin> fst ` set (pairs qs)"
      "x = PersistentReceiverRejectedOutcome \<Longrightarrow> SolClientFlowPropRequiredOutcomeRejected \<notin> fst ` set (pairs qs)"
      using os(2) unfolding qs(4) outcome_pairs_simps by simp_all
    show ?thesis unfolding os(1) outcome_pairs_insert using qs fresh ok ps by simp
  qed
qed

lemma outcome_loop_total:
  "\<forall>x \<in> set xs. isSupportedMessageSettlementOutcome x \<Longrightarrow> \<exists>ps. outcome_loop xs added = Inr ps"
proof (induction xs arbitrary: added)
  case (Cons x xs)
  obtain str present err where v: "StringPropertyValidation ReceiverPropertyPersistentMessageRequiredOutcomeSupport (VString x)
     [PersistentReceiverAcceptedOutcome, PersistentReceiverFailedOutcome, PersistentReceiverRejectedOutcome] = (str, present, err)"
    by (metis prod_cases3)
  obtain ps qs where "outcome_loop xs added = Inr ps" "outcome_loop xs (x # added) = Inr qs"
    using Cons.IH [of added] Cons.IH [of "x # added"] Cons.prems by auto
  with outcome_validation [OF v] Cons.prems show ?case by (simp add: v)
qed simp

lemma set_first_occurrences: "set (first_occurrences xs added) = set xs - set added"
  by (induction xs arbitrary: added) auto

lemma split_join: "ps \<noteq> [] \<Longrightarrow> split_on sep (join_with sep ps) = concat (map (split_on sep) ps)"
  by (induction sep ps rule: join_with.induct) (simp_all add: split_on_append)

lemma supported_whole: "isSupportedMessageSettlementOutcome x \<Longrightarrow> split_on (CHR '','') x = [x]"
  by (rule split_on_fresh) (auto simp: isSupportedMessageSettlementOutcome_def outcome_name_defs)

text \<open>What \<^verbatim>\<open>Build\<close> reads: the texts between the commas of all outcomes.\<close>

definition outcomes_read :: "string list \<Rightarrow> string set" where
  "outcomes_read os = (\<Union>x \<in> set os. set (split_on (CHR '','') x))"

lemma outcomes_read_supported: "\<forall>x \<in> set os. isSupportedMessageSettlementOutcome x \<Longrightarrow> outcomes_read os = set os"
  by (simp add: outcomes_read_def supported_whole)

text \<open>
  C36. The outcomes that an application requires reach the flow. After \<^verbatim>\<open>WithRequiredMessageOutcomeSupport\<close> with any
  non-empty list of supported outcomes, in any order and with repetitions, \<^verbatim>\<open>Build\<close> reads the comma-separated property back
  and adds a name and value for the failed and for the rejected outcome exactly when the application asked for it, each once
  (the accepted outcome needs none). A call with no outcomes makes \<^verbatim>\<open>Build\<close> fail. For arbitrary texts \<^verbatim>\<open>Build\<close> reads what stands between the
  commas: it succeeds if and only if all these parts are supported outcomes, so that an unsupported outcome without a comma makes it fail, as
  the comment in the method wants, but one such as \<^verbatim>\<open>ACCEPTED,FAILED\<close> is taken for two outcomes and passes.
\<close>

proposition required_outcomes_reach_flow:
  "(case build_outcomes (WithRequiredMessageOutcomeSupport os properties) of
      Inr ps \<Rightarrow> os \<noteq> [] \<and> (\<forall>x \<in> outcomes_read os. isSupportedMessageSettlementOutcome x) \<and>
        even (length ps) \<and> distinct (map fst (pairs ps)) \<and> set (pairs ps) = outcome_pairs (outcomes_read os)
    | Inl err \<Rightarrow> os = [] \<or> (\<exists>x \<in> outcomes_read os. \<not> isSupportedMessageSettlementOutcome x)) \<and>
   (os \<noteq> [] \<and> (\<forall>x \<in> set os. isSupportedMessageSettlementOutcome x) \<longrightarrow>
      (\<exists>ps. build_outcomes (WithRequiredMessageOutcomeSupport os properties) = Inr ps \<and> set (pairs ps) = outcome_pairs (set os))) \<and>
   ((\<exists>x \<in> set os. \<not> isSupportedMessageSettlementOutcome x \<and> CHR '','' \<notin> set x) \<longrightarrow>
      (\<exists>err. build_outcomes (WithRequiredMessageOutcomeSupport os properties) = Inl err))"
proof -
  have bad: "\<exists>y \<in> outcomes_read os. \<not> isSupportedMessageSettlementOutcome y"
    if "x \<in> set os" "\<not> isSupportedMessageSettlementOutcome x" "CHR '','' \<notin> set x" for x
    using that split_on_fresh [of "CHR '',''" x] by (force simp: outcomes_read_def)
  show ?thesis
  proof (cases "os = []")
    case True
    then show ?thesis
      by (simp add: build_outcomes_def WithRequiredMessageOutcomeSupport_def StringPropertyValidation_def outcome_name_defs)
  next
    case False
    let ?xs = "concat (map (split_on (CHR '','')) (first_occurrences os []))"
    have first: "set (first_occurrences os []) = set os" by (simp add: set_first_occurrences)
    then have "first_occurrences os [] \<noteq> []" using False by (metis set_empty)
    then have build: "build_outcomes (WithRequiredMessageOutcomeSupport os properties) = outcome_loop ?xs []"
      by (simp add: build_outcomes_def WithRequiredMessageOutcomeSupport_def split_join)
    have xs: "set ?xs = outcomes_read os" using first by (simp add: outcomes_read_def)
    show ?thesis
      unfolding build
      using False bad outcomes_read_supported [of os] outcome_loop_ok [of ?xs "[]"] outcome_loop_total [of ?xs "[]"] unfolding xs
      by (cases "outcome_loop ?xs []") auto
  qed
qed

theorem required_outcomes_reach_flow_witness:
  "(\<exists>ps. build_outcomes (WithRequiredMessageOutcomeSupport [''REJECTED'', ''FAILED'', ''REJECTED''] Map.empty) = Inr ps \<and>
      set (pairs ps) = {(''FLOW_REQUIRED_OUTCOME_FAILED'', ''1''), (''FLOW_REQUIRED_OUTCOME_REJECTED'', ''1'')}) \<and>
   \<not> isSupportedMessageSettlementOutcome ''ACCEPTED,FAILED'' \<and>
   (\<exists>ps. build_outcomes (WithRequiredMessageOutcomeSupport [''ACCEPTED,FAILED''] Map.empty) = Inr ps \<and>
      set (pairs ps) = {(''FLOW_REQUIRED_OUTCOME_FAILED'', ''1'')})"
  using required_outcomes_reach_flow [of "[''REJECTED'', ''FAILED'', ''REJECTED'']" Map.empty]
    required_outcomes_reach_flow [of "[''ACCEPTED,FAILED'']" Map.empty, THEN conjunct1]
  by (simp add: outcomes_read_def outcome_pairs_def outcome_name_defs isSupportedMessageSettlementOutcome_def flow_prop_defs
      Endpoint_Provisioner.SolClientPropEnableVal_def split: sum.splits) blast

text \<open>The parts of \<^verbatim>\<open>Build\<close> that may add nothing or one name and value.\<close>

definition selector_of :: "receiver_map \<Rightarrow> string option" where
  "selector_of properties =
     (case properties ReceiverPropertyPersistentMessageSelectorQuery of Some (RValue (VString s)) \<Rightarrow> Some s | _ \<Rightarrow> None)"

definition required_outcomes :: "receiver_map \<Rightarrow> string set" where
  "required_outcomes properties =
     (case properties ReceiverPropertyPersistentMessageRequiredOutcomeSupport of
        Some (RValue (VString s)) \<Rightarrow> set (split_on (CHR '','') s) | _ \<Rightarrow> {})"

definition opt_pair :: "string \<Rightarrow> string option \<Rightarrow> string list" where
  "opt_pair name v = (case v of None \<Rightarrow> [] | Some s \<Rightarrow> [name, s])"

lemma build_selector_ok:
  "build_selector properties = Inr ps \<Longrightarrow> ps = opt_pair SolClientFlowPropSelector (selector_of properties)"
  by (auto simp: build_selector_def selector_of_def opt_pair_def StringPropertyValidation_def wrongTypeError_def
      split: option.splits go_value.splits receiver_value.splits elim!: rv_interface.elims)

lemma result_bind_Inr: "result_bind x f = Inr y \<longleftrightarrow> (\<exists>z. x = Inr z \<and> f z = Inr y)"
  by (cases x) auto

lemma build_replay_ok:
  assumes "build_replay other properties = Inr ps"
  shows "\<exists>v. ps = opt_pair SolClientFlowPropReplayStartLocation v \<and>
    (v = None \<longleftrightarrow> properties ReceiverPropertyPersistentMessageReplayStrategy \<in> {None, Some (RValue VNil)}) \<and>
    (properties ReceiverPropertyPersistentMessageReplayStrategy = Some (RValue (VString PersistentReplayAll)) \<longrightarrow>
       v = Some SolClientFlowPropReplayStartLocationBeginning)"
proof (cases "properties ReceiverPropertyPersistentMessageReplayStrategy")
  case None
  with assms show ?thesis by (simp add: build_replay_def opt_pair_def)
next
  case (Some strategy)
  show ?thesis
  proof (cases "\<exists>s. strategy = RValue (VString s)")
    case True
    then obtain s where s: "strategy = RValue (VString s)" by blast
    with assms Some obtain start where "ps = [SolClientFlowPropReplayStartLocation, start]"
        "s = PersistentReplayAll \<Longrightarrow> start = SolClientFlowPropReplayStartLocationBeginning"
      by (cases "s \<in> {PersistentReplayAll, PersistentReplayTimeBased, PersistentReplayIDBased}")
        (auto simp: build_replay_def StringPropertyValidation_def result_bind_Inr split: if_splits)
    with Some s show ?thesis by (intro exI [of _ "Some start"]) (simp add: opt_pair_def)
  next
    case False
    with assms Some show ?thesis
      by (cases strategy; cases "rv_interface strategy")
        (auto simp: build_replay_def StringPropertyValidation_def opt_pair_def)
  qed
qed

lemma build_outcomes_ok:
  "build_outcomes properties = Inr ps \<Longrightarrow>
     even (length ps) \<and> distinct (map fst (pairs ps)) \<and> set (pairs ps) = outcome_pairs (required_outcomes properties)"
  using outcome_loop_ok [of _ "[]"]
  by (auto simp: build_outcomes_def required_outcomes_def outcome_pairs_simps
      split: option.splits receiver_value.splits go_value.splits)

lemma distinct_parts:
  assumes "distinct (map fst as)" "distinct (map fst bs)" "distinct (map fst cs)" "distinct (map fst ds)"
    and "fst ` set as \<subseteq> A" "fst ` set bs \<subseteq> {b}" "fst ` set cs \<subseteq> {c}" "fst ` set ds \<subseteq> D"
    and "{b} \<inter> A = {}" "{c} \<inter> A = {}" "D \<inter> insert b (insert c A) = {}" "b \<noteq> c"
  shows "distinct (map fst (as @ bs @ cs @ ds))"
proof -
  define x y z w where "x = fst ` set as" and "y = fst ` set bs" and "z = fst ` set cs" and "w = fst ` set ds"
  have "x \<inter> (y \<union> (z \<union> w)) = {}" "y \<inter> (z \<union> w) = {}" "z \<inter> w = {}"
    using assms(5-12) unfolding x_def [symmetric] y_def [symmetric] z_def [symmetric] w_def [symmetric] by blast+
  with assms(1-4) show ?thesis by (simp add: image_Un x_def y_def z_def w_def)
qed

definition flow_bind_names :: "string set" where
  "flow_bind_names = {SolClientFlowPropBindEntityID, SolClientFlowPropAckmode, SolClientFlowPropActiveFlowInd,
     SolClientFlowPropStartState, SolClientFlowPropBindName, SolClientFlowPropBindEntityDurable}"

lemmas receiver_key_defs = ReceiverPropertyPersistentMissingResourceCreationStrategy_def
  ReceiverPropertyPersistentMessageSelectorQuery_def ReceiverPropertyPersistentStateChangeListener_def
  ReceiverPropertyPersistentMessageAckStrategy_def ReceiverPropertyPersistentMessageRequiredOutcomeSupport_def
  ReceiverPropertyPersistentMessageReplayStrategy_def ReplayStrategyTimeBasedStartTime_def
  ReplayStrategyIDBasedReplicationGroupMessageID_def

text \<open>
  What a persistent receiver asks of the C library is what the application set: when \<^verbatim>\<open>Build\<close> succeeds, the flat list
  of flow properties has an even number of entries and no name twice, so that no setting is shadowed; the flow binds to
  the given queue, whose name is passed when there is one or the queue is durable, starts disabled, acknowledges by the client and reports its
  activity; a selector and a replay start are passed exactly when they are set, replaying everything from the beginning; the
  failed and rejected outcomes exactly when they are required; and the buffer always has room for 510 messages,
  with the marks 50 and 40.
\<close>

proposition persistent_flow_settings:
  assumes "persistent_rx_Build other properties topics queue = Inr r"
  shows "\<exists>q. queue = Some q \<and> pr_queue r = q \<and> pr_subscriptions r = map GetName topics \<and>
           highwater r = 50 \<and> lowwater r = 40 \<and> pr_buffer r = make_chan 510 \<and>
           even (length (internalFlowProperties r)) \<and> distinct (map fst (pairs (internalFlowProperties r))) \<and>
           (\<exists>replay. set (pairs (internalFlowProperties r)) =
              {(SolClientFlowPropBindEntityID, SolClientFlowPropBindEntityQueue),
               (SolClientFlowPropAckmode, SolClientFlowPropAckmodeClient),
               (SolClientFlowPropActiveFlowInd, Endpoint_Provisioner.SolClientPropEnableVal),
               (SolClientFlowPropStartState, SolClientPropDisableVal),
               (SolClientFlowPropBindEntityDurable,
                if q_durable q then Endpoint_Provisioner.SolClientPropEnableVal else SolClientPropDisableVal)} \<union>
              (if q_name q \<noteq> [] \<or> q_durable q then {(SolClientFlowPropBindName, q_name q)} else {}) \<union>
              (case selector_of properties of None \<Rightarrow> {} | Some s \<Rightarrow> {(SolClientFlowPropSelector, s)}) \<union>
              (case replay of None \<Rightarrow> {} | Some s \<Rightarrow> {(SolClientFlowPropReplayStartLocation, s)}) \<union>
              outcome_pairs (required_outcomes properties) \<and>
              (replay = None \<longleftrightarrow> properties ReceiverPropertyPersistentMessageReplayStrategy \<in> {None, Some (RValue VNil)}) \<and>
              (properties ReceiverPropertyPersistentMessageReplayStrategy = Some (RValue (VString PersistentReplayAll)) \<longrightarrow>
                 replay = Some SolClientFlowPropReplayStartLocationBeginning))"
proof -
  obtain q selector replay outcomes create autoAck listener where q: "queue = Some q"
    and parts: "build_selector properties = Inr selector" "build_replay other properties = Inr replay"
      "build_outcomes properties = Inr outcomes"
    and r: "r = persistent_rx_construct
       \<lparr>flowProperties = build_queue q @ selector @ replay @ outcomes, startupSubscriptions = topics,
        endpoint = q, bufferHighwater = 50, bufferLowwater = 40, props_doCreateMissingResource = create,
        props_doAutoAck = autoAck, props_stateChangeListener = listener\<rparr>"
    using assms by (auto simp: persistent_rx_Build_def result_bind_Inr split: option.splits)
  note selector = build_selector_ok [OF parts(1)] and outcomes = build_outcomes_ok [OF parts(3)]
  obtain v where replay: "replay = opt_pair SolClientFlowPropReplayStartLocation v"
    and v: "v = None \<longleftrightarrow> properties ReceiverPropertyPersistentMessageReplayStrategy \<in> {None, Some (RValue VNil)}"
      "properties ReceiverPropertyPersistentMessageReplayStrategy = Some (RValue (VString PersistentReplayAll)) \<longrightarrow>
         v = Some SolClientFlowPropReplayStartLocationBeginning"
    using build_replay_ok [OF parts(2)] by blast
  have props: "internalFlowProperties r = build_queue q @ selector @ replay @ outcomes"
    and fields: "pr_queue r = q" "pr_subscriptions r = map GetName topics" "highwater r = 50" "lowwater r = 40"
      "pr_buffer r = make_chan 510"
    by (simp_all add: r persistent_rx_construct_def maxWindowSize_def)
  have even: "even (length (build_queue q))" "even (length (opt_pair name x))" for name x
    by (auto simp: build_queue_def opt_pair_def split: option.splits)
  have pairs: "pairs (internalFlowProperties r) = pairs (build_queue q) @
      pairs (opt_pair SolClientFlowPropSelector (selector_of properties)) @
      pairs (opt_pair SolClientFlowPropReplayStartLocation v) @ pairs outcomes"
    unfolding props selector replay by (simp add: pairs_append even)
  have sets: "set (pairs (opt_pair name x)) = (case x of None \<Rightarrow> {} | Some s \<Rightarrow> {(name, s)})" for name x
    by (auto simp: opt_pair_def split: option.splits)
  have queue: "set (pairs (build_queue q)) =
      {(SolClientFlowPropBindEntityID, SolClientFlowPropBindEntityQueue),
       (SolClientFlowPropAckmode, SolClientFlowPropAckmodeClient),
       (SolClientFlowPropActiveFlowInd, Endpoint_Provisioner.SolClientPropEnableVal),
       (SolClientFlowPropStartState, SolClientPropDisableVal),
       (SolClientFlowPropBindEntityDurable,
        if q_durable q then Endpoint_Provisioner.SolClientPropEnableVal else SolClientPropDisableVal)} \<union>
      (if q_name q \<noteq> [] \<or> q_durable q then {(SolClientFlowPropBindName, q_name q)} else {})"
    by (auto simp: build_queue_def)
  have names: "fst ` outcome_pairs os \<subseteq> {SolClientFlowPropRequiredOutcomeFailed, SolClientFlowPropRequiredOutcomeRejected}" for os
    by (auto simp: outcome_pairs_def)
  have opts: "distinct (map fst (pairs (opt_pair name x)))" "fst ` set (pairs (opt_pair name x)) \<subseteq> {name}" for name x
    by (auto simp: opt_pair_def split: option.splits)
  have Q: "distinct (map fst (pairs (build_queue q)))" "fst ` set (pairs (build_queue q)) \<subseteq> flow_bind_names"
    by (simp_all add: build_queue_def flow_bind_names_def flow_prop_defs)
  have apart: "{SolClientFlowPropSelector} \<inter> flow_bind_names = {}" "{SolClientFlowPropReplayStartLocation} \<inter> flow_bind_names = {}"
    "{SolClientFlowPropRequiredOutcomeFailed, SolClientFlowPropRequiredOutcomeRejected} \<inter>
       insert SolClientFlowPropSelector (insert SolClientFlowPropReplayStartLocation flow_bind_names) = {}"
    "SolClientFlowPropSelector \<noteq> SolClientFlowPropReplayStartLocation"
    by (auto simp: flow_bind_names_def flow_prop_defs)
  have dist: "distinct (map fst (pairs (internalFlowProperties r)))"
    unfolding pairs using outcomes names [of "required_outcomes properties"]
    by (intro distinct_parts [OF Q(1) opts(1) opts(1) _ Q(2) opts(2) opts(2) _ apart]) simp_all
  have len: "even (length (internalFlowProperties r))" unfolding props selector replay using outcomes even by simp
  have all: "set (pairs (internalFlowProperties r)) = set (pairs (build_queue q)) \<union>
      (case selector_of properties of None \<Rightarrow> {} | Some s \<Rightarrow> {(SolClientFlowPropSelector, s)}) \<union>
      (case v of None \<Rightarrow> {} | Some s \<Rightarrow> {(SolClientFlowPropReplayStartLocation, s)}) \<union> outcome_pairs (required_outcomes properties)"
    unfolding pairs set_append sets using outcomes by (simp add: Un_assoc)
  show ?thesis
    by (intro exI [of _ q] exI [of _ v] conjI q fields len dist v all [unfolded queue])
qed

theorem persistent_flow_settings_witness:
  "\<exists>r :: nat persistentMessageReceiverImpl.
     persistent_rx_Build (\<lambda>_. []) (WithMessageSelector ''a = 1'' (WithMessageReplay (''REPLAY_ALL'', RValue VNil) Map.empty))
       [TopicSubscription ''t''] (Some \<lparr>q_name = ''q'', q_durable = True, q_exclusive = True\<rparr>) = Inr r \<and>
     (SolClientFlowPropBindName, ''q'') \<in> set (pairs (internalFlowProperties r)) \<and>
     (SolClientFlowPropSelector, ''a = 1'') \<in> set (pairs (internalFlowProperties r)) \<and> chan_cap (pr_buffer r) = 510"
proof -
  let ?m = "WithMessageSelector ''a = 1'' (WithMessageReplay (''REPLAY_ALL'', RValue VNil) Map.empty)"
  let ?q = "Some \<lparr>q_name = ''q'', q_durable = True, q_exclusive = True\<rparr>"
  obtain r :: "nat persistentMessageReceiverImpl" where r: "persistent_rx_Build (\<lambda>_. []) ?m [TopicSubscription ''t''] ?q = Inr r"
    by (simp add: persistent_rx_Build_def checkPersistentMessageReceiverSubscriptionType_def build_missing_resource_def
        build_auto_ack_def build_listener_def build_selector_def build_replay_def build_outcomes_def WithMessageSelector_def
        WithMessageReplay_def StringPropertyValidation_def receiver_choice_defs receiver_key_defs)
  have "selector_of ?m = Some ''a = 1''"
    by (simp add: selector_of_def WithMessageSelector_def)
  with persistent_flow_settings [OF r] r show ?thesis by (auto simp: make_chan_def)
qed

section \<open>A start that fails\<close>

lemma cleared_correlations:
  "fst ` set (corr_map (subscriptionCorrelations (fold ClearSubscriptionCorrelation is core))) =
     fst ` set (corr_map (subscriptionCorrelations core)) - set is"
  by (induction "is" arbitrary: core) (auto simp: ClearSubscriptionCorrelation_def corr_clear_def delete_filter)

lemma flow_subscribe_loop_all:
  "flow_subscribe_loop lib ts core = (None, added, core') \<Longrightarrow> length added = length ts"
  by (induction ts arbitrary: added core) (auto split: prod.splits sum.splits)

text \<open>
  C35. Starting a persistent receiver is all or nothing. When the endpoint, the flow and every subscription are accepted and
  confirmed, the receiver is started, its flow delivers, and there is one handler for down events more than
  before. When one of them is refused, or a confirmation brings an error, whatever other subscription requests and
  confirmations come in between, the call returns that error, and after the clean-up the handlers of every event are those
  from before, none of the requests of this start is left in the table of pending ones, the flow is destroyed if it was
  created, every other caller of \<^verbatim>\<open>Start\<close> that waits gets the same error, and the receiver is terminated and cannot be
  started again.
\<close>

proposition persistent_start_all_or_nothing:
  assumes "events_wf ev" and "handlerID ev \<noteq> - 1" and "events_look ev (pr_terminationHandlerID r) = None"
    and "internalFlow r = NoFlow"
    and first: "persistent_rx_Start_begin handler lib ev core r = (Proceed, err, added, ev1, core1, r1)"
    and last: "persistent_rx_Start_end err added ev1 core2 r1 = Return (err', ev', core', r')"
  shows "(err' = None \<longrightarrow> lc_state (pr_lifecycle r') = Started \<and> internalFlow r' = Flow True \<and>
            length added = length (pr_subscriptions r) \<and>
            events_look ev' = (events_look ev)(pr_terminationHandlerID r' \<mapsto> (SolClientEventDown, handler))) \<and>
         (err' \<noteq> None \<longrightarrow> events_look ev' = events_look ev \<and>
            fst ` set (corr_map (subscriptionCorrelations core')) \<inter> fst ` set added = {} \<and>
            internalFlow r' \<in> {NoFlow, FlowDestroyed} \<and> lc_state (pr_lifecycle r') = Terminated \<and>
            future_Get (startFuture (pr_lifecycle r')) = Return err' \<and>
            (\<forall>parent. fst (receiver_starting parent (pr_lifecycle r')) = Stop (Return (Some (IllegalState UnableToStartReceiver)))))"
proof -
  obtain l where l: "receiver_starting (core_receiver_IsRunning core) (pr_lifecycle r) = (Proceed, l)"
    using first by (auto simp: persistent_rx_Start_begin_def split: prod.splits proceed.splits)
  obtain i ev0 where add: "AddEventHandler SolClientEventDown handler ev = (i, ev0)" by fastforce
  note look = AddEventHandler_look [OF assms(1,2) add]
  have removed: "events_look (RemoveEventHandler i ev0) = events_look ev"
    using evreg.remove_added [OF assms(1,2), of "(SolClientEventDown, handler)" i ev0] add by (simp add: add_event_handler_def)
  have untouched: "events_look (RemoveEventHandler (pr_terminationHandlerID r) ev) = events_look ev"
    using RemoveEventHandler_look(1) [OF assms(1)] assms(3) by auto
  have begun: "(ev1 = ev \<and> pr_terminationHandlerID r1 = pr_terminationHandlerID r \<and> err \<noteq> None \<or>
      ev1 = ev0 \<and> pr_terminationHandlerID r1 = i) \<and> internalFlow r1 \<in> {NoFlow, Flow True, Flow False} \<and>
      (err = None \<longrightarrow> ev1 = ev0 \<and> internalFlow r1 = Flow True \<and> length added = length (pr_subscriptions r))"
  proof (cases "provisionEndpoint (ans_provision lib) (r\<lparr>pr_lifecycle := l\<rparr>)")
    case (Some e)
    with first have "err = Some e" "added = []" "ev1 = ev" "r1 = r\<lparr>pr_lifecycle := l\<rparr>"
      by (simp_all add: persistent_rx_Start_begin_def l Let_def)
    with assms(4) show ?thesis by simp
  next
    case None
    with first assms(4) show ?thesis
      by (auto simp: persistent_rx_Start_begin_def l add Let_def flow_subscribe_loop_all split: prod.splits option.splits)
  qed
  then have after: "events_look (RemoveEventHandler (pr_terminationHandlerID r1) ev1) = events_look ev"
    using removed untouched by auto
  obtain core3 where case_err: "err' = None \<and> err = None \<and> ev' = ev1 \<and> r' = r1\<lparr>pr_lifecycle := started None (pr_lifecycle r1)\<rparr> \<or>
      err' \<noteq> None \<and> persistent_rx_Start_fail err' added ev1 core3 r1 = (ev', core', r')"
    using last by (auto simp: persistent_rx_Start_end_def outcome_bind_Return split: if_splits)
  then show ?thesis
  proof (elim disjE conjE)
    assume "err' = None" "err = None" "ev' = ev1" "r' = r1\<lparr>pr_lifecycle := started None (pr_lifecycle r1)\<rparr>"
    with begun look show ?thesis by (auto simp: started_def)
  next
    assume fail: "err' \<noteq> None" "persistent_rx_Start_fail err' added ev1 core3 r1 = (ev', core', r')"
    then have "fst ` set (corr_map (subscriptionCorrelations core')) \<inter> fst ` set added = {}"
      using cleared_correlations [of "map fst added" core3] by (auto simp: persistent_rx_Start_fail_def Let_def)
    with fail begun after show ?thesis
      by (auto simp: persistent_rx_Start_fail_def Let_def terminated_def receiver_starting_def starting_def
          checkStartupStateAndWait_def)
  qed
qed

definition sample_start :: "start_answers" where
  "sample_start = \<lparr>ans_provision = \<lambda>_. None, ans_createFlow = \<lambda>_. None, ans_flowStart = None,
     ans_flowSubscribe = \<lambda>topic i. if topic = ''b'' then Some sample_error else None\<rparr>"

definition sample_persistent :: "nat persistentMessageReceiverImpl" where
  "sample_persistent = persistent_rx_construct
     \<lparr>flowProperties = [], startupSubscriptions = [TopicSubscription ''a'', TopicSubscription ''b''],
      endpoint = \<lparr>q_name = ''q'', q_durable = True, q_exclusive = True\<rparr>, bufferHighwater = 50, bufferLowwater = 40,
      props_doCreateMissingResource = True, props_doAutoAck = False, props_stateChangeListener = False\<rparr>"

theorem persistent_start_all_or_nothing_witness:
  "\<exists>added ev1 core1 r1 err ev' core' r'.
     persistent_rx_Start_begin ''down'' sample_start newCcsmpEvents
       ((newCcsmpReceiver :: nat ccsmpBackedReceiver)\<lparr>rx_running := 1\<rparr>) sample_persistent
       = (Proceed, err, added, ev1, core1, r1) \<and>
     map fst added = [1] \<and> err \<noteq> None \<and> persistent_rx_Start_end err added ev1 core1 r1 = Return (err, ev', core', r') \<and>
     events_look ev' = Map.empty \<and> internalFlow r' = FlowDestroyed \<and>
     1 \<notin> fst ` set (corr_map (subscriptionCorrelations core')) \<and> lc_state (pr_lifecycle r') = Terminated"
proof -
  let ?core = "(newCcsmpReceiver :: nat ccsmpBackedReceiver)\<lparr>rx_running := 1\<rparr>"
  obtain p err added ev1 core1 r1 where 1: "persistent_rx_Start_begin ''down'' sample_start newCcsmpEvents ?core sample_persistent =
      (p, err, added, ev1, core1, r1)" by (metis surj_pair)
  have p: "p = Proceed" "err \<noteq> None" "map fst added = [1]" "internalFlow r1 = Flow True"
    using 1 by (auto simp: persistent_rx_Start_begin_def receiver_starting_def starting_def lifecycle_construct_def
        core_receiver_IsRunning_def CompareAndSwap_def Let_def sample_persistent_def persistent_rx_construct_def
        provisionEndpoint_def ProvisionEndpoint_def sample_start_def flow_Subscribe_def newSubscriptionCorrelation_def
        corr_new_def newCcsmpReceiver_def corr_empty_def split: prod.splits)
  obtain ev' core' r' where 2: "persistent_rx_Start_end err added ev1 core1 r1 = Return (err, ev', core', r')"
    and destroyed: "internalFlow r' = FlowDestroyed"
    using p(2,4) by (cases "persistent_rx_Start_fail err added ev1 core1 r1")
      (auto simp: persistent_rx_Start_end_def persistent_rx_Start_fail_def Let_def)
  have look: "events_look (newCcsmpEvents :: string ccsmpBackedEvents) = Map.empty" "handlerID (newCcsmpEvents :: string ccsmpBackedEvents) \<noteq> - 1"
    "internalFlow sample_persistent = NoFlow"
    by (simp_all add: newCcsmpEvents_def events_look_def sample_persistent_def persistent_rx_construct_def)
  have "1 \<in> fst ` set added" using p(3) by (metis list.set_intros(1) list.set_map)
  with persistent_start_all_or_nothing [OF events_wf_new look(2) _ look(3) 1 [unfolded p(1)] 2] look 1 2 p destroyed
  show ?thesis by (auto simp: disjoint_iff)
qed

end
