(* ===== verification/Flow_Concurrency.thy ===== *)
theory Flow_Concurrency
  imports Persistent_Receiver Receiver_Concurrency
begin

text \<open>
  The goroutines of a started persistent receiver at work on its buffer and its flow: the thread of the C library in the
  message callback, the goroutine in \<^verbatim>\<open>run\<close>, any number of application goroutines in \<^verbatim>\<open>ReceiveMessage\<close>, in \<^verbatim>\<open>Pause\<close> and
  in \<^verbatim>\<open>Resume\<close>, and the one termination that proceeds, asked for or forced by an event. A step is one access to shared
  state: a channel operation, an atomic operation, a test, or a call of the C library. Setting the flag that the buffer is
  empty and closing the channel behind it are one step, since only the goroutine that sets the flag closes the channel and
  nobody reads the flag otherwise; so are the last actions of a termination, on which no other goroutine depends.
  A message may reach the callback while the flow is stopped: it was on its way. The argument
  \<open>faulty\<close> of the relation says whether the C library may refuse to start or stop the flow.

  The lists of the system record what happened: messages that arrived, that were put into the buffer, that were taken out
  and by whom, that were refused, that found the buffer full, that the application got, that were disposed of because they
  could not be acknowledged, and that were acknowledged.
\<close>

section \<open>The system\<close>

text \<open>The part of the callback and of both consumers that starts the flow again.\<close>

datatype sf_pc = SfLen | SfState | SfCAS | SfStart | SfRetry

datatype fc_pc = FcIdle | FcState nat | FcPush nat | FcLen | FcLoad | FcStop | FcStore | FcRestart sf_pc

datatype pr_pc =
    PrWait | PrTop | PrClosed | PrEmpty | PrNotify | PrPaused | PrCheck | PrSelect
  | PrGot nat | PrCalled nat bool | PrRestart sf_pc | PrDone

datatype rv_pc = RvIdle | RvSelect | RvRestart nat sf_pc | RvAck nat | RvClosed | RvEmpty | RvNotify

datatype pz_pc = PzIdle | PauseDrain | PauseStore | PauseSend | ResumeDrain | ResumeStore | ResumeSend

datatype tt_pc =
    TtIdle | TtMark | TtStop | TtSignal | TtClose | TtFlag | TtLen | TtWait | TtJoin | TtJoinTimeout
  | UtDestroy bool | UtClose | UtFlag | UtSignal | UtNotify
  | TtDrain nat | TtDone "go_error option"

datatype thread = TCallback | TRun | TReceive nat

record 'cb fl_sys =
  px :: "'cb persistentMessageReceiverImpl"
  fc_pc :: fc_pc
  pr_pc :: pr_pc
  rv_pcs :: "rv_pc list"
  pz_pcs :: "pz_pc list"
  tt_pc :: tt_pc
  fl_arrived :: "nat list"
  fl_pushed :: "nat list"
  fl_taken :: "(nat \<times> taker) list"
  fl_refused :: "nat list"
  overflowed :: "nat list"
  fl_delivered :: "nat list"
  disposed :: "nat list"
  acked :: "nat list"

abbreviation items :: "'cb fl_sys \<Rightarrow> nat list" where
  "items s \<equiv> chan_items (pr_buffer (px s))"

abbreviation fl_state :: "'cb fl_sys \<Rightarrow> lifecycle_state" where
  "fl_state s \<equiv> lc_state (pr_lifecycle (px s))"

abbreviation fl_set_buffer :: "nat chan \<Rightarrow> 'cb fl_sys \<Rightarrow> 'cb fl_sys" where
  "fl_set_buffer c s \<equiv> s\<lparr>px := (px s)\<lparr>pr_buffer := c\<rparr>\<rparr>"

abbreviation fl_take :: "nat \<Rightarrow> taker \<Rightarrow> nat chan \<Rightarrow> 'cb fl_sys \<Rightarrow> 'cb fl_sys" where
  "fl_take m by_whom c s \<equiv> (fl_set_buffer c s)\<lparr>fl_taken := fl_taken s @ [(m, by_whom)]\<rparr>"

abbreviation fl_refuse :: "nat \<Rightarrow> 'cb fl_sys \<Rightarrow> 'cb fl_sys" where
  "fl_refuse m s \<equiv> s\<lparr>px := (px s)\<lparr>pr_termination_discarded := pr_termination_discarded (px s) + 1\<rparr>,
                     fl_refused := fl_refused s @ [m]\<rparr>"

abbreviation set_rv :: "nat \<Rightarrow> rv_pc \<Rightarrow> 'cb fl_sys \<Rightarrow> 'cb fl_sys" where
  "set_rv i pc s \<equiv> s\<lparr>rv_pcs := (rv_pcs s)[i := pc]\<rparr>"

abbreviation set_pz :: "nat \<Rightarrow> pz_pc \<Rightarrow> 'cb fl_sys \<Rightarrow> 'cb fl_sys" where
  "set_pz i pc s \<equiv> s\<lparr>pz_pcs := (pz_pcs s)[i := pc]\<rparr>"

text \<open>A goroutine in the part that starts the flow again, and where it goes on from there.\<close>

fun fc_sf :: "fc_pc \<Rightarrow> sf_pc option" where
  "fc_sf (FcRestart x) = Some x"
| "fc_sf pc = None"

fun pr_sf :: "pr_pc \<Rightarrow> sf_pc option" where
  "pr_sf (PrRestart x) = Some x"
| "pr_sf pc = None"

fun rv_sf :: "rv_pc \<Rightarrow> sf_pc option" where
  "rv_sf (RvRestart m x) = Some x"
| "rv_sf pc = None"

fun rv_next :: "rv_pc \<Rightarrow> sf_pc option \<Rightarrow> rv_pc" where
  "rv_next (RvRestart m x) (Some y) = RvRestart m y"
| "rv_next (RvRestart m x) None = RvAck m"
| "rv_next pc y = pc"

fun restarts :: "'cb fl_sys \<Rightarrow> thread \<Rightarrow> sf_pc option" where
  "restarts s TCallback = fc_sf (fc_pc s)"
| "restarts s TRun = pr_sf (pr_pc s)"
| "restarts s (TReceive i) = (if i < length (rv_pcs s) then rv_sf (rv_pcs s ! i) else None)"

fun set_restart :: "thread \<Rightarrow> sf_pc option \<Rightarrow> 'cb fl_sys \<Rightarrow> 'cb fl_sys" where
  "set_restart TCallback x s = s\<lparr>fc_pc := (case x of Some y \<Rightarrow> FcRestart y | None \<Rightarrow> FcIdle)\<rparr>"
| "set_restart TRun x s = s\<lparr>pr_pc := (case x of Some y \<Rightarrow> PrRestart y | None \<Rightarrow> PrTop)\<rparr>"
| "set_restart (TReceive i) x s = set_rv i (rv_next (rv_pcs s ! i) x) s"

text \<open>The callback wants fewer messages than the low-water mark, the consumers at most as many.\<close>

fun is_low :: "thread \<Rightarrow> 'cb persistentMessageReceiverImpl \<Rightarrow> bool" where
  "is_low TCallback r \<longleftrightarrow> chan_len (pr_buffer r) < lowwater r"
| "is_low t r \<longleftrightarrow> chan_len (pr_buffer r) \<le> lowwater r"

text \<open>
  The end of a termination, with what its deferred calls do to the flow and the state. The first of them,
  \<^verbatim>\<open>eventExecutor.AwaitTermination\<close>, waits for the goroutine of the executor, which is not part of this system: it is taken to return.
\<close>

definition end_receiver ::
    "nat \<Rightarrow> 'cb persistentMessageReceiverImpl \<Rightarrow> go_error option \<times> 'cb persistentMessageReceiverImpl" where
  "end_receiver n r =
     (let (err, r) = count_undelivered n r
      in (err, r\<lparr>pr_lifecycle := terminated err (pr_lifecycle r),
                 internalFlow := (case internalFlow r of Flow b \<Rightarrow> FlowDestroyed | f \<Rightarrow> f)\<rparr>))"

inductive fl_step :: "bool \<Rightarrow> 'cb fl_sys \<Rightarrow> 'cb fl_sys \<Rightarrow> bool" for faulty where
  fc_enter: "fc_pc s = FcIdle \<Longrightarrow> fl_step faulty s (s\<lparr>fc_pc := FcState m, fl_arrived := fl_arrived s @ [m]\<rparr>)"
| fc_refuse: "fc_pc s = FcState m \<Longrightarrow> fl_state s \<in> {Terminating, Terminated} \<Longrightarrow>
     fl_step faulty s ((fl_refuse m s)\<lparr>fc_pc := FcIdle\<rparr>)"
| fc_pass: "fc_pc s = FcState m \<Longrightarrow> fl_state s \<notin> {Terminating, Terminated} \<Longrightarrow>
     fl_step faulty s (s\<lparr>fc_pc := FcPush m\<rparr>)"
| fc_push: "fc_pc s = FcPush m \<Longrightarrow> chan_send m (pr_buffer (px s)) = Return c \<Longrightarrow>
     fl_step faulty s ((fl_set_buffer c s)\<lparr>fc_pc := FcLen, fl_pushed := fl_pushed s @ [m]\<rparr>)"
| fc_closed: "fc_pc s = FcPush m \<Longrightarrow> chan_send m (pr_buffer (px s)) = Panics p \<Longrightarrow>
     fl_step faulty s ((fl_refuse m s)\<lparr>fc_pc := FcIdle\<rparr>)"
| fc_full: "fc_pc s = FcPush m \<Longrightarrow> chan_send m (pr_buffer (px s)) = Blocks \<Longrightarrow>
     fl_step faulty s (s\<lparr>fc_pc := FcIdle, overflowed := overflowed s @ [m]\<rparr>)"
| fc_len: "fc_pc s = FcLen \<Longrightarrow>
     fl_step faulty s (s\<lparr>fc_pc := (if chan_len (pr_buffer (px s)) \<ge> highwater (px s) then FcLoad else FcIdle)\<rparr>)"
| fc_load: "fc_pc s = FcLoad \<Longrightarrow>
     fl_step faulty s (s\<lparr>fc_pc := (if internalFlowStopped (px s) = 0 then FcStop else FcIdle)\<rparr>)"
| fc_stop: "fc_pc s = FcStop \<Longrightarrow>
     fl_step faulty s (s\<lparr>px := (px s)\<lparr>internalFlow := stopped_flow None (internalFlow (px s))\<rparr>, fc_pc := FcStore\<rparr>)"
| fc_stop_err: "fc_pc s = FcStop \<Longrightarrow> faulty \<Longrightarrow> fl_step faulty s (s\<lparr>fc_pc := FcIdle\<rparr>)"
| fc_store: "fc_pc s = FcStore \<Longrightarrow>
     fl_step faulty s (s\<lparr>px := (px s)\<lparr>internalFlowStopped := 1\<rparr>, fc_pc := FcRestart SfLen\<rparr>)"
| sf_len: "restarts s t = Some SfLen \<Longrightarrow>
     fl_step faulty s (set_restart t (if is_low t (px s) then Some SfState else None) s)"
| sf_state: "restarts s t = Some SfState \<Longrightarrow>
     fl_step faulty s (set_restart t (if fl_state s = Started then Some SfCAS else None) s)"
| sf_cas: "restarts s t = Some SfCAS \<Longrightarrow> CompareAndSwap 1 0 (internalFlowStopped (px s)) = (swapped, v) \<Longrightarrow>
     fl_step faulty s (set_restart t (if swapped then Some SfStart else None)
       (s\<lparr>px := (px s)\<lparr>internalFlowStopped := v\<rparr>\<rparr>))"
| sf_start: "restarts s t = Some SfStart \<Longrightarrow>
     fl_step faulty s (set_restart t None (s\<lparr>px := (px s)\<lparr>internalFlow := started_flow None (internalFlow (px s))\<rparr>\<rparr>))"
| sf_start_err: "restarts s t = Some SfStart \<Longrightarrow> faulty \<Longrightarrow> fl_step faulty s (set_restart t (Some SfRetry) s)"
| sf_retry: "restarts s t = Some SfRetry \<Longrightarrow>
     fl_step faulty s (set_restart t None (s\<lparr>px := (px s)\<lparr>internalFlowStopped := 1\<rparr>\<rparr>))"
| ra_set: "callback \<noteq> None \<Longrightarrow> fl_step faulty s (s\<lparr>px := (px s)\<lparr>pr_rxCallback := callback\<rparr>\<rparr>)"
| ra_signal: "pr_rxCallback (px s) \<noteq> None \<Longrightarrow> chan_send True (pr_rxCallbackSet (px s)) = Return c \<Longrightarrow>
     fl_step faulty s (s\<lparr>px := (px s)\<lparr>pr_rxCallbackSet := c\<rparr>\<rparr>)"
| pr_told: "pr_pc s = PrWait \<Longrightarrow> chan_recv (pr_rxCallbackSet (px s)) = Return (Some cont, c) \<Longrightarrow>
     fl_step faulty s (s\<lparr>px := (px s)\<lparr>pr_rxCallbackSet := c, pr_terminationComplete := \<not> cont\<rparr>,
                         pr_pc := (if cont then PrTop else PrDone)\<rparr>)"
| pr_top: "pr_pc s = PrTop \<Longrightarrow>
     fl_step faulty s (s\<lparr>pr_pc := (if doPause (px s) = 1 then PrClosed else PrCheck)\<rparr>)"
| pr_closed: "pr_pc s = PrClosed \<Longrightarrow>
     fl_step faulty s (s\<lparr>pr_pc := (if pr_bufferClosed (px s) = 1 then PrEmpty else PrPaused)\<rparr>)"
| pr_empty: "pr_pc s = PrEmpty \<Longrightarrow>
     fl_step faulty s (s\<lparr>pr_pc := (if chan_len (pr_buffer (px s)) = 0 then PrNotify else PrPaused)\<rparr>)"
| pr_notify: "pr_pc s = PrNotify \<Longrightarrow> persistent_notify_empty (px s) = Return (b, r) \<Longrightarrow>
     fl_step faulty s (s\<lparr>px := r\<lparr>pr_terminationComplete := b\<rparr>, pr_pc := (if b then PrDone else PrPaused)\<rparr>)"
| pr_unpause: "pr_pc s = PrPaused \<Longrightarrow> chan_recv (doUnpause (px s)) = Return (x, c) \<Longrightarrow>
     fl_step faulty s (s\<lparr>px := (px s)\<lparr>doUnpause := c\<rparr>, pr_pc := PrCheck\<rparr>)"
| pr_paused_end: "pr_pc s = PrPaused \<Longrightarrow> pr_terminationNotification (px s) \<or> pr_bufferEmptyOnTerminate (px s) \<Longrightarrow>
     fl_step faulty s (s\<lparr>px := (px s)\<lparr>pr_terminationComplete := True\<rparr>, pr_pc := PrDone\<rparr>)"
| pr_check: "pr_pc s = PrCheck \<Longrightarrow> \<not> pr_terminationNotification (px s) \<Longrightarrow> fl_step faulty s (s\<lparr>pr_pc := PrSelect\<rparr>)"
| pr_stop: "pr_pc s \<in> {PrCheck, PrSelect} \<Longrightarrow> pr_terminationNotification (px s) \<Longrightarrow>
     fl_step faulty s (s\<lparr>px := (px s)\<lparr>pr_terminationComplete := True\<rparr>, pr_pc := PrDone\<rparr>)"
| pr_take: "pr_pc s = PrSelect \<Longrightarrow> chan_recv (pr_buffer (px s)) = Return (Some m, c) \<Longrightarrow>
     fl_step faulty s ((fl_take m TakenByRun c s)\<lparr>pr_pc := PrGot m\<rparr>)"
| pr_drained: "pr_pc s = PrSelect \<Longrightarrow> chan_recv (pr_buffer (px s)) = Return (None, c) \<Longrightarrow>
     persistent_notify_empty (px s) = Return (b, r) \<Longrightarrow>
     fl_step faulty s (s\<lparr>px := r\<lparr>pr_terminationComplete := True\<rparr>, pr_pc := PrDone\<rparr>)"
| pr_interrupted: "pr_pc s = PrSelect \<Longrightarrow> chan_recv (pauseInterrupt (px s)) = Return (x, c) \<Longrightarrow>
     fl_step faulty s (s\<lparr>px := (px s)\<lparr>pauseInterrupt := c\<rparr>, pr_pc := PrTop\<rparr>)"
| pr_call: "pr_pc s = PrGot m \<Longrightarrow> pr_rxCallback (px s) \<noteq> None \<Longrightarrow>
     fl_step faulty s (s\<lparr>fl_delivered := fl_delivered s @ [m], pr_pc := PrCalled m panicked\<rparr>)"
| pr_acked: "pr_pc s = PrCalled m False \<Longrightarrow> doAutoAck (px s) \<Longrightarrow>
     fl_step faulty s (s\<lparr>px := (px s)\<lparr>duplicate_acks := duplicate_acks (px s) + 1\<rparr>, acked := acked s @ [m],
                         pr_pc := PrRestart SfLen\<rparr>)"
| pr_not_acked: "pr_pc s = PrCalled m panicked \<Longrightarrow> fl_step faulty s (s\<lparr>pr_pc := PrRestart SfLen\<rparr>)"
| rv_call: "i < length (rv_pcs s) \<Longrightarrow> rv_pcs s ! i = RvIdle \<Longrightarrow> fl_step faulty s (set_rv i RvSelect s)"
| rv_take: "i < length (rv_pcs s) \<Longrightarrow> rv_pcs s ! i = RvSelect \<Longrightarrow>
     chan_recv (pr_buffer (px s)) = Return (Some m, c) \<Longrightarrow>
     fl_step faulty s (set_rv i (RvRestart m SfLen) (fl_take m TakenByReceive c s))"
| rv_none: "i < length (rv_pcs s) \<Longrightarrow> rv_pcs s ! i = RvSelect \<Longrightarrow> fl_step faulty s (set_rv i RvClosed s)"
| rv_acked: "i < length (rv_pcs s) \<Longrightarrow> rv_pcs s ! i = RvAck m \<Longrightarrow> doAutoAck (px s) \<Longrightarrow>
     fl_step faulty s (set_rv i RvClosed (s\<lparr>px := (px s)\<lparr>duplicate_acks := duplicate_acks (px s) + 1\<rparr>,
       acked := acked s @ [m], fl_delivered := fl_delivered s @ [m]\<rparr>))"
| rv_ack_failed: "i < length (rv_pcs s) \<Longrightarrow> rv_pcs s ! i = RvAck m \<Longrightarrow> doAutoAck (px s) \<Longrightarrow>
     fl_step faulty s (set_rv i RvClosed (s\<lparr>disposed := disposed s @ [m]\<rparr>))"
| rv_return: "i < length (rv_pcs s) \<Longrightarrow> rv_pcs s ! i = RvAck m \<Longrightarrow>
     fl_step faulty s (set_rv i RvClosed (s\<lparr>fl_delivered := fl_delivered s @ [m]\<rparr>))"
| rv_closed: "i < length (rv_pcs s) \<Longrightarrow> rv_pcs s ! i = RvClosed \<Longrightarrow>
     fl_step faulty s (set_rv i (if pr_bufferClosed (px s) = 1 then RvEmpty else RvIdle) s)"
| rv_empty: "i < length (rv_pcs s) \<Longrightarrow> rv_pcs s ! i = RvEmpty \<Longrightarrow>
     fl_step faulty s (set_rv i (if chan_len (pr_buffer (px s)) = 0 then RvNotify else RvIdle) s)"
| rv_notify: "i < length (rv_pcs s) \<Longrightarrow> rv_pcs s ! i = RvNotify \<Longrightarrow> persistent_notify_empty (px s) = Return (b, r) \<Longrightarrow>
     fl_step faulty s (set_rv i RvIdle (s\<lparr>px := r\<rparr>))"
| pz_pause: "i < length (pz_pcs s) \<Longrightarrow> pz_pcs s ! i = PzIdle \<Longrightarrow> fl_state s \<in> {Started, Terminating} \<Longrightarrow>
     fl_step faulty s (set_pz i PauseDrain s)"
| pz_resume: "i < length (pz_pcs s) \<Longrightarrow> pz_pcs s ! i = PzIdle \<Longrightarrow> fl_state s \<in> {Started, Terminating} \<Longrightarrow>
     fl_step faulty s (set_pz i ResumeDrain s)"
| pause_drain: "i < length (pz_pcs s) \<Longrightarrow> pz_pcs s ! i = PauseDrain \<Longrightarrow>
     fl_step faulty s (set_pz i PauseStore (s\<lparr>px := (px s)\<lparr>doUnpause := try_recv (doUnpause (px s))\<rparr>\<rparr>))"
| pause_store: "i < length (pz_pcs s) \<Longrightarrow> pz_pcs s ! i = PauseStore \<Longrightarrow>
     fl_step faulty s (set_pz i PauseSend (s\<lparr>px := (px s)\<lparr>doPause := 1\<rparr>\<rparr>))"
| pause_send: "i < length (pz_pcs s) \<Longrightarrow> pz_pcs s ! i = PauseSend \<Longrightarrow>
     fl_step faulty s (set_pz i PzIdle (s\<lparr>px := (px s)\<lparr>pauseInterrupt := try_send () (pauseInterrupt (px s))\<rparr>\<rparr>))"
| resume_drain: "i < length (pz_pcs s) \<Longrightarrow> pz_pcs s ! i = ResumeDrain \<Longrightarrow>
     fl_step faulty s (set_pz i ResumeStore (s\<lparr>px := (px s)\<lparr>pauseInterrupt := try_recv (pauseInterrupt (px s))\<rparr>\<rparr>))"
| resume_store: "i < length (pz_pcs s) \<Longrightarrow> pz_pcs s ! i = ResumeStore \<Longrightarrow>
     fl_step faulty s (set_pz i ResumeSend (s\<lparr>px := (px s)\<lparr>doPause := 0\<rparr>\<rparr>))"
| resume_send: "i < length (pz_pcs s) \<Longrightarrow> pz_pcs s ! i = ResumeSend \<Longrightarrow>
     fl_step faulty s (set_pz i PzIdle (s\<lparr>px := (px s)\<lparr>doUnpause := try_send () (doUnpause (px s))\<rparr>\<rparr>))"
| tt_start: "tt_pc s = TtIdle \<Longrightarrow> receiver_terminate (pr_lifecycle (px s)) = (Proceed, l) \<Longrightarrow>
     pc \<in> {TtMark, UtDestroy True, UtDestroy False} \<Longrightarrow>
     fl_step faulty s (s\<lparr>px := (px s)\<lparr>pr_lifecycle := l\<rparr>, tt_pc := pc\<rparr>)"
| tt_mark: "tt_pc s = TtMark \<Longrightarrow> fl_step faulty s (s\<lparr>px := (px s)\<lparr>internalFlowStopped := 2\<rparr>, tt_pc := TtStop\<rparr>)"
| tt_stop: "tt_pc s = TtStop \<Longrightarrow> e = None \<or> faulty \<Longrightarrow>
     fl_step faulty s (s\<lparr>px := (px s)\<lparr>internalFlow := stopped_flow e (internalFlow (px s))\<rparr>, tt_pc := TtSignal\<rparr>)"
| tt_signal: "tt_pc s = TtSignal \<Longrightarrow>
     fl_step faulty s (s\<lparr>px := (px s)\<lparr>pr_rxCallbackSet := try_send False (pr_rxCallbackSet (px s))\<rparr>, tt_pc := TtClose\<rparr>)"
| tt_close: "tt_pc s = TtClose \<Longrightarrow> chan_close (pr_buffer (px s)) = Return c \<Longrightarrow>
     fl_step faulty s ((fl_set_buffer c s)\<lparr>tt_pc := TtFlag\<rparr>)"
| tt_flag: "tt_pc s = TtFlag \<Longrightarrow> fl_step faulty s (s\<lparr>px := (px s)\<lparr>pr_bufferClosed := 1\<rparr>, tt_pc := TtLen\<rparr>)"
| tt_len: "tt_pc s = TtLen \<Longrightarrow>
     (if chan_len (pr_buffer (px s)) = 0 then persistent_notify_empty (px s) else Return (False, px s)) = Return (b, r) \<Longrightarrow>
     fl_step faulty s (s\<lparr>px := r, tt_pc := TtWait\<rparr>)"
| tt_timeout: "tt_pc s = TtWait \<Longrightarrow> close_notification (px s) = Return r \<Longrightarrow>
     fl_step faulty s (s\<lparr>px := r, tt_pc := TtJoinTimeout\<rparr>)"
| tt_emptied: "tt_pc s = TtWait \<Longrightarrow> pr_bufferEmptyOnTerminate (px s) \<Longrightarrow> fl_step faulty s (s\<lparr>tt_pc := TtJoin\<rparr>)"
| tt_join: "tt_pc s = TtJoin \<Longrightarrow> pr_terminationComplete (px s) \<Longrightarrow> end_receiver 0 (px s) = (err, r) \<Longrightarrow>
     fl_step faulty s (s\<lparr>px := r, tt_pc := TtDone err\<rparr>)"
| tt_join_timeout: "tt_pc s = TtJoinTimeout \<Longrightarrow> pr_terminationComplete (px s) \<Longrightarrow> fl_step faulty s (s\<lparr>tt_pc := TtDrain 0\<rparr>)"
| ut_destroy: "tt_pc s = UtDestroy native \<Longrightarrow>
     fl_step faulty s (s\<lparr>px := (px s)\<lparr>internalFlow := (if native then FlowDestroyed else FlowAbandoned)\<rparr>, tt_pc := UtClose\<rparr>)"
| ut_close: "tt_pc s = UtClose \<Longrightarrow> chan_close (pr_buffer (px s)) = Return c \<Longrightarrow>
     fl_step faulty s ((fl_set_buffer c s)\<lparr>tt_pc := UtFlag\<rparr>)"
| ut_flag: "tt_pc s = UtFlag \<Longrightarrow> fl_step faulty s (s\<lparr>px := (px s)\<lparr>pr_bufferClosed := 1\<rparr>, tt_pc := UtSignal\<rparr>)"
| ut_signal: "tt_pc s = UtSignal \<Longrightarrow>
     fl_step faulty s (s\<lparr>px := (px s)\<lparr>pr_rxCallbackSet := try_send False (pr_rxCallbackSet (px s))\<rparr>, tt_pc := UtNotify\<rparr>)"
| ut_notify: "tt_pc s = UtNotify \<Longrightarrow> close_notification (px s) = Return r \<Longrightarrow>
     fl_step faulty s (s\<lparr>px := r, tt_pc := TtDrain 0\<rparr>)"
| tt_drain: "tt_pc s = TtDrain n \<Longrightarrow> chan_recv (pr_buffer (px s)) = Return (Some m, c) \<Longrightarrow>
     fl_step faulty s ((fl_take m TakenByDrain c s)\<lparr>tt_pc := TtDrain (Suc n)\<rparr>)"
| tt_drained: "tt_pc s = TtDrain n \<Longrightarrow> chan_recv (pr_buffer (px s)) = Return (None, c) \<Longrightarrow>
     persistent_notify_empty (px s) = Return (b, r) \<Longrightarrow> end_receiver n r = (err, r') \<Longrightarrow>
     fl_step faulty s (s\<lparr>px := r', tt_pc := TtDone err\<rparr>)"

definition fl_init :: "nat \<Rightarrow> nat \<Rightarrow> 'cb persistentMessageReceiverImpl \<Rightarrow> 'cb fl_sys" where
  "fl_init receivers pausers r =
     \<lparr>px = r, fc_pc = FcIdle, pr_pc = PrWait, rv_pcs = replicate receivers RvIdle, pz_pcs = replicate pausers PzIdle,
      tt_pc = TtIdle, fl_arrived = [], fl_pushed = [], fl_taken = [], fl_refused = [], overflowed = [], fl_delivered = [],
      disposed = [], acked = []\<rparr>"

text \<open>A receiver as \<^verbatim>\<open>Start\<close> leaves it.\<close>

definition pr_started :: "'cb persistentMessageReceiverImpl \<Rightarrow> bool" where
  "pr_started r \<longleftrightarrow> (\<exists>props callback i l cb set.
     lc_state l = Started \<and> set \<in> {make_chan 1, (make_chan 1)\<lparr>chan_items := [True]\<rparr>} \<and>
     (set = make_chan 1 \<or> callback \<noteq> None) \<and>
     r = (persistent_rx_construct props)\<lparr>pr_lifecycle := l, pr_terminationHandlerID := i, internalFlow := Flow True,
            pr_rxCallback := callback, pr_rxCallbackSet := set, pr_terminationListener := cb\<rparr>)"

section \<open>What the operations do\<close>

lemma set_restart_simps [simp]:
  "px (set_restart t x s) = px s" "tt_pc (set_restart t x s) = tt_pc s" "pz_pcs (set_restart t x s) = pz_pcs s"
  "fl_arrived (set_restart t x s) = fl_arrived s" "fl_pushed (set_restart t x s) = fl_pushed s"
  "fl_taken (set_restart t x s) = fl_taken s" "fl_refused (set_restart t x s) = fl_refused s"
  "overflowed (set_restart t x s) = overflowed s" "fl_delivered (set_restart t x s) = fl_delivered s"
  "disposed (set_restart t x s) = disposed s" "acked (set_restart t x s) = acked s"
  "length (rv_pcs (set_restart t x s)) = length (rv_pcs s)"
  by (cases t; simp)+

lemma rv_sf_next: "rv_sf pc \<noteq> None \<Longrightarrow> rv_sf (rv_next pc x) = x"
  by (cases pc; cases x) auto

lemma restarts_set:
  assumes "restarts s t \<noteq> None"
  shows "restarts (set_restart t x s) t' = (if t' = t then x else restarts s t')"
  using assms by (cases t; cases t'; cases x) (auto simp: rv_sf_next nth_list_update split: if_splits)

lemma restarts_px [simp]: "restarts (s\<lparr>px := r\<rparr>) t = restarts s t"
  by (cases t) auto

text \<open>The messages in the hands of a goroutine.\<close>

fun fc_hand :: "fc_pc \<Rightarrow> nat list" where
  "fc_hand (FcState m) = [m]"
| "fc_hand (FcPush m) = [m]"
| "fc_hand pc = []"

fun pr_hand :: "pr_pc \<Rightarrow> nat list" where
  "pr_hand (PrGot m) = [m]"
| "pr_hand pc = []"

fun pr_called :: "pr_pc \<Rightarrow> nat list" where
  "pr_called (PrCalled m b) = [m]"
| "pr_called pc = []"

fun rv_hand :: "rv_pc \<Rightarrow> nat list" where
  "rv_hand (RvRestart m x) = [m]"
| "rv_hand (RvAck m) = [m]"
| "rv_hand pc = []"

definition rv_hands :: "rv_pc list \<Rightarrow> nat multiset" where
  "rv_hands pcs = mset (concat (map rv_hand pcs))"

lemma rv_hands_update:
  "i < length pcs \<Longrightarrow> rv_hands (pcs[i := pc]) + mset (rv_hand (pcs ! i)) = rv_hands pcs + mset (rv_hand pc)"
  unfolding rv_hands_def
  by (subst (3) id_take_nth_drop [of i pcs], assumption) (simp add: upd_conv_take_nth_drop)

lemma hand_set_restart [simp]:
  "restarts s t \<noteq> None \<Longrightarrow> fc_hand (fc_pc (set_restart t x s)) = fc_hand (fc_pc s)"
  "restarts s t \<noteq> None \<Longrightarrow> pr_hand (pr_pc (set_restart t x s)) = pr_hand (pr_pc s)"
  "restarts s t \<noteq> None \<Longrightarrow> pr_called (pr_pc (set_restart t x s)) = pr_called (pr_pc s)"
  "restarts s t \<noteq> None \<Longrightarrow> (pr_pc (set_restart t x s) = PrDone) = (pr_pc s = PrDone)"
  by (cases t; cases "fc_pc s"; cases "pr_pc s"; cases x; simp)+

lemma rv_hand_next: "rv_sf pc \<noteq> None \<Longrightarrow> rv_hand (rv_next pc x) = rv_hand pc"
  by (cases pc; cases x) auto

lemma rv_hands_set_restart [simp]:
  "restarts s t \<noteq> None \<Longrightarrow> rv_hands (rv_pcs (set_restart t x s)) = rv_hands (rv_pcs s)"
proof (cases t)
  case (TReceive i)
  assume "restarts s t \<noteq> None"
  with TReceive have i: "i < length (rv_pcs s)" "rv_sf (rv_pcs s ! i) \<noteq> None" by (auto split: if_splits)
  from rv_hands_update [OF i(1), of "rv_next (rv_pcs s ! i) x"] rv_hand_next [OF i(2), of x]
  show ?thesis by (simp add: TReceive)
qed auto

text \<open>The flag and the channel behind it agree, and are set only when the buffer is closed and empty.\<close>

definition persistent_empty_inv :: "'cb persistentMessageReceiverImpl \<Rightarrow> bool" where
  "persistent_empty_inv r \<longleftrightarrow> pr_bufferEmptyOnTerminateFlag r = (if pr_bufferEmptyOnTerminate r then 1 else 0) \<and>
     (pr_bufferEmptyOnTerminate r \<longrightarrow> chan_closed (pr_buffer r) \<and> chan_items (pr_buffer r) = [])"

lemma pr_field_same [simp]:
  "r\<lparr>pr_bufferEmptyOnTerminateFlag := pr_bufferEmptyOnTerminateFlag r\<rparr> = r"
  "r\<lparr>pr_bufferEmptyOnTerminate := pr_bufferEmptyOnTerminate r\<rparr> = r"
  "r\<lparr>pr_terminationComplete := pr_terminationComplete r\<rparr> = r"
  by (cases r, simp)+

lemma persistent_notify_cases:
  "persistent_notify_empty r =
     (if pr_bufferEmptyOnTerminateFlag r = 0
      then (if pr_bufferEmptyOnTerminate r then Panics CloseOfClosedChannel
            else Return (True, r\<lparr>pr_bufferEmptyOnTerminateFlag := 1, pr_bufferEmptyOnTerminate := True\<rparr>))
      else Return (False, r))"
  by (simp add: persistent_notify_empty_def CompareAndSwap_def signal_close_def)

lemma persistent_notify_eq:
  assumes "persistent_notify_empty r = Return (b, r')" and "persistent_empty_inv r"
  shows "r' = r\<lparr>pr_bufferEmptyOnTerminateFlag := 1, pr_bufferEmptyOnTerminate := True\<rparr> \<and>
    (b \<longleftrightarrow> \<not> pr_bufferEmptyOnTerminate r)"
proof (cases "pr_bufferEmptyOnTerminate r")
  case True
  then have "pr_bufferEmptyOnTerminateFlag r = 1" using assms(2) by (simp add: persistent_empty_inv_def)
  with assms(1) True pr_field_same [of r] show ?thesis by (simp add: persistent_notify_cases)
next
  case False
  then have "pr_bufferEmptyOnTerminateFlag r = 0" using assms(2) by (simp add: persistent_empty_inv_def)
  with assms(1) False show ?thesis by (simp add: persistent_notify_cases)
qed

lemma close_notification_eq:
  "close_notification r = Return r' \<Longrightarrow> r' = r\<lparr>pr_terminationNotification := True\<rparr>"
  by (auto simp: close_notification_def signal_close_def outcome_bind_Return split: if_splits)

lemma end_receiver_eq:
  "end_receiver n r = (err, r') \<Longrightarrow> err = (if n > 0 then Some (persistent_IncompleteReception n) else None) \<and>
     (\<exists>f. r' = r\<lparr>pr_termination_discarded := pr_termination_discarded r + n,
            pr_lifecycle := terminated err (pr_lifecycle r), internalFlow := f\<rparr>)"
proof -
  have same: "r\<lparr>pr_termination_discarded := pr_termination_discarded r\<rparr> = r" by (cases r) simp
  assume "end_receiver n r = (err, r')"
  then show ?thesis using same
    by (cases "n > 0") (auto simp: end_receiver_def count_undelivered_def Let_def intro!: exI [of _ "internalFlow r'"])
qed

lemma len_set_flow [simp]: "chan_len (c\<lparr>chan_closed := b\<rparr>) = chan_len c"
  by (simp add: chan_len_def)

section \<open>The termination and the buffer\<close>

fun tt_closed :: "tt_pc \<Rightarrow> bool" where
  "tt_closed pc \<longleftrightarrow> pc \<notin> {TtIdle, TtMark, TtStop, TtSignal, TtClose, UtDestroy True, UtDestroy False, UtClose}"

fun tt_state :: "tt_pc \<Rightarrow> lifecycle_state" where
  "tt_state TtIdle = Started"
| "tt_state (TtDone err) = Terminated"
| "tt_state pc = Terminating"

fun tt_ended :: "tt_pc \<Rightarrow> bool" where
  "tt_ended TtJoin = True"
| "tt_ended (TtDone err) = True"
| "tt_ended pc = False"

definition fl_phase :: "'cb fl_sys \<Rightarrow> bool" where
  "fl_phase s \<longleftrightarrow> fl_state s = tt_state (tt_pc s) \<and>
     (chan_closed (pr_buffer (px s)) \<longleftrightarrow> tt_closed (tt_pc s)) \<and>
     (pr_bufferClosed (px s) = 1 \<longrightarrow> tt_closed (tt_pc s)) \<and>
     (pr_terminationComplete (px s) \<longleftrightarrow> pr_pc s = PrDone)"

definition fl_empty :: "'cb fl_sys \<Rightarrow> bool" where
  "fl_empty s \<longleftrightarrow> persistent_empty_inv (px s) \<and>
     (tt_ended (tt_pc s) \<longrightarrow> pr_bufferEmptyOnTerminate (px s)) \<and>
     (pr_pc s = PrEmpty \<or> RvEmpty \<in> set (rv_pcs s) \<longrightarrow> chan_closed (pr_buffer (px s))) \<and>
     (pr_pc s = PrNotify \<or> RvNotify \<in> set (rv_pcs s) \<longrightarrow>
        chan_closed (pr_buffer (px s)) \<and> chan_items (pr_buffer (px s)) = [])"

lemma notify_fields:
  "persistent_notify_empty r = Return (b, r') \<Longrightarrow>
     pr_lifecycle r' = pr_lifecycle r \<and> pr_buffer r' = pr_buffer r \<and> pr_bufferClosed r' = pr_bufferClosed r \<and>
     pr_terminationComplete r' = pr_terminationComplete r \<and> internalFlow r' = internalFlow r \<and>
     internalFlowStopped r' = internalFlowStopped r \<and> lowwater r' = lowwater r \<and> doPause r' = doPause r \<and>
     doUnpause r' = doUnpause r \<and> pauseInterrupt r' = pauseInterrupt r \<and> pr_rxCallback r' = pr_rxCallback r \<and>
     pr_rxCallbackSet r' = pr_rxCallbackSet r \<and> pr_termination_discarded r' = pr_termination_discarded r"
  by (auto simp: persistent_notify_cases split: if_splits)

lemma end_fields:
  "end_receiver n r = (err, r') \<Longrightarrow>
     lc_state (pr_lifecycle r') = Terminated \<and> pr_buffer r' = pr_buffer r \<and> pr_bufferClosed r' = pr_bufferClosed r \<and>
     pr_terminationComplete r' = pr_terminationComplete r \<and> lowwater r' = lowwater r \<and> doPause r' = doPause r \<and>
     doUnpause r' = doUnpause r \<and> pauseInterrupt r' = pauseInterrupt r \<and> pr_rxCallback r' = pr_rxCallback r \<and>
     pr_rxCallbackSet r' = pr_rxCallbackSet r \<and> pr_termination_discarded r' = pr_termination_discarded r + n \<and>
     pr_bufferEmptyOnTerminate r' = pr_bufferEmptyOnTerminate r \<and>
     pr_bufferEmptyOnTerminateFlag r' = pr_bufferEmptyOnTerminateFlag r \<and>
     err = (if n > 0 then Some (persistent_IncompleteReception n) else None)"
  using end_receiver_eq [of n r err r'] by (auto simp: terminated_def)

lemmas fl_chan = chan_sent chan_full chan_panics chan_recv_Some chan_recv_None [THEN iffD1] chan_recv_Blocks [THEN iffD1]

lemma chan_closed_close: "chan_close c = Return c' \<Longrightarrow> chan_closed c' \<and> chan_items c' = chan_items c \<and> \<not> chan_closed c"
  by (auto simp: chan_close_def split: if_splits)

lemma fl_phase_frame:
  assumes "fl_phase s" and "fl_state s' = fl_state s" and "chan_closed (pr_buffer (px s')) = chan_closed (pr_buffer (px s))"
    and "pr_bufferClosed (px s') = pr_bufferClosed (px s)"
    and "pr_terminationComplete (px s') = pr_terminationComplete (px s)"
    and "(pr_pc s' = PrDone) = (pr_pc s = PrDone)" and "tt_pc s' = tt_pc s"
  shows "fl_phase s'"
  using assms by (simp add: fl_phase_def)

lemma fl_phase_done:
  assumes "fl_phase s" and "fl_state s' = fl_state s" and "chan_closed (pr_buffer (px s')) = chan_closed (pr_buffer (px s))"
    and "pr_bufferClosed (px s') = pr_bufferClosed (px s)" and "tt_pc s' = tt_pc s"
    and "pr_terminationComplete (px s') \<longleftrightarrow> pr_pc s' = PrDone"
  shows "fl_phase s'"
  using assms by (simp add: fl_phase_def)

lemma fl_phase_move:
  assumes "fl_phase s" and "fl_state s' = tt_state (tt_pc s')" and "chan_closed (pr_buffer (px s')) \<longleftrightarrow> tt_closed (tt_pc s')"
    and "pr_bufferClosed (px s') = 1 \<Longrightarrow> tt_closed (tt_pc s')"
    and "pr_terminationComplete (px s') = pr_terminationComplete (px s)" and "pr_pc s' = pr_pc s"
  shows "fl_phase s'"
  using assms by (simp add: fl_phase_def)

lemma fl_phaseD:
  "fl_phase s \<Longrightarrow> fl_state s = tt_state (tt_pc s)" "fl_phase s \<Longrightarrow> chan_closed (pr_buffer (px s)) \<longleftrightarrow> tt_closed (tt_pc s)"
  "fl_phase s \<Longrightarrow> pr_bufferClosed (px s) = 1 \<Longrightarrow> tt_closed (tt_pc s)"
  "fl_phase s \<Longrightarrow> pr_terminationComplete (px s) \<longleftrightarrow> pr_pc s = PrDone"
  unfolding fl_phase_def by blast+

lemma fl_phase_step: "fl_step faulty s s' \<Longrightarrow> fl_phase s \<Longrightarrow> fl_phase s'"
proof (induction rule: fl_step.induct)
  case (pr_told s cont c)
  then show ?case by - (rule fl_phase_done; simp)
next
  case (pr_notify s b r)
  show ?case using pr_notify notify_fields [OF pr_notify(2)] by - (rule fl_phase_done [OF pr_notify.prems]; simp)
next
  case (pr_drained s c b r)
  show ?case using pr_drained notify_fields [OF pr_drained(3)] by - (rule fl_phase_done [OF pr_drained.prems]; simp)
next
  case (pr_paused_end s)
  then show ?case by - (rule fl_phase_done; simp)
next
  case (pr_stop s)
  then show ?case by - (rule fl_phase_done; simp)
next
  case (rv_notify i s b r)
  show ?case using notify_fields [OF rv_notify(3)] by - (rule fl_phase_frame [OF rv_notify.prems]; simp)
next
  case (tt_start s l pc)
  show ?case using tt_start fl_phaseD [OF tt_start.prems] terminate_proceeds [OF tt_start(2)]
    by - (rule fl_phase_move [OF tt_start.prems]; auto)
next
  case (tt_close s c)
  show ?case using tt_close fl_phaseD [OF tt_close.prems] chan_closed_close [OF tt_close(2)]
    by - (rule fl_phase_move [OF tt_close.prems]; simp)
next
  case (ut_close s c)
  show ?case using ut_close fl_phaseD [OF ut_close.prems] chan_closed_close [OF ut_close(2)]
    by - (rule fl_phase_move [OF ut_close.prems]; simp)
next
  case (tt_len s b r)
  have "pr_lifecycle r = pr_lifecycle (px s) \<and> pr_buffer r = pr_buffer (px s) \<and> pr_bufferClosed r = pr_bufferClosed (px s) \<and>
     pr_terminationComplete r = pr_terminationComplete (px s)"
    using tt_len(2) notify_fields [of "px s" b r] by (auto split: if_splits)
  then show ?case using tt_len fl_phaseD [OF tt_len.prems]
    by - (rule fl_phase_move [OF tt_len.prems]; simp)
next
  case (tt_timeout s r)
  show ?case using tt_timeout fl_phaseD [OF tt_timeout.prems] close_notification_eq [OF tt_timeout(2)]
    by - (rule fl_phase_move [OF tt_timeout.prems]; simp)
next
  case (ut_notify s r)
  show ?case using ut_notify fl_phaseD [OF ut_notify.prems] close_notification_eq [OF ut_notify(2)]
    by - (rule fl_phase_move [OF ut_notify.prems]; simp)
next
  case (tt_join s err r)
  show ?case using tt_join fl_phaseD [OF tt_join.prems] end_fields [OF tt_join(3)]
    by - (rule fl_phase_move [OF tt_join.prems]; simp)
next
  case (tt_drain s n m c)
  show ?case using tt_drain fl_phaseD [OF tt_drain.prems] chan_recv_Some [OF tt_drain(2)]
    by - (rule fl_phase_move [OF tt_drain.prems]; simp)
next
  case (tt_drained s n c b r err r')
  show ?case using tt_drained fl_phaseD [OF tt_drained.prems] end_fields [OF tt_drained(4)] notify_fields [OF tt_drained(3)]
    by - (rule fl_phase_move [OF tt_drained.prems]; simp)
next
  case (tt_mark s)
  then show ?case using fl_phaseD [OF tt_mark.prems] by - (rule fl_phase_move [OF tt_mark.prems]; simp)
next
  case (tt_stop s e)
  then show ?case using fl_phaseD [OF tt_stop.prems] by - (rule fl_phase_move [OF tt_stop.prems]; simp)
next
  case (tt_signal s)
  then show ?case using fl_phaseD [OF tt_signal.prems] by - (rule fl_phase_move [OF tt_signal.prems]; simp)
next
  case (tt_flag s)
  then show ?case using fl_phaseD [OF tt_flag.prems] by - (rule fl_phase_move [OF tt_flag.prems]; simp)
next
  case (tt_emptied s)
  then show ?case using fl_phaseD [OF tt_emptied.prems] by - (rule fl_phase_move [OF tt_emptied.prems]; simp)
next
  case (tt_join_timeout s)
  then show ?case using fl_phaseD [OF tt_join_timeout.prems] by - (rule fl_phase_move [OF tt_join_timeout.prems]; simp)
next
  case (ut_destroy s native)
  then show ?case using fl_phaseD [OF ut_destroy.prems] by - (rule fl_phase_move [OF ut_destroy.prems]; cases native; simp)
next
  case (ut_flag s)
  then show ?case using fl_phaseD [OF ut_flag.prems] by - (rule fl_phase_move [OF ut_flag.prems]; simp)
next
  case (ut_signal s)
  then show ?case using fl_phaseD [OF ut_signal.prems] by - (rule fl_phase_move [OF ut_signal.prems]; simp)
qed (rule fl_phase_frame, assumption; simp add: chan_sent chan_recv_Some)+

lemma set_restart_pcs:
  "RvEmpty \<in> set (rv_pcs (set_restart t x s)) \<Longrightarrow> restarts s t \<noteq> None \<Longrightarrow> RvEmpty \<in> set (rv_pcs s)"
  "RvNotify \<in> set (rv_pcs (set_restart t x s)) \<Longrightarrow> restarts s t \<noteq> None \<Longrightarrow> RvNotify \<in> set (rv_pcs s)"
  "pr_pc (set_restart t x s) = PrEmpty \<Longrightarrow> pr_pc s = PrEmpty"
  "pr_pc (set_restart t x s) = PrNotify \<Longrightarrow> pr_pc s = PrNotify"
proof -
  have moved: "RvEmpty = rv_next pc x \<Longrightarrow> rv_sf pc = None" "RvNotify = rv_next pc x \<Longrightarrow> rv_sf pc = None" for pc
    by (cases pc; cases x; simp)+
  show "RvEmpty \<in> set (rv_pcs (set_restart t x s)) \<Longrightarrow> restarts s t \<noteq> None \<Longrightarrow> RvEmpty \<in> set (rv_pcs s)"
    by (cases t) (auto split: if_splits dest!: set_update_mem dest: moved)
  show "RvNotify \<in> set (rv_pcs (set_restart t x s)) \<Longrightarrow> restarts s t \<noteq> None \<Longrightarrow> RvNotify \<in> set (rv_pcs s)"
    by (cases t) (auto split: if_splits dest!: set_update_mem dest: moved)
  show "pr_pc (set_restart t x s) = PrEmpty \<Longrightarrow> pr_pc s = PrEmpty" by (cases t; cases x) auto
  show "pr_pc (set_restart t x s) = PrNotify \<Longrightarrow> pr_pc s = PrNotify" by (cases t; cases x) auto
qed

lemma fl_empty_frame:
  assumes "fl_empty s"
    and "pr_bufferEmptyOnTerminate (px s') = pr_bufferEmptyOnTerminate (px s)"
    and "pr_bufferEmptyOnTerminateFlag (px s') = pr_bufferEmptyOnTerminateFlag (px s)"
    and "chan_closed (pr_buffer (px s)) \<Longrightarrow> chan_closed (pr_buffer (px s'))"
    and "chan_closed (pr_buffer (px s)) \<Longrightarrow> items s = [] \<Longrightarrow> items s' = []"
    and "tt_ended (tt_pc s') \<Longrightarrow> tt_ended (tt_pc s) \<or> pr_bufferEmptyOnTerminate (px s)"
    and "pr_pc s' = PrEmpty \<Longrightarrow> pr_pc s = PrEmpty \<or> chan_closed (pr_buffer (px s'))"
    and "pr_pc s' = PrNotify \<Longrightarrow> pr_pc s = PrNotify \<or> chan_closed (pr_buffer (px s')) \<and> items s' = []"
    and "RvEmpty \<in> set (rv_pcs s') \<Longrightarrow> RvEmpty \<in> set (rv_pcs s) \<or> chan_closed (pr_buffer (px s'))"
    and "RvNotify \<in> set (rv_pcs s') \<Longrightarrow> RvNotify \<in> set (rv_pcs s) \<or> chan_closed (pr_buffer (px s')) \<and> items s' = []"
  shows "fl_empty s'"
  using assms unfolding fl_empty_def persistent_empty_inv_def by auto

lemma fl_empty_notified:
  assumes "fl_empty s" and "persistent_notify_empty (px s) = Return (b, r)"
    and "chan_closed (pr_buffer (px s))" and "items s = []"
    and "pr_buffer (px s') = pr_buffer r" "pr_bufferEmptyOnTerminate (px s') = pr_bufferEmptyOnTerminate r"
      "pr_bufferEmptyOnTerminateFlag (px s') = pr_bufferEmptyOnTerminateFlag r"
    and "tt_pc s' = tt_pc s \<or> \<not> tt_ended (tt_pc s')"
  shows "fl_empty s'"
  using assms persistent_notify_eq [OF assms(2)] by (simp add: fl_empty_def persistent_empty_inv_def)

lemma fl_empty_step: "fl_step faulty s s' \<Longrightarrow> fl_phase s \<Longrightarrow> fl_empty s \<Longrightarrow> fl_empty s'"
proof (induction rule: fl_step.induct)
  case (pr_notify s b r)
  have "chan_closed (pr_buffer (px s))" "items s = []" using pr_notify.prems pr_notify(1) by (simp_all add: fl_empty_def)
  then show ?case by (rule fl_empty_notified [OF pr_notify.prems(2) pr_notify(2)]) simp_all
next
  case (pr_drained s c b r)
  have "chan_closed (pr_buffer (px s))" "items s = []" using pr_drained(2) by (simp_all add: chan_recv_None)
  then show ?case by (rule fl_empty_notified [OF pr_drained.prems(2) pr_drained(3)]) simp_all
next
  case (rv_notify i s b r)
  have "RvNotify \<in> set (rv_pcs s)" using rv_notify by (metis nth_mem)
  then have "chan_closed (pr_buffer (px s))" "items s = []" using rv_notify.prems by (simp_all add: fl_empty_def)
  then show ?case
    by (intro fl_empty_notified [OF rv_notify.prems(2) rv_notify(3)]) simp_all
next
  case (tt_len s b r)
  show ?case
  proof (cases "chan_len (pr_buffer (px s)) = 0")
    case True
    then have "chan_closed (pr_buffer (px s))" "items s = []" "persistent_notify_empty (px s) = Return (b, r)"
      using tt_len fl_phaseD(2) [OF tt_len.prems(1)] by (simp_all add: chan_len_def)
    then show ?thesis
      by (intro fl_empty_notified [OF tt_len.prems(2)]) simp_all
  next
    case False
    with tt_len show ?thesis by - (rule fl_empty_frame [OF tt_len.prems(2)]; simp)
  qed
next
  case (tt_timeout s r)
  show ?case using close_notification_eq [OF tt_timeout(2)] by - (rule fl_empty_frame [OF tt_timeout.prems(2)]; simp)
next
  case (ut_notify s r)
  show ?case using close_notification_eq [OF ut_notify(2)] by - (rule fl_empty_frame [OF ut_notify.prems(2)]; simp)
next
  case (tt_join s err r)
  show ?case using tt_join end_fields [OF tt_join(3)] by - (rule fl_empty_frame [OF tt_join.prems(2)]; simp)
next
  case (tt_drained s n c b r err r')
  have e: "chan_closed (pr_buffer (px s))" "items s = []" using tt_drained(2) by (simp_all add: chan_recv_None)
  have r: "r = (px s)\<lparr>pr_bufferEmptyOnTerminateFlag := 1, pr_bufferEmptyOnTerminate := True\<rparr>"
    using persistent_notify_eq [OF tt_drained(3)] tt_drained.prems(2) by (simp add: fl_empty_def)
  show ?case using end_fields [OF tt_drained(4)] e by (simp add: fl_empty_def persistent_empty_inv_def r)
next
  case (tt_close s c)
  show ?case using tt_close chan_closed_close [OF tt_close(2)] by - (rule fl_empty_frame [OF tt_close.prems(2)]; simp)
next
  case (ut_close s c)
  show ?case using ut_close chan_closed_close [OF ut_close(2)] by - (rule fl_empty_frame [OF ut_close.prems(2)]; simp)
next
  case (tt_start s l pc)
  then show ?case by - (rule fl_empty_frame [OF tt_start.prems(2)]; auto)
next
  case (pr_closed s)
  then show ?case using fl_phaseD(2,3) [OF pr_closed.prems(1)]
    by - (rule fl_empty_frame [OF pr_closed.prems(2)]; simp split: if_splits)
next
  case (pr_empty s)
  then show ?case by - (rule fl_empty_frame [OF pr_empty.prems(2)]; simp add: fl_empty_def chan_len_def split: if_splits)
next
  case (rv_closed i s)
  then show ?case using fl_phaseD(2,3) [OF rv_closed.prems(1)]
    by - (rule fl_empty_frame [OF rv_closed.prems(2)]; auto dest!: set_update_mem split: if_splits)
next
  case (rv_empty i s)
  then have "RvEmpty \<in> set (rv_pcs s)" by (metis nth_mem)
  then have "chan_closed (pr_buffer (px s))" using rv_empty.prems(2) by (simp add: fl_empty_def)
  with rv_empty show ?case
    by - (rule fl_empty_frame [OF rv_empty.prems(2)]; auto simp: chan_len_def dest!: set_update_mem split: if_splits)
qed (rule fl_empty_frame, assumption; auto simp: chan_sent chan_recv_Some dest!: set_update_mem set_restart_pcs(1,2)
      set_restart_pcs(3,4) dest: chan_recv_Some chan_sent split: if_splits)+

section \<open>Where the messages are\<close>

definition drained :: "(nat \<times> taker) list \<Rightarrow> nat list" where
  "drained ts = map fst (filter (\<lambda>e. snd e = TakenByDrain) ts)"

lemma drained_append [simp]:
  "drained (xs @ [(m, w)]) = drained xs @ (if w = TakenByDrain then [m] else [])"
  by (simp add: drained_def)

text \<open>The buffer is first in, first out.\<close>

definition fl_queue :: "'cb fl_sys \<Rightarrow> bool" where
  "fl_queue s \<longleftrightarrow> fl_pushed s = map fst (fl_taken s) @ items s"

definition fl_in :: "'cb fl_sys \<Rightarrow> bool" where
  "fl_in s \<longleftrightarrow> mset (fl_arrived s) =
     mset (fl_pushed s) + mset (fl_refused s) + mset (overflowed s) + mset (fc_hand (fc_pc s))"

definition fl_out :: "'cb fl_sys \<Rightarrow> bool" where
  "fl_out s \<longleftrightarrow> mset (map fst (fl_taken s)) =
     mset (fl_delivered s) + mset (disposed s) + mset (drained (fl_taken s)) + mset (pr_hand (pr_pc s)) + rv_hands (rv_pcs s)"

definition fl_ack :: "'cb fl_sys \<Rightarrow> bool" where
  "fl_ack s \<longleftrightarrow> mset (acked s) + mset (pr_called (pr_pc s)) \<subseteq># mset (fl_delivered s)"

text \<open>What a termination has counted.\<close>

fun tt_counts :: "nat \<Rightarrow> nat \<Rightarrow> tt_pc \<Rightarrow> bool" where
  "tt_counts d n (TtDrain k) \<longleftrightarrow> k = d \<and> n = 0"
| "tt_counts d n (TtDone err) \<longleftrightarrow> n = d \<and> err = (if d > 0 then Some (persistent_IncompleteReception d) else None)"
| "tt_counts d n pc \<longleftrightarrow> d = 0 \<and> n = 0"

definition fl_count :: "'cb fl_sys \<Rightarrow> bool" where
  "fl_count s \<longleftrightarrow> (\<exists>n. pr_termination_discarded (px s) = length (fl_refused s) + n \<and>
     tt_counts (length (drained (fl_taken s))) n (tt_pc s))"

lemma fl_queue_frame:
  "fl_queue s \<Longrightarrow> fl_pushed s' = fl_pushed s \<Longrightarrow> fl_taken s' = fl_taken s \<Longrightarrow> items s' = items s \<Longrightarrow> fl_queue s'"
  by (simp add: fl_queue_def)

lemma fl_in_frame:
  "fl_in s \<Longrightarrow> fl_arrived s' = fl_arrived s \<Longrightarrow> fl_pushed s' = fl_pushed s \<Longrightarrow> fl_refused s' = fl_refused s \<Longrightarrow>
     overflowed s' = overflowed s \<Longrightarrow> fc_hand (fc_pc s') = fc_hand (fc_pc s) \<Longrightarrow> fl_in s'"
  by (simp add: fl_in_def)

lemma fl_out_frame:
  "fl_out s \<Longrightarrow> fl_taken s' = fl_taken s \<Longrightarrow> fl_delivered s' = fl_delivered s \<Longrightarrow> disposed s' = disposed s \<Longrightarrow>
     pr_hand (pr_pc s') = pr_hand (pr_pc s) \<Longrightarrow> rv_hands (rv_pcs s') = rv_hands (rv_pcs s) \<Longrightarrow> fl_out s'"
  by (simp add: fl_out_def)

lemma fl_ack_frame:
  "fl_ack s \<Longrightarrow> acked s' = acked s \<Longrightarrow> fl_delivered s' = fl_delivered s \<Longrightarrow>
     pr_called (pr_pc s') = pr_called (pr_pc s) \<Longrightarrow> fl_ack s'"
  by (simp add: fl_ack_def)

lemma fl_queue_step: "fl_step faulty s s' \<Longrightarrow> fl_queue s \<Longrightarrow> fl_queue s'"
proof (induction rule: fl_step.induct)
  case (fc_push s m c)
  then show ?case using chan_sent [OF fc_push(2)] by (simp add: fl_queue_def)
next
  case (pr_take s m c)
  then show ?case using chan_recv_Some [OF pr_take(2)] by (simp add: fl_queue_def)
next
  case (rv_take i s m c)
  then show ?case using chan_recv_Some [OF rv_take(3)] by (simp add: fl_queue_def)
next
  case (tt_drain s n m c)
  then show ?case using chan_recv_Some [OF tt_drain(2)] by (simp add: fl_queue_def)
next
  case (tt_close s c)
  then show ?case using chan_closed_close [OF tt_close(2)] by (simp add: fl_queue_def)
next
  case (ut_close s c)
  then show ?case using chan_closed_close [OF ut_close(2)] by (simp add: fl_queue_def)
next
  case (pr_notify s b r)
  then show ?case using notify_fields [OF pr_notify(2)] by (simp add: fl_queue_def)
next
  case (pr_drained s c b r)
  then show ?case using notify_fields [OF pr_drained(3)] by (simp add: fl_queue_def)
next
  case (rv_notify i s b r)
  then show ?case using notify_fields [OF rv_notify(3)] by (simp add: fl_queue_def)
next
  case (tt_len s b r)
  then show ?case using notify_fields [of "px s" b r] by (auto simp: fl_queue_def split: if_splits)
next
  case (tt_timeout s r)
  then show ?case using close_notification_eq [OF tt_timeout(2)] by (simp add: fl_queue_def)
next
  case (ut_notify s r)
  then show ?case using close_notification_eq [OF ut_notify(2)] by (simp add: fl_queue_def)
next
  case (tt_join s err r)
  then show ?case using end_fields [OF tt_join(3)] by (simp add: fl_queue_def)
next
  case (tt_drained s n c b r err r')
  then show ?case using end_fields [OF tt_drained(4)] notify_fields [OF tt_drained(3)] by (simp add: fl_queue_def)
qed (rule fl_queue_frame, assumption; simp)+

lemma fl_in_step: "fl_step faulty s s' \<Longrightarrow> fl_in s \<Longrightarrow> fl_in s'"
proof (induction rule: fl_step.induct)
  case (fc_enter s m)
  then show ?case by (simp add: fl_in_def)
next
  case (fc_refuse s m)
  then show ?case by (simp add: fl_in_def)
next
  case (fc_push s m c)
  then show ?case by (simp add: fl_in_def)
next
  case (fc_closed s m p)
  then show ?case by (simp add: fl_in_def)
next
  case (fc_full s m)
  then show ?case by (simp add: fl_in_def)
qed (rule fl_in_frame, assumption; simp)+

lemma fl_out_step: "fl_step faulty s s' \<Longrightarrow> fl_out s \<Longrightarrow> fl_out s'"
proof (induction rule: fl_step.induct)
  case (pr_take s m c)
  then show ?case by (simp add: fl_out_def)
next
  case (pr_call s m panicked)
  then show ?case by (simp add: fl_out_def)
next
  case (tt_drain s n m c)
  then show ?case by (simp add: fl_out_def)
next
  case (rv_take i s m c)
  then show ?case using rv_hands_update [OF rv_take(1), of "RvRestart m SfLen"] by (simp add: fl_out_def)
next
  case (rv_acked i s m)
  then show ?case using rv_hands_update [OF rv_acked(1), of RvClosed] by (simp add: fl_out_def)
next
  case (rv_ack_failed i s m)
  then show ?case using rv_hands_update [OF rv_ack_failed(1), of RvClosed] by (simp add: fl_out_def)
next
  case (rv_return i s m)
  then show ?case using rv_hands_update [OF rv_return(1), of RvClosed] by (simp add: fl_out_def)
next
  case (rv_call i s)
  then show ?case using rv_hands_update [OF rv_call(1), of RvSelect] by (simp add: fl_out_def)
next
  case (rv_none i s)
  then show ?case using rv_hands_update [OF rv_none(1), of RvClosed] by (simp add: fl_out_def)
next
  case (rv_closed i s)
  then show ?case using rv_hands_update [OF rv_closed(1), of RvEmpty] rv_hands_update [OF rv_closed(1), of RvIdle]
    by (simp add: fl_out_def)
next
  case (rv_empty i s)
  then show ?case using rv_hands_update [OF rv_empty(1), of RvNotify] rv_hands_update [OF rv_empty(1), of RvIdle]
    by (simp add: fl_out_def)
next
  case (rv_notify i s b r)
  then show ?case using rv_hands_update [OF rv_notify(1), of RvIdle] by (simp add: fl_out_def)
next
  case (pr_stop s)
  then show ?case by (auto simp: fl_out_def)
qed (rule fl_out_frame, assumption; simp)+

lemma fl_ack_step: "fl_step faulty s s' \<Longrightarrow> fl_ack s \<Longrightarrow> fl_ack s'"
proof (induction rule: fl_step.induct)
  case (pr_call s m panicked)
  then show ?case by (simp add: fl_ack_def)
next
  case (pr_acked s m)
  then show ?case by (simp add: fl_ack_def)
next
  case (pr_not_acked s m panicked)
  then show ?case by (simp add: fl_ack_def) (meson mset_subset_eq_add_left subset_mset.order_trans mset_subset_eq_insertD subset_mset.less_imp_le)
next
  case (rv_acked i s m)
  then show ?case by (simp add: fl_ack_def)
next
  case (pr_stop s)
  then show ?case by (auto simp: fl_ack_def)
next
  case (rv_return i s m)
  then show ?case by (simp add: fl_ack_def) (erule subset_mset.order_trans, simp)
qed (rule fl_ack_frame, assumption; simp)+

lemma fl_count_step: "fl_step faulty s s' \<Longrightarrow> fl_count s \<Longrightarrow> fl_count s'"
proof (induction rule: fl_step.induct)
  case (fc_refuse s m)
  then show ?case by (auto simp: fl_count_def)
next
  case (fc_closed s m p)
  then show ?case by (auto simp: fl_count_def)
next
  case (pr_notify s b r)
  then show ?case using notify_fields [OF pr_notify(2)] by (simp add: fl_count_def)
next
  case (pr_drained s c b r)
  then show ?case using notify_fields [OF pr_drained(3)] by (simp add: fl_count_def)
next
  case (rv_notify i s b r)
  then show ?case using notify_fields [OF rv_notify(3)] by (simp add: fl_count_def)
next
  case (tt_start s l pc)
  then show ?case by (auto simp: fl_count_def)
next
  case (tt_len s b r)
  then have "pr_termination_discarded r = pr_termination_discarded (px s)"
    using notify_fields [of "px s" b r] by (auto split: if_splits)
  with tt_len show ?case by (simp add: fl_count_def)
next
  case (tt_timeout s r)
  then show ?case using close_notification_eq [OF tt_timeout(2)] by (simp add: fl_count_def)
next
  case (ut_notify s r)
  then show ?case using close_notification_eq [OF ut_notify(2)] by (simp add: fl_count_def)
next
  case (tt_join s err r)
  then show ?case using end_fields [OF tt_join(3)] by (simp add: fl_count_def)
next
  case (tt_drain s n m c)
  then show ?case by (auto simp: fl_count_def)
next
  case (tt_drained s n c b r err r')
  then show ?case using end_fields [OF tt_drained(4)] notify_fields [OF tt_drained(3)] by (auto simp: fl_count_def)
qed (simp_all add: fl_count_def)

section \<open>Reachable states\<close>

lemma pr_startedD:
  assumes "pr_started r"
  shows "lc_state (pr_lifecycle r) = Started" "pr_buffer r = make_chan 510" "pr_bufferClosed r = 0"
    "pr_bufferEmptyOnTerminateFlag r = 0" "\<not> pr_bufferEmptyOnTerminate r" "\<not> pr_terminationNotification r"
    "\<not> pr_terminationComplete r" "internalFlow r = Flow True" "internalFlowStopped r = 0" "doPause r = 0"
    "doUnpause r = make_chan 1" "pr_termination_discarded r = 0"
    "True \<in> set (chan_items (pr_rxCallbackSet r)) \<longrightarrow> pr_rxCallback r \<noteq> None"
    "\<not> chan_closed (pr_rxCallbackSet r)" "chan_cap (pr_rxCallbackSet r) = 1"
  using assms by (auto simp: pr_started_def persistent_rx_construct_def Let_def make_chan_def maxWindowSize_def)

definition fl_reaches :: "bool \<Rightarrow> nat \<Rightarrow> nat \<Rightarrow> 'cb persistentMessageReceiverImpl \<Rightarrow> 'cb fl_sys \<Rightarrow> bool" where
  "fl_reaches faulty receivers pausers r s \<longleftrightarrow> pr_started r \<and> (fl_step faulty)\<^sup>*\<^sup>* (fl_init receivers pausers r) s"

lemma fl_reaches_invariant:
  assumes "fl_reaches faulty receivers pausers r s"
    and "pr_started r \<Longrightarrow> P (fl_init receivers pausers r)"
    and "\<And>s s'. fl_reaches faulty receivers pausers r s \<Longrightarrow> fl_step faulty s s' \<Longrightarrow> P s \<Longrightarrow> P s'"
  shows "P s"
proof -
  have r: "pr_started r" using assms(1) by (simp add: fl_reaches_def)
  have "(fl_step faulty)\<^sup>*\<^sup>* (fl_init receivers pausers r) s" using assms(1) by (simp add: fl_reaches_def)
  then show ?thesis
    by induction (use assms(2,3) r in \<open>auto simp: fl_reaches_def\<close>)
qed

lemma rv_hands_idle [simp]: "rv_hands (replicate n RvIdle) = {#}"
  by (simp add: rv_hands_def)

lemma fl_init_invariants:
  assumes "pr_started r"
  shows "fl_phase (fl_init n k r)" "fl_empty (fl_init n k r)" "fl_queue (fl_init n k r)" "fl_in (fl_init n k r)"
    "fl_out (fl_init n k r)" "fl_ack (fl_init n k r)" "fl_count (fl_init n k r)"
  using pr_startedD [OF assms]
  by (simp_all add: fl_init_def fl_phase_def fl_empty_def persistent_empty_inv_def fl_queue_def fl_in_def fl_out_def
      fl_ack_def fl_count_def drained_def make_chan_def)

lemma fl_reaches_phase: "fl_reaches faulty receivers pausers r s \<Longrightarrow> fl_phase s"
  by (erule fl_reaches_invariant) (simp add: fl_init_invariants, rule fl_phase_step)

lemma fl_reaches_empty: "fl_reaches faulty receivers pausers r s \<Longrightarrow> fl_empty s"
  by (erule fl_reaches_invariant) (simp add: fl_init_invariants, rule fl_empty_step [OF _ fl_reaches_phase])

lemma fl_reaches_queue: "fl_reaches faulty receivers pausers r s \<Longrightarrow> fl_queue s"
  by (erule fl_reaches_invariant) (simp add: fl_init_invariants, rule fl_queue_step)

lemma fl_reaches_in: "fl_reaches faulty receivers pausers r s \<Longrightarrow> fl_in s"
  by (erule fl_reaches_invariant) (simp add: fl_init_invariants, rule fl_in_step)

lemma fl_reaches_out: "fl_reaches faulty receivers pausers r s \<Longrightarrow> fl_out s"
  by (erule fl_reaches_invariant) (simp add: fl_init_invariants, rule fl_out_step)

lemma fl_reaches_ack: "fl_reaches faulty receivers pausers r s \<Longrightarrow> fl_ack s"
  by (erule fl_reaches_invariant) (simp add: fl_init_invariants, rule fl_ack_step)

lemma fl_reaches_count: "fl_reaches faulty receivers pausers r s \<Longrightarrow> fl_count s"
  by (erule fl_reaches_invariant) (simp add: fl_init_invariants, rule fl_count_step)

text \<open>The messages in somebody's hands: the callback's, the dispatching goroutine's and those of the callers of
  \<^verbatim>\<open>ReceiveMessage\<close>.\<close>

definition in_hands :: "'cb fl_sys \<Rightarrow> nat multiset" where
  "in_hands s = mset (fc_hand (fc_pc s)) + mset (pr_hand (pr_pc s)) + rv_hands (rv_pcs s)"

text \<open>
  C5. A persistent receiver accounts for every message under every interleaving of the message callback, the
  dispatching goroutine, any number of callers of \<^verbatim>\<open>ReceiveMessage\<close>, \<^verbatim>\<open>Pause\<close> and \<^verbatim>\<open>Resume\<close>, and a termination, even when
  the library refuses to start or stop the flow: what was put into the buffer is taken out in the same order; each message
  that arrived was delivered, disposed of because its acknowledgement failed, taken out by a termination, refused, dropped
  at a full buffer, is in the buffer or in the hands of one goroutine; only delivered messages were acknowledged; and a
  termination that is over leaves the buffer empty, has counted the messages it took out beside the refused ones, and
  reports them as an incomplete reception exactly when there are any.
\<close>

proposition persistent_receiver_accounting:
  assumes "fl_reaches faulty receivers pausers r s"
  shows "fl_pushed s = map fst (fl_taken s) @ items s \<and>
         mset (fl_arrived s) = mset (fl_delivered s) + mset (disposed s) + mset (drained (fl_taken s)) +
           mset (fl_refused s) + mset (overflowed s) + mset (items s) + in_hands s \<and>
         mset (acked s) \<subseteq># mset (fl_delivered s) \<and>
         (\<forall>err. tt_pc s = TtDone err \<longrightarrow> items s = [] \<and>
            pr_termination_discarded (px s) = length (fl_refused s) + length (drained (fl_taken s)) \<and>
            err = (if drained (fl_taken s) = [] then None
                   else Some (persistent_IncompleteReception (length (drained (fl_taken s))))))"
proof (intro conjI allI impI)
  show queue: "fl_pushed s = map fst (fl_taken s) @ items s" using fl_reaches_queue [OF assms] by (simp add: fl_queue_def)
  show "mset (fl_arrived s) = mset (fl_delivered s) + mset (disposed s) + mset (drained (fl_taken s)) +
          mset (fl_refused s) + mset (overflowed s) + mset (items s) + in_hands s"
    using fl_reaches_in [OF assms] fl_reaches_out [OF assms] queue by (simp add: fl_in_def fl_out_def in_hands_def)
  show "mset (acked s) \<subseteq># mset (fl_delivered s)"
    using fl_reaches_ack [OF assms] unfolding fl_ack_def by (meson mset_subset_eq_add_left subset_mset.order_trans)
next
  fix err
  assume "tt_pc s = TtDone err"
  then show "items s = []" using fl_reaches_empty [OF assms] by (simp add: fl_empty_def persistent_empty_inv_def)
next
  fix err
  assume "tt_pc s = TtDone err"
  with fl_reaches_count [OF assms]
  show "pr_termination_discarded (px s) = length (fl_refused s) + length (drained (fl_taken s))"
    and "err = (if drained (fl_taken s) = [] then None
                else Some (persistent_IncompleteReception (length (drained (fl_taken s)))))"
    by (auto simp: fl_count_def)
qed

section \<open>The flow is not left stopped\<close>

fun run_busy :: "pr_pc \<Rightarrow> bool" where
  "run_busy (PrGot m) = True"
| "run_busy (PrCalled m b) = True"
| "run_busy pc = False"

lemma restarts_go:
  "restarts (s\<lparr>fc_pc := fc\<rparr>) t = (if t = TCallback then fc_sf fc else restarts s t)"
  "restarts (s\<lparr>pr_pc := pr\<rparr>) t = (if t = TRun then pr_sf pr else restarts s t)"
  "i < length pcs \<Longrightarrow> pcs = rv_pcs s \<Longrightarrow> restarts (s\<lparr>rv_pcs := pcs[i := rv]\<rparr>) t =
     (if t = TReceive i then rv_sf rv else restarts s t)"
  by (cases t; simp)+

lemma restarts_other [simp]:
  "restarts (s\<lparr>pz_pcs := pz\<rparr>) = restarts s" "restarts (s\<lparr>tt_pc := tt\<rparr>) = restarts s"
  "restarts (s\<lparr>fl_arrived := xs\<rparr>) = restarts s" "restarts (s\<lparr>fl_pushed := xs\<rparr>) = restarts s"
  "restarts (s\<lparr>fl_taken := ts\<rparr>) = restarts s" "restarts (s\<lparr>fl_refused := xs\<rparr>) = restarts s"
  "restarts (s\<lparr>overflowed := xs\<rparr>) = restarts s" "restarts (s\<lparr>fl_delivered := xs\<rparr>) = restarts s"
  "restarts (s\<lparr>disposed := xs\<rparr>) = restarts s" "restarts (s\<lparr>acked := xs\<rparr>) = restarts s"
  by (rule ext, case_tac x, simp, simp, simp)+

lemma restarts_same [simp]:
  "fc_sf fc = fc_sf (fc_pc s) \<Longrightarrow> restarts (s\<lparr>fc_pc := fc\<rparr>) t = restarts s t"
  "pr_sf pr = pr_sf (pr_pc s) \<Longrightarrow> restarts (s\<lparr>pr_pc := pr\<rparr>) t = restarts s t"
  by (cases t; simp)+

lemma restarts_same_rv [simp]:
  "rv_sf rv = rv_sf (pcs ! i) \<Longrightarrow> pcs = rv_pcs s \<Longrightarrow> restarts (s\<lparr>rv_pcs := pcs[i := rv]\<rparr>) t = restarts s t"
proof (cases t)
  case (TReceive j)
  assume "rv_sf rv = rv_sf (pcs ! i)" "pcs = rv_pcs s"
  then show ?thesis unfolding TReceive by (cases "i = j") simp_all
qed simp_all

lemma pr_sf_busy: "run_busy pc \<Longrightarrow> pr_sf pc = None"
  by (cases pc) simp_all

lemma fc_kept: "restarts s t \<noteq> None \<Longrightarrow> fc_pc s = FcStore \<Longrightarrow> fc_pc (set_restart t x s) = FcStore"
  by (cases t) simp_all

lemma run_kept: "restarts s t \<noteq> None \<Longrightarrow> run_busy (pr_pc s) \<Longrightarrow> run_busy (pr_pc (set_restart t x s))"
  by (cases t) (simp_all add: pr_sf_busy)

lemmas set_restart_kept = fc_kept run_kept

text \<open>A stopped flow with a clear flag is about to be flagged or to be started again; with the flag set and few messages
  left, somebody is about to find that out.\<close>

fun sf_pending :: "sf_pc option \<Rightarrow> bool" where
  "sf_pending (Some x) \<longleftrightarrow> x = SfLen \<or> x = SfState \<or> x = SfCAS"
| "sf_pending None \<longleftrightarrow> False"

definition flow_kept :: "'cb fl_sys \<Rightarrow> bool" where
  "flow_kept s \<longleftrightarrow> (internalFlow (px s) = Flow True \<or> internalFlow (px s) = Flow False) \<and>
     (internalFlowStopped (px s) = 0 \<or> internalFlowStopped (px s) = 1) \<and> (\<forall>t. restarts s t \<noteq> Some SfRetry)"

definition flow_flagged :: "'cb fl_sys \<Rightarrow> bool" where
  "flow_flagged s \<longleftrightarrow> (internalFlow (px s) = Flow False \<and> internalFlowStopped (px s) = 0 \<longrightarrow>
     fc_pc s = FcStore \<or> (\<exists>t. restarts s t = Some SfStart))"

definition flow_seen :: "'cb fl_sys \<Rightarrow> bool" where
  "flow_seen s \<longleftrightarrow> (internalFlowStopped (px s) = 1 \<and> chan_len (pr_buffer (px s)) < lowwater (px s) \<longrightarrow>
     run_busy (pr_pc s) \<or> (\<exists>t. sf_pending (restarts s t)))"

definition fl_watch :: "'cb fl_sys \<Rightarrow> bool" where
  "fl_watch s \<longleftrightarrow> (tt_pc s = TtIdle \<longrightarrow> flow_kept s \<and> flow_flagged s \<and> flow_seen s)"

lemma fl_watch_frame:
  assumes "fl_watch s" and "tt_pc s' = TtIdle \<Longrightarrow> tt_pc s = TtIdle"
    and "internalFlow (px s') = internalFlow (px s)" "internalFlowStopped (px s') = internalFlowStopped (px s)"
    and "chan_len (pr_buffer (px s')) \<ge> chan_len (pr_buffer (px s))" and "lowwater (px s') = lowwater (px s)"
    and "fc_pc s = FcStore \<Longrightarrow> fc_pc s' = FcStore" and "run_busy (pr_pc s) \<Longrightarrow> run_busy (pr_pc s')"
    and "\<And>t. restarts s' t = restarts s t"
  shows "fl_watch s'"
  using assms(1,2,5,7,8)
  by (auto simp: fl_watch_def flow_kept_def flow_flagged_def flow_seen_def assms(3,4,6,9))

lemma fl_watch_gone: "tt_pc s' \<noteq> TtIdle \<Longrightarrow> fl_watch s'"
  by (simp add: fl_watch_def)

text \<open>A goroutine that goes on, in the part that starts the flow again or into it.\<close>

lemma fl_watch_go:
  assumes "fl_watch s" and "tt_pc s' = tt_pc s"
    and "internalFlow (px s') = internalFlow (px s)" "internalFlowStopped (px s') = internalFlowStopped (px s)"
    and "lowwater (px s') = lowwater (px s)" and "fc_pc s = FcStore \<Longrightarrow> fc_pc s' = FcStore"
    and "\<And>t'. restarts s' t' = (if t' = t then x else restarts s t')" and "restarts s t \<noteq> Some SfStart" and "x \<noteq> Some SfRetry"
    and "sf_pending x \<or> chan_len (pr_buffer (px s')) = chan_len (pr_buffer (px s)) \<and>
      (run_busy (pr_pc s) \<longrightarrow> run_busy (pr_pc s')) \<and> (\<not> sf_pending (restarts s t) \<or> lowwater (px s) \<le> chan_len (pr_buffer (px s)))"
  shows "fl_watch s'"
proof -
  have kept: "flow_kept s \<Longrightarrow> flow_kept s'" using assms(3,4,9) by (auto simp: flow_kept_def assms(7))
  have flagged: "flow_flagged s \<Longrightarrow> flow_flagged s'"
    using assms(3,4,6,8) unfolding flow_flagged_def assms(7) by metis
  have seen: "flow_seen s \<Longrightarrow> flow_seen s'"
    using assms(4,5,10) unfolding flow_seen_def assms(7) by (metis not_le)
  show ?thesis using assms(1,2) kept flagged seen by (simp add: fl_watch_def)
qed

lemma fl_watch_step: "fl_step False s s' \<Longrightarrow> fl_phase s \<Longrightarrow> fl_watch s \<Longrightarrow> fl_watch s'"
proof (induction rule: fl_step.induct)
  case (fc_stop s)
  then show ?case by (auto simp: fl_watch_def flow_kept_def flow_flagged_def flow_seen_def stopped_flow_def)
next
  case (fc_store s)
  then show ?case
    by (auto simp: fl_watch_def flow_kept_def flow_flagged_def flow_seen_def restarts_go intro!: exI [of _ TCallback])
next
  case (pr_acked s m)
  then show ?case by - (rule fl_watch_go [OF pr_acked.prems(2), where t = TRun and x = "Some SfLen"]; simp add: restarts_go)
next
  case (pr_not_acked s m)
  then show ?case by - (rule fl_watch_go [OF pr_not_acked.prems(2), where t = TRun and x = "Some SfLen"]; simp add: restarts_go)
next
  case (pr_take s m c)
  then show ?case by (auto simp: fl_watch_def flow_kept_def flow_flagged_def flow_seen_def)
next
  case (rv_take i s m c)
  then show ?case by - (rule fl_watch_go [OF rv_take.prems(2), where t = "TReceive i" and x = "Some SfLen"]; simp add: restarts_go)
next
  case (sf_len s t)
  then have low: "is_low t (px s) \<or> lowwater (px s) \<le> chan_len (pr_buffer (px s))" by (cases t) auto
  show ?case using sf_len low
    by - (rule fl_watch_go [OF sf_len.prems(2), where t = t and x = "if is_low t (px s) then Some SfState else None"];
      auto simp: restarts_set set_restart_kept)
next
  case (sf_state s t)
  show ?case
  proof (cases "tt_pc s = TtIdle")
    case True
    then have "fl_state s = Started" using fl_phaseD(1) [OF sf_state.prems(1)] by simp
    with sf_state show ?thesis
      by - (rule fl_watch_go [OF sf_state.prems(2), where t = t and x = "Some SfCAS"]; simp add: restarts_set set_restart_kept)
  qed (simp add: fl_watch_def)
next
  case (sf_cas s t swapped v)
  show ?case
  proof (cases "tt_pc s = TtIdle")
    case True
    then have inv: "flow_kept s" "flow_flagged s" using sf_cas.prems by (simp_all add: fl_watch_def)
    have v: "v = 0" and swapped: "swapped \<longleftrightarrow> internalFlowStopped (px s) = 1"
      using sf_cas(2) inv(1) by (auto simp: CompareAndSwap_def flow_kept_def split: if_splits)
    have "internalFlowStopped (px s) = 0 \<Longrightarrow> restarts s ta = Some SfStart \<Longrightarrow> ta \<noteq> t" for ta
      using sf_cas(1) by auto
    with sf_cas(1) inv v swapped show ?thesis
      by (auto simp: fl_watch_def flow_kept_def flow_flagged_def flow_seen_def restarts_set set_restart_kept)
  qed (simp add: fl_watch_def)
next
  case (sf_start s t)
  have "sf_pending (restarts s ta) \<Longrightarrow> ta \<noteq> t" for ta using sf_start(1) by auto
  with sf_start show ?case
    by (auto simp: fl_watch_def flow_kept_def flow_flagged_def flow_seen_def restarts_set set_restart_kept started_flow_def)
next
  case (sf_retry s t)
  then show ?case by (auto simp: fl_watch_def flow_kept_def)
next
  case (pr_notify s b r)
  show ?case using pr_notify notify_fields [OF pr_notify(2)] by - (rule fl_watch_frame [OF pr_notify.prems(2)]; simp)
next
  case (fc_push s m c)
  then show ?case using chan_sent [OF fc_push(2)]
    by - (rule fl_watch_frame [OF fc_push.prems(2)]; simp add: chan_len_def)
next
  case (rv_notify i s b r)
  show ?case using rv_notify notify_fields [OF rv_notify(3)] by - (rule fl_watch_frame [OF rv_notify.prems(2)]; simp)
next
  case (pr_drained s c b r)
  show ?case using pr_drained notify_fields [OF pr_drained(3)] by - (rule fl_watch_frame [OF pr_drained.prems(2)]; simp)
next
  case (pr_stop s)
  then show ?case by - (rule fl_watch_frame [OF pr_stop.prems(2)]; auto)
next
  case (tt_start s l pc)
  then show ?case by (auto simp: fl_watch_def)
next
  case (pr_top s)
  then show ?case by - (rule fl_watch_frame [OF pr_top.prems(2)]; simp)
next
  case (fc_len s)
  then show ?case by - (rule fl_watch_frame [OF fc_len.prems(2)]; simp)
qed ((rule fl_watch_frame, assumption; simp; fail) | (simp add: fl_watch_def; fail))+

lemma restarts_init: "restarts (fl_init n k r) t = None"
  by (cases t) (simp_all add: fl_init_def)

lemma fl_reaches_watch: "fl_reaches False receivers pausers r s \<Longrightarrow> fl_watch s"
proof (erule fl_reaches_invariant)
  assume "pr_started r"
  from pr_startedD [OF this] show "fl_watch (fl_init receivers pausers r)"
    by (simp add: fl_watch_def flow_kept_def flow_flagged_def flow_seen_def restarts_init) (simp add: fl_init_def)
next
  fix s s'
  assume "fl_reaches False receivers pausers r s" "fl_step False s s'" "fl_watch s"
  then show "fl_watch s'" by (blast intro: fl_watch_step fl_reaches_phase)
qed

text \<open>Nobody is on the way to start or to stop the flow: no message is in the callback, none is being dispatched, no caller
  of \<^verbatim>\<open>ReceiveMessage\<close> has one.\<close>

definition flow_at_rest :: "'cb fl_sys \<Rightarrow> bool" where
  "flow_at_rest s \<longleftrightarrow> tt_pc s = TtIdle \<and> fc_pc s = FcIdle \<and> pr_pc s \<in> {PrWait, PrTop, PrClosed, PrEmpty, PrNotify, PrPaused, PrCheck, PrSelect} \<and>
     (\<forall>pc \<in> set (rv_pcs s). rv_sf pc = None)"

lemma flow_at_restD: "flow_at_rest s \<Longrightarrow> restarts s t = None"
  by (cases t) (auto simp: flow_at_rest_def)

text \<open>
  C18. Back pressure does not stop a persistent receiver for good, once it is started. The runs start from a receiver whose state is
  \<^verbatim>\<open>Started\<close>, with a running flow and an empty buffer (\<open>pr_started\<close>), and the library starts and stops the flow when it is
  told to: then a receiver that is not being terminated and at rest with fewer messages than its low-water mark has a running
  flow, in whatever order the callback, the dispatching goroutine and the callers of \<^verbatim>\<open>ReceiveMessage\<close> ran since then; and a flow that is not
  running is marked as stopped, as the test before the next start requires. Messages that arrive before \<^verbatim>\<open>Start\<close> has stored the state are outside:
  the flow is running then already, and in the code a flow that they stop stays stopped if the last of them is dispatched before the store
  (\<^verbatim>\<open>internal/impl/receiver/persistent_message_receiver_impl.go\<close>, line 980, where the flow is started again only in the state \<^verbatim>\<open>Started\<close>).
\<close>

proposition flow_not_left_stopped:
  assumes "fl_reaches False receivers pausers r s" and "flow_at_rest s"
  shows "(length (items s) < lowwater (px s) \<longrightarrow> internalFlow (px s) = Flow True) \<and>
         (internalFlow (px s) \<noteq> Flow True \<longrightarrow> internalFlow (px s) = Flow False \<and> internalFlowStopped (px s) = 1)"
proof -
  have idle: "tt_pc s = TtIdle" "fc_pc s \<noteq> FcStore" "\<not> run_busy (pr_pc s)"
    using assms(2) by (auto simp: flow_at_rest_def)
  have "flow_kept s \<and> flow_flagged s \<and> flow_seen s" using fl_reaches_watch [OF assms(1)] idle by (simp add: fl_watch_def)
  with idle flow_at_restD [OF assms(2)] show ?thesis
    by (auto simp: flow_kept_def flow_flagged_def flow_seen_def chan_len_def)
qed

section \<open>A resumed receiver goes on\<close>

fun is_paused :: "pr_pc \<Rightarrow> bool" where
  "is_paused PrClosed = True"
| "is_paused PrEmpty = True"
| "is_paused PrNotify = True"
| "is_paused PrPaused = True"
| "is_paused pc = False"

definition fl_resume :: "'cb fl_sys \<Rightarrow> bool" where
  "fl_resume s \<longleftrightarrow> chan_cap (doUnpause (px s)) = 1 \<and> \<not> chan_closed (doUnpause (px s)) \<and>
     (is_paused (pr_pc s) \<and> doPause (px s) \<noteq> 1 \<longrightarrow>
        chan_items (doUnpause (px s)) \<noteq> [] \<or> ResumeSend \<in> set (pz_pcs s) \<or> PauseStore \<in> set (pz_pcs s))"

lemma fl_resume_frame:
  assumes "fl_resume s" and "doUnpause (px s') = doUnpause (px s)" and "doPause (px s') = doPause (px s)"
    and "is_paused (pr_pc s') \<Longrightarrow> is_paused (pr_pc s) \<or> doPause (px s) = 1"
    and "\<And>pc. pc \<in> {ResumeSend, PauseStore} \<Longrightarrow> pc \<in> set (pz_pcs s) \<Longrightarrow> pc \<in> set (pz_pcs s')"
  shows "fl_resume s'"
  using assms unfolding fl_resume_def by (metis insertCI)

lemma set_restart_paused: "is_paused (pr_pc (set_restart t x s)) \<Longrightarrow> is_paused (pr_pc s)"
  by (cases t; cases x) auto

lemma mem_update_other: "x \<in> set xs \<Longrightarrow> xs ! i \<noteq> x \<Longrightarrow> x \<in> set (xs[i := y])"
  by (metis in_set_conv_nth length_list_update nth_list_update_neq)

lemma fl_resume_step: "fl_step faulty s s' \<Longrightarrow> fl_resume s \<Longrightarrow> fl_resume s'"
proof (induction rule: fl_step.induct)
  case (pr_notify s b r)
  show ?case using pr_notify notify_fields [OF pr_notify(2)]
    by - (rule fl_resume_frame [OF pr_notify.prems]; simp)
next
  case (pr_drained s c b r)
  show ?case using pr_drained notify_fields [OF pr_drained(3)]
    by - (rule fl_resume_frame [OF pr_drained.prems]; simp)
next
  case (rv_notify i s b r)
  show ?case using rv_notify notify_fields [OF rv_notify(3)]
    by - (rule fl_resume_frame [OF rv_notify.prems]; simp)
next
  case (tt_len s b r)
  then have "doUnpause r = doUnpause (px s) \<and> doPause r = doPause (px s)"
    using notify_fields [of "px s" b r] by (auto split: if_splits)
  then show ?case by - (rule fl_resume_frame [OF tt_len.prems]; simp)
next
  case (tt_timeout s r)
  show ?case using close_notification_eq [OF tt_timeout(2)] by - (rule fl_resume_frame [OF tt_timeout.prems]; simp)
next
  case (ut_notify s r)
  show ?case using close_notification_eq [OF ut_notify(2)] by - (rule fl_resume_frame [OF ut_notify.prems]; simp)
next
  case (tt_join s err r)
  show ?case using end_fields [OF tt_join(3)] by - (rule fl_resume_frame [OF tt_join.prems]; simp)
next
  case (tt_drained s n c b r err r')
  show ?case using end_fields [OF tt_drained(4)] notify_fields [OF tt_drained(3)]
    by - (rule fl_resume_frame [OF tt_drained.prems]; simp)
next
  case (pr_unpause s x c)
  then show ?case using pr_unpause(2) by (auto simp: fl_resume_def chan_recv_def split: list.splits if_splits)
next
  case (pause_drain i s)
  then show ?case by (auto simp: fl_resume_def try_recv_def chan_recv_def set_update_memI split: list.splits if_splits)
next
  case (pause_store i s)
  then show ?case by (simp add: fl_resume_def)
next
  case (resume_store i s)
  then show ?case by (simp add: fl_resume_def set_update_memI)
next
  case (resume_send i s)
  then show ?case by (auto simp: fl_resume_def try_send_def chan_send_def)
qed (rule fl_resume_frame, assumption;
    (auto simp: mem_update_other dest: set_restart_paused split: if_splits))+

lemma fl_reaches_resume: "fl_reaches faulty receivers pausers r s \<Longrightarrow> fl_resume s"
proof (erule fl_reaches_invariant)
  assume "pr_started r"
  from pr_startedD [OF this] show "fl_resume (fl_init receivers pausers r)" by (simp add: fl_resume_def fl_init_def make_chan_def)
qed (rule fl_resume_step)

text \<open>
  C34. No call of \<^verbatim>\<open>Resume\<close> is lost: when the dispatching goroutine waits in a pause, every call of \<^verbatim>\<open>Pause\<close> and
  \<^verbatim>\<open>Resume\<close> has returned, whatever their interleaving was, and the last of them to set the pause flag cleared it, then the
  signal that ends the wait is there and the goroutine can go on dispatching.
\<close>

proposition resumed_receiver_goes_on:
  assumes "fl_reaches faulty receivers pausers r s" and "pr_pc s = PrPaused" and "set (pz_pcs s) \<subseteq> {PzIdle}"
    and "doPause (px s) \<noteq> 1"
  shows "\<exists>s'. fl_step faulty s s' \<and> pr_pc s' = PrCheck \<and> chan_items (doUnpause (px s')) = tl (chan_items (doUnpause (px s)))"
proof -
  have "chan_items (doUnpause (px s)) \<noteq> []"
    using fl_reaches_resume [OF assms(1)] assms(2-4) by (auto simp: fl_resume_def)
  then obtain u us where "chan_items (doUnpause (px s)) = u # us" by (cases "chan_items (doUnpause (px s))") auto
  then have "chan_recv (doUnpause (px s)) = Return (Some u, (doUnpause (px s))\<lparr>chan_items := us\<rparr>)"
    "chan_items ((doUnpause (px s))\<lparr>chan_items := us\<rparr>) = tl (chan_items (doUnpause (px s)))"
    by (simp_all add: chan_recv_def)
  with fl_step.pr_unpause [OF assms(2) this(1)] show ?thesis by (intro exI conjI) (assumption, simp, simp)
qed

section \<open>A termination ends\<close>

fun tt_signalled :: "tt_pc \<Rightarrow> bool" where
  "tt_signalled pc \<longleftrightarrow> pc \<in> {TtClose, TtFlag, TtLen, TtWait, TtJoin, TtJoinTimeout}"

definition fl_signal :: "'cb fl_sys \<Rightarrow> bool" where
  "fl_signal s \<longleftrightarrow> chan_cap (pr_rxCallbackSet (px s)) = 1 \<and> \<not> chan_closed (pr_rxCallbackSet (px s)) \<and>
     (tt_signalled (tt_pc s) \<and> pr_pc s = PrWait \<longrightarrow> chan_items (pr_rxCallbackSet (px s)) \<noteq> [])"

definition fl_callback :: "'cb fl_sys \<Rightarrow> bool" where
  "fl_callback s \<longleftrightarrow> (True \<in> set (chan_items (pr_rxCallbackSet (px s))) \<or> pr_pc s \<noteq> PrWait \<and> pr_pc s \<noteq> PrDone \<longrightarrow>
     pr_rxCallback (px s) \<noteq> None)"

fun tt_notified :: "tt_pc \<Rightarrow> bool" where
  "tt_notified TtJoinTimeout = True"
| "tt_notified (TtDrain n) = True"
| "tt_notified (TtDone err) = True"
| "tt_notified pc = False"

definition fl_notified :: "'cb fl_sys \<Rightarrow> bool" where
  "fl_notified s \<longleftrightarrow> (pr_terminationNotification (px s) \<longrightarrow> tt_notified (tt_pc s)) \<and>
     (tt_pc s = TtJoinTimeout \<longrightarrow> pr_terminationNotification (px s))"

definition fl_term :: "'cb fl_sys \<Rightarrow> bool" where
  "fl_term s \<longleftrightarrow> fl_signal s \<and> fl_callback s \<and> fl_notified s"

lemma notify_notification:
  "persistent_notify_empty r = Return (b, r') \<Longrightarrow> pr_terminationNotification r' = pr_terminationNotification r"
  by (auto simp: persistent_notify_cases split: if_splits)

lemma end_notification:
  "end_receiver n r = (err, r') \<Longrightarrow> pr_terminationNotification r' = pr_terminationNotification r"
  using end_receiver_eq [of n r err r'] by auto

lemma fl_term_frame:
  assumes "fl_term s" and "pr_rxCallbackSet (px s') = pr_rxCallbackSet (px s)" and "pr_rxCallback (px s') = pr_rxCallback (px s)"
    and "pr_terminationNotification (px s') = pr_terminationNotification (px s)" and "tt_pc s' = tt_pc s"
    and "(pr_pc s' = PrWait) = (pr_pc s = PrWait)" and "pr_pc s = PrDone \<Longrightarrow> pr_pc s' = PrDone"
  shows "fl_term s'"
  using assms unfolding fl_term_def fl_signal_def fl_callback_def fl_notified_def by metis

lemma fl_term_move:
  assumes "fl_term s" and "pr_rxCallbackSet (px s') = pr_rxCallbackSet (px s)" and "pr_rxCallback (px s') = pr_rxCallback (px s)"
    and "pr_terminationNotification (px s') = pr_terminationNotification (px s)" and "pr_pc s' = pr_pc s"
    and "tt_signalled (tt_pc s') \<Longrightarrow> tt_signalled (tt_pc s)" and "tt_notified (tt_pc s) \<Longrightarrow> tt_notified (tt_pc s')"
    and "tt_pc s' = TtJoinTimeout \<Longrightarrow> pr_terminationNotification (px s)"
  shows "fl_term s'"
  using assms unfolding fl_term_def fl_signal_def fl_callback_def fl_notified_def by metis

lemma set_restart_wait:
  "restarts s t \<noteq> None \<Longrightarrow> (pr_pc (set_restart t x s) = PrWait) = (pr_pc s = PrWait)"
  by (cases t; cases x) auto

lemma try_send_items:
  "chan_cap c = 1 \<Longrightarrow> \<not> chan_closed c \<Longrightarrow>
     chan_items (try_send x c) \<noteq> [] \<and> chan_cap (try_send x c) = 1 \<and> \<not> chan_closed (try_send x c) \<and>
     set (chan_items (try_send x c)) \<subseteq> insert x (set (chan_items c))"
  by (auto simp: try_send_def chan_send_def)

lemma fl_term_step: "fl_step faulty s s' \<Longrightarrow> fl_term s \<Longrightarrow> fl_term s'"
proof (induction rule: fl_step.induct)
  case (ra_set callback s)
  then show ?case by (simp add: fl_term_def fl_signal_def fl_callback_def fl_notified_def)
next
  case (ra_signal s c)
  then show ?case using chan_sent [OF ra_signal(2)]
    by (simp add: fl_term_def fl_signal_def fl_callback_def fl_notified_def)
next
  case (pr_told s cont c)
  then show ?case using chan_recv_Some [OF pr_told(2)]
    by (auto simp: fl_term_def fl_signal_def fl_callback_def fl_notified_def)
next
  case (pr_notify s b r)
  show ?case using pr_notify notify_fields [OF pr_notify(2)] notify_notification [OF pr_notify(2)]
    by - (rule fl_term_frame [OF pr_notify.prems]; simp)
next
  case (pr_drained s c b r)
  show ?case using pr_drained notify_fields [OF pr_drained(3)] notify_notification [OF pr_drained(3)]
    by - (rule fl_term_frame [OF pr_drained.prems]; simp)
next
  case (rv_notify i s b r)
  show ?case using rv_notify notify_fields [OF rv_notify(3)] notify_notification [OF rv_notify(3)]
    by - (rule fl_term_frame [OF rv_notify.prems]; simp)
next
  case (pr_stop s)
  then show ?case by - (rule fl_term_frame [OF pr_stop.prems]; auto)
next
  case (tt_start s l pc)
  then show ?case by - (rule fl_term_move [OF tt_start.prems]; auto)
next
  case (tt_len s b r)
  have "pr_rxCallbackSet r = pr_rxCallbackSet (px s) \<and> pr_rxCallback r = pr_rxCallback (px s) \<and>
      pr_terminationNotification r = pr_terminationNotification (px s)"
    using tt_len(2) notify_fields [of "px s" b r] notify_notification [of "px s" b r] by (auto split: if_splits)
  then show ?case using tt_len by - (rule fl_term_move [OF tt_len.prems]; simp)
next
  case (tt_signal s)
  then have cap: "chan_cap (pr_rxCallbackSet (px s)) = 1" "\<not> chan_closed (pr_rxCallbackSet (px s))"
    by (simp_all add: fl_term_def fl_signal_def)
  show ?case using tt_signal try_send_items [OF cap, of False]
    by (auto simp: fl_term_def fl_signal_def fl_callback_def fl_notified_def)
next
  case (ut_signal s)
  then have cap: "chan_cap (pr_rxCallbackSet (px s)) = 1" "\<not> chan_closed (pr_rxCallbackSet (px s))"
    by (simp_all add: fl_term_def fl_signal_def)
  show ?case using ut_signal try_send_items [OF cap, of False]
    by (auto simp: fl_term_def fl_signal_def fl_callback_def fl_notified_def)
next
  case (tt_timeout s r)
  then show ?case using close_notification_eq [OF tt_timeout(2)]
    by (simp add: fl_term_def fl_signal_def fl_callback_def fl_notified_def)
next
  case (ut_notify s r)
  then show ?case using close_notification_eq [OF ut_notify(2)]
    by (simp add: fl_term_def fl_signal_def fl_callback_def fl_notified_def)
next
  case (tt_join s err r)
  show ?case using tt_join end_fields [OF tt_join(3)] end_notification [OF tt_join(3)]
    by - (rule fl_term_move [OF tt_join.prems]; simp)
next
  case (tt_drained s n c b r err r')
  show ?case using tt_drained end_fields [OF tt_drained(4)] notify_fields [OF tt_drained(3)]
      end_notification [OF tt_drained(4)] notify_notification [OF tt_drained(3)]
    by - (rule fl_term_move [OF tt_drained.prems]; simp)
next
  case (tt_join_timeout s)
  then show ?case by - (rule fl_term_move [OF tt_join_timeout.prems]; simp)
next
  case (sf_start s t)
  show ?case using set_restart_wait [of "s\<lparr>px := (px s)\<lparr>internalFlow := started_flow None (internalFlow (px s))\<rparr>\<rparr>" t None] sf_start
    by - (rule fl_term_frame [OF sf_start.prems]; simp)
qed ((rule fl_term_frame, assumption; simp add: set_restart_wait; fail) | (rule fl_term_move, assumption; simp; fail))+

lemma fl_reaches_term: "fl_reaches faulty receivers pausers r s \<Longrightarrow> fl_term s"
proof (erule fl_reaches_invariant)
  assume "pr_started r"
  from pr_startedD [OF this] show "fl_term (fl_init receivers pausers r)"
    by (auto simp: fl_term_def fl_signal_def fl_callback_def fl_notified_def fl_init_def)
qed (rule fl_term_step)

text \<open>How far the termination and the dispatching goroutine are from their ends.\<close>

fun tt_rank :: "tt_pc \<Rightarrow> nat" where
  "tt_rank TtIdle = 13"
| "tt_rank TtMark = 12"
| "tt_rank TtStop = 11"
| "tt_rank TtSignal = 10"
| "tt_rank TtClose = 9"
| "tt_rank TtFlag = 8"
| "tt_rank TtLen = 7"
| "tt_rank TtWait = 6"
| "tt_rank (UtDestroy native) = 6"
| "tt_rank UtClose = 5"
| "tt_rank UtFlag = 4"
| "tt_rank UtSignal = 3"
| "tt_rank TtJoin = 2"
| "tt_rank TtJoinTimeout = 2"
| "tt_rank UtNotify = 2"
| "tt_rank (TtDrain n) = 1"
| "tt_rank (TtDone err) = 0"

fun pr_rank :: "pr_pc \<Rightarrow> nat" where
  "pr_rank PrWait = 12"
| "pr_rank (PrGot m) = 11"
| "pr_rank (PrCalled m b) = 10"
| "pr_rank (PrRestart SfLen) = 9"
| "pr_rank (PrRestart SfState) = 8"
| "pr_rank (PrRestart SfCAS) = 7"
| "pr_rank (PrRestart SfStart) = 6"
| "pr_rank (PrRestart SfRetry) = 6"
| "pr_rank PrTop = 5"
| "pr_rank PrClosed = 4"
| "pr_rank PrEmpty = 3"
| "pr_rank PrNotify = 2"
| "pr_rank PrCheck = 2"
| "pr_rank PrPaused = 1"
| "pr_rank PrSelect = 1"
| "pr_rank PrDone = 0"

definition fl_order :: "('cb fl_sys \<times> 'cb fl_sys) set" where
  "fl_order = measures [\<lambda>s. tt_rank (tt_pc s), \<lambda>s. pr_rank (pr_pc s), \<lambda>s. length (items s)]"

lemma fl_order_simps:
  "(s', s) \<in> fl_order \<longleftrightarrow> tt_rank (tt_pc s') < tt_rank (tt_pc s) \<or> tt_rank (tt_pc s') = tt_rank (tt_pc s) \<and>
     (pr_rank (pr_pc s') < pr_rank (pr_pc s) \<or> pr_rank (pr_pc s') = pr_rank (pr_pc s) \<and> length (items s') < length (items s))"
  by (simp add: fl_order_def)

text \<open>A termination that waits for the dispatching goroutine does not wait for ever.\<close>

lemma flow_run_progress:
  assumes "fl_phase s" and "fl_empty s" and "fl_term s" and "tt_pc s = TtJoin \<or> tt_pc s = TtJoinTimeout" and "pr_pc s \<noteq> PrDone"
  shows "\<exists>s'. fl_step faulty s s' \<and> tt_pc s' = tt_pc s \<and> pr_rank (pr_pc s') < pr_rank (pr_pc s)"
proof -
  have closed: "chan_closed (pr_buffer (px s))" using assms(4) fl_phaseD(2) [OF assms(1)] by auto
  have notified: "pr_terminationNotification (px s) \<or> pr_bufferEmptyOnTerminate (px s)"
    using assms(2-4) by (auto simp: fl_empty_def fl_term_def fl_notified_def)
  have emptied: "pr_bufferEmptyOnTerminate (px s) \<Longrightarrow> chan_closed (pr_buffer (px s)) \<and> items s = []"
    and notify: "\<exists>b r. persistent_notify_empty (px s) = Return (b, r)"
    using assms(2) by (auto simp: fl_empty_def persistent_empty_inv_def persistent_notify_cases split: if_splits)
  have restart: ?thesis if "restarts s TRun = Some x" for x
  proof (cases x)
    case SfLen
    with that show ?thesis using fl_step.sf_len [of s TRun faulty] by (cases "pr_pc s") (fastforce split: if_splits)+
  next
    case SfState
    with that show ?thesis using fl_step.sf_state [of s TRun faulty] by (cases "pr_pc s") (fastforce split: if_splits)+
  next
    case SfCAS
    obtain swapped v where "CompareAndSwap 1 0 (internalFlowStopped (px s)) = (swapped, v)" by fastforce
    with SfCAS that show ?thesis using fl_step.sf_cas [of s TRun swapped v faulty]
      by (cases "pr_pc s") (fastforce split: if_splits)+
  next
    case SfStart
    with that show ?thesis using fl_step.sf_start [of s TRun faulty] by (cases "pr_pc s") (fastforce split: if_splits)+
  next
    case SfRetry
    with that show ?thesis using fl_step.sf_retry [of s TRun faulty] by (cases "pr_pc s") (fastforce split: if_splits)+
  qed
  show ?thesis
  proof (cases "pr_pc s")
    case PrWait
    then obtain b bs where "chan_items (pr_rxCallbackSet (px s)) = b # bs"
      using assms(3,4) by (cases "chan_items (pr_rxCallbackSet (px s))") (auto simp: fl_term_def fl_signal_def)
    then have "chan_recv (pr_rxCallbackSet (px s)) = Return (Some b, (pr_rxCallbackSet (px s))\<lparr>chan_items := bs\<rparr>)"
      by (simp add: chan_recv_def)
    from fl_step.pr_told [OF PrWait this, of faulty] PrWait show ?thesis by (cases b) fastforce+
  next
    case PrTop
    from fl_step.pr_top [OF PrTop, of faulty] PrTop show ?thesis by (fastforce split: if_splits)
  next
    case PrClosed
    from fl_step.pr_closed [OF PrClosed, of faulty] PrClosed show ?thesis by (fastforce split: if_splits)
  next
    case PrEmpty
    from fl_step.pr_empty [OF PrEmpty, of faulty] PrEmpty show ?thesis by (fastforce split: if_splits)
  next
    case PrNotify
    from notify obtain b r where "persistent_notify_empty (px s) = Return (b, r)" by blast
    from fl_step.pr_notify [OF PrNotify this, of faulty] PrNotify show ?thesis by (cases b) fastforce+
  next
    case PrPaused
    from fl_step.pr_paused_end [OF PrPaused notified, of faulty] PrPaused show ?thesis by fastforce
  next
    case PrCheck
    then show ?thesis using fl_step.pr_check [OF PrCheck, of faulty] fl_step.pr_stop [of s faulty]
      by (cases "pr_terminationNotification (px s)") fastforce+
  next
    case PrSelect
    show ?thesis
    proof (cases "pr_terminationNotification (px s)")
      case True
      with PrSelect fl_step.pr_stop [of s faulty] show ?thesis by fastforce
    next
      case False
      with notified emptied have "chan_recv (pr_buffer (px s)) = Return (None, pr_buffer (px s))"
        by (simp add: chan_recv_None)
      moreover obtain b r where "persistent_notify_empty (px s) = Return (b, r)" using notify by blast
      ultimately show ?thesis using fl_step.pr_drained [OF PrSelect, of "pr_buffer (px s)" b r faulty] PrSelect by fastforce
    qed
  next
    case (PrGot m)
    moreover have "pr_rxCallback (px s) \<noteq> None" using assms(3) PrGot by (simp add: fl_term_def fl_callback_def)
    ultimately show ?thesis using fl_step.pr_call [OF PrGot, of faulty True] by fastforce
  next
    case (PrCalled m b)
    from fl_step.pr_not_acked [OF PrCalled, of faulty] PrCalled show ?thesis by fastforce
  next
    case (PrRestart x)
    then show ?thesis by (intro restart [of x]) simp
  next
    case PrDone
    with assms(5) show ?thesis by simp
  qed
qed

lemma end_receiver_ex: "\<exists>err r'. end_receiver n r = (err, r')"
  by (simp add: end_receiver_def split_def)

lemma flow_termination_progress:
  assumes "fl_phase s" and "fl_empty s" and "fl_term s" and "tt_pc s \<noteq> TtIdle" and "\<nexists>err. tt_pc s = TtDone err"
  shows "\<exists>s'. fl_step faulty s s' \<and> (s', s) \<in> fl_order"
proof -
  have notify: "\<exists>b r. persistent_notify_empty (px s) = Return (b, r)"
    using assms(2) by (auto simp: fl_empty_def persistent_empty_inv_def persistent_notify_cases split: if_splits)
  have notified: "pr_terminationNotification (px s) \<Longrightarrow> tt_notified (tt_pc s)"
    using assms(3) by (simp add: fl_term_def fl_notified_def)
  have close: "\<exists>r. close_notification (px s) = Return r" if "\<not> tt_notified (tt_pc s)"
    using that notified by (auto simp: close_notification_def signal_close_def outcome_bind_Return)
  have buffer: "chan_close (pr_buffer (px s)) = Return ((pr_buffer (px s))\<lparr>chan_closed := True\<rparr>)" if "\<not> tt_closed (tt_pc s)"
    using that fl_phaseD(2) [OF assms(1)] by (simp add: chan_close_def)
  have complete: "pr_pc s = PrDone \<Longrightarrow> pr_terminationComplete (px s)" using fl_phaseD(4) [OF assms(1)] by simp
  have joined: ?thesis if "tt_pc s = TtJoin \<or> tt_pc s = TtJoinTimeout" "pr_pc s \<noteq> PrDone"
    using flow_run_progress [OF assms(1-3) that, of faulty] by (auto simp: fl_order_simps)
  show ?thesis
  proof (cases "tt_pc s")
    case TtMark
    from fl_step.tt_mark [OF TtMark, of faulty] TtMark show ?thesis by (fastforce simp: fl_order_simps)
  next
    case TtStop
    from fl_step.tt_stop [OF TtStop, of None faulty] TtStop show ?thesis by (fastforce simp: fl_order_simps)
  next
    case TtSignal
    from fl_step.tt_signal [OF TtSignal, of faulty] TtSignal show ?thesis by (fastforce simp: fl_order_simps)
  next
    case TtClose
    from fl_step.tt_close [OF TtClose buffer, of faulty] TtClose show ?thesis by (fastforce simp: fl_order_simps)
  next
    case TtFlag
    from fl_step.tt_flag [OF TtFlag, of faulty] TtFlag show ?thesis by (fastforce simp: fl_order_simps)
  next
    case TtLen
    obtain b r where "(if chan_len (pr_buffer (px s)) = 0 then persistent_notify_empty (px s) else Return (False, px s)) = Return (b, r)"
      using notify by (cases "chan_len (pr_buffer (px s)) = 0") auto
    from fl_step.tt_len [OF TtLen this, of faulty] TtLen show ?thesis by (fastforce simp: fl_order_simps)
  next
    case TtWait
    then obtain r where "close_notification (px s) = Return r" using close by auto
    from fl_step.tt_timeout [OF TtWait this, of faulty] TtWait show ?thesis by (fastforce simp: fl_order_simps)
  next
    case TtJoin
    obtain err r where ended: "end_receiver 0 (px s) = (err, r)" using end_receiver_ex by blast
    show ?thesis using TtJoin joined fl_step.tt_join [OF TtJoin complete ended, of faulty]
      by (cases "pr_pc s = PrDone") (fastforce simp: fl_order_simps)+
  next
    case TtJoinTimeout
    show ?thesis using TtJoinTimeout joined fl_step.tt_join_timeout [OF TtJoinTimeout complete, of faulty]
      by (cases "pr_pc s = PrDone") (fastforce simp: fl_order_simps)+
  next
    case (UtDestroy native)
    from fl_step.ut_destroy [OF UtDestroy, of faulty] UtDestroy show ?thesis by (fastforce simp: fl_order_simps)
  next
    case UtClose
    from fl_step.ut_close [OF UtClose buffer, of faulty] UtClose show ?thesis by (fastforce simp: fl_order_simps)
  next
    case UtFlag
    from fl_step.ut_flag [OF UtFlag, of faulty] UtFlag show ?thesis by (fastforce simp: fl_order_simps)
  next
    case UtSignal
    from fl_step.ut_signal [OF UtSignal, of faulty] UtSignal show ?thesis by (fastforce simp: fl_order_simps)
  next
    case UtNotify
    then obtain r where "close_notification (px s) = Return r" using close by auto
    from fl_step.ut_notify [OF UtNotify this, of faulty] UtNotify show ?thesis by (fastforce simp: fl_order_simps)
  next
    case (TtDrain n)
    have closed: "chan_closed (pr_buffer (px s))" using TtDrain fl_phaseD(2) [OF assms(1)] by simp
    show ?thesis
    proof (cases "items s")
      case Nil
      obtain b r where notify: "persistent_notify_empty (px s) = Return (b, r)" using notify by blast
      obtain err r' where ended: "end_receiver n r = (err, r')" using end_receiver_ex by blast
      from Nil closed have "chan_recv (pr_buffer (px s)) = Return (None, pr_buffer (px s))" by (simp add: chan_recv_None)
      from fl_step.tt_drained [OF TtDrain this notify ended, of faulty] TtDrain
      show ?thesis by (fastforce simp: fl_order_simps)
    next
      case (Cons m ms)
      then have "chan_recv (pr_buffer (px s)) = Return (Some m, (pr_buffer (px s))\<lparr>chan_items := ms\<rparr>)"
        by (simp add: chan_recv_def)
      from fl_step.tt_drain [OF TtDrain this, of faulty] TtDrain Cons show ?thesis by (fastforce simp: fl_order_simps)
    qed
  next
    case TtIdle
    with assms(4) show ?thesis by simp
  next
    case (TtDone err)
    with assms(5) show ?thesis by blast
  qed
qed

lemma fl_order_started: "(s', s) \<in> fl_order \<Longrightarrow> tt_pc s \<noteq> TtIdle \<Longrightarrow> tt_pc s' \<noteq> TtIdle"
  by (cases "tt_pc s") (auto simp: fl_order_simps)

lemma fl_reaches_Step: "fl_reaches faulty receivers pausers r s \<Longrightarrow> fl_step faulty s s' \<Longrightarrow> fl_reaches faulty receivers pausers r s'"
  unfolding fl_reaches_def by (meson rtranclp.rtrancl_into_rtrancl)

text \<open>
  The steps of a termination of a persistent receiver never get stuck: from every state that the receiver can reach after a
  termination has begun, asked for or forced, with messages in the buffer, a paused or never started dispatching goroutine,
  callbacks that panic and calls of \<^verbatim>\<open>ReceiveMessage\<close>, \<^verbatim>\<open>Pause\<close> and \<^verbatim>\<open>Resume\<close> in progress, there is a
  continuation in which they end, with the receiver terminated, its buffer closed and empty. The last step stands for all
  deferred calls. One of them, \<^verbatim>\<open>eventExecutor.AwaitTermination\<close>, waits for the callbacks of the executor, and is taken to return here; by
  \<open>executor_deadlock\<close> in theory \<open>Executor\<close> it need not. The timer may fire at any time, as it does in the code also for
  a negative grace period, against the documentation.
\<close>

proposition persistent_receiver_termination_ends:
  assumes "fl_reaches faulty receivers pausers r s" and "tt_pc s \<noteq> TtIdle"
  shows "\<exists>s' err. (fl_step faulty)\<^sup>*\<^sup>* s s' \<and> tt_pc s' = TtDone err \<and> fl_state s' = Terminated \<and>
           chan_closed (pr_buffer (px s')) \<and> items s' = []"
proof -
  have "wf fl_order" by (simp add: fl_order_def)
  then have "fl_reaches faulty receivers pausers r s \<longrightarrow> tt_pc s \<noteq> TtIdle \<longrightarrow>
      (\<exists>s' err. (fl_step faulty)\<^sup>*\<^sup>* s s' \<and> fl_reaches faulty receivers pausers r s' \<and> tt_pc s' = TtDone err)"
  proof (induction s)
    case (less s)
    show ?case
    proof (intro impI)
      assume s: "fl_reaches faulty receivers pausers r s" "tt_pc s \<noteq> TtIdle"
      show "\<exists>s' err. (fl_step faulty)\<^sup>*\<^sup>* s s' \<and> fl_reaches faulty receivers pausers r s' \<and> tt_pc s' = TtDone err"
      proof (cases "\<exists>err. tt_pc s = TtDone err")
        case False
        from flow_termination_progress [OF fl_reaches_phase [OF s(1)] fl_reaches_empty [OF s(1)] fl_reaches_term [OF s(1)] s(2) False]
        obtain s' where "fl_step faulty s s'" "(s', s) \<in> fl_order" by blast
        with less s show ?thesis
          by (meson converse_rtranclp_into_rtranclp fl_order_started fl_reaches_Step)
      qed (use s(1) in blast)
    qed
  qed
  with assms obtain s' err where s': "(fl_step faulty)\<^sup>*\<^sup>* s s'" "fl_reaches faulty receivers pausers r s'" "tt_pc s' = TtDone err"
    by blast
  then have "fl_state s' = Terminated \<and> chan_closed (pr_buffer (px s')) \<and> items s' = []"
    using fl_phaseD(1,2) [OF fl_reaches_phase [OF s'(2)]] fl_reaches_empty [OF s'(2)]
    by (simp add: fl_empty_def persistent_empty_inv_def)
  with s' show ?thesis by blast
qed

section \<open>Runs\<close>

definition sample_receiver_props :: persistentMessageReceiverProps where
  "sample_receiver_props =
     \<lparr>flowProperties = [], startupSubscriptions = [], endpoint = \<lparr>q_name = ''q'', q_durable = True, q_exclusive = False\<rparr>,
      bufferHighwater = 50, bufferLowwater = 40, props_doCreateMissingResource = False, props_doAutoAck = False,
      props_stateChangeListener = False\<rparr>"

definition sample_flow_receiver :: "nat persistentMessageReceiverImpl" where
  "sample_flow_receiver = (persistent_rx_construct sample_receiver_props)
     \<lparr>pr_lifecycle := lifecycle_construct\<lparr>lc_state := Started\<rparr>, internalFlow := Flow True\<rparr>"

lemma sample_flow_eq: "sample_flow_receiver =
  \<lparr>pr_lifecycle = lifecycle_construct\<lparr>lc_state := Started\<rparr>, pr_terminationListener = False, internalFlowStopped = 0,
   internalFlow = Flow True, internalFlowProperties = [], pr_queue = \<lparr>q_name = ''q'', q_durable = True, q_exclusive = False\<rparr>,
   doCreateMissingResources = False, doAutoAck = False, stateChangeListener = False, pr_subscriptions = [],
   outstandingSubscriptionEvents = {}, highwater = 50, lowwater = 40, pr_buffer = make_chan 510,
   pr_bufferClosed = 0, doPause = 0, doUnpause = make_chan 1, pauseInterrupt = make_chan 1,
   pr_bufferEmptyOnTerminateFlag = 0, pr_bufferEmptyOnTerminate = False, pr_terminationNotification = False,
   pr_terminationComplete = False, pr_rxCallbackSet = make_chan 1, pr_rxCallback = None, pr_terminationHandlerID = 0,
   pr_eventExecutor = NewExecutor, pr_termination_discarded = 0, duplicate_acks = 0\<rparr>"
  by (simp add: sample_flow_receiver_def sample_receiver_props_def persistent_rx_construct_def maxWindowSize_def)

lemma sample_flow_started: "pr_started sample_flow_receiver"
  unfolding pr_started_def
  by (intro exI [of _ sample_receiver_props] exI [of _ None] exI [of _ 0] exI [of _ "lifecycle_construct\<lparr>lc_state := Started\<rparr>"]
      exI [of _ False] exI [of _ "make_chan 1"] conjI)
    (simp_all add: sample_flow_receiver_def persistent_rx_construct_def Let_def)

definition sample_flow :: "nat fl_sys" where
  "sample_flow = fl_init 0 1 sample_flow_receiver"

lemma fl_then:
  "fl_step faulty s0 s1 \<Longrightarrow> s1 = s1' \<Longrightarrow> \<exists>s. (fl_step faulty)\<^sup>*\<^sup>* s1' s \<and> P s \<Longrightarrow> \<exists>s. (fl_step faulty)\<^sup>*\<^sup>* s0 s \<and> P s"
  by (meson converse_rtranclp_into_rtranclp)

lemma sample_flow_sys: "sample_flow =
  \<lparr>px = sample_flow_receiver, fc_pc = FcIdle, pr_pc = PrWait, rv_pcs = [], pz_pcs = [PzIdle], tt_pc = TtIdle,
   fl_arrived = [], fl_pushed = [], fl_taken = [], fl_refused = [], overflowed = [], fl_delivered = [], disposed = [], acked = []\<rparr>"
  by (simp add: sample_flow_def fl_init_def)

text \<open>A message is in the buffer when the session goes down.\<close>

lemmas fl_runs = sample_flow_eq chan_send_def chan_recv_def make_chan_def chan_len_def chan_close_def receiver_terminate_def
  terminate_def CompareAndSwap_def close_notification_def signal_close_def outcome_bind_Return try_send_def try_recv_def
  persistent_notify_cases end_receiver_def count_undelivered_def terminated_def drained_def

lemma interrupted_run:
  "\<exists>s. (fl_step False)\<^sup>*\<^sup>* sample_flow s \<and>
     (tt_pc s = TtDone (Some (persistent_IncompleteReception 1)) \<and> fl_arrived s = [7] \<and> drained (fl_taken s) = [7])"
  unfolding sample_flow_sys
  apply (rule fl_then, rule fc_enter [of _ _ 7], simp, simp)
  apply (rule fl_then, rule fc_pass, simp, simp add: fl_runs, simp)
  apply (rule fl_then, rule fc_push, simp, simp add: fl_runs, rule refl)
  apply (rule fl_then, rule fc_len, simp, simp add: fl_runs)
  apply (rule fl_then, rule tt_start [where pc = "UtDestroy True"], simp, simp add: fl_runs, simp, simp)
  apply (rule fl_then, rule ut_destroy, simp, simp)
  apply (rule fl_then, rule ut_close, simp, simp add: fl_runs, simp)
  apply (rule fl_then, rule ut_flag, simp, simp)
  apply (rule fl_then, rule ut_signal, simp, simp add: fl_runs)
  apply (rule fl_then, rule ut_notify, simp, simp add: fl_runs, simp)
  apply (rule fl_then, rule tt_drain, simp, simp add: fl_runs, simp)
  apply (rule fl_then, rule tt_drained, simp, simp add: fl_runs, simp add: fl_runs, simp add: fl_runs, simp)
  apply (intro exI conjI, rule rtranclp.rtrancl_refl)
  apply (simp_all add: drained_def)
  done

lemma resumed_run:
  "\<exists>s. (fl_step False)\<^sup>*\<^sup>* sample_flow s \<and> (pr_pc s = PrPaused \<and> pz_pcs s = [PzIdle] \<and> doPause (px s) = 0)"
  unfolding sample_flow_sys
  apply (rule fl_then, rule ra_set [of "Some 0"], simp, simp)
  apply (rule fl_then, rule ra_signal, simp, simp add: fl_runs, simp)
  apply (rule fl_then, rule pr_told [where cont = True], simp, simp add: fl_runs, simp)
  apply (rule fl_then, rule pz_pause [of 0], simp, simp, simp add: fl_runs, simp)
  apply (rule fl_then, rule pause_drain [of 0], simp, simp, simp)
  apply (rule fl_then, rule pause_store [of 0], simp, simp, simp)
  apply (rule fl_then, rule pause_send [of 0], simp, simp, simp)
  apply (rule fl_then, rule pr_top, simp, simp)
  apply (rule fl_then, rule pr_closed, simp, simp add: fl_runs)
  apply (rule fl_then, rule pz_resume [of 0], simp, simp, simp add: fl_runs, simp)
  apply (rule fl_then, rule resume_drain [of 0], simp, simp, simp)
  apply (rule fl_then, rule resume_store [of 0], simp, simp, simp)
  apply (rule fl_then, rule resume_send [of 0], simp, simp, simp)
  apply (intro exI conjI, rule rtranclp.rtrancl_refl)
  apply simp_all
  done

lemma sample_reaches: "(fl_step False)\<^sup>*\<^sup>* sample_flow s \<Longrightarrow> fl_reaches False 0 1 sample_flow_receiver s"
  by (simp add: fl_reaches_def sample_flow_started sample_flow_def)

theorem persistent_receiver_accounting_witness:
  "\<exists>s. fl_reaches False 0 1 sample_flow_receiver s \<and> fl_arrived s = [7] \<and>
     tt_pc s = TtDone (Some (persistent_IncompleteReception 1)) \<and> items s = [] \<and> pr_termination_discarded (px s) = length (fl_refused s) + 1"
proof -
  obtain s where s: "(fl_step False)\<^sup>*\<^sup>* sample_flow s" "tt_pc s = TtDone (Some (persistent_IncompleteReception 1))"
      "fl_arrived s = [7]" "drained (fl_taken s) = [7]"
    using interrupted_run by blast
  then show ?thesis using persistent_receiver_accounting [OF sample_reaches [OF s(1)]] sample_reaches [OF s(1)] by auto
qed

theorem flow_not_left_stopped_witness:
  "fl_reaches False 0 1 sample_flow_receiver sample_flow \<and> flow_at_rest sample_flow \<and>
     internalFlow (px sample_flow) = Flow True"
proof -
  have rest: "flow_at_rest sample_flow" "length (items sample_flow) < lowwater (px sample_flow)"
    by (simp_all add: flow_at_rest_def sample_flow_sys sample_flow_eq make_chan_def)
  have "fl_reaches False 0 1 sample_flow_receiver sample_flow" by (rule sample_reaches) (rule rtranclp.rtrancl_refl)
  with rest flow_not_left_stopped [OF this rest(1)] show ?thesis by blast
qed

theorem resumed_receiver_goes_on_witness:
  "\<exists>s s'. (fl_step False)\<^sup>*\<^sup>* sample_flow s \<and> pr_pc s = PrPaused \<and> fl_step False s s' \<and> pr_pc s' = PrCheck"
proof -
  obtain s where s: "(fl_step False)\<^sup>*\<^sup>* sample_flow s" "pr_pc s = PrPaused" "pz_pcs s = [PzIdle]" "doPause (px s) = 0"
    using resumed_run by blast
  then show ?thesis using resumed_receiver_goes_on [OF sample_reaches [OF s(1)] s(2)] by auto
qed

theorem persistent_receiver_termination_ends_witness:
  "\<exists>s s' err. fl_step False sample_flow s \<and> tt_pc s = TtMark \<and> (fl_step False)\<^sup>*\<^sup>* s s' \<and> tt_pc s' = TtDone err"
proof -
  obtain l where l: "receiver_terminate (pr_lifecycle (px sample_flow)) = (Proceed, l)"
    by (simp add: sample_flow_sys fl_runs)
  define s where "s = sample_flow\<lparr>px := (px sample_flow)\<lparr>pr_lifecycle := l\<rparr>, tt_pc := TtMark\<rparr>"
  have step: "fl_step False sample_flow s" unfolding s_def by (rule tt_start [OF _ l]) (simp_all add: sample_flow_sys)
  have "tt_pc s = TtMark" by (simp add: s_def)
  with step persistent_receiver_termination_ends [OF sample_reaches [OF r_into_rtranclp], OF step] show ?thesis by auto
qed

end
