(* ===== verification/Message_Data.thy ===== *)
theory Message_Data
  imports SDT Core_Errors
begin

text \<open>
  Structured data in messages: how the values of maps and streams are written into the containers of the C library
  (\<^verbatim>\<open>addItemToContainer\<close> in \<^verbatim>\<open>internal/impl/message/outbound_message_builder_impl.go\<close>), how they are read back
  (\<^verbatim>\<open>parseData\<close> in \<^verbatim>\<open>internal/impl/message/message_impl.go\<close>), and the wrappers in between
  (\<^verbatim>\<open>internal/ccsmp/ccsmp_container.go\<close>). A container is its type and the fields added to it with their names, in
  the order of the calls; a string that crosses to C ends at its first zero byte, and byte arrays are taken to be shorter than 2 GB bytes. Whether the C library accepts a call is an argument,
  which gives the answer to the call with a number; the calls are numbered in their order.
\<close>

section \<open>Containers\<close>

text \<open>The types of destinations and of fields of the C library.\<close>

datatype c_destination_type =
    SOLCLIENT_NULL_DESTINATION | SOLCLIENT_TOPIC_DESTINATION | SOLCLIENT_QUEUE_DESTINATION
  | SOLCLIENT_TOPIC_TEMP_DESTINATION | SOLCLIENT_QUEUE_TEMP_DESTINATION

datatype c_field =
    CBool bool | CUint8 u8 | CInt8 u8 | CUint16 u16 | CInt16 u16 | CUint32 u32 | CInt32 u32 | CUint64 u64 | CInt64 u64
  | CWchar u16 | CString string | CByteArray "u8 list" | CFloat u32 | CDouble u64
  | CMap "(string option \<times> c_field) list" | CStream "(string option \<times> c_field) list" | CNull
  | CDestination c_destination_type string | CSmf | CUnknown

type_synonym c_entry = "string option \<times> c_field"

datatype SolClientOpaqueContainerType = SolClientOpaqueContainerMap | SolClientOpaqueContainerStream

datatype SolClientContainerDestType = SolClientContainerDestQueue | SolClientContainerDestTopic

fun destTypeMappingFromCCSMP :: "c_destination_type \<Rightarrow> SolClientContainerDestType option" where
  "destTypeMappingFromCCSMP SOLCLIENT_TOPIC_DESTINATION = Some SolClientContainerDestTopic"
| "destTypeMappingFromCCSMP SOLCLIENT_TOPIC_TEMP_DESTINATION = Some SolClientContainerDestTopic"
| "destTypeMappingFromCCSMP SOLCLIENT_QUEUE_DESTINATION = Some SolClientContainerDestQueue"
| "destTypeMappingFromCCSMP SOLCLIENT_QUEUE_TEMP_DESTINATION = Some SolClientContainerDestQueue"
| "destTypeMappingFromCCSMP SOLCLIENT_NULL_DESTINATION = None"

fun destTypeMappingToCCSMP :: "SolClientContainerDestType \<Rightarrow> c_destination_type" where
  "destTypeMappingToCCSMP SolClientContainerDestTopic = SOLCLIENT_TOPIC_TEMP_DESTINATION"
| "destTypeMappingToCCSMP SolClientContainerDestQueue = SOLCLIENT_QUEUE_DESTINATION"

text \<open>\<^verbatim>\<open>C.CString\<close> copies the bytes; the C library reads them up to the first zero byte.\<close>

definition c_string :: "string \<Rightarrow> string" where
  "c_string s = takeWhile (\<lambda>c. c \<noteq> CHR 0x00) s"

text \<open>The name that a call gets: the key for a map, the null pointer for a stream.\<close>

definition cKey :: "SolClientOpaqueContainerType \<Rightarrow> string \<Rightarrow> string option" where
  "cKey Type key = (if Type = SolClientOpaqueContainerMap then Some (c_string key) else None)"

section \<open>The calls that add a field\<close>

text \<open>
  Each is one call of the C library in a container of type \<open>Type\<close>; the definitions say what is added when the call is
  accepted.
\<close>

definition ContainerAddBoolean :: "SolClientOpaqueContainerType \<Rightarrow> bool \<Rightarrow> string \<Rightarrow> c_entry" where
  "ContainerAddBoolean Type b key = (let boolValue = (if b then 1 else 0 :: u8) in (cKey Type key, CBool (boolValue \<noteq> 0)))"

definition ContainerAddUint8 :: "SolClientOpaqueContainerType \<Rightarrow> u8 \<Rightarrow> string \<Rightarrow> c_entry" where
  "ContainerAddUint8 Type val key = (cKey Type key, CUint8 val)"

definition ContainerAddUint16 :: "SolClientOpaqueContainerType \<Rightarrow> u16 \<Rightarrow> string \<Rightarrow> c_entry" where
  "ContainerAddUint16 Type val key = (cKey Type key, CUint16 val)"

definition ContainerAddUint32 :: "SolClientOpaqueContainerType \<Rightarrow> u32 \<Rightarrow> string \<Rightarrow> c_entry" where
  "ContainerAddUint32 Type val key = (cKey Type key, CUint32 val)"

definition ContainerAddUint64 :: "SolClientOpaqueContainerType \<Rightarrow> u64 \<Rightarrow> string \<Rightarrow> c_entry" where
  "ContainerAddUint64 Type val key = (cKey Type key, CUint64 val)"

definition ContainerAddInt8 :: "SolClientOpaqueContainerType \<Rightarrow> u8 \<Rightarrow> string \<Rightarrow> c_entry" where
  "ContainerAddInt8 Type val key = (cKey Type key, CInt8 val)"

definition ContainerAddInt16 :: "SolClientOpaqueContainerType \<Rightarrow> u16 \<Rightarrow> string \<Rightarrow> c_entry" where
  "ContainerAddInt16 Type val key = (cKey Type key, CInt16 val)"

definition ContainerAddInt32 :: "SolClientOpaqueContainerType \<Rightarrow> u32 \<Rightarrow> string \<Rightarrow> c_entry" where
  "ContainerAddInt32 Type val key = (cKey Type key, CInt32 val)"

definition ContainerAddInt64 :: "SolClientOpaqueContainerType \<Rightarrow> u64 \<Rightarrow> string \<Rightarrow> c_entry" where
  "ContainerAddInt64 Type val key = (cKey Type key, CInt64 val)"

definition ContainerAddString :: "SolClientOpaqueContainerType \<Rightarrow> string \<Rightarrow> string \<Rightarrow> c_entry" where
  "ContainerAddString Type val key = (cKey Type key, CString (c_string val))"

definition ContainerAddBytes :: "SolClientOpaqueContainerType \<Rightarrow> u8 list \<Rightarrow> string \<Rightarrow> c_entry" where
  "ContainerAddBytes Type val key = (if length val > 0 then (cKey Type key, CByteArray val) else (cKey Type key, CByteArray []))"

definition ContainerAddFloat32 :: "SolClientOpaqueContainerType \<Rightarrow> u32 \<Rightarrow> string \<Rightarrow> c_entry" where
  "ContainerAddFloat32 Type val key = (cKey Type key, CFloat val)"

definition ContainerAddFloat64 :: "SolClientOpaqueContainerType \<Rightarrow> u64 \<Rightarrow> string \<Rightarrow> c_entry" where
  "ContainerAddFloat64 Type val key = (cKey Type key, CDouble val)"

definition ContainerAddNil :: "SolClientOpaqueContainerType \<Rightarrow> string \<Rightarrow> c_entry" where
  "ContainerAddNil Type key = (cKey Type key, CNull)"

definition ContainerAddWChar :: "SolClientOpaqueContainerType \<Rightarrow> u16 \<Rightarrow> string \<Rightarrow> c_entry" where
  "ContainerAddWChar Type wchar key = (cKey Type key, CWchar wchar)"

definition ContainerAddDestination ::
    "SolClientOpaqueContainerType \<Rightarrow> string \<Rightarrow> SolClientContainerDestType \<Rightarrow> string \<Rightarrow> c_entry" where
  "ContainerAddDestination Type dest destType key = (cKey Type key, CDestination (destTypeMappingToCCSMP destType) (c_string dest))"

text \<open>The entry of a container that was opened inside another and closed.\<close>

definition ContainerOpenSubMap :: "SolClientOpaqueContainerType \<Rightarrow> string \<Rightarrow> c_entry list \<Rightarrow> c_entry" where
  "ContainerOpenSubMap Type key written = (cKey Type key, CMap written)"

definition ContainerOpenSubStream :: "SolClientOpaqueContainerType \<Rightarrow> string \<Rightarrow> c_entry list \<Rightarrow> c_entry" where
  "ContainerOpenSubStream Type key written = (cKey Type key, CStream written)"

lemmas container_defs =
  ContainerAddBoolean_def ContainerAddUint8_def ContainerAddUint16_def ContainerAddUint32_def ContainerAddUint64_def
  ContainerAddInt8_def ContainerAddInt16_def ContainerAddInt32_def ContainerAddInt64_def ContainerAddString_def
  ContainerAddBytes_def ContainerAddFloat32_def ContainerAddFloat64_def ContainerAddNil_def ContainerAddWChar_def
  ContainerAddDestination_def ContainerOpenSubMap_def ContainerOpenSubStream_def cKey_def

section \<open>Writing\<close>

datatype item_error = NativeItemError go_error | IllegalTypeError sdt_data

type_synonym c_answers = "nat \<Rightarrow> ErrorInfo option"

text \<open>The values that are written with one call.\<close>

fun simple_field :: "SolClientOpaqueContainerType \<Rightarrow> sdt_data \<Rightarrow> string \<Rightarrow> c_entry option" where
  "simple_field Type SNil key = Some (ContainerAddNil Type key)"
| "simple_field Type (SBool b) key = Some (ContainerAddBoolean Type b key)"
| "simple_field Type (SInt8 w) key = Some (ContainerAddInt8 Type w key)"
| "simple_field Type (SInt16 w) key = Some (ContainerAddInt16 Type w key)"
| "simple_field Type (SInt32 w) key = Some (ContainerAddInt32 Type w key)"
| "simple_field Type (SInt64 w) key = Some (ContainerAddInt64 Type w key)"
| "simple_field Type (SInt w) key = Some (ContainerAddInt64 Type w key)"
| "simple_field Type (SUint8 w) key = Some (ContainerAddUint8 Type w key)"
| "simple_field Type (SUint16 w) key = Some (ContainerAddUint16 Type w key)"
| "simple_field Type (SUint32 w) key = Some (ContainerAddUint32 Type w key)"
| "simple_field Type (SUint64 w) key = Some (ContainerAddUint64 Type w key)"
| "simple_field Type (SUint w) key = Some (ContainerAddUint64 Type w key)"
| "simple_field Type (SFloat32 w) key = Some (ContainerAddFloat32 Type w key)"
| "simple_field Type (SFloat64 w) key = Some (ContainerAddFloat64 Type w key)"
| "simple_field Type (SString s) key = Some (ContainerAddString Type s key)"
| "simple_field Type (SBytes bs) key = Some (ContainerAddBytes Type bs key)"
| "simple_field Type (SWChar w) key = Some (ContainerAddWChar Type w key)"
| "simple_field Type (STopic t) key = Some (ContainerAddDestination Type t SolClientContainerDestTopic key)"
| "simple_field Type (SQueue q) key = Some (ContainerAddDestination Type (queue_name q) SolClientContainerDestQueue key)"
| "simple_field Type _ key = None"

text \<open>A call of the C library with number \<open>n\<close>, and what follows when it is accepted.\<close>

definition item_call :: "c_answers \<Rightarrow> nat \<Rightarrow> (nat \<Rightarrow> item_error + 'a) \<Rightarrow> item_error + 'a" where
  "item_call lib n f = (case lib n of Some errInfo \<Rightarrow> Inl (NativeItemError (ToNativeError errInfo [])) | None \<Rightarrow> f (n + 1))"

text \<open>
  The results have what was added and the number of the next call. The items of a map come in the
  order in which \<^verbatim>\<open>range\<close> visits it.
\<close>

function (sequential) addItemToContainer ::
    "c_answers \<Rightarrow> SolClientOpaqueContainerType \<Rightarrow> sdt_data \<Rightarrow> string \<Rightarrow> nat \<Rightarrow> item_error + c_entry \<times> nat"
  and sdtMapToContainer :: "c_answers \<Rightarrow> SolClientOpaqueContainerType \<Rightarrow> sdt_map \<Rightarrow> nat \<Rightarrow> item_error + c_entry list \<times> nat"
  and sdtStreamToContainer ::
    "c_answers \<Rightarrow> SolClientOpaqueContainerType \<Rightarrow> sdt_data list \<Rightarrow> nat \<Rightarrow> item_error + c_entry list \<times> nat" where
  "addItemToContainer lib Type (SMap m) key n =
     item_call lib n (\<lambda>n. case sdtMapToContainer lib SolClientOpaqueContainerMap m n of
        Inl err \<Rightarrow> Inl err
      | Inr (written, n) \<Rightarrow> item_call lib n (\<lambda>n. Inr (ContainerOpenSubMap Type key written, n)))"
| "addItemToContainer lib Type (SStream xs) key n =
     item_call lib n (\<lambda>n. case sdtStreamToContainer lib SolClientOpaqueContainerStream xs n of
        Inl err \<Rightarrow> Inl err
      | Inr (written, n) \<Rightarrow> item_call lib n (\<lambda>n. Inr (ContainerOpenSubStream Type key written, n)))"
| "addItemToContainer lib Type item key n =
     (case simple_field Type item key of
        Some e \<Rightarrow> item_call lib n (\<lambda>n. Inr (e, n))
      | None \<Rightarrow> Inl (IllegalTypeError item))"
| "sdtMapToContainer lib Type [] n = Inr ([], n)"
| "sdtMapToContainer lib Type ((key, item) # rest) n =
     (case addItemToContainer lib Type item key n of
        Inl err \<Rightarrow> Inl err
      | Inr (e, n) \<Rightarrow>
          (case sdtMapToContainer lib Type rest n of
             Inl err \<Rightarrow> Inl err
           | Inr (written, n) \<Rightarrow> Inr (e # written, n)))"
| "sdtStreamToContainer lib Type [] n = Inr ([], n)"
| "sdtStreamToContainer lib Type (item # rest) n =
     (case addItemToContainer lib Type item [] n of
        Inl err \<Rightarrow> Inl err
      | Inr (e, n) \<Rightarrow>
          (case sdtStreamToContainer lib Type rest n of
             Inl err \<Rightarrow> Inl err
           | Inr (written, n) \<Rightarrow> Inr (e # written, n)))"
  by pat_completeness auto
termination
  by (relation "measure (\<lambda>x. case x of Inl (lib, Type, item, key, n) \<Rightarrow> size item
      | Inr (Inl (lib, Type, m, n)) \<Rightarrow> size_list (size_prod (\<lambda>_. 0) size) m
      | Inr (Inr (lib, Type, xs, n)) \<Rightarrow> size_list size xs)") auto

section \<open>Reading\<close>

text \<open>
  What \<^verbatim>\<open>GetData\<close> makes of a field: nothing for an unsupported one, otherwise a Go value, a container or a destination.
\<close>

datatype c_data =
    CGoValue sdt_data
  | COpaqueMap "c_entry list"
  | COpaqueStream "c_entry list"
  | CContainerDest string SolClientContainerDestType

fun GetData :: "c_field \<Rightarrow> c_data option" where
  "GetData (CBool b) = Some (CGoValue (SBool b))"
| "GetData (CUint8 w) = Some (CGoValue (SUint8 w))"
| "GetData (CInt8 w) = Some (CGoValue (SInt8 w))"
| "GetData (CUint16 w) = Some (CGoValue (SUint16 w))"
| "GetData (CInt16 w) = Some (CGoValue (SInt16 w))"
| "GetData (CUint32 w) = Some (CGoValue (SUint32 w))"
| "GetData (CInt32 w) = Some (CGoValue (SInt32 w))"
| "GetData (CUint64 w) = Some (CGoValue (SUint64 w))"
| "GetData (CInt64 w) = Some (CGoValue (SInt64 w))"
| "GetData (CString s) = Some (CGoValue (SString s))"
| "GetData (CByteArray bs) = Some (CGoValue (SBytes bs))"
| "GetData (CFloat w) = Some (CGoValue (SFloat32 w))"
| "GetData (CDouble w) = Some (CGoValue (SFloat64 w))"
| "GetData CNull = Some (CGoValue SNil)"
| "GetData (CWchar w) = Some (CGoValue (SWChar w))"
| "GetData (CMap m) = Some (COpaqueMap m)"
| "GetData (CStream xs) = Some (COpaqueStream xs)"
| "GetData (CDestination destType dest) =
     (case destTypeMappingFromCCSMP destType of None \<Rightarrow> None | Some t \<Rightarrow> Some (CContainerDest dest t))"
| "GetData CSmf = None"
| "GetData CUnknown = None"

text \<open>
  The loops over the fields of a container: the name of a field is read for a map only, a field that cannot be parsed is left
  out, and a key that comes again overwrites.
\<close>

definition entry_key :: "string option \<Rightarrow> string" where
  "entry_key name = (case name of Some key \<Rightarrow> key | None \<Rightarrow> [])"

function (sequential) parseData :: "c_field \<Rightarrow> sdt_data option"
  and parseMap :: "c_entry list \<Rightarrow> sdt_map \<Rightarrow> sdt_map"
  and parseStream :: "c_entry list \<Rightarrow> sdt_data list \<Rightarrow> sdt_data list" where
  "parseData (CMap m) = Some (SMap (parseMap m []))"
| "parseData (CStream xs) = Some (SStream (parseStream xs []))"
| "parseData f =
     (case GetData f of
        Some (CGoValue data) \<Rightarrow> Some data
      | Some (CContainerDest dest SolClientContainerDestQueue) \<Rightarrow> Some (SQueue (Queue dest True True))
      | Some (CContainerDest dest SolClientContainerDestTopic) \<Rightarrow> Some (STopic dest)
      | _ \<Rightarrow> None)"
| "parseMap [] m = m"
| "parseMap ((name, f) # rest) m =
     parseMap rest (case parseData f of Some data \<Rightarrow> AList.update (entry_key name) data m | None \<Rightarrow> m)"
| "parseStream [] s = s"
| "parseStream ((name, f) # rest) s = parseStream rest (case parseData f of Some data \<Rightarrow> s @ [data] | None \<Rightarrow> s)"
  by pat_completeness auto
termination
  by (relation "measure (\<lambda>x. case x of Inl f \<Rightarrow> size f | Inr (Inl (m, acc)) \<Rightarrow> size_list (size_prod (\<lambda>_. 0) size) m
      | Inr (Inr (xs, acc)) \<Rightarrow> size_list (size_prod (\<lambda>_. 0) size) xs)") auto

section \<open>What survives\<close>

text \<open>The data that can be sent: no unsupported type, no zero byte in a string, and the keys of a map are different.\<close>

fun sendable :: "sdt_data \<Rightarrow> bool" where
  "sendable (SOther t) \<longleftrightarrow> False"
| "sendable (SString s) \<longleftrightarrow> CHR 0x00 \<notin> set s"
| "sendable (STopic t) \<longleftrightarrow> CHR 0x00 \<notin> set t"
| "sendable (SQueue q) \<longleftrightarrow> CHR 0x00 \<notin> set (queue_name q)"
| "sendable (SMap m) \<longleftrightarrow> distinct (map fst m) \<and> (\<forall>(k, x) \<in> set m. CHR 0x00 \<notin> set k \<and> sendable x)"
| "sendable (SStream xs) \<longleftrightarrow> (\<forall>x \<in> set xs. sendable x)"
| "sendable _ \<longleftrightarrow> True"

text \<open>What comes back: integers of the machine's width have 64 bits, queues are durable and exclusive.\<close>

fun arrives :: "sdt_data \<Rightarrow> sdt_data" where
  "arrives (SInt w) = SInt64 w"
| "arrives (SUint w) = SUint64 w"
| "arrives (SQueue q) = SQueue (Queue (queue_name q) True True)"
| "arrives (SMap m) = SMap (map (\<lambda>(k, x). (k, arrives x)) m)"
| "arrives (SStream xs) = SStream (map arrives xs)"
| "arrives x = x"

lemma c_string_id [simp]: "CHR 0x00 \<notin> set s \<Longrightarrow> c_string s = s"
  unfolding c_string_def by (rule takeWhile_eq_all_conv [THEN iffD2]) auto

lemma item_call_Inr: "item_call lib n f = Inr r \<longleftrightarrow> lib n = None \<and> f (n + 1) = Inr r"
  by (auto simp: item_call_def split: option.splits)

lemma entry_key_cKey [simp]: "entry_key (cKey SolClientOpaqueContainerMap key) = c_string key"
  by (simp add: entry_key_def cKey_def)

text \<open>Every entry is named as its container demands.\<close>

lemma written_key: "addItemToContainer lib Type item key n = Inr (e, n') \<Longrightarrow> fst e = cKey Type key"
  by (cases item) (auto simp: item_call_Inr container_defs split: sum.splits if_splits)

lemma simple_arrives: "simple_field Type item key = Some e \<Longrightarrow> sendable item \<Longrightarrow> parseData (snd e) = Some (arrives item)"
  by (cases item) (auto simp: container_defs split: if_splits)

lemma written_arrives:
  "addItemToContainer lib Type item key n = Inr (e, n') \<Longrightarrow> sendable item \<Longrightarrow> parseData (snd e) = Some (arrives item)"
  "sdtMapToContainer lib Type m n = Inr (fs, n') \<Longrightarrow> Type = SolClientOpaqueContainerMap \<Longrightarrow> sendable (SMap m) \<Longrightarrow>
     fst ` set acc \<inter> fst ` set m = {} \<Longrightarrow> parseMap fs acc = acc @ map (\<lambda>(k, x). (k, arrives x)) m"
  "sdtStreamToContainer lib Type xs n = Inr (gs, n') \<Longrightarrow> sendable (SStream xs) \<Longrightarrow> parseStream gs acc' = acc' @ map arrives xs"
proof (induction lib Type item key n and lib Type m n and lib Type xs n arbitrary: e n' and fs n' acc and gs n' acc'
    rule: addItemToContainer_sdtMapToContainer_sdtStreamToContainer.induct)
  case (1 lib Type m key n)
  then show ?case by (fastforce simp: item_call_Inr ContainerOpenSubMap_def split: sum.splits)
next
  case (2 lib Type xs key n)
  then show ?case by (fastforce simp: item_call_Inr ContainerOpenSubStream_def split: sum.splits)
qed (auto simp: item_call_Inr container_defs update_fresh entry_key_def split: sum.splits prod.splits if_splits dest!: written_key)

definition item_error_ok :: "c_answers \<Rightarrow> bool \<Rightarrow> item_error \<Rightarrow> bool" where
  "item_error_ok lib ok err \<longleftrightarrow> (case err of
     NativeItemError e \<Rightarrow> \<exists>k errInfo. lib k = Some errInfo \<and> e = ToNativeError errInfo []
   | IllegalTypeError d \<Rightarrow> \<not> ok \<and> (\<exists>t. d = SOther t))"

lemma item_error_mono: "item_error_ok lib ok err \<Longrightarrow> (ok' \<Longrightarrow> ok) \<Longrightarrow> item_error_ok lib ok' err"
  by (auto simp: item_error_ok_def split: item_error.splits)

lemma item_error_conj: "item_error_ok lib a err \<or> item_error_ok lib b err \<Longrightarrow> item_error_ok lib (a \<and> b) err"
  using item_error_mono by blast

lemma item_call_Inl: "item_call lib n f = Inl err \<Longrightarrow> item_error_ok lib ok err \<or> f (n + 1) = Inl err"
proof (cases "lib n")
  case (Some errInfo)
  assume "item_call lib n f = Inl err"
  with Some show ?thesis unfolding item_call_def item_error_ok_def by auto blast
qed (simp add: item_call_def)

lemma simple_error: "simple_field Type item key = Some e \<Longrightarrow> item_call lib n (\<lambda>n. Inr (e, n)) = Inl err \<Longrightarrow> item_error_ok lib ok err"
  using item_call_Inl by fastforce

lemma write_errors:
  "addItemToContainer lib Type item key n = Inl err \<Longrightarrow> item_error_ok lib (sendable item) err"
  "sdtMapToContainer lib Type m n = Inl err \<Longrightarrow> item_error_ok lib (\<forall>(k, x) \<in> set m. sendable x) err"
  "sdtStreamToContainer lib Type xs n = Inl err \<Longrightarrow> item_error_ok lib (\<forall>x \<in> set xs. sendable x) err"
proof (induction lib Type item key n and lib Type m n and lib Type xs n arbitrary: err and err and err
    rule: addItemToContainer_sdtMapToContainer_sdtStreamToContainer.induct)
  case (1 lib Type m key n)
  show ?case
  proof (cases "item_error_ok lib (sendable (SMap m)) err")
    case False
    then have "sdtMapToContainer lib SolClientOpaqueContainerMap m (n + 1) = Inl err"
      using 1(2) by (auto dest!: item_call_Inl [where ok = "sendable (SMap m)"] split: sum.splits)
    then show ?thesis by (rule item_error_mono [OF 1(1)]) auto
  qed
next
  case (2 lib Type xs key n)
  show ?case
  proof (cases "item_error_ok lib (sendable (SStream xs)) err")
    case False
    then have "sdtStreamToContainer lib SolClientOpaqueContainerStream xs (n + 1) = Inl err"
      using 2(2) by (auto dest!: item_call_Inl [where ok = "sendable (SStream xs)"] split: sum.splits)
    then show ?thesis by (rule item_error_mono [OF 2(1)]) auto
  qed
qed (auto dest: item_call_Inl intro!: item_error_conj simp: item_error_ok_def [of _ _ "IllegalTypeError _"] split: sum.splits)

text \<open>
  C12. Structured data survives the way through a message. Whatever the C library answers to the calls that write a value,
  nested to any depth: when they succeed and the value can be sent, reading what was written gives the value
  back, with integers of the machine's width as 64-bit integers and queues as durable exclusive ones; when
  they fail, the error is that of a call that was refused, or names a value of an unsupported type; so a value that can be
  sent is written when no call is refused.
\<close>

proposition structured_data_roundtrip:
  "case addItemToContainer lib Type item key n of
     Inr ((name, f), n') \<Rightarrow> name = cKey Type key \<and> (sendable item \<longrightarrow> parseData f = Some (arrives item))
   | Inl (NativeItemError e) \<Rightarrow> \<exists>k errInfo. lib k = Some errInfo \<and> e = ToNativeError errInfo []
   | Inl (IllegalTypeError d) \<Rightarrow> \<not> sendable item \<and> (\<exists>t. d = SOther t)"
  using written_arrives(1) [of lib Type item key n] written_key [of lib Type item key n] write_errors(1) [of lib Type item key n]
  by (fastforce simp: item_error_ok_def split: sum.splits item_error.splits)

theorem structured_data_roundtrip_witness:
  "\<exists>f n. addItemToContainer (\<lambda>_. None) SolClientOpaqueContainerStream
     (SMap [(''a'', SInt 7), (''b'', SStream [SNil, SQueue (Queue ''q'' False False), STopic ''t'']), (''c'', SBytes [0, 1])]) [] 0 =
       Inr ((None, f), n) \<and>
     parseData f = Some (SMap [(''a'', SInt64 7), (''b'', SStream [SNil, SQueue (Queue ''q'' True True), STopic ''t'']), (''c'', SBytes [0, 1])])"
proof -
  let ?x = "SMap [(''a'', SInt 7), (''b'', SStream [SNil, SQueue (Queue ''q'' False False), STopic ''t'']), (''c'', SBytes [0, 1])]"
  have "sendable ?x" by simp
  then obtain f n where "addItemToContainer (\<lambda>_. None) SolClientOpaqueContainerStream ?x [] 0 = Inr ((None, f), n)"
      and "parseData f = Some (arrives ?x)"
    using structured_data_roundtrip [where lib = "\<lambda>_. None" and Type = SolClientOpaqueContainerStream and item = ?x and key = "[]" and n = 0]
    by (auto simp del: addItemToContainer.simps sendable.simps arrives.simps simp: cKey_def split: sum.splits item_error.splits)
  then show ?thesis by (auto simp del: addItemToContainer.simps)
qed

end
