(* ===== verification/Messages.thy ===== *)
theory Messages
  imports Message_Data Validation "HOL-Library.Signed_Division"
begin

text \<open>
  Messages (\<^verbatim>\<open>internal/impl/message\<close>): the builder of outbound messages with the properties it sets and the payloads,
  the messages themselves with their disposal, and what inbound messages give back. A message is the list of
  the setter calls that the C library accepted (\<^verbatim>\<open>internal/ccsmp/ccsmp_message.go\<close>), its user property
  map and its payload. A property map lists its entries in the order in which \<^verbatim>\<open>range\<close> visits them.
\<close>

section \<open>Property values\<close>

text \<open>
  A time is its seconds and nanoseconds since 1970; every other value is one of structured data, with the types that
  are not allowed there as \<open>SOther\<close>.
\<close>

datatype go_time = Time (Unix: u64) (nanosecond: u64)

datatype prop_value = PTime go_time | PData sdt_data

type_synonym message_property_map = "(string \<times> prop_value) list"

definition UnixNano :: "go_time \<Rightarrow> u64" where
  "UnixNano t = Unix t * 1000000000 + nanosecond t"

text \<open>\<^verbatim>\<open>time.Unix\<close> of milliseconds, whose quotient and remainder are cut towards zero.\<close>

definition time_of_millis :: "u64 \<Rightarrow> go_time" where
  "time_of_millis ms =
     (let sec = sint ms sdiv 1000; nsec = (sint ms smod 1000) * 1000000
      in if nsec < 0 then Time (word_of_int (sec - 1)) (word_of_int (nsec + 1000000000))
         else Time (word_of_int sec) (word_of_int nsec))"

text \<open>The value of the bits of a \<^verbatim>\<open>float64\<close>; infinities and NaN become values that fit no integer.\<close>

definition float_value :: "u64 \<Rightarrow> go_value" where
  "float_value w =
     (let s = (if sint w < 0 then - 1 else 1);
          e = uint w div 2 ^ 52 mod 2 ^ 11;
          f = uint w mod 2 ^ 52
      in if e = 0 then VFloat64 (s * f) (- 1074) else VFloat64 (s * (2 ^ 52 + f)) (e - 1075))"

text \<open>The dynamic types as the validators see them.\<close>

fun go_of_data :: "sdt_data \<Rightarrow> go_value" where
  "go_of_data SNil = VNil"
| "go_of_data (SBool b) = VBool b"
| "go_of_data (SInt w) = VInt w"
| "go_of_data (SInt8 w) = VOther ''int8''"
| "go_of_data (SInt16 w) = VOther ''int16''"
| "go_of_data (SInt32 w) = VInt32 w"
| "go_of_data (SInt64 w) = VInt64 w"
| "go_of_data (SUint w) = VUint w"
| "go_of_data (SUint8 w) = VOther ''uint8''"
| "go_of_data (SUint16 w) = VOther ''uint16''"
| "go_of_data (SUint32 w) = VUint32 w"
| "go_of_data (SUint64 w) = VUint64 w"
| "go_of_data (SFloat32 w) = VOther ''float32''"
| "go_of_data (SFloat64 w) = float_value w"
| "go_of_data (SString s) = VString s"
| "go_of_data (SWChar w) = VOther ''sdt.WChar''"
| "go_of_data (SBytes bs) = VOther ''[]uint8''"
| "go_of_data (SMap m) = VOther ''sdt.Map''"
| "go_of_data (SStream xs) = VOther ''sdt.Stream''"
| "go_of_data (SQueue q) = VOther ''*resource.Queue''"
| "go_of_data (STopic t) = VOther ''*resource.Topic''"
| "go_of_data (SOther t) = VOther t"

fun go_of :: "prop_value \<Rightarrow> go_value" where
  "go_of (PTime t) = VOther ''time.Time''"
| "go_of (PData d) = go_of_data d"

fun data_of :: "prop_value \<Rightarrow> sdt_data" where
  "data_of (PTime t) = SOther ''time.Time''"
| "data_of (PData d) = d"

section \<open>Messages\<close>

text \<open>The setter calls, with their arguments at the width of C.\<close>

datatype message_set =
    SetExpiration u64 | SetPriority u32 | SetHTTPContentType string | SetHTTPContentEncoding string
  | SetApplicationMessageType string | SetApplicationMessageID string | SetElidingEligible bool
  | SetCorrelationID string | SetTimeToLive u64 | SetDMQEligible bool | SetAckImmediately bool
  | SetSequenceNumber u64 | SetClassOfService u32 | SetSenderID string
  | SetDestination c_destination_type string | SetReplyTo c_destination_type string | SetAsReply bool
  | SetDeliveryMode u32 | SetCorrelationTag "u8 list" | SetBaggage string | DeleteBaggage
  | SetCreationTraceID "u8 list" | SetCreationSpanID "u8 list" | SetCreationSampled bool | SetCreationTraceState string
  | SetTransportTraceID "u8 list" | SetTransportSpanID "u8 list" | SetTransportSampled bool | SetTransportTraceState string

datatype message_payload =
    PayloadBytes "u8 list" | PayloadString string | PayloadMap "c_entry list" | PayloadStream "c_entry list"

record outbound_message =
  message_sets :: "message_set list"
  user_properties :: "c_entry list option"
  message_payload :: "message_payload option"
  message_disposed :: bool
  message_frees :: nat

definition NewOutboundMessage :: "ErrorInfo option \<Rightarrow> go_error + outbound_message" where
  "NewOutboundMessage alloc =
     (case alloc of
        Some err \<Rightarrow> Inl (ToNativeError err ''error allocating message: '')
      | None \<Rightarrow> Inr \<lparr>message_sets = [], user_properties = None, message_payload = None, message_disposed = False, message_frees = 0\<rparr>)"

text \<open>The compare-and-swap lets one call free the message; the finalizer is removed with it.\<close>

definition outbound_Dispose :: "outbound_message \<Rightarrow> outbound_message" where
  "outbound_Dispose m =
     (if \<not> message_disposed m then m\<lparr>message_disposed := True, message_frees := message_frees m + 1\<rparr> else m)"

text \<open>What the finalizer does when the collector finds the message, if it is still set.\<close>

definition outbound_finalize :: "outbound_message \<Rightarrow> outbound_message" where
  "outbound_finalize m = (if message_disposed m then m else m\<lparr>message_frees := message_frees m + 1\<rparr>)"

definition DuplicateOutboundMessage :: "ErrorInfo option \<Rightarrow> outbound_message \<Rightarrow> go_error + outbound_message" where
  "DuplicateOutboundMessage dup m =
     (case dup of
        Some err \<Rightarrow> Inl (ToNativeError err ''error duplicating message: '')
      | None \<Rightarrow> Inr (m\<lparr>message_disposed := False, message_frees := 0\<rparr>))"

text \<open>A setter call and the translation of its error.\<close>

definition message_setter ::
    "ErrorInfo option \<Rightarrow> string \<Rightarrow> message_set \<Rightarrow> outbound_message \<Rightarrow> go_error option \<times> outbound_message" where
  "message_setter answer prefix s m =
     (case answer of
        Some err \<Rightarrow> (Some (ToNativeError err prefix), m)
      | None \<Rightarrow> (None, m\<lparr>message_sets := message_sets m @ [s]\<rparr>))"

definition AttachCorrelationTag :: "ErrorInfo option \<Rightarrow> outbound_message \<Rightarrow> u8 list \<Rightarrow> go_error option \<times> outbound_message" where
  "AttachCorrelationTag answer m bytes =
     (if length bytes > 0 then message_setter answer ''error attaching correlation key: '' (SetCorrelationTag bytes) m
      else (None, m))"

definition message_SetDeliveryMode :: "ErrorInfo option \<Rightarrow> outbound_message \<Rightarrow> u32 \<Rightarrow> go_error option \<times> outbound_message" where
  "message_SetDeliveryMode answer m deliveryMode =
     message_setter answer ''error setting delivery mode: '' (SetDeliveryMode deliveryMode) m"

definition message_SetDestination :: "ErrorInfo option \<Rightarrow> outbound_message \<Rightarrow> string \<Rightarrow> go_error option \<times> outbound_message" where
  "message_SetDestination answer m destName =
     message_setter answer ''error setting destination: '' (SetDestination SOLCLIENT_TOPIC_DESTINATION (c_string destName)) m"

definition message_SetReplyToDestination ::
    "ErrorInfo option \<Rightarrow> outbound_message \<Rightarrow> string \<Rightarrow> go_error option \<times> outbound_message" where
  "message_SetReplyToDestination answer m destName =
     message_setter answer ''error setting replyTo destination: '' (SetReplyTo SOLCLIENT_TOPIC_DESTINATION (c_string destName)) m"

definition message_SetCorrelationID :: "ErrorInfo option \<Rightarrow> outbound_message \<Rightarrow> string \<Rightarrow> go_error option \<times> outbound_message" where
  "message_SetCorrelationID answer m correlationID =
     message_setter answer ''error setting correlationID: '' (SetCorrelationID (c_string correlationID)) m"

definition message_SetAckImmediately :: "ErrorInfo option \<Rightarrow> outbound_message \<Rightarrow> go_error option \<times> outbound_message" where
  "message_SetAckImmediately answer m =
     message_setter answer ''error setting ack immediately: '' (SetAckImmediately True) m"

text \<open>The three calls of a reply, each made only when the one before was accepted.\<close>

definition SetAsReplyMessage ::
    "(nat \<Rightarrow> ErrorInfo option) \<Rightarrow> outbound_message \<Rightarrow> string \<Rightarrow> string \<Rightarrow> go_error option \<times> outbound_message" where
  "SetAsReplyMessage lib m replyToDestination correlationID =
     (case message_SetDestination (lib 0) m replyToDestination of
        (Some err, m) \<Rightarrow> (Some err, m)
      | (None, m) \<Rightarrow>
          (case message_SetCorrelationID (lib 1) m correlationID of
             (Some err, m) \<Rightarrow> (Some err, m)
           | (None, m) \<Rightarrow> message_setter (lib 2) ''error setting as reply message header: '' (SetAsReply True) m))"

section \<open>Setting properties\<close>

definition MessagePropertyApplicationMessageType :: string where
  "MessagePropertyApplicationMessageType = ''solace.messaging.message.application-message-type''"
definition MessagePropertyApplicationMessageID :: string where
  "MessagePropertyApplicationMessageID = ''solace.messaging.message.application-message-id''"
definition MessagePropertyElidingEligible :: string where
  "MessagePropertyElidingEligible = ''solace.messaging.message.eliding-eligible''"
definition MessagePropertyPriority :: string where
  "MessagePropertyPriority = ''solace.messaging.message.priority''"
definition MessagePropertyHTTPContentType :: string where
  "MessagePropertyHTTPContentType = ''solace.messaging.message.http-content''"
definition MessagePropertyHTTPContentEncoding :: string where
  "MessagePropertyHTTPContentEncoding = ''solace.messaging.message.http-encoding''"
definition MessagePropertyCorrelationID :: string where
  "MessagePropertyCorrelationID = ''solace.messaging.message.correlation-id''"
definition MessagePropertyPersistentTimeToLive :: string where
  "MessagePropertyPersistentTimeToLive = ''solace.messaging.message.persistent.time-to-live''"
definition MessagePropertyPersistentExpiration :: string where
  "MessagePropertyPersistentExpiration = ''solace.messaging.message.persistent.expiration''"
definition MessagePropertyPersistentDMQEligible :: string where
  "MessagePropertyPersistentDMQEligible = ''solace.messaging.message.persistent.dmq-eligible''"
definition MessagePropertyPersistentAckImmediately :: string where
  "MessagePropertyPersistentAckImmediately = ''solace.messaging.message.persistent.ack-immediately''"
definition MessagePropertySequenceNumber :: string where
  "MessagePropertySequenceNumber = ''solace.messaging.message.persistent.sequence-number''"
definition MessagePropertyClassOfService :: string where
  "MessagePropertyClassOfService = ''solace.messaging.message.class-of-service''"
definition MessagePropertySenderID :: string where
  "MessagePropertySenderID = ''solace.messaging.message.sender-id''"

lemmas message_property_defs =
  MessagePropertyApplicationMessageType_def MessagePropertyApplicationMessageID_def MessagePropertyElidingEligible_def
  MessagePropertyPriority_def MessagePropertyHTTPContentType_def MessagePropertyHTTPContentEncoding_def
  MessagePropertyCorrelationID_def MessagePropertyPersistentTimeToLive_def MessagePropertyPersistentExpiration_def
  MessagePropertyPersistentDMQEligible_def MessagePropertyPersistentAckImmediately_def MessagePropertySequenceNumber_def
  MessagePropertyClassOfService_def MessagePropertySenderID_def

text \<open>
  One case of the switch: the value that the validator gives with whether it is present and its error, and the setter
  call made with it; nothing for a property that the switch does not name.
\<close>

type_synonym setting = "message_set \<times> bool \<times> go_error option"

definition setting_of :: "('a \<Rightarrow> message_set) \<Rightarrow> 'a \<times> bool \<times> go_error option \<Rightarrow> setting option" where
  "setting_of set_call v = (case v of (propValue, present, err) \<Rightarrow> Some (set_call propValue, present, err))"

definition expiration_value :: "prop_value \<Rightarrow> go_value" where
  "expiration_value value = (case value of PTime t \<Rightarrow> VInt64 (word_of_int (sint (UnixNano t) sdiv 1000000)) | PData d \<Rightarrow> go_of_data d)"

definition message_setting :: "(int \<Rightarrow> int \<Rightarrow> u64) \<Rightarrow> string \<Rightarrow> prop_value \<Rightarrow> setting option" where
  "message_setting oor property value =
     (if property = MessagePropertyPersistentExpiration
        then setting_of SetExpiration (Int64PropertyValidation MessagePropertyPersistentExpiration (expiration_value value))
      else if property = MessagePropertyPriority
        then setting_of (\<lambda>i. SetPriority (ucast i)) (IntegerPropertyValidationWithRange oor MessagePropertyPriority (go_of value) 0 255)
      else if property = MessagePropertyHTTPContentType
        then setting_of (\<lambda>s. SetHTTPContentType (c_string s)) (StringPropertyValidation MessagePropertyHTTPContentType (go_of value) [])
      else if property = MessagePropertyHTTPContentEncoding
        then setting_of (\<lambda>s. SetHTTPContentEncoding (c_string s)) (StringPropertyValidation MessagePropertyHTTPContentEncoding (go_of value) [])
      else if property = MessagePropertyApplicationMessageType
        then setting_of (\<lambda>s. SetApplicationMessageType (c_string s)) (StringPropertyValidation MessagePropertyApplicationMessageType (go_of value) [])
      else if property = MessagePropertyApplicationMessageID
        then setting_of (\<lambda>s. SetApplicationMessageID (c_string s)) (StringPropertyValidation MessagePropertyApplicationMessageID (go_of value) [])
      else if property = MessagePropertyElidingEligible
        then setting_of SetElidingEligible (BooleanPropertyValidation MessagePropertyElidingEligible (go_of value))
      else if property = MessagePropertyCorrelationID
        then setting_of (\<lambda>s. SetCorrelationID (c_string s)) (StringPropertyValidation MessagePropertyCorrelationID (go_of value) [])
      else if property = MessagePropertyPersistentTimeToLive
        then setting_of SetTimeToLive (Int64PropertyValidation MessagePropertyPersistentTimeToLive (go_of value))
      else if property = MessagePropertyPersistentDMQEligible
        then setting_of SetDMQEligible (BooleanPropertyValidation MessagePropertyPersistentDMQEligible (go_of value))
      else if property = MessagePropertyPersistentAckImmediately
        then setting_of SetAckImmediately (BooleanPropertyValidation MessagePropertyPersistentDMQEligible (go_of value))
      else if property = MessagePropertySequenceNumber
        then setting_of SetSequenceNumber (Uint64PropertyValidation MessagePropertySequenceNumber (go_of value))
      else if property = MessagePropertyClassOfService
        then setting_of (\<lambda>i. SetClassOfService (ucast i)) (IntegerPropertyValidation oor MessagePropertyClassOfService (go_of value))
      else if property = MessagePropertySenderID
        then setting_of (\<lambda>s. SetSenderID (c_string s)) (StringPropertyValidation MessagePropertySenderID (go_of value) [])
      else None)"

text \<open>The loop over the properties: the setter calls made, the user properties gathered, and the number of the next call.\<close>

fun properties_loop ::
    "(int \<Rightarrow> int \<Rightarrow> u64) \<Rightarrow> c_answers \<Rightarrow> message_property_map \<Rightarrow> nat \<Rightarrow> message_set list \<Rightarrow> sdt_map
       \<Rightarrow> item_error + message_set list \<times> sdt_map \<times> nat" where
  "properties_loop oor lib [] n sets userProperties = Inr (sets, userProperties, n)"
| "properties_loop oor lib ((property, value) # rest) n sets userProperties =
     (case message_setting oor property value of
        None \<Rightarrow> properties_loop oor lib rest n sets (userProperties @ [(property, data_of value)])
      | Some (s, present, err) \<Rightarrow>
          if present
          then (case err of
                  Some e \<Rightarrow> Inl (NativeItemError e)
                | None \<Rightarrow>
                    (case lib n of
                       Some errInfo \<Rightarrow> Inl (NativeItemError (ToNativeError errInfo ''encountered error while allocating message: ''))
                     | None \<Rightarrow> properties_loop oor lib rest (n + 1) (sets @ [s]) userProperties))
          else properties_loop oor lib rest n sets userProperties)"

text \<open>The user properties: the map of the message is looked up, created when there is none, filled and closed.\<close>

definition userPropertiesContainer :: "c_answers \<Rightarrow> nat \<Rightarrow> c_entry list option \<Rightarrow> item_error + c_entry list \<times> nat" where
  "userPropertiesContainer lib n present =
     (case lib n of
        None \<Rightarrow> Inr (case present of Some written \<Rightarrow> written | None \<Rightarrow> [], n + 1)
      | Some errInfo \<Rightarrow>
          if ReturnCode errInfo = SolClientReturnCodeNotFound then item_call lib (n + 1) (\<lambda>n. Inr ([], n))
          else Inl (NativeItemError (ToNativeError errInfo [])))"

definition SetProperties ::
    "(int \<Rightarrow> int \<Rightarrow> u64) \<Rightarrow> c_answers \<Rightarrow> outbound_message \<Rightarrow> message_property_map \<Rightarrow> nat
       \<Rightarrow> item_error + outbound_message \<times> nat" where
  "SetProperties oor lib m properties n =
     (case properties_loop oor lib properties n [] [] of
        Inl err \<Rightarrow> Inl err
      | Inr (sets, userProperties, n) \<Rightarrow>
          (let m = m\<lparr>message_sets := message_sets m @ sets\<rparr>
           in if length userProperties > 0
              then (case userPropertiesContainer lib n (user_properties m) of
                      Inl err \<Rightarrow> Inl err
                    | Inr (before, n) \<Rightarrow>
                        (case sdtMapToContainer lib SolClientOpaqueContainerMap userProperties n of
                           Inl err \<Rightarrow> Inl err
                         | Inr (written, n) \<Rightarrow>
                             item_call lib n (\<lambda>n. Inr (m\<lparr>user_properties := Some (before @ written)\<rparr>, n))))
              else Inr (m, n)))"

section \<open>The builder\<close>

definition mergeMessagePropertyMap :: "message_property_map \<Rightarrow> message_property_map option \<Rightarrow> message_property_map" where
  "mergeMessagePropertyMap original new =
     (case new of None \<Rightarrow> original | Some props \<Rightarrow> fold (\<lambda>(key, value) m. AList.update key value m) props original)"

text \<open>
  \<open>visit\<close> is the order in which \<^verbatim>\<open>range\<close> goes through a map. The first call, number 0, allocates the message.
\<close>

definition build ::
    "(int \<Rightarrow> int \<Rightarrow> u64) \<Rightarrow> (message_property_map \<Rightarrow> message_property_map) \<Rightarrow> c_answers \<Rightarrow> message_property_map
       \<Rightarrow> message_property_map option list \<Rightarrow> item_error + outbound_message \<times> nat" where
  "build oor visit lib builder additionalConfiguration =
     (case NewOutboundMessage (lib 0) of
        Inl err \<Rightarrow> Inl (NativeItemError err)
      | Inr msg \<Rightarrow>
          (let properties = fold (\<lambda>new original. mergeMessagePropertyMap original new) additionalConfiguration builder;
               properties = (case map_of properties MessagePropertyPersistentDMQEligible of
                               None \<Rightarrow> AList.update MessagePropertyPersistentDMQEligible (PData (SBool True)) properties
                             | Some _ \<Rightarrow> properties)
           in SetProperties oor lib msg (visit properties) 1))"

definition allocation_call :: "c_answers \<Rightarrow> nat \<Rightarrow> (nat \<Rightarrow> item_error + 'a) \<Rightarrow> item_error + 'a" where
  "allocation_call lib n f =
     (case lib n of
        Some errInfo \<Rightarrow> Inl (NativeItemError (ToNativeError errInfo ''encountered error while allocating message: ''))
      | None \<Rightarrow> f (n + 1))"

definition BuildWithByteArrayPayload where
  "BuildWithByteArrayPayload oor visit lib builder payload additionalConfiguration =
     (case build oor visit lib builder additionalConfiguration of
        Inl err \<Rightarrow> Inl err
      | Inr (msg, n) \<Rightarrow> allocation_call lib n (\<lambda>n. Inr (msg\<lparr>message_payload := Some (PayloadBytes payload)\<rparr>)))"

definition BuildWithStringPayload where
  "BuildWithStringPayload oor visit lib builder payload additionalConfiguration =
     (case build oor visit lib builder additionalConfiguration of
        Inl err \<Rightarrow> Inl err
      | Inr (msg, n) \<Rightarrow> allocation_call lib n (\<lambda>n. Inr (msg\<lparr>message_payload := Some (PayloadString (c_string payload))\<rparr>)))"

definition BuildWithMapPayload where
  "BuildWithMapPayload oor visit lib builder payload additionalConfiguration =
     (case build oor visit lib builder additionalConfiguration of
        Inl err \<Rightarrow> Inl err
      | Inr (msg, n) \<Rightarrow>
          item_call lib n (\<lambda>n. case sdtMapToContainer lib SolClientOpaqueContainerMap payload n of
             Inl err \<Rightarrow> Inl err
           | Inr (written, n) \<Rightarrow> allocation_call lib n (\<lambda>n. Inr (msg\<lparr>message_payload := Some (PayloadMap written)\<rparr>))))"

definition BuildWithStreamPayload where
  "BuildWithStreamPayload oor visit lib builder payload additionalConfiguration =
     (case build oor visit lib builder additionalConfiguration of
        Inl err \<Rightarrow> Inl err
      | Inr (msg, n) \<Rightarrow>
          item_call lib n (\<lambda>n. case sdtStreamToContainer lib SolClientOpaqueContainerStream payload n of
             Inl err \<Rightarrow> Inl err
           | Inr (written, n) \<Rightarrow> allocation_call lib n (\<lambda>n. Inr (msg\<lparr>message_payload := Some (PayloadStream written)\<rparr>))))"

text \<open>The methods of the builder that set properties.\<close>

definition message_FromConfigurationProvider :: "message_property_map option \<Rightarrow> message_property_map \<Rightarrow> message_property_map" where
  "message_FromConfigurationProvider properties builder = mergeMessagePropertyMap builder properties"

definition message_WithProperty :: "string \<Rightarrow> prop_value \<Rightarrow> message_property_map \<Rightarrow> message_property_map" where
  "message_WithProperty propertyName propertyValue builder = AList.update propertyName propertyValue builder"

definition WithExpiration :: "go_time \<Rightarrow> message_property_map \<Rightarrow> message_property_map" where
  "WithExpiration t builder =
     (let timeMs = Unix t * 1000 in AList.update MessagePropertyPersistentExpiration (PData (SInt64 timeMs)) builder)"

definition WithHTTPContentHeader :: "string \<Rightarrow> string \<Rightarrow> message_property_map \<Rightarrow> message_property_map" where
  "WithHTTPContentHeader key value builder =
     AList.update MessagePropertyHTTPContentEncoding (PData (SString value))
       (AList.update MessagePropertyHTTPContentType (PData (SString key)) builder)"

definition WithPriority :: "u64 \<Rightarrow> message_property_map \<Rightarrow> message_property_map" where
  "WithPriority priority builder = AList.update MessagePropertyPriority (PData (SInt priority)) builder"

definition WithApplicationMessageID :: "string \<Rightarrow> message_property_map \<Rightarrow> message_property_map" where
  "WithApplicationMessageID messageID builder = AList.update MessagePropertyApplicationMessageID (PData (SString messageID)) builder"

definition WithApplicationMessageType :: "string \<Rightarrow> message_property_map \<Rightarrow> message_property_map" where
  "WithApplicationMessageType messageType builder =
     AList.update MessagePropertyApplicationMessageType (PData (SString messageType)) builder"

definition WithSequenceNumber :: "u64 \<Rightarrow> message_property_map \<Rightarrow> message_property_map" where
  "WithSequenceNumber sequenceNumber builder = AList.update MessagePropertySequenceNumber (PData (SUint64 sequenceNumber)) builder"

definition WithSenderID :: "string \<Rightarrow> message_property_map \<Rightarrow> message_property_map" where
  "WithSenderID senderID builder = AList.update MessagePropertySenderID (PData (SString senderID)) builder"

definition WithCorrelationID :: "string \<Rightarrow> message_property_map \<Rightarrow> message_property_map" where
  "WithCorrelationID correlationID builder = AList.update MessagePropertyCorrelationID (PData (SString correlationID)) builder"

section \<open>What is set\<close>

text \<open>The settings of a map that are made, and its entries that become user properties.\<close>

definition valid_setting :: "(int \<Rightarrow> int \<Rightarrow> u64) \<Rightarrow> string \<times> prop_value \<Rightarrow> bool" where
  "valid_setting oor e \<longleftrightarrow> (case message_setting oor (fst e) (snd e) of Some (s, True, Some err) \<Rightarrow> False | _ \<Rightarrow> True)"

definition setting_made :: "(int \<Rightarrow> int \<Rightarrow> u64) \<Rightarrow> string \<times> prop_value \<Rightarrow> message_set list" where
  "setting_made oor e = (case message_setting oor (fst e) (snd e) of Some (s, True, None) \<Rightarrow> [s] | _ \<Rightarrow> [])"

definition user_entries :: "(int \<Rightarrow> int \<Rightarrow> u64) \<Rightarrow> message_property_map \<Rightarrow> sdt_map" where
  "user_entries oor ps = map (\<lambda>(k, v). (k, data_of v)) (filter (\<lambda>(k, v). message_setting oor k v = None) ps)"

definition refused :: "c_answers \<Rightarrow> go_error \<Rightarrow> bool" where
  "refused lib e \<longleftrightarrow> (\<exists>k errInfo prefix. lib k = Some errInfo \<and> e = ToNativeError errInfo prefix)"

lemma refusedI: "lib k = Some errInfo \<Longrightarrow> refused lib (ToNativeError errInfo prefix)"
  unfolding refused_def by blast

lemma user_entries_Cons:
  "user_entries oor (e # ps) =
     (if message_setting oor (fst e) (snd e) = None then (fst e, data_of (snd e)) # user_entries oor ps else user_entries oor ps)"
  by (simp add: user_entries_def split: prod.splits)

lemma properties_loop_Inr:
  "properties_loop oor lib ps n sets user = Inr (sets', user', n') \<Longrightarrow>
     (\<forall>e \<in> set ps. valid_setting oor e) \<and> sets' = sets @ concat (map (setting_made oor) ps) \<and> user' = user @ user_entries oor ps"
proof (induction ps arbitrary: n sets user)
  case (Cons e ps)
  obtain p v where e: "e = (p, v)" by (cases e)
  show ?case
  proof (cases "message_setting oor p v")
    case None
    then show ?thesis
      using Cons.IH [of n sets "user @ [(p, data_of v)]"] Cons.prems
      by (simp add: e user_entries_Cons valid_setting_def [of oor "(p, v)"] setting_made_def [of oor "(p, v)"])
  next
    case (Some r)
    obtain s present err where "r = (s, present, err)" by (cases r)
    with Some show ?thesis
      using Cons.IH [of "n + 1" "sets @ [s]" user] Cons by (cases present; cases err; cases "lib n")
        (auto simp: e user_entries_Cons valid_setting_def [of oor "(p, v)"] setting_made_def [of oor "(p, v)"])
  qed
qed (simp add: user_entries_def)

definition entry_error :: "(int \<Rightarrow> int \<Rightarrow> u64) \<Rightarrow> message_property_map \<Rightarrow> go_error \<Rightarrow> bool" where
  "entry_error oor ps e \<longleftrightarrow> (\<exists>p v s. (p, v) \<in> set ps \<and> message_setting oor p v = Some (s, True, Some e))"

lemma properties_loop_Inl:
  "properties_loop oor lib ps n sets user = Inl err \<Longrightarrow> \<exists>e. err = NativeItemError e \<and> (refused lib e \<or> entry_error oor ps e)"
proof (induction ps arbitrary: n sets user)
  case (Cons e ps)
  obtain p v where e: "e = (p, v)" by (cases e)
  have later: "entry_error oor ps e' \<Longrightarrow> entry_error oor ((p, v) # ps) e'" for e'
    by (auto simp: entry_error_def)
  show ?case
  proof (cases "message_setting oor p v")
    case None
    then have "properties_loop oor lib ps n sets (user @ [(p, data_of v)]) = Inl err" using Cons.prems by (simp add: e)
    from Cons.IH [OF this] later show ?thesis by (auto simp: e)
  next
    case (Some r)
    obtain s present er where r: "r = (s, present, er)" by (cases r)
    have head: "entry_error oor ((p, v) # ps) e'" if "present" "er = Some e'" for e'
      using that Some r by (auto simp: entry_error_def)
    show ?thesis
    proof (cases "present \<and> er = None \<and> lib n \<noteq> None")
      case True
      then show ?thesis using Cons.prems Some r by (auto simp: e intro: refusedI)
    next
      case False
      then show ?thesis using Cons.prems Some r head by (cases present; cases er) (auto simp: e dest!: Cons.IH later)
    qed
  qed
qed simp

lemma item_call_error: "item_call lib n f = Inl err \<Longrightarrow> (\<exists>e. err = NativeItemError e \<and> refused lib e) \<or> f (n + 1) = Inl err"
  by (auto simp: item_call_def intro: refusedI split: option.splits)

lemma map_written_error:
  assumes "sdtMapToContainer lib Type m n = Inl err"
  shows "case err of NativeItemError e \<Rightarrow> refused lib e | IllegalTypeError d \<Rightarrow> (\<exists>(k, x) \<in> set m. \<not> sendable x) \<and> (\<exists>t. d = SOther t)"
  using write_errors(2) [OF assms] by (auto simp: item_error_ok_def intro: refusedI split: item_error.splits)

lemma userPropertiesContainer_cases:
  "case userPropertiesContainer lib n present of
     Inr (before, n') \<Rightarrow> present = None \<longrightarrow> before = []
   | Inl err \<Rightarrow> \<exists>e. err = NativeItemError e \<and> refused lib e"
  by (auto simp: userPropertiesContainer_def item_call_def intro: refusedI split: option.splits)

text \<open>
  The properties as the comments in \<^verbatim>\<open>pkg/solace/config/message_properties.go\<close> describe them, written apart from the switch:
  for each name the kind of value that is asked for and the one call that puts a value of this kind into the message. The Go
  types that count as a value of a kind are those that \<^verbatim>\<open>internal/impl/validation\<close> accepts.
\<close>

definition text_value :: "prop_value \<Rightarrow> string option" where
  "text_value v = (case v of PData (SString s) \<Rightarrow> Some (c_string s) | _ \<Rightarrow> None)"

definition flag_value :: "prop_value \<Rightarrow> bool option" where
  "flag_value v =
     (case v of
        PData (SBool b) \<Rightarrow> Some b
      | PData (SInt w) \<Rightarrow> Some (w = 1)
      | PData (SString s) \<Rightarrow> Some (s \<in> {''true'', ''True''})
      | _ \<Rightarrow> None)"

definition signed_value :: "prop_value \<Rightarrow> u64 option" where
  "signed_value v =
     (case v of
        PData (SInt64 w) \<Rightarrow> Some w | PData (SInt w) \<Rightarrow> Some w | PData (SInt32 w) \<Rightarrow> Some (word_of_int (sint w)) | _ \<Rightarrow> None)"

definition unsigned_value :: "prop_value \<Rightarrow> u64 option" where
  "unsigned_value v =
     (case v of
        PData (SUint64 w) \<Rightarrow> Some w | PData (SUint w) \<Rightarrow> Some w | PData (SInt w) \<Rightarrow> Some w
      | PData (SUint32 w) \<Rightarrow> Some (word_of_int (uint w)) | _ \<Rightarrow> None)"

text \<open>A number with a fraction is cut; a moment is its milliseconds.\<close>

definition whole_value :: "(int \<Rightarrow> int \<Rightarrow> u64) \<Rightarrow> prop_value \<Rightarrow> u64 option" where
  "whole_value oor v =
     (case v of
        PData (SInt w) \<Rightarrow> Some w | PData (SUint w) \<Rightarrow> Some w
      | PData (SFloat64 w) \<Rightarrow> (case float_value w of VFloat64 m e \<Rightarrow> Some (int_of_float oor m e) | _ \<Rightarrow> None)
      | _ \<Rightarrow> None)"

definition byte_value :: "(int \<Rightarrow> int \<Rightarrow> u64) \<Rightarrow> prop_value \<Rightarrow> u64 option" where
  "byte_value oor v = (case whole_value oor v of Some w \<Rightarrow> (if sint w \<in> {0..255} then Some w else None) | None \<Rightarrow> None)"

definition moment_value :: "prop_value \<Rightarrow> u64 option" where
  "moment_value v = (case v of PTime t \<Rightarrow> Some (word_of_int (sint (UnixNano t) sdiv 1000000)) | _ \<Rightarrow> signed_value v)"

definition documented_properties :: "(int \<Rightarrow> int \<Rightarrow> u64) \<Rightarrow> (string \<times> string \<times> (prop_value \<Rightarrow> message_set option)) list" where
  "documented_properties oor =
    [(''solace.messaging.message.application-message-type'', ''string'', map_option SetApplicationMessageType \<circ> text_value),
     (''solace.messaging.message.application-message-id'', ''string'', map_option SetApplicationMessageID \<circ> text_value),
     (''solace.messaging.message.eliding-eligible'', ''bool'', map_option SetElidingEligible \<circ> flag_value),
     (''solace.messaging.message.priority'', ''integer'', map_option (SetPriority \<circ> ucast) \<circ> byte_value oor),
     (''solace.messaging.message.http-content'', ''string'', map_option SetHTTPContentType \<circ> text_value),
     (''solace.messaging.message.http-encoding'', ''string'', map_option SetHTTPContentEncoding \<circ> text_value),
     (''solace.messaging.message.correlation-id'', ''string'', map_option SetCorrelationID \<circ> text_value),
     (''solace.messaging.message.persistent.time-to-live'', ''int64'', map_option SetTimeToLive \<circ> signed_value),
     (''solace.messaging.message.persistent.expiration'', ''int64'', map_option SetExpiration \<circ> moment_value),
     (''solace.messaging.message.persistent.dmq-eligible'', ''bool'', map_option SetDMQEligible \<circ> flag_value),
     (''solace.messaging.message.persistent.ack-immediately'', ''bool'', map_option SetAckImmediately \<circ> flag_value),
     (''solace.messaging.message.persistent.sequence-number'', ''uint64'', map_option SetSequenceNumber \<circ> unsigned_value),
     (''solace.messaging.message.class-of-service'', ''integer'', map_option (SetClassOfService \<circ> ucast) \<circ> whole_value oor),
     (''solace.messaging.message.sender-id'', ''string'', map_option SetSenderID \<circ> text_value)]"

definition documented_name :: "string \<Rightarrow> bool" where
  "documented_name k \<longleftrightarrow> k \<in> set (map fst (documented_properties (\<lambda>m e. 0)))"

text \<open>The call for an entry; there is none for an own property of the application and for a value that is refused or absent.\<close>

definition documented_call :: "(int \<Rightarrow> int \<Rightarrow> u64) \<Rightarrow> string \<times> prop_value \<Rightarrow> message_set option" where
  "documented_call oor e =
     (case map_of (documented_properties oor) (fst e) of Some (kind, set_call) \<Rightarrow> set_call (snd e) | None \<Rightarrow> None)"

definition own_properties :: "message_property_map \<Rightarrow> sdt_map" where
  "own_properties ps = map (\<lambda>(k, v). (k, data_of v)) (filter (\<lambda>(k, v). \<not> documented_name k) ps)"

text \<open>
  The error for an entry names the key, the kind that was asked for and the type that was given, or the range; but for
  \<^verbatim>\<open>ack-immediately\<close> it names the key of the dead message queue.
\<close>

definition named_in_errors :: "string \<Rightarrow> string" where
  "named_in_errors k =
     (if k = ''solace.messaging.message.persistent.ack-immediately'' then ''solace.messaging.message.persistent.dmq-eligible'' else k)"

definition describes_entry :: "(int \<Rightarrow> int \<Rightarrow> u64) \<Rightarrow> go_error \<Rightarrow> string \<times> prop_value \<Rightarrow> bool" where
  "describes_entry oor err e \<longleftrightarrow>
     (case map_of (documented_properties oor) (fst e) of
        None \<Rightarrow> False
      | Some (kind, set_call) \<Rightarrow>
          set_call (snd e) = None \<and> snd e \<noteq> PData SNil \<and>
          (err = NewError IllegalArgumentError ''expected configured value for %s to be %s, got %T''
             [ArgStr (named_in_errors (fst e)), ArgStr kind, ArgStr (type_name (go_of (snd e)))] None \<or>
           fst e = ''solace.messaging.message.priority'' \<and>
           (\<exists>i. i \<notin> {0..255} \<and> err = NewError IllegalArgumentError
             ''expected configured value for %s to be within range [%d,%d], got %d''
             [ArgStr (fst e), ArgInt 0, ArgInt 255, ArgInt i] None)))"

lemma float_value_float: "\<exists>m e. float_value w = VFloat64 m e"
  by (simp add: float_value_def Let_def)

text \<open>What the switch does with an entry, against the table.\<close>

definition setting_documented :: "(int \<Rightarrow> int \<Rightarrow> u64) \<Rightarrow> string \<times> prop_value \<Rightarrow> bool" where
  "setting_documented oor e \<longleftrightarrow>
     (case message_setting oor (fst e) (snd e) of
        None \<Rightarrow> \<not> documented_name (fst e)
      | Some (s, present, err) \<Rightarrow>
          documented_name (fst e) \<and>
          (if present
           then (case err of None \<Rightarrow> documented_call oor e = Some s | Some x \<Rightarrow> describes_entry oor x e)
           else snd e = PData SNil \<and> documented_call oor e = None))"

text \<open>A validator reads a kind: it gives the value, or says that none is there, or refuses with the error of the kind.\<close>

definition reads_kind :: "string \<Rightarrow> string \<Rightarrow> prop_value \<Rightarrow> ('a \<Rightarrow> 'b) \<Rightarrow> 'b option \<Rightarrow> 'a \<times> bool \<times> go_error option \<Rightarrow> bool" where
  "reads_kind name kind v h value r \<longleftrightarrow>
     (case r of (x, present, err) \<Rightarrow>
        if present
        then (case err of
                None \<Rightarrow> value = Some (h x)
              | Some e \<Rightarrow> value = None \<and> v \<noteq> PData SNil \<and> e = wrongTypeError name kind (go_of v))
        else v = PData SNil \<and> value = None)"

text \<open>Both sides look at the kind of the value only; a float is a mantissa and an exponent.\<close>

lemma kind_cases:
  assumes "\<And>t. P (PTime t)" "\<And>w m e. float_value w = VFloat64 m e \<Longrightarrow> P (PData (SFloat64 w))"
    "\<And>d. \<forall>w. d \<noteq> SFloat64 w \<Longrightarrow> P (PData d)"
  shows "P v"
proof (cases v)
  case (PData d)
  show ?thesis
  proof (cases "\<exists>w. d = SFloat64 w")
    case True
    then obtain w m e where "d = SFloat64 w" "float_value w = VFloat64 m e" using float_value_float by blast
    then show ?thesis using PData assms(2) by simp
  next
    case False
    then show ?thesis using PData assms(3) by blast
  qed
qed (simp add: assms(1))

lemma validators_read_kinds:
  "reads_kind name ''string'' v c_string (text_value v) (StringPropertyValidation name (go_of v) [])"
  "reads_kind name ''bool'' v id (flag_value v) (BooleanPropertyValidation name (go_of v))"
  "reads_kind name ''int64'' v id (signed_value v) (Int64PropertyValidation name (go_of v))"
  "reads_kind name ''int64'' v id (moment_value v) (Int64PropertyValidation name (expiration_value v))"
  "reads_kind name ''uint64'' v id (unsigned_value v) (Uint64PropertyValidation name (go_of v))"
  "reads_kind name ''integer'' v id (whole_value oor v) (IntegerPropertyValidation oor name (go_of v))"
  subgoal
    apply (rule kind_cases [where v = v])
      apply (simp add: reads_kind_def StringPropertyValidation_def text_value_def)
     apply (simp add: reads_kind_def StringPropertyValidation_def text_value_def)
    subgoal for d by (cases d) (simp_all add: reads_kind_def StringPropertyValidation_def text_value_def)
    done
  subgoal
    apply (rule kind_cases [where v = v])
      apply (simp add: reads_kind_def BooleanPropertyValidation_def flag_value_def)
     apply (simp add: reads_kind_def BooleanPropertyValidation_def flag_value_def)
    subgoal for d by (cases d) (simp_all add: reads_kind_def BooleanPropertyValidation_def flag_value_def)
    done
  subgoal
    apply (rule kind_cases [where v = v])
      apply (simp add: reads_kind_def Int64PropertyValidation_def signed_value_def)
     apply (simp add: reads_kind_def Int64PropertyValidation_def signed_value_def)
    subgoal for d by (cases d) (simp_all add: reads_kind_def Int64PropertyValidation_def signed_value_def)
    done
  subgoal
    apply (rule kind_cases [where v = v])
      apply (simp add: reads_kind_def Int64PropertyValidation_def moment_value_def signed_value_def expiration_value_def)
     apply (simp add: reads_kind_def Int64PropertyValidation_def moment_value_def signed_value_def expiration_value_def)
    subgoal for d by (cases d) (simp_all add: reads_kind_def Int64PropertyValidation_def moment_value_def signed_value_def expiration_value_def)
    done
  subgoal
    apply (rule kind_cases [where v = v])
      apply (simp add: reads_kind_def Uint64PropertyValidation_def unsigned_value_def)
     apply (simp add: reads_kind_def Uint64PropertyValidation_def unsigned_value_def)
    subgoal for d by (cases d) (simp_all add: reads_kind_def Uint64PropertyValidation_def unsigned_value_def)
    done
  subgoal
    apply (rule kind_cases [where v = v])
      apply (simp add: reads_kind_def IntegerPropertyValidation_def whole_value_def)
     apply (simp add: reads_kind_def IntegerPropertyValidation_def whole_value_def)
    subgoal for d by (cases d) (simp_all add: reads_kind_def IntegerPropertyValidation_def whole_value_def)
    done
  done

lemma documented_by_kind:
  assumes look: "map_of (documented_properties oor) k = Some (kind, map_option g \<circ> conv)"
    and sets: "message_setting oor k v = setting_of (\<lambda>x. g (h x)) r"
    and reads: "reads_kind (named_in_errors k) kind v h (conv v) r"
  shows "setting_documented oor (k, v)"
proof -
  have "documented_name k"
    using look by (auto simp: documented_name_def documented_properties_def split: if_splits)
  moreover obtain x present err where "r = (x, present, err)" by (cases r)
  ultimately show ?thesis
    using assms
    by (cases present; cases err)
      (auto simp: setting_documented_def setting_of_def reads_kind_def documented_call_def describes_entry_def wrongTypeError_def)
qed

lemma documented_lookups:
  "map_of (documented_properties oor) MessagePropertyApplicationMessageType = Some (''string'', map_option SetApplicationMessageType \<circ> text_value)"
  "map_of (documented_properties oor) MessagePropertyApplicationMessageID = Some (''string'', map_option SetApplicationMessageID \<circ> text_value)"
  "map_of (documented_properties oor) MessagePropertyElidingEligible = Some (''bool'', map_option SetElidingEligible \<circ> flag_value)"
  "map_of (documented_properties oor) MessagePropertyPriority = Some (''integer'', map_option (SetPriority \<circ> ucast) \<circ> byte_value oor)"
  "map_of (documented_properties oor) MessagePropertyHTTPContentType = Some (''string'', map_option SetHTTPContentType \<circ> text_value)"
  "map_of (documented_properties oor) MessagePropertyHTTPContentEncoding = Some (''string'', map_option SetHTTPContentEncoding \<circ> text_value)"
  "map_of (documented_properties oor) MessagePropertyCorrelationID = Some (''string'', map_option SetCorrelationID \<circ> text_value)"
  "map_of (documented_properties oor) MessagePropertyPersistentTimeToLive = Some (''int64'', map_option SetTimeToLive \<circ> signed_value)"
  "map_of (documented_properties oor) MessagePropertyPersistentExpiration = Some (''int64'', map_option SetExpiration \<circ> moment_value)"
  "map_of (documented_properties oor) MessagePropertyPersistentDMQEligible = Some (''bool'', map_option SetDMQEligible \<circ> flag_value)"
  "map_of (documented_properties oor) MessagePropertyPersistentAckImmediately = Some (''bool'', map_option SetAckImmediately \<circ> flag_value)"
  "map_of (documented_properties oor) MessagePropertySequenceNumber = Some (''uint64'', map_option SetSequenceNumber \<circ> unsigned_value)"
  "map_of (documented_properties oor) MessagePropertyClassOfService = Some (''integer'', map_option (SetClassOfService \<circ> ucast) \<circ> whole_value oor)"
  "map_of (documented_properties oor) MessagePropertySenderID = Some (''string'', map_option SetSenderID \<circ> text_value)"
  by (simp_all add: documented_properties_def message_property_defs)

lemma named_in_errors_keys:
  "named_in_errors MessagePropertyApplicationMessageType = MessagePropertyApplicationMessageType"
  "named_in_errors MessagePropertyApplicationMessageID = MessagePropertyApplicationMessageID"
  "named_in_errors MessagePropertyElidingEligible = MessagePropertyElidingEligible"
  "named_in_errors MessagePropertyHTTPContentType = MessagePropertyHTTPContentType"
  "named_in_errors MessagePropertyHTTPContentEncoding = MessagePropertyHTTPContentEncoding"
  "named_in_errors MessagePropertyCorrelationID = MessagePropertyCorrelationID"
  "named_in_errors MessagePropertyPersistentTimeToLive = MessagePropertyPersistentTimeToLive"
  "named_in_errors MessagePropertyPersistentExpiration = MessagePropertyPersistentExpiration"
  "named_in_errors MessagePropertyPersistentDMQEligible = MessagePropertyPersistentDMQEligible"
  "named_in_errors MessagePropertyPersistentAckImmediately = MessagePropertyPersistentDMQEligible"
  "named_in_errors MessagePropertySequenceNumber = MessagePropertySequenceNumber"
  "named_in_errors MessagePropertyClassOfService = MessagePropertyClassOfService"
  "named_in_errors MessagePropertySenderID = MessagePropertySenderID"
  by (simp_all add: named_in_errors_def message_property_defs)

lemma priority_documented: "setting_documented oor (MessagePropertyPriority, v)"
proof -
  have name: "documented_name MessagePropertyPriority" "named_in_errors MessagePropertyPriority = MessagePropertyPriority"
    by (simp_all add: documented_name_def documented_properties_def named_in_errors_def MessagePropertyPriority_def)
  have sets: "message_setting oor MessagePropertyPriority v =
      setting_of (\<lambda>i. SetPriority (ucast i)) (IntegerPropertyValidationWithRange oor MessagePropertyPriority (go_of v) 0 255)" for v
    by (simp add: message_setting_def message_property_defs)
  obtain x present err where r: "IntegerPropertyValidation oor MessagePropertyPriority (go_of v) = (x, present, err)"
    by (metis surj_pair)
  have reads: "reads_kind MessagePropertyPriority ''integer'' v id (whole_value oor v) (x, present, err)"
    using validators_read_kinds(6) [of MessagePropertyPriority v oor] r by simp
  show ?thesis
  proof (cases "v = PData SNil")
    case True
    then show ?thesis
      using name documented_lookups(4) [of oor]
      by (simp add: setting_documented_def sets setting_of_def IntegerPropertyValidationWithRange_def IntegerPropertyValidation_def
          documented_call_def byte_value_def whole_value_def)
  next
    case False
    then show ?thesis
      using name documented_lookups(4) [of oor] r reads
      by (cases present; cases err)
        (auto simp: setting_documented_def sets setting_of_def IntegerPropertyValidationWithRange_def reads_kind_def documented_call_def
          describes_entry_def wrongTypeError_def byte_value_def MessagePropertyPriority_def [symmetric] split: if_splits)
  qed
qed

lemma message_setting_keys:
  "message_setting oor MessagePropertyApplicationMessageType v =
     setting_of (\<lambda>s. SetApplicationMessageType (c_string s)) (StringPropertyValidation MessagePropertyApplicationMessageType (go_of v) [])"
  "message_setting oor MessagePropertyApplicationMessageID v =
     setting_of (\<lambda>s. SetApplicationMessageID (c_string s)) (StringPropertyValidation MessagePropertyApplicationMessageID (go_of v) [])"
  "message_setting oor MessagePropertyElidingEligible v =
     setting_of (\<lambda>b. SetElidingEligible (id b)) (BooleanPropertyValidation MessagePropertyElidingEligible (go_of v))"
  "message_setting oor MessagePropertyHTTPContentType v =
     setting_of (\<lambda>s. SetHTTPContentType (c_string s)) (StringPropertyValidation MessagePropertyHTTPContentType (go_of v) [])"
  "message_setting oor MessagePropertyHTTPContentEncoding v =
     setting_of (\<lambda>s. SetHTTPContentEncoding (c_string s)) (StringPropertyValidation MessagePropertyHTTPContentEncoding (go_of v) [])"
  "message_setting oor MessagePropertyCorrelationID v =
     setting_of (\<lambda>s. SetCorrelationID (c_string s)) (StringPropertyValidation MessagePropertyCorrelationID (go_of v) [])"
  "message_setting oor MessagePropertyPersistentTimeToLive v =
     setting_of (\<lambda>i. SetTimeToLive (id i)) (Int64PropertyValidation MessagePropertyPersistentTimeToLive (go_of v))"
  "message_setting oor MessagePropertyPersistentExpiration v =
     setting_of (\<lambda>i. SetExpiration (id i)) (Int64PropertyValidation MessagePropertyPersistentExpiration (expiration_value v))"
  "message_setting oor MessagePropertyPersistentDMQEligible v =
     setting_of (\<lambda>b. SetDMQEligible (id b)) (BooleanPropertyValidation MessagePropertyPersistentDMQEligible (go_of v))"
  "message_setting oor MessagePropertyPersistentAckImmediately v =
     setting_of (\<lambda>b. SetAckImmediately (id b)) (BooleanPropertyValidation MessagePropertyPersistentDMQEligible (go_of v))"
  "message_setting oor MessagePropertySequenceNumber v =
     setting_of (\<lambda>i. SetSequenceNumber (id i)) (Uint64PropertyValidation MessagePropertySequenceNumber (go_of v))"
  "message_setting oor MessagePropertyClassOfService v =
     setting_of (\<lambda>i. (SetClassOfService \<circ> ucast) (id i)) (IntegerPropertyValidation oor MessagePropertyClassOfService (go_of v))"
  "message_setting oor MessagePropertySenderID v =
     setting_of (\<lambda>s. SetSenderID (c_string s)) (StringPropertyValidation MessagePropertySenderID (go_of v) [])"
  by (simp_all add: message_setting_def message_property_defs)

lemma keys_documented:
  "setting_documented oor (MessagePropertyApplicationMessageType, v)"
  "setting_documented oor (MessagePropertyApplicationMessageID, v)"
  "setting_documented oor (MessagePropertyElidingEligible, v)"
  "setting_documented oor (MessagePropertyHTTPContentType, v)"
  "setting_documented oor (MessagePropertyHTTPContentEncoding, v)"
  "setting_documented oor (MessagePropertyCorrelationID, v)"
  "setting_documented oor (MessagePropertyPersistentTimeToLive, v)"
  "setting_documented oor (MessagePropertyPersistentExpiration, v)"
  "setting_documented oor (MessagePropertyPersistentDMQEligible, v)"
  "setting_documented oor (MessagePropertyPersistentAckImmediately, v)"
  "setting_documented oor (MessagePropertySequenceNumber, v)"
  "setting_documented oor (MessagePropertyClassOfService, v)"
  "setting_documented oor (MessagePropertySenderID, v)"
  by (rule documented_by_kind, rule documented_lookups, rule message_setting_keys, unfold named_in_errors_keys, rule validators_read_kinds)+

lemma documented_key_cases:
  assumes "documented_name k"
  shows "k \<in> {MessagePropertyApplicationMessageType, MessagePropertyApplicationMessageID, MessagePropertyElidingEligible,
    MessagePropertyPriority, MessagePropertyHTTPContentType, MessagePropertyHTTPContentEncoding, MessagePropertyCorrelationID,
    MessagePropertyPersistentTimeToLive, MessagePropertyPersistentExpiration, MessagePropertyPersistentDMQEligible,
    MessagePropertyPersistentAckImmediately, MessagePropertySequenceNumber, MessagePropertyClassOfService, MessagePropertySenderID}"
  using assms by (auto simp: documented_name_def documented_properties_def message_property_defs)

lemma settings_documented: "setting_documented oor (k, v)"
proof (cases "documented_name k")
  case False
  then have "message_setting oor k v = None"
    by (simp add: documented_name_def documented_properties_def message_setting_def message_property_defs)
  then show ?thesis using False by (simp add: setting_documented_def)
next
  case True
  then show ?thesis using documented_key_cases [OF True] by (elim insertE emptyE) (simp_all only: keys_documented priority_documented)
qed

lemma documented_name_lookup: "documented_name k \<longleftrightarrow> map_of (documented_properties oor) k \<noteq> None"
proof -
  have "map fst (documented_properties oor) = map fst (documented_properties (\<lambda>m e. 0))"
    by (simp add: documented_properties_def)
  then show ?thesis unfolding documented_name_def map_of_eq_None_iff by (metis list.set_map)
qed

lemma setting_None_documented: "message_setting oor k v = None \<longleftrightarrow> \<not> documented_name k"
  using settings_documented [of oor k v] by (auto simp: setting_documented_def split: option.splits)

lemma user_entries_documented: "user_entries oor ps = own_properties ps"
  by (simp add: user_entries_def own_properties_def setting_None_documented)

lemma described_no_call: "describes_entry oor x e \<Longrightarrow> documented_call oor e = None"
  by (auto simp: describes_entry_def documented_call_def split: option.splits)

lemma setting_cases:
  obtains (own) "message_setting oor (fst e) (snd e) = None" "\<not> documented_name (fst e)" "documented_call oor e = None"
  | (set) s where "message_setting oor (fst e) (snd e) = Some (s, True, None)" "documented_name (fst e)" "documented_call oor e = Some s"
  | (refused) s x where "message_setting oor (fst e) (snd e) = Some (s, True, Some x)" "documented_name (fst e)"
      "describes_entry oor x e" "documented_call oor e = None"
  | (absent) s x where "message_setting oor (fst e) (snd e) = Some (s, False, x)" "documented_name (fst e)"
      "snd e = PData SNil" "documented_call oor e = None"
proof (cases "message_setting oor (fst e) (snd e)")
  case None
  then have "map_of (documented_properties oor) (fst e) = None"
    using setting_None_documented documented_name_lookup by blast
  then show ?thesis using None setting_None_documented by (auto simp: documented_call_def intro!: that(1))
next
  case (Some r)
  obtain s present err where r: "r = (s, present, err)" by (cases r)
  have doc: "setting_documented oor e" using settings_documented [of oor "fst e" "snd e"] by simp
  show ?thesis
  proof (cases present)
    case False
    then show ?thesis using that(4) [of s err] Some r doc by (simp add: setting_documented_def)
  next
    case True
    then show ?thesis using that(2) [of s] that(3) [of s] Some r doc described_no_call
      by (cases err) (auto simp: setting_documented_def)
  qed
qed

lemma setting_made_documented: "setting_made oor e = (case documented_call oor e of None \<Rightarrow> [] | Some s \<Rightarrow> [s])"
  by (cases oor e rule: setting_cases) (simp_all add: setting_made_def)

lemma settings_made_documented: "concat (map (setting_made oor) ps) = List.map_filter (documented_call oor) ps"
  by (induction ps) (auto simp: setting_made_documented map_filter_simps split: option.splits)

lemma valid_documented:
  "valid_setting oor e \<Longrightarrow> documented_name (fst e) \<Longrightarrow> snd e = PData SNil \<or> documented_call oor e \<noteq> None"
  by (cases oor e rule: setting_cases) (simp_all add: valid_setting_def)

lemma entry_error_documented: "entry_error oor ps err \<Longrightarrow> \<exists>e \<in> set ps. describes_entry oor err e"
proof -
  assume "entry_error oor ps err"
  then obtain p v s where "(p, v) \<in> set ps" "message_setting oor p v = Some (s, True, Some err)" by (auto simp: entry_error_def)
  moreover from this(2) have "describes_entry oor err (p, v)"
    by (cases oor "(p, v)" rule: setting_cases) simp_all
  ultimately show ?thesis by blast
qed


definition fresh_message :: outbound_message where
  "fresh_message =
     \<lparr>message_sets = [], user_properties = None, message_payload = None, message_disposed = False, message_frees = 0\<rparr>"


section \<open>Building\<close>

definition merged_properties :: "message_property_map \<Rightarrow> message_property_map option list \<Rightarrow> message_property_map" where
  "merged_properties builder additionalConfiguration = fold (\<lambda>new original. mergeMessagePropertyMap original new) additionalConfiguration builder"

lemma merge_keys: "distinct (map fst m) \<Longrightarrow> distinct (map fst (mergeMessagePropertyMap m new))"
proof (cases new)
  case (Some props)
  have "distinct (map fst m) \<Longrightarrow> distinct (map fst (fold (\<lambda>(key, value) m. AList.update key value m) props m))" for m
    by (induction props arbitrary: m) (auto simp: distinct_update)
  then show "distinct (map fst m) \<Longrightarrow> distinct (map fst (mergeMessagePropertyMap m new))"
    using Some by (simp add: mergeMessagePropertyMap_def)
qed (simp add: mergeMessagePropertyMap_def)

lemma merged_keys: "distinct (map fst m) \<Longrightarrow> distinct (map fst (merged_properties m news))"
  unfolding merged_properties_def by (induction news arbitrary: m) (auto simp: merge_keys)

fun is_dmq :: "message_set \<Rightarrow> bool" where
  "is_dmq (SetDMQEligible b) = True"
| "is_dmq _ = False"

lemma setting_ofE:
  assumes "setting_of f x = Some (s, present, err)"
  obtains y where "s = f y"
  using assms by (auto simp: setting_of_def split: prod.splits)

lemma setting_not_dmq:
  "k \<noteq> MessagePropertyPersistentDMQEligible \<Longrightarrow> message_setting oor k v = Some (s, present, err) \<Longrightarrow> \<not> is_dmq s"
  unfolding message_setting_def by (auto split: if_split_asm elim!: setting_ofE)

lemma setting_dmq:
  assumes "k \<noteq> MessagePropertyPersistentDMQEligible"
  shows "filter is_dmq (setting_made oor (k, v)) = []"
  using setting_not_dmq [OF assms] by (auto simp: setting_made_def split: option.splits bool.splits)

lemma dmq_setting:
  "message_setting oor MessagePropertyPersistentDMQEligible v =
     setting_of SetDMQEligible (BooleanPropertyValidation MessagePropertyPersistentDMQEligible (go_of v))"
  by (simp add: message_setting_def message_property_defs)

lemma dmq_made:
  "valid_setting oor (MessagePropertyPersistentDMQEligible, v) \<Longrightarrow>
   setting_made oor (MessagePropertyPersistentDMQEligible, v) =
     (case BooleanPropertyValidation MessagePropertyPersistentDMQEligible (go_of v) of
        (b, present, err) \<Rightarrow> if present then [SetDMQEligible b] else [])"
  by (cases "BooleanPropertyValidation MessagePropertyPersistentDMQEligible (go_of v)")
    (auto simp: setting_made_def valid_setting_def dmq_setting setting_of_def split: option.splits bool.splits)

lemma SetProperties_Inr:
  assumes "SetProperties oor lib m ps n = Inr (m', n')"
  shows "message_sets m' = message_sets m @ concat (map (setting_made oor) ps) \<and> (\<forall>e \<in> set ps. valid_setting oor e)"
proof -
  obtain sets user n1 where r: "properties_loop oor lib ps n [] [] = Inr (sets, user, n1)"
    using assms by (auto simp: SetProperties_def split: sum.splits)
  show ?thesis
    using properties_loop_Inr [OF r] assms r by (auto simp: SetProperties_def Let_def item_call_Inr split: sum.splits if_splits)
qed

text \<open>In a map with different keys one entry at most makes the call, whatever the order.\<close>

lemma dmq_calls:
  "distinct (map fst ps) \<Longrightarrow>
   filter is_dmq (concat (map (setting_made oor) ps)) =
     (case map_of ps MessagePropertyPersistentDMQEligible of
        None \<Rightarrow> []
      | Some v \<Rightarrow> setting_made oor (MessagePropertyPersistentDMQEligible, v))"
proof (induction ps)
  case (Cons e ps)
  have own: "filter is_dmq (setting_made oor (MessagePropertyPersistentDMQEligible, v)) =
      setting_made oor (MessagePropertyPersistentDMQEligible, v)" for v
    by (auto simp: setting_made_def dmq_setting setting_of_def split: prod.splits option.splits bool.splits)
  obtain k v where e: "e = (k, v)" by (cases e)
  show ?case
  proof (cases "k = MessagePropertyPersistentDMQEligible")
    case True
    then have "map_of ps MessagePropertyPersistentDMQEligible = None" using Cons.prems e by (force simp: map_of_eq_None_iff)
    then show ?thesis using Cons True by (simp add: e own)
  next
    case False
    then show ?thesis using Cons by (simp add: e setting_dmq)
  qed
qed simp

text \<open>
  A built message is eligible for the dead message queue unless its properties say otherwise. Whatever the
  order in which the properties are visited, when building succeeds: the property is set by at most one call; when
  neither the builder nor the additional properties have it, the call sets it to true; when they have it, the last of them counts, with
  the truth value its validation gives, and \<^verbatim>\<open>nil\<close> leaves the call out.
\<close>

proposition build_dmq_default:
  assumes "distinct (map fst builder)" and "\<And>m. mset (visit m) = mset m"
    and "build oor visit lib builder additionalConfiguration = Inr (msg, n)"
  shows "filter is_dmq (message_sets msg) =
     (case map_of (merged_properties builder additionalConfiguration) MessagePropertyPersistentDMQEligible of
        None \<Rightarrow> [SetDMQEligible True]
      | Some v \<Rightarrow>
          (case BooleanPropertyValidation MessagePropertyPersistentDMQEligible (go_of v) of
             (b, present, err) \<Rightarrow> if present then [SetDMQEligible b] else []))"
proof -
  let ?m = "merged_properties builder additionalConfiguration"
  let ?ps = "case map_of ?m MessagePropertyPersistentDMQEligible of
      None \<Rightarrow> AList.update MessagePropertyPersistentDMQEligible (PData (SBool True)) ?m | Some _ \<Rightarrow> ?m"
  define ps where "ps = ?ps"
  have keys: "distinct (map fst ps)"
    using merged_keys [OF assms(1), of additionalConfiguration] by (simp add: ps_def distinct_update split: option.splits)
  have same: "mset (visit ps) = mset ps" by (rule assms(2))
  have vkeys: "distinct (map fst (visit ps))"
    using keys same by (metis mset_map mset_eq_imp_distinct_iff)
  have vmap: "map_of (visit ps) = map_of ps"
    using keys vkeys same by (metis map_of_inject_set mset_eq_setD)
  obtain m0 where m0: "NewOutboundMessage (lib 0) = Inr m0" "message_sets m0 = []"
    using assms(3) by (auto simp: build_def NewOutboundMessage_def split: option.splits)
  have set: "SetProperties oor lib m0 (visit ps) 1 = Inr (msg, n)"
    using assms(3) m0 unfolding build_def Let_def ps_def merged_properties_def by simp
  have calls: "message_sets msg = concat (map (setting_made oor) (visit ps))"
    and valid: "\<forall>e \<in> set (visit ps). valid_setting oor e"
    using SetProperties_Inr [OF set] m0 by auto
  have ok: "map_of ps MessagePropertyPersistentDMQEligible = Some v \<Longrightarrow> valid_setting oor (MessagePropertyPersistentDMQEligible, v)" for v
    using valid same by (metis map_of_SomeD mset_eq_setD)
  have calls': "filter is_dmq (message_sets msg) = (case map_of ps MessagePropertyPersistentDMQEligible of
        None \<Rightarrow> [] | Some v \<Rightarrow> setting_made oor (MessagePropertyPersistentDMQEligible, v))"
    using dmq_calls [OF vkeys, of oor] calls vmap by simp
  show ?thesis
  proof (cases "map_of ?m MessagePropertyPersistentDMQEligible")
    case None
    then have "map_of ps MessagePropertyPersistentDMQEligible = Some (PData (SBool True))" by (simp add: ps_def update_conv)
    then show ?thesis
      using calls' None ok [of "PData (SBool True)"] by (simp add: dmq_made BooleanPropertyValidation_def)
  next
    case (Some v)
    then have "map_of ps MessagePropertyPersistentDMQEligible = Some v" by (simp add: ps_def)
    then show ?thesis using calls' Some ok [of v] by (simp add: dmq_made)
  qed
qed

theorem build_dmq_default_witness:
  "\<exists>msg n. build (\<lambda>m e. 0) id (\<lambda>n. None) [] [] = Inr (msg, n) \<and> filter is_dmq (message_sets msg) = [SetDMQEligible True]"
proof -
  obtain msg n where b: "build (\<lambda>m e. 0) id (\<lambda>n. None) [] [] = Inr (msg, n)"
    by (simp add: build_def NewOutboundMessage_def SetProperties_def message_setting_def message_property_defs setting_of_def
        BooleanPropertyValidation_def)
  then show ?thesis
    using build_dmq_default [OF _ _ b] by (simp add: merged_properties_def)
qed

section \<open>Reading a message\<close>

text \<open>
  The arguments say what the C library answers: an error and what it left in the variable. A payload may be
  in the binary attachment or in the XML content.
\<close>

definition SolClientMessageGetBinaryAttachmentAsBytes :: "ErrorInfo option \<Rightarrow> u8 list \<Rightarrow> u8 list option" where
  "SolClientMessageGetBinaryAttachmentAsBytes errorInfo data =
     (case errorInfo of
        Some err \<Rightarrow>
          if ReturnCode err = SolClientReturnCodeFail then None
          else if ReturnCode err \<noteq> SolClientReturnCodeOk then None
          else Some data
      | None \<Rightarrow> Some data)"

definition SolClientMessageGetXMLAttachmentAsBytes :: "ErrorInfo option \<Rightarrow> u8 list \<Rightarrow> u8 list option" where
  "SolClientMessageGetXMLAttachmentAsBytes errorInfo data =
     (case errorInfo of
        Some err \<Rightarrow>
          if ReturnCode err = SolClientReturnCodeFail then None
          else if ReturnCode err \<noteq> SolClientReturnCodeOk then None
          else Some data
      | None \<Rightarrow> Some data)"

definition SolClientMessageGetBinaryAttachmentAsString :: "ErrorInfo option \<Rightarrow> string \<Rightarrow> string option" where
  "SolClientMessageGetBinaryAttachmentAsString errorInfo data = (if errorInfo \<noteq> None then None else Some (c_string data))"

definition SolClientMessageGetBinaryAttachmentAsStream :: "ErrorInfo option \<Rightarrow> c_entry list \<Rightarrow> c_entry list option" where
  "SolClientMessageGetBinaryAttachmentAsStream errorInfo container = (if errorInfo \<noteq> None then None else Some container)"

definition SolClientMessageGetBinaryAttachmentAsMap :: "ErrorInfo option \<Rightarrow> c_entry list \<Rightarrow> c_entry list option" where
  "SolClientMessageGetBinaryAttachmentAsMap errorInfo container = (if errorInfo \<noteq> None then None else Some container)"

definition GetPayloadAsBytes :: "u8 list option \<Rightarrow> u8 list option \<Rightarrow> u8 list option" where
  "GetPayloadAsBytes binaryAttachment xmlContent =
     (if binaryAttachment \<noteq> None \<and> xmlContent \<noteq> None then None
      else if binaryAttachment \<noteq> None then binaryAttachment
      else if xmlContent \<noteq> None then xmlContent
      else None)"

definition GetPayloadAsString :: "string option \<Rightarrow> u8 list option \<Rightarrow> string option" where
  "GetPayloadAsString binaryAttachment xmlContent =
     (if binaryAttachment \<noteq> None \<and> xmlContent \<noteq> None then None
      else if binaryAttachment \<noteq> None then binaryAttachment
      else map_option (map (\<lambda>b. char_of (unat b))) xmlContent)"

definition GetPayloadAsMap :: "c_entry list option \<Rightarrow> sdt_map option" where
  "GetPayloadAsMap container = (case container of None \<Rightarrow> None | Some written \<Rightarrow> Some (parseMap written []))"

definition GetPayloadAsStream :: "c_entry list option \<Rightarrow> sdt_data list option" where
  "GetPayloadAsStream container = (case container of None \<Rightarrow> None | Some written \<Rightarrow> Some (parseStream written []))"

text \<open>The user properties: all of them, or one with what the look-up of its field answers.\<close>

definition GetProperties :: "ErrorInfo + c_entry list \<Rightarrow> sdt_map option" where
  "GetProperties container = (case container of Inl errorInfo \<Rightarrow> None | Inr written \<Rightarrow> Some (parseMap written []))"

definition GetProperty :: "ErrorInfo + c_entry list \<Rightarrow> (c_entry list \<Rightarrow> c_field option) \<Rightarrow> sdt_data option" where
  "GetProperty container getField =
     (case container of
        Inl errorInfo \<Rightarrow> None
      | Inr written \<Rightarrow> (case getField written of None \<Rightarrow> None | Some val \<Rightarrow> parseData val))"

definition HasProperty :: "ErrorInfo + c_entry list \<Rightarrow> (c_entry list \<Rightarrow> c_field option) \<Rightarrow> bool" where
  "HasProperty container getField = (GetProperty container getField \<noteq> None)"

text \<open>Values with an error: the priority, whose default is -1, the expiration and the trace contexts.\<close>

definition GetPriority :: "u32 \<times> ErrorInfo option \<Rightarrow> u64 \<times> bool" where
  "GetPriority answer =
     (let priority = scast (fst answer) :: u64;
          ok = (if snd answer \<noteq> None then False else True)
      in (priority, ok \<and> priority \<noteq> - 1))"

definition GetExpiration :: "u64 \<times> ErrorInfo option \<Rightarrow> go_time" where
  "GetExpiration answer = time_of_millis (fst answer)"

definition failed :: "ErrorInfo option \<Rightarrow> bool" where
  "failed err \<longleftrightarrow> (case err of Some e \<Rightarrow> ReturnCode e = SolClientReturnCodeFail | None \<Rightarrow> False)"

definition GetCreationTraceContext ::
    "u8 list \<times> ErrorInfo option \<Rightarrow> u8 list \<times> ErrorInfo option \<Rightarrow> bool \<times> ErrorInfo option \<Rightarrow> string \<times> ErrorInfo option
       \<Rightarrow> u8 list \<times> u8 list \<times> bool \<times> string \<times> bool" where
  "GetCreationTraceContext traceID spanID sampled traceState =
     (let ok = True;
          ok = (if snd traceID \<noteq> None then False else ok);
          ok = (if snd spanID \<noteq> None then False else ok);
          ok = (if snd sampled \<noteq> None then False else ok);
          ok = (if snd traceState \<noteq> None \<and> failed (snd traceState) then False else ok)
      in (fst traceID, fst spanID, fst sampled, fst traceState, ok))"

definition GetTransportTraceContext ::
    "u8 list \<times> ErrorInfo option \<Rightarrow> u8 list \<times> ErrorInfo option \<Rightarrow> bool \<times> ErrorInfo option \<Rightarrow> string \<times> ErrorInfo option
       \<Rightarrow> u8 list \<times> u8 list \<times> bool \<times> string \<times> bool" where
  "GetTransportTraceContext traceID spanID sampled traceState =
     (let ok = True;
          ok = (if snd traceID \<noteq> None then False else ok);
          ok = (if snd spanID \<noteq> None then False else ok);
          ok = (if snd sampled \<noteq> None then False else ok);
          ok = (if snd traceState \<noteq> None \<and> failed (snd traceState) then False else ok)
      in (fst traceID, fst spanID, fst sampled, fst traceState, ok))"

text \<open>The setters are all called, whatever the others answer; no state is set when there is none.\<close>

definition trace_call :: "ErrorInfo option \<Rightarrow> message_set \<Rightarrow> outbound_message \<Rightarrow> outbound_message" where
  "trace_call answer s m = (if answer = None then m\<lparr>message_sets := message_sets m @ [s]\<rparr> else m)"

definition SetCreationTraceContext ::
    "(nat \<Rightarrow> ErrorInfo option) \<Rightarrow> outbound_message \<Rightarrow> u8 list \<Rightarrow> u8 list \<Rightarrow> bool \<Rightarrow> string option \<Rightarrow> bool \<times> outbound_message" where
  "SetCreationTraceContext lib m traceID spanID sampled traceState =
     (let ok = True;
          m = trace_call (lib 0) (SetCreationTraceID traceID) m;
          ok = (if lib 0 \<noteq> None then False else ok);
          m = trace_call (lib 1) (SetCreationSpanID spanID) m;
          ok = (if lib 1 \<noteq> None then False else ok);
          m = trace_call (lib 2) (SetCreationSampled sampled) m;
          ok = (if lib 2 \<noteq> None then False else ok)
      in case traceState of
           Some state \<Rightarrow> (if lib 3 \<noteq> None then False else ok, trace_call (lib 3) (SetCreationTraceState state) m)
         | None \<Rightarrow> (ok, m))"

definition SetTransportTraceContext ::
    "(nat \<Rightarrow> ErrorInfo option) \<Rightarrow> outbound_message \<Rightarrow> u8 list \<Rightarrow> u8 list \<Rightarrow> bool \<Rightarrow> string option \<Rightarrow> bool \<times> outbound_message" where
  "SetTransportTraceContext lib m traceID spanID sampled traceState =
     (let ok = True;
          m = trace_call (lib 0) (SetTransportTraceID traceID) m;
          ok = (if lib 0 \<noteq> None then False else ok);
          m = trace_call (lib 1) (SetTransportSpanID spanID) m;
          ok = (if lib 1 \<noteq> None then False else ok);
          m = trace_call (lib 2) (SetTransportSampled sampled) m;
          ok = (if lib 2 \<noteq> None then False else ok)
      in case traceState of
           Some state \<Rightarrow> (if lib 3 \<noteq> None then False else ok, trace_call (lib 3) (SetTransportTraceState state) m)
         | None \<Rightarrow> (ok, m))"

definition GetBaggage :: "string \<times> ErrorInfo option \<Rightarrow> string \<times> bool" where
  "GetBaggage answer = (let ok = True in (fst answer, if snd answer \<noteq> None \<and> failed (snd answer) then False else ok))"

definition message_SetBaggage :: "ErrorInfo option \<Rightarrow> outbound_message \<Rightarrow> string \<Rightarrow> go_error option \<times> outbound_message" where
  "message_SetBaggage answer m baggage =
     (if baggage = [] then message_setter answer ''error setting baggage: '' DeleteBaggage m
      else message_setter answer ''error setting baggage: '' (SetBaggage (c_string baggage)) m)"

text \<open>Inbound messages.\<close>

record inbound_message_impl =
  internalDiscard :: bool
  inbound_disposed :: bool
  inbound_frees :: nat

definition NewInboundMessage :: "bool \<Rightarrow> inbound_message_impl" where
  "NewInboundMessage discard = \<lparr>internalDiscard = discard, inbound_disposed = False, inbound_frees = 0\<rparr>"

definition inbound_Dispose :: "inbound_message_impl \<Rightarrow> inbound_message_impl" where
  "inbound_Dispose m =
     (if \<not> inbound_disposed m then m\<lparr>inbound_disposed := True, inbound_frees := inbound_frees m + 1\<rparr> else m)"

definition inbound_finalize :: "inbound_message_impl \<Rightarrow> inbound_message_impl" where
  "inbound_finalize m = (if inbound_disposed m then m else m\<lparr>inbound_frees := inbound_frees m + 1\<rparr>)"

definition GetMessageDiscardNotification :: "bool \<Rightarrow> inbound_message_impl \<Rightarrow> (bool \<times> bool) option" where
  "GetMessageDiscardNotification brokerDiscard m =
     (if inbound_disposed m then None else Some (internalDiscard m, brokerDiscard))"

definition GetReplyToDestinationName :: "string \<times> ErrorInfo option \<Rightarrow> string \<times> bool" where
  "GetReplyToDestinationName answer =
     (let destName = (if snd answer = None then c_string (fst answer) else [])
      in if snd answer \<noteq> None then (destName, False) else (destName, True))"

text \<open>The memory of a message is freed once, by the first \<^verbatim>\<open>Dispose\<close> or by its finalizer.\<close>

lemma outbound_freed_once:
  assumes "message_disposed m = False" and "message_frees m = 0"
  shows "message_frees (outbound_finalize ((outbound_Dispose ^^ k) m)) = 1"
proof -
  have "message_frees ((outbound_Dispose ^^ k) m) = of_bool (message_disposed ((outbound_Dispose ^^ k) m))"
    by (induction k) (auto simp: outbound_Dispose_def assms)
  then show ?thesis by (simp add: outbound_finalize_def)
qed

lemma inbound_freed_once:
  "inbound_frees (inbound_finalize ((inbound_Dispose ^^ k) (NewInboundMessage d))) = 1"
proof -
  let ?m = "(inbound_Dispose ^^ k) (NewInboundMessage d)"
  have "inbound_frees ?m = of_bool (inbound_disposed ?m)"
    by (induction k) (auto simp: inbound_Dispose_def NewInboundMessage_def)
  then show ?thesis by (simp add: inbound_finalize_def)
qed

lemma trace_context_set:
  "SetCreationTraceContext lib m i s b (Some t) = (True, m') \<longleftrightarrow>
     (\<forall>k < 4. lib k = None) \<and>
     m' = m\<lparr>message_sets := message_sets m @ [SetCreationTraceID i, SetCreationSpanID s, SetCreationSampled b, SetCreationTraceState t]\<rparr>"
proof -
  have "(\<forall>k < 4. lib k = None) \<longleftrightarrow> lib 0 = None \<and> lib 1 = None \<and> lib 2 = None \<and> lib 3 = None"
    by (auto simp: numeral_eq_Suc less_Suc_eq)
  then show ?thesis by (auto simp: SetCreationTraceContext_def trace_call_def)
qed

lemma trace_context_ok:
  "snd (snd (snd (snd (GetCreationTraceContext i s b t)))) \<longleftrightarrow> snd i = None \<and> snd s = None \<and> snd b = None \<and> \<not> failed (snd t)"
  by (auto simp: GetCreationTraceContext_def failed_def)

lemma allocation_call_Inr: "allocation_call lib n f = Inr r \<longleftrightarrow> lib n = None \<and> f (n + 1) = Inr r"
  by (auto simp: allocation_call_def split: option.splits)

lemma map_payload:
  assumes "BuildWithMapPayload oor visit lib builder m news = Inr msg" and "sendable (SMap m)"
  shows "\<exists>written. message_payload msg = Some (PayloadMap written) \<and> parseMap written [] = map (\<lambda>(k, x). (k, arrives x)) m"
proof -
  obtain msg0 n where "build oor visit lib builder news = Inr (msg0, n)"
    using assms(1) by (auto simp: BuildWithMapPayload_def split: sum.splits)
  then show ?thesis
    using assms written_arrives(2) [where acc = "[]" and m = m]
    by (auto simp: BuildWithMapPayload_def item_call_Inr allocation_call_Inr split: sum.splits)
qed

lemma stream_payload:
  assumes "BuildWithStreamPayload oor visit lib builder xs news = Inr msg" and "sendable (SStream xs)"
  shows "\<exists>written. message_payload msg = Some (PayloadStream written) \<and> parseStream written [] = map arrives xs"
proof -
  obtain msg0 n where "build oor visit lib builder news = Inr (msg0, n)"
    using assms(1) by (auto simp: BuildWithStreamPayload_def split: sum.splits)
  then show ?thesis
    using assms written_arrives(3) [where acc' = "[]" and xs = xs]
    by (auto simp: BuildWithStreamPayload_def item_call_Inr allocation_call_Inr split: sum.splits)
qed

lemma bytes_payload:
  "BuildWithByteArrayPayload oor visit lib builder bytes news = Inr msg \<Longrightarrow> message_payload msg = Some (PayloadBytes bytes)"
  by (auto simp: BuildWithByteArrayPayload_def allocation_call_Inr split: sum.splits)

lemma string_payload:
  "BuildWithStringPayload oor visit lib builder text news = Inr msg \<Longrightarrow> message_payload msg = Some (PayloadString (c_string text))"
  by (auto simp: BuildWithStringPayload_def allocation_call_Inr split: sum.splits)

lemma c_string_idem [simp]: "c_string (c_string s) = c_string s"
  by (simp add: c_string_def takeWhile_idem)

lemmas payload_getters =
  SolClientMessageGetBinaryAttachmentAsMap_def SolClientMessageGetBinaryAttachmentAsStream_def
  SolClientMessageGetBinaryAttachmentAsBytes_def SolClientMessageGetBinaryAttachmentAsString_def
  GetPayloadAsMap_def GetPayloadAsStream_def GetPayloadAsBytes_def GetPayloadAsString_def

text \<open>
  Payloads arrive as they were given. Whatever the C library answers while a message is built: when building with a map or a
  stream that can be sent succeeds, the container in the message reads back as the map or the stream, with
  the values as they arrive; bytes are handed over as they are, and a string up to its first zero byte, so that a text
  without one arrives whole; and of a message that carries both an attachment and XML content nothing is given.
\<close>

proposition payload_roundtrip:
  "(BuildWithMapPayload oor visit lib builder m news = Inr msg \<and> sendable (SMap m) \<longrightarrow>
      (\<exists>written. message_payload msg = Some (PayloadMap written) \<and>
         GetPayloadAsMap (SolClientMessageGetBinaryAttachmentAsMap None written) = Some (map (\<lambda>(k, x). (k, arrives x)) m))) \<and>
   (BuildWithStreamPayload oor visit lib builder xs news = Inr msg \<and> sendable (SStream xs) \<longrightarrow>
      (\<exists>written. message_payload msg = Some (PayloadStream written) \<and>
         GetPayloadAsStream (SolClientMessageGetBinaryAttachmentAsStream None written) = Some (map arrives xs))) \<and>
   (BuildWithByteArrayPayload oor visit lib builder bytes news = Inr msg \<longrightarrow>
      message_payload msg = Some (PayloadBytes bytes) \<and>
      GetPayloadAsBytes (SolClientMessageGetBinaryAttachmentAsBytes None bytes) None = Some bytes) \<and>
   (BuildWithStringPayload oor visit lib builder text news = Inr msg \<longrightarrow>
      (\<exists>sent. message_payload msg = Some (PayloadString sent) \<and>
         GetPayloadAsString (SolClientMessageGetBinaryAttachmentAsString None sent) None = Some (c_string text) \<and>
         (CHR 0x00 \<notin> set text \<longrightarrow> c_string text = text))) \<and>
   GetPayloadAsBytes (Some bytes) (Some xml) = None \<and> GetPayloadAsString (Some text) (Some xml) = None"
  using map_payload stream_payload bytes_payload string_payload by (fastforce simp: payload_getters)

theorem payload_roundtrip_witness:
  "\<exists>msg written. BuildWithMapPayload (\<lambda>m e. 0) id (\<lambda>n. None) [] [(''k'', SUint 3)] [] = Inr msg \<and>
     message_payload msg = Some (PayloadMap written) \<and>
     GetPayloadAsMap (SolClientMessageGetBinaryAttachmentAsMap None written) = Some [(''k'', SUint64 3)]"
proof -
  obtain msg where "BuildWithMapPayload (\<lambda>m e. 0) id (\<lambda>n. None) [] [(''k'', SUint 3)] [] = Inr msg"
    by (simp add: BuildWithMapPayload_def build_def NewOutboundMessage_def SetProperties_def message_setting_def
        message_property_defs setting_of_def BooleanPropertyValidation_def item_call_def allocation_call_def)
  then show ?thesis
    using payload_roundtrip [where oor = "\<lambda>m e. 0" and visit = id and lib = "\<lambda>n. None" and builder = "[]"
        and m = "[(''k'', SUint 3)]" and news = "[]" and msg = msg]
    by auto
qed

lemma sdiv_nonneg: "0 \<le> x \<Longrightarrow> 0 < y \<Longrightarrow> x sdiv y = x div (y :: int)"
  by (cases "x = 0") (simp_all add: signed_divide_int_def)

lemma smod_nonneg: "0 \<le> x \<Longrightarrow> 0 < y \<Longrightarrow> x smod y = x mod (y :: int)"
  by (cases "x = 0") (simp_all add: signed_modulo_int_def)

lemma time_of_millis_nonneg:
  assumes "0 \<le> x" and "x < 2 ^ 63"
  shows "time_of_millis (word_of_int x) = Time (word_of_int (x div 1000)) (word_of_int (x mod 1000 * 1000000))"
proof -
  have x: "sint (word_of_int x :: u64) = x" using assms by (simp add: sint_word_of_int)
  have "\<not> x mod 1000 * 1000000 < 0" by simp
  then show ?thesis
    unfolding time_of_millis_def Let_def x using assms(1) by (simp add: sdiv_nonneg smod_nonneg)
qed

lemma UnixNano_value:
  assumes "0 \<le> sint (Unix t)" and "sint (Unix t) < 9223372036" and "uint (nanosecond t) < 1000000000"
  shows "sint (UnixNano t) = sint (Unix t) * 1000000000 + uint (nanosecond t)"
proof -
  have eq: "UnixNano t = word_of_int (sint (Unix t) * 1000000000 + uint (nanosecond t))"
    by (simp add: UnixNano_def)
  have bounds: "- (2 ^ 63) \<le> u * 1000000000 + n \<and> u * 1000000000 + n < 2 ^ 63"
    if "0 \<le> u" "u < 9223372036" "0 \<le> n" "n < 1000000000" for u n :: int
    using that by simp
  show ?thesis
    unfolding eq by (rule sint_word_of_int) (use bounds [OF assms(1,2) uint_ge_0 assms(3)] in blast)+
qed

lemma expiration_made:
  "setting_made oor (MessagePropertyPersistentExpiration, v) =
     (case Int64PropertyValidation MessagePropertyPersistentExpiration (expiration_value v) of
        (w, True, None) \<Rightarrow> [SetExpiration w] | _ \<Rightarrow> [])"
  by (auto simp: setting_made_def message_setting_def setting_of_def split: prod.splits bool.splits option.splits)

text \<open>
  C37. An expiration keeps its milliseconds only as a property value. A time from 1970 on whose nanoseconds fit 64 bits, given as
  the value of the property, is set as its milliseconds, and a receiver reads back the time cut to
  milliseconds; given to \<^verbatim>\<open>WithExpiration\<close>, a receiver reads back the time cut to seconds.
\<close>

proposition expiration_precision:
  assumes "0 \<le> sint (Unix t)" and "sint (Unix t) < 9223372036" and "uint (nanosecond t) < 1000000000"
  shows "\<exists>ms ms'.
     setting_made oor (MessagePropertyPersistentExpiration, PTime t) = [SetExpiration ms] \<and>
     GetExpiration (ms, None) = Time (Unix t) (word_of_int (uint (nanosecond t) div 1000000 * 1000000)) \<and>
     map_of (WithExpiration t builder) MessagePropertyPersistentExpiration = Some (PData (SInt64 ms')) \<and>
     setting_made oor (MessagePropertyPersistentExpiration, PData (SInt64 ms')) = [SetExpiration ms'] \<and>
     GetExpiration (ms', None) = Time (Unix t) 0"
proof -
  let ?u = "sint (Unix t)" and ?n = "uint (nanosecond t)"
  define ms ms' :: u64 where "ms = word_of_int (?u * 1000 + ?n div 1000000)" and "ms' = word_of_int (?u * 1000)"
  have n: "0 \<le> ?n" by simp
  have q: "(?u * 1000000000 + ?n) div 1000000 = ?u * 1000 + ?n div 1000000" by simp
  have d: "0 \<le> ?n div 1000000" "?n div 1000000 < 1000" using n assms(3) by linarith+
  have q': "(?u * 1000 + ?n div 1000000) div 1000 = ?u" "(?u * 1000 + ?n div 1000000) mod 1000 = ?n div 1000000"
    using d by (simp_all add: div_pos_pos_trivial)
  have "word_of_int (sint (UnixNano t) sdiv 1000000) = ms"
    using assms n by (simp add: UnixNano_value sdiv_nonneg q ms_def)
  then have "setting_made oor (MessagePropertyPersistentExpiration, PTime t) = [SetExpiration ms]"
    by (simp add: expiration_made expiration_value_def Int64PropertyValidation_def)
  moreover have "GetExpiration (ms, None) = Time (Unix t) (word_of_int (?n div 1000000 * 1000000))"
    unfolding GetExpiration_def fst_conv ms_def using assms(1,2) d q'
    by (subst time_of_millis_nonneg) (simp_all del: of_int_add of_int_mult)
  moreover have "map_of (WithExpiration t builder) MessagePropertyPersistentExpiration = Some (PData (SInt64 ms'))"
    by (simp add: WithExpiration_def update_conv ms'_def)
  moreover have "setting_made oor (MessagePropertyPersistentExpiration, PData (SInt64 ms')) = [SetExpiration ms']"
    by (simp add: expiration_made expiration_value_def Int64PropertyValidation_def)
  moreover have "GetExpiration (ms', None) = Time (Unix t) 0"
    unfolding GetExpiration_def fst_conv ms'_def using assms(1,2)
    by (subst time_of_millis_nonneg) (simp_all del: of_int_mult)
  ultimately show ?thesis by blast
qed

theorem expiration_precision_witness:
  "\<exists>ms ms'.
     setting_made (\<lambda>m e. 0) (MessagePropertyPersistentExpiration, PTime (Time 1700000000 123456789)) = [SetExpiration ms] \<and>
     GetExpiration (ms, None) = Time 1700000000 123000000 \<and>
     setting_made (\<lambda>m e. 0) (MessagePropertyPersistentExpiration, PData (SInt64 ms')) = [SetExpiration ms'] \<and>
     GetExpiration (ms', None) = Time 1700000000 0"
  using expiration_precision [of "Time 1700000000 123456789" "\<lambda>m e. 0" "[]"] by auto

end
