(* ===== verification/Request_Receiver.thy ===== *)
theory Request_Receiver
  imports Messages Direct_Receiver
begin

text \<open>
  The request-reply message receiver (\<^verbatim>\<open>internal/impl/receiver/request_reply_message_receiver_impl.go\<close>). It hands its
  life cycle and its subscriptions to a direct receiver, as it is; its own part is the replier that comes with a request, and the
  reply. The arguments named \<open>replyTo\<close> and \<open>correlation\<close> are what the C library answers about a request.
\<close>

section \<open>Repliers\<close>

definition GetCorrelationID :: "string \<times> ErrorInfo option \<Rightarrow> string \<times> bool" where
  "GetCorrelationID answer = (c_string (fst answer), if snd answer \<noteq> None then False else True)"

record replierImpl =
  replier_correlationID :: string
  replier_replyToDestination :: string

definition NewReplierImpl :: "string \<times> ErrorInfo option \<Rightarrow> string \<times> ErrorInfo option \<Rightarrow> replierImpl option" where
  "NewReplierImpl replyTo correlation =
     (case GetReplyToDestinationName replyTo of
        (replyToDestination, ok) \<Rightarrow>
          if \<not> ok then None
          else (case GetCorrelationID correlation of
                  (correlationID, ok) \<Rightarrow>
                    if \<not> ok then None
                    else Some \<lparr>replier_correlationID = correlationID, replier_replyToDestination = replyToDestination\<rparr>))"

text \<open>What the application gives as a reply: nothing, a message of another implementation, or one of the builder's.\<close>

datatype reply_argument = NilMessage | ForeignMessage | OurMessage outbound_message

definition ReplierFailureToPublishReply :: string where
  "ReplierFailureToPublishReply = ''Publish Reply Error: ''"

text \<open>
  The result has the error, the messages that the session took, and the copy as it is left behind. The calls of the C
  library are the duplication, the three setters and the publishing.
\<close>

definition Reply ::
    "(nat \<Rightarrow> ErrorInfo option) \<Rightarrow> replierImpl \<Rightarrow> reply_argument
       \<Rightarrow> go_error option \<times> outbound_message list \<times> outbound_message option" where
  "Reply lib replier msg =
     (case msg of
        NilMessage \<Rightarrow> (Some (NewError IllegalArgumentError ''Replier must have OutboundMessage not nil'' [] None), [], None)
      | ForeignMessage \<Rightarrow>
          (Some (NewError IllegalArgumentError ''Replier must have OutboundMessage from OutboundMessageBuilder'' [] None), [], None)
      | OurMessage msgImpl \<Rightarrow>
          (case DuplicateOutboundMessage (lib 0) msgImpl of
             Inl err \<Rightarrow> (Some err, [], None)
           | Inr replyMsg \<Rightarrow>
               (case SetAsReplyMessage (\<lambda>k. lib (k + 1)) replyMsg (replier_replyToDestination replier) (replier_correlationID replier) of
                  (Some err, replyMsg) \<Rightarrow> (Some err, [], Some (outbound_Dispose replyMsg))
                | (None, replyMsg) \<Rightarrow>
                    (case lib 4 of
                       None \<Rightarrow> (None, [replyMsg], Some (outbound_Dispose replyMsg))
                     | Some errInfo \<Rightarrow>
                         (let err = (if ReturnCode errInfo = SolClientReturnCodeWouldBlock
                                     then NewError PublisherOverflowError WouldBlock [] None
                                     else ToNativeError errInfo ReplierFailureToPublishReply)
                          in (Some err, [], Some (outbound_Dispose replyMsg)))))))"

section \<open>Receiving\<close>

text \<open>\<^verbatim>\<open>ReceiveMessage\<close>, with the result of the direct receiver, and what a registered callback is called with.\<close>

definition request_ReceiveMessage ::
    "go_error + 'm \<Rightarrow> ('m \<Rightarrow> (string \<times> ErrorInfo option) \<times> (string \<times> ErrorInfo option))
       \<Rightarrow> 'm option \<times> replierImpl option \<times> go_error option" where
  "request_ReceiveMessage received answers =
     (case received of
        Inl err \<Rightarrow> (None, None, Some err)
      | Inr inboundMessage \<Rightarrow>
          (case NewReplierImpl (fst (answers inboundMessage)) (snd (answers inboundMessage)) of
             Some replier \<Rightarrow> (Some inboundMessage, Some replier, None)
           | None \<Rightarrow> (Some inboundMessage, None, None)))"

definition request_callback ::
    "('m \<Rightarrow> (string \<times> ErrorInfo option) \<times> (string \<times> ErrorInfo option)) \<Rightarrow> ('m \<Rightarrow> replierImpl option \<Rightarrow> 'r) \<Rightarrow> 'm \<Rightarrow> 'r" where
  "request_callback answers callback msg =
     (case NewReplierImpl (fst (answers msg)) (snd (answers msg)) of
        Some replier \<Rightarrow> callback msg (Some replier)
      | None \<Rightarrow> callback msg None)"

definition request_ReceiveAsync ::
    "('m \<Rightarrow> (string \<times> ErrorInfo option) \<times> (string \<times> ErrorInfo option)) \<Rightarrow> ('m \<Rightarrow> replierImpl option \<Rightarrow> 'r) option
       \<Rightarrow> ('m \<Rightarrow> 'r) directMessageReceiverImpl \<Rightarrow> go_error option \<times> ('m \<Rightarrow> 'r) directMessageReceiverImpl" where
  "request_ReceiveAsync answers callback receiver =
     (case callback of
        Some callback \<Rightarrow> ReceiveAsync (Some (request_callback answers callback)) receiver
      | None \<Rightarrow> ReceiveAsync None receiver)"

section \<open>The builder\<close>

definition request_BuildWithSharedSubscription ::
    "(int \<Rightarrow> int \<Rightarrow> u64) \<Rightarrow> property_map \<Rightarrow> Subscription option \<Rightarrow> string option
       \<Rightarrow> go_error + 'cb directMessageReceiverImpl" where
  "request_BuildWithSharedSubscription oor properties requestTopicSubscription share =
     (case requestTopicSubscription of
        None \<Rightarrow>
          Inl (NewError InvalidConfigurationError
            ''RequestReplyReceiverBuilder must have a requestTopicSubscription subscription'' [] None)
      | Some subscription \<Rightarrow> BuildWithShareName oor properties [subscription] share)"

definition request_receiver_Build where
  "request_receiver_Build oor properties requestTopicSubscription =
     request_BuildWithSharedSubscription oor properties requestTopicSubscription None"

section \<open>Replies\<close>

text \<open>The two ways of receiving agree on the replier.\<close>

lemma request_callback_replier:
  "request_callback answers (\<lambda>msg replier. (Some msg, replier, None)) msg = request_ReceiveMessage (Inr msg) answers"
  by (simp add: request_callback_def request_ReceiveMessage_def split: option.splits)

definition reply_headers :: "string \<Rightarrow> string \<Rightarrow> message_set list" where
  "reply_headers replyTo correlation =
     [SetDestination SOLCLIENT_TOPIC_DESTINATION (c_string replyTo), SetCorrelationID (c_string correlation), SetAsReply True]"

lemma SetAsReplyMessage_cases:
  "case SetAsReplyMessage lib m replyTo correlation of
     (None, m') \<Rightarrow> m' = m\<lparr>message_sets := message_sets m @ reply_headers replyTo correlation\<rparr>
   | (Some err, m') \<Rightarrow> (\<exists>sets. m' = m\<lparr>message_sets := sets\<rparr>) \<and> refused lib err"
proof -
  have m: "\<exists>sets. m = m\<lparr>message_sets := sets\<rparr>" by (rule exI [of _ "message_sets m"]) simp
  show ?thesis
    using m by (cases "lib 0"; cases "lib 1"; cases "lib 2")
      (auto simp: SetAsReplyMessage_def message_SetDestination_def message_SetCorrelationID_def message_setter_def
        reply_headers_def intro: refusedI)
qed

definition fresh_copy :: "outbound_message \<Rightarrow> bool" where
  "fresh_copy m \<longleftrightarrow> \<not> message_disposed m \<and> message_frees m = 0"

lemma fresh_copy_freed: "fresh_copy m \<Longrightarrow> message_frees (outbound_finalize (outbound_Dispose m)) = 1"
  by (simp add: fresh_copy_def outbound_finalize_def outbound_Dispose_def)

definition reply_error :: "(nat \<Rightarrow> ErrorInfo option) \<Rightarrow> go_error \<Rightarrow> bool" where
  "reply_error lib err \<longleftrightarrow>
     error_kind_of err = Some IllegalArgumentError \<or> refused lib err \<or>
     error_kind_of err = Some PublisherOverflowError \<and> (\<exists>e. lib 4 = Some e \<and> ReturnCode e = SolClientReturnCodeWouldBlock)"

lemma refused_shift: "refused (\<lambda>k. lib (k + 1)) err \<Longrightarrow> refused lib err"
  by (auto simp: refused_def)

lemma Reply_result:
  "case Reply lib replier msg of
     (None, sent, copy) \<Rightarrow>
       (\<exists>m. msg = OurMessage m \<and>
          sent = [m\<lparr>message_sets := message_sets m @ reply_headers (replier_replyToDestination replier) (replier_correlationID replier),
                    message_disposed := False, message_frees := 0\<rparr>]) \<and>
       (\<exists>m. copy = Some (outbound_Dispose m) \<and> fresh_copy m)
   | (Some err, sent, copy) \<Rightarrow> sent = [] \<and> (copy = None \<or> (\<exists>m. copy = Some (outbound_Dispose m) \<and> fresh_copy m)) \<and> reply_error lib err"
proof (cases msg)
  case (OurMessage m)
  let ?m = "m\<lparr>message_disposed := False, message_frees := 0\<rparr>"
  show ?thesis
  proof (cases "lib 0")
    case None
    obtain err r where set: "SetAsReplyMessage (\<lambda>k. lib (k + 1)) ?m (replier_replyToDestination replier) (replier_correlationID replier) = (err, r)"
      by fastforce
    note cases = SetAsReplyMessage_cases [where lib = "\<lambda>k. lib (k + 1)" and m = ?m and replyTo = "replier_replyToDestination replier"
        and correlation = "replier_correlationID replier", unfolded set]
    have r: "fresh_copy r" using cases by (cases err) (auto simp: fresh_copy_def)
    show ?thesis
    proof (cases err)
      case None
      then show ?thesis using cases set r \<open>lib 0 = None\<close>
        by (cases "lib 4")
          (auto simp: Reply_def OurMessage DuplicateOutboundMessage_def Let_def reply_error_def NewError_def intro!: refusedI)
    next
      case (Some e)
      then show ?thesis using cases set r \<open>lib 0 = None\<close> refused_shift [of lib e]
        by (auto simp: Reply_def OurMessage DuplicateOutboundMessage_def reply_error_def)
    qed
  next
    case (Some e)
    then show ?thesis by (auto simp: Reply_def OurMessage DuplicateOutboundMessage_def reply_error_def intro!: refusedI)
  qed
qed (simp_all add: Reply_def reply_error_def NewError_def)

lemma NewReplierImpl_request:
  "NewReplierImpl (replyTo, replyToErr) (correlation, correlationErr) =
     (if replyToErr = None \<and> correlationErr = None
      then Some \<lparr>replier_correlationID = c_string correlation, replier_replyToDestination = c_string replyTo\<rparr> else None)"
  by (simp add: NewReplierImpl_def GetReplyToDestinationName_def GetCorrelationID_def)

text \<open>
  C14. A reply goes where the request asked for it, and its copy is freed once. Only a request with a reply-to destination and a correlation
  identifier has a replier. Whatever the C library answers, the caller's message is not changed: when \<^verbatim>\<open>Reply\<close>
  returns no error, exactly one message was taken by the session, a copy of the given one with the destination and
  the correlation identifier of the request and the mark of a reply added last; when it returns an error, none was, and the error is one of the argument, a
  refused call, or, when the session would block, a publisher overflow; and the copy is freed exactly once in each case.
\<close>

proposition reply_addressed:
  "(NewReplierImpl (replyTo, replyToErr) (correlation, correlationErr) \<noteq> None \<longleftrightarrow> replyToErr = None \<and> correlationErr = None) \<and>
   (\<forall>replier. NewReplierImpl (replyTo, replyToErr) (correlation, correlationErr) = Some replier \<longrightarrow>
     (case Reply lib replier msg of
        (None, sent, copy) \<Rightarrow>
          (\<exists>m. msg = OurMessage m \<and>
             sent = [m\<lparr>message_sets := message_sets m @ reply_headers replyTo correlation, message_disposed := False, message_frees := 0\<rparr>]) \<and>
          (\<exists>m. copy = Some m \<and> message_frees (outbound_finalize m) = 1)
      | (Some err, sent, copy) \<Rightarrow>
          sent = [] \<and> (copy = None \<or> (\<exists>m. copy = Some m \<and> message_frees (outbound_finalize m) = 1)) \<and>
          (error_kind_of err = Some IllegalArgumentError \<or> refused lib err \<or>
           error_kind_of err = Some PublisherOverflowError \<and> (\<exists>e. lib 4 = Some e \<and> ReturnCode e = SolClientReturnCodeWouldBlock))))"
proof -
  let ?r = "\<lparr>replier_correlationID = c_string correlation, replier_replyToDestination = c_string replyTo\<rparr>"
  have "reply_headers (c_string replyTo) (c_string correlation) = reply_headers replyTo correlation"
    by (simp add: reply_headers_def)
  then show ?thesis
    using Reply_result [where lib = lib and replier = ?r and msg = msg]
    by (cases "Reply lib ?r msg") (auto simp: NewReplierImpl_request reply_error_def [symmetric] fresh_copy_freed split: option.splits)
qed

theorem reply_addressed_witness:
  "\<exists>sent copy. Reply (\<lambda>k. None) (the (NewReplierImpl (''reply/1'', None) (''c7'', None))) (OurMessage fresh_message) = (None, [sent], copy) \<and>
     message_sets sent = [SetDestination SOLCLIENT_TOPIC_DESTINATION ''reply/1'', SetCorrelationID ''c7'', SetAsReply True]"
proof -
  let ?r = "the (NewReplierImpl (''reply/1'', None) (''c7'', None))"
  obtain sent copy where r: "Reply (\<lambda>k. None) ?r (OurMessage fresh_message) = (None, sent, copy)"
    by (simp add: Reply_def DuplicateOutboundMessage_def SetAsReplyMessage_def message_SetDestination_def
        message_SetCorrelationID_def message_setter_def)
  have "NewReplierImpl (''reply/1'', None) (''c7'', None) = Some ?r" by (simp add: NewReplierImpl_request)
  then show ?thesis
    using reply_addressed [where replyTo = "''reply/1''" and correlation = "''c7''" and replyToErr = None and correlationErr = None and lib = "\<lambda>k. None"
        and msg = "OurMessage fresh_message"] r
    by (auto simp: reply_headers_def fresh_message_def c_string_def)
qed

end
