(* ===== verification/Service_Builder.thy ===== *)
theory Service_Builder
  imports Config_Format Validation Core_Errors "HOL-Library.Signed_Division"
begin

text \<open>
  The builder of the messaging service (\<^verbatim>\<open>internal/impl/messaging_service_builder_impl.go\<close>), the table of its
  properties (\<^verbatim>\<open>internal/impl/messaging_service_property_mapping.go\<close>), and the strategies that fill them
  (\<^verbatim>\<open>pkg/solace/config/messaging_service_strategies.go\<close>). Maps list their entries in the order in which \<^verbatim>\<open>range\<close> visits
  them. The names of the properties of the C library and its two texts for true and false are constants of C, which
  differ from each other. What \<^verbatim>\<open>%v\<close> prints for a value that is no text, number or truth value is an argument.
\<close>

section \<open>Properties\<close>

text \<open>The keys of the API, and those it does not know.\<close>

datatype ServiceProperty =
    AuthenticationPropertyScheme
  | AuthenticationPropertySchemeBasicUserName
  | AuthenticationPropertySchemeBasicPassword
  | AuthenticationPropertySchemeSSLClientCertFile
  | AuthenticationPropertySchemeSSLClientPrivateKeyFile
  | AuthenticationPropertySchemeClientCertPrivateKeyFilePassword
  | AuthenticationPropertySchemeClientCertUserName
  | AuthenticationPropertySchemeKerberosInstanceName
  | AuthenticationPropertySchemeKerberosUserName
  | AuthenticationPropertySchemeOAuth2AccessToken
  | AuthenticationPropertySchemeOAuth2IssuerIdentifier
  | AuthenticationPropertySchemeOAuth2OIDCIDToken
  | ClientPropertyName
  | ClientPropertyApplicationDescription
  | ServicePropertyVPNName
  | ServicePropertyGenerateSenderID
  | ServicePropertyGenerateSendTimestamps
  | ServicePropertyGenerateReceiveTimestamps
  | ServicePropertyReceiverDirectSubscriptionReapply
  | ServicePropertyProvisionTimeoutMs
  | ServicePropertyPayloadCompressionLevel
  | TransportLayerPropertyHost
  | TransportLayerPropertyConnectionAttemptsTimeout
  | TransportLayerPropertyConnectionRetries
  | TransportLayerPropertyConnectionRetriesPerHost
  | TransportLayerPropertyReconnectionAttempts
  | TransportLayerPropertyReconnectionAttemptsWaitInterval
  | TransportLayerPropertyKeepAliveInterval
  | TransportLayerPropertyKeepAliveWithoutResponseLimit
  | TransportLayerPropertySocketOutputBufferSize
  | TransportLayerPropertySocketInputBufferSize
  | TransportLayerPropertySocketTCPOptionNoDelay
  | TransportLayerPropertyCompressionLevel
  | TransportLayerSecurityPropertyCertValidated
  | TransportLayerSecurityPropertyCertRejectExpired
  | TransportLayerSecurityPropertyCertValidateServername
  | TransportLayerSecurityPropertyExcludedProtocols
  | TransportLayerSecurityPropertyMinimumProtocol
  | TransportLayerSecurityPropertyMaximumProtocol
  | TransportLayerSecurityPropertyProtocolDowngradeTo
  | TransportLayerSecurityPropertyCipherSuites
  | TransportLayerSecurityPropertyTrustStorePath
  | TransportLayerSecurityPropertyTrustedCommonNameList
  | OtherServiceProperty string

fun service_property_name :: "ServiceProperty \<Rightarrow> string" where
  "service_property_name AuthenticationPropertyScheme = ''solace.messaging.authentication.scheme''"
| "service_property_name AuthenticationPropertySchemeBasicUserName = ''solace.messaging.authentication.basic.username''"
| "service_property_name AuthenticationPropertySchemeBasicPassword = ''solace.messaging.authentication.basic.password''"
| "service_property_name AuthenticationPropertySchemeSSLClientCertFile = ''solace.messaging.authentication.client-cert.file''"
| "service_property_name AuthenticationPropertySchemeSSLClientPrivateKeyFile = ''solace.messaging.authentication.client-cert.private-key-file''"
| "service_property_name AuthenticationPropertySchemeClientCertPrivateKeyFilePassword = ''solace.messaging.authentication.client-cert.private-key-password''"
| "service_property_name AuthenticationPropertySchemeClientCertUserName = ''solace.messaging.authentication.client-cert.username''"
| "service_property_name AuthenticationPropertySchemeKerberosInstanceName = ''solace.messaging.authentication.kerberos.instance-name''"
| "service_property_name AuthenticationPropertySchemeKerberosUserName = ''solace.messaging.authentication.kerberos.username''"
| "service_property_name AuthenticationPropertySchemeOAuth2AccessToken = ''solace.messaging.authentication.oauth2.access-token''"
| "service_property_name AuthenticationPropertySchemeOAuth2IssuerIdentifier = ''solace.messaging.authentication.oauth2.issuer-identifier''"
| "service_property_name AuthenticationPropertySchemeOAuth2OIDCIDToken = ''solace.messaging.authentication.oauth2.oidc-id-token''"
| "service_property_name ClientPropertyName = ''solace.messaging.client.name''"
| "service_property_name ClientPropertyApplicationDescription = ''solace.messaging.client.application-description''"
| "service_property_name ServicePropertyVPNName = ''solace.messaging.service.vpn-name''"
| "service_property_name ServicePropertyGenerateSenderID = ''solace.messaging.service.generate-sender-id''"
| "service_property_name ServicePropertyGenerateSendTimestamps = ''solace.messaging.service.generate-send-timestamps''"
| "service_property_name ServicePropertyGenerateReceiveTimestamps = ''solace.messaging.service.generate-receive-timestamps''"
| "service_property_name ServicePropertyReceiverDirectSubscriptionReapply = ''solace.messaging.service.receivers.direct.subscription.reapply''"
| "service_property_name ServicePropertyProvisionTimeoutMs = ''solace.messaging.management.endpoint.provision-timeout''"
| "service_property_name ServicePropertyPayloadCompressionLevel = ''solace.messaging.service.payload-compression-level''"
| "service_property_name TransportLayerPropertyHost = ''solace.messaging.transport.host''"
| "service_property_name TransportLayerPropertyConnectionAttemptsTimeout = ''solace.messaging.transport.connection-attempts-timeout''"
| "service_property_name TransportLayerPropertyConnectionRetries = ''solace.messaging.transport.connection-retries''"
| "service_property_name TransportLayerPropertyConnectionRetriesPerHost = ''solace.messaging.transport.connection.retries-per-host''"
| "service_property_name TransportLayerPropertyReconnectionAttempts = ''solace.messaging.transport.reconnection-attempts''"
| "service_property_name TransportLayerPropertyReconnectionAttemptsWaitInterval = ''solace.messaging.transport.reconnection-attempts-wait-interval''"
| "service_property_name TransportLayerPropertyKeepAliveInterval = ''solace.messaging.transport.keep-alive-interval''"
| "service_property_name TransportLayerPropertyKeepAliveWithoutResponseLimit = ''solace.messaging.transport.keep-alive-without-response-limit''"
| "service_property_name TransportLayerPropertySocketOutputBufferSize = ''solace.messaging.transport.socket.output-buffer-size''"
| "service_property_name TransportLayerPropertySocketInputBufferSize = ''solace.messaging.transport.socket.input-buffer-size''"
| "service_property_name TransportLayerPropertySocketTCPOptionNoDelay = ''solace.messaging.transport.socket.tcp-option-no-delay''"
| "service_property_name TransportLayerPropertyCompressionLevel = ''solace.messaging.transport.compression-level''"
| "service_property_name TransportLayerSecurityPropertyCertValidated = ''solace.messaging.tls.cert-validated''"
| "service_property_name TransportLayerSecurityPropertyCertRejectExpired = ''solace.messaging.tls.cert-reject-expired''"
| "service_property_name TransportLayerSecurityPropertyCertValidateServername = ''solace.messaging.tls.cert-validate-servername''"
| "service_property_name TransportLayerSecurityPropertyExcludedProtocols = ''solace.messaging.tls.excluded-protocols''"
| "service_property_name TransportLayerSecurityPropertyMinimumProtocol = ''solace.messaging.tls.minimum-protocol''"
| "service_property_name TransportLayerSecurityPropertyMaximumProtocol = ''solace.messaging.tls.maximum-protocol''"
| "service_property_name TransportLayerSecurityPropertyProtocolDowngradeTo = ''solace.messaging.tls.protocol-downgrade-to''"
| "service_property_name TransportLayerSecurityPropertyCipherSuites = ''solace.messaging.tls.cipher-suites''"
| "service_property_name TransportLayerSecurityPropertyTrustStorePath = ''solace.messaging.tls.trust-store-path''"
| "service_property_name TransportLayerSecurityPropertyTrustedCommonNameList = ''solace.messaging.tls.trusted-common-name-list''"
| "service_property_name (OtherServiceProperty s) = s"

text \<open>The names of the session properties of the C library, as far as they are used.\<close>

datatype ccsmp_session_property =
    SolClientSessionPropAuthenticationScheme
  | SolClientSessionPropPassword
  | SolClientSessionPropSslClientCertificateFile
  | SolClientSessionPropSslClientPrivateKeyFile
  | SolClientSessionPropSslClientPrivateKeyFilePassword
  | SolClientSessionPropKrbServiceName
  | SolClientSessionPropOauth2AccessToken
  | SolClientSessionPropOauth2IssuerIdentifier
  | SolClientSessionPropOidcIDToken
  | SolClientSessionPropClientName
  | SolClientSessionPropApplicationDescription
  | SolClientSessionPropVpnName
  | SolClientSessionPropGenerateSenderID
  | SolClientSessionPropGenerateSendTimestamps
  | SolClientSessionPropGenerateRcvTimestamps
  | SolClientSessionPropReapplySubscriptions
  | SolClientSessionPropProvisionTimeoutMs
  | SolClientSessionPropPayloadCompressionLevel
  | SolClientSessionPropHost
  | SolClientSessionPropConnectTimeoutMs
  | SolClientSessionPropConnectRetries
  | SolClientSessionPropConnectRetriesPerHost
  | SolClientSessionPropReconnectRetries
  | SolClientSessionPropReconnectRetryWaitMs
  | SolClientSessionPropKeepAliveIntMs
  | SolClientSessionPropKeepAliveLimit
  | SolClientSessionPropSocketRcvBufSize
  | SolClientSessionPropSocketSendBufSize
  | SolClientSessionPropTCPNodelay
  | SolClientSessionPropCompressionLevel
  | SolClientSessionPropSslValidateCertificate
  | SolClientSessionPropSslValidateCertificateDate
  | SolClientSessionPropSslValidateCertificateHost
  | SolClientSessionPropSslExcludedProtocols
  | SolClientSessionPropSslConnectionDowngradeTo
  | SolClientSessionPropSslCipherSuites
  | SolClientSessionPropSslTrustStoreDir
  | SolClientSessionPropSslTrustedCommonNameList
  | SolClientSessionPropMinimumTlsProtocolVersion
  | SolClientSessionPropMaximumTlsProtocolVersion
  | SolClientSessionPropTopicDispatch
  | SolClientSessionPropSendBlocking
  | SolClientSessionPropIgnoreDupSubscriptionError
  | SolClientSessionPropGuaranteedWithWebTransport
  | SolClientSessionPropPubWindowSize
  | SolClientSessionPropUsername

datatype service_value = ServiceValue go_value | ServiceDuration u64

datatype prop_text = EnableVal | DisableVal | Text string

datatype propertyConverter = UseDefaultConverter | UseBooleanConverter | UseDurationConverter

type_synonym service_property_map = "(ServiceProperty \<times> service_value) list"

text \<open>\<^verbatim>\<open>fmt.Sprintf\<close> with \<^verbatim>\<open>%v\<close>.\<close>

fun defaultConverter :: "(service_value \<Rightarrow> string) \<Rightarrow> service_value \<Rightarrow> string" where
  "defaultConverter other (ServiceValue VNil) = ''<nil>''"
| "defaultConverter other (ServiceValue (VString s)) = s"
| "defaultConverter other (ServiceValue (VBool b)) = (if b then ''true'' else ''false'')"
| "defaultConverter other (ServiceValue (VInt i)) = print_int (sint i)"
| "defaultConverter other (ServiceValue (VInt32 j)) = print_int (sint j)"
| "defaultConverter other (ServiceValue (VInt64 i)) = print_int (sint i)"
| "defaultConverter other (ServiceValue (VUint i)) = print_int (uint i)"
| "defaultConverter other (ServiceValue (VUint32 j)) = print_int (uint j)"
| "defaultConverter other (ServiceValue (VUint64 i)) = print_int (uint i)"
| "defaultConverter other v = other v"

fun booleanConverter :: "service_value \<Rightarrow> prop_text" where
  "booleanConverter (ServiceValue (VBool b)) = (if b then EnableVal else DisableVal)"
| "booleanConverter (ServiceValue (VString s)) = (if s = ''true'' then EnableVal else DisableVal)"
| "booleanConverter (ServiceValue (VInt i)) = (if i = 0 then DisableVal else EnableVal)"
| "booleanConverter (ServiceValue (VFloat64 m e)) = (if m = 0 then DisableVal else EnableVal)"
| "booleanConverter v = DisableVal"

fun durationConverter :: "(service_value \<Rightarrow> string) \<Rightarrow> service_value \<Rightarrow> string" where
  "durationConverter other (ServiceDuration d) = print_int (sint d sdiv 1000000)"
| "durationConverter other v = defaultConverter other v"

fun convert :: "(service_value \<Rightarrow> string) \<Rightarrow> propertyConverter \<Rightarrow> service_value \<Rightarrow> prop_text" where
  "convert other UseDefaultConverter v = Text (defaultConverter other v)"
| "convert other UseBooleanConverter v = booleanConverter v"
| "convert other UseDurationConverter v = Text (durationConverter other v)"

definition servicePropertyToCCSMPMap :: "(ServiceProperty \<times> ccsmp_session_property \<times> propertyConverter) list" where
  "servicePropertyToCCSMPMap =
    [(AuthenticationPropertyScheme, SolClientSessionPropAuthenticationScheme, UseDefaultConverter),
     (AuthenticationPropertySchemeBasicPassword, SolClientSessionPropPassword, UseDefaultConverter),
     (AuthenticationPropertySchemeSSLClientCertFile, SolClientSessionPropSslClientCertificateFile, UseDefaultConverter),
     (AuthenticationPropertySchemeSSLClientPrivateKeyFile, SolClientSessionPropSslClientPrivateKeyFile, UseDefaultConverter),
     (AuthenticationPropertySchemeClientCertPrivateKeyFilePassword, SolClientSessionPropSslClientPrivateKeyFilePassword, UseDefaultConverter),
     (AuthenticationPropertySchemeKerberosInstanceName, SolClientSessionPropKrbServiceName, UseDefaultConverter),
     (AuthenticationPropertySchemeOAuth2AccessToken, SolClientSessionPropOauth2AccessToken, UseDefaultConverter),
     (AuthenticationPropertySchemeOAuth2IssuerIdentifier, SolClientSessionPropOauth2IssuerIdentifier, UseDefaultConverter),
     (AuthenticationPropertySchemeOAuth2OIDCIDToken, SolClientSessionPropOidcIDToken, UseDefaultConverter),
     (ClientPropertyName, SolClientSessionPropClientName, UseDefaultConverter),
     (ClientPropertyApplicationDescription, SolClientSessionPropApplicationDescription, UseDefaultConverter),
     (ServicePropertyVPNName, SolClientSessionPropVpnName, UseDefaultConverter),
     (ServicePropertyGenerateSenderID, SolClientSessionPropGenerateSenderID, UseBooleanConverter),
     (ServicePropertyGenerateSendTimestamps, SolClientSessionPropGenerateSendTimestamps, UseBooleanConverter),
     (ServicePropertyGenerateReceiveTimestamps, SolClientSessionPropGenerateRcvTimestamps, UseBooleanConverter),
     (ServicePropertyReceiverDirectSubscriptionReapply, SolClientSessionPropReapplySubscriptions, UseBooleanConverter),
     (ServicePropertyProvisionTimeoutMs, SolClientSessionPropProvisionTimeoutMs, UseDurationConverter),
     (ServicePropertyPayloadCompressionLevel, SolClientSessionPropPayloadCompressionLevel, UseDefaultConverter),
     (TransportLayerPropertyHost, SolClientSessionPropHost, UseDefaultConverter),
     (TransportLayerPropertyConnectionAttemptsTimeout, SolClientSessionPropConnectTimeoutMs, UseDurationConverter),
     (TransportLayerPropertyConnectionRetries, SolClientSessionPropConnectRetries, UseDefaultConverter),
     (TransportLayerPropertyConnectionRetriesPerHost, SolClientSessionPropConnectRetriesPerHost, UseDefaultConverter),
     (TransportLayerPropertyReconnectionAttempts, SolClientSessionPropReconnectRetries, UseDefaultConverter),
     (TransportLayerPropertyReconnectionAttemptsWaitInterval, SolClientSessionPropReconnectRetryWaitMs, UseDurationConverter),
     (TransportLayerPropertyKeepAliveInterval, SolClientSessionPropKeepAliveIntMs, UseDurationConverter),
     (TransportLayerPropertyKeepAliveWithoutResponseLimit, SolClientSessionPropKeepAliveLimit, UseDefaultConverter),
     (TransportLayerPropertySocketOutputBufferSize, SolClientSessionPropSocketRcvBufSize, UseDefaultConverter),
     (TransportLayerPropertySocketInputBufferSize, SolClientSessionPropSocketSendBufSize, UseDefaultConverter),
     (TransportLayerPropertySocketTCPOptionNoDelay, SolClientSessionPropTCPNodelay, UseBooleanConverter),
     (TransportLayerPropertyCompressionLevel, SolClientSessionPropCompressionLevel, UseDefaultConverter),
     (TransportLayerSecurityPropertyCertValidated, SolClientSessionPropSslValidateCertificate, UseBooleanConverter),
     (TransportLayerSecurityPropertyCertRejectExpired, SolClientSessionPropSslValidateCertificateDate, UseBooleanConverter),
     (TransportLayerSecurityPropertyCertValidateServername, SolClientSessionPropSslValidateCertificateHost, UseBooleanConverter),
     (TransportLayerSecurityPropertyExcludedProtocols, SolClientSessionPropSslExcludedProtocols, UseDefaultConverter),
     (TransportLayerSecurityPropertyProtocolDowngradeTo, SolClientSessionPropSslConnectionDowngradeTo, UseDefaultConverter),
     (TransportLayerSecurityPropertyCipherSuites, SolClientSessionPropSslCipherSuites, UseDefaultConverter),
     (TransportLayerSecurityPropertyTrustStorePath, SolClientSessionPropSslTrustStoreDir, UseDefaultConverter),
     (TransportLayerSecurityPropertyTrustedCommonNameList, SolClientSessionPropSslTrustedCommonNameList, UseDefaultConverter),
     (TransportLayerSecurityPropertyMinimumProtocol, SolClientSessionPropMinimumTlsProtocolVersion, UseDefaultConverter),
     (TransportLayerSecurityPropertyMaximumProtocol, SolClientSessionPropMaximumTlsProtocolVersion, UseDefaultConverter)]"

definition DefaultCcsmpProperties :: "(ccsmp_session_property \<times> prop_text) list" where
  "DefaultCcsmpProperties =
    [(SolClientSessionPropTopicDispatch, EnableVal),
     (SolClientSessionPropSendBlocking, DisableVal),
     (SolClientSessionPropReapplySubscriptions, EnableVal),
     (SolClientSessionPropIgnoreDupSubscriptionError, EnableVal),
     (SolClientSessionPropReconnectRetries, Text ''3''),
     (SolClientSessionPropGuaranteedWithWebTransport, EnableVal),
     (SolClientSessionPropPubWindowSize, Text ''255'')]"

section \<open>Authentication schemes\<close>

definition AuthenticationSchemeBasic :: string where
  "AuthenticationSchemeBasic = ''AUTHENTICATION_SCHEME_BASIC''"
definition AuthenticationSchemeClientCertificate :: string where
  "AuthenticationSchemeClientCertificate = ''AUTHENTICATION_SCHEME_CLIENT_CERTIFICATE''"
definition AuthenticationSchemeKerberos :: string where
  "AuthenticationSchemeKerberos = ''AUTHENTICATION_SCHEME_GSS_KRB''"
definition AuthenticationSchemeOAuth2 :: string where
  "AuthenticationSchemeOAuth2 = ''AUTHENTICATION_SCHEME_OAUTH2''"
definition DefaultAuthenticationScheme :: string where
  "DefaultAuthenticationScheme = AuthenticationSchemeBasic"

lemmas scheme_defs = AuthenticationSchemeBasic_def AuthenticationSchemeClientCertificate_def
  AuthenticationSchemeKerberos_def AuthenticationSchemeOAuth2_def DefaultAuthenticationScheme_def

definition authenticationStrategyToUsernamePropertyMapping :: "(string \<times> ServiceProperty) list" where
  "authenticationStrategyToUsernamePropertyMapping =
    [(AuthenticationSchemeBasic, AuthenticationPropertySchemeBasicUserName),
     (AuthenticationSchemeClientCertificate, AuthenticationPropertySchemeClientCertUserName),
     (AuthenticationSchemeKerberos, AuthenticationPropertySchemeKerberosUserName)]"

definition authenticationSchemeRequiredPropertyMap :: "(string \<times> ServiceProperty list list) list" where
  "authenticationSchemeRequiredPropertyMap =
    [(AuthenticationSchemeBasic, [[AuthenticationPropertySchemeBasicUserName], [AuthenticationPropertySchemeBasicPassword]]),
     (AuthenticationSchemeClientCertificate,
        [[AuthenticationPropertySchemeSSLClientCertFile], [AuthenticationPropertySchemeSSLClientPrivateKeyFile]]),
     (AuthenticationSchemeOAuth2,
        [[AuthenticationPropertySchemeOAuth2AccessToken, AuthenticationPropertySchemeOAuth2OIDCIDToken]])]"

definition requiredServiceProperties :: "ServiceProperty list" where
  "requiredServiceProperties = [TransportLayerPropertyHost, ServicePropertyVPNName]"

section \<open>Building\<close>

definition MissingServiceProperty :: string where
  "MissingServiceProperty = ''property %s is required to build a messaging service''"
definition MissingServicePropertyGivenScheme :: string where
  "MissingServicePropertyGivenScheme = ''property %s is required when using authentication scheme %s''"
definition MissingServicePropertiesGivenScheme :: string where
  "MissingServicePropertiesGivenScheme = ''one of properties %s is required when using authentication scheme %s''"

text \<open>A list of properties as \<^verbatim>\<open>%s\<close> prints it.\<close>

definition print_properties :: "ServiceProperty list \<Rightarrow> string" where
  "print_properties ps = ''['' @ join_with CHR '' '' (map service_property_name ps) @ '']''"

definition service_scheme :: "service_property_map \<Rightarrow> service_value" where
  "service_scheme m =
     (case map_of m AuthenticationPropertyScheme of
        Some scheme \<Rightarrow> scheme
      | None \<Rightarrow> ServiceValue (VString DefaultAuthenticationScheme))"

fun required_loop :: "service_property_map \<Rightarrow> ServiceProperty list \<Rightarrow> go_error option" where
  "required_loop m [] = None"
| "required_loop m (requiredProp # rest) =
     (if map_of m requiredProp = None
      then Some (NewError InvalidConfigurationError MissingServiceProperty [ArgStr (service_property_name requiredProp)] None)
      else required_loop m rest)"

fun scheme_loop :: "service_property_map \<Rightarrow> string \<Rightarrow> ServiceProperty list list \<Rightarrow> go_error option" where
  "scheme_loop m scheme [] = None"
| "scheme_loop m scheme (requiredPropsForScheme # rest) =
     (let hasRequiredProp = list_ex (\<lambda>requiredProp. map_of m requiredProp \<noteq> None) requiredPropsForScheme
      in if \<not> hasRequiredProp
         then Some (NewError InvalidConfigurationError
                (if length requiredPropsForScheme > 1 then MissingServicePropertiesGivenScheme else MissingServicePropertyGivenScheme)
                [ArgStr (print_properties requiredPropsForScheme), ArgStr scheme] None)
         else scheme_loop m scheme rest)"

definition validateRequiredProperties :: "(service_value \<Rightarrow> string) \<Rightarrow> service_property_map \<Rightarrow> go_error option" where
  "validateRequiredProperties other m =
     (case required_loop m requiredServiceProperties of
        Some err \<Rightarrow> Some err
      | None \<Rightarrow>
          (let scheme = service_scheme m
           in case map_of authenticationSchemeRequiredPropertyMap (defaultConverter other scheme) of
                None \<Rightarrow> None
              | Some requiredProps \<Rightarrow> scheme_loop m (defaultConverter other scheme) requiredProps))"

text \<open>The user name, and the map without its entry.\<close>

definition getUsername :: "(service_value \<Rightarrow> string) \<Rightarrow> service_property_map \<Rightarrow> string option \<times> service_property_map" where
  "getUsername other m =
     (case map_of authenticationStrategyToUsernamePropertyMapping (defaultConverter other (service_scheme m)) of
        Some configuredUsernameKey \<Rightarrow>
          (case map_of m configuredUsernameKey of
             Some username \<Rightarrow> (Some (defaultConverter other username), AList.delete configuredUsernameKey m)
           | None \<Rightarrow> (None, m))
      | None \<Rightarrow> (None, m))"

text \<open>The property list of the session, as its pairs of a name and a value. \<open>defaults\<close> is the order of the default properties.\<close>

definition property_entry :: "(service_value \<Rightarrow> string) \<Rightarrow> ServiceProperty \<times> service_value \<Rightarrow> (ccsmp_session_property \<times> prop_text) list" where
  "property_entry other e =
     (case map_of servicePropertyToCCSMPMap (fst e) of
        None \<Rightarrow> []
      | Some (solClientPropertyName, converter) \<Rightarrow>
          if snd e = ServiceValue VNil then [] else [(solClientPropertyName, convert other converter (snd e))])"

definition toPropertyList ::
    "(service_value \<Rightarrow> string) \<Rightarrow> (service_property_map \<Rightarrow> service_property_map) \<Rightarrow> (ccsmp_session_property \<times> prop_text) list
       \<Rightarrow> service_property_map \<Rightarrow> (ccsmp_session_property \<times> prop_text) list" where
  "toPropertyList other visit defaults m =
     (case getUsername other m of
        (username, m) \<Rightarrow>
          defaults @
          (case username of Some u \<Rightarrow> [(SolClientSessionPropUsername, Text u)] | None \<Rightarrow> []) @
          concat (map (property_entry other) (visit m)))"

text \<open>\<open>newTransport\<close> is the constructor of the transport.\<close>

definition service_Build ::
    "(service_value \<Rightarrow> string) \<Rightarrow> (service_property_map \<Rightarrow> service_property_map) \<Rightarrow> (ccsmp_session_property \<times> prop_text) list
       \<Rightarrow> (string \<Rightarrow> (ccsmp_session_property \<times> prop_text) list \<Rightarrow> go_error + 't) \<Rightarrow> service_property_map \<Rightarrow> go_error + 't" where
  "service_Build other visit defaults newTransport configuration =
     (case validateRequiredProperties other configuration of
        Some err \<Rightarrow> Inl err
      | None \<Rightarrow>
          (let host = (case map_of configuration TransportLayerPropertyHost of Some host \<Rightarrow> host | None \<Rightarrow> ServiceValue VNil);
               propertyList = toPropertyList other visit defaults configuration
           in newTransport (defaultConverter other host) propertyList))"

section \<open>The methods of the builder\<close>

definition mergeProperties :: "service_property_map option \<Rightarrow> service_property_map \<Rightarrow> service_property_map" where
  "mergeProperties properties configuration =
     (case properties of
        None \<Rightarrow> configuration
      | Some properties \<Rightarrow> fold (\<lambda>(key, value) m. AList.update key value m) properties configuration)"

abbreviation service_text :: "string \<Rightarrow> service_value" where "service_text s \<equiv> ServiceValue (VString s)"

definition service_BuildWithApplicationID :: "string \<Rightarrow> service_property_map \<Rightarrow> service_property_map" where
  "service_BuildWithApplicationID applicationID configuration = AList.update ClientPropertyName (service_text applicationID) configuration"

definition WithConnectionRetryStrategy :: "u64 \<times> u64 \<Rightarrow> service_property_map \<Rightarrow> service_property_map" where
  "WithConnectionRetryStrategy retryStrategy configuration =
     mergeProperties (Some [(TransportLayerPropertyConnectionRetries, ServiceValue (VInt (fst retryStrategy))),
       (TransportLayerPropertyReconnectionAttemptsWaitInterval, ServiceDuration (snd retryStrategy))]) configuration"

definition WithReconnectionRetryStrategy :: "u64 \<times> u64 \<Rightarrow> service_property_map \<Rightarrow> service_property_map" where
  "WithReconnectionRetryStrategy retryStrategy configuration =
     mergeProperties (Some [(TransportLayerPropertyReconnectionAttempts, ServiceValue (VInt (fst retryStrategy))),
       (TransportLayerPropertyReconnectionAttemptsWaitInterval, ServiceDuration (snd retryStrategy))]) configuration"

definition WithMessageCompression :: "u64 \<Rightarrow> service_property_map \<Rightarrow> service_property_map" where
  "WithMessageCompression compressionFactor configuration =
     AList.update TransportLayerPropertyCompressionLevel (ServiceValue (VInt compressionFactor)) configuration"

definition WithProvisionTimeoutMs :: "u64 \<Rightarrow> service_property_map \<Rightarrow> service_property_map" where
  "WithProvisionTimeoutMs timeout configuration =
     AList.update ServicePropertyProvisionTimeoutMs (ServiceDuration timeout) configuration"

definition WithAuthenticationStrategy :: "service_property_map \<Rightarrow> service_property_map \<Rightarrow> service_property_map" where
  "WithAuthenticationStrategy authenticationStrategy configuration = mergeProperties (Some authenticationStrategy) configuration"

definition WithTransportSecurityStrategy :: "service_property_map \<Rightarrow> service_property_map \<Rightarrow> service_property_map" where
  "WithTransportSecurityStrategy transportSecurityStrategy configuration = mergeProperties (Some transportSecurityStrategy) configuration"

section \<open>Strategies\<close>

definition BasicUserNamePasswordAuthentication :: "string \<Rightarrow> string \<Rightarrow> service_property_map" where
  "BasicUserNamePasswordAuthentication username password =
     [(AuthenticationPropertySchemeBasicUserName, service_text username),
      (AuthenticationPropertySchemeBasicPassword, service_text password),
      (AuthenticationPropertyScheme, service_text AuthenticationSchemeBasic)]"

definition ClientCertificateAuthentication :: "string \<Rightarrow> string \<Rightarrow> string \<Rightarrow> service_property_map" where
  "ClientCertificateAuthentication certificateFile keyFile keyPassword =
     [(AuthenticationPropertyScheme, service_text AuthenticationSchemeClientCertificate),
      (AuthenticationPropertySchemeSSLClientCertFile, service_text certificateFile)]
     @ (if keyFile \<noteq> [] then [(AuthenticationPropertySchemeSSLClientPrivateKeyFile, service_text keyFile)] else [])
     @ (if keyPassword \<noteq> [] then [(AuthenticationPropertySchemeClientCertPrivateKeyFilePassword, service_text keyPassword)] else [])"

definition OAuth2Authentication :: "string \<Rightarrow> string \<Rightarrow> string \<Rightarrow> service_property_map" where
  "OAuth2Authentication accessToken oidcIDToken issuerIdentifier =
     [(AuthenticationPropertyScheme, service_text AuthenticationSchemeOAuth2)]
     @ (if length accessToken > 0 then [(AuthenticationPropertySchemeOAuth2AccessToken, service_text accessToken)] else [])
     @ (if length oidcIDToken > 0 then [(AuthenticationPropertySchemeOAuth2OIDCIDToken, service_text oidcIDToken)] else [])
     @ (if length issuerIdentifier > 0 then [(AuthenticationPropertySchemeOAuth2IssuerIdentifier, service_text issuerIdentifier)] else [])"

definition KerberosAuthentication :: "string \<Rightarrow> service_property_map" where
  "KerberosAuthentication serviceName =
     [(AuthenticationPropertyScheme, service_text AuthenticationSchemeKerberos)]
     @ (if length serviceName > 0 then [(AuthenticationPropertySchemeKerberosInstanceName, service_text serviceName)] else [])"

definition RetryStrategyForeverRetry :: "u64 \<times> u64" where
  "RetryStrategyForeverRetry = (- 1, 3000 * 1000000)"

definition RetryStrategyForeverRetryWithInterval :: "u64 \<Rightarrow> u64 \<times> u64" where
  "RetryStrategyForeverRetryWithInterval retryInterval = (- 1, retryInterval)"

definition RetryStrategyNeverRetry :: "u64 \<times> u64" where
  "RetryStrategyNeverRetry = (0, 3000 * 1000000)"

definition RetryStrategyParameterizedRetry :: "u64 \<Rightarrow> u64 \<Rightarrow> u64 \<times> u64" where
  "RetryStrategyParameterizedRetry retries retryInterval = (retries, retryInterval)"

text \<open>The methods of a security strategy change its map and return it.\<close>

definition DowngradeToPlaintext :: string where
  "DowngradeToPlaintext = ''PLAIN_TEXT''"

definition Downgradable :: "service_property_map \<Rightarrow> service_property_map" where
  "Downgradable tss = AList.update TransportLayerSecurityPropertyProtocolDowngradeTo (service_text DowngradeToPlaintext) tss"

definition WithExcludedProtocols :: "string list \<Rightarrow> service_property_map \<Rightarrow> service_property_map" where
  "WithExcludedProtocols protocols tss =
     (let protocolsCS = fold (\<lambda>protocol acc. (if acc \<noteq> [] then acc @ '','' else acc) @ protocol) protocols []
      in AList.update TransportLayerSecurityPropertyExcludedProtocols (service_text protocolsCS) tss)"

definition WithMinimumProtocol :: "string \<Rightarrow> service_property_map \<Rightarrow> service_property_map" where
  "WithMinimumProtocol protocol tss = AList.update TransportLayerSecurityPropertyMinimumProtocol (service_text protocol) tss"

definition WithMaximumProtocol :: "string \<Rightarrow> service_property_map \<Rightarrow> service_property_map" where
  "WithMaximumProtocol protocol tss = AList.update TransportLayerSecurityPropertyMaximumProtocol (service_text protocol) tss"

definition WithoutCertificateValidation :: "service_property_map \<Rightarrow> service_property_map" where
  "WithoutCertificateValidation tss = AList.update TransportLayerSecurityPropertyCertValidated (ServiceValue (VBool False)) tss"

definition WithCertificateValidation ::
    "bool \<Rightarrow> bool \<Rightarrow> string \<Rightarrow> string \<Rightarrow> service_property_map \<Rightarrow> service_property_map" where
  "WithCertificateValidation ignoreExpiration validateServerName trustStoreFilePath trustedCommonNameList tss =
     (let tss = AList.update TransportLayerSecurityPropertyCertValidated (ServiceValue (VBool True)) tss;
          tss = AList.update TransportLayerSecurityPropertyCertRejectExpired (ServiceValue (VBool (\<not> ignoreExpiration))) tss;
          tss = AList.update TransportLayerSecurityPropertyCertValidateServername (ServiceValue (VBool validateServerName)) tss;
          tss = (if trustStoreFilePath \<noteq> []
                 then AList.update TransportLayerSecurityPropertyTrustStorePath (service_text trustStoreFilePath) tss else tss)
      in if trustedCommonNameList \<noteq> []
         then AList.update TransportLayerSecurityPropertyTrustedCommonNameList (service_text trustedCommonNameList) tss else tss)"

definition WithCipherSuites :: "string \<Rightarrow> service_property_map \<Rightarrow> service_property_map" where
  "WithCipherSuites cipherSuiteList tss = AList.update TransportLayerSecurityPropertyCipherSuites (service_text cipherSuiteList) tss"

section \<open>Printing\<close>

definition obfuscation :: string where
  "obfuscation = ''******''"

definition obfuscatedProperties :: "ServiceProperty list" where
  "obfuscatedProperties =
     [AuthenticationPropertySchemeBasicPassword, AuthenticationPropertySchemeClientCertPrivateKeyFilePassword,
      AuthenticationPropertySchemeOAuth2AccessToken, AuthenticationPropertySchemeOAuth2OIDCIDToken]"

text \<open>The map that is printed.\<close>

definition printed_properties :: "service_property_map \<Rightarrow> (string \<times> service_value) list" where
  "printed_properties m =
     map (\<lambda>(key, value).
       (service_property_name key, if list_ex (\<lambda>property. key = property) obfuscatedProperties then service_text obfuscation else value)) m"

section \<open>The settings that take effect\<close>

text \<open>The property of the API behind a property of the session.\<close>

definition setting_for :: "ccsmp_session_property \<Rightarrow> (ServiceProperty \<times> propertyConverter) option" where
  "setting_for p = map_of (map (\<lambda>(k, c, conv). (c, k, conv)) servicePropertyToCCSMPMap) p"

lemma table_keys: "distinct (map fst servicePropertyToCCSMPMap)"
  by (simp add: servicePropertyToCCSMPMap_def)

lemma table_names: "distinct (map (fst \<circ> snd) servicePropertyToCCSMPMap)"
  by (simp add: servicePropertyToCCSMPMap_def)

lemma setting_for_iff: "map_of servicePropertyToCCSMPMap k = Some (c, conv) \<longleftrightarrow> setting_for c = Some (k, conv)"
proof -
  have "distinct (map fst (map (\<lambda>(k, c, conv). (c, k, conv)) servicePropertyToCCSMPMap))"
    using table_names by (simp add: comp_def case_prod_beta)
  then show ?thesis
    unfolding setting_for_def using table_keys by (force simp: map_of_eq_Some_iff)
qed

lemma username_setting: "setting_for SolClientSessionPropUsername = None"
  by (simp add: setting_for_def servicePropertyToCCSMPMap_def)

lemma username_keys:
  "map_of authenticationStrategyToUsernamePropertyMapping s = Some k \<Longrightarrow> map_of servicePropertyToCCSMPMap k = None"
  by (auto simp: authenticationStrategyToUsernamePropertyMapping_def servicePropertyToCCSMPMap_def split: if_splits)

definition effective :: "(service_value \<Rightarrow> string) \<Rightarrow> service_property_map \<Rightarrow> ccsmp_session_property \<Rightarrow> prop_text option" where
  "effective other m p =
     (case setting_for p of
        None \<Rightarrow> None
      | Some (key, converter) \<Rightarrow>
          (case map_of m key of
             None \<Rightarrow> None
           | Some v \<Rightarrow> if v = ServiceValue VNil then None else Some (convert other converter v)))"

lemma effective_cong: "map_of a = map_of b \<Longrightarrow> effective other a p = effective other b p"
  by (auto simp: effective_def split: option.splits)

lemma entries_lookup:
  "distinct (map fst ps) \<Longrightarrow> map_of (rev (concat (map (property_entry other) ps))) p = effective other ps p"
proof (induction ps)
  case (Cons e ps)
  obtain k v where e: "e = (k, v)" by (cases e)
  have fresh: "map_of ps k = None" using Cons.prems e by (force simp: map_of_eq_None_iff)
  have IH: "map_of (rev (concat (map (property_entry other) ps))) p = effective other ps p" using Cons by simp
  show ?case
  proof (cases "map_of servicePropertyToCCSMPMap k")
    case None
    then have "setting_for p = Some (k', conv) \<Longrightarrow> k' \<noteq> k" for k' conv
      using setting_for_iff [of k' p conv] by auto
    then show ?thesis
      using IH None by (auto simp: e property_entry_def [of other "(k, v)"] property_entry_def [of other "(k, ServiceValue VNil)"]
            effective_def split: option.splits)
  next
    case (Some r)
    obtain c conv where r: "r = (c, conv)" by (cases r)
    have own: "setting_for c = Some (k, conv)" using Some r setting_for_iff by simp
    show ?thesis
    proof (cases "p = c")
      case True
      then show ?thesis
        using IH Some r own fresh
        by (cases "v = ServiceValue VNil") (auto simp: e property_entry_def [of other "(k, v)"] property_entry_def [of other "(k, ServiceValue VNil)"]
            effective_def map_add_def split: option.splits)
    next
      case False
      then have "setting_for p = Some (k', conv') \<Longrightarrow> k' \<noteq> k" for k' conv'
        using setting_for_iff [of k' p conv'] Some r by auto
      then show ?thesis
        using IH Some r False
        by (cases "v = ServiceValue VNil") (auto simp: e property_entry_def [of other "(k, v)"] property_entry_def [of other "(k, ServiceValue VNil)"]
            effective_def map_add_def split: option.splits)
    qed
  qed
qed (simp add: effective_def split: option.splits)

lemma permuted_map:
  assumes "distinct (map fst xs)" and "mset ys = mset xs"
  shows "distinct (map fst ys)" and "map_of ys = map_of xs"
proof -
  show d: "distinct (map fst ys)" using assms by (metis mset_map mset_eq_imp_distinct_iff)
  show "map_of ys = map_of xs" using assms d by (metis map_of_inject_set mset_eq_setD)
qed

lemma effective_getUsername: "effective other (snd (getUsername other m)) p = effective other m p"
proof (cases "map_of authenticationStrategyToUsernamePropertyMapping (defaultConverter other (service_scheme m))")
  case (Some k)
  have "setting_for p = Some (k', conv) \<Longrightarrow> k' \<noteq> k" for k' conv
    using username_keys [OF Some] setting_for_iff [of k' p conv] by auto
  then show ?thesis
    by (auto simp: getUsername_def Some effective_def delete_conv' split: option.splits)
qed (simp add: getUsername_def)

lemma getUsername_keys: "distinct (map fst m) \<Longrightarrow> distinct (map fst (snd (getUsername other m)))"
  by (auto simp: getUsername_def distinct_delete split: option.splits)

section \<open>The documented settings\<close>

text \<open>
  What the comments in \<^verbatim>\<open>pkg/solace/config/messaging_service_properties.go\<close> and on the session properties
  (\<^verbatim>\<open>internal/ccsmp/ccsmp_session_prop_generated.go\<close>) ask for, written apart from the code's table: for each session property the name of
  the key that stands for it, and whether its value is passed as text, as a switch or in milliseconds. The output buffer of a
  socket is its send buffer, the input buffer its receive buffer.
\<close>

datatype setting_kind = AsText | AsSwitch | AsMillis

definition documented_settings :: "(ccsmp_session_property \<times> string \<times> setting_kind) list" where
  "documented_settings =
    [(SolClientSessionPropAuthenticationScheme, ''solace.messaging.authentication.scheme'', AsText),
     (SolClientSessionPropPassword, ''solace.messaging.authentication.basic.password'', AsText),
     (SolClientSessionPropSslClientCertificateFile, ''solace.messaging.authentication.client-cert.file'', AsText),
     (SolClientSessionPropSslClientPrivateKeyFile, ''solace.messaging.authentication.client-cert.private-key-file'', AsText),
     (SolClientSessionPropSslClientPrivateKeyFilePassword, ''solace.messaging.authentication.client-cert.private-key-password'', AsText),
     (SolClientSessionPropKrbServiceName, ''solace.messaging.authentication.kerberos.instance-name'', AsText),
     (SolClientSessionPropOauth2AccessToken, ''solace.messaging.authentication.oauth2.access-token'', AsText),
     (SolClientSessionPropOauth2IssuerIdentifier, ''solace.messaging.authentication.oauth2.issuer-identifier'', AsText),
     (SolClientSessionPropOidcIDToken, ''solace.messaging.authentication.oauth2.oidc-id-token'', AsText),
     (SolClientSessionPropClientName, ''solace.messaging.client.name'', AsText),
     (SolClientSessionPropApplicationDescription, ''solace.messaging.client.application-description'', AsText),
     (SolClientSessionPropVpnName, ''solace.messaging.service.vpn-name'', AsText),
     (SolClientSessionPropGenerateSenderID, ''solace.messaging.service.generate-sender-id'', AsSwitch),
     (SolClientSessionPropGenerateSendTimestamps, ''solace.messaging.service.generate-send-timestamps'', AsSwitch),
     (SolClientSessionPropGenerateRcvTimestamps, ''solace.messaging.service.generate-receive-timestamps'', AsSwitch),
     (SolClientSessionPropReapplySubscriptions, ''solace.messaging.service.receivers.direct.subscription.reapply'', AsSwitch),
     (SolClientSessionPropProvisionTimeoutMs, ''solace.messaging.management.endpoint.provision-timeout'', AsMillis),
     (SolClientSessionPropPayloadCompressionLevel, ''solace.messaging.service.payload-compression-level'', AsText),
     (SolClientSessionPropHost, ''solace.messaging.transport.host'', AsText),
     (SolClientSessionPropConnectTimeoutMs, ''solace.messaging.transport.connection-attempts-timeout'', AsMillis),
     (SolClientSessionPropConnectRetries, ''solace.messaging.transport.connection-retries'', AsText),
     (SolClientSessionPropConnectRetriesPerHost, ''solace.messaging.transport.connection.retries-per-host'', AsText),
     (SolClientSessionPropReconnectRetries, ''solace.messaging.transport.reconnection-attempts'', AsText),
     (SolClientSessionPropReconnectRetryWaitMs, ''solace.messaging.transport.reconnection-attempts-wait-interval'', AsMillis),
     (SolClientSessionPropKeepAliveIntMs, ''solace.messaging.transport.keep-alive-interval'', AsMillis),
     (SolClientSessionPropKeepAliveLimit, ''solace.messaging.transport.keep-alive-without-response-limit'', AsText),
     (SolClientSessionPropSocketSendBufSize, ''solace.messaging.transport.socket.output-buffer-size'', AsText),
     (SolClientSessionPropSocketRcvBufSize, ''solace.messaging.transport.socket.input-buffer-size'', AsText),
     (SolClientSessionPropTCPNodelay, ''solace.messaging.transport.socket.tcp-option-no-delay'', AsSwitch),
     (SolClientSessionPropCompressionLevel, ''solace.messaging.transport.compression-level'', AsText),
     (SolClientSessionPropSslValidateCertificate, ''solace.messaging.tls.cert-validated'', AsSwitch),
     (SolClientSessionPropSslValidateCertificateDate, ''solace.messaging.tls.cert-reject-expired'', AsSwitch),
     (SolClientSessionPropSslValidateCertificateHost, ''solace.messaging.tls.cert-validate-servername'', AsSwitch),
     (SolClientSessionPropSslExcludedProtocols, ''solace.messaging.tls.excluded-protocols'', AsText),
     (SolClientSessionPropSslConnectionDowngradeTo, ''solace.messaging.tls.protocol-downgrade-to'', AsText),
     (SolClientSessionPropSslCipherSuites, ''solace.messaging.tls.cipher-suites'', AsText),
     (SolClientSessionPropSslTrustStoreDir, ''solace.messaging.tls.trust-store-path'', AsText),
     (SolClientSessionPropSslTrustedCommonNameList, ''solace.messaging.tls.trusted-common-name-list'', AsText),
     (SolClientSessionPropMinimumTlsProtocolVersion, ''solace.messaging.tls.minimum-protocol'', AsText),
     (SolClientSessionPropMaximumTlsProtocolVersion, ''solace.messaging.tls.maximum-protocol'', AsText)]"

definition shown_text :: "(service_value \<Rightarrow> string) \<Rightarrow> service_value \<Rightarrow> string" where
  "shown_text other v =
     (case v of
        ServiceDuration d \<Rightarrow> other v
      | ServiceValue g \<Rightarrow>
          (case g of
             VNil \<Rightarrow> ''<nil>''
           | VString s \<Rightarrow> s
           | VBool b \<Rightarrow> (if b then ''true'' else ''false'')
           | VInt i \<Rightarrow> print_int (sint i) | VInt64 i \<Rightarrow> print_int (sint i) | VInt32 i \<Rightarrow> print_int (sint i)
           | VUint i \<Rightarrow> print_int (uint i) | VUint64 i \<Rightarrow> print_int (uint i) | VUint32 i \<Rightarrow> print_int (uint i)
           | _ \<Rightarrow> other v))"

definition switched_on :: "service_value \<Rightarrow> bool" where
  "switched_on v \<longleftrightarrow>
     v \<in> {ServiceValue (VBool True), ServiceValue (VString ''true'')} \<or>
     (\<exists>i. i \<noteq> 0 \<and> v = ServiceValue (VInt i)) \<or> (\<exists>m e. m \<noteq> 0 \<and> v = ServiceValue (VFloat64 m e))"

definition shown :: "(service_value \<Rightarrow> string) \<Rightarrow> setting_kind \<Rightarrow> service_value \<Rightarrow> prop_text" where
  "shown other kind v =
     (case kind of
        AsText \<Rightarrow> Text (shown_text other v)
      | AsSwitch \<Rightarrow> if switched_on v then EnableVal else DisableVal
      | AsMillis \<Rightarrow> Text (case v of ServiceDuration d \<Rightarrow> print_int (sint d sdiv 1000000) | _ \<Rightarrow> shown_text other v))"

text \<open>The keys of the API.\<close>

definition api_key :: "ServiceProperty \<Rightarrow> bool" where
  "api_key k \<longleftrightarrow> (case k of OtherServiceProperty s \<Rightarrow> False | _ \<Rightarrow> True)"

lemma api_key_iff: "api_key k \<longleftrightarrow> (\<forall>s. k \<noteq> OtherServiceProperty s)"
  by (cases k) (auto simp: api_key_def)

definition api_keys :: "ServiceProperty list" where
  "api_keys =
    [AuthenticationPropertyScheme,
     AuthenticationPropertySchemeBasicUserName,
     AuthenticationPropertySchemeBasicPassword,
     AuthenticationPropertySchemeSSLClientCertFile,
     AuthenticationPropertySchemeSSLClientPrivateKeyFile,
     AuthenticationPropertySchemeClientCertPrivateKeyFilePassword,
     AuthenticationPropertySchemeClientCertUserName,
     AuthenticationPropertySchemeKerberosInstanceName,
     AuthenticationPropertySchemeKerberosUserName,
     AuthenticationPropertySchemeOAuth2AccessToken,
     AuthenticationPropertySchemeOAuth2IssuerIdentifier,
     AuthenticationPropertySchemeOAuth2OIDCIDToken,
     ClientPropertyName,
     ClientPropertyApplicationDescription,
     ServicePropertyVPNName,
     ServicePropertyGenerateSenderID,
     ServicePropertyGenerateSendTimestamps,
     ServicePropertyGenerateReceiveTimestamps,
     ServicePropertyReceiverDirectSubscriptionReapply,
     ServicePropertyProvisionTimeoutMs,
     ServicePropertyPayloadCompressionLevel,
     TransportLayerPropertyHost,
     TransportLayerPropertyConnectionAttemptsTimeout,
     TransportLayerPropertyConnectionRetries,
     TransportLayerPropertyConnectionRetriesPerHost,
     TransportLayerPropertyReconnectionAttempts,
     TransportLayerPropertyReconnectionAttemptsWaitInterval,
     TransportLayerPropertyKeepAliveInterval,
     TransportLayerPropertyKeepAliveWithoutResponseLimit,
     TransportLayerPropertySocketOutputBufferSize,
     TransportLayerPropertySocketInputBufferSize,
     TransportLayerPropertySocketTCPOptionNoDelay,
     TransportLayerPropertyCompressionLevel,
     TransportLayerSecurityPropertyCertValidated,
     TransportLayerSecurityPropertyCertRejectExpired,
     TransportLayerSecurityPropertyCertValidateServername,
     TransportLayerSecurityPropertyExcludedProtocols,
     TransportLayerSecurityPropertyMinimumProtocol,
     TransportLayerSecurityPropertyMaximumProtocol,
     TransportLayerSecurityPropertyProtocolDowngradeTo,
     TransportLayerSecurityPropertyCipherSuites,
     TransportLayerSecurityPropertyTrustStorePath,
     TransportLayerSecurityPropertyTrustedCommonNameList]"

text \<open>A key of the application does not have the name of a key of the API: it would be that key. \<open>configured\<close> reads a map by name.\<close>

definition well_named :: "service_property_map \<Rightarrow> bool" where
  "well_named m \<longleftrightarrow>
     (\<forall>e \<in> set m. case fst e of OtherServiceProperty s \<Rightarrow> s \<notin> set (map service_property_name api_keys) | _ \<Rightarrow> True)"

definition configured :: "service_property_map \<Rightarrow> string \<Rightarrow> service_value option" where
  "configured m = map_of (map (\<lambda>(k, v). (service_property_name k, v)) m)"

definition documented_value :: "(service_value \<Rightarrow> string) \<Rightarrow> service_property_map \<Rightarrow> ccsmp_session_property \<Rightarrow> prop_text option" where
  "documented_value other m p =
     (case map_of documented_settings p of
        None \<Rightarrow> None
      | Some (name, kind) \<Rightarrow>
          (case configured m name of
             None \<Rightarrow> None
           | Some v \<Rightarrow> if v = ServiceValue VNil then None else Some (shown other kind v)))"

text \<open>The user name belongs to the authentication scheme, which is the basic one unless it is configured.\<close>

definition documented_username :: "(service_value \<Rightarrow> string) \<Rightarrow> service_property_map \<Rightarrow> prop_text option" where
  "documented_username other m =
     (case map_of [(''AUTHENTICATION_SCHEME_BASIC'', ''solace.messaging.authentication.basic.username''),
                   (''AUTHENTICATION_SCHEME_CLIENT_CERTIFICATE'', ''solace.messaging.authentication.client-cert.username''),
                   (''AUTHENTICATION_SCHEME_GSS_KRB'', ''solace.messaging.authentication.kerberos.username'')]
             (case configured m ''solace.messaging.authentication.scheme'' of
                None \<Rightarrow> ''AUTHENTICATION_SCHEME_BASIC'' | Some v \<Rightarrow> shown_text other v) of
        None \<Rightarrow> None
      | Some name \<Rightarrow> map_option (\<lambda>v. Text (shown_text other v)) (configured m name))"

fun initial_value :: "ccsmp_session_property \<Rightarrow> prop_text option" where
  "initial_value SolClientSessionPropTopicDispatch = Some EnableVal"
| "initial_value SolClientSessionPropSendBlocking = Some DisableVal"
| "initial_value SolClientSessionPropReapplySubscriptions = Some EnableVal"
| "initial_value SolClientSessionPropIgnoreDupSubscriptionError = Some EnableVal"
| "initial_value SolClientSessionPropReconnectRetries = Some (Text ''3'')"
| "initial_value SolClientSessionPropGuaranteedWithWebTransport = Some EnableVal"
| "initial_value SolClientSessionPropPubWindowSize = Some (Text ''255'')"
| "initial_value _ = None"

text \<open>The one way in which the code differs: the two buffers of a socket are exchanged.\<close>

fun exchange_buffers :: "ccsmp_session_property \<Rightarrow> ccsmp_session_property" where
  "exchange_buffers SolClientSessionPropSocketSendBufSize = SolClientSessionPropSocketRcvBufSize"
| "exchange_buffers SolClientSessionPropSocketRcvBufSize = SolClientSessionPropSocketSendBufSize"
| "exchange_buffers p = p"

lemma api_keys_all: "api_key k \<Longrightarrow> k \<in> set api_keys"
  by (cases k) (simp_all add: api_keys_def api_key_def)

lemma api_names_distinct: "distinct (map service_property_name api_keys)"
  by (simp add: api_keys_def)

lemma api_names_inj: "api_key k \<Longrightarrow> api_key k' \<Longrightarrow> service_property_name k = service_property_name k' \<longleftrightarrow> k = k'"
  using api_names_distinct api_keys_all by (metis distinct_map inj_on_eq_iff)

lemma same_name:
  "well_named m \<Longrightarrow> (k, v) \<in> set m \<Longrightarrow> api_key k' \<Longrightarrow> service_property_name k = service_property_name k' \<longleftrightarrow> k = k'"
proof (cases "api_key k")
  case False
  assume m: "well_named m" "(k, v) \<in> set m" "api_key k'"
  obtain s where k: "k = OtherServiceProperty s" using False by (auto simp: api_key_iff)
  then have "s \<notin> set (map service_property_name api_keys)" using m(1,2) by (auto simp: well_named_def)
  moreover have "service_property_name k' \<in> set (map service_property_name api_keys)" using api_keys_all [OF m(3)] by simp
  ultimately have "service_property_name k \<noteq> service_property_name k'" using k by auto
  moreover have "k \<noteq> k'" using m(3) False by blast
  ultimately show ?thesis by simp
qed (use api_names_inj in blast)

lemma configured_key: "well_named m \<Longrightarrow> api_key k' \<Longrightarrow> configured m (service_property_name k') = map_of m k'"
proof (induction m)
  case (Cons e m)
  obtain k v where e: "e = (k, v)" by (cases e)
  have "well_named m" using Cons.prems by (simp add: well_named_def)
  then have "configured m (service_property_name k') = map_of m k'" using Cons by blast
  moreover have "service_property_name k = service_property_name k' \<longleftrightarrow> k = k'"
    using same_name [OF Cons.prems(1) _ Cons.prems(2)] e by force
  ultimately show ?case by (auto simp: configured_def e)
qed (simp add: configured_def)

fun kind_of :: "propertyConverter \<Rightarrow> setting_kind" where
  "kind_of UseDefaultConverter = AsText"
| "kind_of UseBooleanConverter = AsSwitch"
| "kind_of UseDurationConverter = AsMillis"

lemma shown_default: "defaultConverter other v = shown_text other v"
proof (cases v)
  case (ServiceValue g)
  then show ?thesis by (cases g) (simp_all add: shown_text_def)
qed (simp add: shown_text_def)

lemma shown_convert: "convert other converter v = shown other (kind_of converter) v"
proof (cases v)
  case (ServiceValue g)
  then show ?thesis by (cases converter; cases g) (auto simp: shown_def shown_default switched_on_def)
qed (cases converter; simp add: shown_def shown_default switched_on_def)

lemma exchange_twice: "exchange_buffers (exchange_buffers p) = p"
  by (cases p) simp_all

lemma exchange_inj: "exchange_buffers p = exchange_buffers q \<longleftrightarrow> p = q"
  by (metis exchange_twice)

lemma rows_documented:
  "documented_settings = map (\<lambda>(k, p, converter). (exchange_buffers p, service_property_name k, kind_of converter)) servicePropertyToCCSMPMap"
  by (simp add: documented_settings_def servicePropertyToCCSMPMap_def)

lemma rows_api: "list_all (\<lambda>(k, p, converter). api_key k) servicePropertyToCCSMPMap"
  by (simp add: servicePropertyToCCSMPMap_def api_key_def)

lemma table_documented:
  "case map_of documented_settings (exchange_buffers p) of
     None \<Rightarrow> setting_for p = None
   | Some (name, kind) \<Rightarrow>
       \<exists>k converter. setting_for p = Some (k, converter) \<and> api_key k \<and> service_property_name k = name \<and> kind_of converter = kind"
proof -
  have "map_of (map (\<lambda>(k, p, converter). (exchange_buffers p, service_property_name k, kind_of converter)) t) (exchange_buffers p) =
      map_option (\<lambda>(k, converter). (service_property_name k, kind_of converter)) (map_of (map (\<lambda>(k, c, converter). (c, k, converter)) t) p)" for t
    by (induction t) (auto simp: exchange_inj)
  then have look: "map_of documented_settings (exchange_buffers p) =
      map_option (\<lambda>(k, converter). (service_property_name k, kind_of converter)) (setting_for p)"
    unfolding rows_documented setting_for_def .
  have "api_key k" if "setting_for p = Some (k, converter)" for k converter
    using rows_api map_of_SomeD [OF that [unfolded setting_for_def]] by (auto simp: list_all_iff)
  then show ?thesis unfolding look by (auto split: option.splits)
qed

lemma effective_documented:
  assumes "well_named m"
  shows "effective other m p = documented_value other m (exchange_buffers p)"
proof (cases "map_of documented_settings (exchange_buffers p)")
  case None
  then show ?thesis using table_documented [of p] by (simp add: effective_def documented_value_def)
next
  case (Some r)
  obtain name kind where r: "r = (name, kind)" by (cases r)
  obtain k converter where k: "setting_for p = Some (k, converter)" "api_key k" "service_property_name k = name" "kind_of converter = kind"
    using table_documented [of p] Some r by auto
  have "configured m name = map_of m k" using configured_key [OF assms k(2)] k(3) by simp
  then show ?thesis using Some r k by (simp add: effective_def documented_value_def shown_convert split: option.splits)
qed

lemma username_documented:
  assumes "well_named m"
  shows "map_option Text (fst (getUsername other m)) = documented_username other m"
proof -
  note key = configured_key [OF assms]
  have keys: "configured m ''solace.messaging.authentication.scheme'' = map_of m AuthenticationPropertyScheme"
    "configured m ''solace.messaging.authentication.basic.username'' = map_of m AuthenticationPropertySchemeBasicUserName"
    "configured m ''solace.messaging.authentication.client-cert.username'' = map_of m AuthenticationPropertySchemeClientCertUserName"
    "configured m ''solace.messaging.authentication.kerberos.username'' = map_of m AuthenticationPropertySchemeKerberosUserName"
    using key [of AuthenticationPropertyScheme] key [of AuthenticationPropertySchemeBasicUserName]
      key [of AuthenticationPropertySchemeClientCertUserName] key [of AuthenticationPropertySchemeKerberosUserName]
    by (simp_all add: api_key_def)
  have scheme: "defaultConverter other (service_scheme m) =
      (case map_of m AuthenticationPropertyScheme of None \<Rightarrow> ''AUTHENTICATION_SCHEME_BASIC'' | Some v \<Rightarrow> shown_text other v)"
    by (auto simp: service_scheme_def scheme_defs shown_default [symmetric] split: option.splits)
  show ?thesis
    unfolding documented_username_def getUsername_def keys scheme
    by (auto simp: keys authenticationStrategyToUsernamePropertyMapping_def scheme_defs shown_default split: option.splits)
qed

lemma defaults_documented: "map_of DefaultCcsmpProperties p = initial_value p"
  by (cases p) (simp_all add: DefaultCcsmpProperties_def)

text \<open>
  C15. The session gets exactly the settings of the builder, up to one exchange. Whatever the order in which the maps are visited, the last
  value in the property list for each property of the session is: for the user name, that of the authentication scheme in use, and none without
  it; for a property that a key of the API is documented to stand for, the value of that key (found by its name) as text, as a switch or in milliseconds, if it is set and
  not \<^verbatim>\<open>nil\<close>; in all other cases the initial value of the library, if it has one. The exception is shown by \<open>exchange_buffers\<close>: the code sets the send
  buffer of the socket from the key of the input buffer, and the receive buffer from that of the output buffer, against
  the documentation. So no key overrides another, none is lost, and keys that are not known have no effect.
  The map has each key once, and no other key has the name of a key of the API.
\<close>

proposition service_settings_effective:
  assumes "distinct (map fst m)" and "well_named m"
    and "\<And>m. mset (visit m) = mset m" and "mset defaults = mset DefaultCcsmpProperties"
  shows "map_of (rev (toPropertyList other visit defaults m)) p =
     (if p = SolClientSessionPropUsername then documented_username other m
      else case documented_value other m (exchange_buffers p) of
             Some v \<Rightarrow> Some v
           | None \<Rightarrow> initial_value p)"
proof -
  obtain u m' where u: "getUsername other m = (u, m')" by (cases "getUsername other m")
  have d: "distinct (map fst DefaultCcsmpProperties)" by (simp add: DefaultCcsmpProperties_def)
  have defaults: "map_of (rev defaults) = map_of DefaultCcsmpProperties"
    by (rule permuted_map(2) [OF d]) (simp add: assms(4))
  have m': "distinct (map fst m')" using getUsername_keys [OF assms(1), of other] u by simp
  have "map_of (rev (concat (map (property_entry other) (visit m')))) p = effective other (visit m') p"
    by (rule entries_lookup, rule permuted_map(1) [OF m' assms(3)])
  also have "\<dots> = effective other m p"
    using effective_getUsername [of other m p] u effective_cong [OF permuted_map(2) [OF m' assms(3)]] by simp
  finally have entries: "map_of (rev (concat (map (property_entry other) (visit m')))) p = effective other m p" .
  have user: "effective other m SolClientSessionPropUsername = None" by (simp add: effective_def username_setting)
  have nouser: "map_of DefaultCcsmpProperties SolClientSessionPropUsername = None" by (simp add: DefaultCcsmpProperties_def)
  show ?thesis
    unfolding username_documented [OF assms(2), symmetric] effective_documented [OF assms(2), symmetric]
      defaults_documented [symmetric]
    using entries user nouser
    by (cases u) (auto simp: toPropertyList_def u defaults map_add_def split: option.splits)
qed

theorem service_settings_effective_witness:
  "map_of (rev (toPropertyList (\<lambda>v. []) id DefaultCcsmpProperties
      [(TransportLayerPropertySocketOutputBufferSize, service_text ''2048''), (TransportLayerPropertyKeepAliveInterval, ServiceDuration 3000000)]))
     SolClientSessionPropSocketRcvBufSize = Some (Text ''2048'')"
  using service_settings_effective [where visit = id and defaults = DefaultCcsmpProperties and other = "\<lambda>v. []"
      and m = "[(TransportLayerPropertySocketOutputBufferSize, service_text ''2048''),
        (TransportLayerPropertyKeepAliveInterval, ServiceDuration 3000000)]"
      and p = SolClientSessionPropSocketRcvBufSize]
  by (simp add: documented_value_def documented_settings_def configured_def well_named_def shown_def shown_text_def)

section \<open>Validation and strategies\<close>

lemma required_loop_None: "required_loop m ps = None \<longleftrightarrow> (\<forall>p \<in> set ps. map_of m p \<noteq> None)"
  by (induction ps) auto

lemma scheme_loop_None: "scheme_loop m s pss = None \<longleftrightarrow> (\<forall>ps \<in> set pss. \<exists>p \<in> set ps. map_of m p \<noteq> None)"
  by (induction pss) (auto simp: Let_def list_ex_iff)

lemma required_loop_error: "required_loop m ps = Some e \<Longrightarrow> error_kind_of e = Some InvalidConfigurationError"
  by (induction ps) (auto simp: NewError_def split: if_splits)

lemma scheme_loop_error: "scheme_loop m s pss = Some e \<Longrightarrow> error_kind_of e = Some InvalidConfigurationError"
  by (induction pss) (auto simp: NewError_def Let_def split: if_splits)

lemma validate_error:
  "validateRequiredProperties other m = Some e \<Longrightarrow> error_kind_of e = Some InvalidConfigurationError"
  by (auto simp: validateRequiredProperties_def Let_def split: option.splits dest: required_loop_error scheme_loop_error)

definition has :: "service_property_map \<Rightarrow> ServiceProperty \<Rightarrow> bool" where
  "has m p \<longleftrightarrow> map_of m p \<noteq> None"

lemma validate_None:
  "validateRequiredProperties other m = None \<longleftrightarrow>
     has m TransportLayerPropertyHost \<and> has m ServicePropertyVPNName \<and>
     (let scheme = defaultConverter other (service_scheme m)
      in (scheme = AuthenticationSchemeBasic \<longrightarrow>
            has m AuthenticationPropertySchemeBasicUserName \<and> has m AuthenticationPropertySchemeBasicPassword) \<and>
         (scheme = AuthenticationSchemeClientCertificate \<longrightarrow>
            has m AuthenticationPropertySchemeSSLClientCertFile \<and> has m AuthenticationPropertySchemeSSLClientPrivateKeyFile) \<and>
         (scheme = AuthenticationSchemeOAuth2 \<longrightarrow>
            has m AuthenticationPropertySchemeOAuth2AccessToken \<or> has m AuthenticationPropertySchemeOAuth2OIDCIDToken))"
  by (auto simp: validateRequiredProperties_def required_loop_None scheme_loop_None requiredServiceProperties_def has_def
      authenticationSchemeRequiredPropertyMap_def scheme_defs Let_def split: option.splits)

lemma map_of_merge: "map_of (mergeProperties (Some ps) m) = fold (\<lambda>(k, v) f. f(k \<mapsto> v)) ps (map_of m)"
proof -
  have "map_of (fold (\<lambda>(k, v) m. AList.update k v m) ps m) = fold (\<lambda>(k, v) f. f(k \<mapsto> v)) ps (map_of m)"
    by (induction ps arbitrary: m) (auto simp: update_conv')
  then show ?thesis by (simp add: mergeProperties_def)
qed

lemmas authentication_strategy_defs = WithAuthenticationStrategy_def BasicUserNamePasswordAuthentication_def ClientCertificateAuthentication_def
  OAuth2Authentication_def KerberosAuthentication_def

text \<open>
  C38. Which authentication strategies build. With a host and the name of a message VPN configured, and whatever else was set
  before: basic authentication and Kerberos always pass the validation, also with empty texts; OAuth2 passes if and only if one of the tokens is not empty or was set
  before; and a client certificate passes if and only if a key file is given or was set before, although its documentation
  says that an empty one may be passed. Without a host or a name nothing passes; and every error is one of an
  invalid configuration, in which case no transport is made.
\<close>

proposition strategies_validated:
  assumes "m' = AList.update TransportLayerPropertyHost host (AList.update ServicePropertyVPNName vpn m)"
  shows "validateRequiredProperties other (WithAuthenticationStrategy (BasicUserNamePasswordAuthentication username password) m') = None \<and>
     validateRequiredProperties other (WithAuthenticationStrategy (KerberosAuthentication serviceName) m') = None \<and>
     (validateRequiredProperties other (WithAuthenticationStrategy (OAuth2Authentication accessToken idToken issuer) m') = None \<longleftrightarrow>
        accessToken \<noteq> [] \<or> idToken \<noteq> [] \<or> has m AuthenticationPropertySchemeOAuth2AccessToken \<or>
        has m AuthenticationPropertySchemeOAuth2OIDCIDToken) \<and>
     (validateRequiredProperties other (WithAuthenticationStrategy (ClientCertificateAuthentication certificate keyFile keyPassword) m') = None \<longleftrightarrow>
        keyFile \<noteq> [] \<or> has m AuthenticationPropertySchemeSSLClientPrivateKeyFile) \<and>
     (\<not> has m0 TransportLayerPropertyHost \<or> \<not> has m0 ServicePropertyVPNName \<longrightarrow> validateRequiredProperties other m0 \<noteq> None) \<and>
     (\<forall>e. validateRequiredProperties other m0 = Some e \<longrightarrow>
        error_kind_of e = Some InvalidConfigurationError \<and> service_Build other visit defaults newTransport m0 = Inl e)"
proof -
  have basic: "validateRequiredProperties other (WithAuthenticationStrategy (BasicUserNamePasswordAuthentication username password) m') = None"
    by (simp add: validate_None has_def service_scheme_def authentication_strategy_defs map_of_merge assms update_conv' scheme_defs)
  have kerberos: "validateRequiredProperties other (WithAuthenticationStrategy (KerberosAuthentication serviceName) m') = None"
    by (simp add: validate_None has_def service_scheme_def authentication_strategy_defs map_of_merge assms update_conv' scheme_defs)
  have oauth: "validateRequiredProperties other (WithAuthenticationStrategy (OAuth2Authentication accessToken idToken issuer) m') = None \<longleftrightarrow>
        accessToken \<noteq> [] \<or> idToken \<noteq> [] \<or> has m AuthenticationPropertySchemeOAuth2AccessToken \<or>
        has m AuthenticationPropertySchemeOAuth2OIDCIDToken"
    by (simp add: validate_None has_def service_scheme_def authentication_strategy_defs map_of_merge assms update_conv' scheme_defs)
  have cert: "validateRequiredProperties other (WithAuthenticationStrategy (ClientCertificateAuthentication certificate keyFile keyPassword) m') = None \<longleftrightarrow>
        keyFile \<noteq> [] \<or> has m AuthenticationPropertySchemeSSLClientPrivateKeyFile"
    by (simp add: validate_None has_def service_scheme_def authentication_strategy_defs map_of_merge assms update_conv' scheme_defs)
  show ?thesis
    using basic kerberos oauth cert validate_None [of other m0] validate_error [of other m0]
    by (auto simp: service_Build_def)
qed

theorem strategies_validated_witness:
  "validateRequiredProperties (\<lambda>v. [])
     (WithAuthenticationStrategy (ClientCertificateAuthentication ''cert.pem'' [] [])
       (AList.update TransportLayerPropertyHost (service_text ''h'') (AList.update ServicePropertyVPNName (service_text ''v'') []))) \<noteq> None"
  using strategies_validated [where m = "[]" and host = "service_text ''h''" and vpn = "service_text ''v''" and other = "\<lambda>v. []"
      and certificate = "''cert.pem''" and keyFile = "[]" and keyPassword = "[]", OF refl,
      THEN conjunct2, THEN conjunct2, THEN conjunct2, THEN conjunct1]
  by (simp add: has_def)

text \<open>The names under which a configuration holds its secrets, written apart from the list of the code.\<close>

definition secret_names :: "string list" where
  "secret_names =
    [''solace.messaging.authentication.basic.password'',
     ''solace.messaging.authentication.client-cert.private-key-password'',
     ''solace.messaging.authentication.oauth2.access-token'',
     ''solace.messaging.authentication.oauth2.oidc-id-token'']"

definition secret :: "ServiceProperty \<Rightarrow> bool" where
  "secret k \<longleftrightarrow> service_property_name k \<in> set secret_names"

lemma secret_obfuscated:
  assumes "well_named m" "(k, v) \<in> set m"
  shows "secret k \<longleftrightarrow> list_ex (\<lambda>property. k = property) obfuscatedProperties"
proof -
  have names: "set secret_names = service_property_name ` set obfuscatedProperties"
    by (simp add: secret_names_def obfuscatedProperties_def)
  have api: "api_key k'" if "k' \<in> set obfuscatedProperties" for k'
    using that by (auto simp: obfuscatedProperties_def api_key_def)
  show ?thesis
    using names api same_name [OF assms] unfolding secret_def list_ex_iff image_iff by (metis (no_types, lifting) image_iff)
qed

lemma printed_by_name:
  "well_named m \<Longrightarrow>
     printed_properties m = map (\<lambda>(k, v). (service_property_name k, if secret k then service_text ''******'' else v)) m"
  using secret_obfuscated [of m] by (auto simp: printed_properties_def obfuscation_def)

text \<open>
  C39. Printing a configuration shows its settings and no secret. The secrets are the values under the four names of \<open>secret_names\<close>: the
  password, the password of the private key and the two tokens. Two configurations that have the same keys and differ in secrets only print
  the same; whatever is printed under the name of a secret is six stars; and every other entry is printed as it is. No key of the application has the
  name of a key of the API (it would be that key).
\<close>

proposition secrets_not_printed:
  assumes "well_named m" and "list_all2 (\<lambda>(k, v) (k', v'). k = k' \<and> (v = v' \<or> service_property_name k \<in> set secret_names)) m m'"
  shows "printed_properties m = printed_properties m' \<and>
     (\<forall>(name, x) \<in> set (printed_properties m). name \<in> set secret_names \<longrightarrow> x = service_text ''******'') \<and>
     (\<forall>(k, v) \<in> set m. service_property_name k \<notin> set secret_names \<longrightarrow> (service_property_name k, v) \<in> set (printed_properties m))"
proof -
  have "map fst m' = map fst m" using assms(2) by (induction rule: list_all2_induct) auto
  then have "fst ` set m' = fst ` set m" by (metis list.set_map)
  then have m': "well_named m'" using assms(1) unfolding well_named_def by (metis (no_types, lifting) image_iff)
  have "map (\<lambda>(k, v). (service_property_name k, if secret k then service_text ''******'' else v)) m =
      map (\<lambda>(k, v). (service_property_name k, if secret k then service_text ''******'' else v)) m'"
    using assms(2) by (induction rule: list_all2_induct) (auto simp: secret_def)
  then have "printed_properties m = printed_properties m'" using printed_by_name assms(1) m' by simp
  moreover have "\<forall>(name, x) \<in> set (printed_properties m). name \<in> set secret_names \<longrightarrow> x = service_text ''******''"
    by (auto simp: printed_by_name [OF assms(1)] secret_def)
  moreover have "\<forall>(k, v) \<in> set m. service_property_name k \<notin> set secret_names \<longrightarrow> (service_property_name k, v) \<in> set (printed_properties m)"
    by (force simp: printed_by_name [OF assms(1)] secret_def)
  ultimately show ?thesis by blast
qed

theorem secrets_not_printed_witness:
  "printed_properties [(AuthenticationPropertySchemeBasicPassword, service_text ''one''), (ClientPropertyName, service_text ''me'')] =
   printed_properties [(AuthenticationPropertySchemeBasicPassword, service_text ''two''), (ClientPropertyName, service_text ''me'')]"
  by (rule secrets_not_printed [THEN conjunct1]) (simp_all add: well_named_def secret_names_def)

end
