(* ===== verification/C_Callbacks.thy ===== *)
theory C_Callbacks
  imports Core_Errors
begin

text \<open>
  The part of the bindings to the C library that keeps state (\<^verbatim>\<open>internal/ccsmp/ccsmp_core.go\<close> and
  \<^verbatim>\<open>internal/ccsmp/ccsmp_flow.go\<close>): which Go function a message or an event of a session or a flow is handed to, the
  translation of return codes into errors, and the names read from fixed buffers. Pointers to sessions are numbers, with 0 for the invalid
  one; a callback is a function of what it is given.
\<close>

section \<open>Return codes\<close>

definition GetLastErrorInfoReturnCodeOnly :: "SolClientReturnCode \<Rightarrow> ErrorInfo" where
  "GetLastErrorInfoReturnCodeOnly returnCode = \<lparr>ReturnCode = returnCode, DetailedErrorInfo = None\<rparr>"

text \<open>\<open>lastError\<close> is the sub code and the text that the library keeps for the thread.\<close>

definition GetLastErrorInfo :: "int \<times> string \<Rightarrow> SolClientReturnCode \<Rightarrow> ErrorInfo" where
  "GetLastErrorInfo lastError returnCode =
     (let errorInfo = GetLastErrorInfoReturnCodeOnly returnCode
      in if returnCode \<noteq> SolClientReturnCodeNotFound then errorInfo\<lparr>DetailedErrorInfo := Some lastError\<rparr> else errorInfo)"

definition handleCcsmpError :: "SolClientReturnCode \<Rightarrow> int \<times> string \<Rightarrow> ErrorInfo option" where
  "handleCcsmpError returnCode lastError =
     (if returnCode = SolClientReturnCodeFail \<or> returnCode = SolClientReturnCodeNotReady
      then Some (GetLastErrorInfo lastError returnCode)
      else if returnCode \<noteq> SolClientReturnCodeOk \<and> returnCode \<noteq> SolClientReturnCodeInProgress
      then Some (GetLastErrorInfoReturnCodeOnly returnCode)
      else None)"

section \<open>Tables of callbacks\<close>

text \<open>What the bindings use of \<^verbatim>\<open>sync.Map\<close>.\<close>

locale callback_table =
  fixes load :: "'t \<Rightarrow> 'k \<Rightarrow> 'c option"
    and store :: "'k \<Rightarrow> 'c \<Rightarrow> 't \<Rightarrow> 't"
    and remove :: "'k \<Rightarrow> 't \<Rightarrow> 't"
  assumes load_store: "load (store k c t) k' = (if k' = k then Some c else load t k')"
    and load_remove: "load (remove k t) k' = (if k' = k then None else load t k')"
begin

text \<open>Setting a callback or clearing it, as the setters of a session do.\<close>

definition change :: "'k \<times> 'c option \<Rightarrow> 't \<Rightarrow> 't" where
  "change e t = (case snd e of None \<Rightarrow> remove (fst e) t | Some c \<Rightarrow> store (fst e) c t)"

lemma load_change: "load (change (k, c) t) k' = (if k' = k then c else load t k')"
  by (cases c) (simp_all add: change_def load_store load_remove)

lemma load_changes: "load (fold change es t) k = (case map_of (rev es) k of Some c \<Rightarrow> c | None \<Rightarrow> load t k)"
proof (induction es arbitrary: t)
  case (Cons e es)
  obtain k' c where "e = (k', c)" by (cases e)
  then show ?case by (auto simp: Cons load_change map_add_def split: option.splits)
qed simp

lemma changes_elsewhere: "k \<notin> fst ` set es \<Longrightarrow> load (fold change es t) k = load t k"
  by (simp add: load_changes map_of_eq_None_iff [THEN iffD2] rev_map [symmetric])

end

definition map_load :: "('k \<Rightarrow> 'c option) \<Rightarrow> 'k \<Rightarrow> 'c option" where
  "map_load t k = t k"

definition map_store :: "'k \<Rightarrow> 'c \<Rightarrow> ('k \<Rightarrow> 'c option) \<Rightarrow> 'k \<Rightarrow> 'c option" where
  "map_store k c t = t(k \<mapsto> c)"

definition map_remove :: "'k \<Rightarrow> ('k \<Rightarrow> 'c option) \<Rightarrow> 'k \<Rightarrow> 'c option" where
  "map_remove k t = t(k := None)"

interpretation sync_map: callback_table map_load map_store map_remove
  by unfold_locales (simp_all add: map_load_def map_store_def map_remove_def)

section \<open>Sessions\<close>

record ('m, 'r, 'e) session_tables =
  sessionToRXCallbackMap :: "nat \<Rightarrow> 'm option"
  sessionToReplyRXCallbackMap :: "nat \<Rightarrow> 'r option"
  sessionToEventCallbackMap :: "nat \<Rightarrow> 'e option"

datatype rxMsgCallback_returnCode = SOLCLIENT_CALLBACK_TAKE_MSG | SOLCLIENT_CALLBACK_OK

definition SolClientOpaquePointerInvalidValue :: nat where
  "SolClientOpaquePointerInvalidValue = 0"

definition nil_session :: "nat option \<Rightarrow> bool" where
  "nil_session session \<longleftrightarrow> (case session of None \<Rightarrow> True | Some pointer \<Rightarrow> pointer = SolClientOpaquePointerInvalidValue)"

text \<open>The setters; the error of a session that is not there is a text.\<close>

definition SetMessageCallback ::
    "nat option \<Rightarrow> 'm option \<Rightarrow> ('m, 'r, 'e) session_tables \<Rightarrow> string option \<times> ('m, 'r, 'e) session_tables" where
  "SetMessageCallback session callback t =
     (if nil_session session then (Some ''could not set message receive callback for nil session'', t)
      else (None, case callback of
              None \<Rightarrow> t\<lparr>sessionToRXCallbackMap := map_remove (the session) (sessionToRXCallbackMap t)\<rparr>
            | Some c \<Rightarrow> t\<lparr>sessionToRXCallbackMap := map_store (the session) c (sessionToRXCallbackMap t)\<rparr>))"

definition SetReplyMessageCallback ::
    "nat option \<Rightarrow> 'r option \<Rightarrow> ('m, 'r, 'e) session_tables \<Rightarrow> string option \<times> ('m, 'r, 'e) session_tables" where
  "SetReplyMessageCallback session callback t =
     (if nil_session session then (Some ''could not set message receive callback for nil session'', t)
      else (None, case callback of
              None \<Rightarrow> t\<lparr>sessionToReplyRXCallbackMap := map_remove (the session) (sessionToReplyRXCallbackMap t)\<rparr>
            | Some c \<Rightarrow> t\<lparr>sessionToReplyRXCallbackMap := map_store (the session) c (sessionToReplyRXCallbackMap t)\<rparr>))"

definition SetEventCallback ::
    "nat option \<Rightarrow> 'e option \<Rightarrow> ('m, 'r, 'e) session_tables \<Rightarrow> string option \<times> ('m, 'r, 'e) session_tables" where
  "SetEventCallback session callback t =
     (if nil_session session then (Some ''could not set event callback for nil session'', t)
      else (None, case callback of
              None \<Rightarrow> t\<lparr>sessionToEventCallbackMap := map_remove (the session) (sessionToEventCallbackMap t)\<rparr>
            | Some c \<Rightarrow> t\<lparr>sessionToEventCallbackMap := map_store (the session) c (sessionToEventCallbackMap t)\<rparr>))"

text \<open>The three deletions come before the call that destroys the session.\<close>

definition SolClientSessionDestroy ::
    "SolClientReturnCode \<times> (int \<times> string) \<Rightarrow> nat \<Rightarrow> ('m, 'r, 'e) session_tables \<Rightarrow> ErrorInfo option \<times> ('m, 'r, 'e) session_tables" where
  "SolClientSessionDestroy answer pointer t =
     (handleCcsmpError (fst answer) (snd answer),
      t\<lparr>sessionToEventCallbackMap := map_remove pointer (sessionToEventCallbackMap t),
        sessionToRXCallbackMap := map_remove pointer (sessionToRXCallbackMap t),
        sessionToReplyRXCallbackMap := map_remove pointer (sessionToReplyRXCallbackMap t)\<rparr>)"

text \<open>
  The functions that the C library calls. The result of a message is what the library does with it; an event gives the
  result of its callback, if there is one.
\<close>

definition goMessageReceiveCallback ::
    "nat \<Rightarrow> 'msg \<Rightarrow> 'u \<Rightarrow> ('msg \<Rightarrow> 'u \<Rightarrow> bool, 'r, 'e) session_tables \<Rightarrow> rxMsgCallback_returnCode" where
  "goMessageReceiveCallback sessionP msgP userP t =
     (case map_load (sessionToRXCallbackMap t) sessionP of
        Some callback \<Rightarrow> if callback msgP userP then SOLCLIENT_CALLBACK_TAKE_MSG else SOLCLIENT_CALLBACK_OK
      | None \<Rightarrow> SOLCLIENT_CALLBACK_OK)"

definition goReplyMessageReceiveCallback ::
    "nat \<Rightarrow> 'msg \<Rightarrow> 'u \<Rightarrow> string \<Rightarrow> ('m, 'msg \<Rightarrow> 'u \<Rightarrow> string \<Rightarrow> bool, 'e) session_tables \<Rightarrow> rxMsgCallback_returnCode" where
  "goReplyMessageReceiveCallback sessionP msgP userP correlationIDP t =
     (case map_load (sessionToReplyRXCallbackMap t) sessionP of
        Some callback \<Rightarrow> if callback msgP userP correlationIDP then SOLCLIENT_CALLBACK_TAKE_MSG else SOLCLIENT_CALLBACK_OK
      | None \<Rightarrow> SOLCLIENT_CALLBACK_OK)"

definition goDefaultMessageReceiveCallback :: "nat \<Rightarrow> 'msg \<Rightarrow> 'u \<Rightarrow> rxMsgCallback_returnCode" where
  "goDefaultMessageReceiveCallback sessionP msgP userP = SOLCLIENT_CALLBACK_OK"

definition goEventCallback ::
    "nat \<Rightarrow> 'info \<Rightarrow> 'u \<Rightarrow> ('m, 'r, 'info \<Rightarrow> 'u \<Rightarrow> 'x) session_tables \<Rightarrow> 'x option" where
  "goEventCallback sessionP eventInfoP userP t =
     (case map_load (sessionToEventCallbackMap t) sessionP of
        Some callback \<Rightarrow> Some (callback eventInfoP userP)
      | None \<Rightarrow> None)"

section \<open>Flows\<close>

text \<open>The counter is a machine word; \<^verbatim>\<open>atomic.AddUintptr\<close> returns the new value.\<close>

record ('m, 'e) flow_tables =
  flowID :: u64
  flowToRXCallbackMap :: "u64 \<Rightarrow> 'm option"
  flowToEventCallbackMap :: "u64 \<Rightarrow> 'e option"

definition SolClientSessionCreateFlow ::
    "SolClientReturnCode \<times> (int \<times> string) \<Rightarrow> 'm \<Rightarrow> 'e \<Rightarrow> ('m, 'e) flow_tables \<Rightarrow> (ErrorInfo + u64) \<times> ('m, 'e) flow_tables" where
  "SolClientSessionCreateFlow answer msgCallback eventCallback t =
     (let n = flowID t + 1;
          t = t\<lparr>flowID := n, flowToRXCallbackMap := map_store n msgCallback (flowToRXCallbackMap t),
                flowToEventCallbackMap := map_store n eventCallback (flowToEventCallbackMap t)\<rparr>
      in case handleCcsmpError (fst answer) (snd answer) of
           Some err \<Rightarrow> (Inl err, t)
         | None \<Rightarrow> (Inr n, t))"

definition SolClientFlowRemoveCallbacks :: "u64 \<Rightarrow> ('m, 'e) flow_tables \<Rightarrow> ('m, 'e) flow_tables" where
  "SolClientFlowRemoveCallbacks userP t =
     t\<lparr>flowToRXCallbackMap := map_remove userP (flowToRXCallbackMap t),
       flowToEventCallbackMap := map_remove userP (flowToEventCallbackMap t)\<rparr>"

definition goFlowMessageReceiveCallback :: "'msg \<Rightarrow> u64 \<Rightarrow> ('msg \<Rightarrow> bool, 'e) flow_tables \<Rightarrow> rxMsgCallback_returnCode" where
  "goFlowMessageReceiveCallback msgP userP t =
     (case map_load (flowToRXCallbackMap t) userP of
        Some callback \<Rightarrow> if callback msgP then SOLCLIENT_CALLBACK_TAKE_MSG else SOLCLIENT_CALLBACK_OK
      | None \<Rightarrow> SOLCLIENT_CALLBACK_OK)"

definition goFlowEventCallback :: "'info \<Rightarrow> u64 \<Rightarrow> ('m, 'info \<Rightarrow> 'x) flow_tables \<Rightarrow> 'x option" where
  "goFlowEventCallback eventInfoP userP t =
     (case map_load (flowToEventCallbackMap t) userP of
        Some callback \<Rightarrow> Some (callback eventInfoP)
      | None \<Rightarrow> None)"

section \<open>Names in buffers\<close>

text \<open>The loop over a buffer that looks for the first zero byte, from index \<open>i\<close> on.\<close>

fun zero_index :: "string \<Rightarrow> nat \<Rightarrow> nat \<Rightarrow> nat" where
  "zero_index [] i n = n"
| "zero_index (b # rest) i n = (if b = CHR 0x00 then i else zero_index rest (i + 1) n)"

definition SolClientSessionGetClientName :: "ErrorInfo option \<Rightarrow> string \<Rightarrow> ErrorInfo + string" where
  "SolClientSessionGetClientName errorInfo clientName =
     (case errorInfo of
        Some err \<Rightarrow> Inl err
      | None \<Rightarrow> (let endIndex = zero_index clientName 0 160 in Inr (take endIndex clientName)))"

definition SolClientSessionGetP2PTopicPrefix :: "ErrorInfo option \<Rightarrow> string \<Rightarrow> ErrorInfo + string" where
  "SolClientSessionGetP2PTopicPrefix errorInfo p2pTopicInUse =
     (case errorInfo of
        Some err \<Rightarrow> Inl err
      | None \<Rightarrow>
          (let endIndex = zero_index p2pTopicInUse 0 251;
               endIndex = (if endIndex > 0 then endIndex - 1 else endIndex)
           in Inr (take endIndex p2pTopicInUse)))"

lemma zero_index_name: "CHR 0x00 \<notin> set s \<Longrightarrow> zero_index (s @ CHR 0x00 # rest) i n = i + length s"
  by (induction s arbitrary: i) auto

lemma client_name_read: "CHR 0x00 \<notin> set s \<Longrightarrow> SolClientSessionGetClientName None (s @ CHR 0x00 # rest) = Inr s"
  by (simp add: SolClientSessionGetClientName_def zero_index_name)

lemma p2p_prefix_read:
  "CHR 0x00 \<notin> set s \<Longrightarrow> SolClientSessionGetP2PTopicPrefix None (s @ CHR 0x00 # rest) = Inr (butlast s)"
  by (simp add: SolClientSessionGetP2PTopicPrefix_def Let_def zero_index_name butlast_conv_take)

section \<open>Who is called\<close>

text \<open>
  An error comes out of every return code but success and work in progress, with the text of the library for a failure
  and for a library that is not ready.
\<close>

lemma handleCcsmpError_cases:
  "handleCcsmpError rc e = None \<longleftrightarrow> rc \<in> {SolClientReturnCodeOk, SolClientReturnCodeInProgress}"
  "handleCcsmpError rc e = Some info \<Longrightarrow>
     ReturnCode info = rc \<and> (DetailedErrorInfo info = (if rc \<in> {SolClientReturnCodeFail, SolClientReturnCodeNotReady} then Some e else None))"
  by (auto simp: handleCcsmpError_def GetLastErrorInfo_def GetLastErrorInfoReturnCodeOnly_def Let_def split: if_splits)

text \<open>The operations on the tables of a session, and what one of them makes of the callbacks of a session.\<close>

datatype ('m, 'r, 'e) session_operation =
    OpMessage nat "'m option" | OpReply nat "'r option" | OpEvent nat "'e option" | OpDestroy nat "SolClientReturnCode \<times> (int \<times> string)"

fun session_operate :: "('m, 'r, 'e) session_operation \<Rightarrow> ('m, 'r, 'e) session_tables \<Rightarrow> ('m, 'r, 'e) session_tables" where
  "session_operate (OpMessage s c) t = snd (SetMessageCallback (Some s) c t)"
| "session_operate (OpReply s c) t = snd (SetReplyMessageCallback (Some s) c t)"
| "session_operate (OpEvent s c) t = snd (SetEventCallback (Some s) c t)"
| "session_operate (OpDestroy s answer) t = snd (SolClientSessionDestroy answer s t)"

fun message_changes :: "('m, 'r, 'e) session_operation \<Rightarrow> (nat \<times> 'm option) list" where
  "message_changes (OpMessage s c) = (if s = SolClientOpaquePointerInvalidValue then [] else [(s, c)])"
| "message_changes (OpDestroy s answer) = [(s, None)]"
| "message_changes _ = []"

fun reply_changes :: "('m, 'r, 'e) session_operation \<Rightarrow> (nat \<times> 'r option) list" where
  "reply_changes (OpReply s c) = (if s = SolClientOpaquePointerInvalidValue then [] else [(s, c)])"
| "reply_changes (OpDestroy s answer) = [(s, None)]"
| "reply_changes _ = []"

fun event_changes :: "('m, 'r, 'e) session_operation \<Rightarrow> (nat \<times> 'e option) list" where
  "event_changes (OpEvent s c) = (if s = SolClientOpaquePointerInvalidValue then [] else [(s, c)])"
| "event_changes (OpDestroy s answer) = [(s, None)]"
| "event_changes _ = []"

lemmas session_operation_defs = SetMessageCallback_def SetReplyMessageCallback_def SetEventCallback_def
  SolClientSessionDestroy_def nil_session_def sync_map.change_def

lemma session_operate_tables:
  "sessionToRXCallbackMap (session_operate op t) = fold sync_map.change (message_changes op) (sessionToRXCallbackMap t)"
  "sessionToReplyRXCallbackMap (session_operate op t) = fold sync_map.change (reply_changes op) (sessionToReplyRXCallbackMap t)"
  "sessionToEventCallbackMap (session_operate op t) = fold sync_map.change (event_changes op) (sessionToEventCallbackMap t)"
  by (cases op; auto simp: session_operation_defs split: option.splits)+

lemma session_operates_tables:
  "sessionToRXCallbackMap (fold session_operate ops t) =
     fold sync_map.change (concat (map message_changes ops)) (sessionToRXCallbackMap t)"
  "sessionToReplyRXCallbackMap (fold session_operate ops t) =
     fold sync_map.change (concat (map reply_changes ops)) (sessionToReplyRXCallbackMap t)"
  "sessionToEventCallbackMap (fold session_operate ops t) =
     fold sync_map.change (concat (map event_changes ops)) (sessionToEventCallbackMap t)"
  by (induction ops arbitrary: t) (simp_all add: session_operate_tables)

definition no_sessions :: "('m, 'r, 'e) session_tables" where
  "no_sessions = \<lparr>sessionToRXCallbackMap = (\<lambda>s. None), sessionToReplyRXCallbackMap = (\<lambda>s. None), sessionToEventCallbackMap = (\<lambda>s. None)\<rparr>"

text \<open>The last change of a session, if it sets a callback.\<close>

definition last_callback :: "(nat \<times> 'c option) list \<Rightarrow> nat \<Rightarrow> 'c option" where
  "last_callback changes s = (case map_of (rev changes) s of Some c \<Rightarrow> c | None \<Rightarrow> None)"

lemma table_last: "fold sync_map.change es (\<lambda>s. None) s = last_callback es s"
  using sync_map.load_changes [of es "\<lambda>s. None" s] by (simp add: map_load_def last_callback_def split: option.splits)

text \<open>
  C40. A session's messages, replies and events reach the callback that was set last for that session. After any sequence of settings, clearings and
  destructions of any sessions, a message is handed to the message callback set last for its session and the library keeps it exactly
  when this callback takes it; replies and events likewise, each kind by its own callback; and a session that was destroyed or never set has
  none: its messages go back to the library and its events are dropped.
\<close>

proposition session_callbacks_last:
  "goMessageReceiveCallback s msg u (fold session_operate ops no_sessions) =
     (case last_callback (concat (map message_changes ops)) s of
        Some callback \<Rightarrow> if callback msg u then SOLCLIENT_CALLBACK_TAKE_MSG else SOLCLIENT_CALLBACK_OK
      | None \<Rightarrow> SOLCLIENT_CALLBACK_OK) \<and>
   goReplyMessageReceiveCallback s msg u correlation (fold session_operate ops' no_sessions) =
     (case last_callback (concat (map reply_changes ops')) s of
        Some callback \<Rightarrow> if callback msg u correlation then SOLCLIENT_CALLBACK_TAKE_MSG else SOLCLIENT_CALLBACK_OK
      | None \<Rightarrow> SOLCLIENT_CALLBACK_OK) \<and>
   goEventCallback s info u (fold session_operate ops'' no_sessions) =
     map_option (\<lambda>callback. callback info u) (last_callback (concat (map event_changes ops'')) s)"
  by (simp add: goMessageReceiveCallback_def goReplyMessageReceiveCallback_def goEventCallback_def session_operates_tables
      table_last no_sessions_def map_load_def split: option.splits)

datatype ('m, 'e) flow_operation = FlowCreate "SolClientReturnCode \<times> (int \<times> string)" 'm 'e | FlowRemove u64

fun flow_operate :: "('m, 'e) flow_operation \<Rightarrow> ('m, 'e) flow_tables \<Rightarrow> ('m, 'e) flow_tables" where
  "flow_operate (FlowCreate answer m e) t = snd (SolClientSessionCreateFlow answer m e t)"
| "flow_operate (FlowRemove userP) t = SolClientFlowRemoveCallbacks userP t"

definition no_flows :: "('m, 'e) flow_tables" where
  "no_flows = \<lparr>flowID = 0, flowToRXCallbackMap = (\<lambda>i. None), flowToEventCallbackMap = (\<lambda>i. None)\<rparr>"

lemmas flow_defs = SolClientSessionCreateFlow_def SolClientFlowRemoveCallbacks_def Let_def map_store_def map_remove_def map_load_def

text \<open>The numbers that are in use are those given out so far.\<close>

definition flow_bound :: "nat \<Rightarrow> ('m, 'e) flow_tables \<Rightarrow> bool" where
  "flow_bound n t \<longleftrightarrow> unat (flowID t) \<le> n \<and>
     (\<forall>i. flowToRXCallbackMap t i \<noteq> None \<or> flowToEventCallbackMap t i \<noteq> None \<longrightarrow> i \<le> flowID t)"

lemma flow_bound_step:
  assumes "flow_bound n t" and "n < 2 ^ 64 - 1"
  shows "flow_bound (n + 1) (flow_operate op t)"
proof -
  have "unat (flowID t) < 2 ^ 64 - 1" using assms by (simp add: flow_bound_def)
  then have next_id: "unat (flowID t + 1) = unat (flowID t) + 1"
    by (subst unat_word_ariths) simp
  then have "i \<le> flowID t \<Longrightarrow> i \<le> flowID t + 1" for i by (simp add: word_le_nat_alt)
  then show ?thesis
    using assms next_id by (cases op) (auto simp: flow_bound_def flow_defs split: option.splits)
qed

lemma flow_bound_run: "flow_bound n t \<Longrightarrow> n + length ops < 2 ^ 64 \<Longrightarrow> flow_bound (n + length ops) (fold flow_operate ops t)"
proof (induction ops arbitrary: n t)
  case (Cons op ops)
  then have "flow_bound (n + 1) (flow_operate op t)" by (intro flow_bound_step) simp_all
  from Cons.IH [OF this] Cons.prems show ?case by simp
qed simp

text \<open>
  A new flow has its own number, which nobody has had before as long as fewer than 2 to the power of 64 flows were made; its messages reach
  its own callback, and no other flow is touched. When the library refuses the flow, its callbacks stay in the tables.
\<close>

lemma flow_callbacks_own:
  assumes "length ops < 2 ^ 64 - 1" and "t = fold flow_operate ops no_flows"
    and "SolClientSessionCreateFlow answer m e t = (r, t')"
  shows "map_load (flowToRXCallbackMap t) (flowID t') = None" and "map_load (flowToRXCallbackMap t') (flowID t') = Some m"
    and "u \<noteq> flowID t' \<Longrightarrow> map_load (flowToRXCallbackMap t') u = map_load (flowToRXCallbackMap t) u"
    and "r = Inr n \<Longrightarrow> n = flowID t'"
proof -
  have "flow_bound 0 (no_flows :: ('a, 'b) flow_tables)" by (simp add: flow_bound_def no_flows_def)
  then have bound: "flow_bound (length ops) t" using flow_bound_run [of 0 no_flows ops] assms by simp
  then have "unat (flowID t) < 2 ^ 64 - 1" using assms(1) by (simp add: flow_bound_def)
  then have "unat (flowID t + 1) = unat (flowID t) + 1"
    by (subst unat_word_ariths) simp
  then have "\<not> flowID t + 1 \<le> flowID t" by (simp add: word_le_nat_alt)
  then show "map_load (flowToRXCallbackMap t) (flowID t') = None"
    using bound assms(3) by (auto simp: flow_bound_def flow_defs split: option.splits)
qed (use assms(3) in \<open>auto simp: flow_defs split: option.splits\<close>)

end
