(* ===== verification/Spec2Isabelle.thy ===== *)
theory Spec2Isabelle
  imports Direct_Publisher SDT Config_Format Service_Concurrency Receiver_Concurrency Cache_Concurrency
    Persistent_Concurrency Request_Concurrency Endpoint_Provisioner Flow_Concurrency
    Request_Receiver Service_Builder C_Callbacks
begin

text \<open>
  \<^bold>\<open>A verification library for the PubSub+ Go client.\<close>

  \<^bold>\<open>The program.\<close> The client is a Go library on top of a messaging library in C. A \<^emph>\<open>messaging service\<close>
  (\<^verbatim>\<open>internal/impl/messaging_service_impl.go\<close>) owns a \<^emph>\<open>transport\<close> (\<^verbatim>\<open>internal/impl/core\<close>), which wraps
  a session of the C library with an event service, a core publisher, a core receiver, metrics and an
  endpoint provisioner. Applications build \<^emph>\<open>publishers\<close> and \<^emph>\<open>receivers\<close> on the service
  (\<^verbatim>\<open>internal/impl/publisher\<close>, \<^verbatim>\<open>internal/impl/receiver\<close>); these run goroutines that talk over channels,
  use an executor for listener calls, and register handlers with the event service. The parts interact
  through calls, channels and registered closures; the hard questions are about orderings: what happens to
  tasks, messages and acknowledgements when publishing, sending, acknowledging and terminating
  run at the same time.

  \<^bold>\<open>Conventions.\<close> Each theory opens with what it models. Go's fixed-width integers are words;
  a channel is a record of its contents, its capacity and whether it is closed, and blocking, panics and
  normal returns are the three cases of an outcome; a channel that is only ever closed is a boolean. A
  formatted message is its format with its arguments. Logging is left out. Maps that the code iterates
  are association lists. Whatever the C library answers is an argument of the operation that calls it.
  Operations that hold a lock over their whole body are functions on the state; where goroutines
  interleave, there is a step relation with one step per atomic access, lock operation or channel
  operation, and the theorems quantify over all its runs. There is no fuel in any operation: the
  functions are total, and loops that wait for other goroutines are step relations whose termination is
  stated by a bound on the number of steps together with progress.

  \<^bold>\<open>Theories.\<close>

  \<^item> \<^verbatim>\<open>Go_Prelude\<close>: integers, association lists, errors, channels, futures, compare and swap; the
    interfaces as locales: first-in first-out queues (plain, bounded, unbounded) and registries of
    numbered handlers.
  \<^item> \<^verbatim>\<open>Go_Strconv\<close>: decimal and hexadecimal printing and parsing as \<^verbatim>\<open>strconv\<close> and \<^verbatim>\<open>fmt\<close> do it.
  \<^item> \<^verbatim>\<open>Core_Errors\<close>: error texts, error information of the C library, translation by sub code.
  \<^item> \<^verbatim>\<open>Core_Events\<close>: the event service; it provides the registry interface.
  \<^item> \<^verbatim>\<open>Correlation_Tag\<close>: the tags that carry acknowledgements back to their publisher.
  \<^item> \<^verbatim>\<open>Core_Publisher\<close>: acknowledgement dispatch, the requestor with its reply topics and lock, the
    can-send signal, start and termination, and the publish loop as a step relation.
  \<^item> \<^verbatim>\<open>Executor\<close>: the growing task queue; sequentially an unbounded queue (by the interface), concurrently
    a step relation with both read-write locks.
  \<^item> \<^verbatim>\<open>Task_Buffer\<close>: the bounded task queue between a publisher and the transport, with graceful and
    ungraceful termination.
  \<^item> \<^verbatim>\<open>Lifecycle\<close>: the states of publishers and receivers; the sequential contract is a locale,
    interpreted for either side, and the atomic accesses of concurrent callers are a step relation.
  \<^item> \<^verbatim>\<open>Validation\<close>: property validators and the back-pressure configuration.
  \<^item> \<^verbatim>\<open>Direct_Publisher\<close>: the direct message publisher, built from the life cycle, the task buffer, the
    executor and the event service.
  \<^item> \<^verbatim>\<open>Persistent_Publisher\<close>: the persistent message publisher with its table of correlation contexts, as
    uninterrupted calls; \<^verbatim>\<open>Persistent_Concurrency\<close>: publishing callers, send tasks, acknowledgements and a
    termination, interleaved.
  \<^item> \<^verbatim>\<open>Request_Publisher\<close>: the request-reply publisher with its table of waiting requests; \<^verbatim>\<open>Request_Concurrency\<close>:
    requests, replies, time limits, a termination and a down event, interleaved, for the unbuffered publisher.
  \<^item> \<^verbatim>\<open>SDT\<close>: structured data, its conversions and getters. \<^verbatim>\<open>Config_Format\<close>: property maps and their JSON form.
  \<^item> \<^verbatim>\<open>Metrics\<close>: the counters of the client and of the session, and what is left of them after disconnection.
  \<^item> \<^verbatim>\<open>Correlations\<close>: the table of pending confirmations as an interface, with \<^verbatim>\<open>Core_Receiver\<close> (subscriptions,
    dispatch of messages) and \<^verbatim>\<open>Core_Provisioner\<close> (provisioning of endpoints) as its two implementations.
  \<^item> \<^verbatim>\<open>Transport\<close>: connection, disconnection and closing of the session with its parts. \<^verbatim>\<open>Messaging_Service\<close>: the
    life cycle of the service, its listeners and the events of the session, as uninterrupted calls;
    \<^verbatim>\<open>Service_Concurrency\<close>: the same calls interleaved.
  \<^item> \<^verbatim>\<open>Direct_Receiver\<close>: subscriptions, start, back pressure and the builder of the direct receiver;
    \<^verbatim>\<open>Receiver_Concurrency\<close>: its message callback, its goroutines and its termination, interleaved.
  \<^item> \<^verbatim>\<open>Cache_Requests\<close>: the requests for cached messages, and the event that ends one; \<^verbatim>\<open>Cache_Concurrency\<close>: the calls
    that make them, the events of the C library, the goroutine that processes these, and the tear-down, interleaved.
  \<^item> \<^verbatim>\<open>Endpoint_Provisioner\<close>: the provisioner that applications use: its property map, the list of properties
    for the C library, and the calls that provision and deprovision a queue.
  \<^item> \<^verbatim>\<open>Persistent_Receiver\<close>: the persistent message receiver with its flow, as uninterrupted calls, and its builder;
    \<^verbatim>\<open>Flow_Concurrency\<close>: its message callback, its dispatching goroutine, callers of \<^verbatim>\<open>ReceiveMessage\<close>, \<^verbatim>\<open>Pause\<close> and
    \<^verbatim>\<open>Resume\<close> and a termination, interleaved, from the moment at which \<^verbatim>\<open>Start\<close> has stored the started state.
  \<^item> \<^verbatim>\<open>Message_Data\<close>: structured data written into the containers of the C library and read back; \<^verbatim>\<open>Messages\<close>: the
    properties, payloads, trace contexts and disposal of messages, and their builder (\<^verbatim>\<open>internal/impl/message\<close>).
    \<^verbatim>\<open>Service_Builder\<close>: the builder of the messaging service with its table of properties and its strategies;
    \<^verbatim>\<open>C_Callbacks\<close>: which Go function the messages and events of a session or a flow reach, and the errors made of return codes;
    \<^verbatim>\<open>Request_Receiver\<close>: the request-reply receiver, which adds repliers and replies to a direct receiver.

  \<^bold>\<open>What is shown.\<close> For the queues: no task or message is lost, duplicated or reordered under any
  interleaving, termination drains or accounts for what is left, and the goroutines return within a
  bounded number of their own steps; the executor, however, can reach a deadlock, which is a
  theorem. For the registries: a registration is found under its number, a removal restores the previous
  state, acknowledgements and replies reach exactly the handler they belong to; a reply that finds
  no handler leaves a lock held, which is a theorem too. For the life cycle: one start and one
  termination at most, no step backwards, no lost wake-up. For data: tags and integers survive encoding
  and conversion exactly, or an error says that they do not fit. For configuration: validation agrees with
  its specification on every input.

  For the service and the receivers: the states only move forward, one caller connects and one disconnects, and a
  message that arrives is delivered, kept, or counted as discarded but for one; a cache request is answered
  once. The persistent receiver accounts for every message, its flow is not left stopped by back pressure once it is started, no call of
  \<^verbatim>\<open>Resume\<close> is lost, and the steps of a termination, up to the wait for its executor, can always be finished; a start is all or nothing; the properties of its flow,
  and those of a provisioned endpoint, are exactly the ones that were set. For the persistent publisher: the acknowledgement of a message reaches its own context, and a buffered
  publisher that is given the time to drain resolves every accepted message exactly once. For messages: each property that is given is set by the one call that a separate table of the fourteen names asks for, or named in an error,
  payloads and user properties read back as they were given, up to the changes that the theorems state, and a reply goes to the destination of its
  request and nowhere else. For the builder of the service: each setting of the session is the one that was configured for it, again by a
  separate table, or its default, but for the two socket buffers, which the code exchanges;
  validation accepts exactly the strategies that are complete, and no secret is printed. For requests of an unbuffered publisher: each has one outcome, its own reply or an error, and its
  handler is called once. The races that the code leaves open (a disconnection nobody has begun, a lost down event, a dropped message in
  no metric, a leaked lock, a cache event on a closed channel, a cache event lost to a reused pointer, a publish
  that makes an acknowledgement panic or a termination wait for ever, a message reported as persisted and as
  failed, a request that panics, waits for ever or loses its reply) are runs of the model, proved as such.

  \<^bold>\<open>Limits of the step relations.\<close> In all of them but that of \<^verbatim>\<open>Executor\<close> itself an executor is an unbounded queue
  and \<^verbatim>\<open>Submit\<close> one step that returns. Since \<^verbatim>\<open>Submit\<close> can hang in the code (\<open>executor_deadlock\<close>), what is said about reached states
  carries over, but nothing about the progress of a goroutine that calls it, or of a termination that waits for the executor. \<^verbatim>\<open>Direct_Publisher\<close>:
  publishing, with its \<^verbatim>\<open>Submit\<close> to the task buffer, is one step; the end of the transport and the drain of the buffer
  are operations with theorems of their own, not steps. \<^verbatim>\<open>Request_Concurrency\<close>: the publisher has no buffer, so there is no send task and no
  drain. \<^verbatim>\<open>Cache_Concurrency\<close>: whether the C library uses a session pointer again is a parameter of the relation. \<^verbatim>\<open>Core_Receiver\<close>: a wait for
  a confirmation that would block is left undone, so that only the thread of the events is known never to block.
  \<^verbatim>\<open>Receiver_Concurrency\<close>: a termination runs from the return of \<^verbatim>\<open>cleanupSubscriptions\<close> to the call of \<^verbatim>\<open>teardownCache\<close>. \<^verbatim>\<open>Flow_Concurrency\<close>: it starts
  with an empty buffer and a running flow, and the deferred calls at the end of a termination are one step. In both receivers the timer may fire for every
  grace period, as that of the code does (the documentation says otherwise for a negative one). An \<^verbatim>\<open>int\<close> has 64 bits throughout, also in the
  conversions of \<^verbatim>\<open>SDT\<close>, where the code asks the platform for its size.

  \<^bold>\<open>Not modelled.\<close> Readers of messages that only hand over one answer of the C library. The
  bindings to the C library (each is one call into C, whose answer is an argument here; those that convert data
  or keep tables are modelled in \<^verbatim>\<open>Message_Data\<close>, \<^verbatim>\<open>Messages\<close> and \<^verbatim>\<open>C_Callbacks\<close>), code generators, logging, samples and tests.
\<close>

end
